(* ===== verification/Prelude.thy ===== *)
theory Prelude
  imports Main "HOL-Library.AList" "HOL-Library.Char_ord" "HOL-Library.List_Lexorder"
begin

text \<open>
  The vocabulary shared by all components: Go results (a value, an \<open>error\<close> or a panic), 64 bit
  signed integers with their wrap-around, \<open>time.Time\<close>, Go maps and slices of bytes, and the
  parts of \<open>errors\<close> and \<open>fmt\<close> the source uses.

  Go strings and byte slices are sequences of bytes; both are \<^typ>\<open>string\<close>, whose characters
  are bytes.
\<close>

section \<open>Automation collections\<close>

text \<open>
  \<open>go_simps\<close> holds the unfolding of the small accessors on Go maps and results, \<open>frame_simps\<close>
  the facts that an operation leaves a field alone.
\<close>

named_theorems go_simps
named_theorems frame_simps

section \<open>64 bit integers and time\<close>

text \<open>\<open>int64\<close> and \<open>int\<close> are unbounded integers, wrapped after the operations that can overflow.\<close>

definition i64 :: "int \<Rightarrow> int" where
  "i64 x = (x + 2 ^ 63) mod 2 ^ 64 - 2 ^ 63"

definition in_i64 :: "int \<Rightarrow> bool" where
  "in_i64 x \<longleftrightarrow> - (2 ^ 63) \<le> x \<and> x < 2 ^ 63"

lemma i64_id [simp]: "in_i64 x \<Longrightarrow> i64 x = x"
  by (simp add: i64_def in_i64_def)

lemma in_i64_i64: "in_i64 (i64 x)"
  by (simp add: i64_def in_i64_def)

lemma in_i64_small: "0 \<le> x \<Longrightarrow> x < 2 ^ 63 \<Longrightarrow> in_i64 x"
  by (simp add: in_i64_def)

text \<open>
  A \<open>time.Time\<close> is its distance from the Unix epoch in nanoseconds; the zero value of Go is
  the first of January of year 1.  Locations and the monotonic reading play no part in what the
  code compares.
\<close>

type_synonym time = int

definition zero_time :: time where
  "zero_time = - 62135596800 * 10 ^ 9"

definition IsZero :: "time \<Rightarrow> bool" where
  "IsZero t \<longleftrightarrow> t = zero_time"

definition UnixMilli :: "time \<Rightarrow> int" where
  "UnixMilli t = i64 (t div 10 ^ 6)"

definition Unix :: "time \<Rightarrow> int" where
  "Unix t = i64 (t div 10 ^ 9)"

definition time_UnixMilli :: "int \<Rightarrow> time" where
  "time_UnixMilli ms = ms * 10 ^ 6"

definition time_Unix :: "int \<Rightarrow> int \<Rightarrow> time" where
  "time_Unix sec nsec = sec * 10 ^ 9 + nsec"

lemma UnixMilli_time_UnixMilli [simp]: "in_i64 ms \<Longrightarrow> UnixMilli (time_UnixMilli ms) = ms"
  by (simp add: UnixMilli_def time_UnixMilli_def)

lemma Unix_time_Unix [simp]: "in_i64 sec \<Longrightarrow> Unix (time_Unix sec 0) = sec"
  by (simp add: Unix_def time_Unix_def)

section \<open>Errors, panics and results\<close>

text \<open>
  An \<open>error\<close> value of Go. \<open>Errorw pre e post\<close> is \<open>fmt.Errorf\<close> with \<open>%w\<close>: it keeps the wrapped
  error for \<open>errors.Is\<close> and \<open>errors.As\<close>. \<open>NumError\<close> is the error of the \<open>strconv\<close> parsers.
\<close>

datatype error =
    Errorf string
  | ErrNotFound
  | ErrFlowNotFound
  | ErrRevMismatch "string list"
  | NumError string string string
  | Errorw string error string

text \<open>What a call yields: its value, an error, or a panic with its message.\<close>

datatype 'a outcome = Ok 'a | Err error | Panic string

fun is_ok :: "'a outcome \<Rightarrow> bool" where
  "is_ok (Ok _) = True"
| "is_ok _ = False"

definition nil_deref :: "'a outcome" where
  "nil_deref = Panic ''invalid memory address or nil pointer dereference''"

fun obind :: "'a outcome \<Rightarrow> ('a \<Rightarrow> 'b outcome) \<Rightarrow> 'b outcome" where
  "obind (Ok x) f = f x"
| "obind (Err e) f = Err e"
| "obind (Panic p) f = Panic p"

lemma obind_Ok_iff: "obind r f = Ok y \<longleftrightarrow> (\<exists>x. r = Ok x \<and> f x = Ok y)"
  by (cases r) auto

lemma is_ok_iff: "is_ok r \<longleftrightarrow> (\<exists>x. r = Ok x)"
  by (cases r) auto

fun join :: "string \<Rightarrow> string list \<Rightarrow> string" where
  "join sep [] = []"
| "join sep [s] = s"
| "join sep (s # ss) = s @ sep @ join sep ss"

text \<open>\<open>%q\<close> on printable text.\<close>

definition quote :: "string \<Rightarrow> string" where
  "quote s = CHR 0x22 # s @ [CHR 0x22]"

section \<open>Go maps\<close>

text \<open>
  A Go map with string keys. \<open>None\<close> is the nil map; \<open>Some es\<close> holds its entries in the order in
  which a \<open>range\<close> over it visits them. Go fixes no such order: the theorems quantify over the
  entry list, hence over every order.
\<close>

type_synonym 'v gomap = "(string \<times> 'v) list option"
type_synonym strmap = "string gomap"

definition gm_entries :: "'v gomap \<Rightarrow> (string \<times> 'v) list" where
  "gm_entries m = (case m of None \<Rightarrow> [] | Some es \<Rightarrow> es)"

definition gm_lookup :: "'v gomap \<Rightarrow> string \<Rightarrow> 'v option" where
  "gm_lookup m k = map_of (gm_entries m) k"

text \<open>\<open>m[k]\<close> on a \<open>map[string]string\<close>: the empty string when the key is missing.\<close>

definition gm_str :: "strmap \<Rightarrow> string \<Rightarrow> string" where
  "gm_str m k = (case gm_lookup m k of None \<Rightarrow> [] | Some v \<Rightarrow> v)"

text \<open>\<open>if m == nil { m = make(...) }; m[k] = v\<close>, the guarded store of all the setters.\<close>

definition gm_set :: "'v gomap \<Rightarrow> string \<Rightarrow> 'v \<Rightarrow> 'v gomap" where
  "gm_set m k v = Some (AList.update k v (gm_entries m))"

definition gm_delete :: "'v gomap \<Rightarrow> string \<Rightarrow> 'v gomap" where
  "gm_delete m k = map_option (AList.delete k) m"

definition gm_len :: "'v gomap \<Rightarrow> nat" where
  "gm_len m = length (gm_entries m)"

text \<open>\<open>for k, v := range src { set(dst, k, v) }\<close>.\<close>

definition gm_merge :: "'v gomap \<Rightarrow> 'v gomap \<Rightarrow> 'v gomap" where
  "gm_merge src dst = fold (\<lambda>(k, v) m. gm_set m k v) (gm_entries src) dst"

text \<open>The keys of a Go map are distinct.\<close>

definition gm_wf :: "'v gomap \<Rightarrow> bool" where
  "gm_wf m \<longleftrightarrow> distinct (map fst (gm_entries m))"

lemma gm_entries_simps [simp]: "gm_entries None = []" "gm_entries (Some es) = es"
  by (simp_all add: gm_entries_def)

lemma gm_wf_None [simp]: "gm_wf None"
  by (simp add: gm_wf_def)

lemma gm_wf_set [simp]: "gm_wf m \<Longrightarrow> gm_wf (gm_set m k v)"
  by (simp add: gm_wf_def gm_set_def distinct_update)

lemma gm_lookup_None [simp]: "gm_lookup None k = None"
  by (simp add: gm_lookup_def)

lemma gm_lookup_set [simp]: "gm_lookup (gm_set m k v) k' = (if k' = k then Some v else gm_lookup m k')"
  by (simp add: gm_lookup_def gm_set_def update_conv')

lemma gm_lookup_delete [simp]: "gm_lookup (gm_delete m k) k' = (if k' = k then None else gm_lookup m k')"
  by (cases m) (auto simp: gm_lookup_def gm_delete_def delete_conv' delete_idem map_of_eq_None_iff dom_map_of_conv_image_fst)

lemma gm_merge_simps [simp]:
  "gm_merge None dst = dst"
  "gm_merge (Some []) dst = dst"
  "gm_merge (Some ((k, v) # es)) dst = gm_merge (Some es) (gm_set dst k v)"
  by (simp_all add: gm_merge_def)

lemma gm_wf_merge [simp]: "gm_wf dst \<Longrightarrow> gm_wf (gm_merge src dst)"
proof (cases src)
  case (Some es)
  have "gm_wf dst \<Longrightarrow> gm_wf (gm_merge (Some es) dst)"
    by (induction es arbitrary: dst) auto
  then show "gm_wf dst \<Longrightarrow> gm_wf (gm_merge src dst)" using Some by simp
qed simp

text \<open>A merge writes the source's entries over the destination's and keeps the others.\<close>

lemma gm_lookup_merge:
  assumes "gm_wf src"
  shows "gm_lookup (gm_merge src dst) k
    = (case gm_lookup src k of None \<Rightarrow> gm_lookup dst k | Some v \<Rightarrow> Some v)"
proof (cases src)
  case None
  then show ?thesis by simp
next
  case (Some es)
  have "distinct (map fst es) \<Longrightarrow> gm_lookup (gm_merge (Some es) dst) k
    = (case map_of es k of None \<Rightarrow> gm_lookup dst k | Some v \<Rightarrow> Some v)"
  proof (induction es arbitrary: dst)
    case (Cons e es)
    obtain a b where "e = (a, b)" by (cases e)
    moreover from this Cons.prems have "map_of es a = None"
      by (simp add: map_of_eq_None_iff)
    ultimately show ?case
      using Cons.prems Cons.IH [of "gm_set dst a b"] by (auto split: option.splits)
  qed simp
  with assms Some show ?thesis by (simp add: gm_wf_def gm_lookup_def)
qed

text \<open>Into a nil map a merge copies; the order of the entries is kept.\<close>

lemma fold_set_fresh:
  "distinct (map fst (es @ fs)) \<Longrightarrow>
    fold (\<lambda>(k, v) m. gm_set m k v) fs (Some es) = Some (es @ fs)"
proof (induction fs arbitrary: es)
  case Nil
  then show ?case by simp
next
  case (Cons f fs)
  obtain k v where f: "f = (k, v)" by (cases f)
  from Cons.prems f have "k \<notin> fst ` set es" by auto
  then have "gm_set (Some es) k v = Some (es @ [(k, v)])"
    by (induction es) (auto simp: gm_set_def)
  moreover have "distinct (map fst ((es @ [(k, v)]) @ fs))"
    using Cons.prems f by auto
  ultimately show ?case using Cons.IH [of "es @ [(k, v)]"] f by simp
qed

lemma gm_merge_None:
  "gm_wf src \<Longrightarrow> gm_merge src None = (if gm_entries src = [] then None else src)"
proof (cases src)
  case (Some es)
  assume wf: "gm_wf src"
  show ?thesis
  proof (cases es)
    case Nil
    then show ?thesis using Some by simp
  next
    case (Cons e es')
    obtain k v where e: "e = (k, v)" by (cases e)
    have "distinct (map fst ([(k, v)] @ es'))"
      using wf Some Cons e by (simp add: gm_wf_def)
    from fold_set_fresh [OF this] show ?thesis
      using Some Cons e by (simp add: gm_merge_def gm_set_def)
  qed
qed simp

section \<open>Formatting of maps\<close>

text \<open>\<open>fmt\<close> with \<open>%v\<close> prints a map with its keys sorted.\<close>

definition fmt_map :: "strmap \<Rightarrow> string" where
  "fmt_map m = ''map['' @ join '' '' (map (\<lambda>(k, v). k @ '':'' @ v) (sort_key fst (gm_entries m))) @ '']''"

section \<open>The rest of a list\<close>

lemma length_filter_mono:
  "\<forall>y \<in> set xs. Q y \<longrightarrow> P y \<Longrightarrow> length (filter Q xs) \<le> length (filter P xs)"
  by (induction xs) (auto simp: le_SucI)

lemma length_filter_less:
  assumes "x \<in> set xs" "P x" "\<not> Q x" "\<forall>y \<in> set xs. Q y \<longrightarrow> P y"
  shows "length (filter Q xs) < length (filter P xs)"
proof -
  from assms(1) obtain ys zs where xs: "xs = ys @ x # zs" by (meson split_list)
  have "length (filter Q ys) \<le> length (filter P ys)" "length (filter Q zs) \<le> length (filter P zs)"
    using assms(4) xs by (auto intro: length_filter_mono)
  then show ?thesis using assms(2,3) xs by simp
qed

lemma sorted_last:
  "sorted_wrt (\<lambda>x y. f x < (f y :: int)) xs \<Longrightarrow> e \<in> set xs \<Longrightarrow> f e \<le> f (last xs)"
  by (induction xs rule: rev_induct) (auto simp: sorted_wrt_append)

end
