(* ===== verification/Easyproto.thy ===== *)
theory Easyproto
  imports Prelude
begin

text \<open>
  The interface to \<open>github.com/VictoriaMetrics/easyproto\<close>, the package that turns messages into
  protobuf bytes and back. It is not part of the repository, so it is a parameter: a record of the
  functions the source calls. \<open>easyproto_laws\<close> states what the source relies on, and the wire
  format of protobuf, written out at the end of this theory, satisfies it.
\<close>

section \<open>The package as a parameter\<close>

text \<open>The calls made on a \<open>MessageMarshaler\<close>, in order: a field number and what was appended.\<close>

datatype pb_val = PString string | PInt64 int | PBool bool | PMsg "(nat \<times> pb_val) list"

type_synonym pb_msg = "(nat \<times> pb_val) list"

text \<open>\<open>'c\<close> is the type of a \<open>FieldContext\<close> after a successful \<open>NextField\<close>.\<close>

record 'c easyproto =
  ep_Marshal :: "pb_msg \<Rightarrow> string"
  ep_NextField :: "string \<Rightarrow> ('c \<times> string) option"
  ep_FieldNum :: "'c \<Rightarrow> nat"
  ep_String :: "'c \<Rightarrow> string option"
  ep_Int64 :: "'c \<Rightarrow> int option"
  ep_Bool :: "'c \<Rightarrow> bool option"
  ep_MessageData :: "'c \<Rightarrow> string option"

fun ep_reads :: "'c easyproto \<Rightarrow> 'c \<Rightarrow> pb_val \<Rightarrow> bool" where
  "ep_reads E fc (PString s) = (ep_String E fc = Some s)"
| "ep_reads E fc (PInt64 i) = (in_i64 i \<longrightarrow> ep_Int64 E fc = Some i)"
| "ep_reads E fc (PBool b) = (ep_Bool E fc = Some b)"
| "ep_reads E fc (PMsg m) = (ep_MessageData E fc = Some (ep_Marshal E m))"

section \<open>The loop over the fields of a message\<close>

text \<open>
  \<open>for len(src) > 0 { src, err = fc.NextField(src); ... switch fc.FieldNum { ... } }\<close>, the loop of
  every \<open>Unmarshal\<close> function; \<open>body\<close> is the switch. The length guard only serves termination: a
  \<open>NextField\<close> that satisfies the laws always returns a shorter tail.
\<close>

function fieldLoop ::
  "'c easyproto \<Rightarrow> ('c \<Rightarrow> 's \<Rightarrow> 's \<times> unit outcome) \<Rightarrow> string \<Rightarrow> 's \<Rightarrow> 's \<times> unit outcome" where
  "fieldLoop E body src s =
    (if src = [] then (s, Ok ())
     else case ep_NextField E src of
       None \<Rightarrow> (s, Err (Errorf ''cannot read next field''))
     | Some (fc, rest) \<Rightarrow>
         (case body fc s of
            (s', Ok _) \<Rightarrow>
              (if length rest < length src then fieldLoop E body rest s'
               else (s', Panic ''NextField does not advance''))
          | r \<Rightarrow> r))"
  by pat_completeness auto
termination
  by (relation "measure (\<lambda>(E, body, src, s). length src)") auto

declare fieldLoop.simps [simp del]

text \<open>What every case of the switch keeps, the loop keeps, whatever the bytes.\<close>

lemma fieldLoop_inv:
  assumes "\<And>fc s. P s \<Longrightarrow> P (fst (body fc s))" "P s"
  shows "P (fst (fieldLoop E body src s))"
  using assms(2)
proof (induction "length src" arbitrary: src s rule: less_induct)
  case less
  note body = assms(1) [OF less.prems]
  show ?case
  proof (cases "src = [] \<or> ep_NextField E src = None")
    case True
    with less.prems show ?thesis by (subst fieldLoop.simps) auto
  next
    case False
    then obtain fc rest where nx: "ep_NextField E src = Some (fc, rest)" by auto
    obtain s' r where bd: "body fc s = (s', r)" by (cases "body fc s")
    with body [of fc] have "P s'" by simp
    then show ?thesis
      using False nx bd less.hyps [of rest s'] by (subst fieldLoop.simps) (cases r; simp)
  qed
qed

text \<open>The shapes of a case of the switch: read a scalar and store it, or descend into a message.\<close>

definition rd_string :: "'c easyproto \<Rightarrow> 'c \<Rightarrow> string \<Rightarrow> (string \<Rightarrow> 's) \<Rightarrow> 's \<Rightarrow> 's \<times> unit outcome" where
  "rd_string E fc msg store s =
    (case ep_String E fc of None \<Rightarrow> (s, Err (Errorf msg)) | Some v \<Rightarrow> (store v, Ok ()))"

definition rd_int64 :: "'c easyproto \<Rightarrow> 'c \<Rightarrow> string \<Rightarrow> (int \<Rightarrow> 's) \<Rightarrow> 's \<Rightarrow> 's \<times> unit outcome" where
  "rd_int64 E fc msg store s =
    (case ep_Int64 E fc of None \<Rightarrow> (s, Err (Errorf msg)) | Some v \<Rightarrow> (store v, Ok ()))"

definition rd_bool :: "'c easyproto \<Rightarrow> 'c \<Rightarrow> string \<Rightarrow> (bool \<Rightarrow> 's) \<Rightarrow> 's \<Rightarrow> 's \<times> unit outcome" where
  "rd_bool E fc msg store s =
    (case ep_Bool E fc of None \<Rightarrow> (s, Err (Errorf msg)) | Some v \<Rightarrow> (store v, Ok ()))"

definition rd_message ::
  "'c easyproto \<Rightarrow> 'c \<Rightarrow> string \<Rightarrow> (string \<Rightarrow> 's \<times> unit outcome) \<Rightarrow> 's \<Rightarrow> 's \<times> unit outcome" where
  "rd_message E fc msg cont s =
    (case ep_MessageData E fc of None \<Rightarrow> (s, Err (Errorf msg)) | Some data \<Rightarrow> cont data)"

lemmas rd_defs = rd_string_def rd_int64_def rd_bool_def rd_message_def

text \<open>\<open>fmt.Errorf("...: %w", err)\<close> around the result of a nested call.\<close>

fun wrap_err :: "string \<Rightarrow> 'a outcome \<Rightarrow> 'a outcome" where
  "wrap_err msg (Err e) = Err (Errorw msg e [])"
| "wrap_err msg r = r"

section \<open>What the source relies on\<close>

locale easyproto_laws =
  fixes E :: "'c easyproto"
  assumes marshal_Nil: "ep_Marshal E [] = []"
    and marshal_Cons: "ep_Marshal E (f # fs) \<noteq> []"
    and next_Cons: "0 < n \<Longrightarrow> n < 2 ^ 29 \<Longrightarrow>
      \<exists>fc. ep_NextField E (ep_Marshal E ((n, v) # fs)) = Some (fc, ep_Marshal E fs)
        \<and> ep_FieldNum E fc = n \<and> ep_reads E fc v"
    and next_shrinks: "ep_NextField E src = Some (fc, rest) \<Longrightarrow> length rest < length src"
    and message_shrinks: "ep_NextField E src = Some (fc, rest) \<Longrightarrow> ep_MessageData E fc = Some data
      \<Longrightarrow> length data < length src"

text \<open>
  \<open>consumes E body fs s s'\<close>: the loop reads the fields \<open>fs\<close> at the front of a message, going from
  \<open>s\<close> to \<open>s'\<close>, whatever follows them.
\<close>

definition consumes ::
  "'c easyproto \<Rightarrow> ('c \<Rightarrow> 's \<Rightarrow> 's \<times> unit outcome) \<Rightarrow> pb_msg \<Rightarrow> 's \<Rightarrow> 's \<Rightarrow> bool" where
  "consumes E body fs s s' \<longleftrightarrow>
    (\<forall>rest. fieldLoop E body (ep_Marshal E (fs @ rest)) s = fieldLoop E body (ep_Marshal E rest) s')"

lemma consumes_Nil: "consumes E body [] s s"
  by (simp add: consumes_def)

lemma consumes_append:
  "consumes E body xs s s' \<Longrightarrow> consumes E body ys s' s'' \<Longrightarrow> consumes E body (xs @ ys) s s''"
  by (simp add: consumes_def)

text \<open>A field that is only written under a condition, and a field per element of a list.\<close>

lemma consumes_if:
  "(c \<Longrightarrow> consumes E body fs s s') \<Longrightarrow> (\<not> c \<Longrightarrow> s' = s) \<Longrightarrow> consumes E body (if c then fs else []) s s'"
  by (auto simp: consumes_Nil)

context easyproto_laws
begin

lemma fieldLoop_Nil: "fieldLoop E body (ep_Marshal E []) s = (s, Ok ())"
  by (simp add: marshal_Nil fieldLoop.simps)

lemma consumes_done: "consumes E body fs s s' \<Longrightarrow> fieldLoop E body (ep_Marshal E fs) s = (s', Ok ())"
  unfolding consumes_def by (drule spec [of _ "[]"]) (simp add: fieldLoop_Nil)

lemma consumes_field:
  assumes "0 < n" "n < 2 ^ 29"
    and "\<And>fc. ep_FieldNum E fc = n \<Longrightarrow> ep_reads E fc v \<Longrightarrow> body fc s = (s', Ok ())"
  shows "consumes E body [(n, v)] s s'"
proof -
  have "fieldLoop E body (ep_Marshal E ((n, v) # rest)) s = fieldLoop E body (ep_Marshal E rest) s'" for rest
  proof -
    obtain fc where fc: "ep_NextField E (ep_Marshal E ((n, v) # rest)) = Some (fc, ep_Marshal E rest)"
      "ep_FieldNum E fc = n" "ep_reads E fc v"
      using next_Cons assms(1,2) by meson
    have "length (ep_Marshal E rest) < length (ep_Marshal E ((n, v) # rest))"
      using fc(1) by (rule next_shrinks)
    moreover have "body fc s = (s', Ok ())" by (rule assms(3) [OF fc(2,3)])
    ultimately show ?thesis
      using fc(1) marshal_Cons by (subst fieldLoop.simps) simp
  qed
  then show ?thesis by (simp add: consumes_def)
qed

lemma stops_field:
  assumes "0 < n" "n < 2 ^ 29" "\<not> is_ok r"
    and "\<And>fc. ep_FieldNum E fc = n \<Longrightarrow> ep_reads E fc v \<Longrightarrow> body fc s = (s', r)"
  shows "fieldLoop E body (ep_Marshal E ((n, v) # fs)) s = (s', r)"
proof -
  obtain fc where "ep_NextField E (ep_Marshal E ((n, v) # fs)) = Some (fc, ep_Marshal E fs)"
    "ep_FieldNum E fc = n" "ep_reads E fc v"
    using next_Cons assms(1,2) by meson
  moreover from this have "body fc s = (s', r)" by (intro assms(4))
  ultimately show ?thesis
    using marshal_Cons assms(3) by (subst fieldLoop.simps) (cases r; simp)
qed

lemma consumes_map:
  assumes "\<And>x s. x \<in> set xs \<Longrightarrow> consumes E body [f x] s (g x s)"
  shows "consumes E body (map f xs) s (fold g xs s)"
  using assms
proof (induction xs arbitrary: s)
  case (Cons x xs)
  have "consumes E body ([f x] @ map f xs) s (fold g xs (g x s))"
    by (rule consumes_append [of _ _ _ _ "g x s"]) (use Cons in auto)
  then show ?case by simp
qed (simp add: consumes_Nil)

text \<open>Two switches that agree on the fields of the input give the same loop.\<close>

lemma fieldLoop_cong:
  assumes "\<And>src' fc rest s. length src' \<le> length src \<Longrightarrow> ep_NextField E src' = Some (fc, rest)
    \<Longrightarrow> body fc s = body' fc s"
  shows "fieldLoop E body src s = fieldLoop E body' src s"
  using assms
proof (induction "length src" arbitrary: src s rule: less_induct)
  case less
  show ?case
  proof (cases "src = [] \<or> ep_NextField E src = None")
    case True
    then show ?thesis by (subst (1 2) fieldLoop.simps) auto
  next
    case False
    then obtain fc rest where nx: "ep_NextField E src = Some (fc, rest)" by auto
    then have len: "length rest < length src" by (rule next_shrinks)
    have eq: "body fc s = body' fc s" by (rule less.prems [OF _ nx]) simp
    obtain s' r where b: "body' fc s = (s', r)" by fastforce
    have "fieldLoop E body rest s' = fieldLoop E body' rest s'"
      by (rule less.hyps [OF len], rule less.prems) (use len in auto)
    with False nx eq b show ?thesis
      by (subst (1 2) fieldLoop.simps) (cases r; simp)
  qed
qed

text \<open>A switch whose cases do not panic gives a loop that does not panic, whatever the bytes.\<close>

lemma fieldLoop_no_panic:
  assumes body: "\<And>fc s. snd (body fc s) \<noteq> Panic p"
  shows "snd (fieldLoop E body src s) \<noteq> Panic p"
proof (induction "length src" arbitrary: src s rule: less_induct)
  case less
  show ?case
  proof (cases "src = [] \<or> ep_NextField E src = None")
    case True
    then show ?thesis by (subst fieldLoop.simps) auto
  next
    case False
    then obtain fc rest where nx: "ep_NextField E src = Some (fc, rest)" by auto
    then have len: "length rest < length src" by (rule next_shrinks)
    obtain s' r where b: "body fc s = (s', r)" by fastforce
    show ?thesis
    proof (cases r)
      case (Panic q)
      with body [of fc s] b False nx show ?thesis by (subst fieldLoop.simps) auto
    qed (use False nx len b less in \<open>subst fieldLoop.simps; simp\<close>)+
  qed
qed

end

section \<open>The protobuf wire format\<close>

text \<open>
  Variable length integers, tags, and length-delimited fields, as the protobuf specification
  defines them: the instance of the interface at which the properties are exercised.
\<close>

fun varint :: "nat \<Rightarrow> string" where
  "varint n = (if n < 128 then [char_of n] else char_of (128 + n mod 128) # varint (n div 128))"

declare varint.simps [simp del]

fun unvarint :: "string \<Rightarrow> (nat \<times> string) option" where
  "unvarint [] = None"
| "unvarint (c # cs) =
    (let b = of_char c :: nat
     in if b < 128 then Some (b, cs)
        else map_option (\<lambda>(n, rest). (b - 128 + 128 * n, rest)) (unvarint cs))"

datatype wire_field = WVarint nat | WFixed64 string | WBytes string | WFixed32 string

fun wire_val :: "nat \<Rightarrow> pb_val \<Rightarrow> string" where
  "wire_val n (PString s) = varint (8 * n + 2) @ varint (length s) @ s"
| "wire_val n (PInt64 i) = varint (8 * n) @ varint (nat (i mod 2 ^ 64))"
| "wire_val n (PBool b) = varint (8 * n) @ varint (if b then 1 else 0)"
| "wire_val n (PMsg m) =
    (let body = concat (map (\<lambda>(k, v). wire_val k v) m)
     in varint (8 * n + 2) @ varint (length body) @ body)"

definition wire_Marshal :: "pb_msg \<Rightarrow> string" where
  "wire_Marshal m = concat (map (\<lambda>(k, v). wire_val k v) m)"

definition wire_take :: "nat \<Rightarrow> string \<Rightarrow> (string \<times> string) option" where
  "wire_take n s = (if n \<le> length s then Some (take n s, drop n s) else None)"

definition wire_NextField :: "string \<Rightarrow> ((nat \<times> wire_field) \<times> string) option" where
  "wire_NextField src =
    (case unvarint src of
       None \<Rightarrow> None
     | Some (tag, rest) \<Rightarrow>
         (let num = tag div 8 in
          if tag mod 8 = 0 then map_option (\<lambda>(v, r). ((num, WVarint v), r)) (unvarint rest)
          else if tag mod 8 = 1 then map_option (\<lambda>(v, r). ((num, WFixed64 v), r)) (wire_take 8 rest)
          else if tag mod 8 = 2 then
            (case unvarint rest of
               None \<Rightarrow> None
             | Some (len, rest') \<Rightarrow> map_option (\<lambda>(v, r). ((num, WBytes v), r)) (wire_take len rest'))
          else if tag mod 8 = 5 then map_option (\<lambda>(v, r). ((num, WFixed32 v), r)) (wire_take 4 rest)
          else None))"

definition wire_String :: "nat \<times> wire_field \<Rightarrow> string option" where
  "wire_String fc = (case snd fc of WBytes s \<Rightarrow> Some s | _ \<Rightarrow> None)"

definition wire_Int64 :: "nat \<times> wire_field \<Rightarrow> int option" where
  "wire_Int64 fc = (case snd fc of WVarint n \<Rightarrow> if n < 2 ^ 64 then Some (i64 (int n)) else None | _ \<Rightarrow> None)"

definition wire_Bool :: "nat \<times> wire_field \<Rightarrow> bool option" where
  "wire_Bool fc = (case snd fc of WVarint n \<Rightarrow> if n < 2 then Some (n = 1) else None | _ \<Rightarrow> None)"

definition wire :: "(nat \<times> wire_field) easyproto" where
  "wire = \<lparr>ep_Marshal = wire_Marshal, ep_NextField = wire_NextField, ep_FieldNum = fst,
    ep_String = wire_String, ep_Int64 = wire_Int64, ep_Bool = wire_Bool, ep_MessageData = wire_String\<rparr>"

lemma unvarint_varint: "unvarint (varint n @ rest) = Some (n, rest)"
proof (induction n rule: varint.induct)
  case (1 n)
  show ?case
  proof (cases "n < 128")
    case True
    then show ?thesis by (subst varint.simps) (simp add: Let_def)
  next
    case False
    with 1 have "unvarint (varint (n div 128) @ rest) = Some (n div 128, rest)" by simp
    with False show ?thesis
      by (subst varint.simps) (simp add: Let_def mod_less_divisor trans_less_add1)
  qed
qed

lemma varint_nonempty [simp]: "varint n \<noteq> []"
  by (subst varint.simps) simp

lemma unvarint_shrinks: "unvarint src = Some (n, rest) \<Longrightarrow> length rest < length src"
  by (induction src arbitrary: n) (auto simp: Let_def less_Suc_eq split: if_splits)

lemma wire_take_append: "wire_take (length s) (s @ rest) = Some (s, rest)"
  by (simp add: wire_take_def)

lemma wire_take_length: "wire_take n s = Some (v, r) \<Longrightarrow> length v + length r = length s"
  by (auto simp: wire_take_def split: if_splits)

lemma i64_mod: "in_i64 i \<Longrightarrow> i64 (i mod 2 ^ 64) = i"
proof -
  assume "in_i64 i"
  have "i64 (i mod 2 ^ 64) = i64 i"
    unfolding i64_def by (simp only: mod_add_left_eq)
  with \<open>in_i64 i\<close> show ?thesis by simp
qed

lemma tag_simps [simp]: "Suc (Suc (8 * n)) mod 8 = 2" "Suc (Suc (8 * n)) div 8 = n" for n :: nat
  by presburger+

lemma wire_next:
  "\<exists>fc. wire_NextField (wire_val n v @ rest) = Some ((n, fc), rest)
    \<and> ep_reads wire (n, fc) v"
proof (cases v)
  case (PInt64 i)
  have "nat (i mod 2 ^ 64) < 2 ^ 64" by (simp add: nat_less_iff)
  with PInt64 show ?thesis
    by (auto simp: wire_NextField_def unvarint_varint Let_def wire_def wire_Int64_def i64_mod [simplified])
next
  case (PMsg m)
  then show ?thesis
    by (auto simp: wire_NextField_def unvarint_varint Let_def wire_def wire_String_def
        wire_take_append wire_Marshal_def)
qed (auto simp: wire_NextField_def unvarint_varint Let_def wire_def wire_String_def
    wire_Bool_def wire_take_append)

lemma wire_NextField_shrinks:
  assumes "wire_NextField src = Some (fc, rest)"
  shows "length rest < length src"
    and "wire_String fc = Some data \<Longrightarrow> length data < length src"
  using assms
  by (auto simp: wire_NextField_def wire_String_def Let_def split: option.splits if_splits prod.splits
      dest!: unvarint_shrinks wire_take_length)

interpretation pbwire: easyproto_laws wire
proof
  show "ep_Marshal wire [] = []"
    by (simp add: wire_def wire_Marshal_def)
  show "ep_Marshal wire (f # fs) \<noteq> []" for f fs
    by (cases f; cases "snd f") (auto simp: wire_def wire_Marshal_def Let_def)
  show "\<exists>fc. ep_NextField wire (ep_Marshal wire ((n, v) # fs)) = Some (fc, ep_Marshal wire fs)
      \<and> ep_FieldNum wire fc = n \<and> ep_reads wire fc v" if "0 < n" "n < 2 ^ 29" for n v fs
    using wire_next [of n v "wire_Marshal fs"] by (auto simp: wire_def wire_Marshal_def)
  show "length rest < length src" if "ep_NextField wire src = Some (fc, rest)" for src fc rest
    using that wire_NextField_shrinks(1) by (simp add: wire_def)
  show "length data < length src"
    if "ep_NextField wire src = Some (fc, rest)" "ep_MessageData wire fc = Some data" for src fc rest data
    using that wire_NextField_shrinks(2) by (simp add: wire_def)
qed

end
