(* ===== verification/Strconv.thy ===== *)
theory Strconv
  imports Prelude
begin

text \<open>
  What the source uses of the standard packages \<open>strconv\<close> and \<open>encoding/base64\<close>: decimal
  printing and parsing of 64 bit integers, and the padded standard base64 encoding. Both come
  with their round trips, on which the round trips of annotations and messages rest.
\<close>

section \<open>Decimal integers\<close>

definition digit_char :: "nat \<Rightarrow> char" where
  "digit_char d = char_of (48 + d)"

definition char_digit :: "char \<Rightarrow> nat option" where
  "char_digit c = (let n = of_char c :: nat in if 48 \<le> n \<and> n \<le> 57 then Some (n - 48) else None)"

fun dec_nat :: "nat \<Rightarrow> string" where
  "dec_nat n = (if n < 10 then [digit_char n] else dec_nat (n div 10) @ [digit_char (n mod 10)])"

declare dec_nat.simps [simp del]

definition FormatUint :: "nat \<Rightarrow> string" where
  "FormatUint n = dec_nat n"

definition FormatInt :: "int \<Rightarrow> string" where
  "FormatInt i = (if i < 0 then CHR ''-'' # dec_nat (nat (- i)) else dec_nat (nat i))"

fun undec :: "nat \<Rightarrow> string \<Rightarrow> nat option" where
  "undec acc [] = Some acc"
| "undec acc (c # cs) = (case char_digit c of None \<Rightarrow> None | Some d \<Rightarrow> undec (10 * acc + d) cs)"

definition num_error :: "string \<Rightarrow> string \<Rightarrow> string \<Rightarrow> error" where
  "num_error fn s why = NumError fn s why"

text \<open>
  \<open>ParseInt(s, 10, 64)\<close> yields a value beside the error: 0 for a syntax error, the nearest bound
  when the number does not fit.
\<close>

definition ParseInt :: "string \<Rightarrow> int \<times> error option" where
  "ParseInt s =
    (let neg = (s \<noteq> [] \<and> hd s = CHR ''-'');
         body = (if s \<noteq> [] \<and> (hd s = CHR ''-'' \<or> hd s = CHR ''+'') then tl s else s)
     in if body = [] then (0, Some (num_error ''ParseInt'' s ''invalid syntax''))
        else case undec 0 body of
          None \<Rightarrow> (0, Some (num_error ''ParseInt'' s ''invalid syntax''))
        | Some n \<Rightarrow>
            if \<not> neg \<and> n \<ge> 2 ^ 63
            then (2 ^ 63 - 1, Some (num_error ''ParseInt'' s ''value out of range''))
            else if neg \<and> n > 2 ^ 63
            then (- (2 ^ 63), Some (num_error ''ParseInt'' s ''value out of range''))
            else (if neg then - int n else int n, None))"

definition Atoi :: "string \<Rightarrow> int \<times> error option" where
  "Atoi s = (case ParseInt s of
      (v, Some (NumError fn inp why)) \<Rightarrow> (v, Some (NumError ''Atoi'' inp why))
    | r \<Rightarrow> r)"

definition ParseUint :: "string \<Rightarrow> nat \<times> error option" where
  "ParseUint s =
    (if s = [] then (0, Some (num_error ''ParseUint'' s ''invalid syntax''))
     else case undec 0 s of
       None \<Rightarrow> (0, Some (num_error ''ParseUint'' s ''invalid syntax''))
     | Some n \<Rightarrow> if n \<ge> 2 ^ 64 then (2 ^ 64 - 1, Some (num_error ''ParseUint'' s ''value out of range''))
                 else (n, None))"

lemma char_digit_digit_char [simp]: "d < 10 \<Longrightarrow> char_digit (digit_char d) = Some d"
  by (simp add: char_digit_def digit_char_def)

lemma undec_append: "undec acc (xs @ ys) = (case undec acc xs of None \<Rightarrow> None | Some a \<Rightarrow> undec a ys)"
  by (induction xs arbitrary: acc) (auto split: option.splits)

lemma undec_dec_nat [simp]: "undec 0 (dec_nat n) = Some n"
proof (induction n rule: dec_nat.induct)
  case (1 n)
  show ?case
  proof (cases "n < 10")
    case True
    then show ?thesis by (subst dec_nat.simps) simp
  next
    case False
    with 1 have "undec 0 (dec_nat (n div 10)) = Some (n div 10)" by simp
    with False show ?thesis by (subst dec_nat.simps) (simp add: undec_append)
  qed
qed

lemma dec_nat_digits: "c \<in> set (dec_nat n) \<Longrightarrow> char_digit c \<noteq> None"
proof (induction n rule: dec_nat.induct)
  case (1 n)
  then show ?case by (subst (asm) dec_nat.simps) (auto split: if_splits)
qed

lemma dec_nat_nonempty [simp]: "dec_nat n \<noteq> []"
  by (subst dec_nat.simps) simp

lemma dec_nat_hd: "hd (dec_nat n) \<noteq> CHR ''-''" "hd (dec_nat n) \<noteq> CHR ''+''"
proof -
  have "char_digit (hd (dec_nat n)) \<noteq> None"
    by (rule dec_nat_digits [of _ n]) simp
  then show "hd (dec_nat n) \<noteq> CHR ''-''" "hd (dec_nat n) \<noteq> CHR ''+''"
    by (auto simp: char_digit_def Let_def)
qed

lemma FormatInt_nonempty [simp]: "FormatInt i \<noteq> []"
  by (simp add: FormatInt_def)

lemma ParseInt_FormatInt [simp]: "in_i64 i \<Longrightarrow> ParseInt (FormatInt i) = (i, None)"
  by (auto simp: ParseInt_def FormatInt_def in_i64_def Let_def dec_nat_hd)

lemma Atoi_FormatInt [simp]: "in_i64 i \<Longrightarrow> Atoi (FormatInt i) = (i, None)"
  by (simp add: Atoi_def)

lemma ParseUint_FormatUint [simp]: "n < 2 ^ 64 \<Longrightarrow> ParseUint (FormatUint n) = (n, None)"
  by (simp add: ParseUint_def FormatUint_def)

lemma FormatUint_nonempty [simp]: "FormatUint n \<noteq> []"
  by (simp add: FormatUint_def)

text \<open>Whatever it is given, \<open>ParseInt\<close> stays inside 64 bits.\<close>

lemma ParseInt_range: "in_i64 (fst (ParseInt s))"
  by (auto simp: ParseInt_def in_i64_def Let_def not_le not_less split: option.splits)

section \<open>Base64\<close>

definition b64_char :: "nat \<Rightarrow> char" where
  "b64_char n = char_of
    (if n < 26 then n + 65 else if n < 52 then n + 71 else if n < 62 then n - 4
     else if n = 62 then 43 else (47 :: nat))"

definition b64_val :: "char \<Rightarrow> nat option" where
  "b64_val c =
    (let n = of_char c :: nat in
     if 65 \<le> n \<and> n \<le> 90 then Some (n - 65)
     else if 97 \<le> n \<and> n \<le> 122 then Some (n - 71)
     else if 48 \<le> n \<and> n \<le> 57 then Some (n + 4)
     else if n = 43 then Some 62
     else if n = 47 then Some 63
     else None)"

text \<open>\<open>EncodeToString\<close>: three bytes become four characters, \<open>=\<close> pads the last group.\<close>

fun b64_encode :: "string \<Rightarrow> string" where
  "b64_encode [] = []"
| "b64_encode [a] =
    (let x = of_char a :: nat
     in [b64_char (x div 4), b64_char (x mod 4 * 16), CHR ''='', CHR ''=''])"
| "b64_encode [a, b] =
    (let x = of_char a :: nat; y = of_char b :: nat
     in [b64_char (x div 4), b64_char (x mod 4 * 16 + y div 16), b64_char (y mod 16 * 4), CHR ''=''])"
| "b64_encode (a # b # c # rest) =
    (let x = of_char a :: nat; y = of_char b :: nat; z = of_char c :: nat
     in b64_char (x div 4) # b64_char (x mod 4 * 16 + y div 16)
        # b64_char (y mod 16 * 4 + z div 64) # b64_char (z mod 64) # b64_encode rest)"

text \<open>
  \<open>DecodeString\<close> skips line breaks and reads groups of four; a padded group ends the input, and
  bits cut off by the padding are ignored.
\<close>

fun b64_groups :: "string \<Rightarrow> string option" where
  "b64_groups [] = Some []"
| "b64_groups (p # q # r # s # rest) =
    (case (b64_val p, b64_val q) of
      (Some v, Some w) \<Rightarrow>
        (if r = CHR ''='' then
           (if s = CHR ''='' \<and> rest = [] then Some [char_of (v * 4 + w div 16)] else None)
         else case b64_val r of
           None \<Rightarrow> None
         | Some x \<Rightarrow>
             (if s = CHR ''='' then
                (if rest = [] then Some [char_of (v * 4 + w div 16), char_of (w mod 16 * 16 + x div 4)]
                 else None)
              else case b64_val s of
                None \<Rightarrow> None
              | Some y \<Rightarrow>
                  map_option (\<lambda>tl. char_of (v * 4 + w div 16) # char_of (w mod 16 * 16 + x div 4)
                      # char_of (x mod 4 * 64 + y) # tl)
                    (b64_groups rest)))
    | _ \<Rightarrow> None)"
| "b64_groups _ = None"

definition b64_decode :: "string \<Rightarrow> string option" where
  "b64_decode s = b64_groups (filter (\<lambda>c. c \<noteq> CHR 0x0A \<and> c \<noteq> CHR 0x0D) s)"

lemma b64_char_props:
  assumes "n < 64"
  shows "b64_val (b64_char n) = Some n" "b64_char n \<noteq> CHR ''=''"
    "b64_char n \<noteq> CHR 0x0A" "b64_char n \<noteq> CHR 0x0D"
proof -
  have of_b64: "(of_char (b64_char n) :: nat) = (if n < 26 then n + 65 else if n < 52 then n + 71
      else if n < 62 then n - 4 else if n = 62 then 43 else 47)"
    using assms by (simp add: b64_char_def)
  with assms show "b64_val (b64_char n) = Some n"
    by (simp add: b64_val_def Let_def) arith
  have "(of_char (b64_char n) :: nat) \<noteq> of_char CHR ''=''"
    "(of_char (b64_char n) :: nat) \<noteq> of_char CHR 0x0A"
    "(of_char (b64_char n) :: nat) \<noteq> of_char CHR 0x0D"
    using assms by (auto simp: of_b64)
  then show "b64_char n \<noteq> CHR ''=''" "b64_char n \<noteq> CHR 0x0A" "b64_char n \<noteq> CHR 0x0D"
    by metis+
qed

lemma of_char_256: "(of_char c :: nat) < 256"
  by simp

lemma b64_parts:
  fixes x y z :: nat
  assumes "x < 256" "y < 256" "z < 256"
  shows "x div 4 < 64" "x mod 4 * 16 < 64" "x mod 4 * 16 + y div 16 < 64" "y mod 16 * 4 < 64"
    "y mod 16 * 4 + z div 64 < 64" "z mod 64 < 64"
proof -
  have "x div 4 < 64" "y div 16 < 16" "z div 64 < 4" using assms by auto
  moreover have "x mod 4 < 4" "y mod 16 < 16" "z mod 64 < 64" by auto
  ultimately show "x div 4 < 64" "x mod 4 * 16 < 64" "x mod 4 * 16 + y div 16 < 64"
    "y mod 16 * 4 < 64" "y mod 16 * 4 + z div 64 < 64" "z mod 64 < 64"
    by linarith+
qed

lemma div_lt_of_char [simp]: "(of_char c :: nat) div 16 < 16" "(of_char c :: nat) div 64 < 4"
  by (rule less_mult_imp_div_less, simp)+

lemma b64_groups_encode: "b64_groups (b64_encode s) = Some s"
proof (induction s rule: b64_encode.induct)
  case 1
  then show ?case by simp
next
  case (2 a)
  let ?x = "of_char a :: nat"
  note p = b64_parts [OF of_char_256 [of a] of_char_256 of_char_256]
  have "?x div 4 * 4 + ?x mod 4 * 16 div 16 = ?x" by simp
  then show ?case by (simp add: Let_def b64_char_props p)
next
  case (3 a b)
  let ?x = "of_char a :: nat" and ?y = "of_char b :: nat"
  note p = b64_parts [OF of_char_256 [of a] of_char_256 [of b] of_char_256]
  have "(?x mod 4 * 16 + ?y div 16) div 16 = ?x mod 4"
    and "(?x mod 4 * 16 + ?y div 16) mod 16 = ?y div 16"
    by (simp_all add: div_mult_self3 mod_mult_self3)
  moreover have "?y div 16 * 16 + ?y mod 16 * 4 div 4 = ?y" by simp
  ultimately show ?case by (simp add: Let_def b64_char_props p)
next
  case (4 a b c rest)
  let ?x = "of_char a :: nat" and ?y = "of_char b :: nat" and ?z = "of_char c :: nat"
  note p = b64_parts [OF of_char_256 [of a] of_char_256 [of b] of_char_256 [of c]]
  have "(?x mod 4 * 16 + ?y div 16) div 16 = ?x mod 4"
    and "(?x mod 4 * 16 + ?y div 16) mod 16 = ?y div 16"
    and "(?y mod 16 * 4 + ?z div 64) div 4 = ?y mod 16"
    and "(?y mod 16 * 4 + ?z div 64) mod 4 = ?z div 64"
    by (simp_all add: div_mult_self3 mod_mult_self3)
  with 4 show ?case by (simp add: Let_def b64_char_props p)
qed

lemma b64_encode_no_newline: "c \<in> set (b64_encode s) \<Longrightarrow> c \<noteq> CHR 0x0A \<and> c \<noteq> CHR 0x0D"
proof (induction s rule: b64_encode.induct)
  case (2 a)
  note p = b64_parts [OF of_char_256 [of a] of_char_256 of_char_256]
  from 2 show ?case by (auto simp: Let_def b64_char_props p)
next
  case (3 a b)
  note p = b64_parts [OF of_char_256 [of a] of_char_256 [of b] of_char_256]
  from 3 show ?case by (auto simp: Let_def b64_char_props p)
next
  case (4 a b c rest)
  note p = b64_parts [OF of_char_256 [of a] of_char_256 [of b] of_char_256 [of c]]
  from 4 show ?case by (auto simp: Let_def b64_char_props p)
qed simp

lemma b64_decode_encode [simp]: "b64_decode (b64_encode s) = Some s"
proof -
  have "filter (\<lambda>c. c \<noteq> CHR 0x0A \<and> c \<noteq> CHR 0x0D) (b64_encode s) = b64_encode s"
    by (rule filter_True) (use b64_encode_no_newline in blast)
  then show ?thesis by (simp add: b64_decode_def b64_groups_encode)
qed

lemma b64_encode_empty_iff [simp]: "b64_encode s = [] \<longleftrightarrow> s = []"
  by (cases s rule: b64_encode.cases) (auto simp: Let_def)

end
