(* ===== verification/Errors.thy ===== *)
theory Errors
  imports Prelude Strconv
begin

text \<open>
  \<open>errors.go\<close>: the text of an error, the search for a wrapped \<open>ErrNotFound\<close> or
  \<open>ErrRevMismatch\<close> (\<open>errors.Is\<close>, \<open>errors.As\<close>), and the predicates built on it.
\<close>

section \<open>The text of errors\<close>

fun ErrRevMismatch_loop :: "nat \<Rightarrow> string \<Rightarrow> string list \<Rightarrow> string" where
  "ErrRevMismatch_loop i msg [] = msg"
| "ErrRevMismatch_loop i msg (sid # ids) =
    ErrRevMismatch_loop (Suc i) ((if i > 0 then msg @ '', '' else msg) @ sid) ids"

definition ErrRevMismatch_Error :: "string list \<Rightarrow> string" where
  "ErrRevMismatch_Error ids = ErrRevMismatch_loop 0 ''rev mismatch: '' ids"

fun error_text :: "error \<Rightarrow> string" where
  "error_text (Errorf s) = s"
| "error_text ErrNotFound = ''state not found''"
| "error_text ErrFlowNotFound = ''flow not found''"
| "error_text (ErrRevMismatch ids) = ErrRevMismatch_Error ids"
| "error_text (NumError fn s why) = ''strconv.'' @ fn @ '': parsing '' @ quote s @ '': '' @ why"
| "error_text (Errorw pre e post) = pre @ error_text e @ post"

section \<open>Wrapped errors\<close>

fun Is_ErrNotFound :: "error \<Rightarrow> bool" where
  "Is_ErrNotFound ErrNotFound = True"
| "Is_ErrNotFound (Errorw _ e _) = Is_ErrNotFound e"
| "Is_ErrNotFound _ = False"

fun Is_ErrFlowNotFound :: "error \<Rightarrow> bool" where
  "Is_ErrFlowNotFound ErrFlowNotFound = True"
| "Is_ErrFlowNotFound (Errorw _ e _) = Is_ErrFlowNotFound e"
| "Is_ErrFlowNotFound _ = False"

fun asErrRevMismatch :: "error \<Rightarrow> string list option" where
  "asErrRevMismatch (ErrRevMismatch ids) = Some ids"
| "asErrRevMismatch (Errorw _ e _) = asErrRevMismatch e"
| "asErrRevMismatch _ = None"

definition ErrRevMismatch_Add :: "string list \<Rightarrow> string \<Rightarrow> string list" where
  "ErrRevMismatch_Add ids sid = ids @ [sid]"

fun ErrRevMismatch_Contains :: "string list \<Rightarrow> string \<Rightarrow> bool" where
  "ErrRevMismatch_Contains [] sid = False"
| "ErrRevMismatch_Contains (s # ss) sid = (if s = sid then True else ErrRevMismatch_Contains ss sid)"

definition IsErrRevMismatch :: "error \<Rightarrow> bool" where
  "IsErrRevMismatch err \<longleftrightarrow> asErrRevMismatch err \<noteq> None"

definition IsErrRevMismatchContains :: "error \<Rightarrow> string \<Rightarrow> bool" where
  "IsErrRevMismatchContains err sID =
    (case asErrRevMismatch err of None \<Rightarrow> False | Some revErr \<Rightarrow> ErrRevMismatch_Contains revErr sID)"

lemma ErrRevMismatch_loop_Suc:
  "ErrRevMismatch_loop (Suc i) msg ids = msg @ concat (map (\<lambda>sid. '', '' @ sid) ids)"
  by (induction ids arbitrary: i msg) auto

lemma ErrRevMismatch_Error_join: "ErrRevMismatch_Error ids = ''rev mismatch: '' @ join '', '' ids"
proof -
  have j: "join sep (a # b # cs) = a @ concat (map (\<lambda>s. sep @ s) (b # cs))"
    for sep and a b :: string and cs
    by (induction cs arbitrary: a b) auto
  show ?thesis
  proof (cases ids)
    case (Cons a as)
    then show ?thesis
      by (cases as) (auto simp: ErrRevMismatch_Error_def ErrRevMismatch_loop_Suc j simp del: join.simps(3))
  qed (simp add: ErrRevMismatch_Error_def)
qed

lemma ErrRevMismatch_Contains_iff [simp]: "ErrRevMismatch_Contains ids sid \<longleftrightarrow> sid \<in> set ids"
  by (induction ids) auto

lemma IsErrRevMismatch_simps [simp]:
  "IsErrRevMismatch (ErrRevMismatch ids)"
  "IsErrRevMismatch (Errorw pre e post) = IsErrRevMismatch e"
  "\<not> IsErrRevMismatch (Errorf s)"
  "\<not> IsErrRevMismatch ErrNotFound"
  "\<not> IsErrRevMismatch ErrFlowNotFound"
  "\<not> IsErrRevMismatch (NumError fn s why)"
  by (simp_all add: IsErrRevMismatch_def)

end
