(* ===== verification/States.thy ===== *)
theory States
  imports Errors
begin

text \<open>
  \<open>state.go\<close> and \<open>data.go\<close>: states, transitions, the state context that carries a committed and a
  current state, and the data blobs attached to a context. The copies of Go (\<open>CopyTo\<close>) write
  into an existing destination: maps are merged entry by entry, slots of slices are reused.
\<close>

section \<open>Records\<close>

record Transition =
  ts_To :: string
  ts_Annotations :: strmap

record State =
  s_ID :: string
  s_Rev :: int
  s_Annotations :: strmap
  s_Labels :: strmap
  s_CommittedAt :: time
  s_Transition :: Transition

text \<open>\<open>d_Blob\<close> is \<open>None\<close> for the nil slice.\<close>

record Data =
  d_Rev :: int
  d_Annotations :: strmap
  d_Blob :: "string option"

text \<open>
  \<open>sc_Spare\<close> holds the slots of the backing array of \<open>Transitions\<close> between its length and its
  capacity, which \<open>CopyTo\<close> brings back into view. \<open>sc_e\<close> tells whether an engine is attached.
\<close>

record StateCtx =
  sc_Current :: State
  sc_Committed :: State
  sc_Datas :: "Data option gomap"
  sc_Transitions :: "Transition list"
  sc_Spare :: "Transition list"
  sc_sessID :: int
  sc_e :: bool

definition Transition0 :: Transition where
  "Transition0 = \<lparr>ts_To = [], ts_Annotations = None\<rparr>"

definition State0 :: State where
  "State0 = \<lparr>s_ID = [], s_Rev = 0, s_Annotations = None, s_Labels = None,
    s_CommittedAt = zero_time, s_Transition = Transition0\<rparr>"

definition Data0 :: Data where
  "Data0 = \<lparr>d_Rev = 0, d_Annotations = None, d_Blob = None\<rparr>"

definition StateCtx0 :: StateCtx where
  "StateCtx0 = \<lparr>sc_Current = State0, sc_Committed = State0, sc_Datas = None,
    sc_Transitions = [], sc_Spare = [], sc_sessID = 0, sc_e = False\<rparr>"

section \<open>Transitions\<close>

definition Transition_SetAnnotation :: "Transition \<Rightarrow> string \<Rightarrow> string \<Rightarrow> Transition" where
  "Transition_SetAnnotation ts name value = ts\<lparr>ts_Annotations := gm_set (ts_Annotations ts) name value\<rparr>"

definition Transition_CopyTo :: "Transition \<Rightarrow> Transition \<Rightarrow> Transition" where
  "Transition_CopyTo ts to =
    (let to1 = to\<lparr>ts_To := ts_To ts\<rparr>
     in if gm_len (ts_Annotations ts) > 0
        then to1\<lparr>ts_Annotations := gm_merge (ts_Annotations ts) (ts_Annotations to1)\<rparr>
        else to1)"

definition Transition_String :: "Transition \<Rightarrow> string" where
  "Transition_String ts = ts_To ts"

section \<open>States\<close>

definition Annotation :: "State \<Rightarrow> string \<Rightarrow> string" where
  "Annotation s name =
    (case gm_lookup (ts_Annotations (s_Transition s)) name of
       Some value \<Rightarrow> value
     | None \<Rightarrow> gm_str (s_Annotations s) name)"

definition SetAnnotation :: "State \<Rightarrow> string \<Rightarrow> string \<Rightarrow> State" where
  "SetAnnotation s name value = s\<lparr>s_Annotations := gm_set (s_Annotations s) name value\<rparr>"

definition SetLabel :: "State \<Rightarrow> string \<Rightarrow> string \<Rightarrow> State" where
  "SetLabel s name value = s\<lparr>s_Labels := gm_set (s_Labels s) name value\<rparr>"

definition State_CopyTo :: "State \<Rightarrow> State \<Rightarrow> State" where
  "State_CopyTo s to =
    to\<lparr>s_ID := s_ID s, s_Rev := s_Rev s, s_CommittedAt := s_CommittedAt s,
      s_Transition := Transition_CopyTo (s_Transition s) (s_Transition to),
      s_Annotations := gm_merge (s_Annotations s) (s_Annotations to),
      s_Labels := gm_merge (s_Labels s) (s_Labels to)\<rparr>"

definition CopyToCtx :: "State \<Rightarrow> StateCtx \<Rightarrow> StateCtx" where
  "CopyToCtx s to =
    (let to1 = (if s_Rev s > 0 then to\<lparr>sc_Committed := State_CopyTo s (sc_Committed to)\<rparr> else to)
     in to1\<lparr>sc_Current := State_CopyTo s (sc_Current to1)\<rparr>)"

section \<open>State contexts\<close>

definition SetData :: "StateCtx \<Rightarrow> string \<Rightarrow> Data option \<Rightarrow> StateCtx" where
  "SetData s name d = s\<lparr>sc_Datas := gm_set (sc_Datas s) name d\<rparr>"

text \<open>\<open>Data\<close> looks a blob up; the pointer it finds may be nil (\<open>Ok None\<close>).\<close>

definition StateCtx_Data :: "StateCtx \<Rightarrow> string \<Rightarrow> Data option outcome" where
  "StateCtx_Data s name =
    (if name = [] then Err (Errorf ''name is empty'')
     else case gm_lookup (sc_Datas s) name of
       None \<Rightarrow> Err (Errorf (''no data with name '' @ name @ ''; has it been loaded with flowstate.GetData command''))
     | Some d \<Rightarrow> Ok d)"

definition MustData :: "StateCtx \<Rightarrow> string \<Rightarrow> Data option outcome" where
  "MustData s name =
    (case StateCtx_Data s name of
       Ok d \<Rightarrow> Ok d
     | Err err \<Rightarrow> Panic (error_text err)
     | Panic p \<Rightarrow> Panic p)"

definition StateCtx_CopyTo :: "StateCtx \<Rightarrow> StateCtx \<Rightarrow> StateCtx" where
  "StateCtx_CopyTo s to =
    (let n = length (sc_Transitions s);
         slots = sc_Transitions to @ sc_Spare to;
         (vis, spare) = (if length slots \<ge> n then (take n slots, drop n slots)
                         else (replicate n Transition0, []))
     in to\<lparr>sc_Current := State_CopyTo (sc_Current s) (sc_Current to),
          sc_Committed := State_CopyTo (sc_Committed s) (sc_Committed to),
          sc_Transitions := map (\<lambda>(t, slot). Transition_CopyTo t slot) (zip (sc_Transitions s) vis),
          sc_Spare := spare\<rparr>)"

definition NewTo :: "StateCtx \<Rightarrow> string \<Rightarrow> StateCtx \<Rightarrow> StateCtx" where
  "NewTo s sid to =
    (let to1 = StateCtx_CopyTo s to
     in to1\<lparr>sc_Current := (sc_Current to1)\<lparr>s_ID := sid, s_Rev := 0\<rparr>\<rparr>)"

text \<open>\<open>append(s.Transitions, ts)\<close> takes the next slot of the backing array when there is one.\<close>

definition append_Transition :: "StateCtx \<Rightarrow> Transition \<Rightarrow> StateCtx" where
  "append_Transition s ts = s\<lparr>sc_Transitions := sc_Transitions s @ [ts], sc_Spare := tl (sc_Spare s)\<rparr>"

text \<open>\<open>s.Transitions = s.Transitions[:0]\<close>.\<close>

definition reset_Transitions :: "StateCtx \<Rightarrow> StateCtx" where
  "reset_Transitions s = s\<lparr>sc_Transitions := [], sc_Spare := sc_Transitions s @ sc_Spare s\<rparr>"

text \<open>The \<open>context.Context\<close> methods; \<open>stopped\<close> tells whether \<open>doneCh\<close> is closed.\<close>

definition StateCtx_Deadline :: "StateCtx \<Rightarrow> time \<times> bool" where
  "StateCtx_Deadline s = (zero_time, False)"

definition StateCtx_Err :: "bool \<Rightarrow> StateCtx \<Rightarrow> error option" where
  "StateCtx_Err stopped s =
    (if \<not> sc_e s then None else if stopped then Some (Errorf ''context canceled'') else None)"

definition StateCtx_Value :: "StateCtx \<Rightarrow> string option \<Rightarrow> string option" where
  "StateCtx_Value s key =
    (case key of None \<Rightarrow> None | Some key1 \<Rightarrow> Some (gm_str (s_Annotations (sc_Current s)) key1))"

section \<open>Data\<close>

definition blob_bytes :: "string option \<Rightarrow> string" where
  "blob_bytes b = (case b of None \<Rightarrow> [] | Some bs \<Rightarrow> bs)"

definition Data_SetAnnotation :: "Data \<Rightarrow> string \<Rightarrow> string \<Rightarrow> Data" where
  "Data_SetAnnotation d name value = d\<lparr>d_Annotations := gm_set (d_Annotations d) name value\<rparr>"

text \<open>\<open>xxh\<close> is \<open>xxhash.Sum64\<close>, of the package \<open>github.com/cespare/xxhash\<close>.\<close>

definition isDirty :: "(string \<Rightarrow> nat) \<Rightarrow> Data \<Rightarrow> bool" where
  "isDirty xxh d =
    (if d_Rev d = 0 then True
     else if gm_str (d_Annotations d) ''checksum/xxhash64'' \<noteq> [] then
       (case ParseUint (gm_str (d_Annotations d) ''checksum/xxhash64'') of
          (_, Some _) \<Rightarrow> True
        | (storedHash, None) \<Rightarrow> storedHash \<noteq> xxh (blob_bytes (d_Blob d)))
     else False)"

definition IsBinary :: "Data \<Rightarrow> bool" where
  "IsBinary d \<longleftrightarrow> gm_str (d_Annotations d) ''binary'' = ''true''"

definition SetBinary :: "Data \<Rightarrow> bool \<Rightarrow> Data" where
  "SetBinary d v =
    (if v then Data_SetAnnotation d ''binary'' ''true''
     else d\<lparr>d_Annotations := gm_delete (d_Annotations d) ''binary''\<rparr>)"

definition checksum :: "(string \<Rightarrow> nat) \<Rightarrow> Data \<Rightarrow> Data" where
  "checksum xxh d = Data_SetAnnotation d ''checksum/xxhash64'' (FormatUint (xxh (blob_bytes (d_Blob d))))"

text \<open>\<open>append(to.Blob[:0], d.Blob...)\<close> is nil only when both are empty and \<open>to.Blob\<close> is nil.\<close>

definition blob_copy :: "string option \<Rightarrow> string option \<Rightarrow> string option" where
  "blob_copy src to = (if blob_bytes src = [] \<and> to = None then None else Some (blob_bytes src))"

definition Data_CopyTo :: "Data \<Rightarrow> Data \<Rightarrow> Data" where
  "Data_CopyTo d to =
    (let to1 = to\<lparr>d_Rev := d_Rev d, d_Blob := blob_copy (d_Blob d) (d_Blob to)\<rparr>
     in if gm_len (d_Annotations d) > 0
        then to1\<lparr>d_Annotations := gm_merge (d_Annotations d) (d_Annotations to1)\<rparr>
        else to1)"

definition attachDataAnnotation :: "string \<Rightarrow> string" where
  "attachDataAnnotation alias = ''flowstate.data.'' @ alias"

definition referenceData :: "StateCtx \<Rightarrow> string \<Rightarrow> int \<Rightarrow> StateCtx" where
  "referenceData stateCtx alias dRev =
    stateCtx\<lparr>sc_Current := SetAnnotation (sc_Current stateCtx) (attachDataAnnotation alias) (FormatInt dRev)\<rparr>"

definition dereferenceData :: "StateCtx \<Rightarrow> string \<Rightarrow> int outcome" where
  "dereferenceData stateCtx alias =
    (if alias = [] then Err (Errorf ''alias is empty'')
     else let annotKey = attachDataAnnotation alias;
              revStr = gm_str (s_Annotations (sc_Current stateCtx)) annotKey
          in if revStr = [] then Err (Errorf (''annotation '' @ quote annotKey @ '' is not set''))
             else case ParseInt revStr of
               (_, Some err) \<Rightarrow> Err (Errorw (''annotation '' @ quote annotKey
                   @ '' contains invalid data revision; got '' @ quote revStr @ '': '') err [])
             | (r, None) \<Rightarrow> Ok r)"

section \<open>Well-formed values\<close>

definition wf_Transition :: "Transition \<Rightarrow> bool" where
  "wf_Transition ts \<longleftrightarrow> gm_wf (ts_Annotations ts)"

definition wf_State :: "State \<Rightarrow> bool" where
  "wf_State s \<longleftrightarrow> gm_wf (s_Annotations s) \<and> gm_wf (s_Labels s) \<and> wf_Transition (s_Transition s)"

definition wf_Data :: "Data \<Rightarrow> bool" where
  "wf_Data d \<longleftrightarrow> gm_wf (d_Annotations d)"

definition wf_StateCtx :: "StateCtx \<Rightarrow> bool" where
  "wf_StateCtx c \<longleftrightarrow> wf_State (sc_Current c) \<and> wf_State (sc_Committed c) \<and> gm_wf (sc_Datas c)
    \<and> list_all wf_Transition (sc_Transitions c) \<and> list_all wf_Transition (sc_Spare c)"

lemmas wf_defs = wf_Transition_def wf_State_def wf_Data_def wf_StateCtx_def

text \<open>An empty map that is not nil is nil after a copy into a fresh value.\<close>

definition norm_map :: "'v gomap \<Rightarrow> 'v gomap" where
  "norm_map m = (if gm_entries m = [] then None else m)"

definition norm_Transition :: "Transition \<Rightarrow> Transition" where
  "norm_Transition ts = ts\<lparr>ts_Annotations := norm_map (ts_Annotations ts)\<rparr>"

definition norm_State :: "State \<Rightarrow> State" where
  "norm_State s = s\<lparr>s_Annotations := norm_map (s_Annotations s), s_Labels := norm_map (s_Labels s),
    s_Transition := norm_Transition (s_Transition s)\<rparr>"

lemma gm_merge_norm: "gm_wf m \<Longrightarrow> gm_merge m None = norm_map m"
  by (simp add: gm_merge_None norm_map_def)

lemma gm_lookup_norm [simp]: "gm_lookup (norm_map m) k = gm_lookup m k"
  by (simp add: norm_map_def gm_lookup_def)

lemma gm_str_norm [simp]: "gm_str (norm_map m) k = gm_str m k"
  by (simp add: gm_str_def)

lemma gm_len_norm [simp]: "gm_len (norm_map m) = gm_len m"
  by (simp add: norm_map_def gm_len_def)

lemma norm_map_idem [simp]: "norm_map (norm_map m) = norm_map m"
  by (simp add: norm_map_def)

lemma gm_wf_norm [simp]: "gm_wf m \<Longrightarrow> gm_wf (norm_map m)"
  by (simp add: norm_map_def gm_wf_def)

lemma gm_str_set [simp]: "gm_str (gm_set m k v) k' = (if k' = k then v else gm_str m k')"
  by (simp add: gm_str_def)

section \<open>Copies\<close>

lemma Transition_CopyTo_merge:
  "Transition_CopyTo ts to = to\<lparr>ts_To := ts_To ts, ts_Annotations := gm_merge (ts_Annotations ts) (ts_Annotations to)\<rparr>"
  by (cases "ts_Annotations ts") (auto simp: Transition_CopyTo_def gm_len_def Let_def)

lemma Transition_CopyTo_simps [simp]:
  "ts_To (Transition_CopyTo ts to) = ts_To ts"
  "ts_Annotations (Transition_CopyTo ts to) = gm_merge (ts_Annotations ts) (ts_Annotations to)"
  by (simp_all add: Transition_CopyTo_merge)

lemma State_CopyTo_simps [simp]:
  "s_ID (State_CopyTo s to) = s_ID s"
  "s_Rev (State_CopyTo s to) = s_Rev s"
  "s_CommittedAt (State_CopyTo s to) = s_CommittedAt s"
  "s_Annotations (State_CopyTo s to) = gm_merge (s_Annotations s) (s_Annotations to)"
  "s_Labels (State_CopyTo s to) = gm_merge (s_Labels s) (s_Labels to)"
  "s_Transition (State_CopyTo s to) = Transition_CopyTo (s_Transition s) (s_Transition to)"
  by (simp_all add: State_CopyTo_def)

lemma zero_simps [simp]:
  "ts_To Transition0 = []" "ts_Annotations Transition0 = None"
  "s_ID State0 = []" "s_Rev State0 = 0" "s_Annotations State0 = None" "s_Labels State0 = None"
  "s_CommittedAt State0 = zero_time" "s_Transition State0 = Transition0"
  "d_Rev Data0 = 0" "d_Annotations Data0 = None" "d_Blob Data0 = None"
  "sc_Current StateCtx0 = State0" "sc_Committed StateCtx0 = State0" "sc_Datas StateCtx0 = None"
  "sc_Transitions StateCtx0 = []" "sc_Spare StateCtx0 = []" "sc_sessID StateCtx0 = 0"
  "sc_e StateCtx0 = False"
  by (simp_all add: Transition0_def State0_def Data0_def StateCtx0_def)

lemma Transition_CopyTo_fresh: "wf_Transition ts \<Longrightarrow> Transition_CopyTo ts Transition0 = norm_Transition ts"
  by (simp add: Transition_CopyTo_merge norm_Transition_def gm_merge_norm wf_Transition_def Transition0_def)

lemma State_CopyTo_fresh: "wf_State s \<Longrightarrow> State_CopyTo s State0 = norm_State s"
  by (simp add: State_CopyTo_def norm_State_def gm_merge_norm wf_State_def Transition_CopyTo_fresh)

lemma Data_CopyTo_simps [simp]:
  "d_Rev (Data_CopyTo d to) = d_Rev d"
  "d_Annotations (Data_CopyTo d to) = gm_merge (d_Annotations d) (d_Annotations to)"
  "blob_bytes (d_Blob (Data_CopyTo d to)) = blob_bytes (d_Blob d)"
  by (cases "d_Annotations d";
      auto simp: Data_CopyTo_def Let_def gm_len_def blob_copy_def blob_bytes_def split: option.split)+

lemma wf_zero [simp]: "wf_Transition Transition0" "wf_State State0" "wf_Data Data0" "wf_StateCtx StateCtx0"
  by (simp_all add: wf_defs)

lemma wf_Transition_CopyTo [simp]: "wf_Transition to \<Longrightarrow> wf_Transition (Transition_CopyTo ts to)"
  by (simp add: wf_Transition_def)

lemma wf_State_CopyTo [simp]: "wf_State to \<Longrightarrow> wf_State (State_CopyTo s to)"
  by (simp add: wf_State_def)

lemma wf_norm [simp]:
  "wf_Transition ts \<Longrightarrow> wf_Transition (norm_Transition ts)"
  "wf_State s \<Longrightarrow> wf_State (norm_State s)"
  by (simp_all add: wf_defs norm_Transition_def norm_State_def)

lemma norm_State_simps [simp]:
  "s_ID (norm_State s) = s_ID s" "s_Rev (norm_State s) = s_Rev s"
  "s_CommittedAt (norm_State s) = s_CommittedAt s"
  "s_Annotations (norm_State s) = norm_map (s_Annotations s)"
  "s_Labels (norm_State s) = norm_map (s_Labels s)"
  "s_Transition (norm_State s) = norm_Transition (s_Transition s)"
  by (simp_all add: norm_State_def)

lemma norm_idem [simp]:
  "norm_Transition (norm_Transition ts) = norm_Transition ts"
  "norm_State (norm_State s) = norm_State s"
  by (simp_all add: norm_State_def norm_Transition_def)

lemma norm_Transition_simps [simp]:
  "ts_To (norm_Transition ts) = ts_To ts"
  "ts_Annotations (norm_Transition ts) = norm_map (ts_Annotations ts)"
  by (simp_all add: norm_Transition_def)

lemma CopyToCtx_simps [simp]:
  "sc_Current (CopyToCtx s to) = State_CopyTo s (sc_Current to)"
  "sc_Committed (CopyToCtx s to) = (if s_Rev s > 0 then State_CopyTo s (sc_Committed to) else sc_Committed to)"
  "sc_Datas (CopyToCtx s to) = sc_Datas to"
  "sc_Transitions (CopyToCtx s to) = sc_Transitions to"
  "sc_Spare (CopyToCtx s to) = sc_Spare to"
  "sc_sessID (CopyToCtx s to) = sc_sessID to"
  "sc_e (CopyToCtx s to) = sc_e to"
  by (simp_all add: CopyToCtx_def Let_def)

lemma StateCtx_CopyTo_simps [simp]:
  "sc_Current (StateCtx_CopyTo s to) = State_CopyTo (sc_Current s) (sc_Current to)"
  "sc_Committed (StateCtx_CopyTo s to) = State_CopyTo (sc_Committed s) (sc_Committed to)"
  "sc_Datas (StateCtx_CopyTo s to) = sc_Datas to"
  "sc_sessID (StateCtx_CopyTo s to) = sc_sessID to"
  "sc_e (StateCtx_CopyTo s to) = sc_e to"
  by (simp_all add: StateCtx_CopyTo_def Let_def split: prod.splits)

lemma StateCtx_CopyTo_Transitions:
  "map ts_To (sc_Transitions (StateCtx_CopyTo s to)) = map ts_To (sc_Transitions s)"
proof -
  have "length vis = length xs \<Longrightarrow>
      map ts_To (map (\<lambda>(t, slot). Transition_CopyTo t slot) (zip xs vis)) = map ts_To xs"
    for xs vis
    by (induction xs vis rule: list_induct2') auto
  then show ?thesis by (auto simp: StateCtx_CopyTo_def Let_def)
qed

lemma list_all_take_drop:
  "list_all P xs \<Longrightarrow> list_all P (take n xs)" "list_all P xs \<Longrightarrow> list_all P (drop n xs)"
  by (auto simp: list_all_iff dest: in_set_takeD in_set_dropD)

lemma wf_copied_Transitions:
  "list_all wf_Transition vis
    \<Longrightarrow> list_all wf_Transition (map (\<lambda>(t, slot). Transition_CopyTo t slot) (zip xs vis))"
  by (induction xs vis rule: list_induct2') auto

lemma wf_StateCtx_CopyTo [simp]:
  assumes "wf_StateCtx to"
  shows "wf_StateCtx (StateCtx_CopyTo s to)"
proof -
  let ?slots = "sc_Transitions to @ sc_Spare to" and ?n = "length (sc_Transitions s)"
  from assms have slots: "list_all wf_Transition ?slots" by (simp add: wf_StateCtx_def)
  have fresh: "list_all wf_Transition (replicate ?n Transition0)"
    by (simp add: list_all_iff)
  note ws = wf_copied_Transitions [OF list_all_take_drop(1) [OF slots]]
    list_all_take_drop(2) [OF slots] wf_copied_Transitions [OF fresh]
  have "list_all wf_Transition (sc_Transitions (StateCtx_CopyTo s to))"
    "list_all wf_Transition (sc_Spare (StateCtx_CopyTo s to))"
    using ws by (simp_all add: StateCtx_CopyTo_def Let_def del: take_append drop_append)
  with assms show ?thesis by (simp add: wf_StateCtx_def)
qed

lemma wf_CopyToCtx [simp]: "wf_StateCtx to \<Longrightarrow> wf_StateCtx (CopyToCtx s to)"
  by (simp add: wf_StateCtx_def)

lemma append_reset_simps [simp]:
  "sc_Current (append_Transition c ts) = sc_Current c"
  "sc_Committed (append_Transition c ts) = sc_Committed c"
  "sc_Datas (append_Transition c ts) = sc_Datas c"
  "sc_sessID (append_Transition c ts) = sc_sessID c"
  "sc_e (append_Transition c ts) = sc_e c"
  "sc_Transitions (append_Transition c ts) = sc_Transitions c @ [ts]"
  "sc_Current (reset_Transitions c) = sc_Current c"
  "sc_Committed (reset_Transitions c) = sc_Committed c"
  "sc_Datas (reset_Transitions c) = sc_Datas c"
  "sc_sessID (reset_Transitions c) = sc_sessID c"
  "sc_e (reset_Transitions c) = sc_e c"
  "sc_Transitions (reset_Transitions c) = []"
  by (simp_all add: append_Transition_def reset_Transitions_def)

lemma wf_append_reset [simp]:
  "wf_StateCtx c \<Longrightarrow> wf_Transition ts \<Longrightarrow> wf_StateCtx (append_Transition c ts)"
  "wf_StateCtx c \<Longrightarrow> wf_StateCtx (reset_Transitions c)"
  by (auto simp: wf_StateCtx_def append_Transition_def reset_Transitions_def list_all_iff
      dest: list.set_sel(2)) (metis list.sel(2) list.set_sel(2))+

text \<open>The data of a context and the annotations of a transition take precedence as documented.\<close>

lemma Annotation_Transition: "gm_lookup (ts_Annotations (s_Transition s)) name = Some v \<Longrightarrow> Annotation s name = v"
  by (simp add: Annotation_def)

lemma Annotation_State: "gm_lookup (ts_Annotations (s_Transition s)) name = None \<Longrightarrow>
    Annotation (SetAnnotation s name v) name = v"
  by (simp add: Annotation_def SetAnnotation_def)

text \<open>The revision that \<open>referenceData\<close> writes is the one \<open>dereferenceData\<close> reads.\<close>

lemma dereference_reference:
  "alias \<noteq> [] \<Longrightarrow> in_i64 r \<Longrightarrow> dereferenceData (referenceData c alias r) alias = Ok r"
  by (simp add: dereferenceData_def referenceData_def SetAnnotation_def Let_def)

section \<open>Properties\<close>

text \<open>
  \<open>CopyTo\<close> takes every annotation, label and transition annotation of the source, and keeps
  those of the destination that the source does not have: copying a state over another one
  never removes a key.
\<close>

lemma State_CopyTo_lookup:
  assumes "wf_State s"
  shows "gm_lookup (s_Annotations (State_CopyTo s to)) k =
      (case gm_lookup (s_Annotations s) k of None \<Rightarrow> gm_lookup (s_Annotations to) k | v \<Rightarrow> v)
    \<and> gm_lookup (s_Labels (State_CopyTo s to)) k =
      (case gm_lookup (s_Labels s) k of None \<Rightarrow> gm_lookup (s_Labels to) k | v \<Rightarrow> v)
    \<and> gm_lookup (ts_Annotations (s_Transition (State_CopyTo s to))) k =
      (case gm_lookup (ts_Annotations (s_Transition s)) k of
         None \<Rightarrow> gm_lookup (ts_Annotations (s_Transition to)) k | v \<Rightarrow> v)"
  using assms by (auto simp: wf_defs gm_lookup_merge split: option.splits)

lemma State_CopyTo_lookup_instance:
  "gm_lookup (s_Labels (State_CopyTo State0 (SetLabel State0 ''k'' ''old''))) ''k'' = Some ''old''"
  using State_CopyTo_lookup [of State0 "SetLabel State0 ''k'' ''old''" "''k''"] by (simp add: SetLabel_def)

text \<open>
  Once a blob has a revision and a checksum, \<open>isDirty\<close> reports exactly the blobs whose hash
  differs from the one stored; a blob without a revision is always dirty.
\<close>

lemma isDirty_checksum:
  assumes "xxh (blob_bytes (d_Blob d)) < 2 ^ 64"
  shows "isDirty xxh ((checksum xxh d)\<lparr>d_Blob := b\<rparr>)
    \<longleftrightarrow> d_Rev d = 0 \<or> xxh (blob_bytes b) \<noteq> xxh (blob_bytes (d_Blob d))"
  using assms by (auto simp: isDirty_def checksum_def Data_SetAnnotation_def)

lemma isDirty_checksum_instance:
  "\<not> isDirty length ((checksum length (Data0\<lparr>d_Rev := 3, d_Blob := Some ''ab''\<rparr>))\<lparr>d_Blob := Some ''cd''\<rparr>)"
  by (subst isDirty_checksum) (simp_all add: blob_bytes_def)

end
