(* ===== verification/Protobuf.thy ===== *)
theory Protobuf
  imports Easyproto States
begin

text \<open>
  \<open>protobuf.go\<close>, messages of states: the \<open>marshal\<close> functions as the fields they append, the
  \<open>Unmarshal\<close> functions as loops over the fields they read into an existing value, and their
  round trips. Every function takes the \<open>easyproto\<close> package as its first argument.
\<close>

section \<open>String maps\<close>

definition marshalStringMap :: "strmap \<Rightarrow> nat \<Rightarrow> pb_msg" where
  "marshalStringMap m fieldNum =
    map (\<lambda>(k, v). (fieldNum, PMsg ([(1, PString k)] @ (if v \<noteq> [] then [(2, PString v)] else []))))
      (gm_entries m)"

definition unmarshalStringMapItem_field ::
  "'c easyproto \<Rightarrow> 'c \<Rightarrow> string \<times> string \<Rightarrow> (string \<times> string) \<times> unit outcome" where
  "unmarshalStringMapItem_field E fc kv =
    (if ep_FieldNum E fc = 1 then
       (case ep_String E fc of
          None \<Rightarrow> (kv, Err (Errorf ''cannot read map key''))
        | Some key0 \<Rightarrow>
            if key0 = [] then (kv, Err (Errorf ''map key cannot be empty''))
            else ((key0, snd kv), Ok ()))
     else if ep_FieldNum E fc = 2 then
       rd_string E fc ''cannot read map value'' (\<lambda>v. (fst kv, v)) kv
     else (kv, Ok ()))"

text \<open>\<open>m[key] = value\<close>: an assignment to an entry of a nil map panics.\<close>

definition assign_entry :: "'v gomap \<Rightarrow> string \<Rightarrow> 'v \<Rightarrow> 'v gomap \<times> unit outcome" where
  "assign_entry m key value =
    (case m of
       None \<Rightarrow> (None, Panic ''assignment to entry in nil map'')
     | Some _ \<Rightarrow> (gm_set m key value, Ok ()))"

definition unmarshalStringMapItem :: "'c easyproto \<Rightarrow> string \<Rightarrow> strmap \<Rightarrow> strmap \<times> unit outcome" where
  "unmarshalStringMapItem E src m =
    (case fieldLoop E (unmarshalStringMapItem_field E) src ([], []) of
       ((key, value), Ok _) \<Rightarrow> assign_entry m key value
     | (_, r) \<Rightarrow> (m, r))"

text \<open>\<open>if m == nil { m = make(map[string]string) }\<close>, and the map field of a message.\<close>

definition make_map :: "'v gomap \<Rightarrow> 'v gomap" where
  "make_map m = (case m of None \<Rightarrow> Some [] | Some es \<Rightarrow> Some es)"

definition rd_strmap ::
  "'c easyproto \<Rightarrow> 'c \<Rightarrow> string \<Rightarrow> ('s \<Rightarrow> strmap) \<Rightarrow> (strmap \<Rightarrow> 's \<Rightarrow> 's) \<Rightarrow> 's \<Rightarrow> 's \<times> unit outcome" where
  "rd_strmap E fc msg get put s =
    rd_message E fc msg
      (\<lambda>data. case unmarshalStringMapItem E data (make_map (get s)) of
                (m, r) \<Rightarrow> (put m s, wrap_err (msg @ '': '') r)) s"

section \<open>Transition\<close>

definition marshalTransition :: "Transition \<Rightarrow> pb_msg" where
  "marshalTransition ts =
    (if ts_To ts \<noteq> [] then [(2, PString (ts_To ts))] else [])
    @ (if ts_Annotations ts \<noteq> None then marshalStringMap (ts_Annotations ts) 3 else [])"

definition MarshalTransition :: "'c easyproto \<Rightarrow> Transition \<Rightarrow> string \<Rightarrow> string" where
  "MarshalTransition E ts dst = dst @ ep_Marshal E (marshalTransition ts)"

definition UnmarshalTransition_field ::
  "'c easyproto \<Rightarrow> 'c \<Rightarrow> Transition \<Rightarrow> Transition \<times> unit outcome" where
  "UnmarshalTransition_field E fc ts =
    (if ep_FieldNum E fc = 2 then
       rd_string E fc ''cannot read 'string to = 2;' field'' (\<lambda>v. ts\<lparr>ts_To := v\<rparr>) ts
     else if ep_FieldNum E fc = 3 then
       rd_strmap E fc ''cannot read 'map<string, string> annotations = 3;' field''
         ts_Annotations (\<lambda>m t. t\<lparr>ts_Annotations := m\<rparr>) ts
     else (ts, Ok ()))"

definition UnmarshalTransition :: "'c easyproto \<Rightarrow> string \<Rightarrow> Transition \<Rightarrow> Transition \<times> unit outcome" where
  "UnmarshalTransition E src ts = fieldLoop E (UnmarshalTransition_field E) src ts"

section \<open>State\<close>

definition marshalState :: "State \<Rightarrow> pb_msg" where
  "marshalState s =
    (if s_ID s \<noteq> [] then [(1, PString (s_ID s))] else [])
    @ (if s_Rev s \<noteq> 0 then [(2, PInt64 (s_Rev s))] else [])
    @ (if gm_len (s_Annotations s) > 0 then marshalStringMap (s_Annotations s) 3 else [])
    @ (if gm_len (s_Labels s) > 0 then marshalStringMap (s_Labels s) 4 else [])
    @ (if \<not> IsZero (s_CommittedAt s) then [(5, PInt64 (UnixMilli (s_CommittedAt s)))] else [])
    @ [(6, PMsg (marshalTransition (s_Transition s)))]"

definition MarshalState :: "'c easyproto \<Rightarrow> State \<Rightarrow> string \<Rightarrow> string" where
  "MarshalState E s dst = dst @ ep_Marshal E (marshalState s)"

definition UnmarshalState_field :: "'c easyproto \<Rightarrow> 'c \<Rightarrow> State \<Rightarrow> State \<times> unit outcome" where
  "UnmarshalState_field E fc s =
    (if ep_FieldNum E fc = 1 then
       rd_string E fc ''cannot read 'string id = 1;' field'' (\<lambda>v. s\<lparr>s_ID := v\<rparr>) s
     else if ep_FieldNum E fc = 2 then
       rd_int64 E fc ''cannot read 'int64 rev = 2;' field'' (\<lambda>v. s\<lparr>s_Rev := v\<rparr>) s
     else if ep_FieldNum E fc = 3 then
       rd_strmap E fc ''cannot read 'map<string, string> annotations = 3;' field''
         s_Annotations (\<lambda>m t. t\<lparr>s_Annotations := m\<rparr>) s
     else if ep_FieldNum E fc = 4 then
       rd_strmap E fc ''cannot read 'map<string, string> labels = 4;' field''
         s_Labels (\<lambda>m t. t\<lparr>s_Labels := m\<rparr>) s
     else if ep_FieldNum E fc = 5 then
       rd_int64 E fc ''cannot read 'int64 committed_at_unix_milli = 5;' field''
         (\<lambda>v. s\<lparr>s_CommittedAt := time_UnixMilli v\<rparr>) s
     else if ep_FieldNum E fc = 6 then
       rd_message E fc ''cannot read 'Transition transition = 6;' field''
         (\<lambda>data. case UnmarshalTransition E data (s_Transition s) of
            (ts, r) \<Rightarrow> (s\<lparr>s_Transition := ts\<rparr>,
              wrap_err ''cannot unmarshal 'Transition transition = 6;' field: '' r)) s
     else (s, Ok ()))"

definition UnmarshalState :: "'c easyproto \<Rightarrow> string \<Rightarrow> State \<Rightarrow> State \<times> unit outcome" where
  "UnmarshalState E src s = fieldLoop E (UnmarshalState_field E) src s"

section \<open>Data\<close>

definition marshalData :: "Data \<Rightarrow> pb_msg" where
  "marshalData d =
    (if d_Rev d \<noteq> 0 then [(2, PInt64 (d_Rev d))] else [])
    @ (if blob_bytes (d_Blob d) \<noteq> []
       then [(4, PString (if IsBinary d then b64_encode (blob_bytes (d_Blob d)) else blob_bytes (d_Blob d)))]
       else [])
    @ (if gm_len (d_Annotations d) > 0 then marshalStringMap (d_Annotations d) 5 else [])"

definition MarshalData :: "'c easyproto \<Rightarrow> Data \<Rightarrow> string \<Rightarrow> string" where
  "MarshalData E d dst = dst @ ep_Marshal E (marshalData d)"

definition UnmarshalData_field ::
  "'c easyproto \<Rightarrow> 'c \<Rightarrow> Data \<times> string \<Rightarrow> (Data \<times> string) \<times> unit outcome" where
  "UnmarshalData_field E fc db =
    (if ep_FieldNum E fc = 2 then
       rd_int64 E fc ''cannot read 'int64 rev = 2;' field'' (\<lambda>v. ((fst db)\<lparr>d_Rev := v\<rparr>, snd db)) db
     else if ep_FieldNum E fc = 4 then
       rd_string E fc ''cannot read 'string blob = 4;' field'' (\<lambda>v. (fst db, v)) db
     else if ep_FieldNum E fc = 5 then
       rd_strmap E fc ''cannot read 'map<string, string> annotations = 5;' field''
         (\<lambda>db. d_Annotations (fst db)) (\<lambda>m db. ((fst db)\<lparr>d_Annotations := m\<rparr>, snd db)) db
     else (db, Ok ()))"

definition UnmarshalData :: "'c easyproto \<Rightarrow> string \<Rightarrow> Data \<Rightarrow> Data \<times> unit outcome" where
  "UnmarshalData E src d0 =
    (case fieldLoop E (UnmarshalData_field E) src (d0, []) of
       ((d, blob), Ok _) \<Rightarrow>
         (if blob = [] then (d, Ok ())
          else if IsBinary d then
            (case b64_decode blob of
               None \<Rightarrow> (d, Err (Errorf ''cannot decode 'string blob = 4;' field from base64''))
             | Some b \<Rightarrow> (d\<lparr>d_Blob := Some b\<rparr>, Ok ()))
          else (d\<lparr>d_Blob := Some blob\<rparr>, Ok ()))
     | ((d, _), r) \<Rightarrow> (d, r))"

section \<open>StateCtx\<close>

text \<open>\<open>marshalData\<close> dereferences the blob: a nil blob makes the whole call panic.\<close>

fun marshalDatas :: "(string \<times> Data option) list \<Rightarrow> pb_msg option" where
  "marshalDatas [] = Some []"
| "marshalDatas ((k, None) # ds) = None"
| "marshalDatas ((k, Some v) # ds) =
    map_option (\<lambda>m. (4, PMsg [(1, PString k), (2, PMsg (marshalData v))]) # m) (marshalDatas ds)"

definition marshalStateCtx :: "StateCtx \<Rightarrow> pb_msg option" where
  "marshalStateCtx c =
    (case marshalDatas (sort_key fst (gm_entries (sc_Datas c))) of
       None \<Rightarrow> None
     | Some datas \<Rightarrow> Some
         ([(1, PMsg (marshalState (sc_Committed c)))]
          @ [(2, PMsg (marshalState (sc_Current c)))]
          @ map (\<lambda>s. (3, PMsg (marshalTransition s))) (sc_Transitions c)
          @ datas))"

definition MarshalStateCtx :: "'c easyproto \<Rightarrow> StateCtx \<Rightarrow> string \<Rightarrow> string outcome" where
  "MarshalStateCtx E c dst =
    (case marshalStateCtx c of None \<Rightarrow> nil_deref | Some m \<Rightarrow> Ok (dst @ ep_Marshal E m))"

definition unmarshalDataMapItem_field ::
  "'c easyproto \<Rightarrow> 'c \<Rightarrow> string \<times> Data option \<Rightarrow> (string \<times> Data option) \<times> unit outcome" where
  "unmarshalDataMapItem_field E fc kd =
    (if ep_FieldNum E fc = 1 then
       rd_string E fc ''cannot read 'string key = 1;' field'' (\<lambda>v. (v, snd kd)) kd
     else if ep_FieldNum E fc = 2 then
       rd_message E fc ''cannot read 'Data data = 2;' field''
         (\<lambda>dData. case UnmarshalData E dData Data0 of
            (d, r) \<Rightarrow> ((fst kd, Some d), wrap_err ''cannot unmarshal 'Data data = 2;' field: '' r)) kd
     else (kd, Ok ()))"

definition unmarshalDataMapItem ::
  "'c easyproto \<Rightarrow> string \<Rightarrow> Data option gomap \<Rightarrow> Data option gomap \<times> unit outcome" where
  "unmarshalDataMapItem E src datas =
    (case fieldLoop E (unmarshalDataMapItem_field E) src ([], None) of
       ((key, d), Ok _) \<Rightarrow>
         (if key = [] then (datas, Err (Errorf ''missing 'string key = 1;' field''))
          else assign_entry datas key d)
     | (_, r) \<Rightarrow> (datas, r))"

definition UnmarshalStateCtx_field :: "'c easyproto \<Rightarrow> 'c \<Rightarrow> StateCtx \<Rightarrow> StateCtx \<times> unit outcome" where
  "UnmarshalStateCtx_field E fc c =
    (if ep_FieldNum E fc = 1 then
       rd_message E fc ''cannot read 'State committed = 1;' field''
         (\<lambda>data. case UnmarshalState E data (sc_Committed c) of
            (s, r) \<Rightarrow> (c\<lparr>sc_Committed := s\<rparr>,
              wrap_err ''cannot unmarshal 'State committed = 1;' field: '' r)) c
     else if ep_FieldNum E fc = 2 then
       rd_message E fc ''cannot read 'State current = 2;' field''
         (\<lambda>data. case UnmarshalState E data (sc_Current c) of
            (s, r) \<Rightarrow> (c\<lparr>sc_Current := s\<rparr>,
              wrap_err ''cannot unmarshal 'State current = 2;' field: '' r)) c
     else if ep_FieldNum E fc = 3 then
       rd_message E fc ''cannot read 'repeated Transition transitions = 3;' field''
         (\<lambda>data. case UnmarshalTransition E data Transition0 of
            (ts, Ok _) \<Rightarrow> (append_Transition c ts, Ok ())
          | (_, r) \<Rightarrow> (c, wrap_err ''cannot unmarshal 'repeated Transition transitions = 3;' field: '' r)) c
     else if ep_FieldNum E fc = 4 then
       rd_message E fc ''cannot read 'map<string, Data> datas = 4;' field''
         (\<lambda>data. case unmarshalDataMapItem E data (make_map (sc_Datas c)) of
            (m, r) \<Rightarrow> (c\<lparr>sc_Datas := m\<rparr>,
              wrap_err ''cannot unmarshal 'map<string, Data> datas = 4;' field: '' r)) c
     else (c, Ok ()))"

definition UnmarshalStateCtx :: "'c easyproto \<Rightarrow> string \<Rightarrow> StateCtx \<Rightarrow> StateCtx \<times> unit outcome" where
  "UnmarshalStateCtx E src c = fieldLoop E (UnmarshalStateCtx_field E) src c"

section \<open>DelayedState\<close>

record DelayedState =
  ds_State :: State
  ds_Offset :: int
  ds_ExecuteAt :: time

definition DelayedState0 :: DelayedState where
  "DelayedState0 = \<lparr>ds_State = State0, ds_Offset = 0, ds_ExecuteAt = zero_time\<rparr>"

definition marshalDelayedState :: "DelayedState \<Rightarrow> pb_msg" where
  "marshalDelayedState ds =
    [(1, PMsg (marshalState (ds_State ds)))]
    @ (if ds_Offset ds \<noteq> 0 then [(2, PInt64 (ds_Offset ds))] else [])
    @ (if \<not> IsZero (ds_ExecuteAt ds) then [(3, PInt64 (Unix (ds_ExecuteAt ds)))] else [])"

definition MarshalDelayedState :: "'c easyproto \<Rightarrow> DelayedState \<Rightarrow> string \<Rightarrow> string" where
  "MarshalDelayedState E ds dst = dst @ ep_Marshal E (marshalDelayedState ds)"

definition UnmarshalDelayedState_field ::
  "'c easyproto \<Rightarrow> 'c \<Rightarrow> DelayedState \<Rightarrow> DelayedState \<times> unit outcome" where
  "UnmarshalDelayedState_field E fc ds =
    (if ep_FieldNum E fc = 1 then
       rd_message E fc ''cannot read 'State state = 1;' field''
         (\<lambda>data. case UnmarshalState E data (ds_State ds) of
            (s, r) \<Rightarrow> (ds\<lparr>ds_State := s\<rparr>,
              wrap_err ''cannot unmarshal 'State state = 1;' field: '' r)) ds
     else if ep_FieldNum E fc = 2 then
       rd_int64 E fc ''cannot read 'int64 offset = 2;' field'' (\<lambda>v. ds\<lparr>ds_Offset := v\<rparr>) ds
     else if ep_FieldNum E fc = 3 then
       rd_int64 E fc ''cannot read 'int64 execute_at_sec = 3;' field''
         (\<lambda>v. if v \<noteq> 0 then ds\<lparr>ds_ExecuteAt := time_Unix v 0\<rparr> else ds) ds
     else (ds, Ok ()))"

definition UnmarshalDelayedState ::
  "'c easyproto \<Rightarrow> string \<Rightarrow> DelayedState \<Rightarrow> DelayedState \<times> unit outcome" where
  "UnmarshalDelayedState E src ds = fieldLoop E (UnmarshalDelayedState_field E) src ds"

section \<open>What survives a round trip\<close>

text \<open>
  Maps travel entry by entry, so an empty map comes back nil; times are cut to milliseconds or
  seconds. Keys must not be empty (\<open>unmarshalStringMapItem\<close> rejects them) and integers must fit.
\<close>

definition pb_ok_map :: "'v gomap \<Rightarrow> bool" where
  "pb_ok_map m \<longleftrightarrow> gm_wf m \<and> (\<forall>k \<in> fst ` set (gm_entries m). k \<noteq> [])"

definition pb_ok_Transition :: "Transition \<Rightarrow> bool" where
  "pb_ok_Transition ts \<longleftrightarrow> pb_ok_map (ts_Annotations ts)"

definition pb_ok_State :: "State \<Rightarrow> bool" where
  "pb_ok_State s \<longleftrightarrow> in_i64 (s_Rev s) \<and> pb_ok_map (s_Annotations s) \<and> pb_ok_map (s_Labels s)
    \<and> pb_ok_Transition (s_Transition s)"

definition pb_ok_Data :: "Data \<Rightarrow> bool" where
  "pb_ok_Data d \<longleftrightarrow> in_i64 (d_Rev d) \<and> pb_ok_map (d_Annotations d)"

definition pb_ok_StateCtx :: "StateCtx \<Rightarrow> bool" where
  "pb_ok_StateCtx c \<longleftrightarrow> pb_ok_State (sc_Committed c) \<and> pb_ok_State (sc_Current c)
    \<and> list_all pb_ok_Transition (sc_Transitions c) \<and> pb_ok_map (sc_Datas c)
    \<and> list_all (\<lambda>(k, d). case d of None \<Rightarrow> False | Some d' \<Rightarrow> pb_ok_Data d') (gm_entries (sc_Datas c))"

definition pb_milli :: "time \<Rightarrow> time" where
  "pb_milli t = (if IsZero t then t else time_UnixMilli (UnixMilli t))"

definition pb_State :: "State \<Rightarrow> State" where
  "pb_State s = (norm_State s)\<lparr>s_CommittedAt := pb_milli (s_CommittedAt s)\<rparr>"

definition pb_Data :: "Data \<Rightarrow> Data" where
  "pb_Data d = d\<lparr>d_Annotations := norm_map (d_Annotations d),
    d_Blob := (if blob_bytes (d_Blob d) = [] then None else d_Blob d)\<rparr>"

definition pb_Datas :: "Data option gomap \<Rightarrow> Data option gomap" where
  "pb_Datas m = norm_map (Some (map (\<lambda>(k, d). (k, map_option pb_Data d)) (sort_key fst (gm_entries m))))"

definition pb_StateCtx :: "StateCtx \<Rightarrow> StateCtx" where
  "pb_StateCtx c = StateCtx0\<lparr>sc_Current := pb_State (sc_Current c), sc_Committed := pb_State (sc_Committed c),
    sc_Transitions := map norm_Transition (sc_Transitions c), sc_Datas := pb_Datas (sc_Datas c)\<rparr>"

definition pb_sec :: "time \<Rightarrow> time" where
  "pb_sec t = (if IsZero t \<or> Unix t = 0 then zero_time else time_Unix (Unix t) 0)"

definition pb_DelayedState :: "DelayedState \<Rightarrow> DelayedState" where
  "pb_DelayedState ds = ds\<lparr>ds_State := pb_State (ds_State ds), ds_ExecuteAt := pb_sec (ds_ExecuteAt ds)\<rparr>"

lemma in_i64_Unix [simp]: "in_i64 (UnixMilli t)" "in_i64 (Unix t)"
  by (simp_all add: UnixMilli_def Unix_def in_i64_i64)

lemma make_map_set [simp]: "gm_set (make_map m) k v = gm_set m k v"
  by (cases m) (simp_all add: make_map_def gm_set_def)

lemma make_map_made [simp]: "make_map m \<noteq> None"
  by (cases m) (simp_all add: make_map_def)

lemma assign_entry_made: "m \<noteq> None \<Longrightarrow> assign_entry m k v = (gm_set m k v, Ok ())"
  by (auto simp: assign_entry_def)

lemma assign_entry_wf: "gm_wf m \<Longrightarrow> gm_wf (fst (assign_entry m k v))"
  by (simp add: assign_entry_def gm_wf_def split: option.split)
    (metis gm_wf_def gm_wf_set)

lemma gm_set_map: "gm_set (Some (map (\<lambda>(k, d). (k, f d)) es)) k (f d) = Some (map (\<lambda>(k, d). (k, f d)) (AList.update k d es))"
  by (induction es) (auto simp: gm_set_def)

section \<open>Decoding keeps values well-formed\<close>

lemma gm_wf_make_map [simp]: "gm_wf m \<Longrightarrow> gm_wf (make_map m)"
  by (cases m) (simp_all add: make_map_def gm_wf_def)

lemma unmarshalStringMapItem_wf: "gm_wf m \<Longrightarrow> gm_wf (fst (unmarshalStringMapItem E src m))"
  by (auto simp: unmarshalStringMapItem_def assign_entry_wf split: prod.splits outcome.splits)

lemmas decode_defs = rd_defs rd_strmap_def case_prod_beta

lemma UnmarshalTransition_wf: "wf_Transition ts \<Longrightarrow> wf_Transition (fst (UnmarshalTransition E src ts))"
  unfolding UnmarshalTransition_def
proof (rule fieldLoop_inv)
  fix fc ts assume wf: "wf_Transition ts"
  show "wf_Transition (fst (UnmarshalTransition_field E fc ts))"
    unfolding UnmarshalTransition_field_def
    using wf
    by (simp add: decode_defs unmarshalStringMapItem_wf wf_Transition_def split: option.split)
qed

lemma UnmarshalState_wf: "wf_State s \<Longrightarrow> wf_State (fst (UnmarshalState E src s))"
  unfolding UnmarshalState_def
proof (rule fieldLoop_inv)
  fix fc s assume wf: "wf_State s"
  show "wf_State (fst (UnmarshalState_field E fc s))"
    unfolding UnmarshalState_field_def
    using wf
    by (simp add: decode_defs unmarshalStringMapItem_wf wf_State_def UnmarshalTransition_wf
        split: option.split)
qed

lemma UnmarshalData_wf: "wf_Data d \<Longrightarrow> wf_Data (fst (UnmarshalData E src d))"
proof -
  assume wf: "wf_Data d"
  have "wf_Data (fst (fst (fieldLoop E (UnmarshalData_field E) src (d, []))))"
  proof (rule fieldLoop_inv [where P = "\<lambda>db. wf_Data (fst db)"])
    fix fc db assume wf: "wf_Data (fst (db :: Data \<times> string))"
    show "wf_Data (fst (fst (UnmarshalData_field E fc db)))"
      unfolding UnmarshalData_field_def
      using wf
      by (simp add: decode_defs unmarshalStringMapItem_wf wf_Data_def split: option.split)
  qed (use wf in simp)
  then show ?thesis
    by (auto simp: UnmarshalData_def wf_Data_def split: prod.splits outcome.splits option.splits)
qed

lemma unmarshalDataMapItem_wf: "gm_wf m \<Longrightarrow> gm_wf (fst (unmarshalDataMapItem E src m))"
  by (auto simp: unmarshalDataMapItem_def assign_entry_wf split: prod.splits outcome.splits)

lemma wf_StateCtx_upd:
  assumes "wf_StateCtx c"
  shows "wf_State s \<Longrightarrow> wf_StateCtx (c\<lparr>sc_Current := s\<rparr>)"
    and "wf_State s \<Longrightarrow> wf_StateCtx (c\<lparr>sc_Committed := s\<rparr>)"
    and "gm_wf m \<Longrightarrow> wf_StateCtx (c\<lparr>sc_Datas := m\<rparr>)"
  using assms by (simp_all add: wf_StateCtx_def)

lemma wf_StateCtx_fields:
  assumes "wf_StateCtx c"
  shows "wf_State (sc_Current c)" "wf_State (sc_Committed c)" "gm_wf (sc_Datas c)"
    "list_all wf_Transition (sc_Transitions c)"
  using assms by (simp_all add: wf_StateCtx_def)

lemma UnmarshalStateCtx_wf: "wf_StateCtx c \<Longrightarrow> wf_StateCtx (fst (UnmarshalStateCtx E src c))"
  unfolding UnmarshalStateCtx_def
proof (rule fieldLoop_inv)
  fix fc c assume wf: "wf_StateCtx c"
  note f = wf_StateCtx_fields [OF wf]
  have "wf_State (fst (UnmarshalState E data (sc_Committed c)))"
    "wf_State (fst (UnmarshalState E data (sc_Current c)))"
    "wf_Transition (fst (UnmarshalTransition E data Transition0))"
    "gm_wf (fst (unmarshalDataMapItem E data (make_map (sc_Datas c))))" for data
    using f by (simp_all add: UnmarshalState_wf UnmarshalTransition_wf unmarshalDataMapItem_wf)
  then show "wf_StateCtx (fst (UnmarshalStateCtx_field E fc c))"
    unfolding UnmarshalStateCtx_field_def rd_message_def
    by (simp add: wf wf_StateCtx_upd wf_append_reset case_prod_beta split: option.split outcome.split)
qed

section \<open>Round trips\<close>

context easyproto_laws
begin

lemma map_item_roundtrip:
  assumes "k \<noteq> []" "m \<noteq> None"
  shows "unmarshalStringMapItem E
      (ep_Marshal E ([(1, PString k)] @ (if v \<noteq> [] then [(2, PString v)] else []))) m
    = (gm_set m k v, Ok ())"
proof -
  have "consumes E (unmarshalStringMapItem_field E) [(1, PString k)] ([], []) (k, [])"
    by (rule consumes_field) (use assms(1) in \<open>auto simp: unmarshalStringMapItem_field_def\<close>)
  moreover have "consumes E (unmarshalStringMapItem_field E)
      (if v \<noteq> [] then [(2, PString v)] else []) (k, []) (k, v)"
    by (rule consumes_if, rule consumes_field) (auto simp: unmarshalStringMapItem_field_def rd_defs)
  ultimately have "consumes E (unmarshalStringMapItem_field E)
      ([(1, PString k)] @ (if v \<noteq> [] then [(2, PString v)] else [])) ([], []) (k, v)"
    by (rule consumes_append)
  from consumes_done [OF this] show ?thesis
    by (simp add: unmarshalStringMapItem_def assign_entry_made [OF assms(2)])
qed

text \<open>Items that are read into a map that has been made.\<close>

lemma consumes_map_inv:
  assumes "\<And>x s. x \<in> set xs \<Longrightarrow> P s \<Longrightarrow> consumes E body [f x] s (g x s) \<and> P (g x s)" "P s"
  shows "consumes E body (map f xs) s (fold g xs s)"
  using assms
proof (induction xs arbitrary: s)
  case (Cons x xs)
  have "consumes E body ([f x] @ map f xs) s (fold g xs (g x s))"
    by (rule consumes_append [of _ _ _ _ "g x s"]) (use Cons in auto)
  then show ?case by simp
qed (simp add: consumes_Nil)

lemma consumes_strmap:
  assumes n: "0 < n" "n < 2 ^ 29"
    and body: "\<And>fc s. ep_FieldNum E fc = n \<Longrightarrow> body fc s = rd_strmap E fc msg get put s"
    and lens: "\<And>m s. get (put m s) = m" "\<And>m m' s. put m (put m' s) = put m s" "\<And>s. put (get s) s = s"
    and keys: "\<forall>k \<in> fst ` set (gm_entries m). k \<noteq> []"
  shows "consumes E body (marshalStringMap m n) s (put (gm_merge m (get s)) s)"
proof -
  let ?item = "\<lambda>(k, v). (n, PMsg ([(1, PString k)] @ (if v \<noteq> [] then [(2, PString v)] else [])))"
  let ?step = "\<lambda>(k, v) s. put (gm_set (get s) k v) s"
  have "consumes E body [?item kv] s (?step kv s)" if kv: "kv \<in> set (gm_entries m)" for kv s
  proof -
    obtain k v where k: "kv = (k, v)" "k \<noteq> []"
    proof
      show "kv = (fst kv, snd kv)" by simp
      show "fst kv \<noteq> []" by (rule bspec [OF keys imageI [OF kv]])
    qed
    have "body fc s = (put (gm_set (get s) k v) s, Ok ())"
      if "ep_FieldNum E fc = n"
        "ep_reads E fc (PMsg ([(1, PString k)] @ (if v \<noteq> [] then [(2, PString v)] else [])))" for fc
      using that map_item_roundtrip [OF k(2) make_map_made, of v "get s"]
      by (simp only: body rd_strmap_def rd_message_def ep_reads.simps option.case prod.case
          make_map_set wrap_err.simps)
    with n show ?thesis unfolding k(1) prod.case by (rule consumes_field)
  qed
  then have "consumes E body (map ?item (gm_entries m)) s (fold ?step (gm_entries m) s)"
    by (rule consumes_map)
  moreover have "fold ?step es s = put (gm_merge (Some es) (get s)) s" for es
    by (induction es arbitrary: s) (auto simp: lens)
  moreover have "gm_merge (Some (gm_entries m)) (get s) = gm_merge m (get s)"
    by (cases m) simp_all
  ultimately show ?thesis by (simp add: marshalStringMap_def)
qed

text \<open>The map fields of each message, as instances of the rule above.\<close>

lemma Transition_map:
  "pb_ok_map m \<Longrightarrow> consumes E (UnmarshalTransition_field E) (marshalStringMap m 3) ts
    (ts\<lparr>ts_Annotations := gm_merge m (ts_Annotations ts)\<rparr>)"
  by (rule consumes_strmap) (auto simp: UnmarshalTransition_field_def pb_ok_map_def)

lemma State_maps:
  "pb_ok_map m \<Longrightarrow> consumes E (UnmarshalState_field E) (marshalStringMap m 3) s
    (s\<lparr>s_Annotations := gm_merge m (s_Annotations s)\<rparr>)"
  "pb_ok_map m \<Longrightarrow> consumes E (UnmarshalState_field E) (marshalStringMap m 4) s
    (s\<lparr>s_Labels := gm_merge m (s_Labels s)\<rparr>)"
  by (rule consumes_strmap; auto simp: UnmarshalState_field_def pb_ok_map_def)+

lemma Data_map:
  "pb_ok_map m \<Longrightarrow> consumes E (UnmarshalData_field E) (marshalStringMap m 5) (d, b)
    (d\<lparr>d_Annotations := gm_merge m (d_Annotations d)\<rparr>, b)"
  using consumes_strmap [where body = "UnmarshalData_field E" and n = 5 and m = m and s = "(d, b)"
      and get = "\<lambda>db. d_Annotations (fst db)" and put = "\<lambda>m db. ((fst db)\<lparr>d_Annotations := m\<rparr>, snd db)"]
  by (simp add: UnmarshalData_field_def pb_ok_map_def)

lemma Transition_roundtrip:
  assumes "pb_ok_Transition ts"
  shows "UnmarshalTransition E (ep_Marshal E (marshalTransition ts)) Transition0 = (norm_Transition ts, Ok ())"
proof -
  let ?t1 = "Transition0\<lparr>ts_To := ts_To ts\<rparr>"
  have "consumes E (UnmarshalTransition_field E) (marshalTransition ts) Transition0
      (?t1\<lparr>ts_Annotations := gm_merge (ts_Annotations ts) (ts_Annotations ?t1)\<rparr>)"
    unfolding marshalTransition_def
  proof (rule consumes_append [of _ _ _ _ ?t1])
    show "consumes E (UnmarshalTransition_field E) (if ts_To ts \<noteq> [] then [(2, PString (ts_To ts))] else [])
        Transition0 ?t1"
      by (rule consumes_if, rule consumes_field)
        (auto simp: UnmarshalTransition_field_def rd_defs Transition0_def)
    show "consumes E (UnmarshalTransition_field E)
        (if ts_Annotations ts \<noteq> None then marshalStringMap (ts_Annotations ts) 3 else []) ?t1
        (?t1\<lparr>ts_Annotations := gm_merge (ts_Annotations ts) (ts_Annotations ?t1)\<rparr>)"
      by (rule consumes_if, rule Transition_map) (use assms in \<open>auto simp: pb_ok_Transition_def\<close>)
  qed
  from consumes_done [OF this] show ?thesis
    using assms
    by (simp add: UnmarshalTransition_def norm_Transition_def gm_merge_norm pb_ok_Transition_def
        pb_ok_map_def Transition0_def)
qed

text \<open>A state may be read into one that has its id and its revision already.\<close>

lemma State_roundtrip_into:
  assumes ok: "pb_ok_State s" and i: "i = [] \<or> i = s_ID s" and r: "r = 0 \<or> r = s_Rev s"
  shows "UnmarshalState E (ep_Marshal E (marshalState s)) (State0\<lparr>s_ID := i, s_Rev := r\<rparr>) = (pb_State s, Ok ())"
proof -
  let ?b = "UnmarshalState_field E"
  let ?s0 = "State0\<lparr>s_ID := i, s_Rev := r\<rparr>"
  let ?s1 = "?s0\<lparr>s_ID := s_ID s\<rparr>"
  let ?s2 = "?s1\<lparr>s_Rev := s_Rev s\<rparr>"
  let ?s3 = "?s2\<lparr>s_Annotations := gm_merge (s_Annotations s) (s_Annotations ?s2)\<rparr>"
  let ?s4 = "?s3\<lparr>s_Labels := gm_merge (s_Labels s) (s_Labels ?s3)\<rparr>"
  let ?s5 = "?s4\<lparr>s_CommittedAt := pb_milli (s_CommittedAt s)\<rparr>"
  let ?s6 = "?s5\<lparr>s_Transition := norm_Transition (s_Transition s)\<rparr>"
  note bs = UnmarshalState_field_def rd_defs State0_def
  have 1: "consumes E ?b (if s_ID s \<noteq> [] then [(1, PString (s_ID s))] else []) ?s0 ?s1"
    by (rule consumes_if, rule consumes_field) (use i in \<open>auto simp: bs\<close>)
  have 2: "consumes E ?b (if s_Rev s \<noteq> 0 then [(2, PInt64 (s_Rev s))] else []) ?s1 ?s2"
    by (rule consumes_if, rule consumes_field) (use ok r in \<open>auto simp: bs pb_ok_State_def\<close>)
  have 3: "consumes E ?b (if gm_len (s_Annotations s) > 0 then marshalStringMap (s_Annotations s) 3 else []) ?s2 ?s3"
    by (rule consumes_if, rule State_maps) (use ok in \<open>auto simp: pb_ok_State_def gm_len_def gm_merge_def\<close>)
  have 4: "consumes E ?b (if gm_len (s_Labels s) > 0 then marshalStringMap (s_Labels s) 4 else []) ?s3 ?s4"
    by (rule consumes_if, rule State_maps) (use ok in \<open>auto simp: pb_ok_State_def gm_len_def gm_merge_def\<close>)
  have 5: "consumes E ?b (if \<not> IsZero (s_CommittedAt s) then [(5, PInt64 (UnixMilli (s_CommittedAt s)))] else []) ?s4 ?s5"
    by (rule consumes_if, rule consumes_field) (auto simp: bs pb_milli_def IsZero_def)
  have 6: "consumes E ?b [(6, PMsg (marshalTransition (s_Transition s)))] ?s5 ?s6"
    by (rule consumes_field) (use ok in \<open>auto simp: bs pb_ok_State_def Transition_roundtrip\<close>)
  have "consumes E ?b (marshalState s) ?s0 ?s6"
    unfolding marshalState_def
    by (rule consumes_append [OF 1] consumes_append [OF 2] consumes_append [OF 3]
        consumes_append [OF 4] consumes_append [OF 5] 6)+
  from consumes_done [OF this] show ?thesis
    using ok by (simp add: UnmarshalState_def pb_State_def norm_State_def gm_merge_norm pb_ok_State_def
        pb_ok_map_def State0_def)
qed

lemma State_roundtrip:
  "pb_ok_State s \<Longrightarrow> UnmarshalState E (ep_Marshal E (marshalState s)) State0 = (pb_State s, Ok ())"
  using State_roundtrip_into [of s "[]" 0] by (simp add: State0_def)

lemma Data_roundtrip:
  assumes ok: "pb_ok_Data d"
  shows "UnmarshalData E (ep_Marshal E (marshalData d)) Data0 = (pb_Data d, Ok ())"
proof -
  let ?b = "UnmarshalData_field E"
  let ?blob = "if IsBinary d then b64_encode (blob_bytes (d_Blob d)) else blob_bytes (d_Blob d)"
  let ?d1 = "Data0\<lparr>d_Rev := d_Rev d\<rparr>"
  let ?d3 = "?d1\<lparr>d_Annotations := gm_merge (d_Annotations d) (d_Annotations ?d1)\<rparr>"
  note bs = UnmarshalData_field_def rd_defs Data0_def
  have 1: "consumes E ?b (if d_Rev d \<noteq> 0 then [(2, PInt64 (d_Rev d))] else []) (Data0, []) (?d1, [])"
    by (rule consumes_if, rule consumes_field) (use ok in \<open>auto simp: bs pb_ok_Data_def\<close>)
  have 2: "consumes E ?b (if blob_bytes (d_Blob d) \<noteq> [] then [(4, PString ?blob)] else []) (?d1, []) (?d1, ?blob)"
    by (rule consumes_if, rule consumes_field) (auto simp: bs)
  have 3: "consumes E ?b (if gm_len (d_Annotations d) > 0 then marshalStringMap (d_Annotations d) 5 else [])
      (?d1, ?blob) (?d3, ?blob)"
    by (rule consumes_if, rule Data_map) (use ok in \<open>auto simp: pb_ok_Data_def gm_len_def gm_merge_def\<close>)
  have "consumes E ?b (marshalData d) (Data0, []) (?d3, ?blob)"
    unfolding marshalData_def
    by (rule consumes_append [OF 1] consumes_append [OF 2] 3)+
  from consumes_done [OF this]
  have loop: "fieldLoop E ?b (ep_Marshal E (marshalData d)) (Data0, []) = ((?d3, ?blob), Ok ())" .
  have d3: "?d3 = d\<lparr>d_Annotations := norm_map (d_Annotations d), d_Blob := None\<rparr>"
    using ok by (simp add: Data0_def pb_ok_Data_def pb_ok_map_def gm_merge_norm)
  have "IsBinary ?d3 = IsBinary d" unfolding d3 by (simp add: IsBinary_def)
  then show ?thesis
    unfolding UnmarshalData_def loop unfolding d3
    by (cases "d_Blob d") (auto simp: pb_Data_def blob_bytes_def)
qed

lemma DelayedState_roundtrip:
  assumes ok: "pb_ok_State (ds_State ds)" "in_i64 (ds_Offset ds)"
  shows "UnmarshalDelayedState E (ep_Marshal E (marshalDelayedState ds)) DelayedState0
    = (pb_DelayedState ds, Ok ())"
proof -
  let ?b = "UnmarshalDelayedState_field E"
  let ?d1 = "DelayedState0\<lparr>ds_State := pb_State (ds_State ds)\<rparr>"
  let ?d2 = "?d1\<lparr>ds_Offset := ds_Offset ds\<rparr>"
  let ?d3 = "?d2\<lparr>ds_ExecuteAt := pb_sec (ds_ExecuteAt ds)\<rparr>"
  note bs = UnmarshalDelayedState_field_def rd_defs DelayedState0_def
  have 1: "consumes E ?b [(1, PMsg (marshalState (ds_State ds)))] DelayedState0 ?d1"
    by (rule consumes_field) (use ok in \<open>auto simp: bs State_roundtrip\<close>)
  have 2: "consumes E ?b (if ds_Offset ds \<noteq> 0 then [(2, PInt64 (ds_Offset ds))] else []) ?d1 ?d2"
    by (rule consumes_if, rule consumes_field) (use ok in \<open>auto simp: bs\<close>)
  have 3: "consumes E ?b (if \<not> IsZero (ds_ExecuteAt ds) then [(3, PInt64 (Unix (ds_ExecuteAt ds)))] else []) ?d2 ?d3"
    by (rule consumes_if, rule consumes_field) (auto simp: bs pb_sec_def)
  have "consumes E ?b (marshalDelayedState ds) DelayedState0 ?d3"
    unfolding marshalDelayedState_def
    by (rule consumes_append [OF 1] consumes_append [OF 2] 3)+
  from consumes_done [OF this] show ?thesis
    by (simp add: UnmarshalDelayedState_def pb_DelayedState_def DelayedState0_def)
qed

text \<open>The data of a context travel in key order.\<close>

lemma data_item_roundtrip:
  assumes "k \<noteq> []" "pb_ok_Data d" "m \<noteq> None"
  shows "unmarshalDataMapItem E (ep_Marshal E [(1, PString k), (2, PMsg (marshalData d))]) m
    = (gm_set m k (Some (pb_Data d)), Ok ())"
proof -
  let ?b = "unmarshalDataMapItem_field E"
  have "consumes E ?b [(1, PString k)] ([], None) (k, None)"
    by (rule consumes_field) (auto simp: unmarshalDataMapItem_field_def rd_defs)
  moreover have "consumes E ?b [(2, PMsg (marshalData d))] (k, None) (k, Some (pb_Data d))"
    by (rule consumes_field)
      (use assms in \<open>auto simp: unmarshalDataMapItem_field_def rd_defs Data_roundtrip\<close>)
  ultimately have "consumes E ?b ([(1, PString k)] @ [(2, PMsg (marshalData d))]) ([], None) (k, Some (pb_Data d))"
    by (rule consumes_append)
  from consumes_done [OF this] show ?thesis
    using assms by (simp add: unmarshalDataMapItem_def assign_entry_made)
qed

lemma StateCtx_datas:
  assumes "marshalDatas es = Some m" "distinct (map fst (fs @ es))"
    and "\<forall>(k, d) \<in> set es. k \<noteq> [] \<and> (\<exists>d'. d = Some d' \<and> pb_ok_Data d')"
    and "gm_entries (sc_Datas c) = map (\<lambda>(k, d). (k, map_option pb_Data d)) fs"
  shows "consumes E (UnmarshalStateCtx_field E) m c
    (if es = [] then c else c\<lparr>sc_Datas := Some (map (\<lambda>(k, d). (k, map_option pb_Data d)) (fs @ es))\<rparr>)"
  using assms
proof (induction es arbitrary: m c fs rule: marshalDatas.induct)
  case (3 k d es)
  let ?pb = "map (\<lambda>(k, d). (k, map_option pb_Data d))"
  from "3.prems"(1) obtain m' where m: "marshalDatas es = Some m'" "m = (4, PMsg [(1, PString k), (2, PMsg (marshalData d))]) # m'"
    by auto
  let ?c = "c\<lparr>sc_Datas := Some (?pb (fs @ [(k, Some d)]))\<rparr>"
  have kd: "k \<noteq> []" "pb_ok_Data d" using "3.prems"(3) by auto
  have "k \<notin> fst ` set fs" using "3.prems"(2) by simp
  then have "AList.update k (Some (pb_Data d)) (?pb fs) = ?pb (fs @ [(k, Some d)])"
    by (induction fs) auto
  then have set: "gm_set (sc_Datas c) k (Some (pb_Data d)) = Some (?pb (fs @ [(k, Some d)]))"
    using "3.prems"(4) by (simp add: gm_set_def)
  have "consumes E (UnmarshalStateCtx_field E) [(4, PMsg [(1, PString k), (2, PMsg (marshalData d))])] c ?c"
    by (rule consumes_field)
      (auto simp: UnmarshalStateCtx_field_def rd_defs data_item_roundtrip [OF kd make_map_made, simplified] set)
  moreover have "consumes E (UnmarshalStateCtx_field E) m' ?c
      (if es = [] then ?c else ?c\<lparr>sc_Datas := Some (?pb ((fs @ [(k, Some d)]) @ es))\<rparr>)"
    by (rule "3.IH") (use m(1) "3.prems" in auto)
  ultimately have "consumes E (UnmarshalStateCtx_field E) ([(4, PMsg [(1, PString k), (2, PMsg (marshalData d))])] @ m') c
      (if es = [] then ?c else ?c\<lparr>sc_Datas := Some (?pb ((fs @ [(k, Some d)]) @ es))\<rparr>)"
    by (rule consumes_append)
  then show ?case using m by (cases "es = []") simp_all
qed (auto simp: consumes_Nil)

lemma StateCtx_transitions:
  assumes "list_all pb_ok_Transition ts"
  shows "consumes E (UnmarshalStateCtx_field E) (map (\<lambda>t. (3, PMsg (marshalTransition t))) ts) c
    (fold (\<lambda>t c. append_Transition c (norm_Transition t)) ts c)"
proof (rule consumes_map, rule consumes_field)
  fix t c fc
  assume "t \<in> set ts" "ep_FieldNum E fc = 3" "ep_reads E fc (PMsg (marshalTransition t))"
  with assms show "UnmarshalStateCtx_field E fc c = (append_Transition c (norm_Transition t), Ok ())"
    by (auto simp: UnmarshalStateCtx_field_def rd_defs Transition_roundtrip list_all_iff)
qed auto

lemma StateCtx_roundtrip:
  assumes ok: "pb_ok_StateCtx c" and m: "marshalStateCtx c = Some m"
  shows "UnmarshalStateCtx E (ep_Marshal E m) StateCtx0 = (pb_StateCtx c, Ok ())"
proof -
  let ?b = "UnmarshalStateCtx_field E"
  let ?es = "sort_key fst (gm_entries (sc_Datas c))"
  let ?c1 = "StateCtx0\<lparr>sc_Committed := pb_State (sc_Committed c)\<rparr>"
  let ?c2 = "?c1\<lparr>sc_Current := pb_State (sc_Current c)\<rparr>"
  let ?c3 = "?c2\<lparr>sc_Transitions := map norm_Transition (sc_Transitions c)\<rparr>"
  from m obtain ds where ds: "marshalDatas ?es = Some ds"
    and mm: "m = [(1, PMsg (marshalState (sc_Committed c)))]
      @ [(2, PMsg (marshalState (sc_Current c)))]
      @ map (\<lambda>s. (3, PMsg (marshalTransition s))) (sc_Transitions c) @ ds"
    by (auto simp: marshalStateCtx_def split: option.splits)
  have 1: "consumes E ?b [(1, PMsg (marshalState (sc_Committed c)))] StateCtx0 ?c1"
    by (rule consumes_field)
      (use ok in \<open>auto simp: UnmarshalStateCtx_field_def rd_defs State_roundtrip pb_ok_StateCtx_def\<close>)
  have 2: "consumes E ?b [(2, PMsg (marshalState (sc_Current c)))] ?c1 ?c2"
    by (rule consumes_field)
      (use ok in \<open>auto simp: UnmarshalStateCtx_field_def rd_defs State_roundtrip pb_ok_StateCtx_def\<close>)
  have app: "fold (\<lambda>t c. append_Transition c (norm_Transition t)) ts x
      = x\<lparr>sc_Transitions := sc_Transitions x @ map norm_Transition ts\<rparr>" if "sc_Spare x = []" for ts x
    using that by (induction ts arbitrary: x) (auto simp: append_Transition_def)
  have 3: "consumes E ?b (map (\<lambda>s. (3, PMsg (marshalTransition s))) (sc_Transitions c)) ?c2 ?c3"
    using StateCtx_transitions [of "sc_Transitions c" ?c2] ok app [of ?c2 "sc_Transitions c"]
    by (simp add: pb_ok_StateCtx_def)
  have 4: "consumes E ?b ds ?c3 (pb_StateCtx c)"
  proof -
    have "distinct (map fst ([] @ ?es))"
      using ok by (simp add: pb_ok_StateCtx_def pb_ok_map_def gm_wf_def distinct_map inj_on_def)
    moreover have "\<forall>(k, d) \<in> set ?es. k \<noteq> [] \<and> (\<exists>d'. d = Some d' \<and> pb_ok_Data d')"
      using ok by (fastforce simp: pb_ok_StateCtx_def pb_ok_map_def list_all_iff split: option.splits)
    ultimately have "consumes E ?b ds ?c3 (if ?es = [] then ?c3
        else ?c3\<lparr>sc_Datas := Some (map (\<lambda>(k, d). (k, map_option pb_Data d)) ([] @ ?es))\<rparr>)"
      by (rule StateCtx_datas [OF ds]) simp
    moreover have "(if ?es = [] then ?c3
        else ?c3\<lparr>sc_Datas := Some (map (\<lambda>(k, d). (k, map_option pb_Data d)) ([] @ ?es))\<rparr>) = pb_StateCtx c"
      by (auto simp: pb_StateCtx_def pb_Datas_def norm_map_def StateCtx0_def)
    ultimately show ?thesis by simp
  qed
  have "consumes E ?b m StateCtx0 (pb_StateCtx c)"
    unfolding mm by (rule consumes_append [OF 1] consumes_append [OF 2] consumes_append [OF 3] 4)+
  from consumes_done [OF this] show ?thesis by (simp add: UnmarshalStateCtx_def)
qed

text \<open>No decoder panics.\<close>

lemma wrap_err_no_panic [simp]: "wrap_err msg r = Panic p \<longleftrightarrow> r = Panic p"
  by (cases r) auto

text \<open>Assigning to a map that has not been made would panic.\<close>

lemma nil_map_panics:
  assumes "k \<noteq> []"
  shows "unmarshalStringMapItem E (ep_Marshal E [(1, PString k)]) None = (None, Panic ''assignment to entry in nil map'')"
proof -
  have "consumes E (unmarshalStringMapItem_field E) [(1, PString k)] ([], []) (k, [])"
    by (rule consumes_field) (use assms in \<open>auto simp: unmarshalStringMapItem_field_def\<close>)
  from consumes_done [OF this] show ?thesis by (simp add: unmarshalStringMapItem_def assign_entry_def)
qed

lemma rd_no_panic:
  "snd (rd_string E fc msg store s) \<noteq> Panic p"
  "snd (rd_int64 E fc msg storei s) \<noteq> Panic p"
  "(\<And>data. snd (cont data) \<noteq> Panic p) \<Longrightarrow> snd (rd_message E fc msg cont s) \<noteq> Panic p"
  by (simp_all add: rd_defs split: option.split)

lemma strmap_no_panic: "snd (rd_strmap E fc msg get put s) \<noteq> Panic p"
proof -
  have item: "snd (unmarshalStringMapItem E src m) \<noteq> Panic p" if "m \<noteq> None" for src m
  proof -
    have "snd (unmarshalStringMapItem_field E fc kv) \<noteq> Panic q" for fc kv q
      by (simp add: unmarshalStringMapItem_field_def rd_no_panic split: option.split)
    from fieldLoop_no_panic [of "unmarshalStringMapItem_field E", OF this]
    have "snd (fieldLoop E (unmarshalStringMapItem_field E) src ([], [])) \<noteq> Panic p" .
    then show ?thesis by (auto simp: unmarshalStringMapItem_def assign_entry_made [OF that] split: prod.splits outcome.splits)
  qed
  show ?thesis
    unfolding rd_strmap_def by (rule rd_no_panic(3)) (simp add: case_prod_beta item)
qed

lemma UnmarshalTransition_no_panic: "snd (UnmarshalTransition E src ts) \<noteq> Panic p"
  unfolding UnmarshalTransition_def
  by (rule fieldLoop_no_panic) (simp add: UnmarshalTransition_field_def rd_no_panic strmap_no_panic)

lemma UnmarshalState_no_panic: "snd (UnmarshalState E src s) \<noteq> Panic p"
  unfolding UnmarshalState_def
  by (rule fieldLoop_no_panic)
    (simp add: UnmarshalState_field_def rd_no_panic strmap_no_panic case_prod_beta UnmarshalTransition_no_panic)

lemma UnmarshalData_no_panic: "snd (UnmarshalData E src d) \<noteq> Panic p"
proof -
  have "snd (UnmarshalData_field E fc db) \<noteq> Panic q" for fc db q
    by (simp add: UnmarshalData_field_def rd_no_panic strmap_no_panic)
  from fieldLoop_no_panic [of "UnmarshalData_field E", OF this]
  have "snd (fieldLoop E (UnmarshalData_field E) src (d, [])) \<noteq> Panic p" .
  then show ?thesis
    by (auto simp: UnmarshalData_def split: prod.splits outcome.splits option.splits)
qed

lemma DataMapItem_no_panic: "m \<noteq> None \<Longrightarrow> snd (unmarshalDataMapItem E src m) \<noteq> Panic p"
proof -
  have "snd (unmarshalDataMapItem_field E fc kd) \<noteq> Panic q" for fc kd q
    by (simp add: unmarshalDataMapItem_field_def rd_no_panic case_prod_beta UnmarshalData_no_panic)
  from fieldLoop_no_panic [of "unmarshalDataMapItem_field E", OF this]
  have "snd (fieldLoop E (unmarshalDataMapItem_field E) src ([], None)) \<noteq> Panic p" .
  moreover assume "m \<noteq> None"
  ultimately show ?thesis by (auto simp: unmarshalDataMapItem_def assign_entry_made split: prod.splits outcome.splits)
qed

lemma StateCtx_no_panic: "snd (UnmarshalStateCtx E src c) \<noteq> Panic p"
  unfolding UnmarshalStateCtx_def
proof (rule fieldLoop_no_panic)
  fix fc c p
  have t: "snd (case UnmarshalTransition E data Transition0 of
            (ts, Ok _) \<Rightarrow> (append_Transition c ts, Ok ())
          | (_, r) \<Rightarrow> (c, wrap_err msg r)) \<noteq> Panic p" for data msg
    using UnmarshalTransition_no_panic [of data Transition0 p]
    by (auto split: prod.split outcome.split)
  show "snd (UnmarshalStateCtx_field E fc c) \<noteq> Panic p"
    unfolding UnmarshalStateCtx_field_def
    using t by (simp add: rd_no_panic case_prod_beta UnmarshalState_no_panic DataMapItem_no_panic)
qed

end

section \<open>Properties\<close>

lemma pb_ok_marshals: "pb_ok_StateCtx c \<Longrightarrow> \<exists>m. marshalStateCtx c = Some m"
proof -
  have "\<forall>(k, d) \<in> set es. d \<noteq> None \<Longrightarrow> \<exists>m. marshalDatas es = Some m" for es
    by (induction es rule: marshalDatas.induct) auto
  moreover assume "pb_ok_StateCtx c"
  then have "\<forall>(k, d) \<in> set (sort_key fst (gm_entries (sc_Datas c))). d \<noteq> None"
    by (auto simp: pb_ok_StateCtx_def list_all_iff split: option.splits)
  ultimately obtain m where "marshalDatas (sort_key fst (gm_entries (sc_Datas c))) = Some m"
    by blast
  then show ?thesis by (simp add: marshalStateCtx_def)
qed

text \<open>
  C15: a state context survives the trip through protobuf: decoding into a fresh context gives
  the context back, with empty maps turned nil and times cut to milliseconds. Keys of maps must
  not be empty, blobs must not be nil pointers, and the integers must fit 64 bits.
\<close>

theorem UnmarshalStateCtx_MarshalStateCtx:
  assumes "easyproto_laws E" "pb_ok_StateCtx c"
  shows "\<exists>b. MarshalStateCtx E c dst = Ok (dst @ b) \<and> UnmarshalStateCtx E b StateCtx0 = (pb_StateCtx c, Ok ())"
proof -
  from pb_ok_marshals [OF assms(2)] obtain m where "marshalStateCtx c = Some m" ..
  with easyproto_laws.StateCtx_roundtrip [OF assms this] show ?thesis
    by (simp add: MarshalStateCtx_def)
qed

definition sample_ctx :: StateCtx where
  "sample_ctx = StateCtx0\<lparr>
    sc_Current := State0\<lparr>s_ID := ''id'', s_Rev := 7, s_Labels := Some [(''k'', ''v'')]\<rparr>,
    sc_Datas := Some [(''d'', Some (Data0\<lparr>d_Blob := Some ''bytes''\<rparr>))]\<rparr>"

lemma pb_ok_sample: "pb_ok_StateCtx sample_ctx"
  by code_simp

theorem UnmarshalStateCtx_MarshalStateCtx_witness:
  "\<exists>b. MarshalStateCtx wire sample_ctx [] = Ok b
    \<and> UnmarshalStateCtx wire b StateCtx0 = (pb_StateCtx sample_ctx, Ok ())"
  using UnmarshalStateCtx_MarshalStateCtx [OF pbwire.easyproto_laws_axioms pb_ok_sample, of "[]"] by simp

text \<open>
  C16: decoding a state context from any bytes, however malformed, returns: it neither panics nor
  loops, and the context it was decoding into stays well-formed, with an error too. A map of the
  context that is still nil is made before an entry is assigned to it, in the context as in its
  states, transitions and blobs: without that the assignment would panic (\<open>nil_map_panics\<close>).
\<close>

theorem UnmarshalStateCtx_any_bytes:
  assumes "easyproto_laws E" "wf_StateCtx c"
  shows "wf_StateCtx (fst (UnmarshalStateCtx E src c)) \<and> (\<forall>p. snd (UnmarshalStateCtx E src c) \<noteq> Panic p)"
  by (simp add: UnmarshalStateCtx_wf assms easyproto_laws.StateCtx_no_panic)

theorem UnmarshalStateCtx_any_bytes_witness:
  "wf_StateCtx (fst (UnmarshalStateCtx wire ''garbage'' StateCtx0))"
  using UnmarshalStateCtx_any_bytes [OF pbwire.easyproto_laws_axioms wf_zero(4)] by simp

text \<open>
  A map with an empty key can be written but not read back: a state that carries an
  annotation under the empty key, which \<open>SetAnnotation\<close> accepts, is refused by \<open>UnmarshalState\<close>.
\<close>

lemma UnmarshalState_empty_key:
  assumes "easyproto_laws E" "s_ID s = []" "s_Rev s = 0" "s_Annotations s = None"
  shows "\<exists>e s'. UnmarshalState E (MarshalState E (SetAnnotation s [] v) []) State0 = (s', Err e)"
proof -
  obtain m fs where m: "marshalState (SetAnnotation s [] v) = (3, PMsg ((1, PString []) # m)) # fs"
    using assms(2-4)
    by (auto simp: marshalState_def SetAnnotation_def marshalStringMap_def gm_set_def gm_len_def)
  have item: "unmarshalStringMapItem E (ep_Marshal E ((1, PString []) # m)) mp
      = (mp, Err (Errorf ''map key cannot be empty''))" for mp
    using easyproto_laws.stops_field [OF assms(1), of 1 "Err (Errorf ''map key cannot be empty'')" "PString []"
        "unmarshalStringMapItem_field E" "([], [])" "([], [])" m]
    by (simp add: unmarshalStringMapItem_def unmarshalStringMapItem_field_def)
  have "\<exists>s' e. UnmarshalState E (ep_Marshal E ((3, PMsg ((1, PString []) # m)) # fs)) State0 = (s', Err e)"
    unfolding UnmarshalState_def
    by (intro exI, rule easyproto_laws.stops_field [OF assms(1)])
      (auto simp: UnmarshalState_field_def rd_strmap_def rd_message_def item [simplified])
  then show ?thesis by (simp add: MarshalState_def m) blast
qed

lemma UnmarshalState_empty_key_instance:
  "\<exists>e s'. UnmarshalState wire (MarshalState wire (SetAnnotation State0 [] ''v'') []) State0 = (s', Err e)"
  by (rule UnmarshalState_empty_key [OF pbwire.easyproto_laws_axioms]) simp_all

end
