(* ===== verification/Commands.thy ===== *)
theory Commands
  imports Protobuf
begin

text \<open>
  \<open>cmd.go\<close>, the command part of \<open>delay.go\<close> and \<open>driver.go\<close>: the commands, their builders, their
  \<open>Do\<close>, \<open>Prepare\<close> and \<open>post\<close> methods, and \<open>DoCommitSubCommand\<close>. Commands point to state contexts
  in a heap, so that two commands of one commit may share a context; a nil pointer panics when
  it is dereferenced.
\<close>

section \<open>The heap of state contexts and the libraries\<close>

type_synonym ctx_ref = "nat option"
type_synonym heap = "nat \<Rightarrow> StateCtx option"

definition deref :: "heap \<Rightarrow> ctx_ref \<Rightarrow> StateCtx option" where
  "deref h p = (case p of None \<Rightarrow> None | Some a \<Rightarrow> h a)"

definition store :: "heap \<Rightarrow> ctx_ref \<Rightarrow> StateCtx \<Rightarrow> heap" where
  "store h p c = (case p of None \<Rightarrow> h | Some a \<Rightarrow> h(a := Some c))"

text \<open>
  What the commands use from outside the repository: easyproto, xxhash, the layout
  \<open>time.RFC3339\<close> applied to a time in its location, and the readings of the clock, by the
  revision that is being assigned when it is read.
\<close>

record 'c libs =
  lib_easyproto :: "'c easyproto"
  lib_Sum64 :: "string \<Rightarrow> nat"
  lib_RFC3339 :: "time \<Rightarrow> string"
  lib_Now :: "int \<Rightarrow> time"

section \<open>Commands\<close>

record TransitCommand =
  tr_StateCtx :: ctx_ref
  tr_Annotations :: strmap
  tr_To :: string

record ParkCommand =
  pk_StateCtx :: ctx_ref
  pk_Annotations :: strmap

record ExecuteCommand =
  ex_StateCtx :: ctx_ref
  ex_sync :: bool

record GetStateByIDCommand =
  gi_ID :: string
  gi_Rev :: int
  gi_StateCtx :: ctx_ref

record GetStateByLabelsCommand =
  gl_Labels :: strmap
  gl_StateCtx :: ctx_ref

record GetStatesResult =
  gsr_States :: "State list"
  gsr_More :: bool

record GetStatesCommand =
  gs_SinceRev :: int
  gs_SinceTime :: time
  gs_Labels :: "strmap list"
  gs_LatestOnly :: bool
  gs_Limit :: int
  gs_Result :: "GetStatesResult option"

record StackCommand =
  st_StackedStateCtx :: ctx_ref
  st_CarrierStateCtx :: ctx_ref
  st_Annotation :: string

record UnstackCommand =
  un_CarrierStateCtx :: ctx_ref
  un_UnstackStateCtx :: ctx_ref
  un_Annotation :: string

record StoreDataCommand =
  sd_StateCtx :: ctx_ref
  sd_Alias :: string

record GetDataCommand =
  gd_StateCtx :: ctx_ref
  gd_Alias :: string

record DelayCommand =
  dl_StateCtx :: ctx_ref
  dl_ExecuteAt :: time
  dl_Commit :: bool
  dl_To :: string
  dl_Annotations :: strmap
  dl_Result :: "DelayedState option"

record GetDelayedStatesResult =
  gdr_States :: "DelayedState list"
  gdr_More :: bool

record GetDelayedStatesCommand =
  gt_Since :: time
  gt_Until :: time
  gt_Offset :: int
  gt_Limit :: int
  gt_Result :: "GetDelayedStatesResult option"

text \<open>\<open>NilCmd\<close> is the nil \<open>Command\<close>, which decoding a command of an unknown kind yields.\<close>

datatype Command =
    NilCmd
  | NoopCmd
  | TransitCmd TransitCommand
  | ParkCmd ParkCommand
  | ExecuteCmd ExecuteCommand
  | GetStateByIDCmd GetStateByIDCommand
  | GetStateByLabelsCmd GetStateByLabelsCommand
  | GetStatesCmd GetStatesCommand
  | GetDelayedStatesCmd GetDelayedStatesCommand
  | StackCmd StackCommand
  | UnstackCmd UnstackCommand
  | StoreDataCmd StoreDataCommand
  | GetDataCmd GetDataCommand
  | DelayCmd DelayCommand
  | CommitCmd "Command list"

text \<open>\<open>%T\<close> of a command.\<close>

fun cmd_type :: "Command \<Rightarrow> string" where
  "cmd_type NilCmd = ''<nil>''"
| "cmd_type NoopCmd = ''*flowstate.NoopCommand''"
| "cmd_type (TransitCmd _) = ''*flowstate.TransitCommand''"
| "cmd_type (ParkCmd _) = ''*flowstate.ParkCommand''"
| "cmd_type (ExecuteCmd _) = ''*flowstate.ExecuteCommand''"
| "cmd_type (GetStateByIDCmd _) = ''*flowstate.GetStateByIDCommand''"
| "cmd_type (GetStateByLabelsCmd _) = ''*flowstate.GetStateByLabelsCommand''"
| "cmd_type (GetStatesCmd _) = ''*flowstate.GetStatesCommand''"
| "cmd_type (GetDelayedStatesCmd _) = ''*flowstate.GetDelayedStatesCommand''"
| "cmd_type (StackCmd _) = ''*flowstate.StackCommand''"
| "cmd_type (UnstackCmd _) = ''*flowstate.UnstackCommand''"
| "cmd_type (StoreDataCmd _) = ''*flowstate.StoreDataCommand''"
| "cmd_type (GetDataCmd _) = ''*flowstate.GetDataCommand''"
| "cmd_type (DelayCmd _) = ''*flowstate.DelayCommand''"
| "cmd_type (CommitCmd _) = ''*flowstate.CommitCommand''"

section \<open>Constructors and builders\<close>

definition Commit :: "Command list \<Rightarrow> Command" where
  "Commit cmds = CommitCmd cmds"

definition Parked :: "State \<Rightarrow> bool" where
  "Parked s \<longleftrightarrow> ts_To (s_Transition s) = []"

definition Park :: "ctx_ref \<Rightarrow> ParkCommand" where
  "Park p = \<lparr>pk_StateCtx = p, pk_Annotations = None\<rparr>"

definition Park_WithAnnotation :: "ParkCommand \<Rightarrow> string \<Rightarrow> string \<Rightarrow> ParkCommand" where
  "Park_WithAnnotation cmd name value = cmd\<lparr>pk_Annotations := gm_set (pk_Annotations cmd) name value\<rparr>"

definition Park_WithAnnotations :: "ParkCommand \<Rightarrow> strmap \<Rightarrow> ParkCommand" where
  "Park_WithAnnotations cmd annotations =
    fold (\<lambda>(k, v) c. Park_WithAnnotation c k v) (gm_entries annotations) cmd"

definition Execute :: "ctx_ref \<Rightarrow> ExecuteCommand" where
  "Execute p = \<lparr>ex_StateCtx = p, ex_sync = False\<rparr>"

definition GetStateByID :: "ctx_ref \<Rightarrow> string \<Rightarrow> int \<Rightarrow> GetStateByIDCommand" where
  "GetStateByID p sid r = \<lparr>gi_ID = sid, gi_Rev = r, gi_StateCtx = p\<rparr>"

definition GetStateByID_Prepare :: "GetStateByIDCommand \<Rightarrow> unit outcome" where
  "GetStateByID_Prepare cmd =
    (if gi_ID cmd = [] then Err (Errorf ''id is empty'')
     else if gi_Rev cmd < 0 then Err (Errorf ''rev must be >= 0'')
     else Ok ())"

definition GetStateByID_Result :: "GetStateByIDCommand \<Rightarrow> nat outcome" where
  "GetStateByID_Result cmd =
    (case gi_StateCtx cmd of None \<Rightarrow> Err (Errorf ''cmd.StateCtx'') | Some p \<Rightarrow> Ok p)"

definition GetStateByLabels :: "ctx_ref \<Rightarrow> strmap \<Rightarrow> GetStateByLabelsCommand" where
  "GetStateByLabels p labels = \<lparr>gl_Labels = labels, gl_StateCtx = p\<rparr>"

definition GetStateByLabels_Result :: "GetStateByLabelsCommand \<Rightarrow> nat outcome" where
  "GetStateByLabels_Result cmd =
    (case gl_StateCtx cmd of None \<Rightarrow> Err (Errorf ''cmd.StateCtx is nil'') | Some p \<Rightarrow> Ok p)"

definition GetStatesDefaultLimit :: int where
  "GetStatesDefaultLimit = 50"

definition WithORLabels :: "GetStatesCommand \<Rightarrow> strmap \<Rightarrow> GetStatesCommand" where
  "WithORLabels cmd labels =
    (if gm_len labels = 0 then cmd else cmd\<lparr>gs_Labels := gs_Labels cmd @ [labels]\<rparr>)"

definition GetStatesByLabels :: "strmap \<Rightarrow> GetStatesCommand" where
  "GetStatesByLabels labels =
    WithORLabels \<lparr>gs_SinceRev = 0, gs_SinceTime = zero_time, gs_Labels = [], gs_LatestOnly = False,
      gs_Limit = GetStatesDefaultLimit, gs_Result = None\<rparr> labels"

definition GetStates_MustResult :: "GetStatesCommand \<Rightarrow> GetStatesResult outcome" where
  "GetStates_MustResult cmd =
    (case gs_Result cmd of
       None \<Rightarrow> Panic ''FATAL: MustResult must be called after successful execution of the command; have you checked for errors?''
     | Some r \<Rightarrow> Ok r)"

definition WithSinceRev :: "GetStatesCommand \<Rightarrow> int \<Rightarrow> GetStatesCommand" where
  "WithSinceRev cmd r = cmd\<lparr>gs_SinceRev := r\<rparr>"

definition WithLatestOnly :: "GetStatesCommand \<Rightarrow> GetStatesCommand" where
  "WithLatestOnly cmd = cmd\<lparr>gs_LatestOnly := True\<rparr>"

definition WithSinceLatest :: "GetStatesCommand \<Rightarrow> GetStatesCommand" where
  "WithSinceLatest cmd = cmd\<lparr>gs_SinceRev := - 1\<rparr>"

definition WithSinceTime :: "GetStatesCommand \<Rightarrow> time \<Rightarrow> GetStatesCommand" where
  "WithSinceTime cmd since = cmd\<lparr>gs_SinceTime := since\<rparr>"

definition WithLimit :: "GetStatesCommand \<Rightarrow> int \<Rightarrow> GetStatesCommand" where
  "WithLimit cmd limit = cmd\<lparr>gs_Limit := limit\<rparr>"

definition Noop :: Command where
  "Noop = NoopCmd"

definition Transit :: "ctx_ref \<Rightarrow> string \<Rightarrow> TransitCommand" where
  "Transit p to = \<lparr>tr_StateCtx = p, tr_Annotations = None, tr_To = to\<rparr>"

definition Transit_WithAnnotation :: "TransitCommand \<Rightarrow> string \<Rightarrow> string \<Rightarrow> TransitCommand" where
  "Transit_WithAnnotation cmd name value = cmd\<lparr>tr_Annotations := gm_set (tr_Annotations cmd) name value\<rparr>"

definition Transit_WithAnnotations :: "TransitCommand \<Rightarrow> strmap \<Rightarrow> TransitCommand" where
  "Transit_WithAnnotations cmd annotations =
    fold (\<lambda>(k, v) c. Transit_WithAnnotation c k v) (gm_entries annotations) cmd"

definition Stack :: "ctx_ref \<Rightarrow> ctx_ref \<Rightarrow> string \<Rightarrow> StackCommand" where
  "Stack carrier stack annotation =
    \<lparr>st_StackedStateCtx = stack, st_CarrierStateCtx = carrier, st_Annotation = annotation\<rparr>"

definition Unstack :: "ctx_ref \<Rightarrow> ctx_ref \<Rightarrow> string \<Rightarrow> UnstackCommand" where
  "Unstack carrier unstack annotation =
    \<lparr>un_CarrierStateCtx = carrier, un_UnstackStateCtx = unstack, un_Annotation = annotation\<rparr>"

definition StoreData :: "ctx_ref \<Rightarrow> string \<Rightarrow> StoreDataCommand" where
  "StoreData p alias = \<lparr>sd_StateCtx = p, sd_Alias = alias\<rparr>"

definition GetData :: "ctx_ref \<Rightarrow> string \<Rightarrow> GetDataCommand" where
  "GetData p alias = \<lparr>gd_StateCtx = p, gd_Alias = alias\<rparr>"

definition DelayUntil :: "ctx_ref \<Rightarrow> string \<Rightarrow> time \<Rightarrow> DelayCommand" where
  "DelayUntil p to executeAt = \<lparr>dl_StateCtx = p, dl_ExecuteAt = executeAt, dl_Commit = True,
    dl_To = to, dl_Annotations = None, dl_Result = None\<rparr>"

text \<open>\<open>Delay\<close> reads the clock: \<open>now\<close> is what \<open>time.Now\<close> returned, \<open>dur\<close> is in nanoseconds.\<close>

definition Delay :: "time \<Rightarrow> ctx_ref \<Rightarrow> string \<Rightarrow> int \<Rightarrow> DelayCommand" where
  "Delay now p to dur = \<lparr>dl_StateCtx = p, dl_ExecuteAt = now + dur, dl_Commit = True,
    dl_To = to, dl_Annotations = None, dl_Result = None\<rparr>"

definition Delay_WithTransit :: "DelayCommand \<Rightarrow> string \<Rightarrow> DelayCommand" where
  "Delay_WithTransit cmd to = cmd\<lparr>dl_To := to\<rparr>"

definition Delay_WithAnnotation :: "DelayCommand \<Rightarrow> string \<Rightarrow> string \<Rightarrow> DelayCommand" where
  "Delay_WithAnnotation cmd name value = cmd\<lparr>dl_Annotations := gm_set (dl_Annotations cmd) name value\<rparr>"

definition Delay_WithCommit :: "DelayCommand \<Rightarrow> bool \<Rightarrow> DelayCommand" where
  "Delay_WithCommit cmd commit = cmd\<lparr>dl_Commit := commit\<rparr>"

definition Delay_MustResult :: "DelayCommand \<Rightarrow> DelayedState outcome" where
  "Delay_MustResult cmd =
    (case dl_Result cmd of
       None \<Rightarrow> Panic ''FATAL: MustResult must be called after successful execution of the command; have you checked for errors?''
     | Some r \<Rightarrow> Ok r)"

definition GetDelayedStatesDefaultLimit :: int where
  "GetDelayedStatesDefaultLimit = 500"

definition GetDelayedStates :: "time \<Rightarrow> time \<Rightarrow> int \<Rightarrow> GetDelayedStatesCommand" where
  "GetDelayedStates since until offset = \<lparr>gt_Since = since, gt_Until = until, gt_Offset = offset,
    gt_Limit = GetDelayedStatesDefaultLimit, gt_Result = None\<rparr>"

definition GetDelayedStates_MustResult :: "GetDelayedStatesCommand \<Rightarrow> GetDelayedStatesResult outcome" where
  "GetDelayedStates_MustResult cmd =
    (case gt_Result cmd of
       None \<Rightarrow> Panic ''FATAL: MustResult must be called after successful execution of the command; have you checked for errors?''
     | Some r \<Rightarrow> Ok r)"

definition GetDelayedStates_Prepare :: "time \<Rightarrow> GetDelayedStatesCommand \<Rightarrow> GetDelayedStatesCommand" where
  "GetDelayedStates_Prepare now cmd =
    (let cmd1 = (if gt_Limit cmd = 0 then cmd\<lparr>gt_Limit := GetDelayedStatesDefaultLimit\<rparr> else cmd)
     in if IsZero (gt_Until cmd1) then cmd1\<lparr>gt_Until := now\<rparr> else cmd1)"

end
