(* ===== verification/ProtobufCmd.thy ===== *)
theory ProtobufCmd
  imports Commands
begin

text \<open>
  \<open>protobuf.go\<close>, commands. The contexts a command points to travel once, in front of it, and the
  command refers to them by their index; a commit and its sub commands share one list. Decoding
  yields the command together with the contexts, its pointers being indices into that list.
\<close>

section \<open>Contexts and references\<close>

definition nonnil :: "ctx_ref \<Rightarrow> nat list" where
  "nonnil p = (case p of None \<Rightarrow> [] | Some a \<Rightarrow> [a])"

lemma nonnil_simps [simp]: "nonnil None = []" "nonnil (Some a) = [a]"
  by (simp_all add: nonnil_def)

text \<open>\<open>slices.CompactFunc\<close> only merges neighbours, here and in every sub command.\<close>

fun commandStateCtxs :: "Command \<Rightarrow> nat list" where
  "commandStateCtxs (TransitCmd cmd) = remdups_adj (nonnil (tr_StateCtx cmd))"
| "commandStateCtxs (ParkCmd cmd) = remdups_adj (nonnil (pk_StateCtx cmd))"
| "commandStateCtxs (ExecuteCmd cmd) = remdups_adj (nonnil (ex_StateCtx cmd))"
| "commandStateCtxs (DelayCmd cmd) = remdups_adj (nonnil (dl_StateCtx cmd))"
| "commandStateCtxs (StackCmd cmd) =
    remdups_adj (nonnil (st_CarrierStateCtx cmd) @ nonnil (st_StackedStateCtx cmd))"
| "commandStateCtxs (UnstackCmd cmd) =
    remdups_adj (nonnil (un_CarrierStateCtx cmd) @ nonnil (un_UnstackStateCtx cmd))"
| "commandStateCtxs (CommitCmd cmds) = remdups_adj (concat (map commandStateCtxs cmds))"
| "commandStateCtxs (StoreDataCmd cmd) = remdups_adj (nonnil (sd_StateCtx cmd))"
| "commandStateCtxs (GetDataCmd cmd) = remdups_adj (nonnil (gd_StateCtx cmd))"
| "commandStateCtxs (GetStateByIDCmd cmd) = remdups_adj (nonnil (gi_StateCtx cmd))"
| "commandStateCtxs (GetStateByLabelsCmd cmd) = remdups_adj (nonnil (gl_StateCtx cmd))"
| "commandStateCtxs _ = []"

fun stateCtxs_idx :: "nat list \<Rightarrow> nat \<Rightarrow> nat outcome" where
  "stateCtxs_idx [] a = Panic ''cannot find idx for stateCtx''"
| "stateCtxs_idx (b # s) a = (if b = a then Ok 0 else obind (stateCtxs_idx s a) (\<lambda>i. Ok (Suc i)))"

definition stateCtxs_find :: "nat \<Rightarrow> int \<Rightarrow> nat outcome" where
  "stateCtxs_find n idx =
    (if 0 \<le> idx \<and> idx < int n then Ok (nat idx) else Panic ''runtime error: index out of range'')"

definition stateCtxs_findStrIdx :: "nat \<Rightarrow> string \<Rightarrow> nat outcome" where
  "stateCtxs_findStrIdx n strIdx =
    (if strIdx = [] then stateCtxs_find n 0
     else case ParseInt strIdx of
       (idx, None) \<Rightarrow> stateCtxs_find n idx
     | (_, Some _) \<Rightarrow> stateCtxs_find n (- 1))"

definition stateCtxs_strIdx :: "nat list \<Rightarrow> nat \<Rightarrow> string outcome" where
  "stateCtxs_strIdx s a = obind (stateCtxs_idx s a) (\<lambda>i. Ok (FormatInt (int i)))"

definition marshalStateCtxRef :: "nat \<Rightarrow> nat list \<Rightarrow> pb_msg outcome" where
  "marshalStateCtxRef a s = obind (stateCtxs_idx s a) (\<lambda>i. Ok [(1, PInt64 (int i))])"

definition unmarshalStateCtxRef_field :: "'c easyproto \<Rightarrow> 'c \<Rightarrow> int \<Rightarrow> int \<times> unit outcome" where
  "unmarshalStateCtxRef_field E fc idx =
    (if ep_FieldNum E fc = 1 then rd_int64 E fc ''cannot read 'int idx = 1;' field'' (\<lambda>v. v) idx
     else (idx, Ok ()))"

text \<open>\<open>n\<close> is the number of contexts.\<close>

definition unmarshalStateCtxRef :: "'c easyproto \<Rightarrow> string \<Rightarrow> nat \<Rightarrow> nat outcome" where
  "unmarshalStateCtxRef E src n =
    (case fieldLoop E (unmarshalStateCtxRef_field E) src (- 1) of
       (idx, r) \<Rightarrow> obind r (\<lambda>_. stateCtxs_find n idx))"

text \<open>\<open>if cmd.StateCtx != nil { marshalStateCtxRef(..., AppendMessage(fieldNum)) }\<close> and its reader.\<close>

definition put_ref :: "nat \<Rightarrow> ctx_ref \<Rightarrow> nat list \<Rightarrow> pb_msg outcome" where
  "put_ref fieldNum p s =
    (case p of None \<Rightarrow> Ok [] | Some a \<Rightarrow> obind (marshalStateCtxRef a s) (\<lambda>m. Ok [(fieldNum, PMsg m)]))"

definition rd_ref ::
  "'c easyproto \<Rightarrow> 'c \<Rightarrow> string \<Rightarrow> nat \<Rightarrow> (ctx_ref \<Rightarrow> 's) \<Rightarrow> 's \<Rightarrow> 's \<times> unit outcome" where
  "rd_ref E fc msg n upd s =
    rd_message E fc msg
      (\<lambda>data. case unmarshalStateCtxRef E data n of
         Ok a \<Rightarrow> (upd (Some a), Ok ())
       | Err err \<Rightarrow> (s, Err (Errorw (msg @ '': '') err []))
       | Panic p \<Rightarrow> (s, Panic p)) s"

section \<open>Marshalling\<close>

definition put_str :: "nat \<Rightarrow> string \<Rightarrow> pb_msg" where
  "put_str fieldNum v = (if v \<noteq> [] then [(fieldNum, PString v)] else [])"

definition put_int :: "nat \<Rightarrow> int \<Rightarrow> pb_msg" where
  "put_int fieldNum v = (if v \<noteq> 0 then [(fieldNum, PInt64 v)] else [])"

definition put_true :: "nat \<Rightarrow> bool \<Rightarrow> pb_msg" where
  "put_true fieldNum v = (if v then [(fieldNum, PBool True)] else [])"

definition put_map :: "nat \<Rightarrow> strmap \<Rightarrow> pb_msg" where
  "put_map fieldNum m = (if m \<noteq> None then marshalStringMap m fieldNum else [])"

definition marshalGetStatesResult :: "GetStatesResult \<Rightarrow> pb_msg" where
  "marshalGetStatesResult res =
    map (\<lambda>s. (1, PMsg (marshalState s))) (gsr_States res) @ put_true 2 (gsr_More res)"

definition marshalGetDelayedStatesResult :: "GetDelayedStatesResult \<Rightarrow> pb_msg" where
  "marshalGetDelayedStatesResult res =
    map (\<lambda>ds. (1, PMsg (marshalDelayedState ds))) (gdr_States res) @ put_true 2 (gdr_More res)"

definition marshalGetStates :: "GetStatesCommand \<Rightarrow> pb_msg" where
  "marshalGetStates cmd =
    put_int 1 (gs_SinceRev cmd)
    @ (if \<not> IsZero (gs_SinceTime cmd) then [(2, PInt64 (UnixMilli (gs_SinceTime cmd)))] else [])
    @ map (\<lambda>labels. (3, PMsg (marshalStringMap labels 1))) (gs_Labels cmd)
    @ put_true 4 (gs_LatestOnly cmd)
    @ put_int 5 (gs_Limit cmd)
    @ (case gs_Result cmd of None \<Rightarrow> [] | Some res \<Rightarrow> [(6, PMsg (marshalGetStatesResult res))])"

definition marshalGetDelayedStates :: "GetDelayedStatesCommand \<Rightarrow> pb_msg" where
  "marshalGetDelayedStates cmd =
    (if \<not> IsZero (gt_Since cmd) then [(1, PInt64 (Unix (gt_Since cmd)))] else [])
    @ (if \<not> IsZero (gt_Until cmd) then [(2, PInt64 (Unix (gt_Until cmd)))] else [])
    @ put_int 3 (gt_Offset cmd)
    @ put_int 4 (gt_Limit cmd)
    @ (case gt_Result cmd of None \<Rightarrow> [] | Some res \<Rightarrow> [(5, PMsg (marshalGetDelayedStatesResult res))])"

text \<open>What the \<open>switch\<close> appends to the message of the command.\<close>

fun marshalCommand :: "nat list \<Rightarrow> Command \<Rightarrow> pb_msg outcome"
  and marshalCommands :: "nat list \<Rightarrow> Command list \<Rightarrow> pb_msg outcome" where
  "marshalCommand s (TransitCmd cmd) =
    obind (put_ref 1 (tr_StateCtx cmd) s) (\<lambda>r. Ok [(3, PMsg (r @ put_str 2 (tr_To cmd) @ put_map 3 (tr_Annotations cmd)))])"
| "marshalCommand s (ParkCmd cmd) =
    obind (put_ref 1 (pk_StateCtx cmd) s) (\<lambda>r. Ok [(6, PMsg (r @ put_map 3 (pk_Annotations cmd)))])"
| "marshalCommand s (ExecuteCmd cmd) =
    obind (put_ref 1 (ex_StateCtx cmd) s) (\<lambda>r. Ok [(7, PMsg r)])"
| "marshalCommand s (DelayCmd cmd) =
    obind (put_ref 1 (dl_StateCtx cmd) s) (\<lambda>r. Ok [(8, PMsg (r
      @ (case dl_Result cmd of None \<Rightarrow> [] | Some res \<Rightarrow> [(2, PMsg (marshalDelayedState res))])
      @ (if \<not> IsZero (dl_ExecuteAt cmd) then [(3, PInt64 (Unix (dl_ExecuteAt cmd)))] else [])
      @ put_true 4 (dl_Commit cmd) @ put_str 5 (dl_To cmd) @ put_map 6 (dl_Annotations cmd)))])"
| "marshalCommand s (CommitCmd cmds) =
    obind (marshalCommands s cmds) (\<lambda>m. Ok [(9, PMsg m)])"
| "marshalCommand s NoopCmd = Ok [(10, PMsg [])]"
| "marshalCommand s (StackCmd cmd) =
    obind (put_ref 1 (st_CarrierStateCtx cmd) s) (\<lambda>c. obind (put_ref 2 (st_StackedStateCtx cmd) s)
      (\<lambda>t. Ok [(11, PMsg (c @ t @ put_str 3 (st_Annotation cmd)))]))"
| "marshalCommand s (UnstackCmd cmd) =
    obind (put_ref 1 (un_CarrierStateCtx cmd) s) (\<lambda>c. obind (put_ref 2 (un_UnstackStateCtx cmd) s)
      (\<lambda>t. Ok [(12, PMsg (c @ t @ put_str 3 (un_Annotation cmd)))]))"
| "marshalCommand s (StoreDataCmd cmd) =
    obind (put_ref 1 (sd_StateCtx cmd) s) (\<lambda>r. Ok [(21, PMsg (r @ put_str 2 (sd_Alias cmd)))])"
| "marshalCommand s (GetDataCmd cmd) =
    obind (put_ref 1 (gd_StateCtx cmd) s) (\<lambda>r. Ok [(22, PMsg (r @ put_str 2 (gd_Alias cmd)))])"
| "marshalCommand s (GetStateByIDCmd cmd) =
    obind (put_ref 3 (gi_StateCtx cmd) s) (\<lambda>r. Ok [(17, PMsg (put_str 1 (gi_ID cmd) @ put_int 2 (gi_Rev cmd) @ r))])"
| "marshalCommand s (GetStateByLabelsCmd cmd) =
    obind (put_ref 2 (gl_StateCtx cmd) s)
      (\<lambda>r. Ok [(18, PMsg ((if gm_len (gl_Labels cmd) > 0 then marshalStringMap (gl_Labels cmd) 1 else []) @ r))])"
| "marshalCommand s (GetStatesCmd cmd) = Ok [(19, PMsg (marshalGetStates cmd))]"
| "marshalCommand s (GetDelayedStatesCmd cmd) = Ok [(20, PMsg (marshalGetDelayedStates cmd))]"
| "marshalCommand s NilCmd = Ok []"
| "marshalCommands s [] = Ok []"
| "marshalCommands s (c # cs) =
    obind (marshalCommand s c) (\<lambda>m. obind (marshalCommands s cs) (\<lambda>ms. Ok ((1, PMsg m) # ms)))"

fun marshalCtxs :: "heap \<Rightarrow> nat list \<Rightarrow> pb_msg outcome" where
  "marshalCtxs h [] = Ok []"
| "marshalCtxs h (a # s) =
    (case h a of
       None \<Rightarrow> nil_deref
     | Some c \<Rightarrow> (case marshalStateCtx c of
         None \<Rightarrow> nil_deref
       | Some m \<Rightarrow> obind (marshalCtxs h s) (\<lambda>ms. Ok ((1, PMsg m) # ms))))"

definition MarshalCommand :: "'c easyproto \<Rightarrow> heap \<Rightarrow> Command \<Rightarrow> string \<Rightarrow> string outcome" where
  "MarshalCommand E h cmd dst =
    (let s = commandStateCtxs cmd
     in obind (marshalCtxs h s) (\<lambda>ctxs. obind (marshalCommand s cmd) (\<lambda>m. Ok (dst @ ep_Marshal E (ctxs @ m)))))"

section \<open>Unmarshalling\<close>

text \<open>One switch per command; \<open>n\<close> is the number of contexts.\<close>

definition unmarshalTransit_field ::
  "'c easyproto \<Rightarrow> nat \<Rightarrow> 'c \<Rightarrow> TransitCommand \<Rightarrow> TransitCommand \<times> unit outcome" where
  "unmarshalTransit_field E n fc cmd =
    (if ep_FieldNum E fc = 1 then
       rd_ref E fc ''cannot read 'StateCtxRef state_ref = 1;' field'' n (\<lambda>p. cmd\<lparr>tr_StateCtx := p\<rparr>) cmd
     else if ep_FieldNum E fc = 2 then
       rd_string E fc ''cannot read 'string to = 2;' field'' (\<lambda>v. cmd\<lparr>tr_To := v\<rparr>) cmd
     else if ep_FieldNum E fc = 3 then
       rd_strmap E fc ''cannot read 'map<string, string> annotations = 3;' field''
         tr_Annotations (\<lambda>m c. c\<lparr>tr_Annotations := m\<rparr>) cmd
     else (cmd, Ok ()))"

definition TransitCommand0 :: TransitCommand where
  "TransitCommand0 = \<lparr>tr_StateCtx = None, tr_Annotations = None, tr_To = []\<rparr>"

definition unmarshalTransitCommand :: "'c easyproto \<Rightarrow> nat \<Rightarrow> string \<Rightarrow> TransitCommand \<times> unit outcome" where
  "unmarshalTransitCommand E n src = fieldLoop E (unmarshalTransit_field E n) src TransitCommand0"

definition unmarshalPark_field ::
  "'c easyproto \<Rightarrow> nat \<Rightarrow> 'c \<Rightarrow> ParkCommand \<Rightarrow> ParkCommand \<times> unit outcome" where
  "unmarshalPark_field E n fc cmd =
    (if ep_FieldNum E fc = 1 then
       rd_ref E fc ''cannot read 'StateCtxRef state_ref = 1;' field'' n (\<lambda>p. cmd\<lparr>pk_StateCtx := p\<rparr>) cmd
     else if ep_FieldNum E fc = 3 then
       rd_strmap E fc ''cannot read 'map<string, string> annotations = 3;' field''
         pk_Annotations (\<lambda>m c. c\<lparr>pk_Annotations := m\<rparr>) cmd
     else (cmd, Ok ()))"

definition ParkCommand0 :: ParkCommand where
  "ParkCommand0 = \<lparr>pk_StateCtx = None, pk_Annotations = None\<rparr>"

definition unmarshalParkCommand :: "'c easyproto \<Rightarrow> nat \<Rightarrow> string \<Rightarrow> ParkCommand \<times> unit outcome" where
  "unmarshalParkCommand E n src = fieldLoop E (unmarshalPark_field E n) src ParkCommand0"

definition unmarshalExecute_field ::
  "'c easyproto \<Rightarrow> nat \<Rightarrow> 'c \<Rightarrow> ExecuteCommand \<Rightarrow> ExecuteCommand \<times> unit outcome" where
  "unmarshalExecute_field E n fc cmd =
    (if ep_FieldNum E fc = 1 then
       rd_ref E fc ''cannot read 'StateCtxRef state_ref = 1;' field'' n (\<lambda>p. cmd\<lparr>ex_StateCtx := p\<rparr>) cmd
     else (cmd, Ok ()))"

definition ExecuteCommand0 :: ExecuteCommand where
  "ExecuteCommand0 = \<lparr>ex_StateCtx = None, ex_sync = False\<rparr>"

definition unmarshalExecuteCommand :: "'c easyproto \<Rightarrow> nat \<Rightarrow> string \<Rightarrow> ExecuteCommand \<times> unit outcome" where
  "unmarshalExecuteCommand E n src = fieldLoop E (unmarshalExecute_field E n) src ExecuteCommand0"

definition unmarshalDelay_field ::
  "'c easyproto \<Rightarrow> nat \<Rightarrow> 'c \<Rightarrow> DelayCommand \<Rightarrow> DelayCommand \<times> unit outcome" where
  "unmarshalDelay_field E n fc cmd =
    (if ep_FieldNum E fc = 1 then
       rd_ref E fc ''cannot read 'StateCtxRef state_ref = 1;' field'' n (\<lambda>p. cmd\<lparr>dl_StateCtx := p\<rparr>) cmd
     else if ep_FieldNum E fc = 2 then
       rd_message E fc ''cannot read 'DelayedState result = 2;' field''
         (\<lambda>data. case UnmarshalDelayedState E data DelayedState0 of
            (res, Ok _) \<Rightarrow> (cmd\<lparr>dl_Result := Some res\<rparr>, Ok ())
          | (_, r) \<Rightarrow> (cmd, wrap_err ''cannot read 'DelayedState result = 2;' field: '' r)) cmd
     else if ep_FieldNum E fc = 3 then
       rd_int64 E fc ''cannot read 'int64 execute_at_sec = 3;' field''
         (\<lambda>v. cmd\<lparr>dl_ExecuteAt := time_Unix v 0\<rparr>) cmd
     else if ep_FieldNum E fc = 4 then
       rd_bool E fc ''cannot read 'bool commit = 4;' field'' (\<lambda>v. cmd\<lparr>dl_Commit := v\<rparr>) cmd
     else if ep_FieldNum E fc = 5 then
       rd_string E fc ''cannot read 'string to = 5;' field'' (\<lambda>v. cmd\<lparr>dl_To := v\<rparr>) cmd
     else if ep_FieldNum E fc = 6 then
       rd_strmap E fc ''cannot read 'map<string, string> annotations = 6;' field''
         dl_Annotations (\<lambda>m c. c\<lparr>dl_Annotations := m\<rparr>) cmd
     else (cmd, Ok ()))"

definition DelayCommand0 :: DelayCommand where
  "DelayCommand0 = \<lparr>dl_StateCtx = None, dl_ExecuteAt = zero_time, dl_Commit = False, dl_To = [],
    dl_Annotations = None, dl_Result = None\<rparr>"

definition unmarshalDelayCommand :: "'c easyproto \<Rightarrow> nat \<Rightarrow> string \<Rightarrow> DelayCommand \<times> unit outcome" where
  "unmarshalDelayCommand E n src = fieldLoop E (unmarshalDelay_field E n) src DelayCommand0"

definition unmarshalStack_field ::
  "'c easyproto \<Rightarrow> nat \<Rightarrow> 'c \<Rightarrow> StackCommand \<Rightarrow> StackCommand \<times> unit outcome" where
  "unmarshalStack_field E n fc cmd =
    (if ep_FieldNum E fc = 1 then
       rd_ref E fc ''cannot read 'StateCtxRef carrier_state_ref = 1;' field'' n
         (\<lambda>p. cmd\<lparr>st_CarrierStateCtx := p\<rparr>) cmd
     else if ep_FieldNum E fc = 2 then
       rd_ref E fc ''cannot read 'StateCtxRef stack_state_ref = 2;' field'' n
         (\<lambda>p. cmd\<lparr>st_StackedStateCtx := p\<rparr>) cmd
     else if ep_FieldNum E fc = 3 then
       rd_string E fc ''cannot read 'string annotation = 3;' field'' (\<lambda>v. cmd\<lparr>st_Annotation := v\<rparr>) cmd
     else (cmd, Ok ()))"

definition StackCommand0 :: StackCommand where
  "StackCommand0 = \<lparr>st_StackedStateCtx = None, st_CarrierStateCtx = None, st_Annotation = []\<rparr>"

definition unmarshalStackCommand :: "'c easyproto \<Rightarrow> nat \<Rightarrow> string \<Rightarrow> StackCommand \<times> unit outcome" where
  "unmarshalStackCommand E n src = fieldLoop E (unmarshalStack_field E n) src StackCommand0"

definition unmarshalUnstack_field ::
  "'c easyproto \<Rightarrow> nat \<Rightarrow> 'c \<Rightarrow> UnstackCommand \<Rightarrow> UnstackCommand \<times> unit outcome" where
  "unmarshalUnstack_field E n fc cmd =
    (if ep_FieldNum E fc = 1 then
       rd_ref E fc ''cannot read 'StateCtxRef carrier_state_ref = 1;' field'' n
         (\<lambda>p. cmd\<lparr>un_CarrierStateCtx := p\<rparr>) cmd
     else if ep_FieldNum E fc = 2 then
       rd_ref E fc ''cannot read 'StateCtxRef unstack_state_ref = 2;' field'' n
         (\<lambda>p. cmd\<lparr>un_UnstackStateCtx := p\<rparr>) cmd
     else if ep_FieldNum E fc = 3 then
       rd_string E fc ''cannot read 'string annotation = 3;' field'' (\<lambda>v. cmd\<lparr>un_Annotation := v\<rparr>) cmd
     else (cmd, Ok ()))"

definition UnstackCommand0 :: UnstackCommand where
  "UnstackCommand0 = \<lparr>un_CarrierStateCtx = None, un_UnstackStateCtx = None, un_Annotation = []\<rparr>"

definition unmarshalUnstackCommand :: "'c easyproto \<Rightarrow> nat \<Rightarrow> string \<Rightarrow> UnstackCommand \<times> unit outcome" where
  "unmarshalUnstackCommand E n src = fieldLoop E (unmarshalUnstack_field E n) src UnstackCommand0"

definition unmarshalStoreData_field ::
  "'c easyproto \<Rightarrow> nat \<Rightarrow> 'c \<Rightarrow> StoreDataCommand \<Rightarrow> StoreDataCommand \<times> unit outcome" where
  "unmarshalStoreData_field E n fc cmd =
    (if ep_FieldNum E fc = 1 then
       rd_ref E fc ''cannot read 'StateCtxRef state_ref = 1;' field'' n (\<lambda>p. cmd\<lparr>sd_StateCtx := p\<rparr>) cmd
     else if ep_FieldNum E fc = 2 then
       rd_string E fc ''cannot read 'string alias = 2;' field'' (\<lambda>v. cmd\<lparr>sd_Alias := v\<rparr>) cmd
     else (cmd, Ok ()))"

definition StoreDataCommand0 :: StoreDataCommand where
  "StoreDataCommand0 = \<lparr>sd_StateCtx = None, sd_Alias = []\<rparr>"

definition unmarshalStoreDataCommand :: "'c easyproto \<Rightarrow> nat \<Rightarrow> string \<Rightarrow> StoreDataCommand \<times> unit outcome" where
  "unmarshalStoreDataCommand E n src = fieldLoop E (unmarshalStoreData_field E n) src StoreDataCommand0"

definition unmarshalGetData_field ::
  "'c easyproto \<Rightarrow> nat \<Rightarrow> 'c \<Rightarrow> GetDataCommand \<Rightarrow> GetDataCommand \<times> unit outcome" where
  "unmarshalGetData_field E n fc cmd =
    (if ep_FieldNum E fc = 1 then
       rd_ref E fc ''cannot read 'StateCtxRef state_ref = 1;' field'' n (\<lambda>p. cmd\<lparr>gd_StateCtx := p\<rparr>) cmd
     else if ep_FieldNum E fc = 2 then
       rd_string E fc ''cannot read 'string alias = 2;' field'' (\<lambda>v. cmd\<lparr>gd_Alias := v\<rparr>) cmd
     else (cmd, Ok ()))"

definition GetDataCommand0 :: GetDataCommand where
  "GetDataCommand0 = \<lparr>gd_StateCtx = None, gd_Alias = []\<rparr>"

definition unmarshalGetDataCommand :: "'c easyproto \<Rightarrow> nat \<Rightarrow> string \<Rightarrow> GetDataCommand \<times> unit outcome" where
  "unmarshalGetDataCommand E n src = fieldLoop E (unmarshalGetData_field E n) src GetDataCommand0"

definition unmarshalGetStateByID_field ::
  "'c easyproto \<Rightarrow> nat \<Rightarrow> 'c \<Rightarrow> GetStateByIDCommand \<Rightarrow> GetStateByIDCommand \<times> unit outcome" where
  "unmarshalGetStateByID_field E n fc cmd =
    (if ep_FieldNum E fc = 1 then
       rd_string E fc ''cannot read 'string id = 1;' field'' (\<lambda>v. cmd\<lparr>gi_ID := v\<rparr>) cmd
     else if ep_FieldNum E fc = 2 then
       rd_int64 E fc ''cannot read 'int64 rev = 2;' field'' (\<lambda>v. cmd\<lparr>gi_Rev := v\<rparr>) cmd
     else if ep_FieldNum E fc = 3 then
       rd_ref E fc ''cannot read 'StateCtxRef state_ref = 3;' field'' n (\<lambda>p. cmd\<lparr>gi_StateCtx := p\<rparr>) cmd
     else (cmd, Ok ()))"

definition GetStateByIDCommand0 :: GetStateByIDCommand where
  "GetStateByIDCommand0 = \<lparr>gi_ID = [], gi_Rev = 0, gi_StateCtx = None\<rparr>"

definition unmarshalGetStateByIDCommand :: "'c easyproto \<Rightarrow> nat \<Rightarrow> string \<Rightarrow> GetStateByIDCommand \<times> unit outcome" where
  "unmarshalGetStateByIDCommand E n src = fieldLoop E (unmarshalGetStateByID_field E n) src GetStateByIDCommand0"

definition unmarshalGetStateByLabels_field ::
  "'c easyproto \<Rightarrow> nat \<Rightarrow> 'c \<Rightarrow> GetStateByLabelsCommand \<Rightarrow> GetStateByLabelsCommand \<times> unit outcome" where
  "unmarshalGetStateByLabels_field E n fc cmd =
    (if ep_FieldNum E fc = 1 then
       rd_strmap E fc ''cannot read 'map<string, string> labels = 1;' field''
         gl_Labels (\<lambda>m c. c\<lparr>gl_Labels := m\<rparr>) cmd
     else if ep_FieldNum E fc = 2 then
       rd_ref E fc ''cannot read 'StateCtxRef state_ref = 2;' field'' n (\<lambda>p. cmd\<lparr>gl_StateCtx := p\<rparr>) cmd
     else (cmd, Ok ()))"

definition GetStateByLabelsCommand0 :: GetStateByLabelsCommand where
  "GetStateByLabelsCommand0 = \<lparr>gl_Labels = None, gl_StateCtx = None\<rparr>"

definition unmarshalGetStateByLabelsCommand ::
  "'c easyproto \<Rightarrow> nat \<Rightarrow> string \<Rightarrow> GetStateByLabelsCommand \<times> unit outcome" where
  "unmarshalGetStateByLabelsCommand E n src =
    fieldLoop E (unmarshalGetStateByLabels_field E n) src GetStateByLabelsCommand0"

text \<open>The nested loops of \<open>GetStates\<close>: a set of labels, and the result.\<close>

definition unmarshalLabels_field :: "'c easyproto \<Rightarrow> 'c \<Rightarrow> strmap \<Rightarrow> strmap \<times> unit outcome" where
  "unmarshalLabels_field E fc labels =
    (if ep_FieldNum E fc = 1 then
       rd_message E fc ''cannot read 'Result result = 6;' field''
         (\<lambda>data. case unmarshalStringMapItem E data labels of
            (m, r) \<Rightarrow> (m, wrap_err ''cannot read 'repeated Labels labels = 3;' field: '' r)) labels
     else (labels, Ok ()))"

definition unmarshalGetStatesResult_field ::
  "'c easyproto \<Rightarrow> 'c \<Rightarrow> GetStatesResult \<Rightarrow> GetStatesResult \<times> unit outcome" where
  "unmarshalGetStatesResult_field E fc res =
    (if ep_FieldNum E fc = 1 then
       rd_message E fc ''cannot read 'Result result = 6;' field''
         (\<lambda>data. case UnmarshalState E data State0 of
            (s, Ok _) \<Rightarrow> (res\<lparr>gsr_States := gsr_States res @ [s]\<rparr>, Ok ())
          | (_, r) \<Rightarrow> (res, wrap_err ''cannot read 'Result result = 6;' field: '' r)) res
     else if ep_FieldNum E fc = 2 then
       rd_bool E fc ''cannot read 'bool more = 2;' field'' (\<lambda>v. res\<lparr>gsr_More := v\<rparr>) res
     else (res, Ok ()))"

definition unmarshalGetStates_field ::
  "'c easyproto \<Rightarrow> 'c \<Rightarrow> GetStatesCommand \<Rightarrow> GetStatesCommand \<times> unit outcome" where
  "unmarshalGetStates_field E fc cmd =
    (if ep_FieldNum E fc = 1 then
       rd_int64 E fc ''cannot read 'int64 since_rev = 1;' field'' (\<lambda>v. cmd\<lparr>gs_SinceRev := v\<rparr>) cmd
     else if ep_FieldNum E fc = 2 then
       rd_int64 E fc ''cannot read 'int64 since_time_usec = 2;' field''
         (\<lambda>v. cmd\<lparr>gs_SinceTime := time_UnixMilli v\<rparr>) cmd
     else if ep_FieldNum E fc = 3 then
       rd_message E fc ''cannot read 'repeated Labels labels = 3;' field''
         (\<lambda>data. case fieldLoop E (unmarshalLabels_field E) data (Some []) of
            (labels, Ok _) \<Rightarrow> (cmd\<lparr>gs_Labels := gs_Labels cmd @ [labels]\<rparr>, Ok ())
          | (_, r) \<Rightarrow> (cmd, r)) cmd
     else if ep_FieldNum E fc = 4 then
       rd_bool E fc ''cannot read 'bool latest_only = 4;' field'' (\<lambda>v. cmd\<lparr>gs_LatestOnly := v\<rparr>) cmd
     else if ep_FieldNum E fc = 5 then
       rd_int64 E fc ''cannot read 'int64 limit = 5;' field'' (\<lambda>v. cmd\<lparr>gs_Limit := v\<rparr>) cmd
     else if ep_FieldNum E fc = 6 then
       rd_message E fc ''cannot read 'Result result = 6;' field''
         (\<lambda>data. case fieldLoop E (unmarshalGetStatesResult_field E) data \<lparr>gsr_States = [], gsr_More = False\<rparr> of
            (res, Ok _) \<Rightarrow> (cmd\<lparr>gs_Result := Some res\<rparr>, Ok ())
          | (_, r) \<Rightarrow> (cmd, r)) cmd
     else (cmd, Ok ()))"

definition GetStatesCommand0 :: GetStatesCommand where
  "GetStatesCommand0 = \<lparr>gs_SinceRev = 0, gs_SinceTime = zero_time, gs_Labels = [], gs_LatestOnly = False,
    gs_Limit = 0, gs_Result = None\<rparr>"

definition unmarshalGetStatesCommand :: "'c easyproto \<Rightarrow> string \<Rightarrow> GetStatesCommand \<times> unit outcome" where
  "unmarshalGetStatesCommand E src = fieldLoop E (unmarshalGetStates_field E) src GetStatesCommand0"

definition unmarshalGetDelayedStatesResult_field ::
  "'c easyproto \<Rightarrow> 'c \<Rightarrow> GetDelayedStatesResult \<Rightarrow> GetDelayedStatesResult \<times> unit outcome" where
  "unmarshalGetDelayedStatesResult_field E fc res =
    (if ep_FieldNum E fc = 1 then
       rd_message E fc ''cannot read 'Result result = 5;' field''
         (\<lambda>data. case UnmarshalDelayedState E data DelayedState0 of
            (ds, Ok _) \<Rightarrow> (res\<lparr>gdr_States := gdr_States res @ [ds]\<rparr>, Ok ())
          | (_, r) \<Rightarrow> (res, wrap_err ''cannot read 'Result result = 6;' field: '' r)) res
     else if ep_FieldNum E fc = 2 then
       rd_bool E fc ''cannot read 'bool more = 2;' field'' (\<lambda>v. res\<lparr>gdr_More := v\<rparr>) res
     else (res, Ok ()))"

definition unmarshalGetDelayedStates_field ::
  "'c easyproto \<Rightarrow> 'c \<Rightarrow> GetDelayedStatesCommand \<Rightarrow> GetDelayedStatesCommand \<times> unit outcome" where
  "unmarshalGetDelayedStates_field E fc cmd =
    (if ep_FieldNum E fc = 1 then
       rd_int64 E fc ''cannot read 'int64 since_time_sec = 1;' field'' (\<lambda>v. cmd\<lparr>gt_Since := time_Unix v 0\<rparr>) cmd
     else if ep_FieldNum E fc = 2 then
       rd_int64 E fc ''cannot read 'int64 until_time_sec = 2;' field'' (\<lambda>v. cmd\<lparr>gt_Until := time_Unix v 0\<rparr>) cmd
     else if ep_FieldNum E fc = 3 then
       rd_int64 E fc ''cannot read 'int64 offset = 3;' field'' (\<lambda>v. cmd\<lparr>gt_Offset := v\<rparr>) cmd
     else if ep_FieldNum E fc = 4 then
       rd_int64 E fc ''cannot read 'int64 limit = 4;' field'' (\<lambda>v. cmd\<lparr>gt_Limit := v\<rparr>) cmd
     else if ep_FieldNum E fc = 5 then
       rd_message E fc ''cannot read 'Result result = 5;' field''
         (\<lambda>data. case fieldLoop E (unmarshalGetDelayedStatesResult_field E) data \<lparr>gdr_States = [], gdr_More = False\<rparr> of
            (res, Ok _) \<Rightarrow> (cmd\<lparr>gt_Result := Some res\<rparr>, Ok ())
          | (_, r) \<Rightarrow> (cmd, r)) cmd
     else (cmd, Ok ()))"

definition GetDelayedStatesCommand0 :: GetDelayedStatesCommand where
  "GetDelayedStatesCommand0 = \<lparr>gt_Since = zero_time, gt_Until = zero_time, gt_Offset = 0, gt_Limit = 0, gt_Result = None\<rparr>"

definition unmarshalGetDelayedStatesCommand ::
  "'c easyproto \<Rightarrow> string \<Rightarrow> GetDelayedStatesCommand \<times> unit outcome" where
  "unmarshalGetDelayedStatesCommand E src =
    fieldLoop E (unmarshalGetDelayedStates_field E) src GetDelayedStatesCommand0"

text \<open>
  The sub commands of a commit; \<open>unmarshalSub\<close> is \<open>unmarshalCommand\<close>, called on a shorter message.
\<close>

definition unmarshalCommit_field ::
  "'c easyproto \<Rightarrow> (string \<Rightarrow> Command outcome) \<Rightarrow> 'c \<Rightarrow> Command list \<Rightarrow> Command list \<times> unit outcome" where
  "unmarshalCommit_field E unmarshalSub fc cmds =
    (if ep_FieldNum E fc = 1 then
       rd_message E fc ''cannot read 'StateCtxRef state_ref = 1;' field''
         (\<lambda>data. case unmarshalSub data of
            Ok c \<Rightarrow> (cmds @ [c], Ok ())
          | Err err \<Rightarrow> (cmds, Err (Errorw ''cannot read 'repeated Command commands = 1;' field: '' err []))
          | Panic p \<Rightarrow> (cmds, Panic p)) cmds
     else (cmds, Ok ()))"

text \<open>A case that reads the message of one kind of command and returns.\<close>

definition rd_command ::
  "'c easyproto \<Rightarrow> 'c \<Rightarrow> string \<Rightarrow> (string \<Rightarrow> 's \<times> unit outcome) \<Rightarrow> ('s \<Rightarrow> Command) \<Rightarrow> Command outcome" where
  "rd_command E fc what unmarshal con =
    (let msg = ''cannot read '' @ CHR 0x27 # what @ CHR 0x27 # '' field'' in
     case ep_MessageData E fc of
       None \<Rightarrow> Err (Errorf msg)
     | Some data \<Rightarrow> (case unmarshal data of
         (c, r) \<Rightarrow> obind (wrap_err (msg @ '': '') r) (\<lambda>_. Ok (con c))))"

text \<open>The \<open>switch\<close> of \<open>unmarshalCommand\<close>: the result when the field is a command.\<close>

definition unmarshalCommand_field ::
  "'c easyproto \<Rightarrow> nat \<Rightarrow> (string \<Rightarrow> Command outcome) \<Rightarrow> 'c \<Rightarrow> Command outcome option" where
  "unmarshalCommand_field E n unmarshalSub fc =
    (let f = ep_FieldNum E fc in
     if f = 3 then Some (rd_command E fc ''TransitCommand transit = 3;'' (unmarshalTransitCommand E n) TransitCmd)
     else if f = 6 then Some (rd_command E fc ''ParkCommand park = 6;'' (unmarshalParkCommand E n) ParkCmd)
     else if f = 7 then Some (rd_command E fc ''ExecuteCommand execute = 7;'' (unmarshalExecuteCommand E n) ExecuteCmd)
     else if f = 8 then Some (rd_command E fc ''DelayCommand delay = 8;'' (unmarshalDelayCommand E n) DelayCmd)
     else if f = 9 then Some (rd_command E fc ''CommitCommand commit = 9;''
       (\<lambda>data. fieldLoop E (unmarshalCommit_field E unmarshalSub) data []) CommitCmd)
     else if f = 10 then Some (Ok NoopCmd)
     else if f = 11 then Some (rd_command E fc ''StackCommand stack = 11;'' (unmarshalStackCommand E n) StackCmd)
     else if f = 12 then Some (rd_command E fc ''UnstackCommand unstack = 12;'' (unmarshalUnstackCommand E n) UnstackCmd)
     else if f = 17 then Some (rd_command E fc ''GetStateByIDCommand get_state_by_id = 17;''
       (unmarshalGetStateByIDCommand E n) GetStateByIDCmd)
     else if f = 18 then Some (rd_command E fc ''GetStateByLabelsCommand get_state_by_labels = 18;''
       (unmarshalGetStateByLabelsCommand E n) GetStateByLabelsCmd)
     else if f = 19 then Some (rd_command E fc ''GetStatesCommand get_states = 19;''
       (unmarshalGetStatesCommand E) GetStatesCmd)
     else if f = 20 then Some (rd_command E fc ''GetDelayedStatesCommand get_delayed_states = 20;''
       (unmarshalGetDelayedStatesCommand E) GetDelayedStatesCmd)
     else if f = 21 then Some (rd_command E fc ''StoreDataCommand store_data = 21;'' (unmarshalStoreDataCommand E n) StoreDataCmd)
     else if f = 22 then Some (rd_command E fc ''GetDataCommand get_data = 22;'' (unmarshalGetDataCommand E n) GetDataCmd)
     else None)"

text \<open>The fuel bounds the fields read and the nesting together; the length of the input is enough.\<close>

fun unmarshalCommand :: "'c easyproto \<Rightarrow> nat \<Rightarrow> nat \<Rightarrow> string \<Rightarrow> Command outcome" where
  "unmarshalCommand E n 0 src = Panic ''out of fuel''"
| "unmarshalCommand E n (Suc fuel) src =
    (if src = [] then Ok NilCmd
     else case ep_NextField E src of
       None \<Rightarrow> Err (Errorf ''cannot read next field'')
     | Some (fc, rest) \<Rightarrow>
         (case unmarshalCommand_field E n (\<lambda>data. unmarshalCommand E n fuel data) fc of
            Some r \<Rightarrow> r
          | None \<Rightarrow> unmarshalCommand E n fuel rest))"

definition unmarshalCtxs_field :: "'c easyproto \<Rightarrow> 'c \<Rightarrow> StateCtx list \<Rightarrow> StateCtx list \<times> unit outcome" where
  "unmarshalCtxs_field E fc ctxs =
    (if ep_FieldNum E fc = 1 then
       rd_message E fc ''cannot read 'repeated StateCtx state_ctxs = 1;' field''
         (\<lambda>data. case UnmarshalStateCtx E data StateCtx0 of
            (c, Ok _) \<Rightarrow> (ctxs @ [c], Ok ())
          | (_, r) \<Rightarrow> (ctxs, wrap_err ''cannot read 'repeated StateCtx state_ctxs = 1;' field: '' r)) ctxs
     else (ctxs, Ok ()))"

definition UnmarshalCommand :: "'c easyproto \<Rightarrow> string \<Rightarrow> (Command \<times> StateCtx list) outcome" where
  "UnmarshalCommand E src0 =
    (case fieldLoop E (unmarshalCtxs_field E) src0 [] of
       (ctxs, r) \<Rightarrow> obind r (\<lambda>_.
         obind (unmarshalCommand E (length ctxs) (Suc (length src0)) src0) (\<lambda>cmd. Ok (cmd, ctxs))))"

end
