(* ===== verification/ProtobufCmdProps.thy ===== *)
theory ProtobufCmdProps
  imports ProtobufCmd
begin

text \<open>
  The round trip of commands through protobuf: every kind of command, with its contexts and the
  sub commands of a commit, and what is lost on the way.
\<close>

section \<open>What survives\<close>

definition idx_of :: "nat list \<Rightarrow> nat \<Rightarrow> nat" where
  "idx_of s a = length (takeWhile (\<lambda>b. b \<noteq> a) s)"

lemma idx_of_less: "a \<in> set s \<Longrightarrow> idx_of s a < length s"
  by (induction s) (auto simp: idx_of_def)

lemma nth_idx_of: "a \<in> set s \<Longrightarrow> s ! idx_of s a = a"
  by (induction s) (auto simp: idx_of_def)

lemma stateCtxs_idx_Ok: "a \<in> set s \<Longrightarrow> stateCtxs_idx s a = Ok (idx_of s a)"
  by (induction s) (auto simp: idx_of_def)

definition pb_ref :: "nat list \<Rightarrow> ctx_ref \<Rightarrow> ctx_ref" where
  "pb_ref s p = map_option (idx_of s) p"

definition ref_ok :: "nat list \<Rightarrow> ctx_ref \<Rightarrow> bool" where
  "ref_ok s p \<longleftrightarrow> set (nonnil p) \<subseteq> set s \<and> int (length s) < 2 ^ 63"

definition ref_msg :: "nat \<Rightarrow> ctx_ref \<Rightarrow> nat list \<Rightarrow> pb_msg" where
  "ref_msg k p s = (case p of None \<Rightarrow> [] | Some a \<Rightarrow> [(k, PMsg [(1, PInt64 (int (idx_of s a)))])])"

lemma put_ref_Ok: "ref_ok s p \<Longrightarrow> put_ref k p s = Ok (ref_msg k p s)"
  by (auto simp: put_ref_def ref_msg_def ref_ok_def nonnil_def marshalStateCtxRef_def stateCtxs_idx_Ok
      split: option.splits)

definition pb_time_sec :: "time \<Rightarrow> time" where
  "pb_time_sec t = (if IsZero t then zero_time else time_Unix (Unix t) 0)"

definition pb_GetStates :: "GetStatesCommand \<Rightarrow> GetStatesCommand" where
  "pb_GetStates cmd = cmd\<lparr>gs_SinceTime := pb_milli (gs_SinceTime cmd),
    gs_Labels := map (\<lambda>l. Some (gm_entries l)) (gs_Labels cmd),
    gs_Result := map_option (\<lambda>r. r\<lparr>gsr_States := map pb_State (gsr_States r)\<rparr>) (gs_Result cmd)\<rparr>"

definition pb_GetDelayedStates :: "GetDelayedStatesCommand \<Rightarrow> GetDelayedStatesCommand" where
  "pb_GetDelayedStates cmd = cmd\<lparr>gt_Since := pb_time_sec (gt_Since cmd), gt_Until := pb_time_sec (gt_Until cmd),
    gt_Result := map_option (\<lambda>r. r\<lparr>gdr_States := map pb_DelayedState (gdr_States r)\<rparr>) (gt_Result cmd)\<rparr>"

fun pb_Command :: "nat list \<Rightarrow> Command \<Rightarrow> Command" where
  "pb_Command s (TransitCmd cmd) = TransitCmd (cmd\<lparr>tr_StateCtx := pb_ref s (tr_StateCtx cmd),
    tr_Annotations := norm_map (tr_Annotations cmd)\<rparr>)"
| "pb_Command s (ParkCmd cmd) = ParkCmd (cmd\<lparr>pk_StateCtx := pb_ref s (pk_StateCtx cmd),
    pk_Annotations := norm_map (pk_Annotations cmd)\<rparr>)"
| "pb_Command s (ExecuteCmd cmd) = ExecuteCmd \<lparr>ex_StateCtx = pb_ref s (ex_StateCtx cmd), ex_sync = False\<rparr>"
| "pb_Command s (DelayCmd cmd) = DelayCmd (cmd\<lparr>dl_StateCtx := pb_ref s (dl_StateCtx cmd),
    dl_ExecuteAt := pb_time_sec (dl_ExecuteAt cmd), dl_Annotations := norm_map (dl_Annotations cmd),
    dl_Result := map_option pb_DelayedState (dl_Result cmd)\<rparr>)"
| "pb_Command s (CommitCmd cmds) = CommitCmd (map (pb_Command s) cmds)"
| "pb_Command s (StackCmd cmd) = StackCmd (cmd\<lparr>st_CarrierStateCtx := pb_ref s (st_CarrierStateCtx cmd),
    st_StackedStateCtx := pb_ref s (st_StackedStateCtx cmd)\<rparr>)"
| "pb_Command s (UnstackCmd cmd) = UnstackCmd (cmd\<lparr>un_CarrierStateCtx := pb_ref s (un_CarrierStateCtx cmd),
    un_UnstackStateCtx := pb_ref s (un_UnstackStateCtx cmd)\<rparr>)"
| "pb_Command s (StoreDataCmd cmd) = StoreDataCmd (cmd\<lparr>sd_StateCtx := pb_ref s (sd_StateCtx cmd)\<rparr>)"
| "pb_Command s (GetDataCmd cmd) = GetDataCmd (cmd\<lparr>gd_StateCtx := pb_ref s (gd_StateCtx cmd)\<rparr>)"
| "pb_Command s (GetStateByIDCmd cmd) = GetStateByIDCmd (cmd\<lparr>gi_StateCtx := pb_ref s (gi_StateCtx cmd)\<rparr>)"
| "pb_Command s (GetStateByLabelsCmd cmd) = GetStateByLabelsCmd (cmd\<lparr>gl_StateCtx := pb_ref s (gl_StateCtx cmd),
    gl_Labels := norm_map (gl_Labels cmd)\<rparr>)"
| "pb_Command s (GetStatesCmd cmd) = GetStatesCmd (pb_GetStates cmd)"
| "pb_Command s (GetDelayedStatesCmd cmd) = GetDelayedStatesCmd (pb_GetDelayedStates cmd)"
| "pb_Command s c = c"

definition pb_ok_Delayed :: "DelayedState \<Rightarrow> bool" where
  "pb_ok_Delayed ds \<longleftrightarrow> pb_ok_State (ds_State ds) \<and> in_i64 (ds_Offset ds)"

fun pb_ok_Command :: "nat list \<Rightarrow> Command \<Rightarrow> bool" where
  "pb_ok_Command s (TransitCmd cmd) = (ref_ok s (tr_StateCtx cmd) \<and> pb_ok_map (tr_Annotations cmd))"
| "pb_ok_Command s (ParkCmd cmd) = (ref_ok s (pk_StateCtx cmd) \<and> pb_ok_map (pk_Annotations cmd))"
| "pb_ok_Command s (ExecuteCmd cmd) = ref_ok s (ex_StateCtx cmd)"
| "pb_ok_Command s (DelayCmd cmd) = (ref_ok s (dl_StateCtx cmd) \<and> pb_ok_map (dl_Annotations cmd)
    \<and> (case dl_Result cmd of None \<Rightarrow> True | Some ds \<Rightarrow> pb_ok_Delayed ds))"
| "pb_ok_Command s (CommitCmd cmds) = list_all (pb_ok_Command s) cmds"
| "pb_ok_Command s (StackCmd cmd) = (ref_ok s (st_CarrierStateCtx cmd) \<and> ref_ok s (st_StackedStateCtx cmd))"
| "pb_ok_Command s (UnstackCmd cmd) = (ref_ok s (un_CarrierStateCtx cmd) \<and> ref_ok s (un_UnstackStateCtx cmd))"
| "pb_ok_Command s (StoreDataCmd cmd) = ref_ok s (sd_StateCtx cmd)"
| "pb_ok_Command s (GetDataCmd cmd) = ref_ok s (gd_StateCtx cmd)"
| "pb_ok_Command s (GetStateByIDCmd cmd) = (ref_ok s (gi_StateCtx cmd) \<and> in_i64 (gi_Rev cmd))"
| "pb_ok_Command s (GetStateByLabelsCmd cmd) = (ref_ok s (gl_StateCtx cmd) \<and> pb_ok_map (gl_Labels cmd))"
| "pb_ok_Command s (GetStatesCmd cmd) = (in_i64 (gs_SinceRev cmd) \<and> in_i64 (gs_Limit cmd)
    \<and> list_all pb_ok_map (gs_Labels cmd)
    \<and> (case gs_Result cmd of None \<Rightarrow> True | Some r \<Rightarrow> list_all pb_ok_State (gsr_States r)))"
| "pb_ok_Command s (GetDelayedStatesCmd cmd) = (in_i64 (gt_Offset cmd) \<and> in_i64 (gt_Limit cmd)
    \<and> (case gt_Result cmd of None \<Rightarrow> True | Some r \<Rightarrow> list_all pb_ok_Delayed (gdr_States r)))"
| "pb_ok_Command s _ = True"

section \<open>Fields\<close>

text \<open>
  A field written under a condition reads as an update of its component, whether or not it was
  written, when the component starts at its zero value.
\<close>

context easyproto_laws
begin

lemma unmarshal_ref:
  assumes "a \<in> set s" "int (length s) < 2 ^ 63"
  shows "unmarshalStateCtxRef E (ep_Marshal E [(1, PInt64 (int (idx_of s a)))]) (length s) = Ok (idx_of s a)"
proof -
  have lt: "idx_of s a < length s" by (rule idx_of_less [OF assms(1)])
  then have "in_i64 (int (idx_of s a))" using assms(2) by (intro in_i64_small) auto
  then have "consumes E (unmarshalStateCtxRef_field E) [(1, PInt64 (int (idx_of s a)))] (- 1) (int (idx_of s a))"
    by (intro consumes_field) (auto simp: unmarshalStateCtxRef_field_def rd_defs)
  from consumes_done [OF this] lt show ?thesis
    by (simp add: unmarshalStateCtxRef_def stateCtxs_find_def)
qed

lemma consumes_ref:
  assumes "\<And>fc. ep_FieldNum E fc = k \<Longrightarrow> body fc x = rd_ref E fc msg (length s) upd x"
    and "0 < k" "k < 2 ^ 29" "ref_ok s p" "x = upd None"
  shows "consumes E body (ref_msg k p s) x (upd (pb_ref s p))"
proof (cases p)
  case None
  with assms(5) show ?thesis by (simp add: ref_msg_def pb_ref_def consumes_Nil)
next
  case (Some a)
  with assms(4) have "a \<in> set s" "int (length s) < 2 ^ 63" by (auto simp: ref_ok_def nonnil_def)
  note un = unmarshal_ref [OF this]
  have "consumes E body [(k, PMsg [(1, PInt64 (int (idx_of s a)))])] x (upd (Some (idx_of s a)))"
    by (rule consumes_field [OF assms(2,3)])
      (use un in \<open>simp add: assms(1) rd_ref_def rd_message_def\<close>)
  with Some show ?thesis by (simp add: ref_msg_def pb_ref_def)
qed

lemma consumes_put_str:
  assumes "\<And>fc. ep_FieldNum E fc = k \<Longrightarrow> body fc x = rd_string E fc msg upd x"
    and "0 < k" "k < 2 ^ 29" "x = upd []"
  shows "consumes E body (put_str k v) x (upd v)"
  unfolding put_str_def
  by (rule consumes_if, rule consumes_field) (use assms in \<open>auto simp: rd_string_def\<close>)

lemma consumes_put_int:
  assumes "\<And>fc. ep_FieldNum E fc = k \<Longrightarrow> body fc x = rd_int64 E fc msg upd x"
    and "0 < k" "k < 2 ^ 29" "in_i64 v" "x = upd 0"
  shows "consumes E body (put_int k v) x (upd v)"
  unfolding put_int_def
  by (rule consumes_if, rule consumes_field) (use assms in \<open>auto simp: rd_int64_def\<close>)

lemma consumes_put_true:
  assumes "\<And>fc. ep_FieldNum E fc = k \<Longrightarrow> body fc x = rd_bool E fc msg upd x"
    and "0 < k" "k < 2 ^ 29" "x = upd False"
  shows "consumes E body (put_true k v) x (upd v)"
  unfolding put_true_def
  by (rule consumes_if, rule consumes_field) (use assms in \<open>auto simp: rd_bool_def\<close>)

lemma consumes_put_map:
  assumes "\<And>fc s. ep_FieldNum E fc = k \<Longrightarrow> body fc s = rd_strmap E fc msg get put s"
    and "\<And>m s. get (put m s) = m" "\<And>m m' s. put m (put m' s) = put m s" "\<And>s. put (get s) s = s"
    and "0 < k" "k < 2 ^ 29" "pb_ok_map m" "get x = None"
  shows "consumes E body (put_map k m) x (put (norm_map m) x)"
proof -
  have "put_map k m = marshalStringMap m k" by (cases m) (simp_all add: put_map_def marshalStringMap_def)
  moreover have "consumes E body (marshalStringMap m k) x (put (gm_merge m (get x)) x)"
    by (rule consumes_strmap [where body = body and get = get and put = put])
      (use assms in \<open>auto simp: pb_ok_map_def\<close>)
  moreover have "gm_merge m (get x) = norm_map m"
    using assms(7,8) by (simp add: gm_merge_norm pb_ok_map_def)
  ultimately show ?thesis by simp
qed

end

section \<open>Round trips of the commands\<close>

lemma put_map_len: "(if gm_len m > 0 then marshalStringMap m k else []) = put_map k m"
  by (cases m) (auto simp: put_map_def gm_len_def marshalStringMap_def)

context easyproto_laws
begin

lemma Transit_rt:
  assumes ok: "pb_ok_Command s (TransitCmd cmd)"
  shows "unmarshalTransitCommand E (length s) (ep_Marshal E (ref_msg 1 (tr_StateCtx cmd) s @ put_str 2 (tr_To cmd) @ put_map 3 (tr_Annotations cmd))) = (cmd\<lparr>tr_StateCtx := pb_ref s (tr_StateCtx cmd), tr_Annotations := norm_map (tr_Annotations cmd)\<rparr>, Ok ())"
proof -
  let ?b = "unmarshalTransit_field E (length s)"
  let ?c0 = TransitCommand0
  let ?c1 = "?c0\<lparr>tr_StateCtx := pb_ref s (tr_StateCtx cmd)\<rparr>"
  let ?c2 = "?c1\<lparr>tr_To := tr_To cmd\<rparr>"
  let ?c3 = "?c2\<lparr>tr_Annotations := norm_map (tr_Annotations cmd)\<rparr>"
  note bs = unmarshalTransit_field_def TransitCommand0_def
  have 1: "consumes E ?b (ref_msg 1 (tr_StateCtx cmd) s) ?c0 ?c1"
    by (rule consumes_ref [where upd = "\<lambda>v. ?c0\<lparr>tr_StateCtx := v\<rparr>"])
      (use ok in \<open>auto simp: bs\<close>)
  have 2: "consumes E ?b (put_str 2 (tr_To cmd)) ?c1 ?c2"
    by (rule consumes_put_str [where upd = "\<lambda>v. ?c1\<lparr>tr_To := v\<rparr>"])
      (use ok in \<open>auto simp: bs\<close>)
  have 3: "consumes E ?b (put_map 3 (tr_Annotations cmd)) ?c2 ?c3"
    by (rule consumes_put_map [where get = tr_Annotations and put = "\<lambda>m c. c\<lparr>tr_Annotations := m\<rparr>"])
      (use ok in \<open>auto simp: bs\<close>)
  have "consumes E ?b (ref_msg 1 (tr_StateCtx cmd) s @ put_str 2 (tr_To cmd) @ put_map 3 (tr_Annotations cmd)) ?c0 ?c3"
    by (rule consumes_append [OF 1] consumes_append [OF 2] 3)+
  from consumes_done [OF this] show ?thesis
    by (simp add: unmarshalTransitCommand_def TransitCommand0_def)
qed

lemma Park_rt:
  assumes ok: "pb_ok_Command s (ParkCmd cmd)"
  shows "unmarshalParkCommand E (length s) (ep_Marshal E (ref_msg 1 (pk_StateCtx cmd) s @ put_map 3 (pk_Annotations cmd))) = (cmd\<lparr>pk_StateCtx := pb_ref s (pk_StateCtx cmd), pk_Annotations := norm_map (pk_Annotations cmd)\<rparr>, Ok ())"
proof -
  let ?b = "unmarshalPark_field E (length s)"
  let ?c0 = ParkCommand0
  let ?c1 = "?c0\<lparr>pk_StateCtx := pb_ref s (pk_StateCtx cmd)\<rparr>"
  let ?c2 = "?c1\<lparr>pk_Annotations := norm_map (pk_Annotations cmd)\<rparr>"
  note bs = unmarshalPark_field_def ParkCommand0_def
  have 1: "consumes E ?b (ref_msg 1 (pk_StateCtx cmd) s) ?c0 ?c1"
    by (rule consumes_ref [where upd = "\<lambda>v. ?c0\<lparr>pk_StateCtx := v\<rparr>"])
      (use ok in \<open>auto simp: bs\<close>)
  have 2: "consumes E ?b (put_map 3 (pk_Annotations cmd)) ?c1 ?c2"
    by (rule consumes_put_map [where get = pk_Annotations and put = "\<lambda>m c. c\<lparr>pk_Annotations := m\<rparr>"])
      (use ok in \<open>auto simp: bs\<close>)
  have "consumes E ?b (ref_msg 1 (pk_StateCtx cmd) s @ put_map 3 (pk_Annotations cmd)) ?c0 ?c2"
    by (rule consumes_append [OF 1] 2)+
  from consumes_done [OF this] show ?thesis
    by (simp add: unmarshalParkCommand_def ParkCommand0_def)
qed

lemma Execute_rt:
  assumes ok: "pb_ok_Command s (ExecuteCmd cmd)"
  shows "unmarshalExecuteCommand E (length s) (ep_Marshal E (ref_msg 1 (ex_StateCtx cmd) s)) = (\<lparr>ex_StateCtx = pb_ref s (ex_StateCtx cmd), ex_sync = False\<rparr>, Ok ())"
proof -
  let ?b = "unmarshalExecute_field E (length s)"
  let ?c0 = ExecuteCommand0
  let ?c1 = "?c0\<lparr>ex_StateCtx := pb_ref s (ex_StateCtx cmd)\<rparr>"
  note bs = unmarshalExecute_field_def ExecuteCommand0_def
  have 1: "consumes E ?b (ref_msg 1 (ex_StateCtx cmd) s) ?c0 ?c1"
    by (rule consumes_ref [where upd = "\<lambda>v. ?c0\<lparr>ex_StateCtx := v\<rparr>"])
      (use ok in \<open>auto simp: bs\<close>)
  have "consumes E ?b (ref_msg 1 (ex_StateCtx cmd) s) ?c0 ?c1"
    by (rule  1)+
  from consumes_done [OF this] show ?thesis
    by (simp add: unmarshalExecuteCommand_def ExecuteCommand0_def)
qed

lemma Delay_rt:
  assumes ok: "pb_ok_Command s (DelayCmd cmd)"
  shows "unmarshalDelayCommand E (length s) (ep_Marshal E (ref_msg 1 (dl_StateCtx cmd) s @ (case dl_Result cmd of None \<Rightarrow> [] | Some res \<Rightarrow> [(2, PMsg (marshalDelayedState res))]) @ (if \<not> IsZero (dl_ExecuteAt cmd) then [(3, PInt64 (Unix (dl_ExecuteAt cmd)))] else []) @ put_true 4 (dl_Commit cmd) @ put_str 5 (dl_To cmd) @ put_map 6 (dl_Annotations cmd))) = (cmd\<lparr>dl_StateCtx := pb_ref s (dl_StateCtx cmd), dl_ExecuteAt := pb_time_sec (dl_ExecuteAt cmd), dl_Annotations := norm_map (dl_Annotations cmd), dl_Result := map_option pb_DelayedState (dl_Result cmd)\<rparr>, Ok ())"
proof -
  let ?b = "unmarshalDelay_field E (length s)"
  let ?c0 = DelayCommand0
  let ?c1 = "?c0\<lparr>dl_StateCtx := pb_ref s (dl_StateCtx cmd)\<rparr>"
  let ?c2 = "?c1\<lparr>dl_Result := map_option pb_DelayedState (dl_Result cmd)\<rparr>"
  let ?c3 = "?c2\<lparr>dl_ExecuteAt := pb_time_sec (dl_ExecuteAt cmd)\<rparr>"
  let ?c4 = "?c3\<lparr>dl_Commit := dl_Commit cmd\<rparr>"
  let ?c5 = "?c4\<lparr>dl_To := dl_To cmd\<rparr>"
  let ?c6 = "?c5\<lparr>dl_Annotations := norm_map (dl_Annotations cmd)\<rparr>"
  note bs = unmarshalDelay_field_def DelayCommand0_def
  have 1: "consumes E ?b (ref_msg 1 (dl_StateCtx cmd) s) ?c0 ?c1"
    by (rule consumes_ref [where upd = "\<lambda>v. ?c0\<lparr>dl_StateCtx := v\<rparr>"])
      (use ok in \<open>auto simp: bs\<close>)
  have 2: "consumes E ?b ((case dl_Result cmd of None \<Rightarrow> [] | Some res \<Rightarrow> [(2, PMsg (marshalDelayedState res))])) ?c1 ?c2"
    by (cases "dl_Result cmd") (use ok in \<open>auto simp: bs consumes_Nil rd_defs pb_ok_Delayed_def
      DelayedState_roundtrip intro!: consumes_field\<close>)
  have 3: "consumes E ?b ((if \<not> IsZero (dl_ExecuteAt cmd) then [(3, PInt64 (Unix (dl_ExecuteAt cmd)))] else [])) ?c2 ?c3"
    by (rule consumes_if, rule consumes_field) (auto simp: bs rd_defs pb_time_sec_def)
  have 4: "consumes E ?b (put_true 4 (dl_Commit cmd)) ?c3 ?c4"
    by (rule consumes_put_true [where upd = "\<lambda>v. ?c3\<lparr>dl_Commit := v\<rparr>"])
      (use ok in \<open>auto simp: bs\<close>)
  have 5: "consumes E ?b (put_str 5 (dl_To cmd)) ?c4 ?c5"
    by (rule consumes_put_str [where upd = "\<lambda>v. ?c4\<lparr>dl_To := v\<rparr>"])
      (use ok in \<open>auto simp: bs\<close>)
  have 6: "consumes E ?b (put_map 6 (dl_Annotations cmd)) ?c5 ?c6"
    by (rule consumes_put_map [where get = dl_Annotations and put = "\<lambda>m c. c\<lparr>dl_Annotations := m\<rparr>"])
      (use ok in \<open>auto simp: bs\<close>)
  have "consumes E ?b (ref_msg 1 (dl_StateCtx cmd) s @ (case dl_Result cmd of None \<Rightarrow> [] | Some res \<Rightarrow> [(2, PMsg (marshalDelayedState res))]) @ (if \<not> IsZero (dl_ExecuteAt cmd) then [(3, PInt64 (Unix (dl_ExecuteAt cmd)))] else []) @ put_true 4 (dl_Commit cmd) @ put_str 5 (dl_To cmd) @ put_map 6 (dl_Annotations cmd)) ?c0 ?c6"
    by (rule consumes_append [OF 1] consumes_append [OF 2] consumes_append [OF 3] consumes_append [OF 4] consumes_append [OF 5] 6)+
  from consumes_done [OF this] show ?thesis
    by (simp add: unmarshalDelayCommand_def DelayCommand0_def)
qed

lemma Stack_rt:
  assumes ok: "pb_ok_Command s (StackCmd cmd)"
  shows "unmarshalStackCommand E (length s) (ep_Marshal E (ref_msg 1 (st_CarrierStateCtx cmd) s @ ref_msg 2 (st_StackedStateCtx cmd) s @ put_str 3 (st_Annotation cmd))) = (cmd\<lparr>st_CarrierStateCtx := pb_ref s (st_CarrierStateCtx cmd), st_StackedStateCtx := pb_ref s (st_StackedStateCtx cmd)\<rparr>, Ok ())"
proof -
  let ?b = "unmarshalStack_field E (length s)"
  let ?c0 = StackCommand0
  let ?c1 = "?c0\<lparr>st_CarrierStateCtx := pb_ref s (st_CarrierStateCtx cmd)\<rparr>"
  let ?c2 = "?c1\<lparr>st_StackedStateCtx := pb_ref s (st_StackedStateCtx cmd)\<rparr>"
  let ?c3 = "?c2\<lparr>st_Annotation := st_Annotation cmd\<rparr>"
  note bs = unmarshalStack_field_def StackCommand0_def
  have 1: "consumes E ?b (ref_msg 1 (st_CarrierStateCtx cmd) s) ?c0 ?c1"
    by (rule consumes_ref [where upd = "\<lambda>v. ?c0\<lparr>st_CarrierStateCtx := v\<rparr>"])
      (use ok in \<open>auto simp: bs\<close>)
  have 2: "consumes E ?b (ref_msg 2 (st_StackedStateCtx cmd) s) ?c1 ?c2"
    by (rule consumes_ref [where upd = "\<lambda>v. ?c1\<lparr>st_StackedStateCtx := v\<rparr>"])
      (use ok in \<open>auto simp: bs\<close>)
  have 3: "consumes E ?b (put_str 3 (st_Annotation cmd)) ?c2 ?c3"
    by (rule consumes_put_str [where upd = "\<lambda>v. ?c2\<lparr>st_Annotation := v\<rparr>"])
      (use ok in \<open>auto simp: bs\<close>)
  have "consumes E ?b (ref_msg 1 (st_CarrierStateCtx cmd) s @ ref_msg 2 (st_StackedStateCtx cmd) s @ put_str 3 (st_Annotation cmd)) ?c0 ?c3"
    by (rule consumes_append [OF 1] consumes_append [OF 2] 3)+
  from consumes_done [OF this] show ?thesis
    by (simp add: unmarshalStackCommand_def StackCommand0_def)
qed

lemma Unstack_rt:
  assumes ok: "pb_ok_Command s (UnstackCmd cmd)"
  shows "unmarshalUnstackCommand E (length s) (ep_Marshal E (ref_msg 1 (un_CarrierStateCtx cmd) s @ ref_msg 2 (un_UnstackStateCtx cmd) s @ put_str 3 (un_Annotation cmd))) = (cmd\<lparr>un_CarrierStateCtx := pb_ref s (un_CarrierStateCtx cmd), un_UnstackStateCtx := pb_ref s (un_UnstackStateCtx cmd)\<rparr>, Ok ())"
proof -
  let ?b = "unmarshalUnstack_field E (length s)"
  let ?c0 = UnstackCommand0
  let ?c1 = "?c0\<lparr>un_CarrierStateCtx := pb_ref s (un_CarrierStateCtx cmd)\<rparr>"
  let ?c2 = "?c1\<lparr>un_UnstackStateCtx := pb_ref s (un_UnstackStateCtx cmd)\<rparr>"
  let ?c3 = "?c2\<lparr>un_Annotation := un_Annotation cmd\<rparr>"
  note bs = unmarshalUnstack_field_def UnstackCommand0_def
  have 1: "consumes E ?b (ref_msg 1 (un_CarrierStateCtx cmd) s) ?c0 ?c1"
    by (rule consumes_ref [where upd = "\<lambda>v. ?c0\<lparr>un_CarrierStateCtx := v\<rparr>"])
      (use ok in \<open>auto simp: bs\<close>)
  have 2: "consumes E ?b (ref_msg 2 (un_UnstackStateCtx cmd) s) ?c1 ?c2"
    by (rule consumes_ref [where upd = "\<lambda>v. ?c1\<lparr>un_UnstackStateCtx := v\<rparr>"])
      (use ok in \<open>auto simp: bs\<close>)
  have 3: "consumes E ?b (put_str 3 (un_Annotation cmd)) ?c2 ?c3"
    by (rule consumes_put_str [where upd = "\<lambda>v. ?c2\<lparr>un_Annotation := v\<rparr>"])
      (use ok in \<open>auto simp: bs\<close>)
  have "consumes E ?b (ref_msg 1 (un_CarrierStateCtx cmd) s @ ref_msg 2 (un_UnstackStateCtx cmd) s @ put_str 3 (un_Annotation cmd)) ?c0 ?c3"
    by (rule consumes_append [OF 1] consumes_append [OF 2] 3)+
  from consumes_done [OF this] show ?thesis
    by (simp add: unmarshalUnstackCommand_def UnstackCommand0_def)
qed

lemma StoreData_rt:
  assumes ok: "pb_ok_Command s (StoreDataCmd cmd)"
  shows "unmarshalStoreDataCommand E (length s) (ep_Marshal E (ref_msg 1 (sd_StateCtx cmd) s @ put_str 2 (sd_Alias cmd))) = (cmd\<lparr>sd_StateCtx := pb_ref s (sd_StateCtx cmd)\<rparr>, Ok ())"
proof -
  let ?b = "unmarshalStoreData_field E (length s)"
  let ?c0 = StoreDataCommand0
  let ?c1 = "?c0\<lparr>sd_StateCtx := pb_ref s (sd_StateCtx cmd)\<rparr>"
  let ?c2 = "?c1\<lparr>sd_Alias := sd_Alias cmd\<rparr>"
  note bs = unmarshalStoreData_field_def StoreDataCommand0_def
  have 1: "consumes E ?b (ref_msg 1 (sd_StateCtx cmd) s) ?c0 ?c1"
    by (rule consumes_ref [where upd = "\<lambda>v. ?c0\<lparr>sd_StateCtx := v\<rparr>"])
      (use ok in \<open>auto simp: bs\<close>)
  have 2: "consumes E ?b (put_str 2 (sd_Alias cmd)) ?c1 ?c2"
    by (rule consumes_put_str [where upd = "\<lambda>v. ?c1\<lparr>sd_Alias := v\<rparr>"])
      (use ok in \<open>auto simp: bs\<close>)
  have "consumes E ?b (ref_msg 1 (sd_StateCtx cmd) s @ put_str 2 (sd_Alias cmd)) ?c0 ?c2"
    by (rule consumes_append [OF 1] 2)+
  from consumes_done [OF this] show ?thesis
    by (simp add: unmarshalStoreDataCommand_def StoreDataCommand0_def)
qed

lemma GetData_rt:
  assumes ok: "pb_ok_Command s (GetDataCmd cmd)"
  shows "unmarshalGetDataCommand E (length s) (ep_Marshal E (ref_msg 1 (gd_StateCtx cmd) s @ put_str 2 (gd_Alias cmd))) = (cmd\<lparr>gd_StateCtx := pb_ref s (gd_StateCtx cmd)\<rparr>, Ok ())"
proof -
  let ?b = "unmarshalGetData_field E (length s)"
  let ?c0 = GetDataCommand0
  let ?c1 = "?c0\<lparr>gd_StateCtx := pb_ref s (gd_StateCtx cmd)\<rparr>"
  let ?c2 = "?c1\<lparr>gd_Alias := gd_Alias cmd\<rparr>"
  note bs = unmarshalGetData_field_def GetDataCommand0_def
  have 1: "consumes E ?b (ref_msg 1 (gd_StateCtx cmd) s) ?c0 ?c1"
    by (rule consumes_ref [where upd = "\<lambda>v. ?c0\<lparr>gd_StateCtx := v\<rparr>"])
      (use ok in \<open>auto simp: bs\<close>)
  have 2: "consumes E ?b (put_str 2 (gd_Alias cmd)) ?c1 ?c2"
    by (rule consumes_put_str [where upd = "\<lambda>v. ?c1\<lparr>gd_Alias := v\<rparr>"])
      (use ok in \<open>auto simp: bs\<close>)
  have "consumes E ?b (ref_msg 1 (gd_StateCtx cmd) s @ put_str 2 (gd_Alias cmd)) ?c0 ?c2"
    by (rule consumes_append [OF 1] 2)+
  from consumes_done [OF this] show ?thesis
    by (simp add: unmarshalGetDataCommand_def GetDataCommand0_def)
qed

lemma GetStateByID_rt:
  assumes ok: "pb_ok_Command s (GetStateByIDCmd cmd)"
  shows "unmarshalGetStateByIDCommand E (length s) (ep_Marshal E (put_str 1 (gi_ID cmd) @ put_int 2 (gi_Rev cmd) @ ref_msg 3 (gi_StateCtx cmd) s)) = (cmd\<lparr>gi_StateCtx := pb_ref s (gi_StateCtx cmd)\<rparr>, Ok ())"
proof -
  let ?b = "unmarshalGetStateByID_field E (length s)"
  let ?c0 = GetStateByIDCommand0
  let ?c1 = "?c0\<lparr>gi_ID := gi_ID cmd\<rparr>"
  let ?c2 = "?c1\<lparr>gi_Rev := gi_Rev cmd\<rparr>"
  let ?c3 = "?c2\<lparr>gi_StateCtx := pb_ref s (gi_StateCtx cmd)\<rparr>"
  note bs = unmarshalGetStateByID_field_def GetStateByIDCommand0_def
  have 1: "consumes E ?b (put_str 1 (gi_ID cmd)) ?c0 ?c1"
    by (rule consumes_put_str [where upd = "\<lambda>v. ?c0\<lparr>gi_ID := v\<rparr>"])
      (use ok in \<open>auto simp: bs\<close>)
  have 2: "consumes E ?b (put_int 2 (gi_Rev cmd)) ?c1 ?c2"
    by (rule consumes_put_int [where upd = "\<lambda>v. ?c1\<lparr>gi_Rev := v\<rparr>"])
      (use ok in \<open>auto simp: bs\<close>)
  have 3: "consumes E ?b (ref_msg 3 (gi_StateCtx cmd) s) ?c2 ?c3"
    by (rule consumes_ref [where upd = "\<lambda>v. ?c2\<lparr>gi_StateCtx := v\<rparr>"])
      (use ok in \<open>auto simp: bs\<close>)
  have "consumes E ?b (put_str 1 (gi_ID cmd) @ put_int 2 (gi_Rev cmd) @ ref_msg 3 (gi_StateCtx cmd) s) ?c0 ?c3"
    by (rule consumes_append [OF 1] consumes_append [OF 2] 3)+
  from consumes_done [OF this] show ?thesis
    by (simp add: unmarshalGetStateByIDCommand_def GetStateByIDCommand0_def)
qed

lemma GetStateByLabels_rt:
  assumes ok: "pb_ok_Command s (GetStateByLabelsCmd cmd)"
  shows "unmarshalGetStateByLabelsCommand E (length s) (ep_Marshal E (put_map 1 (gl_Labels cmd) @ ref_msg 2 (gl_StateCtx cmd) s)) = (cmd\<lparr>gl_StateCtx := pb_ref s (gl_StateCtx cmd), gl_Labels := norm_map (gl_Labels cmd)\<rparr>, Ok ())"
proof -
  let ?b = "unmarshalGetStateByLabels_field E (length s)"
  let ?c0 = GetStateByLabelsCommand0
  let ?c1 = "?c0\<lparr>gl_Labels := norm_map (gl_Labels cmd)\<rparr>"
  let ?c2 = "?c1\<lparr>gl_StateCtx := pb_ref s (gl_StateCtx cmd)\<rparr>"
  note bs = unmarshalGetStateByLabels_field_def GetStateByLabelsCommand0_def
  have 1: "consumes E ?b (put_map 1 (gl_Labels cmd)) ?c0 ?c1"
    by (rule consumes_put_map [where get = gl_Labels and put = "\<lambda>m c. c\<lparr>gl_Labels := m\<rparr>"])
      (use ok in \<open>auto simp: bs\<close>)
  have 2: "consumes E ?b (ref_msg 2 (gl_StateCtx cmd) s) ?c1 ?c2"
    by (rule consumes_ref [where upd = "\<lambda>v. ?c1\<lparr>gl_StateCtx := v\<rparr>"])
      (use ok in \<open>auto simp: bs\<close>)
  have "consumes E ?b (put_map 1 (gl_Labels cmd) @ ref_msg 2 (gl_StateCtx cmd) s) ?c0 ?c2"
    by (rule consumes_append [OF 1] 2)+
  from consumes_done [OF this] show ?thesis
    by (simp add: unmarshalGetStateByLabelsCommand_def GetStateByLabelsCommand0_def)
qed

lemma Labels_rt:
  assumes "pb_ok_map l"
  shows "fieldLoop E (unmarshalLabels_field E) (ep_Marshal E (marshalStringMap l 1)) (Some [])
    = (Some (gm_entries l), Ok ())"
proof -
  let ?item = "\<lambda>(k, v). (1 :: nat, PMsg ([(1, PString k)] @ (if v \<noteq> [] then [(2, PString v)] else [])))"
  let ?step = "\<lambda>(k, v) m. gm_set m k v"
  have "consumes E (unmarshalLabels_field E) [?item kv] m (?step kv m) \<and> ?step kv m \<noteq> None"
    if kv: "kv \<in> set (gm_entries l)" and m: "m \<noteq> None" for kv and m :: strmap
  proof -
    obtain k v where k: "kv = (k, v)" by fastforce
    then have "k \<noteq> []" using kv assms by (force simp: pb_ok_map_def)
    from map_item_roundtrip [OF this m, of v] have "consumes E (unmarshalLabels_field E) [?item kv] m (?step kv m)"
      unfolding k prod.case
      by (intro consumes_field) (simp_all only: unmarshalLabels_field_def rd_message_def ep_reads.simps
          option.case prod.case wrap_err.simps simp_thms if_True, simp_all)
    then show ?thesis by (simp add: k gm_set_def)
  qed
  then have "consumes E (unmarshalLabels_field E) (map ?item (gm_entries l)) (Some [])
      (fold ?step (gm_entries l) (Some []))" by (rule consumes_map_inv [where P = "\<lambda>m. m \<noteq> None"]) simp_all
  moreover have "fold ?step (gm_entries l) (Some []) = Some (gm_entries l)"
    using fold_set_fresh [of "[]" "gm_entries l"] assms by (simp add: pb_ok_map_def gm_wf_def)
  ultimately have "consumes E (unmarshalLabels_field E) (marshalStringMap l 1) (Some []) (Some (gm_entries l))"
    by (simp add: marshalStringMap_def)
  from consumes_done [OF this] show ?thesis .
qed

lemma fold_append_map: "fold (\<lambda>x r. put (get r @ [f x]) r) xs r0 = put (get r0 @ map f xs) r0"
  if "\<And>v r. get (put v r) = v" "\<And>v w r. put v (put w r) = put v r" "\<And>r. put (get r) r = r"
  using that(1) by (induction xs arbitrary: r0) (simp_all add: that)

lemma GetStatesResult_rt:
  assumes "list_all pb_ok_State (gsr_States r)"
  shows "fieldLoop E (unmarshalGetStatesResult_field E) (ep_Marshal E (marshalGetStatesResult r))
      \<lparr>gsr_States = [], gsr_More = False\<rparr> = (r\<lparr>gsr_States := map pb_State (gsr_States r)\<rparr>, Ok ())"
proof -
  let ?b = "unmarshalGetStatesResult_field E" and ?r0 = "\<lparr>gsr_States = [], gsr_More = False\<rparr>"
  have "consumes E ?b [(1, PMsg (marshalState st))] x (x\<lparr>gsr_States := gsr_States x @ [pb_State st]\<rparr>)"
    if "st \<in> set (gsr_States r)" for st x
    by (rule consumes_field)
      (use that assms in \<open>auto simp: unmarshalGetStatesResult_field_def rd_defs State_roundtrip list_all_iff\<close>)
  then have "consumes E ?b (map (\<lambda>s. (1, PMsg (marshalState s))) (gsr_States r)) ?r0
      (fold (\<lambda>st x. x\<lparr>gsr_States := gsr_States x @ [pb_State st]\<rparr>) (gsr_States r) ?r0)"
    by (rule consumes_map)
  moreover have "fold (\<lambda>st x. x\<lparr>gsr_States := gsr_States x @ [pb_State st]\<rparr>) xs x
      = x\<lparr>gsr_States := gsr_States x @ map pb_State xs\<rparr>" for xs and x :: GetStatesResult
    by (rule fold_append_map [where get = gsr_States and put = "\<lambda>v x. x\<lparr>gsr_States := v\<rparr>"]) simp_all
  ultimately have 1: "consumes E ?b (map (\<lambda>s. (1, PMsg (marshalState s))) (gsr_States r)) ?r0
      (?r0\<lparr>gsr_States := map pb_State (gsr_States r)\<rparr>)" by simp
  have 2: "consumes E ?b (put_true 2 (gsr_More r)) (?r0\<lparr>gsr_States := map pb_State (gsr_States r)\<rparr>)
      ((?r0\<lparr>gsr_States := map pb_State (gsr_States r)\<rparr>)\<lparr>gsr_More := gsr_More r\<rparr>)"
    by (rule consumes_put_true [where upd = "\<lambda>v. (?r0\<lparr>gsr_States := map pb_State (gsr_States r)\<rparr>)\<lparr>gsr_More := v\<rparr>"])
      (auto simp: unmarshalGetStatesResult_field_def)
  from consumes_done [OF consumes_append [OF 1 2]] show ?thesis
    by (simp add: marshalGetStatesResult_def)
qed

lemma GetStates_rt:
  assumes ok: "pb_ok_Command s (GetStatesCmd cmd)"
  shows "unmarshalGetStatesCommand E (ep_Marshal E (marshalGetStates cmd)) = (pb_GetStates cmd, Ok ())"
proof -
  let ?b = "unmarshalGetStates_field E"
  let ?c0 = GetStatesCommand0
  let ?c1 = "?c0\<lparr>gs_SinceRev := gs_SinceRev cmd\<rparr>"
  let ?c2 = "?c1\<lparr>gs_SinceTime := pb_milli (gs_SinceTime cmd)\<rparr>"
  let ?c3 = "?c2\<lparr>gs_Labels := map (\<lambda>l. Some (gm_entries l)) (gs_Labels cmd)\<rparr>"
  let ?c4 = "?c3\<lparr>gs_LatestOnly := gs_LatestOnly cmd\<rparr>"
  let ?c5 = "?c4\<lparr>gs_Limit := gs_Limit cmd\<rparr>"
  let ?c6 = "?c5\<lparr>gs_Result := map_option (\<lambda>r. r\<lparr>gsr_States := map pb_State (gsr_States r)\<rparr>) (gs_Result cmd)\<rparr>"
  note bs = unmarshalGetStates_field_def GetStatesCommand0_def
  have 1: "consumes E ?b (put_int 1 (gs_SinceRev cmd)) ?c0 ?c1"
    by (rule consumes_put_int [where upd = "\<lambda>v. ?c0\<lparr>gs_SinceRev := v\<rparr>"]) (use ok in \<open>auto simp: bs\<close>)
  have 2: "consumes E ?b (if \<not> IsZero (gs_SinceTime cmd) then [(2, PInt64 (UnixMilli (gs_SinceTime cmd)))] else []) ?c1 ?c2"
    by (rule consumes_if, rule consumes_field) (auto simp: bs rd_defs pb_milli_def IsZero_def)
  have "consumes E ?b [(3, PMsg (marshalStringMap l 1))] x (x\<lparr>gs_Labels := gs_Labels x @ [Some (gm_entries l)]\<rparr>)"
    if "l \<in> set (gs_Labels cmd)" for l x
    by (rule consumes_field)
      (use that ok in \<open>auto simp: unmarshalGetStates_field_def rd_defs Labels_rt [simplified] list_all_iff\<close>)
  then have "consumes E ?b (map (\<lambda>labels. (3, PMsg (marshalStringMap labels 1))) (gs_Labels cmd)) ?c2
      (fold (\<lambda>l x. x\<lparr>gs_Labels := gs_Labels x @ [Some (gm_entries l)]\<rparr>) (gs_Labels cmd) ?c2)"
    by (rule consumes_map)
  moreover have "fold (\<lambda>l x. x\<lparr>gs_Labels := gs_Labels x @ [Some (gm_entries l)]\<rparr>) ls x
      = x\<lparr>gs_Labels := gs_Labels x @ map (\<lambda>l. Some (gm_entries l)) ls\<rparr>" for ls and x :: GetStatesCommand
    by (rule fold_append_map [where get = gs_Labels and put = "\<lambda>v x. x\<lparr>gs_Labels := v\<rparr>"]) simp_all
  ultimately have 3: "consumes E ?b (map (\<lambda>labels. (3, PMsg (marshalStringMap labels 1))) (gs_Labels cmd)) ?c2 ?c3"
    by (simp add: GetStatesCommand0_def)
  have 4: "consumes E ?b (put_true 4 (gs_LatestOnly cmd)) ?c3 ?c4"
    by (rule consumes_put_true [where upd = "\<lambda>v. ?c3\<lparr>gs_LatestOnly := v\<rparr>"]) (auto simp: bs)
  have 5: "consumes E ?b (put_int 5 (gs_Limit cmd)) ?c4 ?c5"
    by (rule consumes_put_int [where upd = "\<lambda>v. ?c4\<lparr>gs_Limit := v\<rparr>"]) (use ok in \<open>auto simp: bs\<close>)
  have 6: "consumes E ?b (case gs_Result cmd of None \<Rightarrow> [] | Some res \<Rightarrow> [(6, PMsg (marshalGetStatesResult res))]) ?c5 ?c6"
    by (cases "gs_Result cmd")
      (use ok in \<open>auto simp: bs consumes_Nil rd_defs GetStatesResult_rt intro!: consumes_field\<close>)
  have "consumes E ?b (marshalGetStates cmd) ?c0 ?c6"
    unfolding marshalGetStates_def
    by (rule consumes_append [OF 1] consumes_append [OF 2] consumes_append [OF 3] consumes_append [OF 4]
        consumes_append [OF 5] 6)+
  from consumes_done [OF this] show ?thesis
    by (simp add: unmarshalGetStatesCommand_def GetStatesCommand0_def pb_GetStates_def)
qed

lemma GetDelayedStatesResult_rt:
  assumes "list_all pb_ok_Delayed (gdr_States r)"
  shows "fieldLoop E (unmarshalGetDelayedStatesResult_field E) (ep_Marshal E (marshalGetDelayedStatesResult r))
      \<lparr>gdr_States = [], gdr_More = False\<rparr> = (r\<lparr>gdr_States := map pb_DelayedState (gdr_States r)\<rparr>, Ok ())"
proof -
  let ?b = "unmarshalGetDelayedStatesResult_field E" and ?r0 = "\<lparr>gdr_States = [], gdr_More = False\<rparr>"
  let ?r1 = "?r0\<lparr>gdr_States := map pb_DelayedState (gdr_States r)\<rparr>"
  have "consumes E ?b [(1, PMsg (marshalDelayedState ds))] x (x\<lparr>gdr_States := gdr_States x @ [pb_DelayedState ds]\<rparr>)"
    if "ds \<in> set (gdr_States r)" for ds x
    by (rule consumes_field)
      (use that assms in \<open>auto simp: unmarshalGetDelayedStatesResult_field_def rd_defs
        DelayedState_roundtrip pb_ok_Delayed_def list_all_iff\<close>)
  then have "consumes E ?b (map (\<lambda>s. (1, PMsg (marshalDelayedState s))) (gdr_States r)) ?r0
      (fold (\<lambda>ds x. x\<lparr>gdr_States := gdr_States x @ [pb_DelayedState ds]\<rparr>) (gdr_States r) ?r0)"
    by (rule consumes_map)
  moreover have "fold (\<lambda>ds x. x\<lparr>gdr_States := gdr_States x @ [pb_DelayedState ds]\<rparr>) xs x
      = x\<lparr>gdr_States := gdr_States x @ map pb_DelayedState xs\<rparr>" for xs and x :: GetDelayedStatesResult
    by (rule fold_append_map [where get = gdr_States and put = "\<lambda>v x. x\<lparr>gdr_States := v\<rparr>"]) simp_all
  ultimately have 1: "consumes E ?b (map (\<lambda>s. (1, PMsg (marshalDelayedState s))) (gdr_States r)) ?r0 ?r1"
    by simp
  have 2: "consumes E ?b (put_true 2 (gdr_More r)) ?r1 (?r1\<lparr>gdr_More := gdr_More r\<rparr>)"
    by (rule consumes_put_true [where upd = "\<lambda>v. ?r1\<lparr>gdr_More := v\<rparr>"])
      (auto simp: unmarshalGetDelayedStatesResult_field_def)
  from consumes_done [OF consumes_append [OF 1 2]] show ?thesis
    by (simp add: marshalGetDelayedStatesResult_def)
qed

lemma GetDelayedStates_rt:
  assumes ok: "pb_ok_Command s (GetDelayedStatesCmd cmd)"
  shows "unmarshalGetDelayedStatesCommand E (ep_Marshal E (marshalGetDelayedStates cmd)) = (pb_GetDelayedStates cmd, Ok ())"
proof -
  let ?b = "unmarshalGetDelayedStates_field E"
  let ?c0 = GetDelayedStatesCommand0
  let ?c1 = "?c0\<lparr>gt_Since := pb_time_sec (gt_Since cmd)\<rparr>"
  let ?c2 = "?c1\<lparr>gt_Until := pb_time_sec (gt_Until cmd)\<rparr>"
  let ?c3 = "?c2\<lparr>gt_Offset := gt_Offset cmd\<rparr>"
  let ?c4 = "?c3\<lparr>gt_Limit := gt_Limit cmd\<rparr>"
  let ?c5 = "?c4\<lparr>gt_Result := map_option (\<lambda>r. r\<lparr>gdr_States := map pb_DelayedState (gdr_States r)\<rparr>) (gt_Result cmd)\<rparr>"
  note bs = unmarshalGetDelayedStates_field_def GetDelayedStatesCommand0_def
  have 1: "consumes E ?b (if \<not> IsZero (gt_Since cmd) then [(1, PInt64 (Unix (gt_Since cmd)))] else []) ?c0 ?c1"
    by (rule consumes_if, rule consumes_field) (auto simp: bs rd_defs pb_time_sec_def)
  have 2: "consumes E ?b (if \<not> IsZero (gt_Until cmd) then [(2, PInt64 (Unix (gt_Until cmd)))] else []) ?c1 ?c2"
    by (rule consumes_if, rule consumes_field) (auto simp: bs rd_defs pb_time_sec_def)
  have 3: "consumes E ?b (put_int 3 (gt_Offset cmd)) ?c2 ?c3"
    by (rule consumes_put_int [where upd = "\<lambda>v. ?c2\<lparr>gt_Offset := v\<rparr>"]) (use ok in \<open>auto simp: bs\<close>)
  have 4: "consumes E ?b (put_int 4 (gt_Limit cmd)) ?c3 ?c4"
    by (rule consumes_put_int [where upd = "\<lambda>v. ?c3\<lparr>gt_Limit := v\<rparr>"]) (use ok in \<open>auto simp: bs\<close>)
  have 5: "consumes E ?b (case gt_Result cmd of None \<Rightarrow> [] | Some res \<Rightarrow> [(5, PMsg (marshalGetDelayedStatesResult res))]) ?c4 ?c5"
    by (cases "gt_Result cmd")
      (use ok in \<open>auto simp: bs consumes_Nil rd_defs GetDelayedStatesResult_rt intro!: consumes_field\<close>)
  have "consumes E ?b (marshalGetDelayedStates cmd) ?c0 ?c5"
    unfolding marshalGetDelayedStates_def
    by (rule consumes_append [OF 1] consumes_append [OF 2] consumes_append [OF 3] consumes_append [OF 4] 5)+
  from consumes_done [OF this] show ?thesis
    by (simp add: unmarshalGetDelayedStatesCommand_def GetDelayedStatesCommand0_def pb_GetDelayedStates_def)
qed

end

section \<open>The round trip of any command\<close>

lemma marshalCommand_Ok: "pb_ok_Command s cmd \<Longrightarrow> \<exists>m. marshalCommand s cmd = Ok m"
proof (induction cmd)
  case (CommitCmd cmds)
  have "\<exists>m. marshalCommands s cmds = Ok m"
    using CommitCmd by (induction cmds) (auto simp: obind_Ok_iff)
  then show ?case by auto
qed (auto simp: put_ref_Ok)

text \<open>The message of each kind of command.\<close>

lemma marshalCommand_msg:
  "pb_ok_Command s (TransitCmd x3) \<Longrightarrow> marshalCommand s (TransitCmd x3) = Ok [(3, PMsg (ref_msg 1 (tr_StateCtx x3) s @ put_str 2 (tr_To x3) @ put_map 3 (tr_Annotations x3)))]"
  "pb_ok_Command s (ParkCmd x4) \<Longrightarrow> marshalCommand s (ParkCmd x4) = Ok [(6, PMsg (ref_msg 1 (pk_StateCtx x4) s @ put_map 3 (pk_Annotations x4)))]"
  "pb_ok_Command s (ExecuteCmd x5) \<Longrightarrow> marshalCommand s (ExecuteCmd x5) = Ok [(7, PMsg (ref_msg 1 (ex_StateCtx x5) s))]"
  "pb_ok_Command s (DelayCmd x6) \<Longrightarrow> marshalCommand s (DelayCmd x6) = Ok [(8, PMsg (ref_msg 1 (dl_StateCtx x6) s @ (case dl_Result x6 of None \<Rightarrow> [] | Some res \<Rightarrow> [(2, PMsg (marshalDelayedState res))]) @ (if \<not> IsZero (dl_ExecuteAt x6) then [(3, PInt64 (Unix (dl_ExecuteAt x6)))] else []) @ put_true 4 (dl_Commit x6) @ put_str 5 (dl_To x6) @ put_map 6 (dl_Annotations x6)))]"
  "pb_ok_Command s (StackCmd x7) \<Longrightarrow> marshalCommand s (StackCmd x7) = Ok [(11, PMsg (ref_msg 1 (st_CarrierStateCtx x7) s @ ref_msg 2 (st_StackedStateCtx x7) s @ put_str 3 (st_Annotation x7)))]"
  "pb_ok_Command s (UnstackCmd x8) \<Longrightarrow> marshalCommand s (UnstackCmd x8) = Ok [(12, PMsg (ref_msg 1 (un_CarrierStateCtx x8) s @ ref_msg 2 (un_UnstackStateCtx x8) s @ put_str 3 (un_Annotation x8)))]"
  "pb_ok_Command s (StoreDataCmd x9) \<Longrightarrow> marshalCommand s (StoreDataCmd x9) = Ok [(21, PMsg (ref_msg 1 (sd_StateCtx x9) s @ put_str 2 (sd_Alias x9)))]"
  "pb_ok_Command s (GetDataCmd x10) \<Longrightarrow> marshalCommand s (GetDataCmd x10) = Ok [(22, PMsg (ref_msg 1 (gd_StateCtx x10) s @ put_str 2 (gd_Alias x10)))]"
  "pb_ok_Command s (GetStateByIDCmd x11) \<Longrightarrow> marshalCommand s (GetStateByIDCmd x11) = Ok [(17, PMsg (put_str 1 (gi_ID x11) @ put_int 2 (gi_Rev x11) @ ref_msg 3 (gi_StateCtx x11) s))]"
  "pb_ok_Command s (GetStateByLabelsCmd x12) \<Longrightarrow> marshalCommand s (GetStateByLabelsCmd x12) = Ok [(18, PMsg (put_map 1 (gl_Labels x12) @ ref_msg 2 (gl_StateCtx x12) s))]"
  "pb_ok_Command s (GetStatesCmd x13) \<Longrightarrow> marshalCommand s (GetStatesCmd x13) = Ok [(19, PMsg (marshalGetStates x13))]"
  "pb_ok_Command s (GetDelayedStatesCmd x14) \<Longrightarrow> marshalCommand s (GetDelayedStatesCmd x14) = Ok [(20, PMsg (marshalGetDelayedStates x14))]"
  by (simp_all add: put_ref_Ok put_map_len)

context easyproto_laws
begin

lemma unmarshal_skip:
  "unmarshalCommand E n (Suc fuel) (ep_Marshal E ((1, v) # fs)) = unmarshalCommand E n fuel (ep_Marshal E fs)"
proof -
  obtain fc where "ep_NextField E (ep_Marshal E ((1, v) # fs)) = Some (fc, ep_Marshal E fs)" "ep_FieldNum E fc = 1"
    using next_Cons [of 1 v fs] by auto
  then show ?thesis by (simp add: marshal_Cons unmarshalCommand_field_def Let_def)
qed

lemma unmarshal_one:
  assumes "0 < k" "k < 2 ^ 29"
    and "\<And>fc. ep_FieldNum E fc = k \<Longrightarrow> ep_reads E fc v
      \<Longrightarrow> unmarshalCommand_field E n (\<lambda>data. unmarshalCommand E n fuel data) fc = Some r"
  shows "unmarshalCommand E n (Suc fuel) (ep_Marshal E ((k, v) # fs)) = r"
proof -
  obtain fc where "ep_NextField E (ep_Marshal E ((k, v) # fs)) = Some (fc, ep_Marshal E fs)"
    "ep_FieldNum E fc = k" "ep_reads E fc v"
    using next_Cons [OF assms(1,2)] by blast
  with assms(3) [of fc] show ?thesis by (simp add: marshal_Cons)
qed

lemma marshal_tail_less: "0 < k \<Longrightarrow> k < 2 ^ 29 \<Longrightarrow> length (ep_Marshal E fs) < length (ep_Marshal E ((k, v) # fs))"
  using next_Cons [of k v fs] next_shrinks by blast

lemma marshal_sub_less:
  assumes "0 < k" "k < 2 ^ 29"
  shows "length (ep_Marshal E m) < length (ep_Marshal E ((k, PMsg m) # fs))"
  using next_Cons [OF assms, of "PMsg m" fs] message_shrinks by fastforce

lemma commit_rt:
  assumes "marshalCommands s cmds = Ok ms" "length (ep_Marshal E ms) \<le> fuel" "list_all (pb_ok_Command s) cmds"
    and "\<And>c m fuel. c \<in> set cmds \<Longrightarrow> pb_ok_Command s c \<Longrightarrow> marshalCommand s c = Ok m
      \<Longrightarrow> length (ep_Marshal E m) < fuel \<Longrightarrow> unmarshalCommand E n fuel (ep_Marshal E m) = Ok (pb_Command s c)"
  shows "consumes E (unmarshalCommit_field E (\<lambda>data. unmarshalCommand E n fuel data)) ms acc (acc @ map (pb_Command s) cmds)"
  using assms
proof (induction cmds arbitrary: ms acc)
  case (Cons c cmds)
  from Cons.prems(1) obtain m ms' where m: "marshalCommand s c = Ok m" "marshalCommands s cmds = Ok ms'"
    "ms = (1, PMsg m) # ms'" by (auto simp: obind_Ok_iff)
  let ?b = "unmarshalCommit_field E (\<lambda>data. unmarshalCommand E n fuel data)"
  have len: "length (ep_Marshal E ms') < length (ep_Marshal E ms)" "length (ep_Marshal E m) < length (ep_Marshal E ms)"
    unfolding m(3) by (rule marshal_tail_less marshal_sub_less; simp)+
  have sub: "unmarshalCommand E n fuel (ep_Marshal E m) = Ok (pb_Command s c)"
    by (rule Cons.prems(4)) (use m len Cons.prems(2,3) in auto)
  have "consumes E ?b [(1, PMsg m)] acc (acc @ [pb_Command s c])"
    by (rule consumes_field) (auto simp: unmarshalCommit_field_def rd_defs sub)
  moreover have "consumes E ?b ms' (acc @ [pb_Command s c]) ((acc @ [pb_Command s c]) @ map (pb_Command s) cmds)"
    by (rule Cons.IH [OF m(2)]) (use len Cons.prems in auto)
  ultimately have "consumes E ?b ([(1, PMsg m)] @ ms') acc ((acc @ [pb_Command s c]) @ map (pb_Command s) cmds)"
    by (rule consumes_append)
  then show ?case by (simp add: m(3))
qed (simp add: consumes_Nil)

text \<open>A command whose message is one field that the \<open>switch\<close> decodes to it.\<close>

lemma one_field_rt:
  assumes "marshalCommand s cmd = Ok [(k, PMsg b)]" "0 < k" "k < 2 ^ 29"
    and "\<And>fc sub. ep_FieldNum E fc = k \<Longrightarrow> ep_MessageData E fc = Some (ep_Marshal E b)
      \<Longrightarrow> unmarshalCommand_field E (length s) sub fc = Some (Ok c)"
    and "marshalCommand s cmd = Ok m" "length (ep_Marshal E m) < fuel"
  shows "unmarshalCommand E (length s) fuel (ep_Marshal E m) = Ok c"
proof -
  obtain f where f: "fuel = Suc f" using assms(6) by (cases fuel) auto
  have m: "m = [(k, PMsg b)]" using assms(1,5) by simp
  show ?thesis
    unfolding f m by (rule unmarshal_one) (use assms(2-4) in simp_all)
qed

lemmas switch_defs = unmarshalCommand_field_def rd_command_def Let_def

lemma command_rt:
  assumes "pb_ok_Command s cmd" "marshalCommand s cmd = Ok m" "length (ep_Marshal E m) < fuel"
  shows "unmarshalCommand E (length s) fuel (ep_Marshal E m) = Ok (pb_Command s cmd)"
  using assms
proof (induction cmd arbitrary: m fuel)
  case (CommitCmd cmds)
  then obtain ms where ms: "marshalCommands s cmds = Ok ms" "m = [(9, PMsg ms)]"
    by (auto simp: obind_Ok_iff)
  obtain f where f: "fuel = Suc f" using CommitCmd.prems(3) by (cases fuel) auto
  have "length (ep_Marshal E ms) < length (ep_Marshal E m)"
    unfolding ms(2) by (rule marshal_sub_less) auto
  then have "length (ep_Marshal E ms) \<le> f" using CommitCmd.prems(3) f by simp
  from consumes_done [OF commit_rt [OF ms(1) this, of "length s" "[]"]]
  have "fieldLoop E (unmarshalCommit_field E (\<lambda>data. unmarshalCommand E (length s) f data)) (ep_Marshal E ms) []
    = (map (pb_Command s) cmds, Ok ())"
    using CommitCmd by simp
  then show ?case
    unfolding ms(2) f by (intro unmarshal_one) (simp_all add: unmarshalCommand_field_def rd_command_def Let_def)
next
  case NilCmd
  then show ?case by (cases fuel) (auto simp: marshal_Nil)
next
  case (TransitCmd x)
  show ?case
    by (rule one_field_rt [OF marshalCommand_msg(1) [OF TransitCmd.prems(1)] _ _ _ TransitCmd.prems(2,3)])
      (simp_all add: switch_defs Transit_rt [OF TransitCmd.prems(1)] del: One_nat_def)
next
  case (ParkCmd x)
  show ?case
    by (rule one_field_rt [OF marshalCommand_msg(2) [OF ParkCmd.prems(1)] _ _ _ ParkCmd.prems(2,3)])
      (simp_all add: switch_defs Park_rt [OF ParkCmd.prems(1)] del: One_nat_def)
next
  case (ExecuteCmd x)
  show ?case
    by (rule one_field_rt [OF marshalCommand_msg(3) [OF ExecuteCmd.prems(1)] _ _ _ ExecuteCmd.prems(2,3)])
      (simp_all add: switch_defs Execute_rt [OF ExecuteCmd.prems(1)] del: One_nat_def)
next
  case (DelayCmd x)
  show ?case
    by (rule one_field_rt [OF marshalCommand_msg(4) [OF DelayCmd.prems(1)] _ _ _ DelayCmd.prems(2,3)])
      (simp_all add: switch_defs Delay_rt [OF DelayCmd.prems(1)] del: One_nat_def)
next
  case (StackCmd x)
  show ?case
    by (rule one_field_rt [OF marshalCommand_msg(5) [OF StackCmd.prems(1)] _ _ _ StackCmd.prems(2,3)])
      (simp_all add: switch_defs Stack_rt [OF StackCmd.prems(1)] del: One_nat_def)
next
  case (UnstackCmd x)
  show ?case
    by (rule one_field_rt [OF marshalCommand_msg(6) [OF UnstackCmd.prems(1)] _ _ _ UnstackCmd.prems(2,3)])
      (simp_all add: switch_defs Unstack_rt [OF UnstackCmd.prems(1)] del: One_nat_def)
next
  case (StoreDataCmd x)
  show ?case
    by (rule one_field_rt [OF marshalCommand_msg(7) [OF StoreDataCmd.prems(1)] _ _ _ StoreDataCmd.prems(2,3)])
      (simp_all add: switch_defs StoreData_rt [OF StoreDataCmd.prems(1)] del: One_nat_def)
next
  case (GetDataCmd x)
  show ?case
    by (rule one_field_rt [OF marshalCommand_msg(8) [OF GetDataCmd.prems(1)] _ _ _ GetDataCmd.prems(2,3)])
      (simp_all add: switch_defs GetData_rt [OF GetDataCmd.prems(1)] del: One_nat_def)
next
  case (GetStateByIDCmd x)
  show ?case
    by (rule one_field_rt [OF marshalCommand_msg(9) [OF GetStateByIDCmd.prems(1)] _ _ _ GetStateByIDCmd.prems(2,3)])
      (simp_all add: switch_defs GetStateByID_rt [OF GetStateByIDCmd.prems(1)] del: One_nat_def)
next
  case (GetStateByLabelsCmd x)
  show ?case
    by (rule one_field_rt [OF marshalCommand_msg(10) [OF GetStateByLabelsCmd.prems(1)] _ _ _ GetStateByLabelsCmd.prems(2,3)])
      (simp_all add: switch_defs GetStateByLabels_rt [OF GetStateByLabelsCmd.prems(1)] del: One_nat_def)
next
  case (GetStatesCmd x)
  show ?case
    by (rule one_field_rt [OF marshalCommand_msg(11) [OF GetStatesCmd.prems(1)] _ _ _ GetStatesCmd.prems(2,3)])
      (simp_all add: switch_defs GetStates_rt [OF GetStatesCmd.prems(1)] del: One_nat_def)
next
  case (GetDelayedStatesCmd x)
  show ?case
    by (rule one_field_rt [OF marshalCommand_msg(12) [OF GetDelayedStatesCmd.prems(1)] _ _ _ GetDelayedStatesCmd.prems(2,3)])
      (simp_all add: switch_defs GetDelayedStates_rt [OF GetDelayedStatesCmd.prems(1)] del: One_nat_def)
next
  case NoopCmd
  show ?case
    by (rule one_field_rt [OF marshalCommand.simps(6) _ _ _ NoopCmd.prems(2,3)]) (simp_all add: switch_defs)
qed

text \<open>More fuel than bytes is enough, and any such fuel gives the same result.\<close>

lemma rd_command_cong:
  assumes "\<And>data. ep_MessageData E fc = Some data \<Longrightarrow> un data = un' data"
  shows "rd_command E fc what un con = rd_command E fc what un' con"
  using assms by (auto simp: rd_command_def Let_def split: option.split)

lemma unmarshalCommand_fuel:
  "length src < f1 \<Longrightarrow> length src < f2 \<Longrightarrow> unmarshalCommand E n f1 src = unmarshalCommand E n f2 src"
proof (induction "length src" arbitrary: src f1 f2 rule: less_induct)
  case less
  obtain g1 g2 where g: "f1 = Suc g1" "f2 = Suc g2" using less.prems by (metis less_nat_zero_code not0_implies_Suc)
  show ?case
  proof (cases "src = [] \<or> ep_NextField E src = None")
    case True
    then show ?thesis by (auto simp: g)
  next
    case False
    then obtain fc rest where nx: "ep_NextField E src = Some (fc, rest)" by auto
    then have len: "length rest < length src" by (rule next_shrinks)
    have sub: "unmarshalCommand E n g1 d = unmarshalCommand E n g2 d" if "length d < length src" for d
      by (rule less.hyps [OF that]) (use that less.prems g in auto)
    have commit: "fieldLoop E (unmarshalCommit_field E (\<lambda>data. unmarshalCommand E n g1 data)) data []
        = fieldLoop E (unmarshalCommit_field E (\<lambda>data. unmarshalCommand E n g2 data)) data []"
      if "ep_MessageData E fc = Some data" for data
    proof (rule fieldLoop_cong)
      fix src' fc' rest' cs
      assume "length src' \<le> length data" "ep_NextField E src' = Some (fc', rest')"
      moreover have "length data < length src" using nx that by (rule message_shrinks)
      ultimately have "unmarshalCommand E n g1 d = unmarshalCommand E n g2 d" if "ep_MessageData E fc' = Some d" for d
        using message_shrinks [of src' fc' rest' d] that by (intro sub) simp
      then show "unmarshalCommit_field E (\<lambda>data. unmarshalCommand E n g1 data) fc' cs
          = unmarshalCommit_field E (\<lambda>data. unmarshalCommand E n g2 data) fc' cs"
        by (auto simp: unmarshalCommit_field_def rd_message_def split: option.split)
    qed
    have field: "unmarshalCommand_field E n (\<lambda>data. unmarshalCommand E n g1 data) fc
        = unmarshalCommand_field E n (\<lambda>data. unmarshalCommand E n g2 data) fc"
      unfolding unmarshalCommand_field_def Let_def using rd_command_cong [OF commit] by simp
    show ?thesis
      unfolding g unmarshalCommand.simps nx option.case prod.case field sub [OF len] ..
  qed
qed

lemma unmarshal_skip_ctxs:
  assumes "\<And>fuel. length (ep_Marshal E m) < fuel \<Longrightarrow> unmarshalCommand E n fuel (ep_Marshal E m) = r"
    and "length (ep_Marshal E (map (\<lambda>v. (1, v)) vs @ m)) < fuel"
  shows "unmarshalCommand E n fuel (ep_Marshal E (map (\<lambda>v. (1, v)) vs @ m)) = r"
  using assms(2)
proof (induction vs arbitrary: fuel)
  case (Cons v vs)
  obtain f where f: "fuel = Suc f" using Cons.prems by (cases fuel) auto
  have "length (ep_Marshal E (map (\<lambda>v. (1, v)) vs @ m)) < length (ep_Marshal E ((1, v) # map (\<lambda>v. (1, v)) vs @ m))"
    by (rule marshal_tail_less) auto
  with Cons f show ?case by (simp add: unmarshal_skip [simplified])
qed (use assms(1) in simp)

lemma ctxs_rt:
  assumes "list_all (\<lambda>a. \<exists>c. h a = Some c \<and> pb_ok_StateCtx c) s"
  shows "\<exists>vs. marshalCtxs h s = Ok (map (\<lambda>v. (1, v)) vs)
    \<and> consumes E (unmarshalCtxs_field E) (map (\<lambda>v. (1, v)) vs) acc (acc @ map (\<lambda>a. pb_StateCtx (the (h a))) s)"
  using assms
proof (induction s arbitrary: acc)
  case Nil
  show ?case by (rule exI [of _ "[]"]) (simp add: consumes_Nil)
next
  case (Cons a s)
  then obtain c where c: "h a = Some c" "pb_ok_StateCtx c" by auto
  from pb_ok_marshals [OF c(2)] obtain m where m: "marshalStateCtx c = Some m" ..
  from Cons.IH [of "acc @ [pb_StateCtx c]"] Cons.prems obtain vs where
    vs: "marshalCtxs h s = Ok (map (\<lambda>v. (1, v)) vs)"
      "consumes E (unmarshalCtxs_field E) (map (\<lambda>v. (1, v)) vs) (acc @ [pb_StateCtx c])
        ((acc @ [pb_StateCtx c]) @ map (\<lambda>a. pb_StateCtx (the (h a))) s)" by auto
  have "consumes E (unmarshalCtxs_field E) [(1, PMsg m)] acc (acc @ [pb_StateCtx c])"
    by (rule consumes_field)
      (auto simp: unmarshalCtxs_field_def rd_defs StateCtx_roundtrip [OF c(2) m])
  from consumes_append [OF this vs(2)] show ?case
    using c m vs(1) by (intro exI [of _ "PMsg m # vs"]) simp
qed

lemma command_fields:
  assumes "pb_ok_Command s cmd" "marshalCommand s cmd = Ok m"
  shows "consumes E (unmarshalCtxs_field E) m ctxs ctxs"
proof -
  have one: "consumes E (unmarshalCtxs_field E) [(k, v)] ctxs ctxs" if "1 < k" "k < 2 ^ 29" for k v
    by (rule consumes_field) (use that in \<open>auto simp: unmarshalCtxs_field_def\<close>)
  show ?thesis
  proof (cases cmd)
    case (CommitCmd cmds)
    with assms(2) show ?thesis by (auto simp: obind_Ok_iff intro: one)
  qed (use assms marshalCommand_msg in \<open>auto simp: consumes_Nil intro!: one\<close>)
qed

lemma Command_roundtrip:
  assumes "list_all (\<lambda>a. \<exists>c. h a = Some c \<and> pb_ok_StateCtx c) (commandStateCtxs cmd)"
    and "pb_ok_Command (commandStateCtxs cmd) cmd"
  shows "\<exists>b. MarshalCommand E h cmd dst = Ok (dst @ b)
    \<and> UnmarshalCommand E b = Ok (pb_Command (commandStateCtxs cmd) cmd,
        map (\<lambda>a. pb_StateCtx (the (h a))) (commandStateCtxs cmd))"
proof -
  let ?s = "commandStateCtxs cmd"
  from ctxs_rt [OF assms(1), of "[]"] obtain vs where vs: "marshalCtxs h ?s = Ok (map (\<lambda>v. (1, v)) vs)"
    "consumes E (unmarshalCtxs_field E) (map (\<lambda>v. (1, v)) vs) [] (map (\<lambda>a. pb_StateCtx (the (h a))) ?s)"
    by auto
  from marshalCommand_Ok [OF assms(2)] obtain m where m: "marshalCommand ?s cmd = Ok m" ..
  let ?b = "ep_Marshal E (map (\<lambda>v. (1, v)) vs @ m)"
  have 1: "fieldLoop E (unmarshalCtxs_field E) ?b [] = (map (\<lambda>a. pb_StateCtx (the (h a))) ?s, Ok ())"
    by (rule consumes_done [OF consumes_append [OF vs(2) command_fields [OF assms(2) m]]])
  have 2: "unmarshalCommand E (length ?s) (Suc (length ?b)) ?b = Ok (pb_Command ?s cmd)"
    by (rule unmarshal_skip_ctxs [OF command_rt [OF assms(2) m]]) auto
  have "MarshalCommand E h cmd dst = Ok (dst @ ?b)"
    by (simp add: MarshalCommand_def Let_def vs(1) m)
  moreover have "UnmarshalCommand E ?b = Ok (pb_Command ?s cmd, map (\<lambda>a. pb_StateCtx (the (h a))) ?s)"
    using 1 2 by (simp add: UnmarshalCommand_def del: unmarshalCommand.simps)
  ultimately show ?thesis by blast
qed

end

section \<open>Properties\<close>

text \<open>The contexts collected from a command are all those it points to.\<close>

fun pb_ok_cmd :: "Command \<Rightarrow> bool" where
  "pb_ok_cmd (TransitCmd cmd) = pb_ok_map (tr_Annotations cmd)"
| "pb_ok_cmd (ParkCmd cmd) = pb_ok_map (pk_Annotations cmd)"
| "pb_ok_cmd (DelayCmd cmd) = (pb_ok_map (dl_Annotations cmd)
    \<and> (case dl_Result cmd of None \<Rightarrow> True | Some ds \<Rightarrow> pb_ok_Delayed ds))"
| "pb_ok_cmd (CommitCmd cmds) = list_all pb_ok_cmd cmds"
| "pb_ok_cmd (GetStateByIDCmd cmd) = in_i64 (gi_Rev cmd)"
| "pb_ok_cmd (GetStateByLabelsCmd cmd) = pb_ok_map (gl_Labels cmd)"
| "pb_ok_cmd (GetStatesCmd cmd) = (in_i64 (gs_SinceRev cmd) \<and> in_i64 (gs_Limit cmd)
    \<and> list_all pb_ok_map (gs_Labels cmd)
    \<and> (case gs_Result cmd of None \<Rightarrow> True | Some r \<Rightarrow> list_all pb_ok_State (gsr_States r)))"
| "pb_ok_cmd (GetDelayedStatesCmd cmd) = (in_i64 (gt_Offset cmd) \<and> in_i64 (gt_Limit cmd)
    \<and> (case gt_Result cmd of None \<Rightarrow> True | Some r \<Rightarrow> list_all pb_ok_Delayed (gdr_States r)))"
| "pb_ok_cmd _ = True"

lemma pb_ok_Command_refs:
  "pb_ok_cmd cmd \<Longrightarrow> set (commandStateCtxs cmd) \<subseteq> set s \<Longrightarrow> int (length s) < 2 ^ 63 \<Longrightarrow> pb_ok_Command s cmd"
proof (induction cmd)
  case (CommitCmd cmds)
  then show ?case by (auto simp: list_all_iff)
qed (auto simp: ref_ok_def)

text \<open>
  C17: any command survives the trip through protobuf, a commit with all its sub commands too. The
  contexts it points to arrive as protobuf carries them, each pointer as the index of its context
  in the list, so that commands which shared a context still share it.
\<close>

theorem UnmarshalCommand_MarshalCommand:
  assumes "easyproto_laws E" "pb_ok_cmd cmd" "int (length (commandStateCtxs cmd)) < 2 ^ 63"
    and "list_all (\<lambda>a. \<exists>c. h a = Some c \<and> pb_ok_StateCtx c) (commandStateCtxs cmd)"
  shows "(\<exists>b. MarshalCommand E h cmd [] = Ok b
      \<and> UnmarshalCommand E b = Ok (pb_Command (commandStateCtxs cmd) cmd,
          map (\<lambda>a. pb_StateCtx (the (h a))) (commandStateCtxs cmd)))
    \<and> (\<forall>a \<in> set (commandStateCtxs cmd). \<exists>i < length (commandStateCtxs cmd).
          pb_ref (commandStateCtxs cmd) (Some a) = Some i \<and> commandStateCtxs cmd ! i = a)"
  using easyproto_laws.Command_roundtrip [OF assms(1,4) pb_ok_Command_refs [OF assms(2) subset_refl assms(3)], of "[]"]
  by (auto simp: pb_ref_def idx_of_less nth_idx_of)

theorem UnmarshalCommand_MarshalCommand_witness:
  "\<exists>b. MarshalCommand wire [0 \<mapsto> sample_ctx] (CommitCmd [TransitCmd (Transit (Some 0) ''f''), NoopCmd]) [] = Ok b
    \<and> UnmarshalCommand wire b = Ok (CommitCmd [TransitCmd (Transit (Some 0) ''f''), NoopCmd], [pb_StateCtx sample_ctx])"
proof -
  let ?cmd = "CommitCmd [TransitCmd (Transit (Some 0) ''f''), NoopCmd]"
  define h where "h = [0 :: nat \<mapsto> sample_ctx]"
  have s: "commandStateCtxs ?cmd = [0]" by code_simp
  have h0: "h 0 = Some sample_ctx" by (simp add: h_def)
  have "pb_ok_cmd ?cmd" "list_all (\<lambda>a. \<exists>c. h a = Some c \<and> pb_ok_StateCtx c) (commandStateCtxs ?cmd)"
    unfolding s using pb_ok_sample h0 by (simp_all add: Transit_def pb_ok_map_def)
  from UnmarshalCommand_MarshalCommand [OF pbwire.easyproto_laws_axioms this(1) _ this(2)]
  have "\<exists>b. MarshalCommand wire h ?cmd [] = Ok b \<and> UnmarshalCommand wire b = Ok (?cmd, [pb_StateCtx sample_ctx])"
    unfolding s by (simp add: h0 Transit_def pb_ref_def idx_of_def norm_map_def)
  then show ?thesis by (simp only: h_def)
qed

text \<open>
  Decoding a command ends on any bytes: fuel beyond the length of the input does not change
  the result, so the fuel of \<open>UnmarshalCommand\<close> never runs out on the nesting of commits.
\<close>

lemma UnmarshalCommand_fuel_enough:
  assumes "easyproto_laws E" "length src < fuel"
  shows "unmarshalCommand E n fuel src = unmarshalCommand E n (Suc (length src)) src"
  by (rule easyproto_laws.unmarshalCommand_fuel [OF assms]) simp

lemma UnmarshalCommand_fuel_enough_instance:
  "unmarshalCommand wire 0 100 ''garbage'' = unmarshalCommand wire 0 (Suc (length ''garbage'')) ''garbage''"
  by (rule UnmarshalCommand_fuel_enough [OF pbwire.easyproto_laws_axioms]) simp

text \<open>
  A reference to a context that was not sent makes the decoder panic instead of returning an
  error: the index is used without a bound check.
\<close>

lemma UnmarshalCommand_dangling_ref_panics:
  assumes "easyproto_laws E" "0 \<le> i" "i < 2 ^ 63"
  shows "UnmarshalCommand E (ep_Marshal E [(3, PMsg [(1, PMsg [(1, PInt64 i)])])])
    = Panic ''runtime error: index out of range''"
proof -
  let ?r = "[(1, PMsg [(1, PInt64 i)])]" and ?idx = "[(1, PInt64 i)]"
  let ?src = "ep_Marshal E [(3, PMsg ?r)]" and ?out = "Panic ''runtime error: index out of range''"
  have ref: "unmarshalStateCtxRef E (ep_Marshal E ?idx) 0 = ?out"
  proof -
    have "consumes E (unmarshalStateCtxRef_field E) ?idx (- 1) i"
      by (rule easyproto_laws.consumes_field [OF assms(1)])
        (use assms(2,3) in \<open>auto simp: unmarshalStateCtxRef_field_def rd_defs in_i64_small\<close>)
    from easyproto_laws.consumes_done [OF assms(1) this] show ?thesis
      by (simp add: unmarshalStateCtxRef_def stateCtxs_find_def)
  qed
  have tr: "unmarshalTransitCommand E 0 (ep_Marshal E ?r) = (TransitCommand0, ?out)"
    unfolding unmarshalTransitCommand_def
    by (rule easyproto_laws.stops_field [OF assms(1)])
      (simp_all add: unmarshalTransit_field_def rd_ref_def rd_message_def ref del: One_nat_def)
  have cmd: "unmarshalCommand E 0 (Suc f) ?src = ?out" for f
    by (rule easyproto_laws.unmarshal_one [OF assms(1)]) (simp_all add: unmarshalCommand_field_def rd_command_def Let_def tr del: One_nat_def)
  have "consumes E (unmarshalCtxs_field E) [(3, PMsg ?r)] [] []"
    by (rule easyproto_laws.consumes_field [OF assms(1)]) (auto simp: unmarshalCtxs_field_def)
  from easyproto_laws.consumes_done [OF assms(1) this] show ?thesis
    unfolding UnmarshalCommand_def by (simp add: cmd del: unmarshalCommand.simps One_nat_def)
qed

lemma UnmarshalCommand_dangling_ref_panics_instance:
  "UnmarshalCommand wire (ep_Marshal wire [(3, PMsg [(1, PMsg [(1, PInt64 0)])])])
    = Panic ''runtime error: index out of range''"
  by (rule UnmarshalCommand_dangling_ref_panics [OF pbwire.easyproto_laws_axioms]) simp_all

end
