(* ===== verification/SubCommands.thy ===== *)
theory SubCommands
  imports Commands
begin

text \<open>
  The methods of the commands of \<open>cmd.go\<close> and \<open>delay.go\<close> that change state contexts (\<open>Do\<close>,
  \<open>Prepare\<close>, \<open>post\<close>) and \<open>DoCommitSubCommand\<close> of \<open>driver.go\<close>, which runs one command of a commit
  against a driver.
\<close>

section \<open>Access through pointers\<close>

definition with_ctx :: "heap \<Rightarrow> ctx_ref \<Rightarrow> (StateCtx \<Rightarrow> 'a outcome \<times> StateCtx) \<Rightarrow> 'a outcome \<times> heap" where
  "with_ctx h p f =
    (case deref h p of
       None \<Rightarrow> (nil_deref, h)
     | Some c \<Rightarrow> (case f c of (r, c') \<Rightarrow> (r, store h p c')))"

text \<open>\<open>for k, v := range annotations { ts.SetAnnotation(k, v) }\<close>.\<close>

definition set_annotations :: "strmap \<Rightarrow> Transition \<Rightarrow> Transition" where
  "set_annotations annotations ts =
    fold (\<lambda>(k, v) t. Transition_SetAnnotation t k v) (gm_entries annotations) ts"

definition nextTransitionOrCurrent :: "StateCtx \<Rightarrow> string \<Rightarrow> Transition" where
  "nextTransitionOrCurrent c to =
    Transition0\<lparr>ts_To := (if to = [] then ts_To (s_Transition (sc_Current c)) else to)\<rparr>"

definition set_Transition :: "StateCtx \<Rightarrow> Transition \<Rightarrow> StateCtx" where
  "set_Transition c ts = c\<lparr>sc_Current := (sc_Current c)\<lparr>s_Transition := ts\<rparr>\<rparr>"

section \<open>Transit, Park\<close>

definition Transit_Do :: "TransitCommand \<Rightarrow> heap \<Rightarrow> unit outcome \<times> heap" where
  "Transit_Do cmd h =
    (if tr_To cmd = [] then (Err (Errorf ''flow id empty''), h)
     else with_ctx h (tr_StateCtx cmd)
       (\<lambda>c. let c1 = append_Transition c (s_Transition (sc_Current c));
                nextTs = set_annotations (tr_Annotations cmd) (nextTransitionOrCurrent c1 (tr_To cmd))
            in (Ok (), set_Transition c1 nextTs)))"

definition Park_Do :: "ParkCommand \<Rightarrow> heap \<Rightarrow> unit outcome \<times> heap" where
  "Park_Do cmd h =
    with_ctx h (pk_StateCtx cmd)
      (\<lambda>c. let c1 = append_Transition c (s_Transition (sc_Current c));
               nextTs = set_annotations (pk_Annotations cmd) Transition0
           in (Ok (), set_Transition c1 nextTs))"

section \<open>Stack, Unstack\<close>

definition Stack_Do :: "'c libs \<Rightarrow> StackCommand \<Rightarrow> heap \<Rightarrow> unit outcome \<times> heap" where
  "Stack_Do lb cmd h =
    (if st_Annotation cmd = [] then (Err (Errorf ''stack annotation name empty''), h)
     else case deref h (st_CarrierStateCtx cmd) of
       None \<Rightarrow> (nil_deref, h)
     | Some carrier \<Rightarrow>
         (if gm_str (s_Annotations (sc_Current carrier)) (st_Annotation cmd) \<noteq> [] then
            (Err (Errorf (''stack annotation '' @ CHR 0x27 # st_Annotation cmd @ CHR 0x27 # '' already set'')), h)
          else case deref h (st_StackedStateCtx cmd) of
            None \<Rightarrow> (nil_deref, h)
          | Some stacked \<Rightarrow>
              (case MarshalStateCtx (lib_easyproto lb) stacked [] of
                 Ok b \<Rightarrow> (Ok (), store h (st_CarrierStateCtx cmd)
                   (carrier\<lparr>sc_Current := SetAnnotation (sc_Current carrier) (st_Annotation cmd) (b64_encode b)\<rparr>))
               | Err err \<Rightarrow> (Err err, h)
               | Panic p \<Rightarrow> (Panic p, h))))"

text \<open>
  The two contexts of \<open>Unstack\<close> may be the same: the carrier is read again after the other one
  has been written. An error in the middle of unmarshalling leaves what was read so far. A nil
  destination panics at the first field it is given.
\<close>

definition Unstack_Do :: "'c libs \<Rightarrow> UnstackCommand \<Rightarrow> heap \<Rightarrow> unit outcome \<times> heap" where
  "Unstack_Do lb cmd h =
    (case deref h (un_CarrierStateCtx cmd) of
       None \<Rightarrow> (nil_deref, h)
     | Some carrier \<Rightarrow>
         (let b64 = gm_str (s_Annotations (sc_Current carrier)) (un_Annotation cmd);
              place = '' in annotation '' @ CHR 0x27 # un_Annotation cmd @ CHR 0x27 # '': ''
          in if b64 = [] then (Err (Errorf ''stack annotation value empty''), h)
             else case b64_decode b64 of
               None \<Rightarrow> (Err (Errorf (''cannot base64 decode state'' @ place @ ''illegal base64 data'')), h)
             | Some b \<Rightarrow>
                 (case with_ctx h (un_UnstackStateCtx cmd)
                    (\<lambda>c. case UnmarshalStateCtx (lib_easyproto lb) b c of (c', r) \<Rightarrow> (r, c')) of
                    (Ok _, h1) \<Rightarrow> with_ctx h1 (un_CarrierStateCtx cmd)
                      (\<lambda>c. (Ok (), c\<lparr>sc_Current := SetAnnotation (sc_Current c) (un_Annotation cmd) []\<rparr>))
                  | (Err err, h1) \<Rightarrow> (Err (Errorf (''cannot unmarshal stack'' @ place @ error_text err)), h1)
                  | (Panic p, h1) \<Rightarrow> (Panic p, h1))))"

section \<open>StoreData, GetData\<close>

text \<open>The data of a context are reached through a pointer; a write goes to the entry it is under.\<close>

definition StoreData_Prepare :: "'c libs \<Rightarrow> StoreDataCommand \<Rightarrow> heap \<Rightarrow> bool outcome \<times> heap" where
  "StoreData_Prepare lb cmd h =
    with_ctx h (sd_StateCtx cmd)
      (\<lambda>c. case StateCtx_Data c (sd_Alias cmd) of
         Err err \<Rightarrow> (Err err, c)
       | Panic p \<Rightarrow> (Panic p, c)
       | Ok None \<Rightarrow> (nil_deref, c)
       | Ok (Some d) \<Rightarrow>
           (if d_Rev d < 0 then (Err (Errorf ''data rev is negative''), c)
            else if \<not> isDirty (lib_Sum64 lb) d then (Ok False, referenceData c (sd_Alias cmd) (d_Rev d))
            else (Ok True, SetData c (sd_Alias cmd) (Some (checksum (lib_Sum64 lb) d)))))"

definition StoreData_post :: "StoreDataCommand \<Rightarrow> heap \<Rightarrow> unit outcome \<times> heap" where
  "StoreData_post cmd h =
    with_ctx h (sd_StateCtx cmd)
      (\<lambda>c. case MustData c (sd_Alias cmd) of
         Ok (Some d) \<Rightarrow> (Ok (), referenceData c (sd_Alias cmd) (d_Rev d))
       | Ok None \<Rightarrow> (nil_deref, c)
       | Err err \<Rightarrow> (Err err, c)
       | Panic p \<Rightarrow> (Panic p, c))"

definition GetData_Prepare :: "GetDataCommand \<Rightarrow> heap \<Rightarrow> bool outcome \<times> heap" where
  "GetData_Prepare cmd h =
    with_ctx h (gd_StateCtx cmd)
      (\<lambda>c. case dereferenceData c (gd_Alias cmd) of
         Err err \<Rightarrow> (Err err, c)
       | Panic p \<Rightarrow> (Panic p, c)
       | Ok r \<Rightarrow>
           (case StateCtx_Data c (gd_Alias cmd) of
              Err _ \<Rightarrow> (Ok True, SetData c (gd_Alias cmd) (Some (Data0\<lparr>d_Rev := r\<rparr>)))
            | Panic p \<Rightarrow> (Panic p, c)
            | Ok None \<Rightarrow> (nil_deref, c)
            | Ok (Some d) \<Rightarrow>
                (if d_Rev d = r then (Ok False, c)
                 else (Ok True, SetData c (gd_Alias cmd) (Some (d\<lparr>d_Rev := r,
                   d_Blob := map_option (\<lambda>_. []) (d_Blob d),
                   d_Annotations := map_option (\<lambda>_. []) (d_Annotations d)\<rparr>))))))"

section \<open>Delay\<close>

definition DelayUntilAnnotation :: string where
  "DelayUntilAnnotation = ''flowstate.delay.until''"

definition DelayCommitAnnotation :: string where
  "DelayCommitAnnotation = ''flowstate.delay.commit''"

definition Delayed :: "State \<Rightarrow> bool" where
  "Delayed s \<longleftrightarrow> gm_str (ts_Annotations (s_Transition s)) DelayUntilAnnotation \<noteq> []"

text \<open>\<open>time.Parse\<close> of the layout, the zero time on an error, is an argument.\<close>

definition DelayedUntil :: "(string \<Rightarrow> time) \<Rightarrow> State \<Rightarrow> time" where
  "DelayedUntil parse s = parse (gm_str (ts_Annotations (s_Transition s)) DelayUntilAnnotation)"

definition Delay_Prepare :: "'c libs \<Rightarrow> DelayCommand \<Rightarrow> heap \<Rightarrow> DelayCommand outcome" where
  "Delay_Prepare lb cmd h =
    (if dl_To cmd = [] then Err (Errorf ''flow id empty'')
     else case deref h (dl_StateCtx cmd) of
       None \<Rightarrow> nil_deref
     | Some c \<Rightarrow>
         (let st = State_CopyTo (sc_Current c) State0;
              ts1 = set_annotations (dl_Annotations cmd) (nextTransitionOrCurrent c (dl_To cmd));
              ts2 = Transition_SetAnnotation ts1 DelayUntilAnnotation (lib_RFC3339 lb (dl_ExecuteAt cmd));
              nextTs = (if \<not> dl_Commit cmd then Transition_SetAnnotation ts2 DelayCommitAnnotation ''false'' else ts2)
          in Ok (cmd\<lparr>dl_Result := Some \<lparr>ds_State = st\<lparr>s_Transition := nextTs\<rparr>, ds_Offset = 0,
               ds_ExecuteAt = dl_ExecuteAt cmd\<rparr>\<rparr>)))"

section \<open>One command of a commit\<close>

text \<open>The methods of a \<open>Driver\<close> that \<open>DoCommitSubCommand\<close> calls; \<open>'d\<close> is the driver's state.\<close>

record 'd CommitDriver =
  drv_GetStateByID :: "GetStateByIDCommand \<Rightarrow> heap \<Rightarrow> 'd \<Rightarrow> unit outcome \<times> heap \<times> 'd"
  drv_GetStateByLabels :: "GetStateByLabelsCommand \<Rightarrow> heap \<Rightarrow> 'd \<Rightarrow> unit outcome \<times> heap \<times> 'd"
  drv_GetData :: "GetDataCommand \<Rightarrow> heap \<Rightarrow> 'd \<Rightarrow> unit outcome \<times> heap \<times> 'd"
  drv_StoreData :: "StoreDataCommand \<Rightarrow> heap \<Rightarrow> 'd \<Rightarrow> unit outcome \<times> heap \<times> 'd"
  drv_Delay :: "DelayCommand \<Rightarrow> 'd \<Rightarrow> unit outcome \<times> 'd"

text \<open>The command comes back because \<open>Delay\<close> stores its result in it.\<close>

fun DoCommitSubCommand ::
  "'c libs \<Rightarrow> 'd CommitDriver \<Rightarrow> Command \<Rightarrow> heap \<Rightarrow> 'd \<Rightarrow> unit outcome \<times> Command \<times> heap \<times> 'd" where
  "DoCommitSubCommand lb D NilCmd h s = (Err (Errorf ''command <nil> not supported''), NilCmd, h, s)"
| "DoCommitSubCommand lb D NoopCmd h s = (Ok (), NoopCmd, h, s)"
| "DoCommitSubCommand lb D (TransitCmd cmd) h s =
    (case Transit_Do cmd h of (r, h') \<Rightarrow> (r, TransitCmd cmd, h', s))"
| "DoCommitSubCommand lb D (ParkCmd cmd) h s =
    (case Park_Do cmd h of (r, h') \<Rightarrow> (r, ParkCmd cmd, h', s))"
| "DoCommitSubCommand lb D (StackCmd cmd) h s =
    (case Stack_Do lb cmd h of (r, h') \<Rightarrow> (r, StackCmd cmd, h', s))"
| "DoCommitSubCommand lb D (UnstackCmd cmd) h s =
    (case Unstack_Do lb cmd h of (r, h') \<Rightarrow> (r, UnstackCmd cmd, h', s))"
| "DoCommitSubCommand lb D (StoreDataCmd cmd) h s =
    (case StoreData_Prepare lb cmd h of
       (Err err, h') \<Rightarrow> (Err err, StoreDataCmd cmd, h', s)
     | (Panic p, h') \<Rightarrow> (Panic p, StoreDataCmd cmd, h', s)
     | (Ok False, h') \<Rightarrow> (Ok (), StoreDataCmd cmd, h', s)
     | (Ok True, h') \<Rightarrow>
         (case drv_StoreData D cmd h' s of
            (Ok _, h'', s') \<Rightarrow>
              (case StoreData_post cmd h'' of (r, h3) \<Rightarrow> (r, StoreDataCmd cmd, h3, s'))
          | (r, h'', s') \<Rightarrow> (r, StoreDataCmd cmd, h'', s')))"
| "DoCommitSubCommand lb D (GetDataCmd cmd) h s =
    (case GetData_Prepare cmd h of
       (Err err, h') \<Rightarrow> (Err err, GetDataCmd cmd, h', s)
     | (Panic p, h') \<Rightarrow> (Panic p, GetDataCmd cmd, h', s)
     | (Ok False, h') \<Rightarrow> (Ok (), GetDataCmd cmd, h', s)
     | (Ok True, h') \<Rightarrow>
         (case drv_GetData D cmd h' s of (r, h'', s') \<Rightarrow> (r, GetDataCmd cmd, h'', s')))"
| "DoCommitSubCommand lb D (GetStateByIDCmd cmd) h s =
    (case GetStateByID_Prepare cmd of
       Ok _ \<Rightarrow> (case drv_GetStateByID D cmd h s of (r, h', s') \<Rightarrow> (r, GetStateByIDCmd cmd, h', s'))
     | r \<Rightarrow> (r, GetStateByIDCmd cmd, h, s))"
| "DoCommitSubCommand lb D (GetStateByLabelsCmd cmd) h s =
    (case drv_GetStateByLabels D cmd h s of (r, h', s') \<Rightarrow> (r, GetStateByLabelsCmd cmd, h', s'))"
| "DoCommitSubCommand lb D (DelayCmd cmd) h s =
    (case Delay_Prepare lb cmd h of
       Ok cmd' \<Rightarrow> (case drv_Delay D cmd' s of (r, s') \<Rightarrow> (r, DelayCmd cmd', h, s'))
     | Err err \<Rightarrow> (Err err, DelayCmd cmd, h, s)
     | Panic p \<Rightarrow> (Panic p, DelayCmd cmd, h, s))"
| "DoCommitSubCommand lb D (ExecuteCmd cmd) h s =
    (Err (Errorf ''execute command not allowed inside commit''), ExecuteCmd cmd, h, s)"
| "DoCommitSubCommand lb D (CommitCmd cmds) h s =
    (Err (Errorf ''commit command not allowed inside another commit''), CommitCmd cmds, h, s)"
| "DoCommitSubCommand lb D (GetStatesCmd cmd) h s =
    (Err (Errorf ''get states command not allowed inside commit''), GetStatesCmd cmd, h, s)"
| "DoCommitSubCommand lb D (GetDelayedStatesCmd cmd) h s =
    (Err (Errorf ''get delayed states command not allowed inside commit''), GetDelayedStatesCmd cmd, h, s)"

text \<open>\<open>CommittableStateCtx\<close>, for the commands that have it.\<close>

fun committable :: "Command \<Rightarrow> ctx_ref option" where
  "committable (TransitCmd cmd) = Some (tr_StateCtx cmd)"
| "committable (ParkCmd cmd) = Some (pk_StateCtx cmd)"
| "committable _ = None"

section \<open>The heap stays well-formed\<close>

definition wf_heap :: "heap \<Rightarrow> bool" where
  "wf_heap h \<longleftrightarrow> (\<forall>a c. h a = Some c \<longrightarrow> wf_StateCtx c)"

lemma wf_heap_deref: "wf_heap h \<Longrightarrow> deref h p = Some c \<Longrightarrow> wf_StateCtx c"
  by (auto simp: wf_heap_def deref_def split: option.splits)

lemma wf_heap_store [simp]: "wf_heap h \<Longrightarrow> wf_StateCtx c \<Longrightarrow> wf_heap (store h p c)"
  by (auto simp: wf_heap_def store_def split: option.splits)

lemma with_ctx_wf:
  assumes "wf_heap h" "\<And>c. wf_StateCtx c \<Longrightarrow> wf_StateCtx (snd (f c))"
  shows "wf_heap (snd (with_ctx h p f))"
  using assms wf_heap_deref [OF assms(1)]
  by (simp add: with_ctx_def case_prod_beta split: option.split)

lemma set_annotations_merge [simp]:
  "set_annotations m ts = ts\<lparr>ts_Annotations := gm_merge m (ts_Annotations ts)\<rparr>"
proof -
  have "fold (\<lambda>(k, v) t. Transition_SetAnnotation t k v) es ts
    = ts\<lparr>ts_Annotations := fold (\<lambda>(k, v) m. gm_set m k v) es (ts_Annotations ts)\<rparr>" for es
    by (induction es arbitrary: ts) (auto simp: Transition_SetAnnotation_def)
  then show ?thesis by (simp add: set_annotations_def gm_merge_def)
qed

lemma set_Transition_simps [simp]:
  "s_ID (sc_Current (set_Transition c ts)) = s_ID (sc_Current c)"
  "s_Rev (sc_Current (set_Transition c ts)) = s_Rev (sc_Current c)"
  "s_Transition (sc_Current (set_Transition c ts)) = ts"
  "sc_Committed (set_Transition c ts) = sc_Committed c"
  "sc_Transitions (set_Transition c ts) = sc_Transitions c"
  by (simp_all add: set_Transition_def)

lemma wf_set_Transition [simp]: "wf_StateCtx c \<Longrightarrow> wf_Transition ts \<Longrightarrow> wf_StateCtx (set_Transition c ts)"
  by (simp add: wf_StateCtx_def wf_State_def set_Transition_def)

lemma wf_next [simp]: "wf_Transition (nextTransitionOrCurrent c to)"
  by (simp add: nextTransitionOrCurrent_def wf_Transition_def)

lemma wf_next_ann [simp]: "gm_wf (ts_Annotations (nextTransitionOrCurrent c to))"
  by (simp add: nextTransitionOrCurrent_def)

lemma wf_current_Transition [simp]: "wf_StateCtx c \<Longrightarrow> wf_Transition (s_Transition (sc_Current c))"
  by (simp add: wf_StateCtx_def wf_State_def)

lemma wf_current_annotations [simp]:
  "wf_StateCtx c \<Longrightarrow> gm_wf (ts_Annotations (s_Transition (sc_Current c)))"
  by (simp add: wf_StateCtx_def wf_State_def wf_Transition_def)

lemma wf_SetAnnotation [simp]: "wf_State s \<Longrightarrow> wf_State (SetAnnotation s k v)"
  by (simp add: SetAnnotation_def wf_State_def)

lemma wf_referenceData [simp]: "wf_StateCtx c \<Longrightarrow> wf_StateCtx (referenceData c alias r)"
  by (simp add: referenceData_def wf_StateCtx_def)

lemma wf_SetData [simp]: "wf_StateCtx c \<Longrightarrow> wf_StateCtx (SetData c alias d)"
  by (simp add: SetData_def wf_StateCtx_def)

lemma Transit_Do_wf: "wf_heap h \<Longrightarrow> wf_heap (snd (Transit_Do cmd h))"
  by (auto simp: Transit_Do_def Let_def wf_Transition_def intro!: with_ctx_wf wf_set_Transition wf_append_reset(1))

lemma Park_Do_wf: "wf_heap h \<Longrightarrow> wf_heap (snd (Park_Do cmd h))"
  by (auto simp: Park_Do_def Let_def wf_Transition_def intro!: with_ctx_wf wf_set_Transition wf_append_reset(1))

lemma Stack_Do_wf: "wf_heap h \<Longrightarrow> wf_heap (snd (Stack_Do lb cmd h))"
  using wf_heap_deref [of h "st_CarrierStateCtx cmd"]
  by (auto simp: Stack_Do_def wf_StateCtx_fields wf_StateCtx_upd split: option.splits outcome.splits)

lemma Unstack_Do_wf:
  assumes "wf_heap h"
  shows "wf_heap (snd (Unstack_Do lb cmd h))"
proof (cases "deref h (un_CarrierStateCtx cmd)")
  case (Some carrier)
  show ?thesis
  proof (cases "b64_decode (gm_str (s_Annotations (sc_Current carrier)) (un_Annotation cmd))")
    case None
    with Some assms show ?thesis by (simp add: Unstack_Do_def Let_def)
  next
    case b: (Some b)
    obtain r h1 where w: "with_ctx h (un_UnstackStateCtx cmd)
        (\<lambda>c. case UnmarshalStateCtx (lib_easyproto lb) b c of (c', r) \<Rightarrow> (r, c')) = (r, h1)" by fastforce
    have "wf_heap (snd (with_ctx h (un_UnstackStateCtx cmd)
        (\<lambda>c. case UnmarshalStateCtx (lib_easyproto lb) b c of (c', r) \<Rightarrow> (r, c'))))"
      by (rule with_ctx_wf [OF assms]) (simp add: case_prod_beta UnmarshalStateCtx_wf)
    with w have h1: "wf_heap h1" by simp
    have "wf_heap (snd (with_ctx h1 (un_CarrierStateCtx cmd)
        (\<lambda>c. (Ok (), c\<lparr>sc_Current := SetAnnotation (sc_Current c) (un_Annotation cmd) []\<rparr>))))"
      by (rule with_ctx_wf [OF h1]) (simp add: wf_StateCtx_fields wf_StateCtx_upd)
    with h1 assms Some b w show ?thesis
      by (cases r) (simp_all add: Unstack_Do_def Let_def)
  qed
qed (use assms in \<open>simp add: Unstack_Do_def\<close>)

lemma StoreData_Prepare_wf: "wf_heap h \<Longrightarrow> wf_heap (snd (StoreData_Prepare lb cmd h))"
  unfolding StoreData_Prepare_def
  by (rule with_ctx_wf) (auto split: outcome.splits option.splits)

lemma StoreData_post_wf: "wf_heap h \<Longrightarrow> wf_heap (snd (StoreData_post cmd h))"
  unfolding StoreData_post_def
  by (rule with_ctx_wf) (auto split: outcome.splits option.splits)

lemma GetData_Prepare_wf: "wf_heap h \<Longrightarrow> wf_heap (snd (GetData_Prepare cmd h))"
  unfolding GetData_Prepare_def
  by (rule with_ctx_wf) (auto split: outcome.splits option.splits)

lemmas Do_wf = Transit_Do_wf Park_Do_wf Stack_Do_wf Unstack_Do_wf
  StoreData_Prepare_wf StoreData_post_wf GetData_Prepare_wf

text \<open>The result of a delay is a well-formed state, of the context's id and revision.\<close>

lemma Delay_Prepare_wf:
  assumes "Delay_Prepare lb cmd h = Ok cmd'" "wf_heap h"
  shows "\<exists>ds. dl_Result cmd' = Some ds \<and> wf_State (ds_State ds)"
  using assms
  by (auto simp: Delay_Prepare_def nil_deref_def Let_def wf_State_def Transition_SetAnnotation_def
      wf_Transition_def split: if_splits option.splits)

section \<open>The contract of a driver\<close>

text \<open>
  What a commit needs of a driver: its methods keep the driver's invariant \<open>ok\<close> and the heap
  well-formed, and none of them touches the log of states (\<open>view\<close>), which only the commit itself
  writes.
\<close>

locale commit_driver =
  fixes D :: "'d CommitDriver" and ok :: "'d \<Rightarrow> bool" and view :: "'d \<Rightarrow> 'v"
  assumes GetStateByID_keeps: "ok s \<Longrightarrow> wf_heap h \<Longrightarrow> drv_GetStateByID D gi h s = (r, h', s')
      \<Longrightarrow> ok s' \<and> view s' = view s \<and> wf_heap h'"
    and GetStateByLabels_keeps: "ok s \<Longrightarrow> wf_heap h \<Longrightarrow> drv_GetStateByLabels D gl h s = (r, h', s')
      \<Longrightarrow> ok s' \<and> view s' = view s \<and> wf_heap h'"
    and GetData_keeps: "ok s \<Longrightarrow> wf_heap h \<Longrightarrow> drv_GetData D gd h s = (r, h', s')
      \<Longrightarrow> ok s' \<and> view s' = view s \<and> wf_heap h'"
    and StoreData_keeps: "ok s \<Longrightarrow> wf_heap h \<Longrightarrow> drv_StoreData D sd h s = (r, h', s')
      \<Longrightarrow> ok s' \<and> view s' = view s \<and> wf_heap h'"
    and Delay_keeps: "ok s \<Longrightarrow> dl_Result dl = Some ds \<Longrightarrow> wf_State (ds_State ds)
      \<Longrightarrow> drv_Delay D dl s = (r, s') \<Longrightarrow> ok s' \<and> view s' = view s"
begin

lemma DoCommitSubCommand_keeps:
  assumes "ok s" "wf_heap h" "DoCommitSubCommand lb D cmd h s = (r, cmd', h', s')"
  shows "ok s' \<and> view s' = view s \<and> wf_heap h'"
proof (cases cmd)
  case (StoreDataCmd sd)
  obtain q h1 where q: "StoreData_Prepare lb sd h = (q, h1)" by fastforce
  have h1: "wf_heap h1" using StoreData_Prepare_wf [OF assms(2), of lb sd] q by simp
  obtain r2 h2 s2 where d: "drv_StoreData D sd h1 s = (r2, h2, s2)" by (metis surj_pair)
  from StoreData_keeps [OF assms(1) h1 d] StoreData_post_wf [of h2 sd] h1 assms q d StoreDataCmd
  show ?thesis by (auto split: outcome.splits prod.splits bool.splits)
next
  case (GetDataCmd gd)
  obtain q h1 where q: "GetData_Prepare gd h = (q, h1)" by fastforce
  have h1: "wf_heap h1" using GetData_Prepare_wf [OF assms(2), of gd] q by simp
  obtain r2 h2 s2 where d: "drv_GetData D gd h1 s = (r2, h2, s2)" by (metis surj_pair)
  from GetData_keeps [OF assms(1) h1 d] h1 assms q d GetDataCmd
  show ?thesis by (auto split: outcome.splits prod.splits bool.splits)
next
  case (DelayCmd dl)
  show ?thesis
  proof (cases "Delay_Prepare lb dl h")
    case (Ok dl')
    from Delay_Prepare_wf [OF this assms(2)] Delay_keeps [OF assms(1), of dl'] Ok assms DelayCmd
    show ?thesis by (auto split: prod.splits)
  qed (use assms DelayCmd in auto)
next
  case (TransitCmd c)
  with assms Transit_Do_wf [OF assms(2), of c] show ?thesis by (cases "Transit_Do c h") simp
next
  case (ParkCmd c)
  with assms Park_Do_wf [OF assms(2), of c] show ?thesis by (cases "Park_Do c h") simp
next
  case (StackCmd c)
  with assms Stack_Do_wf [OF assms(2), of lb c] show ?thesis by (cases "Stack_Do lb c h") simp
next
  case (UnstackCmd c)
  with assms Unstack_Do_wf [OF assms(2), of lb c] show ?thesis by (cases "Unstack_Do lb c h") simp
next
  case (GetStateByIDCmd c)
  obtain r2 h2 s2 where d: "drv_GetStateByID D c h s = (r2, h2, s2)" by (metis surj_pair)
  from GetStateByID_keeps [OF assms(1,2) d] assms GetStateByIDCmd d show ?thesis
    by (cases "GetStateByID_Prepare c") auto
next
  case (GetStateByLabelsCmd c)
  obtain r2 h2 s2 where d: "drv_GetStateByLabels D c h s = (r2, h2, s2)" by (metis surj_pair)
  from GetStateByLabels_keeps [OF assms(1,2) d] assms GetStateByLabelsCmd d show ?thesis by auto
qed (use assms in auto)

end

section \<open>Properties\<close>

text \<open>The instance at which the properties are exercised: the protobuf wire format, a sum of the
  length, seconds as text, and a clock that ticks once per revision; and a context of a new state.\<close>

definition wire_libs :: "(nat \<times> wire_field) libs" where
  "wire_libs = \<lparr>lib_easyproto = wire, lib_Sum64 = length, lib_RFC3339 = (\<lambda>t. FormatInt (Unix t)),
    lib_Now = (\<lambda>r. r * 10 ^ 9)\<rparr>"

definition new_ctx :: "string \<Rightarrow> StateCtx" where
  "new_ctx sid = StateCtx0\<lparr>sc_Current := State0\<lparr>s_ID := sid\<rparr>\<rparr>"

lemma wire_libs_laws: "easyproto_laws (lib_easyproto wire_libs)"
  by (simp add: wire_libs_def pbwire.easyproto_laws_axioms)

lemma wf_new_ctx [simp]: "wf_StateCtx (new_ctx sid)"
  by (simp add: new_ctx_def wf_StateCtx_def wf_State_def)

lemma wf_heap_new [simp]: "wf_heap [0 \<mapsto> new_ctx sid]" "wf_heap [0 \<mapsto> new_ctx sid, 1 \<mapsto> new_ctx sid']"
  by (auto simp: wf_heap_def)

lemma b64_encode_nonempty: "s \<noteq> [] \<Longrightarrow> b64_encode s \<noteq> []"
  by (metis b64_decode_encode b64_encode.simps(1) option.inject)

text \<open>
  C20: a context stacked into a carrier and unstacked into a fresh context arrives as protobuf
  carries it: every id, revision, label, annotation, transition and blob is there, times are cut
  to milliseconds. The carrier's annotation is cleared, so the same annotation can be used again.
\<close>

theorem Unstack_Stack:
  assumes laws: "easyproto_laws (lib_easyproto lb)"
    and carrier: "deref h (Some a) = Some k" "gm_str (s_Annotations (sc_Current k)) name = []" "name \<noteq> []"
    and stacked: "deref h p = Some c" "pb_ok_StateCtx c"
    and fresh: "deref h (Some b) = Some StateCtx0" "b \<noteq> a"
  shows "\<exists>h1 h2 k'. Stack_Do lb (Stack (Some a) p name) h = (Ok (), h1)
    \<and> Unstack_Do lb (Unstack (Some a) (Some b) name) h1 = (Ok (), h2)
    \<and> deref h2 (Some b) = Some (pb_StateCtx c)
    \<and> deref h2 (Some a) = Some k' \<and> gm_str (s_Annotations (sc_Current k')) name = []"
proof -
  from pb_ok_marshals [OF stacked(2)] obtain m where m: "marshalStateCtx c = Some m" ..
  let ?b = "ep_Marshal (lib_easyproto lb) m"
  let ?k1 = "k\<lparr>sc_Current := SetAnnotation (sc_Current k) name (b64_encode ?b)\<rparr>"
  let ?h1 = "store h (Some a) ?k1"
  have "m \<noteq> []" using m by (auto simp: marshalStateCtx_def split: option.splits)
  then have ne: "b64_encode ?b \<noteq> []"
    by (cases m) (simp_all add: easyproto_laws.marshal_Cons [OF laws] b64_encode_nonempty)
  have 1: "Stack_Do lb (Stack (Some a) p name) h = (Ok (), ?h1)"
    using carrier stacked m by (simp add: Stack_Do_def Stack_def MarshalStateCtx_def)
  have str: "gm_str (s_Annotations (sc_Current ?k1)) name = b64_encode ?b"
    by (simp add: SetAnnotation_def)
  have "UnmarshalStateCtx (lib_easyproto lb) ?b StateCtx0 = (pb_StateCtx c, Ok ())"
    by (rule easyproto_laws.StateCtx_roundtrip [OF laws stacked(2) m])
  then have 2: "Unstack_Do lb (Unstack (Some a) (Some b) name) ?h1
    = (Ok (), store (store ?h1 (Some b) (pb_StateCtx c)) (Some a)
        (?k1\<lparr>sc_Current := SetAnnotation (sc_Current ?k1) name []\<rparr>))"
    using fresh ne str by (simp add: Unstack_Do_def Unstack_def with_ctx_def deref_def store_def Let_def)
  show ?thesis
    unfolding 1 using 2 fresh(2) by (simp add: deref_def store_def SetAnnotation_def)
qed

theorem Unstack_Stack_witness:
  "\<exists>h1 h2 k'. Stack_Do wire_libs (Stack (Some 0) (Some 1) ''k'') [0 \<mapsto> new_ctx ''a'', 1 \<mapsto> new_ctx ''b'', 2 \<mapsto> StateCtx0] = (Ok (), h1)
    \<and> Unstack_Do wire_libs (Unstack (Some 0) (Some 2) ''k'') h1 = (Ok (), h2)
    \<and> deref h2 (Some 2) = Some (pb_StateCtx (new_ctx ''b''))
    \<and> deref h2 (Some 0) = Some k' \<and> gm_str (s_Annotations (sc_Current k')) ''k'' = []"
  by (rule Unstack_Stack [OF wire_libs_laws]) code_simp+

end
