(* ===== verification/Cachedriver.thy ===== *)
theory Cachedriver
  imports SubCommands
begin

text \<open>
  \<open>cachedriver.go\<close>: the driver that keeps the last committed states of another driver in a ring,
  answers reads from it when it can, refuses commits it knows to be stale, and refreshes its
  head. The methods that hold the mutex run to their end on one state. \<open>idx\<close> and \<open>size\<close> are
  natural numbers; \<open>size \<le> idx\<close> holds in every reachable state, so the differences in the
  positions are those of the code.
\<close>

section \<open>The interface of a driver\<close>

record 'd Driver = "'d CommitDriver" +
  drv_GetStates :: "GetStatesCommand \<Rightarrow> 'd \<Rightarrow> GetStatesCommand outcome \<times> 'd"
  drv_GetDelayedStates :: "GetDelayedStatesCommand \<Rightarrow> 'd \<Rightarrow> GetDelayedStatesCommand outcome \<times> 'd"
  drv_Commit :: "Command list \<Rightarrow> heap \<Rightarrow> 'd \<Rightarrow> unit outcome \<times> Command list \<times> heap \<times> 'd"

section \<open>The ring\<close>

text \<open>\<open>cd_d\<close> is the state of the wrapped driver.\<close>

record 'd cacheDriver =
  cd_d :: 'd
  cd_size :: nat
  cd_idx :: nat
  cd_minRev :: int
  cd_maxRev :: int
  cd_log :: "State list"
  cd_committed :: "State list"

definition committed_cap :: nat where
  "committed_cap = 100"

definition newCacheDriver :: "'d \<Rightarrow> nat \<Rightarrow> 'd cacheDriver" where
  "newCacheDriver s maxSize = \<lparr>cd_d = s, cd_size = 0, cd_idx = 0, cd_minRev = - 1, cd_maxRev = 0,
    cd_log = replicate maxSize State0, cd_committed = []\<rparr>"

definition NewCacheDriver :: "'d \<Rightarrow> nat \<Rightarrow> 'd cacheDriver" where
  "NewCacheDriver s maxSize = newCacheDriver s maxSize"

text \<open>The slot is written with \<open>CopyTo\<close>, over the state that it held before.\<close>

definition appendStateLocked :: "State \<Rightarrow> 'd cacheDriver \<Rightarrow> 'd cacheDriver outcome" where
  "appendStateLocked s d =
    (if s_Rev s \<le> cd_maxRev d then
       Panic ''BUG: appendStateLocked: state revision must be greater than maxRev; client responsibility to ensure this''
     else if cd_log d = [] then Panic ''runtime error: integer divide by zero''
     else let n = length (cd_log d);
              pos = cd_idx d mod n;
              log = (cd_log d)[pos := State_CopyTo s (cd_log d ! pos)];
              min = (if cd_size d = 0 then s_Rev s - 1
                     else if cd_size d \<ge> n then s_Rev (log ! ((cd_idx d + 1) mod n)) - 1
                     else cd_minRev d)
          in Ok (d\<lparr>cd_log := log, cd_maxRev := s_Rev s, cd_minRev := min, cd_idx := cd_idx d + 1,
               cd_size := (if cd_size d < n then cd_size d + 1 else cd_size d)\<rparr>))"

section \<open>Reads\<close>

text \<open>The slots from the newest to the oldest, and from the oldest to the newest.\<close>

definition newest_first :: "'d cacheDriver \<Rightarrow> State list" where
  "newest_first d = map (\<lambda>i. cd_log d ! ((cd_idx d + length (cd_log d) - 1 - i) mod length (cd_log d))) [0..<cd_size d]"

definition oldest_first :: "'d cacheDriver \<Rightarrow> State list" where
  "oldest_first d = map (\<lambda>i. cd_log d ! ((cd_idx d - cd_size d + i) mod length (cd_log d))) [0..<cd_size d]"

definition lookupFromLog :: "'d cacheDriver \<Rightarrow> GetStateByIDCommand \<Rightarrow> State option" where
  "lookupFromLog d cmd =
    (if cd_size d = 0 then None
     else if gi_Rev cmd \<noteq> 0 \<and> gi_Rev cmd \<le> cd_minRev d then None
     else if gi_Rev cmd \<noteq> 0 \<and> gi_Rev cmd > cd_maxRev d then None
     else find (\<lambda>s. gi_ID cmd = s_ID s \<and> (gi_Rev cmd = 0 \<or> gi_Rev cmd = s_Rev s)) (newest_first d))"

definition getStateByIDFromLog :: "'d cacheDriver \<Rightarrow> GetStateByIDCommand \<Rightarrow> heap \<Rightarrow> bool outcome \<times> heap" where
  "getStateByIDFromLog d cmd h =
    (case lookupFromLog d cmd of
       None \<Rightarrow> (Ok False, h)
     | Some s \<Rightarrow> with_ctx h (gi_StateCtx cmd) (\<lambda>c. (Ok True, CopyToCtx s c)))"

definition cache_labels_hit :: "State \<Rightarrow> strmap \<Rightarrow> bool" where
  "cache_labels_hit state labels =
    (if gm_len labels = 0 then True
     else if gm_len labels > gm_len (s_Labels state) then False
     else list_all (\<lambda>(k, v). gm_str (s_Labels state) k = v) (gm_entries labels))"

definition cache_matchLabels :: "State \<Rightarrow> strmap list \<Rightarrow> bool" where
  "cache_matchLabels state orLabels =
    (if orLabels = [] then True else list_ex (cache_labels_hit state) orLabels)"

fun collect :: "GetStatesCommand \<Rightarrow> State list \<Rightarrow> State list \<Rightarrow> GetStatesResult" where
  "collect cmd [] states = \<lparr>gsr_States = states, gsr_More = False\<rparr>"
| "collect cmd (s # ss) states =
    (if s_Rev s \<le> gs_SinceRev cmd then collect cmd ss states
     else if gs_Labels cmd \<noteq> [] \<and> \<not> cache_matchLabels s (gs_Labels cmd) then collect cmd ss states
     else if gs_Limit cmd > 0 \<and> int (length states) \<ge> gs_Limit cmd then
       \<lparr>gsr_States = states, gsr_More = True\<rparr>
     else collect cmd ss (states @ [State_CopyTo s State0]))"

definition getStatesFromLog :: "'d cacheDriver \<Rightarrow> GetStatesCommand \<Rightarrow> int \<times> int \<times> bool \<times> GetStatesCommand" where
  "getStatesFromLog d cmd =
    (if \<not> IsZero (gs_SinceTime cmd) then (cd_minRev d, cd_maxRev d, False, cmd)
     else if gs_LatestOnly cmd then (cd_minRev d, cd_maxRev d, False, cmd)
     else if cd_size d = 0 then (cd_minRev d, cd_maxRev d, False, cmd)
     else if gs_SinceRev cmd < cd_minRev d then (cd_minRev d, cd_maxRev d, False, cmd)
     else if gs_SinceRev cmd \<ge> cd_maxRev d then (cd_minRev d, cd_maxRev d, False, cmd)
     else (cd_minRev d, cd_maxRev d, True, cmd\<lparr>gs_Result := Some (collect cmd (oldest_first d) [])\<rparr>))"

section \<open>The parts of a commit\<close>

text \<open>\<open>copy\<close> is the context that \<open>commitRevMismatch\<close> keeps for its lookups.\<close>

fun commitRevMismatch_loop ::
  "'d cacheDriver \<Rightarrow> Command list \<Rightarrow> heap \<Rightarrow> StateCtx \<Rightarrow> string list \<Rightarrow> string list outcome" where
  "commitRevMismatch_loop d [] h copy ids = Ok ids"
| "commitRevMismatch_loop d (subCmd0 # cmds) h copy ids =
    (case committable subCmd0 of
       None \<Rightarrow> commitRevMismatch_loop d cmds h copy ids
     | Some p \<Rightarrow>
         (case deref h p of
            None \<Rightarrow> nil_deref
          | Some stateCtx \<Rightarrow>
              (let copy1 = StateCtx_CopyTo stateCtx copy
               in case lookupFromLog d (GetStateByID None (s_ID (sc_Current stateCtx)) 0) of
                    None \<Rightarrow> commitRevMismatch_loop d cmds h copy1 ids
                  | Some s \<Rightarrow>
                      (let copy2 = CopyToCtx s copy1
                       in commitRevMismatch_loop d cmds h copy2
                            (if s_Rev (sc_Current copy2) > s_Rev (sc_Current stateCtx)
                             then ErrRevMismatch_Add ids (s_ID (sc_Current stateCtx)) else ids)))))"

definition commitRevMismatch :: "'d cacheDriver \<Rightarrow> Command list \<Rightarrow> heap \<Rightarrow> unit outcome" where
  "commitRevMismatch d cmds h =
    (case commitRevMismatch_loop d cmds h StateCtx0 [] of
       Ok ids \<Rightarrow> (if ids \<noteq> [] then Err (ErrRevMismatch ids) else Ok ())
     | Err err \<Rightarrow> Err err
     | Panic p \<Rightarrow> Panic p)"

fun add_committed :: "Command list \<Rightarrow> heap \<Rightarrow> State list \<Rightarrow> State list outcome" where
  "add_committed [] h committed = Ok committed"
| "add_committed (subCmd0 # cmds) h committed =
    (case committable subCmd0 of
       None \<Rightarrow> add_committed cmds h committed
     | Some p \<Rightarrow>
         (if length committed \<ge> committed_cap then Ok committed
          else case deref h p of
            None \<Rightarrow> nil_deref
          | Some stateCtx \<Rightarrow> add_committed cmds h (committed @ [State_CopyTo (sc_Current stateCtx) State0])))"

fun flush_committed :: "State list \<Rightarrow> 'd cacheDriver \<Rightarrow> ('d cacheDriver \<times> State list) outcome" where
  "flush_committed [] d = Ok (d, [])"
| "flush_committed (s # ss) d =
    (let expRev = i64 (cd_maxRev d + 1)
     in if s_Rev s < expRev then flush_committed ss d
        else if expRev = s_Rev s then obind (appendStateLocked s d) (flush_committed ss)
        else Ok (d, s # ss))"

text \<open>\<open>sort.Slice\<close> may reorder states of one revision; they are copies of one committed state.\<close>

definition commitAppendLog :: "Command list \<Rightarrow> heap \<Rightarrow> 'd cacheDriver \<Rightarrow> 'd cacheDriver outcome" where
  "commitAppendLog cmds h d =
    obind (add_committed cmds h (cd_committed d)) (\<lambda>committed.
      obind (flush_committed (sort_key s_Rev committed) d) (\<lambda>(d', rest). Ok (d'\<lparr>cd_committed := rest\<rparr>)))"

section \<open>The refresh of the head\<close>

datatype head_wait = Again | Wait_refresh | Wait_refreshErr

text \<open>
  One round of \<open>getHead\<close>: the read of the driver, outside the mutex, and what is done with its
  result, under it. The first is built from the revision that the round saw.
\<close>

definition head_cmd :: "'d cacheDriver \<Rightarrow> int \<Rightarrow> GetStatesCommand" where
  "head_cmd d maxRev =
    (if maxRev \<le> 0 then WithLimit (WithLatestOnly (WithSinceLatest (GetStatesByLabels None))) 1
     else WithLimit (WithSinceRev (GetStatesByLabels None) maxRev) (min 100 (int (length (cd_log d)))))"

fun head_append :: "State list \<Rightarrow> 'd cacheDriver \<Rightarrow> 'd cacheDriver outcome" where
  "head_append [] d = Ok d"
| "head_append (s # ss) d =
    (if s_Rev s \<le> cd_maxRev d then head_append ss d
     else obind (appendStateLocked s d) (head_append ss))"

definition head_apply :: "int \<Rightarrow> GetStatesCommand outcome \<Rightarrow> 'd cacheDriver \<Rightarrow> (head_wait \<times> 'd cacheDriver) outcome" where
  "head_apply maxRev r d =
    (case r of
       Err _ \<Rightarrow> Ok (Wait_refreshErr, d)
     | Panic p \<Rightarrow> Panic p
     | Ok cmd \<Rightarrow> obind (GetStates_MustResult cmd) (\<lambda>res.
         if gsr_States res = [] then Ok (Wait_refresh, d)
         else if maxRev \<le> 0 then
           (if cd_maxRev d = 0 \<or> i64 (cd_maxRev d + 1) = s_Rev (hd (gsr_States res))
            then obind (appendStateLocked (hd (gsr_States res)) d) (\<lambda>d'. Ok (Again, d'))
            else Ok (Again, d))
         else obind (head_append (gsr_States res) (d\<lparr>cd_committed := []\<rparr>)) (\<lambda>d'.
           Ok (if gsr_More res then Again else Wait_refresh, d'))))"

definition getHead_round :: "'d Driver \<Rightarrow> 'd cacheDriver \<Rightarrow> (head_wait \<times> 'd cacheDriver) outcome" where
  "getHead_round D d =
    (case drv_GetStates D (head_cmd d (cd_maxRev d)) (cd_d d) of
       (r, s) \<Rightarrow> head_apply (cd_maxRev d) r (d\<lparr>cd_d := s\<rparr>))"

section \<open>The methods of a driver\<close>

definition cache_GetStateByID ::
  "'d Driver \<Rightarrow> GetStateByIDCommand \<Rightarrow> heap \<Rightarrow> 'd cacheDriver \<Rightarrow> unit outcome \<times> heap \<times> 'd cacheDriver" where
  "cache_GetStateByID D cmd h d =
    (case (if gi_Rev cmd \<noteq> 0 then getStateByIDFromLog d cmd h else (Ok False, h)) of
       (Panic p, h1) \<Rightarrow> (Panic p, h1, d)
     | (Err err, h1) \<Rightarrow> (Err err, h1, d)
     | (Ok True, h1) \<Rightarrow> (Ok (), h1, d)
     | (Ok False, h1) \<Rightarrow>
         (case drv_GetStateByID D cmd h1 (cd_d d) of (r, h2, s) \<Rightarrow> (r, h2, d\<lparr>cd_d := s\<rparr>)))"

definition cache_GetStateByLabels ::
  "'d Driver \<Rightarrow> GetStateByLabelsCommand \<Rightarrow> heap \<Rightarrow> 'd cacheDriver \<Rightarrow> unit outcome \<times> heap \<times> 'd cacheDriver" where
  "cache_GetStateByLabels D cmd h d =
    (case drv_GetStateByLabels D cmd h (cd_d d) of (r, h1, s) \<Rightarrow> (r, h1, d\<lparr>cd_d := s\<rparr>))"

definition cache_GetStates ::
  "'d Driver \<Rightarrow> GetStatesCommand \<Rightarrow> 'd cacheDriver \<Rightarrow> GetStatesCommand outcome \<times> 'd cacheDriver" where
  "cache_GetStates D cmd d =
    (case getStatesFromLog d cmd of
       (_, _, True, cmd') \<Rightarrow> (Ok cmd', d)
     | (_, _, False, cmd') \<Rightarrow> (case drv_GetStates D cmd' (cd_d d) of (r, s) \<Rightarrow> (r, d\<lparr>cd_d := s\<rparr>)))"

definition cache_GetDelayedStates ::
  "'d Driver \<Rightarrow> GetDelayedStatesCommand \<Rightarrow> 'd cacheDriver \<Rightarrow> GetDelayedStatesCommand outcome \<times> 'd cacheDriver" where
  "cache_GetDelayedStates D cmd d =
    (case drv_GetDelayedStates D cmd (cd_d d) of (r, s) \<Rightarrow> (r, d\<lparr>cd_d := s\<rparr>))"

definition cache_Delay :: "'d Driver \<Rightarrow> DelayCommand \<Rightarrow> 'd cacheDriver \<Rightarrow> unit outcome \<times> 'd cacheDriver" where
  "cache_Delay D cmd d = (case drv_Delay D cmd (cd_d d) of (r, s) \<Rightarrow> (r, d\<lparr>cd_d := s\<rparr>))"

definition cache_GetData ::
  "'d Driver \<Rightarrow> GetDataCommand \<Rightarrow> heap \<Rightarrow> 'd cacheDriver \<Rightarrow> unit outcome \<times> heap \<times> 'd cacheDriver" where
  "cache_GetData D cmd h d = (case drv_GetData D cmd h (cd_d d) of (r, h1, s) \<Rightarrow> (r, h1, d\<lparr>cd_d := s\<rparr>))"

definition cache_StoreData ::
  "'d Driver \<Rightarrow> StoreDataCommand \<Rightarrow> heap \<Rightarrow> 'd cacheDriver \<Rightarrow> unit outcome \<times> heap \<times> 'd cacheDriver" where
  "cache_StoreData D cmd h d = (case drv_StoreData D cmd h (cd_d d) of (r, h1, s) \<Rightarrow> (r, h1, d\<lparr>cd_d := s\<rparr>))"

definition cache_Commit ::
  "'d Driver \<Rightarrow> Command list \<Rightarrow> heap \<Rightarrow> 'd cacheDriver
    \<Rightarrow> unit outcome \<times> Command list \<times> heap \<times> 'd cacheDriver" where
  "cache_Commit D cmds h d =
    (case commitRevMismatch d cmds h of
       Ok _ \<Rightarrow>
         (case drv_Commit D cmds h (cd_d d) of
            (Ok _, cs, h1, s) \<Rightarrow>
              (case commitAppendLog cs h1 (d\<lparr>cd_d := s\<rparr>) of
                 Ok d' \<Rightarrow> (Ok (), cs, h1, d')
               | Err err \<Rightarrow> (Err err, cs, h1, d\<lparr>cd_d := s\<rparr>)
               | Panic p \<Rightarrow> (Panic p, cs, h1, d\<lparr>cd_d := s\<rparr>))
          | (r, cs, h1, s) \<Rightarrow> (r, cs, h1, d\<lparr>cd_d := s\<rparr>))
     | r \<Rightarrow> (r, cmds, h, d))"

definition cache_Driver :: "'d Driver \<Rightarrow> 'd cacheDriver Driver" where
  "cache_Driver D = \<lparr>drv_GetStateByID = cache_GetStateByID D, drv_GetStateByLabels = cache_GetStateByLabels D,
    drv_GetData = cache_GetData D, drv_StoreData = cache_StoreData D, drv_Delay = cache_Delay D,
    drv_GetStates = cache_GetStates D, drv_GetDelayedStates = cache_GetDelayedStates D,
    drv_Commit = cache_Commit D\<rparr>"

end
