(* ===== verification/CachedriverProps.thy ===== *)
theory CachedriverProps
  imports Cachedriver
begin

text \<open>
  The ring of the cached driver is the list of the last appended states, oldest first; the reads
  from it are the list functions one expects; a commit puts contiguous revisions into it.
\<close>

section \<open>The ring as a list\<close>

definition ring_ok :: "'d cacheDriver \<Rightarrow> bool" where
  "ring_ok d \<longleftrightarrow> cd_log d \<noteq> [] \<and> cd_size d \<le> length (cd_log d) \<and> cd_size d \<le> cd_idx d
    \<and> (cd_size d < length (cd_log d) \<longrightarrow> cd_idx d = cd_size d)"

lemma oldest_first_filling:
  "ring_ok d \<Longrightarrow> cd_size d < length (cd_log d) \<Longrightarrow> oldest_first d = take (cd_size d) (cd_log d)"
  by (auto simp: ring_ok_def oldest_first_def intro!: nth_equalityI)

lemma oldest_first_full:
  assumes "ring_ok d" "cd_size d = length (cd_log d)"
  shows "oldest_first d = rotate (cd_idx d) (cd_log d)"
proof -
  let ?n = "length (cd_log d)"
  have "?n \<le> cd_idx d" using assms by (simp add: ring_ok_def)
  then have "cd_idx d + i = cd_idx d - ?n + i + ?n" for i by simp
  then have "(cd_idx d - ?n + i) mod ?n = (cd_idx d + i) mod ?n" for i by (metis mod_add_self2)
  then show ?thesis using assms(2)
    by (auto simp: oldest_first_def nth_rotate intro!: nth_equalityI)
qed

lemma rotate_update:
  assumes "xs \<noteq> []"
  shows "rotate (Suc k) (xs[k mod length xs := x]) = tl (rotate k xs) @ [x]"
proof (rule nth_equalityI)
  let ?n = "length xs"
  show "length (rotate (Suc k) (xs[k mod ?n := x])) = length (tl (rotate k xs) @ [x])"
    using assms by simp
  fix i assume "i < length (rotate (Suc k) (xs[k mod ?n := x]))"
  then have i: "i < ?n" by simp
  have l: "rotate (Suc k) (xs[k mod ?n := x]) ! i = xs[k mod ?n := x] ! ((Suc k + i) mod ?n)"
    using i by (simp add: nth_rotate del: rotate_Suc)
  show "rotate (Suc k) (xs[k mod ?n := x]) ! i = (tl (rotate k xs) @ [x]) ! i"
  proof (cases "i = ?n - 1")
    case True
    then have "Suc (k + i) = k + ?n" using i by simp
    then have "Suc (k + i) mod ?n = k mod ?n" by (metis mod_add_self2)
    with l True assms show ?thesis by (simp add: nth_append)
  next
    case False
    with i have i': "Suc i < ?n" by simp
    have "(k + Suc i) mod ?n \<noteq> k mod ?n"
    proof
      assume "(k + Suc i) mod ?n = k mod ?n"
      then have "?n dvd k + Suc i - k" by (metis mod_eq_dvd_iff_nat le_add1)
      with i' show False by (simp add: nat_dvd_not_less)
    qed
    moreover have "(tl (rotate k xs) @ [x]) ! i = xs ! ((k + Suc i) mod ?n)"
      using i' by (auto simp: nth_append nth_tl nth_rotate add.commute)
    ultimately show ?thesis using l by simp
  qed
qed

lemma hd_rotate_nth: "xs \<noteq> [] \<Longrightarrow> hd (rotate k xs) = xs ! (k mod length xs)"
  by (simp add: hd_rotate_conv_nth)

text \<open>An append to the ring drops the oldest state of a full ring and adds a copy at the end.\<close>

definition slot :: "'d cacheDriver \<Rightarrow> State" where
  "slot d = cd_log d ! (cd_idx d mod length (cd_log d))"

lemma slot_full: "ring_ok d \<Longrightarrow> cd_size d = length (cd_log d) \<Longrightarrow> slot d = hd (oldest_first d)"
  by (simp add: oldest_first_full slot_def hd_rotate_nth ring_ok_def)

lemma appendStateLocked_ring:
  assumes "ring_ok d" "appendStateLocked s d = Ok d'"
  shows "ring_ok d'" "cd_d d' = cd_d d" "cd_committed d' = cd_committed d" "length (cd_log d') = length (cd_log d)"
    and "cd_maxRev d' = s_Rev s" "cd_maxRev d < s_Rev s"
    and "oldest_first d' = (if cd_size d < length (cd_log d) then oldest_first d else tl (oldest_first d))
      @ [State_CopyTo s (slot d)]"
proof -
  let ?n = "length (cd_log d)" and ?x = "State_CopyTo s (slot d)"
  have d': "cd_log d' = (cd_log d)[cd_idx d mod ?n := ?x]" "cd_idx d' = Suc (cd_idx d)"
    "cd_size d' = (if cd_size d < ?n then Suc (cd_size d) else cd_size d)"
    "cd_d d' = cd_d d" "cd_committed d' = cd_committed d" "cd_maxRev d' = s_Rev s" "cd_maxRev d < s_Rev s"
    using assms(2) by (auto simp: appendStateLocked_def Let_def slot_def split: if_splits)
  then show "cd_d d' = cd_d d" "cd_committed d' = cd_committed d" "length (cd_log d') = length (cd_log d)"
    "cd_maxRev d' = s_Rev s" "cd_maxRev d < s_Rev s" by simp_all
  show ok: "ring_ok d'" using assms(1) d' by (auto simp: ring_ok_def)
  show "oldest_first d' = (if cd_size d < ?n then oldest_first d else tl (oldest_first d)) @ [?x]"
  proof (cases "cd_size d < ?n")
    case True
    with assms(1) have "cd_idx d mod ?n = cd_size d" by (simp add: ring_ok_def)
    with True have "take (Suc (cd_size d)) (cd_log d') = take (cd_size d) (cd_log d) @ [?x]"
      by (simp add: d' take_Suc_conv_app_nth)
    moreover have "oldest_first d' = take (Suc (cd_size d)) (cd_log d')"
    proof (cases "Suc (cd_size d) < ?n")
      case True
      with oldest_first_filling [OF ok] show ?thesis by (simp add: d')
    next
      case False
      with \<open>cd_size d < ?n\<close> assms(1) have "cd_idx d' = ?n" by (simp add: ring_ok_def d')
      with False \<open>cd_size d < ?n\<close> oldest_first_full [OF ok] show ?thesis by (simp add: d' rotate_id del: rotate_Suc)
    qed
    ultimately show ?thesis using True oldest_first_filling [OF assms(1)] by simp
  next
    case False
    with assms(1) have full: "cd_size d = ?n" by (simp add: ring_ok_def)
    have "oldest_first d' = rotate (Suc (cd_idx d)) ((cd_log d)[cd_idx d mod ?n := ?x])"
      using oldest_first_full [OF ok] full by (simp add: d' del: rotate_Suc)
    also have "\<dots> = tl (rotate (cd_idx d) (cd_log d)) @ [?x]"
      by (rule rotate_update) (use assms(1) in \<open>simp add: ring_ok_def\<close>)
    finally show ?thesis using False full oldest_first_full [OF assms(1)] by simp
  qed
qed

lemma length_oldest_first [simp]: "length (oldest_first d) = cd_size d"
  by (simp add: oldest_first_def)

lemma newest_first_rev: "ring_ok d \<Longrightarrow> newest_first d = rev (oldest_first d)"
proof (rule nth_equalityI)
  fix i assume ok: "ring_ok d" and "i < length (newest_first d)"
  then have i: "i < cd_size d" by (simp add: newest_first_def)
  with ok have "cd_idx d + length (cd_log d) - 1 - i = cd_idx d - cd_size d + (cd_size d - Suc i) + length (cd_log d)"
    by (simp add: ring_ok_def)
  then have "(cd_idx d + length (cd_log d) - 1 - i) mod length (cd_log d)
      = (cd_idx d - cd_size d + (cd_size d - Suc i)) mod length (cd_log d)"
    by (metis mod_add_self2)
  with i show "newest_first d ! i = rev (oldest_first d) ! i"
    by (simp add: newest_first_def oldest_first_def rev_nth)
qed (simp add: newest_first_def)

section \<open>The revisions of the ring\<close>

definition cache_ok :: "'d cacheDriver \<Rightarrow> bool" where
  "cache_ok d \<longleftrightarrow> ring_ok d \<and> sorted_wrt (<) (0 # map s_Rev (oldest_first d))
    \<and> (if cd_size d = 0 then cd_minRev d = - 1 \<and> cd_maxRev d = 0
       else cd_minRev d = s_Rev (hd (oldest_first d)) - 1 \<and> cd_maxRev d = s_Rev (last (oldest_first d)))"

lemma cache_frame [simp, frame_simps]:
  "oldest_first (d\<lparr>cd_committed := x\<rparr>) = oldest_first d" "oldest_first (d\<lparr>cd_d := y\<rparr>) = oldest_first d"
  "cache_ok (d\<lparr>cd_committed := x\<rparr>) = cache_ok d" "cache_ok (d\<lparr>cd_d := y\<rparr>) = cache_ok d"
proof -
  show "oldest_first (d\<lparr>cd_committed := x\<rparr>) = oldest_first d" "oldest_first (d\<lparr>cd_d := y\<rparr>) = oldest_first d"
    by (simp_all add: oldest_first_def)
  then show "cache_ok (d\<lparr>cd_committed := x\<rparr>) = cache_ok d" "cache_ok (d\<lparr>cd_d := y\<rparr>) = cache_ok d"
    by (simp_all add: cache_ok_def ring_ok_def)
qed

lemma cache_ok_new: "0 < n \<Longrightarrow> cache_ok (newCacheDriver s n)"
  by (simp add: cache_ok_def ring_ok_def newCacheDriver_def oldest_first_def)

lemma cache_ok_max: "cache_ok d \<Longrightarrow> 0 \<le> cd_maxRev d \<and> (\<forall>s \<in> set (oldest_first d). 0 < s_Rev s \<and> s_Rev s \<le> cd_maxRev d)"
proof (cases "cd_size d = 0")
  case False
  assume ok: "cache_ok d"
  have ne: "oldest_first d \<noteq> []" using False by (metis length_0_conv length_oldest_first)
  have "sorted_wrt (\<lambda>x y. s_Rev x < s_Rev y) (oldest_first d)"
    using ok by (simp add: cache_ok_def sorted_wrt_map)
  from sorted_last [OF this]
  have "\<forall>s \<in> set (oldest_first d). s_Rev s \<le> s_Rev (last (oldest_first d))" by blast
  moreover have "\<forall>s \<in> set (oldest_first d). 0 < s_Rev s" "cd_maxRev d = s_Rev (last (oldest_first d))"
    using ok False by (auto simp: cache_ok_def)
  ultimately show ?thesis using ne by (metis last_in_set less_imp_le)
qed (auto simp: cache_ok_def oldest_first_def)

lemma append_slot_at:
  assumes "ring_ok d" "appendStateLocked s d = Ok d'"
  shows "cd_minRev d' = (if cd_size d = 0 then s_Rev s - 1
    else if cd_size d \<ge> length (cd_log d) then s_Rev (hd (oldest_first d')) - 1 else cd_minRev d)"
proof -
  let ?n = "length (cd_log d)"
  have d': "cd_log d' = (cd_log d)[cd_idx d mod ?n := State_CopyTo s (slot d)]" "cd_idx d' = Suc (cd_idx d)"
    "cd_size d' = (if cd_size d < ?n then Suc (cd_size d) else cd_size d)"
    "cd_minRev d' = (if cd_size d = 0 then s_Rev s - 1
      else if cd_size d \<ge> ?n then s_Rev (cd_log d' ! (Suc (cd_idx d) mod ?n)) - 1 else cd_minRev d)"
    using assms(2) by (auto simp: appendStateLocked_def Let_def slot_def split: if_splits)
  have "hd (oldest_first d') = cd_log d' ! (Suc (cd_idx d) mod ?n)" if "cd_size d \<ge> ?n"
    using that oldest_first_full [OF appendStateLocked_ring(1) [OF assms]] assms(1)
    by (simp add: d' ring_ok_def hd_rotate_conv_nth del: rotate_Suc)
  then show ?thesis using d'(4) by auto
qed

lemma appendStateLocked_ok:
  assumes "cache_ok d" "appendStateLocked s d = Ok d'"
  shows "cache_ok d'"
proof -
  have ring: "ring_ok d" using assms(1) by (simp add: cache_ok_def)
  note app = appendStateLocked_ring [OF ring assms(2)]
  let ?o = "if cd_size d < length (cd_log d) then oldest_first d else tl (oldest_first d)"
  have "set ?o \<subseteq> set (oldest_first d)" by (cases "oldest_first d") auto
  then have max: "0 \<le> cd_maxRev d" "\<forall>x \<in> set ?o. 0 < s_Rev x \<and> s_Rev x < s_Rev s"
    using cache_ok_max [OF assms(1)] app(6) by (blast, meson le_less_trans subsetD)
  have "sorted_wrt (<) (map s_Rev (oldest_first d))" using assms(1) by (simp add: cache_ok_def)
  then have "sorted_wrt (<) (map s_Rev ?o)" by (cases "oldest_first d") auto
  then have sorted: "sorted_wrt (<) (0 # map s_Rev (oldest_first d'))"
    using max app(6) by (auto simp: app(7) sorted_wrt_append)
  have size: "cd_size d' \<noteq> 0" using app(7) by (metis append_is_Nil_conv length_0_conv length_oldest_first not_Cons_self2)
  have "s_Rev (hd (oldest_first d')) - 1 = cd_minRev d'"
  proof (cases "cd_size d = 0")
    case True
    then have "oldest_first d = []" by (metis length_0_conv length_oldest_first)
    with True show ?thesis using append_slot_at [OF ring assms(2)] app(7) by simp
  next
    case False
    then have "oldest_first d \<noteq> []" by (metis length_0_conv length_oldest_first)
    then show ?thesis
      using False append_slot_at [OF ring assms(2)] app(7) assms(1) by (simp add: cache_ok_def)
  qed
  then show ?thesis using sorted size app(1,5,7) by (simp add: cache_ok_def)
qed

lemma appendStateLocked_total:
  "ring_ok d \<Longrightarrow> cd_maxRev d < s_Rev s \<Longrightarrow> \<exists>d'. appendStateLocked s d = Ok d'"
  by (simp add: appendStateLocked_def ring_ok_def Let_def)

section \<open>The ring as the last states of the log\<close>

text \<open>What of a state survives a copy into a used slot as it was.\<close>

definition stamp :: "State \<Rightarrow> string \<times> int \<times> time \<times> string" where
  "stamp s = (s_ID s, s_Rev s, s_CommittedAt s, ts_To (s_Transition s))"

lemma stamp_CopyTo [simp]: "stamp (State_CopyTo s to) = stamp s"
  by (simp add: stamp_def)

definition lastn :: "nat \<Rightarrow> 'a list \<Rightarrow> 'a list" where
  "lastn n xs = drop (length xs - n) xs"

lemma lastn_short [simp]: "length xs \<le> n \<Longrightarrow> lastn n xs = xs"
  by (simp add: lastn_def)

lemma lastn_lastn_append: "lastn n (lastn n xs @ ys) = lastn n (xs @ ys)"
  by (cases "length xs \<le> n") (simp_all add: lastn_def add.commute)

lemma lastn_map: "lastn n (map f xs) = map f (lastn n xs)"
  by (simp add: lastn_def drop_map)

lemma append_stamps:
  assumes "ring_ok d" "appendStateLocked s d = Ok d'"
  shows "map stamp (oldest_first d') = lastn (length (cd_log d)) (map stamp (oldest_first d) @ [stamp s])"
proof (cases "cd_size d < length (cd_log d)")
  case True
  then show ?thesis by (simp add: appendStateLocked_ring [OF assms])
next
  case False
  then have full: "cd_size d = length (cd_log d)" "0 < length (cd_log d)" using assms(1) by (simp_all add: ring_ok_def)
  then have "Suc 0 - length (cd_log d) = 0" by linarith
  then show ?thesis
    using appendStateLocked_ring(7) [OF assms] full(1) by (simp add: lastn_def map_tl tl_def [symmetric] drop_Suc)
qed

text \<open>The refresh of the head, and the appends of a commit, add what is newer than the ring.\<close>

lemma head_append_spec:
  assumes "cache_ok d" "sorted_wrt (<) (map s_Rev ss)"
  shows "\<exists>d'. head_append ss d = Ok d' \<and> cache_ok d' \<and> length (cd_log d') = length (cd_log d)
    \<and> cd_d d' = cd_d d \<and> cd_committed d' = cd_committed d
    \<and> map stamp (oldest_first d') = lastn (length (cd_log d))
        (map stamp (oldest_first d) @ map stamp (filter (\<lambda>s. cd_maxRev d < s_Rev s) ss))"
  using assms
proof (induction ss arbitrary: d)
  case Nil
  then have "cd_size d \<le> length (cd_log d)" by (simp add: cache_ok_def ring_ok_def)
  with Nil show ?case by simp
next
  case (Cons s ss)
  show ?case
  proof (cases "s_Rev s \<le> cd_maxRev d")
    case True
    with Cons show ?thesis by simp
  next
    case False
    have ring: "ring_ok d" using Cons.prems(1) by (simp add: cache_ok_def)
    obtain d1 where d1: "appendStateLocked s d = Ok d1"
      using appendStateLocked_total [OF ring, of s] False by auto
    note app = appendStateLocked_ring [OF ring d1]
    have "filter (\<lambda>x. cd_maxRev d1 < s_Rev x) ss = ss" "filter (\<lambda>x. cd_maxRev d < s_Rev x) ss = ss"
      using Cons.prems(2) False by (force simp: app(5) filter_id_conv)+
    with Cons.IH [OF appendStateLocked_ok [OF Cons.prems(1) d1]] Cons.prems(2) False d1
    show ?thesis
      by (simp add: app(2-5) append_stamps [OF ring d1] lastn_lastn_append)
  qed
qed

section \<open>Reads from the ring\<close>

definition hit :: "GetStatesCommand \<Rightarrow> State \<Rightarrow> bool" where
  "hit cmd s \<longleftrightarrow> gs_SinceRev cmd < s_Rev s \<and> (gs_Labels cmd = [] \<or> cache_matchLabels s (gs_Labels cmd))"

lemma collect_unlimited:
  "gs_Limit cmd \<le> 0 \<Longrightarrow> collect cmd ss acc =
    \<lparr>gsr_States = acc @ map (\<lambda>s. State_CopyTo s State0) (filter (hit cmd) ss), gsr_More = False\<rparr>"
  by (induction ss arbitrary: acc) (auto simp: hit_def)

lemma collect_limited:
  "int (length acc) \<le> gs_Limit cmd \<Longrightarrow> 0 < gs_Limit cmd \<Longrightarrow> collect cmd ss acc =
    \<lparr>gsr_States = take (nat (gs_Limit cmd)) (acc @ map (\<lambda>s. State_CopyTo s State0) (filter (hit cmd) ss)),
     gsr_More = (gs_Limit cmd < int (length acc + length (filter (hit cmd) ss)))\<rparr>"
proof (induction ss arbitrary: acc)
  case (Cons s ss)
  consider "\<not> hit cmd s" | "hit cmd s" "int (length acc) < gs_Limit cmd" | "hit cmd s" "gs_Limit cmd \<le> int (length acc)"
    by linarith
  then show ?case
  proof cases
    case 1
    then have "collect cmd (s # ss) acc = collect cmd ss acc" by (auto simp: hit_def)
    with 1 Cons show ?thesis by simp
  next
    case 2
    then have "collect cmd (s # ss) acc = collect cmd ss (acc @ [State_CopyTo s State0])" by (auto simp: hit_def)
    with 2 Cons.IH [of "acc @ [State_CopyTo s State0]"] Cons.prems show ?thesis by simp
  next
    case 3
    then have "collect cmd (s # ss) acc = \<lparr>gsr_States = acc, gsr_More = True\<rparr>"
      using Cons.prems by (auto simp: hit_def)
    with 3 Cons.prems show ?thesis by simp
  qed
qed simp

section \<open>What a commit puts into the ring\<close>

text \<open>Revisions that leave room for the next one.\<close>

definition rev_room :: "int \<Rightarrow> bool" where
  "rev_room r \<longleftrightarrow> 0 \<le> r \<and> r + 1 < 2 ^ 63"

lemma i64_rev_room [simp]: "rev_room r \<Longrightarrow> i64 (r + 1) = r + 1"
  by (simp add: rev_room_def in_i64_small)

lemma flush_committed_spec:
  assumes "cache_ok d" "sorted (map s_Rev ss)" "rev_room (cd_maxRev d)" "\<forall>s \<in> set ss. rev_room (s_Rev s)"
  shows "\<exists>d' new. flush_committed ss d = Ok (d', filter (\<lambda>s. cd_maxRev d' + 1 < s_Rev s) ss)
    \<and> cache_ok d' \<and> length (cd_log d') = length (cd_log d) \<and> cd_d d' = cd_d d
    \<and> set new \<subseteq> set ss \<and> cd_maxRev d' = cd_maxRev d + int (length new)
    \<and> map s_Rev new = map (\<lambda>i. cd_maxRev d + 1 + int i) [0..<length new]
    \<and> map stamp (oldest_first d') = lastn (length (cd_log d)) (map stamp (oldest_first d) @ map stamp new)"
  using assms
proof (induction ss arbitrary: d)
  case Nil
  then have "cd_size d \<le> length (cd_log d)" by (simp add: cache_ok_def ring_ok_def)
  with Nil show ?case by (intro exI [of _ d] exI [of _ "[]"]) simp
next
  case (Cons s ss)
  consider "s_Rev s < cd_maxRev d + 1" | "s_Rev s = cd_maxRev d + 1" | "cd_maxRev d + 1 < s_Rev s" by linarith
  then show ?case
  proof cases
    case 1
    from Cons.IH [OF Cons.prems(1) _ Cons.prems(3)] Cons.prems(2,4) obtain d' new where
      *: "flush_committed ss d = Ok (d', filter (\<lambda>s. cd_maxRev d' + 1 < s_Rev s) ss)" "cache_ok d'"
      "length (cd_log d') = length (cd_log d)" "cd_d d' = cd_d d" "set new \<subseteq> set ss"
      "cd_maxRev d' = cd_maxRev d + int (length new)"
      "map s_Rev new = map (\<lambda>i. cd_maxRev d + 1 + int i) [0..<length new]"
      "map stamp (oldest_first d') = lastn (length (cd_log d)) (map stamp (oldest_first d) @ map stamp new)"
      by auto
    with 1 Cons.prems(3) show ?thesis by (intro exI [of _ d'] exI [of _ new]) auto
  next
    case 2
    have ring: "ring_ok d" using Cons.prems(1) by (simp add: cache_ok_def)
    obtain d1 where d1: "appendStateLocked s d = Ok d1"
      using appendStateLocked_total [OF ring, of s] 2 by auto
    note app = appendStateLocked_ring [OF ring d1]
    from Cons.IH [OF appendStateLocked_ok [OF Cons.prems(1) d1]] Cons.prems(2,4) app(5) obtain d' new where
      *: "flush_committed ss d1 = Ok (d', filter (\<lambda>s. cd_maxRev d' + 1 < s_Rev s) ss)" "cache_ok d'"
      "length (cd_log d') = length (cd_log d1)" "cd_d d' = cd_d d1" "set new \<subseteq> set ss"
      "cd_maxRev d' = cd_maxRev d1 + int (length new)"
      "map s_Rev new = map (\<lambda>i. cd_maxRev d1 + 1 + int i) [0..<length new]"
      "map stamp (oldest_first d') = lastn (length (cd_log d1)) (map stamp (oldest_first d1) @ map stamp new)"
      by auto
    have "map (\<lambda>i. x + 1 + int i) [0..<Suc n] = (x + 1) # map (\<lambda>i. x + 2 + int i) [0..<n]" for x n
      by (simp add: upt_conv_Cons map_Suc_upt [symmetric] del: upt_Suc)
    with * app(2-5) 2 Cons.prems(3) d1 show ?thesis
      by (intro exI [of _ d'] exI [of _ "s # new"])
        (auto simp: append_stamps [OF ring d1] lastn_lastn_append)
  next
    case 3
    then have "\<forall>x \<in> set (s # ss). cd_maxRev d + 1 < s_Rev x" using Cons.prems(2) by auto
    then have "filter (\<lambda>x. cd_maxRev d + 1 < s_Rev x) (s # ss) = s # ss" by (simp add: filter_id_conv)
    moreover have "cd_size d \<le> length (cd_log d)" using Cons.prems(1) by (simp add: cache_ok_def ring_ok_def)
    ultimately show ?thesis using 3 Cons.prems(1,3) by (intro exI [of _ d] exI [of _ "[]"]) simp
  qed
qed

text \<open>The copies of the current states of the committed contexts.\<close>

definition commits :: "Command list \<Rightarrow> heap \<Rightarrow> StateCtx option list" where
  "commits cmds h = map (deref h) (List.map_filter committable cmds)"

lemma commits_simps [simp]:
  "commits [] h = []"
  "commits (c # cs) h = (case committable c of None \<Rightarrow> commits cs h | Some p \<Rightarrow> deref h p # commits cs h)"
  by (simp_all add: commits_def map_filter_simps split: option.split)

lemma add_committed_spec:
  assumes "None \<notin> set (commits cmds h)"
  shows "\<exists>new. add_committed cmds h acc = Ok (acc @ map (\<lambda>c. State_CopyTo (sc_Current c) State0) new)
    \<and> set (map Some new) \<subseteq> set (commits cmds h)
    \<and> (length acc + length (commits cmds h) \<le> committed_cap \<longrightarrow> map Some new = commits cmds h)"
  using assms
proof (induction cmds arbitrary: acc)
  case (Cons cmd cmds)
  show ?case
  proof (cases "committable cmd")
    case None
    with Cons show ?thesis by simp
  next
    case (Some p)
    with Cons.prems obtain c where c: "deref h p = Some c" by (cases "deref h p") auto
    show ?thesis
    proof (cases "length acc \<ge> committed_cap")
      case True
      with Some show ?thesis by (intro exI [of _ "[]"]) simp
    next
      case False
      from Cons.IH [of "acc @ [State_CopyTo (sc_Current c) State0]"] Cons.prems Some obtain new where
        "add_committed cmds h (acc @ [State_CopyTo (sc_Current c) State0])
          = Ok ((acc @ [State_CopyTo (sc_Current c) State0]) @ map (\<lambda>c. State_CopyTo (sc_Current c) State0) new)"
        "set (map Some new) \<subseteq> set (commits cmds h)"
        "length acc + 1 + length (commits cmds h) \<le> committed_cap \<longrightarrow> map Some new = commits cmds h"
        by auto
      with False Some c show ?thesis by (intro exI [of _ "c # new"]) auto
    qed
  qed
qed (auto intro: exI [of _ "[]"])

lemma commitAppendLog_spec:
  assumes "cache_ok d" "None \<notin> set (commits cmds h)" "rev_room (cd_maxRev d)"
    and "\<forall>s \<in> set (cd_committed d). rev_room (s_Rev s)"
    and "\<forall>c. Some c \<in> set (commits cmds h) \<longrightarrow> rev_room (s_Rev (sc_Current c))"
  shows "\<exists>d' pool new. commitAppendLog cmds h d = Ok d' \<and> cache_ok d' \<and> cd_d d' = cd_d d
    \<and> length (cd_log d') = length (cd_log d)
    \<and> set pool \<subseteq> set (cd_committed d) \<union> {State_CopyTo (sc_Current c) State0 | c. Some c \<in> set (commits cmds h)}
    \<and> set (cd_committed d) \<subseteq> set pool
    \<and> (length (cd_committed d) + length (commits cmds h) \<le> committed_cap
        \<longrightarrow> (\<forall>c. Some c \<in> set (commits cmds h) \<longrightarrow> State_CopyTo (sc_Current c) State0 \<in> set pool))
    \<and> set new \<subseteq> set pool \<and> cd_maxRev d' = cd_maxRev d + int (length new)
    \<and> map s_Rev new = map (\<lambda>i. cd_maxRev d + 1 + int i) [0..<length new]
    \<and> map stamp (oldest_first d') = lastn (length (cd_log d)) (map stamp (oldest_first d) @ map stamp new)
    \<and> set (cd_committed d') = {s \<in> set pool. cd_maxRev d' + 1 < s_Rev s}"
proof -
  let ?cp = "\<lambda>c. State_CopyTo (sc_Current c) State0"
  from add_committed_spec [OF assms(2), of "cd_committed d"] obtain cs where
    add: "add_committed cmds h (cd_committed d) = Ok (cd_committed d @ map ?cp cs)"
    and cs: "set (map Some cs) \<subseteq> set (commits cmds h)"
    and all: "length (cd_committed d) + length (commits cmds h) \<le> committed_cap \<longrightarrow> map Some cs = commits cmds h"
    by blast
  let ?pool = "cd_committed d @ map ?cp cs" and ?ss = "sort_key s_Rev (cd_committed d @ map ?cp cs)"
  have cs': "c \<in> set cs \<Longrightarrow> Some c \<in> set (commits cmds h)" for c using cs by auto
  then have "\<forall>s \<in> set ?ss. rev_room (s_Rev s)" using assms(4,5) by auto
  with flush_committed_spec [OF assms(1) _ assms(3), of ?ss] obtain d1 new where
    *: "flush_committed ?ss d = Ok (d1, filter (\<lambda>s. cd_maxRev d1 + 1 < s_Rev s) ?ss)" "cache_ok d1"
    "length (cd_log d1) = length (cd_log d)" "cd_d d1 = cd_d d" "set new \<subseteq> set ?ss"
    "cd_maxRev d1 = cd_maxRev d + int (length new)"
    "map s_Rev new = map (\<lambda>i. cd_maxRev d + 1 + int i) [0..<length new]"
    "map stamp (oldest_first d1) = lastn (length (cd_log d)) (map stamp (oldest_first d) @ map stamp new)"
    by auto
  let ?d' = "d1\<lparr>cd_committed := filter (\<lambda>s. cd_maxRev d1 + 1 < s_Rev s) ?ss\<rparr>"
  have "\<forall>c. Some c \<in> set (commits cmds h) \<longrightarrow> ?cp c \<in> set ?pool"
    if "length (cd_committed d) + length (commits cmds h) \<le> committed_cap"
  proof -
    have "map Some cs = commits cmds h" using all that by simp
    from arg_cong [OF this, of set] have "\<forall>c. Some c \<in> set (commits cmds h) \<longrightarrow> c \<in> set cs" by auto
    then show ?thesis by simp
  qed
  moreover have "set ?pool \<subseteq> set (cd_committed d) \<union> {?cp c | c. Some c \<in> set (commits cmds h)}"
    using cs' by auto
  moreover have "commitAppendLog cmds h d = Ok ?d'" by (simp add: commitAppendLog_def add *(1))
  moreover have "set (cd_committed ?d') = {s \<in> set ?pool. cd_maxRev ?d' + 1 < s_Rev s}" by auto
  moreover have "set new \<subseteq> set ?pool" using *(5) by simp
  ultimately show ?thesis
    using *(2-4,6-8) by (intro exI [of _ ?d'] exI [of _ ?pool] exI [of _ new]) simp
qed

section \<open>What a slot keeps of its state\<close>

text \<open>
  A slot carries a state when it has its stamp and all of its labels and annotations; it may have
  others, from the states that the slot held before.
\<close>

definition carries :: "State \<Rightarrow> State \<Rightarrow> bool" where
  "carries x s \<longleftrightarrow> stamp x = stamp s
    \<and> (\<forall>k v. gm_lookup (s_Labels s) k = Some v \<longrightarrow> gm_lookup (s_Labels x) k = Some v)
    \<and> (\<forall>k v. gm_lookup (s_Annotations s) k = Some v \<longrightarrow> gm_lookup (s_Annotations x) k = Some v)"

lemma carries_CopyTo: "wf_State s \<Longrightarrow> carries (State_CopyTo s to) s"
  by (auto simp: carries_def State_CopyTo_def stamp_def wf_State_def gm_lookup_merge)

lemma carries_stamps: "list_all2 carries xs ys \<Longrightarrow> map stamp xs = map stamp ys"
  by (induction rule: list_all2_induct) (simp_all add: carries_def)

lemma append_carries:
  assumes "ring_ok d" "appendStateLocked s d = Ok d'" "wf_State s" "list_all2 carries (oldest_first d) xs"
  shows "list_all2 carries (oldest_first d') (lastn (length (cd_log d)) (xs @ [s]))"
proof -
  let ?n = "length (cd_log d)"
  have len: "length xs = cd_size d" using list_all2_lengthD [OF assms(4)] by simp
  have "lastn ?n (xs @ [s]) = (if cd_size d < ?n then xs else tl xs) @ [s]"
    using assms(1) len by (cases "cd_log d") (auto simp: ring_ok_def lastn_def tl_def [symmetric] drop_Suc)
  moreover have "list_all2 carries (tl (oldest_first d)) (tl xs)" 
    using assms(4) by (cases "oldest_first d"; cases xs) auto
  ultimately show ?thesis
    using assms(4) carries_CopyTo [OF assms(3)] by (simp add: appendStateLocked_ring(7) [OF assms(1,2)] list_all2_appendI)
qed

lemma head_append_carries:
  assumes "cache_ok d" "sorted_wrt (<) (cd_maxRev d # map s_Rev ss)" "list_all wf_State ss" "head_append ss d = Ok d'"
    and "list_all2 carries (oldest_first d) xs"
  shows "list_all2 carries (oldest_first d') (lastn (length (cd_log d)) (xs @ ss))"
  using assms
proof (induction ss arbitrary: d xs)
  case Nil
  then have "length xs \<le> length (cd_log d)"
    using list_all2_lengthD [OF Nil.prems(5)] by (simp add: cache_ok_def ring_ok_def)
  with Nil show ?case by simp
next
  case (Cons s ss)
  have ring: "ring_ok d" using Cons.prems(1) by (simp add: cache_ok_def)
  obtain d1 where d1: "appendStateLocked s d = Ok d1" "head_append ss d1 = Ok d'"
    using Cons.prems(2,4) by (cases "appendStateLocked s d") auto
  note app = appendStateLocked_ring [OF ring d1(1)]
  have "list_all2 carries (oldest_first d1) (lastn (length (cd_log d)) (xs @ [s]))"
    using append_carries [OF ring d1(1) _ Cons.prems(5)] Cons.prems(3) by simp
  from Cons.IH [OF appendStateLocked_ok [OF Cons.prems(1) d1(1)] _ _ d1(2) this] Cons.prems(2,3)
  show ?case by (simp add: app(4,5) lastn_lastn_append)
qed

section \<open>The check before a commit\<close>

lemma lookup_latest:
  "ring_ok d \<Longrightarrow> lookupFromLog d (GetStateByID p sid 0) = find (\<lambda>s. sid = s_ID s) (rev (oldest_first d))"
  by (cases "cd_size d = 0") (simp_all add: lookupFromLog_def GetStateByID_def newest_first_rev oldest_first_def)

text \<open>What the ring knows to be newer than the context.\<close>

definition outdated :: "'d cacheDriver \<Rightarrow> StateCtx \<Rightarrow> bool" where
  "outdated d c \<longleftrightarrow> (\<exists>s \<in> set (oldest_first d). s_ID s = s_ID (sc_Current c) \<and> s_Rev (sc_Current c) < s_Rev s)"

lemma find_newest:
  assumes "sorted_wrt (<) (map s_Rev ss)" "find (\<lambda>s. sid = s_ID s) (rev ss) = Some s"
  shows "s \<in> set ss \<and> s_ID s = sid \<and> (\<forall>x \<in> set ss. s_ID x = sid \<longrightarrow> s_Rev x \<le> s_Rev s)"
  using assms by (induction ss rule: rev_induct) (auto simp: sorted_wrt_append split: if_splits)

lemma find_None: "find P xs = None \<longleftrightarrow> (\<forall>x \<in> set xs. \<not> P x)"
  by (auto simp: find_None_iff)

lemma commitRevMismatch_loop_spec:
  assumes "cache_ok d" "None \<notin> set (commits cmds h)"
  shows "commitRevMismatch_loop d cmds h copy ids
    = Ok (ids @ map (\<lambda>c. s_ID (sc_Current c)) (filter (outdated d) (map the (commits cmds h))))"
  using assms(2)
proof (induction cmds arbitrary: copy ids)
  case (Cons cmd cmds)
  have ring: "ring_ok d" and sorted: "sorted_wrt (<) (map s_Rev (oldest_first d))"
    using assms(1) by (simp_all add: cache_ok_def)
  show ?case
  proof (cases "committable cmd")
    case None
    with Cons show ?thesis by simp
  next
    case (Some p)
    with Cons.prems obtain c where c: "deref h p = Some c" "None \<notin> set (commits cmds h)"
      by (cases "deref h p") auto
    note IH = Cons.IH [OF c(2)]
    show ?thesis
    proof (cases "find (\<lambda>s. s_ID (sc_Current c) = s_ID s) (rev (oldest_first d))")
      case None
      then have "\<not> outdated d c" by (auto simp: outdated_def find_None)
      with None Some c IH show ?thesis by (simp add: lookup_latest [OF ring] Let_def)
    next
      case (Some s)
      from find_newest [OF sorted this] have "outdated d c \<longleftrightarrow> s_Rev (sc_Current c) < s_Rev s"
        by (force simp: outdated_def)
      with Some \<open>committable cmd = Some p\<close> c IH show ?thesis
        by (simp add: lookup_latest [OF ring] Let_def CopyToCtx_def ErrRevMismatch_Add_def)
    qed
  qed
qed simp

section \<open>Properties\<close>

text \<open>
  C27: the ring stands for the last states of the log. After the states \<open>ss\<close>, of increasing
  positive revisions, have been appended to a new cache of \<open>n\<close> slots, however often the ring
  wrapped around, nothing panicked, and the slots read from the oldest to the newest carry the last
  \<open>n\<close> of them: each slot has the id, the revision, the time of the commit and the target of its
  state, and all of its labels and annotations. It may have more labels and annotations, left by
  the states it held before. \<open>maxRev\<close> is the last revision and \<open>minRev\<close> is one less than the
  first one kept.
\<close>

theorem ring_refines_last_states:
  assumes "0 < n" "sorted_wrt (<) (0 # map s_Rev ss)" "list_all wf_State ss"
  shows "\<exists>d. head_append ss (newCacheDriver s n) = Ok d
    \<and> list_all2 (\<lambda>x st. s_ID x = s_ID st \<and> s_Rev x = s_Rev st \<and> s_CommittedAt x = s_CommittedAt st
        \<and> ts_To (s_Transition x) = ts_To (s_Transition st)
        \<and> (\<forall>k v. gm_lookup (s_Labels st) k = Some v \<longrightarrow> gm_lookup (s_Labels x) k = Some v)
        \<and> (\<forall>k v. gm_lookup (s_Annotations st) k = Some v \<longrightarrow> gm_lookup (s_Annotations x) k = Some v))
      (oldest_first d) (lastn n ss)
    \<and> cd_size d = min n (length ss)
    \<and> (ss = [] \<longrightarrow> cd_minRev d = - 1 \<and> cd_maxRev d = 0)
    \<and> (ss \<noteq> [] \<longrightarrow> cd_minRev d = s_Rev (hd (lastn n ss)) - 1 \<and> cd_maxRev d = s_Rev (last ss))"
proof -
  let ?d0 = "newCacheDriver s n"
  have d0: "length (cd_log ?d0) = n" "oldest_first ?d0 = []" "cd_maxRev ?d0 = 0"
    by (simp_all add: newCacheDriver_def oldest_first_def)
  have "filter (\<lambda>x. 0 < s_Rev x) ss = ss" using assms(2) by (simp add: filter_id_conv)
  with head_append_spec [OF cache_ok_new [OF assms(1)], of ss s] assms(2) d0 obtain d where
    d: "head_append ss ?d0 = Ok d" "cache_ok d" "map stamp (oldest_first d) = lastn n (map stamp ss)" by auto
  have "list_all2 carries (oldest_first d) (lastn n ss)"
    using head_append_carries [OF cache_ok_new [OF assms(1)] _ assms(3) d(1), of "[]"] assms(2) d0 by simp
  then have carried: "list_all2 (\<lambda>x st. s_ID x = s_ID st \<and> s_Rev x = s_Rev st \<and> s_CommittedAt x = s_CommittedAt st
        \<and> ts_To (s_Transition x) = ts_To (s_Transition st)
        \<and> (\<forall>k v. gm_lookup (s_Labels st) k = Some v \<longrightarrow> gm_lookup (s_Labels x) k = Some v)
        \<and> (\<forall>k v. gm_lookup (s_Annotations st) k = Some v \<longrightarrow> gm_lookup (s_Annotations x) k = Some v))
      (oldest_first d) (lastn n ss)"
    by (rule list_all2_mono) (simp add: carries_def stamp_def)
  from d(3) have size: "cd_size d = min n (length ss)"
    by (metis diff_diff_cancel length_drop length_map length_oldest_first lastn_def min.commute min_def nat_le_linear diff_zero diff_is_0_eq)
  have revs: "map s_Rev (oldest_first d) = lastn n (map s_Rev ss)"
    using arg_cong [OF d(3), of "map (\<lambda>x. fst (snd x))"] by (simp add: lastn_map [symmetric] comp_def stamp_def)
  have "cd_minRev d = s_Rev (hd (lastn n ss)) - 1 \<and> cd_maxRev d = s_Rev (last ss)" if "ss \<noteq> []"
  proof -
    have "length ss - n < length ss" using that assms(1) by simp
    then have ne: "lastn n ss \<noteq> []" "last (lastn n ss) = last ss" by (simp_all add: lastn_def last_drop)
    moreover from this(1) have "oldest_first d \<noteq> []" using d(3) by (metis lastn_map map_is_Nil_conv)
    ultimately have o: "oldest_first d \<noteq> []" "s_Rev (hd (oldest_first d)) = s_Rev (hd (lastn n ss))" "s_Rev (last (oldest_first d)) = s_Rev (last ss)"
      using revs by (metis, metis hd_map lastn_map, metis last_map lastn_map)
    then show ?thesis using d(2) by (auto simp: cache_ok_def oldest_first_def split: if_splits)
  qed
  moreover have "cd_minRev d = - 1 \<and> cd_maxRev d = 0" if "ss = []"
    using that d(1) by (auto simp: newCacheDriver_def)
  ultimately show ?thesis using d size carried by blast
qed

theorem ring_refines_last_states_witness:
  "\<exists>d. head_append (map (\<lambda>i. State0\<lparr>s_ID := ''a'', s_Rev := i, s_Labels := Some [(''k'', ''v'')]\<rparr>) [1, 2, 4, 7]) (newCacheDriver () 3) = Ok d
    \<and> map s_Rev (oldest_first d) = [2, 4, 7] \<and> map (\<lambda>x. gm_lookup (s_Labels x) ''k'') (oldest_first d) = [Some ''v'', Some ''v'', Some ''v'']
    \<and> cd_minRev d = 1"
proof -
  let ?ss = "map (\<lambda>i. State0\<lparr>s_ID := ''a'', s_Rev := i, s_Labels := Some [(''k'', ''v'')]\<rparr>) [1, 2, 4, 7]"
  have wf: "list_all wf_State ?ss" by code_simp
  have "lastn 3 ?ss = map (\<lambda>i. State0\<lparr>s_ID := ''a'', s_Rev := i, s_Labels := Some [(''k'', ''v'')]\<rparr>) [2, 4, 7]"
    by (simp add: lastn_def)
  with ring_refines_last_states [OF _ _ wf, of 3 "()"] show ?thesis
    by (fastforce simp: list_all2_Cons2 gm_lookup_def)
qed

text \<open>
  C28: the check before a commit refuses exactly what the ring knows to be newer: the ids of the
  error are those of the committed contexts, in order, for which the ring holds a state of the
  same id with a greater revision; when there is none the commit goes on to the driver.
\<close>

theorem commitRevMismatch_exact:
  assumes "cache_ok d" "None \<notin> set (commits cmds h)"
  shows "commitRevMismatch d cmds h =
    (let ids = map (\<lambda>c. s_ID (sc_Current c)) (filter (outdated d) (map the (commits cmds h)))
     in if ids = [] then Ok () else Err (ErrRevMismatch ids))"
  by (simp add: commitRevMismatch_def commitRevMismatch_loop_spec [OF assms] Let_def)

theorem commitRevMismatch_exact_witness:
  "\<exists>d. head_append [State0\<lparr>s_ID := ''a'', s_Rev := 3\<rparr>] (newCacheDriver () 3) = Ok d
    \<and> commitRevMismatch d [ParkCmd (Park (Some 0))] [0 \<mapsto> new_ctx ''a''] = Err (ErrRevMismatch [''a''])"
proof -
  let ?s = "State0\<lparr>s_ID := ''a'', s_Rev := 3\<rparr>"
  obtain d where d: "head_append [?s] (newCacheDriver () 3) = Ok d" "cache_ok d"
    "map stamp (oldest_first d) = [stamp ?s]"
    using head_append_spec [OF cache_ok_new, of 3 "[?s]" "()"]
    by (auto simp: newCacheDriver_def oldest_first_def)
  then obtain x where "oldest_first d = [x]" "s_ID x = ''a''" "s_Rev x = 3" by (auto simp: stamp_def)
  then have "outdated d (new_ctx ''a'')" by (simp add: outdated_def new_ctx_def)
  with d show ?thesis
    using commitRevMismatch_exact [OF d(2), of "[ParkCmd (Park (Some 0))]" "[0 \<mapsto> new_ctx ''a'']"]
    by (simp add: Park_def deref_def new_ctx_def)
qed

text \<open>One label, as a filter.\<close>

lemma cache_matchLabels_one:
  "v \<noteq> [] \<Longrightarrow> cache_matchLabels s [Some [(k, v)]] \<longleftrightarrow> gm_lookup (s_Labels s) k = Some v"
  by (cases "s_Labels s")
    (auto simp: cache_matchLabels_def cache_labels_hit_def gm_len_def gm_str_def gm_lookup_def split: option.splits)

lemma appended_slot:
  assumes "ring_ok d" "cd_size d = length (cd_log d)" "appendStateLocked s d = Ok d'"
  shows "last (oldest_first d') = State_CopyTo s (hd (oldest_first d))" "oldest_first d' \<noteq> []"
  using appendStateLocked_ring(7) [OF assms(1,3)] assms(2) slot_full [OF assms(1,2)] by auto

text \<open>
  Labels leak through the ring. When the ring is full and the state it evicts carries a label
  that the appended state does not have, the slot keeps that label: a cached read filtered by it
  returns the appended state, which does not carry it.
\<close>

lemma ring_leaks_labels:
  assumes "cache_ok d" "cd_size d = length (cd_log d)" "appendStateLocked s d = Ok d'"
    and "gm_wf (s_Labels s)" "gm_lookup (s_Labels (hd (oldest_first d))) k = Some v" "v \<noteq> []"
    and "gm_lookup (s_Labels s) k = None" "rev_room (s_Rev s)"
  defines "cmd \<equiv> WithSinceRev (GetStatesByLabels (Some [(k, v)])) (s_Rev s - 1)"
  shows "\<exists>lo hi cmd' found. getStatesFromLog d' cmd = (lo, hi, True, cmd')
    \<and> gs_Result cmd' = Some \<lparr>gsr_States = [found], gsr_More = False\<rparr>
    \<and> stamp found = stamp s \<and> \<not> cache_matchLabels s (gs_Labels cmd)"
proof -
  have ring: "ring_ok d" using assms(1) by (simp add: cache_ok_def)
  note ok' = appendStateLocked_ok [OF assms(1,3)] and last = appended_slot [OF ring assms(2,3)]
  have cmd: "gs_SinceRev cmd = s_Rev s - 1" "gs_Labels cmd = [Some [(k, v)]]" "gs_Limit cmd = 50"
    "IsZero (gs_SinceTime cmd)" "\<not> gs_LatestOnly cmd"
    by (simp_all add: cmd_def WithSinceRev_def GetStatesByLabels_def WithORLabels_def gm_len_def
        GetStatesDefaultLimit_def IsZero_def)
  let ?last = "last (oldest_first d')"
  have "gm_lookup (s_Labels ?last) k = Some v"
    using assms(4,5,7) by (simp add: last gm_lookup_merge)
  then have hit: "hit cmd ?last"
    using cache_matchLabels_one [OF assms(6)] by (simp add: hit_def cmd last)
  have bl: "oldest_first d' = butlast (oldest_first d') @ [?last]" using last(2) by simp
  have "sorted_wrt (<) (map s_Rev (butlast (oldest_first d') @ [?last]))"
    using ok' bl by (metis cache_ok_def sorted_wrt.simps(2))
  then have "filter (hit cmd) (butlast (oldest_first d')) = []"
    by (auto simp: filter_empty_conv hit_def cmd sorted_wrt_append last)
  with hit have hits: "filter (hit cmd) (oldest_first d') = [?last]" by (subst bl) simp
  have max: "cd_maxRev d' = s_Rev s" using appendStateLocked_ring(5) [OF ring assms(3)] .
  have size: "cd_size d' \<noteq> 0" using last(2) by (metis length_0_conv length_oldest_first)
  have "s_Rev (hd (oldest_first d')) \<le> s_Rev s" using cache_ok_max [OF ok'] last(2) max by simp
  then have "cd_minRev d' \<le> gs_SinceRev cmd" using ok' size cmd(1) by (simp add: cache_ok_def)
  then have "getStatesFromLog d' cmd = (cd_minRev d', cd_maxRev d', True, cmd\<lparr>gs_Result := Some (collect cmd (oldest_first d') [])\<rparr>)"
    using size cmd max by (simp add: getStatesFromLog_def)
  moreover have "collect cmd (oldest_first d') [] = \<lparr>gsr_States = [State_CopyTo ?last State0], gsr_More = False\<rparr>"
    using collect_limited [of "[]" cmd "oldest_first d'"] cmd(3) hits by simp
  moreover have "stamp (State_CopyTo ?last State0) = stamp s" by (simp add: last)
  ultimately show ?thesis
    using assms(7) cache_matchLabels_one [OF assms(6), of s k] cmd(2) by auto
qed

lemma ring_leaks_labels_instance:
  "\<exists>d' lo hi cmd' found. appendStateLocked (State0\<lparr>s_ID := ''b'', s_Rev := 2\<rparr>)
      \<lparr>cd_d = (), cd_size = 1, cd_idx = 1, cd_minRev = 0, cd_maxRev = 1,
       cd_log = [State0\<lparr>s_ID := ''a'', s_Rev := 1, s_Labels := Some [(''k'', ''v'')]\<rparr>], cd_committed = []\<rparr> = Ok d'
    \<and> getStatesFromLog d' (WithSinceRev (GetStatesByLabels (Some [(''k'', ''v'')])) 1) = (lo, hi, True, cmd')
    \<and> gs_Result cmd' = Some \<lparr>gsr_States = [found], gsr_More = False\<rparr> \<and> s_ID found = ''b''"
proof -
  let ?d = "\<lparr>cd_d = (), cd_size = 1, cd_idx = 1, cd_minRev = 0, cd_maxRev = 1,
       cd_log = [State0\<lparr>s_ID := ''a'', s_Rev := 1, s_Labels := Some [(''k'', ''v'')]\<rparr>], cd_committed = []\<rparr>"
  let ?s = "State0\<lparr>s_ID := ''b'', s_Rev := 2\<rparr>"
  have ok: "cache_ok ?d" by code_simp
  obtain d' where d': "appendStateLocked ?s ?d = Ok d'" by (simp add: appendStateLocked_def Let_def)
  have "s_Rev ?s - 1 = 1" by simp
  with ring_leaks_labels [OF ok _ d', of "''k''" "''v''"] d' show ?thesis
    by (fastforce simp: oldest_first_def gm_lookup_def rev_room_def stamp_def)
qed

end
