(* ===== verification/Memdriver.thy ===== *)
theory Memdriver
  imports SubCommands
begin

text \<open>
  \<open>memdriver/driver.go\<close>: the in-memory driver, a log of committed state contexts, a log of data
  blobs and a log of delayed states. Methods that lock a log run to their end on one state.
\<close>

section \<open>The log of states\<close>

text \<open>A listener is a buffered channel: its identity, its capacity and what it holds.\<close>

record listener =
  ch_id :: nat
  ch_cap :: nat
  ch_buf :: "int list"

record stateLog =
  sl_rev :: int
  sl_entries :: "StateCtx list"
  sl_changes :: "StateCtx list"
  sl_listeners :: "listener list"

definition entry_ID :: "StateCtx \<Rightarrow> string" where
  "entry_ID e = s_ID (sc_Committed e)"

definition entry_Rev :: "StateCtx \<Rightarrow> int" where
  "entry_Rev e = s_Rev (sc_Committed e)"

text \<open>The backward scans are forward scans of the reversed entries.\<close>

fun latest_by :: "(StateCtx \<Rightarrow> bool) \<Rightarrow> StateCtx list \<Rightarrow> StateCtx option" where
  "latest_by P [] = None"
| "latest_by P (e # es) = (if P e then Some e else latest_by P es)"

definition GetLatestByID :: "stateLog \<Rightarrow> string \<Rightarrow> StateCtx option \<times> int" where
  "GetLatestByID l sid =
    (case latest_by (\<lambda>e. entry_ID e = sid) (rev (sl_entries l)) of
       None \<Rightarrow> (None, 0)
     | Some e \<Rightarrow> (Some (StateCtx_CopyTo e StateCtx0), entry_Rev e))"

definition GetByIDAndRev :: "stateLog \<Rightarrow> string \<Rightarrow> int \<Rightarrow> StateCtx option" where
  "GetByIDAndRev l sid r =
    (case latest_by (\<lambda>e. entry_ID e = sid \<and> entry_Rev e = r) (rev (sl_entries l)) of
       None \<Rightarrow> None
     | Some e \<Rightarrow> Some (StateCtx_CopyTo e StateCtx0))"

definition labels_hit :: "State \<Rightarrow> strmap \<Rightarrow> bool" where
  "labels_hit state labels =
    (if gm_len labels = 0 then False
     else if gm_len labels > gm_len (s_Labels state) then False
     else list_all (\<lambda>(k, v). gm_str (s_Labels state) k = v) (gm_entries labels))"

definition matchLabels :: "State \<Rightarrow> strmap list \<Rightarrow> bool" where
  "matchLabels state orLabels = (if orLabels = [] then True else list_ex (labels_hit state) orLabels)"

definition GetLatestByLabels :: "stateLog \<Rightarrow> strmap list \<Rightarrow> StateCtx option \<times> int" where
  "GetLatestByLabels l orLabels =
    (case latest_by (\<lambda>e. matchLabels (sc_Committed e) orLabels) (rev (sl_entries l)) of
       None \<Rightarrow> (None, 0)
     | Some e \<Rightarrow> (Some (StateCtx_CopyTo e StateCtx0), entry_Rev e))"

text \<open>\<open>n\<close> counts what is already in the result; a negative limit is never reached.\<close>

fun Entries_loop :: "StateCtx list \<Rightarrow> int \<Rightarrow> int \<Rightarrow> int \<Rightarrow> StateCtx list \<times> int" where
  "Entries_loop [] since n limit = ([], since)"
| "Entries_loop (e # es) since n limit =
    (if entry_Rev e \<le> since then Entries_loop es since n limit
     else let to = StateCtx_CopyTo e StateCtx0; since' = entry_Rev to
          in if n + 1 = limit then ([to], since')
             else case Entries_loop es since' (n + 1) limit of (rest, since'') \<Rightarrow> (to # rest, since''))"

definition Entries :: "stateLog \<Rightarrow> int \<Rightarrow> int \<Rightarrow> StateCtx list \<times> int" where
  "Entries l since limit =
    (if limit = 0 then ([], since) else Entries_loop (sl_entries l) since 0 limit)"

text \<open>
  \<open>Append\<close> copies the context over a copy of the latest entry of its id, commits its current
  state under the next revision, and copies the committed state back into the context.
\<close>

definition committedT :: "'c libs \<Rightarrow> stateLog \<Rightarrow> StateCtx \<Rightarrow> StateCtx" where
  "committedT lb l stateCtx =
    (let t0 = (case fst (GetLatestByID l (s_ID (sc_Current stateCtx))) of
           None \<Rightarrow> StateCtx0 | Some e \<Rightarrow> e);
         t1 = StateCtx_CopyTo stateCtx t0;
         rv = i64 (sl_rev l + 1);
         t2 = t1\<lparr>sc_Current := (sc_Current t1)\<lparr>s_CommittedAt := time_UnixMilli (UnixMilli (lib_Now lb rv))\<rparr>\<rparr>;
         t3 = t2\<lparr>sc_Committed := State_CopyTo (sc_Current t2) (sc_Committed t2)\<rparr>;
         t4 = reset_Transitions t3
     in t4\<lparr>sc_Committed := (sc_Committed t4)\<lparr>s_Rev := rv\<rparr>,
           sc_Current := (sc_Current t4)\<lparr>s_Rev := rv\<rparr>\<rparr>)"

definition Append :: "'c libs \<Rightarrow> stateLog \<Rightarrow> StateCtx \<Rightarrow> stateLog \<times> StateCtx" where
  "Append lb l stateCtx =
    (let e = committedT lb l stateCtx;
         c1 = stateCtx\<lparr>sc_Current := State_CopyTo (sc_Committed e) (sc_Current stateCtx)\<rparr>;
         c2 = c1\<lparr>sc_Committed := State_CopyTo (sc_Committed e) (sc_Committed c1)\<rparr>
     in (l\<lparr>sl_rev := i64 (sl_rev l + 1), sl_changes := sl_changes l @ [e]\<rparr>, reset_Transitions c2))"

text \<open>
  The \<open>select\<close> on a listener: send when there is room, or receive and send. When both are ready
  Go picks one; \<open>pick\<close> is that choice.
\<close>

definition notify :: "(nat \<Rightarrow> bool) \<Rightarrow> int \<Rightarrow> listener \<Rightarrow> listener" where
  "notify pick r ch =
    (if length (ch_buf ch) < ch_cap ch \<and> (ch_buf ch = [] \<or> pick (ch_id ch))
     then ch\<lparr>ch_buf := ch_buf ch @ [r]\<rparr>
     else ch\<lparr>ch_buf := tl (ch_buf ch) @ [r]\<rparr>)"

text \<open>
  \<open>slices.CompactFunc\<close> clears the tail it frees and its result is not used: as soon as two
  neighbours have the same id the slice ends with nil pointers, and \<open>slices.SortFunc\<close>, which
  compares every element, panics.
\<close>

definition stateLog_Commit :: "(nat \<Rightarrow> bool) \<Rightarrow> stateLog \<Rightarrow> unit outcome \<times> stateLog" where
  "stateLog_Commit pick l =
    (if length (remdups_adj (map entry_ID (sl_changes l))) < length (sl_changes l) then (nil_deref, l)
     else let changes = sort_key entry_Rev (sl_changes l);
              rv = (if changes = [] then 0 else s_Rev (sc_Current (last changes)))
          in (Ok (), l\<lparr>sl_entries := sl_entries l @ changes, sl_changes := [],
               sl_listeners := map (notify pick rv) (sl_listeners l)\<rparr>))"

definition Rollback :: "stateLog \<Rightarrow> stateLog" where
  "Rollback l = l\<lparr>sl_changes := []\<rparr>"

definition SubscribeCommit :: "stateLog \<Rightarrow> listener \<Rightarrow> unit outcome \<times> stateLog" where
  "SubscribeCommit l ch =
    (if ch_cap ch = 0 then (Err (Errorf ''notify channel is not buffered''), l)
     else (Ok (), l\<lparr>sl_listeners := sl_listeners l @ [ch]\<rparr>))"

fun remove_listener :: "nat \<Rightarrow> listener list \<Rightarrow> listener list" where
  "remove_listener i [] = []"
| "remove_listener i (ch # chs) = (if ch_id ch = i then chs else ch # remove_listener i chs)"

definition UnsubscribeCommit :: "stateLog \<Rightarrow> nat \<Rightarrow> stateLog" where
  "UnsubscribeCommit l i = l\<lparr>sl_listeners := remove_listener i (sl_listeners l)\<rparr>"

section \<open>The logs of data and of delayed states\<close>

record dataLog =
  dlg_rev :: int
  dlg_entries :: "Data list"

definition dataLog_append :: "dataLog \<Rightarrow> Data \<Rightarrow> dataLog \<times> Data" where
  "dataLog_append l data =
    (let rv = i64 (dlg_rev l + 1); data1 = data\<lparr>d_Rev := rv\<rparr>
     in (\<lparr>dlg_rev = rv, dlg_entries = dlg_entries l @ [Data_CopyTo data1 Data0]\<rparr>, data1))"

fun dataLog_find :: "Data list \<Rightarrow> int \<Rightarrow> Data outcome" where
  "dataLog_find [] r = Err (Errorf ''data not found'')"
| "dataLog_find (d # ds) r = (if d_Rev d = r then Ok d else dataLog_find ds r)"

definition dataLog_get :: "dataLog \<Rightarrow> int \<Rightarrow> Data outcome" where
  "dataLog_get l r = dataLog_find (dlg_entries l) r"

record delayedStateLog =
  dsl_offset :: int
  dsl_entries :: "DelayedState list"

definition delayed_Append :: "delayedStateLog \<Rightarrow> DelayedState \<Rightarrow> delayedStateLog" where
  "delayed_Append l ds =
    (let off = i64 (dsl_offset l + 1)
     in \<lparr>dsl_offset = off, dsl_entries = dsl_entries l @ [ds\<lparr>ds_Offset := off\<rparr>]\<rparr>)"

fun delayed_Get_loop :: "DelayedState list \<Rightarrow> time \<Rightarrow> time \<Rightarrow> int \<Rightarrow> int \<Rightarrow> int \<Rightarrow> DelayedState list" where
  "delayed_Get_loop [] since until offset n limit = []"
| "delayed_Get_loop (ds # dss) since until offset n limit =
    (if ds_ExecuteAt ds < since then delayed_Get_loop dss since until offset n limit
     else if ds_ExecuteAt ds > until then delayed_Get_loop dss since until offset n limit
     else if ds_Offset ds \<le> offset then delayed_Get_loop dss since until offset n limit
     else ds # (if n + 1 \<ge> limit then [] else delayed_Get_loop dss since until offset (n + 1) limit))"

definition delayed_Get :: "delayedStateLog \<Rightarrow> time \<Rightarrow> time \<Rightarrow> int \<Rightarrow> int \<Rightarrow> DelayedState list" where
  "delayed_Get l since until offset limit =
    delayed_Get_loop (dsl_entries l) since until offset 0 limit"

section \<open>The driver\<close>

record memdriver =
  md_stateLog :: stateLog
  md_dataLog :: dataLog
  md_delayedStateLog :: delayedStateLog

definition New :: memdriver where
  "New = \<lparr>md_stateLog = \<lparr>sl_rev = 0, sl_entries = [], sl_changes = [], sl_listeners = []\<rparr>,
    md_dataLog = \<lparr>dlg_rev = 0, dlg_entries = []\<rparr>,
    md_delayedStateLog = \<lparr>dsl_offset = 0, dsl_entries = []\<rparr>\<rparr>"

definition mem_GetData :: "GetDataCommand \<Rightarrow> heap \<Rightarrow> memdriver \<Rightarrow> unit outcome \<times> heap \<times> memdriver" where
  "mem_GetData cmd h d =
    (case with_ctx h (gd_StateCtx cmd)
       (\<lambda>c. case StateCtx_Data c (gd_Alias cmd) of
          Err err \<Rightarrow> (Err err, c)
        | Panic p \<Rightarrow> (Panic p, c)
        | Ok None \<Rightarrow> (nil_deref, c)
        | Ok (Some data) \<Rightarrow>
            (case dataLog_get (md_dataLog d) (d_Rev data) of
               Ok storedData \<Rightarrow> (Ok (), SetData c (gd_Alias cmd) (Some (Data_CopyTo storedData data)))
             | Err err \<Rightarrow> (Err err, c)
             | Panic p \<Rightarrow> (Panic p, c))) of
       (r, h') \<Rightarrow> (r, h', d))"

definition mem_StoreData :: "StoreDataCommand \<Rightarrow> heap \<Rightarrow> memdriver \<Rightarrow> unit outcome \<times> heap \<times> memdriver" where
  "mem_StoreData cmd h d =
    (case deref h (sd_StateCtx cmd) of
       None \<Rightarrow> (nil_deref, h, d)
     | Some c \<Rightarrow>
         (case StateCtx_Data c (sd_Alias cmd) of
            Err err \<Rightarrow> (Err err, h, d)
          | Panic p \<Rightarrow> (Panic p, h, d)
          | Ok None \<Rightarrow> (nil_deref, h, d)
          | Ok (Some data) \<Rightarrow>
              (case dataLog_append (md_dataLog d) data of
                 (l, data') \<Rightarrow> (Ok (), store h (sd_StateCtx cmd) (SetData c (sd_Alias cmd) (Some data')),
                   d\<lparr>md_dataLog := l\<rparr>))))"

text \<open>\<open>stateCtx.CopyTo(cmd.StateCtx)\<close>; \<open>%d\<close> prints the revision.\<close>

definition copy_out :: "StateCtx option \<Rightarrow> error \<Rightarrow> heap \<Rightarrow> ctx_ref \<Rightarrow> unit outcome \<times> heap" where
  "copy_out found missing h p =
    (case found of
       None \<Rightarrow> (Err missing, h)
     | Some e \<Rightarrow> with_ctx h p (\<lambda>c. (Ok (), StateCtx_CopyTo e c)))"

definition mem_GetStateByID ::
  "GetStateByIDCommand \<Rightarrow> heap \<Rightarrow> memdriver \<Rightarrow> unit outcome \<times> heap \<times> memdriver" where
  "mem_GetStateByID cmd h d =
    (case (if gi_Rev cmd = 0
           then copy_out (fst (GetLatestByID (md_stateLog d) (gi_ID cmd)))
             (Errorw [] ErrNotFound (''; id='' @ gi_ID cmd)) h (gi_StateCtx cmd)
           else copy_out (GetByIDAndRev (md_stateLog d) (gi_ID cmd) (gi_Rev cmd))
             (Errorw [] ErrNotFound (''; id='' @ gi_ID cmd @ '' rev='' @ FormatInt (gi_Rev cmd))) h (gi_StateCtx cmd)) of
       (r, h') \<Rightarrow> (r, h', d))"

definition mem_GetStateByLabels ::
  "GetStateByLabelsCommand \<Rightarrow> heap \<Rightarrow> memdriver \<Rightarrow> unit outcome \<times> heap \<times> memdriver" where
  "mem_GetStateByLabels cmd h d =
    (case copy_out (fst (GetLatestByLabels (md_stateLog d) [gl_Labels cmd]))
       (Errorw [] ErrNotFound (''; labels='' @ fmt_map (gl_Labels cmd))) h (gl_StateCtx cmd) of
       (r, h') \<Rightarrow> (r, h', d))"

definition filterStatesWithID :: "State list \<Rightarrow> string \<Rightarrow> State list" where
  "filterStatesWithID states sid = filter (\<lambda>s. s_ID s \<noteq> sid) states"

text \<open>One page of \<open>GetStates\<close>: the entries that pass the filters join the result.\<close>

definition add_state :: "GetStatesCommand \<Rightarrow> StateCtx \<Rightarrow> State list \<Rightarrow> State list" where
  "add_state cmd s states =
    (if \<not> IsZero (gs_SinceTime cmd)
         \<and> UnixMilli (s_CommittedAt (sc_Committed s)) < UnixMilli (gs_SinceTime cmd) then states
     else if \<not> matchLabels (sc_Committed s) (gs_Labels cmd) then states
     else (if gs_LatestOnly cmd then filterStatesWithID states (entry_ID s) else states) @ [sc_Committed s])"

lemma entry_copy [simp]: "entry_Rev (StateCtx_CopyTo e to) = entry_Rev e" "entry_ID (StateCtx_CopyTo e to) = entry_ID e"
  by (simp_all add: entry_Rev_def entry_ID_def)

lemma Entries_loop_nonempty:
  "Entries_loop es since n limit = (r, since') \<Longrightarrow> r \<noteq> [] \<Longrightarrow>
    since < since' \<and> since' \<in> entry_Rev ` set es"
proof (induction es arbitrary: since n r since')
  case (Cons e es)
  show ?case
  proof (cases "entry_Rev e \<le> since \<or> n + 1 = limit")
    case True
    with Cons show ?thesis by (auto simp: Let_def split: if_splits)
  next
    case False
    obtain r' s' where rec: "Entries_loop es (entry_Rev e) (n + 1) limit = (r', s')" by fastforce
    have nil: "r' = [] \<Longrightarrow> s' = entry_Rev e"
      using rec by (induction es arbitrary: n r') (auto simp: Let_def split: if_splits prod.splits)
    from rec False Cons.prems have "since' = s'" by (auto simp: Let_def)
    with nil Cons.IH [OF rec] False show ?thesis by (cases "r' = []") auto
  qed
qed simp

lemma Entries_nonempty:
  "Entries l since limit = (r, since') \<Longrightarrow> r \<noteq> [] \<Longrightarrow>
    since < since' \<and> since' \<in> entry_Rev ` set (sl_entries l)"
  by (auto simp: Entries_def split: if_splits dest: Entries_loop_nonempty)

text \<open>
  The pages of \<open>GetStates\<close>: every page that is not empty moves \<open>sinceRev\<close> over an entry, so the
  entries that are left decrease.
\<close>

function GetStates_loop ::
  "stateLog \<Rightarrow> GetStatesCommand \<Rightarrow> int \<Rightarrow> State list \<Rightarrow> int \<Rightarrow> GetStatesResult" where
  "GetStates_loop l cmd untilRev states sinceRev =
    (case Entries l sinceRev (gs_Limit cmd + 1) of (logStates, sinceRev') \<Rightarrow>
      (if logStates = [] then \<lparr>gsr_States = states, gsr_More = False\<rparr>
       else let states' = fold (add_state cmd) logStates states
            in if int (length states') \<ge> gs_Limit cmd then
                 \<lparr>gsr_States = take (nat (gs_Limit cmd)) states',
                  gsr_More = int (length states') > gs_Limit cmd\<rparr>
               else if sinceRev' \<ge> untilRev then \<lparr>gsr_States = states', gsr_More = False\<rparr>
               else GetStates_loop l cmd untilRev states' sinceRev'))"
  by pat_completeness auto
termination
proof (relation "measure (\<lambda>(l, cmd, untilRev, states, sinceRev).
    length (filter (\<lambda>e. sinceRev < entry_Rev e) (sl_entries l)))", simp, goal_cases)
  case (1 l cmd untilRev states sinceRev logStates sinceRev')
  then have "Entries l sinceRev (gs_Limit cmd + 1) = (logStates, sinceRev')" "logStates \<noteq> []" by simp_all
  from Entries_nonempty [OF this]
  obtain e where "e \<in> set (sl_entries l)" "sinceRev < entry_Rev e" "entry_Rev e = sinceRev'"
    by auto
  then show ?case
    by (auto intro!: length_filter_less)
qed

declare GetStates_loop.simps [simp del]

definition mem_GetStates :: "GetStatesCommand \<Rightarrow> memdriver \<Rightarrow> GetStatesCommand outcome" where
  "mem_GetStates cmd d =
    (if gs_Limit cmd < 0 then Panic ''runtime error: makeslice: cap out of range''
     else let l = md_stateLog d;
              (states, sinceRev) =
                (if gs_SinceRev cmd = - 1 then
                   (case GetLatestByLabels l (gs_Labels cmd) of
                      (Some c, r) \<Rightarrow> ([sc_Committed c], r) | (None, r) \<Rightarrow> ([], r))
                 else ([], gs_SinceRev cmd))
          in Ok (cmd\<lparr>gs_Result := Some (GetStates_loop l cmd (sl_rev l) states sinceRev)\<rparr>))"

definition mem_Delay :: "DelayCommand \<Rightarrow> memdriver \<Rightarrow> unit outcome \<times> memdriver" where
  "mem_Delay cmd d =
    (case dl_Result cmd of
       None \<Rightarrow> (nil_deref, d)
     | Some ds \<Rightarrow> (Ok (), d\<lparr>md_delayedStateLog := delayed_Append (md_delayedStateLog d) ds\<rparr>))"

definition mem_GetDelayedStates :: "GetDelayedStatesCommand \<Rightarrow> memdriver \<Rightarrow> GetDelayedStatesCommand outcome" where
  "mem_GetDelayedStates cmd d =
    (let dss = delayed_Get (md_delayedStateLog d) (gt_Since cmd) (gt_Until cmd) (gt_Offset cmd) (gt_Limit cmd + 1);
         more = int (length dss) > gt_Limit cmd
     in if more \<and> gt_Limit cmd < 0 then Panic ''runtime error: slice bounds out of range''
        else Ok (cmd\<lparr>gt_Result := Some \<lparr>
          gdr_States = (if more then take (nat (gt_Limit cmd)) dss else dss), gdr_More = more\<rparr>\<rparr>))"

section \<open>Commit\<close>

definition memdriver_ops :: "memdriver CommitDriver" where
  "memdriver_ops = \<lparr>drv_GetStateByID = mem_GetStateByID, drv_GetStateByLabels = mem_GetStateByLabels,
    drv_GetData = mem_GetData, drv_StoreData = mem_StoreData, drv_Delay = mem_Delay\<rparr>"

fun Commit_loop ::
  "'c libs \<Rightarrow> Command list \<Rightarrow> heap \<Rightarrow> memdriver \<Rightarrow> unit outcome \<times> Command list \<times> heap \<times> memdriver" where
  "Commit_loop lb [] h d = (Ok (), [], h, d)"
| "Commit_loop lb (subCmd0 # cmds) h d =
    (case DoCommitSubCommand lb memdriver_ops subCmd0 h d of
       (Err err, subCmd, h1, d1) \<Rightarrow>
         (Err (Errorw (cmd_type subCmd0 @ '': do: '') err []), subCmd # cmds, h1, d1)
     | (Panic p, subCmd, h1, d1) \<Rightarrow> (Panic p, subCmd # cmds, h1, d1)
     | (Ok _, subCmd, h1, d1) \<Rightarrow>
         (case committable subCmd of
            None \<Rightarrow> (case Commit_loop lb cmds h1 d1 of (r, cs, h2, d2) \<Rightarrow> (r, subCmd # cs, h2, d2))
          | Some p \<Rightarrow>
              (case deref h1 p of
                 None \<Rightarrow> (nil_deref, subCmd # cmds, h1, d1)
               | Some stateCtx \<Rightarrow>
                   (if s_ID (sc_Current stateCtx) = [] then
                      (Err (Errorf ''state id empty''), subCmd # cmds, h1, d1)
                    else if snd (GetLatestByID (md_stateLog d1) (s_ID (sc_Current stateCtx)))
                        \<noteq> s_Rev (sc_Committed stateCtx) then
                      (Err (ErrRevMismatch [s_ID (sc_Current stateCtx)]), subCmd # cmds, h1, d1)
                    else case Append lb (md_stateLog d1) stateCtx of
                      (l, c') \<Rightarrow>
                        (case Commit_loop lb cmds (store h1 p c') (d1\<lparr>md_stateLog := l\<rparr>) of
                           (r, cs, h2, d2) \<Rightarrow> (r, subCmd # cs, h2, d2))))))"

text \<open>\<open>Rollback\<close> is deferred: it runs after an error and a panic too.\<close>

definition mem_Commit ::
  "'c libs \<Rightarrow> (nat \<Rightarrow> bool) \<Rightarrow> Command list \<Rightarrow> heap \<Rightarrow> memdriver
    \<Rightarrow> unit outcome \<times> Command list \<times> heap \<times> memdriver" where
  "mem_Commit lb pick cmds h d =
    (case Commit_loop lb cmds h d of
       (Ok _, cs, h1, d1) \<Rightarrow>
         (case stateLog_Commit pick (md_stateLog d1) of
            (r, l) \<Rightarrow> (r, cs, h1, d1\<lparr>md_stateLog := Rollback l\<rparr>))
     | (r, cs, h1, d1) \<Rightarrow> (r, cs, h1, d1\<lparr>md_stateLog := Rollback (md_stateLog d1)\<rparr>))"

end
