(* ===== verification/MemdriverProps.thy ===== *)
theory MemdriverProps
  imports Memdriver
begin

text \<open>
  The in-memory driver keeps a log whose revisions increase, commits atomically, rejects stale
  contexts, and answers the read commands from the log.
\<close>

section \<open>The invariant\<close>

definition entry_ok :: "int \<Rightarrow> StateCtx \<Rightarrow> bool" where
  "entry_ok r e \<longleftrightarrow> 0 < entry_Rev e \<and> entry_Rev e \<le> r \<and> s_Rev (sc_Current e) = entry_Rev e
    \<and> s_ID (sc_Current e) = entry_ID e \<and> entry_ID e \<noteq> [] \<and> wf_StateCtx e"

definition log_ok :: "stateLog \<Rightarrow> bool" where
  "log_ok l \<longleftrightarrow> 0 \<le> sl_rev l
    \<and> sorted_wrt (<) (map entry_Rev (sl_entries l @ sl_changes l))
    \<and> list_all (entry_ok (sl_rev l)) (sl_entries l @ sl_changes l)"

definition data_ok :: "dataLog \<Rightarrow> bool" where
  "data_ok l \<longleftrightarrow> list_all wf_Data (dlg_entries l)"

definition delayed_ok :: "delayedStateLog \<Rightarrow> bool" where
  "delayed_ok l \<longleftrightarrow> list_all (\<lambda>ds. wf_State (ds_State ds)) (dsl_entries l)"

definition mem_ok :: "memdriver \<Rightarrow> bool" where
  "mem_ok d \<longleftrightarrow> log_ok (md_stateLog d) \<and> data_ok (md_dataLog d) \<and> delayed_ok (md_delayedStateLog d)"

lemma entry_ok_mono: "entry_ok r e \<Longrightarrow> r \<le> r' \<Longrightarrow> entry_ok r' e"
  by (auto simp: entry_ok_def)

section \<open>The reads of the log\<close>

lemma latest_by_rev: "latest_by P (rev es) = (if filter P es = [] then None else Some (last (filter P es)))"
proof (induction es rule: rev_induct)
  case (snoc e es)
  then show ?case by auto
qed simp

lemma latest_by_Some: "latest_by P es = Some e \<Longrightarrow> e \<in> set es \<and> P e"
  by (induction es) (auto split: if_splits)

lemma latest_by_None: "latest_by P es = None \<longleftrightarrow> (\<forall>e \<in> set es. \<not> P e)"
  by (induction es) auto

text \<open>The latest revision of an id: no entry of the id has a greater one.\<close>

lemma GetLatestByID_max:
  assumes "log_ok l" "e \<in> set (sl_entries l)" "entry_ID e = sid"
  shows "entry_Rev e \<le> snd (GetLatestByID l sid)"
proof -
  let ?fs = "filter (\<lambda>e. entry_ID e = sid) (sl_entries l)"
  from assms have mem: "e \<in> set ?fs" by simp
  have "sorted_wrt (<) (map entry_Rev (sl_entries l))"
    using assms(1) by (simp add: log_ok_def sorted_wrt_append)
  then have "sorted_wrt (\<lambda>x y. entry_Rev x < entry_Rev y) ?fs"
    by (simp add: sorted_wrt_map sorted_wrt_filter)
  from sorted_last [OF this mem] have "entry_Rev e \<le> entry_Rev (last ?fs)" .
  moreover have "?fs \<noteq> []" using mem by (metis empty_iff list.set(1))
  ultimately show ?thesis by (simp add: GetLatestByID_def latest_by_rev)
qed

lemma GetLatestByID_cases:
  assumes "GetLatestByID l sid = (found, r)"
  obtains "found = None" "r = 0" "\<forall>e \<in> set (sl_entries l). entry_ID e \<noteq> sid"
  | e where "e \<in> set (sl_entries l)" "found = Some (StateCtx_CopyTo e StateCtx0)"
    "entry_ID e = sid" "entry_Rev e = r"
proof (cases "latest_by (\<lambda>e. entry_ID e = sid) (rev (sl_entries l))")
  case None
  with assms that(1) show ?thesis by (auto simp: GetLatestByID_def latest_by_None)
next
  case (Some e)
  with assms that(2) [of e] latest_by_Some [OF Some] show ?thesis by (auto simp: GetLatestByID_def)
qed

section \<open>Appending\<close>

lemma wf_appended:
  assumes "wf_StateCtx c" "log_ok l"
  shows "wf_StateCtx (case fst (GetLatestByID l sid) of None \<Rightarrow> StateCtx0 | Some e \<Rightarrow> e)"
  by (auto simp: GetLatestByID_def split: option.splits)

text \<open>The change that an append adds, and the context it hands back.\<close>

definition room :: "stateLog \<Rightarrow> nat \<Rightarrow> bool" where
  "room l n \<longleftrightarrow> 0 \<le> sl_rev l \<and> sl_rev l + int n < 2 ^ 63"

lemma i64_room: "room l (Suc n) \<Longrightarrow> i64 (sl_rev l + 1) = sl_rev l + 1"
  by (simp add: room_def in_i64_small)

lemma committedT_spec:
  assumes "log_ok l" "wf_StateCtx c" "s_ID (sc_Current c) \<noteq> []" "room l (Suc n)"
  shows "entry_ID (committedT lb l c) = s_ID (sc_Current c)"
    and "entry_Rev (committedT lb l c) = sl_rev l + 1"
    and "entry_ok (sl_rev l + 1) (committedT lb l c)"
    and "sc_Transitions (committedT lb l c) = []"
proof -
  note wf = wf_appended [OF assms(2,1)]
  show 1: "entry_ID (committedT lb l c) = s_ID (sc_Current c)"
    "entry_Rev (committedT lb l c) = sl_rev l + 1"
    "sc_Transitions (committedT lb l c) = []"
    by (simp_all add: committedT_def Let_def entry_ID_def entry_Rev_def i64_room [OF assms(4)])
  let ?t1 = "StateCtx_CopyTo c (case fst (GetLatestByID l (s_ID (sc_Current c))) of None \<Rightarrow> StateCtx0 | Some e \<Rightarrow> e)"
  have "wf_StateCtx ?t1" using wf by simp
  then have "wf_StateCtx (committedT lb l c)"
    by (simp add: committedT_def Let_def wf_StateCtx_def wf_State_def reset_Transitions_def)
  with 1 assms(1,3) show "entry_ok (sl_rev l + 1) (committedT lb l c)"
    by (simp add: entry_ok_def log_ok_def committedT_def Let_def i64_room [OF assms(4)])
qed

lemma Append_spec:
  assumes "room l (Suc n)" "Append lb l c = (l', c')"
  shows "l' = l\<lparr>sl_rev := sl_rev l + 1, sl_changes := sl_changes l @ [committedT lb l c]\<rparr>"
    and "sc_Current c' = State_CopyTo (sc_Committed (committedT lb l c)) (sc_Current c)"
    and "sc_Committed c' = State_CopyTo (sc_Committed (committedT lb l c)) (sc_Committed c)"
    and "sc_Transitions c' = []" and "sc_Datas c' = sc_Datas c"
    and "wf_StateCtx c \<Longrightarrow> wf_StateCtx c'"
  using assms(2)
  by (auto simp: Append_def Let_def i64_room [OF assms(1)] wf_StateCtx_upd wf_StateCtx_fields
      wf_append_reset)

lemma Append_log_ok:
  assumes "log_ok l" "wf_StateCtx c" "s_ID (sc_Current c) \<noteq> []" "room l (Suc n)"
    "Append lb l c = (l', c')"
  shows "log_ok l'" "room l' n"
proof -
  note e = committedT_spec [OF assms(1-4), of lb] and l' = Append_spec(1) [OF assms(4,5)]
  have "\<forall>e \<in> set (sl_entries l @ sl_changes l). entry_ok (sl_rev l) e"
    using assms(1) by (simp add: log_ok_def list_all_iff)
  then have old: "\<forall>e \<in> set (sl_entries l @ sl_changes l). entry_ok (sl_rev l + 1) e \<and> entry_Rev e < sl_rev l + 1"
    by (fastforce simp: entry_ok_def)
  have "sorted_wrt (<) (map entry_Rev (sl_entries l @ sl_changes l) @ [sl_rev l + 1])"
    using assms(1) old by (auto simp: log_ok_def sorted_wrt_append)
  with old e assms(1) show "log_ok l'"
    by (auto simp: log_ok_def l' list_all_iff)
  show "room l' n" using assms(1,4) by (simp add: l' room_def)
qed

section \<open>The contract of a driver\<close>

lemma wf_Data_CopyTo [simp]: "wf_Data to \<Longrightarrow> wf_Data (Data_CopyTo d to)"
  by (simp add: wf_Data_def Data_CopyTo_def Let_def)

lemma copy_out_wf: "wf_heap h \<Longrightarrow> wf_heap (snd (copy_out found missing h p))"
  by (auto simp: copy_out_def split: option.split intro!: with_ctx_wf)

lemma mem_GetData_wf: "wf_heap h \<Longrightarrow> wf_heap (fst (snd (mem_GetData cmd h d)))"
proof -
  assume h: "wf_heap h"
  have "wf_heap (snd (with_ctx h (gd_StateCtx cmd)
       (\<lambda>c. case StateCtx_Data c (gd_Alias cmd) of
          Err err \<Rightarrow> (Err err :: unit outcome, c)
        | Panic p \<Rightarrow> (Panic p, c)
        | Ok None \<Rightarrow> (nil_deref, c)
        | Ok (Some data) \<Rightarrow>
            (case dataLog_get (md_dataLog d) (d_Rev data) of
               Ok storedData \<Rightarrow> (Ok (), SetData c (gd_Alias cmd) (Some (Data_CopyTo storedData data)))
             | Err err \<Rightarrow> (Err err, c)
             | Panic p \<Rightarrow> (Panic p, c)))))"
    by (rule with_ctx_wf [OF h]) (simp split: outcome.split option.split)
  then show ?thesis by (simp add: mem_GetData_def case_prod_beta)
qed

lemma mem_StoreData_keeps:
  assumes "data_ok (md_dataLog d)" "wf_heap h" "mem_StoreData cmd h d = (r, h', d')"
  shows "data_ok (md_dataLog d') \<and> wf_heap h' \<and> md_stateLog d' = md_stateLog d
    \<and> md_delayedStateLog d' = md_delayedStateLog d"
  using assms wf_heap_deref [OF assms(2)]
  by (auto simp: mem_StoreData_def dataLog_append_def Let_def data_ok_def
      split: option.splits outcome.splits)

interpretation mem: commit_driver memdriver_ops
  "\<lambda>d. data_ok (md_dataLog d) \<and> delayed_ok (md_delayedStateLog d)" md_stateLog
proof (unfold_locales, goal_cases)
  case (1 s h gi r h' s')
  then show ?case
    using copy_out_wf [OF 1(2)] by (auto simp: memdriver_ops_def mem_GetStateByID_def split: prod.splits if_splits)
      (metis snd_conv)+
next
  case (2 s h gl r h' s')
  then show ?case
    using copy_out_wf [OF 2(2)] by (auto simp: memdriver_ops_def mem_GetStateByLabels_def split: prod.splits)
      (metis snd_conv)
next
  case (3 s h gd r h' s')
  from 3(3) have "s' = s" by (auto simp: memdriver_ops_def mem_GetData_def split: prod.splits)
  with 3 mem_GetData_wf [of h gd s] show ?case by (simp add: memdriver_ops_def)
next
  case (4 s h sd r h' s')
  then show ?case using mem_StoreData_keeps [of s h sd r h' s'] by (simp add: memdriver_ops_def)
next
  case (5 s dl ds r s')
  then show ?case
    by (auto simp: memdriver_ops_def mem_Delay_def delayed_ok_def delayed_Append_def Let_def)
qed

section \<open>The loop of a commit\<close>

definition committables :: "Command list \<Rightarrow> nat" where
  "committables cmds = length (filter (\<lambda>c. committable c \<noteq> None) cmds)"

lemma committables_simps [simp]:
  "committables [] = 0"
  "committables (c # cs) = (if committable c = None then committables cs else Suc (committables cs))"
  by (simp_all add: committables_def)

lemma committable_same:
  "DoCommitSubCommand lb D cmd h s = (r, cmd', h', s') \<Longrightarrow> committable cmd' = committable cmd"
  by (cases cmd) (auto split: prod.splits outcome.splits bool.splits)

text \<open>
  Whatever the outcome, the entries stay as they are until the end of the loop; when it succeeds
  every committable command has added one change, in order, under consecutive revisions.
\<close>

lemma Commit_loop_keeps:
  assumes "Commit_loop lb cmds h d = (r, cs, h', d')"
    and "mem_ok d" "wf_heap h" "room (md_stateLog d) (committables cmds)"
  shows "mem_ok d' \<and> wf_heap h' \<and> sl_entries (md_stateLog d') = sl_entries (md_stateLog d)
    \<and> sl_listeners (md_stateLog d') = sl_listeners (md_stateLog d)
    \<and> sl_rev (md_stateLog d) \<le> sl_rev (md_stateLog d')
    \<and> sl_rev (md_stateLog d') \<le> sl_rev (md_stateLog d) + int (committables cmds)
    \<and> (r = Ok () \<longrightarrow> (\<exists>es. sl_changes (md_stateLog d') = sl_changes (md_stateLog d) @ es
        \<and> length es = committables cmds
        \<and> sl_rev (md_stateLog d') = sl_rev (md_stateLog d) + int (length es)
        \<and> map entry_Rev es = map (\<lambda>i. sl_rev (md_stateLog d) + 1 + int i) [0..<length es]))"
  using assms
proof (induction cmds arbitrary: h d r cs h' d')
  case (Cons cmd cmds)
  obtain r1 cmd1 h1 d1 where sub: "DoCommitSubCommand lb memdriver_ops cmd h d = (r1, cmd1, h1, d1)"
    by (metis surj_pair)
  have keeps: "data_ok (md_dataLog d1)" "delayed_ok (md_delayedStateLog d1)"
    "md_stateLog d1 = md_stateLog d" "wf_heap h1"
    using mem.DoCommitSubCommand_keeps [OF _ Cons.prems(3) sub] Cons.prems(2) by (auto simp: mem_ok_def)
  then have d1: "mem_ok d1" using Cons.prems(2) by (simp add: mem_ok_def)
  show ?case
  proof (cases "r1 = Ok () \<and> committable cmd = None")
    case True
    obtain r2 cs2 h2 d2 where rec: "Commit_loop lb cmds h1 d1 = (r2, cs2, h2, d2)" by (metis surj_pair)
    from Cons.IH [OF rec d1 keeps(4)] Cons.prems(1,4) True rec sub committable_same [OF sub]
    show ?thesis by (auto simp: keeps(3))
  next
    case False
    show ?thesis
    proof (cases "\<exists>p c. r1 = Ok () \<and> committable cmd = Some p \<and> deref h1 p = Some c \<and> s_ID (sc_Current c) \<noteq> []
        \<and> snd (GetLatestByID (md_stateLog d1) (s_ID (sc_Current c))) = s_Rev (sc_Committed c)")
      case True
      then obtain p c where pc: "r1 = Ok ()" "committable cmd = Some p" "deref h1 p = Some c"
        "s_ID (sc_Current c) \<noteq> []"
        "snd (GetLatestByID (md_stateLog d1) (s_ID (sc_Current c))) = s_Rev (sc_Committed c)" by blast
      obtain l c' where app: "Append lb (md_stateLog d1) c = (l, c')" by fastforce
      let ?d2 = "d1\<lparr>md_stateLog := l\<rparr>" and ?h2 = "store h1 p c'"
      have rm: "room (md_stateLog d1) (Suc (committables cmds))"
        using Cons.prems(4) pc(2) by (simp add: keeps(3))
      have c: "wf_StateCtx c" using wf_heap_deref [OF keeps(4) pc(3)] .
      have lok: "log_ok (md_stateLog d1)" using d1 by (simp add: mem_ok_def)
      note spec = Append_spec [OF rm app] and lspec = Append_log_ok [OF lok c pc(4) rm app]
      obtain r2 cs2 h3 d3 where rec: "Commit_loop lb cmds ?h2 ?d2 = (r2, cs2, h3, d3)" by (metis surj_pair)
      have "mem_ok ?d2" "wf_heap ?h2" "room (md_stateLog ?d2) (committables cmds)"
        using d1 keeps(4) lspec spec(6) c by (simp_all add: mem_ok_def)
      note ih = Cons.IH [OF rec this]
      have res: "r = r2" "d' = d3" "h' = h3"
        using Cons.prems(1) sub pc app rec committable_same [OF sub] by auto
      have rv: "entry_Rev (committedT lb (md_stateLog d1) c) = sl_rev (md_stateLog d1) + 1"
        by (rule committedT_spec(2) [OF lok c pc(4) rm])
      have "map (\<lambda>i. x + 1 + int i) [0..<Suc n] = (x + 1) # map (\<lambda>i. x + 2 + int i) [0..<n]" for x n
        by (simp add: upt_conv_Cons map_Suc_upt [symmetric] del: upt_Suc)
      then show ?thesis
        using ih pc(2) rv by (auto simp: res spec(1) keeps(3))
    next
      case no: False
      have "md_stateLog d' = md_stateLog d1 \<and> d' = d1 \<and> h' = h1 \<and> r \<noteq> Ok ()"
        using no False Cons.prems(1) sub committable_same [OF sub]
        by (auto split: outcome.splits option.splits if_splits prod.splits simp: nil_deref_def)
      then show ?thesis using d1 keeps by auto
    qed
  qed
qed auto

lemma GetLatestByID_cong: "sl_entries l = sl_entries l' \<Longrightarrow> GetLatestByID l sid = GetLatestByID l' sid"
  by (simp add: GetLatestByID_def)

lemma Commit_loop_append:
  assumes "Commit_loop lb pre h d = (Ok (), cs1, h1, d1)"
  shows "Commit_loop lb (pre @ post) h d
    = (case Commit_loop lb post h1 d1 of (r, cs2, h2, d2) \<Rightarrow> (r, cs1 @ cs2, h2, d2))"
  using assms
proof (induction pre arbitrary: h d cs1)
  case (Cons cmd pre)
  obtain r c hh dd where sub: "DoCommitSubCommand lb memdriver_ops cmd h d = (r, c, hh, dd)"
    by (metis surj_pair)
  from Cons.prems sub have r: "r = Ok ()" by (auto split: outcome.splits)
  show ?case
  proof (cases "committable c")
    case None
    obtain cs where "Commit_loop lb pre hh dd = (Ok (), cs, h1, d1)" "cs1 = c # cs"
      using Cons.prems sub r None by (auto split: prod.splits)
    from Cons.IH [OF this(1)] this(2) sub r None show ?thesis by (simp split: prod.split)
  next
    case (Some p)
    with Cons.prems sub r obtain x where x: "deref hh p = Some x" "s_ID (sc_Current x) \<noteq> []"
      "snd (GetLatestByID (md_stateLog dd) (s_ID (sc_Current x))) = s_Rev (sc_Committed x)"
      by (auto simp: nil_deref_def split: option.splits if_splits)
    obtain l x' where app: "Append lb (md_stateLog dd) x = (l, x')" by fastforce
    obtain cs where "Commit_loop lb pre (store hh p x') (dd\<lparr>md_stateLog := l\<rparr>) = (Ok (), cs, h1, d1)" "cs1 = c # cs"
      using Cons.prems sub r Some x app by (auto split: prod.splits)
    from Cons.IH [OF this(1)] this(2) sub r Some x app show ?thesis by (simp split: prod.split)
  qed
qed (simp split: prod.split)

section \<open>Commit\<close>

lemma sort_sorted_changes:
  "sorted_wrt (<) (map f xs) \<Longrightarrow> sort_key f xs = xs" for f :: "'a \<Rightarrow> int"
  by (rule sort_key_id_if_sorted) (auto simp: strict_sorted_iff)

lemma remdups_adj_shorter: "\<not> distinct_adj xs \<Longrightarrow> length (remdups_adj xs) < length xs"
proof (induction xs rule: remdups_adj.induct)
  case (3 x y xs)
  then show ?case
    using remdups_adj_length [of "y # xs"] by (cases "x = y") (auto simp: less_Suc_eq_le)
qed auto

lemma stateLog_Commit_ok:
  assumes "log_ok l" "stateLog_Commit pick l = (r, l')"
  shows "r = Ok () \<and> sl_entries l' = sl_entries l @ sl_changes l \<and> sl_changes l' = [] \<and> sl_rev l' = sl_rev l
      \<or> r = nil_deref \<and> l' = l \<and> \<not> distinct_adj (map entry_ID (sl_changes l))"
proof (cases "distinct_adj (map entry_ID (sl_changes l))")
  case True
  then have "remdups_adj (map entry_ID (sl_changes l)) = map entry_ID (sl_changes l)"
    by (simp add: distinct_adj_altdef remdups_adj_altdef)
  with assms show ?thesis
    by (auto simp: stateLog_Commit_def Let_def log_ok_def sorted_wrt_append sort_sorted_changes)
next
  case False
  with remdups_adj_shorter [OF this] assms(2) show ?thesis
    by (auto simp: stateLog_Commit_def)
qed

lemma mem_Commit_loop:
  assumes "mem_Commit lb pick cmds h d = (r, cs, h', d')"
  obtains r1 d1 where "Commit_loop lb cmds h d = (r1, cs, h', d1)"
    and "r1 \<noteq> Ok () \<Longrightarrow> r = r1 \<and> d' = d1\<lparr>md_stateLog := Rollback (md_stateLog d1)\<rparr>"
    and "r1 = Ok () \<Longrightarrow> \<exists>l. stateLog_Commit pick (md_stateLog d1) = (r, l) \<and> d' = d1\<lparr>md_stateLog := Rollback l\<rparr>"
  using assms by (auto simp: mem_Commit_def split: prod.splits outcome.splits)

definition mem_idle :: "memdriver \<Rightarrow> bool" where
  "mem_idle d \<longleftrightarrow> mem_ok d \<and> sl_changes (md_stateLog d) = []"

lemma log_ok_Rollback: "log_ok l \<Longrightarrow> log_ok (Rollback l)"
  by (simp add: log_ok_def Rollback_def sorted_wrt_append)

lemma Rollback_simps [simp]:
  "sl_entries (Rollback l) = sl_entries l" "sl_changes (Rollback l) = []"
  "sl_rev (Rollback l) = sl_rev l" "sl_listeners (Rollback l) = sl_listeners l"
  by (simp_all add: Rollback_def)

lemma log_ok_Commit:
  assumes "log_ok l" "stateLog_Commit pick l = (r, l')"
  shows "log_ok l'"
  using stateLog_Commit_ok [OF assms] assms(1) by (auto simp: log_ok_def)

lemma mem_Commit_idle:
  assumes "mem_idle d" "wf_heap h" "room (md_stateLog d) (committables cmds)"
    and "mem_Commit lb pick cmds h d = (r, cs, h', d')"
  shows "mem_idle d' \<and> wf_heap h'"
proof -
  from assms(1) have ok: "mem_ok d" by (simp add: mem_idle_def)
  from mem_Commit_loop [OF assms(4)] obtain r1 d1 where loop: "Commit_loop lb cmds h d = (r1, cs, h', d1)"
    and bad: "r1 \<noteq> Ok () \<Longrightarrow> r = r1 \<and> d' = d1\<lparr>md_stateLog := Rollback (md_stateLog d1)\<rparr>"
    and good: "r1 = Ok () \<Longrightarrow> \<exists>l. stateLog_Commit pick (md_stateLog d1) = (r, l) \<and> d' = d1\<lparr>md_stateLog := Rollback l\<rparr>"
    by blast
  note keeps = Commit_loop_keeps [OF loop ok assms(2,3)]
  then have l1: "log_ok (md_stateLog d1)" by (simp add: mem_ok_def)
  have "\<exists>l. log_ok l \<and> d' = d1\<lparr>md_stateLog := Rollback l\<rparr>"
    using bad good l1 log_ok_Commit [OF l1] by (cases "r1 = Ok ()") blast+
  then show ?thesis
    using keeps by (auto simp: mem_idle_def mem_ok_def log_ok_Rollback)
qed

lemma mem_Commit_entries:
  assumes "mem_idle d" "wf_heap h" "room (md_stateLog d) (committables cmds)"
    and "mem_Commit lb pick cmds h d = (r, cs, h', d')"
  shows "r \<noteq> Ok () \<and> sl_entries (md_stateLog d') = sl_entries (md_stateLog d)
    \<or> r = Ok () \<and> (\<exists>d1. Commit_loop lb cmds h d = (Ok (), cs, h', d1)
        \<and> sl_entries (md_stateLog d') = sl_entries (md_stateLog d) @ sl_changes (md_stateLog d1)
        \<and> sl_rev (md_stateLog d') = sl_rev (md_stateLog d1))"
proof -
  from assms(1) have ok: "mem_ok d" by (simp add: mem_idle_def)
  from mem_Commit_loop [OF assms(4)] obtain r1 d1 where loop: "Commit_loop lb cmds h d = (r1, cs, h', d1)"
    and bad: "r1 \<noteq> Ok () \<Longrightarrow> r = r1 \<and> d' = d1\<lparr>md_stateLog := Rollback (md_stateLog d1)\<rparr>"
    and good: "r1 = Ok () \<Longrightarrow> \<exists>l. stateLog_Commit pick (md_stateLog d1) = (r, l) \<and> d' = d1\<lparr>md_stateLog := Rollback l\<rparr>"
    by blast
  note keeps = Commit_loop_keeps [OF loop ok assms(2,3)]
  then have l1: "log_ok (md_stateLog d1)" by (simp add: mem_ok_def)
  show ?thesis
  proof (cases "r1 = Ok ()")
    case True
    with good obtain l where l: "stateLog_Commit pick (md_stateLog d1) = (r, l)"
      "d' = d1\<lparr>md_stateLog := Rollback l\<rparr>" by blast
    from stateLog_Commit_ok [OF l1 l(1)] keeps loop True l(2) show ?thesis
      by (auto simp: nil_deref_def)
  qed (use bad keeps in simp)
qed

text \<open>The first commit of a new state on a new driver, at which the properties are exercised.\<close>

definition first_commit :: "unit outcome \<times> Command list \<times> heap \<times> memdriver" where
  "first_commit = mem_Commit wire_libs (\<lambda>_. True) [TransitCmd (Transit (Some 0) ''f'')] [0 \<mapsto> new_ctx ''a''] New"

lemma mem_idle_New: "mem_idle New"
  by code_simp

lemma first_commit_ok: "mem_Commit wire_libs (\<lambda>_. True) [TransitCmd (Transit (Some 0) ''f'')] [0 \<mapsto> new_ctx ''a''] New
    = (Ok (), fst (snd first_commit), fst (snd (snd first_commit)), snd (snd (snd first_commit)))"
proof -
  have "fst first_commit = Ok ()" by code_simp
  then show ?thesis by (simp add: first_commit_def prod_eq_iff)
qed

lemma room_New: "room (md_stateLog New) (committables [TransitCmd (Transit (Some 0) ''f'')])"
  by code_simp

text \<open>
  C1: a commit is atomic on the log of states. Whatever it returns, the log is left without
  pending changes and with its invariant: revisions strictly increase, none exceeds the counter,
  ids are not empty. After an error or a panic the entries are those of before; after a success
  they are followed by one entry per transit or park, in the order of the commands, under the
  revisions that follow the counter.
\<close>

theorem mem_Commit_atomic:
  assumes "mem_idle d" "wf_heap h" "room (md_stateLog d) (committables cmds)"
    and "mem_Commit lb pick cmds h d = (r, cs, h', d')"
  shows "mem_idle d' \<and> wf_heap h'
    \<and> (r \<noteq> Ok () \<longrightarrow> sl_entries (md_stateLog d') = sl_entries (md_stateLog d))
    \<and> (r = Ok () \<longrightarrow> (\<exists>es. sl_entries (md_stateLog d') = sl_entries (md_stateLog d) @ es
        \<and> map entry_Rev es = map (\<lambda>i. sl_rev (md_stateLog d) + 1 + int i) [0..<committables cmds]
        \<and> sl_rev (md_stateLog d') = sl_rev (md_stateLog d) + int (committables cmds)))"
proof -
  from assms(1) have ok: "mem_ok d" "sl_changes (md_stateLog d) = []" by (simp_all add: mem_idle_def)
  show ?thesis
    using mem_Commit_idle [OF assms] mem_Commit_entries [OF assms] Commit_loop_keeps [OF _ ok(1) assms(2,3)] ok(2)
    by fastforce
qed

theorem mem_Commit_atomic_witness:
  "mem_idle (snd (snd (snd first_commit)))
    \<and> (\<exists>es. sl_entries (md_stateLog (snd (snd (snd first_commit)))) = es \<and> map entry_Rev es = [1])"
  using mem_Commit_atomic [OF mem_idle_New wf_heap_new(1) room_New first_commit_ok]
  by (simp add: New_def Transit_def committables_def upt_rec)

text \<open>
  No sub command of a commit, whether it succeeds, fails or panics, breaks the invariants of
  the driver or the shape of a context: the maps of every context on the heap keep distinct keys,
  and only the commit itself writes to the log of states.
\<close>

lemma sub_commands_keep_types:
  assumes "mem_ok d" "wf_heap h" "DoCommitSubCommand lb memdriver_ops cmd h d = (r, cmd', h', d')"
  shows "mem_ok d' \<and> wf_heap h' \<and> md_stateLog d' = md_stateLog d \<and> committable cmd' = committable cmd"
  using mem.DoCommitSubCommand_keeps [OF _ assms(2,3)] assms(1) committable_same [OF assms(3)] by (auto simp: mem_ok_def)

lemma sub_commands_keep_types_instance:
  "wf_heap (fst (snd (snd (DoCommitSubCommand wire_libs memdriver_ops (TransitCmd (Transit (Some 0) ''f'')) [0 \<mapsto> new_ctx ''a''] New))))"
proof -
  obtain r cmd h d where c: "DoCommitSubCommand wire_libs memdriver_ops (TransitCmd (Transit (Some 0) ''f'')) [0 \<mapsto> new_ctx ''a''] New = (r, cmd, h, d)"
    by (metis surj_pair)
  have "mem_ok New" using mem_idle_New by (simp add: mem_idle_def)
  from sub_commands_keep_types [OF this wf_heap_new(1) c] c show ?thesis by simp
qed

text \<open>
  Optimistic concurrency. Wherever a commit meets a context whose committed revision is not
  the latest revision of its id in the log before the commit, the whole commit is refused with a
  revision mismatch that names the id, and the entries stay as they were.
\<close>

lemma mem_Commit_stale_refused:
  assumes "mem_idle d" "wf_heap h" "room (md_stateLog d) (committables pre)"
    and "Commit_loop lb pre h d = (Ok (), cs1, h1, d1)"
    and "DoCommitSubCommand lb memdriver_ops cmd h1 d1 = (Ok (), cmd', h2, d2)"
    and "committable cmd = Some p" "deref h2 p = Some c" "s_ID (sc_Current c) = sid" "sid \<noteq> []"
    and "s_Rev (sc_Committed c) \<noteq> snd (GetLatestByID (md_stateLog d) sid)"
    and "mem_Commit lb pick (pre @ cmd # post) h d = (r, cs, h', d')"
  shows "r = Err (ErrRevMismatch [sid]) \<and> sl_entries (md_stateLog d') = sl_entries (md_stateLog d)"
proof -
  from assms(1) have ok: "mem_ok d" by (simp add: mem_idle_def)
  note keeps = Commit_loop_keeps [OF assms(4) ok assms(2,3)]
  have d2: "md_stateLog d2 = md_stateLog d1"
    using mem.DoCommitSubCommand_keeps [OF _ _ assms(5)] keeps by (simp add: mem_ok_def)
  have "GetLatestByID (md_stateLog d2) sid = GetLatestByID (md_stateLog d) sid"
    by (rule GetLatestByID_cong) (use keeps d2 in simp)
  with assms(5-10) committable_same [OF assms(5)]
  have "Commit_loop lb (cmd # post) h1 d1 = (Err (ErrRevMismatch [sid]), cmd' # post, h2, d2)" by simp
  with Commit_loop_append [OF assms(4)] assms(11) keeps d2 show ?thesis
    by (auto simp: mem_Commit_def)
qed

lemma mem_Commit_stale_refused_instance:
  "fst (mem_Commit wire_libs (\<lambda>_. True) [NoopCmd, ParkCmd (Park (Some 0))]
    [0 \<mapsto> (new_ctx ''a'')\<lparr>sc_Committed := State0\<lparr>s_Rev := 7\<rparr>\<rparr>] New) = Err (ErrRevMismatch [''a''])"
proof -
  let ?c = "(new_ctx ''a'')\<lparr>sc_Committed := State0\<lparr>s_Rev := 7\<rparr>\<rparr>"
  let ?h = "[0 \<mapsto> ?c]"
  obtain r cs h' d' where c: "mem_Commit wire_libs (\<lambda>_. True) ([NoopCmd] @ ParkCmd (Park (Some 0)) # []) ?h New = (r, cs, h', d')"
    by (metis surj_pair)
  obtain h2 where do: "Park_Do (Park (Some 0)) ?h = (Ok (), h2)" "deref h2 (Some 0) \<noteq> None"
    "s_ID (sc_Current (the (deref h2 (Some 0)))) = ''a''" "s_Rev (sc_Committed (the (deref h2 (Some 0)))) = 7"
    by (simp add: Park_Do_def Park_def with_ctx_def deref_def store_def Let_def new_ctx_def State0_def)
  then obtain x where x: "deref h2 (Some 0) = Some x" by auto
  have sub: "DoCommitSubCommand wire_libs memdriver_ops (ParkCmd (Park (Some 0))) ?h New
      = (Ok (), ParkCmd (Park (Some 0)), h2, New)"
    and pre: "Commit_loop wire_libs [NoopCmd] ?h New = (Ok (), [NoopCmd], ?h, New)"
    using do by simp_all
  have "wf_heap ?h" by (simp add: wf_heap_def new_ctx_def wf_StateCtx_def wf_State_def)
  then have "r = Err (ErrRevMismatch [''a'']) \<and> sl_entries (md_stateLog d') = sl_entries (md_stateLog New)"
    by (rule mem_Commit_stale_refused [OF mem_idle_New _ _ pre sub _ x _ _ _ c])
      (use do x in \<open>simp_all add: Park_def room_def New_def GetLatestByID_def\<close>)
  with c show ?thesis by simp
qed

lemma Transit_Do_ok:
  assumes "deref h p = Some c" "to \<noteq> []"
  shows "Transit_Do (Transit p to) h = (Ok (), store h p (set_Transition
    (append_Transition c (s_Transition (sc_Current c))) \<lparr>ts_To = to, ts_Annotations = None\<rparr>))"
  using assms
  by (simp add: Transit_Do_def Transit_def with_ctx_def Let_def nextTransitionOrCurrent_def Transition0_def)

lemma tr_StateCtx_Transit [simp]: "tr_StateCtx (Transit p to) = p"
  by (simp add: Transit_def)

lemma deref_store [simp]: "deref (store h (Some a) c) (Some a) = Some c"
  by (simp add: deref_def store_def)

lemma store_store [simp]: "store (store h p c) p c' = store h p c'"
  by (auto simp: store_def split: option.splits)

lemma deref_Some: "deref h p = Some c \<Longrightarrow> \<exists>a. p = Some a"
  by (auto simp: deref_def split: option.splits)

text \<open>The commit of one transit, on a context at the latest revision and on a stale one.\<close>

lemma Commit_loop_transit:
  fixes lb h d a to and c :: StateCtx
  defines "c1 \<equiv> set_Transition (append_Transition c (s_Transition (sc_Current c))) \<lparr>ts_To = to, ts_Annotations = None\<rparr>"
  assumes "deref h (Some a) = Some c" "to \<noteq> []" "s_ID (sc_Current c) \<noteq> []"
  shows "Commit_loop lb [TransitCmd (Transit (Some a) to)] h d =
    (if snd (GetLatestByID (md_stateLog d) (s_ID (sc_Current c))) \<noteq> s_Rev (sc_Committed c)
     then (Err (ErrRevMismatch [s_ID (sc_Current c)]), [TransitCmd (Transit (Some a) to)], store h (Some a) c1, d)
     else (case Append lb (md_stateLog d) c1 of
        (l, c') \<Rightarrow> (Ok (), [TransitCmd (Transit (Some a) to)], store h (Some a) c', d\<lparr>md_stateLog := l\<rparr>)))"
  unfolding c1_def using assms(2-)
  by (simp add: Transit_Do_ok Let_def split: prod.split)

text \<open>
  C2: no update is lost. After a commit that wrote the state \<open>sid\<close>, a transit of any context of
  that state whose committed revision is from before that commit is refused with a revision
  mismatch that names the state, and the log does not change.
\<close>

theorem mem_Commit_no_lost_update:
  assumes "mem_idle d" "wf_heap h" "room (md_stateLog d) (committables cmds)"
    and "mem_Commit lb pick cmds h d = (Ok (), cs, h', d')"
    and "e \<in> set (sl_entries (md_stateLog d'))" "entry_ID e = sid" "sl_rev (md_stateLog d) < entry_Rev e"
    and "deref h2 (Some a) = Some c" "s_ID (sc_Current c) = sid" "s_Rev (sc_Committed c) \<le> sl_rev (md_stateLog d)"
    and "to \<noteq> []"
  shows "\<exists>h3. mem_Commit lb pick [TransitCmd (Transit (Some a) to)] h2 d'
    = (Err (ErrRevMismatch [sid]), [TransitCmd (Transit (Some a) to)], h3, d')"
proof -
  have idle: "mem_idle d'" using mem_Commit_idle [OF assms(1-4)] by simp
  then have log: "log_ok (md_stateLog d')" "d' = d'\<lparr>md_stateLog := Rollback (md_stateLog d')\<rparr>"
    by (simp_all add: mem_idle_def mem_ok_def Rollback_def)
  from GetLatestByID_max [OF log(1) assms(5,6)] assms(7,10)
  have "snd (GetLatestByID (md_stateLog d') (s_ID (sc_Current c))) \<noteq> s_Rev (sc_Committed c)"
    using assms(9) by simp
  moreover have "s_ID (sc_Current c) \<noteq> []"
    using log(1) assms(5,6,9) by (auto simp: log_ok_def list_all_iff entry_ok_def)
  ultimately show ?thesis
    using Commit_loop_transit [OF assms(8,11), of lb d'] assms(9) log(2)
    by (simp add: mem_Commit_def)
qed

theorem mem_Commit_no_lost_update_witness:
  "\<exists>h3. mem_Commit wire_libs (\<lambda>_. True) [TransitCmd (Transit (Some 1) ''g'')]
      [0 \<mapsto> new_ctx ''a'', 1 \<mapsto> new_ctx ''a''] (snd (snd (snd first_commit)))
    = (Err (ErrRevMismatch [''a'']), [TransitCmd (Transit (Some 1) ''g'')], h3, snd (snd (snd first_commit)))"
proof -
  let ?e = "hd (sl_entries (md_stateLog (snd (snd (snd first_commit)))))"
  have "?e \<in> set (sl_entries (md_stateLog (snd (snd (snd first_commit)))))"
    by (rule hd_in_set) code_simp
  moreover have "entry_ID ?e = ''a''" by code_simp
  moreover have "sl_rev (md_stateLog New) < entry_Rev ?e" by code_simp
  moreover have "deref [0 \<mapsto> new_ctx ''a'', 1 \<mapsto> new_ctx ''a''] (Some 1) = Some (new_ctx ''a'')"
    by (simp add: deref_def)
  moreover have "s_ID (sc_Current (new_ctx ''a'')) = ''a''" by code_simp
  moreover have "s_Rev (sc_Committed (new_ctx ''a'')) \<le> sl_rev (md_stateLog New)" by code_simp
  ultimately show ?thesis
    by (rule mem_Commit_no_lost_update [OF mem_idle_New wf_heap_new(1) room_New first_commit_ok]) simp
qed

lemma Commit_loop_transit_Cons:
  fixes lb h d a to cmds and c :: StateCtx
  defines "c1 \<equiv> set_Transition (append_Transition c (s_Transition (sc_Current c))) \<lparr>ts_To = to, ts_Annotations = None\<rparr>"
  assumes "deref h (Some a) = Some c" "to \<noteq> []" "s_ID (sc_Current c) \<noteq> []"
    and "snd (GetLatestByID (md_stateLog d) (s_ID (sc_Current c))) = s_Rev (sc_Committed c)"
    and "Append lb (md_stateLog d) c1 = (l, c')"
  shows "fst (Commit_loop lb (TransitCmd (Transit (Some a) to) # cmds) h d)
      = fst (Commit_loop lb cmds (store h (Some a) c') (d\<lparr>md_stateLog := l\<rparr>))"
    and "snd (snd (snd (Commit_loop lb (TransitCmd (Transit (Some a) to) # cmds) h d)))
      = snd (snd (snd (Commit_loop lb cmds (store h (Some a) c') (d\<lparr>md_stateLog := l\<rparr>))))"
  using assms(2-)
  by (simp_all add: Transit_Do_ok c1_def Let_def split: prod.split)

text \<open>
  Two different contexts of one state, both at its latest revision, committed one right after
  the other: both pass the revision check, since the pending changes are not looked at, and the
  unused result of \<open>slices.CompactFunc\<close> makes the commit panic on a nil pointer instead of
  returning a revision mismatch. The entries stay as they were.
\<close>

lemma mem_Commit_duplicate_panics:
  assumes "mem_idle d" "wf_heap h" "room (md_stateLog d) 2" "a \<noteq> b" "to \<noteq> []" "to' \<noteq> []"
    and "deref h (Some a) = Some c" "deref h (Some b) = Some c'"
    and "s_ID (sc_Current c) = sid" "s_ID (sc_Current c') = sid" "sid \<noteq> []"
    and "s_Rev (sc_Committed c) = snd (GetLatestByID (md_stateLog d) sid)"
    and "s_Rev (sc_Committed c') = snd (GetLatestByID (md_stateLog d) sid)"
    and "mem_Commit lb pick [TransitCmd (Transit (Some a) to), TransitCmd (Transit (Some b) to')] h d = (r, cs, h', d')"
  shows "r = nil_deref \<and> sl_entries (md_stateLog d') = sl_entries (md_stateLog d)"
proof -
  let ?ts = "\<lambda>c to. set_Transition (append_Transition c (s_Transition (sc_Current c))) \<lparr>ts_To = to, ts_Annotations = None\<rparr>"
  let ?l = "md_stateLog d"
  from assms(1) have ok: "log_ok ?l" "sl_changes ?l = []" by (simp_all add: mem_idle_def mem_ok_def)
  have wf: "wf_StateCtx (?ts c to)" "wf_StateCtx (?ts c' to')"
    using wf_heap_deref [OF assms(2)] assms(7,8) by (simp_all add: wf_append_reset wf_Transition_def)
  have rm: "room ?l (Suc 1)" using assms(3) by (simp add: numeral_2_eq_2)
  obtain l1 c1 where 1: "Append lb ?l (?ts c to) = (l1, c1)" by fastforce
  note s1 = Append_spec(1) [OF rm 1] and i1 = committedT_spec(1) [OF ok(1) wf(1) _ rm, of lb]
  have l1: "log_ok l1" "room l1 (Suc 0)"
    using Append_log_ok [OF ok(1) wf(1) _ rm 1] assms(9,11) by simp_all
  obtain l2 c2 where 2: "Append lb l1 (?ts c' to') = (l2, c2)" by fastforce
  note s2 = Append_spec(1) [OF l1(2) 2] and i2 = committedT_spec(1) [OF l1(1) wf(2) _ l1(2), of lb]
  have g: "GetLatestByID l1 sid = GetLatestByID ?l sid" by (rule GetLatestByID_cong) (simp add: s1)
  have b: "deref (store h (Some a) c1) (Some b) = Some c'"
    using assms(4,8) by (simp add: deref_def store_def)
  have app2: "Append lb (md_stateLog (d\<lparr>md_stateLog := l1\<rparr>)) (?ts c' to') = (l2, c2)" using 2 by simp
  have run: "fst (Commit_loop lb [TransitCmd (Transit (Some a) to), TransitCmd (Transit (Some b) to')] h d) = Ok ()"
    "md_stateLog (snd (snd (snd (Commit_loop lb [TransitCmd (Transit (Some a) to),
       TransitCmd (Transit (Some b) to')] h d)))) = l2"
    using Commit_loop_transit_Cons [OF assms(7,5) _ _ 1, of "[TransitCmd (Transit (Some b) to')]"]
      Commit_loop_transit_Cons [OF b assms(6) _ _ app2, of "[]"] assms(9-13) g by simp_all
  have ids: "map entry_ID (sl_changes l2) = [sid, sid]"
    using i1 i2 assms(9-11) by (simp add: s1 s2 ok(2))
  from mem_Commit_loop [OF assms(14)] obtain d1 l3 where "md_stateLog d1 = l2"
    "stateLog_Commit pick (md_stateLog d1) = (r, l3)" "d' = d1\<lparr>md_stateLog := Rollback l3\<rparr>"
    using run by (metis fst_conv snd_conv)
  moreover have "length (sl_changes l2) = 2" using arg_cong [OF ids, of length] by simp
  then have "stateLog_Commit pick l2 = (nil_deref, l2)" using ids by (simp add: stateLog_Commit_def)
  moreover have "sl_entries l2 = sl_entries ?l" by (simp add: s1 s2)
  ultimately show ?thesis by simp
qed

lemma mem_Commit_duplicate_panics_instance:
  "fst (mem_Commit wire_libs (\<lambda>_. True) [TransitCmd (Transit (Some 0) ''f''), TransitCmd (Transit (Some 1) ''g'')]
      [0 \<mapsto> new_ctx ''a'', 1 \<mapsto> new_ctx ''a''] New) = nil_deref"
proof -
  obtain r cs h' d' where c: "mem_Commit wire_libs (\<lambda>_. True)
      [TransitCmd (Transit (Some 0) ''f''), TransitCmd (Transit (Some 1) ''g'')]
      [0 \<mapsto> new_ctx ''a'', 1 \<mapsto> new_ctx ''a''] New = (r, cs, h', d')"
    by (metis surj_pair)
  have "r = nil_deref \<and> sl_entries (md_stateLog d') = sl_entries (md_stateLog New)"
    by (rule mem_Commit_duplicate_panics [OF mem_idle_New wf_heap_new(2) _ _ _ _ _ _ _ _ _ _ _ c,
          where sid = "''a''" and c = "new_ctx ''a''" and c' = "new_ctx ''a''"]) code_simp+
  with c show ?thesis by simp
qed

text \<open>
  What the previous revision of a state carried is still there after a commit, even when the
  committed context does not have it: the entry starts as a copy of the latest one and
  \<open>CopyTo\<close> never removes a key. An annotation of the previous transition reappears in the
  committed transition and in the context that was committed.
\<close>

lemma Append_keeps_stale_transition_annotation:
  assumes "log_ok l" "wf_StateCtx c" "s_ID (sc_Current c) \<noteq> []" "room l (Suc n)"
    and "latest_by (\<lambda>e. entry_ID e = s_ID (sc_Current c)) (rev (sl_entries l)) = Some e0"
    and "gm_lookup (ts_Annotations (s_Transition (sc_Current e0))) k = Some v"
    and "gm_lookup (ts_Annotations (s_Transition (sc_Current c))) k = None"
    and "Append lb l c = (l', c')"
  shows "gm_lookup (ts_Annotations (s_Transition (sc_Committed (last (sl_changes l'))))) k = Some v
    \<and> gm_lookup (ts_Annotations (s_Transition (sc_Current c'))) k = Some v"
proof -
  have e0: "wf_StateCtx e0"
    using latest_by_Some [OF assms(5)] assms(1) by (auto simp: log_ok_def list_all_iff entry_ok_def)
  have t0: "fst (GetLatestByID l (s_ID (sc_Current c))) = Some (StateCtx_CopyTo e0 StateCtx0)"
    using assms(5) by (simp add: GetLatestByID_def)
  have w: "gm_wf (ts_Annotations (s_Transition (sc_Current c)))" "gm_wf (ts_Annotations (s_Transition (sc_Current e0)))"
    using assms(2) e0 by simp_all
  have "gm_lookup (ts_Annotations (s_Transition (sc_Committed (committedT lb l c)))) k = Some v"
    using assms(6,7) w
    by (simp add: committedT_def Let_def t0 gm_lookup_merge)
  moreover have "gm_wf (ts_Annotations (s_Transition (sc_Committed (committedT lb l c))))"
    using committedT_spec(3) [OF assms(1-4), of lb]
    by (simp add: entry_ok_def wf_StateCtx_def wf_State_def wf_Transition_def)
  ultimately show ?thesis
    using Append_spec [OF assms(4,8)] by (simp add: gm_lookup_merge)
qed

lemma Append_keeps_stale_transition_annotation_instance:
  "\<exists>l c e0 l' c'. Append wire_libs l c = (l', c')
    \<and> gm_lookup (ts_Annotations (s_Transition (sc_Current c))) ''flowstate.delay.until'' = None
    \<and> gm_lookup (ts_Annotations (s_Transition (sc_Current c'))) ''flowstate.delay.until'' = Some ''5''
    \<and> latest_by (\<lambda>e. entry_ID e = ''a'') (rev (sl_entries l)) = Some e0"
proof -
  let ?e0 = "committedT wire_libs (md_stateLog New) (set_Transition (new_ctx ''a'')
    \<lparr>ts_To = ''f'', ts_Annotations = Some [(''flowstate.delay.until'', ''5'')]\<rparr>)"
  let ?l = "(md_stateLog New)\<lparr>sl_rev := 1, sl_entries := [?e0]\<rparr>"
  let ?c = "set_Transition (new_ctx ''a'') \<lparr>ts_To = ''g'', ts_Annotations = None\<rparr>"
  obtain l' c' where app: "Append wire_libs ?l ?c = (l', c')" by fastforce
  have id: "s_ID (sc_Current ?c) = ''a''" by code_simp
  have lk: "latest_by (\<lambda>e. entry_ID e = ''a'') (rev (sl_entries ?l)) = Some ?e0"
    by (simp, code_simp)
  have no: "gm_lookup (ts_Annotations (s_Transition (sc_Current ?c))) ''flowstate.delay.until'' = None"
    by code_simp
  have "gm_lookup (ts_Annotations (s_Transition (sc_Committed (last (sl_changes l'))))) ''flowstate.delay.until'' = Some ''5''
    \<and> gm_lookup (ts_Annotations (s_Transition (sc_Current c'))) ''flowstate.delay.until'' = Some ''5''"
  proof (rule Append_keeps_stale_transition_annotation [OF _ _ _ _ _ _ no app, where n = 0])
    show "latest_by (\<lambda>e. entry_ID e = s_ID (sc_Current ?c)) (rev (sl_entries ?l)) = Some ?e0"
      unfolding id by (rule lk)
  qed code_simp+
  with app no lk show ?thesis by blast
qed

end
