(* ===== verification/MemdriverReads.thy ===== *)
theory MemdriverReads
  imports MemdriverProps
begin

text \<open>
  What the read commands of the in-memory driver return: the pages of \<open>GetStates\<close>, label
  matching, delayed states and data blobs.
\<close>

section \<open>Pages of the log\<close>

definition entry_copy :: "StateCtx \<Rightarrow> StateCtx" where
  "entry_copy e = StateCtx_CopyTo e StateCtx0"

lemma entry_copy_simps [simp]: "entry_Rev (entry_copy e) = entry_Rev e" "entry_ID (entry_copy e) = entry_ID e"
  by (simp_all add: entry_copy_def)

definition after :: "int \<Rightarrow> StateCtx list \<Rightarrow> StateCtx list" where
  "after r es = map entry_copy (filter (\<lambda>e. r < entry_Rev e) es)"

lemma after_all: "\<forall>e \<in> set es. r < entry_Rev e \<Longrightarrow> after r es = map entry_copy es"
  by (simp add: after_def)

lemma after_sorted:
  assumes "sorted_wrt (<) (map entry_Rev es)" "after r es = xs @ ys" "xs \<noteq> []"
  shows "after (entry_Rev (last xs)) es = ys"
  using assms
proof (induction es arbitrary: xs)
  case (Cons e es)
  show ?case
  proof (cases "r < entry_Rev e")
    case False
    with Cons.prems(2,3) have "after r es = xs @ ys" by (simp add: after_def)
    moreover have "entry_Rev e < entry_Rev (last xs)"
    proof -
      have "last xs \<in> set (after r es)" using \<open>after r es = xs @ ys\<close> Cons.prems(3) by simp
      then obtain e' where "e' \<in> set es" "last xs = entry_copy e'" by (auto simp: after_def)
      with Cons.prems(1) show ?thesis by simp
    qed
    ultimately show ?thesis using Cons.IH [of xs] Cons.prems by (simp add: after_def)
  next
    case True
    have gt: "\<forall>e' \<in> set es. entry_Rev e < entry_Rev e'" using Cons.prems(1) by simp
    from True Cons.prems(2,3) obtain xs' where xs: "xs = entry_copy e # xs'" "after r es = xs' @ ys"
      by (cases xs) (auto simp: after_def)
    show ?thesis
    proof (cases "xs' = []")
      case True
      have "\<forall>e' \<in> set es. r < entry_Rev e'" using gt \<open>r < entry_Rev e\<close> by force
      with True xs gt show ?thesis by (simp add: after_all) (simp add: after_def)
    next
      case False
      have "last xs' \<in> set (after r es)" using xs(2) False by simp
      then have "entry_Rev e < entry_Rev (last xs')" using gt by (auto simp: after_def)
      with Cons.IH [of xs'] Cons.prems(1) xs False show ?thesis by (simp add: after_def)
    qed
  qed
qed (simp add: after_def)

lemma Entries_loop_spec:
  assumes "sorted_wrt (<) (map entry_Rev es)" "n < limit"
  shows "Entries_loop es since n limit =
    (let xs = take (nat (limit - n)) (after since es)
     in (xs, if xs = [] then since else entry_Rev (last xs)))"
  using assms
proof (induction es arbitrary: since n)
  case (Cons e es)
  show ?case
  proof (cases "entry_Rev e \<le> since")
    case True
    with Cons show ?thesis by (simp add: after_def)
  next
    case False
    have gt: "\<forall>e' \<in> set es. entry_Rev e < entry_Rev e'" using Cons.prems(1) by simp
    moreover from this have "\<forall>e' \<in> set es. since < entry_Rev e'" using False by force
    ultimately have eq: "after (entry_Rev e) es = after since es" by (simp add: after_all)
    obtain m where m: "nat (limit - n) = Suc m" using Cons.prems(2) by (metis Suc_pred diff_gt_0_iff_gt zero_less_nat_eq)
    have m': "nat (limit - (n + 1)) = m" using m by simp
    have af: "after since (e # es) = entry_copy e # after since es" using False by (simp add: after_def)
    show ?thesis
    proof (cases "n + 1 = limit")
      case True
      with m have "m = 0" by simp
      with True False m af show ?thesis by (simp add: Let_def entry_copy_def)
    next
      case more: False
      with Cons.prems have "Entries_loop es (entry_Rev e) (n + 1) limit =
        (let xs = take m (after since es) in (xs, if xs = [] then entry_Rev e else entry_Rev (last xs)))"
        using Cons.IH [of "n + 1" "entry_Rev e"] by (simp add: m' eq)
      with more False m af show ?thesis by (simp add: Let_def entry_copy_def [symmetric])
    qed
  qed
qed (simp add: after_def)

lemma Entries_spec:
  assumes "sorted_wrt (<) (map entry_Rev (sl_entries l))" "0 < limit"
  shows "Entries l since limit =
    (let xs = take (nat limit) (after since (sl_entries l))
     in (xs, if xs = [] then since else entry_Rev (last xs)))"
  using Entries_loop_spec [OF assms(1), of 0 limit since] assms(2) by (simp add: Entries_def)

section \<open>GetStates\<close>

definition passes :: "GetStatesCommand \<Rightarrow> StateCtx \<Rightarrow> bool" where
  "passes cmd e \<longleftrightarrow> (IsZero (gs_SinceTime cmd)
      \<or> UnixMilli (gs_SinceTime cmd) \<le> UnixMilli (s_CommittedAt (sc_Committed e)))
    \<and> matchLabels (sc_Committed e) (gs_Labels cmd)"

lemma passes_copy:
  assumes "wf_StateCtx e"
  shows "sc_Committed (entry_copy e) = norm_State (sc_Committed e)"
  using assms by (simp add: entry_copy_def State_CopyTo_fresh wf_StateCtx_fields)

text \<open>The committed states after a revision that pass the filters, in the order of the log.\<close>

definition matches :: "stateLog \<Rightarrow> GetStatesCommand \<Rightarrow> int \<Rightarrow> State list" where
  "matches l cmd r = map sc_Committed (filter (passes cmd) (after r (sl_entries l)))"

lemma fold_add_state:
  "\<not> gs_LatestOnly cmd \<Longrightarrow> fold (add_state cmd) xs acc = acc @ map sc_Committed (filter (passes cmd) xs)"
  by (induction xs arbitrary: acc) (auto simp: add_state_def passes_def)

lemma after_last:
  assumes "log_ok l" "sl_rev l \<le> r"
  shows "after r (sl_entries l) = []"
  using assms by (force simp: after_def log_ok_def list_all_iff entry_ok_def filter_empty_conv)

definition GetStates_post :: "stateLog \<Rightarrow> GetStatesCommand \<Rightarrow> State list \<Rightarrow> GetStatesResult \<Rightarrow> bool" where
  "GetStates_post l cmd all res \<longleftrightarrow> gsr_States res = take (nat (gs_Limit cmd)) all
    \<and> (gsr_More res \<longrightarrow> gs_Limit cmd < int (length all))
    \<and> (\<not> gsr_More res \<longrightarrow> gsr_States res = all \<or> int (length (gsr_States res)) = gs_Limit cmd)"

lemma GetStates_loop_spec:
  assumes "log_ok l" "\<not> gs_LatestOnly cmd" "int (length acc) < gs_Limit cmd"
  shows "GetStates_post l cmd (acc @ matches l cmd since) (GetStates_loop l cmd (sl_rev l) acc since)"
  using assms(3)
proof (induction "length (after since (sl_entries l))" arbitrary: acc since rule: less_induct)
  case less
  let ?all = "after since (sl_entries l)" and ?n = "nat (gs_Limit cmd + 1)"
  let ?xs = "take ?n ?all" and ?ys = "drop ?n ?all"
  have sorted: "sorted_wrt (<) (map entry_Rev (sl_entries l))"
    using assms(1) by (simp add: log_ok_def sorted_wrt_append)
  have E: "Entries l since (gs_Limit cmd + 1) = (?xs, if ?xs = [] then since else entry_Rev (last ?xs))"
    using Entries_spec [OF sorted, of "gs_Limit cmd + 1" since] less.prems by (simp add: Let_def)
  show ?case
  proof (cases "?xs = []")
    case True
    then have "?all = []" using less.prems by auto
    with True E less.prems show ?thesis
      by (subst GetStates_loop.simps) (simp add: GetStates_post_def matches_def)
  next
    case False
    let ?acc = "acc @ map sc_Committed (filter (passes cmd) ?xs)" and ?r = "entry_Rev (last ?xs)"
    have rest: "after ?r (sl_entries l) = ?ys"
      by (rule after_sorted [OF sorted _ False]) simp
    have all: "acc @ matches l cmd since = ?acc @ matches l cmd ?r"
      unfolding matches_def rest append.assoc map_append [symmetric] filter_append [symmetric] by simp
    have step: "GetStates_loop l cmd (sl_rev l) acc since =
      (if int (length ?acc) \<ge> gs_Limit cmd then
         \<lparr>gsr_States = take (nat (gs_Limit cmd)) ?acc, gsr_More = int (length ?acc) > gs_Limit cmd\<rparr>
       else if ?r \<ge> sl_rev l then \<lparr>gsr_States = ?acc, gsr_More = False\<rparr>
       else GetStates_loop l cmd (sl_rev l) ?acc ?r)"
      using False by (subst GetStates_loop.simps) (simp add: E Let_def fold_add_state [OF assms(2)])
    consider "int (length ?acc) \<ge> gs_Limit cmd" | "int (length ?acc) < gs_Limit cmd" "?r \<ge> sl_rev l"
      | "int (length ?acc) < gs_Limit cmd" "?r < sl_rev l" by linarith
    then show ?thesis
    proof cases
      case 1
      then show ?thesis unfolding step all by (auto simp: GetStates_post_def)
    next
      case 2
      then have "matches l cmd ?r = []" by (simp add: matches_def after_last [OF assms(1)])
      with 2 show ?thesis unfolding step all by (simp add: GetStates_post_def)
    next
      case 3
      have "length (after ?r (sl_entries l)) < length ?all"
        unfolding rest using False by (simp add: not_less_eq_eq)
      from less.hyps [OF this 3(1)] 3 show ?thesis unfolding step all by simp
    qed
  qed
qed

definition all_states :: GetStatesCommand where
  "all_states = \<lparr>gs_SinceRev = 0, gs_SinceTime = zero_time, gs_Labels = [], gs_LatestOnly = False,
    gs_Limit = 50, gs_Result = None\<rparr>"

definition first_driver :: memdriver where
  "first_driver = snd (snd (snd first_commit))"

lemma mem_idle_first: "mem_idle first_driver"
  by code_simp

text \<open>
  C11: \<open>GetStates\<close> over all revisions returns the first \<open>Limit\<close> committed states after
  \<open>SinceRev\<close> that pass the time and label filters, in revision order, whatever the number of
  pages it reads; \<open>More\<close> is only set when there are more, and when it is not set and fewer than
  \<open>Limit\<close> states came back there are no more.
\<close>

theorem mem_GetStates_spec:
  assumes "mem_idle d" "\<not> gs_LatestOnly cmd" "gs_SinceRev cmd \<noteq> - 1" "0 < gs_Limit cmd"
  shows "\<exists>res. mem_GetStates cmd d = Ok (cmd\<lparr>gs_Result := Some res\<rparr>)
    \<and> gsr_States res = take (nat (gs_Limit cmd)) (matches (md_stateLog d) cmd (gs_SinceRev cmd))
    \<and> (gsr_More res \<longrightarrow> gs_Limit cmd < int (length (matches (md_stateLog d) cmd (gs_SinceRev cmd))))
    \<and> (\<not> gsr_More res \<longrightarrow> int (length (gsr_States res)) < gs_Limit cmd
        \<longrightarrow> gsr_States res = matches (md_stateLog d) cmd (gs_SinceRev cmd))"
  using GetStates_loop_spec [of "md_stateLog d" cmd "[]" "gs_SinceRev cmd"] assms
  by (auto simp: mem_GetStates_def Let_def GetStates_post_def mem_idle_def mem_ok_def)

theorem mem_GetStates_spec_witness:
  "\<exists>res. mem_GetStates all_states first_driver = Ok (all_states\<lparr>gs_Result := Some res\<rparr>)
    \<and> map s_ID (gsr_States res) = [''a'']"
proof -
  have "map s_ID (take (nat (gs_Limit all_states)) (matches (md_stateLog first_driver) all_states (gs_SinceRev all_states))) = [''a'']"
    by code_simp
  then show ?thesis
    using mem_GetStates_spec [OF mem_idle_first, of all_states] by (auto simp: all_states_def)
qed

lemma latest_match_last:
  assumes "log_ok l" "latest_by P (rev (sl_entries l)) = Some e" "e' \<in> set (sl_entries l)" "P e'"
  shows "entry_Rev e' \<le> entry_Rev e"
proof -
  have "sorted_wrt (\<lambda>x y. entry_Rev x < entry_Rev y) (filter P (sl_entries l))"
    using assms(1) by (simp add: log_ok_def sorted_wrt_append sorted_wrt_map sorted_wrt_filter)
  from sorted_last [OF this] assms(2-4) show ?thesis by (auto simp: latest_by_rev split: if_splits)
qed

lemma gm_len_norm_labels [simp]: "labels_hit (norm_State s) ls = labels_hit s ls"
  by (simp add: labels_hit_def)

lemma matchLabels_norm [simp]: "matchLabels (norm_State s) ls = matchLabels s ls"
  by (simp add: matchLabels_def list_ex_iff)

text \<open>
  With \<open>WithSinceLatest\<close> the result is the latest state that matches the labels, alone, or
  nothing when no state matches.
\<close>

lemma mem_GetStates_since_latest:
  assumes "mem_idle d" "\<not> gs_LatestOnly cmd" "gs_SinceRev cmd = - 1" "1 < gs_Limit cmd"
  shows "\<exists>more. mem_GetStates cmd d = Ok (cmd\<lparr>gs_Result := Some \<lparr>gsr_States =
      (case latest_by (\<lambda>e. matchLabels (sc_Committed e) (gs_Labels cmd)) (rev (sl_entries (md_stateLog d))) of
         None \<Rightarrow> [] | Some e \<Rightarrow> [norm_State (sc_Committed e)]), gsr_More = more\<rparr>\<rparr>)"
proof -
  let ?l = "md_stateLog d" and ?P = "\<lambda>e. matchLabels (sc_Committed e) (gs_Labels cmd)"
  have ok: "log_ok ?l" using assms(1) by (simp add: mem_idle_def mem_ok_def)
  have wf: "\<forall>e \<in> set (sl_entries ?l). wf_StateCtx e"
    using ok by (auto simp: log_ok_def list_all_iff entry_ok_def)
  show ?thesis
  proof (cases "latest_by ?P (rev (sl_entries ?l))")
    case None
    then have "\<forall>e \<in> set (sl_entries ?l). \<not> ?P e" by (simp add: latest_by_None)
    then have "matches ?l cmd 0 = []"
      using wf by (auto simp: matches_def after_def filter_empty_conv passes_def passes_copy)
    with GetStates_loop_spec [OF ok assms(2), of "[]" 0] assms(4)
    have "gsr_States (GetStates_loop ?l cmd (sl_rev ?l) [] 0) = []" by (simp add: GetStates_post_def)
    with None assms(3,4) show ?thesis
      by (intro exI [of _ "gsr_More (GetStates_loop ?l cmd (sl_rev ?l) [] 0)"])
        (simp add: mem_GetStates_def Let_def GetLatestByLabels_def)
  next
    case (Some e)
    have e: "e \<in> set (sl_entries ?l)" using latest_by_Some [OF Some] by simp
    have "matches ?l cmd (entry_Rev e) = []"
      using latest_match_last [OF ok Some] wf
      by (force simp: matches_def after_def filter_empty_conv passes_def passes_copy)
    with GetStates_loop_spec [OF ok assms(2), of "[sc_Committed (entry_copy e)]" "entry_Rev e"] assms(4)
    have "gsr_States (GetStates_loop ?l cmd (sl_rev ?l) [sc_Committed (entry_copy e)] (entry_Rev e))
      = [norm_State (sc_Committed e)]"
      using wf e by (simp add: GetStates_post_def passes_copy take_Cons')
    with Some assms(3,4) show ?thesis
      by (intro exI [of _ "gsr_More (GetStates_loop ?l cmd (sl_rev ?l) [sc_Committed (entry_copy e)] (entry_Rev e))"])
        (simp add: mem_GetStates_def Let_def GetLatestByLabels_def entry_copy_def)
  qed
qed

lemma mem_GetStates_since_latest_instance:
  "\<exists>more. mem_GetStates (WithSinceLatest all_states) first_driver = Ok ((WithSinceLatest all_states)\<lparr>gs_Result :=
    Some \<lparr>gsr_States = (case latest_by (\<lambda>e. matchLabels (sc_Committed e) []) (rev (sl_entries (md_stateLog first_driver))) of
         None \<Rightarrow> [] | Some e \<Rightarrow> [norm_State (sc_Committed e)]), gsr_More = more\<rparr>\<rparr>)"
  using mem_GetStates_since_latest [OF mem_idle_first, of "WithSinceLatest all_states"]
  by (simp add: WithSinceLatest_def all_states_def)

lemma distinct_add_one:
  "gs_LatestOnly cmd \<Longrightarrow> distinct (map s_ID acc) \<Longrightarrow> distinct (map s_ID (add_state cmd e acc))"
  by (auto simp: add_state_def filterStatesWithID_def entry_ID_def distinct_map_filter)

lemma distinct_add_state:
  "gs_LatestOnly cmd \<Longrightarrow> distinct (map s_ID acc) \<Longrightarrow> distinct (map s_ID (fold (add_state cmd) xs acc))"
  by (induction xs arbitrary: acc) (simp_all add: distinct_add_one)

lemma distinct_take: "distinct (map f xs) \<Longrightarrow> distinct (map f (take n xs))"
  by (simp add: take_map [symmetric])

lemma GetStates_loop_distinct:
  "gs_LatestOnly cmd \<Longrightarrow> distinct (map s_ID acc)
    \<Longrightarrow> distinct (map s_ID (gsr_States (GetStates_loop l cmd u acc since)))"
proof (induction l cmd u acc since rule: GetStates_loop.induct)
  case (1 l cmd u acc since)
  obtain xs r where E: "Entries l since (gs_Limit cmd + 1) = (xs, r)" by fastforce
  note d = distinct_add_state [OF "1.prems", of xs]
  show ?case
    using 1(1) [OF E [symmetric] _ refl] "1.prems" d distinct_take [OF d]
    by (subst GetStates_loop.simps) (simp add: E Let_def)
qed

text \<open>With \<open>WithLatestOnly\<close> no state is returned twice.\<close>

lemma mem_GetStates_latest_distinct:
  assumes "gs_LatestOnly cmd" "mem_GetStates cmd d = Ok cmd'"
  shows "\<exists>res. gs_Result cmd' = Some res \<and> distinct (map s_ID (gsr_States res))"
  using assms GetStates_loop_distinct [OF assms(1)]
  by (auto simp: mem_GetStates_def Let_def split: if_splits option.splits prod.splits)

lemma mem_GetStates_latest_distinct_instance:
  "\<exists>res cmd'. mem_GetStates (WithLatestOnly all_states) first_driver = Ok cmd'
    \<and> gs_Result cmd' = Some res \<and> distinct (map s_ID (gsr_States res))"
proof -
  have lo: "gs_LatestOnly (WithLatestOnly all_states)" by (simp add: WithLatestOnly_def)
  have "is_ok (mem_GetStates (WithLatestOnly all_states) first_driver)" by code_simp
  then obtain cmd' where "mem_GetStates (WithLatestOnly all_states) first_driver = Ok cmd'"
    by (auto simp: is_ok_iff)
  with mem_GetStates_latest_distinct [OF lo this] show ?thesis by blast
qed

lemma gm_entry_iff: "gm_wf m \<Longrightarrow> (k, v) \<in> set (gm_entries m) \<longleftrightarrow> gm_lookup m k = Some v"
  by (simp add: gm_wf_def gm_lookup_def)

lemma gm_str_nonempty: "v \<noteq> [] \<Longrightarrow> gm_str m k = v \<longleftrightarrow> gm_lookup m k = Some v"
  by (auto simp: gm_str_def split: option.split)

lemma labels_subset:
  assumes "gm_wf labels" "\<forall>v \<in> snd ` set (gm_entries labels). v \<noteq> []"
  shows "list_all (\<lambda>(k, v). gm_str m k = v) (gm_entries labels) \<longleftrightarrow> gm_lookup labels \<subseteq>\<^sub>m gm_lookup m"
proof -
  have "gm_str m k = v \<longleftrightarrow> gm_lookup m k = Some v" if "(k, v) \<in> set (gm_entries labels)" for k v
    using that assms(2) by (intro gm_str_nonempty) force
  then have "list_all (\<lambda>(k, v). gm_str m k = v) (gm_entries labels)
      \<longleftrightarrow> (\<forall>(k, v) \<in> set (gm_entries labels). gm_lookup m k = Some v)"
    unfolding list_all_iff by (intro ball_cong refl) auto
  also have "\<dots> \<longleftrightarrow> (\<forall>k v. gm_lookup labels k = Some v \<longrightarrow> gm_lookup m k = Some v)"
    by (auto simp: gm_entry_iff [OF assms(1), symmetric])
  also have "\<dots> \<longleftrightarrow> gm_lookup labels \<subseteq>\<^sub>m gm_lookup m"
    by (auto simp: map_le_def dom_def)
  finally show ?thesis .
qed

lemma gm_len_mono:
  assumes "gm_wf m" "gm_lookup m \<subseteq>\<^sub>m gm_lookup m'"
  shows "gm_len m \<le> gm_len m'"
proof -
  have dom: "dom (gm_lookup x) = fst ` set (gm_entries x)" for x
    using dom_map_of_conv_image_fst [of "gm_entries x"] by (simp add: gm_lookup_def [abs_def])
  have "gm_len m = card (fst ` set (gm_entries m))"
    using assms(1) by (metis distinct_card gm_len_def gm_wf_def length_map list.set_map)
  also have "\<dots> \<le> card (fst ` set (gm_entries m'))"
    using map_le_implies_dom_le [OF assms(2)] by (simp add: dom card_mono)
  also have "\<dots> \<le> gm_len m'"
    by (metis card_length gm_len_def length_map list.set_map)
  finally show ?thesis .
qed

text \<open>
  A set of labels whose values are not empty matches a state exactly when the state carries
  every one of them; a list of sets matches when one of them, not empty, does.
\<close>

lemma matchLabels_iff:
  assumes "gm_wf (s_Labels s)" "\<forall>labels \<in> set orLabels. gm_wf labels \<and> (\<forall>v \<in> snd ` set (gm_entries labels). v \<noteq> [])"
  shows "matchLabels s orLabels \<longleftrightarrow> orLabels = []
    \<or> (\<exists>labels \<in> set orLabels. gm_entries labels \<noteq> [] \<and> gm_lookup labels \<subseteq>\<^sub>m gm_lookup (s_Labels s))"
proof -
  have "labels_hit s labels \<longleftrightarrow> gm_entries labels \<noteq> [] \<and> gm_lookup labels \<subseteq>\<^sub>m gm_lookup (s_Labels s)"
    if l: "labels \<in> set orLabels" for labels
  proof -
    have wf: "gm_wf labels" "\<forall>v \<in> snd ` set (gm_entries labels). v \<noteq> []" using assms(2) l by auto
    have "list_all (\<lambda>(k, v). gm_str (s_Labels s) k = v) (gm_entries labels)
      \<longleftrightarrow> gm_lookup labels \<subseteq>\<^sub>m gm_lookup (s_Labels s)"
      by (rule labels_subset [OF wf])
    moreover have "gm_len labels \<le> gm_len (s_Labels s)" if "gm_lookup labels \<subseteq>\<^sub>m gm_lookup (s_Labels s)"
      by (rule gm_len_mono [OF wf(1) that])
    ultimately show ?thesis by (auto simp: labels_hit_def gm_len_def)
  qed
  then show ?thesis by (auto simp: matchLabels_def list_ex_iff)
qed

section \<open>Delayed states\<close>

definition due :: "GetDelayedStatesCommand \<Rightarrow> DelayedState \<Rightarrow> bool" where
  "due cmd ds \<longleftrightarrow> gt_Since cmd \<le> ds_ExecuteAt ds \<and> ds_ExecuteAt ds \<le> gt_Until cmd \<and> gt_Offset cmd < ds_Offset ds"

lemma delayed_Get_loop_spec:
  "n < limit \<Longrightarrow> delayed_Get_loop dss (gt_Since cmd) (gt_Until cmd) (gt_Offset cmd) n limit
    = take (nat (limit - n)) (filter (due cmd) dss)"
proof (induction dss arbitrary: n)
  case (Cons ds dss)
  obtain m where m: "nat (limit - n) = Suc m" using Cons.prems by (metis Suc_pred diff_gt_0_iff_gt zero_less_nat_eq)
  then have m': "nat (limit - (n + 1)) = m" by simp
  show ?case
  proof (cases "due cmd ds")
    case True
    moreover have "n + 1 \<ge> limit \<longleftrightarrow> m = 0" using m Cons.prems by linarith
    ultimately show ?thesis using Cons.IH [of "n + 1"] m m' by (auto simp: due_def)
  qed (use Cons in \<open>auto simp: due_def\<close>)
qed simp

lemma mem_GetDelayed_page:
  assumes "0 \<le> gt_Limit cmd"
  shows "mem_GetDelayedStates cmd d =
    (let found = filter (due cmd) (dsl_entries (md_delayedStateLog d))
     in Ok (cmd\<lparr>gt_Result := Some \<lparr>gdr_States = take (nat (gt_Limit cmd)) found,
          gdr_More = (gt_Limit cmd < int (length found))\<rparr>\<rparr>))"
proof -
  have "nat (gt_Limit cmd + 1) = Suc (nat (gt_Limit cmd))" using assms by simp
  then show ?thesis
    using assms delayed_Get_loop_spec [of 0 "gt_Limit cmd + 1"]
    by (auto simp: mem_GetDelayedStates_def delayed_Get_def Let_def min_def)
qed

text \<open>
  C22: \<open>GetDelayedStates\<close> returns the first \<open>Limit\<close> delayed states of the window, bounds
  included, whose offset is greater than the given one, in the order they were stored; \<open>More\<close>
  says exactly whether some were left out.
\<close>

theorem mem_GetDelayedStates_spec:
  assumes "0 \<le> gt_Limit cmd"
  shows "mem_GetDelayedStates cmd d =
    (let found = filter (due cmd) (dsl_entries (md_delayedStateLog d))
     in Ok (cmd\<lparr>gt_Result := Some \<lparr>gdr_States = take (nat (gt_Limit cmd)) found,
          gdr_More = (gt_Limit cmd < int (length found))\<rparr>\<rparr>))"
  by (rule mem_GetDelayed_page [OF assms])

theorem mem_GetDelayedStates_spec_witness:
  "mem_GetDelayedStates (GetDelayedStates 0 10 0) New
    = Ok ((GetDelayedStates 0 10 0)\<lparr>gt_Result := Some \<lparr>gdr_States = [], gdr_More = False\<rparr>\<rparr>)"
  by (subst mem_GetDelayedStates_spec)
    (simp_all add: GetDelayedStates_def GetDelayedStatesDefaultLimit_def New_def Let_def)

section \<open>Data\<close>

text \<open>
  The contract of the data side of a driver: \<open>stored s r\<close> is what revision \<open>r\<close> holds. Storing
  assigns a fresh positive revision and keeps the others; getting copies what is held.
\<close>

locale data_driver =
  fixes D :: "'d CommitDriver" and ok :: "'d \<Rightarrow> bool" and stored :: "'d \<Rightarrow> int \<Rightarrow> Data option"
  assumes data_store: "ok s \<Longrightarrow> deref h (Some a) = Some c \<Longrightarrow> alias \<noteq> []
      \<Longrightarrow> gm_lookup (sc_Datas c) alias = Some (Some x)
      \<Longrightarrow> \<exists>r s'. drv_StoreData D (StoreData (Some a) alias) h s
            = (Ok (), store h (Some a) (SetData c alias (Some (x\<lparr>d_Rev := r\<rparr>))), s')
          \<and> 0 < r \<and> in_i64 r \<and> stored s r = None
          \<and> stored s' = (stored s)(r \<mapsto> Data_CopyTo (x\<lparr>d_Rev := r\<rparr>) Data0)"
    and data_get: "deref h (Some a) = Some c \<Longrightarrow> alias \<noteq> []
      \<Longrightarrow> gm_lookup (sc_Datas c) alias = Some (Some x) \<Longrightarrow> stored s (d_Rev x) = Some y
      \<Longrightarrow> drv_GetData D (GetData (Some a) alias) h s
            = (Ok (), store h (Some a) (SetData c alias (Some (Data_CopyTo y x))), s)"
begin

text \<open>A dirty blob is given its checksum and a fresh revision, and the context refers to it.\<close>

lemma store_dirty:
  assumes "ok s" "alias \<noteq> []" "deref h (Some a) = Some c"
    and "gm_lookup (sc_Datas c) alias = Some (Some x)" "0 \<le> d_Rev x" "isDirty (lib_Sum64 lb) x"
  shows "\<exists>rv c' s'. DoCommitSubCommand lb D (StoreDataCmd (StoreData (Some a) alias)) h s
      = (Ok (), StoreDataCmd (StoreData (Some a) alias), store h (Some a) c', s')
    \<and> 0 < rv \<and> stored s rv = None \<and> dereferenceData c' alias = Ok rv
    \<and> stored s' = (stored s)(rv \<mapsto> Data_CopyTo ((checksum (lib_Sum64 lb) x)\<lparr>d_Rev := rv\<rparr>) Data0)"
proof -
  let ?x = "checksum (lib_Sum64 lb) x" and ?cmd = "StoreData (Some a) alias"
  let ?c1 = "SetData c alias (Some ?x)" and ?h1 = "store h (Some a) (SetData c alias (Some ?x))"
  have cmd: "sd_StateCtx ?cmd = Some a" "sd_Alias ?cmd = alias" by (simp_all add: StoreData_def)
  have prep: "StoreData_Prepare lb ?cmd h = (Ok True, ?h1)"
    using assms by (simp add: StoreData_Prepare_def cmd with_ctx_def StateCtx_Data_def)
  have "deref ?h1 (Some a) = Some ?c1" "gm_lookup (sc_Datas ?c1) alias = Some (Some ?x)"
    by (simp_all add: SetData_def)
  from data_store [OF assms(1) this(1) assms(2) this(2)] obtain rv s' where st:
    "drv_StoreData D ?cmd ?h1 s = (Ok (), store ?h1 (Some a) (SetData ?c1 alias (Some (?x\<lparr>d_Rev := rv\<rparr>))), s')"
    "0 < rv" "in_i64 rv" "stored s rv = None"
    "stored s' = (stored s)(rv \<mapsto> Data_CopyTo (?x\<lparr>d_Rev := rv\<rparr>) Data0)" by blast
  let ?c2 = "SetData ?c1 alias (Some (?x\<lparr>d_Rev := rv\<rparr>))"
  have post: "StoreData_post ?cmd (store ?h1 (Some a) ?c2)
      = (Ok (), store h (Some a) (referenceData ?c2 alias rv))"
    using assms(2) by (simp add: StoreData_post_def cmd with_ctx_def MustData_def StateCtx_Data_def SetData_def)
  have "dereferenceData (referenceData ?c2 alias rv) alias = Ok rv"
    using assms(2) st(3) by (rule dereference_reference)
  with st prep post show ?thesis by auto
qed

lemma get_fresh:
  assumes "alias \<noteq> []" "deref h (Some b) = Some c" "dereferenceData c alias = Ok rv"
    and "gm_lookup (sc_Datas c) alias = None" "stored s rv = Some y"
  shows "DoCommitSubCommand lb D (GetDataCmd (GetData (Some b) alias)) h s
    = (Ok (), GetDataCmd (GetData (Some b) alias),
       store h (Some b) (SetData c alias (Some (Data_CopyTo y (Data0\<lparr>d_Rev := rv\<rparr>)))), s)"
proof -
  let ?cmd = "GetData (Some b) alias" and ?c1 = "SetData c alias (Some (Data0\<lparr>d_Rev := rv\<rparr>))"
  have cmd: "gd_StateCtx ?cmd = Some b" "gd_Alias ?cmd = alias" by (simp_all add: GetData_def)
  have prep: "GetData_Prepare ?cmd h = (Ok True, store h (Some b) ?c1)"
    using assms by (simp add: GetData_Prepare_def cmd with_ctx_def StateCtx_Data_def)
  have "deref (store h (Some b) ?c1) (Some b) = Some ?c1"
    "gm_lookup (sc_Datas ?c1) alias = Some (Some (Data0\<lparr>d_Rev := rv\<rparr>))"
    "stored s (d_Rev (Data0\<lparr>d_Rev := rv\<rparr>)) = Some y"
    using assms(5) by (simp_all add: SetData_def)
  from data_get [OF this(1) assms(1) this(2,3)] prep show ?thesis
    by (simp add: SetData_def gm_set_def)
qed

end

definition mem_stored :: "memdriver \<Rightarrow> int \<Rightarrow> Data option" where
  "mem_stored d r = (case dataLog_get (md_dataLog d) r of Ok x \<Rightarrow> Some x | _ \<Rightarrow> None)"

definition mem_data_ok :: "memdriver \<Rightarrow> bool" where
  "mem_data_ok d \<longleftrightarrow> 0 \<le> dlg_rev (md_dataLog d) \<and> dlg_rev (md_dataLog d) + 1 < 2 ^ 63
    \<and> list_all (\<lambda>x. d_Rev x \<le> dlg_rev (md_dataLog d)) (dlg_entries (md_dataLog d))"

lemma dataLog_find_append:
  "dataLog_find (ds @ [x]) r = (case dataLog_find ds r of Ok y \<Rightarrow> Ok y | _ \<Rightarrow> dataLog_find [x] r)"
  by (induction ds) (auto split: outcome.splits)

lemma dataLog_find_fresh: "list_all (\<lambda>x. d_Rev x < r) ds \<Longrightarrow> dataLog_find ds r = Err (Errorf ''data not found'')"
  by (induction ds) auto

lemma dataLog_find_no_panic: "dataLog_find ds r \<noteq> Panic p"
  by (induction ds) auto

interpretation mem_data: data_driver memdriver_ops mem_data_ok mem_stored
proof (unfold_locales, goal_cases)
  case (1 s h a c nm x)
  let ?l = "md_dataLog s" and ?r = "dlg_rev (md_dataLog s) + 1"
  let ?y = "Data_CopyTo (x\<lparr>d_Rev := ?r\<rparr>) Data0"
  let ?s = "s\<lparr>md_dataLog := \<lparr>dlg_rev = ?r, dlg_entries = dlg_entries ?l @ [?y]\<rparr>\<rparr>"
  have r: "i64 ?r = ?r" "in_i64 ?r" "0 < ?r" using 1(1) by (simp_all add: mem_data_ok_def in_i64_small)
  have fresh: "dataLog_find (dlg_entries ?l) ?r = Err (Errorf ''data not found'')"
    using 1(1) by (intro dataLog_find_fresh) (auto simp: mem_data_ok_def list_all_iff)
  have "drv_StoreData memdriver_ops (StoreData (Some a) nm) h s
    = (Ok (), store h (Some a) (SetData c nm (Some (x\<lparr>d_Rev := ?r\<rparr>))), ?s)"
    using 1 by (simp add: memdriver_ops_def mem_StoreData_def StoreData_def StateCtx_Data_def
        dataLog_append_def Let_def r)
  moreover have "mem_stored s ?r = None" by (simp add: mem_stored_def dataLog_get_def fresh)
  moreover have "mem_stored ?s = (mem_stored s)(?r \<mapsto> ?y)"
    using fresh dataLog_find_no_panic
    by (auto simp: fun_eq_iff mem_stored_def dataLog_get_def dataLog_find_append Data_CopyTo_def Let_def
        split: outcome.split)
  ultimately show ?case using r by blast
next
  case (2 h a c nm x s y)
  then show ?case
    by (auto simp: memdriver_ops_def mem_GetData_def GetData_def with_ctx_def StateCtx_Data_def mem_stored_def
        split: outcome.splits)
qed

text \<open>
  C21: a blob stored in a commit gets its checksum and a fresh revision that the context then
  refers to; any context that carries this reference and has nothing under the alias gets the
  same bytes and the same annotations back, with that revision.
\<close>

theorem mem_store_get_data:
  assumes "mem_data_ok d" "alias \<noteq> []" "deref h (Some a) = Some c" "wf_Data x"
    and "gm_lookup (sc_Datas c) alias = Some (Some x)" "0 \<le> d_Rev x" "isDirty (lib_Sum64 lb) x"
  shows "\<exists>rv c' d'. DoCommitSubCommand lb memdriver_ops (StoreDataCmd (StoreData (Some a) alias)) h d
      = (Ok (), StoreDataCmd (StoreData (Some a) alias), store h (Some a) c', d')
    \<and> dereferenceData c' alias = Ok rv
    \<and> (\<forall>h2 b c2. deref h2 (Some b) = Some c2 \<longrightarrow> dereferenceData c2 alias = Ok rv
        \<longrightarrow> gm_lookup (sc_Datas c2) alias = None
        \<longrightarrow> (\<exists>y. DoCommitSubCommand lb memdriver_ops (GetDataCmd (GetData (Some b) alias)) h2 d'
              = (Ok (), GetDataCmd (GetData (Some b) alias), store h2 (Some b) (SetData c2 alias (Some y)), d')
            \<and> d_Rev y = rv \<and> blob_bytes (d_Blob y) = blob_bytes (d_Blob x)
            \<and> (\<forall>k. gm_lookup (d_Annotations y) k = gm_lookup (d_Annotations (checksum (lib_Sum64 lb) x)) k)))"
proof -
  let ?x = "checksum (lib_Sum64 lb) x"
  from mem_data.store_dirty [OF assms(1,2,3,5,6,7)] obtain rv c' d' where
    st: "DoCommitSubCommand lb memdriver_ops (StoreDataCmd (StoreData (Some a) alias)) h d
      = (Ok (), StoreDataCmd (StoreData (Some a) alias), store h (Some a) c', d')"
    "dereferenceData c' alias = Ok rv"
    "mem_stored d' = (mem_stored d)(rv \<mapsto> Data_CopyTo (?x\<lparr>d_Rev := rv\<rparr>) Data0)" by blast
  let ?y = "Data_CopyTo (Data_CopyTo (?x\<lparr>d_Rev := rv\<rparr>) Data0) (Data0\<lparr>d_Rev := rv\<rparr>)"
  have wf: "gm_wf (d_Annotations ?x)"
    using assms(4) by (simp add: checksum_def Data_SetAnnotation_def wf_Data_def)
  have y: "d_Rev ?y = rv" "blob_bytes (d_Blob ?y) = blob_bytes (d_Blob x)"
    by (simp_all add: checksum_def Data_SetAnnotation_def)
  have ann: "gm_lookup (d_Annotations ?y) k = gm_lookup (d_Annotations ?x) k" for k
    using wf by (simp add: gm_lookup_merge split: option.split)
  have held: "mem_stored d' rv = Some (Data_CopyTo (?x\<lparr>d_Rev := rv\<rparr>) Data0)" by (simp add: st(3))
  note get = mem_data.get_fresh [OF assms(2) _ _ _ held]
  show ?thesis
  proof (intro exI conjI allI impI, rule st(1), rule st(2))
    fix h2 b c2
    assume "deref h2 (Some b) = Some c2" "dereferenceData c2 alias = Ok rv" "gm_lookup (sc_Datas c2) alias = None"
    then show "DoCommitSubCommand lb memdriver_ops (GetDataCmd (GetData (Some b) alias)) h2 d'
      = (Ok (), GetDataCmd (GetData (Some b) alias), store h2 (Some b) (SetData c2 alias (Some ?y)), d')"
      by (rule get)
  qed (rule y ann)+
qed

theorem mem_store_get_data_witness:
  "\<exists>rv c' d'. DoCommitSubCommand wire_libs memdriver_ops (StoreDataCmd (StoreData (Some 0) ''x''))
      [0 \<mapsto> (new_ctx ''a'')\<lparr>sc_Datas := Some [(''x'', Some (Data0\<lparr>d_Blob := Some ''bytes''\<rparr>))]\<rparr>] New
      = (Ok (), StoreDataCmd (StoreData (Some 0) ''x''), store
      [0 \<mapsto> (new_ctx ''a'')\<lparr>sc_Datas := Some [(''x'', Some (Data0\<lparr>d_Blob := Some ''bytes''\<rparr>))]\<rparr>] (Some 0) c', d')
    \<and> dereferenceData c' ''x'' = Ok rv"
proof -
  let ?x = "Data0\<lparr>d_Blob := Some ''bytes''\<rparr>"
  let ?c = "(new_ctx ''a'')\<lparr>sc_Datas := Some [(''x'', Some ?x)]\<rparr>"
  have "mem_data_ok New" "''x'' \<noteq> []" "deref [0 \<mapsto> ?c] (Some 0) = Some ?c" "wf_Data ?x"
    "gm_lookup (sc_Datas ?c) ''x'' = Some (Some ?x)" "0 \<le> d_Rev ?x" "isDirty (lib_Sum64 wire_libs) ?x"
    by (simp_all add: mem_data_ok_def New_def deref_def wf_Data_def gm_lookup_def isDirty_def)
  from mem_store_get_data [OF this] show ?thesis by blast
qed

end
