(* ===== verification/CacheCoherence.thy ===== *)
theory CacheCoherence
  imports CachedriverProps MemdriverReads
begin

text \<open>
  The cache and the driver it wraps, with the parts of commits and head refreshes interleaved:
  whatever the order, the ring holds exactly the committed states of the driver between
  \<open>minRev\<close> and \<open>maxRev\<close>, so that a read that the cache answers misses no revision up to
  \<open>maxRev\<close>.
\<close>

section \<open>Steps\<close>

text \<open>
  \<open>sy_read\<close> is a read of the head that has not been applied yet, with the revision it started
  from; \<open>sy_inflight\<close> are the commits that the driver has accepted and the ring has not seen.
\<close>

record 'd sys =
  sy_cache :: "'d cacheDriver"
  sy_read :: "(int \<times> GetStatesCommand outcome) option"
  sy_inflight :: "(Command list \<times> heap) list"

definition sys0 :: "'d \<Rightarrow> nat \<Rightarrow> 'd sys" where
  "sys0 s n = \<lparr>sy_cache = newCacheDriver s n, sy_read = None, sy_inflight = []\<rparr>"

text \<open>
  The commands of the commits considered: transits, parks and noops. Other commands may write
  into a context after it has been committed.
\<close>

fun write_cmd :: "Command \<Rightarrow> bool" where
  "write_cmd (TransitCmd _) = True"
| "write_cmd (ParkCmd _) = True"
| "write_cmd NoopCmd = True"
| "write_cmd _ = False"

text \<open>
  A step: the driver runs a commit (of this engine after its check, or of another engine), the
  ring takes over a commit in flight, the refresh reads the driver, or its result is applied.
\<close>

inductive cache_step :: "'d Driver \<Rightarrow> ('d \<Rightarrow> Command list \<Rightarrow> bool) \<Rightarrow> 'd sys \<Rightarrow> 'd sys \<Rightarrow> bool"
  for D :: "'d Driver" and fits :: "'d \<Rightarrow> Command list \<Rightarrow> bool" where
  step_commit: "list_all write_cmd cmds \<Longrightarrow> wf_heap h \<Longrightarrow> fits (cd_d (sy_cache y)) cmds
    \<Longrightarrow> drv_Commit D cmds h (cd_d (sy_cache y)) = (r, cs, h', s')
    \<Longrightarrow> cache_step D fits y (y\<lparr>sy_cache := (sy_cache y)\<lparr>cd_d := s'\<rparr>,
          sy_inflight := (if r = Ok () then sy_inflight y @ [(cs, h')] else sy_inflight y)\<rparr>)"
| step_append: "(cs, h) \<in> set (sy_inflight y) \<Longrightarrow> commitAppendLog cs h (sy_cache y) = Ok d'
    \<Longrightarrow> cache_step D fits y (y\<lparr>sy_cache := d', sy_inflight := remove1 (cs, h) (sy_inflight y)\<rparr>)"
| step_read: "sy_read y = None
    \<Longrightarrow> drv_GetStates D (head_cmd (sy_cache y) (cd_maxRev (sy_cache y))) (cd_d (sy_cache y)) = (r, s')
    \<Longrightarrow> cache_step D fits y (y\<lparr>sy_cache := (sy_cache y)\<lparr>cd_d := s'\<rparr>, sy_read := Some (cd_maxRev (sy_cache y), r)\<rparr>)"
| step_apply: "sy_read y = Some (m, r) \<Longrightarrow> head_apply m r (sy_cache y) = Ok (w, d')
    \<Longrightarrow> cache_step D fits y (y\<lparr>sy_cache := d', sy_read := None\<rparr>)"

section \<open>Intervals of a sorted log\<close>

definition key :: "State \<Rightarrow> string \<times> int" where
  "key s = (s_ID s, s_Rev s)"

lemma key_simps [simp]: "snd (key s) = s_Rev s" "key (State_CopyTo s to) = key s"
  by (simp_all add: key_def)

lemma key_stamps: "map stamp xs = map stamp ys \<Longrightarrow> map key xs = map key ys"
proof -
  have "map key zs = map (\<lambda>x. (fst x, fst (snd x))) (map stamp zs)" for zs
    by (simp add: stamp_def key_def)
  then show "map stamp xs = map stamp ys \<Longrightarrow> map key xs = map key ys" by metis
qed

definition between :: "int \<Rightarrow> int \<Rightarrow> (string \<times> int) list \<Rightarrow> (string \<times> int) list" where
  "between lo hi ks = filter (\<lambda>k. lo < snd k \<and> snd k \<le> hi) ks"

definition log_sorted :: "(string \<times> int) list \<Rightarrow> bool" where
  "log_sorted ks \<longleftrightarrow> sorted_wrt (<) (0 # map snd ks)"

lemma log_sorted_pos: "log_sorted ks \<Longrightarrow> k \<in> set ks \<Longrightarrow> 0 < snd k"
  by (auto simp: log_sorted_def)

lemma log_sorted_filter: "log_sorted ks \<Longrightarrow> log_sorted (filter P ks)"
  by (auto simp: log_sorted_def sorted_wrt_map sorted_wrt_filter)

lemma log_sorted_append: "log_sorted (xs @ ys) \<Longrightarrow> log_sorted xs \<and> log_sorted ys
    \<and> (\<forall>x \<in> set xs. \<forall>y \<in> set ys. snd x < snd y)"
  by (auto simp: log_sorted_def sorted_wrt_append)

lemma log_sorted_unique:
  assumes "log_sorted xs" "log_sorted ys" "set xs = set ys"
  shows "xs = ys"
proof -
  have "sorted (map snd xs)" "distinct (map snd xs)" "sorted (map snd ys)" "distinct (map snd ys)"
    using assms(1,2) by (simp_all add: log_sorted_def strict_sorted_iff)
  with assms(3) show ?thesis
    by (intro map_sorted_distinct_set_unique [of snd]) (auto simp: distinct_map)
qed

lemma log_sorted_inj: "log_sorted ks \<Longrightarrow> k \<in> set ks \<Longrightarrow> k' \<in> set ks \<Longrightarrow> snd k = snd k' \<Longrightarrow> k = k'"
  by (auto simp: log_sorted_def strict_sorted_iff distinct_map inj_on_def)

lemma between_split: "lo \<le> mid \<Longrightarrow> mid \<le> hi \<Longrightarrow> log_sorted ks \<Longrightarrow> between lo hi ks = between lo mid ks @ between mid hi ks"
proof (induction ks)
  case (Cons k ks)
  have "between lo mid ks = []" if "mid < snd k"
    using that Cons.prems(3) by (force simp: between_def log_sorted_def filter_empty_conv)
  with Cons show ?case by (auto simp: between_def log_sorted_def)
qed (simp add: between_def)

lemma between_append_new:
  "log_sorted (ks @ new) \<Longrightarrow> hi \<le> 0 \<or> hi \<in> snd ` set ks \<Longrightarrow> between lo hi (ks @ new) = between lo hi ks"
  using log_sorted_pos [of "ks @ new"] log_sorted_append [of ks new]
  by (force simp: between_def filter_empty_conv)

lemma between_suffix:
  assumes "log_sorted ks" "between lo hi ks = xs @ ys" "ys \<noteq> []"
  shows "between (snd (hd ys) - 1) hi ks = ys"
proof (rule log_sorted_unique)
  have s: "log_sorted (xs @ ys)" using log_sorted_filter [OF assms(1)] assms(2) by (metis between_def)
  then show ys: "log_sorted ys" using log_sorted_append by blast
  show "log_sorted (between (snd (hd ys) - 1) hi ks)"
    using log_sorted_filter [OF assms(1)] by (simp add: between_def)
  have hd: "\<forall>y \<in> set ys. snd (hd ys) \<le> snd y"
    using ys assms(3) by (cases ys) (auto simp: log_sorted_def less_imp_le)
  have "hd ys \<in> set (between lo hi ks)" using assms(2,3) by simp
  then have lo: "lo < snd (hd ys)" by (simp add: between_def)
  have un: "k \<in> set ks \<and> lo < snd k \<and> snd k \<le> hi \<longleftrightarrow> k \<in> set xs \<union> set ys" for k
  proof -
    have "k \<in> set (between lo hi ks) \<longleftrightarrow> k \<in> set (xs @ ys)" by (simp add: assms(2))
    then show ?thesis by (simp add: between_def)
  qed
  have small: "\<forall>x \<in> set xs. snd x < snd (hd ys)" using log_sorted_append [OF s] assms(3) by simp
  have "k \<in> set (between (snd (hd ys) - 1) hi ks) \<longleftrightarrow> k \<in> set ys" for k
    using un [of k] hd lo small by (fastforce simp: between_def)
  then show "set (between (snd (hd ys) - 1) hi ks) = set ys" by blast
qed

lemma between_covered:
  assumes "log_sorted ks" "log_sorted xs" "set xs \<subseteq> set ks" "\<And>r. lo < r \<Longrightarrow> r \<le> hi \<Longrightarrow> r \<in> snd ` set xs"
    and "\<forall>x \<in> set xs. lo < snd x \<and> snd x \<le> hi"
  shows "between lo hi ks = xs"
proof (rule log_sorted_unique)
  show "log_sorted (between lo hi ks)" using log_sorted_filter [OF assms(1)] by (simp add: between_def)
  show "set (between lo hi ks) = set xs"
  proof
    show "set (between lo hi ks) \<subseteq> set xs"
    proof
      fix k assume "k \<in> set (between lo hi ks)"
      then have k: "k \<in> set ks" "lo < snd k" "snd k \<le> hi" by (auto simp: between_def)
      with assms(4) obtain x where "x \<in> set xs" "snd x = snd k" by force
      with k assms(1,3) log_sorted_inj show "k \<in> set xs" by (metis subsetD)
    qed
    show "set xs \<subseteq> set (between lo hi ks)" using assms(3,5) by (auto simp: between_def)
  qed
qed (rule assms)

section \<open>The ring and the log of the driver\<close>

definition covers :: "(string \<times> int) list \<Rightarrow> 'd cacheDriver \<Rightarrow> bool" where
  "covers ks c \<longleftrightarrow> map key (oldest_first c) = between (cd_minRev c) (cd_maxRev c) ks"

lemma cache_ok_revs:
  assumes "cache_ok c" "map key (oldest_first c) = ks"
  shows "if ks = [] then cd_minRev c = - 1 \<and> cd_maxRev c = 0
    else cd_minRev c = snd (hd ks) - 1 \<and> cd_maxRev c = snd (last ks)"
proof -
  have "cd_size c = 0 \<longleftrightarrow> ks = []" using assms(2) by (metis length_0_conv length_map length_oldest_first)
  with assms show ?thesis by (auto simp: cache_ok_def hd_map last_map)
qed

lemma lastn_suffix: "\<exists>xs. ys = xs @ lastn n ys"
  by (metis append_take_drop_id lastn_def)

lemma cache_ok_length: "cache_ok c \<Longrightarrow> cd_size c \<le> length (cd_log c) \<and> 0 < length (cd_log c)"
  by (simp add: cache_ok_def ring_ok_def)

text \<open>Appending the next states of the log keeps the ring an interval of it.\<close>

lemma covers_extend:
  assumes "log_sorted ks" "cache_ok c" "cache_ok c'" "covers ks c"
    and "map key (oldest_first c') = lastn (length (cd_log c)) (map key (oldest_first c) @ between (cd_maxRev c) hi ks)"
    and "hi \<le> cd_maxRev c \<or> hi \<in> snd ` set ks"
  shows "covers ks c'"
proof (cases "between (cd_maxRev c) hi ks = []")
  case True
  then have same: "map key (oldest_first c') = map key (oldest_first c)"
    using assms(5) cache_ok_length [OF assms(2)] by simp
  have "cd_minRev c' = cd_minRev c \<and> cd_maxRev c' = cd_maxRev c"
    using cache_ok_revs [OF assms(2) refl] cache_ok_revs [OF assms(3) same]
    by (cases "map key (oldest_first c) = []") (simp_all only: if_True if_False)
  with same assms(4) show ?thesis unfolding covers_def by metis
next
  case False
  let ?add = "between (cd_maxRev c) hi ks" and ?ks' = "map key (oldest_first c')"
  have lt: "cd_maxRev c < hi" using False by (force simp: between_def filter_empty_conv)
  have min: "cd_minRev c \<le> cd_maxRev c"
  proof -
    consider "oldest_first c = []" | "oldest_first c \<noteq> []" by blast
    then show ?thesis
    proof cases
      case 2
      then have "s_Rev (hd (oldest_first c)) \<le> cd_maxRev c" using cache_ok_max [OF assms(2)] by simp
      with 2 cache_ok_revs [OF assms(2) refl] show ?thesis by (simp add: hd_map)
    qed (use cache_ok_revs [OF assms(2) refl] in simp)
  qed
  have all: "between (cd_minRev c) hi ks = map key (oldest_first c) @ ?add"
    using between_split [OF min _ assms(1), of hi] lt assms(4) by (simp add: covers_def)
  from lastn_suffix obtain xs where xs: "map key (oldest_first c) @ ?add = xs @ ?ks'"
    using assms(5) by metis
  have "last ?add \<in> set ?add" using False by simp
  then have le: "snd (last ?add) \<le> hi" by (simp add: between_def)
  obtain k where k: "k \<in> set ks" "snd k = hi" using lt assms(6) by auto
  then have "k \<in> set ?add" using lt by (simp add: between_def)
  moreover have "sorted_wrt (\<lambda>x y. snd x < snd y) ?add"
    using log_sorted_filter [OF assms(1)] by (simp add: between_def log_sorted_def sorted_wrt_map)
  ultimately have "hi \<le> snd (last ?add)" using sorted_last [of snd ?add k] k(2) by simp
  with le have last: "snd (last ?add) = hi" by simp
  have ne: "?ks' \<noteq> []" "last ?ks' = last ?add"
  proof -
    have "0 < length (cd_log c)" using cache_ok_length [OF assms(2)] by simp
    then have n: "length (map key (oldest_first c) @ ?add) - length (cd_log c) < length (map key (oldest_first c) @ ?add)"
      using False by (simp add: diff_less)
    then show "?ks' \<noteq> []" unfolding assms(5) lastn_def drop_eq_Nil by linarith
    with xs False show "last ?ks' = last ?add" by (metis last_appendR)
  qed
  from between_suffix [OF assms(1) _ ne(1)] all xs
  have "between (snd (hd ?ks') - 1) hi ks = ?ks'" by metis
  moreover have "cd_minRev c' = snd (hd ?ks') - 1" "cd_maxRev c' = hi"
    using cache_ok_revs [OF assms(3) refl] ne last by auto
  ultimately show ?thesis by (simp add: covers_def)
qed

text \<open>What a round of the refresh may hold: a part of the log that starts where the round started.\<close>

definition read_ok :: "(string \<times> int) list \<Rightarrow> int \<Rightarrow> GetStatesCommand outcome \<Rightarrow> bool" where
  "read_ok ks m r \<longleftrightarrow> (\<forall>p. r \<noteq> Panic p) \<and> (\<forall>cmd. r = Ok cmd \<longrightarrow> (\<exists>res. gs_Result cmd = Some res \<and>
     (if m \<le> 0 then gsr_States res = [] \<or> (\<exists>s. gsr_States res = [s] \<and> key s \<in> set ks)
      else \<exists>hi. map key (gsr_States res) = between m hi ks \<and> (hi \<le> m \<or> hi \<in> snd ` set ks))))"

definition flight_ok :: "(string \<times> int) list \<Rightarrow> Command list \<times> heap \<Rightarrow> bool" where
  "flight_ok ks f \<longleftrightarrow> None \<notin> set (commits (fst f) (snd f))
    \<and> (\<forall>c. Some c \<in> set (commits (fst f) (snd f)) \<longrightarrow> key (sc_Current c) \<in> set ks)"

definition coherent :: "(string \<times> int) list \<Rightarrow> 'd sys \<Rightarrow> bool" where
  "coherent ks y \<longleftrightarrow> cache_ok (sy_cache y) \<and> covers ks (sy_cache y)
    \<and> (\<forall>s \<in> set (cd_committed (sy_cache y)). key s \<in> set ks)
    \<and> (\<forall>f \<in> set (sy_inflight y). flight_ok ks f)
    \<and> (\<forall>m r. sy_read y = Some (m, r) \<longrightarrow> m \<le> cd_maxRev (sy_cache y) \<and> read_ok ks m r)"

lemma covers_max:
  assumes "cache_ok c" "covers ks c"
  shows "cd_maxRev c \<le> 0 \<or> cd_maxRev c \<in> snd ` set ks"
proof (cases "between (cd_minRev c) (cd_maxRev c) ks = []")
  case True
  with cache_ok_revs [OF assms(1), of "[]"] assms(2) show ?thesis by (simp add: covers_def)
next
  case False
  then have "last (between (cd_minRev c) (cd_maxRev c) ks) \<in> set (between (cd_minRev c) (cd_maxRev c) ks)" by simp
  then have "last (between (cd_minRev c) (cd_maxRev c) ks) \<in> set ks" by (simp add: between_def)
  moreover have "cd_maxRev c = snd (last (between (cd_minRev c) (cd_maxRev c) ks))"
    using cache_ok_revs [OF assms(1) assms(2) [unfolded covers_def]] False by simp
  ultimately show ?thesis by (metis imageI)
qed

text \<open>The log of the driver grows at its end.\<close>

lemma covers_grow:
  assumes "cache_ok c" "covers ks c" "log_sorted (ks @ new)"
  shows "covers (ks @ new) c"
  using assms(2) between_append_new [OF assms(3) covers_max [OF assms(1,2)]] by (simp add: covers_def)

lemma read_ok_grow:
  assumes "read_ok ks m r" "log_sorted (ks @ new)"
  shows "read_ok (ks @ new) m r"
proof -
  have "\<exists>hi. xs = between m hi (ks @ new) \<and> (hi \<le> m \<or> hi \<in> snd ` set (ks @ new))"
    if "xs = between m hi ks" "hi \<le> m \<or> hi \<in> snd ` set ks" for xs hi
  proof (cases "hi \<le> m")
    case True
    then have "between m hi zs = []" for zs by (auto simp: between_def filter_empty_conv)
    with that(1) True show ?thesis by metis
  next
    case False
    with that between_append_new [OF assms(2), of hi m] show ?thesis by (intro exI [of _ hi]) auto
  qed
  note grow = this
  show ?thesis
  proof (cases "m \<le> 0")
    case True
    with assms(1) show ?thesis by (fastforce simp: read_ok_def)
  next
    case False
    show ?thesis unfolding read_ok_def
    proof (intro conjI allI impI)
      fix cmd assume "r = Ok cmd"
      with assms(1) False obtain res hi where "gs_Result cmd = Some res"
        "map key (gsr_States res) = between m hi ks" "hi \<le> m \<or> hi \<in> snd ` set ks"
        by (auto simp: read_ok_def)
      with grow False show "\<exists>res. gs_Result cmd = Some res \<and>
        (if m \<le> 0 then gsr_States res = [] \<or> (\<exists>s. gsr_States res = [s] \<and> key s \<in> set (ks @ new))
         else \<exists>hi. map key (gsr_States res) = between m hi (ks @ new) \<and> (hi \<le> m \<or> hi \<in> snd ` set (ks @ new)))"
        by (metis (no_types))
    qed (use assms(1) in \<open>simp add: read_ok_def\<close>)
  qed
qed

lemma coherent_grow:
  assumes "coherent ks y" "log_sorted (ks @ new)"
  shows "coherent (ks @ new) y"
  using assms covers_grow [of "sy_cache y" ks new] read_ok_grow [OF _ assms(2)]
  by (auto simp: coherent_def flight_ok_def)

text \<open>The appends of a commit in flight, and of a round of the refresh.\<close>

lemma coherent_append:
  assumes "coherent ks y" "log_sorted ks" "\<forall>k \<in> set ks. rev_room (snd k)" "f \<in> set (sy_inflight y)"
  shows "\<exists>d'. commitAppendLog (fst f) (snd f) (sy_cache y) = Ok d' \<and> cd_d d' = cd_d (sy_cache y)
    \<and> cache_ok d' \<and> covers ks d' \<and> cd_maxRev (sy_cache y) \<le> cd_maxRev d' \<and> (\<forall>s \<in> set (cd_committed d'). key s \<in> set ks)"
proof -
  let ?c = "sy_cache y" and ?cp = "\<lambda>c. State_CopyTo (sc_Current c) State0"
  have ok: "cache_ok ?c" "covers ks ?c" "\<forall>s \<in> set (cd_committed ?c). key s \<in> set ks" "flight_ok ks f"
    using assms(1,4) by (auto simp: coherent_def)
  have "cd_maxRev ?c = 0 \<or> cd_maxRev ?c \<in> snd ` set ks"
    using covers_max [OF ok(1,2)] cache_ok_max [OF ok(1)] by force
  then have room: "rev_room (cd_maxRev ?c)" using assms(3) by (auto simp: rev_room_def)
  have rooms: "\<forall>s \<in> set (cd_committed ?c). rev_room (s_Rev s)"
    "\<forall>c. Some c \<in> set (commits (fst f) (snd f)) \<longrightarrow> rev_room (s_Rev (sc_Current c))"
    using ok(3,4) assms(3) by (metis key_simps(1), metis flight_ok_def key_simps(1))
  from commitAppendLog_spec [OF ok(1) _ room rooms] ok(4) obtain d' pool new where
    d': "commitAppendLog (fst f) (snd f) ?c = Ok d'" "cache_ok d'" "cd_d d' = cd_d ?c"
    "set pool \<subseteq> set (cd_committed ?c) \<union> {?cp c | c. Some c \<in> set (commits (fst f) (snd f))}"
    "set new \<subseteq> set pool" "cd_maxRev d' = cd_maxRev ?c + int (length new)"
    "map s_Rev new = map (\<lambda>i. cd_maxRev ?c + 1 + int i) [0..<length new]"
    "map stamp (oldest_first d') = lastn (length (cd_log ?c)) (map stamp (oldest_first ?c) @ map stamp new)"
    "set (cd_committed d') = {s \<in> set pool. cd_maxRev d' + 1 < s_Rev s}"
    unfolding flight_ok_def by blast
  have pool: "\<forall>s \<in> set pool. key s \<in> set ks"
    using d'(4) ok(3,4) by (fastforce simp: flight_ok_def)
  have revs: "set (map s_Rev new) = {cd_maxRev ?c <.. cd_maxRev d'}"
  proof -
    have "set (map s_Rev new) = (\<lambda>i. cd_maxRev ?c + 1 + int i) ` {0..<length new}" by (simp add: d'(7))
    also have "\<dots> = {cd_maxRev ?c <.. cd_maxRev d'}"
      unfolding d'(6) by (force simp: image_iff intro: bexI [of _ "nat (_ - cd_maxRev ?c - 1)"])
    finally show ?thesis .
  qed
  have "sorted_wrt (<) (map s_Rev new)"
    unfolding d'(7) by (simp add: sorted_wrt_map sorted_wrt_upt)
  moreover have "\<forall>s \<in> set new. 0 < s_Rev s" using pool d'(5) log_sorted_pos [OF assms(2)] by (metis key_simps(1) subsetD)
  ultimately have sorted: "log_sorted (map key new)" by (simp add: log_sorted_def comp_def)
  have new: "between (cd_maxRev ?c) (cd_maxRev d') ks = map key new"
  proof (rule between_covered [OF assms(2) sorted])
    show "set (map key new) \<subseteq> set ks" using pool d'(5) by auto
    show "\<And>r. cd_maxRev ?c < r \<Longrightarrow> r \<le> cd_maxRev d' \<Longrightarrow> r \<in> snd ` set (map key new)"
      using revs by (force simp: image_image)
    show "\<forall>x \<in> set (map key new). cd_maxRev ?c < snd x \<and> snd x \<le> cd_maxRev d'"
      using revs by auto
  qed
  have "cd_maxRev d' \<le> cd_maxRev ?c \<or> cd_maxRev d' \<in> snd ` set ks"
  proof (cases "new = []")
    case False
    then have "cd_maxRev d' \<in> set (map s_Rev new)" unfolding revs d'(6) by simp
    then show ?thesis using pool d'(5) by (force simp: key_def)
  qed (simp add: d'(6))
  moreover have "map key (oldest_first d') = lastn (length (cd_log ?c)) (map key (oldest_first ?c) @ map key new)"
    using key_stamps [of "oldest_first d'" "lastn (length (cd_log ?c)) (oldest_first ?c @ new)"] d'(8)
    by (simp add: lastn_map [symmetric])
  ultimately have "covers ks d'"
    using covers_extend [OF assms(2) ok(1) d'(2) ok(2), of "cd_maxRev d'"] new by simp
  with d' pool show ?thesis by auto
qed

lemma coherent_apply:
  assumes "coherent ks y" "log_sorted ks" "\<forall>k \<in> set ks. rev_room (snd k)" "sy_read y = Some (m, r)"
  shows "\<exists>w d'. head_apply m r (sy_cache y) = Ok (w, d') \<and> cd_d d' = cd_d (sy_cache y)
    \<and> cache_ok d' \<and> covers ks d' \<and> (\<forall>s \<in> set (cd_committed d'). key s \<in> set ks)"
proof -
  let ?c = "sy_cache y"
  have ok: "cache_ok ?c" "covers ks ?c" "\<forall>s \<in> set (cd_committed ?c). key s \<in> set ks" "m \<le> cd_maxRev ?c" "read_ok ks m r"
    using assms(1,4) by (auto simp: coherent_def)
  have ring: "ring_ok ?c" using ok(1) by (simp add: cache_ok_def)
  show ?thesis
  proof (cases r)
    case (Err e)
    with ok show ?thesis by (simp add: head_apply_def)
  next
    case (Panic p)
    with ok(5) show ?thesis by (simp add: read_ok_def)
  next
    case r: (Ok cmd)
    from ok(5) r obtain res where res: "gs_Result cmd = Some res" by (auto simp: read_ok_def)
    then have must: "GetStates_MustResult cmd = Ok res" by (simp add: GetStates_MustResult_def)
    consider "gsr_States res = []" | s where "m \<le> 0" "gsr_States res = [s]" "key s \<in> set ks"
      | hi where "0 < m" "gsr_States res \<noteq> []" "map key (gsr_States res) = between m hi ks" "hi \<le> m \<or> hi \<in> snd ` set ks"
      using ok(5) r res by (auto simp: read_ok_def split: if_splits)
    then show ?thesis
    proof cases
      case 1
      with r must ok show ?thesis by (simp add: head_apply_def)
    next
      case (2 s)
      let ?take = "cd_maxRev ?c = 0 \<or> i64 (cd_maxRev ?c + 1) = s_Rev s"
      have pos: "0 < s_Rev s" using log_sorted_pos [OF assms(2) 2(3)] by simp
      show ?thesis
      proof (cases ?take)
        case False
        with 2 r must ok show ?thesis by (simp add: head_apply_def)
      next
        case True
        have "cd_maxRev ?c = 0 \<or> rev_room (cd_maxRev ?c)"
          using covers_max [OF ok(1,2)] cache_ok_max [OF ok(1)] assms(3) by force
        with True have t: "cd_maxRev ?c = 0 \<or> cd_maxRev ?c + 1 = s_Rev s" by auto
        with pos obtain d' where d': "appendStateLocked s ?c = Ok d'"
          using appendStateLocked_total [OF ring, of s] by fastforce
        note app = appendStateLocked_ring [OF ring d'] and ok' = appendStateLocked_ok [OF ok(1) d']
        have keys: "map key (oldest_first d') = lastn (length (cd_log ?c)) (map key (oldest_first ?c) @ [key s])"
          using key_stamps [of "oldest_first d'" "lastn (length (cd_log ?c)) (oldest_first ?c @ [s])"]
            append_stamps [OF ring d'] by (simp add: lastn_map [symmetric])
        have one: "between (s_Rev s - 1) (s_Rev s) ks = [key s]"
        proof (rule between_covered [OF assms(2)])
          show "r \<in> snd ` set [key s]" if "s_Rev s - 1 < r" "r \<le> s_Rev s" for r using that by simp
        qed (use 2(3) pos in \<open>simp_all add: log_sorted_def\<close>)
        have "covers ks d'"
        proof (cases "cd_maxRev ?c = 0")
          case True
          then have "oldest_first ?c = []" using cache_ok_max [OF ok(1)] by (cases "oldest_first ?c") auto
          then have "map key (oldest_first d') = [key s]"
            using keys cache_ok_length [OF ok(1)] by (simp add: Suc_le_eq)
          with cache_ok_revs [OF ok' this] one show ?thesis by (simp add: covers_def)
        next
          case False
          with t have "between (cd_maxRev ?c) (s_Rev s) ks = [key s]" using one by (metis add_diff_cancel_right')
          moreover have "s_Rev s \<in> snd ` set ks" using 2(3) by force
          ultimately show ?thesis using covers_extend [OF assms(2) ok(1) ok' ok(2), of "s_Rev s"] keys by simp
        qed
        with True 2 r must ok(3) app ok' d' show ?thesis by (simp add: head_apply_def)
      qed
    next
      case (3 hi)
      let ?ss = "gsr_States res" and ?e = "?c\<lparr>cd_committed := []\<rparr>"
      have "log_sorted (map key ?ss)" using log_sorted_filter [OF assms(2)] by (simp add: 3(3) between_def)
      then have "sorted_wrt (<) (map s_Rev ?ss)" by (simp add: log_sorted_def comp_def)
      with head_append_spec [of ?e ?ss] ok(1) obtain d' where
        d': "head_append ?ss ?e = Ok d'" "cache_ok d'" "cd_d d' = cd_d ?c" "cd_committed d' = []"
        "map stamp (oldest_first d') = lastn (length (cd_log ?c))
          (map stamp (oldest_first ?c) @ map stamp (filter (\<lambda>s. cd_maxRev ?c < s_Rev s) ?ss))" by auto
      have "map key (filter (\<lambda>s. cd_maxRev ?c < s_Rev s) ?ss) = filter (\<lambda>k. cd_maxRev ?c < snd k) (map key ?ss)"
        by (simp add: filter_map comp_def)
      also have "\<dots> = between (cd_maxRev ?c) hi ks"
        using ok(4) unfolding 3(3) by (simp add: between_def) (rule filter_cong, auto)
      finally have "map key (oldest_first d')
          = lastn (length (cd_log ?c)) (map key (oldest_first ?c) @ between (cd_maxRev ?c) hi ks)"
        using key_stamps [of "oldest_first d'" "lastn (length (cd_log ?c)) (oldest_first ?c @ filter (\<lambda>s. cd_maxRev ?c < s_Rev s) ?ss)"] d'(5)
        by (simp add: lastn_map [symmetric])
      moreover have "hi \<le> cd_maxRev ?c \<or> hi \<in> snd ` set ks" using 3(4) ok(4) by auto
      ultimately have "covers ks d'" using covers_extend [OF assms(2) ok(1) d'(2) ok(2)] by blast
      with 3 r must d' show ?thesis by (simp add: head_apply_def)
    qed
  qed
qed

section \<open>The contract of the wrapped driver\<close>

text \<open>
  \<open>keys s\<close> are the ids and revisions of the committed states of \<open>s\<close>, in order; \<open>fits s cmds\<close> says
  that the counter has room for a commit.
\<close>

locale log_driver =
  fixes D :: "'d Driver" and ok :: "'d \<Rightarrow> bool" and fits :: "'d \<Rightarrow> Command list \<Rightarrow> bool"
    and keys :: "'d \<Rightarrow> (string \<times> int) list"
  assumes keys_sorted: "ok s \<Longrightarrow> log_sorted (keys s)"
    and keys_room: "ok s \<Longrightarrow> k \<in> set (keys s) \<Longrightarrow> rev_room (snd k)"
    and commit_log: "ok s \<Longrightarrow> list_all write_cmd cmds \<Longrightarrow> wf_heap h \<Longrightarrow> fits s cmds
      \<Longrightarrow> drv_Commit D cmds h s = (r, cs, h', s')
      \<Longrightarrow> ok s' \<and> (\<exists>new. keys s' = keys s @ new) \<and> (r = Ok () \<longrightarrow> flight_ok (keys s') (cs, h'))"
    and read_head: "ok s \<Longrightarrow> 0 < length (cd_log (c :: 'd cacheDriver))
      \<Longrightarrow> drv_GetStates D (head_cmd c m) s = (res, s')
      \<Longrightarrow> s' = s \<and> read_ok (keys s) m res"
begin

lemma step_coherent:
  assumes "cache_step D fits y y'" "ok (cd_d (sy_cache y))" "coherent (keys (cd_d (sy_cache y))) y"
  shows "ok (cd_d (sy_cache y')) \<and> coherent (keys (cd_d (sy_cache y'))) y'"
proof -
  let ?ks = "keys (cd_d (sy_cache y))"
  note ks = keys_sorted [OF assms(2)] keys_room [OF assms(2)]
  from assms(1) show ?thesis
  proof (cases rule: cache_step.cases)
    case (step_commit cmds h r cs h' s')
    with commit_log [OF assms(2)] obtain new where c: "ok s'" "keys s' = ?ks @ new"
      "r = Ok () \<longrightarrow> flight_ok (keys s') (cs, h')" by meson
    have "coherent (?ks @ new) y" using coherent_grow [OF assms(3)] keys_sorted [OF c(1)] c(2) by simp
    with c step_commit(1) show ?thesis by (auto simp: coherent_def covers_def)
  next
    case (step_append cs h d')
    with coherent_append [OF assms(3) ks(1), of "(cs, h)"] ks(2)
    have "cd_d d' = cd_d (sy_cache y)" "cache_ok d'" "covers ?ks d'" "cd_maxRev (sy_cache y) \<le> cd_maxRev d'"
      "\<forall>s \<in> set (cd_committed d'). key s \<in> set ?ks" by auto
    with assms(2,3) step_append(1) show ?thesis
      by (force simp: coherent_def dest: notin_set_remove1)
  next
    case (step_read r s')
    have "0 < length (cd_log (sy_cache y))" using assms(3) cache_ok_length by (auto simp: coherent_def)
    from read_head [OF assms(2) this step_read(3)] assms(2,3) step_read(1) show ?thesis
      by (auto simp: coherent_def)
  next
    case (step_apply m r w d')
    with coherent_apply [OF assms(3) ks(1) _ step_apply(2)] ks(2) assms(2,3)
    show ?thesis by (auto simp: coherent_def)
  qed
qed

lemma reach_coherent:
  assumes "(cache_step D fits)\<^sup>*\<^sup>* (sys0 s n) y" "ok s" "0 < n"
  shows "ok (cd_d (sy_cache y)) \<and> coherent (keys (cd_d (sy_cache y))) y"
  using assms(1)
proof (induction rule: rtranclp_induct)
  case base
  have "between (- 1) 0 (keys s) = []"
    using log_sorted_pos [OF keys_sorted [OF assms(2)]] by (force simp: between_def filter_empty_conv)
  then show ?case
    using assms(2) cache_ok_new [OF assms(3), of s]
    by (auto simp: sys0_def coherent_def covers_def) (simp_all add: newCacheDriver_def oldest_first_def)
next
  case (step y y')
  then show ?case using step_coherent by blast
qed

end

end
