(* ===== verification/CacheOnMemdriver.thy ===== *)
theory CacheOnMemdriver
  imports CacheCoherence
begin

text \<open>
  The in-memory driver meets the contract the cache relies on: its commits append to the log and
  hand the committed states back in the contexts, and its reads of the head are intervals of it.
\<close>

section \<open>The in-memory driver as a driver\<close>

definition memdriver_Driver :: "'c libs \<Rightarrow> (nat \<Rightarrow> bool) \<Rightarrow> memdriver Driver" where
  "memdriver_Driver lb pick = \<lparr>drv_GetStateByID = mem_GetStateByID, drv_GetStateByLabels = mem_GetStateByLabels,
    drv_GetData = mem_GetData, drv_StoreData = mem_StoreData, drv_Delay = mem_Delay,
    drv_GetStates = (\<lambda>cmd d. (mem_GetStates cmd d, d)),
    drv_GetDelayedStates = (\<lambda>cmd d. (mem_GetDelayedStates cmd d, d)), drv_Commit = mem_Commit lb pick\<rparr>"

definition entry_key :: "StateCtx \<Rightarrow> string \<times> int" where
  "entry_key e = (entry_ID e, entry_Rev e)"

lemma entry_key_simps [simp]: "snd (entry_key e) = entry_Rev e" "entry_key (entry_copy e) = entry_key e"
  "key (sc_Committed e) = entry_key e"
  by (simp_all add: entry_key_def key_def entry_ID_def entry_Rev_def entry_copy_def)

definition mem_keys :: "memdriver \<Rightarrow> (string \<times> int) list" where
  "mem_keys d = map entry_key (sl_entries (md_stateLog d))"

definition mem_ready :: "memdriver \<Rightarrow> bool" where
  "mem_ready d \<longleftrightarrow> mem_idle d \<and> rev_room (sl_rev (md_stateLog d))"

definition mem_fits :: "memdriver \<Rightarrow> Command list \<Rightarrow> bool" where
  "mem_fits d cmds \<longleftrightarrow> room (md_stateLog d) (Suc (committables cmds))"

lemma mem_keys_sorted: "mem_ready d \<Longrightarrow> log_sorted (mem_keys d)"
  by (auto simp: mem_ready_def mem_idle_def mem_ok_def log_ok_def mem_keys_def log_sorted_def
      comp_def list_all_iff entry_ok_def)

lemma mem_keys_room: "mem_ready d \<Longrightarrow> k \<in> set (mem_keys d) \<Longrightarrow> rev_room (snd k)"
  by (force simp: mem_ready_def mem_idle_def mem_ok_def log_ok_def mem_keys_def list_all_iff
      entry_ok_def rev_room_def)

section \<open>Commits hand the committed states back\<close>

lemma deref_store_other: "q \<noteq> p \<Longrightarrow> deref (store h p c) q = deref h q"
  by (cases p; cases q) (auto simp: deref_def store_def)

lemma with_ctx_other: "with_ctx h p f = (r, h') \<Longrightarrow> q \<noteq> p \<Longrightarrow> deref h' q = deref h q"
  by (auto simp: with_ctx_def deref_store_other split: option.splits prod.splits)

lemma write_cmd_Do:
  assumes "write_cmd cmd" "DoCommitSubCommand lb DD cmd h d = (Ok (), cmd', h1, d1)"
  shows "d1 = d \<and> cmd' = cmd \<and> (\<forall>q. Some q \<noteq> committable cmd \<longrightarrow> deref h1 q = deref h q)"
  using assms
  by (cases cmd) (auto simp: Transit_Do_def Park_Do_def split: prod.splits if_splits dest: with_ctx_other)

definition at_log :: "heap \<Rightarrow> memdriver \<Rightarrow> ctx_ref \<Rightarrow> bool" where
  "at_log h d p \<longleftrightarrow> (\<exists>c. deref h p = Some c \<and> key (sc_Current c) \<in> entry_key ` set (sl_changes (md_stateLog d)))"

lemma Append_at_log:
  assumes "log_ok (md_stateLog d)" "room (md_stateLog d) (Suc n)" "Append lb (md_stateLog d) c = (l, c')"
  shows "at_log (store h (Some a) c') (d\<lparr>md_stateLog := l\<rparr>) (Some a)"
    and "at_log h1 d q \<Longrightarrow> deref h2 q = deref h1 q \<Longrightarrow> at_log h2 (d\<lparr>md_stateLog := l\<rparr>) q"
  using Append_spec(1,2) [OF assms(2,3)] by (auto simp: at_log_def)

lemma Commit_loop_at_log:
  assumes "Commit_loop lb cmds h d = (Ok (), cs, h', d')" "list_all write_cmd cmds"
    and "mem_ok d" "wf_heap h" "room (md_stateLog d) (committables cmds)"
  shows "(\<forall>p. at_log h d p \<longrightarrow> at_log h' d' p) \<and> (\<forall>p \<in> set (List.map_filter committable cs). at_log h' d' p)"
  using assms
proof (induction cmds arbitrary: h d cs)
  case Nil
  then show ?case by (simp add: map_filter_simps)
next
  case (Cons cmd cmds)
  obtain r1 cmd1 h1 d1 where sub: "DoCommitSubCommand lb memdriver_ops cmd h d = (r1, cmd1, h1, d1)"
    by (metis surj_pair)
  have r1: "r1 = Ok ()" using Cons.prems(1) sub by (auto split: outcome.splits)
  note do = write_cmd_Do [OF _ sub [unfolded r1]]
  then have do: "d1 = d" "cmd1 = cmd" "Some q \<noteq> committable cmd \<Longrightarrow> deref h1 q = deref h q" for q
    using Cons.prems(2) by auto
  have wf1: "wf_heap h1"
    using mem.DoCommitSubCommand_keeps [OF _ Cons.prems(4) sub] Cons.prems(3) by (simp add: mem_ok_def)
  show ?case
  proof (cases "committable cmd")
    case None
    with Cons.prems(1) sub r1 do(1,2) obtain cs2 where
      rec: "Commit_loop lb cmds h1 d = (Ok (), cs2, h', d')" "cs = cmd # cs2"
      by (auto split: prod.splits)
    have "at_log h1 d p" if "at_log h d p" for p using that do(3) [of p] None by (simp add: at_log_def)
    with Cons.IH [OF rec(1)] Cons.prems(2-5) wf1 None rec(2) show ?thesis by (simp add: map_filter_simps)
  next
    case (Some p)
    with Cons.prems(1) sub r1 do(1,2) obtain c where c: "deref h1 p = Some c" "s_ID (sc_Current c) \<noteq> []"
      by (auto simp: nil_deref_def split: option.splits if_splits)
    then obtain a where a: "p = Some a" using deref_Some by blast
    obtain l c' where app: "Append lb (md_stateLog d) c = (l, c')" by fastforce
    with Cons.prems(1) sub r1 do(1,2) c Some obtain cs2 where
      rec: "Commit_loop lb cmds (store h1 p c') (d\<lparr>md_stateLog := l\<rparr>) = (Ok (), cs2, h', d')" "cs = cmd # cs2"
      by (auto split: prod.splits if_splits)
    have rm: "room (md_stateLog d) (Suc (committables cmds))" using Cons.prems(5) Some by simp
    have lok: "log_ok (md_stateLog d)" using Cons.prems(3) by (simp add: mem_ok_def)
    have wfc: "wf_StateCtx c" using wf_heap_deref [OF wf1 c(1)] .
    note lspec = Append_log_ok [OF lok wfc c(2) rm app]
    have IH: "(\<forall>q. at_log (store h1 p c') (d\<lparr>md_stateLog := l\<rparr>) q \<longrightarrow> at_log h' d' q)
        \<and> (\<forall>q \<in> set (List.map_filter committable cs2). at_log h' d' q)"
      by (rule Cons.IH [OF rec(1)])
        (use Cons.prems(2,3) lspec wf1 Append_spec(6) [OF rm app] wfc in \<open>simp_all add: mem_ok_def\<close>)
    note al = Append_at_log [OF lok rm app]
    have "at_log (store h1 p c') (d\<lparr>md_stateLog := l\<rparr>) q" if "at_log h d q" for q
    proof (cases "q = p")
      case False
      then have "deref (store h1 p c') q = deref h q" using do(3) [of q] Some by (simp add: deref_store_other)
      with al(2) that show ?thesis by blast
    qed (use al(1) a in simp)
    then show ?thesis using IH al(1) [of h1] a Some rec(2) by (auto simp: map_filter_simps)
  qed
qed

lemma mem_commit_log:
  assumes "mem_ready d" "list_all write_cmd cmds" "wf_heap h" "mem_fits d cmds"
    and "mem_Commit lb pick cmds h d = (r, cs, h', d')"
  shows "mem_ready d' \<and> (\<exists>new. mem_keys d' = mem_keys d @ new) \<and> (r = Ok () \<longrightarrow> flight_ok (mem_keys d') (cs, h'))"
proof -
  have idle: "mem_idle d" "mem_ok d" "sl_changes (md_stateLog d) = []"
    using assms(1) by (simp_all add: mem_ready_def mem_idle_def)
  have rm: "room (md_stateLog d) (committables cmds)" using assms(4) by (simp add: mem_fits_def room_def)
  note idle' = mem_Commit_idle [OF idle(1) assms(3) rm assms(5)]
  from mem_Commit_loop [OF assms(5)] obtain r1 d1 where loop: "Commit_loop lb cmds h d = (r1, cs, h', d1)"
    and bad: "r1 \<noteq> Ok () \<Longrightarrow> r = r1 \<and> d' = d1\<lparr>md_stateLog := Rollback (md_stateLog d1)\<rparr>"
    and good: "r1 = Ok () \<Longrightarrow> \<exists>l. stateLog_Commit pick (md_stateLog d1) = (r, l) \<and> d' = d1\<lparr>md_stateLog := Rollback l\<rparr>"
    by blast
  note keeps = Commit_loop_keeps [OF loop idle(2) assms(3) rm]
  have l1: "log_ok (md_stateLog d1)" using keeps by (simp add: mem_ok_def)
  have "sl_rev (md_stateLog d') = sl_rev (md_stateLog d1)"
    using bad good stateLog_Commit_ok [OF l1] by (cases "r1 = Ok ()") fastforce+
  with keeps assms(4) idle' have ready: "mem_ready d'"
    by (simp add: mem_ready_def mem_fits_def room_def rev_room_def)
  show ?thesis
  proof (cases "r = Ok ()")
    case False
    then have "sl_entries (md_stateLog d') = sl_entries (md_stateLog d)"
      using mem_Commit_entries [OF idle(1) assms(3) rm assms(5)] by blast
    with ready False show ?thesis by (simp add: mem_keys_def)
  next
    case True
    from mem_Commit_entries [OF idle(1) assms(3) rm assms(5)] True obtain d2 where
      2: "Commit_loop lb cmds h d = (Ok (), cs, h', d2)"
      "sl_entries (md_stateLog d') = sl_entries (md_stateLog d) @ sl_changes (md_stateLog d2)" by blast
    have "at_log h' d2 p" if "p \<in> set (List.map_filter committable cs)" for p
      using Commit_loop_at_log [OF 2(1) assms(2) idle(2) assms(3) rm] that by blast
    then have "flight_ok (mem_keys d') (cs, h')"
      by (fastforce simp: flight_ok_def commits_def at_log_def mem_keys_def 2(2))
    with ready 2(2) show ?thesis by (simp add: mem_keys_def)
  qed
qed

section \<open>Reads of the head\<close>

lemma take_between:
  assumes "log_sorted ks"
  shows "\<exists>hi. take n (filter (\<lambda>k. m < snd k) ks) = between m hi ks \<and> (hi \<le> m \<or> hi \<in> snd ` set ks)"
proof -
  let ?F = "filter (\<lambda>k. m < snd k) ks"
  let ?xs = "take n ?F" and ?ys = "drop n ?F"
  show ?thesis
  proof (cases "?xs = []")
    case True
    have "between m m ks = []" by (auto simp: between_def filter_empty_conv)
    with True show ?thesis by (metis order_refl)
  next
    case False
    let ?hi = "snd (last ?xs)"
    have s: "log_sorted (?xs @ ?ys)" using log_sorted_filter [OF assms] by simp
    then have "log_sorted ?xs" "\<forall>y \<in> set ?ys. ?hi < snd y"
      using log_sorted_append [OF s] False by auto
    moreover from this(1) have "\<forall>x \<in> set ?xs. snd x \<le> ?hi"
      using sorted_last [of snd ?xs] by (auto simp: log_sorted_def sorted_wrt_map)
    ultimately have "filter (\<lambda>k. snd k \<le> ?hi) (?xs @ ?ys) = ?xs"
      unfolding filter_append by (simp add: filter_id_conv filter_empty_conv not_le)
    moreover have "between m ?hi ks = filter (\<lambda>k. snd k \<le> ?hi) (?xs @ ?ys)"
      by (simp add: between_def conj_commute)
    moreover have "?hi \<in> snd ` set ks" using False by (metis filter_is_subset imageI in_mono in_set_takeD last_in_set)
    ultimately show ?thesis by metis
  qed
qed

lemma head_cmd_fields [simp]:
  "gs_Labels (head_cmd c m) = []" "gs_SinceTime (head_cmd c m) = zero_time"
  "gs_SinceRev (head_cmd c m) = (if m \<le> 0 then - 1 else m)" "gs_LatestOnly (head_cmd c m) \<longleftrightarrow> m \<le> 0"
  "gs_Limit (head_cmd c m) = (if m \<le> 0 then 1 else min 100 (int (length (cd_log c))))"
  by (simp_all add: head_cmd_def GetStatesByLabels_def WithORLabels_def WithSinceLatest_def WithLatestOnly_def
      WithLimit_def WithSinceRev_def gm_len_def)

lemma matchLabels_Nil [simp]: "matchLabels s []"
  by (simp add: matchLabels_def)

lemma map_key_after: "map key (map sc_Committed (after r es)) = filter (\<lambda>k. r < snd k) (map entry_key es)"
  by (simp add: after_def comp_def filter_map)

lemma matches_all:
  "gs_Labels cmd = [] \<Longrightarrow> IsZero (gs_SinceTime cmd) \<Longrightarrow> matches l cmd r = map sc_Committed (after r (sl_entries l))"
  by (simp add: matches_def passes_def)

lemma GetStates_loop_no_more:
  assumes "log_ok l" "after since (sl_entries l) = []" "0 \<le> gs_Limit cmd"
  shows "GetStates_loop l cmd u states since = \<lparr>gsr_States = states, gsr_More = False\<rparr>"
  using Entries_spec [of l "gs_Limit cmd + 1" since] assms
  by (subst GetStates_loop.simps) (simp add: log_ok_def sorted_wrt_append Let_def)

lemma mem_read_latest:
  assumes "mem_ready d" "m \<le> 0"
  shows "read_ok (mem_keys d) m (mem_GetStates (head_cmd c m) d)"
proof -
  let ?l = "md_stateLog d"
  have ok: "log_ok ?l" using assms(1) by (simp add: mem_ready_def mem_idle_def mem_ok_def)
  show ?thesis
  proof (cases "sl_entries ?l = []")
    case True
    then have "GetStates_loop ?l (head_cmd c m) (sl_rev ?l) [] 0 = \<lparr>gsr_States = [], gsr_More = False\<rparr>"
      by (intro GetStates_loop_no_more [OF ok]) (simp_all add: after_def)
    with True assms(2) show ?thesis by (simp add: read_ok_def mem_GetStates_def Let_def GetLatestByLabels_def)
  next
    case False
    let ?e = "last (sl_entries ?l)"
    have latest: "latest_by (\<lambda>e. True) (rev (sl_entries ?l)) = Some ?e"
      using False by (simp add: latest_by_rev)
    have "after (entry_Rev ?e) (sl_entries ?l) = []"
      using latest_match_last [OF ok latest] by (force simp: after_def filter_empty_conv)
    then have "GetStates_loop ?l (head_cmd c m) (sl_rev ?l) [sc_Committed (entry_copy ?e)] (entry_Rev ?e)
        = \<lparr>gsr_States = [sc_Committed (entry_copy ?e)], gsr_More = False\<rparr>"
      using assms(2) by (intro GetStates_loop_no_more [OF ok]) simp_all
    moreover have "key (sc_Committed (entry_copy ?e)) \<in> set (mem_keys d)"
      using False by (simp add: mem_keys_def)
    ultimately show ?thesis using assms(2) latest
      by (simp add: read_ok_def mem_GetStates_def Let_def GetLatestByLabels_def entry_copy_def)
  qed
qed

lemma mem_read_since:
  assumes "mem_ready d" "0 < m" "0 < length (cd_log c)"
  shows "read_ok (mem_keys d) m (mem_GetStates (head_cmd c m) d)"
proof -
  let ?l = "md_stateLog d" and ?cmd = "head_cmd c m"
  have ok: "log_ok ?l" using assms(1) by (simp add: mem_ready_def mem_idle_def mem_ok_def)
  let ?res = "GetStates_loop ?l ?cmd (sl_rev ?l) [] m"
  have "GetStates_post ?l ?cmd ([] @ matches ?l ?cmd m) ?res"
    by (rule GetStates_loop_spec [OF ok]) (use assms in simp_all)
  then have "gsr_States ?res = take (nat (gs_Limit ?cmd)) (map sc_Committed (after m (sl_entries ?l)))"
    using assms(2) by (simp add: GetStates_post_def matches_all IsZero_def)
  then have "map key (gsr_States ?res) = take (nat (gs_Limit ?cmd)) (filter (\<lambda>k. m < snd k) (mem_keys d))"
    by (simp add: take_map [symmetric] map_key_after [simplified] mem_keys_def)
  with take_between [OF mem_keys_sorted [OF assms(1)]] obtain hi where
    "map key (gsr_States ?res) = between m hi (mem_keys d)" "hi \<le> m \<or> hi \<in> snd ` set (mem_keys d)" by metis
  moreover have "mem_GetStates ?cmd d = Ok (?cmd\<lparr>gs_Result := Some ?res\<rparr>)"
    using assms(2) by (simp add: mem_GetStates_def Let_def)
  ultimately show ?thesis using assms(2) by (auto simp: read_ok_def)
qed

interpretation mem_log: log_driver "memdriver_Driver lb pick" mem_ready mem_fits mem_keys
proof (unfold_locales, goal_cases)
  case (3 s cmds h r cs h' s')
  then show ?case by (intro mem_commit_log) (auto simp: memdriver_Driver_def)
next
  case (4 s c m res s')
  then show ?case
    using mem_read_latest [OF 4(1), of m c] mem_read_since [OF 4(1) _ 4(2), of m]
    by (cases "m \<le> 0") (auto simp: memdriver_Driver_def)
qed (rule mem_keys_sorted mem_keys_room; assumption)+

section \<open>Properties\<close>

text \<open>A small run: a commit on a new driver behind a new cache, taken over by the ring.\<close>

definition demo_cache :: "memdriver cacheDriver outcome" where
  "demo_cache = commitAppendLog (fst (snd first_commit)) (fst (snd (snd first_commit)))
    ((newCacheDriver New 2)\<lparr>cd_d := snd (snd (snd first_commit))\<rparr>)"

lemma mem_ready_New: "mem_ready New"
  by code_simp

lemma demo_reach:
  "\<exists>c. demo_cache = Ok c \<and> (cache_step (memdriver_Driver wire_libs (\<lambda>_. True)) mem_fits)\<^sup>*\<^sup>*
    (sys0 New 2) \<lparr>sy_cache = c, sy_read = None, sy_inflight = []\<rparr>"
proof -
  let ?step = "cache_step (memdriver_Driver wire_libs (\<lambda>_. True)) mem_fits"
  let ?cs = "fst (snd first_commit)" and ?h = "fst (snd (snd first_commit))" and ?s = "snd (snd (snd first_commit))"
  let ?y1 = "(sys0 New 2)\<lparr>sy_cache := (newCacheDriver New 2)\<lparr>cd_d := ?s\<rparr>, sy_inflight := [(?cs, ?h)]\<rparr>"
  have "mem_fits New [TransitCmd (Transit (Some 0) ''f'')]" by code_simp
  with step_commit [of "[TransitCmd (Transit (Some 0) ''f'')]" "[0 \<mapsto> new_ctx ''a'']" mem_fits "sys0 New 2"
      "memdriver_Driver wire_libs (\<lambda>_. True)" "Ok ()" ?cs ?h ?s]
  have "?step (sys0 New 2) ?y1"
    using first_commit_ok wf_heap_new(1) by (simp add: memdriver_Driver_def sys0_def newCacheDriver_def)
  moreover obtain c where c: "demo_cache = Ok c"
  proof -
    have "is_ok demo_cache" by code_simp
    with that show ?thesis by (auto simp: is_ok_iff)
  qed
  moreover from this have "?step ?y1 (?y1\<lparr>sy_cache := c, sy_inflight := remove1 (?cs, ?h) (sy_inflight ?y1)\<rparr>)"
    by (intro step_append) (simp_all add: demo_cache_def)
  ultimately show ?thesis
    by (intro exI [of _ c] conjI) (auto simp: sys0_def intro: converse_rtranclp_into_rtranclp)
qed

text \<open>
  C29: the cache is coherent with the driver. Start a cache of any size on any idle driver and
  interleave commits, their take-over by the ring, reads of the head and their application in
  any order: the ring holds exactly the committed states of the driver with a revision in
  (\<open>minRev\<close>, \<open>maxRev\<close>], none missing and none foreign, and neither of the two updates of the
  ring that may follow panics.
\<close>

theorem cache_covers_log:
  assumes "(cache_step (memdriver_Driver lb pick) mem_fits)\<^sup>*\<^sup>* (sys0 s n) y" "mem_ready s" "0 < n"
  shows "map key (oldest_first (sy_cache y))
      = between (cd_minRev (sy_cache y)) (cd_maxRev (sy_cache y)) (mem_keys (cd_d (sy_cache y)))
    \<and> (\<forall>(cs, h) \<in> set (sy_inflight y). is_ok (commitAppendLog cs h (sy_cache y)))
    \<and> (\<forall>m r. sy_read y = Some (m, r) \<longrightarrow> is_ok (head_apply m r (sy_cache y)))"
proof -
  let ?ks = "mem_keys (cd_d (sy_cache y))"
  from mem_log.reach_coherent [OF assms] have y: "mem_ready (cd_d (sy_cache y))" "coherent ?ks y" by simp_all
  note ks = mem_keys_sorted [OF y(1)] and room = mem_keys_room [OF y(1)]
  have "is_ok (commitAppendLog (fst f) (snd f) (sy_cache y))" if "f \<in> set (sy_inflight y)" for f
    using coherent_append [OF y(2) ks _ that] room by (auto simp: is_ok_iff)
  moreover have "is_ok (head_apply m r (sy_cache y))" if "sy_read y = Some (m, r)" for m r
    using coherent_apply [OF y(2) ks _ that] room by (auto simp: is_ok_iff)
  ultimately show ?thesis using y(2) by (auto simp: coherent_def covers_def)
qed

theorem cache_covers_log_witness:
  "\<exists>c. demo_cache = Ok c \<and> cd_maxRev c = 1 \<and> map key (oldest_first c) = between 0 1 (mem_keys (cd_d c))"
proof -
  obtain c where c: "demo_cache = Ok c" "(cache_step (memdriver_Driver wire_libs (\<lambda>_. True)) mem_fits)\<^sup>*\<^sup>*
      (sys0 New 2) \<lparr>sy_cache = c, sy_read = None, sy_inflight = []\<rparr>"
    using demo_reach by blast
  have "(case demo_cache of Ok c \<Rightarrow> cd_maxRev c = 1 \<and> cd_minRev c = 0 | _ \<Rightarrow> False)" by code_simp
  then have "cd_maxRev c = 1" "cd_minRev c = 0" unfolding c(1) by simp_all
  with c(1) cache_covers_log [OF c(2) mem_ready_New] show ?thesis by (intro exI [of _ c]) simp
qed

text \<open>
  C30: a read answered by the cache misses nothing. In every state that such interleavings reach,
  a read without label filter that the cache answers returns the first \<open>Limit\<close> committed states
  of the driver after \<open>SinceRev\<close>, up to the revision \<open>maxRev\<close> the cache has seen, and \<open>More\<close>
  says exactly whether there are others up to it.
\<close>

theorem cached_read_complete:
  assumes "(cache_step (memdriver_Driver lb pick) mem_fits)\<^sup>*\<^sup>* (sys0 s n) y" "mem_ready s" "0 < n"
    and "getStatesFromLog (sy_cache y) cmd = (lo, hi, True, cmd')" "gs_Labels cmd = []" "0 < gs_Limit cmd"
  shows "let found = between (gs_SinceRev cmd) hi (mem_keys (cd_d (sy_cache y)))
    in \<exists>res. gs_Result cmd' = Some res \<and> map key (gsr_States res) = take (nat (gs_Limit cmd)) found
      \<and> gsr_More res = (gs_Limit cmd < int (length found))"
proof -
  let ?c = "sy_cache y" and ?ks = "mem_keys (cd_d (sy_cache y))" and ?copy = "\<lambda>s. State_CopyTo s State0"
  from mem_log.reach_coherent [OF assms(1-3)] have y: "cache_ok ?c" "covers ?ks ?c"
    by (simp_all add: coherent_def)
  from assms(4) have c: "lo = cd_minRev ?c" "hi = cd_maxRev ?c" "cd_minRev ?c \<le> gs_SinceRev cmd"
    "cmd' = cmd\<lparr>gs_Result := Some (collect cmd (oldest_first ?c) [])\<rparr>"
    by (auto simp: getStatesFromLog_def split: if_splits)
  let ?hits = "filter (hit cmd) (oldest_first ?c)"
  have "map key ?hits = filter (\<lambda>k. gs_SinceRev cmd < snd k) (map key (oldest_first ?c))"
    using assms(5) by (simp add: hit_def [abs_def] filter_map comp_def)
  also have "\<dots> = between (gs_SinceRev cmd) hi ?ks"
    using y(2) c(2,3) by (auto simp: covers_def between_def intro: filter_cong)
  finally have hits: "map key ?hits = between (gs_SinceRev cmd) hi ?ks" .
  have keys: "map key (map ?copy xs) = map key xs" for xs by simp
  show ?thesis
    using collect_limited [of "[]" cmd "oldest_first ?c"] assms(6) c(4) keys [of ?hits]
    by (simp add: Let_def take_map [symmetric] hits [symmetric] del: map_map)
qed

theorem cached_read_complete_witness:
  "\<exists>c cmd' res. demo_cache = Ok c \<and> getStatesFromLog c all_states = (0, 1, True, cmd')
    \<and> gs_Result cmd' = Some res \<and> map key (gsr_States res) = take 50 (between 0 1 (mem_keys (cd_d c)))"
proof -
  obtain c where c: "demo_cache = Ok c" "(cache_step (memdriver_Driver wire_libs (\<lambda>_. True)) mem_fits)\<^sup>*\<^sup>*
      (sys0 New 2) \<lparr>sy_cache = c, sy_read = None, sy_inflight = []\<rparr>"
    using demo_reach by blast
  have "(case demo_cache of Ok c \<Rightarrow> (case getStatesFromLog c all_states of (lo, hi, b, _) \<Rightarrow> lo = 0 \<and> hi = 1 \<and> b) | _ \<Rightarrow> False)"
    by code_simp
  then obtain cmd' where cmd': "getStatesFromLog c all_states = (0, 1, True, cmd')"
    unfolding c(1) by (auto split: prod.splits)
  have lim: "gs_Labels all_states = []" "gs_Limit all_states = 50" "gs_SinceRev all_states = 0" by (simp_all add: all_states_def)
  from cached_read_complete [OF c(2) mem_ready_New, of all_states 0 1 cmd'] cmd' lim c(1)
  show ?thesis by (auto simp: Let_def)
qed

end
