(* ===== verification/Iter.thy ===== *)
theory Iter
  imports CacheOnMemdriver
begin

text \<open>
  \<open>iter.go\<close>: the iterator over the committed states that match a command, page by page, and its
  \<open>Wait\<close> for new ones.
\<close>

section \<open>The iterator\<close>

text \<open>The driver of an iterator: any driver, or a cached one, which \<open>Wait\<close> treats on its own.\<close>

datatype 'd iter_driver = Plain 'd | Cached "'d cacheDriver"

record Iter =
  it_Cmd :: GetStatesCommand
  it_res :: "GetStatesResult option"
  it_resIdx :: int
  it_err :: "error option"

definition copyORLabels :: "strmap list \<Rightarrow> strmap list" where
  "copyORLabels orLabels = map (\<lambda>labels. gm_merge labels (Some [])) orLabels"

definition copyGetStatesCmd :: "GetStatesCommand \<Rightarrow> GetStatesCommand" where
  "copyGetStatesCmd cmd = \<lparr>gs_SinceRev = gs_SinceRev cmd, gs_SinceTime = gs_SinceTime cmd,
    gs_Labels = copyORLabels (gs_Labels cmd), gs_LatestOnly = gs_LatestOnly cmd, gs_Limit = gs_Limit cmd,
    gs_Result = None\<rparr>"

definition NewIter :: "GetStatesCommand \<Rightarrow> Iter" where
  "NewIter cmd = \<lparr>it_Cmd = copyGetStatesCmd cmd, it_res = None, it_resIdx = 0, it_err = None\<rparr>"

definition driver_GetStates ::
  "'d Driver \<Rightarrow> GetStatesCommand \<Rightarrow> 'd iter_driver \<Rightarrow> GetStatesCommand outcome \<times> 'd iter_driver" where
  "driver_GetStates D cmd x =
    (case x of
       Plain s \<Rightarrow> (case drv_GetStates D cmd s of (r, s') \<Rightarrow> (r, Plain s'))
     | Cached c \<Rightarrow> (case cache_GetStates D cmd c of (r, c') \<Rightarrow> (r, Cached c')))"

text \<open>\<open>it.Cmd.SinceRev = it.res.States[it.resIdx].Rev\<close>.\<close>

definition move_since :: "Iter \<Rightarrow> GetStatesResult \<Rightarrow> int \<Rightarrow> Iter" where
  "move_since it res i = it\<lparr>it_Cmd := (it_Cmd it)\<lparr>gs_SinceRev := s_Rev (gsr_States res ! nat i)\<rparr>\<rparr>"

definition more :: "'d Driver \<Rightarrow> 'd iter_driver \<Rightarrow> Iter \<Rightarrow> bool outcome \<times> Iter \<times> 'd iter_driver" where
  "more D x it =
    (let cmd = (it_Cmd it)\<lparr>gs_Result := None\<rparr>; it1 = it\<lparr>it_Cmd := cmd\<rparr>
     in case driver_GetStates D cmd x of
          (Err err, x') \<Rightarrow> (Ok False, it1\<lparr>it_err := Some err\<rparr>, x')
        | (Panic p, x') \<Rightarrow> (Panic p, it1, x')
        | (Ok cmd', x') \<Rightarrow>
            (case GetStates_MustResult cmd' of
               Ok res \<Rightarrow>
                 (let it2 = it1\<lparr>it_Cmd := cmd', it_res := Some res, it_resIdx := 0\<rparr>
                  in if gsr_States res = [] then (Ok False, it2, x')
                     else (Ok True, move_since it2 res 0, x'))
             | Err err \<Rightarrow> (Err err, it1\<lparr>it_Cmd := cmd'\<rparr>, x')
             | Panic p \<Rightarrow> (Panic p, it1\<lparr>it_Cmd := cmd'\<rparr>, x')))"

definition Next :: "'d Driver \<Rightarrow> 'd iter_driver \<Rightarrow> Iter \<Rightarrow> bool outcome \<times> Iter \<times> 'd iter_driver" where
  "Next D x it =
    (if it_err it \<noteq> None then (Ok False, it, x)
     else case it_res it of
       None \<Rightarrow> more D x it
     | Some res \<Rightarrow>
         (if gsr_States res = [] then (Ok False, it, x)
          else let i = it_resIdx it + 1; it1 = it\<lparr>it_resIdx := i\<rparr>
               in if i \<ge> int (length (gsr_States res)) then
                    (if gsr_More res then more D x it1 else (Ok False, it1, x))
                  else (Ok True, move_since it1 res i, x)))"

definition Iter_State :: "Iter \<Rightarrow> State outcome" where
  "Iter_State it =
    (if it_err it \<noteq> None then
       Panic ''BUG: State() must not be called if there is an error; i.e. Next() returned false''
     else case it_res it of
       None \<Rightarrow> nil_deref
     | Some res \<Rightarrow>
         (if 0 \<le> it_resIdx it \<and> it_resIdx it < int (length (gsr_States res))
          then Ok (gsr_States res ! nat (it_resIdx it)) else Panic ''runtime error: index out of range''))"

definition Iter_Err :: "Iter \<Rightarrow> error option" where
  "Iter_Err it = it_err it"

section \<open>Wait\<close>

text \<open>A result with states becomes the page before whose first state the iterator stands.\<close>

definition take_page :: "Iter \<Rightarrow> GetStatesCommand \<Rightarrow> (bool outcome \<times> Iter) \<Rightarrow> bool outcome \<times> Iter" where
  "take_page it cmd otherwise =
    (case GetStates_MustResult cmd of
       Ok res \<Rightarrow> (if gsr_States res \<noteq> [] then (Ok True, it\<lparr>it_Cmd := cmd, it_res := Some res, it_resIdx := - 1\<rparr>)
                 else otherwise)
     | Err err \<Rightarrow> (Err err, it\<lparr>it_Cmd := cmd\<rparr>)
     | Panic p \<Rightarrow> (Panic p, it\<lparr>it_Cmd := cmd\<rparr>))"

definition getStatesCacheDriver :: "'d Driver \<Rightarrow> 'd cacheDriver \<Rightarrow> Iter \<Rightarrow> bool outcome \<times> Iter" where
  "getStatesCacheDriver D cd it =
    (case getStatesFromLog cd (it_Cmd it) of
       (minRev, maxRev, True, cmd) \<Rightarrow>
         take_page it cmd (Ok False, it\<lparr>it_Cmd := cmd\<lparr>gs_SinceRev := maxRev\<rparr>\<rparr>)
     | (minRev, maxRev, False, cmd) \<Rightarrow>
         (case fst (drv_GetStates D cmd (cd_d cd)) of
            Err err \<Rightarrow> (Ok True, it\<lparr>it_Cmd := cmd, it_err := Some err\<rparr>)
          | Panic p \<Rightarrow> (Panic p, it\<lparr>it_Cmd := cmd\<rparr>)
          | Ok cmd' \<Rightarrow> take_page it cmd'
              (Ok False, it\<lparr>it_Cmd := (if gs_SinceRev cmd' < minRev then cmd'\<lparr>gs_SinceRev := minRev\<rparr> else cmd')\<rparr>)))"

definition getStates :: "'d Driver \<Rightarrow> 'd iter_driver \<Rightarrow> Iter \<Rightarrow> bool outcome \<times> Iter" where
  "getStates D x it =
    (let cmd = (it_Cmd it)\<lparr>gs_Result := None\<rparr>; it1 = it\<lparr>it_Cmd := cmd\<rparr>
     in case x of
          Cached cd \<Rightarrow> getStatesCacheDriver D cd it1
        | Plain s \<Rightarrow>
            (case fst (drv_GetStates D cmd s) of
               Err err \<Rightarrow> (Ok True, it1\<lparr>it_err := Some err\<rparr>)
             | Panic p \<Rightarrow> (Panic p, it1)
             | Ok cmd' \<Rightarrow> take_page it1 cmd' (Ok False, it1\<lparr>it_Cmd := cmd'\<rparr>)))"

text \<open>
  \<open>xs\<close> are the states of the driver at the attempts, every 100 ms, until the context is done.
\<close>

fun Wait_loop :: "'d Driver \<Rightarrow> 'd iter_driver list \<Rightarrow> Iter \<Rightarrow> unit outcome \<times> Iter" where
  "Wait_loop D [] it = (Ok (), it)"
| "Wait_loop D (x # xs) it =
    (case getStates D x it of
       (Ok True, it') \<Rightarrow> (Ok (), it')
     | (Ok False, it') \<Rightarrow> Wait_loop D xs it'
     | (Err err, it') \<Rightarrow> (Err err, it')
     | (Panic p, it') \<Rightarrow> (Panic p, it'))"

definition Wait :: "'d Driver \<Rightarrow> 'd iter_driver list \<Rightarrow> Iter \<Rightarrow> unit outcome \<times> Iter" where
  "Wait D xs it =
    (if it_err it \<noteq> None then
       (Panic ''BUG: Wait() must not be called if there is an error; i.e. Next() returned false'', it)
     else case it_res it of
       None \<Rightarrow> (Panic ''BUG: Wait() must be called only when iterator reached the log head and there is no more states immediately available'', it)
     | Some res \<Rightarrow>
         (if gsr_More res then
            (Panic ''BUG: Wait() must be called only when iterator reached the log head and there is no more states immediately available'', it)
          else Wait_loop D xs it))"

section \<open>The loop of a client\<close>

text \<open>\<open>for it.Next() { ... it.State() ... }\<close>, as the watcher runs it, for at most \<open>n\<close> rounds.\<close>

fun drain :: "'d Driver \<Rightarrow> 'd iter_driver \<Rightarrow> nat \<Rightarrow> Iter \<Rightarrow> State list \<times> Iter" where
  "drain D x 0 it = ([], it)"
| "drain D x (Suc n) it =
    (case Next D x it of
       (Ok True, it1, x1) \<Rightarrow>
         (case Iter_State it1 of
            Ok s \<Rightarrow> (case drain D x1 n it1 of (ss, it2) \<Rightarrow> (s # ss, it2))
          | _ \<Rightarrow> ([], it1))
     | (_, it1, x1) \<Rightarrow> ([], it1))"

end
