(* ===== verification/IterProps.thy ===== *)
theory IterProps
  imports Iter
begin

text \<open>
  An iterator over a driver that does not change visits the matching states in order, without
  skipping or repeating one, and goes on from there after \<open>Wait\<close>.
\<close>

section \<open>The contract of a source of states\<close>

definition same_filters :: "GetStatesCommand \<Rightarrow> GetStatesCommand \<Rightarrow> bool" where
  "same_filters c c' \<longleftrightarrow> gs_SinceTime c = gs_SinceTime c' \<and> gs_Labels c = gs_Labels c'
    \<and> gs_LatestOnly c = gs_LatestOnly c' \<and> gs_Limit c = gs_Limit c'"

text \<open>A page; \<open>exact\<close> says that it tells truly whether there is more.\<close>

definition page_of :: "bool \<Rightarrow> nat \<Rightarrow> State list \<Rightarrow> GetStatesResult \<Rightarrow> bool" where
  "page_of exact n xs res \<longleftrightarrow> gsr_States res = take n xs \<and> (gsr_More res \<longrightarrow> n < length xs)
    \<and> (\<not> gsr_More res \<longrightarrow> length xs \<le> n \<or> \<not> exact \<and> length (gsr_States res) = n)"

definition psize :: "GetStatesCommand \<Rightarrow> nat" where
  "psize c = nat (gs_Limit c)"

text \<open>The iterator is on the log head, without error; \<open>since\<close> is the last revision visited.\<close>

definition at_end :: "GetStatesCommand \<Rightarrow> Iter \<Rightarrow> int \<Rightarrow> bool" where
  "at_end cmd0 it since \<longleftrightarrow> it_err it = None \<and> same_filters (it_Cmd it) cmd0 \<and> gs_SinceRev (it_Cmd it) = since
    \<and> (\<exists>res. it_res it = Some res \<and> \<not> gsr_More res
        \<and> (gsr_States res = [] \<or> int (length (gsr_States res)) \<le> it_resIdx it))"

text \<open>
  \<open>all s c r\<close> are the matching states of the driver \<open>s\<close> after the revision \<open>r\<close>, for the filters
  of \<open>c\<close>; \<open>ready s c\<close> says that the driver is in order and \<open>c\<close> a command it reads by pages. A
  read returns the first \<open>Limit\<close> matching states.
\<close>

locale states_source =
  fixes D :: "'d Driver" and ready :: "'d \<Rightarrow> GetStatesCommand \<Rightarrow> bool"
    and all :: "'d \<Rightarrow> GetStatesCommand \<Rightarrow> int \<Rightarrow> State list" and exact :: bool
  assumes limit: "ready s c0 \<Longrightarrow> 0 < psize c0"
    and fetch_page: "ready s c0 \<Longrightarrow> same_filters c c0 \<Longrightarrow> 0 \<le> gs_SinceRev c \<Longrightarrow>
      \<exists>res. drv_GetStates D c s = (Ok (c\<lparr>gs_Result := Some res\<rparr>), s) \<and> page_of exact (psize c0) (all s c0 (gs_SinceRev c)) res"
    and all_rest: "ready s c0 \<Longrightarrow> all s c0 r = xs @ ys \<Longrightarrow> xs \<noteq> [] \<Longrightarrow> all s c0 (s_Rev (last xs)) = ys"
    and all_rev: "ready s c0 \<Longrightarrow> x \<in> set (all s c0 r) \<Longrightarrow> 0 < s_Rev x"
begin

text \<open>The iterator stands on a state of a page that was read after \<open>since\<close>.\<close>

definition on_page :: "'d \<Rightarrow> GetStatesCommand \<Rightarrow> Iter \<Rightarrow> GetStatesResult \<Rightarrow> int \<Rightarrow> bool" where
  "on_page s c0 it res since \<longleftrightarrow> it_err it = None \<and> it_res it = Some res \<and> same_filters (it_Cmd it) c0
    \<and> page_of exact (psize c0) (all s c0 since) res \<and> 0 \<le> it_resIdx it \<and> it_resIdx it < int (length (gsr_States res))
    \<and> gs_SinceRev (it_Cmd it) = s_Rev (gsr_States res ! nat (it_resIdx it))"

abbreviation left_of :: "'d \<Rightarrow> GetStatesCommand \<Rightarrow> Iter \<Rightarrow> State list" where
  "left_of s c0 it \<equiv> all s c0 (gs_SinceRev (it_Cmd it))"

lemma on_page_rest:
  assumes "ready s c0" "on_page s c0 it res since"
  shows "left_of s c0 it = drop (Suc (nat (it_resIdx it))) (all s c0 since)"
    and "gsr_States res ! nat (it_resIdx it) = all s c0 since ! nat (it_resIdx it)"
    and "nat (it_resIdx it) < length (all s c0 since)"
    and "0 < gs_SinceRev (it_Cmd it)"
proof -
  let ?i = "nat (it_resIdx it)" and ?all = "all s c0 since"
  have i: "?i < length (gsr_States res)" using assms(2) by (simp add: on_page_def nat_less_iff)
  have res: "gsr_States res = take (psize c0) ?all" using assms(2) by (simp add: on_page_def page_of_def)
  with i show len: "?i < length ?all" and nth: "gsr_States res ! ?i = ?all ! ?i" by simp_all
  have "?all = take (Suc ?i) ?all @ drop (Suc ?i) ?all" by simp
  moreover have "last (take (Suc ?i) ?all) = ?all ! ?i" using len by (simp add: take_Suc_conv_app_nth)
  moreover have "take (Suc ?i) ?all \<noteq> []" using len by auto
  ultimately show "left_of s c0 it = drop (Suc ?i) ?all"
    using all_rest [OF assms(1), of since "take (Suc ?i) ?all"] assms(2) nth by (simp add: on_page_def)
  have "?all ! ?i \<in> set ?all" using len by simp
  then show "0 < gs_SinceRev (it_Cmd it)"
    using assms(2) nth all_rev [OF assms(1)] by (simp add: on_page_def)
qed

lemma more_page:
  assumes "ready s c0" "it_err it = None" "same_filters (it_Cmd it) c0" "0 \<le> gs_SinceRev (it_Cmd it)"
  shows "\<exists>res it'. more D (Plain s) it = (Ok (left_of s c0 it \<noteq> []), it', Plain s)
    \<and> (if left_of s c0 it = [] then at_end c0 it' (gs_SinceRev (it_Cmd it))
       else on_page s c0 it' res (gs_SinceRev (it_Cmd it)) \<and> it_resIdx it' = 0)"
proof -
  let ?c = "(it_Cmd it)\<lparr>gs_Result := None\<rparr>" and ?all = "left_of s c0 it"
  have "same_filters ?c c0" using assms(3) by (simp add: same_filters_def)
  from fetch_page [OF assms(1) this] assms(4) obtain res where
    f: "drv_GetStates D ?c s = (Ok (?c\<lparr>gs_Result := Some res\<rparr>), s)" "page_of exact (psize c0) ?all res" by auto
  let ?it = "it\<lparr>it_Cmd := ?c\<lparr>gs_Result := Some res\<rparr>, it_res := Some res, it_resIdx := 0\<rparr>"
  have "gsr_States res = [] \<longleftrightarrow> ?all = []" "?all = [] \<Longrightarrow> \<not> gsr_More res"
    using f(2) limit [OF assms(1)] by (auto simp: page_of_def)
  then show ?thesis
    using f assms
    by (intro exI [of _ res] exI [of _ "if ?all = [] then ?it else move_since ?it res 0"])
      (auto simp: more_def Let_def driver_GetStates_def GetStates_MustResult_def on_page_def at_end_def
        same_filters_def move_since_def)
qed

text \<open>The outcomes of \<open>Next\<close>: inside a page, over its end to the next page, and at the end.\<close>

lemma Next_inside:
  assumes "on_page s c0 it res since" "it_resIdx it + 1 < int (length (gsr_States res))"
  shows "\<exists>it'. Next D (Plain s) it = (Ok True, it', Plain s) \<and> on_page s c0 it' res since \<and> it_resIdx it' = it_resIdx it + 1"
  using assms
  by (intro exI [of _ "move_since (it\<lparr>it_resIdx := it_resIdx it + 1\<rparr>) res (it_resIdx it + 1)"])
    (auto simp: Next_def on_page_def Let_def move_since_def same_filters_def)

lemma on_page_last:
  assumes "on_page s c0 it res since" "it_resIdx it + 1 \<ge> int (length (gsr_States res))"
  shows "Suc (nat (it_resIdx it)) = length (gsr_States res)"
  using assms by (auto simp: on_page_def)

lemma on_page_nonempty: "on_page s c0 it res since \<Longrightarrow> page_of exact (psize c0) (all s c0 since) res \<and> gsr_States res \<noteq> []"
  by (auto simp: on_page_def)

lemma Next_more:
  assumes "ready s c0" "on_page s c0 it res since" "it_resIdx it + 1 \<ge> int (length (gsr_States res))" "gsr_More res"
  shows "\<exists>res' it'. Next D (Plain s) it = (Ok True, it', Plain s)
    \<and> on_page s c0 it' res' (gs_SinceRev (it_Cmd it)) \<and> it_resIdx it' = 0
    \<and> Suc (nat (it_resIdx it)) = psize c0"
proof -
  note pg = on_page_nonempty [OF assms(2)]
  with assms(4) have len: "psize c0 < length (all s c0 since)" "length (gsr_States res) = psize c0"
    by (auto simp: page_of_def)
  with on_page_last [OF assms(2,3)] have i: "Suc (nat (it_resIdx it)) = psize c0" by simp
  then have ne: "left_of s c0 it \<noteq> []" using on_page_rest(1) [OF assms(1,2)] len(1) by simp
  let ?it = "it\<lparr>it_resIdx := it_resIdx it + 1\<rparr>"
  have "it_err ?it = None" "same_filters (it_Cmd ?it) c0" "0 \<le> gs_SinceRev (it_Cmd ?it)"
    using assms(2) on_page_rest(4) [OF assms(1,2)] by (auto simp: on_page_def)
  from more_page [OF assms(1) this] ne obtain res' it' where
    "more D (Plain s) ?it = (Ok True, it', Plain s)" "on_page s c0 it' res' (gs_SinceRev (it_Cmd it))" "it_resIdx it' = 0"
    by auto
  moreover from this(1) have "Next D (Plain s) it = (Ok True, it', Plain s)"
    using assms pg by (auto simp: Next_def on_page_def Let_def)
  ultimately show ?thesis using i by blast
qed

lemma Next_end:
  assumes "ready s c0" "on_page s c0 it res since" "it_resIdx it + 1 \<ge> int (length (gsr_States res))" "\<not> gsr_More res"
  shows "\<exists>it'. Next D (Plain s) it = (Ok False, it', Plain s) \<and> at_end c0 it' (gs_SinceRev (it_Cmd it))"
    and "left_of s c0 it = [] \<or> \<not> exact \<and> Suc (nat (it_resIdx it)) = psize c0"
proof -
  note pg = on_page_nonempty [OF assms(2)]
  show "\<exists>it'. Next D (Plain s) it = (Ok False, it', Plain s) \<and> at_end c0 it' (gs_SinceRev (it_Cmd it))"
    using assms(2-4) pg by (intro exI [of _ "it\<lparr>it_resIdx := it_resIdx it + 1\<rparr>"])
      (auto simp: Next_def on_page_def Let_def at_end_def)
  show "left_of s c0 it = [] \<or> \<not> exact \<and> Suc (nat (it_resIdx it)) = psize c0"
    using on_page_last [OF assms(2,3)] on_page_rest(1) [OF assms(1,2)] pg assms(4) by (auto simp: page_of_def)
qed

lemma Iter_State_on_page:
  assumes "ready s c0" "on_page s c0 it res since"
  shows "Iter_State it = Ok (all s c0 since ! nat (it_resIdx it))" "s_Rev (all s c0 since ! nat (it_resIdx it)) = gs_SinceRev (it_Cmd it)"
  using on_page_rest(2) [OF assms] assms(2) by (auto simp: on_page_def Iter_State_def)

text \<open>What a run of \<open>Next\<close> visits of the states \<open>R\<close> that are left, \<open>m\<close> states into a page.\<close>

definition visits :: "'d \<Rightarrow> GetStatesCommand \<Rightarrow> nat \<Rightarrow> Iter \<Rightarrow> State list \<Rightarrow> nat \<Rightarrow> int \<Rightarrow> bool" where
  "visits s c0 n it R m since \<longleftrightarrow> (\<exists>k it'. drain D (Plain s) n it = (take k R, it') \<and> k \<le> length R
    \<and> (k = length R \<or> \<not> exact \<and> psize c0 dvd m + k)
    \<and> at_end c0 it' (if k = 0 then since else s_Rev (R ! (k - 1))))"

lemma visits_step:
  assumes "ready s c0" "Next D (Plain s) it = (Ok True, it1, Plain s)" "on_page s c0 it1 res1 since1"
    and "R = all s c0 since1 ! nat (it_resIdx it1) # left_of s c0 it1"
    and "visits s c0 n it1 (left_of s c0 it1) (Suc (nat (it_resIdx it1))) (gs_SinceRev (it_Cmd it1))"
    and "Suc (nat (it_resIdx it1)) mod psize c0 = Suc m mod psize c0"
  shows "visits s c0 (Suc n) it R m since"
proof -
  let ?R1 = "left_of s c0 it1" and ?x = "all s c0 since1 ! nat (it_resIdx it1)"
  from assms(5) obtain k it' where d: "drain D (Plain s) n it1 = (take k ?R1, it')" "k \<le> length ?R1"
    "k = length ?R1 \<or> \<not> exact \<and> psize c0 dvd Suc (nat (it_resIdx it1)) + k"
    "at_end c0 it' (if k = 0 then gs_SinceRev (it_Cmd it1) else s_Rev (?R1 ! (k - 1)))"
    by (auto simp: visits_def)
  have "psize c0 dvd Suc (nat (it_resIdx it1)) + k \<longleftrightarrow> psize c0 dvd Suc m + k"
    using assms(6) by (metis dvd_eq_mod_eq_0 mod_add_left_eq)
  then show ?thesis unfolding visits_def
    using d assms(2,4) Iter_State_on_page [OF assms(1,3)]
    by (intro exI [of _ "Suc k"] exI [of _ it']) (auto simp: nth_Cons')
qed

lemma drain_on_page:
  assumes "ready s c0" "on_page s c0 it res since" "length (left_of s c0 it) < n"
  shows "visits s c0 n it (left_of s c0 it) (Suc (nat (it_resIdx it))) (gs_SinceRev (it_Cmd it))"
  using assms(2,3)
proof (induction n arbitrary: it res since)
  case (Suc n)
  let ?i = "nat (it_resIdx it)" and ?R = "left_of s c0 it"
  note rest = on_page_rest [OF assms(1) Suc.prems(1)]
  consider "it_resIdx it + 1 < int (length (gsr_States res))"
    | "it_resIdx it + 1 \<ge> int (length (gsr_States res))" "gsr_More res"
    | "it_resIdx it + 1 \<ge> int (length (gsr_States res))" "\<not> gsr_More res" by linarith
  then show ?case
  proof cases
    case 1
    from Next_inside [OF Suc.prems(1) 1] obtain it1 where n1: "Next D (Plain s) it = (Ok True, it1, Plain s)"
      "on_page s c0 it1 res since" "it_resIdx it1 = it_resIdx it + 1" by blast
    have i1: "nat (it_resIdx it1) = Suc ?i" using n1(3) Suc.prems(1) by (simp add: on_page_def nat_add_distrib)
    note rest1 = on_page_rest [OF assms(1) n1(2)]
    have R: "?R = all s c0 since ! nat (it_resIdx it1) # left_of s c0 it1"
      using rest(1) rest1(1,3) i1 by (simp add: Cons_nth_drop_Suc)
    with Suc.prems(2) have "length (left_of s c0 it1) < n" by simp
    from visits_step [OF assms(1) n1(1,2) R Suc.IH [OF n1(2) this]] i1 show ?thesis by simp
  next
    case 2
    from Next_more [OF assms(1) Suc.prems(1) 2] obtain res1 it1 where n1: "Next D (Plain s) it = (Ok True, it1, Plain s)"
      "on_page s c0 it1 res1 (gs_SinceRev (it_Cmd it))" "it_resIdx it1 = 0" "Suc ?i = psize c0" by blast
    have R: "?R = ?R ! nat (it_resIdx it1) # left_of s c0 it1"
      using on_page_rest(1,3) [OF assms(1) n1(2)] n1(3) by (cases ?R) simp_all
    with Suc.prems(2) have "length (left_of s c0 it1) < n" by (metis Suc_less_eq length_Cons less_trans_Suc not_less_eq)
    note v = visits_step [OF assms(1) n1(1,2) R Suc.IH [OF n1(2) this]]
    have "Suc (Suc ?i) = Suc 0 + psize c0" using n1(4) by simp
    then have "Suc (nat (it_resIdx it1)) mod psize c0 = Suc (Suc ?i) mod psize c0"
      using n1(3) by (metis mod_add_self2 nat_0)
    then show ?thesis by (rule v)
  next
    case 3
    from Next_end [OF assms(1) Suc.prems(1) 3] obtain it' where
      "Next D (Plain s) it = (Ok False, it', Plain s)" "at_end c0 it' (gs_SinceRev (it_Cmd it))"
      "?R = [] \<or> \<not> exact \<and> Suc ?i = psize c0" by blast
    then show ?thesis unfolding visits_def by (intro exI [of _ 0] exI [of _ it']) auto
  qed
qed simp

text \<open>A run from the start, and a run after \<open>Wait\<close>.\<close>

lemma drain_first:
  assumes "ready s c0" "Next D (Plain s) it = (Ok True, it1, Plain s)" "on_page s c0 it1 res since" "it_resIdx it1 = 0"
    and "length (all s c0 since) < n"
  shows "visits s c0 n it (all s c0 since) 0 since \<and> fst (drain D (Plain s) n it) \<noteq> []"
proof -
  obtain n' where n: "n = Suc n'" using assms(5) by (cases n) auto
  have R: "all s c0 since = all s c0 since ! nat (it_resIdx it1) # left_of s c0 it1"
    using on_page_rest(1,3) [OF assms(1,3)] assms(4) by (cases "all s c0 since") simp_all
  with assms(5) n have "length (left_of s c0 it1) < n'" by (metis Suc_less_eq length_Cons)
  from visits_step [OF assms(1-3) R drain_on_page [OF assms(1,3) this]] assms(4) n
  have "visits s c0 n it (all s c0 since) 0 since" by simp
  moreover have "fst (drain D (Plain s) n it) \<noteq> []"
    using n assms(2) Iter_State_on_page(1) [OF assms(1,3)] by (auto split: prod.split)
  ultimately show ?thesis by blast
qed

lemma drain_new:
  assumes "ready s c0" "it_err it = None" "it_res it = None" "same_filters (it_Cmd it) c0"
    and "0 \<le> gs_SinceRev (it_Cmd it)" "length (left_of s c0 it) < n"
  shows "visits s c0 n it (left_of s c0 it) 0 (gs_SinceRev (it_Cmd it))
    \<and> (left_of s c0 it \<noteq> [] \<longrightarrow> fst (drain D (Plain s) n it) \<noteq> [])"
proof -
  obtain n' where n: "n = Suc n'" using assms(6) by (cases n) auto
  from more_page [OF assms(1,2,4,5)] obtain res it' where m: "more D (Plain s) it = (Ok (left_of s c0 it \<noteq> []), it', Plain s)"
    "if left_of s c0 it = [] then at_end c0 it' (gs_SinceRev (it_Cmd it))
       else on_page s c0 it' res (gs_SinceRev (it_Cmd it)) \<and> it_resIdx it' = 0" by blast
  have nx: "Next D (Plain s) it = (Ok (left_of s c0 it \<noteq> []), it', Plain s)" using assms(2,3) m(1) by (simp add: Next_def)
  show ?thesis
  proof (cases "left_of s c0 it = []")
    case True
    with m(2) nx n show ?thesis by (auto simp: visits_def)
  next
    case False
    with drain_first [OF assms(1), of it it' res "gs_SinceRev (it_Cmd it)" n] nx m(2) assms(6) show ?thesis by simp
  qed
qed

lemma wait_then_drain:
  assumes "ready s c0" "at_end c0 it since" "0 \<le> since" "length (all s c0 since) < n"
    and "Wait D [Plain s] it = (r, it')"
  shows "r = Ok () \<and> visits s c0 n it' (all s c0 since) 0 since
    \<and> (all s c0 since \<noteq> [] \<longrightarrow> fst (drain D (Plain s) n it') \<noteq> [])"
proof -
  obtain n' where n: "n = Suc n'" using assms(4) by (cases n) auto
  from assms(2) obtain old where it: "it_err it = None" "same_filters (it_Cmd it) c0" "gs_SinceRev (it_Cmd it) = since"
    "it_res it = Some old" "\<not> gsr_More old" "gsr_States old = [] \<or> int (length (gsr_States old)) \<le> it_resIdx it"
    by (auto simp: at_end_def)
  let ?c = "(it_Cmd it)\<lparr>gs_Result := None\<rparr>"
  have "same_filters ?c c0" using it(2) by (simp add: same_filters_def)
  from fetch_page [OF assms(1) this] assms(3) it(3) obtain res where
    f: "drv_GetStates D ?c s = (Ok (?c\<lparr>gs_Result := Some res\<rparr>), s)" "page_of exact (psize c0) (all s c0 since) res" by auto
  have emp: "gsr_States res = [] \<longleftrightarrow> all s c0 since = []" using f(2) limit [OF assms(1)] by (auto simp: page_of_def)
  show ?thesis
  proof (cases "all s c0 since = []")
    case True
    let ?it = "it\<lparr>it_Cmd := ?c\<lparr>gs_Result := Some res\<rparr>\<rparr>"
    have "r = Ok ()" "it' = ?it"
      using assms(5) it f emp True by (simp_all add: Wait_def getStates_def take_page_def GetStates_MustResult_def Let_def)
    moreover have "at_end c0 ?it since" using it by (simp add: at_end_def same_filters_def)
    moreover have "\<exists>it2. Next D (Plain s) ?it = (Ok False, it2, Plain s) \<and> at_end c0 it2 since"
      using it by (auto simp: Next_def at_end_def same_filters_def Let_def)
    ultimately show ?thesis using True n by (auto simp: visits_def)
  next
    case False
    let ?it = "it\<lparr>it_Cmd := ?c\<lparr>gs_Result := Some res\<rparr>, it_res := Some res, it_resIdx := - 1\<rparr>"
    have r: "r = Ok ()" "it' = ?it"
      using assms(5) it f emp False by (simp_all add: Wait_def getStates_def take_page_def GetStates_MustResult_def Let_def)
    let ?it1 = "move_since (?it\<lparr>it_resIdx := 0\<rparr>) res 0"
    have "Next D (Plain s) ?it = (Ok True, ?it1, Plain s)" "on_page s c0 ?it1 res since" "it_resIdx ?it1 = 0"
      using it f emp False by (simp_all add: Next_def Let_def on_page_def move_since_def same_filters_def)
    from drain_first [OF assms(1) this assms(4)] r show ?thesis by simp
  qed
qed

end

section \<open>The in-memory driver as a source\<close>

lemma committed_rev [simp]: "s_Rev (sc_Committed e) = entry_Rev e"
  by (simp add: entry_Rev_def)

lemma matches_sorted: "log_ok l \<Longrightarrow> sorted_wrt (<) (map s_Rev (matches l c r))"
  by (auto simp: log_ok_def sorted_wrt_append matches_def after_def sorted_wrt_map sorted_wrt_filter comp_def)

lemma matches_narrow: "r \<le> r' \<Longrightarrow> matches l c r' = filter (\<lambda>s. r' < s_Rev s) (matches l c r)"
  by (auto simp: matches_def after_def filter_map comp_def intro!: filter_cong arg_cong [of _ _ "map _"])

lemma matches_rev: "s \<in> set (matches l c r) \<Longrightarrow> r < s_Rev s"
  by (auto simp: matches_def after_def)

lemma matches_pos: "log_ok l \<Longrightarrow> s \<in> set (matches l c r) \<Longrightarrow> 0 < s_Rev s"
  by (force simp: matches_def after_def log_ok_def list_all_iff entry_ok_def)

lemma matches_cong: "same_filters c c' \<Longrightarrow> matches l c r = matches l c' r"
  by (simp add: matches_def passes_def [abs_def] same_filters_def)

lemma matches_rest:
  assumes "log_ok l" "matches l c r = xs @ ys" "xs \<noteq> []"
  shows "matches l c (s_Rev (last xs)) = ys"
proof -
  have "last xs \<in> set (matches l c r)" using assms(2,3) by simp
  then have "r \<le> s_Rev (last xs)" using matches_rev [of "last xs" l c r] by simp
  note narrow = matches_narrow [OF this, of l c]
  have sorted: "sorted_wrt (\<lambda>x y. s_Rev x < s_Rev y) (xs @ ys)"
    using matches_sorted [OF assms(1), of c r] unfolding assms(2) sorted_wrt_map .
  then have "\<forall>y \<in> set ys. s_Rev (last xs) < s_Rev y" using assms(3) by (simp add: sorted_wrt_append)
  moreover have "\<forall>x \<in> set xs. s_Rev x \<le> s_Rev (last xs)"
    using sorted sorted_last [of s_Rev xs] by (simp add: sorted_wrt_append)
  ultimately show ?thesis
    unfolding narrow assms(2) filter_append by (simp add: filter_id_conv filter_empty_conv not_less)
qed

definition mem_source_ready :: "memdriver \<Rightarrow> GetStatesCommand \<Rightarrow> bool" where
  "mem_source_ready d c \<longleftrightarrow> mem_idle d \<and> 0 < gs_Limit c \<and> \<not> gs_LatestOnly c"

interpretation mem_source: states_source "memdriver_Driver lb pick" mem_source_ready "\<lambda>d. matches (md_stateLog d)" False
proof (unfold_locales, goal_cases)
  case (2 d c0 c)
  let ?l = "md_stateLog d" and ?res = "GetStates_loop (md_stateLog d) c (sl_rev (md_stateLog d)) [] (gs_SinceRev c)"
  have l: "log_ok ?l" "0 < gs_Limit c" "\<not> gs_LatestOnly c" "gs_Limit c = gs_Limit c0"
    using 2(1,2) by (auto simp: mem_source_ready_def same_filters_def mem_idle_def mem_ok_def)
  have "GetStates_post ?l c ([] @ matches ?l c (gs_SinceRev c)) ?res"
    by (rule GetStates_loop_spec [OF l(1,3)]) (use l(2) in simp)
  then have "page_of False (psize c0) (matches ?l c0 (gs_SinceRev c)) ?res"
    using l(2,4) matches_cong [OF 2(2)] by (auto simp: GetStates_post_def page_of_def psize_def)
  then show ?case
    using 2(3) l(2) by (intro exI [of _ ?res]) (simp add: memdriver_Driver_def mem_GetStates_def Let_def)
next
  case (3 d c0 r xs ys)
  then show ?case by (intro matches_rest) (auto simp: mem_source_ready_def mem_idle_def mem_ok_def)
next
  case (4 d c0 x r)
  then show ?case by (auto simp: mem_source_ready_def mem_idle_def mem_ok_def intro: matches_pos)
qed (simp add: mem_source_ready_def psize_def)

section \<open>Properties\<close>

lemma copied_fields [simp]:
  "gs_SinceRev (copyGetStatesCmd cmd) = gs_SinceRev cmd" "gs_Limit (copyGetStatesCmd cmd) = gs_Limit cmd"
  "gs_LatestOnly (copyGetStatesCmd cmd) = gs_LatestOnly cmd"
  by (simp_all add: copyGetStatesCmd_def)

lemma matches_grow:
  "sl_entries l' = sl_entries l @ new \<Longrightarrow> \<exists>ys. matches l' c r = matches l c r @ ys"
  by (simp add: matches_def after_def)

text \<open>
  C31: an iterator neither skips nor repeats a state. Run \<open>Next\<close> on an idle driver until it says
  no: it has visited the matching states after \<open>SinceRev\<close> in order, either all of them or whole
  pages. Then commits add entries to the log, \<open>Wait\<close> is called and \<open>Next\<close> is run again: it goes
  on with the state that follows the last one visited, over the old and the new entries, and
  visits at least one if there is one left.
\<close>

theorem iter_visits_in_order:
  assumes "mem_idle d1" "mem_idle d2" "sl_entries (md_stateLog d2) = sl_entries (md_stateLog d1) @ new"
    and "0 < gs_Limit cmd" "\<not> gs_LatestOnly cmd" "0 \<le> gs_SinceRev cmd"
    and "length (matches (md_stateLog d2) (copyGetStatesCmd cmd) (gs_SinceRev cmd)) < n"
    and "drain (memdriver_Driver lb pick) (Plain d1) n (NewIter cmd) = (v1, it1)"
    and "Wait (memdriver_Driver lb pick) [Plain d2] it1 = (r, it2)"
    and "drain (memdriver_Driver lb pick) (Plain d2) n it2 = (v2, it3)"
  defines "M1 \<equiv> matches (md_stateLog d1) (copyGetStatesCmd cmd) (gs_SinceRev cmd)"
    and "M2 \<equiv> matches (md_stateLog d2) (copyGetStatesCmd cmd) (gs_SinceRev cmd)"
    and "page \<equiv> nat (gs_Limit cmd)"
  shows "(\<exists>k. v1 = take k M1 \<and> (k = length M1 \<or> page dvd k)) \<and> r = Ok ()
    \<and> (\<exists>k. v1 @ v2 = take k M2 \<and> (k = length M2 \<or> page dvd (k - length v1)))
    \<and> (v1 = [] \<longrightarrow> M1 = []) \<and> (v2 = [] \<longrightarrow> v1 = M2)"
proof -
  let ?c = "copyGetStatesCmd cmd" and ?l1 = "md_stateLog d1" and ?l2 = "md_stateLog d2"
  have ready: "mem_source_ready d1 ?c" "mem_source_ready d2 ?c"
    using assms(1,2,4,5) by (simp_all add: mem_source_ready_def)
  have psize: "psize ?c = page" by (simp add: psize_def page_def)
  obtain ys where M2: "M2 = M1 @ ys" using matches_grow [OF assms(3)] by (auto simp: M1_def M2_def)
  have it0: "it_err (NewIter cmd) = None" "it_res (NewIter cmd) = None" "it_Cmd (NewIter cmd) = ?c"
    "same_filters (it_Cmd (NewIter cmd)) ?c" by (simp_all add: NewIter_def same_filters_def)
  have "length (matches ?l1 ?c (gs_SinceRev (it_Cmd (NewIter cmd)))) < n"
    using assms(7) M2 by (simp add: M1_def M2_def it0)
  note dn = mem_source.drain_new [OF ready(1) it0(1,2,4) _ this, of lb pick, unfolded mem_source.visits_def it0(3) copied_fields,
    folded M1_def, OF assms(6)]
  obtain k it' where "drain (memdriver_Driver lb pick) (Plain d1) n (NewIter cmd) = (take k M1, it')"
    "k \<le> length M1" "k = length M1 \<or> psize ?c dvd 0 + k" "M1 \<noteq> [] \<longrightarrow> v1 \<noteq> []"
    "at_end ?c it' (if k = 0 then gs_SinceRev cmd else s_Rev (M1 ! (k - 1)))"
    using dn unfolding assms(8) fst_conv by blast
  with assms(8) have k: "v1 = take k M1" "k \<le> length M1" "k = length M1 \<or> page dvd k" "M1 \<noteq> [] \<longrightarrow> v1 \<noteq> []"
    "at_end ?c it1 (if k = 0 then gs_SinceRev cmd else s_Rev (M1 ! (k - 1)))"
    by (simp_all add: psize)
  let ?since = "if k = 0 then gs_SinceRev cmd else s_Rev (M1 ! (k - 1))"
  have pos: "0 \<le> ?since"
  proof (cases "k = 0")
    case False
    then have "M1 ! (k - 1) \<in> set M1" using k(2) by simp
    then show ?thesis using False assms(1) matches_pos [of ?l1 "M1 ! (k - 1)"]
      by (auto simp: M1_def mem_idle_def mem_ok_def less_imp_le)
  qed (use assms(6) in simp)
  have rest: "matches ?l2 ?c ?since = drop k M2"
  proof (cases "k = 0")
    case False
    have "M2 = take k M1 @ drop k M2" using M2 k(2) by (metis append_take_drop_id append_eq_append_conv_if take_append diff_is_0_eq' take0 append_Nil2)
    moreover have ne: "take k M1 \<noteq> []" using False k(2) by auto
    moreover have "last (take k M1) = M1 ! (k - 1)" using last_conv_nth [OF ne] False k(2) by (simp add: min_def)
    ultimately show ?thesis using matches_rest [of ?l2 ?c "gs_SinceRev cmd" "take k M1" "drop k M2"] assms(2) False
      by (simp add: M2_def mem_idle_def mem_ok_def)
  qed (simp add: M2_def)
  have "length (matches ?l2 ?c ?since) < n" using rest assms(7) by (simp add: M2_def)
  note wd = mem_source.wait_then_drain [OF ready(2) k(5) pos this assms(9), unfolded mem_source.visits_def rest]
  obtain k2 it' where "drain (memdriver_Driver lb pick) (Plain d2) n it2 = (take k2 (drop k M2), it')"
    "r = Ok ()" "k2 \<le> length (drop k M2)" "k2 = length (drop k M2) \<or> psize ?c dvd 0 + k2" "drop k M2 \<noteq> [] \<longrightarrow> v2 \<noteq> []"
    using wd unfolding assms(10) fst_conv by blast
  with assms(10) have k2: "r = Ok ()" "v2 = take k2 (drop k M2)" "k2 \<le> length (drop k M2)"
    "k2 = length (drop k M2) \<or> page dvd k2" "drop k M2 \<noteq> [] \<longrightarrow> v2 \<noteq> []"
    by (simp_all add: psize)
  have v1: "v1 = take k M2" "length v1 = k" using k(1,2) M2 by simp_all
  have "v1 @ v2 = take (k + k2) M2" using v1 k2(2) by (simp add: take_add)
  moreover have "k + k2 = length M2 \<or> page dvd (k + k2 - length v1)" using k2(4) v1(2) k(2) M2 by auto
  moreover have "v2 = [] \<longrightarrow> v1 = M2" using k2(5) v1(1) by auto
  ultimately show ?thesis using k k2(1) by blast
qed

theorem iter_visits_in_order_witness:
  "\<exists>v1 it1 r it2 v2 it3. drain (memdriver_Driver wire_libs (\<lambda>_. True)) (Plain New) 5 (NewIter all_states) = (v1, it1)
    \<and> Wait (memdriver_Driver wire_libs (\<lambda>_. True)) [Plain first_driver] it1 = (r, it2)
    \<and> drain (memdriver_Driver wire_libs (\<lambda>_. True)) (Plain first_driver) 5 it2 = (v2, it3)
    \<and> v1 = [] \<and> v2 \<noteq> []"
proof -
  let ?D = "memdriver_Driver wire_libs (\<lambda>_. True)"
  obtain v1 it1 where 1: "drain ?D (Plain New) 5 (NewIter all_states) = (v1, it1)" by fastforce
  obtain r it2 where 2: "Wait ?D [Plain first_driver] it1 = (r, it2)" by fastforce
  obtain v2 it3 where 3: "drain ?D (Plain first_driver) 5 it2 = (v2, it3)" by fastforce
  have len: "length (matches (md_stateLog first_driver) (copyGetStatesCmd all_states) (gs_SinceRev all_states)) = 1"
    by code_simp
  have c: "0 < gs_Limit all_states" "\<not> gs_LatestOnly all_states" "0 \<le> gs_SinceRev all_states"
    by (simp_all add: all_states_def)
  have "sl_entries (md_stateLog first_driver) = sl_entries (md_stateLog New) @ sl_entries (md_stateLog first_driver)"
    by (simp add: New_def)
  note p = iter_visits_in_order [OF mem_idle_New mem_idle_first this c _ 1 2 3]
  have "matches (md_stateLog New) (copyGetStatesCmd all_states) (gs_SinceRev all_states) = []" by code_simp
  with p len have "v1 = []" "v2 = [] \<longrightarrow> length v1 = 1" by auto
  with 1 2 3 show ?thesis by auto
qed

text \<open>
  \<open>More\<close> of the in-memory driver is not exact. When exactly \<open>Limit\<close> of the first
  \<open>Limit + 1\<close> entries after \<open>SinceRev\<close> match, the result says that there are no more states,
  whatever the rest of the log holds, and an iterator stops there.
\<close>

lemma mem_GetStates_More_misses:
  assumes "mem_idle d" "\<not> gs_LatestOnly cmd" "0 \<le> gs_SinceRev cmd" "0 < gs_Limit cmd"
    and "length (filter (passes cmd) (take (Suc (nat (gs_Limit cmd))) (after (gs_SinceRev cmd) (sl_entries (md_stateLog d)))))
      = nat (gs_Limit cmd)"
  shows "\<exists>res. mem_GetStates cmd d = Ok (cmd\<lparr>gs_Result := Some res\<rparr>) \<and> \<not> gsr_More res
    \<and> gsr_States res = take (nat (gs_Limit cmd)) (matches (md_stateLog d) cmd (gs_SinceRev cmd))"
proof -
  let ?l = "md_stateLog d" and ?n = "Suc (nat (gs_Limit cmd))" and ?since = "gs_SinceRev cmd"
  have ok: "log_ok ?l" using assms(1) by (simp add: mem_idle_def mem_ok_def)
  let ?page = "take ?n (after ?since (sl_entries ?l))" and ?res = "GetStates_loop ?l cmd (sl_rev ?l) [] ?since"
  have lim: "nat (gs_Limit cmd + 1) = ?n" "int (nat (gs_Limit cmd)) = gs_Limit cmd" using assms(4) by simp_all
  have E: "\<exists>since'. Entries ?l ?since (gs_Limit cmd + 1) = (?page, since')"
    using Entries_spec [of ?l "gs_Limit cmd + 1" ?since] ok assms(4) lim(1)
    by (simp add: log_ok_def sorted_wrt_append Let_def)
  have "filter (passes cmd) ?page \<noteq> []" using assms(4,5) by (metis length_0_conv nat_0_iff not_le)
  then have "?page \<noteq> []" by auto
  then have "\<not> gsr_More ?res"
    using E lim(2) assms(5) by (subst GetStates_loop.simps) (auto simp: fold_add_state [OF assms(2)] Let_def)
  moreover have "gsr_States ?res = take (nat (gs_Limit cmd)) (matches ?l cmd ?since)"
    using GetStates_loop_spec [OF ok assms(2), of "[]" ?since] assms(4) by (simp add: GetStates_post_def)
  moreover have "mem_GetStates cmd d = Ok (cmd\<lparr>gs_Result := Some ?res\<rparr>)"
    using assms(3,4) by (simp add: mem_GetStates_def Let_def)
  ultimately show ?thesis by blast
qed

text \<open>Three states in one commit, the first and the last with a label.\<close>

definition three_driver :: memdriver where
  "three_driver = snd (snd (snd (mem_Commit wire_libs (\<lambda>_. True)
    [TransitCmd (Transit (Some 0) ''f''), TransitCmd (Transit (Some 1) ''f''), TransitCmd (Transit (Some 2) ''f'')]
    [0 \<mapsto> (new_ctx ''a'')\<lparr>sc_Current := SetLabel (sc_Current (new_ctx ''a'')) ''k'' ''v''\<rparr>, 1 \<mapsto> new_ctx ''b'',
     2 \<mapsto> (new_ctx ''c'')\<lparr>sc_Current := SetLabel (sc_Current (new_ctx ''c'')) ''k'' ''v''\<rparr>] New)))"

definition labelled_states :: GetStatesCommand where
  "labelled_states = WithLimit (GetStatesByLabels (Some [(''k'', ''v'')])) 1"

lemma mem_GetStates_More_misses_instance:
  "\<exists>res. mem_GetStates labelled_states three_driver = Ok (labelled_states\<lparr>gs_Result := Some res\<rparr>) \<and> \<not> gsr_More res
    \<and> map s_ID (gsr_States res) = [''a'']
    \<and> map s_ID (matches (md_stateLog three_driver) labelled_states 0) = [''a'', ''c'']"
proof -
  have idle: "mem_idle three_driver" by code_simp
  have c: "\<not> gs_LatestOnly labelled_states" "0 \<le> gs_SinceRev labelled_states" "0 < gs_Limit labelled_states"
    by code_simp+
  have "length (filter (passes labelled_states) (take (Suc (nat (gs_Limit labelled_states)))
      (after (gs_SinceRev labelled_states) (sl_entries (md_stateLog three_driver))))) = nat (gs_Limit labelled_states)"
    by code_simp
  from mem_GetStates_More_misses [OF idle c this] obtain res where
    res: "mem_GetStates labelled_states three_driver = Ok (labelled_states\<lparr>gs_Result := Some res\<rparr>)" "\<not> gsr_More res"
      "gsr_States res = take (nat (gs_Limit labelled_states)) (matches (md_stateLog three_driver) labelled_states (gs_SinceRev labelled_states))"
    by blast
  have "map s_ID (matches (md_stateLog three_driver) labelled_states 0) = [''a'', ''c'']"
    "gs_SinceRev labelled_states = 0" "nat (gs_Limit labelled_states) = 1" by code_simp+
  then show ?thesis using res by (auto simp: take_map [symmetric])
qed

end
