(* ===== verification/Lifecycle.thy ===== *)
theory Lifecycle
  imports Prelude
begin

text \<open>
  \<open>engine.go\<close>: the life of an engine, as its goroutines see it. The executions, the refresh of the
  head and the calls of \<open>Shutdown\<close> share \<open>doneCh\<close> and the wait group; every read and write of
  these two is a step of its own, and the steps interleave in any order.
\<close>

section \<open>The shared state\<close>

text \<open>
  An execution has passed its first look at \<open>doneCh\<close>, has joined the wait group and stands at the
  top of its loop, has looked again and is in the body of the loop, or has left. A call of
  \<open>Shutdown\<close> has passed its look at \<open>doneCh\<close>, has closed it, has undone the \<open>Add\<close> of
  \<open>NewEngine\<close> and waits, has been released by the goroutine that waits for the group, and has
  returned, or panicked on a closed channel.
\<close>

datatype exec_pc = Checked | Joined | Running | Finished

datatype shut_pc = Looked | Closed | Waiting | Released | Returned | Expired | Panicked

record life =
  l_done :: bool
  l_wg :: int
  l_head :: bool
  l_execs :: "exec_pc list"
  l_shuts :: "shut_pc list"

text \<open>\<open>NewEngine\<close> adds one for itself and one for the refresh of the head, which it starts.\<close>

definition NewEngine :: life where
  "NewEngine = \<lparr>l_done = False, l_wg = 2, l_head = True, l_execs = [], l_shuts = []\<rparr>"

section \<open>The steps\<close>

text \<open>
  \<open>Execute\<close>: the look at \<open>doneCh\<close>; \<open>wg.Add(1)\<close>; the look at the top of the loop, which ends the
  execution when the engine stops; the body, which goes back to the top with the next context or
  returns. An execution of a state without an id returns before the loop. Every return runs the
  deferred \<open>wg.Done()\<close>.
\<close>

definition exec_check :: "life \<Rightarrow> life option" where
  "exec_check y = (if l_done y then None else Some (y\<lparr>l_execs := l_execs y @ [Checked]\<rparr>))"

definition exec_add :: "nat \<Rightarrow> life \<Rightarrow> life option" where
  "exec_add i y =
    (if i < length (l_execs y) \<and> l_execs y ! i = Checked
     then Some (y\<lparr>l_execs := (l_execs y)[i := Joined], l_wg := l_wg y + 1\<rparr>) else None)"

definition exec_look :: "nat \<Rightarrow> life \<Rightarrow> life option" where
  "exec_look i y =
    (if i < length (l_execs y) \<and> l_execs y ! i = Joined
     then Some (if l_done y then y\<lparr>l_execs := (l_execs y)[i := Finished], l_wg := l_wg y - 1\<rparr>
                else y\<lparr>l_execs := (l_execs y)[i := Running]\<rparr>)
     else None)"

definition exec_continue :: "nat \<Rightarrow> life \<Rightarrow> life option" where
  "exec_continue i y =
    (if i < length (l_execs y) \<and> l_execs y ! i = Running
     then Some (y\<lparr>l_execs := (l_execs y)[i := Joined]\<rparr>) else None)"

definition exec_done :: "nat \<Rightarrow> life \<Rightarrow> life option" where
  "exec_done i y =
    (if i < length (l_execs y) \<and> (l_execs y ! i = Joined \<or> l_execs y ! i = Running)
     then Some (y\<lparr>l_execs := (l_execs y)[i := Finished], l_wg := l_wg y - 1\<rparr>) else None)"

text \<open>The refresh of the head ends when it sees \<open>doneCh\<close> closed.\<close>

definition head_done :: "life \<Rightarrow> life option" where
  "head_done y = (if l_done y \<and> l_head y then Some (y\<lparr>l_head := False, l_wg := l_wg y - 1\<rparr>) else None)"

text \<open>\<open>Shutdown\<close>: a call that finds \<open>doneCh\<close> closed returns at once; a second close panics.\<close>

definition shut_look :: "life \<Rightarrow> life option" where
  "shut_look y = Some (y\<lparr>l_shuts := l_shuts y @ [if l_done y then Returned else Looked]\<rparr>)"

definition shut_close :: "nat \<Rightarrow> life \<Rightarrow> life option" where
  "shut_close i y =
    (if i < length (l_shuts y) \<and> l_shuts y ! i = Looked
     then Some (if l_done y then y\<lparr>l_shuts := (l_shuts y)[i := Panicked]\<rparr>
                else y\<lparr>l_shuts := (l_shuts y)[i := Closed], l_done := True\<rparr>)
     else None)"

definition shut_undo :: "nat \<Rightarrow> life \<Rightarrow> life option" where
  "shut_undo i y =
    (if i < length (l_shuts y) \<and> l_shuts y ! i = Closed
     then Some (y\<lparr>l_shuts := (l_shuts y)[i := Waiting], l_wg := l_wg y - 1\<rparr>) else None)"

text \<open>
  The goroutine that waits for the group closes \<open>waitCh\<close>; the call returns then, or when its
  context has ended, whichever of the two the \<open>select\<close> takes.
\<close>

definition shut_release :: "nat \<Rightarrow> life \<Rightarrow> life option" where
  "shut_release i y =
    (if i < length (l_shuts y) \<and> l_shuts y ! i = Waiting \<and> l_wg y = 0
     then Some (y\<lparr>l_shuts := (l_shuts y)[i := Released]\<rparr>) else None)"

definition shut_return :: "nat \<Rightarrow> life \<Rightarrow> life option" where
  "shut_return i y =
    (if i < length (l_shuts y) \<and> l_shuts y ! i = Released
     then Some (y\<lparr>l_shuts := (l_shuts y)[i := Returned]\<rparr>) else None)"

definition shut_expire :: "nat \<Rightarrow> life \<Rightarrow> life option" where
  "shut_expire i y =
    (if i < length (l_shuts y) \<and> (l_shuts y ! i = Waiting \<or> l_shuts y ! i = Released)
     then Some (y\<lparr>l_shuts := (l_shuts y)[i := Expired]\<rparr>) else None)"

lemmas life_defs = exec_check_def exec_add_def exec_look_def exec_continue_def exec_done_def head_done_def
  shut_look_def shut_close_def shut_undo_def shut_release_def shut_return_def shut_expire_def

inductive life_step :: "life \<Rightarrow> life \<Rightarrow> bool" where
  l_exec_check: "exec_check y = Some y' \<Longrightarrow> life_step y y'"
| l_exec_add: "exec_add i y = Some y' \<Longrightarrow> life_step y y'"
| l_exec_look: "exec_look i y = Some y' \<Longrightarrow> life_step y y'"
| l_exec_continue: "exec_continue i y = Some y' \<Longrightarrow> life_step y y'"
| l_exec_done: "exec_done i y = Some y' \<Longrightarrow> life_step y y'"
| l_head_done: "head_done y = Some y' \<Longrightarrow> life_step y y'"
| l_shut_look: "shut_look y = Some y' \<Longrightarrow> life_step y y'"
| l_shut_close: "shut_close i y = Some y' \<Longrightarrow> life_step y y'"
| l_shut_undo: "shut_undo i y = Some y' \<Longrightarrow> life_step y y'"
| l_shut_release: "shut_release i y = Some y' \<Longrightarrow> life_step y y'"
| l_shut_return: "shut_return i y = Some y' \<Longrightarrow> life_step y y'"
| l_shut_expire: "shut_expire i y = Some y' \<Longrightarrow> life_step y y'"

section \<open>The invariant\<close>

definition count_pc :: "'a \<Rightarrow> 'a list \<Rightarrow> int" where
  "count_pc x xs = int (count_list xs x)"

lemma count_pc_simps [simp]:
  "count_pc x [] = 0" "count_pc x (y # ys) = (if x = y then count_pc x ys + 1 else count_pc x ys)"
  "count_pc x (xs @ ys) = count_pc x xs + count_pc x ys"
  by (auto simp: count_pc_def)

lemma count_pc_update:
  "i < length xs \<Longrightarrow> count_pc x (xs[i := y]) = count_pc x xs - (if xs ! i = x then 1 else 0) + (if y = x then 1 else 0)"
proof (induction xs arbitrary: i)
  case (Cons a xs)
  then show ?case by (cases i) auto
qed simp

lemma count_pc_zero: "count_pc x xs = 0 \<longleftrightarrow> x \<notin> set xs"
  by (simp add: count_pc_def count_list_0_iff)

lemma count_pc_nonneg [simp]: "0 \<le> count_pc x xs"
  by (simp add: count_pc_def)

lemma count_pc_at: "i < length xs \<Longrightarrow> xs ! i = x \<Longrightarrow> 0 < count_pc x xs"
  using count_pc_zero [of x xs] count_pc_nonneg [of x xs] by (fastforce simp: order_le_less)

text \<open>
  The wait group counts the executions between \<open>Add\<close> and \<open>Done\<close>, the refresh of the head, and one
  more until the closing call of \<open>Shutdown\<close> undoes it; one call at most closes. A call is released
  only when the engine is still: no execution is in the body of its loop and none can enter it any
  more, for an execution that joins late finds \<open>doneCh\<close> closed at the top of the loop.
\<close>

definition still :: "life \<Rightarrow> bool" where
  "still y \<longleftrightarrow> l_done y \<and> Running \<notin> set (l_execs y) \<and> \<not> l_head y"

definition life_ok :: "life \<Rightarrow> bool" where
  "life_ok y \<longleftrightarrow> l_wg y = count_pc Joined (l_execs y) + count_pc Running (l_execs y) + (if l_head y then 1 else 0)
      + (if l_done y then count_pc Closed (l_shuts y) else 1)
    \<and> count_pc Closed (l_shuts y) \<le> 1
    \<and> (\<not> l_done y \<longrightarrow> l_head y \<and> Closed \<notin> set (l_shuts y) \<and> Waiting \<notin> set (l_shuts y)
        \<and> Returned \<notin> set (l_shuts y))
    \<and> (Released \<in> set (l_shuts y) \<longrightarrow> still y)"

lemma steps_keep:
  assumes "\<And>y y'. life_step y y' \<Longrightarrow> P y \<Longrightarrow> P y'" "life_step\<^sup>*\<^sup>* y y'" "P y"
  shows "P y'"
  using assms(2,3) by (induction rule: rtranclp_induct) (auto intro: assms(1))

lemma life_step_still:
  assumes "life_step y y'" "still y"
  shows "still y'"
  using assms
  by (cases rule: life_step.cases) (auto simp: life_defs still_def
      dest: set_update_subset_insert [THEN subsetD] split: if_splits)

lemma wg_zero_still:
  assumes "life_ok y" "Waiting \<in> set (l_shuts y)" "l_wg y = 0"
  shows "still y"
proof -
  from assms have "l_done y" "count_pc Joined (l_execs y) + count_pc Running (l_execs y)
      + (if l_head y then 1 else 0) + count_pc Closed (l_shuts y) = 0"
    by (auto simp: life_ok_def)
  then have "count_pc Running (l_execs y) = 0 \<and> \<not> l_head y"
    using count_pc_nonneg [of Running "l_execs y"] count_pc_nonneg [of Joined "l_execs y"]
      count_pc_nonneg [of Closed "l_shuts y"]
    by (cases "l_head y") (simp_all add: add_nonneg_eq_0_iff del: count_pc_nonneg)
  with \<open>l_done y\<close> show ?thesis by (simp add: count_pc_zero still_def)
qed

text \<open>Only a release makes a call released.\<close>

lemma life_step_released:
  assumes "life_step y y'" "Released \<in> set (l_shuts y')" "Released \<notin> set (l_shuts y)"
  shows "Waiting \<in> set (l_shuts y) \<and> l_wg y = 0"
  using assms
  by (cases rule: life_step.cases) (auto simp: life_defs
      dest: set_update_subset_insert [THEN subsetD] nth_mem split: if_splits)

lemma life_step_ok:
  assumes step: "life_step y y'" and ok: "life_ok y"
  shows "life_ok y'"
proof -
  have "still y'" if "Released \<in> set (l_shuts y')"
    using life_step_released [OF step that] wg_zero_still [OF ok] ok life_step_still [OF step]
    by (cases "Released \<in> set (l_shuts y)") (auto simp: life_ok_def)
  moreover have "l_wg y' = count_pc Joined (l_execs y') + count_pc Running (l_execs y')
      + (if l_head y' then 1 else 0) + (if l_done y' then count_pc Closed (l_shuts y') else 1)
    \<and> count_pc Closed (l_shuts y') \<le> 1
    \<and> (\<not> l_done y' \<longrightarrow> l_head y' \<and> Closed \<notin> set (l_shuts y') \<and> Waiting \<notin> set (l_shuts y')
        \<and> Returned \<notin> set (l_shuts y'))"
    using step ok
    by (cases rule: life_step.cases)
      (auto simp: life_defs life_ok_def count_pc_update count_pc_zero [symmetric] still_def
        dest: count_pc_at split: if_splits)
  ultimately show ?thesis by (simp add: life_ok_def)
qed

lemma life_reach_ok: "life_step\<^sup>*\<^sup>* NewEngine y \<Longrightarrow> life_ok y"
  by (erule steps_keep [of life_ok, OF life_step_ok, rotated 2]) (simp_all add: NewEngine_def life_ok_def)

section \<open>Properties\<close>

text \<open>
  C33: \<open>Shutdown\<close> waits for the executions. Whatever the interleaving, once a call of
  \<open>Shutdown\<close> has returned because its wait for the group is over, no execution is in the body of
  its loop, the refresh of the head has ended, and it stays so: an execution that joins the group
  only now leaves it at its next look. Nothing is said of a call that returned because its context
  ended, and of one that found \<open>doneCh\<close> closed, which does not wait at all.
\<close>

theorem Shutdown_waits:
  assumes "life_step\<^sup>*\<^sup>* NewEngine y" "shut_return i y = Some y'" "life_step\<^sup>*\<^sup>* y' z"
  shows "Running \<notin> set (l_execs z) \<and> \<not> l_head z
    \<and> (\<forall>j z'. exec_look j z = Some z' \<longrightarrow> l_execs z' = (l_execs z)[j := Finished] \<and> l_wg z' = l_wg z - 1)"
proof -
  from assms(2) have "Released \<in> set (l_shuts y)" and y': "l_execs y' = l_execs y" "l_head y' = l_head y" "l_done y' = l_done y"
    by (auto simp: shut_return_def split: if_splits) (metis nth_mem)
  with life_reach_ok [OF assms(1)] have "still y'" by (simp add: life_ok_def still_def)
  from steps_keep [of still, OF life_step_still assms(3) this]
  show ?thesis by (auto simp: still_def exec_look_def split: if_splits)
qed

text \<open>Runs of a fixed sequence of steps.\<close>

definition run_steps :: "(life \<Rightarrow> life option) list \<Rightarrow> life \<Rightarrow> life option" where
  "run_steps fs y = fold (\<lambda>f acc. Option.bind acc f) fs (Some y)"

lemma run_steps_reach:
  assumes "\<forall>f \<in> set fs. \<forall>y y'. f y = Some y' \<longrightarrow> life_step y y'" "run_steps fs y = Some y'"
  shows "life_step\<^sup>*\<^sup>* y y'"
  using assms
proof (induction fs arbitrary: y' rule: rev_induct)
  case (snoc f fs)
  then obtain y1 where "run_steps fs y = Some y1" "f y1 = Some y'"
    by (cases "run_steps fs y") (auto simp: run_steps_def)
  with snoc show ?case by (auto intro: rtranclp.rtrancl_into_rtrancl)
qed (simp add: run_steps_def)

lemmas life_steps = life_step.intros

text \<open>
  Two executions, of which one runs when the engine is shut down and is waited for, and the other
  joins the group after \<open>Shutdown\<close> has returned, and leaves it.
\<close>

theorem Shutdown_waits_witness:
  "let fs = [exec_check, exec_add 0, exec_look 0, exec_check, shut_look, shut_close 0, shut_undo 0,
       exec_continue 0, exec_look 0, head_done, shut_release 0];
     gs = [exec_add 1]
   in \<exists>y y' z z'. run_steps fs NewEngine = Some y \<and> shut_return 0 y = Some y' \<and> run_steps gs y' = Some z
      \<and> Running \<notin> set (l_execs z) \<and> \<not> l_head z \<and> exec_look 1 z = Some z' \<and> l_execs z' = [Finished, Finished]"
proof -
  let ?fs = "[exec_check, exec_add 0, exec_look 0, exec_check, shut_look, shut_close 0, shut_undo 0,
       exec_continue 0, exec_look 0, head_done, shut_release 0]"
  let ?y = "\<lparr>l_done = True, l_wg = 0, l_head = False, l_execs = [Finished, Checked], l_shuts = [Released]\<rparr>"
  let ?y' = "\<lparr>l_done = True, l_wg = 0, l_head = False, l_execs = [Finished, Checked], l_shuts = [Returned]\<rparr>"
  let ?z = "\<lparr>l_done = True, l_wg = 1, l_head = False, l_execs = [Finished, Joined], l_shuts = [Returned]\<rparr>"
  let ?z' = "\<lparr>l_done = True, l_wg = 0, l_head = False, l_execs = [Finished, Finished], l_shuts = [Returned]\<rparr>"
  have r: "run_steps ?fs NewEngine = Some ?y" "shut_return 0 ?y = Some ?y'" "run_steps [exec_add 1] ?y' = Some ?z"
    and l: "exec_look 1 ?z = Some ?z'"
    by (simp_all add: run_steps_def life_defs NewEngine_def)
  have "life_step\<^sup>*\<^sup>* NewEngine ?y" "life_step\<^sup>*\<^sup>* ?y' ?z"
    by (auto intro!: run_steps_reach [OF _ r(1)] run_steps_reach [OF _ r(3)] intro: life_steps)
  from Shutdown_waits [OF this(1) r(2) this(2)] r l show ?thesis
    unfolding Let_def by (intro exI [of _ ?y] exI [of _ ?y'] exI [of _ ?z] exI [of _ ?z']) simp
qed

text \<open>
  The look at \<open>doneCh\<close> and what follows it are not one step. An execution that has looked before
  the close joins the wait group after \<open>Shutdown\<close> has returned, and answers that all is well
  without having run a flow, where one that looks later answers an error; and of two calls of
  \<open>Shutdown\<close> that have both looked, the second one panics on the close of a closed channel. A
  call that finds the channel closed returns while executions run.
\<close>

lemma Shutdown_races:
  "(\<exists>y. life_step\<^sup>*\<^sup>* NewEngine y \<and> l_shuts y = [Returned] \<and> l_execs y = [Joined])"
  "(\<exists>y. life_step\<^sup>*\<^sup>* NewEngine y \<and> l_shuts y = [Closed, Panicked])"
  "(\<exists>y. life_step\<^sup>*\<^sup>* NewEngine y \<and> l_shuts y = [Closed, Returned] \<and> l_execs y = [Running])"
proof -
  let ?fs = "[exec_check, shut_look, shut_close 0, shut_undo 0, head_done, shut_release 0, shut_return 0, exec_add 0]"
  let ?gs = "[shut_look, shut_look, shut_close 0, shut_close 1]"
  let ?hs = "[exec_check, exec_add 0, exec_look 0, shut_look, shut_close 0, shut_look]"
  let ?y = "\<lparr>l_done = True, l_wg = 1, l_head = False, l_execs = [Joined], l_shuts = [Returned]\<rparr>"
  let ?z = "\<lparr>l_done = True, l_wg = 2, l_head = True, l_execs = [], l_shuts = [Closed, Panicked]\<rparr>"
  let ?w = "\<lparr>l_done = True, l_wg = 3, l_head = True, l_execs = [Running], l_shuts = [Closed, Returned]\<rparr>"
  have "run_steps ?fs NewEngine = Some ?y" "run_steps ?gs NewEngine = Some ?z" "run_steps ?hs NewEngine = Some ?w"
    by (simp_all add: run_steps_def life_defs NewEngine_def)
  then have r: "life_step\<^sup>*\<^sup>* NewEngine ?y" "life_step\<^sup>*\<^sup>* NewEngine ?z" "life_step\<^sup>*\<^sup>* NewEngine ?w"
    by (auto intro!: run_steps_reach [of ?fs NewEngine ?y] run_steps_reach [of ?gs NewEngine ?z]
        run_steps_reach [of ?hs NewEngine ?w] intro: life_steps)
  show "\<exists>y. life_step\<^sup>*\<^sup>* NewEngine y \<and> l_shuts y = [Returned] \<and> l_execs y = [Joined]"
    using r(1) by (intro exI [of _ ?y]) simp
  show "\<exists>y. life_step\<^sup>*\<^sup>* NewEngine y \<and> l_shuts y = [Closed, Panicked]"
    using r(2) by (intro exI [of _ ?z]) simp
  show "\<exists>y. life_step\<^sup>*\<^sup>* NewEngine y \<and> l_shuts y = [Closed, Returned] \<and> l_execs y = [Running]"
    using r(3) by (intro exI [of _ ?w]) simp
qed

end
