(* ===== verification/Flow.thy ===== *)
theory Flow
  imports Errors
begin

text \<open>
  \<open>flow.go\<close>: the registry of flows. A flow is a value of the type \<open>'f\<close>: the registry only keeps
  it. The methods hold the mutex to their end.
\<close>

section \<open>The registry\<close>

record 'f DefaultFlowRegistry =
  fr_flows :: "(string \<Rightarrow> 'f option) option"

definition DefaultFlowRegistry0 :: "'f DefaultFlowRegistry" where
  "DefaultFlowRegistry0 = \<lparr>fr_flows = None\<rparr>"

definition FlowFunc_Execute :: "('s \<Rightarrow> 'e \<Rightarrow> 'r) \<Rightarrow> 's \<Rightarrow> 'e \<Rightarrow> 'r" where
  "FlowFunc_Execute f stateCtx e = f stateCtx e"

definition Flow :: "'f DefaultFlowRegistry \<Rightarrow> string \<Rightarrow> 'f outcome" where
  "Flow fr fid =
    (if fid = [] then Err (Errorf ''flow id empty'')
     else case fr_flows fr of
       None \<Rightarrow> Err ErrFlowNotFound
     | Some flows \<Rightarrow> (case flows fid of None \<Rightarrow> Err ErrFlowNotFound | Some f \<Rightarrow> Ok f))"

definition SetFlow :: "'f DefaultFlowRegistry \<Rightarrow> string \<Rightarrow> 'f \<Rightarrow> unit outcome \<times> 'f DefaultFlowRegistry" where
  "SetFlow fr fid flow =
    (if fid = [] then (Err (Errorf ''flow id empty''), fr)
     else let flows = (case fr_flows fr of None \<Rightarrow> Map.empty | Some m \<Rightarrow> m)
          in (Ok (), fr\<lparr>fr_flows := Some (flows(fid \<mapsto> flow))\<rparr>))"

definition UnsetFlow :: "'f DefaultFlowRegistry \<Rightarrow> string \<Rightarrow> unit outcome \<times> 'f DefaultFlowRegistry" where
  "UnsetFlow fr fid =
    (if fid = [] then (Err (Errorf ''flow id empty''), fr)
     else case fr_flows fr of
       None \<Rightarrow> (Ok (), fr)
     | Some flows \<Rightarrow> (Ok (), fr\<lparr>fr_flows := Some (flows(fid := None))\<rparr>))"

section \<open>The contract of a registry\<close>

text \<open>The interface \<open>FlowRegistry\<close>, of which the local registry is one implementation.\<close>

locale flow_registry =
  fixes get :: "'r \<Rightarrow> string \<Rightarrow> 'f outcome"
    and put :: "'r \<Rightarrow> string \<Rightarrow> 'f \<Rightarrow> unit outcome \<times> 'r"
    and del :: "'r \<Rightarrow> string \<Rightarrow> unit outcome \<times> 'r"
  assumes put_get: "fid \<noteq> [] \<Longrightarrow> get (snd (put r fid f)) fid = Ok f"
    and put_other: "fid' \<noteq> fid \<Longrightarrow> get (snd (put r fid f)) fid' = get r fid'"
    and del_get: "fid \<noteq> [] \<Longrightarrow> get (snd (del r fid)) fid = Err ErrFlowNotFound"
    and del_other: "fid' \<noteq> fid \<Longrightarrow> get (snd (del r fid)) fid' = get r fid'"
    and empty_id: "snd (put r [] f) = r" "snd (del r []) = r"
begin

text \<open>A sequence of operations, and the last one on an id.\<close>

fun apply_op :: "string \<times> 'f option \<Rightarrow> 'r \<Rightarrow> 'r" where
  "apply_op (fid, Some f) r = snd (put r fid f)"
| "apply_op (fid, None) r = snd (del r fid)"

lemma last_op_wins:
  assumes "fid \<noteq> []"
  shows "get (fold apply_op ops r) fid =
    (case map_of (rev ops) fid of
       None \<Rightarrow> get r fid
     | Some None \<Rightarrow> Err ErrFlowNotFound
     | Some (Some f) \<Rightarrow> Ok f)"
proof (induction ops rule: rev_induct)
  case (snoc opr ops)
  obtain fid' f where opr: "opr = (fid', f)" by fastforce
  then show ?case
    using snoc assms put_get del_get put_other [of fid fid'] del_other [of fid fid']
    by (cases "fid' = fid"; cases f) auto
qed simp

end

interpretation default_registry: flow_registry Flow SetFlow UnsetFlow
  by unfold_locales (auto simp: Flow_def SetFlow_def UnsetFlow_def Let_def split: option.splits)

section \<open>Properties\<close>

definition registry_op :: "string \<times> 'f option \<Rightarrow> 'f DefaultFlowRegistry \<Rightarrow> 'f DefaultFlowRegistry" where
  "registry_op x fr = (case snd x of Some f \<Rightarrow> snd (SetFlow fr (fst x) f) | None \<Rightarrow> snd (UnsetFlow fr (fst x)))"

lemma registry_op_apply: "registry_op = default_registry.apply_op"
proof (rule ext, rule ext)
  show "registry_op x fr = default_registry.apply_op x fr" for x and fr :: "'f DefaultFlowRegistry"
    by (cases x; cases "snd x") (auto simp: registry_op_def)
qed

text \<open>
  After any sequence of \<open>SetFlow\<close> and \<open>UnsetFlow\<close> on a new registry, \<open>Flow\<close> finds the flow of
  the last \<open>SetFlow\<close> of the id, and \<open>ErrFlowNotFound\<close> when the id was never set or was unset since.
\<close>

lemma Flow_last_op:
  assumes "fid \<noteq> []"
  shows "Flow (fold registry_op ops DefaultFlowRegistry0) fid =
    (case map_of (rev ops) fid of Some (Some f) \<Rightarrow> Ok f | _ \<Rightarrow> Err ErrFlowNotFound)"
  unfolding registry_op_apply default_registry.last_op_wins [OF assms]
  using assms by (auto simp: Flow_def DefaultFlowRegistry0_def split: option.split)

lemma Flow_last_op_instance:
  "Flow (fold registry_op [(''f'', Some (1 :: nat)), (''g'', Some 2), (''f'', None)] DefaultFlowRegistry0) ''g'' = Ok 2"
  by (subst Flow_last_op) simp_all

end
