(* ===== verification/Engine.thy ===== *)
theory Engine
  imports Cachedriver Flow
begin

text \<open>
  \<open>engine.go\<close>: the engine runs commands against its cached driver and executes flows until one
  of them parks, delays or ends the execution. Goroutines started by an \<open>Execute\<close> command are
  recorded, with the copy of the context they get, and run as executions of their own.
\<close>

section \<open>The world of an engine\<close>

text \<open>
  \<open>w_heap\<close> holds the state contexts, the addresses from \<open>w_next\<close> on are free; \<open>w_spawned\<close> are the
  contexts handed to goroutines; \<open>w_done\<close> tells whether \<open>doneCh\<close> is closed; \<open>w_sess\<close> is \<open>sessIDS\<close>.
\<close>

record 'd world =
  w_cache :: "'d cacheDriver"
  w_heap :: heap
  w_next :: nat
  w_spawned :: "nat list"
  w_done :: bool
  w_sess :: int

text \<open>A flow gets the context and the engine and returns a command or an error.\<close>

type_synonym 'd flow = "ctx_ref \<Rightarrow> 'd world \<Rightarrow> Command outcome \<times> 'd world"

section \<open>Sessions and logging\<close>

text \<open>The first session id that is set; a nil context panics.\<close>

definition sess_of :: "heap \<Rightarrow> ctx_ref \<Rightarrow> int outcome" where
  "sess_of h p = (case deref h p of None \<Rightarrow> nil_deref | Some c \<Rightarrow> Ok (sc_sessID c))"

fun cmd_sess :: "heap \<Rightarrow> Command \<Rightarrow> int outcome"
  and cmdsSessID :: "heap \<Rightarrow> Command list \<Rightarrow> int outcome" where
  "cmd_sess h (TransitCmd cmd) = sess_of h (tr_StateCtx cmd)"
| "cmd_sess h (ParkCmd cmd) = sess_of h (pk_StateCtx cmd)"
| "cmd_sess h (DelayCmd cmd) = sess_of h (dl_StateCtx cmd)"
| "cmd_sess h NoopCmd = Ok 0"
| "cmd_sess h (StackCmd cmd) = sess_of h (st_CarrierStateCtx cmd)"
| "cmd_sess h (UnstackCmd cmd) = sess_of h (un_CarrierStateCtx cmd)"
| "cmd_sess h (GetStateByIDCmd cmd) = Ok 0"
| "cmd_sess h (GetStateByLabelsCmd cmd) = Ok 0"
| "cmd_sess h (GetStatesCmd cmd) = Ok 0"
| "cmd_sess h (GetDelayedStatesCmd cmd) = Ok 0"
| "cmd_sess h (CommitCmd cmds) = cmdsSessID h cmds"
| "cmd_sess h (ExecuteCmd cmd) = sess_of h (ex_StateCtx cmd)"
| "cmd_sess h (StoreDataCmd cmd) = sess_of h (sd_StateCtx cmd)"
| "cmd_sess h (GetDataCmd cmd) = sess_of h (gd_StateCtx cmd)"
| "cmd_sess h NilCmd = Panic ''BUG: unknown command type <nil>''"
| "cmdsSessID h [] = Ok 0"
| "cmdsSessID h (cmd # cmds) = obind (cmd_sess h cmd) (\<lambda>sid. if sid \<noteq> 0 then Ok sid else cmdsSessID h cmds)"

text \<open>
  \<open>logCommand\<close> reads the id and the revision of the contexts it logs, so that a nil context
  panics; what it writes is not modelled.
\<close>

fun logCommand :: "heap \<Rightarrow> Command \<Rightarrow> unit outcome"
  and logCommands :: "heap \<Rightarrow> Command list \<Rightarrow> unit outcome" where
  "logCommand h (CommitCmd cmds) = logCommands h cmds"
| "logCommand h (TransitCmd cmd) = obind (sess_of h (tr_StateCtx cmd)) (\<lambda>_. Ok ())"
| "logCommand h (ParkCmd cmd) = obind (sess_of h (pk_StateCtx cmd)) (\<lambda>_. Ok ())"
| "logCommand h (DelayCmd cmd) = obind (sess_of h (dl_StateCtx cmd)) (\<lambda>_. Ok ())"
| "logCommand h (ExecuteCmd cmd) = obind (sess_of h (ex_StateCtx cmd)) (\<lambda>_. Ok ())"
| "logCommand h (StoreDataCmd cmd) = obind (sess_of h (sd_StateCtx cmd)) (\<lambda>_. Ok ())"
| "logCommand h (GetDataCmd cmd) = obind (sess_of h (gd_StateCtx cmd)) (\<lambda>_. Ok ())"
| "logCommand h cmd = Ok ()"
| "logCommands h [] = Ok ()"
| "logCommands h (cmd # cmds) = obind (logCommand h cmd) (\<lambda>_. logCommands h cmds)"

section \<open>Allocation\<close>

text \<open>\<open>&StateCtx{}\<close>, filled with \<open>c\<close>, and \<open>go e.Execute(stateCtx)\<close>, as other parts of the program use them.\<close>

definition new_context :: "StateCtx \<Rightarrow> 'd world \<Rightarrow> nat \<times> 'd world" where
  "new_context c w = (w_next w, w\<lparr>w_heap := (w_heap w)(w_next w \<mapsto> c), w_next := Suc (w_next w)\<rparr>)"

definition spawn_Execute :: "nat \<Rightarrow> 'd world \<Rightarrow> 'd world" where
  "spawn_Execute a w = w\<lparr>w_spawned := w_spawned w @ [a]\<rparr>"

section \<open>One command\<close>

text \<open>\<open>for n, d := range Datas { stateCtx.SetData(n, d.CopyTo(&Data{})) }\<close>.\<close>

fun copy_Datas :: "(string \<times> Data option) list \<Rightarrow> StateCtx \<Rightarrow> StateCtx outcome" where
  "copy_Datas [] c = Ok c"
| "copy_Datas ((n, Some d) # ds) c = copy_Datas ds (SetData c n (Some (Data_CopyTo d Data0)))"
| "copy_Datas ((n, None) # ds) c = nil_deref"

text \<open>The guards of a commit, in the order of the commands.\<close>

fun commit_guard :: "Command list \<Rightarrow> unit outcome" where
  "commit_guard [] = Ok ()"
| "commit_guard (CommitCmd _ # cmds) = Err (Errorf ''commit command not allowed inside another commit'')"
| "commit_guard (ExecuteCmd _ # cmds) = Err (Errorf ''execute command not allowed inside commit'')"
| "commit_guard (GetDelayedStatesCmd _ # cmds) = Err (Errorf ''get delayed states command not allowed inside commit'')"
| "commit_guard (GetStatesCmd _ # cmds) = Err (Errorf ''get states command not allowed inside commit'')"
| "commit_guard (_ # cmds) = commit_guard cmds"

text \<open>
  The switch of \<open>doCmd\<close>. The command comes back because the reads and \<open>Delay\<close> store their
  result in it. \<open>now\<close> is the reading of the clock.
\<close>

fun doCmd_switch :: "'d Driver \<Rightarrow> 'c libs \<Rightarrow> time \<Rightarrow> Command \<Rightarrow> 'd world \<Rightarrow> unit outcome \<times> Command \<times> 'd world" where
  "doCmd_switch D lb now (TransitCmd cmd) w =
    (case Transit_Do cmd (w_heap w) of (r, h) \<Rightarrow> (r, TransitCmd cmd, w\<lparr>w_heap := h\<rparr>))"
| "doCmd_switch D lb now (ParkCmd cmd) w =
    (case Park_Do cmd (w_heap w) of (r, h) \<Rightarrow> (r, ParkCmd cmd, w\<lparr>w_heap := h\<rparr>))"
| "doCmd_switch D lb now NoopCmd w = (Ok (), NoopCmd, w)"
| "doCmd_switch D lb now (StackCmd cmd) w =
    (case Stack_Do lb cmd (w_heap w) of (r, h) \<Rightarrow> (r, StackCmd cmd, w\<lparr>w_heap := h\<rparr>))"
| "doCmd_switch D lb now (UnstackCmd cmd) w =
    (case Unstack_Do lb cmd (w_heap w) of (r, h) \<Rightarrow> (r, UnstackCmd cmd, w\<lparr>w_heap := h\<rparr>))"
| "doCmd_switch D lb now (StoreDataCmd cmd) w =
    (case StoreData_Prepare lb cmd (w_heap w) of
       (Err err, h) \<Rightarrow> (Err err, StoreDataCmd cmd, w\<lparr>w_heap := h\<rparr>)
     | (Panic p, h) \<Rightarrow> (Panic p, StoreDataCmd cmd, w\<lparr>w_heap := h\<rparr>)
     | (Ok False, h) \<Rightarrow> (Ok (), StoreDataCmd cmd, w\<lparr>w_heap := h\<rparr>)
     | (Ok True, h) \<Rightarrow>
         (case cache_StoreData D cmd h (w_cache w) of
            (Ok _, h1, c) \<Rightarrow>
              (case StoreData_post cmd h1 of (r, h2) \<Rightarrow> (r, StoreDataCmd cmd, w\<lparr>w_heap := h2, w_cache := c\<rparr>))
          | (r, h1, c) \<Rightarrow> (r, StoreDataCmd cmd, w\<lparr>w_heap := h1, w_cache := c\<rparr>)))"
| "doCmd_switch D lb now (GetDataCmd cmd) w =
    (case GetData_Prepare cmd (w_heap w) of
       (Err err, h) \<Rightarrow> (Err err, GetDataCmd cmd, w\<lparr>w_heap := h\<rparr>)
     | (Panic p, h) \<Rightarrow> (Panic p, GetDataCmd cmd, w\<lparr>w_heap := h\<rparr>)
     | (Ok False, h) \<Rightarrow> (Ok (), GetDataCmd cmd, w\<lparr>w_heap := h\<rparr>)
     | (Ok True, h) \<Rightarrow>
         (case cache_GetData D cmd h (w_cache w) of (r, h1, c) \<Rightarrow> (r, GetDataCmd cmd, w\<lparr>w_heap := h1, w_cache := c\<rparr>)))"
| "doCmd_switch D lb now (ExecuteCmd cmd) w =
    (if ex_sync cmd then (Ok (), ExecuteCmd cmd, w)
     else case deref (w_heap w) (ex_StateCtx cmd) of
       None \<Rightarrow> (nil_deref, ExecuteCmd cmd, w)
     | Some c \<Rightarrow>
         (case copy_Datas (gm_entries (sc_Datas c)) (StateCtx_CopyTo c StateCtx0) of
            Ok c' \<Rightarrow> (Ok (), ExecuteCmd cmd, w\<lparr>w_heap := (w_heap w)(w_next w \<mapsto> c'),
              w_next := Suc (w_next w), w_spawned := w_spawned w @ [w_next w]\<rparr>)
          | Err err \<Rightarrow> (Err err, ExecuteCmd cmd, w)
          | Panic p \<Rightarrow> (Panic p, ExecuteCmd cmd, w)))"
| "doCmd_switch D lb now (GetStateByIDCmd cmd) w =
    (case GetStateByID_Prepare cmd of
       Ok _ \<Rightarrow> (case cache_GetStateByID D cmd (w_heap w) (w_cache w) of
           (r, h, c) \<Rightarrow> (r, GetStateByIDCmd cmd, w\<lparr>w_heap := h, w_cache := c\<rparr>))
     | r \<Rightarrow> (r, GetStateByIDCmd cmd, w))"
| "doCmd_switch D lb now (GetStateByLabelsCmd cmd) w =
    (case cache_GetStateByLabels D cmd (w_heap w) (w_cache w) of
       (r, h, c) \<Rightarrow> (r, GetStateByLabelsCmd cmd, w\<lparr>w_heap := h, w_cache := c\<rparr>))"
| "doCmd_switch D lb now (GetStatesCmd cmd) w =
    (case cache_GetStates D cmd (w_cache w) of
       (Ok cmd', c) \<Rightarrow>
         ((if gs_Result cmd' = None then Err (Errorf ''get states command contains nil result'') else Ok ()),
          GetStatesCmd cmd', w\<lparr>w_cache := c\<rparr>)
     | (Err err, c) \<Rightarrow> (Err err, GetStatesCmd cmd, w\<lparr>w_cache := c\<rparr>)
     | (Panic p, c) \<Rightarrow> (Panic p, GetStatesCmd cmd, w\<lparr>w_cache := c\<rparr>))"
| "doCmd_switch D lb now (DelayCmd cmd) w =
    (case Delay_Prepare lb cmd (w_heap w) of
       Ok cmd' \<Rightarrow> (case cache_Delay D cmd' (w_cache w) of (r, c) \<Rightarrow> (r, DelayCmd cmd', w\<lparr>w_cache := c\<rparr>))
     | Err err \<Rightarrow> (Err err, DelayCmd cmd, w)
     | Panic p \<Rightarrow> (Panic p, DelayCmd cmd, w))"
| "doCmd_switch D lb now (GetDelayedStatesCmd cmd) w =
    (case cache_GetDelayedStates D (GetDelayedStates_Prepare now cmd) (w_cache w) of
       (Ok cmd', c) \<Rightarrow>
         ((if gt_Result cmd' = None then Err (Errorf ''get delayed states command contains nil result'') else Ok ()),
          GetDelayedStatesCmd cmd', w\<lparr>w_cache := c\<rparr>)
     | (Err err, c) \<Rightarrow> (Err err, GetDelayedStatesCmd (GetDelayedStates_Prepare now cmd), w\<lparr>w_cache := c\<rparr>)
     | (Panic p, c) \<Rightarrow> (Panic p, GetDelayedStatesCmd (GetDelayedStates_Prepare now cmd), w\<lparr>w_cache := c\<rparr>))"
| "doCmd_switch D lb now (CommitCmd cmds) w =
    (if cmds = [] then (Err (Errorf ''no commands to commit''), CommitCmd cmds, w)
     else case commit_guard cmds of
       Ok _ \<Rightarrow> (case cache_Commit D cmds (w_heap w) (w_cache w) of
           (r, cs, h, c) \<Rightarrow> (r, CommitCmd cs, w\<lparr>w_heap := h, w_cache := c\<rparr>))
     | r \<Rightarrow> (r, CommitCmd cmds, w))"
| "doCmd_switch D lb now NilCmd w = (Err (Errorf ''command <nil> not supported''), NilCmd, w)"

definition doCmd :: "'d Driver \<Rightarrow> 'c libs \<Rightarrow> time \<Rightarrow> Command \<Rightarrow> 'd world \<Rightarrow> unit outcome \<times> Command \<times> 'd world" where
  "doCmd D lb now cmd w =
    (case obind (cmdsSessID (w_heap w) [cmd]) (\<lambda>_. logCommand (w_heap w) cmd) of
       Ok _ \<Rightarrow> doCmd_switch D lb now cmd w
     | r \<Rightarrow> (r, cmd, w))"

fun do_loop :: "'d Driver \<Rightarrow> 'c libs \<Rightarrow> time \<Rightarrow> Command list \<Rightarrow> 'd world \<Rightarrow> unit outcome \<times> Command list \<times> 'd world" where
  "do_loop D lb now [] w = (Ok (), [], w)"
| "do_loop D lb now (cmd # cmds) w =
    (case doCmd D lb now cmd w of
       (Ok _, cmd', w1) \<Rightarrow> (case do_loop D lb now cmds w1 of (r, cs, w2) \<Rightarrow> (r, cmd' # cs, w2))
     | (r, cmd', w1) \<Rightarrow> (r, cmd' # cmds, w1))"

definition engine_do :: "'d Driver \<Rightarrow> 'c libs \<Rightarrow> time \<Rightarrow> Command list \<Rightarrow> 'd world \<Rightarrow> unit outcome \<times> Command list \<times> 'd world" where
  "engine_do D lb now cmds w =
    (if cmds = [] then (Err (Errorf ''no commands to do''), [], w) else do_loop D lb now cmds w)"

section \<open>Executing flows\<close>

fun continueExecution :: "Command \<Rightarrow> ctx_ref option outcome" where
  "continueExecution (CommitCmd [cmd]) = continueExecution cmd"
| "continueExecution (CommitCmd _) = Err (Errorf ''commit command must have exactly one command'')"
| "continueExecution (ExecuteCmd cmd) = Ok (Some (ex_StateCtx cmd))"
| "continueExecution (TransitCmd cmd) = Ok (Some (tr_StateCtx cmd))"
| "continueExecution (DelayCmd cmd) = Ok None"
| "continueExecution (ParkCmd cmd) = Ok None"
| "continueExecution NoopCmd = Ok None"
| "continueExecution cmd = Err (Errorf (''unknown command 123 '' @ cmd_type cmd))"

definition sync_cmd :: "Command \<Rightarrow> Command" where
  "sync_cmd cmd = (case cmd of ExecuteCmd c \<Rightarrow> ExecuteCmd (c\<lparr>ex_sync := True\<rparr>) | _ \<Rightarrow> cmd)"

text \<open>
  The loop of \<open>Execute\<close>. Flows may loop for ever: the result is \<open>None\<close> when the fuel, one unit
  per flow, is used up. A conflict ends the execution without an error.
\<close>

fun Execute_loop ::
  "nat \<Rightarrow> 'd Driver \<Rightarrow> 'c libs \<Rightarrow> time \<Rightarrow> 'd flow DefaultFlowRegistry \<Rightarrow> ctx_ref \<Rightarrow> 'd world
    \<Rightarrow> (unit outcome \<times> 'd world) option" where
  "Execute_loop 0 D lb now fr p w = None"
| "Execute_loop (Suc n) D lb now fr p w =
    (if w_done w then Some (Ok (), w)
     else case deref (w_heap w) p of
       None \<Rightarrow> Some (nil_deref, w)
     | Some stateCtx \<Rightarrow>
         (if ts_To (s_Transition (sc_Current stateCtx)) = [] then Some (Err (Errorf ''transition to id empty''), w)
          else case Flow fr (ts_To (s_Transition (sc_Current stateCtx))) of
            Err err \<Rightarrow> Some (Err err, w)
          | Panic q \<Rightarrow> Some (Panic q, w)
          | Ok f \<Rightarrow>
              (case f p w of
                 (Err err, w1) \<Rightarrow> Some (Err err, w1)
               | (Panic q, w1) \<Rightarrow> Some (Panic q, w1)
               | (Ok cmd0, w1) \<Rightarrow>
                   (case doCmd D lb now (sync_cmd cmd0) w1 of
                      (Err err, cmd, w2) \<Rightarrow> Some (if IsErrRevMismatch err then Ok () else Err err, w2)
                    | (Panic q, cmd, w2) \<Rightarrow> Some (Panic q, w2)
                    | (Ok _, cmd, w2) \<Rightarrow>
                        (case continueExecution cmd of
                           Err err \<Rightarrow> Some (Err err, w2)
                         | Panic q \<Rightarrow> Some (Panic q, w2)
                         | Ok None \<Rightarrow> Some (Ok (), w2)
                         | Ok (Some next) \<Rightarrow>
                             (if next = None then Some (Ok (), w2)
                              else Execute_loop n D lb now fr next w2))))))"

definition Execute_ctx ::
  "nat \<Rightarrow> 'd Driver \<Rightarrow> 'c libs \<Rightarrow> time \<Rightarrow> 'd flow DefaultFlowRegistry \<Rightarrow> ctx_ref \<Rightarrow> 'd world
    \<Rightarrow> (unit outcome \<times> 'd world) option" where
  "Execute_ctx n D lb now fr p w =
    (if w_done w then Some (Err (Errorf ''engine stopped''), w)
     else let w1 = w\<lparr>w_sess := i64 (w_sess w + 1)\<rparr>
          in case deref (w_heap w1) p of
               None \<Rightarrow> Some (nil_deref, w1)
             | Some c \<Rightarrow>
                 (let w2 = w1\<lparr>w_heap := store (w_heap w1) p (c\<lparr>sc_sessID := w_sess w1, sc_e := True\<rparr>)\<rparr>
                  in if s_ID (sc_Current c) = [] then Some (Err (Errorf ''state id empty''), w2)
                     else Execute_loop n D lb now fr p w2))"

end
