(* ===== verification/Delayer.thy ===== *)
theory Delayer
  imports Engine
begin

text \<open>
  \<open>delay.go\<close>, the delayer: a background process that loads delayed states from the driver, and when
  their time has come commits the transit and executes the flow. The ticks of its loop run one
  at a time; each is a function of the delayer, of the world of the engine and of the time of the
  tick.
\<close>

section \<open>The delayer\<close>

text \<open>
  \<open>dy_meta\<close> is the address of the meta context. The map \<open>delayedStates\<close> is the list of its
  entries, in the order in which a loop visits them; no result depends on that order.
\<close>

record Delayer =
  dy_meta :: nat
  dy_offset :: int
  dy_since :: time
  dy_commitSince :: time
  dy_commitOffset :: int
  dy_delayedStates :: "(int \<times> DelayedState) list"

definition second :: int where
  "second = 10 ^ 9"

text \<open>\<open>time.Unix(0, 0)\<close>.\<close>

definition epoch :: time where
  "epoch = time_Unix 0 0"

section \<open>The meta state\<close>

definition delayer_id :: string where
  "delayer_id = ''flowstate.delayer.meta''"

text \<open>\<open>parse\<close> is \<open>time.Parse\<close> of the RFC 3339 layout.\<close>

definition setDelayerMetaState :: "'c libs \<Rightarrow> time \<Rightarrow> int \<Rightarrow> StateCtx \<Rightarrow> StateCtx" where
  "setDelayerMetaState lb since offset c =
    (let c1 = c\<lparr>sc_Current := SetAnnotation (sc_Current c) ''flowstate.delayer.offset'' (FormatInt offset)\<rparr>
     in c1\<lparr>sc_Current := SetAnnotation (sc_Current c1) ''flowstate.delayer.since'' (lib_RFC3339 lb since)\<rparr>)"

definition getDelayerMetaState :: "(string \<Rightarrow> time option) \<Rightarrow> StateCtx \<Rightarrow> (time \<times> int) outcome" where
  "getDelayerMetaState parse c =
    (let offset0 = gm_str (s_Annotations (sc_Current c)) ''flowstate.delayer.offset''
     in case ParseInt offset0 of
          (_, Some err) \<Rightarrow> Panic (''cannot parse flowstate.delayer.offset='' @ CHR 0x27 # offset0 @ CHR 0x27 #
              '' into int64: '' @ error_text err)
        | (offset, None) \<Rightarrow>
            (case parse (gm_str (s_Annotations (sc_Current c)) ''flowstate.delayer.since'') of
               None \<Rightarrow> Panic ''cannot parse flowstate.delayer.since''
             | Some since \<Rightarrow> Ok (since, offset)))"

section \<open>Starting\<close>

text \<open>The meta state is read, or created when there is none; only the loop that is then started is left out.\<close>

definition NewDelayer_with :: "(string \<Rightarrow> time option) \<Rightarrow> nat \<Rightarrow> 'd world \<Rightarrow> Delayer outcome \<times> 'd world" where
  "NewDelayer_with parse m w =
    (case deref (w_heap w) (Some m) of
       None \<Rightarrow> (nil_deref, w)
     | Some c \<Rightarrow>
         (case getDelayerMetaState parse c of
            Ok (since, offset) \<Rightarrow> (Ok \<lparr>dy_meta = m, dy_offset = offset, dy_since = since,
              dy_commitSince = since, dy_commitOffset = offset, dy_delayedStates = []\<rparr>, w)
          | Err err \<Rightarrow> (Err err, w)
          | Panic p \<Rightarrow> (Panic p, w)))"

definition NewDelayer ::
  "'d Driver \<Rightarrow> 'c libs \<Rightarrow> (string \<Rightarrow> time option) \<Rightarrow> time \<Rightarrow> 'd world \<Rightarrow> Delayer outcome \<times> 'd world" where
  "NewDelayer D lb parse now w =
    (case new_context StateCtx0 w of
       (m, w1) \<Rightarrow>
         (case engine_do D lb now [GetStateByIDCmd (GetStateByID (Some m) delayer_id 0)] w1 of
            (Ok _, _, w2) \<Rightarrow> NewDelayer_with parse m w2
          | (Panic p, _, w2) \<Rightarrow> (Panic p, w2)
          | (Err err, _, w2) \<Rightarrow>
              (if Is_ErrNotFound err then
                 (case with_ctx (w_heap w2) (Some m)
                    (\<lambda>c. (Ok (), setDelayerMetaState lb epoch 0 (c\<lparr>sc_Current := State0\<lparr>s_ID := delayer_id\<rparr>\<rparr>))) of
                    (_, h) \<Rightarrow>
                      (case engine_do D lb now [Commit [ParkCmd (Park (Some m))]] (w2\<lparr>w_heap := h\<rparr>) of
                         (Ok _, _, w3) \<Rightarrow> NewDelayer_with parse m w3
                       | (Panic p, _, w3) \<Rightarrow> (Panic p, w3)
                       | (Err err2, _, w3) \<Rightarrow>
                           (Err (if IsErrRevMismatch err2 then
                              Errorf ''another process is already doing delaying; exiting (todo: implement standby mode)''
                            else Errorw ''commit meta state: '' err2 []), w3)))
               else (Err (Errorw ''get meta state: '' err []), w2))))"

section \<open>Loading delayed states\<close>

text \<open>\<open>d.delayedStates[state.Offset] = state\<close> and \<open>nextOffset = max(nextOffset, state.Offset)\<close>.\<close>

definition keep_states :: "DelayedState list \<Rightarrow> (int \<times> DelayedState) list \<Rightarrow> (int \<times> DelayedState) list" where
  "keep_states sts m = fold (\<lambda>s. AList.update (ds_Offset s) s) sts m"

definition max_offset :: "DelayedState list \<Rightarrow> int \<Rightarrow> int" where
  "max_offset sts n = fold (\<lambda>s n. max n (ds_Offset s)) sts n"

text \<open>The command that comes back from \<open>Do\<close>, with its result.\<close>

fun delayed_result :: "Command list \<Rightarrow> GetDelayedStatesResult outcome" where
  "delayed_result (GetDelayedStatesCmd cmd # _) = GetDelayedStates_MustResult cmd"
| "delayed_result _ = nil_deref"

text \<open>
  The loop may not end: the result is \<open>None\<close> when the fuel, one unit per page, is used up. The
  offset that comes back beside an error is 0.
\<close>

fun queryDelayedStates_loop ::
  "nat \<Rightarrow> 'd Driver \<Rightarrow> 'c libs \<Rightarrow> time \<Rightarrow> time \<Rightarrow> int \<Rightarrow> int \<Rightarrow> Delayer \<Rightarrow> 'd world
    \<Rightarrow> ((int \<times> error option) outcome \<times> Delayer \<times> 'd world) option" where
  "queryDelayedStates_loop 0 D lb since until offset nextOffset d w = None"
| "queryDelayedStates_loop (Suc n) D lb since until offset nextOffset d w =
    (if length (dy_delayedStates d) > 1000 then Some (Ok (0, None), d, w)
     else case engine_do D lb 0 [GetDelayedStatesCmd (GetDelayedStates since until offset)] w of
       (Err err, _, w1) \<Rightarrow> Some (Ok (0, Some (Errorw ''get delayed states: '' err [])), d, w1)
     | (Panic p, _, w1) \<Rightarrow> Some (Panic p, d, w1)
     | (Ok _, cmds, w1) \<Rightarrow>
         (case delayed_result cmds of
            Err err \<Rightarrow> Some (Err err, d, w1)
          | Panic p \<Rightarrow> Some (Panic p, d, w1)
          | Ok res \<Rightarrow>
              (if gdr_States res = [] then Some (Ok (nextOffset, None), d, w1)
               else let d1 = d\<lparr>dy_delayedStates := keep_states (gdr_States res) (dy_delayedStates d)\<rparr>;
                        nextOffset1 = max_offset (gdr_States res) nextOffset
                    in if gdr_More res then queryDelayedStates_loop n D lb since until offset nextOffset1 d1 w1
                       else Some (Ok (nextOffset1, None), d1, w1))))"

definition queryDelayedStates ::
  "nat \<Rightarrow> 'd Driver \<Rightarrow> 'c libs \<Rightarrow> time \<Rightarrow> time \<Rightarrow> int \<Rightarrow> Delayer \<Rightarrow> 'd world
    \<Rightarrow> ((int \<times> error option) outcome \<times> Delayer \<times> 'd world) option" where
  "queryDelayedStates n D lb since until offset d w = queryDelayedStates_loop n D lb since until offset offset d w"

text \<open>The two ticks that load: errors are only logged.\<close>

definition tick_head ::
  "nat \<Rightarrow> 'd Driver \<Rightarrow> 'c libs \<Rightarrow> time \<Rightarrow> Delayer \<Rightarrow> 'd world \<Rightarrow> (unit outcome \<times> Delayer \<times> 'd world) option" where
  "tick_head n D lb now d w =
    (let until = now + 60 * second
     in case queryDelayedStates n D lb (dy_since d) until 0 d w of
          None \<Rightarrow> None
        | Some (Ok _, d1, w1) \<Rightarrow> Some (Ok (), d1\<lparr>dy_since := until\<rparr>, w1)
        | Some (Err err, d1, w1) \<Rightarrow> Some (Err err, d1, w1)
        | Some (Panic p, d1, w1) \<Rightarrow> Some (Panic p, d1, w1))"

definition tick_head_fresh ::
  "nat \<Rightarrow> 'd Driver \<Rightarrow> 'c libs \<Rightarrow> time \<Rightarrow> Delayer \<Rightarrow> 'd world \<Rightarrow> (unit outcome \<times> Delayer \<times> 'd world) option" where
  "tick_head_fresh n D lb now d w =
    (let since = (if dy_offset d > 0 then now - 24 * 3600 * second else zero_time); until = now + 60 * second
     in case queryDelayedStates n D lb since until (dy_offset d) d w of
          None \<Rightarrow> None
        | Some (Ok (nextOffset, _), d1, w1) \<Rightarrow> Some (Ok (), d1\<lparr>dy_offset := nextOffset\<rparr>, w1)
        | Some (Err err, d1, w1) \<Rightarrow> Some (Err err, d1, w1)
        | Some (Panic p, d1, w1) \<Rightarrow> Some (Panic p, d1, w1))"

section \<open>Executing what is due\<close>

text \<open>\<open>commitSince\<close> and \<open>commitOffset\<close> are local until the end of the loop.\<close>

fun updateTail_loop ::
  "'d Driver \<Rightarrow> 'c libs \<Rightarrow> time \<Rightarrow> (int \<times> DelayedState) list \<Rightarrow> time \<Rightarrow> int \<Rightarrow> Delayer \<Rightarrow> 'd world
    \<Rightarrow> unit outcome \<times> Delayer \<times> 'd world" where
  "updateTail_loop D lb now [] commitSince commitOffset d w =
    (Ok (), d\<lparr>dy_commitSince := commitSince, dy_commitOffset := commitOffset\<rparr>, w)"
| "updateTail_loop D lb now ((_, ds) # rest) commitSince commitOffset d w =
    (if ds_ExecuteAt ds > now then updateTail_loop D lb now rest commitSince commitOffset d w
     else case new_context (CopyToCtx (ds_State ds) StateCtx0) w of
       (a, w1) \<Rightarrow>
         (let ts = s_Transition (State_CopyTo (ds_State ds) State0);
              commit = (gm_str (ts_Annotations ts) DelayCommitAnnotation \<noteq> ''false'');
              transitCmd = Transit_WithAnnotations (Transit (Some a) (ts_To ts)) (ts_Annotations ts)
          in case (if commit then engine_do D lb 0 [Commit [TransitCmd transitCmd]] w1 else (Ok (), [], w1)) of
               (Err err, _, w2) \<Rightarrow>
                 (if IsErrRevMismatch err then updateTail_loop D lb now rest commitSince commitOffset d w2
                  else (Err (Errorw (''commit state ctx: id='' @ s_ID (ds_State ds) @ '' rev='' @
                      FormatInt (s_Rev (ds_State ds)) @ '': '') err []), d, w2))
             | (Panic p, _, w2) \<Rightarrow> (Panic p, d, w2)
             | (Ok _, _, w2) \<Rightarrow>
                 updateTail_loop D lb now rest
                   (if ds_ExecuteAt ds < commitSince then ds_ExecuteAt ds else commitSince)
                   (max commitOffset (ds_Offset ds))
                   (d\<lparr>dy_delayedStates := AList.delete (ds_Offset ds) (dy_delayedStates d)\<rparr>)
                   (spawn_Execute a w2)))"

definition updateTail :: "'d Driver \<Rightarrow> 'c libs \<Rightarrow> time \<Rightarrow> Delayer \<Rightarrow> 'd world \<Rightarrow> unit outcome \<times> Delayer \<times> 'd world" where
  "updateTail D lb now d w =
    updateTail_loop D lb now (dy_delayedStates d) (dy_commitSince d) (dy_commitOffset d) d w"

section \<open>Committing the meta state\<close>

text \<open>Whatever the commit returned, the copy goes over the meta context at the end.\<close>

definition maybeCommitMeta ::
  "'d Driver \<Rightarrow> 'c libs \<Rightarrow> (string \<Rightarrow> time option) \<Rightarrow> Delayer \<Rightarrow> 'd world \<Rightarrow> unit outcome \<times> 'd world" where
  "maybeCommitMeta D lb parse d w =
    (if dy_commitSince d = epoch \<and> dy_commitOffset d = 0 then (Ok (), w)
     else case deref (w_heap w) (Some (dy_meta d)) of
       None \<Rightarrow> (nil_deref, w)
     | Some meta \<Rightarrow>
         (case getDelayerMetaState parse meta of
            Err err \<Rightarrow> (Err err, w)
          | Panic p \<Rightarrow> (Panic p, w)
          | Ok (committedSince, committedOffset) \<Rightarrow>
              (if dy_commitSince d = committedSince \<and> dy_commitOffset d = committedOffset then (Ok (), w)
               else case new_context (setDelayerMetaState lb (dy_commitSince d) (dy_commitOffset d)
                   (StateCtx_CopyTo meta StateCtx0)) w of
                 (a, w1) \<Rightarrow>
                   (case engine_do D lb 0 [Commit [ParkCmd (Park (Some a))]] w1 of
                      (Panic p, _, w2) \<Rightarrow> (Panic p, w2)
                    | (_, _, w2) \<Rightarrow>
                        (case deref (w_heap w2) (Some a) of
                           None \<Rightarrow> (nil_deref, w2)
                         | Some nextMetaState \<Rightarrow>
                             (case with_ctx (w_heap w2) (Some (dy_meta d)) (\<lambda>c. (Ok (), StateCtx_CopyTo nextMetaState c)) of
                                (r, h) \<Rightarrow> (r, w2\<lparr>w_heap := h\<rparr>)))))))"

end
