(* ===== verification/EngineProps.thy ===== *)
theory EngineProps
  imports Engine CacheOnMemdriver
begin

text \<open>
  The engine over its cache and the in-memory driver: a flow that commits a transit hands the
  state over to the next flow, one revision per flow, until one parks; an execution that lost a
  race ends quietly; a commit is refused as a whole when it holds a command that may not be in
  it; a goroutine gets a context of its own.
\<close>

section \<open>The engine at rest\<close>

definition at_rest :: "memdriver cacheDriver \<Rightarrow> memdriver sys" where
  "at_rest c = \<lparr>sy_cache = c, sy_read = None, sy_inflight = []\<rparr>"

definition world_driver :: "'d world \<Rightarrow> 'd" where
  "world_driver w = cd_d (w_cache w)"

definition world_log :: "memdriver world \<Rightarrow> stateLog" where
  "world_log w = md_stateLog (world_driver w)"

definition engine_ready :: "memdriver world \<Rightarrow> bool" where
  "engine_ready w \<longleftrightarrow> \<not> w_done w \<and> wf_heap (w_heap w) \<and> mem_ready (world_driver w)
    \<and> coherent (mem_keys (world_driver w)) (at_rest (w_cache w))"

text \<open>The context at \<open>a\<close> is at the latest revision of its state.\<close>

definition latest_ctx :: "stateLog \<Rightarrow> StateCtx \<Rightarrow> string \<Rightarrow> bool" where
  "latest_ctx l c sid \<longleftrightarrow> s_ID (sc_Current c) = sid \<and> sid \<noteq> []
    \<and> s_Rev (sc_Committed c) = snd (GetLatestByID l sid) \<and> s_Rev (sc_Current c) = s_Rev (sc_Committed c)"

lemma engine_ready_log:
  assumes "engine_ready w"
  shows "mem_idle (world_driver w)" "mem_ok (world_driver w)" "log_ok (world_log w)" "sl_changes (world_log w) = []"
  using assms by (simp_all add: engine_ready_def mem_ready_def mem_idle_def mem_ok_def world_log_def)

text \<open>The ring knows nothing that the log does not know.\<close>

lemma latest_not_outdated:
  assumes "engine_ready w" "latest_ctx (world_log w) c sid"
  shows "\<not> outdated (w_cache w) c"
proof
  assume "outdated (w_cache w) c"
  then obtain s where s: "s \<in> set (oldest_first (w_cache w))" "s_ID s = sid" "s_Rev (sc_Current c) < s_Rev s"
    using assms(2) by (auto simp: outdated_def latest_ctx_def)
  have "map key (oldest_first (w_cache w)) = between (cd_minRev (w_cache w)) (cd_maxRev (w_cache w)) (mem_keys (world_driver w))"
    using assms(1) by (simp add: engine_ready_def coherent_def at_rest_def covers_def)
  then have "key s \<in> set (between (cd_minRev (w_cache w)) (cd_maxRev (w_cache w)) (mem_keys (world_driver w)))"
    using s(1) by (metis imageI list.set_map)
  then obtain e where e: "e \<in> set (sl_entries (world_log w))" "entry_ID e = sid" "entry_Rev e = s_Rev s"
    using s(2) by (auto simp: between_def mem_keys_def key_def entry_key_def world_log_def)
  from GetLatestByID_max [OF engine_ready_log(3) [OF assms(1)] e(1,2)] assms(2) s(3) e(3)
  show False by (simp add: latest_ctx_def)
qed

section \<open>The commit of one transit or park\<close>

text \<open>A transit to a flow, or a park, of the context at \<open>a\<close>: where it goes, and what it makes of it.\<close>

fun one_write :: "Command \<Rightarrow> nat \<Rightarrow> bool" where
  "one_write (TransitCmd cmd) a \<longleftrightarrow> tr_StateCtx cmd = Some a \<and> tr_To cmd \<noteq> []"
| "one_write (ParkCmd cmd) a \<longleftrightarrow> pk_StateCtx cmd = Some a"
| "one_write _ a \<longleftrightarrow> False"

fun write_to :: "Command \<Rightarrow> Transition" where
  "write_to (TransitCmd cmd) = set_annotations (tr_Annotations cmd) (Transition0\<lparr>ts_To := tr_To cmd\<rparr>)"
| "write_to (ParkCmd cmd) = set_annotations (pk_Annotations cmd) Transition0"
| "write_to _ = Transition0"

definition next_ctx :: "StateCtx \<Rightarrow> Command \<Rightarrow> StateCtx" where
  "next_ctx c cmd = set_Transition (append_Transition c (s_Transition (sc_Current c))) (write_to cmd)"

lemma one_write_simps:
  assumes "one_write cmd a"
  shows "committable cmd = Some (Some a)" "write_cmd cmd" "commit_guard [cmd] = Ok ()"
    "cmdsSessID h [CommitCmd [cmd]] = obind (sess_of h (Some a)) Ok"
    "logCommand h (CommitCmd [cmd]) = obind (sess_of h (Some a)) (\<lambda>_. Ok ())"
  using assms by (cases cmd; cases "sess_of h (Some a)"; simp)+

lemma wf_write_to [simp]: "wf_Transition (write_to cmd)"
  by (cases cmd) (simp_all add: wf_Transition_def)

lemma next_ctx_simps [simp]:
  "s_ID (sc_Current (next_ctx c cmd)) = s_ID (sc_Current c)"
  "s_Rev (sc_Current (next_ctx c cmd)) = s_Rev (sc_Current c)"
  "sc_Committed (next_ctx c cmd) = sc_Committed c" "sc_Datas (next_ctx c cmd) = sc_Datas c"
  "s_Transition (sc_Current (next_ctx c cmd)) = write_to cmd"
  by (simp_all add: next_ctx_def) (simp add: set_Transition_def)

lemma wf_next_ctx [simp]: "wf_StateCtx c \<Longrightarrow> wf_StateCtx (next_ctx c cmd)"
  by (simp add: next_ctx_def)

lemma one_write_Do:
  assumes "h a = Some c" "one_write cmd a"
  shows "DoCommitSubCommand lb D cmd h d = (Ok (), cmd, store h (Some a) (next_ctx c cmd), d)"
  using assms
  by (cases cmd) (auto simp: next_ctx_def Transit_Do_def Park_Do_def with_ctx_def deref_def Let_def
      nextTransitionOrCurrent_def Transition0_def)

text \<open>The command that a flow of a chain returns: a transit to the next flow, or a park.\<close>

definition hand_over :: "ctx_ref \<Rightarrow> string option \<Rightarrow> Command" where
  "hand_over p target = (case target of Some to \<Rightarrow> TransitCmd (Transit p to) | None \<Rightarrow> ParkCmd (Park p))"

definition target_of :: "string option \<Rightarrow> string" where
  "target_of target = (case target of Some to \<Rightarrow> to | None \<Rightarrow> [])"

lemma hand_over_simps [simp]:
  "one_write (hand_over (Some a) target) a \<longleftrightarrow> target \<noteq> Some []"
  "ts_To (write_to (hand_over p target)) = target_of target"
  by (auto simp: hand_over_def target_of_def Transit_def Park_def split: option.split)

lemma mem_Commit_write:
  assumes "h a = Some c" "one_write cmd a" "latest_ctx (md_stateLog d) c sid"
    and "mem_idle d" "wf_heap h" "room (md_stateLog d) (Suc n)"
  shows "\<exists>c' d' e. mem_Commit lb pick [cmd] h d
      = (Ok (), [cmd], store h (Some a) c', d')
    \<and> sl_entries (md_stateLog d') = sl_entries (md_stateLog d) @ [e]
    \<and> sl_rev (md_stateLog d') = sl_rev (md_stateLog d) + 1
    \<and> entry_ID e = sid \<and> entry_Rev e = sl_rev (md_stateLog d) + 1
    \<and> ts_To (s_Transition (sc_Committed e)) = ts_To (write_to cmd)
    \<and> latest_ctx (md_stateLog d') c' sid \<and> sc_Datas c' = sc_Datas c \<and> ts_To (s_Transition (sc_Current c')) = ts_To (write_to cmd)
    \<and> (\<forall>k v. gm_lookup (ts_Annotations (write_to cmd)) k = Some v
        \<longrightarrow> gm_lookup (ts_Annotations (s_Transition (sc_Committed e))) k = Some v)
    \<and> e = committedT lb (md_stateLog d) (next_ctx c cmd)"
proof -
  let ?l = "md_stateLog d" and ?c = "next_ctx c cmd"
  have ok: "log_ok ?l" "sl_changes ?l = []" using assms(4) by (simp_all add: mem_idle_def mem_ok_def)
  have id: "s_ID (sc_Current ?c) = sid" "sid \<noteq> []" using assms(3) by (simp_all add: latest_ctx_def)
  have wf: "wf_StateCtx ?c" using wf_heap_deref [OF assms(5), of "Some a" c] assms(1) by (simp add: deref_def)
  obtain l c' where app: "Append lb ?l ?c = (l, c')" by fastforce
  let ?e = "committedT lb ?l ?c"
  note a = Append_spec [OF assms(6) app] and e = committedT_spec [OF ok(1) wf _ assms(6), of lb]
  have loop: "Commit_loop lb [cmd] h d
      = (Ok (), [cmd], store h (Some a) c', d\<lparr>md_stateLog := l\<rparr>)"
    using one_write_Do [of h a c cmd lb memdriver_ops d] one_write_simps(1) [OF assms(2)] assms(1-3) app
    by (simp add: latest_ctx_def)
  obtain l2 where com: "stateLog_Commit pick l = (Ok (), l2)" "sl_entries l2 = sl_entries ?l @ [?e]"
    "sl_rev l2 = sl_rev ?l + 1"
    by (simp add: stateLog_Commit_def a(1) ok(2) Let_def)
  let ?d' = "d\<lparr>md_stateLog := Rollback l2\<rparr>"
  have "mem_Commit lb pick [cmd] h d
      = (Ok (), [cmd], store h (Some a) c', ?d')"
    by (simp add: mem_Commit_def loop com(1) del: Commit_loop.simps)
  moreover have "snd (GetLatestByID (Rollback l2) sid) = sl_rev ?l + 1"
    using e(1,2) id by (simp add: GetLatestByID_def com(2))
  then have "latest_ctx (md_stateLog ?d') c' sid"
    using e(1,2) id by (simp add: latest_ctx_def a(2,3) entry_ID_def entry_Rev_def)
  moreover have "gm_lookup (ts_Annotations (s_Transition (sc_Committed ?e))) k = Some v"
    if "gm_lookup (ts_Annotations (write_to cmd)) k = Some v" for k v
  proof -
    have "gm_wf (ts_Annotations (write_to cmd))" using wf_write_to [of cmd] by (simp add: wf_Transition_def)
    moreover have "gm_wf (ts_Annotations (s_Transition (sc_Current (case fst (GetLatestByID ?l (s_ID (sc_Current ?c))) of
        None \<Rightarrow> StateCtx0 | Some e \<Rightarrow> e))))"
      using wf_appended [OF wf ok(1)] by (rule wf_current_annotations)
    ultimately show ?thesis using that by (simp add: committedT_def Let_def gm_lookup_merge)
  qed
  moreover have "ts_To (s_Transition (sc_Committed ?e)) = ts_To (write_to cmd)"
    by (simp add: committedT_def Let_def)
  moreover from this have "ts_To (s_Transition (sc_Current c')) = ts_To (write_to cmd)" by (simp add: a(2))
  ultimately show ?thesis using e(1,2) id com a(5) by (intro exI [of _ c'] exI [of _ ?d'] exI [of _ ?e]) simp
qed


text \<open>The step of an execution: the commit reaches the log and the ring, and the engine is ready again.\<close>

lemma doCmd_write:
  fixes lb :: "'c libs"
  assumes "engine_ready w" "w_heap w a = Some c" "one_write cmd a" "latest_ctx (world_log w) c sid"
    and "room (world_log w) (Suc (Suc n))"
  shows "\<exists>w' c' e. doCmd (memdriver_Driver lb pick) lb now (CommitCmd [cmd]) w
      = (Ok (), CommitCmd [cmd], w')
    \<and> engine_ready w' \<and> w_heap w' a = Some c' \<and> latest_ctx (world_log w') c' sid \<and> sc_Datas c' = sc_Datas c \<and> (\<forall>b. b \<noteq> a \<longrightarrow> w_heap w' b = w_heap w b)
    \<and> ts_To (s_Transition (sc_Current c')) = ts_To (write_to cmd)
    \<and> room (world_log w') (Suc n) \<and> sl_rev (world_log w') = sl_rev (world_log w) + 1
    \<and> sl_entries (world_log w') = sl_entries (world_log w) @ [e]
    \<and> entry_ID e = sid \<and> entry_Rev e = sl_rev (world_log w) + 1
    \<and> ts_To (s_Transition (sc_Committed e)) = ts_To (write_to cmd)
    \<and> (\<forall>k v. gm_lookup (ts_Annotations (write_to cmd)) k = Some v
        \<longrightarrow> gm_lookup (ts_Annotations (s_Transition (sc_Committed e))) k = Some v)"
proof -
  let ?D = "memdriver_Driver lb pick" and ?h = "w_heap w"
  let ?d = "world_driver w"
  have ready: "wf_heap ?h" "mem_ready ?d" "coherent (mem_keys ?d) (at_rest (w_cache w))" "\<not> w_done w"
    using assms(1) by (simp_all add: engine_ready_def)
  have rm: "room (md_stateLog ?d) (Suc (Suc n))" "room (md_stateLog ?d) (Suc n)" "mem_fits ?d [cmd]"
    "room (md_stateLog ?d) (Suc 0)"
    using assms(5) by (simp_all add: world_log_def room_def mem_fits_def)
  from mem_Commit_write [where lb = lb and pick = pick, OF assms(2,3) assms(4) [unfolded world_log_def]
      engine_ready_log(1) [OF assms(1)] ready(1) rm(2)]
  obtain c' d' e where com: "mem_Commit lb pick [cmd] ?h ?d = (Ok (), [cmd], store ?h (Some a) c', d')"
    "sl_entries (md_stateLog d') = sl_entries (md_stateLog ?d) @ [e]"
    "sl_rev (md_stateLog d') = sl_rev (md_stateLog ?d) + 1" "entry_ID e = sid" "entry_Rev e = sl_rev (md_stateLog ?d) + 1"
    "ts_To (s_Transition (sc_Committed e)) = ts_To (write_to cmd)"
    "latest_ctx (md_stateLog d') c' sid" "sc_Datas c' = sc_Datas c" "ts_To (s_Transition (sc_Current c')) = ts_To (write_to cmd)"
    "\<forall>k v. gm_lookup (ts_Annotations (write_to cmd)) k = Some v
      \<longrightarrow> gm_lookup (ts_Annotations (s_Transition (sc_Committed e))) k = Some v"
    by blast
  let ?h' = "store ?h (Some a) c'" and ?c1 = "(w_cache w)\<lparr>cd_d := d'\<rparr>"
  let ?y = "at_rest (w_cache w)" and ?y1 = "\<lparr>sy_cache = ?c1, sy_read = None, sy_inflight = [([cmd], ?h')]\<rparr>"
  have "cache_step ?D mem_fits ?y ?y1"
    using step_commit [of "[cmd]" ?h mem_fits ?y ?D "Ok ()" "[cmd]" ?h' d'] one_write_simps(2) [OF assms(3)] ready(1) rm(3) com(1)
    by (simp add: at_rest_def world_driver_def memdriver_Driver_def)
  with mem_log.step_coherent [OF this] ready(2,3)
  have y1: "mem_ready d'" "coherent (mem_keys d') ?y1"
    by (simp_all add: at_rest_def world_driver_def)
  from coherent_append [OF y1(2) mem_keys_sorted [OF y1(1)]] mem_keys_room [OF y1(1)]
  obtain cd where cd: "commitAppendLog [cmd] ?h' ?c1 = Ok cd" "cd_d cd = d'" by auto
  have "cache_step ?D mem_fits ?y1 (at_rest cd)"
    using step_append [of "[cmd]" ?h' ?y1 cd ?D mem_fits] cd(1) by (simp add: at_rest_def)
  with mem_log.step_coherent [OF this] y1 cd(2)
  have y2: "coherent (mem_keys d') (at_rest cd)" by (simp add: at_rest_def)
  let ?w' = "w\<lparr>w_heap := ?h', w_cache := cd\<rparr>"
  have cok: "cache_ok (w_cache w)" using ready(3) by (simp add: coherent_def at_rest_def)
  have "commitRevMismatch (w_cache w) [cmd] ?h = Ok ()"
    using commitRevMismatch_loop_spec [OF cok, of "[cmd]" ?h StateCtx0 "[]"] latest_not_outdated [OF assms(1,4)] assms(2)
      one_write_simps(1) [OF assms(3)]
    by (simp add: commitRevMismatch_def deref_def)
  then have "cache_Commit ?D [cmd] ?h (w_cache w) = (Ok (), [cmd], ?h', cd)"
    using com(1) cd(1) by (simp add: cache_Commit_def memdriver_Driver_def world_driver_def)
  then have "doCmd ?D lb now (CommitCmd [cmd]) w = (Ok (), CommitCmd [cmd], ?w')"
    using assms(2) one_write_simps [OF assms(3)] by (simp add: doCmd_def sess_of_def deref_def)
  moreover have "engine_ready ?w'"
    using y1(1) y2 cd(2) ready(4) mem_Commit_idle [OF engine_ready_log(1) [OF assms(1)] ready(1) _ com(1)] rm(4) one_write_simps(1) [OF assms(3)]
    by (simp add: engine_ready_def world_driver_def)
  ultimately show ?thesis using com(2-) cd(2) rm(1)
    by (intro exI [of _ ?w'] exI [of _ c'] exI [of _ e]) (simp add: world_log_def world_driver_def room_def store_def)
qed


section \<open>Chains of flows\<close>

text \<open>The flow \<open>f\<close> of a chain commits a transit to \<open>route f\<close>, or parks the state.\<close>

definition chain_flow :: "(string \<Rightarrow> string option) \<Rightarrow> string \<Rightarrow> 'd flow" where
  "chain_flow route f p w = (Ok (CommitCmd [hand_over p (route f)]), w)"

fun chain :: "(string \<Rightarrow> string option) \<Rightarrow> string \<Rightarrow> string list \<Rightarrow> bool" where
  "chain route f [] \<longleftrightarrow> f \<noteq> [] \<and> route f = None"
| "chain route f (g # gs) \<longleftrightarrow> f \<noteq> [] \<and> route f = Some g \<and> chain route g gs"

lemma chain_start: "chain route f gs \<Longrightarrow> f \<noteq> []"
  by (cases gs) simp_all

lemma Execute_loop_chain:
  fixes lb :: "'c libs"
  assumes "chain route f gs" "\<forall>g \<in> set (f # gs). Flow fr g = Ok (chain_flow route g)"
    and "engine_ready w" "w_heap w a = Some c" "latest_ctx (world_log w) c sid"
    and "ts_To (s_Transition (sc_Current c)) = f" "room (world_log w) (length gs + 2)" "length gs < fuel"
  shows "\<exists>w' es. Execute_loop fuel (memdriver_Driver lb pick) lb now fr (Some a) w = Some (Ok (), w')
    \<and> engine_ready w' \<and> sl_entries (world_log w') = sl_entries (world_log w) @ es
    \<and> map entry_ID es = replicate (Suc (length gs)) sid
    \<and> map entry_Rev es = map (\<lambda>i. sl_rev (world_log w) + 1 + int i) [0..<Suc (length gs)]
    \<and> map (\<lambda>e. ts_To (s_Transition (sc_Committed e))) es = gs @ [[]]"
  using assms
proof (induction gs arbitrary: f w c fuel)
  case Nil
  then obtain n where fuel: "fuel = Suc n" by (cases fuel) auto
  from doCmd_write [where lb = lb and pick = pick and now = now and cmd = "hand_over (Some a) None", OF Nil.prems(3,4) _ Nil.prems(5), of 0] Nil.prems(7)
  obtain w' e where w': "doCmd (memdriver_Driver lb pick) lb now (CommitCmd [hand_over (Some a) None]) w
      = (Ok (), CommitCmd [hand_over (Some a) None], w')" "engine_ready w'"
    "sl_entries (world_log w') = sl_entries (world_log w) @ [e]" "entry_ID e = sid"
    "entry_Rev e = sl_rev (world_log w) + 1" "ts_To (s_Transition (sc_Committed e)) = []"
    by (auto simp: target_of_def numeral_2_eq_2)
  have "continueExecution (CommitCmd [hand_over (Some a) None]) = Ok None" by (simp add: hand_over_def)
  with w' Nil.prems show ?case
    by (intro exI [of _ w'] exI [of _ "[e]"])
      (simp add: fuel engine_ready_def deref_def chain_flow_def sync_cmd_def)
next
  case (Cons g gs)
  then obtain n where fuel: "fuel = Suc n" by (cases fuel) auto
  have g: "route f = Some g" "chain route g gs" "f \<noteq> []" "g \<noteq> []"
    using Cons.prems(1) chain_start by auto
  from doCmd_write [where lb = lb and pick = pick and now = now and cmd = "hand_over (Some a) (Some g)",
      OF Cons.prems(3,4) _ Cons.prems(5), of "length gs + 1"] Cons.prems(7) g(4)
  obtain w1 c1 e where w1: "doCmd (memdriver_Driver lb pick) lb now (CommitCmd [hand_over (Some a) (Some g)]) w
      = (Ok (), CommitCmd [hand_over (Some a) (Some g)], w1)" "engine_ready w1"
    "w_heap w1 a = Some c1" "latest_ctx (world_log w1) c1 sid" "ts_To (s_Transition (sc_Current c1)) = g"
    "room (world_log w1) (length gs + 2)" "sl_rev (world_log w1) = sl_rev (world_log w) + 1"
    "sl_entries (world_log w1) = sl_entries (world_log w) @ [e]" "entry_ID e = sid"
    "entry_Rev e = sl_rev (world_log w) + 1" "ts_To (s_Transition (sc_Committed e)) = g"
    by (auto simp: target_of_def)
  from Cons.IH [OF g(2) _ w1(2-6), of n] Cons.prems(2,8) obtain w' es where
    rec: "Execute_loop n (memdriver_Driver lb pick) lb now fr (Some a) w1 = Some (Ok (), w')"
    "engine_ready w'" "sl_entries (world_log w') = sl_entries (world_log w1) @ es"
    "map entry_ID es = replicate (Suc (length gs)) sid"
    "map entry_Rev es = map (\<lambda>i. sl_rev (world_log w1) + 1 + int i) [0..<Suc (length gs)]"
    "map (\<lambda>e. ts_To (s_Transition (sc_Committed e))) es = gs @ [[]]"
    by (auto simp: fuel)
  have "map (\<lambda>i. x + 1 + int i) [0..<Suc n] = (x + 1) # map (\<lambda>i. x + 2 + int i) [0..<n]" for x n
    by (simp add: upt_conv_Cons map_Suc_upt [symmetric] del: upt_Suc)
  then have revs: "map entry_Rev (e # es) = map (\<lambda>i. sl_rev (world_log w) + 1 + int i) [0..<Suc (length (g # gs))]"
    using rec(5) w1(7,10) by (simp del: upt_Suc)
  have "continueExecution (CommitCmd [hand_over (Some a) (Some g)]) = Ok (Some (Some a))"
    by (simp add: hand_over_def Transit_def)
  moreover have "\<not> w_done w" "deref (w_heap w) (Some a) = Some c" "Flow fr f = Ok (chain_flow route f)"
    using Cons.prems(2-4) by (simp_all add: engine_ready_def deref_def)
  ultimately have "Execute_loop fuel (memdriver_Driver lb pick) lb now fr (Some a) w = Some (Ok (), w')"
    using w1(1) rec(1) g(1,3) Cons.prems(6)
    by (simp add: fuel chain_flow_def sync_cmd_def)
  with rec(2,3,4,6) revs w1(8,9,11) show ?case
    by (intro exI [of _ w'] exI [of _ "e # es"]) (simp del: upt_Suc)
qed


section \<open>The commit of a stale context\<close>

text \<open>The context has an id and is not at the latest revision of its state.\<close>

definition stale_ctx :: "stateLog \<Rightarrow> StateCtx \<Rightarrow> bool" where
  "stale_ctx l c \<longleftrightarrow> s_ID (sc_Current c) \<noteq> []
    \<and> s_Rev (sc_Committed c) \<noteq> snd (GetLatestByID l (s_ID (sc_Current c)))"

text \<open>The cache or the driver refuses it, and the driver and the cache stay what they are.\<close>

lemma doCmd_stale:
  fixes lb :: "'c libs"
  assumes "engine_ready w" "w_heap w a = Some c" "one_write cmd a" "stale_ctx (world_log w) c"
  shows "\<exists>err h. doCmd (memdriver_Driver lb pick) lb now (CommitCmd [cmd]) w
      = (Err err, CommitCmd [cmd], w\<lparr>w_heap := h\<rparr>) \<and> IsErrRevMismatch err \<and> wf_heap h
      \<and> (\<forall>b. b \<noteq> a \<longrightarrow> h b = w_heap w b)"
proof -
  let ?D = "memdriver_Driver lb pick" and ?c = "next_ctx c cmd" and ?err = "ErrRevMismatch [s_ID (sc_Current c)]"
  have cok: "cache_ok (w_cache w)" using assms(1) by (simp add: engine_ready_def coherent_def at_rest_def)
  have wf: "wf_heap (w_heap w)" "wf_StateCtx c"
    using assms(1) wf_heap_deref [of "w_heap w" "Some a" c] assms(2) by (simp_all add: engine_ready_def deref_def)
  have roll: "(world_driver w)\<lparr>md_stateLog := Rollback (world_log w)\<rparr> = world_driver w"
    using engine_ready_log(4) [OF assms(1)] by (simp add: Rollback_def world_log_def)
  have loop: "Commit_loop lb [cmd] (w_heap w) (world_driver w)
      = (Err ?err, [cmd], store (w_heap w) (Some a) ?c, world_driver w)"
    using one_write_Do [of "w_heap w" a c cmd lb memdriver_ops "world_driver w"] one_write_simps(1) [OF assms(3)] assms(2-4)
    by (simp add: world_log_def stale_ctx_def)
  have refuse: "mem_Commit lb pick [cmd] (w_heap w) (world_driver w)
      = (Err ?err, [cmd], store (w_heap w) (Some a) ?c, world_driver w)"
    using roll unfolding mem_Commit_def loop by (simp add: world_log_def)
  have "\<exists>ids h. cache_Commit ?D [cmd] (w_heap w) (w_cache w) = (Err (ErrRevMismatch ids), [cmd], h, w_cache w)
      \<and> wf_heap h \<and> (\<forall>b. b \<noteq> a \<longrightarrow> h b = w_heap w b)"
  proof (cases "outdated (w_cache w) c")
    case True
    then show ?thesis
      using commitRevMismatch_loop_spec [OF cok, of "[cmd]" "w_heap w" StateCtx0 "[]"] assms(2) one_write_simps(1) [OF assms(3)] wf(1)
      by (simp add: cache_Commit_def commitRevMismatch_def deref_def)
  next
    case False
    with commitRevMismatch_loop_spec [OF cok, of "[cmd]" "w_heap w" StateCtx0 "[]"] assms(2) one_write_simps(1) [OF assms(3)]
    have "commitRevMismatch (w_cache w) [cmd] (w_heap w) = Ok ()"
      by (simp add: commitRevMismatch_def deref_def)
    with refuse wf show ?thesis by (simp add: cache_Commit_def memdriver_Driver_def world_driver_def) (simp add: store_def)
  qed
  then obtain ids h where "cache_Commit ?D [cmd] (w_heap w) (w_cache w) = (Err (ErrRevMismatch ids), [cmd], h, w_cache w)"
    "wf_heap h" "\<forall>b. b \<noteq> a \<longrightarrow> h b = w_heap w b" by blast
  then show ?thesis using assms(2) one_write_simps [OF assms(3)]
    by (intro exI [of _ "ErrRevMismatch ids"] exI [of _ h]) (simp add: doCmd_def sess_of_def deref_def)
qed

text \<open>
  A copy that \<open>NewTo\<close> makes of a context that was committed keeps the committed revision
  of the original, so it is a stale context under its new id: its first commit is refused.
\<close>

lemma NewTo_stale:
  assumes "sid \<noteq> []" "fst (GetLatestByID l sid) = None" "s_Rev (sc_Committed s) \<noteq> 0"
  shows "stale_ctx l (NewTo s sid to)"
proof -
  have "snd (GetLatestByID l sid) = 0"
    using assms(2) by (auto simp: GetLatestByID_def split: option.splits)
  then show ?thesis using assms(1,3)
    by (simp add: stale_ctx_def NewTo_def StateCtx_CopyTo_def Let_def split: prod.split)
qed

lemma NewTo_commit_refused:
  fixes lb :: "'c libs"
  assumes "engine_ready w" "w_heap w a = Some (NewTo s sid to)" "one_write cmd a"
    and "sid \<noteq> []" "fst (GetLatestByID (world_log w) sid) = None" "s_Rev (sc_Committed s) \<noteq> 0"
  shows "\<exists>err h. doCmd (memdriver_Driver lb pick) lb now (CommitCmd [cmd]) w
    = (Err err, CommitCmd [cmd], w\<lparr>w_heap := h\<rparr>) \<and> IsErrRevMismatch err"
  using doCmd_stale [OF assms(1-3) NewTo_stale [OF assms(4-6)], of lb pick now] by blast

section \<open>Sub commands that a commit may not hold\<close>

fun refused :: "Command \<Rightarrow> bool" where
  "refused (CommitCmd _) = True"
| "refused (ExecuteCmd _) = True"
| "refused (GetStatesCmd _) = True"
| "refused (GetDelayedStatesCmd _) = True"
| "refused _ = False"

lemma commit_guard_iff: "commit_guard cmds = Ok () \<longleftrightarrow> \<not> list_ex refused cmds"
  by (induction cmds rule: commit_guard.induct) auto

lemma commit_guard_no_panic: "\<not> is_ok (commit_guard cmds) \<Longrightarrow> \<exists>s. commit_guard cmds = Err (Errorf s)"
  by (induction cmds rule: commit_guard.induct) auto

section \<open>The context of a goroutine\<close>

text \<open>Every blob of the copy is a fresh copy, under the same alias.\<close>

definition copied_Data :: "Data option \<Rightarrow> Data option" where
  "copied_Data = map_option (\<lambda>d. Data_CopyTo d Data0)"

lemma copy_Datas_spec:
  assumes "distinct (map fst ds)" "\<forall>(n, d) \<in> set ds. d \<noteq> None"
  shows "\<exists>c'. copy_Datas ds c = Ok c' \<and> sc_Current c' = sc_Current c \<and> sc_Committed c' = sc_Committed c
    \<and> sc_sessID c' = sc_sessID c \<and> (wf_StateCtx c \<longrightarrow> wf_StateCtx c')
    \<and> (\<forall>n. gm_lookup (sc_Datas c') n = (case map_of ds n of None \<Rightarrow> gm_lookup (sc_Datas c) n | Some d \<Rightarrow> Some (copied_Data d)))"
  using assms
proof (induction ds arbitrary: c)
  case (Cons x ds)
  then obtain n d where x: "x = (n, Some d)" by (cases x) auto
  let ?c1 = "SetData c n (Some (Data_CopyTo d Data0))"
  from Cons.IH [of ?c1] Cons.prems obtain c' where
    c': "copy_Datas ds ?c1 = Ok c'" "sc_Current c' = sc_Current c" "sc_Committed c' = sc_Committed c"
    "sc_sessID c' = sc_sessID c" "wf_StateCtx ?c1 \<longrightarrow> wf_StateCtx c'"
    "\<forall>n'. gm_lookup (sc_Datas c') n' = (case map_of ds n' of None \<Rightarrow> gm_lookup (sc_Datas ?c1) n' | Some d \<Rightarrow> Some (copied_Data d))"
    by (auto simp: SetData_def)
  have "map_of ds n = None" using Cons.prems x by (simp add: map_of_eq_None_iff)
  moreover have "wf_StateCtx c \<longrightarrow> wf_StateCtx c'" using c'(5) by simp
  moreover note c'(1-4,6)
  ultimately show ?case using x by (intro exI [of _ c']) (auto simp: SetData_def copied_Data_def split: option.split)
qed simp

lemma doCmd_execute_spec:
  assumes "w_heap w a = Some c" "wf_StateCtx c"
    and "\<forall>(n, d) \<in> set (gm_entries (sc_Datas c)). d \<noteq> None"
  shows "\<exists>w' c'. doCmd D lb now (ExecuteCmd (Execute (Some a))) w = (Ok (), ExecuteCmd (Execute (Some a)), w')
    \<and> w_spawned w' = w_spawned w @ [w_next w] \<and> w_next w < w_next w' \<and> w_cache w' = w_cache w \<and> w_done w' = w_done w
    \<and> (\<forall>b. b \<noteq> w_next w \<longrightarrow> w_heap w' b = w_heap w b) \<and> w_heap w' (w_next w) = Some c'
    \<and> sc_Current c' = norm_State (sc_Current c) \<and> sc_Committed c' = norm_State (sc_Committed c)
    \<and> wf_StateCtx c' \<and> sc_sessID c' = 0
    \<and> (\<forall>n. gm_lookup (sc_Datas c') n = map_option copied_Data (gm_lookup (sc_Datas c) n))"
proof -
  have ds: "distinct (map fst (gm_entries (sc_Datas c)))" "wf_State (sc_Current c)" "wf_State (sc_Committed c)"
    using assms(2) by (simp_all add: wf_StateCtx_def gm_wf_def)
  from copy_Datas_spec [OF ds(1) assms(3), of "StateCtx_CopyTo c StateCtx0"] obtain c' where
    c': "copy_Datas (gm_entries (sc_Datas c)) (StateCtx_CopyTo c StateCtx0) = Ok c'"
    "sc_Current c' = norm_State (sc_Current c)" "sc_Committed c' = norm_State (sc_Committed c)" "sc_sessID c' = 0"
    "wf_StateCtx c'" "\<forall>n. gm_lookup (sc_Datas c') n = (case map_of (gm_entries (sc_Datas c)) n of
       None \<Rightarrow> None | Some d \<Rightarrow> Some (copied_Data d))"
    using ds(2,3) by (auto simp: State_CopyTo_fresh cong: option.case_cong)
  then show ?thesis using assms(1)
    by (intro exI [of _ "w\<lparr>w_heap := (w_heap w)(w_next w \<mapsto> c'), w_next := Suc (w_next w),
          w_spawned := w_spawned w @ [w_next w]\<rparr>"] exI [of _ c'])
      (simp add: doCmd_def sess_of_def deref_def Execute_def gm_lookup_def map_option_case)
qed

text \<open>A commit changes neither the list of goroutines nor the free addresses.\<close>

lemma Do_commit_frame:
  "engine_do D lb now [Commit [cmd]] w = (r, cs, w') \<Longrightarrow> w_spawned w' = w_spawned w \<and> w_next w' = w_next w"
  by (auto simp: engine_do_def doCmd_def Commit_def split: outcome.splits prod.splits if_splits)

section \<open>Fresh contexts\<close>

lemma engine_ready_alloc:
  "engine_ready w \<Longrightarrow> wf_StateCtx c \<Longrightarrow> engine_ready (snd (new_context c w))"
  by (auto simp: engine_ready_def new_context_def world_driver_def wf_heap_def)

lemma new_context_frame [simp]:
  "w_cache (snd (new_context c w)) = w_cache w" "w_spawned (snd (new_context c w)) = w_spawned w"
  "world_log (snd (new_context c w)) = world_log w" "w_heap (snd (new_context c w)) (w_next w) = Some c"
  by (simp_all add: new_context_def world_log_def world_driver_def)

lemma Transit_WithAnnotations_simps [simp]:
  "tr_StateCtx (Transit_WithAnnotations cmd m) = tr_StateCtx cmd"
  "tr_To (Transit_WithAnnotations cmd m) = tr_To cmd"
  "tr_Annotations (Transit_WithAnnotations cmd m) = gm_merge m (tr_Annotations cmd)"
proof -
  have *: "fold (\<lambda>(k, v) c. Transit_WithAnnotation c k v) es cmd
    = cmd\<lparr>tr_Annotations := fold (\<lambda>(k, v) m. gm_set m k v) es (tr_Annotations cmd)\<rparr>" for es
    by (induction es arbitrary: cmd) (auto simp: Transit_WithAnnotation_def)
  then show "tr_StateCtx (Transit_WithAnnotations cmd m) = tr_StateCtx cmd"
    "tr_To (Transit_WithAnnotations cmd m) = tr_To cmd"
    "tr_Annotations (Transit_WithAnnotations cmd m) = gm_merge m (tr_Annotations cmd)"
    by (simp_all add: Transit_WithAnnotations_def gm_merge_def)
qed

section \<open>A small world\<close>

text \<open>Two flows, \<open>f\<close> hands over to \<open>g\<close> and \<open>g\<close> parks, and a new driver behind a new cache.\<close>

definition demo_route :: "string \<Rightarrow> string option" where
  "demo_route fid = (if fid = ''f'' then Some ''g'' else None)"

definition demo_registry :: "memdriver flow DefaultFlowRegistry" where
  "demo_registry = snd (SetFlow (snd (SetFlow DefaultFlowRegistry0 ''f'' (chain_flow demo_route ''f''))) ''g''
    (chain_flow demo_route ''g''))"

definition demo_world :: "StateCtx \<Rightarrow> memdriver world" where
  "demo_world c = \<lparr>w_cache = newCacheDriver New 2, w_heap = [0 \<mapsto> c], w_next = 1, w_spawned = [],
    w_done = False, w_sess = 0\<rparr>"

definition demo_ctx :: StateCtx where
  "demo_ctx = set_Transition (new_ctx ''a'') \<lparr>ts_To = ''f'', ts_Annotations = None\<rparr>"

lemma demo_flows: "Flow demo_registry ''f'' = Ok (chain_flow demo_route ''f'')"
  "Flow demo_registry ''g'' = Ok (chain_flow demo_route ''g'')"
  by (simp_all add: demo_registry_def Flow_def SetFlow_def DefaultFlowRegistry0_def)

lemma demo_world_ready: "wf_StateCtx c \<Longrightarrow> engine_ready (demo_world c)"
  using mem_log.reach_coherent [of _ _ New 2 "sys0 New 2"] mem_ready_New
  by (auto simp: engine_ready_def demo_world_def at_rest_def world_driver_def sys0_def wf_heap_def newCacheDriver_def)

lemma demo_log: "world_log (demo_world c) = md_stateLog New"
  by (simp add: world_log_def world_driver_def demo_world_def newCacheDriver_def)

lemma demo_ctx_simps [simp]: "wf_StateCtx demo_ctx" "s_ID (sc_Current demo_ctx) = ''a''"
  "ts_To (s_Transition (sc_Current demo_ctx)) = ''f''"
  by code_simp+

section \<open>Properties\<close>

lemma engine_ready_session:
  assumes "engine_ready w" "w_heap w a = Some c"
  shows "engine_ready (w\<lparr>w_sess := s, w_heap := store (w_heap w) (Some a) (c\<lparr>sc_sessID := s, sc_e := True\<rparr>)\<rparr>)"
  using assms wf_heap_deref [of "w_heap w" "Some a" c]
  by (simp add: engine_ready_def world_driver_def deref_def wf_StateCtx_def)

text \<open>
  C32: an execution runs its chain of flows to the end. Over the in-memory driver behind the
  cache, let a state be committed and up to date in the context, on a transition to the first
  flow of a chain \<open>f, gs\<close> in which every flow commits a transit to the next one and the last one
  parks the state. With one unit of fuel per flow \<open>Execute\<close> returns without an error, and the
  log has got exactly one revision of the state per flow, under consecutive numbers: those of
  the transits to \<open>gs\<close>, in order, and the park.
\<close>

theorem Execute_runs_chain:
  fixes lb :: "'c libs"
  assumes "chain route f gs" "\<forall>g \<in> set (f # gs). Flow fr g = Ok (chain_flow route g)"
    and "engine_ready w" "w_heap w a = Some c" "latest_ctx (world_log w) c sid"
    and "ts_To (s_Transition (sc_Current c)) = f" "room (world_log w) (length gs + 2)" "length gs < fuel"
  shows "\<exists>w' es. Execute_ctx fuel (memdriver_Driver lb pick) lb now fr (Some a) w = Some (Ok (), w')
    \<and> sl_entries (world_log w') = sl_entries (world_log w) @ es
    \<and> map entry_ID es = replicate (Suc (length gs)) sid
    \<and> map entry_Rev es = map (\<lambda>i. sl_rev (world_log w) + 1 + int i) [0..<Suc (length gs)]
    \<and> map (\<lambda>e. ts_To (s_Transition (sc_Committed e))) es = gs @ [[]]"
proof -
  let ?s = "i64 (w_sess w + 1)"
  let ?c = "c\<lparr>sc_sessID := ?s, sc_e := True\<rparr>"
  let ?w = "w\<lparr>w_sess := ?s, w_heap := store (w_heap w) (Some a) ?c\<rparr>"
  have log: "world_log ?w = world_log w" by (simp add: world_log_def world_driver_def)
  have c: "w_heap ?w a = Some ?c" "latest_ctx (world_log ?w) ?c sid" "ts_To (s_Transition (sc_Current ?c)) = f"
    "room (world_log ?w) (length gs + 2)"
    using assms(5-7) log by (simp_all add: store_def latest_ctx_def)
  have "Execute_ctx fuel (memdriver_Driver lb pick) lb now fr (Some a) w
      = Execute_loop fuel (memdriver_Driver lb pick) lb now fr (Some a) ?w"
    using assms(3-5) by (simp add: Execute_ctx_def engine_ready_def deref_def latest_ctx_def)
  with Execute_loop_chain [where lb = lb and pick = pick and now = now,
      OF assms(1,2) engine_ready_session [OF assms(3,4), of ?s] c assms(8)] log
  show ?thesis by auto
qed

theorem Execute_runs_chain_witness:
  "\<exists>w' es. Execute_ctx 2 (memdriver_Driver wire_libs (\<lambda>_. True)) wire_libs 0 demo_registry (Some 0) (demo_world demo_ctx)
      = Some (Ok (), w')
    \<and> sl_entries (world_log w') = es \<and> map entry_ID es = [''a'', ''a''] \<and> map entry_Rev es = [1, 2]
    \<and> map (\<lambda>e. ts_To (s_Transition (sc_Committed e))) es = [''g'', []]"
proof -
  have c: "w_heap (demo_world demo_ctx) 0 = Some demo_ctx" by (simp add: demo_world_def)
  have "latest_ctx (md_stateLog New) demo_ctx ''a''" "room (md_stateLog New) (length [''g''] + 2)" by code_simp+
  then have l: "latest_ctx (world_log (demo_world demo_ctx)) demo_ctx ''a''"
    "room (world_log (demo_world demo_ctx)) (length [''g''] + 2)" by (simp_all add: demo_log)
  have ch: "chain demo_route ''f'' [''g'']" by (simp add: demo_route_def)
  from Execute_runs_chain [where lb = wire_libs and pick = "\<lambda>_. True" and now = 0 and fuel = 2 and fr = demo_registry,
      OF ch _ demo_world_ready c l(1) demo_ctx_simps(3) l(2)]
  show ?thesis by (simp add: demo_flows demo_log New_def upt_rec)
qed

text \<open>
  An execution that has lost a race ends quietly. When the context is not at the latest
  revision of its state in the log, the commit of the flow is refused, by the cache or by the
  driver, \<open>Execute\<close> returns without an error after this one flow, and the driver is what it was.
\<close>

lemma Execute_conflict_quiet:
  fixes lb :: "'c libs"
  assumes "engine_ready w" "w_heap w a = Some c" "s_ID (sc_Current c) \<noteq> []"
    and "s_Rev (sc_Committed c) \<noteq> snd (GetLatestByID (world_log w) (s_ID (sc_Current c)))"
    and "ts_To (s_Transition (sc_Current c)) = f" "f \<noteq> []" "Flow fr f = Ok (chain_flow route f)" "route f \<noteq> Some []"
  shows "\<exists>w'. Execute_ctx (Suc n) (memdriver_Driver lb pick) lb now fr (Some a) w = Some (Ok (), w')
    \<and> world_driver w' = world_driver w"
proof -
  let ?D = "memdriver_Driver lb pick" and ?cmd = "hand_over (Some a) (route f)" and ?s = "i64 (w_sess w + 1)"
  let ?c = "c\<lparr>sc_sessID := ?s, sc_e := True\<rparr>"
  let ?w = "w\<lparr>w_sess := ?s, w_heap := store (w_heap w) (Some a) ?c\<rparr>"
  have ready: "engine_ready ?w" by (rule engine_ready_session [OF assms(1,2)])
  have d: "world_driver ?w = world_driver w" "w_heap ?w a = Some ?c" by (simp_all add: world_driver_def store_def)
  then have "stale_ctx (world_log ?w) ?c" using assms(3,4) by (simp add: stale_ctx_def world_log_def)
  from doCmd_stale [where lb = lb and pick = pick and now = now and cmd = ?cmd, OF ready d(2) _ this] assms(8)
  obtain err h where do: "doCmd ?D lb now (CommitCmd [?cmd]) ?w = (Err err, CommitCmd [?cmd], ?w\<lparr>w_heap := h\<rparr>)"
    "IsErrRevMismatch err" by auto
  have "Execute_loop (Suc n) ?D lb now fr (Some a) ?w = Some (Ok (), ?w\<lparr>w_heap := h\<rparr>)"
    using do ready d(2) assms(5-7) by (simp add: engine_ready_def deref_def chain_flow_def sync_cmd_def)
  moreover have "Execute_ctx (Suc n) ?D lb now fr (Some a) w = Execute_loop (Suc n) ?D lb now fr (Some a) ?w"
    using assms(1-3) by (simp add: Execute_ctx_def engine_ready_def deref_def del: Execute_loop.simps)
  ultimately show ?thesis by (intro exI [of _ "?w\<lparr>w_heap := h\<rparr>"]) (simp add: world_driver_def)
qed

lemma Execute_conflict_quiet_instance:
  "\<exists>w'. Execute_ctx 1 (memdriver_Driver wire_libs (\<lambda>_. True)) wire_libs 0 demo_registry (Some 0)
      (demo_world (demo_ctx\<lparr>sc_Committed := State0\<lparr>s_Rev := 7\<rparr>\<rparr>)) = Some (Ok (), w')
    \<and> world_driver w' = New"
proof -
  let ?c = "demo_ctx\<lparr>sc_Committed := State0\<lparr>s_Rev := 7\<rparr>\<rparr>"
  have wf: "wf_StateCtx ?c" using demo_ctx_simps(1) by (simp add: wf_StateCtx_def wf_State_def)
  have c: "w_heap (demo_world ?c) 0 = Some ?c" by (simp add: demo_world_def)
  have "s_Rev (sc_Committed ?c) \<noteq> snd (GetLatestByID (world_log (demo_world ?c)) (s_ID (sc_Current ?c)))"
    by (simp add: demo_log New_def GetLatestByID_def)
  from Execute_conflict_quiet [where lb = wire_libs and pick = "\<lambda>_. True" and now = 0 and n = 0,
      OF demo_world_ready [OF wf] c _ this _ _ demo_flows(1)]
  show ?thesis by (simp add: demo_route_def demo_world_def world_driver_def newCacheDriver_def)
qed

text \<open>
  A commit is refused as a whole, before the driver is asked and with nothing changed, exactly
  when it is empty or holds another commit, an execute or one of the two range reads, wherever in
  the commit it stands; the error is not a revision mismatch, so that an execution reports it.
\<close>

lemma doCmd_refused_commit:
  assumes "cmds = [] \<or> list_ex refused cmds" "is_ok (cmdsSessID (w_heap w) [CommitCmd cmds])"
    and "is_ok (logCommand (w_heap w) (CommitCmd cmds))"
  shows "\<exists>err. doCmd D lb now (CommitCmd cmds) w = (Err err, CommitCmd cmds, w) \<and> \<not> IsErrRevMismatch err"
proof (cases "cmds = []")
  case False
  with assms(1) commit_guard_iff [of cmds] have "\<not> is_ok (commit_guard cmds)" by (auto simp: is_ok_iff)
  with commit_guard_no_panic obtain s where "commit_guard cmds = Err (Errorf s)" by blast
  with False assms(2,3) show ?thesis by (auto simp: doCmd_def is_ok_iff obind_Ok_iff split: if_splits)
qed (simp add: doCmd_def)

lemma doCmd_refused_commit_instance:
  "\<exists>err. doCmd (memdriver_Driver wire_libs (\<lambda>_. True)) wire_libs 0 (CommitCmd [NoopCmd, CommitCmd []])
      \<lparr>w_cache = newCacheDriver New 2, w_heap = Map.empty, w_next = 0, w_spawned = [], w_done = False, w_sess = 0\<rparr>
    = (Err err, CommitCmd [NoopCmd, CommitCmd []],
      \<lparr>w_cache = newCacheDriver New 2, w_heap = Map.empty, w_next = 0, w_spawned = [], w_done = False, w_sess = 0\<rparr>)
    \<and> \<not> IsErrRevMismatch err"
  by (rule doCmd_refused_commit) simp_all

text \<open>
  The goroutine of an \<open>Execute\<close> command runs on a context of its own. The caller's context
  is not touched; the copy, at an address that was free, has the same current and committed
  state, the same blobs under the same aliases, each a copy, and no session of its own yet.
\<close>

lemma doCmd_execute_copies:
  assumes "w_heap w a = Some c" "wf_StateCtx c" "w_heap w (w_next w) = None"
    and "\<forall>(n, d) \<in> set (gm_entries (sc_Datas c)). d \<noteq> None"
  shows "\<exists>w' c'. doCmd D lb now (ExecuteCmd (Execute (Some a))) w = (Ok (), ExecuteCmd (Execute (Some a)), w')
    \<and> w_spawned w' = w_spawned w @ [w_next w] \<and> w_next w < w_next w' \<and> w_cache w' = w_cache w \<and> w_done w' = w_done w
    \<and> (\<forall>b. b \<noteq> w_next w \<longrightarrow> w_heap w' b = w_heap w b) \<and> w_heap w' (w_next w) = Some c'
    \<and> sc_Current c' = norm_State (sc_Current c) \<and> sc_Committed c' = norm_State (sc_Committed c)
    \<and> wf_StateCtx c' \<and> sc_sessID c' = 0
    \<and> (\<forall>n. gm_lookup (sc_Datas c') n = map_option copied_Data (gm_lookup (sc_Datas c) n))"
  using doCmd_execute_spec [OF assms(1,2,4)] .

lemma doCmd_execute_copies_instance:
  "\<exists>w' c'. doCmd (memdriver_Driver wire_libs (\<lambda>_. True)) wire_libs 0 (ExecuteCmd (Execute (Some 0)))
      (demo_world (SetData demo_ctx ''d'' (Some Data0))) = (Ok (), ExecuteCmd (Execute (Some 0)), w')
    \<and> w_spawned w' = [1] \<and> w_heap w' 1 = Some c' \<and> sc_Current c' = norm_State (sc_Current demo_ctx)
    \<and> gm_lookup (sc_Datas c') ''d'' = Some (copied_Data (Some Data0))"
proof -
  let ?c = "SetData demo_ctx ''d'' (Some Data0)"
  have "sc_Datas ?c = Some [(''d'', Some Data0)]" by code_simp
  moreover have "w_heap (demo_world ?c) 0 = Some ?c" "w_heap (demo_world ?c) (w_next (demo_world ?c)) = None"
    by (simp_all add: demo_world_def)
  ultimately obtain w' c' where
    w': "doCmd (memdriver_Driver wire_libs (\<lambda>_. True)) wire_libs 0 (ExecuteCmd (Execute (Some 0))) (demo_world ?c)
      = (Ok (), ExecuteCmd (Execute (Some 0)), w')"
    "w_spawned w' = w_spawned (demo_world ?c) @ [w_next (demo_world ?c)]" "w_heap w' (w_next (demo_world ?c)) = Some c'"
    "sc_Current c' = norm_State (sc_Current ?c)"
    "gm_lookup (sc_Datas c') ''d'' = map_option copied_Data (gm_lookup (sc_Datas ?c) ''d'')"
    using doCmd_execute_copies [of "demo_world ?c" 0 ?c "memdriver_Driver wire_libs (\<lambda>_. True)" wire_libs 0] by force
  then show ?thesis by (intro exI [of _ w'] exI [of _ c']) (simp add: demo_world_def SetData_def)
qed

end
