(* ===== verification/DelayerProps.thy ===== *)
theory DelayerProps
  imports Delayer EngineProps
begin

text \<open>
  The delayer over the in-memory driver: what a query loads, when it does not end, that nothing
  runs before its time, and that delayed states whose state has moved on stay for ever and in
  the end stop the delayer.
\<close>

section \<open>Loading\<close>

text \<open>The delayed states of the driver that a query is about.\<close>

definition found :: "memdriver world \<Rightarrow> time \<Rightarrow> time \<Rightarrow> int \<Rightarrow> DelayedState list" where
  "found w since until offset = filter (due (GetDelayedStates since until offset))
    (dsl_entries (md_delayedStateLog (world_driver w)))"

lemma Do_GetDelayedStates:
  assumes "until \<noteq> zero_time"
  shows "\<exists>cmd. engine_do (memdriver_Driver lb pick) lb now [GetDelayedStatesCmd (GetDelayedStates since until offset)] w
      = (Ok (), [GetDelayedStatesCmd cmd], w)
    \<and> gt_Result cmd = Some \<lparr>gdr_States = take 500 (found w since until offset),
        gdr_More = 500 < length (found w since until offset)\<rparr>"
proof -
  let ?cmd = "GetDelayedStates since until offset"
  have prep: "GetDelayedStates_Prepare now ?cmd = ?cmd"
    using assms by (simp add: GetDelayedStates_Prepare_def GetDelayedStates_def GetDelayedStatesDefaultLimit_def IsZero_def)
  have "gt_Limit ?cmd = 500" by (simp add: GetDelayedStates_def GetDelayedStatesDefaultLimit_def)
  with mem_GetDelayed_page [of ?cmd "world_driver w"]
  have "mem_GetDelayedStates ?cmd (world_driver w) = Ok (?cmd\<lparr>gt_Result := Some
      \<lparr>gdr_States = take 500 (found w since until offset), gdr_More = 500 < length (found w since until offset)\<rparr>\<rparr>)"
    by (simp add: found_def Let_def)
  then show ?thesis
    by (simp add: engine_do_def doCmd_def prep cache_GetDelayedStates_def memdriver_Driver_def world_driver_def)
qed

lemma query_step:
  assumes "until \<noteq> zero_time" "length (dy_delayedStates d) \<le> 1000"
  shows "queryDelayedStates_loop (Suc n) (memdriver_Driver lb pick) lb since until offset nextOffset d w =
    (let sts = take 500 (found w since until offset);
         d1 = d\<lparr>dy_delayedStates := keep_states sts (dy_delayedStates d)\<rparr>
     in if 500 < length (found w since until offset)
        then queryDelayedStates_loop n (memdriver_Driver lb pick) lb since until offset (max_offset sts nextOffset) d1 w
        else Some (Ok (max_offset sts nextOffset, None), d1, w))"
proof -
  from Do_GetDelayedStates [OF assms(1)] obtain cmd where
    "engine_do (memdriver_Driver lb pick) lb 0 [GetDelayedStatesCmd (GetDelayedStates since until offset)] w
      = (Ok (), [GetDelayedStatesCmd cmd], w)"
    "gt_Result cmd = Some \<lparr>gdr_States = take 500 (found w since until offset),
        gdr_More = 500 < length (found w since until offset)\<rparr>" by blast
  with assms(2) show ?thesis
    by (cases "found w since until offset = []")
      (simp_all add: GetDelayedStates_MustResult_def Let_def keep_states_def max_offset_def)
qed

declare queryDelayedStates_loop.simps(2) [simp del]

lemma keep_states_lookup:
  "distinct (map ds_Offset sts) \<Longrightarrow> map_of (keep_states sts m) k =
    (case find (\<lambda>s. ds_Offset s = k) sts of None \<Rightarrow> map_of m k | Some s \<Rightarrow> Some s)"
proof (induction sts arbitrary: m)
  case (Cons s sts)
  have "find (\<lambda>x. ds_Offset x = ds_Offset s) sts = None"
    using Cons.prems by (simp add: find_None image_iff) metis
  with Cons show ?case by (auto simp: keep_states_def update_conv' split: option.split)
qed (simp add: keep_states_def)

lemma length_update: "length (AList.update k v m) \<le> Suc (length m)"
  "k \<in> fst ` set m \<Longrightarrow> length (AList.update k v m) = length m"
  by (induction m) auto

lemma keys_keep_states: "fst ` set (keep_states sts m) = fst ` set m \<union> ds_Offset ` set sts"
  by (induction sts arbitrary: m) (auto simp: keep_states_def dom_update)

lemma length_keep_states: "length (keep_states sts m) \<le> length m + length sts"
proof (induction sts arbitrary: m)
  case (Cons s sts)
  from Cons [of "AList.update (ds_Offset s) s m"] length_update(1) [of "ds_Offset s" s m]
  show ?case by (simp add: keep_states_def)
qed (simp add: keep_states_def)

lemma length_keep_again: "ds_Offset ` set sts \<subseteq> fst ` set m \<Longrightarrow> length (keep_states sts m) = length m"
proof (induction sts arbitrary: m)
  case (Cons s sts)
  have "fst ` set (AList.update (ds_Offset s) s m) = insert (ds_Offset s) (fst ` set m)" by (simp add: dom_update)
  with Cons.IH [of "AList.update (ds_Offset s) s m"] Cons.prems length_update(2) [of "ds_Offset s" m s]
  show ?case by (auto simp: keep_states_def)
qed (simp add: keep_states_def)

lemma max_offset_ge: "n \<le> max_offset sts n \<and> (\<forall>s \<in> set sts. ds_Offset s \<le> max_offset sts n)
    \<and> max_offset sts n \<in> insert n (ds_Offset ` set sts)"
proof (induction sts arbitrary: n)
  case (Cons s sts)
  from Cons [of "max n (ds_Offset s)"] show ?case
    by (auto simp: max_offset_def max_def split: if_splits)
qed (simp add: max_offset_def)

lemma query_again:
  assumes "until \<noteq> zero_time" "500 < length (found w since until offset)" "length (dy_delayedStates d) \<le> 1000"
    and "ds_Offset ` set (take 500 (found w since until offset)) \<subseteq> fst ` set (dy_delayedStates d)"
  shows "queryDelayedStates_loop n (memdriver_Driver lb pick) lb since until offset nextOffset d w = None"
  using assms(3,4)
proof (induction n arbitrary: d nextOffset)
  case (Suc n)
  then show ?case
    using assms(2) by (auto simp: query_step [OF assms(1)] Let_def length_keep_again keys_keep_states)
qed simp


section \<open>What a tick executes\<close>

definition commits_delayed :: "DelayedState \<Rightarrow> bool" where
  "commits_delayed ds \<longleftrightarrow>
    gm_str (ts_Annotations (s_Transition (State_CopyTo (ds_State ds) State0))) DelayCommitAnnotation \<noteq> ''false''"

text \<open>The command of a committed delayed state: the transit of a fresh copy, at \<open>a\<close>.\<close>

definition delayed_transit :: "DelayedState \<Rightarrow> nat \<Rightarrow> Command" where
  "delayed_transit ds a = TransitCmd (Transit_WithAnnotations
    (Transit (Some a) (ts_To (s_Transition (State_CopyTo (ds_State ds) State0))))
    (ts_Annotations (s_Transition (State_CopyTo (ds_State ds) State0))))"

lemma updateTail_loop_Cons:
  "updateTail_loop D lb now ((k, ds) # rest) cs co d w =
    (if ds_ExecuteAt ds > now then updateTail_loop D lb now rest cs co d w
     else let a = w_next w; w1 = snd (new_context (CopyToCtx (ds_State ds) StateCtx0) w)
       in case (if commits_delayed ds then engine_do D lb 0 [Commit [delayed_transit ds a]] w1 else (Ok (), [], w1)) of
            (Err err, _, w2) \<Rightarrow>
              (if IsErrRevMismatch err then updateTail_loop D lb now rest cs co d w2
               else (Err (Errorw (''commit state ctx: id='' @ s_ID (ds_State ds) @ '' rev='' @
                   FormatInt (s_Rev (ds_State ds)) @ '': '') err []), d, w2))
          | (Panic p, _, w2) \<Rightarrow> (Panic p, d, w2)
          | (Ok _, _, w2) \<Rightarrow> updateTail_loop D lb now rest
              (if ds_ExecuteAt ds < cs then ds_ExecuteAt ds else cs) (max co (ds_Offset ds))
              (d\<lparr>dy_delayedStates := AList.delete (ds_Offset ds) (dy_delayedStates d)\<rparr>) (spawn_Execute a w2))"
  by (simp add: new_context_def Let_def commits_delayed_def delayed_transit_def)

declare updateTail_loop.simps(2) [simp del]

text \<open>
  What a driver keeps to when it commits a transit: it writes no context but that of the command,
  and leaves that one the id of its state. The in-memory driver does.
\<close>

definition commits_own :: "'d Driver \<Rightarrow> bool" where
  "commits_own D \<longleftrightarrow> (\<forall>cmd a h d r cs h' d'. tr_StateCtx cmd = Some a
    \<longrightarrow> drv_Commit D [TransitCmd cmd] h d = (r, cs, h', d')
    \<longrightarrow> (\<forall>b. b \<noteq> a \<longrightarrow> h' b = h b)
      \<and> (\<forall>c. h a = Some c \<longrightarrow> (\<exists>c'. h' a = Some c' \<and> s_ID (sc_Current c') = s_ID (sc_Current c))))"

lemma memdriver_commits_own: "commits_own (memdriver_Driver lb pick)"
  by (auto simp: commits_own_def memdriver_Driver_def mem_Commit_def Transit_Do_def with_ctx_def deref_def store_def
      nil_deref_def Append_def committedT_def Let_def split: if_splits option.splits prod.splits)

lemma Do_transit_own:
  assumes "commits_own D" "tr_StateCtx cmd = Some a"
    and "engine_do D lb now [Commit [TransitCmd cmd]] w = (r, cs, w')"
  shows "(\<forall>b. b \<noteq> a \<longrightarrow> w_heap w' b = w_heap w b)
    \<and> (\<forall>c. w_heap w a = Some c \<longrightarrow> (\<exists>c'. w_heap w' a = Some c' \<and> s_ID (sc_Current c') = s_ID (sc_Current c)))"
proof -
  have "w_heap w' = w_heap w \<or> (\<exists>r cs h d. drv_Commit D [TransitCmd cmd] (w_heap w) (cd_d (w_cache w)) = (r, cs, h, d) \<and> w_heap w' = h)"
    using assms(3) by (auto simp: engine_do_def doCmd_def Commit_def cache_Commit_def
        split: outcome.splits prod.splits if_splits)
  with assms(1,2) show ?thesis unfolding commits_own_def by (elim disjE exE conjE) (simp, blast)
qed

text \<open>The context of a goroutine is that of its delayed state, to the last field if nothing was committed.\<close>

definition own_context :: "heap \<Rightarrow> nat \<Rightarrow> DelayedState \<Rightarrow> bool" where
  "own_context h a ds \<longleftrightarrow> (\<exists>c. h a = Some c \<and> s_ID (sc_Current c) = s_ID (ds_State ds)
    \<and> (\<not> commits_delayed ds \<longrightarrow> c = CopyToCtx (ds_State ds) StateCtx0))"

lemma CopyToCtx_ID [simp]: "s_ID (sc_Current (CopyToCtx s c)) = s_ID s"
  by (simp add: CopyToCtx_def Let_def)

text \<open>
  The entries that a tick runs: they are due, they leave the map, each gets a goroutine with a
  fresh context of its own; no context that was there before is touched.
\<close>

definition ran_ok :: "time \<Rightarrow> (int \<times> DelayedState) list \<Rightarrow> (int \<times> DelayedState) list \<Rightarrow> bool" where
  "ran_ok now es rs \<longleftrightarrow> set rs \<subseteq> {x \<in> set es. ds_ExecuteAt (snd x) \<le> now} \<and> distinct (map fst rs)"

definition spawns :: "'d Driver \<Rightarrow> (int \<times> DelayedState) list \<Rightarrow> nat list \<Rightarrow> 'd world \<Rightarrow> 'd world \<Rightarrow> bool" where
  "spawns D rs as w w' \<longleftrightarrow> w_spawned w' = w_spawned w @ as \<and> length as = length rs \<and> distinct as
    \<and> w_next w \<le> w_next w' \<and> set as \<subseteq> {w_next w..<w_next w'}
    \<and> (commits_own D \<longrightarrow> (\<forall>b < w_next w. w_heap w' b = w_heap w b)
        \<and> list_all2 (\<lambda>a x. own_context (w_heap w') a (snd x)) as rs)"

definition tail_runs where
  "tail_runs D now es r m w m' w' \<longleftrightarrow> (\<exists>rs as. ran_ok now es rs
    \<and> m' = filter (\<lambda>x. fst x \<notin> fst ` set rs) m \<and> spawns D rs as w w'
    \<and> (r = Ok () \<longrightarrow> (\<forall>x \<in> set es. ds_ExecuteAt (snd x) \<le> now \<and> \<not> commits_delayed (snd x) \<longrightarrow> x \<in> set rs)))"

text \<open>One entry whose context was made, and its transit committed or refused.\<close>

definition one_entry :: "'d Driver \<Rightarrow> DelayedState \<Rightarrow> 'd world \<Rightarrow> 'd world \<Rightarrow> bool" where
  "one_entry D ds w w2 \<longleftrightarrow> w_spawned w2 = w_spawned w \<and> w_next w2 = Suc (w_next w)
    \<and> (commits_own D \<longrightarrow> (\<forall>b < w_next w. w_heap w2 b = w_heap w b) \<and> own_context (w_heap w2) (w_next w) ds)"

lemma one_entry:
  assumes "(if commits_delayed ds then engine_do D lb 0 [Commit [delayed_transit ds (w_next w)]]
        (snd (new_context (CopyToCtx (ds_State ds) StateCtx0) w))
      else (Ok (), [], snd (new_context (CopyToCtx (ds_State ds) StateCtx0) w))) = (q, cmds, w2)"
  shows "one_entry D ds w w2"
proof (cases "commits_delayed ds")
  case True
  let ?w1 = "snd (new_context (CopyToCtx (ds_State ds) StateCtx0) w)"
  from assms True have do: "engine_do D lb 0 [Commit [delayed_transit ds (w_next w)]] ?w1 = (q, cmds, w2)" by simp
  moreover obtain cmd where cmd: "delayed_transit ds (w_next w) = TransitCmd cmd" "tr_StateCtx cmd = Some (w_next w)"
    by (simp add: delayed_transit_def)
  ultimately have "commits_own D \<Longrightarrow> (\<forall>b. b \<noteq> w_next w \<longrightarrow> w_heap w2 b = w_heap ?w1 b)
    \<and> (\<exists>c'. w_heap w2 (w_next w) = Some c' \<and> s_ID (sc_Current c') = s_ID (ds_State ds))"
    using Do_transit_own [of D cmd "w_next w" lb 0 ?w1 q cmds w2] by (auto simp: new_context_def)
  with Do_commit_frame [OF do] True show ?thesis
    by (auto simp: one_entry_def own_context_def) (simp_all add: new_context_def)
next
  case False
  with assms show ?thesis by (auto simp: one_entry_def own_context_def new_context_def)
qed

lemma spawns_skip: "one_entry D ds w w2 \<Longrightarrow> spawns D rs as w2 w' \<Longrightarrow> spawns D rs as w w'"
  by (auto simp: spawns_def one_entry_def)

lemma spawns_run:
  assumes "one_entry D ds w w2" "spawns D rs as (spawn_Execute (w_next w) w2) w'"
  shows "spawns D ((k, ds) # rs) (w_next w # as) w w'"
proof -
  have "w_next w \<notin> set as" using assms by (auto simp: spawns_def one_entry_def spawn_Execute_def)
  moreover have "own_context (w_heap w') (w_next w) ds" if "commits_own D"
  proof -
    have "w_heap w' (w_next w) = w_heap w2 (w_next w)"
      using assms that by (simp add: spawns_def one_entry_def spawn_Execute_def)
    with assms(1) that show ?thesis by (simp add: one_entry_def own_context_def)
  qed
  ultimately show ?thesis using assms by (auto simp: spawns_def one_entry_def spawn_Execute_def)
qed

lemma tail_runs_later:
  "tail_runs D now es r m w m' w' \<Longrightarrow> now < ds_ExecuteAt (snd x) \<Longrightarrow> tail_runs D now (x # es) r m w m' w'"
  unfolding tail_runs_def ran_ok_def by (elim exE conjE, intro exI conjI) auto

lemma tail_runs_skip:
  "tail_runs D now es r m w2 m' w' \<Longrightarrow> one_entry D (snd x) w w2 \<Longrightarrow> commits_delayed (snd x)
    \<Longrightarrow> tail_runs D now (x # es) r m w m' w'"
  unfolding tail_runs_def ran_ok_def by (elim exE conjE, drule (1) spawns_skip, intro exI conjI) auto

lemma tail_runs_none: "r \<noteq> Ok () \<Longrightarrow> one_entry D ds w w' \<Longrightarrow> tail_runs D now es r m w m w'"
  unfolding tail_runs_def ran_ok_def spawns_def one_entry_def by (intro exI [of _ "[]"]) auto

lemma tail_runs_run:
  assumes "tail_runs D now es r (AList.delete k m) (spawn_Execute (w_next w) w2) m' w'"
    and "one_entry D ds w w2" "ds_ExecuteAt ds \<le> now" "k \<notin> fst ` set es"
  shows "tail_runs D now ((k, ds) # es) r m w m' w'"
proof -
  from assms(1) obtain rs as where "ran_ok now es rs"
    "m' = filter (\<lambda>x. fst x \<notin> fst ` set rs) (AList.delete k m)" "spawns D rs as (spawn_Execute (w_next w) w2) w'"
    "r = Ok () \<longrightarrow> (\<forall>x \<in> set es. ds_ExecuteAt (snd x) \<le> now \<and> \<not> commits_delayed (snd x) \<longrightarrow> x \<in> set rs)"
    unfolding tail_runs_def by blast
  with spawns_run [OF assms(2) this(3)] assms(3,4) show ?thesis unfolding tail_runs_def
    by (intro exI [of _ "(k, ds) # rs"] exI [of _ "w_next w # as"])
      (auto simp: ran_ok_def AList.delete_eq filter_filter image_iff intro!: filter_cong)
qed

lemma updateTail_loop_runs:
  assumes "updateTail_loop D lb now es cs co d w = (r, d', w')"
    and "distinct (map fst es)" "\<forall>(k, ds) \<in> set es. ds_Offset ds = k"
  shows "tail_runs D now es r (dy_delayedStates d) w (dy_delayedStates d') w'"
  using assms
proof (induction es arbitrary: cs co d w)
  case Nil
  then show ?case by (auto simp: tail_runs_def ran_ok_def spawns_def intro!: exI [of _ "[]"])
next
  case (Cons x es)
  obtain k ds where x: "x = (k, ds)" "ds_Offset ds = k" using Cons.prems(3) by (cases x) auto
  have es: "distinct (map fst es)" "\<forall>(k, ds) \<in> set es. ds_Offset ds = k" using Cons.prems(2,3) by auto
  let ?w1 = "snd (new_context (CopyToCtx (ds_State ds) StateCtx0) w)"
  show ?case
  proof (cases "ds_ExecuteAt ds > now")
    case True
    then have "updateTail_loop D lb now es cs co d w = (r, d', w')"
      using Cons.prems(1) x by (simp add: updateTail_loop_Cons)
    from tail_runs_later [OF Cons.IH [OF this es], of x] True x show ?thesis by simp
  next
    case due: False
    obtain q cmds w2 where do: "(if commits_delayed ds then engine_do D lb 0 [Commit [delayed_transit ds (w_next w)]] ?w1
        else (Ok (), [], ?w1)) = (q, cmds, w2)" by (metis surj_pair)
    note one = one_entry [OF do]
    have step: "(case (q, cmds, w2) of
            (Err err, _, w2) \<Rightarrow>
              (if IsErrRevMismatch err then updateTail_loop D lb now es cs co d w2
               else (Err (Errorw (''commit state ctx: id='' @ s_ID (ds_State ds) @ '' rev='' @
                   FormatInt (s_Rev (ds_State ds)) @ '': '') err []), d, w2))
          | (Panic p, _, w2) \<Rightarrow> (Panic p, d, w2)
          | (Ok _, _, w2) \<Rightarrow> updateTail_loop D lb now es
              (if ds_ExecuteAt ds < cs then ds_ExecuteAt ds else cs) (max co (ds_Offset ds))
              (d\<lparr>dy_delayedStates := AList.delete (ds_Offset ds) (dy_delayedStates d)\<rparr>) (spawn_Execute (w_next w) w2))
        = (r, d', w')"
      using Cons.prems(1) due do unfolding x(1) by (simp add: updateTail_loop_Cons Let_def)
    show ?thesis
    proof (cases q)
      case (Ok u)
      from Cons.IH [OF step [unfolded Ok, simplified] es]
      have "tail_runs D now es r (AList.delete k (dy_delayedStates d)) (spawn_Execute (w_next w) w2) (dy_delayedStates d') w'"
        by (simp add: x(2))
      from tail_runs_run [OF this one] Cons.prems(2) due x show ?thesis by simp
    next
      case (Err err)
      then have no: "commits_delayed ds" using do by (auto split: if_splits)
      show ?thesis
      proof (cases "IsErrRevMismatch err")
        case True
        with step Err have "updateTail_loop D lb now es cs co d w2 = (r, d', w')" by simp
        from tail_runs_skip [OF Cons.IH [OF this es], of x] no x one show ?thesis by simp
      next
        case False
        with step Err one show ?thesis by (auto intro: tail_runs_none)
      qed
    next
      case (Panic p)
      with step one show ?thesis by (auto intro: tail_runs_none)
    qed
  qed
qed


section \<open>Delayed states whose state has moved on\<close>

definition stale_delayed :: "stateLog \<Rightarrow> DelayedState \<Rightarrow> bool" where
  "stale_delayed l ds \<longleftrightarrow> commits_delayed ds \<and> 0 < s_Rev (ds_State ds) \<and> s_ID (ds_State ds) \<noteq> []
    \<and> ts_To (s_Transition (ds_State ds)) \<noteq> []
    \<and> s_Rev (ds_State ds) \<noteq> snd (GetLatestByID l (s_ID (ds_State ds)))"

lemma delayed_transit_write: "ts_To (s_Transition (ds_State ds)) \<noteq> [] \<Longrightarrow> one_write (delayed_transit ds a) a"
  by (simp add: delayed_transit_def Transit_def)

lemma Do_stale_delayed:
  fixes lb :: "'c libs"
  assumes "engine_ready w" "stale_delayed (world_log w) ds"
  defines "w1 \<equiv> snd (new_context (CopyToCtx (ds_State ds) StateCtx0) w)"
  shows "\<exists>err cs w2. engine_do (memdriver_Driver lb pick) lb now [Commit [delayed_transit ds (w_next w)]] w1
      = (Err err, cs, w2) \<and> IsErrRevMismatch err \<and> engine_ready w2 \<and> w_cache w2 = w_cache w \<and> w_spawned w2 = w_spawned w"
proof -
  let ?c = "CopyToCtx (ds_State ds) StateCtx0"
  have w1: "engine_ready w1" unfolding w1_def by (rule engine_ready_alloc [OF assms(1)]) simp
  have c: "w_heap w1 (w_next w) = Some ?c" "stale_ctx (world_log w1) ?c" "w_cache w1 = w_cache w"
    "w_spawned w1 = w_spawned w"
    using assms(2) by (auto simp: w1_def stale_delayed_def stale_ctx_def)
  have "one_write (delayed_transit ds (w_next w)) (w_next w)"
    using assms(2) by (simp add: stale_delayed_def delayed_transit_write)
  from doCmd_stale [where lb = lb and pick = pick and now = now, OF w1 c(1) this c(2)] obtain err h where
    "doCmd (memdriver_Driver lb pick) lb now (CommitCmd [delayed_transit ds (w_next w)]) w1
      = (Err err, CommitCmd [delayed_transit ds (w_next w)], w1\<lparr>w_heap := h\<rparr>)" "IsErrRevMismatch err" "wf_heap h" by blast
  moreover from w1 this(3) have "engine_ready (w1\<lparr>w_heap := h\<rparr>)" by (simp add: engine_ready_def world_driver_def)
  ultimately show ?thesis using c(3,4) by (simp add: engine_do_def Commit_def)
qed

lemma updateTail_loop_stuck:
  fixes lb :: "'c libs"
  assumes "engine_ready w" "\<forall>(k, ds) \<in> set es. now < ds_ExecuteAt ds \<or> stale_delayed (world_log w) ds"
  shows "\<exists>w'. updateTail_loop (memdriver_Driver lb pick) lb now es cs co d w
      = (Ok (), d\<lparr>dy_commitSince := cs, dy_commitOffset := co\<rparr>, w')
    \<and> engine_ready w' \<and> w_cache w' = w_cache w \<and> w_spawned w' = w_spawned w"
  using assms
proof (induction es arbitrary: w)
  case (Cons x es)
  obtain k ds where x: "x = (k, ds)" by fastforce
  show ?case
  proof (cases "now < ds_ExecuteAt ds")
    case True
    with Cons x show ?thesis by (simp add: updateTail_loop_Cons)
  next
    case False
    then have ds: "stale_delayed (world_log w) ds" "commits_delayed ds"
      using Cons.prems(2) x by (auto simp: stale_delayed_def)
    from Do_stale_delayed [where lb = lb and pick = pick and now = 0, OF Cons.prems(1) ds(1)] obtain err c w2 where
      do: "engine_do (memdriver_Driver lb pick) lb 0 [Commit [delayed_transit ds (w_next w)]]
        (snd (new_context (CopyToCtx (ds_State ds) StateCtx0) w)) = (Err err, c, w2)" "IsErrRevMismatch err"
      "engine_ready w2" "w_cache w2 = w_cache w" "w_spawned w2 = w_spawned w" by blast
    have "world_log w2 = world_log w" using do(4) by (simp add: world_log_def world_driver_def)
    with Cons.IH [OF do(3)] Cons.prems(2) do x ds(2) False show ?thesis
      by (simp add: updateTail_loop_Cons Let_def)
  qed
qed simp

section \<open>A small delayer\<close>

text \<open>A driver that holds \<open>n\<close> delayed states of the epoch, and a delayer with given entries.\<close>

definition demo_delayed :: "nat \<Rightarrow> DelayedState" where
  "demo_delayed i = \<lparr>ds_State = State0, ds_Offset = int i, ds_ExecuteAt = epoch\<rparr>"

definition delayed_world :: "nat \<Rightarrow> memdriver world" where
  "delayed_world n = (demo_world demo_ctx)\<lparr>w_cache := newCacheDriver (New\<lparr>md_delayedStateLog :=
    \<lparr>dsl_offset = int n, dsl_entries = map demo_delayed [1..<Suc n]\<rparr>\<rparr>) 2\<rparr>"

definition demo_delayer :: "(int \<times> DelayedState) list \<Rightarrow> Delayer" where
  "demo_delayer m = \<lparr>dy_meta = 0, dy_offset = 0, dy_since = epoch, dy_commitSince = epoch,
    dy_commitOffset = 0, dy_delayedStates = m\<rparr>"

lemma found_delayed_world: "found (delayed_world n) epoch 60 0 = map demo_delayed [1..<Suc n]"
proof -
  have "filter (due (GetDelayedStates epoch 60 0)) (map demo_delayed [1..<Suc n]) = map demo_delayed [1..<Suc n]"
    by (rule filter_True) (auto simp: due_def GetDelayedStates_def demo_delayed_def epoch_def time_Unix_def)
  then show ?thesis by (simp add: found_def delayed_world_def world_driver_def newCacheDriver_def del: upt_Suc)
qed

section \<open>Properties\<close>

text \<open>
  A query loads what it is asked for. When at most a page of delayed states, 500, lies in the
  window beyond the offset, the query ends after one read, all of them are in the map under their
  offsets, what the map held elsewhere is still there, and the next offset is the greatest one.
\<close>

lemma queryDelayedStates_loads:
  fixes lb :: "'c libs"
  assumes "until \<noteq> zero_time" "length (dy_delayedStates d) \<le> 1000"
    and "length (found w since until offset) \<le> 500" "distinct (map ds_Offset (found w since until offset))"
  shows "\<exists>m n. queryDelayedStates 1 (memdriver_Driver lb pick) lb since until offset d w
      = Some (Ok (n, None), d\<lparr>dy_delayedStates := m\<rparr>, w)
    \<and> (\<forall>k. map_of m k = (case find (\<lambda>s. ds_Offset s = k) (found w since until offset) of
         None \<Rightarrow> map_of (dy_delayedStates d) k | Some s \<Rightarrow> Some s))
    \<and> (\<forall>s \<in> set (found w since until offset). ds_Offset s \<le> n)
    \<and> (n = offset \<or> n \<in> ds_Offset ` set (found w since until offset))"
  using query_step [OF assms(1,2), of 0 lb pick since offset offset w] assms(3)
    keep_states_lookup [OF assms(4)] max_offset_ge [of offset "found w since until offset"]
  by (intro exI [of _ "keep_states (found w since until offset) (dy_delayedStates d)"]
      exI [of _ "max_offset (found w since until offset) offset"]) (auto simp: queryDelayedStates_def Let_def)

lemma queryDelayedStates_loads_instance:
  "\<exists>m n. queryDelayedStates 1 (memdriver_Driver wire_libs (\<lambda>_. True)) wire_libs epoch 60 0 (demo_delayer []) (delayed_world 2)
      = Some (Ok (n, None), demo_delayer m, delayed_world 2)
    \<and> map_of m 1 = Some (demo_delayed 1) \<and> map_of m 2 = Some (demo_delayed 2) \<and> 2 \<le> n"
proof -
  have f: "found (delayed_world 2) epoch 60 0 = [demo_delayed 1, demo_delayed 2]"
    by (simp add: found_delayed_world upt_rec numeral_2_eq_2)
  from queryDelayedStates_loads [of 60 "demo_delayer []" "delayed_world 2" epoch 0 wire_libs "\<lambda>_. True"] obtain m n where
    "queryDelayedStates 1 (memdriver_Driver wire_libs (\<lambda>_. True)) wire_libs epoch 60 0 (demo_delayer []) (delayed_world 2)
      = Some (Ok (n, None), (demo_delayer [])\<lparr>dy_delayedStates := m\<rparr>, delayed_world 2)"
    "\<forall>k. map_of m k = (case find (\<lambda>s. ds_Offset s = k) [demo_delayed 1, demo_delayed 2] of
         None \<Rightarrow> None | Some s \<Rightarrow> Some s)" "2 \<le> n"
    unfolding f by (auto simp: demo_delayed_def demo_delayer_def zero_time_def)
  then show ?thesis
    by (intro exI [of _ m] exI [of _ n]) (auto simp: demo_delayer_def demo_delayed_def)
qed

text \<open>
  C35: a query that needs a second page never ends. The loop asks for the same offset again and gets
  the same page, so as long as the map has room the delayer spins: whatever the fuel, there is no
  result.
\<close>

theorem queryDelayedStates_spins:
  fixes lb :: "'c libs"
  assumes "until \<noteq> zero_time" "500 < length (found w since until offset)" "length (dy_delayedStates d) \<le> 500"
  shows "queryDelayedStates n (memdriver_Driver lb pick) lb since until offset d w = None"
proof (cases n)
  case (Suc k)
  let ?sts = "take 500 (found w since until offset)"
  let ?d = "d\<lparr>dy_delayedStates := keep_states ?sts (dy_delayedStates d)\<rparr>"
  have "length (dy_delayedStates ?d) \<le> 1000"
    using length_keep_states [of ?sts "dy_delayedStates d"] assms(3) by simp
  then have "queryDelayedStates_loop k (memdriver_Driver lb pick) lb since until offset x ?d w = None" for x
    by (rule query_again [OF assms(1,2)]) (simp add: keys_keep_states)
  then show ?thesis
    using query_step [OF assms(1), of d k lb pick since offset offset w] assms(2,3) Suc
    by (simp add: queryDelayedStates_def Let_def)
qed (simp add: queryDelayedStates_def)

theorem queryDelayedStates_spins_witness:
  "\<forall>n. queryDelayedStates n (memdriver_Driver wire_libs (\<lambda>_. True)) wire_libs epoch 60 0 (demo_delayer []) (delayed_world 501) = None"
proof
  show "queryDelayedStates n (memdriver_Driver wire_libs (\<lambda>_. True)) wire_libs epoch 60 0 (demo_delayer []) (delayed_world 501) = None" for n
    by (rule queryDelayedStates_spins)
      (simp_all add: found_delayed_world demo_delayer_def zero_time_def del: upt_Suc)
qed

text \<open>
  C36: in one tick nothing runs before its time, and nothing twice. On any driver, whatever the
  result, the tick starts as many goroutines as entries left the map, each with a fresh context;
  each of these entries was due; every other entry is still there; and when the tick succeeds all
  due states that need no commit have been started. Over a driver whose commits write only the
  context of their command, the goroutine of an entry has the context of that very state, exactly
  so if nothing was committed for it, and no context from before the tick has changed. Another
  tick may run a state again that needs no commit, when the head loads it once more.
\<close>

theorem updateTail_never_early:
  assumes "updateTail D lb now d w = (r, d', w')" "distinct (map fst (dy_delayedStates d))"
    and "\<forall>(k, ds) \<in> set (dy_delayedStates d). ds_Offset ds = k"
  shows "\<exists>gone started. set gone \<subseteq> {x \<in> set (dy_delayedStates d). ds_ExecuteAt (snd x) \<le> now}
    \<and> distinct (map fst gone) \<and> w_spawned w' = w_spawned w @ started \<and> length started = length gone
    \<and> distinct started \<and> set started \<subseteq> {w_next w..<w_next w'}
    \<and> (commits_own D \<longrightarrow> (\<forall>b < w_next w. w_heap w' b = w_heap w b)
        \<and> list_all2 (\<lambda>a (_, ds). \<exists>c. w_heap w' a = Some c \<and> s_ID (sc_Current c) = s_ID (ds_State ds)
            \<and> (\<not> commits_delayed ds \<longrightarrow> c = CopyToCtx (ds_State ds) StateCtx0)) started gone)
    \<and> dy_delayedStates d' = filter (\<lambda>x. fst x \<notin> fst ` set gone) (dy_delayedStates d)
    \<and> (r = Ok () \<longrightarrow> (\<forall>x \<in> set (dy_delayedStates d).
        ds_ExecuteAt (snd x) \<le> now \<and> \<not> commits_delayed (snd x) \<longrightarrow> x \<in> set gone))"
  using updateTail_loop_runs [OF assms(1) [unfolded updateTail_def] assms(2,3)]
  unfolding tail_runs_def ran_ok_def spawns_def own_context_def case_prod_unfold by blast

text \<open>Of two states that need no commit, the due one runs, in its own context.\<close>

theorem updateTail_never_early_witness:
  "let st = (\<lambda>sid. State0\<lparr>s_ID := sid, s_Transition := Transition0\<lparr>ts_Annotations := Some [(DelayCommitAnnotation, ''false'')]\<rparr>\<rparr>);
     d = demo_delayer [(1, (demo_delayed 1)\<lparr>ds_State := st ''a''\<rparr>), (2, (demo_delayed 2)\<lparr>ds_State := st ''b'', ds_ExecuteAt := 9\<rparr>)]
   in \<exists>d' w' a c. updateTail (memdriver_Driver wire_libs (\<lambda>_. True)) wire_libs 5 d (delayed_world 2) = (Ok (), d', w')
     \<and> map fst (dy_delayedStates d') = [2] \<and> w_spawned w' = [a] \<and> w_heap w' a = Some c \<and> c = CopyToCtx (st ''a'') StateCtx0"
proof -
  let ?st = "\<lambda>sid. State0\<lparr>s_ID := sid, s_Transition := Transition0\<lparr>ts_Annotations := Some [(DelayCommitAnnotation, ''false'')]\<rparr>\<rparr>"
  define ds1 ds2 where "ds1 = (demo_delayed 1)\<lparr>ds_State := ?st ''a''\<rparr>"
    and "ds2 = (demo_delayed 2)\<lparr>ds_State := ?st ''b'', ds_ExecuteAt := 9\<rparr>"
  then have e: "ds_ExecuteAt ds1 = epoch" "ds_Offset ds1 = 1" "ds_State ds1 = ?st ''a''" "ds_ExecuteAt ds2 = 9" "ds_Offset ds2 = 2"
    by (simp_all add: demo_delayed_def)
  have ep: "epoch \<le> 5" by code_simp
  have no: "\<not> commits_delayed ds1" unfolding ds1_def by code_simp
  let ?d = "demo_delayer [(1, ds1), (2, ds2)]" and ?D = "memdriver_Driver wire_libs (\<lambda>_. True)"
  have m: "dy_delayedStates ?d = [(1, ds1), (2, ds2)]" by (simp add: demo_delayer_def)
  obtain d' w' where u: "updateTail ?D wire_libs 5 ?d (delayed_world 2) = (Ok (), d', w')"
    using e ep no by (simp add: updateTail_def m updateTail_loop_Cons Let_def)
  from updateTail_never_early [OF u] m e obtain gone started where g:
    "set gone \<subseteq> {x \<in> set [(1, ds1), (2, ds2)]. ds_ExecuteAt (snd x) \<le> 5}" "distinct (map fst gone)"
    "w_spawned w' = w_spawned (delayed_world 2) @ started"
    "list_all2 (\<lambda>a (_, ds). \<exists>c. w_heap w' a = Some c \<and> s_ID (sc_Current c) = s_ID (ds_State ds)
      \<and> (\<not> commits_delayed ds \<longrightarrow> c = CopyToCtx (ds_State ds) StateCtx0)) started gone"
    "dy_delayedStates d' = filter (\<lambda>x. fst x \<notin> fst ` set gone) [(1, ds1), (2, ds2)]"
    "\<forall>x \<in> set [(1, ds1), (2, ds2)]. ds_ExecuteAt (snd x) \<le> 5 \<and> \<not> commits_delayed (snd x) \<longrightarrow> x \<in> set gone"
    using memdriver_commits_own [of wire_libs "\<lambda>_. True"] by auto
  have "set gone = {(1, ds1)}" using g(1,6) no e ep by auto
  with g(2) have gone: "gone = [(1, ds1)]" by (cases gone) (auto simp: subset_singleton_iff)
  with g(4) no e obtain a c where "started = [a]" "w_heap w' a = Some c" "c = CopyToCtx (?st ''a'') StateCtx0"
    by (auto simp: list_all2_Cons2)
  moreover have "w_spawned (delayed_world 2) = []" by (simp add: delayed_world_def demo_world_def)
  ultimately show ?thesis unfolding Let_def ds1_def [symmetric] ds2_def [symmetric] using u g(3,5) gone
    by (intro exI [of _ d'] exI [of _ w'] exI [of _ a] exI [of _ c]) simp
qed

text \<open>
  Delayed states whose state has moved on never leave the map. When every entry is not due yet
  or stale, its state having got another revision since, a tick changes neither the delayer nor
  the driver and starts nothing; and once there are more than a thousand entries no query reads
  the driver any more: the delayer is stuck for good.
\<close>

lemma delayer_stuck:
  fixes lb :: "'c libs"
  assumes "engine_ready w"
    and "\<forall>(k, ds) \<in> set (dy_delayedStates d). now < ds_ExecuteAt ds \<or> stale_delayed (world_log w) ds"
    and "1000 < length (dy_delayedStates d)"
  shows "\<exists>w'. updateTail (memdriver_Driver lb pick) lb now d w = (Ok (), d, w')
    \<and> engine_ready w' \<and> world_driver w' = world_driver w \<and> w_spawned w' = w_spawned w
    \<and> queryDelayedStates (Suc n) (memdriver_Driver lb pick) lb since until offset d w' = Some (Ok (0, None), d, w')"
proof -
  have d: "d\<lparr>dy_commitSince := dy_commitSince d, dy_commitOffset := dy_commitOffset d\<rparr> = d" by simp
  from updateTail_loop_stuck [where lb = lb and pick = pick and d = d and cs = "dy_commitSince d" and co = "dy_commitOffset d",
      OF assms(1,2), unfolded d] obtain w' where
    "updateTail_loop (memdriver_Driver lb pick) lb now (dy_delayedStates d) (dy_commitSince d) (dy_commitOffset d) d w
      = (Ok (), d, w')" "engine_ready w'" "w_cache w' = w_cache w" "w_spawned w' = w_spawned w"
    by blast
  then show ?thesis using assms(3)
    by (intro exI [of _ w']) (simp add: updateTail_def world_driver_def queryDelayedStates_def queryDelayedStates_loop.simps(2))
qed

definition moved_on :: "nat \<Rightarrow> DelayedState" where
  "moved_on i = \<lparr>ds_State = (sc_Current demo_ctx)\<lparr>s_Rev := 7\<rparr>, ds_Offset = int i, ds_ExecuteAt = epoch\<rparr>"

lemma delayer_stuck_instance:
  "let d = demo_delayer (map (\<lambda>i. (int i, moved_on i)) [1..<1002])
   in \<exists>w'. updateTail (memdriver_Driver wire_libs (\<lambda>_. True)) wire_libs 5 d (demo_world demo_ctx) = (Ok (), d, w')
     \<and> w_spawned w' = []"
proof -
  let ?d = "demo_delayer (map (\<lambda>i. (int i, moved_on i)) [1..<1002])"
  have "stale_delayed (md_stateLog New) (moved_on 0)" by code_simp
  then have "stale_delayed (md_stateLog New) (moved_on i)" for i
    by (simp add: stale_delayed_def moved_on_def commits_delayed_def)
  then have "\<forall>(k, ds) \<in> set (dy_delayedStates ?d). 5 < ds_ExecuteAt ds \<or> stale_delayed (world_log (demo_world demo_ctx)) ds"
    by (auto simp: demo_delayer_def demo_log)
  moreover have "1000 < length (dy_delayedStates ?d)" by (simp add: demo_delayer_def)
  ultimately obtain w' where "updateTail (memdriver_Driver wire_libs (\<lambda>_. True)) wire_libs 5 ?d (demo_world demo_ctx) = (Ok (), ?d, w')"
    "w_spawned w' = w_spawned (demo_world demo_ctx)"
    using delayer_stuck [OF demo_world_ready [OF demo_ctx_simps(1)], of ?d 5 wire_libs "\<lambda>_. True"] by blast
  moreover have "w_spawned (demo_world demo_ctx) = []" by (simp add: demo_world_def)
  ultimately show ?thesis unfolding Let_def by (intro exI [of _ w']) simp
qed

end
