(* ===== verification/Recovery.thy ===== *)
theory Recovery
  imports Engine
begin

text \<open>
  \<open>recovery.go\<close>: the recoverer follows the log of states, remembers the last state of every id that
  is not parked, and transits and executes again those that have not moved for too long. The
  methods hold the mutex to their end; the time they read is an argument. Durations are
  nanoseconds, \<open>du_String\<close> and \<open>du_Parse\<close> are \<open>Duration.String\<close> and \<open>time.ParseDuration\<close>.
\<close>

record durations =
  du_String :: "int \<Rightarrow> string"
  du_Parse :: "string \<Rightarrow> int option"

definition minute :: int where
  "minute = 60 * 10 ^ 9"

section \<open>The annotations of a state\<close>

definition RecoveryEnabledAnnotation :: string where
  "RecoveryEnabledAnnotation = ''flowstate.recovery.enabled''"

definition DisableRecovery :: "StateCtx \<Rightarrow> StateCtx" where
  "DisableRecovery c = c\<lparr>sc_Current := SetAnnotation (sc_Current c) RecoveryEnabledAnnotation ''false''\<rparr>"

definition recoveryEnabled :: "State \<Rightarrow> bool" where
  "recoveryEnabled s \<longleftrightarrow> gm_str (s_Annotations s) RecoveryEnabledAnnotation \<noteq> ''false''"

definition RecoveryAttemptAnnotation :: string where
  "RecoveryAttemptAnnotation = ''flowstate.recovery.attempt''"

definition RecoveryAttempt :: "State \<Rightarrow> int" where
  "RecoveryAttempt s = fst (Atoi (gm_str (ts_Annotations (s_Transition s)) RecoveryAttemptAnnotation))"

definition setRecoveryAttempt :: "StateCtx \<Rightarrow> int \<Rightarrow> StateCtx" where
  "setRecoveryAttempt c attempt = set_Transition c
    (Transition_SetAnnotation (s_Transition (sc_Current c)) RecoveryAttemptAnnotation (FormatInt attempt))"

definition DefaultMaxRecoveryAttempts :: int where
  "DefaultMaxRecoveryAttempts = 3"

definition MaxRecoveryAttemptsAnnotation :: string where
  "MaxRecoveryAttemptsAnnotation = ''flowstate.recovery.max_attempts''"

definition MaxRecoveryAttempts :: "State \<Rightarrow> int" where
  "MaxRecoveryAttempts s =
    (let attempt = fst (Atoi (gm_str (s_Annotations s) MaxRecoveryAttemptsAnnotation))
     in if attempt \<le> 0 then DefaultMaxRecoveryAttempts else attempt)"

definition SetMaxRecoveryAttempts :: "StateCtx \<Rightarrow> int \<Rightarrow> StateCtx" where
  "SetMaxRecoveryAttempts c attempts =
    c\<lparr>sc_Current := SetAnnotation (sc_Current c) MaxRecoveryAttemptsAnnotation
      (FormatInt (if attempts \<le> 0 then DefaultMaxRecoveryAttempts else attempts))\<rparr>"

definition DefaultRetryAfter :: int where
  "DefaultRetryAfter = 2 * minute"

definition MinRetryAfter :: int where
  "MinRetryAfter = minute"

definition MaxRetryAfter :: int where
  "MaxRetryAfter = 5 * minute"

definition RetryAfterAnnotation :: string where
  "RetryAfterAnnotation = ''flowstate.recovery.retry_after''"

definition clamp_retry :: "int \<Rightarrow> int" where
  "clamp_retry d =
    (let d1 = (if d < MinRetryAfter then MinRetryAfter else d)
     in if d1 > MaxRetryAfter then MaxRetryAfter else d1)"

definition SetRetryAfter :: "durations \<Rightarrow> StateCtx \<Rightarrow> int \<Rightarrow> StateCtx" where
  "SetRetryAfter du c retryAfter =
    c\<lparr>sc_Current := SetAnnotation (sc_Current c) RetryAfterAnnotation (du_String du (clamp_retry retryAfter))\<rparr>"

definition retryAt :: "durations \<Rightarrow> State \<Rightarrow> time" where
  "retryAt du s =
    (let str0 = gm_str (s_Annotations s) RetryAfterAnnotation;
         str = (if str0 = [] then du_String du DefaultRetryAfter else str0)
     in case du_Parse du str of
          None \<Rightarrow> s_CommittedAt s + MinRetryAfter
        | Some retryAfter \<Rightarrow> s_CommittedAt s + clamp_retry retryAfter)"

section \<open>The recoverer\<close>

record retryableState =
  rs_State :: State
  rs_retryAt :: time

text \<open>
  \<open>rc_ctx\<close> is the address of the recovery context, which is never nil. The map \<open>states\<close> is the list
  of its entries, in the order in which a loop visits them; no result depends on that order.
\<close>

record Recoverer =
  rc_ctx :: nat
  rc_active :: bool
  rc_sinceRev :: int
  rc_headRev :: int
  rc_headTime :: time
  rc_tailRev :: int
  rc_tailTime :: time
  rc_states :: "(string \<times> retryableState) list"
  rc_added :: int
  rc_completed :: int
  rc_retried :: int
  rc_dropped :: int
  rc_commited :: int

definition ctx_at :: "'d world \<Rightarrow> nat \<Rightarrow> StateCtx" where
  "ctx_at w a = (case w_heap w a of None \<Rightarrow> StateCtx0 | Some c \<Rightarrow> c)"

definition put_ctx :: "nat \<Rightarrow> StateCtx \<Rightarrow> 'd world \<Rightarrow> 'd world" where
  "put_ctx a c w = w\<lparr>w_heap := (w_heap w)(a \<mapsto> c)\<rparr>"

definition recoveryStateID :: string where
  "recoveryStateID = ''flowstate.recovery.meta''"

definition getRecoverySinceRev :: "StateCtx \<Rightarrow> int" where
  "getRecoverySinceRev c =
    (let sinceRevStr = gm_str (s_Annotations (sc_Current c)) ''flowstate.recovery.since_rev''
     in if sinceRevStr = [] then 0 else fst (ParseInt sinceRevStr))"

definition setRecoverySinceRev :: "StateCtx \<Rightarrow> int \<Rightarrow> StateCtx" where
  "setRecoverySinceRev c sinceRev =
    c\<lparr>sc_Current := SetAnnotation (sc_Current c) ''flowstate.recovery.since_rev'' (FormatInt sinceRev)\<rparr>"

definition nextSinceRev :: "Recoverer \<Rightarrow> int" where
  "nextSinceRev r = (if rc_tailRev r = 0 then 0 else i64 (rc_tailRev r - 1))"

definition reset :: "StateCtx \<Rightarrow> bool \<Rightarrow> Recoverer \<Rightarrow> 'd world \<Rightarrow> Recoverer \<times> 'd world" where
  "reset recoveryStateCtx active r w =
    (let c = StateCtx_CopyTo recoveryStateCtx StateCtx0; since = getRecoverySinceRev c
     in case new_context c w of
          (a, w1) \<Rightarrow> (r\<lparr>rc_active := active, rc_ctx := a, rc_sinceRev := since, rc_headRev := since,
            rc_headTime := zero_time, rc_tailRev := since, rc_tailTime := zero_time, rc_states := []\<rparr>, w1))"

text \<open>The park of a recovery context, with the role it takes.\<close>

definition park_recovery :: "nat \<Rightarrow> string \<Rightarrow> Command" where
  "park_recovery a role = Commit [ParkCmd (Park_WithAnnotation (Park (Some a)) ''state'' role)]"

definition Recoverer0 :: Recoverer where
  "Recoverer0 = \<lparr>rc_ctx = 0, rc_active = False, rc_sinceRev = 0, rc_headRev = 0, rc_headTime = zero_time,
    rc_tailRev = 0, rc_tailTime = zero_time, rc_states = [], rc_added = 0, rc_completed = 0, rc_retried = 0,
    rc_dropped = 0, rc_commited = 0\<rparr>"

text \<open>A mismatch of the first commit makes it a standby; it counts as committed all the same.\<close>

definition NewRecoverer ::
  "'d Driver \<Rightarrow> 'c libs \<Rightarrow> time \<Rightarrow> 'd world \<Rightarrow> Recoverer outcome \<times> 'd world" where
  "NewRecoverer D lb now w =
    (case new_context StateCtx0 w of
       (a, w1) \<Rightarrow>
         (case engine_do D lb now [GetStateByIDCmd (GetStateByID (Some a) recoveryStateID 0)] w1 of
            (Panic p, _, w2) \<Rightarrow> (Panic p, w2)
          | (Ok _, _, w2) \<Rightarrow>
              (case reset (ctx_at w2 a) (Annotation (sc_Current (ctx_at w2 a)) ''state'' \<noteq> ''active'') Recoverer0 w2 of
                 (r, w3) \<Rightarrow> (Ok r, w3))
          | (Err err, _, w2) \<Rightarrow>
              (if \<not> Is_ErrNotFound err then (Err (Errorw ''get recovery state: '' err []), w2)
               else case new_context (setRecoverySinceRev
                   (StateCtx0\<lparr>sc_Current := State0\<lparr>s_ID := recoveryStateID\<rparr>\<rparr>) 0) w2 of
                 (b, w3) \<Rightarrow>
                   (case engine_do D lb now [park_recovery b ''active''] w3 of
                      (Panic p, _, w4) \<Rightarrow> (Panic p, w4)
                    | (Ok _, _, w4) \<Rightarrow>
                        (case reset (ctx_at w4 b) True (Recoverer0\<lparr>rc_commited := 1\<rparr>) w4 of (r, w5) \<Rightarrow> (Ok r, w5))
                    | (Err err2, _, w4) \<Rightarrow>
                        (if IsErrRevMismatch err2 then
                           (case reset (ctx_at w4 b) False (Recoverer0\<lparr>rc_commited := 1\<rparr>) w4 of (r, w5) \<Rightarrow> (Ok r, w5))
                         else (Err (Errorw ''commit recovery state: '' err2 []), w4))))))"

section \<open>Following the log\<close>

definition head_state :: "durations \<Rightarrow> State \<Rightarrow> Recoverer \<Rightarrow> 'd world \<Rightarrow> Recoverer \<times> 'd world" where
  "head_state du state r0 w =
    (let r = r0\<lparr>rc_sinceRev := s_Rev state\<rparr>
     in if s_ID state = recoveryStateID then
          (let w1 = put_ctx (rc_ctx r) (CopyToCtx state (ctx_at w (rc_ctx r))) w;
               c = ctx_at w1 (rc_ctx r)
           in if s_Rev state > s_Rev (sc_Committed c)
              then reset c (Annotation state ''state'' \<noteq> ''active'') r w1
              else (r, w1))
        else if \<not> recoveryEnabled state then (r, w)
        else let r1 = r\<lparr>rc_headRev := s_Rev state, rc_headTime := s_CommittedAt state\<rparr>;
                 r2 = (if rc_states r1 = [] then r1\<lparr>rc_tailRev := rc_headRev r1, rc_tailTime := rc_headTime r1\<rparr> else r1)
             in if \<not> rc_active r2 then (r2, w)
                else if Parked state then
                  (r2\<lparr>rc_states := AList.delete (s_ID state) (rc_states r2), rc_completed := i64 (rc_completed r2 + 1)\<rparr>, w)
                else (r2\<lparr>rc_states := AList.update (s_ID state)
                    \<lparr>rs_State = State_CopyTo state State0, rs_retryAt = retryAt du state\<rparr> (rc_states r2),
                  rc_added := i64 (rc_added r2 + 1)\<rparr>, w))"

fun head_states :: "durations \<Rightarrow> State list \<Rightarrow> Recoverer \<Rightarrow> 'd world \<Rightarrow> Recoverer \<times> 'd world" where
  "head_states du [] r w = (r, w)"
| "head_states du (state # states) r w =
    (case head_state du state r w of (r1, w1) \<Rightarrow> head_states du states r1 w1)"

text \<open>The command that comes back from \<open>Do\<close>, with its result.\<close>

fun states_result :: "Command list \<Rightarrow> GetStatesResult outcome" where
  "states_result (GetStatesCmd cmd # _) = GetStates_MustResult cmd"
| "states_result _ = nil_deref"

text \<open>The result is \<open>None\<close> when the fuel, one unit per page, is used up.\<close>

fun doUpdateHead_loop ::
  "nat \<Rightarrow> durations \<Rightarrow> 'd Driver \<Rightarrow> 'c libs \<Rightarrow> int \<Rightarrow> bool \<Rightarrow> Recoverer \<Rightarrow> 'd world
    \<Rightarrow> (unit outcome \<times> Recoverer \<times> 'd world) option" where
  "doUpdateHead_loop 0 du D lb dur first r w = None"
| "doUpdateHead_loop (Suc n) du D lb dur first r w =
    (case engine_do D lb 0 [GetStatesCmd (WithSinceRev (GetStatesByLabels None) (rc_sinceRev r))] w of
       (Err err, _, w1) \<Rightarrow>
         Some (Err (Errorw ''get many states: '' err (''; since_rev='' @ FormatInt (rc_sinceRev r))), r, w1)
     | (Panic p, _, w1) \<Rightarrow> Some (Panic p, r, w1)
     | (Ok _, cmds, w1) \<Rightarrow>
         (case states_result cmds of
            Err err \<Rightarrow> Some (Err err, r, w1)
          | Panic p \<Rightarrow> Some (Panic p, r, w1)
          | Ok res \<Rightarrow>
              (case head_states du (gsr_States res) r w1 of
                 (r1, w2) \<Rightarrow>
                   (let idle = (first \<and> rc_completed r1 = rc_completed r \<and> rc_added r1 = rc_added r);
                        r2 = (if idle then r1\<lparr>rc_headTime := rc_headTime r1 + dur\<rparr> else r1);
                        r3 = (if idle \<and> rc_states r2 = []
                              then r2\<lparr>rc_tailRev := rc_headRev r2, rc_tailTime := rc_headTime r2\<rparr> else r2)
                    in if idle \<and> gsr_States res = [] then Some (Ok (), r3, w2)
                       else if gsr_More res then doUpdateHead_loop n du D lb dur False r3 w2
                       else Some (Ok (), r3, w2)))))"

definition doUpdateHead ::
  "nat \<Rightarrow> durations \<Rightarrow> 'd Driver \<Rightarrow> 'c libs \<Rightarrow> int \<Rightarrow> Recoverer \<Rightarrow> 'd world
    \<Rightarrow> (unit outcome \<times> Recoverer \<times> 'd world) option" where
  "doUpdateHead n du D lb dur r w = doUpdateHead_loop n du D lb dur True r w"


section \<open>Retrying\<close>

text \<open>The states that are due leave the map before any of them is handled.\<close>

definition due_states :: "Recoverer \<Rightarrow> State list" where
  "due_states r = map (\<lambda>(_, rs). State_CopyTo (rs_State rs) State0)
    (filter (\<lambda>(_, rs). \<not> rs_retryAt rs > rc_headTime r) (rc_states r))"

definition drop_due :: "Recoverer \<Rightarrow> Recoverer" where
  "drop_due r = r\<lparr>rc_states := filter (\<lambda>(_, rs). rs_retryAt rs > rc_headTime r) (rc_states r)\<rparr>"

fun retry_loop :: "'d Driver \<Rightarrow> 'c libs \<Rightarrow> State list \<Rightarrow> Recoverer \<Rightarrow> 'd world \<Rightarrow> unit outcome \<times> Recoverer \<times> 'd world" where
  "retry_loop D lb [] r w = (Ok (), r, w)"
| "retry_loop D lb (state # states) r w =
    (let maxAttempts = MaxRecoveryAttempts state;
         attempt = i64 (RecoveryAttempt state + 1)
     in case new_context (setRecoveryAttempt (CopyToCtx state StateCtx0) attempt) w of
       (a, w1) \<Rightarrow>
         (if attempt > maxAttempts then
            (case engine_do D lb 0 [Commit [ParkCmd (Park (Some a))]] w1 of
               (Ok _, _, w2) \<Rightarrow> retry_loop D lb states (r\<lparr>rc_dropped := i64 (rc_dropped r + 1)\<rparr>) w2
             | (Panic p, _, w2) \<Rightarrow> (Panic p, r, w2)
             | (Err err, _, w2) \<Rightarrow>
                 (if IsErrRevMismatch err then retry_loop D lb states r w2
                  else (Err (Errorf (''commit state '' @ s_ID state @ '':'' @ FormatInt (s_Rev state) @
                    '' reached max retry attempts '' @ FormatInt maxAttempts @ '' and forcfully ended: '' @ error_text err)), r, w2)))
          else
            (let ts = s_Transition (sc_Current (ctx_at w1 a));
                 transitCmd = Transit_WithAnnotations (Transit (Some a) (ts_To ts)) (ts_Annotations ts)
             in case engine_do D lb 0 [Commit [TransitCmd transitCmd], ExecuteCmd (Execute (Some a))] w1 of
                  (Ok _, _, w2) \<Rightarrow> retry_loop D lb states (r\<lparr>rc_retried := i64 (rc_retried r + 1)\<rparr>) w2
                | (Panic p, _, w2) \<Rightarrow> (Panic p, r, w2)
                | (Err err, _, w2) \<Rightarrow>
                    (if IsErrRevMismatch err then retry_loop D lb states r w2
                     else (Err (Errorf (''commit state '' @ s_ID state @ '':'' @ FormatInt (s_Rev state) @
                       '' recovery attempt '' @ FormatInt attempt @ '': '' @ error_text err)), r, w2)))))"

definition doRetry :: "'d Driver \<Rightarrow> 'c libs \<Rightarrow> Recoverer \<Rightarrow> 'd world \<Rightarrow> unit outcome \<times> Recoverer \<times> 'd world" where
  "doRetry D lb r w = (if rc_states r = [] then (Ok (), r, w) else retry_loop D lb (due_states r) (drop_due r) w)"

section \<open>Moving the tail\<close>

fun tail_of :: "(string \<times> retryableState) list \<Rightarrow> int \<Rightarrow> time \<Rightarrow> int \<times> time" where
  "tail_of [] tailRev tailTime = (tailRev, tailTime)"
| "tail_of ((_, rs) # rest) tailRev tailTime =
    (if s_Rev (rs_State rs) < tailRev then tail_of rest (s_Rev (rs_State rs)) (s_CommittedAt (rs_State rs))
     else tail_of rest tailRev tailTime)"

text \<open>A standby takes over when the active recoverer has paused or has not committed for long.\<close>

definition standby_tail ::
  "'d Driver \<Rightarrow> 'c libs \<Rightarrow> time \<Rightarrow> Recoverer \<Rightarrow> 'd world \<Rightarrow> unit outcome \<times> Recoverer \<times> 'd world" where
  "standby_tail D lb now r w =
    (let c = ctx_at w (rc_ctx r)
     in if (s_CommittedAt (sc_Committed c) + (MaxRetryAfter + minute) < now \<and> nextSinceRev r > getRecoverySinceRev c)
           \<or> Annotation (sc_Current c) ''state'' = ''inactive'' then
          (case new_context (StateCtx_CopyTo c StateCtx0) w of
             (b, w1) \<Rightarrow>
               (case engine_do D lb 0 [park_recovery (rc_ctx r) ''active''] w1 of
                  (Panic p, _, w2) \<Rightarrow> (Panic p, r, w2)
                | (Err err, _, w2) \<Rightarrow>
                    (if IsErrRevMismatch err then
                       (case reset (ctx_at w2 (rc_ctx r)) False r w2 of (r1, w3) \<Rightarrow> (Ok (), r1, w3))
                     else (Err (Errorw ''commit recovery state: '' err []), r, w2))
                | (Ok _, _, w2) \<Rightarrow>
                    (let w3 = put_ctx (rc_ctx r) (StateCtx_CopyTo (ctx_at w2 b) (ctx_at w2 (rc_ctx r))) w2
                     in case reset (ctx_at w3 (rc_ctx r)) True (r\<lparr>rc_commited := i64 (rc_commited r + 1)\<rparr>) w3 of
                          (r1, w4) \<Rightarrow> (Ok (), r1, w4))))
        else (Ok (), r, w))"

definition active_tail ::
  "'d Driver \<Rightarrow> 'c libs \<Rightarrow> time \<Rightarrow> Recoverer \<Rightarrow> 'd world \<Rightarrow> unit outcome \<times> Recoverer \<times> 'd world" where
  "active_tail D lb now r0 w0 =
    (case doRetry D lb r0 w0 of
       (Err err, r, w) \<Rightarrow> (Err (Errorw ''do retry: '' err []), r, w)
     | (Panic p, r, w) \<Rightarrow> (Panic p, r, w)
     | (Ok _, r, w) \<Rightarrow>
         (case tail_of (rc_states r) (rc_headRev r) zero_time of
            (tailRev, tailTime) \<Rightarrow>
              (let r1 = r\<lparr>rc_tailRev := tailRev, rc_tailTime := tailTime\<rparr>; c = ctx_at w (rc_ctx r1)
               in if rc_tailRev r1 > i64 (getRecoverySinceRev c + 1000)
                     \<or> (s_CommittedAt (sc_Committed c) + MaxRetryAfter < now \<and> nextSinceRev r1 > getRecoverySinceRev c) then
                    (case new_context (setRecoverySinceRev (StateCtx_CopyTo c StateCtx0) (nextSinceRev r1)) w of
                       (b, w1) \<Rightarrow>
                         (case engine_do D lb 0 [park_recovery b ''active''] w1 of
                            (Panic p, _, w2) \<Rightarrow> (Panic p, r1, w2)
                          | (Err err, _, w2) \<Rightarrow>
                              (if IsErrRevMismatch err then
                                 (case reset (ctx_at w2 (rc_ctx r1)) False r1 w2 of (r2, w3) \<Rightarrow> (Ok (), r2, w3))
                               else (Err (Errorw ''commit recovery state: '' err []), r1, w2))
                          | (Ok _, _, w2) \<Rightarrow>
                              (Ok (), r1\<lparr>rc_commited := i64 (rc_commited r1 + 1)\<rparr>,
                                put_ctx (rc_ctx r1) (StateCtx_CopyTo (ctx_at w2 b) (ctx_at w2 (rc_ctx r1))) w2)))
                  else (Ok (), r1, w))))"

definition doUpdateTail ::
  "'d Driver \<Rightarrow> 'c libs \<Rightarrow> time \<Rightarrow> Recoverer \<Rightarrow> 'd world \<Rightarrow> unit outcome \<times> Recoverer \<times> 'd world" where
  "doUpdateTail D lb now r w = (if \<not> rc_active r then standby_tail D lb now r w else active_tail D lb now r w)"

section \<open>Stopping\<close>

text \<open>What \<open>Shutdown\<close> does once both loops have ended.\<close>

definition Recoverer_Shutdown ::
  "'d Driver \<Rightarrow> 'c libs \<Rightarrow> Recoverer \<Rightarrow> 'd world \<Rightarrow> unit outcome \<times> Recoverer \<times> 'd world" where
  "Recoverer_Shutdown D lb r w =
    (let w1 = put_ctx (rc_ctx r) (setRecoverySinceRev (ctx_at w (rc_ctx r)) (nextSinceRev r)) w
     in case engine_do D lb 0 [park_recovery (rc_ctx r) ''inactive''] w1 of
          (Panic p, _, w2) \<Rightarrow> (Panic p, r, w2)
        | (Err err, _, w2) \<Rightarrow>
            (if IsErrRevMismatch err then (Ok (), r, w2)
             else (Err (Errorw ''commit: pause recovery state: '' err []), r, w2))
        | (Ok _, _, w2) \<Rightarrow>
            (case reset (ctx_at w2 (rc_ctx r)) False r w2 of (r1, w3) \<Rightarrow> (Ok (), r1, w3)))"

record RecovererStats =
  st_HeadRev :: int
  st_HeadTime :: time
  st_TailRev :: int
  st_TailTime :: time
  st_Commited :: int
  st_Added :: int
  st_Completed :: int
  st_Retried :: int
  st_Dropped :: int
  st_Active :: bool

definition Stats :: "Recoverer \<Rightarrow> RecovererStats" where
  "Stats r = \<lparr>st_HeadRev = rc_headRev r, st_HeadTime = rc_headTime r, st_TailRev = rc_tailRev r,
    st_TailTime = rc_tailTime r, st_Commited = rc_commited r, st_Added = rc_added r,
    st_Completed = rc_completed r, st_Retried = rc_retried r, st_Dropped = rc_dropped r, st_Active = rc_active r\<rparr>"

end
