(* ===== verification/RecoveryProps.thy ===== *)
theory RecoveryProps
  imports Recovery EngineProps
begin

text \<open>
  The recoverer: what it remembers of the log it follows, that a due state is transited again or
  parked once its attempts are used up, what an error in the middle forgets, and what a standby
  is left with when it takes over.
\<close>

section \<open>Following the log\<close>

definition watched :: "string \<Rightarrow> State \<Rightarrow> bool" where
  "watched sid s \<longleftrightarrow> s_ID s = sid \<and> recoveryEnabled s"

definition remembered :: "durations \<Rightarrow> State \<Rightarrow> retryableState option" where
  "remembered du s = (if Parked s then None else Some \<lparr>rs_State = State_CopyTo s State0, rs_retryAt = retryAt du s\<rparr>)"

text \<open>The revision just copied into the context is never greater than the one in it.\<close>

lemma head_state_meta:
  assumes "0 < s_Rev s" "s_ID s = recoveryStateID"
  shows "\<exists>w'. head_state du s r w = (r\<lparr>rc_sinceRev := s_Rev s\<rparr>, w')"
  using assms by (simp add: head_state_def Let_def put_ctx_def ctx_at_def)

lemma head_state_keeps:
  assumes "0 < s_Rev s" "rc_active r" "head_state du s r w = (r', w')"
  shows "rc_active r' \<and> rc_sinceRev r' = s_Rev s
    \<and> (sid \<noteq> recoveryStateID \<longrightarrow> map_of (rc_states r') sid =
        (if watched sid s then remembered du s else map_of (rc_states r) sid))"
proof (cases "s_ID s = recoveryStateID")
  case True
  with head_state_meta [OF assms(1) True, of du r w] assms(2,3) show ?thesis
    by (auto simp: watched_def)
next
  case False
  with assms(2,3) show ?thesis
    by (auto simp: head_state_def Let_def watched_def remembered_def AList.delete_conv' update_conv' split: if_splits)
qed

lemma head_states_track:
  assumes "\<forall>s \<in> set ss. 0 < s_Rev s" "rc_active r" "head_states du ss r w = (r', w')"
  shows "rc_active r' \<and> rc_sinceRev r' = (if ss = [] then rc_sinceRev r else s_Rev (last ss))
    \<and> (sid \<noteq> recoveryStateID \<longrightarrow> map_of (rc_states r') sid =
        (case find (watched sid) (rev ss) of None \<Rightarrow> map_of (rc_states r) sid | Some s \<Rightarrow> remembered du s))"
  using assms
proof (induction ss arbitrary: r w)
  case (Cons s ss)
  obtain r1 w1 where s: "head_state du s r w = (r1, w1)" by fastforce
  note k = head_state_keeps [OF _ Cons.prems(2) s, of sid]
  have "find (watched sid) (rev (s # ss)) = (case find (watched sid) (rev ss) of None \<Rightarrow>
      (if watched sid s then Some s else None) | Some x \<Rightarrow> Some x)"
    by (induction ss rule: rev_induct) auto
  with Cons.IH [of r1 w1] Cons.prems s k show ?case by (auto split: option.splits)
qed simp

section \<open>Retrying\<close>

definition next_attempt :: "State \<Rightarrow> int" where
  "next_attempt s = i64 (RecoveryAttempt s + 1)"

definition exhausted :: "State \<Rightarrow> bool" where
  "exhausted s \<longleftrightarrow> next_attempt s > MaxRecoveryAttempts s"

definition retry_ctx :: "State \<Rightarrow> StateCtx" where
  "retry_ctx s = setRecoveryAttempt (CopyToCtx s StateCtx0) (next_attempt s)"

text \<open>The commit that handles a due state, whose context is at \<open>a\<close>.\<close>

definition retry_write :: "State \<Rightarrow> nat \<Rightarrow> Command" where
  "retry_write s a =
    (if exhausted s then ParkCmd (Park (Some a))
     else TransitCmd (Transit_WithAnnotations (Transit (Some a) (ts_To (s_Transition (sc_Current (retry_ctx s)))))
       (ts_Annotations (s_Transition (sc_Current (retry_ctx s))))))"

definition retry_cmds :: "State \<Rightarrow> nat \<Rightarrow> Command list" where
  "retry_cmds s a = Commit [retry_write s a] # (if exhausted s then [] else [ExecuteCmd (Execute (Some a))])"

definition count_retry :: "State \<Rightarrow> Recoverer \<Rightarrow> Recoverer" where
  "count_retry s r = (if exhausted s then r\<lparr>rc_dropped := i64 (rc_dropped r + 1)\<rparr>
    else r\<lparr>rc_retried := i64 (rc_retried r + 1)\<rparr>)"

lemma count_retry_simps [simp]:
  "rc_states (count_retry s r) = rc_states r" "rc_headTime (count_retry s r) = rc_headTime r"
  by (simp_all add: count_retry_def)

lemma retry_loop_Ok:
  assumes "engine_do D lb 0 (retry_cmds s (w_next w)) (snd (new_context (retry_ctx s) w)) = (Ok u, cs, w2)"
  shows "retry_loop D lb (s # ss) r w = retry_loop D lb ss (count_retry s r) w2"
  using assms
  by (auto simp: Let_def new_context_def retry_cmds_def retry_write_def retry_ctx_def count_retry_def
      exhausted_def next_attempt_def ctx_at_def)

lemma retry_loop_Err:
  assumes "engine_do D lb 0 (retry_cmds s (w_next w)) (snd (new_context (retry_ctx s) w)) = (Err err, cs, w2)"
    and "\<not> IsErrRevMismatch err"
  shows "\<exists>err'. retry_loop D lb (s # ss) r w = (Err err', r, w2)"
  using assms
  by (auto simp: Let_def new_context_def retry_cmds_def retry_write_def retry_ctx_def
      exhausted_def next_attempt_def ctx_at_def)

declare retry_loop.simps(2) [simp del]


text \<open>The commit of a due state that is the latest of its id.\<close>

definition retryable :: "stateLog \<Rightarrow> State \<Rightarrow> bool" where
  "retryable l s \<longleftrightarrow> 0 < s_Rev s \<and> s_ID s \<noteq> [] \<and> s_Rev s = snd (GetLatestByID l (s_ID s))
    \<and> ts_To (s_Transition s) \<noteq> [] \<and> wf_State s"

lemma retry_ctx_simps [simp]:
  "s_ID (sc_Current (retry_ctx s)) = s_ID s" "s_Rev (sc_Current (retry_ctx s)) = s_Rev s"
  "0 < s_Rev s \<Longrightarrow> s_Rev (sc_Committed (retry_ctx s)) = s_Rev s"
  "ts_To (s_Transition (sc_Current (retry_ctx s))) = ts_To (s_Transition s)"
  "gm_lookup (ts_Annotations (s_Transition (sc_Current (retry_ctx s)))) RecoveryAttemptAnnotation
    = Some (FormatInt (next_attempt s))"
  "sc_Datas (retry_ctx s) = None"
  by (simp_all add: retry_ctx_def setRecoveryAttempt_def Transition_SetAnnotation_def set_Transition_def)

lemma wf_retry_ctx [simp]: "wf_StateCtx (retry_ctx s)"
  by (simp add: retry_ctx_def setRecoveryAttempt_def Transition_SetAnnotation_def wf_Transition_def)

lemma retry_write_simps:
  assumes "ts_To (s_Transition s) \<noteq> []"
  shows "one_write (retry_write s a) a"
    and "ts_To (write_to (retry_write s a)) = (if exhausted s then [] else ts_To (s_Transition s))"
    and "\<not> exhausted s \<Longrightarrow> gm_lookup (ts_Annotations (write_to (retry_write s a))) RecoveryAttemptAnnotation
      = Some (FormatInt (next_attempt s))"
proof -
  have "gm_wf (ts_Annotations (s_Transition (sc_Current (retry_ctx s))))" by simp
  then show "\<not> exhausted s \<Longrightarrow> gm_lookup (ts_Annotations (write_to (retry_write s a))) RecoveryAttemptAnnotation
      = Some (FormatInt (next_attempt s))"
    by (simp add: retry_write_def Transit_def gm_lookup_merge)
qed (use assms in \<open>simp_all add: retry_write_def Transit_def Park_def\<close>)

lemma RecoveryAttempt_lookup:
  "gm_lookup (ts_Annotations (s_Transition s)) RecoveryAttemptAnnotation = Some (FormatInt n) \<Longrightarrow> in_i64 n
    \<Longrightarrow> RecoveryAttempt s = n"
  by (simp add: RecoveryAttempt_def gm_str_def)

lemma retry_step:
  fixes lb :: "'c libs"
  assumes "engine_ready w" "retryable (world_log w) s" "room (world_log w) (Suc (Suc n))"
  shows "\<exists>cs w2 e. engine_do (memdriver_Driver lb pick) lb 0 (retry_cmds s (w_next w)) (snd (new_context (retry_ctx s) w))
      = (Ok (), cs, w2) \<and> engine_ready w2 \<and> room (world_log w2) (Suc n)
    \<and> sl_entries (world_log w2) = sl_entries (world_log w) @ [e] \<and> entry_ID e = s_ID s
    \<and> ts_To (s_Transition (sc_Committed e)) = (if exhausted s then [] else ts_To (s_Transition s))
    \<and> (\<not> exhausted s \<longrightarrow> RecoveryAttempt (sc_Committed e) = next_attempt s)
    \<and> length (w_spawned w2) = length (w_spawned w) + (if exhausted s then 0 else 1)"
proof -
  let ?a = "w_next w" and ?w1 = "snd (new_context (retry_ctx s) w)" and ?D = "memdriver_Driver lb pick"
  have w1: "engine_ready ?w1" by (rule engine_ready_alloc [OF assms(1)]) simp
  have l: "latest_ctx (world_log ?w1) (retry_ctx s) (s_ID s)" "ts_To (s_Transition s) \<noteq> []"
    using assms(2) by (simp_all add: retryable_def latest_ctx_def)
  have rm: "room (world_log ?w1) (Suc (Suc n))" using assms(3) by simp
  from doCmd_write [where lb = lb and pick = pick and now = 0 and a = ?a, OF w1 _ retry_write_simps(1) [OF l(2)] l(1) rm]
  obtain w2 e c' where w2: "doCmd ?D lb 0 (CommitCmd [retry_write s ?a]) ?w1 = (Ok (), CommitCmd [retry_write s ?a], w2)"
    "engine_ready w2" "w_heap w2 ?a = Some c'" "sc_Datas c' = None" "room (world_log w2) (Suc n)"
    "sl_entries (world_log w2) = sl_entries (world_log w) @ [e]" "entry_ID e = s_ID s"
    "ts_To (s_Transition (sc_Committed e)) = ts_To (write_to (retry_write s ?a))"
    "\<forall>k v. gm_lookup (ts_Annotations (write_to (retry_write s ?a))) k = Some v
      \<longrightarrow> gm_lookup (ts_Annotations (s_Transition (sc_Committed e))) k = Some v"
    by auto
  have "in_i64 (next_attempt s)" by (simp add: next_attempt_def in_i64_i64)
  then have att: "\<not> exhausted s \<longrightarrow> RecoveryAttempt (sc_Committed e) = next_attempt s"
    using RecoveryAttempt_lookup w2(9) retry_write_simps(3) [OF l(2), of ?a] by blast
  have to: "ts_To (s_Transition (sc_Committed e)) = (if exhausted s then [] else ts_To (s_Transition s))"
    using w2(8) retry_write_simps(2) [OF l(2), of ?a] by simp
  show ?thesis
  proof (cases "exhausted s")
    case True
    have "w_spawned w2 = w_spawned w"
      using Do_commit_frame [of ?D lb 0 "retry_write s ?a" ?w1 "Ok ()" "[CommitCmd [retry_write s ?a]]" w2] w2(1)
      by (simp add: engine_do_def Commit_def)
    with True w2 to att show ?thesis by (auto simp: retry_cmds_def engine_do_def Commit_def)
  next
    case False
    have "wf_StateCtx c'" using w2(2) wf_heap_deref [of "w_heap w2" "Some ?a" c'] w2(3)
      by (simp add: engine_ready_def deref_def)
    from doCmd_execute_spec [OF w2(3) this, of ?D lb 0] w2(4) obtain w3 c3 where
      w3: "doCmd ?D lb 0 (ExecuteCmd (Execute (Some ?a))) w2 = (Ok (), ExecuteCmd (Execute (Some ?a)), w3)"
      "w_spawned w3 = w_spawned w2 @ [w_next w2]" "w_cache w3 = w_cache w2" "w_done w3 = w_done w2"
      "\<forall>b. b \<noteq> w_next w2 \<longrightarrow> w_heap w3 b = w_heap w2 b" "w_heap w3 (w_next w2) = Some c3" "wf_StateCtx c3"
      by auto
    have sp: "w_spawned w2 = w_spawned w"
      using Do_commit_frame [of ?D lb 0 "retry_write s ?a" ?w1 "Ok ()" "[CommitCmd [retry_write s ?a]]" w2] w2(1)
      by (simp add: engine_do_def Commit_def)
    have "wf_heap (w_heap w3)"
      using w2(2) w3(5-7) by (auto simp: engine_ready_def wf_heap_def) (metis option.inject)
    with w2(2) w3(3,4) have "engine_ready w3" by (simp add: engine_ready_def world_driver_def)
    moreover have "world_log w3 = world_log w2" using w3(3) by (simp add: world_log_def world_driver_def)
    ultimately show ?thesis using False w2 w3(1,2) sp to att
      by (auto simp: retry_cmds_def engine_do_def Commit_def)
  qed
qed


lemma GetLatestByID_other:
  "sl_entries l' = sl_entries l @ [e] \<Longrightarrow> entry_ID e \<noteq> sid \<Longrightarrow> GetLatestByID l' sid = GetLatestByID l sid"
  by (simp add: GetLatestByID_def)

text \<open>What the log says of a due state afterwards.\<close>

definition retried_as :: "State \<Rightarrow> StateCtx \<Rightarrow> bool" where
  "retried_as s e \<longleftrightarrow> entry_ID e = s_ID s
    \<and> ts_To (s_Transition (sc_Committed e)) = (if exhausted s then [] else ts_To (s_Transition s))
    \<and> (\<not> exhausted s \<longrightarrow> RecoveryAttempt (sc_Committed e) = next_attempt s)"

lemma retry_loop_all:
  fixes lb :: "'c libs"
  assumes "engine_ready w" "\<forall>s \<in> set ss. retryable (world_log w) s" "distinct (map s_ID ss)"
    and "room (world_log w) (Suc (length ss))"
  shows "\<exists>w' es. retry_loop (memdriver_Driver lb pick) lb ss r w = (Ok (), fold count_retry ss r, w')
    \<and> sl_entries (world_log w') = sl_entries (world_log w) @ es \<and> list_all2 retried_as ss es
    \<and> length (w_spawned w') = length (w_spawned w) + length (filter (\<lambda>s. \<not> exhausted s) ss)"
  using assms
proof (induction ss arbitrary: r w)
  case (Cons s ss)
  from retry_step [where lb = lb and pick = pick, OF Cons.prems(1), of s "length ss"] Cons.prems(2,4) obtain cs w2 e where
    s: "engine_do (memdriver_Driver lb pick) lb 0 (retry_cmds s (w_next w)) (snd (new_context (retry_ctx s) w)) = (Ok (), cs, w2)"
    "engine_ready w2" "room (world_log w2) (Suc (length ss))"
    "sl_entries (world_log w2) = sl_entries (world_log w) @ [e]" "entry_ID e = s_ID s" "retried_as s e"
    "length (w_spawned w2) = length (w_spawned w) + (if exhausted s then 0 else 1)"
    by (auto simp: retried_as_def)
  have "retryable (world_log w2) x" if "x \<in> set ss" for x
  proof -
    have "entry_ID e \<noteq> s_ID x" "retryable (world_log w) x" using that Cons.prems(2,3) s(5) by (auto simp: image_iff)
    then show ?thesis using GetLatestByID_other [OF s(4)] by (simp add: retryable_def)
  qed
  then have "\<forall>x \<in> set ss. retryable (world_log w2) x" by blast
  from Cons.IH [OF s(2) this _ s(3), of "count_retry s r"] Cons.prems(3) obtain w' es where
    "retry_loop (memdriver_Driver lb pick) lb ss (count_retry s r) w2 = (Ok (), fold count_retry ss (count_retry s r), w')"
    "sl_entries (world_log w') = sl_entries (world_log w2) @ es" "list_all2 retried_as ss es"
    "length (w_spawned w') = length (w_spawned w2) + length (filter (\<lambda>s. \<not> exhausted s) ss)" by auto
  with s show ?case
    by (intro exI [of _ w'] exI [of _ "e # es"]) (simp add: retry_loop_Ok [OF s(1)])
qed auto

lemma fold_count_retry [simp]: "rc_states (fold count_retry ss r) = rc_states r"
  by (induction ss arbitrary: r) simp_all

section \<open>Small worlds\<close>

abbreviation demo_driver :: "memdriver Driver" where
  "demo_driver \<equiv> memdriver_Driver wire_libs (\<lambda>_. True)"

definition demo_durations :: durations where
  "demo_durations = \<lparr>du_String = FormatInt,
    du_Parse = (\<lambda>s. case ParseInt s of (n, None) \<Rightarrow> Some n | _ \<Rightarrow> None)\<rparr>"

text \<open>The world after a commit of one command on the context at 0.\<close>

definition after_commit :: "StateCtx \<Rightarrow> Command \<Rightarrow> memdriver world" where
  "after_commit c cmd = snd (snd (doCmd demo_driver wire_libs 0 (CommitCmd [cmd]) (demo_world c)))"

lemma after_commit_ready:
  assumes "one_write cmd 0" "wf_StateCtx c" "latest_ctx (md_stateLog New) c sid"
  shows "\<exists>c' e. engine_ready (after_commit c cmd) \<and> w_heap (after_commit c cmd) 0 = Some c'
    \<and> latest_ctx (world_log (after_commit c cmd)) c' sid \<and> room (world_log (after_commit c cmd)) 5
    \<and> sl_entries (world_log (after_commit c cmd)) = [e] \<and> entry_ID e = sid \<and> entry_Rev e = 1
    \<and> ts_To (s_Transition (sc_Committed e)) = ts_To (write_to cmd)
    \<and> w_next (after_commit c cmd) = 1 \<and> w_heap (after_commit c cmd) 1 = None"
proof -
  have w: "w_heap (demo_world c) 0 = Some c" "w_heap (demo_world c) 1 = None" "w_next (demo_world c) = 1"
    by (simp_all add: demo_world_def)
  have "room (md_stateLog New) (Suc (Suc 5))" by code_simp
  with doCmd_write [where lb = wire_libs and pick = "\<lambda>_. True" and now = 0 and n = 5,
      OF demo_world_ready [OF assms(2)] w(1) assms(1), of sid] assms(3)
  obtain w' c' e where w': "doCmd demo_driver wire_libs 0 (CommitCmd [cmd]) (demo_world c) = (Ok (), CommitCmd [cmd], w')"
    "engine_ready w'" "w_heap w' 0 = Some c'" "latest_ctx (world_log w') c' sid" "\<forall>b. b \<noteq> 0 \<longrightarrow> w_heap w' b = w_heap (demo_world c) b"
    "sl_entries (world_log w') = [e]" "entry_ID e = sid" "entry_Rev e = 1"
    "ts_To (s_Transition (sc_Committed e)) = ts_To (write_to cmd)" "room (world_log w') 6"
    by (auto simp: demo_log New_def)
  have "w_next w' = 1"
    using Do_commit_frame [of demo_driver wire_libs 0 cmd "demo_world c" "Ok ()" "[CommitCmd [cmd]]" w'] w'(1) w(3)
    by (simp add: engine_do_def Commit_def)
  moreover have "after_commit c cmd = w'" using w'(1) by (simp add: after_commit_def)
  moreover have "room (world_log w') 5" using w'(10) by (simp add: room_def)
  ultimately show ?thesis using w' w(2) by auto
qed

section \<open>Properties\<close>

text \<open>
  C37: the recoverer remembers what has to be retried. An active recoverer that follows the states
  \<open>ss\<close> of the log, whatever they are, remembers under an id the last state of the id that has
  recovery enabled, with its retry time, unless that state is parked; it stays active even when
  the recovery state of another recoverer is among them, and goes on after the last of them.
\<close>

theorem head_states_remember:
  assumes "\<forall>s \<in> set ss. 0 < s_Rev s" "rc_active r" "head_states du ss r w = (r', w')" "sid \<noteq> recoveryStateID"
  shows "rc_active r' \<and> rc_sinceRev r' = (if ss = [] then rc_sinceRev r else s_Rev (last ss))
    \<and> map_of (rc_states r') sid = (case find (\<lambda>s. s_ID s = sid \<and> recoveryEnabled s) (rev ss) of
         None \<Rightarrow> map_of (rc_states r) sid
       | Some s \<Rightarrow> if Parked s then None else Some \<lparr>rs_State = State_CopyTo s State0, rs_retryAt = retryAt du s\<rparr>)"
proof -
  have "watched sid = (\<lambda>s. s_ID s = sid \<and> recoveryEnabled s)" by (simp add: watched_def fun_eq_iff)
  with head_states_track [OF assms(1-3), of sid] assms(4) show ?thesis
    by (simp add: remembered_def split: option.splits)
qed

theorem head_states_remember_witness:
  "let s1 = (sc_Current demo_ctx)\<lparr>s_Rev := 1\<rparr>; s2 = s1\<lparr>s_ID := ''b'', s_Rev := 2\<rparr>; s3 = State0\<lparr>s_ID := ''b'', s_Rev := 3\<rparr>;
     (r', w') = head_states demo_durations [s1, s2, s3] (Recoverer0\<lparr>rc_active := True\<rparr>) (demo_world demo_ctx)
   in rc_active r' \<and> rc_sinceRev r' = 3 \<and> map_of (rc_states r') ''b'' = None
     \<and> map_option rs_State (map_of (rc_states r') ''a'') = Some (State_CopyTo s1 State0)"
proof -
  let ?s1 = "(sc_Current demo_ctx)\<lparr>s_Rev := 1\<rparr>" and ?s3 = "State0\<lparr>s_ID := ''b'', s_Rev := 3\<rparr>"
  let ?ss = "[?s1, ?s1\<lparr>s_ID := ''b'', s_Rev := 2\<rparr>, ?s3]"
  obtain r' w' where h: "head_states demo_durations ?ss (Recoverer0\<lparr>rc_active := True\<rparr>) (demo_world demo_ctx) = (r', w')"
    by fastforce
  have p: "recoveryEnabled ?s1" "recoveryEnabled ?s3" "\<not> Parked ?s1" "Parked ?s3" "s_ID ?s1 = ''a''" "rc_active (Recoverer0\<lparr>rc_active := True\<rparr>)"
    "''a'' \<noteq> recoveryStateID" "''b'' \<noteq> recoveryStateID" "\<forall>s \<in> set ?ss. 0 < s_Rev s" by code_simp+
  show ?thesis
    using head_states_remember [OF p(9,6) h p(7)] head_states_remember [OF p(9,6) h p(8)] p h
    by (simp add: Let_def)
qed

text \<open>
  C38: every due state is retried or given up, once. Over the in-memory driver behind the cache,
  let the due states be the latest of their ids and not parked. \<open>doRetry\<close> succeeds, keeps exactly
  the states that are not due, and the log has got one revision of each due state, that is of each
  remembered state whose time is not after the head's, in their order: a transit to the same flow with the attempt counted one up, or a park when the attempts
  are used up; one goroutine per state that was not given up.
\<close>

theorem doRetry_handles_due:
  fixes lb :: "'c libs"
  assumes "engine_ready w" "\<forall>s \<in> set (due_states r). retryable (world_log w) s" "distinct (map s_ID (due_states r))"
    and "room (world_log w) (Suc (length (due_states r)))"
  shows "\<exists>r' w' es. doRetry (memdriver_Driver lb pick) lb r w = (Ok (), r', w')
    \<and> rc_states r' = filter (\<lambda>(_, rs). rc_headTime r < rs_retryAt rs) (rc_states r)
    \<and> sl_entries (world_log w') = sl_entries (world_log w) @ es
    \<and> map entry_ID es = map (\<lambda>(_, rs). s_ID (rs_State rs)) (filter (\<lambda>(_, rs). \<not> rc_headTime r < rs_retryAt rs) (rc_states r))
    \<and> list_all2 (\<lambda>s e. entry_ID e = s_ID s \<and> (if exhausted s then Parked (sc_Committed e)
         else ts_To (s_Transition (sc_Committed e)) = ts_To (s_Transition s)
           \<and> RecoveryAttempt (sc_Committed e) = next_attempt s)) (due_states r) es
    \<and> length (w_spawned w') = length (w_spawned w) + length (filter (\<lambda>s. \<not> exhausted s) (due_states r))"
proof (cases "rc_states r = []")
  case True
  then show ?thesis by (simp add: doRetry_def due_states_def)
next
  case False
  have mono: "retried_as s e \<Longrightarrow> entry_ID e = s_ID s \<and> (if exhausted s then Parked (sc_Committed e)
         else ts_To (s_Transition (sc_Committed e)) = ts_To (s_Transition s)
           \<and> RecoveryAttempt (sc_Committed e) = next_attempt s)" for s e
    by (auto simp: retried_as_def Parked_def)
  from retry_loop_all [where lb = lb and pick = pick and r = "drop_due r", OF assms] obtain w' es where
    run: "retry_loop (memdriver_Driver lb pick) lb (due_states r) (drop_due r) w
      = (Ok (), fold count_retry (due_states r) (drop_due r), w')"
    "sl_entries (world_log w') = sl_entries (world_log w) @ es" "list_all2 retried_as (due_states r) es"
    "length (w_spawned w') = length (w_spawned w) + length (filter (\<lambda>s. \<not> exhausted s) (due_states r))" by blast
  have "map entry_ID es = map s_ID (due_states r)"
    using run(3) by (induction rule: list_all2_induct) (auto simp: retried_as_def)
  then have "map entry_ID es = map (\<lambda>(_, rs). s_ID (rs_State rs)) (filter (\<lambda>(_, rs). \<not> rc_headTime r < rs_retryAt rs) (rc_states r))"
    by (simp add: due_states_def split_def comp_def)
  with False run list_all2_mono [OF run(3) mono] show ?thesis
    by (intro exI [of _ "fold count_retry (due_states r) (drop_due r)"] exI [of _ w'] exI [of _ es])
      (simp add: doRetry_def drop_due_def)
qed

theorem doRetry_handles_due_witness:
  "\<exists>w r r' w' e1 e2. doRetry demo_driver wire_libs r w = (Ok (), r', w') \<and> rc_states r' = []
    \<and> sl_entries (world_log w') = [e1, e2] \<and> entry_ID e2 = ''a'' \<and> ts_To (s_Transition (sc_Committed e2)) = ''g''
    \<and> RecoveryAttempt (sc_Committed e2) = 1 \<and> length (w_spawned w') = length (w_spawned w) + 1"
proof -
  let ?cmd = "TransitCmd (Transit (Some 0) ''g'')" let ?w = "after_commit demo_ctx ?cmd"
  have "latest_ctx (md_stateLog New) demo_ctx ''a''" by code_simp
  from after_commit_ready [OF _ demo_ctx_simps(1) this, of ?cmd] obtain e where
    w: "engine_ready ?w" "room (world_log ?w) 5" "sl_entries (world_log ?w) = [e]" "entry_ID e = ''a''" "entry_Rev e = 1"
    "ts_To (s_Transition (sc_Committed e)) = ''g''" by (auto simp: Transit_def)
  let ?r = "Recoverer0\<lparr>rc_active := True, rc_headTime := 9, rc_states := [(''a'', \<lparr>rs_State = sc_Committed e, rs_retryAt = 9\<rparr>)]\<rparr>"
  let ?s = "State_CopyTo (sc_Committed e) State0"
  have due: "due_states ?r = [?s]" by (simp add: due_states_def)
  have id: "s_ID ?s = ''a''" "s_Rev ?s = 1" "ts_To (s_Transition ?s) = ''g''"
    using w(4-6) by (simp_all add: entry_ID_def entry_Rev_def)
  have "GetLatestByID (world_log ?w) ''a'' = (Some (StateCtx_CopyTo e StateCtx0), 1)"
    using w(3-5) by (simp add: GetLatestByID_def)
  then have ret: "retryable (world_log ?w) ?s" using id by (simp add: retryable_def)
  have e: "e = hd (sl_entries (world_log ?w))" using w(3) by simp
  have "next_attempt ?s = 1 \<and> \<not> exhausted ?s" unfolding e by code_simp
  with ret have "retryable (world_log ?w) ?s" "next_attempt ?s = 1 \<and> \<not> exhausted ?s" by simp_all
  moreover have "room (world_log ?w) (Suc (length (due_states ?r)))" using w(2) due by (simp add: room_def)
  ultimately have pre: "\<forall>s \<in> set (due_states ?r). retryable (world_log ?w) s" "distinct (map s_ID (due_states ?r))"
    "room (world_log ?w) (Suc (length (due_states ?r)))" "next_attempt ?s = 1 \<and> \<not> exhausted ?s"
    by (simp_all add: due)
  from doRetry_handles_due [where lb = wire_libs and pick = "\<lambda>_. True", OF w(1) pre(1-3), unfolded due]
  obtain r' w' es where run: "doRetry demo_driver wire_libs ?r ?w = (Ok (), r', w')"
    "rc_states r' = filter (\<lambda>(_, rs). rc_headTime ?r < rs_retryAt rs) (rc_states ?r)"
    "sl_entries (world_log w') = sl_entries (world_log ?w) @ es"
    "map entry_ID es = map (\<lambda>(_, rs). s_ID (rs_State rs)) (filter (\<lambda>(_, rs). \<not> rc_headTime ?r < rs_retryAt rs) (rc_states ?r))"
    "list_all2 (\<lambda>s e. entry_ID e = s_ID s \<and> (if exhausted s then Parked (sc_Committed e)
         else ts_To (s_Transition (sc_Committed e)) = ts_To (s_Transition s)
           \<and> RecoveryAttempt (sc_Committed e) = next_attempt s)) [?s] es"
    "length (w_spawned w') = length (w_spawned ?w) + length (filter (\<lambda>s. \<not> exhausted s) [?s])"
    by blast
  then obtain e2 where "es = [e2]" "entry_ID e2 = ''a''" "ts_To (s_Transition (sc_Committed e2)) = ''g''"
    "RecoveryAttempt (sc_Committed e2) = 1" using id pre(4) by (auto simp: list_all2_Cons1)
  moreover have "rc_states r' = []" using run(2) by simp
  ultimately show ?thesis using run(1,3,6) w(3) pre(4)
    by (intro exI [of _ ?w] exI [of _ ?r] exI [of _ r'] exI [of _ w'] exI [of _ e] exI [of _ e2]) simp
qed

text \<open>
  An error in the middle forgets what was due. On any driver, when the commit of the first due
  state fails with anything but a revision mismatch, \<open>doRetry\<close> returns the error at once: no due
  state is remembered any more, and none of the others has been handled.
\<close>

lemma doRetry_error_forgets:
  assumes "due_states r = s # ss"
    and "engine_do D lb 0 (retry_cmds s (w_next w)) (snd (new_context (retry_ctx s) w)) = (Err err, cs, w2)"
    and "\<not> IsErrRevMismatch err"
  shows "\<exists>err' r'. doRetry D lb r w = (Err err', r', w2)
    \<and> (\<forall>(_, rs) \<in> set (rc_states r'). rc_headTime r' < rs_retryAt rs)"
proof -
  have "rc_states r \<noteq> []" using assms(1) by (auto simp: due_states_def)
  with retry_loop_Err [OF assms(2,3), of ss "drop_due r"] assms(1) obtain err' where
    "doRetry D lb r w = (Err err', drop_due r, w2)" by (auto simp: doRetry_def)
  then show ?thesis by (intro exI [of _ err'] exI [of _ "drop_due r"]) (auto simp: drop_due_def)
qed


definition failing_driver :: "memdriver Driver" where
  "failing_driver = demo_driver\<lparr>drv_Commit := (\<lambda>cmds h d. (Err (Errorf ''disk full''), cmds, h, d))\<rparr>"

lemma doRetry_error_forgets_instance:
  "let s = (sc_Current demo_ctx)\<lparr>s_Rev := 1\<rparr>; rs = \<lparr>rs_State = s, rs_retryAt = 0\<rparr>;
     r = Recoverer0\<lparr>rc_active := True, rc_states := [(''a'', rs), (''b'', rs)], rc_headTime := 0\<rparr>
   in \<exists>err' r' w'. doRetry failing_driver wire_libs r (demo_world demo_ctx) = (Err err', r', w')
     \<and> (\<forall>(_, rs) \<in> set (rc_states r'). rc_headTime r' < rs_retryAt rs)"
proof -
  let ?s = "(sc_Current demo_ctx)\<lparr>s_Rev := 1\<rparr>" let ?rs = "\<lparr>rs_State = ?s, rs_retryAt = 0\<rparr>"
  let ?r = "Recoverer0\<lparr>rc_active := True, rc_states := [(''a'', ?rs), (''b'', ?rs)], rc_headTime := 0\<rparr>"
  let ?t = "State_CopyTo ?s State0" let ?w = "demo_world demo_ctx"
  have due: "due_states ?r = ?t # [?t]" by (simp add: due_states_def)
  have "(case engine_do failing_driver wire_libs 0 (retry_cmds ?t (w_next ?w)) (snd (new_context (retry_ctx ?t) ?w)) of
      (Err err, _, _) \<Rightarrow> \<not> IsErrRevMismatch err | _ \<Rightarrow> False)" by code_simp
  then obtain err cs w2 where "engine_do failing_driver wire_libs 0 (retry_cmds ?t (w_next ?w)) (snd (new_context (retry_ctx ?t) ?w))
      = (Err err, cs, w2)" "\<not> IsErrRevMismatch err" by (auto split: prod.splits outcome.splits)
  from doRetry_error_forgets [OF due this] obtain err' r' where
    "doRetry failing_driver wire_libs ?r ?w = (Err err', r', w2)"
    "\<forall>(_, rs) \<in> set (rc_states r'). rc_headTime r' < rs_retryAt rs" by blast
  then show ?thesis unfolding Let_def by blast
qed

text \<open>
  A standby that takes over forgets its own commit. When the active recoverer has paused, the
  standby commits the recovery state as its own, but then copies the context of before the
  commit over the committed one: it is active, the log has its revision, and the context it
  keeps is stale, so that its next commit will be refused unless it has read the log before.
\<close>

lemma takeover_keeps_stale_context:
  fixes lb :: "'c libs"
  assumes "engine_ready w" "\<not> rc_active r" "w_heap w (rc_ctx r) = Some c" "w_heap w (w_next w) = None"
    and "latest_ctx (world_log w) c recoveryStateID" "Annotation (sc_Current c) ''state'' = ''inactive''"
    and "room (world_log w) 2"
  shows "\<exists>r' w' e. doUpdateTail (memdriver_Driver lb pick) lb now r w = (Ok (), r', w') \<and> rc_active r'
    \<and> sl_entries (world_log w') = sl_entries (world_log w) @ [e] \<and> entry_ID e = recoveryStateID
    \<and> stale_ctx (world_log w') (ctx_at w' (rc_ctx r'))"
proof -
  let ?D = "memdriver_Driver lb pick" and ?a = "rc_ctx r" and ?b = "w_next w"
  let ?old = "StateCtx_CopyTo c StateCtx0"
  let ?w1 = "snd (new_context ?old w)" and ?cmd = "ParkCmd (Park_WithAnnotation (Park (Some (rc_ctx r))) ''state'' ''active'')"
  have ab: "?a \<noteq> ?b" using assms(3,4) by auto
  have w1: "engine_ready ?w1" by (rule engine_ready_alloc [OF assms(1)]) simp
  have c1: "w_heap ?w1 ?a = Some c" "w_heap ?w1 ?b = Some ?old" using assms(3) ab by (simp_all add: new_context_def)
  have "one_write ?cmd ?a" by (simp add: Park_WithAnnotation_def Park_def)
  from doCmd_write [where lb = lb and pick = pick and now = 0, OF w1 c1(1) this, of recoveryStateID 0] assms(5,7)
  obtain w2 c2 e where w2: "doCmd ?D lb 0 (CommitCmd [?cmd]) ?w1 = (Ok (), CommitCmd [?cmd], w2)"
    "w_heap w2 ?a = Some c2" "\<forall>b. b \<noteq> ?a \<longrightarrow> w_heap w2 b = w_heap ?w1 b"
    "latest_ctx (world_log w2) c2 recoveryStateID"
    "sl_entries (world_log w2) = sl_entries (world_log w) @ [e]" "entry_ID e = recoveryStateID"
    "entry_Rev e = sl_rev (world_log w) + 1"
    by (auto simp: numeral_2_eq_2)
  have b2: "w_heap w2 ?b = Some ?old" using w2(3) c1(2) ab by simp
  have new: "snd (GetLatestByID (world_log w2) recoveryStateID) = sl_rev (world_log w) + 1"
    using w2(5-7) by (simp add: GetLatestByID_def)
  obtain found old where g: "GetLatestByID (world_log w) recoveryStateID = (found, old)" by fastforce
  have le: "old \<le> sl_rev (world_log w)"
    using g engine_ready_log(3) [OF assms(1)]
    by (cases rule: GetLatestByID_cases) (auto simp: log_ok_def list_all_iff entry_ok_def)
  have do: "engine_do ?D lb 0 [park_recovery ?a ''active''] ?w1 = (Ok (), [CommitCmd [?cmd]], w2)"
    using w2(1) by (simp add: engine_do_def park_recovery_def Commit_def)
  let ?c3 = "StateCtx_CopyTo ?old c2"
  let ?w3 = "put_ctx ?a ?c3 w2"
  have c3: "ctx_at w2 ?a = c2" "ctx_at w2 ?b = ?old" "ctx_at ?w3 ?a = ?c3"
    using w2(2) b2 by (simp_all add: ctx_at_def put_ctx_def)
  obtain r' w' where r': "reset ?c3 True (r\<lparr>rc_commited := i64 (rc_commited r + 1)\<rparr>) ?w3 = (r', w')" by fastforce
  have r'_facts: "rc_active r'" "world_log w' = world_log w2" "ctx_at w' (rc_ctx r') = StateCtx_CopyTo ?c3 StateCtx0"
    using r' by (auto simp: reset_def new_context_def Let_def ctx_at_def put_ctx_def world_log_def world_driver_def)
  have "standby_tail ?D lb now r w = (Ok (), r', w')"
    using assms(3,6) do r' c3 by (simp add: standby_tail_def Let_def ctx_at_def [of w] new_context_def)
  moreover have "stale_ctx (world_log w') (ctx_at w' (rc_ctx r'))"
    using assms(5) new le g by (simp add: stale_ctx_def r'_facts(2,3) latest_ctx_def recoveryStateID_def)
  ultimately show ?thesis using assms(2) r'_facts w2(5,6) by (auto simp: doUpdateTail_def)
qed

lemma takeover_keeps_stale_context_instance:
  "\<exists>w r r' w'. doUpdateTail demo_driver wire_libs 0 r w = (Ok (), r', w') \<and> rc_active r'
    \<and> stale_ctx (world_log w') (ctx_at w' (rc_ctx r'))"
proof -
  let ?cmd = "ParkCmd (Park_WithAnnotation (Park (Some 0)) ''state'' ''inactive'')"
  let ?w = "after_commit (new_ctx recoveryStateID) ?cmd"
  have "one_write ?cmd 0" by (simp add: Park_WithAnnotation_def Park_def)
  moreover have "latest_ctx (md_stateLog New) (new_ctx recoveryStateID) recoveryStateID" by code_simp
  ultimately obtain c' where w: "engine_ready ?w" "w_heap ?w 0 = Some c'" "latest_ctx (world_log ?w) c' recoveryStateID"
    "room (world_log ?w) 5" "w_next ?w = 1" "w_heap ?w 1 = None"
    using after_commit_ready [of ?cmd "new_ctx recoveryStateID" recoveryStateID] wf_new_ctx by blast
  have "c' = the (w_heap ?w 0)" using w(2) by simp
  moreover have "Annotation (sc_Current (the (w_heap ?w 0))) ''state'' = ''inactive''" by code_simp
  ultimately have "Annotation (sc_Current c') ''state'' = ''inactive''" by simp
  moreover have "\<not> rc_active Recoverer0" "rc_ctx Recoverer0 = 0" "room (world_log ?w) 2"
    using w(4) by (simp_all add: Recoverer0_def room_def)
  ultimately obtain r' w' where "doUpdateTail demo_driver wire_libs 0 Recoverer0 ?w = (Ok (), r', w')" "rc_active r'"
    "stale_ctx (world_log w') (ctx_at w' (rc_ctx r'))"
    using takeover_keeps_stale_context [where lb = wire_libs and pick = "\<lambda>_. True" and now = 0, OF w(1), of Recoverer0 c']
      w(2,3,5,6) by auto
  then show ?thesis by blast
qed

end
