(* ===== verification/BadgerKeys.thy ===== *)
theory BadgerKeys
  imports States
begin

text \<open>
  The keys of \<open>badgerdriver/op.go\<close>: \<open>fmt.Sprintf("%020d", ...)\<close>, the keys of the states and of
  the indexes, and that the padded numbers sort as the numbers do, on which every iterator of the
  driver rests.
\<close>

section \<open>Padded decimals\<close>

text \<open>\<open>%020d\<close> pads with zeros to 20 characters, the sign included.\<close>

definition pad0 :: "nat \<Rightarrow> string \<Rightarrow> string" where
  "pad0 n s = replicate (n - length s) CHR ''0'' @ s"

definition fmt_020d :: "int \<Rightarrow> string" where
  "fmt_020d i = (if i < 0 then CHR ''-'' # pad0 19 (dec_nat (nat (- i))) else pad0 20 (dec_nat (nat i)))"

section \<open>Keys\<close>

definition stateKey :: "State \<Rightarrow> string" where
  "stateKey s = ''flowstate.states.'' @ fmt_020d (s_Rev s) @ ''.'' @ s_ID s"

definition latestRevKey :: "string \<Rightarrow> string" where
  "latestRevKey stateID = ''flowstate.index.latest_rev.'' @ stateID"

definition labelIndexPrefix :: "string \<Rightarrow> string \<Rightarrow> string" where
  "labelIndexPrefix labelKey labelVal = ''flowstate.index.labels.'' @ labelKey @ '':'' @ labelVal @ ''.''"

definition labelIndexKey :: "string \<Rightarrow> string \<Rightarrow> int \<Rightarrow> string" where
  "labelIndexKey labelKey labelVal stateRev = labelIndexPrefix labelKey labelVal @ fmt_020d stateRev"

definition revIndexPrefix :: string where
  "revIndexPrefix = ''flowstate.index.rev.''"

definition revIndexKey :: "int \<Rightarrow> string" where
  "revIndexKey stateRev = revIndexPrefix @ fmt_020d stateRev"

definition committedAtIndexPrefix :: string where
  "committedAtIndexPrefix = ''flowstate.index.committed_at.''"

definition committedAtIndexKey :: "time \<Rightarrow> int \<Rightarrow> string" where
  "committedAtIndexKey committedAt stateRev =
    committedAtIndexPrefix @ fmt_020d (UnixMilli committedAt) @ ''.'' @ fmt_020d stateRev"

definition dataBlobKey :: "Data \<Rightarrow> string" where
  "dataBlobKey d = ''flowstate.data.blob.'' @ fmt_020d (d_Rev d)"

definition dataAnnotationsKey :: "Data \<Rightarrow> string" where
  "dataAnnotationsKey d = ''flowstate.data.annotations.'' @ fmt_020d (d_Rev d)"

definition delayedStateKey :: "int \<Rightarrow> int \<Rightarrow> string" where
  "delayedStateKey executeAt offset = ''flowstate.delayed.states.'' @ fmt_020d executeAt @ ''.'' @ fmt_020d offset"

definition delayedStatePrefix :: "time \<Rightarrow> string" where
  "delayedStatePrefix since = ''flowstate.delayed.states.'' @ fmt_020d (Unix since) @ ''.''"

definition delayedOffsetPrefix :: string where
  "delayedOffsetPrefix = ''flowstate.index.delayed_status_offset.''"

definition delayedOffsetKey :: "int \<Rightarrow> string" where
  "delayedOffsetKey offset = delayedOffsetPrefix @ fmt_020d offset"

section \<open>Numbers as digits\<close>

lemma append_less_cancel [simp]: "(p @ x < p @ y) = (x < (y :: 'a :: linorder list))"
  by (induction p) auto

lemma append_le_cancel [simp]: "(p @ x \<le> p @ y) = (x \<le> (y :: 'a :: linorder list))"
  by (induction p) auto

lemma char_less_iff: "c < d \<longleftrightarrow> (of_char c :: nat) < of_char d"
  by (simp add: less_char_def)

lemma undec_bound: "undec a s = Some n \<Longrightarrow> a * 10 ^ length s \<le> n \<and> n < (a + 1) * 10 ^ length s"
proof (induction s arbitrary: a)
  case (Cons c s)
  then obtain d where d: "char_digit c = Some d" "undec (10 * a + d) s = Some n" by (auto split: option.splits)
  then have "d < 10" by (auto simp: char_digit_def Let_def split: if_splits)
  then have "10 * a + d + 1 \<le> 10 * (a + 1)" by simp
  then have "(10 * a + d + 1) * 10 ^ length s \<le> (10 * (a + 1)) * 10 ^ length s" by (rule mult_le_mono1)
  with Cons.IH [OF d(2)] show ?case
    by (auto simp: algebra_simps elim: le_trans [rotated] less_le_trans)
qed simp

text \<open>Digit strings of one length compare as the numbers they write.\<close>

lemma undec_less:
  assumes "undec a s = Some m" "undec a t = Some n" "length s = length t"
  shows "s < t \<longleftrightarrow> m < n"
  using assms
proof (induction s arbitrary: a t)
  case (Cons c s)
  then obtain c' t' where t: "t = c' # t'" by (cases t) auto
  from Cons.prems t obtain d d' where d: "char_digit c = Some d" "undec (10 * a + d) s = Some m"
    "char_digit c' = Some d'" "undec (10 * a + d') t' = Some n" by (auto split: option.splits)
  have dc: "(of_char c :: nat) = 48 + d" "(of_char c' :: nat) = 48 + d'"
    using d(1,3) by (auto simp: char_digit_def Let_def split: if_splits)
  have b: "m < (10 * a + d + 1) * 10 ^ length s" "(10 * a + d') * 10 ^ length s \<le> n"
    "(10 * a + d) * 10 ^ length s \<le> m" "n < (10 * a + d' + 1) * 10 ^ length s"
    using undec_bound [OF d(2)] undec_bound [OF d(4)] Cons.prems(3) t by simp_all
  consider "d < d'" | "d = d'" | "d' < d" by linarith
  then show ?case
  proof cases
    case 1
    then have "(10 * a + d + 1) * 10 ^ length s \<le> (10 * a + d') * 10 ^ length s" by (intro mult_le_mono1) simp
    with b have "m < n" by linarith
    with 1 t dc show ?thesis by (simp add: char_less_iff)
  next
    case 2
    then have "c = c'" using dc by (metis of_char_eq_iff)
    with 2 Cons.IH [OF d(2), of t'] d(4) Cons.prems(3) t show ?thesis by simp
  next
    case 3
    then have "(10 * a + d' + 1) * 10 ^ length s \<le> (10 * a + d) * 10 ^ length s" by (intro mult_le_mono1) simp
    with b have "n < m" by linarith
    with 3 t dc show ?thesis by (auto simp: char_less_iff)
  qed
qed simp

text \<open>A longer key lies right behind the keys it extends.\<close>

lemma less_append: "length s = length t \<Longrightarrow> u \<noteq> [] \<Longrightarrow> s < t @ u \<longleftrightarrow> s \<le> (t :: 'a :: linorder list)"
proof (induction s arbitrary: t)
  case (Cons a s)
  then show ?case by (cases t) auto
qed (cases u; simp)

lemma append_less: "length s = length t \<Longrightarrow> u \<noteq> [] \<Longrightarrow> t @ u < s \<longleftrightarrow> t < (s :: 'a :: linorder list)"
proof (induction s arbitrary: t)
  case (Cons a s)
  then show ?case by (cases t) auto
qed simp

lemma undec_zeros [simp]: "undec 0 (replicate m CHR ''0'' @ s) = undec 0 s"
proof -
  have "char_digit CHR ''0'' = Some 0" by code_simp
  then show ?thesis by (induction m) simp_all
qed

lemma dec_nat_length: "n < 10 ^ k \<Longrightarrow> 0 < k \<Longrightarrow> length (dec_nat n) \<le> k"
proof (induction n arbitrary: k rule: dec_nat.induct)
  case (1 n)
  show ?case
  proof (cases "n < 10")
    case False
    with 1(2) have "k \<noteq> 1" by auto
    with 1(3) obtain j where j: "k = Suc j" "0 < j" by (cases k) auto
    with 1(2) have "n div 10 < 10 ^ j" by auto
    with 1(1) [OF False this j(2)] False j(1) show ?thesis by (subst dec_nat.simps) simp
  qed (use 1(3) in \<open>subst dec_nat.simps, simp\<close>)
qed

text \<open>The numbers that keep their 20 digits: revisions, offsets and times from 1970 on are among them.\<close>

definition keyed :: "int \<Rightarrow> bool" where
  "keyed i \<longleftrightarrow> 0 \<le> i \<and> i < 2 ^ 63"

lemma fmt_020d_keyed:
  assumes "keyed i"
  shows "length (fmt_020d i) = 20" "undec 0 (fmt_020d i) = Some (nat i)" "ParseInt (fmt_020d i) = (i, None)"
    "fmt_020d i \<noteq> []"
proof -
  have "nat i < 10 ^ 20" using assms by (simp add: keyed_def nat_less_iff)
  then show len: "length (fmt_020d i) = 20"
    using dec_nat_length [of "nat i" 20] assms by (simp add: fmt_020d_def pad0_def keyed_def)
  then show ne: "fmt_020d i \<noteq> []" by auto
  show u: "undec 0 (fmt_020d i) = Some (nat i)"
    using assms by (simp add: fmt_020d_def pad0_def keyed_def)
  have "hd (fmt_020d i) \<noteq> CHR ''-''" "hd (fmt_020d i) \<noteq> CHR ''+''"
    using assms dec_nat_hd [of "nat i"]
    by (cases "20 - length (dec_nat (nat i))"; simp add: fmt_020d_def pad0_def keyed_def hd_append)+
  moreover have "nat i < 2 ^ 63" using assms by (simp add: keyed_def nat_less_iff)
  ultimately show "ParseInt (fmt_020d i) = (i, None)"
    using u ne assms by (simp add: ParseInt_def keyed_def Let_def not_le)
qed

lemma fmt_020d_less [simp]: "keyed i \<Longrightarrow> keyed j \<Longrightarrow> fmt_020d i < fmt_020d j \<longleftrightarrow> i < j"
  using undec_less [OF fmt_020d_keyed(2) fmt_020d_keyed(2), of i j] fmt_020d_keyed(1)
  by (auto simp: keyed_def)

lemma fmt_020d_inj [simp]: "keyed i \<Longrightarrow> keyed j \<Longrightarrow> fmt_020d i = fmt_020d j \<longleftrightarrow> i = j"
  by (metis fmt_020d_less less_irrefl not_less_iff_gr_or_eq)

lemma fmt_020d_le [simp]: "keyed i \<Longrightarrow> keyed j \<Longrightarrow> fmt_020d i \<le> fmt_020d j \<longleftrightarrow> i \<le> j"
  by (auto simp: order.order_iff_strict)

text \<open>The keys a reverse iterator seeks, with \<open>0xFF\<close> behind the number.\<close>

lemma fmt_020d_FF:
  assumes "keyed i" "keyed j" "u \<noteq> []"
  shows "fmt_020d i \<le> fmt_020d j @ u \<longleftrightarrow> i \<le> j" "fmt_020d j @ u \<le> fmt_020d i \<longleftrightarrow> j < i"
    "fmt_020d i < fmt_020d j @ u \<longleftrightarrow> i \<le> j" "fmt_020d j @ u < fmt_020d i \<longleftrightarrow> j < i"
proof -
  have len: "length (fmt_020d i) = length (fmt_020d j)" using assms fmt_020d_keyed(1) by simp
  then have ne: "fmt_020d i \<noteq> fmt_020d j @ u" using assms(3) by (metis append_eq_append_conv self_append_conv)
  show "fmt_020d i < fmt_020d j @ u \<longleftrightarrow> i \<le> j" "fmt_020d j @ u < fmt_020d i \<longleftrightarrow> j < i"
    using less_append [OF len assms(3)] append_less [OF len assms(3)] assms by simp_all
  with ne show "fmt_020d i \<le> fmt_020d j @ u \<longleftrightarrow> i \<le> j" "fmt_020d j @ u \<le> fmt_020d i \<longleftrightarrow> j < i"
    by (auto simp: order.order_iff_strict)
qed

section \<open>The order of the keys\<close>

text \<open>Below zero the sign takes one of the 20 characters and the order turns around.\<close>

lemma fmt_020d_negative:
  assumes "keyed i"
  shows "\<exists>s. fmt_020d (- i - 1) = CHR ''-'' # s \<and> length s = 19 \<and> undec 0 s = Some (nat (i + 1))"
proof -
  have "nat (i + 1) < 10 ^ 19" using assms by (simp add: keyed_def nat_less_iff)
  then have "length (pad0 19 (dec_nat (nat (i + 1)))) = 19" using dec_nat_length [of "nat (i + 1)" 19] by (simp add: pad0_def)
  moreover have "undec 0 (pad0 19 (dec_nat (nat (i + 1)))) = Some (nat (i + 1))" by (simp add: pad0_def)
  moreover have "- (- i - 1) = i + 1" by simp
  ultimately show ?thesis using assms by (simp add: fmt_020d_def keyed_def add.commute)
qed

lemma fmt_020d_digit: "keyed i \<Longrightarrow> CHR ''0'' \<le> hd (fmt_020d i)"
proof -
  assume k: "keyed i"
  then obtain c s where c: "fmt_020d i = c # s" using fmt_020d_keyed(4) by (cases "fmt_020d i") auto
  with fmt_020d_keyed(2) [OF k] have "char_digit c \<noteq> None" by (auto split: option.splits)
  then have "48 \<le> (of_char c :: nat)" by (auto simp: char_digit_def Let_def split: if_splits)
  moreover have "(of_char CHR ''0'' :: nat) = 48" by code_simp
  ultimately show ?thesis by (simp add: c less_eq_char_def)
qed

text \<open>
  C26: over the whole range of 64 bits the keys of an index sort as their numbers do as long as
  these are not negative, the number is read back from the key, and a padded number is always 20
  characters long. Negative numbers come before all others but sort the other way round, which
  concerns the index of commit times before 1970.
\<close>

theorem badger_keys_sort:
  assumes "keyed i" "keyed j"
  shows "(labelIndexKey k v i < labelIndexKey k v j \<longleftrightarrow> i < j) \<and> (revIndexKey i < revIndexKey j \<longleftrightarrow> i < j)
    \<and> ParseInt (drop (length revIndexPrefix) (revIndexKey i)) = (i, None)
    \<and> length (fmt_020d i) = 20 \<and> length (fmt_020d (- i - 1)) = 20
    \<and> (fmt_020d (- i - 1) < fmt_020d (- j - 1) \<longleftrightarrow> i < j) \<and> fmt_020d (- i - 1) < fmt_020d j"
proof -
  from fmt_020d_negative [OF assms(1)] obtain s where s: "fmt_020d (- i - 1) = CHR ''-'' # s" "length s = 19" "undec 0 s = Some (nat (i + 1))" by blast
  from fmt_020d_negative [OF assms(2)] obtain t where t: "fmt_020d (- j - 1) = CHR ''-'' # t" "length t = 19" "undec 0 t = Some (nat (j + 1))" by blast
  have "s < t \<longleftrightarrow> i < j" using undec_less [OF s(3) t(3)] s(2) t(2) assms by (auto simp: keyed_def)
  moreover have "CHR ''-'' < hd (fmt_020d j)"
  proof -
    have "CHR ''-'' < CHR ''0''" by code_simp
    with fmt_020d_digit [OF assms(2)] show ?thesis by order
  qed
  then have "fmt_020d (- i - 1) < fmt_020d j" using s(1) fmt_020d_keyed(4) [OF assms(2)] by (cases "fmt_020d j") auto
  ultimately show ?thesis
    using assms s t fmt_020d_keyed(1,3) [OF assms(1)] by (simp add: labelIndexKey_def revIndexKey_def)
qed

theorem badger_keys_sort_witness:
  "labelIndexKey ''k'' ''v'' 9 < labelIndexKey ''k'' ''v'' 10 \<and> fmt_020d (- 10) < fmt_020d (- 11)"
proof -
  have "keyed 9" "keyed 10" by code_simp+
  from badger_keys_sort [OF this] show ?thesis by simp
qed

end
