(* ===== verification/Badger.thy ===== *)
theory Badger
  imports BadgerKeys Protobuf "HOL-Library.Sublist" "HOL-Library.RBT"
begin

text \<open>
  What \<open>badgerdriver\<close> asks of the key value store badger, and \<open>badgerdriver/op.go\<close> over it: the
  states, their latest revisions and the indexes that are written beside them.
\<close>

section \<open>The store\<close>

text \<open>
  The store is a parameter. A transaction reads a snapshot and its own writes; \<open>bd_Get\<close> yields
  \<open>None\<close> for \<open>ErrKeyNotFound\<close>. An iterator of badger is given by its transaction, its direction
  (\<open>True\<close> is \<open>Reverse\<close>), its prefix and the item it stands on: \<open>bd_Seek\<close> yields the item a seek
  reaches and \<open>bd_Next\<close> the one behind a key, \<open>None\<close> when the iterator is no longer valid.
  \<open>bd_Commit\<close> yields \<open>None\<close> for \<open>ErrConflict\<close>. \<open>bd_SeqNext\<close> is \<open>Sequence.Next\<close>.
  A transaction that may write also remembers what it has read: \<open>bd_Read\<close> is the mark that \<open>Get\<close>
  leaves in it, beside the value that \<open>bd_Get\<close> yields.
\<close>

record ('db, 'txn, 'q) badger =
  bd_NewTransaction :: "'db \<Rightarrow> 'txn"
  bd_Commit :: "'txn \<Rightarrow> 'db \<Rightarrow> 'db option"
  bd_Get :: "'txn \<Rightarrow> string \<Rightarrow> string option outcome"
  bd_Read :: "'txn \<Rightarrow> string \<Rightarrow> 'txn"
  bd_Set :: "'txn \<Rightarrow> string \<Rightarrow> string \<Rightarrow> 'txn outcome"
  bd_Seek :: "'txn \<Rightarrow> bool \<Rightarrow> string \<Rightarrow> string \<Rightarrow> (string \<times> string) option"
  bd_Next :: "'txn \<Rightarrow> bool \<Rightarrow> string \<Rightarrow> string \<Rightarrow> (string \<times> string) option"
  bd_SeqNext :: "'q \<Rightarrow> nat outcome \<times> 'q"

section \<open>States and indexes\<close>

definition setState :: "('db, 'txn, 'q) badger \<Rightarrow> 'c easyproto \<Rightarrow> 'txn \<Rightarrow> State \<Rightarrow> 'txn outcome" where
  "setState B E txn s = bd_Set B txn (stateKey s) (MarshalState E s [])"

text \<open>\<open>None\<close> is the error \<open>ErrKeyNotFound\<close>.\<close>

definition getState ::
  "('db, 'txn, 'q) badger \<Rightarrow> 'c easyproto \<Rightarrow> 'txn \<Rightarrow> string \<Rightarrow> int \<Rightarrow> State option outcome" where
  "getState B E txn stateID stateRev =
    (let state = State0\<lparr>s_ID := stateID, s_Rev := stateRev\<rparr>
     in obind (bd_Get B txn (stateKey state)) (\<lambda>item.
       case item of
         None \<Rightarrow> Ok None
       | Some val \<Rightarrow> (case UnmarshalState E val state of (s, r) \<Rightarrow> obind r (\<lambda>_. Ok (Some s)))))"

text \<open>\<open>binary.BigEndian\<close>.\<close>

definition PutUint64 :: "int \<Rightarrow> string" where
  "PutUint64 v = map (\<lambda>i. char_of (nat ((v div 256 ^ i) mod 256))) [7, 6, 5, 4, 3, 2, 1, 0]"

definition Uint64 :: "string \<Rightarrow> int" where
  "Uint64 b = fold (\<lambda>c n. 256 * n + of_char c) (take 8 b) 0"

definition setInt64 :: "('db, 'txn, 'q) badger \<Rightarrow> 'txn \<Rightarrow> string \<Rightarrow> int \<Rightarrow> 'txn outcome" where
  "setInt64 B txn k v = bd_Set B txn k (PutUint64 v)"

text \<open>A value of less than 8 bytes panics in \<open>Uint64\<close>; the panic is recovered.\<close>

definition getInt64 :: "('db, 'txn, 'q) badger \<Rightarrow> 'txn \<Rightarrow> string \<Rightarrow> int option outcome" where
  "getInt64 B txn k =
    obind (bd_Get B txn k) (\<lambda>item.
      case item of
        None \<Rightarrow> Ok None
      | Some val \<Rightarrow>
          (if length val < 8 then Err (Errorf ''value not uint64'') else Ok (Some (i64 (Uint64 val)))))"

definition setLatestRevIndex :: "('db, 'txn, 'q) badger \<Rightarrow> 'txn \<Rightarrow> State \<Rightarrow> 'txn outcome" where
  "setLatestRevIndex B txn s = setInt64 B txn (latestRevKey (s_ID s)) (s_Rev s)"

definition getLatestRevIndex :: "('db, 'txn, 'q) badger \<Rightarrow> 'txn \<Rightarrow> string \<Rightarrow> int outcome" where
  "getLatestRevIndex B txn stateID =
    obind (getInt64 B txn (latestRevKey stateID)) (\<lambda>r. case r of None \<Rightarrow> Ok 0 | Some rv \<Rightarrow> Ok rv)"

fun set_labels :: "('db, 'txn, 'q) badger \<Rightarrow> (string \<times> string) list \<Rightarrow> State \<Rightarrow> 'txn \<Rightarrow> 'txn outcome" where
  "set_labels B [] s txn = Ok txn"
| "set_labels B ((labelKey, labelVal) # ls) s txn =
    obind (bd_Set B txn (labelIndexKey labelKey labelVal (s_Rev s)) (s_ID s)) (set_labels B ls s)"

definition setLabelsIndex :: "('db, 'txn, 'q) badger \<Rightarrow> 'txn \<Rightarrow> State \<Rightarrow> 'txn outcome" where
  "setLabelsIndex B txn s = set_labels B (gm_entries (s_Labels s)) s txn"

definition setRevIndex :: "('db, 'txn, 'q) badger \<Rightarrow> 'txn \<Rightarrow> State \<Rightarrow> 'txn outcome" where
  "setRevIndex B txn s = bd_Set B txn (revIndexKey (s_Rev s)) (s_ID s)"

definition setCommittedAtIndex :: "('db, 'txn, 'q) badger \<Rightarrow> 'txn \<Rightarrow> State \<Rightarrow> 'txn outcome" where
  "setCommittedAtIndex B txn s = bd_Set B txn (committedAtIndexKey (s_CommittedAt s) (s_Rev s)) (s_ID s)"

definition setDelayedState :: "('db, 'txn, 'q) badger \<Rightarrow> 'c easyproto \<Rightarrow> 'txn \<Rightarrow> DelayedState \<Rightarrow> 'txn outcome" where
  "setDelayedState B E txn ds =
    bd_Set B txn (delayedStateKey (Unix (ds_ExecuteAt ds)) (ds_Offset ds)) (MarshalDelayedState E ds [])"

definition setDelayedOffsetIndex :: "('db, 'txn, 'q) badger \<Rightarrow> 'txn \<Rightarrow> DelayedState \<Rightarrow> 'txn outcome" where
  "setDelayedOffsetIndex B txn ds =
    bd_Set B txn (delayedOffsetKey (ds_Offset ds)) (delayedStateKey (Unix (ds_ExecuteAt ds)) (ds_Offset ds))"

section \<open>The laws of the store\<close>

text \<open>
  \<open>view\<close> is what a transaction sees, sorted by key, \<open>stored\<close> what the store holds, \<open>writes\<close> and
  \<open>start\<close> what a transaction has written and the store it started on. \<open>Set\<close> may fail (a transaction
  can grow too big), and a commit may conflict unless the store is still the one it started on.
\<close>

locale badger_laws =
  fixes B :: "('db, 'txn, 'q) badger" and view :: "'txn \<Rightarrow> (string \<times> string) list"
    and stored :: "'db \<Rightarrow> (string \<times> string) list" and writes :: "'txn \<Rightarrow> (string \<rightharpoonup> string)" and start :: "'txn \<Rightarrow> 'db"
    and low :: "'q \<Rightarrow> nat"
  assumes sorted_view: "sorted_wrt (<) (map fst (view t))"
    and NewTransaction: "view (bd_NewTransaction B db) = stored db" "writes (bd_NewTransaction B db) = Map.empty"
      "start (bd_NewTransaction B db) = db"
    and Get: "bd_Get B t k = Ok (map_of (view t) k)"
    and Read: "view (bd_Read B t k) = view t" "writes (bd_Read B t k) = writes t" "start (bd_Read B t k) = start t"
    and Set: "bd_Set B t k v = Ok t' \<Longrightarrow> map_of (view t') = (map_of (view t))(k \<mapsto> v)
        \<and> writes t' = (writes t)(k \<mapsto> v) \<and> start t' = start t"
    and Set_no_panic: "bd_Set B t k v \<noteq> Panic m"
    and Seek: "prefix p k \<Longrightarrow> bd_Seek B t False p k = find (\<lambda>(k', _). prefix p k' \<and> k \<le> k') (view t)"
      "prefix p k \<Longrightarrow> bd_Seek B t True p k = find (\<lambda>(k', _). prefix p k' \<and> k' \<le> k) (rev (view t))"
    and Next: "prefix p k \<Longrightarrow> bd_Next B t False p k = find (\<lambda>(k', _). prefix p k' \<and> k < k') (view t)"
      "prefix p k \<Longrightarrow> bd_Next B t True p k = find (\<lambda>(k', _). prefix p k' \<and> k' < k) (rev (view t))"
    and Commit: "bd_Commit B t db = Some db' \<Longrightarrow> map_of (stored db') = map_of (stored db) ++ writes t"
    and Commit_unchanged: "bd_Commit B t (start t) \<noteq> None"
    and SeqNext: "bd_SeqNext B q = (Ok n, q') \<Longrightarrow> low q \<le> n \<and> n < low q'"
    and SeqNext_mono: "bd_SeqNext B q = (x, q') \<Longrightarrow> low q \<le> low q'"

text \<open>
  What badger promises of concurrent transactions: \<open>reads\<close> are the keys that a transaction has read
  from its snapshot (a key it has written itself is answered from its writes and not remembered),
  and a commit succeeds only when none of them has changed since the transaction began.
\<close>

locale badger_conflict_laws = badger_laws B view stored writes start low
  for B :: "('db, 'txn, 'q) badger" and view :: "'txn \<Rightarrow> (string \<times> string) list"
    and stored :: "'db \<Rightarrow> (string \<times> string) list" and writes :: "'txn \<Rightarrow> (string \<rightharpoonup> string)" and start :: "'txn \<Rightarrow> 'db"
    and low :: "'q \<Rightarrow> nat" +
  fixes reads :: "'txn \<Rightarrow> string set"
  assumes reads_Read: "reads t \<subseteq> reads (bd_Read B t k)" "k \<in> reads (bd_Read B t k) \<or> k \<in> dom (writes t)"
    and reads_Set: "bd_Set B t k v = Ok t' \<Longrightarrow> reads t \<subseteq> reads t'"
    and Commit_reads: "bd_Commit B t db = Some db' \<Longrightarrow> k \<in> reads t \<Longrightarrow> map_of (stored db) k = map_of (stored (start t)) k"

section \<open>A store\<close>

text \<open>
  The laws can hold: balanced trees as stores, where a commit conflicts when a key that the
  transaction has read holds another value than the store it began on.
\<close>

record tree_txn =
  tt_start :: "(string, string) RBT.rbt"
  tt_view :: "(string, string) RBT.rbt"
  tt_writes :: "(string \<times> string) list"
  tt_reads :: "string list"

definition tree_Set :: "tree_txn \<Rightarrow> string \<Rightarrow> string \<Rightarrow> tree_txn" where
  "tree_Set t k v = t\<lparr>tt_view := RBT.insert k v (tt_view t), tt_writes := (k, v) # tt_writes t\<rparr>"

definition tree_Read :: "tree_txn \<Rightarrow> string \<Rightarrow> tree_txn" where
  "tree_Read t k = (if map_of (tt_writes t) k = None then t\<lparr>tt_reads := k # tt_reads t\<rparr> else t)"

definition tree_find :: "bool \<Rightarrow> (string \<Rightarrow> bool) \<Rightarrow> tree_txn \<Rightarrow> (string \<times> string) option" where
  "tree_find r P t = find (\<lambda>(k, _). P k) (if r then rev (RBT.entries (tt_view t)) else RBT.entries (tt_view t))"

definition tree_badger :: "((string, string) RBT.rbt, tree_txn, nat) badger" where
  "tree_badger = \<lparr>bd_NewTransaction = \<lambda>db. \<lparr>tt_start = db, tt_view = db, tt_writes = [], tt_reads = []\<rparr>,
    bd_Commit = \<lambda>t db. if list_all (\<lambda>k. RBT.lookup db k = RBT.lookup (tt_start t) k) (tt_reads t)
      then Some (foldr (\<lambda>(k, v). RBT.insert k v) (tt_writes t) db) else None,
    bd_Get = \<lambda>t k. Ok (RBT.lookup (tt_view t) k),
    bd_Read = tree_Read,
    bd_Set = \<lambda>t k v. Ok (tree_Set t k v),
    bd_Seek = \<lambda>t r p k. tree_find r (\<lambda>k'. prefix p k' \<and> (if r then k' \<le> k else k \<le> k')) t,
    bd_Next = \<lambda>t r p k. tree_find r (\<lambda>k'. prefix p k' \<and> (if r then k' < k else k < k')) t,
    bd_SeqNext = \<lambda>n. (Ok n, Suc n)\<rparr>"

lemma lookup_foldr_insert: "RBT.lookup (foldr (\<lambda>(k, v). RBT.insert k v) ws db) = RBT.lookup db ++ map_of ws"
  by (induction ws) (auto simp: fun_upd_def [symmetric] map_add_def)

interpretation tree: badger_conflict_laws tree_badger "\<lambda>t. RBT.entries (tt_view t)" RBT.entries
  "\<lambda>t. map_of (tt_writes t)" tt_start "\<lambda>n. n" "\<lambda>t. set (tt_reads t)"
proof
  show "sorted_wrt (<) (map fst (RBT.entries (tt_view t)))" for t
    by (simp add: strict_sorted_iff RBT.distinct_entries RBT.sorted_entries)
qed (auto simp: tree_badger_def tree_Set_def tree_Read_def tree_find_def RBT.map_of_entries lookup_foldr_insert list_all_iff
    split: if_splits)

end
