(* ===== verification/BadgerIter.thy ===== *)
theory BadgerIter
  imports Badger
begin

text \<open>
  The iterators of \<open>badgerdriver/labelsiterator.go\<close> and \<open>badgerdriver/orlabelsiterator.go\<close>: over the
  states that carry all labels of a set (one badger iterator per label, moved to a common
  revision), over the union of several sets, over all revisions and over commit times.
\<close>

section \<open>One index\<close>

record badgerIterator =
  bi_prefix :: string
  bi_item :: "(string \<times> string) option"

definition bi_Valid :: "badgerIterator \<Rightarrow> bool" where
  "bi_Valid it \<longleftrightarrow> bi_item it \<noteq> None"

definition bi_Seek :: "('db, 'txn, 'q) badger \<Rightarrow> 'txn \<Rightarrow> bool \<Rightarrow> string \<Rightarrow> badgerIterator \<Rightarrow> badgerIterator" where
  "bi_Seek B txn r k it = it\<lparr>bi_item := bd_Seek B txn r (bi_prefix it) k\<rparr>"

definition bi_Next :: "('db, 'txn, 'q) badger \<Rightarrow> 'txn \<Rightarrow> bool \<Rightarrow> badgerIterator \<Rightarrow> badgerIterator" where
  "bi_Next B txn r it =
    (case bi_item it of None \<Rightarrow> it | Some (k, _) \<Rightarrow> it\<lparr>bi_item := bd_Next B txn r (bi_prefix it) k\<rparr>)"

text \<open>\<open>fmt.Sprintf("%020d", sinceRev)\<close> behind the prefix, and \<open>0xFF\<close> behind it when \<open>reverse\<close> is set.\<close>

definition seekPrefix :: "bool \<Rightarrow> string \<Rightarrow> int \<Rightarrow> string" where
  "seekPrefix r prfx sinceRev = prfx @ fmt_020d sinceRev @ (if r then [CHR 0xFF] else [])"

definition MaxInt64 :: int where
  "MaxInt64 = 2 ^ 63 - 1"

text \<open>The number behind \<open>prfx\<close> in a key.\<close>

definition parse_rev :: "string \<Rightarrow> string \<Rightarrow> string \<Rightarrow> string \<Rightarrow> int outcome" where
  "parse_rev msg q prfx key =
    (if \<not> prefix prfx key then Panic msg
     else case ParseInt (drop (length prfx) key) of
       (rv, None) \<Rightarrow> Ok rv
     | (_, Some err) \<Rightarrow> Panic (''BUG: cannot parse revision from key '' @ q @ key @ q @ '': '' @ error_text err))"

definition toRev :: "badgerIterator \<Rightarrow> int outcome" where
  "toRev it =
    (case bi_item it of
       None \<Rightarrow> nil_deref
     | Some (key, _) \<Rightarrow> parse_rev (''BUG: key '' @ [CHR 0x27] @ key @ [CHR 0x27] @ '' does not start with prefix '' @ [CHR 0x27] @ bi_prefix it @ [CHR 0x27]) [] (bi_prefix it) key)"

text \<open>The state an item of an index names; all failures are panics.\<close>

definition load_state ::
  "('db, 'txn, 'q) badger \<Rightarrow> 'c easyproto \<Rightarrow> 'txn \<Rightarrow> string \<Rightarrow> int \<Rightarrow> State outcome" where
  "load_state B E txn stateID rv =
    (let msg = ''BUG: cannot get state '' @ stateID @ '':'' @ FormatInt rv @ '': ''
     in case getState B E txn stateID rv of
          Ok (Some s) \<Rightarrow> Ok s
        | Ok None \<Rightarrow> Panic (msg @ ''Key not found'')
        | Err err \<Rightarrow> Panic (msg @ error_text err)
        | Panic p \<Rightarrow> Panic p)"

section \<open>All labels of a set\<close>

record labelsIterator =
  li_its :: "badgerIterator list"
  li_reverse :: bool
  li_valid :: bool
  li_current :: State

definition li_Close :: "labelsIterator \<Rightarrow> labelsIterator" where
  "li_Close l = l\<lparr>li_valid := False, li_its := []\<rparr>"

fun nextRev_loop :: "bool \<Rightarrow> badgerIterator list \<Rightarrow> int \<Rightarrow> int outcome" where
  "nextRev_loop r [] nextRev = Ok nextRev"
| "nextRev_loop r (it # its) nextRev =
    obind (toRev it) (\<lambda>n. nextRev_loop r its (if r then min n nextRev else max n nextRev))"

text \<open>\<open>seekToRev\<close> finds the revision, or another one, or nothing, and then closes.\<close>

datatype seeked = Reached | Missed | Exhausted

definition seekToRev ::
  "('db, 'txn, 'q) badger \<Rightarrow> 'txn \<Rightarrow> bool \<Rightarrow> badgerIterator \<Rightarrow> int \<Rightarrow> seeked outcome \<times> badgerIterator" where
  "seekToRev B txn r it to =
    (let it1 = bi_Seek B txn r (seekPrefix r (bi_prefix it) to) it
     in if \<not> bi_Valid it1 then (Ok Exhausted, it1)
        else (obind (toRev it1) (\<lambda>n. Ok (if r then (if n < to then Missed else Reached)
                                         else if n > to then Missed else Reached)), it1))"

fun seek_all ::
  "('db, 'txn, 'q) badger \<Rightarrow> 'txn \<Rightarrow> bool \<Rightarrow> int \<Rightarrow> badgerIterator list \<Rightarrow> seeked outcome \<times> badgerIterator list" where
  "seek_all B txn r to [] = (Ok Reached, [])"
| "seek_all B txn r to (it # its) =
    (case seekToRev B txn r it to of
       (Ok Reached, it1) \<Rightarrow> (case seek_all B txn r to its of (x, its1) \<Rightarrow> (x, it1 # its1))
     | (x, it1) \<Rightarrow> (x, it1 # its))"

definition load_first ::
  "('db, 'txn, 'q) badger \<Rightarrow> 'c easyproto \<Rightarrow> 'txn \<Rightarrow> int \<Rightarrow> labelsIterator \<Rightarrow> unit outcome \<times> labelsIterator" where
  "load_first B E txn nextRev l =
    (case li_its l of
       [] \<Rightarrow> (Panic ''runtime error: index out of range'', l)
     | it # _ \<Rightarrow>
         (case bi_item it of
            None \<Rightarrow> (nil_deref, l)
          | Some (_, stateID) \<Rightarrow>
              (case load_state B E txn stateID nextRev of
                 Ok s \<Rightarrow> (Ok (), l\<lparr>li_current := s\<rparr>)
               | Err err \<Rightarrow> (Err err, l)
               | Panic p \<Rightarrow> (Panic p, l))))"

text \<open>The loop goes on until all indexes stand on one revision or one of them has no more.\<close>

partial_function (option) li_seekState ::
  "('db, 'txn, 'q) badger \<Rightarrow> 'c easyproto \<Rightarrow> 'txn \<Rightarrow> labelsIterator \<Rightarrow> (unit outcome \<times> labelsIterator) option" where
  "li_seekState B E txn l =
    (if \<not> li_valid l then Some (Ok (), l)
     else case nextRev_loop (li_reverse l) (li_its l) (if li_reverse l then MaxInt64 else 0) of
       Err err \<Rightarrow> Some (Err err, l)
     | Panic p \<Rightarrow> Some (Panic p, l)
     | Ok nextRev \<Rightarrow>
         (case seek_all B txn (li_reverse l) nextRev (li_its l) of
            (Ok Reached, its) \<Rightarrow> Some (load_first B E txn nextRev (l\<lparr>li_its := its\<rparr>))
          | (Ok Missed, its) \<Rightarrow> li_seekState B E txn (l\<lparr>li_its := its\<rparr>)
          | (Ok Exhausted, its) \<Rightarrow> li_seekState B E txn (li_Close l)
          | (Err err, its) \<Rightarrow> Some (Err err, l\<lparr>li_its := its\<rparr>)
          | (Panic p, its) \<Rightarrow> Some (Panic p, l\<lparr>li_its := its\<rparr>)))"

text \<open>The iterators of the labels; labels without a key or a value have none.\<close>

fun open_its ::
  "('db, 'txn, 'q) badger \<Rightarrow> 'txn \<Rightarrow> int \<Rightarrow> (string \<times> string) list \<Rightarrow> labelsIterator \<Rightarrow> labelsIterator" where
  "open_its B txn sinceRev [] l = l"
| "open_its B txn sinceRev ((labelKey, labelVal) # ls) l =
    (if labelKey = [] \<or> labelVal = [] then open_its B txn sinceRev ls l
     else let prfx = labelIndexPrefix labelKey labelVal;
              it = bi_Seek B txn (li_reverse l) (seekPrefix (li_reverse l) prfx sinceRev) \<lparr>bi_prefix = prfx, bi_item = None\<rparr>;
              l1 = (if \<not> bi_Valid it then li_Close l else l)
          in open_its B txn sinceRev ls (l1\<lparr>li_its := li_its l1 @ [it]\<rparr>))"

definition newLabelsIterator ::
  "('db, 'txn, 'q) badger \<Rightarrow> 'c easyproto \<Rightarrow> 'txn \<Rightarrow> strmap \<Rightarrow> int \<Rightarrow> bool \<Rightarrow> (unit outcome \<times> labelsIterator) option" where
  "newLabelsIterator B E txn labels sinceRev r =
    (let since = (if r \<and> sinceRev = 0 then MaxInt64 else sinceRev);
         l = open_its B txn since (gm_entries labels) \<lparr>li_its = [], li_reverse = r, li_valid = True, li_current = State0\<rparr>
     in if li_its l = [] then Some (Ok (), li_Close l) else li_seekState B E txn l)"

fun next_all ::
  "('db, 'txn, 'q) badger \<Rightarrow> 'txn \<Rightarrow> bool \<Rightarrow> badgerIterator list \<Rightarrow> bool \<times> badgerIterator list" where
  "next_all B txn r [] = (True, [])"
| "next_all B txn r (it # its) =
    (let it1 = bi_Next B txn r it
     in if \<not> bi_Valid it1 then (False, it1 # its)
        else case next_all B txn r its of (ok, its1) \<Rightarrow> (ok, it1 # its1))"

definition li_Next ::
  "('db, 'txn, 'q) badger \<Rightarrow> 'c easyproto \<Rightarrow> 'txn \<Rightarrow> labelsIterator \<Rightarrow> (unit outcome \<times> labelsIterator) option" where
  "li_Next B E txn l =
    (if \<not> li_valid l then Some (Ok (), l)
     else case next_all B txn (li_reverse l) (li_its l) of
       (False, its) \<Rightarrow> Some (Ok (), li_Close l)
     | (True, its) \<Rightarrow> li_seekState B E txn (l\<lparr>li_its := its\<rparr>))"

section \<open>One of several sets\<close>

text \<open>The driver builds it from iterators over label sets.\<close>

record orIterator =
  or_valid :: bool
  or_reverse :: bool
  or_current :: State
  or_its :: "labelsIterator list"

definition or_Close :: "orIterator \<Rightarrow> orIterator" where
  "or_Close o1 = o1\<lparr>or_valid := False, or_its := []\<rparr>"

text \<open>The state of the smallest (largest) revision among the iterators that are valid.\<close>

definition or_better :: "bool \<Rightarrow> labelsIterator \<Rightarrow> State \<Rightarrow> State" where
  "or_better r it nextState =
    (if \<not> li_valid it then nextState
     else if s_Rev nextState = 0 then li_current it
     else if r then (if s_Rev (li_current it) > s_Rev nextState then li_current it else nextState)
     else if s_Rev (li_current it) < s_Rev nextState then li_current it else nextState)"

text \<open>The shortened list of iterators is only used for its length.\<close>

definition or_seekState :: "orIterator \<Rightarrow> orIterator" where
  "or_seekState o1 =
    (if filter li_valid (or_its o1) = [] then or_Close o1
     else o1\<lparr>or_current := fold (or_better (or_reverse o1)) (or_its o1) State0\<rparr>)"

text \<open>Only the first iterator on the current revision moves on.\<close>

fun or_advance ::
  "('db, 'txn, 'q) badger \<Rightarrow> 'c easyproto \<Rightarrow> 'txn \<Rightarrow> int \<Rightarrow> labelsIterator list \<Rightarrow> (unit outcome \<times> labelsIterator list) option" where
  "or_advance B E txn rv [] = Some (Ok (), [])"
| "or_advance B E txn rv (it # its) =
    (if s_Rev (li_current it) = rv then
       (case li_Next B E txn it of None \<Rightarrow> None | Some (x, it1) \<Rightarrow> Some (x, it1 # its))
     else case or_advance B E txn rv its of None \<Rightarrow> None | Some (x, its1) \<Rightarrow> Some (x, it # its1))"

definition or_Next ::
  "('db, 'txn, 'q) badger \<Rightarrow> 'c easyproto \<Rightarrow> 'txn \<Rightarrow> orIterator \<Rightarrow> (unit outcome \<times> orIterator) option" where
  "or_Next B E txn o1 =
    (if \<not> or_valid o1 then Some (Ok (), o1)
     else case or_advance B E txn (s_Rev (or_current o1)) (or_its o1) of
       None \<Rightarrow> None
     | Some (Ok _, its) \<Rightarrow> Some (Ok (), or_seekState (o1\<lparr>or_its := its\<rparr>))
     | Some (x, its) \<Rightarrow> Some (x, o1\<lparr>or_its := its\<rparr>))"

definition newOrIterator :: "labelsIterator list \<Rightarrow> bool \<Rightarrow> orIterator" where
  "newOrIterator its r = or_seekState \<lparr>or_valid = True, or_reverse = r, or_current = State0, or_its = its\<rparr>"

section \<open>All revisions, and by commit time\<close>

text \<open>The field \<open>reverse\<close>, which only \<open>seekPrefix\<close> reads, is always true.\<close>

record revIterator =
  ri_Iterator :: badgerIterator
  ri_dir :: bool
  ri_reverse :: bool
  ri_current :: State

definition ri_seekState ::
  "('db, 'txn, 'q) badger \<Rightarrow> 'c easyproto \<Rightarrow> 'txn \<Rightarrow> revIterator \<Rightarrow> unit outcome \<times> revIterator" where
  "ri_seekState B E txn l =
    (case bi_item (ri_Iterator l) of
       None \<Rightarrow> (nil_deref, l)
     | Some (key, stateID) \<Rightarrow>
         (case obind (parse_rev (''BUG: key must start with prefix '' @ revIndexPrefix @ ''; got '' @ key) [CHR 0x27] revIndexPrefix key)
                 (load_state B E txn stateID) of
            Ok s \<Rightarrow> (Ok (), l\<lparr>ri_current := s\<rparr>)
          | Err err \<Rightarrow> (Err err, l)
          | Panic p \<Rightarrow> (Panic p, l)))"

definition newRevIterator ::
  "('db, 'txn, 'q) badger \<Rightarrow> 'c easyproto \<Rightarrow> 'txn \<Rightarrow> int \<Rightarrow> bool \<Rightarrow> unit outcome \<times> revIterator" where
  "newRevIterator B E txn sinceRev r =
    (let since = (if r \<and> sinceRev = 0 then MaxInt64 else sinceRev);
         it = bi_Seek B txn r (seekPrefix True revIndexPrefix since) \<lparr>bi_prefix = revIndexPrefix, bi_item = None\<rparr>;
         l = \<lparr>ri_Iterator = it, ri_dir = r, ri_reverse = True, ri_current = State0\<rparr>
     in if bi_Valid it then ri_seekState B E txn l else (Ok (), l))"

definition ri_Next ::
  "('db, 'txn, 'q) badger \<Rightarrow> 'c easyproto \<Rightarrow> 'txn \<Rightarrow> revIterator \<Rightarrow> unit outcome \<times> revIterator" where
  "ri_Next B E txn l =
    (let l1 = l\<lparr>ri_Iterator := bi_Next B txn (ri_dir l) (ri_Iterator l)\<rparr>
     in if \<not> bi_Valid (ri_Iterator l1) then (Ok (), l1) else ri_seekState B E txn l1)"

text \<open>The revision is what follows the last dot of a key.\<close>

definition after_last_dot :: "string \<Rightarrow> string option" where
  "after_last_dot s = (if CHR ''.'' \<in> set s then Some (rev (takeWhile (\<lambda>c. c \<noteq> CHR ''.'') (rev s))) else None)"

definition ca_seekState ::
  "('db, 'txn, 'q) badger \<Rightarrow> 'c easyproto \<Rightarrow> 'txn \<Rightarrow> revIterator \<Rightarrow> unit outcome \<times> revIterator" where
  "ca_seekState B E txn l =
    (case bi_item (ri_Iterator l) of
       None \<Rightarrow> (nil_deref, l)
     | Some (key, stateID) \<Rightarrow>
         (case obind (case after_last_dot key of
                   None \<Rightarrow> Panic (''BUG: key must start with the prefix '' @ committedAtIndexPrefix @ ''; got '' @ key)
                 | Some s \<Rightarrow>
                     (case ParseInt s of
                        (rv, None) \<Rightarrow> Ok rv
                      | (_, Some err) \<Rightarrow> Panic (''BUG: cannot parse revision from key '' @ [CHR 0x27] @ key @ [CHR 0x27] @ '': '' @ error_text err)))
                 (load_state B E txn stateID) of
            Ok s \<Rightarrow> (Ok (), l\<lparr>ri_current := s\<rparr>)
          | Err err \<Rightarrow> (Err err, l)
          | Panic p \<Rightarrow> (Panic p, l)))"

definition newCommittedAtIterator ::
  "('db, 'txn, 'q) badger \<Rightarrow> 'c easyproto \<Rightarrow> 'txn \<Rightarrow> time \<Rightarrow> bool \<Rightarrow> unit outcome \<times> revIterator" where
  "newCommittedAtIterator B E txn sinceTime r =
    (let since = (if r \<and> IsZero sinceTime then time_Unix MaxInt64 0 else sinceTime);
         it = bi_Seek B txn r (seekPrefix True committedAtIndexPrefix (UnixMilli since))
           \<lparr>bi_prefix = committedAtIndexPrefix, bi_item = None\<rparr>;
         l = \<lparr>ri_Iterator = it, ri_dir = r, ri_reverse = True, ri_current = State0\<rparr>
     in if bi_Valid it then ca_seekState B E txn l else (Ok (), l))"

definition ca_Next ::
  "('db, 'txn, 'q) badger \<Rightarrow> 'c easyproto \<Rightarrow> 'txn \<Rightarrow> revIterator \<Rightarrow> unit outcome \<times> revIterator" where
  "ca_Next B E txn l =
    (let l1 = l\<lparr>ri_Iterator := bi_Next B txn (ri_dir l) (ri_Iterator l)\<rparr>
     in if \<not> bi_Valid (ri_Iterator l1) then (Ok (), l1) else ca_seekState B E txn l1)"

section \<open>The iterator of a command\<close>

datatype state_iterator = RevIt revIterator | OrIt orIterator

fun newLabelsIterators ::
  "('db, 'txn, 'q) badger \<Rightarrow> 'c easyproto \<Rightarrow> 'txn \<Rightarrow> strmap list \<Rightarrow> int \<Rightarrow> bool \<Rightarrow> labelsIterator list outcome option" where
  "newLabelsIterators B E txn [] sinceRev r = Some (Ok [])"
| "newLabelsIterators B E txn (labels # orLabels) sinceRev r =
    (case newLabelsIterator B E txn labels sinceRev r of
       None \<Rightarrow> None
     | Some (Err err, _) \<Rightarrow> Some (Err err)
     | Some (Panic p, _) \<Rightarrow> Some (Panic p)
     | Some (Ok _, it) \<Rightarrow>
         map_option (\<lambda>its. obind its (\<lambda>its. Ok (it # its))) (newLabelsIterators B E txn orLabels sinceRev r))"

definition newOrLabelsIterator ::
  "('db, 'txn, 'q) badger \<Rightarrow> 'c easyproto \<Rightarrow> 'txn \<Rightarrow> strmap list \<Rightarrow> int \<Rightarrow> bool \<Rightarrow> state_iterator outcome option" where
  "newOrLabelsIterator B E txn orLabels sinceRev r =
    (if orLabels = [] \<or> gm_len (hd orLabels) = 0 then
       (case newRevIterator B E txn sinceRev r of (x, it) \<Rightarrow> Some (obind x (\<lambda>_. Ok (RevIt it))))
     else map_option (\<lambda>its. obind its (\<lambda>its. Ok (OrIt (newOrIterator its r))))
            (newLabelsIterators B E txn orLabels sinceRev r))"

fun si_Valid :: "state_iterator \<Rightarrow> bool" where
  "si_Valid (RevIt it) = bi_Valid (ri_Iterator it)"
| "si_Valid (OrIt it) = or_valid it"

fun si_Current :: "state_iterator \<Rightarrow> State" where
  "si_Current (RevIt it) = ri_current it"
| "si_Current (OrIt it) = or_current it"

fun si_Next ::
  "('db, 'txn, 'q) badger \<Rightarrow> 'c easyproto \<Rightarrow> 'txn \<Rightarrow> state_iterator \<Rightarrow> (unit outcome \<times> state_iterator) option" where
  "si_Next B E txn (RevIt it) = (case ri_Next B E txn it of (x, it1) \<Rightarrow> Some (x, RevIt it1))"
| "si_Next B E txn (OrIt it) = map_option (\<lambda>(x, it1). (x, OrIt it1)) (or_Next B E txn it)"

end
