(* ===== verification/BadgerDriver.thy ===== *)
theory BadgerDriver
  imports BadgerIter SubCommands
begin

text \<open>
  \<open>badgerdriver/driver.go\<close>: the sequences with their view limit, the reads, the log of delayed
  states and the commit with its retries on conflicts.
\<close>

section \<open>Sequences\<close>

text \<open>
  \<open>ongoing\<close> holds the numbers handed out to transactions that have not ended; the numbers up to
  \<open>maxCommitted\<close> may be read. The two closures of \<open>nextWithCommit\<close> share the list of the numbers
  they have handed out.
\<close>

record 'q sequenceWithCommit =
  sw_seq :: 'q
  sw_ongoing :: "int list"
  sw_maxOngoing :: int
  sw_maxCommitted :: int

definition newSequence :: "('db, 'txn, 'q) badger \<Rightarrow> 'q \<Rightarrow> 'q sequenceWithCommit outcome" where
  "newSequence B q =
    (case bd_SeqNext B q of
       (x, q1) \<Rightarrow> obind x (\<lambda>_. Ok \<lparr>sw_seq = q1, sw_ongoing = [], sw_maxOngoing = 0, sw_maxCommitted = 0\<rparr>))"

definition seq_register :: "int \<Rightarrow> 'q sequenceWithCommit \<Rightarrow> 'q sequenceWithCommit" where
  "seq_register n sw = sw\<lparr>sw_ongoing := n # sw_ongoing sw, sw_maxOngoing := n\<rparr>"

definition seq_next ::
  "('db, 'txn, 'q) badger \<Rightarrow> 'q sequenceWithCommit \<Rightarrow> int list \<Rightarrow> int outcome \<times> 'q sequenceWithCommit \<times> int list" where
  "seq_next B sw txnCommitting =
    (case bd_SeqNext B (sw_seq sw) of
       (Err err, q) \<Rightarrow> (Err err, sw\<lparr>sw_seq := q\<rparr>, txnCommitting)
     | (Panic p, q) \<Rightarrow> (Panic p, sw\<lparr>sw_seq := q\<rparr>, txnCommitting)
     | (Ok next0, q) \<Rightarrow>
         (if int next0 \<ge> MaxInt64 then
            (Panic ''FATAL: sequence overflow, int64 max %d value has been reached'', sw\<lparr>sw_seq := q\<rparr>, txnCommitting)
          else (Ok (int next0), seq_register (int next0) (sw\<lparr>sw_seq := q\<rparr>), txnCommitting @ [int next0])))"

definition seq_commit :: "int list \<Rightarrow> 'q sequenceWithCommit \<Rightarrow> 'q sequenceWithCommit" where
  "seq_commit txnCommitting sw =
    (if txnCommitting = [] then sw
     else let ongoing = filter (\<lambda>r. r \<notin> set txnCommitting) (sw_ongoing sw)
          in sw\<lparr>sw_ongoing := ongoing, sw_maxCommitted := fold min ongoing (sw_maxOngoing sw)\<rparr>)"

definition maxViewable :: "'q sequenceWithCommit \<Rightarrow> int" where
  "maxViewable sw = sw_maxCommitted sw"

section \<open>The driver\<close>

record ('db, 'q) badgerdriver =
  bg_db :: 'db
  bg_dataRevSeq :: 'q
  bg_delayedOffsetSeq :: "'q sequenceWithCommit"
  bg_stateRevSeq :: "'q sequenceWithCommit"

definition newDataSequence :: "('db, 'txn, 'q) badger \<Rightarrow> 'q \<Rightarrow> 'q outcome" where
  "newDataSequence B q = (case bd_SeqNext B q of (x, q1) \<Rightarrow> obind x (\<lambda>_. Ok q1))"

definition badger_New :: "('db, 'txn, 'q) badger \<Rightarrow> 'db \<Rightarrow> 'q \<Rightarrow> 'q \<Rightarrow> 'q \<Rightarrow> ('db, 'q) badgerdriver outcome" where
  "badger_New B db qs qd qo =
    obind (wrap_err ''db: get state rev seq: '' (newSequence B qs)) (\<lambda>stateRevSeq.
      obind (wrap_err ''db: get data rev seq: '' (newDataSequence B qd)) (\<lambda>dataRevSeq.
        obind (wrap_err ''db: get delayed offset seq: '' (newSequence B qo)) (\<lambda>delayedOffsetSeq.
          Ok \<lparr>bg_db = db, bg_dataRevSeq = dataRevSeq, bg_delayedOffsetSeq = delayedOffsetSeq, bg_stateRevSeq = stateRevSeq\<rparr>)))"

text \<open>\<open>badger.ErrConflict\<close>, and \<open>errors.Is\<close> for it.\<close>

definition ErrConflict :: error where
  "ErrConflict = Errorf ''Transaction Conflict. Please retry''"

fun Is_ErrConflict :: "error \<Rightarrow> bool" where
  "Is_ErrConflict (Errorw _ e _) = Is_ErrConflict e"
| "Is_ErrConflict e = (e = ErrConflict)"

text \<open>\<open>db.Update\<close> commits what the function has written, unless it failed.\<close>

definition db_Update :: "('db, 'txn, 'q) badger \<Rightarrow> 'txn outcome \<Rightarrow> 'db \<Rightarrow> unit outcome \<times> 'db" where
  "db_Update B r db =
    (case r of
       Err err \<Rightarrow> (Err err, db)
     | Panic p \<Rightarrow> (Panic p, db)
     | Ok txn \<Rightarrow> (case bd_Commit B txn db of None \<Rightarrow> (Err ErrConflict, db) | Some db' \<Rightarrow> (Ok (), db')))"

section \<open>Reads\<close>

definition bg_GetStateByID ::
  "('db, 'txn, 'q) badger \<Rightarrow> 'c easyproto \<Rightarrow> GetStateByIDCommand \<Rightarrow> heap \<Rightarrow> ('db, 'q) badgerdriver
    \<Rightarrow> unit outcome \<times> heap \<times> ('db, 'q) badgerdriver" where
  "bg_GetStateByID B E cmd h d =
    (if gi_Rev cmd < 0 then (Err (Errorf (''invalid revision: '' @ FormatInt (gi_Rev cmd) @ ''; must be >= 0'')), h, d)
     else let txn = bd_NewTransaction B (bg_db d);
              state = obind (if gi_Rev cmd = 0 then getLatestRevIndex B txn (gi_ID cmd) else Ok (gi_Rev cmd))
                        (getState B E txn (gi_ID cmd))
          in case state of
               Err err \<Rightarrow> (Err err, h, d)
             | Panic p \<Rightarrow> (Panic p, h, d)
             | Ok None \<Rightarrow> (Err (Errorw [] ErrNotFound (''; id='' @ gi_ID cmd)), h, d)
             | Ok (Some s) \<Rightarrow> (case with_ctx h (gi_StateCtx cmd) (\<lambda>c. (Ok (), CopyToCtx s c)) of (r, h') \<Rightarrow> (r, h', d)))"

text \<open>The result is \<open>None\<close> when the iterator does not come back.\<close>

definition bg_GetStateByLabels ::
  "('db, 'txn, 'q) badger \<Rightarrow> 'c easyproto \<Rightarrow> GetStateByLabelsCommand \<Rightarrow> heap \<Rightarrow> ('db, 'q) badgerdriver
    \<Rightarrow> (unit outcome \<times> heap \<times> ('db, 'q) badgerdriver) option" where
  "bg_GetStateByLabels B E cmd h d =
    (case newLabelsIterator B E (bd_NewTransaction B (bg_db d)) (gl_Labels cmd) (maxViewable (bg_stateRevSeq d)) True of
       None \<Rightarrow> None
     | Some (Err err, it) \<Rightarrow> Some (Err err, h, d)
     | Some (Panic p, it) \<Rightarrow> Some (Panic p, h, d)
     | Some (Ok _, it) \<Rightarrow>
         Some (if \<not> li_valid it then (Err (Errorw [] ErrNotFound (''; labels='' @ fmt_map (gl_Labels cmd))), h, d)
               else case with_ctx h (gl_StateCtx cmd) (\<lambda>c. (Ok (), CopyToCtx (li_current it) c)) of (r, h') \<Rightarrow> (r, h', d)))"

text \<open>The loop of \<open>GetStates\<close>; an error of the latest revision counts as revision 0.\<close>

partial_function (option) bg_GetStates_loop ::
  "('db, 'txn, 'q) badger \<Rightarrow> 'c easyproto \<Rightarrow> 'txn \<Rightarrow> GetStatesCommand \<Rightarrow> int \<Rightarrow> state_iterator \<Rightarrow> State list
    \<Rightarrow> GetStatesResult outcome option" where
  "bg_GetStates_loop B E txn cmd untilRev it states =
    (if \<not> si_Valid it then Some (Ok \<lparr>gsr_States = states, gsr_More = False\<rparr>)
     else if int (length states) > gs_Limit cmd then Some (Ok \<lparr>gsr_States = states, gsr_More = True\<rparr>)
     else let state = si_Current it;
              old = (gs_LatestOnly cmd
                \<and> s_Rev state < (case getLatestRevIndex B txn (s_ID state) of Ok r \<Rightarrow> r | _ \<Rightarrow> 0))
          in if \<not> old \<and> s_Rev state > untilRev then Some (Ok \<lparr>gsr_States = states, gsr_More = False\<rparr>)
             else case si_Next B E txn it of
               None \<Rightarrow> None
             | Some (Err err, it1) \<Rightarrow> Some (Err err)
             | Some (Panic p, it1) \<Rightarrow> Some (Panic p)
             | Some (Ok _, it1) \<Rightarrow>
                 bg_GetStates_loop B E txn cmd untilRev it1 (if old then states else states @ [state]))"

text \<open>The first revision of the read; \<open>None\<close> when there is nothing to read.\<close>

definition since_rev ::
  "('db, 'txn, 'q) badger \<Rightarrow> 'c easyproto \<Rightarrow> 'txn \<Rightarrow> GetStatesCommand \<Rightarrow> int \<Rightarrow> int option outcome option" where
  "since_rev B E txn cmd untilRev =
    (if \<not> IsZero (gs_SinceTime cmd) then
       (case newCommittedAtIterator B E txn (gs_SinceTime cmd) False of
          (x, it) \<Rightarrow> Some (obind x (\<lambda>_. Ok (if bi_Valid (ri_Iterator it) then Some (s_Rev (ri_current it)) else None))))
     else if gs_SinceRev cmd = - 1 then
       map_option (\<lambda>x. obind x (\<lambda>it. Ok (if si_Valid it then Some (s_Rev (si_Current it)) else None)))
         (newOrLabelsIterator B E txn (gs_Labels cmd) untilRev True)
     else if gs_SinceRev cmd > 0 then Some (Ok (Some (i64 (gs_SinceRev cmd + 1))))
     else Some (Ok (Some (gs_SinceRev cmd))))"

definition bg_GetStates ::
  "('db, 'txn, 'q) badger \<Rightarrow> 'c easyproto \<Rightarrow> GetStatesCommand \<Rightarrow> ('db, 'q) badgerdriver \<Rightarrow> GetStatesCommand outcome option" where
  "bg_GetStates B E cmd d =
    (let txn = bd_NewTransaction B (bg_db d); untilRev = maxViewable (bg_stateRevSeq d)
     in case since_rev B E txn cmd untilRev of
          None \<Rightarrow> None
        | Some (Err err) \<Rightarrow> Some (Err (Errorw ''get states: '' err []))
        | Some (Panic p) \<Rightarrow> Some (Panic p)
        | Some (Ok None) \<Rightarrow> Some (Ok (cmd\<lparr>gs_Result := Some \<lparr>gsr_States = [], gsr_More = False\<rparr>\<rparr>))
        | Some (Ok (Some sinceRev)) \<Rightarrow>
            (case newOrLabelsIterator B E txn (gs_Labels cmd) sinceRev False of
               None \<Rightarrow> None
             | Some (Err err) \<Rightarrow> Some (Err (Errorw ''get states: '' err []))
             | Some (Panic p) \<Rightarrow> Some (Panic p)
             | Some (Ok it) \<Rightarrow>
                 map_option (\<lambda>x. obind (wrap_err ''get states: '' x) (\<lambda>res. Ok (cmd\<lparr>gs_Result := Some res\<rparr>)))
                   (bg_GetStates_loop B E txn cmd untilRev it [])))"

section \<open>Delayed states\<close>

definition bg_Delay ::
  "('db, 'txn, 'q) badger \<Rightarrow> 'c easyproto \<Rightarrow> DelayCommand \<Rightarrow> ('db, 'q) badgerdriver
    \<Rightarrow> unit outcome \<times> ('db, 'q) badgerdriver" where
  "bg_Delay B E cmd d =
    (case seq_next B (bg_delayedOffsetSeq d) [] of
       (x, sw, c) \<Rightarrow>
         (let r = obind (wrap_err ''get next sequence: '' x) (\<lambda>nextOffset.
                case dl_Result cmd of
                  None \<Rightarrow> nil_deref
                | Some res \<Rightarrow>
                    (let ds = \<lparr>ds_State = ds_State res, ds_Offset = nextOffset, ds_ExecuteAt = dl_ExecuteAt cmd\<rparr>
                     in obind (wrap_err ''set delayed state: '' (setDelayedState B E (bd_NewTransaction B (bg_db d)) ds))
                          (\<lambda>txn. wrap_err ''set delayed offset index: '' (setDelayedOffsetIndex B txn ds))))
          in case db_Update B r (bg_db d) of
               (y, db) \<Rightarrow> (y, d\<lparr>bg_db := db, bg_delayedOffsetSeq := seq_commit c sw\<rparr>)))"

text \<open>The value of an item is taken for the key of a delayed state.\<close>

definition read_delayed ::
  "('db, 'txn, 'q) badger \<Rightarrow> 'c easyproto \<Rightarrow> 'txn \<Rightarrow> string \<Rightarrow> DelayedState outcome" where
  "read_delayed B E txn key =
    (case bd_Get B txn key of
       Err err \<Rightarrow> Err (Errorw ''get delayed state: '' err [])
     | Panic p \<Rightarrow> Panic p
     | Ok None \<Rightarrow> Err (Errorw ''get delayed state: '' (Errorf ''Key not found'') [])
     | Ok (Some val) \<Rightarrow> (case UnmarshalDelayedState E val DelayedState0 of (ds, r) \<Rightarrow> obind r (\<lambda>_. Ok ds)))"

partial_function (option) bg_GetDelayedStates_loop ::
  "('db, 'txn, 'q) badger \<Rightarrow> 'c easyproto \<Rightarrow> 'txn \<Rightarrow> GetDelayedStatesCommand \<Rightarrow> int \<Rightarrow> badgerIterator \<Rightarrow> DelayedState list
    \<Rightarrow> GetDelayedStatesResult outcome option" where
  "bg_GetDelayedStates_loop B E txn cmd untilOffset it states =
    (case bi_item it of
       None \<Rightarrow> Some (Ok \<lparr>gdr_States = states, gdr_More = False\<rparr>)
     | Some (_, key) \<Rightarrow>
         (case read_delayed B E txn key of
            Err err \<Rightarrow> Some (Err err)
          | Panic p \<Rightarrow> Some (Panic p)
          | Ok ds \<Rightarrow>
              (if Unix (ds_ExecuteAt ds) \<le> Unix (gt_Since cmd) then
                 bg_GetDelayedStates_loop B E txn cmd untilOffset (bi_Next B txn False it) states
               else if Unix (ds_ExecuteAt ds) > Unix (gt_Until cmd) then Some (Ok \<lparr>gdr_States = states, gdr_More = False\<rparr>)
               else if ds_Offset ds > untilOffset then Some (Ok \<lparr>gdr_States = states, gdr_More = False\<rparr>)
               else if int (length states) \<ge> gt_Limit cmd then Some (Ok \<lparr>gdr_States = states, gdr_More = True\<rparr>)
               else bg_GetDelayedStates_loop B E txn cmd untilOffset (bi_Next B txn False it) (states @ [ds]))))"

definition bg_GetDelayedStates ::
  "('db, 'txn, 'q) badger \<Rightarrow> 'c easyproto \<Rightarrow> GetDelayedStatesCommand \<Rightarrow> ('db, 'q) badgerdriver
    \<Rightarrow> GetDelayedStatesCommand outcome option" where
  "bg_GetDelayedStates B E cmd d =
    (let txn = bd_NewTransaction B (bg_db d); untilOffset = maxViewable (bg_delayedOffsetSeq d);
         (prfx, seek) = (if gt_Offset cmd > 0 \<or> IsZero (gt_Since cmd)
            then (delayedOffsetPrefix, delayedOffsetKey (gt_Offset cmd))
            else (delayedStatePrefix (gt_Since cmd), delayedStateKey (Unix (gt_Since cmd)) (gt_Offset cmd)));
         it = bi_Seek B txn False seek \<lparr>bi_prefix = prfx, bi_item = None\<rparr>
     in map_option (\<lambda>x. obind (wrap_err ''get delayed states: '' x) (\<lambda>res. Ok (cmd\<lparr>gt_Result := Some res\<rparr>)))
          (bg_GetDelayedStates_loop B E txn cmd untilOffset it []))"

section \<open>Commit\<close>

text \<open>
  The driver as its own sub commands call it. \<open>gd\<close> and \<open>sd\<close> are the reads and writes of blobs; a
  read by labels that does not come back is a panic here.
\<close>

definition badger_ops ::
  "('db, 'txn, 'q) badger \<Rightarrow> 'c libs
    \<Rightarrow> (GetDataCommand \<Rightarrow> heap \<Rightarrow> ('db, 'q) badgerdriver \<Rightarrow> unit outcome \<times> heap \<times> ('db, 'q) badgerdriver)
    \<Rightarrow> (StoreDataCommand \<Rightarrow> heap \<Rightarrow> ('db, 'q) badgerdriver \<Rightarrow> unit outcome \<times> heap \<times> ('db, 'q) badgerdriver)
    \<Rightarrow> ('db, 'q) badgerdriver CommitDriver" where
  "badger_ops B lb gd sd = \<lparr>drv_GetStateByID = bg_GetStateByID B (lib_easyproto lb),
    drv_GetStateByLabels = \<lambda>cmd h d. (case bg_GetStateByLabels B (lib_easyproto lb) cmd h d of
      None \<Rightarrow> (Panic ''no result'', h, d) | Some r \<Rightarrow> r),
    drv_GetData = gd, drv_StoreData = sd, drv_Delay = bg_Delay B (lib_easyproto lb)\<rparr>"

text \<open>The state and its indexes, in the order in which they are written.\<close>

definition put_state :: "('db, 'txn, 'q) badger \<Rightarrow> 'c easyproto \<Rightarrow> 'txn \<Rightarrow> State \<Rightarrow> 'txn outcome" where
  "put_state B E txn s =
    obind (wrap_err ''set state: '' (setState B E txn s)) (\<lambda>txn.
    obind (wrap_err ''set latest rev index: '' (setLatestRevIndex B txn s)) (\<lambda>txn.
    obind (wrap_err ''set labels index: '' (setLabelsIndex B txn s)) (\<lambda>txn.
    obind (wrap_err ''set rev index: '' (setRevIndex B txn s)) (\<lambda>txn.
    wrap_err ''set committed at index: '' (setCommittedAtIndex B txn s)))))"

text \<open>One context of a commit, under the revision it has been given.\<close>

definition commit_ctx ::
  "('db, 'txn, 'q) badger \<Rightarrow> 'c libs \<Rightarrow> int \<Rightarrow> StateCtx \<Rightarrow> 'txn \<Rightarrow> ('txn \<times> StateCtx) outcome" where
  "commit_ctx B lb nextRev stateCtx txn =
    (let sid = s_ID (sc_Current stateCtx)
     in if sid = [] then Err (Errorf ''state id empty'')
        else obind (getLatestRevIndex B txn sid) (\<lambda>commitedRev.
          if s_Rev (sc_Committed stateCtx) \<noteq> commitedRev then Err (ErrRevMismatch [sid])
          else let s = (State_CopyTo (sc_Current stateCtx) State0)
                 \<lparr>s_Rev := nextRev, s_CommittedAt := time_UnixMilli (UnixMilli (lib_Now lb nextRev))\<rparr>
               in obind (put_state B (lib_easyproto lb) (bd_Read B txn (latestRevKey sid)) s) (\<lambda>txn1. Ok (txn1, reset_Transitions (CopyToCtx s stateCtx)))))"

text \<open>
  The function of the transaction: it takes a revision per sub command, and hands back the
  commands, the heap, the driver as its sub commands left it and the revisions taken so far.
\<close>

fun commit_txn ::
  "('db, 'txn, 'q) badger \<Rightarrow> 'c libs \<Rightarrow> ('db, 'q) badgerdriver CommitDriver \<Rightarrow> Command list \<Rightarrow> heap \<Rightarrow> ('db, 'q) badgerdriver
    \<Rightarrow> 'txn \<Rightarrow> int list \<Rightarrow> 'txn outcome \<times> Command list \<times> heap \<times> ('db, 'q) badgerdriver \<times> int list" where
  "commit_txn B lb D [] h d txn c = (Ok txn, [], h, d, c)"
| "commit_txn B lb D (subCmd0 # cmds) h d txn c =
    (case seq_next B (bg_stateRevSeq d) c of
       (Err err, sw, c1) \<Rightarrow> (Err (Errorw ''get next sequence: '' err []), subCmd0 # cmds, h, d\<lparr>bg_stateRevSeq := sw\<rparr>, c1)
     | (Panic p, sw, c1) \<Rightarrow> (Panic p, subCmd0 # cmds, h, d\<lparr>bg_stateRevSeq := sw\<rparr>, c1)
     | (Ok nextRev, sw, c1) \<Rightarrow>
         (case DoCommitSubCommand lb D subCmd0 h (d\<lparr>bg_stateRevSeq := sw\<rparr>) of
            (Err err, subCmd, h1, d1) \<Rightarrow> (Err (Errorw (cmd_type subCmd0 @ '': do: '') err []), subCmd # cmds, h1, d1, c1)
          | (Panic p, subCmd, h1, d1) \<Rightarrow> (Panic p, subCmd # cmds, h1, d1, c1)
          | (Ok _, subCmd, h1, d1) \<Rightarrow>
              (case committable subCmd of
                 None \<Rightarrow> (case commit_txn B lb D cmds h1 d1 txn c1 of (r, cs, z) \<Rightarrow> (r, subCmd # cs, z))
               | Some p \<Rightarrow>
                   (case deref h1 p of
                      None \<Rightarrow> (nil_deref, subCmd # cmds, h1, d1, c1)
                    | Some stateCtx \<Rightarrow>
                        (case commit_ctx B lb nextRev stateCtx txn of
                           Err err \<Rightarrow> (Err err, subCmd # cmds, h1, d1, c1)
                         | Panic q \<Rightarrow> (Panic q, subCmd # cmds, h1, d1, c1)
                         | Ok (txn1, c') \<Rightarrow>
                             (case commit_txn B lb D cmds (store h1 p c') d1 txn1 c1 of (r, cs, z) \<Rightarrow> (r, subCmd # cs, z)))))))"

definition commit_revs :: "int list \<Rightarrow> ('db, 'q) badgerdriver \<Rightarrow> ('db, 'q) badgerdriver" where
  "commit_revs c d = d\<lparr>bg_stateRevSeq := seq_commit c (bg_stateRevSeq d)\<rparr>"

text \<open>
  The attempts. \<open>others\<close> is what other goroutines do to the driver, its store and its sequences,
  between the start of an attempt and its commit, one entry per attempt. The numbers they take while
  the transaction takes its own are left out by the sequence, which need not count in ones.
\<close>

fun commit_attempts ::
  "nat \<Rightarrow> ('db, 'txn, 'q) badger \<Rightarrow> 'c libs \<Rightarrow> ('db, 'q) badgerdriver CommitDriver
    \<Rightarrow> (('db, 'q) badgerdriver \<Rightarrow> ('db, 'q) badgerdriver) list \<Rightarrow> Command list
    \<Rightarrow> heap \<Rightarrow> ('db, 'q) badgerdriver \<Rightarrow> unit outcome \<times> Command list \<times> heap \<times> ('db, 'q) badgerdriver" where
  "commit_attempts n B lb D others cmds h d =
    (case commit_txn B lb D cmds h d (bd_NewTransaction B (bg_db d)) [] of
       (r, cs, h1, d1, c) \<Rightarrow>
         (let d2 = (case others of [] \<Rightarrow> d1 | f # _ \<Rightarrow> f d1)
          in case db_Update B r (bg_db d2) of
               (Ok _, db) \<Rightarrow> (Ok (), cs, h1, commit_revs c (d2\<lparr>bg_db := db\<rparr>))
             | (Panic p, db) \<Rightarrow> (Panic p, cs, h1, commit_revs c (d2\<lparr>bg_db := db\<rparr>))
             | (Err err, db) \<Rightarrow>
                 (if Is_ErrConflict err \<and> n > 0
                  then commit_attempts (n - 1) B lb D (tl others) cs h1 (commit_revs c (d2\<lparr>bg_db := db\<rparr>))
                  else (Err err, cs, h1, commit_revs c (d2\<lparr>bg_db := db\<rparr>)))))"

declare commit_attempts.simps [simp del]

definition bg_Commit ::
  "('db, 'txn, 'q) badger \<Rightarrow> 'c libs \<Rightarrow> ('db, 'q) badgerdriver CommitDriver
    \<Rightarrow> (('db, 'q) badgerdriver \<Rightarrow> ('db, 'q) badgerdriver) list \<Rightarrow> Command list
    \<Rightarrow> heap \<Rightarrow> ('db, 'q) badgerdriver \<Rightarrow> unit outcome \<times> Command list \<times> heap \<times> ('db, 'q) badgerdriver" where
  "bg_Commit B lb D others cmds h d = commit_attempts (length cmds) B lb D others cmds h d"

end
