(* ===== verification/BadgerSeq.thy ===== *)
theory BadgerSeq
  imports BadgerDriver
begin

text \<open>
  Commits and reads of the badger driver side by side: the numbers of \<open>nextWithCommit\<close>, the
  transactions that store states under them and a reader that goes up to \<open>maxViewable\<close>, as a
  sequence of events of several goroutines. A reader misses nothing when no commit ends between its
  snapshot and its limit and every number is registered as soon as it is taken; nothing in the
  driver makes that so, and without either a reader misses states.
\<close>

section \<open>Events\<close>

text \<open>
  A transaction has been given numbers; the last one may not be in \<open>ongoing\<close> yet, because
  \<open>nextWithCommit\<close> takes the number before it locks the mutex. The reader has a snapshot of the
  store, and then a limit: \<open>maxViewable\<close> is called in the function of the transaction.
\<close>

record seq_txn =
  tx_nums :: "int list"
  tx_pending :: "int option"

record seq_sys =
  ss_sw :: "nat sequenceWithCommit"
  ss_stored :: "int list"
  ss_txns :: "nat \<rightharpoonup> seq_txn"
  ss_snap :: "int list option"
  ss_limit :: "int option"

datatype seq_event = Begin nat | Take nat | Register nat | Apply nat | Finish nat | Snapshot | Limit

text \<open>The numbers of a transaction that has registered all of them.\<close>

definition ready :: "seq_sys \<Rightarrow> nat \<Rightarrow> int list option" where
  "ready s i = (case ss_txns s i of None \<Rightarrow> None | Some x \<Rightarrow> if tx_pending x = None then Some (tx_nums x) else None)"

definition set_txn :: "nat \<Rightarrow> int list \<Rightarrow> int option \<Rightarrow> seq_sys \<Rightarrow> seq_sys" where
  "set_txn i c p s = s\<lparr>ss_txns := (ss_txns s)(i \<mapsto> \<lparr>tx_nums = c, tx_pending = p\<rparr>)\<rparr>"

fun seq_step :: "seq_event \<Rightarrow> seq_sys \<Rightarrow> seq_sys option" where
  "seq_step (Begin i) s = (case ss_txns s i of Some _ \<Rightarrow> None | None \<Rightarrow> Some (set_txn i [] None s))"
| "seq_step (Take i) s =
    map_option (\<lambda>c. set_txn i c (Some (int (sw_seq (ss_sw s)))) (s\<lparr>ss_sw := (ss_sw s)\<lparr>sw_seq := Suc (sw_seq (ss_sw s))\<rparr>\<rparr>)) (ready s i)"
| "seq_step (Register i) s =
    (case ss_txns s i of
       None \<Rightarrow> None
     | Some x \<Rightarrow> map_option (\<lambda>n. set_txn i (tx_nums x @ [n]) None (s\<lparr>ss_sw := seq_register n (ss_sw s)\<rparr>)) (tx_pending x))"
| "seq_step (Apply i) s = map_option (\<lambda>c. s\<lparr>ss_stored := c @ ss_stored s\<rparr>) (ready s i)"
| "seq_step (Finish i) s =
    map_option (\<lambda>c. s\<lparr>ss_sw := seq_commit c (ss_sw s), ss_txns := (ss_txns s)(i := None)\<rparr>) (ready s i)"
| "seq_step Snapshot s = Some (s\<lparr>ss_snap := Some (ss_stored s), ss_limit := None\<rparr>)"
| "seq_step Limit s =
    (case (ss_snap s, ss_limit s) of
       (Some _, None) \<Rightarrow> Some (s\<lparr>ss_limit := Some (maxViewable (ss_sw s))\<rparr>)
     | _ \<Rightarrow> None)"

fun seq_run :: "seq_event list \<Rightarrow> seq_sys \<Rightarrow> seq_sys option" where
  "seq_run [] s = Some s"
| "seq_run (e # es) s = (case seq_step e s of None \<Rightarrow> None | Some s' \<Rightarrow> seq_run es s')"

text \<open>The sequence of a new driver: the first number has been thrown away.\<close>

definition seq_start :: seq_sys where
  "seq_start = \<lparr>ss_sw = \<lparr>sw_seq = 1, sw_ongoing = [], sw_maxOngoing = 0, sw_maxCommitted = 0\<rparr>,
    ss_stored = [], ss_txns = Map.empty, ss_snap = None, ss_limit = None\<rparr>"

text \<open>What the reader returns.\<close>

definition seen :: "seq_sys \<Rightarrow> int list" where
  "seen s = (case (ss_snap s, ss_limit s) of (Some stored, Some limit) \<Rightarrow> filter (\<lambda>r. r \<le> limit) stored | _ \<Rightarrow> [])"

text \<open>Every number is in \<open>ongoing\<close> as soon as it has been taken, as under one mutex.\<close>

fun prompt :: "seq_event list \<Rightarrow> bool" where
  "prompt [] = True"
| "prompt (Take i # Register j # es) \<longleftrightarrow> i = j \<and> prompt es"
| "prompt (Take i # es) = False"
| "prompt (Register i # es) = False"
| "prompt (Snapshot # es) = False"
| "prompt (Limit # es) = False"
| "prompt (e # es) = prompt es"

section \<open>What holds between the events\<close>

definition nums :: "seq_sys \<Rightarrow> nat \<Rightarrow> int set" where
  "nums s i = (case ss_txns s i of None \<Rightarrow> {} | Some x \<Rightarrow> set (tx_nums x))"

definition sys_ok :: "seq_sys \<Rightarrow> bool" where
  "sys_ok s \<longleftrightarrow> (\<forall>i. nums s i \<subseteq> set (sw_ongoing (ss_sw s))) \<and> (\<forall>i j. i \<noteq> j \<longrightarrow> nums s i \<inter> nums s j = {})
    \<and> (\<forall>r \<in> set (sw_ongoing (ss_sw s)). sw_maxCommitted (ss_sw s) \<le> r \<and> r < int (sw_seq (ss_sw s)))
    \<and> sw_maxCommitted (ss_sw s) \<le> int (sw_seq (ss_sw s)) \<and> sw_maxOngoing (ss_sw s) < int (sw_seq (ss_sw s))"

text \<open>Below a limit \<open>l\<close> that has been read when \<open>a\<close> was stored nothing is stored any more.\<close>

definition settled :: "int \<Rightarrow> int set \<Rightarrow> seq_sys \<Rightarrow> bool" where
  "settled l a s \<longleftrightarrow> a \<subseteq> set (ss_stored s) \<and> (\<forall>r \<in> set (ss_stored s). r < l \<longrightarrow> r \<in> a)
    \<and> (\<forall>i. \<forall>r \<in> nums s i. l \<le> r) \<and> l \<le> int (sw_seq (ss_sw s))"

lemma fold_min_le: "fold min xs (m :: int) \<le> m \<and> (\<forall>x \<in> set xs. fold min xs m \<le> x)"
proof (induction xs arbitrary: m)
  case (Cons x xs)
  from Cons [of "min x m"] show ?case by auto
qed simp

lemma seq_run_append: "seq_run (es @ fs) s = (case seq_run es s of None \<Rightarrow> None | Some s' \<Rightarrow> seq_run fs s')"
  by (induction es arbitrary: s) (auto split: option.split)

text \<open>A number that is taken and registered at once, as one event.\<close>

lemma take_register:
  assumes "seq_run (Take i # Register i # es) s = Some s'"
  obtains c where "ready s i = Some c"
    "seq_run es (set_txn i (c @ [int (sw_seq (ss_sw s))]) None
      (s\<lparr>ss_sw := seq_register (int (sw_seq (ss_sw s))) ((ss_sw s)\<lparr>sw_seq := Suc (sw_seq (ss_sw s))\<rparr>)\<rparr>)) = Some s'"
  using assms by (auto simp: set_txn_def split: option.splits)

lemma nums_simps [simp]:
  "nums (set_txn i c p s) j = (if j = i then set c else nums s j)"
  "nums (s\<lparr>ss_sw := sw\<rparr>) j = nums s j" "nums (s\<lparr>ss_stored := rs\<rparr>) j = nums s j"
  "nums (s\<lparr>ss_txns := (ss_txns s)(i := None)\<rparr>) j = (if j = i then {} else nums s j)"
  "nums (s\<lparr>ss_sw := sw, ss_txns := (ss_txns s)(i := None)\<rparr>) j = (if j = i then {} else nums s j)"
  "nums (s\<lparr>ss_limit := l\<rparr>) j = nums s j" "nums (s\<lparr>ss_snap := v\<rparr>) j = nums s j"
  "ss_sw (set_txn i c p s) = ss_sw s" "ss_stored (set_txn i c p s) = ss_stored s"
  by (auto simp: nums_def set_txn_def)

lemma ready_nums: "ready s i = Some c \<Longrightarrow> nums s i = set c"
  by (auto simp: ready_def nums_def split: option.splits if_splits)

definition kept :: "(seq_sys \<Rightarrow> bool) \<Rightarrow> bool" where
  "kept P \<longleftrightarrow> (\<forall>s i c. P s \<longrightarrow>
      (ss_txns s i = None \<longrightarrow> P (set_txn i [] None s))
    \<and> (ready s i = Some c \<longrightarrow> P (set_txn i (c @ [int (sw_seq (ss_sw s))]) None
        (s\<lparr>ss_sw := seq_register (int (sw_seq (ss_sw s))) ((ss_sw s)\<lparr>sw_seq := Suc (sw_seq (ss_sw s))\<rparr>)\<rparr>)))
    \<and> (ready s i = Some c \<longrightarrow> P (s\<lparr>ss_stored := c @ ss_stored s\<rparr>))
    \<and> (ready s i = Some c \<longrightarrow> P (s\<lparr>ss_sw := seq_commit c (ss_sw s), ss_txns := (ss_txns s)(i := None)\<rparr>)))"

lemma kept_step:
  assumes "kept P" "P s" "seq_step e s = Some s'" "e = Begin i \<or> e = Apply i \<or> e = Finish i"
  shows "P s'"
  using assms(4)
proof (elim disjE)
  assume "e = Begin i"
  with assms show "P s'" by (auto simp: kept_def split: option.splits)
next
  assume e: "e = Apply i"
  with assms(3) obtain c where "ready s i = Some c" "s' = s\<lparr>ss_stored := c @ ss_stored s\<rparr>" by auto
  with assms(1,2) show "P s'" unfolding kept_def by blast
next
  assume e: "e = Finish i"
  with assms(3) obtain c where "ready s i = Some c" "s' = s\<lparr>ss_sw := seq_commit c (ss_sw s), ss_txns := (ss_txns s)(i := None)\<rparr>" by auto
  with assms(1,2) show "P s'" unfolding kept_def by blast
qed

lemma seq_run_Cons: "seq_run (e # es) s = Some s' \<longleftrightarrow> (\<exists>s1. seq_step e s = Some s1 \<and> seq_run es s1 = Some s')"
  by (simp split: option.split)

lemma prompt_run_kept:
  assumes "kept P" "prompt es" "P s" "seq_run es s = Some s'"
  shows "P s'"
  using assms(2-4)
proof (induction es arbitrary: s rule: prompt.induct)
  case (2 i j es)
  from 2(2) have "i = j" "prompt es" by simp_all
  from 2(4) [folded \<open>i = j\<close>] obtain c where "ready s i = Some c"
    "seq_run es (set_txn i (c @ [int (sw_seq (ss_sw s))]) None
      (s\<lparr>ss_sw := seq_register (int (sw_seq (ss_sw s))) ((ss_sw s)\<lparr>sw_seq := Suc (sw_seq (ss_sw s))\<rparr>)\<rparr>)) = Some s'"
    by (rule take_register)
  with 2(1) [OF \<open>prompt es\<close>] 2(3) assms(1) show ?case unfolding kept_def by blast
qed (use assms(1) kept_step [OF assms(1)] in \<open>simp_all add: seq_run_Cons del: seq_run.simps(2) seq_step.simps, (blast | simp)+\<close>)

lemma kept_sys_ok: "kept sys_ok"
  unfolding kept_def
proof (intro allI impI conjI, goal_cases)
  case (1 s i c)
  then show ?case by (auto simp: sys_ok_def)
next
  case (2 s i c)
  have n: "r < int (sw_seq (ss_sw s))" if "r \<in> nums s j" for r j
    using 2(1) that unfolding sys_ok_def by blast
  have "nums s i = set c" using ready_nums [OF 2(2)] .
  with 2(1) n show ?case by (fastforce simp: sys_ok_def seq_register_def)
next
  case (3 s i c)
  then show ?case by (simp add: sys_ok_def)
next
  case (4 s i c)
  have c: "nums s i = set c" using ready_nums [OF 4(2)] .
  show ?case
  proof (cases "c = []")
    case True
    with 4(1) c show ?thesis by (auto simp: sys_ok_def seq_commit_def)
  next
    case False
    let ?on = "filter (\<lambda>r. r \<notin> set c) (sw_ongoing (ss_sw s))"
    have "nums s j \<subseteq> set ?on" if "j \<noteq> i" for j using 4(1) c that by (force simp: sys_ok_def)
    moreover have "fold min ?on (sw_maxOngoing (ss_sw s)) \<le> sw_maxOngoing (ss_sw s)"
      "\<forall>r \<in> set ?on. fold min ?on (sw_maxOngoing (ss_sw s)) \<le> r"
      using fold_min_le by blast+
    ultimately show ?thesis using 4(1) c False by (auto simp: sys_ok_def seq_commit_def Let_def)
  qed
qed

lemma kept_settled: "kept (settled l a)"
  unfolding kept_def
proof (intro allI impI conjI, goal_cases)
  case (1 s i c)
  then show ?case by (auto simp: settled_def)
next
  case (2 s i c)
  have "\<forall>r \<in> set c. l \<le> r" using 2(1) unfolding ready_nums [OF 2(2), symmetric] settled_def by blast
  with 2(1) show ?case by (auto simp: settled_def seq_register_def)
next
  case (3 s i c)
  have "\<forall>r \<in> set c. l \<le> r" using 3(1) unfolding ready_nums [OF 3(2), symmetric] settled_def by blast
  with 3(1) show ?case by (auto simp: settled_def)
next
  case (4 s i c)
  then show ?case by (auto simp: settled_def seq_commit_def Let_def)
qed

lemma prompt_run_keeps_reader:
  assumes "prompt es" "seq_run es s = Some s'"
  shows "ss_limit s' = ss_limit s" "ss_snap s' = ss_snap s"
proof -
  have "kept (\<lambda>x. ss_limit x = ss_limit s \<and> ss_snap x = ss_snap s)" by (simp add: kept_def set_txn_def)
  from prompt_run_kept [OF this assms(1) _ assms(2)] show "ss_limit s' = ss_limit s" "ss_snap s' = ss_snap s" by simp_all
qed

text \<open>The limit moves only when a transaction ends.\<close>

fun ends_txn :: "seq_event \<Rightarrow> bool" where
  "ends_txn (Finish i) = True"
| "ends_txn e = False"

lemma limit_kept:
  "\<forall>e \<in> set es. \<not> ends_txn e \<Longrightarrow> seq_run es s = Some s' \<Longrightarrow> maxViewable (ss_sw s') = maxViewable (ss_sw s)"
proof (induction es arbitrary: s)
  case (Cons e es)
  then obtain s1 where s1: "seq_step e s = Some s1" "seq_run es s1 = Some s'" unfolding seq_run_Cons by blast
  then have "maxViewable (ss_sw s1) = maxViewable (ss_sw s)"
    using Cons.prems(1) by (cases e) (auto simp: maxViewable_def set_txn_def seq_register_def split: option.splits)
  with Cons.IH [OF _ s1(2)] Cons.prems(1) show ?case by simp
qed simp

section \<open>Properties\<close>

text \<open>
  When no commit ends between the snapshot and the limit of a reader and every number is registered
  as soon as it is taken, the reader misses nothing, whatever the other goroutines do and in
  whatever order they commit: no revision up to the last one it returns is ever stored without
  being returned.
\<close>

lemma badger_view_complete:
  assumes "prompt es1" "prompt es2" "prompt es3" "\<forall>e \<in> set es2. \<not> ends_txn e"
    and "seq_run (es1 @ Snapshot # es2 @ Limit # es3) seq_start = Some s"
    and "r \<in> set (ss_stored s)" "m \<in> set (seen s)" "r \<le> m"
  shows "r \<in> set (seen s)"
proof -
  from assms(5) obtain s1 s2 s3 where r1: "seq_run es1 seq_start = Some s1"
    and r2: "seq_run es2 (s1\<lparr>ss_snap := Some (ss_stored s1), ss_limit := None\<rparr>) = Some s2"
    and r3: "seq_run es3 (s2\<lparr>ss_limit := Some (maxViewable (ss_sw s2))\<rparr>) = Some s"
    by (auto simp: seq_run_append split: option.splits)
  have "sys_ok seq_start" by (simp add: sys_ok_def seq_start_def nums_def)
  from prompt_run_kept [OF kept_sys_ok assms(1) this r1] have ok: "sys_ok s1" .
  let ?l = "maxViewable (ss_sw s1)" and ?a = "set (ss_stored s1)"
  have "settled ?l ?a (s1\<lparr>ss_snap := Some (ss_stored s1), ss_limit := None\<rparr>)"
    using ok unfolding settled_def sys_ok_def maxViewable_def by (simp add: nums_def) blast
  from prompt_run_kept [OF kept_settled assms(2) this r2] have s2: "settled ?l ?a s2" .
  have l: "maxViewable (ss_sw s2) = ?l" using limit_kept [OF assms(4) r2] by simp
  from s2 have "settled ?l ?a (s2\<lparr>ss_limit := Some (maxViewable (ss_sw s2))\<rparr>)" by (simp add: settled_def nums_def)
  from prompt_run_kept [OF kept_settled assms(3) this r3] have s3: "settled ?l ?a s" .
  have "ss_limit s = Some ?l" "ss_snap s = Some (ss_stored s1)"
    using prompt_run_keeps_reader [OF assms(2) r2] prompt_run_keeps_reader [OF assms(3) r3] l by simp_all
  then have seen: "seen s = filter (\<lambda>r. r \<le> ?l) (ss_stored s1)" by (simp add: seen_def)
  then have m: "m \<le> ?l" "m \<in> set (ss_stored s1)" using assms(7) by simp_all
  show ?thesis
  proof (cases "r < ?l")
    case True
    with s3 assms(6) show ?thesis by (auto simp: seen settled_def)
  next
    case False
    with m assms(7,8) have "r = m" by simp
    with assms(7) show ?thesis by simp
  qed
qed

lemma badger_view_complete_instance:
  "\<exists>s. seq_run ([Begin 1, Take 1, Register 1, Begin 2, Take 2, Register 2, Apply 2, Apply 1, Finish 1]
        @ Snapshot # [Begin 3, Take 3, Register 3, Apply 3] @ Limit # [Finish 2, Finish 3]) seq_start = Some s
    \<and> seen s = [1, 2] \<and> 3 \<in> set (ss_stored s) \<and> 1 \<in> set (seen s)"
proof -
  let ?es1 = "[Begin 1, Take 1, Register 1, Begin 2, Take 2, Register 2, Apply 2, Apply 1, Finish 1]"
    and ?es2 = "[Begin 3, Take 3, Register 3, Apply 3]" and ?es3 = "[Finish 2, Finish 3]"
  have p: "prompt ?es1" "prompt ?es2" "prompt ?es3" "\<forall>e \<in> set ?es2. \<not> ends_txn e" by simp_all
  have "map_option (\<lambda>s. (seen s, ss_stored s)) (seq_run (?es1 @ Snapshot # ?es2 @ Limit # ?es3) seq_start) = Some ([1, 2], [3, 1, 2])"
    by code_simp
  then obtain s where s: "seq_run (?es1 @ Snapshot # ?es2 @ Limit # ?es3) seq_start = Some s" "seen s = [1, 2]" "ss_stored s = [3, 1, 2]"
    by (auto simp del: seq_run.simps)
  have "1 \<in> set (seen s)"
    by (rule badger_view_complete [OF p s(1), of 1 2]) (simp_all add: s(2,3))
  with s show ?thesis by (simp del: seq_run.simps)
qed

text \<open>
  The driver reads the limit of a view inside the transaction, after its snapshot has been
  taken, and registers a number some time after it has been taken. Either is enough to miss a
  state: a reader that returns revision 2 without revision 1, although 1 was stored before the
  reader ended, or is stored later. The second race also moves the limit back, so that a state
  that is committed can no longer be read.
\<close>

lemma badger_view_races:
  "(\<exists>es1 es2 es3 s. prompt es1 \<and> prompt es2 \<and> prompt es3 \<and> seq_run (es1 @ Snapshot # es2 @ Limit # es3) seq_start = Some s
      \<and> seen s = [2] \<and> set (ss_stored s) = {1, 2})
    \<and> (\<exists>es1 es2 s s'. seq_run (es1 @ [Snapshot, Limit]) seq_start = Some s \<and> seen s = [2]
        \<and> seq_run es2 s = Some s' \<and> set (ss_stored s') = {1, 2} \<and> sw_ongoing (ss_sw s') = [] \<and> maxViewable (ss_sw s') = 1)"
proof
  let ?es1 = "[Begin 1, Take 1, Register 1, Begin 2, Take 2, Register 2, Apply 2]" and ?es2 = "[Apply 1, Finish 1, Finish 2]"
  have "prompt ?es1" "prompt ?es2" "prompt []" by simp_all
  moreover have "map_option (\<lambda>s. (seen s, set (ss_stored s))) (seq_run (?es1 @ Snapshot # ?es2 @ Limit # []) seq_start) = Some ([2], {1, 2})"
    by code_simp
  ultimately show "\<exists>es1 es2 es3 s. prompt es1 \<and> prompt es2 \<and> prompt es3 \<and> seq_run (es1 @ Snapshot # es2 @ Limit # es3) seq_start = Some s
      \<and> seen s = [2] \<and> set (ss_stored s) = {1, 2}"
    by (intro exI [of _ ?es1] exI [of _ ?es2] exI [of _ "[]"]) auto
next
  let ?es1 = "[Begin 1, Take 1, Begin 2, Take 2, Register 2, Apply 2, Finish 2]" and ?es2 = "[Register 1, Apply 1, Finish 1]"
  have "map_option seen (seq_run (?es1 @ [Snapshot, Limit]) seq_start) = Some [2]"
    "map_option (\<lambda>s. (set (ss_stored s), sw_ongoing (ss_sw s), maxViewable (ss_sw s))) (seq_run ((?es1 @ [Snapshot, Limit]) @ ?es2) seq_start)
      = Some ({1, 2}, [], 1)" by code_simp+
  then show "\<exists>es1 es2 s s'. seq_run (es1 @ [Snapshot, Limit]) seq_start = Some s \<and> seen s = [2]
        \<and> seq_run es2 s = Some s' \<and> set (ss_stored s') = {1, 2} \<and> sw_ongoing (ss_sw s') = [] \<and> maxViewable (ss_sw s') = 1"
    unfolding seq_run_append [of "?es1 @ [Snapshot, Limit]"]
    by (intro exI [of _ ?es1] exI [of _ ?es2]) (auto split: option.splits simp del: seq_run.simps)
qed

end
