(* ===== verification/BadgerIterProps.thy ===== *)
theory BadgerIterProps
  imports BadgerIter
begin

text \<open>
  What the iterators of the badger driver visit: an index is a list of revisions in order, a seek
  finds the first revision that is not below the one sought, and an iterator over a label set
  visits exactly the revisions that all of its indexes hold.
\<close>

section \<open>Searching\<close>

lemma find_conj: "find (\<lambda>x. P x \<and> Q x) xs = find Q (filter P xs)"
  by (induction xs) auto

lemma find_map: "find P (map f xs) = map_option f (find (P \<circ> f) xs)"
  by (induction xs) auto

text \<open>The first element of a sorted list that passes an upward closed test is the least.\<close>

lemma find_least:
  assumes "sorted_wrt (\<lambda>x y. f x < (f y :: int)) xs" "find (\<lambda>x. a \<le> f x) xs = Some y"
  shows "y \<in> set xs \<and> a \<le> f y \<and> (\<forall>x \<in> set xs. a \<le> f x \<longrightarrow> f y \<le> f x)"
  using assms by (induction xs) (auto split: if_splits)

lemma map_of_rebuild: "distinct (map fst xs) \<Longrightarrow> map (\<lambda>k. (k, the (map_of xs k))) (map fst xs) = xs"
  unfolding map_map by (rule map_idI) auto

lemma sorted_map_unique:
  assumes "sorted_wrt (<) (map fst xs)" "sorted_wrt (<) (map fst ys)" "map_of xs = map_of (ys :: ('a :: linorder \<times> 'b) list)"
  shows "xs = ys"
proof -
  have d: "distinct (map fst xs)" "distinct (map fst ys)" using assms(1,2) by (auto simp: strict_sorted_iff)
  have "set (map fst xs) = set (map fst ys)"
    using assms(3) by (metis dom_map_of_conv_image_fst set_map)
  with assms(1,2) have "map fst xs = map fst ys" by (simp add: strict_sorted_equal)
  then show ?thesis using map_of_rebuild [OF d(1)] map_of_rebuild [OF d(2)] assms(3) by simp
qed

section \<open>One index\<close>

text \<open>
  The entries of a prefix: \<open>index vw p es\<close> says that \<open>vw\<close> holds under the prefix \<open>p\<close> exactly the
  values of \<open>es\<close>, each under its padded revision.
\<close>

definition entry_of :: "string \<Rightarrow> int \<times> string \<Rightarrow> string \<times> string" where
  "entry_of p = (\<lambda>(r, v). (p @ fmt_020d r, v))"

definition index :: "(string \<times> string) list \<Rightarrow> string \<Rightarrow> (int \<times> string) list \<Rightarrow> bool" where
  "index vw p es \<longleftrightarrow> filter (\<lambda>(k, _). prefix p k) vw = map (entry_of p) es \<and> (\<forall>r \<in> fst ` set es. keyed r)"

lemma index_keyed: "index vw p es \<Longrightarrow> (r, v) \<in> set es \<Longrightarrow> keyed r"
  by (force simp: index_def)

lemma index_sorted:
  assumes "index vw p es" "sorted_wrt (<) (map fst vw)"
  shows "sorted_wrt (\<lambda>x y. fst x < fst y) es"
proof -
  have "sorted_wrt (\<lambda>x y. fst x < fst y) (filter (\<lambda>(k, _). prefix p k) vw)"
    using assms(2) by (simp add: sorted_wrt_map sorted_wrt_filter)
  then have "sorted_wrt (\<lambda>x y. fst (entry_of p x) < fst (entry_of p y)) es"
    using assms(1) by (simp add: index_def sorted_wrt_map)
  then show ?thesis
    by (rule sorted_wrt_mono_rel [rotated]) (auto simp: entry_of_def index_keyed [OF assms(1)])
qed

context badger_laws
begin

lemma find_index:
  assumes "index (view t) p es" "\<And>r v. (r, v) \<in> set es \<Longrightarrow> P (p @ fmt_020d r) \<longleftrightarrow> Q r"
  shows "find (\<lambda>(k, _). prefix p k \<and> P k) (view t) = map_option (entry_of p) (find (\<lambda>(r, _). Q r) es)"
proof -
  have "find (\<lambda>(k, _). prefix p k \<and> P k) (view t) = find (\<lambda>(k, _). P k) (map (entry_of p) es)"
    using find_conj [of "\<lambda>(k, _). prefix p k" "\<lambda>(k, _). P k" "view t"] assms(1)
    by (simp add: index_def case_prod_unfold)
  also have "\<dots> = map_option (entry_of p) (find (\<lambda>(r, _). Q r) es)"
    unfolding find_map
    by (intro arg_cong [of _ _ "map_option (entry_of p)"] find_cong)
      (use assms(2) in \<open>auto simp: entry_of_def\<close>)
  finally show ?thesis .
qed

text \<open>A seek forward stops at the first revision that is not below \<open>since\<close>, or, behind \<open>0xFF\<close>, above it.\<close>

lemma Seek_index:
  assumes "index (view t) p es" "keyed since"
  shows "bd_Seek B t False p (p @ fmt_020d since) = map_option (entry_of p) (find (\<lambda>(r, _). since \<le> r) es)"
    and "u \<noteq> [] \<Longrightarrow> bd_Seek B t False p (p @ fmt_020d since @ u) = map_option (entry_of p) (find (\<lambda>(r, _). since < r) es)"
  using find_index [OF assms(1), of "\<lambda>k. p @ fmt_020d since \<le> k" "\<lambda>r. since \<le> r"]
    find_index [OF assms(1), of "\<lambda>k. p @ fmt_020d since @ u \<le> k" "\<lambda>r. since < r"]
    index_keyed [OF assms(1)] assms(2)
  by (simp_all add: Seek fmt_020d_FF)

lemma Next_index:
  assumes "index (view t) p es" "keyed cur"
  shows "bd_Next B t False p (p @ fmt_020d cur) = map_option (entry_of p) (find (\<lambda>(r, _). cur < r) es)"
  using find_index [OF assms(1), of "\<lambda>k. p @ fmt_020d cur < k" "\<lambda>r. cur < r"] index_keyed [OF assms(1)] assms(2)
  by (simp add: Next)

end

section \<open>Iterators on their indexes\<close>

type_synonym indexed = "string \<times> (int \<times> string) list"

definition at_rev :: "badgerIterator \<Rightarrow> int" where
  "at_rev it = (case bi_item it of None \<Rightarrow> 0 | Some (k, _) \<Rightarrow> fst (ParseInt (drop (length (bi_prefix it)) k)))"

text \<open>The iterator stands on an entry of the index.\<close>

definition stands :: "(string \<times> string) list \<Rightarrow> indexed \<Rightarrow> badgerIterator \<Rightarrow> bool" where
  "stands vw pe it \<longleftrightarrow> index vw (fst pe) (snd pe) \<and> bi_prefix it = fst pe
    \<and> (\<exists>e \<in> set (snd pe). bi_item it = Some (entry_of (fst pe) e))"

text \<open>The revisions that all indexes hold.\<close>

definition common :: "indexed list \<Rightarrow> int set" where
  "common pes = {r. \<forall>pe \<in> set pes. r \<in> fst ` set (snd pe)}"

lemma common_Cons [simp]: "r \<in> common (pe # pes) \<longleftrightarrow> r \<in> fst ` set (snd pe) \<and> r \<in> common pes"
  by (auto simp: common_def)

lemma toRev_entry:
  assumes "keyed r" "bi_item it = Some (entry_of p (r, v))" "bi_prefix it = p"
  shows "toRev it = Ok r" "at_rev it = r"
  using assms fmt_020d_keyed(3) [OF assms(1)] by (simp_all add: toRev_def parse_rev_def entry_of_def at_rev_def)

lemma stands_at:
  assumes "stands vw pe it"
  shows "toRev it = Ok (at_rev it)" "at_rev it \<in> fst ` set (snd pe)" "keyed (at_rev it)" "bi_Valid it"
    "\<exists>v. (at_rev it, v) \<in> set (snd pe) \<and> bi_item it = Some (entry_of (fst pe) (at_rev it, v))"
proof -
  from assms obtain r v where e: "(r, v) \<in> set (snd pe)" "bi_item it = Some (entry_of (fst pe) (r, v))" "bi_prefix it = fst pe"
    and i: "index vw (fst pe) (snd pe)" by (auto simp: stands_def)
  from toRev_entry [OF index_keyed [OF i e(1)] e(2,3)] e index_keyed [OF i e(1)]
  show "toRev it = Ok (at_rev it)" "at_rev it \<in> fst ` set (snd pe)" "keyed (at_rev it)" "bi_Valid it"
    "\<exists>v. (at_rev it, v) \<in> set (snd pe) \<and> bi_item it = Some (entry_of (fst pe) (at_rev it, v))"
    by (force simp: bi_Valid_def)+
qed

lemma nextRev_loop_max:
  "list_all2 (stands vw) pes its \<Longrightarrow> nextRev_loop False its a = Ok (fold max (map at_rev its) a)"
  by (induction its arbitrary: a pes) (auto simp: list_all2_Cons2 stands_at(1))

lemma fold_max: "fold max xs (a :: int) = Max (insert a (set xs))"
proof -
  have "fold max xs a = Max (set (a # xs))" using Max.set_eq_fold [of a xs] by simp
  then show ?thesis by simp
qed

context badger_laws
begin

lemma seekToRev_index:
  assumes "index (view t) p es" "keyed m" "bi_prefix it = p"
  shows "seekToRev B t False it m = (case find (\<lambda>(r, _). m \<le> r) es of
      None \<Rightarrow> (Ok Exhausted, it\<lparr>bi_item := None\<rparr>)
    | Some e \<Rightarrow> (Ok (if m < fst e then Missed else Reached), it\<lparr>bi_item := Some (entry_of p e)\<rparr>))"
proof (cases "find (\<lambda>(r, _). m \<le> r) es")
  case (Some e)
  then have "e \<in> set es" by (metis (no_types, lifting) find_Some_iff nth_mem)
  then have "keyed (fst e)" using index_keyed [OF assms(1)] by (metis prod.collapse)
  from toRev_entry(1) [OF this, of "it\<lparr>bi_item := Some (entry_of p e)\<rparr>" p "snd e"] assms(3)
  have "toRev (it\<lparr>bi_item := Some (entry_of p e)\<rparr>) = Ok (fst e)" by simp
  with Some Seek_index(1) [OF assms(1,2)] assms(3) show ?thesis
    by (cases e) (simp add: seekToRev_def bi_Seek_def seekPrefix_def bi_Valid_def entry_of_def Let_def)
qed (use Seek_index(1) [OF assms(1,2)] assms(3) in
    \<open>simp add: seekToRev_def bi_Seek_def seekPrefix_def bi_Valid_def\<close>)

text \<open>
  One round of the loop: all indexes are at \<open>m\<close>, or one of them is beyond it and no revision
  before it is common, or there is no common revision from \<open>m\<close> on.
\<close>

lemma seek_all_index:
  assumes "list_all2 (stands (view t)) pes its" "keyed m" "\<forall>it \<in> set its. at_rev it \<le> m"
  shows "\<exists>x its'. seek_all B t False m its = (Ok x, its')
    \<and> (x = Exhausted \<longrightarrow> (\<forall>r \<in> common pes. r < m))
    \<and> (x \<noteq> Exhausted \<longrightarrow> list_all2 (stands (view t)) pes its')
    \<and> (x = Reached \<longrightarrow> (\<forall>it \<in> set its'. at_rev it = m))
    \<and> (x = Missed \<longrightarrow> (\<exists>it \<in> set its'. m < at_rev it)
        \<and> (\<forall>it \<in> set its'. \<forall>r \<in> common pes. m \<le> r \<longrightarrow> at_rev it \<le> r))"
  using assms
proof (induction its arbitrary: pes rule: list.induct)
  case (Cons it its)
  then obtain p :: string and es :: "(int \<times> string) list" and pes' where pes: "pes = (p, es) # pes'" "stands (view t) (p, es) it" "list_all2 (stands (view t)) pes' its"
    by (metis list_all2_Cons2 prod.exhaust_sel)
  then have i: "index (view t) p es" "bi_prefix it = p" by (auto simp: stands_def)
  note sk = seekToRev_index [OF i(1) Cons.prems(2) i(2)]
  show ?case
  proof (cases "find (\<lambda>(r, _). m \<le> r) es")
    case None
    then have "\<forall>r \<in> fst ` set es. r < m" by (force simp: find_None_iff)
    with None sk pes(1) show ?thesis by auto
  next
    case (Some e)
    let ?it = "it\<lparr>bi_item := Some (entry_of p e)\<rparr>"
    have least: "e \<in> set es" "m \<le> fst e" "\<forall>x \<in> set es. m \<le> fst x \<longrightarrow> fst e \<le> fst x"
      using find_least [OF index_sorted [OF i(1) sorted_view], of m e] Some by (auto simp: case_prod_unfold)
    have st: "stands (view t) (p, es) ?it" using i least(1) by (auto simp: stands_def)
    have at: "at_rev ?it = fst e"
      using toRev_entry(2) [of "fst e" ?it p "snd e"] index_keyed [OF i(1), of "fst e" "snd e"] least(1) i(2) by simp
    from Cons.IH [OF pes(3) Cons.prems(2)] Cons.prems(3) obtain x its' where
      rec: "seek_all B t False m its = (Ok x, its')"
      "x = Exhausted \<longrightarrow> (\<forall>r \<in> common pes'. r < m)" "x \<noteq> Exhausted \<longrightarrow> list_all2 (stands (view t)) pes' its'"
      "x = Reached \<longrightarrow> (\<forall>it \<in> set its'. at_rev it = m)"
      "x = Missed \<longrightarrow> (\<exists>it \<in> set its'. m < at_rev it) \<and> (\<forall>it \<in> set its'. \<forall>r \<in> common pes'. m \<le> r \<longrightarrow> at_rev it \<le> r)"
      by auto
    show ?thesis
    proof (cases "m < fst e")
      case True
      have "seek_all B t False m (it # its) = (Ok Missed, ?it # its)" using sk Some True by simp
      moreover have "\<forall>it' \<in> set (?it # its). \<forall>r \<in> common pes. m \<le> r \<longrightarrow> at_rev it' \<le> r"
        using least(3) at pes(1) Cons.prems(3) by force
      moreover have "\<exists>it' \<in> set (?it # its). m < at_rev it'" using True at by simp
      moreover have "list_all2 (stands (view t)) pes (?it # its)" using st pes by simp
      ultimately show ?thesis by blast
    next
      case False
      then have "seek_all B t False m (it # its) = (Ok x, ?it # its')" using sk Some rec(1) by simp
      moreover have "x \<noteq> Exhausted \<longrightarrow> list_all2 (stands (view t)) pes (?it # its')" using st pes(1) rec(3) by simp
      moreover have "at_rev ?it = m" using at False least(2) by simp
      ultimately show ?thesis using rec(2,4,5) pes(1) by auto
    qed
  qed
qed simp

end

section \<open>The states of a label set\<close>

text \<open>The common revisions in order.\<close>

definition commons :: "indexed list \<Rightarrow> int list" where
  "commons pes = filter (\<lambda>r. r \<in> common pes) (map fst (snd (hd pes)))"

definition max_rev :: "badgerIterator list \<Rightarrow> int" where
  "max_rev its = fold max (map at_rev its) 0"

definition li_on :: "(string \<times> string) list \<Rightarrow> indexed list \<Rightarrow> labelsIterator \<Rightarrow> bool" where
  "li_on vw pes l \<longleftrightarrow> li_valid l \<and> \<not> li_reverse l \<and> pes \<noteq> [] \<and> list_all2 (stands vw) pes (li_its l)"

text \<open>All indexes stand on \<open>r\<close>, whose state has been loaded.\<close>

definition li_at :: "(string \<times> string) list \<Rightarrow> indexed list \<Rightarrow> (int \<Rightarrow> State) \<Rightarrow> int \<Rightarrow> labelsIterator \<Rightarrow> bool" where
  "li_at vw pes st r l \<longleftrightarrow> li_on vw pes l \<and> r \<in> common pes \<and> (\<forall>it \<in> set (li_its l). at_rev it = r) \<and> li_current l = st r"

lemma common_commons: "pes \<noteq> [] \<Longrightarrow> set (commons pes) = common pes"
  by (cases pes) (auto simp: commons_def common_def)

lemma find_mem:
  "sorted_wrt (<) xs \<Longrightarrow> m \<in> set xs \<Longrightarrow> find (\<lambda>r. m \<le> r) xs = Some (m :: int)"
  by (induction xs) force+

lemma li_on_max:
  assumes "li_on vw pes l"
  shows "nextRev_loop False (li_its l) 0 = Ok (max_rev (li_its l))" "keyed (max_rev (li_its l))"
    "\<forall>it \<in> set (li_its l). at_rev it \<le> max_rev (li_its l)"
    "\<exists>it \<in> set (li_its l). max_rev (li_its l) = at_rev it"
proof -
  let ?its = "li_its l"
  have st: "list_all2 (stands vw) pes ?its" "?its \<noteq> []" using assms by (auto simp: li_on_def)
  then have k: "\<forall>it \<in> set ?its. keyed (at_rev it)"
    by (metis in_set_conv_nth list_all2_conv_all_nth stands_at(3))
  show "nextRev_loop False ?its 0 = Ok (max_rev ?its)"
    using nextRev_loop_max [OF st(1)] by (simp add: max_rev_def)
  have m: "max_rev ?its = Max (insert 0 (at_rev ` set ?its))" by (simp add: max_rev_def fold_max)
  show le: "\<forall>it \<in> set ?its. at_rev it \<le> max_rev ?its" unfolding m by simp
  have "max_rev ?its \<in> insert 0 (at_rev ` set ?its)" unfolding m by (rule Max_in) simp_all
  moreover obtain it where it: "it \<in> set ?its" using st(2) by (meson last_in_set)
  ultimately show ex: "\<exists>it \<in> set ?its. max_rev ?its = at_rev it"
    using le k by (force simp: keyed_def)
  with k show "keyed (max_rev ?its)" by auto
qed

lemma at_common:
  "list_all2 (stands vw) pes its \<Longrightarrow> \<forall>it \<in> set its. at_rev it = m \<Longrightarrow> m \<in> common pes"
  by (induction pes its rule: list_all2_induct) (auto simp: common_def dest!: stands_at(2))

context badger_laws
begin

lemma load_first_at:
  assumes "list_all2 (stands (view t)) pes (li_its l)" "pes \<noteq> []" "\<forall>it \<in> set (li_its l). at_rev it = m"
    and "\<And>pe r v. pe \<in> set pes \<Longrightarrow> (r, v) \<in> set (snd pe) \<Longrightarrow> load_state B E t v r = Ok (st r)"
  shows "load_first B E t m l = (Ok (), l\<lparr>li_current := st m\<rparr>)"
proof -
  obtain pe pes' it its where c: "pes = pe # pes'" "li_its l = it # its" "stands (view t) pe it"
    using assms(1,2) by (cases pes) (auto simp: list_all2_Cons1)
  with stands_at(5) [OF c(3)] assms(3) obtain v where
    "(m, v) \<in> set (snd pe)" "bi_item it = Some (entry_of (fst pe) (m, v))" by auto
  with c assms(4) [of pe m v] show ?thesis by (simp add: load_first_def entry_of_def)
qed

lemma li_seekState_closed: "\<not> li_valid l \<Longrightarrow> li_seekState B E t l = Some (Ok (), l)"
  by (subst li_seekState.simps) simp

text \<open>
  \<open>seekState\<close> returns, and stands on the least common revision that is not below the iterators, or
  the iterator is not valid any more.
\<close>

lemma li_seekState_spec:
  assumes "li_on (view t) pes l"
    and loads: "\<And>pe r v. pe \<in> set pes \<Longrightarrow> (r, v) \<in> set (snd pe) \<Longrightarrow> load_state B E t v r = Ok (st r)"
  shows "\<exists>l'. li_seekState B E t l = Some (Ok (), l')
    \<and> (case find (\<lambda>r. max_rev (li_its l) \<le> r) (commons pes) of
         None \<Rightarrow> \<not> li_valid l' | Some r \<Rightarrow> li_at (view t) pes st r l')"
  using assms(1)
proof (induction "length (filter (\<lambda>r. max_rev (li_its l) < r) (concat (map (map fst \<circ> snd) pes)))"
    arbitrary: l rule: less_induct)
  case less
  let ?m = "max_rev (li_its l)" let ?f = "find (\<lambda>r. ?m \<le> r) (commons pes)"
  note on = less.prems [unfolded li_on_def] and mx = li_on_max [OF less.prems]
  from on have pes: "pes \<noteq> []" by simp
  have srt: "sorted_wrt (<) (commons pes)"
  proof -
    obtain pe pes' where "pes = pe # pes'" using pes by (cases pes) auto
    then obtain it where "stands (view t) pe it" using on by (auto simp: list_all2_Cons1)
    then have "sorted_wrt (\<lambda>x y. fst x < fst y) (snd pe)"
      using index_sorted [OF _ sorted_view, of t "fst pe" "snd pe"] by (simp add: stands_def)
    then show ?thesis using \<open>pes = pe # pes'\<close> by (simp add: commons_def sorted_wrt_filter sorted_wrt_map)
  qed
  from seek_all_index [OF _ mx(2,3), of t pes] on obtain x its' where sa:
    "seek_all B t False ?m (li_its l) = (Ok x, its')"
    "x = Exhausted \<longrightarrow> (\<forall>r \<in> common pes. r < ?m)" "x \<noteq> Exhausted \<longrightarrow> list_all2 (stands (view t)) pes its'"
    "x = Reached \<longrightarrow> (\<forall>it \<in> set its'. at_rev it = ?m)"
    "x = Missed \<longrightarrow> (\<exists>it \<in> set its'. ?m < at_rev it) \<and> (\<forall>it \<in> set its'. \<forall>r \<in> common pes. ?m \<le> r \<longrightarrow> at_rev it \<le> r)"
    by blast
  have step: "li_seekState B E t l = (case x of
      Reached \<Rightarrow> Some (load_first B E t ?m (l\<lparr>li_its := its'\<rparr>))
    | Missed \<Rightarrow> li_seekState B E t (l\<lparr>li_its := its'\<rparr>)
    | Exhausted \<Rightarrow> Some (Ok (), li_Close l))"
    using on mx(1) sa(1) li_seekState_closed [of "li_Close l"]
    by (subst li_seekState.simps) (cases x; simp add: li_Close_def)
  show ?case
  proof (cases x)
    case Exhausted
    then have "?f = None" using sa(2) common_commons [OF pes] by (force simp: find_None_iff)
    then show ?thesis using step Exhausted by (simp add: li_Close_def)
  next
    case Reached
    let ?l = "l\<lparr>li_its := its'\<rparr>"
    have lf: "load_first B E t ?m ?l = (Ok (), ?l\<lparr>li_current := st ?m\<rparr>)"
      using sa(3,4) Reached pes loads by (intro load_first_at [where pes = pes]) auto
    have "?m \<in> common pes" using at_common sa(3,4) Reached by blast
    moreover from this have "?f = Some ?m" using find_mem [OF srt] common_commons [OF pes] by simp
    ultimately show ?thesis using step Reached lf sa(3,4) on by (simp add: li_at_def li_on_def)
  next
    case Missed
    let ?l = "l\<lparr>li_its := its'\<rparr>" let ?m' = "max_rev its'"
    have on': "li_on (view t) pes ?l" using on sa(3) Missed by (simp add: li_on_def)
    note mx' = li_on_max [OF on', simplified]
    from sa(5) Missed obtain it where it: "it \<in> set its'" "?m < at_rev it" by blast
    then have lt: "?m < ?m'" using mx'(3) by force
    from mx'(4) sa(5) Missed have ge: "\<forall>r \<in> common pes. ?m \<le> r \<longrightarrow> ?m' \<le> r" by metis
    obtain it' where it': "it' \<in> set its'" "?m' = at_rev it'" using mx'(4) by blast
    then obtain pe where "pe \<in> set pes" "stands (view t) pe it'"
      using sa(3) Missed by (metis in_set_conv_nth list_all2_conv_all_nth seeked.distinct(5))
    then have "?m' \<in> fst ` set (snd pe)" using stands_at(2) it'(2) by metis
    with \<open>pe \<in> set pes\<close> have "?m' \<in> set (concat (map (map fst \<circ> snd) pes))" by auto
    then have "length (filter (\<lambda>r. ?m' < r) (concat (map (map fst \<circ> snd) pes)))
      < length (filter (\<lambda>r. ?m < r) (concat (map (map fst \<circ> snd) pes)))"
      using lt by (intro length_filter_less [of ?m']) auto
    from less.hyps [of ?l, simplified, OF this on'] obtain l' where
      "li_seekState B E t ?l = Some (Ok (), l')"
      "case find (\<lambda>r. ?m' \<le> r) (commons pes) of None \<Rightarrow> \<not> li_valid l' | Some r \<Rightarrow> li_at (view t) pes st r l'" by auto
    moreover have "find (\<lambda>r. ?m' \<le> r) (commons pes) = ?f"
      using ge lt common_commons [OF pes] by (intro find_cong) auto
    ultimately show ?thesis using step Missed by simp
  qed
qed

end

text \<open>The iterator stands on the first entry from \<open>a\<close> on.\<close>

definition first_from :: "(string \<times> string) list \<Rightarrow> int \<Rightarrow> indexed \<Rightarrow> badgerIterator \<Rightarrow> bool" where
  "first_from vw a pe it \<longleftrightarrow> stands vw pe it \<and> a \<le> at_rev it
    \<and> (\<forall>r \<in> fst ` set (snd pe). a \<le> r \<longrightarrow> at_rev it \<le> r)"

lemma first_from_stands: "list_all2 (first_from vw a) pes its \<Longrightarrow> list_all2 (stands vw) pes its"
  by (auto simp: first_from_def elim: list_all2_mono)

lemma first_from_find:
  assumes "index vw p es" "sorted_wrt (<) (map fst vw)" "bi_prefix it = p" "bi_item it = Some (entry_of p e)"
    and "find (\<lambda>(r, _). a \<le> r) es = Some e"
  shows "first_from vw a (p, es) it"
proof -
  have least: "e \<in> set es" "a \<le> fst e" "\<forall>x \<in> set es. a \<le> fst x \<longrightarrow> fst e \<le> fst x"
    using find_least [OF index_sorted [OF assms(1,2)], of a e] assms(5) by (auto simp: case_prod_unfold)
  have "at_rev it = fst e"
    using toRev_entry(2) [of "fst e" it p "snd e"] index_keyed [OF assms(1), of "fst e" "snd e"] least(1) assms(3,4) by simp
  with least assms(1,3,4) show ?thesis by (auto simp: first_from_def stands_def)
qed

lemma find_none_common:
  assumes "find (\<lambda>(r, _). a \<le> r) es = None" "(p, es) \<in> set pes" "r \<in> common pes"
  shows "r < a"
  using assms by (force simp: find_None_iff common_def)

lemma first_from_max:
  assumes "list_all2 (first_from vw a) pes its" "r \<in> common pes" "pes \<noteq> []"
  shows "max_rev its \<le> r \<longleftrightarrow> a \<le> r"
proof -
  let ?l = "\<lparr>li_its = its, li_reverse = False, li_valid = True, li_current = State0\<rparr>"
  have "li_on vw pes ?l" using first_from_stands [OF assms(1)] assms(3) by (simp add: li_on_def)
  from li_on_max(3,4) [OF this] obtain it where it: "it \<in> set its" "max_rev its = at_rev it"
    and le: "\<forall>it \<in> set its. at_rev it \<le> max_rev its" by auto
  have all: "it \<in> set its \<Longrightarrow> a \<le> at_rev it \<and> (a \<le> r \<longrightarrow> at_rev it \<le> r)" for it
    using assms(1,2) by (induction pes its rule: list_all2_induct) (auto simp: first_from_def)
  then show ?thesis using it le by fastforce
qed

context badger_laws
begin

lemma li_seekState_from:
  assumes "pes \<noteq> []" "li_valid l" "\<not> li_reverse l" "list_all2 (first_from (view t) a) pes (li_its l)"
    and "\<And>pe r v. pe \<in> set pes \<Longrightarrow> (r, v) \<in> set (snd pe) \<Longrightarrow> load_state B E t v r = Ok (st r)"
  shows "\<exists>l'. li_seekState B E t l = Some (Ok (), l')
    \<and> (case find (\<lambda>r. a \<le> r) (commons pes) of None \<Rightarrow> \<not> li_valid l' | Some r \<Rightarrow> li_at (view t) pes st r l')"
proof -
  have "li_on (view t) pes l" using assms(1-3) first_from_stands [OF assms(4)] by (simp add: li_on_def)
  moreover have "find (\<lambda>r. max_rev (li_its l) \<le> r) (commons pes) = find (\<lambda>r. a \<le> r) (commons pes)"
    using first_from_max [OF assms(4) _ assms(1)] common_commons [OF assms(1)] by (intro find_cong) auto
  ultimately show ?thesis using li_seekState_spec [of t pes l E st] assms(5) by simp
qed

lemma next_all_spec:
  assumes "list_all2 (stands (view t)) pes its" "\<forall>it \<in> set its. at_rev it = r"
  shows "\<exists>ok its'. next_all B t False its = (ok, its')
    \<and> (if ok then list_all2 (first_from (view t) (r + 1)) pes its' else \<forall>r' \<in> common pes. r' < r + 1)"
  using assms
proof (induction pes its rule: list_all2_induct)
  case (Cons pe pes it its)
  then obtain ok its' where rec: "next_all B t False its = (ok, its')"
    "if ok then list_all2 (first_from (view t) (r + 1)) pes its' else \<forall>r' \<in> common pes. r' < r + 1" by auto
  obtain p es where pe: "pe = (p, es)" by (cases pe)
  from stands_at(5) [OF Cons.hyps(1)] Cons.prems obtain v where
    it: "bi_item it = Some (entry_of p (r, v))" by (auto simp: pe)
  have i: "index (view t) p es" "bi_prefix it = p" using Cons.hyps(1) by (auto simp: stands_def pe)
  have "keyed r" using stands_at(3) [OF Cons.hyps(1)] Cons.prems by simp
  from Next_index [OF i(1) this] have nx: "bi_Next B t False it
      = it\<lparr>bi_item := map_option (entry_of p) (find (\<lambda>(r', _). r + 1 \<le> r') es)\<rparr>"
    using it i(2) by (simp add: bi_Next_def entry_of_def zless_iff_Suc_zadd add1_zle_eq)
  show ?case
  proof (cases "find (\<lambda>(r', _). r + 1 \<le> r') es")
    case None
    then show ?thesis using nx find_none_common [OF None, of p "pe # pes"]
      by (intro exI [of _ False]) (simp add: bi_Valid_def pe)
  next
    case (Some e)
    have "first_from (view t) (r + 1) pe (it\<lparr>bi_item := Some (entry_of p e)\<rparr>)"
      using first_from_find [OF i(1) sorted_view, of "it\<lparr>bi_item := Some (entry_of p e)\<rparr>" e "r + 1"] i(2) Some by (simp add: pe)
    with rec Some nx show ?thesis
      by (intro exI [of _ ok] exI [of _ "it\<lparr>bi_item := Some (entry_of p e)\<rparr> # its'"])
        (cases ok; simp add: bi_Valid_def entry_of_def case_prod_unfold)
  qed
qed auto

lemma li_Next_spec:
  assumes "li_at (view t) pes st r l"
    and "\<And>pe r v. pe \<in> set pes \<Longrightarrow> (r, v) \<in> set (snd pe) \<Longrightarrow> load_state B E t v r = Ok (st r)"
  shows "\<exists>l'. li_Next B E t l = Some (Ok (), l')
    \<and> (case find (\<lambda>r'. r + 1 \<le> r') (commons pes) of None \<Rightarrow> \<not> li_valid l' | Some r' \<Rightarrow> li_at (view t) pes st r' l')"
proof -
  from assms(1) have on: "li_valid l" "\<not> li_reverse l" "pes \<noteq> []" "list_all2 (stands (view t)) pes (li_its l)"
    "\<forall>it \<in> set (li_its l). at_rev it = r" by (auto simp: li_at_def li_on_def)
  from next_all_spec [OF on(4,5)] obtain ok its' where nx: "next_all B t False (li_its l) = (ok, its')"
    "if ok then list_all2 (first_from (view t) (r + 1)) pes its' else \<forall>r' \<in> common pes. r' < r + 1" by blast
  show ?thesis
  proof (cases ok)
    case True
    with nx li_seekState_from [of pes "l\<lparr>li_its := its'\<rparr>" t "r + 1" E st] assms(2) on show ?thesis
      by (simp add: li_Next_def)
  next
    case False
    then have "find (\<lambda>r'. r + 1 \<le> r') (commons pes) = None"
      using nx(2) common_commons [OF on(3)] by (force simp: find_None_iff)
    with False nx on show ?thesis by (simp add: li_Next_def li_Close_def)
  qed
qed


text \<open>The iterators that \<open>newLabelsIterator\<close> opens, one per label.\<close>

lemma open_its_grow: "li_its l \<noteq> [] \<Longrightarrow> li_its (open_its D t a ls l) \<noteq> []"
  by (induction D t a ls l rule: open_its.induct) (simp_all add: Let_def)

lemma open_its_spec:
  assumes "\<forall>(k, v) \<in> set ls. k \<noteq> [] \<and> v \<noteq> [] \<and> index (view t) (labelIndexPrefix k v) (es k v)" "keyed a" "\<not> li_reverse l"
  defines "pes \<equiv> map (\<lambda>(k, v). (labelIndexPrefix k v, es k v)) ls"
  shows "\<exists>l'. open_its B t a ls l = l' \<and> \<not> li_reverse l' \<and> (ls \<noteq> [] \<longrightarrow> li_its l' \<noteq> [])
    \<and> (if li_valid l' then li_valid l \<and> (\<exists>its. li_its l' = li_its l @ its \<and> list_all2 (first_from (view t) a) pes its)
       else li_valid l \<longrightarrow> (\<forall>r \<in> common pes. r < a))"
  using assms(1,3) unfolding pes_def
proof (induction ls arbitrary: l)
  case (Cons kv ls)
  obtain k v where kv: "kv = (k, v)" by (cases kv)
  let ?p = "labelIndexPrefix k v" and ?pes = "map (\<lambda>(k, v). (labelIndexPrefix k v, es k v)) ls"
  let ?it = "bi_Seek B t (li_reverse l) (seekPrefix (li_reverse l) ?p a) \<lparr>bi_prefix = ?p, bi_item = None\<rparr>"
  let ?l1 = "(if \<not> bi_Valid ?it then li_Close l else l)\<lparr>li_its := li_its (if \<not> bi_Valid ?it then li_Close l else l) @ [?it]\<rparr>"
  from Cons.prems kv have i: "index (view t) ?p (es k v)" and ne: "k \<noteq> []" "v \<noteq> []" by auto
  have it: "?it = \<lparr>bi_prefix = ?p, bi_item = map_option (entry_of ?p) (find (\<lambda>(r, _). a \<le> r) (es k v))\<rparr>"
    using Seek_index(1) [OF i assms(2)] Cons.prems(2) by (simp add: bi_Seek_def seekPrefix_def)
  have op: "open_its B t a (kv # ls) l = open_its B t a ls ?l1" using ne kv by (simp add: Let_def)
  have l1: "\<not> li_reverse ?l1" using Cons.prems(2) by (simp add: li_Close_def)
  from Cons.IH [OF _ l1] Cons.prems(1) obtain l' where rec: "open_its B t a ls ?l1 = l'" "\<not> li_reverse l'"
    "if li_valid l' then li_valid ?l1 \<and> (\<exists>its. li_its l' = li_its ?l1 @ its \<and> list_all2 (first_from (view t) a) ?pes its)
     else li_valid ?l1 \<longrightarrow> (\<forall>r \<in> common ?pes. r < a)" by auto
  have ne': "li_its l' \<noteq> []" using open_its_grow [of ?l1 B t a ls] rec(1) by simp
  show ?case
  proof (cases "find (\<lambda>(r, _). a \<le> r) (es k v)")
    case None
    then have "\<not> li_valid ?l1" using it by (simp add: bi_Valid_def li_Close_def)
    with rec(3) have "\<not> li_valid l'" by (metis (full_types))
    moreover have "\<forall>r \<in> common ((?p, es k v) # ?pes). r < a"
      using find_none_common [OF None, of ?p "(?p, es k v) # ?pes"] by auto
    ultimately show ?thesis unfolding op using rec(1,2) ne' kv by simp
  next
    case (Some e)
    then have v: "bi_Valid ?it" using it by (simp add: bi_Valid_def)
    have "first_from (view t) a (?p, es k v) ?it"
      using first_from_find [OF i sorted_view, of ?it e a] it Some by simp
    with v rec ne' show ?thesis unfolding op by (auto simp: kv split: if_splits)
  qed
qed auto

lemma newLabelsIterator_spec:
  assumes "gm_entries labels = ls" "ls \<noteq> []"
    and "\<forall>(k, v) \<in> set ls. k \<noteq> [] \<and> v \<noteq> [] \<and> index (view t) (labelIndexPrefix k v) (es k v)" "keyed a"
    and "\<And>k v r i. (k, v) \<in> set ls \<Longrightarrow> (r, i) \<in> set (es k v) \<Longrightarrow> load_state B E t i r = Ok (st r)"
  defines "pes \<equiv> map (\<lambda>(k, v). (labelIndexPrefix k v, es k v)) ls"
  shows "\<exists>l'. newLabelsIterator B E t labels a False = Some (Ok (), l')
    \<and> (case find (\<lambda>r. a \<le> r) (commons pes) of None \<Rightarrow> \<not> li_valid l' | Some r \<Rightarrow> li_at (view t) pes st r l')"
proof -
  let ?l = "\<lparr>li_its = [], li_reverse = False, li_valid = True, li_current = State0\<rparr>"
  from open_its_spec [where ls = ls, OF assms(3,4), of ?l] assms(2) obtain l1 where l1:
    "open_its B t a ls ?l = l1" "\<not> li_reverse l1" "li_its l1 \<noteq> []"
    "if li_valid l1 then list_all2 (first_from (view t) a) pes (li_its l1) else \<forall>r \<in> common pes. r < a"
    unfolding pes_def by (auto split: if_splits)
  have pes: "pes \<noteq> []" using assms(2) by (simp add: pes_def)
  have new: "newLabelsIterator B E t labels a False = li_seekState B E t l1"
    using l1(1,3) assms(1) by (simp add: newLabelsIterator_def)
  show ?thesis
  proof (cases "li_valid l1")
    case True
    have "\<And>pe r v. pe \<in> set pes \<Longrightarrow> (r, v) \<in> set (snd pe) \<Longrightarrow> load_state B E t v r = Ok (st r)"
      using assms(5) by (auto simp: pes_def)
    with li_seekState_from [OF pes True l1(2), of t a E st] l1(4) True show ?thesis
      unfolding new by simp
  next
    case False
    then have "find (\<lambda>r. a \<le> r) (commons pes) = None"
      using l1(4) common_commons [OF pes] by (force simp: find_None_iff)
    with False show ?thesis unfolding new by (simp add: li_seekState_closed)
  qed
qed

end

section \<open>A whole iteration\<close>

text \<open>\<open>for ; it.Valid(); it.Next() { ... it.Current() ... }\<close>, for at most \<open>n\<close> rounds.\<close>

fun li_drain ::
  "('db, 'txn, 'q) badger \<Rightarrow> 'c easyproto \<Rightarrow> 'txn \<Rightarrow> nat \<Rightarrow> labelsIterator \<Rightarrow> State list option" where
  "li_drain B E txn 0 l = Some []"
| "li_drain B E txn (Suc n) l =
    (if \<not> li_valid l then Some []
     else case li_Next B E txn l of
       Some (Ok _, l1) \<Rightarrow> map_option (\<lambda>ss. li_current l # ss) (li_drain B E txn n l1)
     | _ \<Rightarrow> None)"

lemma find_after:
  "sorted_wrt (<) xs \<Longrightarrow> find (\<lambda>r. a \<le> r) xs = Some (x :: int) \<Longrightarrow>
    filter (\<lambda>r. a \<le> r) xs = x # filter (\<lambda>r. x + 1 \<le> r) xs"
proof (induction xs)
  case (Cons y ys)
  show ?case
  proof (cases "a \<le> y")
    case True
    then have "filter (\<lambda>r. a \<le> r) ys = ys" "filter (\<lambda>r. y + 1 \<le> r) ys = ys" using Cons.prems by (auto simp: filter_id_conv)
    with True Cons.prems show ?thesis by simp
  next
    case False
    with Cons.prems have "y < x" by (auto dest!: find_Some_iff [THEN iffD1])
    with False Cons show ?thesis by simp
  qed
qed simp

lemma find_filter_None: "find P xs = None \<longleftrightarrow> filter P xs = []"
  by (induction xs) auto

context badger_laws
begin

lemma li_drain_from:
  assumes "sorted_wrt (<) (commons pes)"
    and "case find (\<lambda>r. a \<le> r) (commons pes) of None \<Rightarrow> \<not> li_valid l | Some r \<Rightarrow> li_at (view t) pes st r l"
    and "\<And>pe r v. pe \<in> set pes \<Longrightarrow> (r, v) \<in> set (snd pe) \<Longrightarrow> load_state B E t v r = Ok (st r)"
    and "length (filter (\<lambda>r. a \<le> r) (commons pes)) \<le> n"
  shows "li_drain B E t n l = Some (map st (filter (\<lambda>r. a \<le> r) (commons pes)))"
  using assms(2,4)
proof (induction n arbitrary: l a)
  case (Suc n)
  show ?case
  proof (cases "find (\<lambda>r. a \<le> r) (commons pes)")
    case None
    with Suc.prems(1) find_filter_None [THEN iffD1, OF None] show ?thesis by simp
  next
    case (Some r)
    note split = find_after [OF assms(1) Some]
    from Some Suc.prems(1) have at: "li_at (view t) pes st r l" by simp
    have "\<exists>l'. li_Next B E t l = Some (Ok (), l') \<and> (case find (\<lambda>r'. r + 1 \<le> r') (commons pes) of
        None \<Rightarrow> \<not> li_valid l' | Some r' \<Rightarrow> li_at (view t) pes st r' l')"
      by (rule li_Next_spec [OF at]) (rule assms(3))
    then obtain l' where nx: "li_Next B E t l = Some (Ok (), l')"
      "case find (\<lambda>r'. r + 1 \<le> r') (commons pes) of None \<Rightarrow> \<not> li_valid l' | Some r' \<Rightarrow> li_at (view t) pes st r' l'"
      by blast
    from Suc.prems(2) split have "length (filter (\<lambda>r'. r + 1 \<le> r') (commons pes)) \<le> n" by simp
    from Suc.IH [OF nx(2) this] nx(1) at split show ?thesis by (simp add: li_at_def li_on_def)
  qed
qed (simp add: find_filter_None)

end

end
