(* ===== verification/BadgerStore.thy ===== *)
theory BadgerStore
  imports BadgerIterProps BadgerDriver
begin

text \<open>
  What the store of the badger driver holds for a list of committed states: every state under its
  key, its id under its revision in the index of revisions, in the index of each of its labels and
  in the index of commit times, and the latest revision of every id. Writing one more state keeps
  that, also when other states have been written since the transaction began.
\<close>

section \<open>Prefixes of keys\<close>

text \<open>
  The label index tells labels apart whose keys have no colon and whose values have no dot.
\<close>

definition plain_label :: "string \<Rightarrow> string \<Rightarrow> bool" where
  "plain_label k v \<longleftrightarrow> CHR '':'' \<notin> set k \<and> CHR ''.'' \<notin> set v"

lemma prefix_sep:
  "c \<notin> set x \<Longrightarrow> c \<notin> set x' \<Longrightarrow> prefix (x @ c # y) (x' @ c # y') \<longleftrightarrow> x = x' \<and> prefix y y'"
proof (induction x arbitrary: x')
  case Nil
  then show ?case by (cases x') auto
next
  case (Cons a x)
  then show ?case by (cases x') auto
qed

lemma prefix_label:
  assumes "plain_label k v" "plain_label k' v'"
  shows "prefix (labelIndexPrefix k v) (labelIndexKey k' v' r) \<longleftrightarrow> k = k' \<and> v = v'"
  using assms by (auto simp: labelIndexKey_def labelIndexPrefix_def plain_label_def prefix_sep same_prefix_prefix)

lemma prefix_literal: "prefix (a # x) (b # y) \<longleftrightarrow> a = b \<and> prefix x y"
  by simp

lemmas key_defs = stateKey_def latestRevKey_def labelIndexKey_def labelIndexPrefix_def revIndexKey_def
  revIndexPrefix_def committedAtIndexKey_def committedAtIndexPrefix_def

lemma foreign_prefix [simp]:
  "\<not> prefix (labelIndexPrefix k v) (stateKey s)" "\<not> prefix (labelIndexPrefix k v) (latestRevKey i)"
  "\<not> prefix (labelIndexPrefix k v) (revIndexKey r)" "\<not> prefix (labelIndexPrefix k v) (committedAtIndexKey c r)"
  "\<not> prefix revIndexPrefix (stateKey s)" "\<not> prefix revIndexPrefix (latestRevKey i)"
  "\<not> prefix revIndexPrefix (labelIndexKey k v r)" "\<not> prefix revIndexPrefix (committedAtIndexKey c r)"
  "\<not> prefix committedAtIndexPrefix (stateKey s)" "\<not> prefix committedAtIndexPrefix (latestRevKey i)"
  "\<not> prefix committedAtIndexPrefix (labelIndexKey k v r)" "\<not> prefix committedAtIndexPrefix (revIndexKey r)"
  "prefix revIndexPrefix (revIndexKey r)" "prefix committedAtIndexPrefix (committedAtIndexKey c r)"
  by (simp_all add: key_defs)

lemma foreign_key [simp]:
  "stateKey s \<noteq> latestRevKey i" "stateKey s \<noteq> labelIndexKey k v r" "stateKey s \<noteq> revIndexKey r"
  "stateKey s \<noteq> committedAtIndexKey c r" "latestRevKey i \<noteq> stateKey s" "latestRevKey i \<noteq> labelIndexKey k v r"
  "latestRevKey i \<noteq> revIndexKey r" "latestRevKey i \<noteq> committedAtIndexKey c r"
  by (simp_all add: key_defs)

lemma latestRevKey_inj [simp]: "latestRevKey i = latestRevKey j \<longleftrightarrow> i = j"
  by (simp add: latestRevKey_def)

lemma stateKey_inj:
  assumes "keyed (s_Rev s)" "keyed (s_Rev s')"
  shows "stateKey s = stateKey s' \<longleftrightarrow> s_Rev s = s_Rev s' \<and> s_ID s = s_ID s'"
  using assms fmt_020d_keyed(1) [OF assms(1)] fmt_020d_keyed(1) [OF assms(2)] by (auto simp: stateKey_def)

lemma committedAtIndexKey_inj:
  assumes "keyed r" "keyed r'" "committedAtIndexKey c r = committedAtIndexKey c' r'"
  shows "r = r'"
proof -
  have len: "length (fmt_020d r) = length (fmt_020d r')" using fmt_020d_keyed(1) assms(1,2) by simp
  from assms(3) have "(fmt_020d (UnixMilli c) @ ''.'') @ fmt_020d r = (fmt_020d (UnixMilli c') @ ''.'') @ fmt_020d r'"
    by (simp add: committedAtIndexKey_def)
  with len have "fmt_020d r = fmt_020d r'" by (metis append_eq_append_conv)
  with assms(1,2) show ?thesis by simp
qed

section \<open>Numbers in eight bytes\<close>

lemma length_PutUint64 [simp]: "length (PutUint64 v) = 8"
  by (simp add: PutUint64_def)

lemma fold_bytes:
  "fold (\<lambda>c n. 256 * n + of_char c) (map (\<lambda>i. char_of (nat ((v div 256 ^ i) mod 256))) (rev [0..<k])) a
    = a * 256 ^ k + (v :: int) mod 256 ^ k"
proof (induction k arbitrary: a)
  case (Suc k)
  have c: "(of_char (char_of (nat (x mod 256)) :: char) :: int) = x mod 256" for x :: int
  proof -
    have "(of_char (char_of (nat (x mod 256)) :: char) :: nat) = nat (x mod 256)"
      by (simp add: nat_less_iff)
    then show ?thesis using of_nat_of_char [of "char_of (nat (x mod 256))", where 'a = int] by simp
  qed
  have "v mod 256 ^ Suc k = 256 ^ k * ((v div 256 ^ k) mod 256) + v mod 256 ^ k"
    using zmod_zmult2_eq [of 256 v "256 ^ k"] by (simp add: mult.commute)
  then show ?case using Suc by (simp add: c algebra_simps)
qed simp

lemma Uint64_PutUint64: "keyed v \<Longrightarrow> Uint64 (PutUint64 v) = v"
proof -
  assume v: "keyed v"
  have "[7, 6, 5, 4, 3, 2, 1, 0 :: nat] = rev [0..<8]" by code_simp
  then show ?thesis using v fold_bytes [of v 8 0]
    by (simp add: Uint64_def PutUint64_def keyed_def del: upt_rec_numeral)
qed

section \<open>The store of a list of states\<close>

definition latest_rev :: "State list \<Rightarrow> string \<Rightarrow> int" where
  "latest_rev sts i = (let ss = filter (\<lambda>s. s_ID s = i) sts in if ss = [] then 0 else s_Rev (last ss))"

definition label_entries :: "string \<Rightarrow> string \<Rightarrow> State list \<Rightarrow> (int \<times> string) list" where
  "label_entries k v sts = map (\<lambda>s. (s_Rev s, s_ID s)) (filter (\<lambda>s. gm_lookup (s_Labels s) k = Some v) sts)"

text \<open>The entry of a state in the index of the times of its commit.\<close>

definition committed_entry :: "State \<Rightarrow> string \<times> string" where
  "committed_entry s = (committedAtIndexKey (s_CommittedAt s) (s_Rev s), s_ID s)"

text \<open>A state as a commit writes it: it can be read back as it is, and its labels are told apart.\<close>

definition storable :: "State \<Rightarrow> bool" where
  "storable s \<longleftrightarrow> keyed (s_Rev s) \<and> 0 < s_Rev s \<and> s_ID s \<noteq> [] \<and> pb_ok_State s \<and> pb_State s = s
    \<and> (\<forall>(k, v) \<in> set (gm_entries (s_Labels s)). plain_label k v)"

definition states_in :: "'c easyproto \<Rightarrow> (string \<times> string) list \<Rightarrow> State list \<Rightarrow> bool" where
  "states_in E vw sts \<longleftrightarrow> sorted_wrt (\<lambda>s s'. s_Rev s < s_Rev s') sts \<and> list_all storable sts
    \<and> (\<forall>s \<in> set sts. map_of vw (stateKey s) = Some (MarshalState E s []))
    \<and> (\<forall>s. map_of vw (stateKey s) \<noteq> None \<longrightarrow> stateKey s \<in> stateKey ` set sts)
    \<and> (\<forall>k v. plain_label k v \<longrightarrow> index vw (labelIndexPrefix k v) (label_entries k v sts))
    \<and> index vw revIndexPrefix (map (\<lambda>s. (s_Rev s, s_ID s)) sts)
    \<and> (\<forall>k. prefix committedAtIndexPrefix k \<longrightarrow> map_of vw k = map_of (map committed_entry sts) k)
    \<and> (\<forall>i. map_of vw (latestRevKey i) = (if latest_rev sts i = 0 then None else Some (PutUint64 (latest_rev sts i))))"

lemma label_entries_snoc:
  "label_entries k v (sts @ [s]) = label_entries k v sts
    @ (if map_of (gm_entries (s_Labels s)) k = Some v then [(s_Rev s, s_ID s)] else [])"
  by (simp add: label_entries_def gm_lookup_def)

lemma index_empty: "index [] p []"
  by (simp add: index_def)

lemma states_in_empty: "states_in E [] []"
  by (simp add: states_in_def index_empty label_entries_def latest_rev_def)

lemma latest_rev_snoc: "latest_rev (sts @ [s]) i = (if s_ID s = i then s_Rev s else latest_rev sts i)"
  by (simp add: latest_rev_def)

lemma latest_rev_mem:
  "latest_rev sts i \<noteq> 0 \<Longrightarrow> \<exists>s \<in> set sts. s_ID s = i \<and> s_Rev s = latest_rev sts i"
proof (induction sts rule: rev_induct)
  case (snoc s sts)
  then show ?case by (auto simp: latest_rev_snoc split: if_splits)
qed (simp add: latest_rev_def)

lemma index_map_of:
  "index vw p es \<Longrightarrow> sorted_wrt (<) (map fst vw) \<Longrightarrow> (r, v) \<in> set es \<Longrightarrow> map_of vw (p @ fmt_020d r) = Some v"
proof -
  assume a: "index vw p es" "sorted_wrt (<) (map fst vw)" "(r, v) \<in> set es"
  then have "(p @ fmt_020d r, v) \<in> set (filter (\<lambda>(k, _). prefix p k) vw)" by (force simp: index_def entry_of_def)
  then show ?thesis using a(2) by (auto simp: strict_sorted_iff)
qed

section \<open>One write\<close>

lemma map_of_filter_key:
  "map_of (filter (\<lambda>(k, _). P k) xs) k = (if P k then map_of xs k else None)"
  by (induction xs) auto

lemma index_same:
  assumes "index vw p es" "sorted_wrt (<) (map fst vw)" "sorted_wrt (<) (map fst vw')"
    "\<And>k. prefix p k \<Longrightarrow> map_of vw' k = map_of vw k"
  shows "index vw' p es"
proof -
  have "filter (\<lambda>(k, _). prefix p k) vw' = filter (\<lambda>(k, _). prefix p k) vw"
  proof (rule sorted_map_unique)
    show "map_of (filter (\<lambda>(k, _). prefix p k) vw') = map_of (filter (\<lambda>(k, _). prefix p k) vw)"
      by (rule ext) (use assms(4) in \<open>auto simp: map_of_filter_key\<close>)
  qed (use assms(2,3) in \<open>simp_all add: sorted_wrt_map sorted_wrt_filter\<close>)
  then show ?thesis using assms(1) by (simp add: index_def)
qed

text \<open>An entry goes to its place in the index, which need not be the last one.\<close>

lemma insort_key_last: "\<forall>y \<in> set xs. f y < f x \<Longrightarrow> insort_key f x xs = xs @ [x]"
  by (induction xs) auto

lemma distinct_map_insort: "distinct (map g (insort_key f x xs)) \<longleftrightarrow> distinct (map g (x # xs))"
  by (induction xs) (auto simp: set_insort_key)

lemma map_insort_key: "(\<And>x. g (h x) = f x) \<Longrightarrow> map h (insort_key f x xs) = insort_key g (h x) (map h xs)"
  by (induction xs) auto

lemma strict_insort_key:
  assumes "sorted_wrt (\<lambda>a b. f a < f b) xs" "\<forall>y \<in> set xs. f y \<noteq> f x"
  shows "sorted_wrt (\<lambda>a b. f a < (f b :: 'b :: linorder)) (insort_key f x xs)"
  using assms by (induction xs) (auto simp: set_insort_key less_le)

lemma filter_insort_strict:
  assumes "sorted_wrt (\<lambda>a b. f a < (f b :: 'b :: linorder)) xs"
  shows "filter P (insort_key f x xs) = (if P x then insort_key f x (filter P xs) else filter P xs)"
proof -
  have "sorted (map f xs)" unfolding sorted_wrt_map
    by (rule sorted_wrt_mono_rel [rotated, OF assms]) (rule less_imp_le)
  then show ?thesis by (simp add: filter_insort filter_insort_triv)
qed

lemma index_insert:
  assumes "index vw p es" "sorted_wrt (<) (map fst vw)" "sorted_wrt (<) (map fst vw')"
    and "\<And>k. prefix p k \<Longrightarrow> map_of vw' k = (if k = p @ fmt_020d r then Some v else map_of vw k)"
    and "keyed r" "r \<notin> fst ` set es"
  shows "index vw' p (insort_key fst (r, v) es)"
proof -
  let ?es = "insort_key fst (r, v) es"
  have keyed: "\<forall>r' \<in> fst ` set ?es. keyed r'" using assms(1,5) by (auto simp: index_def set_insort_key)
  have es: "filter (\<lambda>(k, _). prefix p k) vw = map (entry_of p) es" using assms(1) by (simp add: index_def)
  have "filter (\<lambda>(k, _). prefix p k) vw' = map (entry_of p) ?es"
  proof (rule sorted_map_unique)
    have "sorted_wrt (\<lambda>x y. fst x < fst y) ?es"
      using index_sorted [OF assms(1,2)] assms(6) by (intro strict_insort_key) auto
    then have s: "sorted_wrt (\<lambda>x y. fst (entry_of p x) < fst (entry_of p y)) ?es"
    proof (rule sorted_wrt_mono_rel [rotated])
      fix x y
      assume "x \<in> set ?es" "y \<in> set ?es" "fst x < fst y"
      moreover from this(1,2) keyed have "keyed (fst x)" "keyed (fst y)" by blast+
      ultimately show "fst (entry_of p x) < fst (entry_of p y)" by (simp add: entry_of_def case_prod_unfold)
    qed
    then show "sorted_wrt (<) (map fst (map (entry_of p) ?es))" by (simp add: sorted_wrt_map)
    then have d: "distinct (map fst (map (entry_of p) ?es))" by (auto simp: strict_sorted_iff)
    from assms(2) have d0: "distinct (map fst (map (entry_of p) es))"
      unfolding es [symmetric] by (auto simp: strict_sorted_iff distinct_map_filter)
    show "map_of (filter (\<lambda>(k, _). prefix p k) vw') = map_of (map (entry_of p) ?es)"
    proof
      fix k
      have "map_of (filter (\<lambda>(k, _). prefix p k) vw') k = (if prefix p k then map_of vw' k else None)"
        by (rule map_of_filter_key)
      also have "\<dots> = (if k = p @ fmt_020d r then Some v else map_of (filter (\<lambda>(k, _). prefix p k) vw) k)"
        using assms(4) by (simp add: map_of_filter_key)
      also have "\<dots> = map_of (map (entry_of p) ((r, v) # es)) k" unfolding es by (simp add: entry_of_def)
      also have "\<dots> = map_of (map (entry_of p) ?es) k"
      proof (rule fun_cong [where f = "map_of (map (entry_of p) ((r, v) # es))"])
        have "p @ fmt_020d r \<notin> fst ` set (map (entry_of p) es)"
          using assms(5,6) index_keyed [OF assms(1)] by (force simp: entry_of_def)
        with d0 have "distinct (map fst (map (entry_of p) ((r, v) # es)))" by (auto simp: entry_of_def)
        then show "map_of (map (entry_of p) ((r, v) # es)) = map_of (map (entry_of p) ?es)"
          using d by (intro map_of_inject_set [THEN iffD2]) (auto simp: set_insort_key)
      qed
      finally show "map_of (filter (\<lambda>(k, _). prefix p k) vw') k = map_of (map (entry_of p) ?es) k" .
    qed
  qed (use assms(3) in \<open>simp add: sorted_wrt_map sorted_wrt_filter\<close>)
  then show ?thesis using keyed by (simp add: index_def)
qed

lemma index_other:
  assumes "index vw p es" "sorted_wrt (<) (map fst vw)" "sorted_wrt (<) (map fst vw')"
    "map_of vw' = (map_of vw)(k \<mapsto> v)" "\<not> prefix p k"
  shows "index vw' p es"
  by (rule index_same [OF assms(1-3)]) (use assms(4,5) in auto)

lemma index_append:
  assumes "index vw p es" "sorted_wrt (<) (map fst vw)" "sorted_wrt (<) (map fst vw')"
    "map_of vw' = (map_of vw)(p @ fmt_020d r \<mapsto> v)" "keyed r" "\<forall>r' \<in> fst ` set es. r' < r"
  shows "index vw' p (es @ [(r, v)])"
proof -
  have "index vw' p (insort_key fst (r, v) es)"
    by (rule index_insert [OF assms(1-3) _ assms(5)]) (use assms(4,6) in auto)
  then show ?thesis using assms(6) by (simp add: insort_key_last)
qed

section \<open>One more state\<close>

text \<open>The entries that a commit writes for a state, in their order.\<close>

definition label_puts :: "State \<Rightarrow> (string \<times> string) list \<Rightarrow> (string \<times> string) list" where
  "label_puts s ls = map (\<lambda>(k, v). (labelIndexKey k v (s_Rev s), s_ID s)) ls"

definition puts :: "'c easyproto \<Rightarrow> State \<Rightarrow> (string \<times> string) list" where
  "puts E s = [(stateKey s, MarshalState E s []), (latestRevKey (s_ID s), PutUint64 (s_Rev s))]
    @ label_puts s (gm_entries (s_Labels s)) @ [(revIndexKey (s_Rev s), s_ID s), committed_entry s]"

lemma map_of_const: "\<forall>x \<in> set xs. snd x = c \<Longrightarrow> map_of xs k = (if k \<in> fst ` set xs then Some c else None)"
  by (induction xs) auto

lemma map_of_label_puts:
  "map_of (rev (label_puts s ls)) key = (if \<exists>(k, v) \<in> set ls. key = labelIndexKey k v (s_Rev s) then Some (s_ID s) else None)"
proof -
  have "key \<in> fst ` set (rev (label_puts s ls)) \<longleftrightarrow> (\<exists>(k, v) \<in> set ls. key = labelIndexKey k v (s_Rev s))"
    by (force simp: label_puts_def)
  then show ?thesis by (subst map_of_const [where c = "s_ID s"]) (auto simp: label_puts_def)
qed

lemmas puts_lookup = puts_def committed_entry_def map_of_label_puts map_add_def

lemma puts_keys:
  "map_of (rev (puts E s)) (stateKey s') = (if stateKey s' = stateKey s then Some (MarshalState E s []) else None)"
  "map_of (rev (puts E s)) (latestRevKey i) = (if i = s_ID s then Some (PutUint64 (s_Rev s)) else None)"
  by (auto simp: puts_lookup foreign_key [symmetric] split: option.split)

lemma puts_label:
  assumes "storable s" "plain_label k v" "prefix (labelIndexPrefix k v) key"
  shows "map_of (rev (puts E s)) key
    = (if key = labelIndexKey k v (s_Rev s) \<and> gm_lookup (s_Labels s) k = Some v then Some (s_ID s) else None)"
proof -
  have s: "\<forall>(k, v) \<in> set (gm_entries (s_Labels s)). plain_label k v" "distinct (map fst (gm_entries (s_Labels s)))"
    using assms(1) by (auto simp: storable_def pb_ok_State_def pb_ok_map_def gm_wf_def)
  have no: "key \<noteq> stateKey s" "key \<noteq> latestRevKey i" "key \<noteq> revIndexKey r" "key \<noteq> committedAtIndexKey c r" for i c r
    using assms(3) by auto
  have "(\<exists>(k', v') \<in> set (gm_entries (s_Labels s)). key = labelIndexKey k' v' (s_Rev s))
      \<longleftrightarrow> key = labelIndexKey k v (s_Rev s) \<and> (k, v) \<in> set (gm_entries (s_Labels s))"
    using prefix_label [OF assms(2)] s(1) assms(3) by fastforce
  then show ?thesis using s(2) no by (auto simp: puts_lookup gm_lookup_def split: option.split)
qed

lemma puts_index:
  "prefix revIndexPrefix key \<Longrightarrow> map_of (rev (puts E s)) key = (if key = revIndexKey (s_Rev s) then Some (s_ID s) else None)"
  "prefix committedAtIndexPrefix key \<Longrightarrow> map_of (rev (puts E s)) key
    = (if key = committedAtIndexKey (s_CommittedAt s) (s_Rev s) then Some (s_ID s) else None)"
  by (auto simp: puts_lookup split: option.split)

text \<open>
  A state enters the store at the place of its revision: the others may have later ones, as long as
  they are of other ids.
\<close>

definition add_state_at :: "State \<Rightarrow> State list \<Rightarrow> State list" where
  "add_state_at s sts = insort_key s_Rev s sts"

lemma set_add_state_at [simp]: "set (add_state_at s sts) = insert s (set sts)"
  by (simp add: add_state_at_def set_insort_key)

lemma add_state_at_last: "\<forall>s' \<in> set sts. s_Rev s' < s_Rev s \<Longrightarrow> add_state_at s sts = sts @ [s]"
  by (simp add: add_state_at_def insort_key_last)

lemma last_insort:
  assumes "sorted_wrt (\<lambda>a b. f a < (f b :: 'b :: linorder)) xs" "xs \<noteq> [] \<Longrightarrow> f (last xs) < f x"
  shows "insort_key f x xs = xs @ [x]"
proof (rule insort_key_last, rule)
  fix y
  assume y: "y \<in> set xs"
  then have ne: "xs \<noteq> []" by auto
  then have "sorted_wrt (\<lambda>a b. f a < f b) (butlast xs @ [last xs])" using assms(1) by simp
  then have "\<forall>z \<in> set (butlast xs). f z < f (last xs)" by (simp add: sorted_wrt_append)
  with y ne have "f y \<le> f (last xs)" by (metis Un_iff append_butlast_last_id empty_iff insert_iff less_imp_le list.set(1,2) order_refl set_append)
  with assms(2) [OF ne] show "f y < f x" by simp
qed

lemma latest_rev_add:
  assumes "sorted_wrt (\<lambda>s s'. s_Rev s < s_Rev s') sts" "latest_rev sts (s_ID s) < s_Rev s"
  shows "latest_rev (add_state_at s sts) i = (if s_ID s = i then s_Rev s else latest_rev sts i)"
proof (cases "s_ID s = i")
  case True
  have srt: "sorted_wrt (\<lambda>s s'. s_Rev s < s_Rev s') (filter (\<lambda>s. s_ID s = i) sts)" by (rule sorted_wrt_filter [OF assms(1)])
  have "insort_key s_Rev s (filter (\<lambda>s. s_ID s = i) sts) = filter (\<lambda>s. s_ID s = i) sts @ [s]"
    by (rule last_insort [OF srt]) (use assms(2) True in \<open>auto simp: latest_rev_def Let_def\<close>)
  then show ?thesis using True assms(1) by (simp add: latest_rev_def add_state_at_def filter_insort_strict)
qed (use assms(1) in \<open>simp add: latest_rev_def add_state_at_def filter_insort_strict\<close>)

lemma label_entries_add:
  assumes "sorted_wrt (\<lambda>s s'. s_Rev s < s_Rev s') sts"
  shows "label_entries k v (add_state_at s sts)
    = (if gm_lookup (s_Labels s) k = Some v then insort_key fst (s_Rev s, s_ID s) (label_entries k v sts) else label_entries k v sts)"
  using assms by (simp add: label_entries_def add_state_at_def filter_insort_strict map_insort_key [where g = fst])

lemma states_in_add:
  assumes "states_in E vw sts" "sorted_wrt (<) (map fst vw)" "sorted_wrt (<) (map fst vw')" "storable s"
    and "s_Rev s \<notin> s_Rev ` set sts" "latest_rev sts (s_ID s) < s_Rev s" "map_of vw' = map_of vw ++ map_of (rev (puts E s))"
  shows "states_in E vw' (add_state_at s sts)"
proof -
  note st = assms(1) [unfolded states_in_def]
  have vw': "map_of vw' k = (case map_of (rev (puts E s)) k of None \<Rightarrow> map_of vw k | Some v \<Rightarrow> Some v)" for k
    by (simp add: assms(7) map_add_def)
  have s: "keyed (s_Rev s)" "0 < s_Rev s" using assms(4) by (simp_all add: storable_def)
  have kd: "\<forall>s' \<in> set sts. keyed (s_Rev s')" using st by (auto simp: list_all_iff storable_def)
  have srt: "sorted_wrt (\<lambda>s s'. s_Rev s < s_Rev s') sts" using st by blast
  then have "sorted_wrt (\<lambda>s s'. s_Rev s < s_Rev s') (add_state_at s sts)"
    using assms(5) unfolding add_state_at_def by (intro strict_insort_key) (auto simp: image_iff)
  moreover have "list_all storable (add_state_at s sts)" using st assms(4) by (simp add: list_all_iff)
  moreover have sk: "\<forall>s' \<in> set sts. stateKey s' \<noteq> stateKey s"
    using assms(5) kd s(1) by (auto simp: stateKey_inj image_iff)
  have "\<forall>s' \<in> set (add_state_at s sts). map_of vw' (stateKey s') = Some (MarshalState E s' [])"
    using sk st by (simp add: vw' puts_keys)
  moreover have "\<forall>s'. map_of vw' (stateKey s') \<noteq> None \<longrightarrow> stateKey s' \<in> stateKey ` set (add_state_at s sts)"
    using st by (auto simp: vw' puts_keys split: if_splits)
  moreover have "index vw' (labelIndexPrefix k v) (label_entries k v (add_state_at s sts))" if pl: "plain_label k v" for k v
  proof -
    have ix: "index vw (labelIndexPrefix k v) (label_entries k v sts)" using st pl by blast
    have new: "s_Rev s \<notin> fst ` set (label_entries k v sts)" using assms(5) by (auto simp: label_entries_def)
    then show ?thesis
    proof (cases "gm_lookup (s_Labels s) k = Some v")
      case True
      then have "map_of vw' key = (if key = labelIndexPrefix k v @ fmt_020d (s_Rev s) then Some (s_ID s) else map_of vw key)"
        if "prefix (labelIndexPrefix k v) key" for key
        using puts_label [OF assms(4) pl that, of E] by (simp add: vw' labelIndexKey_def)
      from index_insert [OF ix assms(2,3) this s(1) new] True show ?thesis by (simp add: label_entries_add [OF srt])
    next
      case False
      then have "map_of vw' key = map_of vw key" if "prefix (labelIndexPrefix k v) key" for key
        using puts_label [OF assms(4) pl that, of E] by (simp add: vw')
      from index_same [OF ix assms(2,3) this] False show ?thesis by (simp add: label_entries_add [OF srt])
    qed
  qed
  moreover have "index vw' revIndexPrefix (map (\<lambda>s. (s_Rev s, s_ID s)) (add_state_at s sts))"
  proof -
    have ix: "index vw revIndexPrefix (map (\<lambda>s. (s_Rev s, s_ID s)) sts)" using st by blast
    have "s_Rev s \<notin> fst ` set (map (\<lambda>s. (s_Rev s, s_ID s)) sts)" using assms(5) by auto
    then show ?thesis using index_insert [OF ix assms(2,3) _ s(1), of "s_ID s"]
      by (simp add: add_state_at_def map_insort_key [where g = fst] vw' puts_index(1) revIndexKey_def)
  qed
  moreover have "\<forall>k. prefix committedAtIndexPrefix k \<longrightarrow> map_of vw' k = map_of (map committed_entry (add_state_at s sts)) k"
  proof (intro allI impI)
    fix k
    assume k: "prefix committedAtIndexPrefix k"
    have new: "fst (committed_entry s) \<notin> fst ` set (map committed_entry sts)"
    proof
      assume "fst (committed_entry s) \<in> fst ` set (map committed_entry sts)"
      then obtain s' where s': "s' \<in> set sts" "committedAtIndexKey (s_CommittedAt s) (s_Rev s) = committedAtIndexKey (s_CommittedAt s') (s_Rev s')"
        by (auto simp: committed_entry_def)
      from committedAtIndexKey_inj [OF s(1) _ this(2)] kd s'(1) assms(5) show False by (auto simp: image_iff)
    qed
    have d: "distinct (map fst (map committed_entry sts))"
    proof -
      have "distinct sts" using srt by (induction sts) (auto)
      moreover have "inj_on (\<lambda>s. fst (committed_entry s)) (set sts)"
      proof (rule inj_onI)
        fix a b
        assume ab: "a \<in> set sts" "b \<in> set sts" "fst (committed_entry a) = fst (committed_entry b)"
        with kd have r: "s_Rev a = s_Rev b" by (auto simp: committed_entry_def dest: committedAtIndexKey_inj [rotated 2])
        from ab(1,2) r srt show "a = b" by (induction sts) auto
      qed
      ultimately show ?thesis by (simp add: distinct_map comp_def)
    qed
    have "map_of vw' k = map_of (map committed_entry (s # sts)) k"
      using st k by (simp add: vw' puts_index(2) committed_entry_def)
    also have "\<dots> = map_of (map committed_entry (add_state_at s sts)) k"
    proof (rule fun_cong [OF map_of_inject_set [THEN iffD2]])
      show "distinct (map fst (map committed_entry (s # sts)))" using new d by auto
      show "distinct (map fst (map committed_entry (add_state_at s sts)))"
        using new d by (auto simp: add_state_at_def distinct_map_insort)
    qed simp
    finally show "map_of vw' k = map_of (map committed_entry (add_state_at s sts)) k" .
  qed
  moreover have "\<forall>i. map_of vw' (latestRevKey i)
      = (if latest_rev (add_state_at s sts) i = 0 then None else Some (PutUint64 (latest_rev (add_state_at s sts) i)))"
    using st s(2) by (simp add: vw' puts_keys latest_rev_add [OF srt assms(6)])
  ultimately show ?thesis by (simp add: states_in_def)
qed

text \<open>Several states, one after the other.\<close>

lemma sorted_alist_exists:
  assumes "finite (dom m)"
  shows "\<exists>xs. sorted_wrt (<) (map fst xs) \<and> map_of xs = (m :: 'a :: linorder \<rightharpoonup> 'b)"
proof -
  let ?xs = "map (\<lambda>k. (k, the (m k))) (sorted_list_of_set (dom m))"
  have "map_of ?xs = m"
    using assms by (intro ext) (auto simp: map_of_map_restrict restrict_map_def domIff)
  moreover have "sorted_wrt (<) (map fst ?xs)" by (simp add: comp_def)
  ultimately show ?thesis by blast
qed

lemma fold_add_states:
  "set (fold add_state_at new sts) = set sts \<union> set new"
  "\<forall>s \<in> set new. \<forall>s' \<in> set sts. s_Rev s' < s_Rev s \<Longrightarrow> sorted_wrt (\<lambda>s s'. s_Rev s < s_Rev s') new \<Longrightarrow> fold add_state_at new sts = sts @ new"
  by (induction new arbitrary: sts) (auto simp: add_state_at_last)

lemma states_in_adds:
  assumes "states_in E vw sts" "sorted_wrt (<) (map fst vw)" "sorted_wrt (<) (map fst vw')"
    and "list_all storable new" "sorted_wrt (\<lambda>s s'. s_Rev s < s_Rev s') new"
    and "\<forall>s \<in> set new. s_Rev s \<notin> s_Rev ` set sts \<and> latest_rev sts (s_ID s) < s_Rev s"
    and "map_of vw' = map_of vw ++ map_of (rev (concat (map (puts E) new)))"
  shows "states_in E vw' (fold add_state_at new sts)"
  using assms
proof (induction new arbitrary: vw sts)
  case Nil
  then have "vw' = vw" by (intro sorted_map_unique) simp_all
  with Nil show ?case by simp
next
  case (Cons s new)
  have "finite (dom (map_of vw ++ map_of (rev (puts E s))))" by (simp add: finite_dom_map_of)
  from sorted_alist_exists [OF this] obtain vw1 where
    vw1: "sorted_wrt (<) (map fst vw1)" "map_of vw1 = map_of vw ++ map_of (rev (puts E s))" by blast
  have srt: "sorted_wrt (\<lambda>s s'. s_Rev s < s_Rev s') sts" using Cons.prems(1) by (simp add: states_in_def)
  have s: "storable s" "s_Rev s \<notin> s_Rev ` set sts" "latest_rev sts (s_ID s) < s_Rev s" "\<forall>s' \<in> set new. s_Rev s < s_Rev s'"
    using Cons.prems by simp_all
  have "states_in E vw1 (add_state_at s sts)" by (rule states_in_add [OF Cons.prems(1,2) vw1(1) s(1-3) vw1(2)])
  moreover have "\<forall>s' \<in> set new. s_Rev s' \<notin> s_Rev ` set (add_state_at s sts) \<and> latest_rev (add_state_at s sts) (s_ID s') < s_Rev s'"
    using Cons.prems(6) s by (auto simp: latest_rev_add [OF srt s(3)])
  moreover have "map_of vw' = map_of vw1 ++ map_of (rev (concat (map (puts E) new)))"
    using Cons.prems(7) by (simp add: vw1(2) map_add_assoc)
  ultimately show ?case using Cons.IH [OF _ vw1(1) Cons.prems(3)] Cons.prems(4,5) by simp
qed

lemma latest_rev_same:
  assumes "states_in E vw sts" "states_in E vw' sts'" "map_of vw' (latestRevKey i) = map_of vw (latestRevKey i)"
  shows "latest_rev sts' i = latest_rev sts i"
proof -
  have k: "keyed (latest_rev ss i)" if "states_in E v ss" for v ss
    using latest_rev_mem [of ss i] that by (cases "latest_rev ss i = 0") (auto simp: states_in_def list_all_iff storable_def keyed_def)
  have "(if latest_rev sts' i = 0 then None else Some (PutUint64 (latest_rev sts' i)))
      = (if latest_rev sts i = 0 then None else Some (PutUint64 (latest_rev sts i)))"
    using assms unfolding states_in_def by auto
  then show ?thesis using k [OF assms(1)] k [OF assms(2)] by (auto split: if_splits dest: arg_cong [of _ _ Uint64] simp: Uint64_PutUint64)
qed

section \<open>Writing a state\<close>

lemma wrap_err_Ok [simp]: "wrap_err m r = Ok x \<longleftrightarrow> r = Ok x"
  by (cases r) auto

context badger_laws
begin

text \<open>What a transaction sees is what it started on, overwritten by its writes.\<close>

definition txn_ok :: "'txn \<Rightarrow> bool" where
  "txn_ok t \<longleftrightarrow> map_of (view t) = map_of (stored (start t)) ++ writes t"

lemma sorted_stored: "sorted_wrt (<) (map fst (stored db))"
  using sorted_view [of "bd_NewTransaction B db"] by (simp add: NewTransaction)

lemma txn_ok_new: "txn_ok (bd_NewTransaction B db)"
  by (simp add: txn_ok_def NewTransaction)

lemma Commit_stored:
  assumes "txn_ok t" "bd_Commit B t (start t) = Some db'"
  shows "stored db' = view t"
  using assms Commit [OF assms(2)] by (intro sorted_map_unique sorted_stored sorted_view) (simp add: txn_ok_def)

lemma Set_txn_ok:
  assumes "txn_ok t" "bd_Set B t k v = Ok t'"
  shows "txn_ok t' \<and> start t' = start t"
  using Set [OF assms(2)] assms(1) by (simp add: txn_ok_def)

lemma Set_map_of: "bd_Set B t k v = Ok t' \<Longrightarrow> map_of (view t') = (map_of (view t))(k \<mapsto> v)"
  using Set by blast

lemma Set_index_other:
  assumes "bd_Set B t k v = Ok t'" "index (view t) p es" "\<not> prefix p k"
  shows "index (view t') p es"
  by (rule index_other [OF assms(2) sorted_view sorted_view Set_map_of [OF assms(1)] assms(3)])

lemma Set_index_append:
  assumes "bd_Set B t (p @ fmt_020d r) v = Ok t'" "index (view t) p es" "keyed r" "\<forall>r' \<in> fst ` set es. r' < r"
  shows "index (view t') p (es @ [(r, v)])"
  by (rule index_append [OF assms(2) sorted_view sorted_view Set_map_of [OF assms(1)] assms(3,4)])

lemma put_state_steps:
  assumes "put_state B E t s = Ok t'"
  obtains t1 t2 t3 t4 where
    "bd_Set B t (stateKey s) (MarshalState E s []) = Ok t1"
    "bd_Set B t1 (latestRevKey (s_ID s)) (PutUint64 (s_Rev s)) = Ok t2"
    "set_labels B (gm_entries (s_Labels s)) s t2 = Ok t3"
    "bd_Set B t3 (revIndexPrefix @ fmt_020d (s_Rev s)) (s_ID s) = Ok t4"
    "bd_Set B t4 (committedAtIndexKey (s_CommittedAt s) (s_Rev s)) (s_ID s) = Ok t'"
  using assms
  by (auto simp: put_state_def obind_Ok_iff setState_def setLatestRevIndex_def setInt64_def setLabelsIndex_def
      setRevIndex_def setCommittedAtIndex_def revIndexKey_def)

lemma set_labels_writes:
  "set_labels B ls s t = Ok t' \<Longrightarrow> map_of (view t') = map_of (view t) ++ map_of (rev (label_puts s ls))
    \<and> writes t' = writes t ++ map_of (rev (label_puts s ls)) \<and> start t' = start t"
proof (induction ls arbitrary: t)
  case (Cons l ls)
  then obtain t1 where "bd_Set B t (labelIndexKey (fst l) (snd l) (s_Rev s)) (s_ID s) = Ok t1" "set_labels B ls s t1 = Ok t'"
    by (cases l) (auto simp: obind_Ok_iff)
  with Cons.IH Set [OF this(1)] show ?case
    by (cases l) (simp add: label_puts_def, simp add: fun_eq_iff map_add_def split: option.split)
qed (simp add: label_puts_def)

lemma put_state_writes:
  assumes "put_state B E t s = Ok t'"
  shows "map_of (view t') = map_of (view t) ++ map_of (rev (puts E s))" "writes t' = writes t ++ map_of (rev (puts E s))"
    "start t' = start t"
proof -
  from assms obtain t1 t2 t3 t4 where t:
    "bd_Set B t (stateKey s) (MarshalState E s []) = Ok t1"
    "bd_Set B t1 (latestRevKey (s_ID s)) (PutUint64 (s_Rev s)) = Ok t2"
    "set_labels B (gm_entries (s_Labels s)) s t2 = Ok t3"
    "bd_Set B t3 (revIndexPrefix @ fmt_020d (s_Rev s)) (s_ID s) = Ok t4"
    "bd_Set B t4 (committedAtIndexKey (s_CommittedAt s) (s_Rev s)) (s_ID s) = Ok t'"
    by (rule put_state_steps)
  note w = Set [OF t(1)] Set [OF t(2)] set_labels_writes [OF t(3)] Set [OF t(4)] Set [OF t(5)]
  show "map_of (view t') = map_of (view t) ++ map_of (rev (puts E s))" "writes t' = writes t ++ map_of (rev (puts E s))"
    "start t' = start t"
    using w by (simp_all add: puts_def committed_entry_def revIndexKey_def map_add_assoc)
qed

lemma put_state_txn_ok:
  assumes "put_state B E t s = Ok t'" "txn_ok t"
  shows "txn_ok t' \<and> start t' = start t"
  using put_state_writes [OF assms(1)] assms(2) by (simp add: txn_ok_def)

lemma Read_txn_ok: "txn_ok t \<Longrightarrow> txn_ok (bd_Read B t k)"
  by (simp add: txn_ok_def Read)

text \<open>Writing a state with a later revision adds it to the states of the store.\<close>

lemma put_state_states_in:
  assumes "states_in E (view t) sts" "storable s" "\<forall>s' \<in> set sts. s_Rev s' < s_Rev s" "put_state B E t s = Ok t'"
  shows "states_in E (view t') (sts @ [s])"
proof -
  have "latest_rev sts (s_ID s) < s_Rev s"
    using latest_rev_mem [of sts "s_ID s"] assms(2,3) by (cases "latest_rev sts (s_ID s) = 0") (auto simp: storable_def)
  with states_in_add [OF assms(1) sorted_view sorted_view assms(2) _ _ put_state_writes(1) [OF assms(4)]] assms(3)
  show ?thesis by (fastforce simp: add_state_at_last)
qed

text \<open>What is read back.\<close>

lemma getLatestRevIndex_spec:
  assumes "states_in E (view t) sts"
  shows "getLatestRevIndex B t i = Ok (latest_rev sts i)"
proof (cases "latest_rev sts i = 0")
  case True
  with assms show ?thesis by (simp add: getLatestRevIndex_def getInt64_def Get states_in_def)
next
  case False
  from latest_rev_mem [OF False] obtain s where "s \<in> set sts" "s_Rev s = latest_rev sts i" by blast
  with assms have k: "keyed (latest_rev sts i)" by (auto simp: states_in_def list_all_iff storable_def)
  then have "i64 (latest_rev sts i) = latest_rev sts i" by (simp add: keyed_def in_i64_small)
  with assms False k show ?thesis
    by (simp add: getLatestRevIndex_def getInt64_def Get states_in_def Uint64_PutUint64)
qed

lemma getState_spec:
  assumes "easyproto_laws E" "states_in E (view t) sts" "s \<in> set sts"
  shows "getState B E t (s_ID s) (s_Rev s) = Ok (Some s)"
proof -
  have st: "map_of (view t) (stateKey s) = Some (MarshalState E s [])" "pb_ok_State s" "pb_State s = s"
    using assms(2,3) by (auto simp: states_in_def list_all_iff storable_def)
  have "stateKey (State0\<lparr>s_ID := s_ID s, s_Rev := s_Rev s\<rparr>) = stateKey s" by (simp add: stateKey_def)
  with st easyproto_laws.State_roundtrip_into [OF assms(1) st(2), of "s_ID s" "s_Rev s"] show ?thesis
    by (simp add: getState_def Get MarshalState_def)
qed

lemma getState_none:
  assumes "states_in E (view t) sts" "\<forall>s \<in> set sts. \<not> (s_ID s = i \<and> s_Rev s = r)" "keyed r"
  shows "getState B E t i r = Ok None"
proof -
  let ?s = "State0\<lparr>s_ID := i, s_Rev := r\<rparr>"
  have "stateKey ?s \<notin> stateKey ` set sts"
  proof
    assume "stateKey ?s \<in> stateKey ` set sts"
    then obtain s where s: "s \<in> set sts" "stateKey ?s = stateKey s" by blast
    moreover have "keyed (s_Rev s)" using s(1) assms(1) by (auto simp: states_in_def list_all_iff storable_def)
    ultimately show False using stateKey_inj [of ?s s] assms(2,3) by auto
  qed
  then have "map_of (view t) (stateKey ?s) = None" using assms(1) unfolding states_in_def by blast
  then show ?thesis by (simp add: getState_def Get Let_def)
qed

lemma load_state_spec:
  "easyproto_laws E \<Longrightarrow> states_in E (view t) sts \<Longrightarrow> s \<in> set sts \<Longrightarrow> load_state B E t (s_ID s) (s_Rev s) = Ok s"
  by (simp add: load_state_def getState_spec)

end

end
