(* ===== verification/BadgerProps.thy ===== *)
theory BadgerProps
  imports BadgerStore MemdriverReads
begin

text \<open>
  Reads of the badger driver: what the iterators yield over a store that holds a list of states,
  what \<open>GetStates\<close> makes of it, and where it differs from what the in-memory driver answers.
\<close>

section \<open>Label sets\<close>

definition has_labels :: "(string \<times> string) list \<Rightarrow> State \<Rightarrow> bool" where
  "has_labels ls s \<longleftrightarrow> (\<forall>(k, v) \<in> set ls. gm_lookup (s_Labels s) k = Some v)"

text \<open>A query that the index can answer.\<close>

definition plain_query :: "(string \<times> string) list \<Rightarrow> bool" where
  "plain_query ls \<longleftrightarrow> ls \<noteq> [] \<and> (\<forall>(k, v) \<in> set ls. k \<noteq> [] \<and> v \<noteq> [] \<and> plain_label k v)"

definition label_pes :: "(string \<times> string) list \<Rightarrow> State list \<Rightarrow> indexed list" where
  "label_pes ls sts = map (\<lambda>(k, v). (labelIndexPrefix k v, label_entries k v sts)) ls"

definition state_at :: "State list \<Rightarrow> int \<Rightarrow> State" where
  "state_at sts r = the (find (\<lambda>s. s_Rev s = r) sts)"

lemma state_at_rev:
  "sorted_wrt (\<lambda>s s'. s_Rev s < s_Rev s') sts \<Longrightarrow> s \<in> set sts \<Longrightarrow> state_at sts (s_Rev s) = s"
proof (induction sts)
  case (Cons x sts)
  then show ?case by (cases "x = s") (auto simp: state_at_def)
qed simp

lemma rev_inj:
  fixes s s' :: State
  assumes "sorted_wrt (\<lambda>s s'. s_Rev s < s_Rev s') sts" "s \<in> set sts" "s' \<in> set sts" "s_Rev s = s_Rev s'"
  shows "s = s'"
  by (rule trans [OF state_at_rev [OF assms(1,2), symmetric, unfolded assms(4)] state_at_rev [OF assms(1,3)]])

lemma label_entries_rev:
  assumes "sorted_wrt (\<lambda>s s'. s_Rev s < s_Rev s') sts" "s \<in> set sts"
  shows "s_Rev s \<in> fst ` set (label_entries k v sts) \<longleftrightarrow> gm_lookup (s_Labels s) k = Some v"
proof
  assume "s_Rev s \<in> fst ` set (label_entries k v sts)"
  then obtain s' where "s' \<in> set sts" "gm_lookup (s_Labels s') k = Some v" "s_Rev s = s_Rev s'"
    by (auto simp: label_entries_def)
  with rev_inj [OF assms \<open>s' \<in> set sts\<close>] show "gm_lookup (s_Labels s) k = Some v" by simp
qed (use assms(2) in \<open>auto simp: label_entries_def image_iff\<close>)

lemma commons_labels:
  assumes "sorted_wrt (\<lambda>s s'. s_Rev s < s_Rev s') sts" "ls \<noteq> []"
  shows "commons (label_pes ls sts) = map s_Rev (filter (has_labels ls) sts)"
proof -
  obtain k v ls' where ls: "ls = (k, v) # ls'" using assms(2) by (cases ls) auto
  have "s_Rev s \<in> common (label_pes ls sts) \<longleftrightarrow> has_labels ls s" if "s \<in> set sts" for s
    using label_entries_rev [OF assms(1) that] by (simp add: common_def label_pes_def has_labels_def case_prod_unfold)
  then have "filter (\<lambda>r. r \<in> common (label_pes ls sts)) (map s_Rev (filter (\<lambda>s. gm_lookup (s_Labels s) k = Some v) sts))
      = map s_Rev (filter (has_labels ls) sts)"
    by (simp add: filter_map comp_def) (intro arg_cong [of _ _ "map s_Rev"] filter_cong, simp_all add: has_labels_def ls)
  then show ?thesis by (simp add: commons_def ls label_pes_def label_entries_def comp_def)
qed

context badger_laws
begin

lemma labels_load:
  assumes "easyproto_laws E" "states_in E (view t) sts" "(k, v) \<in> set ls" "(r, i) \<in> set (label_entries k v sts)"
  shows "load_state B E t i r = Ok (state_at sts r)"
proof -
  from assms(4) obtain s where "s \<in> set sts" "r = s_Rev s" "i = s_ID s" by (auto simp: label_entries_def)
  moreover from this assms(2) have "state_at sts r = s" by (simp add: states_in_def state_at_rev)
  ultimately show ?thesis using load_state_spec [OF assms(1,2)] by simp
qed

lemma labels_open:
  assumes "easyproto_laws E" "states_in E (view t) sts" "gm_entries labels = ls" "plain_query ls" "keyed a"
  shows "\<exists>l. newLabelsIterator B E t labels a False = Some (Ok (), l)
    \<and> (case find (\<lambda>r. a \<le> r) (commons (label_pes ls sts)) of
         None \<Rightarrow> \<not> li_valid l | Some r \<Rightarrow> li_at (view t) (label_pes ls sts) (state_at sts) r l)"
  unfolding label_pes_def
proof (rule newLabelsIterator_spec [OF assms(3)])
  show "ls \<noteq> []" using assms(4) by (simp add: plain_query_def)
  show "\<forall>(k, v) \<in> set ls. k \<noteq> [] \<and> v \<noteq> [] \<and> index (view t) (labelIndexPrefix k v) (label_entries k v sts)"
    using assms(2,4) by (auto simp: plain_query_def states_in_def)
qed (use assms(5) labels_load [OF assms(1,2)] in blast)+

lemma pes_load:
  assumes "easyproto_laws E" "states_in E (view t) sts" "pe \<in> set (label_pes ls sts)" "(r, v) \<in> set (snd pe)"
  shows "load_state B E t v r = Ok (state_at sts r)"
  using labels_load [OF assms(1,2)] assms(3,4) by (auto simp: label_pes_def)

lemma labels_drain:
  assumes "easyproto_laws E" "states_in E (view t) sts" "gm_entries labels = ls" "plain_query ls" "keyed a" "length sts \<le> n"
  shows "\<exists>l. newLabelsIterator B E t labels a False = Some (Ok (), l)
    \<and> li_drain B E t n l = Some (filter (\<lambda>s. a \<le> s_Rev s \<and> has_labels ls s) sts)"
proof -
  let ?pes = "label_pes ls sts"
  have srt: "sorted_wrt (\<lambda>s s'. s_Rev s < s_Rev s') sts" using assms(2) by (simp add: states_in_def)
  have ne: "ls \<noteq> []" using assms(4) by (simp add: plain_query_def)
  note cm = commons_labels [OF srt ne]
  from labels_open [OF assms(1-5)] obtain l where l: "newLabelsIterator B E t labels a False = Some (Ok (), l)"
    "case find (\<lambda>r. a \<le> r) (commons ?pes) of None \<Rightarrow> \<not> li_valid l | Some r \<Rightarrow> li_at (view t) ?pes (state_at sts) r l" by blast
  have "sorted_wrt (<) (commons ?pes)" unfolding cm using srt by (simp add: sorted_wrt_map sorted_wrt_filter)
  moreover have len: "length (filter (\<lambda>r. a \<le> r) (commons ?pes)) \<le> n"
    unfolding cm using assms(6) by (metis (no_types, lifting) filter_filter filter_map le_trans length_filter_le length_map)
  ultimately have "li_drain B E t n l = Some (map (state_at sts) (filter (\<lambda>r. a \<le> r) (commons ?pes)))"
    using l(2) pes_load [OF assms(1,2)] by (intro li_drain_from) auto
  also have "map (state_at sts) (filter (\<lambda>r. a \<le> r) (commons ?pes)) = filter (\<lambda>s. a \<le> s_Rev s \<and> has_labels ls s) sts"
    unfolding cm using srt
    by (simp add: filter_map comp_def conj_commute) (rule map_idI, simp add: state_at_rev)
  finally show ?thesis using l(1) by blast
qed

end

section \<open>The loop of a read\<close>

text \<open>What \<open>for ; it.Valid(); it.Next()\<close> sees.\<close>

inductive yields :: "('db, 'txn, 'q) badger \<Rightarrow> 'c easyproto \<Rightarrow> 'txn \<Rightarrow> state_iterator \<Rightarrow> State list \<Rightarrow> bool"
  for B E txn where
  yields_Nil: "\<not> si_Valid it \<Longrightarrow> yields B E txn it []"
| yields_Cons: "si_Valid it \<Longrightarrow> si_Next B E txn it = Some (Ok (), it') \<Longrightarrow> yields B E txn it' ss
    \<Longrightarrow> yields B E txn it (si_Current it # ss)"

fun read_loop :: "(State \<Rightarrow> bool) \<Rightarrow> int \<Rightarrow> int \<Rightarrow> State list \<Rightarrow> State list \<Rightarrow> GetStatesResult" where
  "read_loop old untilRev limit states [] = \<lparr>gsr_States = states, gsr_More = False\<rparr>"
| "read_loop old untilRev limit states (s # ss) =
    (if int (length states) > limit then \<lparr>gsr_States = states, gsr_More = True\<rparr>
     else if \<not> old s \<and> s_Rev s > untilRev then \<lparr>gsr_States = states, gsr_More = False\<rparr>
     else read_loop old untilRev limit (if old s then states else states @ [s]) ss)"

definition old_state :: "('db, 'txn, 'q) badger \<Rightarrow> 'txn \<Rightarrow> GetStatesCommand \<Rightarrow> State \<Rightarrow> bool" where
  "old_state B txn cmd s \<longleftrightarrow> gs_LatestOnly cmd
    \<and> s_Rev s < (case getLatestRevIndex B txn (s_ID s) of Ok r \<Rightarrow> r | _ \<Rightarrow> 0)"

lemma loop_yields:
  "yields B E txn it ss \<Longrightarrow> bg_GetStates_loop B E txn cmd untilRev it states
    = Some (Ok (read_loop (old_state B txn cmd) untilRev (gs_Limit cmd) states ss))"
proof (induction arbitrary: states rule: yields.induct)
  case (yields_Cons it it' ss)
  then show ?case
    by (subst bg_GetStates_loop.simps, unfold Let_def old_state_def [symmetric]) simp
qed (subst bg_GetStates_loop.simps, simp)

text \<open>All states may be seen: the read stops one behind the limit.\<close>

lemma read_loop_all:
  assumes "\<forall>s \<in> set ss. \<not> old s \<and> s_Rev s \<le> untilRev" "int (length states) \<le> limit + 1"
  shows "read_loop old untilRev limit states ss
    = \<lparr>gsr_States = take (nat (limit + 1)) (states @ ss), gsr_More = int (length states + length ss) > limit + 1\<rparr>"
  using assms
proof (induction ss arbitrary: states)
  case (Cons s ss)
  show ?case
  proof (cases "int (length states) > limit")
    case True
    then have "nat (limit + 1) = length states" using Cons.prems(2) by simp
    with True Cons.prems show ?thesis by simp
  next
    case False
    then show ?thesis using Cons.IH [of "states @ [s]"] Cons.prems by simp
  qed
qed simp

section \<open>All revisions\<close>

definition ri_at :: "State \<Rightarrow> revIterator \<Rightarrow> bool" where
  "ri_at s l \<longleftrightarrow> bi_prefix (ri_Iterator l) = revIndexPrefix
    \<and> bi_item (ri_Iterator l) = Some (entry_of revIndexPrefix (s_Rev s, s_ID s)) \<and> \<not> ri_dir l \<and> ri_current l = s"

lemma find_after_state:
  "sorted_wrt (\<lambda>s s'. s_Rev s < s_Rev s') sts \<Longrightarrow> find (\<lambda>s. a < s_Rev s) sts = Some (s :: State) \<Longrightarrow>
    filter (\<lambda>s. a < s_Rev s) sts = s # filter (\<lambda>s'. s_Rev s < s_Rev s') sts"
proof (induction sts)
  case (Cons y ys)
  show ?case
  proof (cases "a < s_Rev y")
    case True
    then have "filter (\<lambda>s. a < s_Rev s) ys = ys" "filter (\<lambda>s. s_Rev y < s_Rev s) ys = ys"
      using Cons.prems by (auto simp: filter_id_conv)
    with True Cons.prems show ?thesis by simp
  next
    case False
    with Cons.prems have "s_Rev y < s_Rev s" by (auto dest!: find_Some_iff [THEN iffD1])
    with False Cons show ?thesis by simp
  qed
qed simp

context badger_laws
begin

lemma ri_load:
  assumes "easyproto_laws E" "states_in E (view t) sts" "s \<in> set sts"
    and "bi_prefix (ri_Iterator l) = revIndexPrefix" "bi_item (ri_Iterator l) = Some (entry_of revIndexPrefix (s_Rev s, s_ID s))"
    and "\<not> ri_dir l"
  shows "\<exists>l'. ri_seekState B E t l = (Ok (), l') \<and> ri_at s l'"
proof -
  have "keyed (s_Rev s)" using assms(2,3) by (auto simp: states_in_def list_all_iff storable_def)
  from fmt_020d_keyed(3) [OF this] load_state_spec [OF assms(1-3)] show ?thesis
    using assms(4-6) by (simp add: ri_seekState_def entry_of_def parse_rev_def ri_at_def)
qed

lemma find_rev_index:
  "find (\<lambda>(r, _). a < r) (map (\<lambda>s. (s_Rev s, s_ID s)) sts)
    = map_option (\<lambda>s. (s_Rev s, s_ID s)) (find (\<lambda>s. a < s_Rev s) sts)"
  by (simp add: find_map comp_def)

lemma ri_yields:
  assumes "easyproto_laws E" "states_in E (view t) sts" "s \<in> set sts" "ri_at s l"
  shows "yields B E t (RevIt l) (s # filter (\<lambda>s'. s_Rev s < s_Rev s') sts)"
  using assms(3,4)
proof (induction "length (filter (\<lambda>s'. s_Rev s < s_Rev s') sts)" arbitrary: s l rule: less_induct)
  case less
  note at = less.prems(2) [unfolded ri_at_def]
  have st: "sorted_wrt (\<lambda>s s'. s_Rev s < s_Rev s') sts" "index (view t) revIndexPrefix (map (\<lambda>s. (s_Rev s, s_ID s)) sts)"
    using assms(2) by (simp_all add: states_in_def)
  have k: "keyed (s_Rev s)" using assms(2) less.prems(1) by (auto simp: states_in_def list_all_iff storable_def)
  have v: "si_Valid (RevIt l)" "si_Current (RevIt l) = s" using at by (simp_all add: bi_Valid_def entry_of_def)
  let ?it = "(ri_Iterator l)\<lparr>bi_item := map_option (entry_of revIndexPrefix)
      (map_option (\<lambda>s. (s_Rev s, s_ID s)) (find (\<lambda>s'. s_Rev s < s_Rev s') sts))\<rparr>"
  have nx: "bi_Next B t False (ri_Iterator l) = ?it"
    using at Next_index [OF st(2) k] find_rev_index [of "s_Rev s" sts] by (simp add: bi_Next_def entry_of_def)
  show ?case
  proof (cases "find (\<lambda>s'. s_Rev s < s_Rev s') sts")
    case None
    then have "si_Next B E t (RevIt l) = Some (Ok (), RevIt (l\<lparr>ri_Iterator := ?it\<rparr>))" "\<not> si_Valid (RevIt (l\<lparr>ri_Iterator := ?it\<rparr>))"
      using nx at by (simp_all add: ri_Next_def bi_Valid_def)
    from yields_Cons [OF v(1) this(1) yields_Nil [OF this(2)]] v(2) find_filter_None [THEN iffD1, OF None]
    show ?thesis by simp
  next
    case (Some s')
    then have s': "s' \<in> set sts" "s_Rev s < s_Rev s'" by (auto dest!: find_Some_iff [THEN iffD1])
    note split = find_after_state [OF st(1) Some]
    from ri_load [OF assms(1,2) s'(1), of "l\<lparr>ri_Iterator := ?it\<rparr>"] at Some obtain l' where
      l': "ri_seekState B E t (l\<lparr>ri_Iterator := ?it\<rparr>) = (Ok (), l')" "ri_at s' l'" by auto
    then have "si_Next B E t (RevIt l) = Some (Ok (), RevIt l')"
      using nx at Some by (simp add: ri_Next_def bi_Valid_def entry_of_def Let_def)
    moreover have "yields B E t (RevIt l') (s' # filter (\<lambda>s. s_Rev s' < s_Rev s) sts)"
      by (rule less.hyps [OF _ s'(1) l'(2)]) (simp add: split)
    ultimately show ?thesis using yields_Cons [OF v(1)] v(2) split by simp
  qed
qed

text \<open>The seek goes behind \<open>since\<close>, not to it.\<close>

lemma newRevIterator_yields:
  assumes "easyproto_laws E" "states_in E (view t) sts" "keyed a"
  shows "\<exists>l. newRevIterator B E t a False = (Ok (), l) \<and> yields B E t (RevIt l) (filter (\<lambda>s. a < s_Rev s) sts)"
proof -
  have st: "sorted_wrt (\<lambda>s s'. s_Rev s < s_Rev s') sts" "index (view t) revIndexPrefix (map (\<lambda>s. (s_Rev s, s_ID s)) sts)"
    using assms(2) by (simp_all add: states_in_def)
  let ?it = "\<lparr>bi_prefix = revIndexPrefix, bi_item = map_option (entry_of revIndexPrefix)
      (map_option (\<lambda>s. (s_Rev s, s_ID s)) (find (\<lambda>s. a < s_Rev s) sts))\<rparr>"
  let ?l = "\<lparr>ri_Iterator = ?it, ri_dir = False, ri_reverse = True, ri_current = State0\<rparr>"
  have new: "newRevIterator B E t a False = (if bi_Valid ?it then ri_seekState B E t ?l else (Ok (), ?l))"
    using Seek_index(2) [OF st(2) assms(3), of "[CHR 0xFF]"] find_rev_index [of a sts]
    by (simp add: newRevIterator_def bi_Seek_def seekPrefix_def Let_def)
  show ?thesis
  proof (cases "find (\<lambda>s. a < s_Rev s) sts")
    case None
    then show ?thesis using new yields_Nil [of "RevIt ?l" B E t] find_filter_None [THEN iffD1, OF None]
      by (simp add: bi_Valid_def)
  next
    case (Some s)
    then have s: "s \<in> set sts" by (auto dest!: find_Some_iff [THEN iffD1])
    from ri_load [OF assms(1,2) s, of ?l] Some obtain l where "ri_seekState B E t ?l = (Ok (), l)" "ri_at s l" by auto
    with ri_yields [OF assms(1,2) s this(2)] find_after_state [OF st(1) Some] new Some show ?thesis
      by (simp add: bi_Valid_def entry_of_def)
  qed
qed

end

section \<open>One label set\<close>

definition one_of :: "labelsIterator \<Rightarrow> orIterator" where
  "one_of l = or_seekState \<lparr>or_valid = True, or_reverse = False, or_current = State0, or_its = [l]\<rparr>"

lemma one_of_simps:
  "li_valid l \<Longrightarrow> one_of l = \<lparr>or_valid = True, or_reverse = False, or_current = li_current l, or_its = [l]\<rparr>"
  "\<not> li_valid l \<Longrightarrow> one_of l = \<lparr>or_valid = False, or_reverse = False, or_current = State0, or_its = []\<rparr>"
  by (simp_all add: one_of_def or_seekState_def or_better_def or_Close_def)

lemma one_of_Next:
  assumes "li_valid l" "li_Next B E t l = Some (Ok (), l')"
  shows "\<exists>o'. si_Next B E t (OrIt (one_of l)) = Some (Ok (), OrIt o') \<and> (li_valid l' \<longrightarrow> o' = one_of l') \<and> (\<not> li_valid l' \<longrightarrow> \<not> or_valid o')"
  using assms
  by (cases "li_valid l'")
    (auto simp: one_of_simps or_Next_def or_seekState_def or_better_def or_Close_def)

context badger_laws
begin

lemma one_of_yields:
  assumes "sorted_wrt (<) (commons pes)"
    and "case find (\<lambda>r. a \<le> r) (commons pes) of None \<Rightarrow> \<not> li_valid l | Some r \<Rightarrow> li_at (view t) pes st r l"
    and "\<And>pe r v. pe \<in> set pes \<Longrightarrow> (r, v) \<in> set (snd pe) \<Longrightarrow> load_state B E t v r = Ok (st r)"
  shows "yields B E t (OrIt (one_of l)) (map st (filter (\<lambda>r. a \<le> r) (commons pes)))"
  using assms(2)
proof (induction "length (filter (\<lambda>r. a \<le> r) (commons pes))" arbitrary: l a rule: less_induct)
  case less
  show ?case
  proof (cases "find (\<lambda>r. a \<le> r) (commons pes)")
    case None
    with less.prems have "\<not> si_Valid (OrIt (one_of l))" by (simp add: one_of_simps)
    from yields_Nil [OF this] find_filter_None [THEN iffD1, OF None] show ?thesis by simp
  next
    case (Some r)
    note split = find_after [OF assms(1) Some]
    from Some less.prems have at: "li_at (view t) pes st r l" by simp
    then have v: "li_valid l" "li_current l = st r" by (simp_all add: li_at_def li_on_def)
    have "\<exists>l'. li_Next B E t l = Some (Ok (), l') \<and> (case find (\<lambda>r'. r + 1 \<le> r') (commons pes) of
        None \<Rightarrow> \<not> li_valid l' | Some r' \<Rightarrow> li_at (view t) pes st r' l')"
      by (rule li_Next_spec [OF at]) (rule assms(3))
    then obtain l' where nx: "li_Next B E t l = Some (Ok (), l')"
      "case find (\<lambda>r'. r + 1 \<le> r') (commons pes) of None \<Rightarrow> \<not> li_valid l' | Some r' \<Rightarrow> li_at (view t) pes st r' l'"
      by blast
    have ih: "yields B E t (OrIt (one_of l')) (map st (filter (\<lambda>r'. r + 1 \<le> r') (commons pes)))"
      by (rule less.hyps [OF _ nx(2)]) (simp add: split)
    from one_of_Next [OF v(1) nx(1)] obtain o' where o':
      "si_Next B E t (OrIt (one_of l)) = Some (Ok (), OrIt o')" "li_valid l' \<longrightarrow> o' = one_of l'" "\<not> li_valid l' \<longrightarrow> \<not> or_valid o'"
      by blast
    have "yields B E t (OrIt o') (map st (filter (\<lambda>r'. r + 1 \<le> r') (commons pes)))"
    proof (cases "li_valid l'")
      case True
      with o'(2) ih show ?thesis by simp
    next
      case False
      with nx(2) have "find (\<lambda>r'. r + 1 \<le> r') (commons pes) = None" by (auto simp: li_at_def li_on_def split: option.splits)
      with yields_Nil [of "OrIt o'" B E t] o'(3) False find_filter_None [THEN iffD1, OF this] show ?thesis by simp
    qed
    from yields_Cons [OF _ o'(1) this] v split show ?thesis by (simp add: one_of_simps)
  qed
qed

lemma labels_yields:
  assumes "easyproto_laws E" "states_in E (view t) sts" "gm_entries labels = ls" "plain_query ls" "keyed a"
  shows "\<exists>it. newOrLabelsIterator B E t [labels] a False = Some (Ok it)
    \<and> yields B E t it (filter (\<lambda>s. a \<le> s_Rev s \<and> has_labels ls s) sts)"
proof -
  let ?pes = "label_pes ls sts"
  have srt: "sorted_wrt (\<lambda>s s'. s_Rev s < s_Rev s') sts" using assms(2) by (simp add: states_in_def)
  have ne: "ls \<noteq> []" using assms(4) by (simp add: plain_query_def)
  note cm = commons_labels [OF srt ne]
  from labels_open [OF assms] obtain l where l: "newLabelsIterator B E t labels a False = Some (Ok (), l)"
    "case find (\<lambda>r. a \<le> r) (commons ?pes) of None \<Rightarrow> \<not> li_valid l | Some r \<Rightarrow> li_at (view t) ?pes (state_at sts) r l" by blast
  have "sorted_wrt (<) (commons ?pes)" unfolding cm using srt by (simp add: sorted_wrt_map sorted_wrt_filter)
  from one_of_yields [OF this l(2) pes_load [OF assms(1,2)]]
  have "yields B E t (OrIt (one_of l)) (map (state_at sts) (filter (\<lambda>r. a \<le> r) (commons ?pes)))" .
  also have "map (state_at sts) (filter (\<lambda>r. a \<le> r) (commons ?pes)) = filter (\<lambda>s. a \<le> s_Rev s \<and> has_labels ls s) sts"
    unfolding cm using srt
    by (simp add: filter_map comp_def conj_commute) (rule map_idI, simp add: state_at_rev)
  finally show ?thesis using l(1) assms(3) ne
    by (auto simp: newOrLabelsIterator_def gm_len_def newOrIterator_def one_of_def)
qed

end

section \<open>Reading\<close>

text \<open>A driver whose store holds \<open>sts\<close>, all of which may be read.\<close>

definition readable :: "('db \<Rightarrow> (string \<times> string) list) \<Rightarrow> 'c easyproto \<Rightarrow> ('db, 'q) badgerdriver \<Rightarrow> State list \<Rightarrow> bool" where
  "readable stored E d sts \<longleftrightarrow> states_in E (stored (bg_db d)) sts \<and> (\<forall>s \<in> set sts. s_Rev s \<le> maxViewable (bg_stateRevSeq d))"

definition page :: "int \<Rightarrow> State list \<Rightarrow> GetStatesResult" where
  "page n ss = \<lparr>gsr_States = take (nat n) ss, gsr_More = int (length ss) > n\<rparr>"

context badger_laws
begin

lemma GetStates_labels:
  assumes "easyproto_laws E" "readable stored E d sts" "gm_entries labels = ls" "plain_query ls" "0 \<le> gs_SinceRev cmd"
    "gs_SinceRev cmd < 2 ^ 63 - 1" "gs_Labels cmd = [labels]" "\<not> gs_LatestOnly cmd" "IsZero (gs_SinceTime cmd)" "0 \<le> gs_Limit cmd"
  shows "bg_GetStates B E cmd d = Some (Ok (cmd\<lparr>gs_Result :=
    Some (page (gs_Limit cmd + 1) (filter (\<lambda>s. gs_SinceRev cmd < s_Rev s \<and> has_labels ls s) sts))\<rparr>))"
proof -
  let ?t = "bd_NewTransaction B (bg_db d)" and ?u = "maxViewable (bg_stateRevSeq d)"
  let ?a = "if gs_SinceRev cmd > 0 then gs_SinceRev cmd + 1 else 0"
  have st: "states_in E (view ?t) sts" "\<forall>s \<in> set sts. s_Rev s \<le> ?u"
    using assms(2) by (simp_all add: readable_def NewTransaction)
  have k: "keyed ?a" using assms(5,6) by (simp add: keyed_def)
  have since: "since_rev B E ?t cmd ?u = Some (Ok (Some ?a))"
    using assms(5,6,9) by (simp add: since_rev_def in_i64_def)
  have eq: "filter (\<lambda>s. ?a \<le> s_Rev s \<and> has_labels ls s) sts = filter (\<lambda>s. gs_SinceRev cmd < s_Rev s \<and> has_labels ls s) sts"
    using st(1) assms(5) by (intro filter_cong) (auto simp: states_in_def list_all_iff storable_def)
  from labels_yields [OF assms(1) st(1) assms(3,4) k] obtain it where it:
    "newOrLabelsIterator B E ?t [labels] ?a False = Some (Ok it)"
    "yields B E ?t it (filter (\<lambda>s. gs_SinceRev cmd < s_Rev s \<and> has_labels ls s) sts)" unfolding eq by blast
  have "read_loop (old_state B ?t cmd) ?u (gs_Limit cmd) [] (filter (\<lambda>s. gs_SinceRev cmd < s_Rev s \<and> has_labels ls s) sts)
    = page (gs_Limit cmd + 1) (filter (\<lambda>s. gs_SinceRev cmd < s_Rev s \<and> has_labels ls s) sts)"
    using st(2) assms(8,10) by (subst read_loop_all) (auto simp: page_def old_state_def)
  with loop_yields [OF it(2)] it(1) since assms(7) show ?thesis by (simp add: bg_GetStates_def Let_def)
qed

text \<open>Without labels the first state after \<open>SinceRev\<close> is stepped over.\<close>

lemma GetStates_unlabelled:
  assumes "easyproto_laws E" "readable stored E d sts" "0 < gs_SinceRev cmd" "gs_SinceRev cmd < 2 ^ 63 - 1"
    "gs_Labels cmd = []" "\<not> gs_LatestOnly cmd" "IsZero (gs_SinceTime cmd)" "0 \<le> gs_Limit cmd"
  shows "bg_GetStates B E cmd d = Some (Ok (cmd\<lparr>gs_Result :=
    Some (page (gs_Limit cmd + 1) (filter (\<lambda>s. gs_SinceRev cmd + 1 < s_Rev s) sts))\<rparr>))"
proof -
  let ?t = "bd_NewTransaction B (bg_db d)" and ?u = "maxViewable (bg_stateRevSeq d)" and ?a = "gs_SinceRev cmd + 1"
  have st: "states_in E (view ?t) sts" "\<forall>s \<in> set sts. s_Rev s \<le> ?u"
    using assms(2) by (simp_all add: readable_def NewTransaction)
  have k: "keyed ?a" using assms(3,4) by (simp add: keyed_def)
  have since: "since_rev B E ?t cmd ?u = Some (Ok (Some ?a))"
    using assms(3,4,7) by (simp add: since_rev_def in_i64_def)
  from newRevIterator_yields [OF assms(1) st(1) k] obtain l where l:
    "newRevIterator B E ?t ?a False = (Ok (), l)" "yields B E ?t (RevIt l) (filter (\<lambda>s. ?a < s_Rev s) sts)" by blast
  have "read_loop (old_state B ?t cmd) ?u (gs_Limit cmd) [] (filter (\<lambda>s. ?a < s_Rev s) sts)
    = page (gs_Limit cmd + 1) (filter (\<lambda>s. ?a < s_Rev s) sts)"
    using st(2) assms(6,8) by (subst read_loop_all) (auto simp: page_def old_state_def)
  with loop_yields [OF l(2)] l(1) since assms(5) show ?thesis
    by (simp add: bg_GetStates_def Let_def newOrLabelsIterator_def)
qed

end

section \<open>Several label sets\<close>

lemma find_filter_hd: "find P xs = (case filter P xs of [] \<Rightarrow> None | x # _ \<Rightarrow> Some x)"
  by (induction xs) auto

text \<open>An iterator that runs out keeps its last state.\<close>

lemma li_seekState_current:
  assumes "li_seekState B E txn l = Some (x, l')" "\<not> li_valid l'"
  shows "li_current l' = li_current l"
proof -
  have "\<not> li_valid (snd (x, l')) \<longrightarrow> li_current (snd (x, l')) = li_current l"
  proof (rule li_seekState.raw_induct [of "\<lambda>B E txn l y. \<not> li_valid (snd y) \<longrightarrow> li_current (snd y) = li_current l",
        OF _ assms(1)], goal_cases)
    case (1 f B E txn l y)
    then show ?case
      by (auto simp: load_first_def li_Close_def split: if_splits outcome.splits seeked.splits prod.splits list.splits option.splits)
  qed
  with assms(2) show ?thesis by simp
qed

lemma li_Next_current:
  "li_Next B E txn l = Some (x, l') \<Longrightarrow> \<not> li_valid l' \<Longrightarrow> li_current l' = li_current l"
  by (auto simp: li_Next_def li_Close_def split: if_splits prod.splits bool.splits dest: li_seekState_current)

text \<open>A loop whose iterator does not move.\<close>

lemma loop_stuck_old:
  assumes "si_Valid it" "si_Next B E txn it = Some (Ok (), it)" "int (length states) \<le> gs_Limit cmd"
    and "old_state B txn cmd (si_Current it)"
  shows "bg_GetStates_loop B E txn cmd untilRev it states = None"
proof (rule ccontr)
  assume "bg_GetStates_loop B E txn cmd untilRev it states \<noteq> None"
  then obtain y where y: "bg_GetStates_loop B E txn cmd untilRev it states = Some y" by blast
  have "\<not> (si_Valid it \<and> si_Next B E txn it = Some (Ok (), it) \<and> int (length states) \<le> gs_Limit cmd
      \<and> old_state B txn cmd (si_Current it))"
  proof (rule bg_GetStates_loop.raw_induct [of "\<lambda>B E txn cmd u it states y. \<not> (si_Valid it \<and> si_Next B E txn it = Some (Ok (), it)
      \<and> int (length states) \<le> gs_Limit cmd \<and> old_state B txn cmd (si_Current it))", OF _ y], goal_cases)
    case (1 f B E txn cmd u it states y)
    then show ?case unfolding Let_def old_state_def [symmetric] by (auto split: if_splits)
  qed
  with assms show False by blast
qed

lemma loop_stuck_new:
  assumes "si_Valid it" "si_Next B E txn it = Some (Ok (), it)" "\<not> old_state B txn cmd (si_Current it)"
    and "s_Rev (si_Current it) \<le> untilRev" "int n + int (length states) = gs_Limit cmd + 1"
  shows "bg_GetStates_loop B E txn cmd untilRev it states
    = Some (Ok \<lparr>gsr_States = states @ replicate n (si_Current it), gsr_More = True\<rparr>)"
  using assms(5)
proof (induction n arbitrary: states)
  case 0
  then show ?case using assms(1) by (subst bg_GetStates_loop.simps) simp
next
  case (Suc n)
  then have "\<not> int (length states) > gs_Limit cmd" "int n + int (length (states @ [si_Current it])) = gs_Limit cmd + 1" by simp_all
  with Suc.IH [OF this(2)] assms(1-4) show ?case
    by (subst bg_GetStates_loop.simps, unfold Let_def old_state_def [symmetric]) simp
qed

context badger_laws
begin

text \<open>
  The last state of the first set is the first of the second one: from then on the iterator
  stands still.
\<close>

lemma or_stuck:
  assumes "easyproto_laws E" "states_in E (view t) sts" "gm_entries la = ls" "gm_entries lb = ls'" "plain_query ls" "plain_query ls'"
    and "keyed a" "filter (\<lambda>s. a \<le> s_Rev s \<and> has_labels ls s) sts = [s]" "filter (\<lambda>s. a \<le> s_Rev s \<and> has_labels ls' s) sts = s # rest"
  shows "\<exists>o1 o2. newOrLabelsIterator B E t [la, lb] a False = Some (Ok (OrIt o1)) \<and> or_valid o1 \<and> or_current o1 = s
    \<and> or_Next B E t o1 = Some (Ok (), o2) \<and> or_valid o2 \<and> or_current o2 = s \<and> or_Next B E t o2 = Some (Ok (), o2)"
proof -
  have srt: "sorted_wrt (\<lambda>s s'. s_Rev s < s_Rev s') sts" using assms(2) by (simp add: states_in_def)
  have s: "s \<in> set sts" using assms(8) by (metis filter_eq_Cons_iff in_set_conv_decomp)
  have ne: "ls \<noteq> []" "ls' \<noteq> []" using assms(5,6) by (simp_all add: plain_query_def)
  have find: "find (\<lambda>r. a \<le> r) (commons (label_pes l sts)) = Some (s_Rev s)"
    and next_none: "ss = [s] \<Longrightarrow> find (\<lambda>r. s_Rev s + 1 \<le> r) (commons (label_pes l sts)) = None"
    if "filter (\<lambda>s. a \<le> s_Rev s \<and> has_labels l s) sts = ss" "l \<noteq> []" "hd ss = s" "ss \<noteq> []" for l ss
  proof -
    have f: "filter (\<lambda>r. a \<le> r) (commons (label_pes l sts)) = map s_Rev ss"
      unfolding commons_labels [OF srt that(2)] that(1) [symmetric] by (simp add: filter_map comp_def conj_commute)
    then show fs: "find (\<lambda>r. a \<le> r) (commons (label_pes l sts)) = Some (s_Rev s)"
      using that(3,4) by (cases ss) (simp_all add: find_filter_hd)
    have "sorted_wrt (<) (commons (label_pes l sts))"
      unfolding commons_labels [OF srt that(2)] using srt by (simp add: sorted_wrt_map sorted_wrt_filter)
    from find_after [OF this fs] f show "find (\<lambda>r. s_Rev s + 1 \<le> r) (commons (label_pes l sts)) = None" if "ss = [s]"
      using that by (simp add: find_filter_None)
  qed
  note load = pes_load [OF assms(1,2)]
  from labels_open [OF assms(1,2,3,5,7)] find [OF assms(8) ne(1)] obtain l1 where l1:
    "newLabelsIterator B E t la a False = Some (Ok (), l1)" "li_at (view t) (label_pes ls sts) (state_at sts) (s_Rev s) l1" by auto
  from labels_open [OF assms(1,2,4,6,7)] find [OF assms(9) ne(2)] obtain l2 where l2:
    "newLabelsIterator B E t lb a False = Some (Ok (), l2)" "li_at (view t) (label_pes ls' sts) (state_at sts) (s_Rev s) l2" by auto
  have c: "li_valid l1" "li_current l1 = s" "li_valid l2" "li_current l2 = s"
    using l1(2) l2(2) state_at_rev [OF srt s] by (simp_all add: li_at_def li_on_def)
  have "\<exists>l'. li_Next B E t l1 = Some (Ok (), l') \<and> (case find (\<lambda>r'. s_Rev s + 1 \<le> r') (commons (label_pes ls sts)) of
      None \<Rightarrow> \<not> li_valid l' | Some r' \<Rightarrow> li_at (view t) (label_pes ls sts) (state_at sts) r' l')"
    by (rule li_Next_spec [OF l1(2)]) (rule load)
  then obtain l1' where n: "li_Next B E t l1 = Some (Ok (), l1')" "\<not> li_valid l1'"
    using next_none [OF assms(8) ne(1)] by auto
  have c': "li_current l1' = s" using li_Next_current [OF n] c(2) by simp
  let ?o1 = "\<lparr>or_valid = True, or_reverse = False, or_current = s, or_its = [l1, l2]\<rparr>"
  let ?o2 = "\<lparr>or_valid = True, or_reverse = False, or_current = s, or_its = [l1', l2]\<rparr>"
  have "newOrLabelsIterator B E t [la, lb] a False = Some (Ok (OrIt ?o1))"
    using l1(1) l2(1) c ne assms(3) by (simp add: newOrLabelsIterator_def gm_len_def newOrIterator_def or_seekState_def or_better_def)
  moreover have "or_Next B E t ?o1 = Some (Ok (), ?o2)"
    using c n by (simp add: or_Next_def or_seekState_def or_better_def)
  moreover have "or_Next B E t ?o2 = Some (Ok (), ?o2)"
    using c c' n(2) by (simp add: or_Next_def or_seekState_def or_better_def li_Next_def)
  ultimately show ?thesis by (intro exI [of _ ?o1] exI [of _ ?o2]) simp
qed

end

end
