(* ===== verification/BadgerReads.thy ===== *)
theory BadgerReads
  imports BadgerProps
begin

text \<open>
  What the reads of the badger driver return, over any store that satisfies the laws of badger,
  and how they compare with the in-memory driver. The store of balanced trees with a few states
  shows that the hypotheses can hold.
\<close>

section \<open>A concrete store\<close>

definition put_all :: "State list \<Rightarrow> tree_txn" where
  "put_all sts = fold (\<lambda>s t. case put_state tree_badger wire t s of Ok t' \<Rightarrow> t' | _ \<Rightarrow> t) sts
    (bd_NewTransaction tree_badger RBT.empty)"

definition tree_driver :: "State list \<Rightarrow> ((string, string) RBT.rbt, nat) badgerdriver" where
  "tree_driver sts = \<lparr>bg_db = tt_view (put_all sts), bg_dataRevSeq = 1,
    bg_delayedOffsetSeq = \<lparr>sw_seq = 100, sw_ongoing = [], sw_maxOngoing = 99, sw_maxCommitted = 99\<rparr>,
    bg_stateRevSeq = \<lparr>sw_seq = 100, sw_ongoing = [], sw_maxOngoing = 99, sw_maxCommitted = 99\<rparr>\<rparr>"

lemma tree_simps [simp]:
  "bd_Set tree_badger t k v = Ok (tree_Set t k v)" "bd_SeqNext tree_badger n = (Ok n, Suc n)"
  "tt_view (bd_NewTransaction tree_badger db) = db"
  by (simp_all add: tree_badger_def)

lemma put_state_total:
  assumes "\<And>t k v. \<exists>t'. bd_Set B t k v = Ok t'"
  shows "\<exists>t'. put_state B E t s = Ok t'"
proof -
  obtain W where W: "bd_Set B t k v = Ok (W t k v)" for t k v using assms by metis
  have "\<exists>t'. set_labels B ls s t = Ok t'" for ls t
    by (induction ls arbitrary: t) (auto simp: W)
  then show ?thesis
    by (simp add: put_state_def setState_def setLatestRevIndex_def setInt64_def setLabelsIndex_def setRevIndex_def
        setCommittedAtIndex_def obind_Ok_iff W)
qed

lemma tree_put_state: "\<exists>t'. put_state tree_badger E t s = Ok t'"
  by (rule put_state_total) simp

lemma entries_empty: "RBT.entries (RBT.empty :: ('k :: linorder, 'v) RBT.rbt) = []"
  by (metis RBT.lookup_empty RBT.map_of_entries map_of_eq_empty_iff)

lemma put_all_states_in:
  "sorted_wrt (\<lambda>s s'. s_Rev s < s_Rev s') sts \<Longrightarrow> list_all storable sts
    \<Longrightarrow> states_in wire (RBT.entries (tt_view (put_all sts))) sts"
proof (induction sts rule: rev_induct)
  case Nil
  have "RBT.entries (RBT.empty :: (string, string) RBT.rbt) = []" 
    by (metis RBT.lookup_empty RBT.map_of_entries map_of_eq_empty_iff)
  show ?case by (simp add: put_all_def states_in_empty entries_empty)
next
  case (snoc s sts)
  obtain t' where t': "put_state tree_badger wire (put_all sts) s = Ok t'" using tree_put_state by blast
  moreover have "put_all (sts @ [s]) = t'" using t' by (simp add: put_all_def)
  ultimately show ?case
    using tree.put_state_states_in [OF snoc.IH _ _ t'] snoc.prems by (simp add: sorted_wrt_append)
qed

lemma tree_driver_readable:
  assumes "sorted_wrt (\<lambda>s s'. s_Rev s < s_Rev s') sts" "list_all storable sts" "\<forall>s \<in> set sts. s_Rev s \<le> 99"
  shows "readable RBT.entries wire (tree_driver sts) sts"
  using put_all_states_in [OF assms(1,2)] assms(3) by (simp add: readable_def tree_driver_def maxViewable_def)

definition demo_state :: "string \<Rightarrow> int \<Rightarrow> (string \<times> string) list \<Rightarrow> State" where
  "demo_state i r ls = State0\<lparr>s_ID := i, s_Rev := r, s_Labels := (if ls = [] then None else Some ls), s_CommittedAt := 0\<rparr>"

definition demo_states :: "State list" where
  "demo_states = [demo_state ''a'' 1 [(''k'', ''v''), (''x'', ''y'')], demo_state ''b'' 2 [(''x'', ''y'')], demo_state ''a'' 3 []]"

lemma demo_states_ok:
  "sorted_wrt (\<lambda>s s'. s_Rev s < s_Rev s') demo_states" "list_all storable demo_states" "\<forall>s \<in> set demo_states. s_Rev s \<le> 99"
  by code_simp+

lemmas demo_readable = tree_driver_readable [OF demo_states_ok]

section \<open>Properties\<close>

text \<open>
  An iterator over a label set visits exactly the states from \<open>since\<close> on that carry all of
  the labels, in the order of their revisions, and comes to an end, whatever the number of labels
  and the gaps between their revisions: the indexes are moved to a common revision in turns.
\<close>

lemma badger_labels_iterator:
  assumes "badger_laws B view stored writes start low" "easyproto_laws E" "states_in E (view t) sts"
    and "gm_entries labels = ls" "plain_query ls" "keyed a" "length sts \<le> n"
  shows "\<exists>l. newLabelsIterator B E t labels a False = Some (Ok (), l)
    \<and> li_drain B E t n l = Some (filter (\<lambda>s. a \<le> s_Rev s \<and> has_labels ls s) sts)"
  by (rule badger_laws.labels_drain [OF assms])

lemma badger_labels_iterator_instance:
  "\<exists>l. newLabelsIterator tree_badger wire (put_all demo_states) (Some [(''x'', ''y''), (''k'', ''v'')]) 0 False = Some (Ok (), l)
    \<and> li_drain tree_badger wire (put_all demo_states) 5 l = Some [demo_state ''a'' 1 [(''k'', ''v''), (''x'', ''y'')]]"
proof -
  have q: "plain_query [(''x'', ''y''), (''k'', ''v'')]" "keyed 0" "length demo_states \<le> 5" by code_simp+
  have "filter (\<lambda>s. 0 \<le> s_Rev s \<and> has_labels [(''x'', ''y''), (''k'', ''v'')] s) demo_states
      = [demo_state ''a'' 1 [(''k'', ''v''), (''x'', ''y'')]]" by code_simp
  with badger_labels_iterator [OF tree.badger_laws_axioms pbwire.easyproto_laws_axioms put_all_states_in [OF demo_states_ok(1,2)] _ q(1-3),
      of "Some [(''x'', ''y''), (''k'', ''v'')]"]
  show ?thesis by simp
qed

section \<open>The two drivers on one log\<close>

lemma matches_states:
  assumes "map (\<lambda>e. sc_Committed (entry_copy e)) (sl_entries l) = sts" "IsZero (gs_SinceTime cmd)"
    and "\<forall>s \<in> set sts. matchLabels s (gs_Labels cmd) \<longleftrightarrow> Q s"
  shows "matches l cmd r = filter (\<lambda>s. r < s_Rev s \<and> Q s) sts"
proof -
  let ?C = "\<lambda>e. sc_Committed (entry_copy e)"
  have "matches l cmd r = map ?C (filter (\<lambda>e. r < s_Rev (?C e) \<and> matchLabels (?C e) (gs_Labels cmd)) (sl_entries l))"
    using assms(2) by (simp add: matches_def after_def filter_map comp_def passes_def entry_Rev_def [symmetric] conj_ac)
  also have "\<dots> = filter (\<lambda>s. r < s_Rev s \<and> matchLabels s (gs_Labels cmd)) sts"
    unfolding assms(1) [symmetric] by (simp add: filter_map comp_def)
  also have "\<dots> = filter (\<lambda>s. r < s_Rev s \<and> Q s) sts"
    using assms(3) by (intro filter_cong) auto
  finally show ?thesis .
qed

lemma matchLabels_has_labels:
  assumes "gm_wf (s_Labels s)" "gm_wf labels" "plain_query (gm_entries labels)"
  shows "matchLabels s [labels] \<longleftrightarrow> has_labels (gm_entries labels) s"
proof -
  have "\<forall>v \<in> snd ` set (gm_entries labels). v \<noteq> []" "gm_entries labels \<noteq> []"
    using assms(3) by (auto simp: plain_query_def)
  moreover have "has_labels (gm_entries labels) s \<longleftrightarrow> gm_lookup labels \<subseteq>\<^sub>m gm_lookup (s_Labels s)"
  proof -
    have "has_labels (gm_entries labels) s \<longleftrightarrow> (\<forall>k v. gm_lookup labels k = Some v \<longrightarrow> gm_lookup (s_Labels s) k = Some v)"
      by (auto simp: has_labels_def gm_entry_iff [OF assms(2), symmetric])
    then show ?thesis by (auto simp: map_le_def dom_def)
  qed
  ultimately show ?thesis using matchLabels_iff [of s "[labels]"] assms(1,2) by simp
qed

definition demo_memdriver :: memdriver where
  "demo_memdriver = New\<lparr>md_stateLog := \<lparr>sl_rev = 3,
    sl_entries = map (\<lambda>s. StateCtx0\<lparr>sc_Committed := s, sc_Current := s\<rparr>) demo_states, sl_changes = [], sl_listeners = []\<rparr>\<rparr>"

definition demo_query :: GetStatesCommand where
  "demo_query = all_states\<lparr>gs_Labels := [Some [(''x'', ''y'')]], gs_Limit := 1\<rparr>"

text \<open>
  C12: on one log both drivers answer a query for one label set from the same states (\<open>ss\<close>): those
  after \<open>SinceRev\<close> that carry the labels, in the order of their revisions. The in-memory driver
  returns the first \<open>Limit\<close> of them. The badger driver fills the page to one behind the limit: it
  returns the first \<open>Limit + 1\<close>, and reports that there is more exactly when there are more than
  that. The query names no time and does not ask for latest states only, and its labels are such that
  the index tells them apart (no empty key or value, no colon in a key, no dot in a value).
\<close>

theorem badger_reads_as_memdriver:
  assumes "badger_laws B view stored writes start low" "easyproto_laws E" "readable stored E bd sts" "mem_idle md"
    and "sts = map (\<lambda>e. sc_Committed (entry_copy e)) (sl_entries (md_stateLog md))"
    and "gs_Labels cmd = [labels]" "gm_wf labels" "plain_query (gm_entries labels)"
    and "\<not> gs_LatestOnly cmd" "IsZero (gs_SinceTime cmd)" "0 \<le> gs_SinceRev cmd" "gs_SinceRev cmd < 2 ^ 63 - 1" "0 < gs_Limit cmd"
    and "ss = filter (\<lambda>s. gs_SinceRev cmd < s_Rev s \<and> matchLabels s [labels]) sts"
  shows "bg_GetStates B E cmd bd = Some (Ok (cmd\<lparr>gs_Result := Some \<lparr>gsr_States = take (nat (gs_Limit cmd + 1)) ss,
      gsr_More = gs_Limit cmd + 1 < int (length ss)\<rparr>\<rparr>))
    \<and> (\<exists>ms. mem_GetStates cmd md = Ok (cmd\<lparr>gs_Result := Some ms\<rparr>) \<and> gsr_States ms = take (nat (gs_Limit cmd)) ss
      \<and> (gsr_More ms \<longrightarrow> gs_Limit cmd < int (length ss))
      \<and> (\<not> gsr_More ms \<longrightarrow> gsr_States ms = ss \<or> int (length (gsr_States ms)) = gs_Limit cmd))"
proof -
  let ?ss = "filter (\<lambda>s. gs_SinceRev cmd < s_Rev s \<and> has_labels (gm_entries labels) s) sts"
  have "gm_wf (s_Labels s)" if "s \<in> set sts" for s
    using assms(3) that by (auto simp: readable_def states_in_def list_all_iff storable_def pb_ok_State_def pb_ok_map_def)
  then have lb: "\<forall>s \<in> set sts. matchLabels s [labels] \<longleftrightarrow> has_labels (gm_entries labels) s"
    using matchLabels_has_labels assms(7,8) by simp
  then have ss: "ss = ?ss" unfolding assms(14) by (intro filter_cong) auto
  from matches_states [OF assms(5) [symmetric] assms(10), of "has_labels (gm_entries labels)" "gs_SinceRev cmd"] lb assms(6)
  have m: "matches (md_stateLog md) cmd (gs_SinceRev cmd) = ss" unfolding ss by simp
  have "GetStates_post (md_stateLog md) cmd ([] @ ss) (GetStates_loop (md_stateLog md) cmd (sl_rev (md_stateLog md)) [] (gs_SinceRev cmd))"
    unfolding m [symmetric] by (rule GetStates_loop_spec) (use assms(4,9,13) in \<open>simp_all add: mem_idle_def mem_ok_def\<close>)
  moreover have "mem_GetStates cmd md = Ok (cmd\<lparr>gs_Result :=
      Some (GetStates_loop (md_stateLog md) cmd (sl_rev (md_stateLog md)) [] (gs_SinceRev cmd))\<rparr>)"
    using assms(11,13) by (simp add: mem_GetStates_def Let_def)
  moreover have "bg_GetStates B E cmd bd = Some (Ok (cmd\<lparr>gs_Result := Some (page (gs_Limit cmd + 1) ss)\<rparr>))"
    unfolding ss using badger_laws.GetStates_labels [OF assms(1-3) refl assms(8,11,12,6,9,10)] assms(13) by simp
  ultimately show ?thesis unfolding GetStates_post_def page_def append_Nil by blast
qed

theorem badger_reads_as_memdriver_witness:
  "bg_GetStates tree_badger wire demo_query (tree_driver demo_states)
      = Some (Ok (demo_query\<lparr>gs_Result := Some \<lparr>gsr_States = take 2 demo_states, gsr_More = False\<rparr>\<rparr>))
    \<and> (\<exists>ms. mem_GetStates demo_query demo_memdriver = Ok (demo_query\<lparr>gs_Result := Some ms\<rparr>) \<and> gsr_States ms = take 1 demo_states)"
proof -
  have q: "gs_Labels demo_query = [Some [(''x'', ''y'')]]" "gm_wf (Some [(''x'', ''y'')])" "plain_query (gm_entries (Some [(''x'', ''y'')]))"
    "\<not> gs_LatestOnly demo_query" "IsZero (gs_SinceTime demo_query)" "0 \<le> gs_SinceRev demo_query"
    "gs_SinceRev demo_query < 2 ^ 63 - 1" "0 < gs_Limit demo_query" by code_simp+
  have s: "take 2 demo_states = filter (\<lambda>s. gs_SinceRev demo_query < s_Rev s \<and> matchLabels s [Some [(''x'', ''y'')]]) demo_states"
    "nat (gs_Limit demo_query) = 1" "nat (gs_Limit demo_query + 1) = 2" "gs_Limit demo_query + 1 < int (length (take 2 demo_states)) \<longleftrightarrow> False"
    "take 1 (take 2 demo_states) = take 1 demo_states" "take 2 (take 2 demo_states) = take 2 demo_states" by code_simp+
  have m: "mem_idle demo_memdriver" "demo_states = map (\<lambda>e. sc_Committed (entry_copy e)) (sl_entries (md_stateLog demo_memdriver))"
    by code_simp+
  from badger_reads_as_memdriver [OF tree.badger_laws_axioms pbwire.easyproto_laws_axioms demo_readable m q s(1)]
  show ?thesis unfolding s(2-6) by blast
qed

section \<open>Without labels\<close>

text \<open>
  Without labels the badger driver does not return the first state after \<open>SinceRev\<close>. The
  revision is moved up by one for the inclusive iterators over labels, but the iterator over all
  revisions seeks behind what it is given, so the page begins after \<open>SinceRev + 1\<close>: a consumer
  that pages through the log without labels loses a state at every page.
\<close>

lemma badger_since_skips:
  assumes "badger_laws B view stored writes start low" "easyproto_laws E" "readable stored E d sts"
    and "gs_Labels cmd = []" "\<not> gs_LatestOnly cmd" "IsZero (gs_SinceTime cmd)" "0 < gs_SinceRev cmd" "gs_SinceRev cmd < 2 ^ 63 - 1"
      "0 \<le> gs_Limit cmd"
  shows "\<exists>res. bg_GetStates B E cmd d = Some (Ok (cmd\<lparr>gs_Result := Some res\<rparr>))
    \<and> gsr_States res = take (nat (gs_Limit cmd + 1)) (filter (\<lambda>s. gs_SinceRev cmd + 1 < s_Rev s) sts)
    \<and> (\<forall>s \<in> set (gsr_States res). s_Rev s \<noteq> gs_SinceRev cmd + 1)"
  using badger_laws.GetStates_unlabelled [OF assms(1-3,7,8,4-6,9)]
  by (intro exI [of _ "page (gs_Limit cmd + 1) (filter (\<lambda>s. gs_SinceRev cmd + 1 < s_Rev s) sts)"])
    (auto simp: page_def dest!: in_set_takeD)

lemma badger_since_skips_instance:
  "\<exists>res. bg_GetStates tree_badger wire (all_states\<lparr>gs_SinceRev := 1\<rparr>) (tree_driver demo_states)
      = Some (Ok (all_states\<lparr>gs_SinceRev := 1, gs_Result := Some res\<rparr>))
    \<and> map s_Rev (gsr_States res) = [3] \<and> map s_Rev (filter (\<lambda>s. 1 < s_Rev s) demo_states) = [2, 3]"
proof -
  let ?cmd = "all_states\<lparr>gs_SinceRev := 1\<rparr>"
  have "gs_Labels ?cmd = []" "\<not> gs_LatestOnly ?cmd" "IsZero (gs_SinceTime ?cmd)" "0 < gs_SinceRev ?cmd" "gs_SinceRev ?cmd < 2 ^ 63 - 1"
    "0 \<le> gs_Limit ?cmd" by code_simp+
  from badger_since_skips [OF tree.badger_laws_axioms pbwire.easyproto_laws_axioms demo_readable this] obtain res where
    "bg_GetStates tree_badger wire ?cmd (tree_driver demo_states) = Some (Ok (?cmd\<lparr>gs_Result := Some res\<rparr>))"
    "gsr_States res = take (nat (gs_Limit ?cmd + 1)) (filter (\<lambda>s. gs_SinceRev ?cmd + 1 < s_Rev s) demo_states)" by blast
  moreover have "map s_Rev (take (nat (gs_Limit ?cmd + 1)) (filter (\<lambda>s. gs_SinceRev ?cmd + 1 < s_Rev s) demo_states)) = [3]" by code_simp
  moreover have "map s_Rev (filter (\<lambda>s. 1 < s_Rev s) demo_states) = [2, 3]" by code_simp
  ultimately show ?thesis by (intro exI [of _ res]) simp
qed

section \<open>Several label sets\<close>

context badger_laws
begin

lemma GetStates_or_stuck:
  assumes "easyproto_laws E" "readable stored E d sts" "keyed 0"
    and "gs_Labels cmd = [la, lb]" "plain_query (gm_entries la)" "plain_query (gm_entries lb)"
    and "IsZero (gs_SinceTime cmd)" "gs_SinceRev cmd = 0" "0 \<le> gs_Limit cmd"
    and "filter (has_labels (gm_entries la)) sts = [s]" "filter (has_labels (gm_entries lb)) sts = s # rest"
  shows "bg_GetStates B E cmd d = (if gs_LatestOnly cmd \<and> s_Rev s < latest_rev sts (s_ID s) then None
    else Some (Ok (cmd\<lparr>gs_Result := Some \<lparr>gsr_States = replicate (Suc (nat (gs_Limit cmd))) s, gsr_More = True\<rparr>\<rparr>)))"
proof -
  let ?t = "bd_NewTransaction B (bg_db d)" and ?u = "maxViewable (bg_stateRevSeq d)"
  have st: "states_in E (view ?t) sts" "\<forall>s \<in> set sts. s_Rev s \<le> ?u"
    using assms(2) by (simp_all add: readable_def NewTransaction)
  have "\<forall>s \<in> set sts. 0 \<le> s_Rev s" using st(1) by (auto simp: states_in_def list_all_iff storable_def)
  then have "filter (\<lambda>s. 0 \<le> s_Rev s \<and> has_labels ls s) sts = filter (has_labels ls) sts" for ls
    by (intro filter_cong) auto
  then have "\<exists>o1 o2. newOrLabelsIterator B E ?t [la, lb] 0 False = Some (Ok (OrIt o1)) \<and> or_valid o1 \<and> or_current o1 = s
    \<and> or_Next B E ?t o1 = Some (Ok (), o2) \<and> or_valid o2 \<and> or_current o2 = s \<and> or_Next B E ?t o2 = Some (Ok (), o2)"
    using assms(10,11) by (intro or_stuck [OF assms(1) st(1) refl refl assms(5,6,3)]) simp_all
  then obtain o1 o2 where o:
    "newOrLabelsIterator B E ?t [la, lb] 0 False = Some (Ok (OrIt o1))" "or_valid o1" "or_current o1 = s"
    "or_Next B E ?t o1 = Some (Ok (), o2)" "or_valid o2" "or_current o2 = s" "or_Next B E ?t o2 = Some (Ok (), o2)" by blast
  have s: "s_Rev s \<le> ?u" using st(2) assms(10) by (metis filter_eq_Cons_iff in_set_conv_decomp)
  have old: "old_state B ?t cmd s \<longleftrightarrow> gs_LatestOnly cmd \<and> s_Rev s < latest_rev sts (s_ID s)"
    by (simp add: old_state_def getLatestRevIndex_spec [OF st(1)])
  let ?o1 = "OrIt o1" and ?o2 = "OrIt o2"
  have "si_Valid ?o1" "si_Current ?o1 = s" "si_Next B E ?t ?o1 = Some (Ok (), ?o2)" using o(2-4) by simp_all
  then have o1: "bg_GetStates_loop B E ?t cmd ?u ?o1 []
      = bg_GetStates_loop B E ?t cmd ?u ?o2 (if old_state B ?t cmd s then [] else [s])"
    using s assms(9) by (subst bg_GetStates_loop.simps, unfold Let_def old_state_def [symmetric]) (simp del: si_Valid.simps si_Current.simps si_Next.simps)
  have o2: "si_Valid ?o2" "si_Next B E ?t ?o2 = Some (Ok (), ?o2)" "si_Current ?o2 = s" using o(5-7) by simp_all
  have "bg_GetStates_loop B E ?t cmd ?u ?o1 [] = (if old_state B ?t cmd s then None
      else Some (Ok \<lparr>gsr_States = replicate (Suc (nat (gs_Limit cmd))) s, gsr_More = True\<rparr>))"
    unfolding o1 using loop_stuck_old [OF o2(1,2)] loop_stuck_new [OF o2(1,2), of cmd ?u "nat (gs_Limit cmd)" "[s]"] o2(3) s assms(9)
    by simp
  with o(1) assms(4,7,8) show ?thesis
    by (simp add: bg_GetStates_def Let_def since_rev_def old [symmetric])
qed

end

definition or_query :: "bool \<Rightarrow> int \<Rightarrow> GetStatesCommand" where
  "or_query latest limit = all_states\<lparr>gs_Labels := [Some [(''k'', ''v'')], Some [(''x'', ''y'')]], gs_LatestOnly := latest, gs_Limit := limit\<rparr>"

text \<open>
  A query for two label sets stands still when the first set runs out of states on a state
  that the second one holds too: the iterator that ran out is still the first on the current
  revision, so it is the one that is asked to move. The page is filled with copies of that state;
  and when it is an outdated revision and only the latest ones are asked for, \<open>GetStates\<close> never
  returns.
\<close>

lemma badger_or_stands_still:
  assumes "badger_laws B view stored writes start low" "easyproto_laws E" "readable stored E d sts"
    and "gs_Labels cmd = [la, lb]" "plain_query (gm_entries la)" "plain_query (gm_entries lb)"
    and "IsZero (gs_SinceTime cmd)" "gs_SinceRev cmd = 0" "0 \<le> gs_Limit cmd"
    and "filter (has_labels (gm_entries la)) sts = [s]" "filter (has_labels (gm_entries lb)) sts = s # rest"
  shows "bg_GetStates B E cmd d = (if gs_LatestOnly cmd \<and> s_Rev s < latest_rev sts (s_ID s) then None
    else Some (Ok (cmd\<lparr>gs_Result := Some \<lparr>gsr_States = replicate (Suc (nat (gs_Limit cmd))) s, gsr_More = True\<rparr>\<rparr>)))"
  by (rule badger_laws.GetStates_or_stuck [OF assms(1-3) _ assms(4-11)]) (simp add: keyed_def)

lemma badger_or_stands_still_instance:
  "bg_GetStates tree_badger wire (or_query True 5) (tree_driver demo_states) = None
    \<and> (\<exists>res. bg_GetStates tree_badger wire (or_query False 5) (tree_driver demo_states)
          = Some (Ok ((or_query False 5)\<lparr>gs_Result := Some res\<rparr>))
        \<and> map s_ID (gsr_States res) = [''a'', ''a'', ''a'', ''a'', ''a'', ''a''])"
proof -
  let ?la = "Some [(''k'', ''v'')]" and ?lb = "Some [(''x'', ''y'')]"
  have f: "filter (has_labels (gm_entries ?la)) demo_states = [demo_states ! 0]"
    "filter (has_labels (gm_entries ?lb)) demo_states = demo_states ! 0 # [demo_states ! 1]" by code_simp+
  have q: "plain_query (gm_entries ?la)" "plain_query (gm_entries ?lb)" by code_simp+
  have c: "gs_Labels (or_query l 5) = [?la, ?lb]" "IsZero (gs_SinceTime (or_query l 5))" "gs_SinceRev (or_query l 5) = 0"
    "0 \<le> gs_Limit (or_query l 5)" "gs_LatestOnly (or_query l 5) = l" "gs_Limit (or_query l 5) = 5" for l
    by (simp_all add: or_query_def all_states_def) code_simp
  have s: "s_Rev (demo_states ! 0) < latest_rev demo_states (s_ID (demo_states ! 0))" "s_ID (demo_states ! 0) = ''a''" by code_simp+
  note p = badger_or_stands_still [OF tree.badger_laws_axioms pbwire.easyproto_laws_axioms demo_readable c(1) q c(2-4) f]
  have "map s_ID (replicate (Suc (nat 5)) (demo_states ! 0)) = [''a'', ''a'', ''a'', ''a'', ''a'', ''a'']"
    by (simp add: s(2) numeral_eq_Suc)
  with p [of True] p [of False] c(5,6) s(1) show ?thesis by auto
qed

section \<open>Labels with a dot\<close>

lemma undec_dot: "CHR ''.'' \<in> set s \<Longrightarrow> undec a s = None"
proof (induction s arbitrary: a)
  case (Cons c s)
  moreover have "char_digit CHR ''.'' = None" by code_simp
  ultimately show ?case by (auto split: option.split)
qed simp

lemma ParseInt_dot: "CHR ''.'' \<in> set s \<Longrightarrow> ParseInt s = (0, Some (num_error ''ParseInt'' s ''invalid syntax''))"
  by (cases s) (auto simp: ParseInt_def Let_def undec_dot simp del: undec.simps)

context badger_laws
begin

text \<open>The one entry of an index that had none before.\<close>

lemma put_state_one:
  assumes "put_state B E t0 s = Ok t" "index (view t0) p []" "gm_entries (s_Labels s) = [(k, x)]" "prefix p (labelIndexKey k x (s_Rev s))"
    and "\<not> prefix p (stateKey s)" "\<not> prefix p (latestRevKey (s_ID s))" "\<not> prefix p (revIndexKey (s_Rev s))"
      "\<not> prefix p (committedAtIndexKey (s_CommittedAt s) (s_Rev s))"
  shows "filter (\<lambda>(k, _). prefix p k) (view t) = [(labelIndexKey k x (s_Rev s), s_ID s)]"
proof (rule sorted_map_unique)
  from assms(1) obtain t1 t2 t3 t4 where
    t: "bd_Set B t0 (stateKey s) (MarshalState E s []) = Ok t1" "bd_Set B t1 (latestRevKey (s_ID s)) (PutUint64 (s_Rev s)) = Ok t2"
    "set_labels B (gm_entries (s_Labels s)) s t2 = Ok t3" "bd_Set B t3 (revIndexPrefix @ fmt_020d (s_Rev s)) (s_ID s) = Ok t4"
    "bd_Set B t4 (committedAtIndexKey (s_CommittedAt s) (s_Rev s)) (s_ID s) = Ok t" by (rule put_state_steps)
  from t(3) assms(3) have t3: "bd_Set B t2 (labelIndexKey k x (s_Rev s)) (s_ID s) = Ok t3" by (simp add: obind_Ok_iff)
  have none: "map_of (view t0) k' = None" if "prefix p k'" for k'
    using assms(2) that map_of_filter_key [of "prefix p" "view t0" k'] by (simp add: index_def)
  show "map_of (filter (\<lambda>(k, _). prefix p k) (view t)) = map_of [(labelIndexKey k x (s_Rev s), s_ID s)]"
    by (rule ext) (use assms(4-8) none in \<open>auto simp: map_of_filter_key revIndexKey_def Set_map_of [OF t(5)] Set_map_of [OF t(4)]
      Set_map_of [OF t3] Set_map_of [OF t(2)] Set_map_of [OF t(1)]\<close>)
qed (simp_all add: sorted_wrt_map sorted_wrt_filter sorted_view [unfolded sorted_wrt_map])

lemma label_panics:
  assumes "filter (\<lambda>(k', _). prefix (labelIndexPrefix k v) k') (view t) = [(labelIndexPrefix k v @ w, i)]"
    and "fmt_020d a \<le> w" "CHR ''.'' \<in> set w" "k \<noteq> []" "v \<noteq> []"
  shows "\<exists>p l. newLabelsIterator B E t (Some [(k, v)]) a False = Some (Panic p, l)"
proof -
  let ?p = "labelIndexPrefix k v"
  have one: "filter (\<lambda>(k', _). prefix ?p k' \<and> ?p @ fmt_020d a \<le> k') (view t) = [(?p @ w, i)]"
    using arg_cong [OF assms(1), of "filter (\<lambda>(k', _). ?p @ fmt_020d a \<le> k')"] assms(2) by (simp add: case_prod_unfold conj_commute)
  have seek: "bd_Seek B t False ?p (?p @ fmt_020d a) = Some (?p @ w, i)"
    unfolding Seek(1) [OF prefixI [OF refl]] find_filter_hd one by simp
  obtain m where m: "parse_rev x [] ?p (?p @ w) = Panic (m x)" for x
    using ParseInt_dot [OF assms(3)] by (simp add: parse_rev_def)
  show ?thesis
    using seek assms(4,5) m by (simp add: newLabelsIterator_def bi_Seek_def seekPrefix_def bi_Valid_def Let_def)
      (subst li_seekState.simps, simp add: toRev_def)
qed

lemma GetStates_label_panics:
  assumes "states_in E (view t0) sts" "put_state B E t0 s = Ok t" "stored (bg_db d) = view t"
    and "gm_entries (s_Labels s) = [(k, v @ CHR ''.'' # w)]" "fmt_020d 0 \<le> w" "plain_label k v" "k \<noteq> []" "v \<noteq> []"
    and "\<forall>s' \<in> set sts. gm_lookup (s_Labels s') k \<noteq> Some v"
    and "gs_Labels cmd = [Some [(k, v)]]" "IsZero (gs_SinceTime cmd)" "gs_SinceRev cmd = 0"
  shows "\<exists>p. bg_GetStates B E cmd d = Some (Panic p)"
proof -
  let ?t = "bd_NewTransaction B (bg_db d)" and ?p = "labelIndexPrefix k v" and ?w = "w @ ''.'' @ fmt_020d (s_Rev s)"
  have "label_entries k v sts = []" using assms(9) by (simp add: label_entries_def filter_empty_conv)
  moreover have "index (view t0) ?p (label_entries k v sts)" using assms(1,6) unfolding states_in_def by blast
  ultimately have none: "index (view t0) ?p []" by simp
  have "labelIndexKey k (v @ CHR ''.'' # w) (s_Rev s) = ?p @ ?w" by (simp add: labelIndexKey_def labelIndexPrefix_def)
  with put_state_one [OF assms(2) none assms(4)] assms(3)
  have "filter (\<lambda>(k, _). prefix ?p k) (view ?t) = [(?p @ ?w, s_ID s)]" by (simp add: NewTransaction)
  moreover have "fmt_020d 0 \<le> ?w"
    using assms(5) append_le_cancel [of w "[]" "''.'' @ fmt_020d (s_Rev s)"] by (simp add: order.trans)
  ultimately obtain p l where "newLabelsIterator B E ?t (Some [(k, v)]) 0 False = Some (Panic p, l)"
    using label_panics assms(7,8) by (metis in_set_conv_decomp append_Cons)
  with assms(10-12) show ?thesis
    by (simp add: bg_GetStates_def Let_def since_rev_def newOrLabelsIterator_def gm_len_def)
qed

end

definition dotted_state :: State where
  "dotted_state = demo_state ''d'' 4 [(''version'', ''1.2'')]"

text \<open>
  The value of a label ends at the next dot of its key in the index, so the index of
  \<open>version = 1\<close> also holds the states with \<open>version = 1.2\<close>; on such a key the iterator panics, and
  with it every query for \<open>version = 1\<close>, instead of finding nothing.
\<close>

lemma badger_dotted_label_panics:
  assumes "badger_laws B view stored writes start low" "states_in E (view t0) sts" "put_state B E t0 s = Ok t"
    and "stored (bg_db d) = view t" "gm_entries (s_Labels s) = [(k, v @ CHR ''.'' # w)]" "fmt_020d 0 \<le> w"
    and "plain_label k v" "k \<noteq> []" "v \<noteq> []" "\<forall>s' \<in> set sts. gm_lookup (s_Labels s') k \<noteq> Some v"
    and "gs_Labels cmd = [Some [(k, v)]]" "IsZero (gs_SinceTime cmd)" "gs_SinceRev cmd = 0"
  shows "\<exists>p. bg_GetStates B E cmd d = Some (Panic p)"
  by (rule badger_laws.GetStates_label_panics [OF assms])

lemma badger_dotted_label_panics_instance:
  "\<exists>p. bg_GetStates tree_badger wire (all_states\<lparr>gs_Labels := [Some [(''version'', ''1'')]]\<rparr>) (tree_driver (demo_states @ [dotted_state]))
    = Some (Panic p)"
proof -
  let ?cmd = "all_states\<lparr>gs_Labels := [Some [(''version'', ''1'')]]\<rparr>"
  obtain t where t: "put_state tree_badger wire (put_all demo_states) dotted_state = Ok t" using tree_put_state by blast
  then have d: "RBT.entries (bg_db (tree_driver (demo_states @ [dotted_state]))) = RBT.entries (tt_view t)"
    by (simp add: tree_driver_def put_all_def)
  have "gm_entries (s_Labels dotted_state) = [(''version'', ''1'' @ CHR ''.'' # ''2'')]" "fmt_020d 0 \<le> ''2''"
    "plain_label ''version'' ''1''" "''version'' \<noteq> []" "''1'' \<noteq> []" by code_simp+
  moreover have "\<forall>s' \<in> set demo_states. gm_lookup (s_Labels s') ''version'' \<noteq> Some ''1''"
    "gs_Labels ?cmd = [Some [(''version'', ''1'')]]" "IsZero (gs_SinceTime ?cmd)" "gs_SinceRev ?cmd = 0" by code_simp+
  ultimately show ?thesis
    by (rule badger_dotted_label_panics [OF tree.badger_laws_axioms put_all_states_in [OF demo_states_ok(1,2)] t d])
qed

section \<open>One state\<close>

definition wanted_rev :: "State list \<Rightarrow> GetStateByIDCommand \<Rightarrow> int" where
  "wanted_rev sts cmd = (if gi_Rev cmd = 0 then latest_rev sts (gi_ID cmd) else gi_Rev cmd)"

lemma latest_rev_keyed: "list_all storable sts \<Longrightarrow> keyed (latest_rev sts i)"
  using latest_rev_mem [of sts i] by (cases "latest_rev sts i = 0") (auto simp: keyed_def list_all_iff storable_def)

context badger_laws
begin

lemma getState_find:
  assumes "easyproto_laws E" "states_in E (view t) sts" "keyed r"
  shows "getState B E t i r = Ok (find (\<lambda>s. s_ID s = i \<and> s_Rev s = r) sts)"
proof (cases "find (\<lambda>s. s_ID s = i \<and> s_Rev s = r) sts")
  case None
  then have "\<forall>s \<in> set sts. \<not> (s_ID s = i \<and> s_Rev s = r)" by (simp add: find_None_iff)
  from getState_none [OF assms(2) this assms(3)] None show ?thesis by simp
next
  case (Some s)
  then have "s \<in> set sts" "s_ID s = i" "s_Rev s = r" by (auto dest!: find_Some_iff [THEN iffD1])
  then show ?thesis using getState_spec [OF assms(1,2)] Some by auto
qed

lemma GetStateByID_find:
  assumes "easyproto_laws E" "states_in E (stored (bg_db d)) sts" "gi_StateCtx cmd = Some a" "h a = Some c" "0 \<le> gi_Rev cmd" "gi_Rev cmd < 2 ^ 63"
  shows "bg_GetStateByID B E cmd h d = (case find (\<lambda>s. s_ID s = gi_ID cmd \<and> s_Rev s = wanted_rev sts cmd) sts of
      Some s \<Rightarrow> (Ok (), h(a \<mapsto> CopyToCtx s c), d)
    | None \<Rightarrow> (Err (Errorw [] ErrNotFound (''; id='' @ gi_ID cmd)), h, d))"
proof -
  let ?t = "bd_NewTransaction B (bg_db d)"
  have st: "states_in E (view ?t) sts" using assms(2) by (simp add: NewTransaction)
  have "keyed (wanted_rev sts cmd)"
    using latest_rev_keyed [of sts] st assms(5,6) by (auto simp: wanted_rev_def states_in_def keyed_def)
  moreover have "obind (if gi_Rev cmd = 0 then getLatestRevIndex B ?t (gi_ID cmd) else Ok (gi_Rev cmd)) (getState B E ?t (gi_ID cmd))
      = getState B E ?t (gi_ID cmd) (wanted_rev sts cmd)"
    by (simp add: wanted_rev_def getLatestRevIndex_spec [OF st])
  ultimately show ?thesis using getState_find [OF assms(1) st] assms(3-5)
    by (simp add: bg_GetStateByID_def Let_def with_ctx_def deref_def store_def split: option.split)
qed

end

text \<open>
  \<open>GetStateByID\<close> finds the state with the id and the revision that is asked for, for revision
  0 the latest of the id, and copies it into the context; when there is none it fails with
  \<open>ErrNotFound\<close>. Neither the store nor any other context changes.
\<close>

lemma badger_GetStateByID_spec:
  assumes "badger_laws B view stored writes start low" "easyproto_laws E" "states_in E (stored (bg_db d)) sts"
    and "gi_StateCtx cmd = Some a" "h a = Some c" "0 \<le> gi_Rev cmd" "gi_Rev cmd < 2 ^ 63"
  shows "bg_GetStateByID B E cmd h d = (case find (\<lambda>s. s_ID s = gi_ID cmd \<and> s_Rev s = wanted_rev sts cmd) sts of
      Some s \<Rightarrow> (Ok (), h(a \<mapsto> CopyToCtx s c), d)
    | None \<Rightarrow> (Err (Errorw [] ErrNotFound (''; id='' @ gi_ID cmd)), h, d))"
  by (rule badger_laws.GetStateByID_find [where h = h and a = a and c = c, OF assms])

lemma badger_GetStateByID_spec_instance:
  "fst (bg_GetStateByID tree_badger wire \<lparr>gi_ID = ''a'', gi_Rev = 0, gi_StateCtx = Some 0\<rparr> [0 \<mapsto> StateCtx0] (tree_driver demo_states)) = Ok ()
    \<and> is_ok (fst (bg_GetStateByID tree_badger wire \<lparr>gi_ID = ''c'', gi_Rev = 0, gi_StateCtx = Some 0\<rparr> [0 \<mapsto> StateCtx0] (tree_driver demo_states))) = False"
proof -
  have st: "states_in wire (RBT.entries (bg_db (tree_driver demo_states))) demo_states"
    using demo_readable by (simp add: readable_def)
  let ?cmd = "\<lambda>i. \<lparr>gi_ID = i, gi_Rev = 0, gi_StateCtx = Some 0\<rparr>"
  note p = badger_GetStateByID_spec [OF tree.badger_laws_axioms pbwire.easyproto_laws_axioms st, of "?cmd i" 0 "[0 \<mapsto> StateCtx0]" for i]
  have "find (\<lambda>s. s_ID s = gi_ID (?cmd ''a'') \<and> s_Rev s = wanted_rev demo_states (?cmd ''a'')) demo_states = Some (demo_state ''a'' 3 [])"
    "find (\<lambda>s. s_ID s = gi_ID (?cmd ''c'') \<and> s_Rev s = wanted_rev demo_states (?cmd ''c'')) demo_states = None" by code_simp+
  with p [of "''a''"] p [of "''c''"] show ?thesis by simp
qed

end
