(* ===== verification/BadgerCommit.thy ===== *)
theory BadgerCommit
  imports BadgerReads
begin

text \<open>
  The commit of the badger driver: a commit of transits and parks adds its states to the store or
  leaves the store as it was, a stale context is refused, and a commit that has conflicted once
  cannot succeed any more.
\<close>

section \<open>States that can be stored\<close>

definition plain_map :: "strmap \<Rightarrow> bool" where
  "plain_map m \<longleftrightarrow> (\<forall>(k, v) \<in> set (gm_entries m). plain_label k v)"

definition ok_state :: "State \<Rightarrow> bool" where
  "ok_state s \<longleftrightarrow> pb_ok_State s \<and> plain_map (s_Labels s)"

definition ok_heap :: "heap \<Rightarrow> bool" where
  "ok_heap h \<longleftrightarrow> (\<forall>p c. deref h p = Some c \<longrightarrow> ok_state (sc_Current c))"

definition named :: "strmap \<Rightarrow> bool" where
  "named m \<longleftrightarrow> (\<forall>(k, v) \<in> set (gm_entries m). k \<noteq> [])"

text \<open>The commands that write states and nothing else.\<close>

fun state_cmd :: "Command \<Rightarrow> bool" where
  "state_cmd (TransitCmd cmd) = named (tr_Annotations cmd)"
| "state_cmd (ParkCmd cmd) = named (pk_Annotations cmd)"
| "state_cmd NoopCmd = True"
| "state_cmd _ = False"

lemma gm_set_entries: "set (gm_entries (gm_set m k v)) \<subseteq> insert (k, v) (set (gm_entries m))"
proof -
  have "set (AList.update k v es) \<subseteq> insert (k, v) (set es)" for es by (induction es) auto
  then show ?thesis by (simp add: gm_set_def)
qed

lemma gm_merge_entries: "set (gm_entries (gm_merge src dst)) \<subseteq> set (gm_entries src) \<union> set (gm_entries dst)"
proof (cases src)
  case (Some es)
  have "set (gm_entries (gm_merge (Some es) dst)) \<subseteq> set es \<union> set (gm_entries dst)"
  proof (induction es arbitrary: dst)
    case (Cons e es)
    then show ?case using gm_set_entries [of dst "fst e" "snd e"] by (cases e) fastforce
  qed simp
  with Some show ?thesis by simp
qed simp

lemma plain_merge: "plain_map m \<Longrightarrow> plain_map m' \<Longrightarrow> plain_map (gm_merge m m')"
  using gm_merge_entries [of m m'] by (fastforce simp: plain_map_def)

lemma pb_ok_named: "pb_ok_map m \<longleftrightarrow> gm_wf m \<and> named m"
  by (force simp: pb_ok_map_def named_def)

lemma named_merge: "named m \<Longrightarrow> named m' \<Longrightarrow> named (gm_merge m m')"
  using gm_merge_entries [of m m'] by (fastforce simp: named_def)

lemma named_None [simp]: "named None" "plain_map None" "named (norm_map m) = named m" "plain_map (norm_map m) = plain_map m"
  by (simp_all add: named_def plain_map_def norm_map_def)

lemma ok_state_CopyTo: "ok_state s \<Longrightarrow> ok_state s' \<Longrightarrow> ok_state (State_CopyTo s s')"
  by (simp add: ok_state_def pb_ok_State_def pb_ok_Transition_def plain_merge pb_ok_named named_merge)

text \<open>What a commit stores of a context.\<close>

definition committed_state :: "'c libs \<Rightarrow> int \<Rightarrow> State \<Rightarrow> State" where
  "committed_state lb r s = (norm_State s)\<lparr>s_Rev := r, s_CommittedAt := time_UnixMilli (UnixMilli (lib_Now lb r))\<rparr>"

lemma pb_milli_milli: "pb_milli (time_UnixMilli (UnixMilli t)) = time_UnixMilli (UnixMilli t)"
  using UnixMilli_time_UnixMilli [of "UnixMilli t"] by (simp add: pb_milli_def)

lemma committed_state_ok:
  assumes "ok_state s" "s_ID s \<noteq> []" "keyed r" "0 < r"
  shows "storable (committed_state lb r s)" "ok_state (committed_state lb r s)"
proof -
  have n: "pb_ok_State (norm_State s)" "plain_map (s_Labels (norm_State s))" "norm_State (norm_State s) = norm_State s"
    using assms(1) by (simp_all add: ok_state_def pb_ok_State_def pb_ok_Transition_def pb_ok_named norm_State_def norm_Transition_def)
  have "norm_State (committed_state lb r s) = committed_state lb r s" using n(3) by (simp add: committed_state_def norm_State_def)
  then have "pb_State (committed_state lb r s) = committed_state lb r s"
    by (simp add: pb_State_def committed_state_def pb_milli_milli)
  moreover have "in_i64 r" using assms(3) by (simp add: keyed_def in_i64_small)
  ultimately show "storable (committed_state lb r s)" "ok_state (committed_state lb r s)"
    using n assms(2-4) by (simp_all add: storable_def ok_state_def committed_state_def pb_ok_State_def plain_map_def norm_State_def)
qed

section \<open>The sub commands\<close>

text \<open>A sub command changes no id and no committed revision.\<close>

definition ctx_id :: "heap \<Rightarrow> ctx_ref \<Rightarrow> string option" where
  "ctx_id h p = map_option (\<lambda>c. s_ID (sc_Current c)) (deref h p)"

definition ids_of :: "heap \<Rightarrow> Command list \<Rightarrow> string option list" where
  "ids_of h cmds = map (ctx_id h) (List.map_filter committable cmds)"

definition same_ids :: "heap \<Rightarrow> heap \<Rightarrow> bool" where
  "same_ids h h' \<longleftrightarrow> (\<forall>p. ctx_id h' p = ctx_id h p)"

definition same_revs :: "heap \<Rightarrow> heap \<Rightarrow> bool" where
  "same_revs h h' \<longleftrightarrow> (\<forall>p. map_option (\<lambda>c. s_Rev (sc_Committed c)) (deref h' p) = map_option (\<lambda>c. s_Rev (sc_Committed c)) (deref h p))"

lemma deref_put: "deref h p = Some c \<Longrightarrow> deref (store h p c') q = (if q = p then Some c' else deref h q)"
  by (auto simp: deref_def store_def split: option.splits)

lemma set_Transition_ok:
  "ok_state (sc_Current c) \<Longrightarrow> named (ts_Annotations ts) \<Longrightarrow> gm_wf (ts_Annotations ts) \<Longrightarrow> ok_state (sc_Current (set_Transition c ts))"
  by (simp add: ok_state_def pb_ok_State_def pb_ok_Transition_def pb_ok_named set_Transition_def)

lemma next_annotations: "ts_Annotations (nextTransitionOrCurrent c to) = None"
  by (simp add: nextTransitionOrCurrent_def)

lemma state_cmd_driver: "state_cmd cmd \<Longrightarrow> DoCommitSubCommand lb D cmd h d = (r, cmd', h', d') \<Longrightarrow> d' = d"
  by (cases cmd) (auto split: prod.splits)

lemma state_cmd_keeps:
  assumes "state_cmd cmd" "ok_heap h" "DoCommitSubCommand lb D cmd h d = (r, cmd', h', d')"
  shows "cmd' = cmd \<and> d' = d \<and> ok_heap h' \<and> same_ids h h' \<and> same_revs h h'"
proof -
  have key: "ok_heap (store h p c') \<and> same_ids h (store h p c') \<and> same_revs h (store h p c')"
    if "deref h p = Some c" "c' = set_Transition (append_Transition c ts0) ts" "named (ts_Annotations ts)" "gm_wf (ts_Annotations ts)" for p c c' ts ts0
  proof -
    have "ok_state (sc_Current c)" using assms(2) that(1) by (simp add: ok_heap_def)
    then have "ok_state (sc_Current c')" using that(2-4) set_Transition_ok [of "append_Transition c ts0" ts] by simp
    then show ?thesis using assms(2) that(1,2) by (simp add: ok_heap_def same_ids_def same_revs_def ctx_id_def deref_put)
  qed
  have refl: "same_ids h h" "same_revs h h" by (simp_all add: same_ids_def same_revs_def)
  show ?thesis
  proof (cases cmd)
    case (TransitCmd t)
    with assms(1) have "named (gm_merge (tr_Annotations t) None)" "gm_wf (gm_merge (tr_Annotations t) None)"
      by (simp_all add: named_merge)
    with TransitCmd assms(2,3) key refl show ?thesis
      by (auto simp: Transit_Do_def with_ctx_def Let_def next_annotations split: if_splits option.splits prod.splits)
  next
    case (ParkCmd t)
    with assms(1) have "named (gm_merge (pk_Annotations t) None)" "gm_wf (gm_merge (pk_Annotations t) None)"
      by (simp_all add: named_merge)
    with ParkCmd assms(2,3) key refl show ?thesis
      by (auto simp: Park_Do_def with_ctx_def Let_def split: if_splits option.splits prod.splits)
  qed (use assms refl in auto)
qed

section \<open>One context\<close>

text \<open>The revisions the sequence has yet to hand out follow those of the store.\<close>

definition fresh :: "('q \<Rightarrow> nat) \<Rightarrow> 'q sequenceWithCommit \<Rightarrow> State list \<Rightarrow> bool" where
  "fresh low sw sts \<longleftrightarrow> 0 < low (sw_seq sw) \<and> (\<forall>s \<in> set sts. s_Rev s < int (low (sw_seq sw)))"

text \<open>Only the running transaction, which has been given \<open>c\<close>, has numbers that are not committed.\<close>

definition seq_inv :: "('q \<Rightarrow> nat) \<Rightarrow> 'q sequenceWithCommit \<Rightarrow> int list \<Rightarrow> bool" where
  "seq_inv low sw c \<longleftrightarrow> 0 < low (sw_seq sw) \<and> sw_maxOngoing sw < int (low (sw_seq sw))
    \<and> set (sw_ongoing sw) \<subseteq> set c \<and> (\<forall>n \<in> set c. n \<le> sw_maxOngoing sw)"

lemma wf_ok_state: "ok_state s \<Longrightarrow> wf_State s"
  by (simp add: ok_state_def pb_ok_State_def pb_ok_Transition_def pb_ok_map_def wf_State_def wf_Transition_def)

context badger_laws
begin

lemma commit_ctx_Ok:
  assumes "commit_ctx B lb r c t = Ok (t', c')" "states_in (lib_easyproto lb) (view t) sts" "txn_ok t" "ok_state (sc_Current c)"
    and "keyed r" "0 < r" "\<forall>s \<in> set sts. s_Rev s < r"
  shows "s_Rev (sc_Committed c) = latest_rev sts (s_ID (sc_Current c))"
    and "states_in (lib_easyproto lb) (view t') (sts @ [committed_state lb r (sc_Current c)])"
    and "txn_ok t'" "start t' = start t"
    and "ok_state (sc_Current c')" "s_ID (sc_Current c') = s_ID (sc_Current c)" "s_Rev (sc_Committed c') = r"
    and "writes t' = writes t ++ map_of (rev (puts (lib_easyproto lb) (committed_state lb r (sc_Current c))))"
proof -
  let ?s = "committed_state lb r (sc_Current c)"
  have s: "(State_CopyTo (sc_Current c) State0)\<lparr>s_Rev := r, s_CommittedAt := time_UnixMilli (UnixMilli (lib_Now lb r))\<rparr> = ?s"
    by (simp add: State_CopyTo_fresh [OF wf_ok_state [OF assms(4)]] committed_state_def)
  from assms(1) have c: "s_ID (sc_Current c) \<noteq> []" "s_Rev (sc_Committed c) = latest_rev sts (s_ID (sc_Current c))"
    "put_state B (lib_easyproto lb) (bd_Read B t (latestRevKey (s_ID (sc_Current c)))) ?s = Ok t'" "c' = reset_Transitions (CopyToCtx ?s c)"
    by (auto simp: commit_ctx_def Let_def getLatestRevIndex_spec [OF assms(2)] s obind_Ok_iff split: if_splits)
  show "s_Rev (sc_Committed c) = latest_rev sts (s_ID (sc_Current c))" by (rule c(2))
  note ok = committed_state_ok [OF assms(4) c(1) assms(5,6), of lb]
  have rev: "s_Rev ?s = r" "s_ID ?s = s_ID (sc_Current c)" by (simp_all add: committed_state_def norm_State_def)
  show "states_in (lib_easyproto lb) (view t') (sts @ [?s])"
    by (rule put_state_states_in [OF _ ok(1) _ c(3)]) (simp_all add: rev assms(2,7) Read)
  show "txn_ok t'" "start t' = start t" using put_state_txn_ok [OF c(3) Read_txn_ok [OF assms(3)]] by (simp_all add: Read)
  show "writes t' = writes t ++ map_of (rev (puts (lib_easyproto lb) ?s))" using put_state_writes(2) [OF c(3)] by (simp add: Read)
  show "ok_state (sc_Current c')" "s_ID (sc_Current c') = s_ID (sc_Current c)" "s_Rev (sc_Committed c') = r"
    using ok_state_CopyTo [OF ok(2) assms(4)] rev assms(6) by (simp_all add: c(4) CopyToCtx_def Let_def)
qed

lemma commit_ctx_stale:
  assumes "states_in (lib_easyproto lb) (view t) sts" "s_ID (sc_Current c) \<noteq> []"
    and "s_Rev (sc_Committed c) \<noteq> latest_rev sts (s_ID (sc_Current c))"
  shows "commit_ctx B lb r c t = Err (ErrRevMismatch [s_ID (sc_Current c)])"
  using assms(2,3) by (simp add: commit_ctx_def Let_def getLatestRevIndex_spec [OF assms(1)])

lemma seq_next_numbers:
  assumes "seq_next B sw c = (x, sw', c')"
  shows "low (sw_seq sw) \<le> low (sw_seq sw')" "sw_maxCommitted sw' = sw_maxCommitted sw"
    and "seq_inv low sw c \<Longrightarrow> seq_inv low sw' c' \<and> sw_maxOngoing sw \<le> sw_maxOngoing sw'"
    and "fresh low sw sts \<Longrightarrow> fresh low sw' sts"
    and "x = Ok r \<Longrightarrow> c' = c @ [r] \<and> keyed r \<and> int (low (sw_seq sw)) \<le> r \<and> r < int (low (sw_seq sw'))"
    and "\<forall>r. x \<noteq> Ok r \<Longrightarrow> c' = c"
proof -
  obtain y q where sn: "bd_SeqNext B (sw_seq sw) = (y, q)" by fastforce
  note l = SeqNext_mono [OF sn]
  have low: "y = Ok n \<Longrightarrow> low (sw_seq sw) \<le> n \<and> n < low q" for n using SeqNext sn by auto
  show "low (sw_seq sw) \<le> low (sw_seq sw')" "sw_maxCommitted sw' = sw_maxCommitted sw" "fresh low sw sts \<Longrightarrow> fresh low sw' sts"
    using assms sn l by (fastforce simp: seq_next_def seq_register_def fresh_def split: outcome.splits if_splits)+
  show "seq_inv low sw c \<Longrightarrow> seq_inv low sw' c' \<and> sw_maxOngoing sw \<le> sw_maxOngoing sw'"
    using assms sn l low by (fastforce simp: seq_next_def seq_register_def seq_inv_def split: outcome.splits if_splits)
  show "x = Ok r \<Longrightarrow> c' = c @ [r] \<and> keyed r \<and> int (low (sw_seq sw)) \<le> r \<and> r < int (low (sw_seq sw'))"
    using assms sn low by (auto simp: seq_next_def seq_register_def keyed_def MaxInt64_def split: outcome.splits if_splits)
  show "\<forall>r. x \<noteq> Ok r \<Longrightarrow> c' = c"
    using assms sn by (auto simp: seq_next_def split: outcome.splits if_splits)
qed

section \<open>The transaction\<close>

lemma commit_txn_seq:
  assumes "commit_txn B lb D cmds h d t c = (r, cs, h', d', c')" "list_all state_cmd cmds"
  shows "sw_maxCommitted (bg_stateRevSeq d') = sw_maxCommitted (bg_stateRevSeq d)
    \<and> low (sw_seq (bg_stateRevSeq d)) \<le> low (sw_seq (bg_stateRevSeq d'))
    \<and> (seq_inv low (bg_stateRevSeq d) c \<longrightarrow> seq_inv low (bg_stateRevSeq d') c' \<and> sw_maxOngoing (bg_stateRevSeq d) \<le> sw_maxOngoing (bg_stateRevSeq d'))
    \<and> (\<forall>t'. r = Ok t' \<longrightarrow> length c' = length c + length cmds)
    \<and> set c' - set c \<subseteq> {int (low (sw_seq (bg_stateRevSeq d))) ..< int (low (sw_seq (bg_stateRevSeq d')))}"
  using assms
proof (induction cmds arbitrary: h d t c r cs h' d' c')
  case (Cons cmd cmds)
  obtain x sw c1 where seq: "seq_next B (bg_stateRevSeq d) c = (x, sw, c1)" by (metis surj_pair)
  note sn = seq_next_numbers [OF seq]
  obtain r1 cmd1 h1 d1 where sub: "DoCommitSubCommand lb D cmd h (d\<lparr>bg_stateRevSeq := sw\<rparr>) = (r1, cmd1, h1, d1)" by (metis surj_pair)
  have d1: "d1 = d\<lparr>bg_stateRevSeq := sw\<rparr>" using state_cmd_driver [OF _ sub] Cons.prems(2) by simp
  consider (stop) "(\<forall>t'. r \<noteq> Ok t')" "bg_stateRevSeq d' = sw" "c' = c1"
    | (rec) h2 t2 cs2 n where "x = Ok n" "commit_txn B lb D cmds h2 d1 t2 c1 = (r, cs2, h', d', c')"
    using Cons.prems(1) seq sub d1 by (auto simp: nil_deref_def split: outcome.splits option.splits prod.splits)
  then show ?case
  proof cases
    case stop
    show ?thesis
    proof (cases "\<exists>n. x = Ok n")
      case True
      then obtain n where n: "x = Ok n" by blast
      show ?thesis unfolding stop(2,3) using stop(1) sn(1-3) sn(5) [OF n] by auto
    next
      case False
      with sn(6) have "c1 = c" by blast
      then show ?thesis unfolding stop(2,3) using stop(1) sn(1-3) by auto
    qed
  next
    case rec
    note ih = Cons.IH [OF rec(2)] and n = sn(5) [OF rec(1)]
    have sw: "bg_stateRevSeq d1 = sw" by (simp add: d1)
    have "set c' - set c \<subseteq> {int (low (sw_seq (bg_stateRevSeq d))) ..< int (low (sw_seq (bg_stateRevSeq d')))}"
      using ih Cons.prems(2) n sn(1) unfolding sw by fastforce
    with ih Cons.prems(2) sn(1-3) n show ?thesis unfolding sw by auto
  qed
qed auto

lemma commit_txn_keeps:
  assumes "commit_txn B lb D cmds h d t c = (r, cs, h', d', c')" "list_all state_cmd cmds" "ok_heap h"
    and "states_in (lib_easyproto lb) (view t) sts" "txn_ok t" "fresh low (bg_stateRevSeq d) sts"
  shows "cs = cmds \<and> bg_db d' = bg_db d \<and> ok_heap h' \<and> same_ids h h' \<and> fresh low (bg_stateRevSeq d') sts \<and> set c \<subseteq> set c'
    \<and> (\<forall>t'. r = Ok t' \<longrightarrow> (\<exists>new. map (\<lambda>s. Some (s_ID s)) new = ids_of h cmds \<and> states_in (lib_easyproto lb) (view t') (sts @ new)
        \<and> fresh low (bg_stateRevSeq d') (sts @ new) \<and> s_Rev ` set new \<subseteq> set c' \<and> (\<forall>s \<in> set new. int (low (sw_seq (bg_stateRevSeq d))) \<le> s_Rev s)
        \<and> txn_ok t' \<and> start t' = start t \<and> writes t' = writes t ++ map_of (rev (concat (map (puts (lib_easyproto lb)) new)))))"
  using assms
proof (induction cmds arbitrary: h d t c sts r cs h' d' c')
  case Nil
  then show ?case by (auto simp: ids_of_def map_filter_simps same_ids_def intro!: exI [of _ "[]"])
next
  case (Cons cmd cmds)
  obtain x sw c1 where seq: "seq_next B (bg_stateRevSeq d) c = (x, sw, c1)" by (metis surj_pair)
  note nx = seq_next_numbers [OF seq]
  have fr0: "fresh low sw sts" by (rule nx(4) [OF Cons.prems(6)])
  have refl: "same_ids h h" by (simp add: same_ids_def)
  show ?case
  proof (cases "\<exists>n. x = Ok n")
    case False
    then have "c1 = c" using nx(6) by blast
    then show ?thesis using False Cons.prems seq fr0 refl by (auto split: outcome.splits)
  next
    case True
    then obtain n where n: "x = Ok n" by blast
    have sn: "keyed n" "0 < n" "\<forall>s \<in> set sts. s_Rev s < n" "c1 = c @ [n]" "int (low (sw_seq (bg_stateRevSeq d))) \<le> n" "n < int (low (sw_seq sw))"
      using nx(5) [OF n] Cons.prems(6) by (auto simp: fresh_def)
    obtain r1 cmd1 h1 d1 where sub: "DoCommitSubCommand lb D cmd h (d\<lparr>bg_stateRevSeq := sw\<rparr>) = (r1, cmd1, h1, d1)" by (metis surj_pair)
    have k: "cmd1 = cmd" "d1 = d\<lparr>bg_stateRevSeq := sw\<rparr>" "ok_heap h1" "same_ids h h1"
      using state_cmd_keeps [OF _ Cons.prems(3) sub] Cons.prems(2) by auto
    have sw: "bg_stateRevSeq d1 = sw" by (simp add: k(2))
    show ?thesis
    proof (cases "r1 = Ok () \<and> committable cmd = None")
      case True
      obtain r2 cs2 h2 d2 c2 where rec: "commit_txn B lb D cmds h1 d1 t c1 = (r2, cs2, h2, d2, c2)" by (metis surj_pair)
      have "fresh low (bg_stateRevSeq d1) sts" using fr0 sw by simp
      note ih = Cons.IH [OF rec _ k(3) Cons.prems(4,5) this]
      have "ids_of h (cmd # cmds) = ids_of h1 cmds"
        using True k(4) by (simp add: ids_of_def map_filter_simps same_ids_def)
      moreover have "(r, cs, h', d', c') = (r2, cmd # cs2, h2, d2, c2)" using Cons.prems(1) True rec sub seq n k by simp
      ultimately show ?thesis using ih Cons.prems(2) k sn(4) nx(1) unfolding sw by (fastforce simp: same_ids_def intro: le_trans)
    next
      case False
      show ?thesis
      proof (cases "\<exists>p x t1 c2. r1 = Ok () \<and> committable cmd = Some p \<and> deref h1 p = Some x \<and> commit_ctx B lb n x t = Ok (t1, c2)")
        case True
        then obtain p x t1 c2 where c: "r1 = Ok ()" "committable cmd = Some p" "deref h1 p = Some x"
          "commit_ctx B lb n x t = Ok (t1, c2)" by blast
        have x: "ok_state (sc_Current x)" using k(3) c(3) by (simp add: ok_heap_def)
        note cc = commit_ctx_Ok [OF c(4) Cons.prems(4,5) x sn(1-3)]
        let ?s = "committed_state lb n (sc_Current x)" and ?h = "store h1 p c2"
        have s: "s_ID ?s = s_ID (sc_Current x)" "s_Rev ?s = n" by (simp_all add: committed_state_def norm_State_def)
        have h: "ok_heap ?h" "same_ids h1 ?h"
          using k(3) cc(5,6) c(3) by (simp_all add: ok_heap_def same_ids_def ctx_id_def deref_put)
        have fr: "fresh low (bg_stateRevSeq d1) (sts @ [?s])" using fr0 sn(6) s sw by (simp add: fresh_def)
        obtain r2 cs2 h2 d2 c3 where rec: "commit_txn B lb D cmds ?h d1 t1 c1 = (r2, cs2, h2, d2, c3)" by (metis surj_pair)
        note ih = Cons.IH [OF rec _ h(1) cc(2,3) fr]
        have "ctx_id h1 p = Some (s_ID ?s)" using c(3) s by (simp add: ctx_id_def)
        then have id: "ctx_id h p = Some (s_ID ?s)" using k(4) by (simp add: same_ids_def)
        have ids: "ids_of h (cmd # cmds) = Some (s_ID ?s) # ids_of ?h cmds"
          using c(2) id h(2) k(4) by (auto simp: ids_of_def map_filter_simps same_ids_def)
        have eq: "(r, cs, h', d', c') = (r2, cmd # cs2, h2, d2, c3)"
          using Cons.prems(1) c rec sub seq n k by simp
        have "\<exists>new'. map (\<lambda>s. Some (s_ID s)) new' = ids_of h (cmd # cmds)
            \<and> states_in (lib_easyproto lb) (view t') (sts @ new') \<and> fresh low (bg_stateRevSeq d') (sts @ new') \<and> s_Rev ` set new' \<subseteq> set c'
            \<and> (\<forall>s \<in> set new'. int (low (sw_seq (bg_stateRevSeq d))) \<le> s_Rev s) \<and> txn_ok t' \<and> start t' = start t
            \<and> writes t' = writes t ++ map_of (rev (concat (map (puts (lib_easyproto lb)) new')))"
          if "r = Ok t'" for t'
        proof -
          from ih Cons.prems(2) that eq obtain new where
            new: "map (\<lambda>s. Some (s_ID s)) new = ids_of ?h cmds" "states_in (lib_easyproto lb) (view t') ((sts @ [?s]) @ new)"
            "fresh low (bg_stateRevSeq d') ((sts @ [?s]) @ new)" "s_Rev ` set new \<subseteq> set c'" "\<forall>s \<in> set new. int (low (sw_seq sw)) \<le> s_Rev s"
            "txn_ok t'" "start t' = start t1" "writes t' = writes t1 ++ map_of (rev (concat (map (puts (lib_easyproto lb)) new)))" "set c1 \<subseteq> set c'"
            unfolding sw by auto
          have "\<forall>s \<in> set (?s # new). int (low (sw_seq (bg_stateRevSeq d))) \<le> s_Rev s" using new(5) nx(1) s(2) sn(5) by force
          then show ?thesis using ids cc(4,8) new sn(4) s(2) by (intro exI [of _ "?s # new"]) (simp add: map_add_assoc)
        qed
        moreover have "fresh low (bg_stateRevSeq d') sts" using ih Cons.prems(2) eq by (simp add: fresh_def)
        ultimately show ?thesis using ih Cons.prems(2) eq k h(2) sn(4) by (auto simp: same_ids_def)
      next
        case no: False
        have "cs = cmd # cmds \<and> h' = h1 \<and> d' = d1 \<and> c' = c1 \<and> (\<forall>t'. r \<noteq> Ok t')"
          using no False Cons.prems(1) sub seq n k
          by (auto split: outcome.splits option.splits prod.splits simp: nil_deref_def)
        then show ?thesis using k fr0 sn(4) by auto
      qed
    qed
  qed
qed

end

section \<open>The commit\<close>

lemma commit_revs_idle:
  assumes "set (sw_ongoing (bg_stateRevSeq d)) \<subseteq> set c"
  shows "sw_ongoing (bg_stateRevSeq (commit_revs c d)) = []" "sw_seq (bg_stateRevSeq (commit_revs c d)) = sw_seq (bg_stateRevSeq d)"
    "sw_maxOngoing (bg_stateRevSeq (commit_revs c d)) = sw_maxOngoing (bg_stateRevSeq d)"
    "c \<noteq> [] \<Longrightarrow> maxViewable (bg_stateRevSeq (commit_revs c d)) = sw_maxOngoing (bg_stateRevSeq d)"
    "c = [] \<Longrightarrow> commit_revs c d = d" "bg_db (commit_revs c d) = bg_db d"
proof -
  have "filter (\<lambda>r. r \<notin> set c) (sw_ongoing (bg_stateRevSeq d)) = []" using assms by (auto simp: filter_empty_conv)
  then show "sw_ongoing (bg_stateRevSeq (commit_revs c d)) = []" "sw_seq (bg_stateRevSeq (commit_revs c d)) = sw_seq (bg_stateRevSeq d)"
    "sw_maxOngoing (bg_stateRevSeq (commit_revs c d)) = sw_maxOngoing (bg_stateRevSeq d)"
    "c \<noteq> [] \<Longrightarrow> maxViewable (bg_stateRevSeq (commit_revs c d)) = sw_maxOngoing (bg_stateRevSeq d)"
    "c = [] \<Longrightarrow> commit_revs c d = d" "bg_db (commit_revs c d) = bg_db d"
    using assms by (auto simp: commit_revs_def seq_commit_def maxViewable_def Let_def)
qed

text \<open>A driver at rest: the store holds \<open>sts\<close>, all of them may be read, and no commit is running.\<close>

definition badger_ok :: "('db \<Rightarrow> (string \<times> string) list) \<Rightarrow> ('q \<Rightarrow> nat) \<Rightarrow> 'c easyproto \<Rightarrow> ('db, 'q) badgerdriver \<Rightarrow> State list \<Rightarrow> bool" where
  "badger_ok stored low E d sts \<longleftrightarrow> readable stored E d sts \<and> seq_inv low (bg_stateRevSeq d) []
    \<and> (\<forall>s \<in> set sts. s_Rev s \<le> sw_maxOngoing (bg_stateRevSeq d))"

text \<open>A driver whose store holds \<open>sts\<close>, whoever else is at work on it.\<close>

definition log_ok :: "('db \<Rightarrow> (string \<times> string) list) \<Rightarrow> ('q \<Rightarrow> nat) \<Rightarrow> 'c easyproto \<Rightarrow> ('db, 'q) badgerdriver \<Rightarrow> State list \<Rightarrow> bool" where
  "log_ok stored low E d sts \<longleftrightarrow> states_in E (stored (bg_db d)) sts \<and> fresh low (bg_stateRevSeq d) sts"

lemma badger_ok_log: "badger_ok stored low E d sts \<Longrightarrow> log_ok stored low E d sts"
  by (fastforce simp: badger_ok_def log_ok_def readable_def seq_inv_def fresh_def)

text \<open>
  What other goroutines may do between the start of a transaction and its commit: they add states
  and take numbers of the sequence. \<open>N\<close> are the numbers of their states; a sequence hands out each
  number once, so they are none of those that the commit takes in its attempts.
\<close>

fun commit_numbers ::
  "nat \<Rightarrow> ('db, 'txn, 'q) badger \<Rightarrow> 'c libs \<Rightarrow> ('db, 'q) badgerdriver CommitDriver
    \<Rightarrow> (('db, 'q) badgerdriver \<Rightarrow> ('db, 'q) badgerdriver) list \<Rightarrow> Command list \<Rightarrow> heap \<Rightarrow> ('db, 'q) badgerdriver \<Rightarrow> int list" where
  "commit_numbers n B lb D others cmds h d =
    (case commit_txn B lb D cmds h d (bd_NewTransaction B (bg_db d)) [] of
       (r, cs, h1, d1, c) \<Rightarrow>
         (let d2 = (case others of [] \<Rightarrow> d1 | f # _ \<Rightarrow> f d1)
          in c @ (case db_Update B r (bg_db d2) of
               (Err err, db) \<Rightarrow>
                 (if Is_ErrConflict err \<and> n > 0
                  then commit_numbers (n - 1) B lb D (tl others) cs h1 (commit_revs c (d2\<lparr>bg_db := db\<rparr>)) else [])
             | _ \<Rightarrow> [])))"

declare commit_numbers.simps [simp del]

definition adds_states ::
  "('db \<Rightarrow> (string \<times> string) list) \<Rightarrow> ('q \<Rightarrow> nat) \<Rightarrow> 'c easyproto \<Rightarrow> int set \<Rightarrow> (('db, 'q) badgerdriver \<Rightarrow> ('db, 'q) badgerdriver) \<Rightarrow> bool" where
  "adds_states stored low E N f \<longleftrightarrow> (\<forall>d sts. log_ok stored low E d sts \<longrightarrow>
    low (sw_seq (bg_stateRevSeq d)) \<le> low (sw_seq (bg_stateRevSeq (f d)))
    \<and> (\<exists>sts'. log_ok stored low E (f d) sts' \<and> set sts \<subseteq> set sts' \<and> (\<forall>s \<in> set sts' - set sts. s_Rev s \<in> N)))"

lemma commit_revs_same:
  "sw_seq (bg_stateRevSeq (commit_revs c d)) = sw_seq (bg_stateRevSeq d)" "bg_db (commit_revs c d) = bg_db d"
  by (simp_all add: commit_revs_def seq_commit_def Let_def)

lemma log_ok_revs:
  "log_ok stored low E (commit_revs c (d\<lparr>bg_db := db\<rparr>)) sts \<longleftrightarrow> states_in E (stored db) sts \<and> fresh low (bg_stateRevSeq d) sts"
  by (simp add: log_ok_def fresh_def commit_revs_same)

context badger_laws
begin

lemma one_attempt:
  assumes "commit_txn B lb D cmds h d (bd_NewTransaction B (bg_db d)) [] = (r, cs, h', d1, c)" "db_Update B r (bg_db d1) = (u, db)"
    and "list_all state_cmd cmds" "ok_heap h" "badger_ok stored low (lib_easyproto lb) d sts"
  shows "cs = cmds" "ok_heap h'" "same_ids h h'"
    and "\<exists>new. badger_ok stored low (lib_easyproto lb) (commit_revs c (d1\<lparr>bg_db := db\<rparr>)) (sts @ new)
      \<and> (if u = Ok () then map (\<lambda>s. Some (s_ID s)) new = ids_of h cmds else new = [] \<and> db = bg_db d)"
proof -
  let ?t = "bd_NewTransaction B (bg_db d)" and ?d = "commit_revs c (d1\<lparr>bg_db := db\<rparr>)"
  have st: "states_in (lib_easyproto lb) (view ?t) sts" "seq_inv low (bg_stateRevSeq d) []" "fresh low (bg_stateRevSeq d) sts"
    and rd: "\<forall>s \<in> set sts. s_Rev s \<le> maxViewable (bg_stateRevSeq d)" "\<forall>s \<in> set sts. s_Rev s \<le> sw_maxOngoing (bg_stateRevSeq d)"
    using assms(5) badger_ok_log [OF assms(5)] by (simp_all add: badger_ok_def readable_def log_ok_def NewTransaction)
  note k = commit_txn_keeps [OF assms(1,3,4) st(1) txn_ok_new st(3)] and num = commit_txn_seq [OF assms(1,3)]
  show "cs = cmds" "ok_heap h'" "same_ids h h'" using k by simp_all
  have sq: "seq_inv low (bg_stateRevSeq d1) c" "\<forall>s \<in> set sts. s_Rev s \<le> sw_maxOngoing (bg_stateRevSeq d1)"
    using num st(2) rd(2) by (auto intro: order_trans)
  then have on: "set (sw_ongoing (bg_stateRevSeq (d1\<lparr>bg_db := db\<rparr>))) \<subseteq> set c" by (simp add: seq_inv_def)
  note idle = commit_revs_idle [OF on]
  have seq: "seq_inv low (bg_stateRevSeq ?d) []" using sq(1) idle(1-3) by (simp add: seq_inv_def)
  have view: "\<forall>s \<in> set ss. s_Rev s \<le> maxViewable (bg_stateRevSeq ?d) \<and> s_Rev s \<le> sw_maxOngoing (bg_stateRevSeq ?d)"
    if "\<forall>s \<in> set ss. s_Rev s \<le> sw_maxOngoing (bg_stateRevSeq d1)" "c = [] \<Longrightarrow> ss = sts" for ss
  proof (cases "c = []")
    case True
    then show ?thesis using rd(1) idle(5) num that by (simp add: maxViewable_def)
  next
    case False
    then show ?thesis using idle(3,4) that(1) by simp
  qed
  show "\<exists>new. badger_ok stored low (lib_easyproto lb) ?d (sts @ new)
      \<and> (if u = Ok () then map (\<lambda>s. Some (s_ID s)) new = ids_of h cmds else new = [] \<and> db = bg_db d)"
  proof (cases "\<exists>t'. r = Ok t'")
    case True
    then obtain t' where t': "r = Ok t'" by blast
    with k obtain new where new: "map (\<lambda>s. Some (s_ID s)) new = ids_of h cmds" "states_in (lib_easyproto lb) (view t') (sts @ new)"
      "s_Rev ` set new \<subseteq> set c" "txn_ok t'" "start t' = bg_db d" by (auto simp: NewTransaction)
    have "bg_db d1 = start t'" using k new(5) by simp
    with Commit_unchanged [of t'] assms(2) t' have c: "bd_Commit B t' (start t') = Some db" "u = Ok ()"
      by (auto simp: db_Update_def split: option.splits)
    have "\<forall>s \<in> set (sts @ new). s_Rev s \<le> sw_maxOngoing (bg_stateRevSeq d1)" using sq new(3) by (auto simp: seq_inv_def)
    moreover have "c = [] \<Longrightarrow> new = []" using new(3) by simp
    ultimately show ?thesis using new c seq view [of "sts @ new"] Commit_stored [OF new(4) c(1)]
      by (intro exI [of _ new]) (simp add: badger_ok_def readable_def commit_revs_same)
  next
    case False
    then have u: "u \<noteq> Ok ()" "db = bg_db d" using assms(2) k by (auto simp: db_Update_def split: outcome.splits)
    with seq sq(2) view [of sts] st(1) show ?thesis
      by (intro exI [of _ "[]"]) (simp add: badger_ok_def readable_def commit_revs_same NewTransaction)
  qed
qed

lemma commit_attempts_keeps:
  assumes "commit_attempts n B lb D [] cmds h d = (r, cs, h', d')" "list_all state_cmd cmds" "ok_heap h"
    and "badger_ok stored low (lib_easyproto lb) d sts"
  shows "cs = cmds \<and> ok_heap h' \<and> same_ids h h' \<and> (\<exists>new. badger_ok stored low (lib_easyproto lb) d' (sts @ new)
    \<and> (if r = Ok () then map (\<lambda>s. Some (s_ID s)) new = ids_of h cmds else new = [] \<and> bg_db d' = bg_db d))"
  using assms
proof (induction n arbitrary: h d r cs h' d')
  case 0
  obtain r0 cs0 h1 d1 c where txn: "commit_txn B lb D cmds h d (bd_NewTransaction B (bg_db d)) [] = (r0, cs0, h1, d1, c)" by (metis surj_pair)
  obtain u db where up: "db_Update B r0 (bg_db d1) = (u, db)" by fastforce
  note one = one_attempt [OF txn up 0(2-4)]
  from 0(1) txn up have "r = u" "cs = cs0" "h' = h1" "d' = commit_revs c (d1\<lparr>bg_db := db\<rparr>)"
    by (auto simp: commit_attempts.simps Let_def split: outcome.splits)
  with one show ?case by (auto simp: commit_revs_def)
next
  case (Suc n)
  obtain r0 cs0 h1 d1 c where txn: "commit_txn B lb D cmds h d (bd_NewTransaction B (bg_db d)) [] = (r0, cs0, h1, d1, c)" by (metis surj_pair)
  obtain u db where up: "db_Update B r0 (bg_db d1) = (u, db)" by fastforce
  note one = one_attempt [OF txn up Suc.prems(2-4)]
  let ?d = "commit_revs c (d1\<lparr>bg_db := db\<rparr>)"
  show ?case
  proof (cases "\<exists>err. u = Err err \<and> Is_ErrConflict err")
    case True
    with one(4) have again: "badger_ok stored low (lib_easyproto lb) ?d sts" "bg_db ?d = bg_db d"
      by (auto simp: commit_revs_def)
    have "commit_attempts n B lb D [] cmds h1 ?d = (r, cs, h', d')"
      using Suc.prems(1) txn up True one(1) by (auto simp: commit_attempts.simps [of "Suc n"] Let_def)
    from Suc.IH [OF this Suc.prems(2) one(2) again(1)] one(3) again(2) show ?thesis
      by (auto simp: same_ids_def ids_of_def)
  next
    case False
    with Suc.prems(1) txn up have "r = u" "cs = cs0" "h' = h1" "d' = ?d"
      by (auto simp: commit_attempts.simps [of "Suc n"] Let_def split: outcome.splits)
    with one show ?thesis by (auto simp: commit_revs_def)
  qed
qed

end

section \<open>Commits among others\<close>

context badger_conflict_laws
begin

text \<open>A transaction has read the latest revision of every id that it writes.\<close>

definition reads_ok :: "'txn \<Rightarrow> bool" where
  "reads_ok t \<longleftrightarrow> (\<forall>i. latestRevKey i \<in> dom (writes t) \<longrightarrow> latestRevKey i \<in> reads t)"

lemma set_labels_reads: "set_labels B ls s t = Ok t' \<Longrightarrow> reads t \<subseteq> reads t'"
proof (induction ls arbitrary: t)
  case (Cons l ls)
  then obtain t1 where "bd_Set B t (labelIndexKey (fst l) (snd l) (s_Rev s)) (s_ID s) = Ok t1" "set_labels B ls s t1 = Ok t'"
    by (cases l) (auto simp: obind_Ok_iff)
  with Cons.IH reads_Set [OF this(1)] show ?case by blast
qed simp

lemma put_state_reads: "put_state B E t s = Ok t' \<Longrightarrow> reads t \<subseteq> reads t'"
  by (erule put_state_steps) (meson order_trans reads_Set set_labels_reads)

lemma commit_ctx_reads:
  assumes "commit_ctx B lb r c t = Ok (t', c')" "reads_ok t"
  shows "reads_ok t'"
proof -
  let ?i = "s_ID (sc_Current c)"
  let ?s = "(State_CopyTo (sc_Current c) State0)\<lparr>s_Rev := r, s_CommittedAt := time_UnixMilli (UnixMilli (lib_Now lb r))\<rparr>"
  from assms(1) have put: "put_state B (lib_easyproto lb) (bd_Read B t (latestRevKey ?i)) ?s = Ok t'"
    by (auto simp: commit_ctx_def Let_def obind_Ok_iff split: if_splits)
  have id: "s_ID ?s = ?i" by (simp add: State_CopyTo_def)
  have "latestRevKey i \<in> reads t'" if "latestRevKey i \<in> dom (writes t')" for i
  proof -
    have "i = ?i \<or> latestRevKey i \<in> dom (writes t)"
      using that put_state_writes(2) [OF put] puts_keys(2) [of "lib_easyproto lb" ?s i]
      by (auto simp: Read id dom_def map_add_def split: if_splits option.splits)
    with assms(2) reads_Read(2) [of "latestRevKey ?i" t] reads_Read(1) [of t "latestRevKey ?i"]
    have "latestRevKey i \<in> reads (bd_Read B t (latestRevKey ?i))" unfolding reads_ok_def by blast
    with put_state_reads [OF put] show ?thesis by blast
  qed
  then show ?thesis by (simp add: reads_ok_def)
qed

lemma commit_txn_reads:
  assumes "commit_txn B lb D cmds h d t c = (Ok t', cs, h', d', c')" "reads_ok t"
  shows "reads_ok t'"
  using assms
proof (induction cmds arbitrary: h d t c cs h' d' c')
  case (Cons cmd cmds)
  then show ?case
    by (auto simp: nil_deref_def split: outcome.splits option.splits prod.splits dest: commit_ctx_reads)
qed simp

lemma attempt_with_others:
  assumes "commit_txn B lb D cmds h d (bd_NewTransaction B (bg_db d)) [] = (r, cs, h', d1, c)" "db_Update B r (bg_db d2) = (u, db)"
    and "list_all state_cmd cmds" "ok_heap h" "log_ok stored low (lib_easyproto lb) d sts"
    and "log_ok stored low (lib_easyproto lb) d2 sts'" "set sts \<subseteq> set sts'" "\<forall>s \<in> set sts' - set sts. s_Rev s \<in> N"
    and "low (sw_seq (bg_stateRevSeq d1)) \<le> low (sw_seq (bg_stateRevSeq d2))" "N \<inter> set c = {}"
  shows "\<exists>new. log_ok stored low (lib_easyproto lb) (commit_revs c (d2\<lparr>bg_db := db\<rparr>)) (fold add_state_at new sts')
    \<and> (if u = Ok () then map (\<lambda>s. Some (s_ID s)) new = ids_of h cmds \<and> (\<forall>s \<in> set new. latest_rev sts' (s_ID s) < s_Rev s
        \<and> s_Rev s \<notin> s_Rev ` set sts' \<and> latest_rev sts (s_ID s) = latest_rev sts' (s_ID s)) else new = [] \<and> db = bg_db d2)"
proof (cases "u = Ok ()")
  case False
  then have "db = bg_db d2" using assms(2) by (auto simp: db_Update_def split: outcome.splits option.splits)
  then show ?thesis using False assms(6) by (intro exI [of _ "[]"]) (simp add: log_ok_def fresh_def commit_revs_same)
next
  case True
  then obtain t' where t': "r = Ok t'" "bd_Commit B t' (bg_db d2) = Some db"
    using assms(2) by (auto simp: db_Update_def split: outcome.splits option.splits)
  let ?t = "bd_NewTransaction B (bg_db d)" and ?E = "lib_easyproto lb"
  have st: "states_in ?E (view ?t) sts" "fresh low (bg_stateRevSeq d) sts" using assms(5) by (simp_all add: log_ok_def NewTransaction)
  have st': "states_in ?E (stored (bg_db d2)) sts'" "fresh low (bg_stateRevSeq d2) sts'" using assms(6) by (simp_all add: log_ok_def)
  from commit_txn_keeps [OF assms(1,3,4) st(1) txn_ok_new st(2)] t'(1) obtain new where
    new: "map (\<lambda>s. Some (s_ID s)) new = ids_of h cmds" "states_in ?E (view t') (sts @ new)" "fresh low (bg_stateRevSeq d1) (sts @ new)"
      "s_Rev ` set new \<subseteq> set c" "start t' = bg_db d" "writes t' = map_of (rev (concat (map (puts ?E) new)))"
    by (auto simp: NewTransaction)
  have srt: "list_all storable new" "sorted_wrt (\<lambda>s s'. s_Rev s < s_Rev s') new" "\<forall>s \<in> set sts. \<forall>s' \<in> set new. s_Rev s < s_Rev s'"
    using new(2) by (auto simp: states_in_def sorted_wrt_append)
  have "reads_ok ?t" by (simp add: reads_ok_def NewTransaction)
  from commit_txn_reads [OF assms(1) [unfolded t'(1)] this] have rd: "reads_ok t'" .
  have key: "s_Rev s \<notin> s_Rev ` set sts' \<and> latest_rev sts' (s_ID s) < s_Rev s \<and> latest_rev sts (s_ID s) = latest_rev sts' (s_ID s)" if s: "s \<in> set new" for s
  proof -
    have "s_Rev s \<notin> s_Rev ` set sts'"
    proof
      assume "s_Rev s \<in> s_Rev ` set sts'"
      then obtain s' where s': "s' \<in> set sts'" "s_Rev s' = s_Rev s" by force
      have "s_Rev s \<notin> N" using s new(4) assms(10) by blast
      with s' assms(8) have "s' \<in> set sts" by (metis DiffI)
      with srt(3) s s'(2) show False by force
    qed
    moreover have "latestRevKey (s_ID s) \<in> dom (writes t')"
    proof -
      have "latestRevKey (s_ID s) \<in> fst ` set (concat (map (puts ?E) new))" using s by (force simp: puts_def)
      then show ?thesis unfolding new(6) by (simp add: dom_map_of_conv_image_fst)
    qed
    with rd have "latestRevKey (s_ID s) \<in> reads t'" unfolding reads_ok_def by blast
    from Commit_reads [OF t'(2) this] have "map_of (stored (bg_db d2)) (latestRevKey (s_ID s)) = map_of (view ?t) (latestRevKey (s_ID s))"
      by (simp add: new(5) NewTransaction)
    from latest_rev_same [OF st(1) st'(1) this] have "latest_rev sts' (s_ID s) = latest_rev sts (s_ID s)" .
    moreover have "latest_rev sts (s_ID s) < s_Rev s"
      using latest_rev_mem [of sts "s_ID s"] srt(1,3) s by (cases "latest_rev sts (s_ID s) = 0") (auto simp: list_all_iff storable_def)
    ultimately show ?thesis by simp
  qed
  have "states_in ?E (stored db) (fold add_state_at new sts')"
    by (rule states_in_adds [OF st'(1) sorted_stored sorted_stored srt(1,2)]) (use key Commit [OF t'(2)] new(6) in metis)+
  moreover have "fresh low (bg_stateRevSeq d2) (fold add_state_at new sts')"
  proof -
    have "\<forall>s \<in> set new. s_Rev s < int (low (sw_seq (bg_stateRevSeq d2)))"
      using new(3) by (auto simp: fresh_def intro: less_le_trans [OF _ of_nat_mono [OF assms(9)]])
    then show ?thesis using st'(2) by (auto simp: fresh_def fold_add_states(1))
  qed
  ultimately show ?thesis using True new(1) key by (intro exI [of _ new]) (simp add: log_ok_revs)
qed

lemma others_step:
  assumes "commit_txn B lb D cmds h d (bd_NewTransaction B (bg_db d)) [] = (r, cs, h', d1, c)" "list_all state_cmd cmds" "ok_heap h"
    and "log_ok stored low (lib_easyproto lb) d sts" "\<forall>f \<in> set others. adds_states stored low (lib_easyproto lb) N f"
  shows "\<exists>sts'. log_ok stored low (lib_easyproto lb) (case others of [] \<Rightarrow> d1 | f # _ \<Rightarrow> f d1) sts' \<and> set sts \<subseteq> set sts'
    \<and> (\<forall>s \<in> set sts' - set sts. s_Rev s \<in> N)
    \<and> low (sw_seq (bg_stateRevSeq d1)) \<le> low (sw_seq (bg_stateRevSeq (case others of [] \<Rightarrow> d1 | f # _ \<Rightarrow> f d1)))"
proof -
  have "log_ok stored low (lib_easyproto lb) d1 sts"
    using commit_txn_keeps [OF assms(1-3) _ txn_ok_new, of sts] assms(4) by (simp add: log_ok_def NewTransaction)
  then show ?thesis using assms(5) by (cases others) (auto simp: adds_states_def)
qed

lemma commit_attempts_others:
  assumes "commit_attempts n B lb D others cmds h d = (r, cs, h', d')" "list_all state_cmd cmds" "ok_heap h"
    and "log_ok stored low (lib_easyproto lb) d sts" "\<forall>f \<in> set others. adds_states stored low (lib_easyproto lb) N f"
    and "N \<inter> set (commit_numbers n B lb D others cmds h d) = {}"
  shows "\<exists>sts' new. log_ok stored low (lib_easyproto lb) d' (fold add_state_at new sts')
    \<and> set sts \<subseteq> set sts' \<and> (\<forall>s \<in> set sts' - set sts. s_Rev s \<in> N)
    \<and> (if r = Ok () then map (\<lambda>s. Some (s_ID s)) new = ids_of h cmds
        \<and> (\<forall>s \<in> set new. latest_rev sts' (s_ID s) < s_Rev s \<and> s_Rev s \<notin> s_Rev ` set sts') else new = [])"
  using assms
proof (induction n arbitrary: others h d r cs h' d' sts)
  case (0 others h d r cs h' d' sts)
  obtain r0 cs0 h1 d1 c where txn: "commit_txn B lb D cmds h d (bd_NewTransaction B (bg_db d)) [] = (r0, cs0, h1, d1, c)" by (metis surj_pair)
  let ?d2 = "case others of [] \<Rightarrow> d1 | f # _ \<Rightarrow> f d1"
  obtain u db where up: "db_Update B r0 (bg_db ?d2) = (u, db)" by fastforce
  from others_step [OF txn 0(2-5)] obtain sts' where o: "log_ok stored low (lib_easyproto lb) ?d2 sts'" "set sts \<subseteq> set sts'"
    "\<forall>s \<in> set sts' - set sts. s_Rev s \<in> N" "low (sw_seq (bg_stateRevSeq d1)) \<le> low (sw_seq (bg_stateRevSeq ?d2))" by blast
  from 0(1) txn up have "r = u" "d' = commit_revs c (?d2\<lparr>bg_db := db\<rparr>)"
    by (auto simp: commit_attempts.simps Let_def split: outcome.splits)
  moreover have "N \<inter> set c = {}" using 0(6) txn by (subst (asm) commit_numbers.simps) (auto simp: Let_def)
  from attempt_with_others [OF txn up 0(2-4) o this] obtain new where
    "log_ok stored low (lib_easyproto lb) (commit_revs c (?d2\<lparr>bg_db := db\<rparr>)) (fold add_state_at new sts')"
    "if u = Ok () then map (\<lambda>s. Some (s_ID s)) new = ids_of h cmds \<and> (\<forall>s \<in> set new. latest_rev sts' (s_ID s) < s_Rev s
        \<and> s_Rev s \<notin> s_Rev ` set sts' \<and> latest_rev sts (s_ID s) = latest_rev sts' (s_ID s)) else new = [] \<and> db = bg_db ?d2" by blast
  ultimately show ?case using o(2,3) by - (rule exI [of _ sts'], rule exI [of _ new], simp split: if_splits)
next
  case (Suc n others h d r cs h' d' sts)
  obtain r0 cs0 h1 d1 c where txn: "commit_txn B lb D cmds h d (bd_NewTransaction B (bg_db d)) [] = (r0, cs0, h1, d1, c)" by (metis surj_pair)
  let ?d2 = "case others of [] \<Rightarrow> d1 | f # _ \<Rightarrow> f d1"
  obtain u db where up: "db_Update B r0 (bg_db ?d2) = (u, db)" by fastforce
  from others_step [OF txn Suc.prems(2-5)] obtain sts' where o: "log_ok stored low (lib_easyproto lb) ?d2 sts'" "set sts \<subseteq> set sts'"
    "\<forall>s \<in> set sts' - set sts. s_Rev s \<in> N" "low (sw_seq (bg_stateRevSeq d1)) \<le> low (sw_seq (bg_stateRevSeq ?d2))" by blast
  have nc: "N \<inter> set c = {}" using Suc.prems(6) txn by (subst (asm) commit_numbers.simps) (auto simp: Let_def)
  note one = attempt_with_others [OF txn up Suc.prems(2-4) o nc]
  let ?d = "commit_revs c (?d2\<lparr>bg_db := db\<rparr>)"
  show ?case
  proof (cases "\<exists>err. u = Err err \<and> Is_ErrConflict err")
    case False
    with Suc.prems(1) txn up have "r = u" "d' = ?d"
      by (auto simp: commit_attempts.simps [of "Suc n"] Let_def split: outcome.splits)
    moreover from one obtain new where "log_ok stored low (lib_easyproto lb) ?d (fold add_state_at new sts')"
      "if u = Ok () then map (\<lambda>s. Some (s_ID s)) new = ids_of h cmds \<and> (\<forall>s \<in> set new. latest_rev sts' (s_ID s) < s_Rev s
        \<and> s_Rev s \<notin> s_Rev ` set sts' \<and> latest_rev sts (s_ID s) = latest_rev sts' (s_ID s)) else new = [] \<and> db = bg_db ?d2" by blast
    ultimately show ?thesis using o(2,3) by - (rule exI [of _ sts'], rule exI [of _ new], simp split: if_splits)
  next
    case True
    with one have again: "log_ok stored low (lib_easyproto lb) ?d sts'" by auto
    have "ok_heap h1" "same_ids h h1" and cs: "cs0 = cmds"
      using commit_txn_keeps [OF txn Suc.prems(2,3) _ txn_ok_new, of sts] Suc.prems(4)
      by (auto simp: log_ok_def NewTransaction)
    then have ids: "ids_of h1 cmds = ids_of h cmds" by (simp add: ids_of_def same_ids_def)
    have rec: "commit_attempts n B lb D (tl others) cmds h1 ?d = (r, cs, h', d')"
      using Suc.prems(1) txn up True cs by (auto simp: commit_attempts.simps [of "Suc n"] Let_def)
    have "N \<inter> set (commit_numbers n B lb D (tl others) cmds h1 ?d) = {}"
      using Suc.prems(6) txn up True cs by (subst (asm) commit_numbers.simps) (auto simp: Let_def)
    moreover have "\<forall>f \<in> set (tl others). adds_states stored low (lib_easyproto lb) N f"
      using Suc.prems(5) by (cases others) simp_all
    ultimately obtain sts2 new where "log_ok stored low (lib_easyproto lb) d' (fold add_state_at new sts2)" "set sts' \<subseteq> set sts2"
      "\<forall>s \<in> set sts2 - set sts'. s_Rev s \<in> N" "if r = Ok () then map (\<lambda>s. Some (s_ID s)) new = ids_of h cmds
        \<and> (\<forall>s \<in> set new. latest_rev sts2 (s_ID s) < s_Rev s \<and> s_Rev s \<notin> s_Rev ` set sts2) else new = []"
      using Suc.IH [OF rec Suc.prems(2) \<open>ok_heap h1\<close> again] ids by metis
    with o(2,3) show ?thesis by (intro exI [of _ sts2] exI [of _ new]) blast
  qed
qed

end

section \<open>The contexts of a commit\<close>

text \<open>The revision a context holds, and whether it is the latest one of its id.\<close>

definition ctx_rev :: "heap \<Rightarrow> ctx_ref \<Rightarrow> int option" where
  "ctx_rev h p = map_option (\<lambda>c. s_Rev (sc_Committed c)) (deref h p)"

definition current :: "State list \<Rightarrow> heap \<Rightarrow> ctx_ref \<Rightarrow> bool" where
  "current sts h p \<longleftrightarrow> (\<exists>x. deref h p = Some x \<and> s_Rev (sc_Committed x) = latest_rev sts (s_ID (sc_Current x)))"

context badger_laws
begin

lemma commit_txn_cases:
  assumes "commit_txn B lb D (cmd # cmds) h d t c = (r, cs, h', d', c')" "state_cmd cmd" "ok_heap h"
  obtains (stop) "\<forall>t'. r \<noteq> Ok t'" "same_revs h h'" "same_ids h h'"
  | (skip) n sw c1 h1 cs1 where "seq_next B (bg_stateRevSeq d) c = (Ok n, sw, c1)" "committable cmd = None" "same_revs h h1" "same_ids h h1"
      "ok_heap h1" "commit_txn B lb D cmds h1 (d\<lparr>bg_stateRevSeq := sw\<rparr>) t c1 = (r, cs1, h', d', c')"
  | (put) n sw c1 h1 p x t1 x' cs1 where "seq_next B (bg_stateRevSeq d) c = (Ok n, sw, c1)" "committable cmd = Some p" "same_revs h h1"
      "same_ids h h1" "ok_heap h1" "deref h1 p = Some x" "commit_ctx B lb n x t = Ok (t1, x')"
      "commit_txn B lb D cmds (store h1 p x') (d\<lparr>bg_stateRevSeq := sw\<rparr>) t1 c1 = (r, cs1, h', d', c')"
proof -
  obtain x sw c1 where seq: "seq_next B (bg_stateRevSeq d) c = (x, sw, c1)" by (metis surj_pair)
  obtain r1 cmd1 h1 d1 where sub: "DoCommitSubCommand lb D cmd h (d\<lparr>bg_stateRevSeq := sw\<rparr>) = (r1, cmd1, h1, d1)" by (metis surj_pair)
  have k: "cmd1 = cmd" "d1 = d\<lparr>bg_stateRevSeq := sw\<rparr>" "ok_heap h1" "same_ids h h1" "same_revs h h1"
    using state_cmd_keeps [OF assms(2,3) sub] by auto
  have refl: "same_revs h h" "same_ids h h" by (simp_all add: same_revs_def same_ids_def)
  show ?thesis
  proof (cases "\<exists>n. x = Ok n \<and> r1 = Ok ()")
    case False
    with assms(1) seq sub k refl have "(\<forall>t'. r \<noteq> Ok t') \<and> same_revs h h' \<and> same_ids h h'" by (auto split: outcome.splits)
    then show ?thesis using stop by blast
  next
    case True
    then obtain n where n: "x = Ok n" "r1 = Ok ()" by blast
    show ?thesis
    proof (cases "committable cmd")
      case None
      obtain r2 cs2 z where rec: "commit_txn B lb D cmds h1 d1 t c1 = (r2, cs2, z)" by (metis surj_pair)
      with assms(1) seq sub k n None have "(r, h', d', c') = (r2, z)" by simp
      with rec skip seq n None k show ?thesis by auto
    next
      case (Some p)
      show ?thesis
      proof (cases "\<exists>y t1 x'. deref h1 p = Some y \<and> commit_ctx B lb n y t = Ok (t1, x')")
        case False
        with assms(1) seq sub k n Some have "(\<forall>t'. r \<noteq> Ok t') \<and> h' = h1"
          by (auto simp: nil_deref_def split: outcome.splits option.splits prod.splits)
        then show ?thesis using stop k by blast
      next
        case True
        then obtain y t1 x' where y: "deref h1 p = Some y" "commit_ctx B lb n y t = Ok (t1, x')" by blast
        obtain r2 cs2 z where rec: "commit_txn B lb D cmds (store h1 p x') d1 t1 c1 = (r2, cs2, z)" by (metis surj_pair)
        with assms(1) seq sub k n Some y have "(r, h', d', c') = (r2, z)" by simp
        with rec put seq n Some k y show ?thesis by auto
      qed
    qed
  qed
qed

text \<open>
  A context that has been written carries one of the numbers of the transaction, the others keep their
  revisions. Nothing is written when the first one is outdated, and a transaction that succeeds has
  found all of them current. \<open>l\<close> tells the revisions of before from those of the transaction.
\<close>

lemma same_revs_iff: "same_revs h h' \<longleftrightarrow> (\<forall>p. ctx_rev h' p = ctx_rev h p)"
  by (simp add: same_revs_def ctx_rev_def)

lemma current_iff: "current sts h p \<longleftrightarrow> (\<exists>i. ctx_id h p = Some i \<and> ctx_rev h p = Some (latest_rev sts i))"
  by (auto simp: current_def ctx_id_def ctx_rev_def)

lemma commit_txn_ctxs:
  assumes "commit_txn B lb D cmds h d t c = (r, cs, h', d', c')" "list_all state_cmd cmds" "ok_heap h"
    and "states_in (lib_easyproto lb) (view t) sts" "txn_ok t" "fresh low (bg_stateRevSeq d) sts" "l \<le> low (sw_seq (bg_stateRevSeq d))"
  shows "(\<forall>p. ctx_rev h' p = ctx_rev h p \<or> (\<exists>n \<in> set c'. ctx_rev h' p = Some n)) \<and> set c \<subseteq> set c'
    \<and> (same_revs h h' \<or> (\<exists>p ps n. List.map_filter committable cmds = p # ps \<and> n \<in> set c' \<and> ctx_rev h' p = Some n \<and> current sts h p))
    \<and> (\<forall>t'. r = Ok t' \<longrightarrow> (\<forall>p \<in> set (List.map_filter committable cmds). current sts h p \<or> (\<exists>n \<ge> int l. ctx_rev h p = Some n))
        \<and> (\<forall>p ps. List.map_filter committable cmds = p # ps \<longrightarrow> (\<exists>n \<in> set c'. ctx_rev h' p = Some n)))"
  using assms
proof (induction cmds arbitrary: h d t c sts r cs h' d' c')
  case Nil
  then show ?case by (simp add: map_filter_simps same_revs_def)
next
  case (Cons cmd cmds)
  have cmd: "state_cmd cmd" "list_all state_cmd cmds" using Cons.prems(2) by simp_all
  from Cons.prems(1) cmd(1) Cons.prems(3) show ?case
  proof (cases rule: commit_txn_cases)
    case stop
    have "set c \<subseteq> set c'" using commit_txn_keeps [OF Cons.prems(1-6)] by blast
    then show ?thesis using stop by (auto simp: same_revs_iff)
  next
    case (skip n sw c1 h1 cs1)
    note nx = seq_next_numbers [OF skip(1)]
    have "fresh low sw sts" "l \<le> low (sw_seq sw)" using nx(1,4) Cons.prems(6,7) by auto
    with Cons.IH [OF skip(6) cmd(2) skip(5) Cons.prems(4,5)] nx(5) [OF refl] skip(2-4) show ?thesis
      by (auto simp: map_filter_simps same_revs_iff current_iff same_ids_def)
  next
    case (put n sw c1 h1 p x t1 x' cs1)
    note nx = seq_next_numbers [OF put(1)]
    have x: "ok_state (sc_Current x)" using put(5,6) by (simp add: ok_heap_def)
    have sn: "keyed n" "0 < n" "\<forall>s \<in> set sts. s_Rev s < n" "c1 = c @ [n]" "int l \<le> n" "n < int (low (sw_seq sw))"
      using nx(5) [OF refl] Cons.prems(6,7) by (auto simp: fresh_def)
    note cc = commit_ctx_Ok [OF put(7) Cons.prems(4,5) x sn(1-3)]
    let ?s = "committed_state lb n (sc_Current x)" and ?h = "store h1 p x'"
    have s: "s_ID ?s = s_ID (sc_Current x)" "s_Rev ?s = n" by (simp_all add: committed_state_def norm_State_def)
    have h: "ok_heap ?h" "same_ids h1 ?h" "ctx_rev ?h q = (if q = p then Some n else ctx_rev h q)" for q
      using put(3,5,6) cc(5-7) by (simp_all add: ok_heap_def same_ids_def ctx_id_def ctx_rev_def same_revs_iff deref_put)
    have fr: "fresh low sw (sts @ [?s])" "l \<le> low (sw_seq sw)" using nx(1,4) Cons.prems(6,7) sn(6) s by (auto simp: fresh_def)
    note ih = Cons.IH [OF put(8) cmd(2) h(1) cc(2,3)]
    have "current sts h1 p" using put(6) cc(1) by (simp add: current_def)
    then have p: "current sts h p" using put(3,4) by (simp add: current_iff same_ids_def same_revs_iff)
    have others: "current sts h q \<or> (\<exists>m \<ge> int l. ctx_rev h q = Some m)" if "current (sts @ [?s]) ?h q \<or> (\<exists>m \<ge> int l. ctx_rev ?h q = Some m)" for q
    proof (cases "q = p")
      case False
      from that show ?thesis
      proof
        assume "current (sts @ [?s]) ?h q"
        then obtain i where i: "ctx_id ?h q = Some i" "ctx_rev h q = Some (latest_rev (sts @ [?s]) i)" using False h(3) by (auto simp: current_iff)
        moreover have "ctx_id h q = Some i" using i(1) h(2) put(4) by (simp add: same_ids_def)
        ultimately show ?thesis using s(2) sn(5) by (auto simp: current_iff latest_rev_snoc split: if_splits)
      qed (use False h(3) in auto)
    qed (use p in simp)
    from ih fr have ih': "\<forall>q. ctx_rev h' q = ctx_rev ?h q \<or> (\<exists>m \<in> set c'. ctx_rev h' q = Some m)" "set c1 \<subseteq> set c'"
      "\<forall>t'. r = Ok t' \<longrightarrow> (\<forall>q \<in> set (List.map_filter committable cmds). current (sts @ [?s]) ?h q \<or> (\<exists>m \<ge> int l. ctx_rev ?h q = Some m))"
      by auto
    have p': "\<exists>m \<in> set c'. ctx_rev h' p = Some m" using ih'(1,2) h(3) sn(4) by force
    have "\<forall>q. ctx_rev h' q = ctx_rev h q \<or> (\<exists>m \<in> set c'. ctx_rev h' q = Some m)" using ih'(1) h(3) p' by metis
    with ih'(2,3) p p' sn(4) put(2) others show ?thesis by (fastforce simp: map_filter_simps)
  qed
qed

end

context badger_conflict_laws
begin

text \<open>A revision that was never stored is never current again.\<close>

lemma commit_attempts_stale:
  assumes "list_all state_cmd cmds" "ok_heap h" "log_ok stored low (lib_easyproto lb) d sts"
    and "\<forall>f \<in> set others. adds_states stored low (lib_easyproto lb) N f" "List.map_filter committable cmds = p # ps"
    and "ctx_rev h p = Some n" "n \<notin> N" "n \<noteq> 0" "n \<notin> s_Rev ` set sts" "n < int (low (sw_seq (bg_stateRevSeq d)))"
  shows "fst (commit_attempts k B lb D others cmds h d) \<noteq> Ok ()"
  using assms
proof (induction k arbitrary: others h d sts rule: less_induct)
  case (less k)
  obtain r0 cs0 h1 d1 c where txn: "commit_txn B lb D cmds h d (bd_NewTransaction B (bg_db d)) [] = (r0, cs0, h1, d1, c)" by (metis surj_pair)
  let ?d2 = "case others of [] \<Rightarrow> d1 | f # _ \<Rightarrow> f d1" and ?E = "lib_easyproto lb"
  have st: "states_in ?E (view (bd_NewTransaction B (bg_db d))) sts" "fresh low (bg_stateRevSeq d) sts"
    using less.prems(3) by (simp_all add: log_ok_def NewTransaction)
  have no: "\<not> current sts h p"
  proof
    assume "current sts h p"
    then obtain i where "latest_rev sts i = n" using less.prems(6) by (auto simp: current_iff)
    with latest_rev_mem [of sts i] less.prems(8,9) show False by force
  qed
  with commit_txn_ctxs [OF txn less.prems(1,2) st(1) txn_ok_new st(2) order_refl] less.prems(5,6,10)
  have k: "same_revs h h1" "\<forall>t'. r0 \<noteq> Ok t'" by auto
  obtain u db where up: "db_Update B r0 (bg_db ?d2) = (u, db)" by fastforce
  with k(2) have u: "u \<noteq> Ok ()" "db = bg_db ?d2" by (auto simp: db_Update_def split: outcome.splits)
  show ?case
  proof (cases "\<exists>err. u = Err err \<and> Is_ErrConflict err \<and> k > 0")
    case False
    then show ?thesis using txn up u(1) by (auto simp: commit_attempts.simps Let_def split: outcome.splits)
  next
    case True
    from others_step [OF txn less.prems(1-4)] obtain sts' where o: "log_ok stored low ?E ?d2 sts'"
      "\<forall>s \<in> set sts' - set sts. s_Rev s \<in> N" "low (sw_seq (bg_stateRevSeq d1)) \<le> low (sw_seq (bg_stateRevSeq ?d2))" by blast
    let ?d = "commit_revs c (?d2\<lparr>bg_db := db\<rparr>)"
    have keeps: "cs0 = cmds" "ok_heap h1" "low (sw_seq (bg_stateRevSeq d)) \<le> low (sw_seq (bg_stateRevSeq d1))"
      using commit_txn_keeps [OF txn less.prems(1,2) st(1) txn_ok_new st(2)] commit_txn_seq [OF txn less.prems(1)] by auto
    have "n < int (low (sw_seq (bg_stateRevSeq ?d)))" using less.prems(10) keeps(3) o(3) by (simp add: commit_revs_same)
    moreover have "ctx_rev h1 p = Some n" using k(1) less.prems(6) by (simp add: same_revs_iff)
    moreover have "n \<notin> s_Rev ` set sts'" using o(2) less.prems(7,9) by (auto simp: image_iff)
    moreover have "log_ok stored low ?E ?d sts'" using o(1) u(2) by (simp add: log_ok_def fresh_def commit_revs_same)
    moreover have "\<forall>f \<in> set (tl others). adds_states stored low ?E N f" using less.prems(4) by (cases others) simp_all
    ultimately have "fst (commit_attempts (k - 1) B lb D (tl others) cmds h1 ?d) \<noteq> Ok ()"
      using less.IH [of "k - 1" h1 ?d sts' "tl others"] less.prems(1,5,7,8) keeps(2) True by auto
    moreover have "commit_attempts k B lb D others cmds h d = commit_attempts (k - 1) B lb D (tl others) cmds h1 ?d"
      using txn up True keeps(1) by (auto simp: commit_attempts.simps [of k] Let_def)
    ultimately show ?thesis by simp
  qed
qed

text \<open>Whoever commits in between, a commit that succeeds has found its contexts current.\<close>

lemma commit_attempts_current:
  assumes "commit_attempts k B lb D others cmds h d = (Ok (), cs, h', d')" "list_all state_cmd cmds" "ok_heap h"
    and "log_ok stored low (lib_easyproto lb) d sts" "\<forall>f \<in> set others. adds_states stored low (lib_easyproto lb) N f"
    and "N \<inter> set (commit_numbers k B lb D others cmds h d) = {}"
    and "\<forall>p \<in> set (List.map_filter committable cmds). \<forall>n. ctx_rev h p = Some n \<longrightarrow> n < int (low (sw_seq (bg_stateRevSeq d)))"
  shows "\<exists>sts' new. log_ok stored low (lib_easyproto lb) d' (fold add_state_at new sts')
    \<and> set sts \<subseteq> set sts' \<and> (\<forall>s \<in> set sts' - set sts. s_Rev s \<in> N) \<and> map (\<lambda>s. Some (s_ID s)) new = ids_of h cmds
    \<and> (\<forall>s \<in> set new. latest_rev sts' (s_ID s) < s_Rev s \<and> s_Rev s \<notin> s_Rev ` set sts')
    \<and> (\<forall>p \<in> set (List.map_filter committable cmds). current sts' h p)"
  using assms
proof (induction k arbitrary: others h d sts rule: less_induct)
  case (less k)
  obtain r0 cs0 h1 d1 c where txn: "commit_txn B lb D cmds h d (bd_NewTransaction B (bg_db d)) [] = (r0, cs0, h1, d1, c)" by (metis surj_pair)
  let ?d2 = "case others of [] \<Rightarrow> d1 | f # _ \<Rightarrow> f d1" and ?E = "lib_easyproto lb" and ?ps = "List.map_filter committable cmds"
  have st: "states_in ?E (view (bd_NewTransaction B (bg_db d))) sts" "fresh low (bg_stateRevSeq d) sts"
    using less.prems(4) by (simp_all add: log_ok_def NewTransaction)
  note keeps = commit_txn_keeps [OF txn less.prems(2,3) st(1) txn_ok_new st(2)] and seq = commit_txn_seq [OF txn less.prems(2)]
    and ctxs = commit_txn_ctxs [OF txn less.prems(2,3) st(1) txn_ok_new st(2) order_refl]
  obtain u db where up: "db_Update B r0 (bg_db ?d2) = (u, db)" by fastforce
  from others_step [OF txn less.prems(2-5)] obtain sts' where o: "log_ok stored low ?E ?d2 sts'" "set sts \<subseteq> set sts'"
    "\<forall>s \<in> set sts' - set sts. s_Rev s \<in> N" "low (sw_seq (bg_stateRevSeq d1)) \<le> low (sw_seq (bg_stateRevSeq ?d2))" by blast
  let ?d = "commit_revs c (?d2\<lparr>bg_db := db\<rparr>)"
  have nc: "N \<inter> set c = {}" using less.prems(6) txn by (subst (asm) commit_numbers.simps) (auto simp: Let_def)
  note one = attempt_with_others [OF txn up less.prems(2-4) o nc]
  show ?case
  proof (cases "u = Ok ()")
    case True
    with one obtain new where new: "log_ok stored low ?E ?d (fold add_state_at new sts')" "map (\<lambda>s. Some (s_ID s)) new = ids_of h cmds"
      "\<forall>s \<in> set new. latest_rev sts' (s_ID s) < s_Rev s \<and> s_Rev s \<notin> s_Rev ` set sts'"
      "\<forall>s \<in> set new. latest_rev sts (s_ID s) = latest_rev sts' (s_ID s)" by auto
    have "d' = ?d" using less.prems(1) txn up True by (auto simp: commit_attempts.simps [of k] Let_def)
    moreover have "current sts' h p" if p: "p \<in> set ?ps" for p
    proof -
      obtain t' where "r0 = Ok t'" using up True by (auto simp: db_Update_def split: outcome.splits)
      with ctxs p less.prems(7) have "current sts h p" by fastforce
      then obtain i where i: "ctx_id h p = Some i" "ctx_rev h p = Some (latest_rev sts i)" by (auto simp: current_iff)
      have "Some i \<in> set (ids_of h cmds)" using p i(1) by (force simp: ids_of_def)
      then obtain s where "s \<in> set new" "s_ID s = i" unfolding new(2) [symmetric] by auto
      with new(4) i show ?thesis by (auto simp: current_iff)
    qed
    ultimately show ?thesis using new(1-3) o(2,3) by blast
  next
    case False
    then have db: "db = bg_db ?d2" using up by (auto simp: db_Update_def split: outcome.splits option.splits)
    then have again: "log_ok stored low ?E ?d sts'" using o(1) by (simp add: log_ok_def fresh_def commit_revs_same)
    have h1: "cs0 = cmds" "ok_heap h1" "same_ids h h1" using keeps by simp_all
    have rec: "k \<noteq> 0" "commit_attempts (k - 1) B lb D (tl others) cmds h1 ?d = (Ok (), cs, h', d')"
      using less.prems(1) txn up False h1(1) by (auto simp: commit_attempts.simps [of k] Let_def split: outcome.splits if_splits)
    have low: "low (sw_seq (bg_stateRevSeq d)) \<le> low (sw_seq (bg_stateRevSeq ?d))" using seq o(4) by (simp add: commit_revs_same)
    have os: "\<forall>f \<in> set (tl others). adds_states stored low ?E N f" using less.prems(5) by (cases others) simp_all
    have "same_revs h h1"
    proof (rule ccontr)
      assume "\<not> same_revs h h1"
      with ctxs obtain p ps n where p: "?ps = p # ps" "n \<in> set c" "ctx_rev h1 p = Some n" by auto
      have n: "int (low (sw_seq (bg_stateRevSeq d))) \<le> n" "n < int (low (sw_seq (bg_stateRevSeq d1)))" using seq p(2) by auto
      have "n \<notin> N" using nc p(2) by blast
      moreover have "n \<noteq> 0" using n(1) st(2) by (simp add: fresh_def)
      moreover have "n \<notin> s_Rev ` set sts'"
      proof
        assume "n \<in> s_Rev ` set sts'"
        then obtain s where s: "s \<in> set sts'" "s_Rev s = n" by blast
        with \<open>n \<notin> N\<close> o(3) have "s \<in> set sts" by (metis DiffI)
        with st(2) n(1) s(2) show False by (auto simp: fresh_def)
      qed
      moreover have "n < int (low (sw_seq (bg_stateRevSeq ?d)))" using n(2) o(4) by (simp add: commit_revs_same)
      ultimately have "fst (commit_attempts (k - 1) B lb D (tl others) cmds h1 ?d) \<noteq> Ok ()"
        by (rule commit_attempts_stale [OF less.prems(2) h1(2) again os p(1,3)])
      with rec(2) show False by simp
    qed
    then have cur: "current ss h1 p = current ss h p" "ctx_rev h1 p = ctx_rev h p" "ids_of h1 cmds = ids_of h cmds" for ss p
      using h1(3) by (simp_all add: current_iff same_revs_iff same_ids_def ids_of_def)
    have revs: "\<forall>p \<in> set ?ps. \<forall>n. ctx_rev h1 p = Some n \<longrightarrow> n < int (low (sw_seq (bg_stateRevSeq ?d)))"
      using less.prems(7) low unfolding cur(2) by fastforce
    have apart: "N \<inter> set (commit_numbers (k - 1) B lb D (tl others) cmds h1 ?d) = {}"
      using less.prems(1,6) txn up False h1(1) rec(1)
      by (subst (asm) commit_numbers.simps) (auto simp: commit_attempts.simps [of k] Let_def split: outcome.splits if_splits)
    have "k - 1 < k" using rec(1) by simp
    from less.IH [OF this rec(2) less.prems(2) h1(2) again os apart revs] obtain sts2 new where
      n2: "log_ok stored low ?E d' (fold add_state_at new sts2)" "set sts' \<subseteq> set sts2" "\<forall>s \<in> set sts2 - set sts'. s_Rev s \<in> N"
      "map (\<lambda>s. Some (s_ID s)) new = ids_of h cmds" "\<forall>s \<in> set new. latest_rev sts2 (s_ID s) < s_Rev s \<and> s_Rev s \<notin> s_Rev ` set sts2"
      "\<forall>p \<in> set ?ps. current sts2 h p" unfolding cur by blast
    moreover have "set sts \<subseteq> set sts2" "\<forall>s \<in> set sts2 - set sts. s_Rev s \<in> N" using n2(2,3) o(2,3) by blast+
    ultimately show ?thesis by blast
  qed
qed

end

section \<open>Stale contexts\<close>

context badger_laws
begin

lemma Transit_Do_next:
  assumes "tr_To t \<noteq> []" "deref h (tr_StateCtx t) = Some x"
  shows "\<exists>ts. Transit_Do t h = (Ok (), store h (tr_StateCtx t) (set_Transition (append_Transition x (s_Transition (sc_Current x))) ts))
    \<and> ts_To ts = tr_To t"
  using assms by (auto simp: Transit_Do_def with_ctx_def Let_def nextTransitionOrCurrent_def)

lemma commit_txn_stale:
  assumes "states_in (lib_easyproto lb) (view t0) sts" "tr_To t \<noteq> []" "deref h (tr_StateCtx t) = Some x" "s_ID (sc_Current x) \<noteq> []"
    and "s_Rev (sc_Committed x) \<noteq> latest_rev sts (s_ID (sc_Current x))"
    and "bd_SeqNext B (sw_seq (bg_stateRevSeq d)) = (Ok n, q)" "int n < MaxInt64"
  shows "\<exists>h' d' c'. commit_txn B lb D (TransitCmd t # cmds) h d t0 c
      = (Err (ErrRevMismatch [s_ID (sc_Current x)]), TransitCmd t # cmds, h', d', c')
    \<and> bg_db d' = bg_db d \<and> (\<exists>x'. deref h' (tr_StateCtx t) = Some x' \<and> s_Rev (sc_Committed x') = s_Rev (sc_Committed x))"
proof -
  from Transit_Do_next [OF assms(2,3)] obtain ts where ts:
    "Transit_Do t h = (Ok (), store h (tr_StateCtx t) (set_Transition (append_Transition x (s_Transition (sc_Current x))) ts))" by blast
  let ?x = "set_Transition (append_Transition x (s_Transition (sc_Current x))) ts"
  have "commit_ctx B lb (int n) ?x t0 = Err (ErrRevMismatch [s_ID (sc_Current x)])"
    using commit_ctx_stale [OF assms(1), of ?x "int n"] assms(4,5) by simp
  with ts assms(3,6,7) show ?thesis by (simp add: seq_next_def seq_register_def deref_put not_le)
qed

lemma Commit_stale:
  assumes "states_in (lib_easyproto lb) (stored (bg_db d)) sts" "tr_To t \<noteq> []" "deref h (tr_StateCtx t) = Some x" "s_ID (sc_Current x) \<noteq> []"
    and "s_Rev (sc_Committed x) \<noteq> latest_rev sts (s_ID (sc_Current x))"
    and "bd_SeqNext B (sw_seq (bg_stateRevSeq d)) = (Ok n, q)" "int n < MaxInt64"
  shows "\<exists>h' d'. commit_attempts k B lb D [] (TransitCmd t # cmds) h d
      = (Err (ErrRevMismatch [s_ID (sc_Current x)]), TransitCmd t # cmds, h', d')
    \<and> bg_db d' = bg_db d \<and> (\<exists>x'. deref h' (tr_StateCtx t) = Some x' \<and> s_Rev (sc_Committed x') = s_Rev (sc_Committed x))"
proof -
  have "states_in (lib_easyproto lb) (view (bd_NewTransaction B (bg_db d))) sts" using assms(1) by (simp add: NewTransaction)
  from commit_txn_stale [OF this assms(2-7), of D cmds "[]"] obtain h' d' c' where
    "commit_txn B lb D (TransitCmd t # cmds) h d (bd_NewTransaction B (bg_db d)) []
      = (Err (ErrRevMismatch [s_ID (sc_Current x)]), TransitCmd t # cmds, h', d', c')"
    "bg_db d' = bg_db d" "\<exists>x'. deref h' (tr_StateCtx t) = Some x' \<and> s_Rev (sc_Committed x') = s_Rev (sc_Committed x)" by blast
  then show ?thesis by (subst commit_attempts.simps) (simp add: db_Update_def commit_revs_def ErrConflict_def Let_def)
qed

lemma latest_rev_append:
  assumes "states_in E vw (sts @ new)" "i \<in> s_ID ` set new"
  shows "latest_rev sts i < latest_rev (sts @ new) i"
proof -
  have "i \<in> s_ID ` set new \<Longrightarrow> \<exists>s \<in> set new. latest_rev (sts @ new) i = s_Rev s"
    by (induction new rule: rev_induct) (auto simp: latest_rev_snoc append_assoc [symmetric] simp del: append_assoc)
  with assms(2) obtain s where s: "s \<in> set new" "latest_rev (sts @ new) i = s_Rev s" by blast
  with assms(1) have "0 < s_Rev s" "\<forall>s' \<in> set sts. s_Rev s' < s_Rev s"
    by (auto simp: states_in_def list_all_iff storable_def sorted_wrt_append)
  with s(2) latest_rev_mem [of sts i] show ?thesis by (cases "latest_rev sts i = 0") auto
qed

text \<open>A second attempt meets the revision that the first one has left in the context.\<close>

lemma Commit_conflict:
  assumes "badger_ok stored low (lib_easyproto lb) d sts" "state_cmd (TransitCmd t)" "ok_heap h"
    and "tr_To t \<noteq> []" "deref h (tr_StateCtx t) = Some x" "s_ID (sc_Current x) \<noteq> []"
    and "commit_txn B lb D [TransitCmd t] h d (bd_NewTransaction B (bg_db d)) [] = (Ok t1, cs1, h1, d1, c1)"
    and "bd_Commit B t1 (bg_db (f d1)) = None"
    and "states_in (lib_easyproto lb) (stored (bg_db (f d1))) sts'" "\<forall>s \<in> set sts'. s_Rev s \<notin> set c1"
    and "bd_SeqNext B (sw_seq (bg_stateRevSeq (f d1))) = (Ok m, q)" "int m < MaxInt64"
  shows "\<exists>h' d' x'. bg_Commit B lb D [f] [TransitCmd t] h d = (Err (ErrRevMismatch [s_ID (sc_Current x)]), [TransitCmd t], h', d')
    \<and> bg_db d' = bg_db (f d1) \<and> deref h' (tr_StateCtx t) = Some x' \<and> s_Rev (sc_Committed x') \<in> set c1"
proof -
  let ?p = "tr_StateCtx t" and ?i = "s_ID (sc_Current x)"
  have st: "states_in (lib_easyproto lb) (view (bd_NewTransaction B (bg_db d))) sts" "fresh low (bg_stateRevSeq d) sts"
    using badger_ok_log [OF assms(1)] by (simp_all add: log_ok_def NewTransaction)
  obtain y sw c where seq: "seq_next B (bg_stateRevSeq d) [] = (y, sw, c)" by (metis surj_pair)
  from Transit_Do_next [OF assms(4,5)] obtain ts where ts:
    "Transit_Do t h = (Ok (), store h ?p (set_Transition (append_Transition x (s_Transition (sc_Current x))) ts))" by blast
  let ?x = "set_Transition (append_Transition x (s_Transition (sc_Current x))) ts"
  have keeps: "ok_heap (store h ?p ?x)"
    using state_cmd_keeps [OF assms(2,3), of lb D d] ts by simp
  from assms(7) seq ts assms(5) obtain n x' where n: "y = Ok n" "c1 = c" "commit_ctx B lb n ?x (bd_NewTransaction B (bg_db d)) = Ok (t1, x')"
    "h1 = store (store h ?p ?x) ?p x'" "d1 = d\<lparr>bg_stateRevSeq := sw\<rparr>" "cs1 = [TransitCmd t]"
    by (auto simp: deref_put split: outcome.splits prod.splits)
  have sn: "keyed n" "0 < n" "\<forall>s \<in> set sts. s_Rev s < n" using seq_next_numbers(5) [OF seq n(1)] st(2) by (auto simp: fresh_def)
  have c: "c = [n]" using seq n(1) by (auto simp: seq_next_def split: prod.splits outcome.splits if_splits)
  have "deref (store h ?p ?x) ?p = Some ?x" using assms(5) by (simp add: deref_put)
  with keeps have "ok_state (sc_Current ?x)" unfolding ok_heap_def by blast
  note cc = commit_ctx_Ok [OF n(3) st(1) txn_ok_new this sn]
  have x': "deref h1 ?p = Some x'" "s_ID (sc_Current x') = ?i" "s_Rev (sc_Committed x') = n"
    using n(4) cc(6,7) assms(5) by (simp_all add: deref_put)
  let ?d = "commit_revs c1 (f d1)"
  have "n \<noteq> latest_rev sts' ?i"
    using assms(10) latest_rev_mem [of sts' ?i] sn(2) n(2) c by (cases "latest_rev sts' ?i = 0") auto
  then obtain h' d' where second: "commit_attempts 0 B lb D [] [TransitCmd t] h1 ?d = (Err (ErrRevMismatch [?i]), [TransitCmd t], h', d')"
    "bg_db d' = bg_db (f d1)" "\<exists>x''. deref h' ?p = Some x'' \<and> s_Rev (sc_Committed x'') = n"
    using Commit_stale [of lb ?d sts' t h1 x' m q 0 D "[]"] assms(4,6,9,11,12) x' by (auto simp: commit_revs_same)
  have "bg_Commit B lb D [f] [TransitCmd t] h d = commit_attempts 0 B lb D [] [TransitCmd t] h1 ?d"
    unfolding bg_Commit_def
    by (subst commit_attempts.simps) (use assms(7,8) n(6) in \<open>simp add: db_Update_def ErrConflict_def Let_def\<close>)
  with second n(2) c show ?thesis by auto
qed

text \<open>The store determines the states.\<close>

lemma states_in_unique:
  assumes "easyproto_laws E" "states_in E (view t) a" "states_in E (view t) b"
  shows "a = b"
proof -
  let ?k = "\<lambda>s. (s_Rev s, s_ID s)"
  have ix: "index (view t) revIndexPrefix (map ?k a)" "index (view t) revIndexPrefix (map ?k b)" using assms(2,3) by (simp_all add: states_in_def)
  then have "map (entry_of revIndexPrefix) (map ?k a) = map (entry_of revIndexPrefix) (map ?k b)" by (simp add: index_def)
  moreover have "inj_on (entry_of revIndexPrefix) (set (map ?k a) \<union> set (map ?k b))"
  proof -
    have "\<forall>s \<in> set a \<union> set b. keyed (s_Rev s)" using assms(2,3) by (auto simp: states_in_def list_all_iff storable_def)
    then show ?thesis by (auto simp: inj_on_def entry_of_def)
  qed
  ultimately have k: "map ?k a = map ?k b" by (simp only: inj_on_map_eq_map)
  then have len: "length a = length b" by (metis length_map)
  show ?thesis
  proof (rule nth_equalityI [OF len])
    fix i
    assume i: "i < length a"
    from nth_map [OF i, of ?k] nth_map [of i b ?k] k len i have e: "s_Rev (a ! i) = s_Rev (b ! i)" "s_ID (a ! i) = s_ID (b ! i)" by simp_all
    have "Ok (Some (a ! i)) = getState B E t (s_ID (b ! i)) (s_Rev (b ! i))"
      unfolding e [symmetric] by (rule getState_spec [OF assms(1,2) nth_mem [OF i], symmetric])
    also have "\<dots> = Ok (Some (b ! i))"
      by (rule getState_spec [OF assms(1,3) nth_mem]) (use i len in simp)
    finally show "a ! i = b ! i" by simp
  qed
qed

text \<open>The commit of one current context.\<close>

lemma txn_transit:
  assumes "badger_ok stored low (lib_easyproto lb) d sts" "state_cmd (TransitCmd t)" "ok_heap h"
    and "tr_To t \<noteq> []" "deref h (tr_StateCtx t) = Some x" "s_ID (sc_Current x) \<noteq> []"
    and "s_Rev (sc_Committed x) = latest_rev sts (s_ID (sc_Current x))"
    and "\<And>t k v. \<exists>t'. bd_Set B t k v = Ok t'" "bd_SeqNext B (sw_seq (bg_stateRevSeq d)) = (Ok n, q)" "int n < MaxInt64"
  shows "\<exists>t1 h1 d1 s. commit_txn B lb D [TransitCmd t] h d (bd_NewTransaction B (bg_db d)) [] = (Ok t1, [TransitCmd t], h1, d1, [int n])
    \<and> bg_db d1 = bg_db d \<and> sw_seq (bg_stateRevSeq d1) = q \<and> start t1 = bg_db d \<and> txn_ok t1
    \<and> states_in (lib_easyproto lb) (view t1) (sts @ [s]) \<and> s_ID s = s_ID (sc_Current x) \<and> s_Rev s = int n
    \<and> ts_To (s_Transition s) = tr_To t \<and> s_Labels s = norm_map (s_Labels (sc_Current x))"
proof -
  let ?p = "tr_StateCtx t" and ?t = "bd_NewTransaction B (bg_db d)"
  have st: "states_in (lib_easyproto lb) (view ?t) sts" "fresh low (bg_stateRevSeq d) sts"
    using badger_ok_log [OF assms(1)] by (simp_all add: log_ok_def NewTransaction)
  from Transit_Do_next [OF assms(4,5)] obtain ts where ts: "ts_To ts = tr_To t"
    "Transit_Do t h = (Ok (), store h ?p (set_Transition (append_Transition x (s_Transition (sc_Current x))) ts))" by blast
  let ?x = "set_Transition (append_Transition x (s_Transition (sc_Current x))) ts" and ?h = "store h ?p (set_Transition (append_Transition x (s_Transition (sc_Current x))) ts)"
  have dx: "deref ?h ?p = Some ?x" using assms(5) by (simp add: deref_put)
  have "ok_heap ?h" using state_cmd_keeps [OF assms(2,3), of lb D d] ts(2) by simp
  with dx have x: "ok_state (sc_Current ?x)" unfolding ok_heap_def by blast
  let ?sw = "seq_register (int n) ((bg_stateRevSeq d)\<lparr>sw_seq := q\<rparr>)" and ?s = "committed_state lb (int n) (sc_Current ?x)"
  have seq: "seq_next B (bg_stateRevSeq d) [] = (Ok (int n), ?sw, [int n])" using assms(9,10) by (simp add: seq_next_def not_le)
  have sn: "keyed (int n)" "0 < int n" "\<forall>s \<in> set sts. s_Rev s < int n" using seq_next_numbers(5) [OF seq refl] st(2) by (auto simp: fresh_def)
  have s0: "(State_CopyTo (sc_Current ?x) State0)\<lparr>s_Rev := int n, s_CommittedAt := time_UnixMilli (UnixMilli (lib_Now lb (int n)))\<rparr> = ?s"
    by (simp add: State_CopyTo_fresh [OF wf_ok_state [OF x]] committed_state_def)
  obtain t1 where put: "put_state B (lib_easyproto lb) (bd_Read B ?t (latestRevKey (s_ID (sc_Current ?x)))) ?s = Ok t1" using put_state_total [OF assms(8)] by blast
  then have ctx: "commit_ctx B lb (int n) ?x ?t = Ok (t1, reset_Transitions (CopyToCtx ?s ?x))"
    using assms(6,7) s0 by (simp add: commit_ctx_def Let_def getLatestRevIndex_spec [OF st(1)])
  note cc = commit_ctx_Ok [OF ctx st(1) txn_ok_new x sn]
  have "commit_txn B lb D [TransitCmd t] h d ?t [] = (Ok t1, [TransitCmd t],
      store ?h ?p (reset_Transitions (CopyToCtx ?s ?x)), d\<lparr>bg_stateRevSeq := ?sw\<rparr>, [int n])"
    using seq ts(2) dx ctx by simp
  with cc(2-4) ts(1) show ?thesis
    by (intro exI [of _ t1] exI [of _ "store ?h ?p (reset_Transitions (CopyToCtx ?s ?x))"] exI [of _ "d\<lparr>bg_stateRevSeq := ?sw\<rparr>"] exI [of _ ?s])
      (simp add: committed_state_def norm_State_def norm_Transition_def NewTransaction seq_register_def, simp add: set_Transition_def)
qed

lemma Commit_transit:
  assumes "easyproto_laws (lib_easyproto lb)" "badger_ok stored low (lib_easyproto lb) d sts" "state_cmd (TransitCmd t)" "ok_heap h"
    and "tr_To t \<noteq> []" "deref h (tr_StateCtx t) = Some x" "s_ID (sc_Current x) \<noteq> []"
    and "s_Rev (sc_Committed x) = latest_rev sts (s_ID (sc_Current x))"
    and "\<And>t k v. \<exists>t'. bd_Set B t k v = Ok t'" "bd_SeqNext B (sw_seq (bg_stateRevSeq d)) = (Ok n, q)" "int n < MaxInt64"
  shows "\<exists>h' d' s. bg_Commit B lb D [] [TransitCmd t] h d = (Ok (), [TransitCmd t], h', d')
    \<and> badger_ok stored low (lib_easyproto lb) d' (sts @ [s]) \<and> s_ID s = s_ID (sc_Current x) \<and> s_Rev s = int n
    \<and> ts_To (s_Transition s) = tr_To t \<and> s_Labels s = norm_map (s_Labels (sc_Current x)) \<and> sw_seq (bg_stateRevSeq d') = q"
proof -
  let ?t = "bd_NewTransaction B (bg_db d)"
  from txn_transit [OF assms(2-11)] obtain t1 h1 d1 s where
    txn: "commit_txn B lb D [TransitCmd t] h d ?t [] = (Ok t1, [TransitCmd t], h1, d1, [int n])"
    and d1: "bg_db d1 = bg_db d" "sw_seq (bg_stateRevSeq d1) = q" "start t1 = bg_db d" "txn_ok t1"
    and s: "states_in (lib_easyproto lb) (view t1) (sts @ [s])" "s_ID s = s_ID (sc_Current x)" "s_Rev s = int n"
      "ts_To (s_Transition s) = tr_To t" "s_Labels s = norm_map (s_Labels (sc_Current x))" by blast
  obtain u db where up: "db_Update B (Ok t1) (bg_db d1) = (u, db)" by fastforce
  then have com: "u = Ok ()" "bd_Commit B t1 (start t1) = Some db"
    using d1(1,3) Commit_unchanged [of t1] by (auto simp: db_Update_def split: option.splits)
  let ?d = "commit_revs [int n] (d1\<lparr>bg_db := db\<rparr>)"
  from one_attempt(4) [OF txn up _ assms(4,2)] assms(3) com(1) obtain new where
    new: "badger_ok stored low (lib_easyproto lb) ?d (sts @ new)" by auto
  then have "states_in (lib_easyproto lb) (view t1) (sts @ new)"
    using Commit_stored [OF d1(4) com(2)] by (simp add: badger_ok_def readable_def commit_revs_def)
  from states_in_unique [OF assms(1) this s(1)] have "new = [s]" by simp
  moreover have "bg_Commit B lb D [] [TransitCmd t] h d = (Ok (), [TransitCmd t], h1, ?d)"
    unfolding bg_Commit_def by (subst commit_attempts.simps) (use txn up com(1) in \<open>simp add: Let_def\<close>)
  moreover have "sw_seq (bg_stateRevSeq ?d) = q" using d1(2) by (simp add: commit_revs_def seq_commit_def Let_def)
  ultimately show ?thesis using new s by (intro exI [of _ h1] exI [of _ ?d] exI [of _ s]) simp
qed

end

section \<open>Properties\<close>

definition no_data :: "'a \<Rightarrow> heap \<Rightarrow> 'd \<Rightarrow> unit outcome \<times> heap \<times> 'd" where
  "no_data cmd h d = (Err (Errorf ''no data''), h, d)"

definition tree_ops :: "((string, string) RBT.rbt, nat) badgerdriver CommitDriver" where
  "tree_ops = badger_ops tree_badger wire_libs no_data no_data"

lemma tree_driver_ok:
  assumes "sorted_wrt (\<lambda>s s'. s_Rev s < s_Rev s') sts" "list_all storable sts" "\<forall>s \<in> set sts. s_Rev s \<le> 99"
  shows "badger_ok RBT.entries (\<lambda>n. n) wire (tree_driver sts) sts"
  using tree_driver_readable [OF assms] assms(3) by (simp add: badger_ok_def seq_inv_def tree_driver_def)

definition demo_ctx :: "string \<Rightarrow> int \<Rightarrow> StateCtx" where
  "demo_ctx i r = StateCtx0\<lparr>sc_Current := demo_state i r [], sc_Committed := demo_state i r []\<rparr>"

definition demo_transits :: "Command list" where
  "demo_transits = [TransitCmd (Transit (Some 0) ''f''), NoopCmd, ParkCmd \<lparr>pk_StateCtx = Some 1, pk_Annotations = None\<rparr>]"

definition demo_heap :: heap where
  "demo_heap = [0 \<mapsto> demo_ctx ''a'' 3, 1 \<mapsto> demo_ctx ''b'' 2]"

lemma demo_heap_ok: "ok_heap demo_heap"
proof -
  have "ok_state (sc_Current (demo_ctx ''a'' 3))" "ok_state (sc_Current (demo_ctx ''b'' 2))" by code_simp+
  then show ?thesis by (auto simp: ok_heap_def demo_heap_def deref_def split: option.splits if_splits)
qed

lemmas demo_ok = tree_driver_ok [OF demo_states_ok]

definition demo_transit :: TransitCommand where
  "demo_transit = Transit (Some 0) ''f''"

lemma demo_simps:
  "tr_To demo_transit \<noteq> []" "tr_StateCtx demo_transit = Some 0" "deref demo_heap (Some 0) = Some (demo_ctx ''a'' 3)"
  "s_ID (sc_Current (demo_ctx ''a'' 3)) = ''a''" "s_Rev (sc_Committed (demo_ctx ''a'' 3)) = 3" "lib_easyproto wire_libs = wire"
  "state_cmd (TransitCmd demo_transit)" "latest_rev demo_states ''a'' = 3"
  "bd_SeqNext tree_badger (sw_seq (bg_stateRevSeq (tree_driver demo_states))) = (Ok 100, 101)"
  by (simp_all add: demo_transit_def Transit_def deref_def demo_heap_def demo_ctx_def demo_state_def wire_libs_def named_def tree_driver_def)
    code_simp

lemma tree_Set_total: "\<exists>t'. bd_Set tree_badger t k v = Ok t'"
  by simp

text \<open>
  C3: a commit of transits and parks is atomic, whatever other goroutines commit while its
  transactions run. Those others (\<open>others\<close>, one entry per attempt) may add any states to the store, under
  any numbers (\<open>N\<close>) but those that this commit takes, and take numbers of the sequence. When the
  commit succeeds, after however many conflicts, the store holds what the others have added
  (\<open>sts'\<close>) and one more state per context it names, in the order of the commands, each under a
  revision that is later than the latest of its id and that no other state has; after an error or a
  panic it holds what the others have added and nothing else. What the store holds is every state
  under its key, the latest revision of every id, and exactly the entries of the states in the
  indexes of revisions, of labels and of commit times. Labels are those that the index tells apart
  (\<open>ok_heap\<close>: no colon in a key, no dot in a value), and the states can be read back.
\<close>

theorem badger_Commit_atomic:
  assumes "badger_conflict_laws B view stored writes start low reads" "log_ok stored low (lib_easyproto lb) d sts"
    and "list_all state_cmd cmds" "ok_heap h" "\<forall>f \<in> set others. adds_states stored low (lib_easyproto lb) N f"
    and "N \<inter> set (commit_numbers (length cmds) B lb D others cmds h d) = {}" "bg_Commit B lb D others cmds h d = (r, cs, h', d')"
  shows "\<exists>sts' new. log_ok stored low (lib_easyproto lb) d' (fold add_state_at new sts')
    \<and> set sts \<subseteq> set sts' \<and> (\<forall>s \<in> set sts' - set sts. s_Rev s \<in> N)
    \<and> (if r = Ok () then map (\<lambda>s. Some (s_ID s)) new = ids_of h cmds
        \<and> (\<forall>s \<in> set new. latest_rev sts' (s_ID s) < s_Rev s \<and> s_Rev s \<notin> s_Rev ` set sts') else new = [])"
  by (rule badger_conflict_laws.commit_attempts_others [OF assms(1) assms(7) [unfolded bg_Commit_def] assms(3,4,2,5,6)])

text \<open>Another goroutine that adds a state to the demo store, under a number of the sequence.\<close>

definition other_commit :: "State \<Rightarrow> ((string, string) RBT.rbt, nat) badgerdriver \<Rightarrow> ((string, string) RBT.rbt, nat) badgerdriver" where
  "other_commit s d = (if RBT.entries (bg_db d) = RBT.entries (tt_view (put_all demo_states)) \<and> 100 \<le> sw_seq (bg_stateRevSeq d)
    then d\<lparr>bg_db := tt_view (put_all (demo_states @ [s])),
      bg_stateRevSeq := (bg_stateRevSeq d)\<lparr>sw_seq := max (sw_seq (bg_stateRevSeq d)) (Suc (nat (s_Rev s)))\<rparr>\<rparr> else d)"

lemma other_commit_adds:
  assumes "storable s" "3 < s_Rev s"
  shows "adds_states RBT.entries (\<lambda>n. n) wire {s_Rev s} (other_commit s)"
proof -
  have step: "\<exists>sts'. log_ok RBT.entries (\<lambda>n. n) wire (other_commit s d) sts' \<and> set sts \<subseteq> set sts' \<and> (\<forall>s' \<in> set sts' - set sts. s_Rev s' \<in> {s_Rev s})"
    if l: "log_ok RBT.entries (\<lambda>n. n) wire d sts" for d sts
  proof (cases "RBT.entries (bg_db d) = RBT.entries (tt_view (put_all demo_states)) \<and> 100 \<le> sw_seq (bg_stateRevSeq d)")
    case True
    have st: "states_in wire (RBT.entries (tt_view (put_all demo_states))) sts" using l True by (simp add: log_ok_def)
    have sts: "sts = demo_states"
      by (rule tree.states_in_unique [OF pbwire.easyproto_laws_axioms st put_all_states_in [OF demo_states_ok(1,2)]])
    have "\<forall>s' \<in> set demo_states. s_Rev s' \<le> 3" by code_simp
    then have "sorted_wrt (\<lambda>s s'. s_Rev s < s_Rev s') (demo_states @ [s])" "list_all storable (demo_states @ [s])"
      using demo_states_ok(1,2) assms(1,2) by (auto simp: sorted_wrt_append)
    from put_all_states_in [OF this] have "log_ok RBT.entries (\<lambda>n. n) wire (other_commit s d) (demo_states @ [s])"
      using l True by (auto simp: other_commit_def log_ok_def fresh_def sts)
    then show ?thesis unfolding sts by (intro exI [of _ "demo_states @ [s]"]) auto
  qed (use l in \<open>auto simp: other_commit_def intro!: exI [of _ sts]\<close>)
  then show ?thesis by (auto simp: adds_states_def other_commit_def)
qed

text \<open>
  C34: with no other writer a commit of transits and parks leaves the driver ready for the next one,
  whatever its outcome. When it succeeds the states it adds have later revisions than all others;
  after an error or a panic the store is what it was. In both cases all that is stored may be read
  and no revision is left pending.
\<close>

theorem badger_Commit_at_rest:
  assumes "badger_laws B view stored writes start low" "badger_ok stored low (lib_easyproto lb) d sts"
    and "list_all state_cmd cmds" "ok_heap h" "bg_Commit B lb D [] cmds h d = (r, cs, h', d')"
  shows "\<exists>new. badger_ok stored low (lib_easyproto lb) d' (sts @ new)
    \<and> (if r = Ok () then map (\<lambda>s. Some (s_ID s)) new = ids_of h cmds else new = [] \<and> bg_db d' = bg_db d)"
  using badger_laws.commit_attempts_keeps [OF assms(1) assms(5) [unfolded bg_Commit_def] assms(3,4,2)] by blast

theorem badger_Commit_at_rest_witness:
  "\<exists>new. badger_ok RBT.entries (\<lambda>n. n) wire (snd (snd (snd (bg_Commit tree_badger wire_libs tree_ops [] demo_transits demo_heap (tree_driver demo_states)))))
      (demo_states @ new)
    \<and> (fst (bg_Commit tree_badger wire_libs tree_ops [] demo_transits demo_heap (tree_driver demo_states)) = Ok () \<longrightarrow> map s_ID new = [''a'', ''b''])"
proof -
  obtain r cs h' d' where c: "bg_Commit tree_badger wire_libs tree_ops [] demo_transits demo_heap (tree_driver demo_states) = (r, cs, h', d')"
    by (metis surj_pair)
  have s: "list_all state_cmd demo_transits" "ids_of demo_heap demo_transits = [Some ''a'', Some ''b'']"
    by (code_simp, simp add: ids_of_def demo_transits_def map_filter_simps ctx_id_def demo_heap_def deref_def demo_ctx_def demo_state_def)
  have "lib_easyproto wire_libs = wire" by (simp add: wire_libs_def)
  from badger_Commit_at_rest [OF tree.badger_laws_axioms, of wire_libs, unfolded this, OF demo_ok s(1) demo_heap_ok c] obtain new where
    new: "badger_ok RBT.entries (\<lambda>n. n) wire d' (demo_states @ new)" "r = Ok () \<longrightarrow> map (\<lambda>s. Some (s_ID s)) new = [Some ''a'', Some ''b'']"
    by (auto simp: s(2))
  from new(2) have "r = Ok () \<longrightarrow> map s_ID new = [''a'', ''b'']" by (auto simp: map_eq_Cons_conv)
  with new(1) c show ?thesis by auto
qed

lemma find_last: "\<forall>y \<in> set xs. \<not> P y \<Longrightarrow> P x \<Longrightarrow> find P (xs @ [x]) = Some x"
  by (induction xs) auto

text \<open>
  The commit of a transit of a current context succeeds, and what it stores is read back: any
  later \<open>GetStateByID\<close> of the id puts the committed state, with the revision of the sequence, the
  flow of the transit and the labels of the context, into the context it is given.
\<close>

lemma badger_commit_read_back:
  assumes "badger_laws B view stored writes start low" "easyproto_laws (lib_easyproto lb)" "badger_ok stored low (lib_easyproto lb) d sts"
    and "state_cmd (TransitCmd t)" "ok_heap h" "tr_To t \<noteq> []" "deref h (tr_StateCtx t) = Some x" "s_ID (sc_Current x) \<noteq> []"
    and "s_Rev (sc_Committed x) = latest_rev sts (s_ID (sc_Current x))"
    and "\<And>t k v. \<exists>t'. bd_Set B t k v = Ok t'" "bd_SeqNext B (sw_seq (bg_stateRevSeq d)) = (Ok n, q)" "int n < MaxInt64"
  shows "\<exists>h' d' s. bg_Commit B lb D [] [TransitCmd t] h d = (Ok (), [TransitCmd t], h', d')
    \<and> s_Rev s = int n \<and> ts_To (s_Transition s) = tr_To t \<and> s_Labels s = norm_map (s_Labels (sc_Current x))
    \<and> (\<forall>h2 a c. h2 a = Some c \<longrightarrow>
        bg_GetStateByID B (lib_easyproto lb) \<lparr>gi_ID = s_ID (sc_Current x), gi_Rev = 0, gi_StateCtx = Some a\<rparr> h2 d'
          = (Ok (), h2(a \<mapsto> CopyToCtx s c), d'))"
proof -
  from badger_laws.Commit_transit [OF assms] obtain h' d' s where
    c: "bg_Commit B lb D [] [TransitCmd t] h d = (Ok (), [TransitCmd t], h', d')" "badger_ok stored low (lib_easyproto lb) d' (sts @ [s])"
      "s_ID s = s_ID (sc_Current x)" "s_Rev s = int n" "ts_To (s_Transition s) = tr_To t" "s_Labels s = norm_map (s_Labels (sc_Current x))" by blast
  let ?cmd = "\<lambda>a. \<lparr>gi_ID = s_ID (sc_Current x), gi_Rev = 0, gi_StateCtx = Some a\<rparr>"
  have st: "states_in (lib_easyproto lb) (stored (bg_db d')) (sts @ [s])" using c(2) by (simp add: badger_ok_def readable_def)
  have w: "wanted_rev (sts @ [s]) (?cmd a) = s_Rev s" for a using c(3) by (simp add: wanted_rev_def latest_rev_snoc)
  have "\<forall>s' \<in> set sts. s_Rev s' \<noteq> s_Rev s" using st by (force simp: states_in_def sorted_wrt_append)
  then have f: "find (\<lambda>s'. s_ID s' = gi_ID (?cmd a) \<and> s_Rev s' = wanted_rev (sts @ [s]) (?cmd a)) (sts @ [s]) = Some s" for a
    unfolding w by (intro find_last) (simp_all add: c(3))
  have "bg_GetStateByID B (lib_easyproto lb) (?cmd a) h2 d' = (Ok (), h2(a \<mapsto> CopyToCtx s c), d')" if "h2 a = Some c" for h2 a c
    using badger_laws.GetStateByID_find [where h = h2 and a = a and c = c and cmd = "?cmd a", OF assms(1,2) st _ that] f [of a] by simp
  with c show ?thesis by blast
qed

lemma badger_commit_read_back_instance:
  "\<exists>h' d' s. bg_Commit tree_badger wire_libs tree_ops [] [TransitCmd demo_transit] demo_heap (tree_driver demo_states)
      = (Ok (), [TransitCmd demo_transit], h', d')
    \<and> s_Rev s = 100 \<and> ts_To (s_Transition s) = ''f''
    \<and> bg_GetStateByID tree_badger wire \<lparr>gi_ID = ''a'', gi_Rev = 0, gi_StateCtx = Some 1\<rparr> [1 \<mapsto> StateCtx0] d'
        = (Ok (), [1 \<mapsto> CopyToCtx s StateCtx0], d')"
proof -
  note demo = demo_simps
  have e: "easyproto_laws (lib_easyproto wire_libs)" "badger_ok RBT.entries (\<lambda>n. n) (lib_easyproto wire_libs) (tree_driver demo_states) demo_states"
    using pbwire.easyproto_laws_axioms demo_ok by (simp_all add: demo(6))
  have x: "deref demo_heap (tr_StateCtx demo_transit) = Some (demo_ctx ''a'' 3)" "s_ID (sc_Current (demo_ctx ''a'' 3)) \<noteq> []"
    "s_Rev (sc_Committed (demo_ctx ''a'' 3)) = latest_rev demo_states (s_ID (sc_Current (demo_ctx ''a'' 3)))" "int 100 < MaxInt64"
    by (simp_all add: demo MaxInt64_def)
  obtain h' d' s where c: "bg_Commit tree_badger wire_libs tree_ops [] [TransitCmd demo_transit] demo_heap (tree_driver demo_states)
      = (Ok (), [TransitCmd demo_transit], h', d')" "s_Rev s = int 100" "ts_To (s_Transition s) = tr_To demo_transit"
    "\<forall>h2 a c. h2 a = Some c \<longrightarrow> bg_GetStateByID tree_badger (lib_easyproto wire_libs)
        \<lparr>gi_ID = s_ID (sc_Current (demo_ctx ''a'' 3)), gi_Rev = 0, gi_StateCtx = Some a\<rparr> h2 d' = (Ok (), h2(a \<mapsto> CopyToCtx s c), d')"
    using badger_commit_read_back [OF tree.badger_laws_axioms e demo(7) demo_heap_ok demo(1) x(1-3) tree_Set_total demo(9) x(4)] by blast
  moreover have "tr_To demo_transit = ''f''" by (simp add: demo_transit_def Transit_def)
  moreover have "bg_GetStateByID tree_badger wire \<lparr>gi_ID = ''a'', gi_Rev = 0, gi_StateCtx = Some 1\<rparr> [1 \<mapsto> StateCtx0] d'
      = (Ok (), [1 \<mapsto> StateCtx0, 1 \<mapsto> CopyToCtx s StateCtx0], d')"
    using c(4) [rule_format, of "[1 \<mapsto> StateCtx0]" 1 StateCtx0] by (simp add: demo)
  ultimately show ?thesis by (intro exI [of _ h'] exI [of _ d'] exI [of _ s]) simp
qed

text \<open>
  C4: no lost updates. Once a commit has written a new revision of an id, a transit of a context
  that still holds the revision of before, or any older one, is refused with a revision mismatch,
  and nothing is stored.
\<close>

theorem badger_Commit_no_lost_update:
  assumes "badger_laws B view stored writes start low" "badger_ok stored low (lib_easyproto lb) d sts"
    and "list_all state_cmd cmds" "ok_heap h" "bg_Commit B lb D [] cmds h d = (Ok (), cs, h1, d1)" "Some i \<in> set (ids_of h cmds)"
    and "tr_To t \<noteq> []" "deref h2 (tr_StateCtx t) = Some x" "s_ID (sc_Current x) = i" "i \<noteq> []" "s_Rev (sc_Committed x) \<le> latest_rev sts i"
    and "bd_SeqNext B (sw_seq (bg_stateRevSeq d1)) = (Ok n, q)" "int n < MaxInt64"
  shows "\<exists>h' d'. bg_Commit B lb D [] (TransitCmd t # cmds') h2 d1 = (Err (ErrRevMismatch [i]), TransitCmd t # cmds', h', d')
    \<and> bg_db d' = bg_db d1"
proof -
  from badger_laws.commit_attempts_keeps [OF assms(1) assms(5) [unfolded bg_Commit_def] assms(3,4,2)] obtain new where
    new: "badger_ok stored low (lib_easyproto lb) d1 (sts @ new)" "map (\<lambda>s. Some (s_ID s)) new = ids_of h cmds" by auto
  then have st: "states_in (lib_easyproto lb) (stored (bg_db d1)) (sts @ new)" by (simp add: badger_ok_def readable_def)
  have "Some i \<in> set (map (\<lambda>s. Some (s_ID s)) new)" using new(2) assms(6) by simp
  then have "i \<in> s_ID ` set new" by auto
  from badger_laws.latest_rev_append [OF assms(1) st this] assms(11) have "s_Rev (sc_Committed x) \<noteq> latest_rev (sts @ new) (s_ID (sc_Current x))"
    by (simp add: assms(9))
  from badger_laws.Commit_stale [OF assms(1) st assms(7,8) _ this assms(12,13)] assms(9,10) show ?thesis
    unfolding bg_Commit_def by blast
qed

theorem badger_Commit_no_lost_update_witness:
  "\<exists>h1 d1 h' d'. bg_Commit tree_badger wire_libs tree_ops [] [TransitCmd demo_transit] demo_heap (tree_driver demo_states)
      = (Ok (), [TransitCmd demo_transit], h1, d1)
    \<and> bg_Commit tree_badger wire_libs tree_ops [] [TransitCmd demo_transit] demo_heap d1
      = (Err (ErrRevMismatch [''a'']), [TransitCmd demo_transit], h', d') \<and> bg_db d' = bg_db d1"
proof -
  note demo = demo_simps
  have e: "easyproto_laws (lib_easyproto wire_libs)" "badger_ok RBT.entries (\<lambda>n. n) (lib_easyproto wire_libs) (tree_driver demo_states) demo_states"
    using pbwire.easyproto_laws_axioms demo_ok by (simp_all add: demo(6))
  have x: "deref demo_heap (tr_StateCtx demo_transit) = Some (demo_ctx ''a'' 3)" "s_ID (sc_Current (demo_ctx ''a'' 3)) \<noteq> []"
    "s_Rev (sc_Committed (demo_ctx ''a'' 3)) = latest_rev demo_states (s_ID (sc_Current (demo_ctx ''a'' 3)))" "int 100 < MaxInt64"
    by (simp_all add: demo MaxInt64_def)
  obtain h1 d1 where c: "bg_Commit tree_badger wire_libs tree_ops [] [TransitCmd demo_transit] demo_heap (tree_driver demo_states)
      = (Ok (), [TransitCmd demo_transit], h1, d1)" "sw_seq (bg_stateRevSeq d1) = 101"
    using tree.Commit_transit [OF e demo(7) demo_heap_ok demo(1) x(1-3) tree_Set_total demo(9) x(4)] by blast
  have y1: "list_all state_cmd [TransitCmd demo_transit]" using demo(7) by simp
  have y: "Some ''a'' \<in> set (ids_of demo_heap [TransitCmd demo_transit])"
    "''a'' \<noteq> []" "s_Rev (sc_Committed (demo_ctx ''a'' 3)) \<le> latest_rev demo_states ''a''"
    "bd_SeqNext tree_badger (sw_seq (bg_stateRevSeq d1)) = (Ok 101, 102)" "int 101 < MaxInt64"
    by (simp_all add: demo c(2) MaxInt64_def ids_of_def map_filter_simps ctx_id_def)
  from badger_Commit_no_lost_update [OF tree.badger_laws_axioms e(2) y1 demo_heap_ok c(1) y(1) demo(1) x(1) demo(4) y(2-5)] c(1)
  show ?thesis by blast
qed

text \<open>
  A commit that has conflicted once cannot succeed any more. The first attempt has left its
  revision in the context although nothing was stored, so the second one is refused as outdated
  whatever the other transaction has written, and the context keeps a revision that the store
  does not hold.
\<close>

lemma badger_conflict_is_final:
  assumes "badger_laws B view stored writes start low" "badger_ok stored low (lib_easyproto lb) d sts" "state_cmd (TransitCmd t)" "ok_heap h"
    and "tr_To t \<noteq> []" "deref h (tr_StateCtx t) = Some x" "s_ID (sc_Current x) \<noteq> []"
    and "commit_txn B lb D [TransitCmd t] h d (bd_NewTransaction B (bg_db d)) [] = (Ok t1, cs1, h1, d1, c1)"
    and "bd_Commit B t1 (bg_db (f d1)) = None"
    and "states_in (lib_easyproto lb) (stored (bg_db (f d1))) sts'" "\<forall>s \<in> set sts'. s_Rev s \<notin> set c1"
    and "bd_SeqNext B (sw_seq (bg_stateRevSeq (f d1))) = (Ok m, q)" "int m < MaxInt64"
  shows "\<exists>h' d' x'. bg_Commit B lb D [f] [TransitCmd t] h d = (Err (ErrRevMismatch [s_ID (sc_Current x)]), [TransitCmd t], h', d')
    \<and> bg_db d' = bg_db (f d1) \<and> deref h' (tr_StateCtx t) = Some x' \<and> (\<forall>s \<in> set sts'. s_Rev s \<noteq> s_Rev (sc_Committed x'))"
  using badger_laws.Commit_conflict [where f = f, OF assms] assms(11) by metis

text \<open>The transaction of one transit has read the latest revision of its id and nothing else.\<close>

lemma tree_put_state_reads: "put_state tree_badger E t s = Ok t' \<Longrightarrow> tt_reads t' = tt_reads t"
proof -
  have ls: "set_labels tree_badger ls s t = Ok t' \<Longrightarrow> tt_reads t' = tt_reads t" for ls t t'
    by (induction ls arbitrary: t) (auto simp: tree_Set_def)
  show "put_state tree_badger E t s = Ok t' \<Longrightarrow> tt_reads t' = tt_reads t"
    by (erule tree.put_state_steps) (auto simp: tree_Set_def dest!: ls)
qed

lemma tree_transit_reads:
  assumes "commit_txn tree_badger lb D [TransitCmd t] h d (bd_NewTransaction tree_badger db) [] = (Ok t1, cs, h1, d1, c)"
    and "state_cmd (TransitCmd t)" "ok_heap h" "deref h (tr_StateCtx t) = Some x"
  shows "tt_reads t1 = [latestRevKey (s_ID (sc_Current x))]" "tt_start t1 = db"
proof -
  have "tt_reads t1 = [latestRevKey (s_ID (sc_Current x))] \<and> tt_start t1 = db"
    using assms(1-3)
  proof (cases rule: tree.commit_txn_cases)
    case (put n sw c1 h2 p y t2 y' cs1)
    from put(4,6) assms(4) put(2) have id: "s_ID (sc_Current y) = s_ID (sc_Current x)"
      by (auto simp: same_ids_def ctx_id_def dest: spec [of _ p])
    let ?t = "bd_Read tree_badger (bd_NewTransaction tree_badger db) (latestRevKey (s_ID (sc_Current x)))"
    from put(7) id obtain s where s: "put_state tree_badger (lib_easyproto lb) ?t s = Ok t2"
      by (auto simp: commit_ctx_def Let_def obind_Ok_iff split: if_splits)
    have "tt_reads ?t = [latestRevKey (s_ID (sc_Current x))]" "tt_start ?t = db" by (simp_all add: tree_badger_def tree_Read_def)
    then show ?thesis using tree_put_state_reads [OF s] tree.put_state_writes(3) [OF s] put(8) by simp
  qed simp_all
  then show "tt_reads t1 = [latestRevKey (s_ID (sc_Current x))]" "tt_start t1 = db" by simp_all
qed

text \<open>The first attempt of the demo transit.\<close>

lemma demo_txn:
  obtains t1 h1 d1 where "commit_txn tree_badger wire_libs tree_ops [TransitCmd demo_transit] demo_heap (tree_driver demo_states)
      (bd_NewTransaction tree_badger (bg_db (tree_driver demo_states))) [] = (Ok t1, [TransitCmd demo_transit], h1, d1, [100])"
    "bg_db d1 = bg_db (tree_driver demo_states)" "sw_seq (bg_stateRevSeq d1) = 101" "tt_reads t1 = [latestRevKey ''a'']"
    "tt_start t1 = bg_db (tree_driver demo_states)"
proof -
  note demo = demo_simps
  let ?d = "tree_driver demo_states"
  have e: "badger_ok RBT.entries (\<lambda>n. n) (lib_easyproto wire_libs) ?d demo_states" using demo_ok by (simp add: demo(6))
  have x: "deref demo_heap (tr_StateCtx demo_transit) = Some (demo_ctx ''a'' 3)" "s_ID (sc_Current (demo_ctx ''a'' 3)) \<noteq> []"
    "s_Rev (sc_Committed (demo_ctx ''a'' 3)) = latest_rev demo_states (s_ID (sc_Current (demo_ctx ''a'' 3)))" "int 100 < MaxInt64"
    by (simp_all add: demo MaxInt64_def)
  obtain t1 h1 d1 where c: "commit_txn tree_badger wire_libs tree_ops [TransitCmd demo_transit] demo_heap ?d
      (bd_NewTransaction tree_badger (bg_db ?d)) [] = (Ok t1, [TransitCmd demo_transit], h1, d1, [int 100])"
    "bg_db d1 = bg_db ?d" "sw_seq (bg_stateRevSeq d1) = 101"
    using tree.txn_transit [OF e demo(7) demo_heap_ok demo(1) x(1-3) tree_Set_total demo(9) x(4)] by blast
  have "[int 100] = [100]" by simp
  with tree_transit_reads [OF c(1) demo(7) demo_heap_ok x(1)] that [OF c(1) [unfolded this] c(2,3)] show ?thesis unfolding demo(4) by blast
qed

lemma other_commit_run:
  assumes "bg_db d = bg_db (tree_driver demo_states)" "100 \<le> sw_seq (bg_stateRevSeq d)" "storable s" "3 < s_Rev s"
  shows "bg_db (other_commit s d) = tt_view (put_all (demo_states @ [s]))"
    and "sw_seq (bg_stateRevSeq (other_commit s d)) = max (sw_seq (bg_stateRevSeq d)) (Suc (nat (s_Rev s)))"
    and "states_in wire (RBT.entries (tt_view (put_all (demo_states @ [s])))) (demo_states @ [s])"
proof -
  have "\<forall>s' \<in> set demo_states. s_Rev s' \<le> 3" by code_simp
  then have "sorted_wrt (\<lambda>s s'. s_Rev s < s_Rev s') (demo_states @ [s])" "list_all storable (demo_states @ [s])"
    using demo_states_ok(1,2) assms(3,4) by (auto simp: sorted_wrt_append)
  from put_all_states_in [OF this] show "states_in wire (RBT.entries (tt_view (put_all (demo_states @ [s])))) (demo_states @ [s])" .
qed (use assms(1,2) in \<open>simp_all add: other_commit_def tree_driver_def\<close>)

lemma tree_latest:
  "states_in wire (RBT.entries db) sts \<Longrightarrow> RBT.lookup db (latestRevKey i) = (if latest_rev sts i = 0 then None else Some (PutUint64 (latest_rev sts i)))"
  unfolding states_in_def RBT.map_of_entries by blast

text \<open>
  The demo transit, which takes number 100, while another goroutine commits a state of another id
  under the next number: there is no conflict.
\<close>

lemma demo_commit_others:
  obtains h' d' where "bg_Commit tree_badger wire_libs tree_ops [other_commit (demo_state ''c'' 101 [])] [TransitCmd demo_transit] demo_heap
      (tree_driver demo_states) = (Ok (), [TransitCmd demo_transit], h', d')"
    "{101} \<inter> set (commit_numbers (length [TransitCmd demo_transit]) tree_badger wire_libs tree_ops [other_commit (demo_state ''c'' 101 [])]
      [TransitCmd demo_transit] demo_heap (tree_driver demo_states)) = {}"
proof -
  let ?f = "other_commit (demo_state ''c'' 101 [])" and ?d = "tree_driver demo_states"
  obtain t1 h1 d1 where txn: "commit_txn tree_badger wire_libs tree_ops [TransitCmd demo_transit] demo_heap ?d
      (bd_NewTransaction tree_badger (bg_db ?d)) [] = (Ok t1, [TransitCmd demo_transit], h1, d1, [100])"
    "bg_db d1 = bg_db ?d" "sw_seq (bg_stateRevSeq d1) = 101" "tt_reads t1 = [latestRevKey ''a'']" "tt_start t1 = bg_db ?d" by (rule demo_txn)
  have s: "storable (demo_state ''c'' 101 [])" "3 < s_Rev (demo_state ''c'' 101 [])" by code_simp+
  have "100 \<le> sw_seq (bg_stateRevSeq d1)" by (simp add: txn(3))
  note o = other_commit_run [OF txn(2) this s]
  have "latest_rev (demo_states @ [demo_state ''c'' 101 []]) ''a'' = 3" "latest_rev demo_states ''a'' = 3" by code_simp+
  then have "RBT.lookup (bg_db (?f d1)) (latestRevKey ''a'') = RBT.lookup (tt_start t1) (latestRevKey ''a'')"
    using tree_latest [OF o(3), of "''a''"] tree_latest [OF put_all_states_in [OF demo_states_ok(1,2)], of "''a''"]
    by (simp add: o(1) txn(5) tree_driver_def)
  then obtain db where "bd_Commit tree_badger t1 (bg_db (?f d1)) = Some db"
    by (simp add: tree_badger_def txn(4))
  then have up: "db_Update tree_badger (Ok t1) (bg_db (?f d1)) = (Ok (), db)" by (simp add: db_Update_def)
  show ?thesis
  proof (rule that)
    show "bg_Commit tree_badger wire_libs tree_ops [?f] [TransitCmd demo_transit] demo_heap ?d
        = (Ok (), [TransitCmd demo_transit], h1, commit_revs [100] ((?f d1)\<lparr>bg_db := db\<rparr>))"
      unfolding bg_Commit_def by (subst commit_attempts.simps) (simp add: txn(1) up Let_def del: commit_txn.simps)
    have "commit_numbers k tree_badger wire_libs tree_ops [?f] [TransitCmd demo_transit] demo_heap ?d = [100]" for k
      by (subst commit_numbers.simps) (simp add: txn(1) up Let_def del: commit_txn.simps)
    then show "{101} \<inter> set (commit_numbers (length [TransitCmd demo_transit]) tree_badger wire_libs tree_ops [?f]
        [TransitCmd demo_transit] demo_heap ?d) = {}" by simp
  qed
qed

lemma demo_other: "\<forall>f \<in> set [other_commit (demo_state ''c'' 101 [])]. adds_states RBT.entries (\<lambda>n. n) wire {101} f"
proof -
  have "storable (demo_state ''c'' 101 [])" "s_Rev (demo_state ''c'' 101 []) = 101" by code_simp+
  with other_commit_adds [of "demo_state ''c'' 101 []"] show ?thesis by simp
qed

lemma demo_commit:
  "list_all state_cmd [TransitCmd demo_transit]" "ids_of demo_heap [TransitCmd demo_transit] = [Some ''a'']"
  "List.map_filter committable [TransitCmd demo_transit] = [Some 0]" "ctx_rev demo_heap (Some 0) = Some 3" "ctx_id demo_heap (Some 0) = Some ''a''"
  "lib_easyproto wire_libs = wire" "sw_seq (bg_stateRevSeq (tree_driver demo_states)) = 100"
  using demo_simps(7) by (simp_all add: map_filter_simps demo_simps ctx_rev_def ids_of_def ctx_id_def wire_libs_def tree_driver_def)

theorem badger_Commit_atomic_witness:
  "\<exists>h' d' sts' s. bg_Commit tree_badger wire_libs tree_ops [other_commit (demo_state ''c'' 101 [])] [TransitCmd demo_transit] demo_heap
      (tree_driver demo_states) = (Ok (), [TransitCmd demo_transit], h', d')
    \<and> log_ok RBT.entries (\<lambda>n. n) wire d' (add_state_at s sts') \<and> s_ID s = ''a'' \<and> set demo_states \<subseteq> set sts'
    \<and> (\<forall>s \<in> set sts' - set demo_states. s_Rev s = 101)"
proof -
  obtain h' d' where c: "bg_Commit tree_badger wire_libs tree_ops [other_commit (demo_state ''c'' 101 [])] [TransitCmd demo_transit] demo_heap
      (tree_driver demo_states) = (Ok (), [TransitCmd demo_transit], h', d')"
    "{101} \<inter> set (commit_numbers (length [TransitCmd demo_transit]) tree_badger wire_libs tree_ops [other_commit (demo_state ''c'' 101 [])]
      [TransitCmd demo_transit] demo_heap (tree_driver demo_states)) = {}" by (rule demo_commit_others)
  from badger_Commit_atomic [OF tree.badger_conflict_laws_axioms, of wire_libs, unfolded demo_commit(6), OF badger_ok_log [OF demo_ok]
      demo_commit(1) demo_heap_ok demo_other c(2,1)]
  obtain sts' new where n: "log_ok RBT.entries (\<lambda>n. n) wire d' (fold add_state_at new sts')" "set demo_states \<subseteq> set sts'"
    "\<forall>s \<in> set sts' - set demo_states. s_Rev s \<in> {101}" "map (\<lambda>s. Some (s_ID s)) new = [Some ''a'']"
    unfolding demo_commit(2) if_True simp_thms by (elim exE conjE) (rule that)
  then obtain s where "new = [s]" "s_ID s = ''a''" by (auto simp: map_eq_Cons_conv)
  with n c(1) show ?thesis by auto
qed

text \<open>
  C23: no update is lost although others commit at the same time. A commit of transits and parks that
  succeeds, after whatever attempts and whatever others have added to the store meanwhile, has found
  every context it names at the latest revision of its id in the store that it adds its states to
  (\<open>sts'\<close>, all that the others have committed included), so none of their states is replaced
  unseen. The others may use any numbers but those of this commit, and the contexts hold revisions
  from before it; labels are restricted as above.
\<close>

theorem badger_Commit_serial:
  assumes "badger_conflict_laws B view stored writes start low reads" "log_ok stored low (lib_easyproto lb) d sts"
    and "list_all state_cmd cmds" "ok_heap h" "\<forall>f \<in> set others. adds_states stored low (lib_easyproto lb) N f"
    and "N \<inter> set (commit_numbers (length cmds) B lb D others cmds h d) = {}" "bg_Commit B lb D others cmds h d = (Ok (), cs, h', d')"
    and "\<forall>p \<in> set (List.map_filter committable cmds). \<forall>n. ctx_rev h p = Some n \<longrightarrow> n < int (low (sw_seq (bg_stateRevSeq d)))"
  shows "\<exists>sts' new. log_ok stored low (lib_easyproto lb) d' (fold add_state_at new sts')
    \<and> set sts \<subseteq> set sts' \<and> (\<forall>s \<in> set sts' - set sts. s_Rev s \<in> N) \<and> map (\<lambda>s. Some (s_ID s)) new = ids_of h cmds
    \<and> (\<forall>s \<in> set new. latest_rev sts' (s_ID s) < s_Rev s \<and> s_Rev s \<notin> s_Rev ` set sts')
    \<and> (\<forall>p \<in> set (List.map_filter committable cmds). current sts' h p)"
  by (rule badger_conflict_laws.commit_attempts_current [OF assms(1) assms(7) [unfolded bg_Commit_def] assms(3,4,2,5,6,8)])

theorem badger_Commit_serial_witness:
  "\<exists>h' d' sts' s. bg_Commit tree_badger wire_libs tree_ops [other_commit (demo_state ''c'' 101 [])] [TransitCmd demo_transit] demo_heap
      (tree_driver demo_states) = (Ok (), [TransitCmd demo_transit], h', d')
    \<and> log_ok RBT.entries (\<lambda>n. n) wire d' (add_state_at s sts') \<and> s_ID s = ''a'' \<and> latest_rev sts' ''a'' = 3"
proof -
  obtain h' d' where c: "bg_Commit tree_badger wire_libs tree_ops [other_commit (demo_state ''c'' 101 [])] [TransitCmd demo_transit] demo_heap
      (tree_driver demo_states) = (Ok (), [TransitCmd demo_transit], h', d')"
    "{101} \<inter> set (commit_numbers (length [TransitCmd demo_transit]) tree_badger wire_libs tree_ops [other_commit (demo_state ''c'' 101 [])]
      [TransitCmd demo_transit] demo_heap (tree_driver demo_states)) = {}" by (rule demo_commit_others)
  have y: "\<forall>p \<in> set (List.map_filter committable [TransitCmd demo_transit]). \<forall>n. ctx_rev demo_heap p = Some n \<longrightarrow> n < int (sw_seq (bg_stateRevSeq (tree_driver demo_states)))"
    unfolding demo_commit(3,7) by (simp add: demo_commit(4))
  from badger_Commit_serial [OF tree.badger_conflict_laws_axioms, of wire_libs, unfolded demo_commit(6), OF badger_ok_log [OF demo_ok]
      demo_commit(1) demo_heap_ok demo_other c(2,1) y]
  obtain sts' new where n: "log_ok RBT.entries (\<lambda>n. n) wire d' (fold add_state_at new sts')"
    "map (\<lambda>s. Some (s_ID s)) new = [Some ''a'']" "\<forall>p \<in> set [Some 0]. current sts' demo_heap p"
    unfolding demo_commit(2,3) by (elim exE conjE) (rule that)
  obtain s where "new = [s]" "s_ID s = ''a''" using n(2) by (auto simp: map_eq_Cons_conv)
  moreover have "latest_rev sts' ''a'' = 3" using n(3) demo_commit(4,5) by (auto simp: current_def ctx_rev_def ctx_id_def)
  ultimately show ?thesis using n(1) c(1) by auto
qed

lemma badger_conflict_is_final_instance:
  "\<exists>h' d' x'. bg_Commit tree_badger wire_libs tree_ops [other_commit (demo_state ''a'' 101 [])] [TransitCmd demo_transit] demo_heap
      (tree_driver demo_states) = (Err (ErrRevMismatch [''a'']), [TransitCmd demo_transit], h', d')
    \<and> deref h' (Some 0) = Some x' \<and> (\<forall>s \<in> set (demo_states @ [demo_state ''a'' 101 []]). s_Rev s \<noteq> s_Rev (sc_Committed x'))"
proof -
  note demo = demo_simps
  let ?d = "tree_driver demo_states" and ?f = "other_commit (demo_state ''a'' 101 [])" and ?sts = "demo_states @ [demo_state ''a'' 101 []]"
  have e: "badger_ok RBT.entries (\<lambda>n. n) (lib_easyproto wire_libs) ?d demo_states" using demo_ok by (simp add: demo(6))
  have x: "deref demo_heap (tr_StateCtx demo_transit) = Some (demo_ctx ''a'' 3)" "s_ID (sc_Current (demo_ctx ''a'' 3)) \<noteq> []"
    by (simp_all add: demo)
  obtain t1 h1 d1 where c: "commit_txn tree_badger wire_libs tree_ops [TransitCmd demo_transit] demo_heap ?d
      (bd_NewTransaction tree_badger (bg_db ?d)) [] = (Ok t1, [TransitCmd demo_transit], h1, d1, [100])"
    "bg_db d1 = bg_db ?d" "sw_seq (bg_stateRevSeq d1) = 101" "tt_reads t1 = [latestRevKey ''a'']" "tt_start t1 = bg_db ?d" by (rule demo_txn)
  have s: "storable (demo_state ''a'' 101 [])" "3 < s_Rev (demo_state ''a'' 101 [])" by code_simp+
  have "100 \<le> sw_seq (bg_stateRevSeq d1)" by (simp add: c(3))
  note o = other_commit_run [OF c(2) this s]
  have seq: "nat (s_Rev (demo_state ''a'' 101 [])) = 101" by code_simp
  have "latest_rev ?sts ''a'' = 101" "latest_rev demo_states ''a'' = 3" "PutUint64 101 \<noteq> PutUint64 3" by code_simp+
  then have "RBT.lookup (bg_db (?f d1)) (latestRevKey ''a'') \<noteq> RBT.lookup (tt_start t1) (latestRevKey ''a'')"
    using tree_latest [OF o(3), of "''a''"] tree_latest [OF put_all_states_in [OF demo_states_ok(1,2)], of "''a''"]
    by (simp add: o(1) c(5) tree_driver_def)
  then have "bd_Commit tree_badger t1 (bg_db (?f d1)) = None" by (simp add: tree_badger_def c(4))
  moreover have "\<forall>s \<in> set ?sts. s_Rev s \<notin> set [100]" by code_simp
  moreover have "bd_SeqNext tree_badger (sw_seq (bg_stateRevSeq (?f d1))) = (Ok 102, 103)" "int 102 < MaxInt64"
    using seq by (simp_all add: o(2) c(3) MaxInt64_def)
  moreover have "states_in (lib_easyproto wire_libs) (RBT.entries (bg_db (?f d1))) ?sts" using o(1,3) by (simp add: demo(6))
  ultimately show ?thesis
    using badger_conflict_is_final [where f = ?f, OF tree.badger_laws_axioms e demo(7) demo_heap_ok demo(1) x c(1)] demo by fastforce
qed

end
