(* ===== verification/BadgerDelayed.thy ===== *)
theory BadgerDelayed
  imports BadgerCommit
begin

text \<open>
  Delayed states in the badger driver: what \<open>Delay\<close> stores, what \<open>GetDelayedStates\<close> finds by
  offset, and what becomes of a query from a time on.
\<close>

section \<open>The store of a list of delayed states\<close>

definition delayed_key :: "DelayedState \<Rightarrow> string" where
  "delayed_key ds = delayedStateKey (Unix (ds_ExecuteAt ds)) (ds_Offset ds)"

text \<open>A delayed state that can be read back as it is: times are kept in seconds.\<close>

definition delayable :: "DelayedState \<Rightarrow> bool" where
  "delayable ds \<longleftrightarrow> keyed (ds_Offset ds) \<and> pb_ok_State (ds_State ds) \<and> pb_DelayedState ds = ds"

definition delayed_in :: "'c easyproto \<Rightarrow> (string \<times> string) list \<Rightarrow> DelayedState list \<Rightarrow> bool" where
  "delayed_in E vw dss \<longleftrightarrow> sorted_wrt (\<lambda>x y. ds_Offset x < ds_Offset y) dss \<and> list_all delayable dss
    \<and> index vw delayedOffsetPrefix (map (\<lambda>ds. (ds_Offset ds, delayed_key ds)) dss)
    \<and> (\<forall>ds \<in> set dss. map_of vw (delayed_key ds) = Some (MarshalDelayedState E ds []))"

lemmas delayed_key_defs = delayedStateKey_def delayedOffsetKey_def delayedOffsetPrefix_def delayedStatePrefix_def

lemma foreign_delayed [simp]:
  "\<not> prefix (labelIndexPrefix k v) (delayedStateKey e n)" "\<not> prefix (labelIndexPrefix k v) (delayedOffsetKey n)"
  "\<not> prefix revIndexPrefix (delayedStateKey e n)" "\<not> prefix revIndexPrefix (delayedOffsetKey n)"
  "\<not> prefix delayedOffsetPrefix (delayedStateKey e n)"
  "\<not> prefix committedAtIndexPrefix (delayedStateKey e n)" "\<not> prefix committedAtIndexPrefix (delayedOffsetKey n)"
  "stateKey s \<noteq> delayedStateKey e n" "stateKey s \<noteq> delayedOffsetKey n"
  "latestRevKey i \<noteq> delayedStateKey e n" "latestRevKey i \<noteq> delayedOffsetKey n" "delayedStateKey e n \<noteq> delayedOffsetKey m"
  by (simp_all add: key_defs delayed_key_defs)

lemma delayedStateKey_offset: "keyed m \<Longrightarrow> keyed n \<Longrightarrow> delayedStateKey e m = delayedStateKey e' n \<Longrightarrow> m = n"
  using fmt_020d_keyed(1) [of m] fmt_020d_keyed(1) [of n]
  by (auto simp: delayedStateKey_def append_eq_append_conv2 dest: arg_cong [of _ _ "\<lambda>s. drop (length s - 20) s"])

section \<open>The loop\<close>

definition page_of :: "GetDelayedStatesCommand \<Rightarrow> DelayedState list \<Rightarrow> DelayedState list" where
  "page_of cmd dss = takeWhile (\<lambda>ds. Unix (ds_ExecuteAt ds) \<le> Unix (gt_Until cmd))
    (filter (\<lambda>ds. Unix (gt_Since cmd) < Unix (ds_ExecuteAt ds)) dss)"

lemma page_of_Cons:
  "page_of cmd (ds # dss) = (if Unix (ds_ExecuteAt ds) \<le> Unix (gt_Since cmd) then page_of cmd dss
     else if Unix (ds_ExecuteAt ds) > Unix (gt_Until cmd) then [] else ds # page_of cmd dss)"
  by (auto simp: page_of_def)

lemma find_offset_after:
  "sorted_wrt (\<lambda>x y. ds_Offset x < ds_Offset y) dss \<Longrightarrow> find (\<lambda>ds. a \<le> ds_Offset ds) dss = Some (ds :: DelayedState) \<Longrightarrow>
    filter (\<lambda>ds. a \<le> ds_Offset ds) dss = ds # filter (\<lambda>ds'. ds_Offset ds + 1 \<le> ds_Offset ds') dss"
proof (induction dss)
  case (Cons y ys)
  show ?case
  proof (cases "a \<le> ds_Offset y")
    case True
    then have "filter (\<lambda>ds. a \<le> ds_Offset ds) ys = ys" "filter (\<lambda>ds. ds_Offset y + 1 \<le> ds_Offset ds) ys = ys"
      using Cons.prems by (fastforce simp: filter_id_conv)+
    with True Cons.prems show ?thesis by simp
  next
    case False
    with Cons.prems have "ds_Offset y < ds_Offset ds" by (auto dest!: find_Some_iff [THEN iffD1])
    with False Cons show ?thesis by simp
  qed
qed simp

context badger_laws
begin

lemma read_delayed_spec:
  assumes "easyproto_laws E" "delayed_in E (view t) dss" "ds \<in> set dss"
  shows "read_delayed B E t (delayed_key ds) = Ok ds"
proof -
  have "map_of (view t) (delayed_key ds) = Some (MarshalDelayedState E ds [])" "delayable ds"
    using assms(2,3) by (auto simp: delayed_in_def list_all_iff)
  moreover from this(2) have "in_i64 (ds_Offset ds)" by (simp add: delayable_def keyed_def in_i64_small)
  ultimately show ?thesis using easyproto_laws.DelayedState_roundtrip [OF assms(1), of ds]
    by (simp add: read_delayed_def Get MarshalDelayedState_def delayable_def)
qed

lemma find_offset_index:
  "map_option (entry_of p) (find (\<lambda>(r, _). P r) (map (\<lambda>ds. (ds_Offset ds, delayed_key ds)) dss))
    = map_option (\<lambda>ds. (p @ fmt_020d (ds_Offset ds), delayed_key ds)) (find (\<lambda>ds. P (ds_Offset ds)) dss)"
  by (simp add: find_map comp_def option.map_comp entry_of_def)

lemma delayed_loop:
  assumes "easyproto_laws E" "delayed_in E (view t) dss" "\<forall>ds \<in> set dss. ds_Offset ds \<le> u"
    and "bi_prefix it = delayedOffsetPrefix"
    and "bi_item it = map_option (\<lambda>ds. (delayedOffsetPrefix @ fmt_020d (ds_Offset ds), delayed_key ds)) (find (\<lambda>ds. a \<le> ds_Offset ds) dss)"
    and "int (length states) \<le> gt_Limit cmd"
  shows "bg_GetDelayedStates_loop B E t cmd u it states = (let ds = page_of cmd (filter (\<lambda>ds. a \<le> ds_Offset ds) dss)
    in Some (Ok \<lparr>gdr_States = states @ take (nat (gt_Limit cmd) - length states) ds,
      gdr_More = int (length states + length ds) > gt_Limit cmd\<rparr>))"
  using assms(4-6)
proof (induction "length (filter (\<lambda>ds. a \<le> ds_Offset ds) dss)" arbitrary: it a states rule: less_induct)
  case less
  have srt: "sorted_wrt (\<lambda>x y. ds_Offset x < ds_Offset y) dss" and ix: "index (view t) delayedOffsetPrefix (map (\<lambda>ds. (ds_Offset ds, delayed_key ds)) dss)"
    using assms(2) by (simp_all add: delayed_in_def)
  show ?case
  proof (cases "find (\<lambda>ds. a \<le> ds_Offset ds) dss")
    case None
    with less.prems find_filter_None [THEN iffD1, OF None] show ?thesis
      by (subst bg_GetDelayedStates_loop.simps) (simp add: page_of_def)
  next
    case (Some ds)
    then have ds: "ds \<in> set dss" by (auto dest!: find_Some_iff [THEN iffD1])
    note split = find_offset_after [OF srt Some]
    have k: "keyed (ds_Offset ds)" using assms(2) ds by (auto simp: delayed_in_def list_all_iff delayable_def)
    let ?it = "bi_Next B t False it"
    have "find (\<lambda>ds'. ds_Offset ds < ds_Offset ds') dss = find (\<lambda>ds'. ds_Offset ds + 1 \<le> ds_Offset ds') dss"
      by (intro find_cong) auto
    then have it: "bi_prefix ?it = delayedOffsetPrefix" "bi_item ?it = map_option (\<lambda>ds. (delayedOffsetPrefix @ fmt_020d (ds_Offset ds), delayed_key ds))
        (find (\<lambda>ds'. ds_Offset ds + 1 \<le> ds_Offset ds') dss)"
      using less.prems(1,2) Some Next_index [OF ix k] find_offset_index [of delayedOffsetPrefix "\<lambda>r. ds_Offset ds < r" dss]
      by (simp_all add: bi_Next_def)
    note ih = less.hyps [OF _ it]
    have item: "bi_item it = Some (delayedOffsetPrefix @ fmt_020d (ds_Offset ds), delayed_key ds)" using less.prems(2) Some by simp
    show ?thesis
      using ih [of states] ih [of "states @ [ds]"] less.prems(3) read_delayed_spec [OF assms(1,2) ds] assms(3) ds item
      by (subst bg_GetDelayedStates_loop.simps) (auto simp: split page_of_Cons Let_def take_Cons')
  qed
qed

lemma GetDelayedStates_offset:
  assumes "easyproto_laws E" "delayed_in E (stored (bg_db d)) dss" "\<forall>ds \<in> set dss. ds_Offset ds \<le> maxViewable (bg_delayedOffsetSeq d)"
    and "gt_Offset cmd > 0 \<or> IsZero (gt_Since cmd)" "keyed (gt_Offset cmd)" "0 \<le> gt_Limit cmd"
  shows "bg_GetDelayedStates B E cmd d = (let ds = page_of cmd (filter (\<lambda>ds. gt_Offset cmd \<le> ds_Offset ds) dss)
    in Some (Ok (cmd\<lparr>gt_Result := Some \<lparr>gdr_States = take (nat (gt_Limit cmd)) ds, gdr_More = int (length ds) > gt_Limit cmd\<rparr>\<rparr>)))"
proof -
  let ?t = "bd_NewTransaction B (bg_db d)"
  let ?it = "bi_Seek B ?t False (delayedOffsetKey (gt_Offset cmd)) \<lparr>bi_prefix = delayedOffsetPrefix, bi_item = None\<rparr>"
  have st: "delayed_in E (view ?t) dss" using assms(2) by (simp add: NewTransaction)
  then have "index (view ?t) delayedOffsetPrefix (map (\<lambda>ds. (ds_Offset ds, delayed_key ds)) dss)" by (simp add: delayed_in_def)
  from Seek_index(1) [OF this assms(5)] find_offset_index [of delayedOffsetPrefix "\<lambda>r. gt_Offset cmd \<le> r" dss]
  have "bi_prefix ?it = delayedOffsetPrefix" "bi_item ?it = map_option (\<lambda>ds. (delayedOffsetPrefix @ fmt_020d (ds_Offset ds), delayed_key ds))
      (find (\<lambda>ds. gt_Offset cmd \<le> ds_Offset ds) dss)"
    by (simp_all add: bi_Seek_def delayedOffsetKey_def)
  from delayed_loop [OF assms(1) st assms(3) this, of "[]" cmd] assms(4,6) show ?thesis
    by (simp add: bg_GetDelayedStates_def Let_def)
qed

lemma GetDelayedStates_since:
  assumes "\<not> IsZero (gt_Since cmd)" "gt_Offset cmd \<le> 0"
    and "\<forall>(k, v) \<in> set (stored (bg_db d)). prefix (delayedStatePrefix (gt_Since cmd)) k \<longrightarrow> map_of (stored (bg_db d)) v = None"
  shows "bg_GetDelayedStates B E cmd d = Some (Ok (cmd\<lparr>gt_Result := Some \<lparr>gdr_States = [], gdr_More = False\<rparr>\<rparr>))
    \<or> (\<exists>err. bg_GetDelayedStates B E cmd d = Some (Err err))"
proof -
  let ?t = "bd_NewTransaction B (bg_db d)" and ?p = "delayedStatePrefix (gt_Since cmd)"
  let ?it = "bi_Seek B ?t False (delayedStateKey (Unix (gt_Since cmd)) (gt_Offset cmd)) \<lparr>bi_prefix = ?p, bi_item = None\<rparr>"
  have "prefix ?p (delayedStateKey (Unix (gt_Since cmd)) (gt_Offset cmd))"
    by (simp add: delayedStatePrefix_def delayedStateKey_def)
  from Seek(1) [OF this, of ?t] have item: "bi_item ?it = find (\<lambda>(k, _). prefix ?p k \<and> delayedStateKey (Unix (gt_Since cmd)) (gt_Offset cmd) \<le> k) (view ?t)"
    by (simp add: bi_Seek_def)
  show ?thesis
  proof (cases "bi_item ?it")
    case None
    then have "bg_GetDelayedStates_loop B E ?t cmd (maxViewable (bg_delayedOffsetSeq d)) ?it [] = Some (Ok \<lparr>gdr_States = [], gdr_More = False\<rparr>)"
      by (subst bg_GetDelayedStates_loop.simps) simp
    with assms(1,2) show ?thesis by (simp add: bg_GetDelayedStates_def Let_def)
  next
    case (Some kv)
    obtain k v where kv: "kv = (k, v)" by (cases kv)
    with Some item have "(k, v) \<in> set (view ?t)" "prefix ?p k" by (auto dest!: find_Some_iff [THEN iffD1] nth_mem)
    with assms(3) have "map_of (view ?t) v = None" by (auto simp: NewTransaction)
    then have "read_delayed B E ?t v = Err (Errorw ''get delayed state: '' (Errorf ''Key not found'') [])"
      by (simp add: read_delayed_def Get)
    with Some kv have "\<exists>err. bg_GetDelayedStates_loop B E ?t cmd (maxViewable (bg_delayedOffsetSeq d)) ?it [] = Some (Err err)"
      by (subst bg_GetDelayedStates_loop.simps) simp
    with assms(1,2) show ?thesis by (auto simp: bg_GetDelayedStates_def Let_def)
  qed
qed

text \<open>A delay adds its state and leaves the states of the store as they are.\<close>

lemma states_in_foreign:
  assumes "bd_Set B t key v = Ok t'" "states_in E (view t) sts"
    and "\<And>k v. \<not> prefix (labelIndexPrefix k v) key" "\<not> prefix revIndexPrefix key" "\<And>s. stateKey s \<noteq> key" "\<And>i. latestRevKey i \<noteq> key"
    and "\<not> prefix committedAtIndexPrefix key"
  shows "states_in E (view t') sts"
  using assms(2-7) Set_index_other [OF assms(1)] unfolding states_in_def Set_map_of [OF assms(1)] by simp

lemma Delay_spec:
  assumes "bg_Delay B E cmd d = (Ok (), d')" "dl_Result cmd = Some res"
    and "delayed_in E (stored (bg_db d)) dss" "states_in E (stored (bg_db d)) sts"
    and "\<forall>ds \<in> set dss. ds_Offset ds < int (low (sw_seq (bg_delayedOffsetSeq d)))"
    and "bd_SeqNext B (sw_seq (bg_delayedOffsetSeq d)) = (Ok m, q)"
    and "delayable \<lparr>ds_State = ds_State res, ds_Offset = int m, ds_ExecuteAt = dl_ExecuteAt cmd\<rparr>"
  shows "delayed_in E (stored (bg_db d')) (dss @ [\<lparr>ds_State = ds_State res, ds_Offset = int m, ds_ExecuteAt = dl_ExecuteAt cmd\<rparr>])
    \<and> states_in E (stored (bg_db d')) sts"
proof -
  let ?t = "bd_NewTransaction B (bg_db d)"
  obtain x sw c where seq: "seq_next B (bg_delayedOffsetSeq d) [] = (x, sw, c)" by (metis surj_pair)
  define D where "D n = \<lparr>ds_State = ds_State res, ds_Offset = n, ds_ExecuteAt = dl_ExecuteAt cmd\<rparr>" for n
  from assms(1,2) seq obtain n t1 t2 db where
    n: "x = Ok n" and t1: "bd_Set B ?t (delayed_key (D n)) (MarshalDelayedState E (D n) []) = Ok t1"
    and t2: "bd_Set B t1 (delayedOffsetPrefix @ fmt_020d n) (delayed_key (D n)) = Ok t2"
    and up: "db_Update B (Ok t2) (bg_db d) = (Ok (), db)" and d': "bg_db d' = db"
    by (cases x) (auto simp: bg_Delay_def Let_def setDelayedState_def setDelayedOffsetIndex_def delayed_key_def delayedOffsetKey_def D_def
        db_Update_def obind_Ok_iff split: outcome.splits option.splits)
  have nm: "n = int m" using seq n assms(6) by (auto simp: seq_next_def split: if_splits)
  have k: "keyed n" "\<forall>ds \<in> set dss. ds_Offset ds < n"
    using seq n assms(5) SeqNext
    by (fastforce simp: seq_next_def keyed_def MaxInt64_def split: prod.splits outcome.splits if_splits)+
  have off: "ds_Offset (D n) = n" by (simp add: D_def)
  note old = assms(3) [unfolded delayed_in_def]
  have ok: "txn_ok t2" "start t2 = bg_db d"
    using Set_txn_ok [OF _ t2] Set_txn_ok [OF txn_ok_new t1] by (simp_all add: NewTransaction)
  have com: "bd_Commit B t2 (start t2) = Some db" using up ok(2) by (auto simp: db_Update_def split: option.splits)
  have st: "stored (bg_db d') = view t2" using Commit_stored [OF ok(1) com] d' by simp
  have "index (view ?t) delayedOffsetPrefix (map (\<lambda>ds. (ds_Offset ds, delayed_key ds)) dss)" using old by (simp add: NewTransaction)
  then have "index (view t1) delayedOffsetPrefix (map (\<lambda>ds. (ds_Offset ds, delayed_key ds)) dss)"
    using Set_index_other [OF t1] by (simp add: delayed_key_def)
  from Set_index_append [OF t2 this k(1)] k(2) off
  have ix: "index (view t2) delayedOffsetPrefix (map (\<lambda>ds. (ds_Offset ds, delayed_key ds)) (dss @ [D n]))" by auto
  have other: "delayed_key ds \<noteq> delayed_key (D n)" if "ds \<in> set dss" for ds
    using delayedStateKey_offset [of "ds_Offset ds" n] old k that off by (auto simp: delayed_key_def list_all_iff delayable_def)
  have "map_of (view t2) (delayed_key ds) = Some (MarshalDelayedState E ds [])" if "ds \<in> set (dss @ [D n])" for ds
    using that old other by (auto simp: Set_map_of [OF t2] Set_map_of [OF t1] NewTransaction delayed_key_def delayedOffsetKey_def [symmetric])
  with ix old k off assms(7) nm have dl: "delayed_in E (view t2) (dss @ [D n])"
    by (auto simp: delayed_in_def sorted_wrt_append D_def [symmetric])
  have "states_in E (view ?t) sts" using assms(4) by (simp add: NewTransaction)
  then have "states_in E (view t1) sts" by (rule states_in_foreign [OF t1]) (simp_all add: delayed_key_def)
  then have "states_in E (view t2) sts" by (rule states_in_foreign [OF t2]) (simp_all add: delayedOffsetKey_def [symmetric])
  with dl show ?thesis unfolding st D_def nm by blast
qed

end

section \<open>Properties\<close>

definition delay_at :: "int \<Rightarrow> DelayCommand" where
  "delay_at sec = \<lparr>dl_StateCtx = None, dl_ExecuteAt = time_Unix sec 0, dl_Commit = True, dl_To = ''f'', dl_Annotations = None,
    dl_Result = Some \<lparr>ds_State = demo_state ''a'' 3 [], ds_Offset = 0, ds_ExecuteAt = time_Unix sec 0\<rparr>\<rparr>"

definition empty_driver :: "((string, string) RBT.rbt, nat) badgerdriver" where
  "empty_driver = \<lparr>bg_db = RBT.empty, bg_dataRevSeq = 1,
    bg_delayedOffsetSeq = \<lparr>sw_seq = 1, sw_ongoing = [], sw_maxOngoing = 0, sw_maxCommitted = 0\<rparr>,
    bg_stateRevSeq = \<lparr>sw_seq = 1, sw_ongoing = [], sw_maxOngoing = 0, sw_maxCommitted = 0\<rparr>\<rparr>"

definition delayed_once :: "((string, string) RBT.rbt, nat) badgerdriver" where
  "delayed_once = snd (bg_Delay tree_badger wire (delay_at 500) empty_driver)"

definition delayed_twice :: "((string, string) RBT.rbt, nat) badgerdriver" where
  "delayed_twice = snd (bg_Delay tree_badger wire (delay_at 100) delayed_once)"

definition demo_delayed :: "int \<Rightarrow> int \<Rightarrow> DelayedState" where
  "demo_delayed n sec = \<lparr>ds_State = demo_state ''a'' 3 [], ds_Offset = n, ds_ExecuteAt = time_Unix sec 0\<rparr>"

lemma delayed_runs:
  "fst (bg_Delay tree_badger wire (delay_at 500) empty_driver) = Ok ()" "fst (bg_Delay tree_badger wire (delay_at 100) delayed_once) = Ok ()"
  "bg_delayedOffsetSeq delayed_once = \<lparr>sw_seq = 2, sw_ongoing = [], sw_maxOngoing = 1, sw_maxCommitted = 1\<rparr>"
  "bg_delayedOffsetSeq delayed_twice = \<lparr>sw_seq = 3, sw_ongoing = [], sw_maxOngoing = 2, sw_maxCommitted = 2\<rparr>"
  by code_simp+

lemma demo_delays: "delayable (demo_delayed 1 500)" "delayable (demo_delayed 2 100)"
  by code_simp+

lemma delayed_first:
  "delayed_in wire (RBT.entries (bg_db delayed_once)) [demo_delayed 1 500] \<and> states_in wire (RBT.entries (bg_db delayed_once)) []"
proof -
  let ?res = "\<lparr>ds_State = demo_state ''a'' 3 [], ds_Offset = 0, ds_ExecuteAt = time_Unix 500 0\<rparr>"
  have r: "bg_Delay tree_badger wire (delay_at 500) empty_driver = (Ok (), delayed_once)" "dl_Result (delay_at 500) = Some ?res"
    using delayed_runs(1) by (simp_all add: delayed_once_def prod_eq_iff delay_at_def)
  have e: "RBT.entries (bg_db empty_driver) = []" by (simp add: empty_driver_def entries_empty)
  have st: "delayed_in wire (RBT.entries (bg_db empty_driver)) []" "states_in wire (RBT.entries (bg_db empty_driver)) []"
    unfolding e by (simp_all add: delayed_in_def index_empty states_in_empty)
  have n: "bd_SeqNext tree_badger (sw_seq (bg_delayedOffsetSeq empty_driver)) = (Ok 1, 2)"
    "delayable \<lparr>ds_State = ds_State ?res, ds_Offset = int 1, ds_ExecuteAt = dl_ExecuteAt (delay_at 500)\<rparr>"
    using demo_delays(1) by (simp_all add: empty_driver_def demo_delayed_def delay_at_def)
  from tree.Delay_spec [OF r st _ n] show ?thesis by (simp add: demo_delayed_def delay_at_def)
qed

definition demo_result :: DelayedState where
  "demo_result = \<lparr>ds_State = demo_state ''a'' 3 [], ds_Offset = 0, ds_ExecuteAt = time_Unix 100 0\<rparr>"

lemma second_delay:
  "bg_Delay tree_badger wire (delay_at 100) delayed_once = (Ok (), delayed_twice)" "dl_Result (delay_at 100) = Some demo_result"
  "\<forall>ds \<in> set [demo_delayed 1 500]. ds_Offset ds < int (sw_seq (bg_delayedOffsetSeq delayed_once))"
  "bd_SeqNext tree_badger (sw_seq (bg_delayedOffsetSeq delayed_once)) = (Ok 2, 3)"
  "\<lparr>ds_State = ds_State demo_result, ds_Offset = int 2, ds_ExecuteAt = dl_ExecuteAt (delay_at 100)\<rparr> = demo_delayed 2 100"
  "delayable \<lparr>ds_State = ds_State demo_result, ds_Offset = int 2, ds_ExecuteAt = dl_ExecuteAt (delay_at 100)\<rparr>"
  using delayed_runs(2) demo_delays(2)
  by (simp_all add: delayed_twice_def prod_eq_iff delay_at_def demo_result_def delayed_runs(3) demo_delayed_def)

text \<open>
  \<open>Delay\<close> adds its delayed state, under the next offset, to those of the store and to their
  index, and neither touches the other delayed states nor the states.
\<close>

lemma badger_Delay_stores:
  assumes "badger_laws B view stored writes start low" "bg_Delay B E cmd d = (Ok (), d')" "dl_Result cmd = Some res"
    and "delayed_in E (stored (bg_db d)) dss" "states_in E (stored (bg_db d)) sts"
    and "\<forall>ds \<in> set dss. ds_Offset ds < int (low (sw_seq (bg_delayedOffsetSeq d)))"
    and "bd_SeqNext B (sw_seq (bg_delayedOffsetSeq d)) = (Ok m, q)"
    and "delayable \<lparr>ds_State = ds_State res, ds_Offset = int m, ds_ExecuteAt = dl_ExecuteAt cmd\<rparr>"
  shows "delayed_in E (stored (bg_db d')) (dss @ [\<lparr>ds_State = ds_State res, ds_Offset = int m, ds_ExecuteAt = dl_ExecuteAt cmd\<rparr>])
    \<and> states_in E (stored (bg_db d')) sts"
  by (rule badger_laws.Delay_spec [OF assms])

lemma badger_Delay_stores_instance:
  "delayed_in wire (RBT.entries (bg_db delayed_twice)) [demo_delayed 1 500, demo_delayed 2 100]
    \<and> states_in wire (RBT.entries (bg_db delayed_twice)) []"
  using badger_Delay_stores [OF tree.badger_laws_axioms second_delay(1,2) conjunct1 [OF delayed_first] conjunct2 [OF delayed_first] second_delay(3,4,6), unfolded second_delay(5)]
  by simp

text \<open>
  C25: a query by offset goes through the delayed states in the order of their offsets, from the
  given offset on, and returns those that are due after \<open>Since\<close>, up to the first one that is due
  after \<open>Until\<close>, at most \<open>Limit\<close> of them, and \<open>More\<close> is exact. Two things set it apart from the
  in-memory driver: the state at the given offset is returned again, and a delayed state that is
  due late hides all that were delayed after it.
\<close>

theorem badger_GetDelayedStates_spec:
  assumes "badger_laws B view stored writes start low" "easyproto_laws E" "delayed_in E (stored (bg_db d)) dss"
    and "\<forall>ds \<in> set dss. ds_Offset ds \<le> maxViewable (bg_delayedOffsetSeq d)"
    and "gt_Offset cmd > 0 \<or> IsZero (gt_Since cmd)" "keyed (gt_Offset cmd)" "0 \<le> gt_Limit cmd"
  shows "bg_GetDelayedStates B E cmd d = (let ds = takeWhile (\<lambda>ds. Unix (ds_ExecuteAt ds) \<le> Unix (gt_Until cmd))
      (filter (\<lambda>ds. gt_Offset cmd \<le> ds_Offset ds \<and> Unix (gt_Since cmd) < Unix (ds_ExecuteAt ds)) dss)
    in Some (Ok (cmd\<lparr>gt_Result := Some \<lparr>gdr_States = take (nat (gt_Limit cmd)) ds, gdr_More = int (length ds) > gt_Limit cmd\<rparr>\<rparr>)))"
  using badger_laws.GetDelayedStates_offset [OF assms] by (simp add: page_of_def)

definition due_until :: "int \<Rightarrow> int \<Rightarrow> GetDelayedStatesCommand" where
  "due_until offset sec = \<lparr>gt_Since = zero_time, gt_Until = time_Unix sec 0, gt_Offset = offset, gt_Limit = 10, gt_Result = None\<rparr>"

theorem badger_GetDelayedStates_spec_witness:
  "bg_GetDelayedStates tree_badger wire (due_until 0 200) delayed_twice
      = Some (Ok ((due_until 0 200)\<lparr>gt_Result := Some \<lparr>gdr_States = [], gdr_More = False\<rparr>\<rparr>))
    \<and> bg_GetDelayedStates tree_badger wire (due_until 2 200) delayed_twice
      = Some (Ok ((due_until 2 200)\<lparr>gt_Result := Some \<lparr>gdr_States = [demo_delayed 2 100], gdr_More = False\<rparr>\<rparr>))"
proof -
  let ?dss = "[demo_delayed 1 500, demo_delayed 2 100]"
  have "delayed_in wire (RBT.entries (bg_db delayed_twice)) ?dss"
    using tree.Delay_spec [OF second_delay(1,2) conjunct1 [OF delayed_first] conjunct2 [OF delayed_first] second_delay(3,4,6), unfolded second_delay(5)]
    by simp
  moreover have "\<forall>ds \<in> set ?dss. ds_Offset ds \<le> maxViewable (bg_delayedOffsetSeq delayed_twice)"
    by (simp add: delayed_runs(4) demo_delayed_def maxViewable_def)
  moreover have "gt_Offset (due_until n 200) > 0 \<or> IsZero (gt_Since (due_until n 200))" "0 \<le> gt_Limit (due_until n 200)" for n
    by (simp_all add: due_until_def IsZero_def)
  moreover have "keyed (gt_Offset (due_until 0 200))" "keyed (gt_Offset (due_until 2 200))" by code_simp+
  moreover have "takeWhile (\<lambda>ds. Unix (ds_ExecuteAt ds) \<le> Unix (gt_Until (due_until 0 200)))
      (filter (\<lambda>ds. gt_Offset (due_until 0 200) \<le> ds_Offset ds \<and> Unix (gt_Since (due_until 0 200)) < Unix (ds_ExecuteAt ds)) ?dss) = []"
    "takeWhile (\<lambda>ds. Unix (ds_ExecuteAt ds) \<le> Unix (gt_Until (due_until 2 200)))
      (filter (\<lambda>ds. gt_Offset (due_until 2 200) \<le> ds_Offset ds \<and> Unix (gt_Since (due_until 2 200)) < Unix (ds_ExecuteAt ds)) ?dss)
      = [demo_delayed 2 100]"
    by code_simp+
  moreover have "gt_Limit (due_until n 200) = 10" for n by (simp add: due_until_def)
  ultimately show ?thesis
    using badger_GetDelayedStates_spec [OF tree.badger_laws_axioms pbwire.easyproto_laws_axioms] by (simp add: Let_def)
qed

text \<open>
  A query from a time on without an offset never returns a delayed state. It walks the
  delayed states themselves, not their index, and only those of that very second, and takes what
  it finds, an encoded state, for the key to look up: it fails as soon as there is one, and finds
  nothing otherwise.
\<close>

lemma badger_GetDelayedStates_since:
  assumes "badger_laws B view stored writes start low" "\<not> IsZero (gt_Since cmd)" "gt_Offset cmd \<le> 0"
    and "\<forall>(k, v) \<in> set (stored (bg_db d)). prefix (delayedStatePrefix (gt_Since cmd)) k \<longrightarrow> map_of (stored (bg_db d)) v = None"
  shows "bg_GetDelayedStates B E cmd d = Some (Ok (cmd\<lparr>gt_Result := Some \<lparr>gdr_States = [], gdr_More = False\<rparr>\<rparr>))
    \<or> (\<exists>err. bg_GetDelayedStates B E cmd d = Some (Err err))"
  by (rule badger_laws.GetDelayedStates_since [OF assms])

definition due_since :: "int \<Rightarrow> GetDelayedStatesCommand" where
  "due_since sec = (due_until 0 1000)\<lparr>gt_Since := time_Unix sec 0\<rparr>"

lemma badger_GetDelayedStates_since_instance:
  "bg_GetDelayedStates tree_badger wire (due_since 50) delayed_twice
      = Some (Ok ((due_since 50)\<lparr>gt_Result := Some \<lparr>gdr_States = [], gdr_More = False\<rparr>\<rparr>))
    \<or> (\<exists>err. bg_GetDelayedStates tree_badger wire (due_since 50) delayed_twice = Some (Err err))"
proof (rule badger_GetDelayedStates_since [OF tree.badger_laws_axioms])
  have "list_all (\<lambda>(k, v). prefix (delayedStatePrefix (gt_Since (due_since 50))) k \<longrightarrow> RBT.lookup (bg_db delayed_twice) v = None)
      (RBT.entries (bg_db delayed_twice))" by code_simp
  then show "\<forall>(k, v) \<in> set (RBT.entries (bg_db delayed_twice)). prefix (delayedStatePrefix (gt_Since (due_since 50))) k \<longrightarrow>
      map_of (RBT.entries (bg_db delayed_twice)) v = None" by (simp add: list_all_iff RBT.map_of_entries)
qed code_simp+

end
