(* ===== verification/Http.thy ===== *)
theory Http
  imports Errors Easyproto
begin

text \<open>
  What \<open>netdriver\<close> and \<open>netflow\<close> share: requests and responses, the functions of \<open>strings\<close> they call,
  the client's side of a connection, and the message that carries an error.
\<close>

section \<open>Requests and responses\<close>

text \<open>\<open>rq_Body\<close> is what \<open>io.ReadAll\<close> yields. The body of a response is what has been written to it.\<close>

record HttpRequest =
  rq_Path :: string
  rq_ContentType :: string
  rq_Body :: "string outcome"

record HttpResponse =
  rs_Status :: nat
  rs_ContentType :: string
  rs_Body :: string

text \<open>
  The network as the client sees it: \<open>http.NewRequest\<close> may refuse an address; \<open>Do\<close> posts a body to it
  and yields a status and what \<open>io.ReadAll\<close> reads of the body. \<open>'n\<close> is the state at the other end.
\<close>

record 'n transport =
  nt_NewRequest :: "string \<Rightarrow> error option"
  nt_Do :: "string \<Rightarrow> string \<Rightarrow> 'n \<Rightarrow> (nat \<times> string outcome) outcome \<times> 'n"

text \<open>A handler that does not know the path leaves the request alone: \<open>None\<close>.\<close>

type_synonym 'd handler = "HttpRequest \<Rightarrow> 'd \<Rightarrow> (HttpResponse outcome \<times> 'd) option"

section \<open>Strings\<close>

definition TrimRight :: "string \<Rightarrow> char \<Rightarrow> string" where
  "TrimRight s c = rev (dropWhile (\<lambda>x. x = c) (rev s))"

definition HasPrefix :: "string \<Rightarrow> string \<Rightarrow> bool" where
  "HasPrefix s p \<longleftrightarrow> take (length p) s = p"

fun Contains :: "string \<Rightarrow> string \<Rightarrow> bool" where
  "Contains [] sub = (sub = [])"
| "Contains (c # s) sub = (HasPrefix (c # s) sub \<or> Contains s sub)"

text \<open>\<open>strings.Cut\<close>: what follows the first \<open>sep\<close>, nothing when there is none.\<close>

fun Cut_after :: "string \<Rightarrow> string \<Rightarrow> string" where
  "Cut_after [] sep = []"
| "Cut_after (c # s) sep = (if HasPrefix (c # s) sep then drop (length sep) (c # s) else Cut_after s sep)"

text \<open>\<open>strings.Split\<close> at one character.\<close>

fun Split :: "string \<Rightarrow> char \<Rightarrow> string list" where
  "Split [] sep = [[]]"
| "Split (c # s) sep =
    (if c = sep then [] # Split s sep
     else case Split s sep of [] \<Rightarrow> [[c]] | w # ws \<Rightarrow> (c # w) # ws)"

text \<open>\<open>strings.TrimSpace\<close> on text whose white space is ASCII.\<close>

definition is_space :: "char \<Rightarrow> bool" where
  "is_space c \<longleftrightarrow> (of_char c :: nat) \<in> {9, 10, 11, 12, 13, 32}"

definition TrimSpace :: "string \<Rightarrow> string" where
  "TrimSpace s = rev (dropWhile is_space (rev (dropWhile is_space s)))"

lemma HasPrefix_append [simp]: "HasPrefix (p @ s) p"
  by (simp add: HasPrefix_def)

lemma Contains_prefix: "HasPrefix s p \<Longrightarrow> Contains s p"
  by (cases s) (auto simp: HasPrefix_def)

lemma Contains_append [simp]: "Contains (a @ p @ b) p"
  by (induction a) (auto intro: Contains_prefix)

lemma HasPrefix_longer: "HasPrefix s p \<Longrightarrow> HasPrefix (s @ b) p"
  by (auto simp: HasPrefix_def) (metis append_take_drop_id length_take min_def nat_le_linear take_all_iff append_Nil2 self_append_conv)

lemma Contains_wrap: "Contains s p \<Longrightarrow> Contains (a @ s @ b) p"
proof (induction a)
  case Nil
  then show ?case
  proof (induction s)
    case Nil
    then show ?case by (cases b) (auto simp: HasPrefix_def)
  next
    case (Cons c s)
    then show ?case using HasPrefix_longer [of "c # s" p b] by auto
  qed
qed auto

lemma Cut_after_prefix: "p \<noteq> [] \<Longrightarrow> Cut_after (p @ s) p = s"
  by (cases p) (auto simp: HasPrefix_def)

lemma Split_plain: "sep \<notin> set s \<Longrightarrow> Split s sep = [s]"
  by (induction s) auto

lemma Split_append: "sep \<notin> set s \<Longrightarrow> Split (s @ sep # t) sep = s # Split t sep"
  by (induction s) auto

section \<open>Errors on the wire\<close>

definition marshalError :: "'c easyproto \<Rightarrow> string \<Rightarrow> string \<Rightarrow> string" where
  "marshalError E code message =
    ep_Marshal E ((if code \<noteq> [] then [(1, PString code)] else []) @ (if message \<noteq> [] then [(2, PString message)] else []))"

definition unmarshalError_field :: "'c easyproto \<Rightarrow> 'c \<Rightarrow> string \<times> string \<Rightarrow> (string \<times> string) \<times> unit outcome" where
  "unmarshalError_field E fc s =
    (if ep_FieldNum E fc = 1 then rd_string E fc ''cannot read code field'' (\<lambda>v. (v, snd s)) s
     else if ep_FieldNum E fc = 2 then rd_string E fc ''cannot read message field'' (\<lambda>v. (fst s, v)) s
     else (s, Ok ()))"

definition unmarshalError :: "'c easyproto \<Rightarrow> string \<Rightarrow> (string \<times> string) outcome" where
  "unmarshalError E src = (case fieldLoop E (unmarshalError_field E) src ([], []) of (s, r) \<Rightarrow> obind r (\<lambda>_. Ok s))"

context easyproto_laws
begin

lemma Error_roundtrip: "unmarshalError E (marshalError E code message) = Ok (code, message)"
proof -
  let ?b = "unmarshalError_field E"
  have "consumes E ?b (if code \<noteq> [] then [(1, PString code)] else []) ([], []) (code, [])"
    by (rule consumes_if, rule consumes_field) (auto simp: unmarshalError_field_def rd_defs)
  moreover have "consumes E ?b (if message \<noteq> [] then [(2, PString message)] else []) (code, []) (code, message)"
    by (rule consumes_if, rule consumes_field) (auto simp: unmarshalError_field_def rd_defs)
  ultimately show ?thesis
    unfolding unmarshalError_def marshalError_def by (simp add: consumes_done [OF consumes_append])
qed

end

section \<open>A server behind the network\<close>

text \<open>
  A network that leads to \<open>H\<close> at the address \<open>base\<close>: a response arrives as it was written, a request
  that no handler takes is answered with the status 404, and a handler that panics closes the
  connection, which the client sees as an error.
\<close>

locale http_server =
  fixes T :: "'n transport" and base :: string and H :: "'n handler"
  assumes new_request: "nt_NewRequest T (base @ p) = None"
    and answered: "H \<lparr>rq_Path = p, rq_ContentType = [], rq_Body = Ok b\<rparr> n = Some (Ok rs, n')
      \<Longrightarrow> nt_Do T (base @ p) b n = (Ok (rs_Status rs, Ok (rs_Body rs)), n')"
    and aborted: "H \<lparr>rq_Path = p, rq_ContentType = [], rq_Body = Ok b\<rparr> n = Some (r, n') \<Longrightarrow> \<not> is_ok r
      \<Longrightarrow> \<exists>err. nt_Do T (base @ p) b n = (Err err, n')"
    and unknown_path: "H \<lparr>rq_Path = p, rq_ContentType = [], rq_Body = Ok b\<rparr> n = None
      \<Longrightarrow> \<exists>text. nt_Do T (base @ p) b n = (Ok (404, Ok text), n)"

text \<open>A network without failures, at one address.\<close>

definition direct_net :: "string \<Rightarrow> 'n handler \<Rightarrow> 'n transport" where
  "direct_net base H = \<lparr>nt_NewRequest = \<lambda>_. None,
    nt_Do = \<lambda>url b n.
      (if HasPrefix url base then
         case H \<lparr>rq_Path = drop (length base) url, rq_ContentType = [], rq_Body = Ok b\<rparr> n of
           None \<Rightarrow> (Ok (404, Ok ''404 page not found''), n)
         | Some (Ok rs, n') \<Rightarrow> (Ok (rs_Status rs, Ok (rs_Body rs)), n')
         | Some (_, n') \<Rightarrow> (Err (Errorf ''EOF''), n')
       else (Err (Errorf ''no such host''), n))\<rparr>"

interpretation direct: http_server "direct_net base H" base H
  by unfold_locales (auto simp: direct_net_def split: outcome.splits)

end
