(* ===== verification/Netdriver.thy ===== *)
theory Netdriver
  imports Engine ProtobufCmd Http
begin

text \<open>
  \<open>netdriver/server.go\<close>: the handlers that run a command, read from a request, against a driver and
  write it back; \<open>netdriver/driver.go\<close>: the driver that sends its commands to such handlers and copies
  what comes back into the command it was given. The JSON codec, which only the server uses, is an
  argument.
\<close>

section \<open>Commands with their contexts\<close>

text \<open>A decoded command points into the list of the contexts that came with it.\<close>

definition ctxs_heap :: "StateCtx list \<Rightarrow> heap" where
  "ctxs_heap ctxs a = (if a < length ctxs then Some (ctxs ! a) else None)"

record json_codec =
  js_UnmarshalCommand :: "string \<Rightarrow> (Command \<times> StateCtx list) outcome"
  js_MarshalCommand :: "heap \<Rightarrow> Command \<Rightarrow> string outcome"
  js_UnmarshalStateCtx :: "string \<Rightarrow> StateCtx outcome"
  js_Error :: "string \<Rightarrow> string \<Rightarrow> string"

definition is_proto :: "HttpRequest \<Rightarrow> bool" where
  "is_proto req \<longleftrightarrow> rq_ContentType req \<noteq> ''application/json''"

definition content_type :: "bool \<Rightarrow> string" where
  "content_type proto = (if proto then ''application/proto'' else ''application/json'')"

text \<open>\<open>as\<close> is the assertion that the command has the type \<open>T\<close>, \<open>want\<close> the name of that type.\<close>

definition readCmd ::
  "'c libs \<Rightarrow> json_codec \<Rightarrow> string \<Rightarrow> (Command \<Rightarrow> 'k option) \<Rightarrow> HttpRequest \<Rightarrow> ('k \<times> heap) outcome" where
  "readCmd lb J want as req =
    obind (wrap_err ''failed to read request body: '' (rq_Body req)) (\<lambda>reqBody.
    obind (if rq_ContentType req = ''application/json''
           then wrap_err ''failed to unmarshal JSON command: '' (js_UnmarshalCommand J reqBody)
           else wrap_err ''failed to unmarshal command: '' (UnmarshalCommand (lib_easyproto lb) reqBody))
      (\<lambda>(cmd0, ctxs). case as cmd0 of
         Some cmd \<Rightarrow> Ok (cmd, ctxs_heap ctxs)
       | None \<Rightarrow> Err (Errorf (''invalid command type: expected '' @ want @ ''; got: '' @ cmd_type cmd0))))"

text \<open>The error of the JSON codec is dropped: the body stays empty.\<close>

definition writeCmd :: "'c libs \<Rightarrow> json_codec \<Rightarrow> heap \<Rightarrow> Command \<Rightarrow> bool \<Rightarrow> HttpResponse outcome" where
  "writeCmd lb J h cmd proto =
    obind (if proto then MarshalCommand (lib_easyproto lb) h cmd []
           else case js_MarshalCommand J h cmd of Err _ \<Rightarrow> Ok [] | r \<Rightarrow> r)
      (\<lambda>b. Ok \<lparr>rs_Status = 200, rs_ContentType = content_type proto, rs_Body = b\<rparr>)"

definition write_error :: "'c libs \<Rightarrow> json_codec \<Rightarrow> nat \<Rightarrow> string \<Rightarrow> string \<Rightarrow> bool \<Rightarrow> HttpResponse outcome" where
  "write_error lb J status code message proto =
    Ok \<lparr>rs_Status = status, rs_ContentType = content_type proto,
      rs_Body = (if proto then marshalError (lib_easyproto lb) code message else js_Error J code message)\<rparr>"

definition writeInvalidArgumentError :: "'c libs \<Rightarrow> json_codec \<Rightarrow> error \<Rightarrow> bool \<Rightarrow> HttpResponse outcome" where
  "writeInvalidArgumentError lb J err = write_error lb J 400 ''invalid_argument'' (error_text err)"

definition writeUnknownError :: "'c libs \<Rightarrow> json_codec \<Rightarrow> error \<Rightarrow> bool \<Rightarrow> HttpResponse outcome" where
  "writeUnknownError lb J err = write_error lb J 500 ''unknown'' (error_text err)"

definition writeNotFoundError :: "'c libs \<Rightarrow> json_codec \<Rightarrow> error \<Rightarrow> bool \<Rightarrow> HttpResponse outcome" where
  "writeNotFoundError lb J err = write_error lb J 404 ''not_found'' (error_text err)"

definition writeAbortedError :: "'c libs \<Rightarrow> json_codec \<Rightarrow> error \<Rightarrow> bool \<Rightarrow> HttpResponse outcome" where
  "writeAbortedError lb J err = write_error lb J 409 ''aborted'' (error_text err)"

lemmas write_error_defs = writeInvalidArgumentError_def writeUnknownError_def writeNotFoundError_def
  writeAbortedError_def write_error_def

section \<open>The handlers\<close>

text \<open>\<open>if err := ...; err != nil { write the error; return true }\<close>, and go on otherwise.\<close>

definition checked ::
  "'a outcome \<Rightarrow> (error \<Rightarrow> HttpResponse outcome) \<Rightarrow> 'd \<Rightarrow> ('a \<Rightarrow> HttpResponse outcome \<times> 'd) \<Rightarrow> HttpResponse outcome \<times> 'd" where
  "checked r bad d good = (case r of Ok x \<Rightarrow> good x | Err err \<Rightarrow> (bad err, d) | Panic p \<Rightarrow> (Panic p, d))"

definition LogCommand :: "heap \<Rightarrow> Command \<Rightarrow> unit outcome" where
  "LogCommand h cmd = obind (cmdsSessID h [cmd]) (\<lambda>_. logCommand h cmd)"

fun as_GetStateByID :: "Command \<Rightarrow> GetStateByIDCommand option" where
  "as_GetStateByID (GetStateByIDCmd cmd) = Some cmd" | "as_GetStateByID _ = None"

fun as_GetStateByLabels :: "Command \<Rightarrow> GetStateByLabelsCommand option" where
  "as_GetStateByLabels (GetStateByLabelsCmd cmd) = Some cmd" | "as_GetStateByLabels _ = None"

fun as_GetStates :: "Command \<Rightarrow> GetStatesCommand option" where
  "as_GetStates (GetStatesCmd cmd) = Some cmd" | "as_GetStates _ = None"

fun as_GetDelayedStates :: "Command \<Rightarrow> GetDelayedStatesCommand option" where
  "as_GetDelayedStates (GetDelayedStatesCmd cmd) = Some cmd" | "as_GetDelayedStates _ = None"

fun as_Delay :: "Command \<Rightarrow> DelayCommand option" where
  "as_Delay (DelayCmd cmd) = Some cmd" | "as_Delay _ = None"

fun as_Commit :: "Command \<Rightarrow> Command list option" where
  "as_Commit (CommitCmd cmds) = Some cmds" | "as_Commit _ = None"

fun as_GetData :: "Command \<Rightarrow> GetDataCommand option" where
  "as_GetData (GetDataCmd cmd) = Some cmd" | "as_GetData _ = None"

fun as_StoreData :: "Command \<Rightarrow> StoreDataCommand option" where
  "as_StoreData (StoreDataCmd cmd) = Some cmd" | "as_StoreData _ = None"

definition HandleGetStateByID :: "'c libs \<Rightarrow> json_codec \<Rightarrow> 'd Driver \<Rightarrow> 'd handler" where
  "HandleGetStateByID lb J D req d =
    (if rq_Path req \<noteq> ''/flowstate.v1.Driver/GetStateByID'' then None
     else let proto = is_proto req; bad = (\<lambda>err. writeInvalidArgumentError lb J err proto) in Some
       (checked (readCmd lb J ''*flowstate.GetStateByIDCommand'' as_GetStateByID req) bad d (\<lambda>(cmd, h).
        checked (GetStateByID_Prepare cmd) bad d (\<lambda>_.
        checked (LogCommand h (GetStateByIDCmd cmd)) bad d (\<lambda>_.
          case drv_GetStateByID D cmd h d of
            (Ok _, h1, d1) \<Rightarrow> (writeCmd lb J h1 (GetStateByIDCmd cmd) proto, d1)
          | (Err err, h1, d1) \<Rightarrow> ((if Is_ErrNotFound err then writeNotFoundError lb J err proto
              else writeUnknownError lb J err proto), d1)
          | (Panic p, h1, d1) \<Rightarrow> (Panic p, d1))))))"

definition HandleGetStateByLabels :: "'c libs \<Rightarrow> json_codec \<Rightarrow> 'd Driver \<Rightarrow> 'd handler" where
  "HandleGetStateByLabels lb J D req d =
    (if rq_Path req \<noteq> ''/flowstate.v1.Driver/GetStateByLabels'' then None
     else let proto = is_proto req; bad = (\<lambda>err. writeInvalidArgumentError lb J err proto) in Some
       (checked (readCmd lb J ''*flowstate.GetStateByLabelsCommand'' as_GetStateByLabels req) bad d (\<lambda>(cmd, h).
        checked (LogCommand h (GetStateByLabelsCmd cmd)) bad d (\<lambda>_.
          case drv_GetStateByLabels D cmd h d of
            (Ok _, h1, d1) \<Rightarrow> (writeCmd lb J h1 (GetStateByLabelsCmd cmd) proto, d1)
          | (Err err, h1, d1) \<Rightarrow> ((if Is_ErrNotFound err then writeNotFoundError lb J err proto
              else writeUnknownError lb J err proto), d1)
          | (Panic p, h1, d1) \<Rightarrow> (Panic p, d1)))))"

definition HandleGetStates :: "'c libs \<Rightarrow> json_codec \<Rightarrow> 'd Driver \<Rightarrow> 'd handler" where
  "HandleGetStates lb J D req d =
    (if rq_Path req \<noteq> ''/flowstate.v1.Driver/GetStates'' then None
     else let proto = is_proto req; bad = (\<lambda>err. writeInvalidArgumentError lb J err proto) in Some
       (checked (readCmd lb J ''*flowstate.GetStatesCommand'' as_GetStates req) bad d (\<lambda>(cmd, h).
        checked (LogCommand h (GetStatesCmd cmd)) bad d (\<lambda>_.
          case drv_GetStates D cmd d of
            (Ok cmd1, d1) \<Rightarrow> (writeCmd lb J h (GetStatesCmd cmd1) proto, d1)
          | (Err err, d1) \<Rightarrow> (writeUnknownError lb J err proto, d1)
          | (Panic p, d1) \<Rightarrow> (Panic p, d1)))))"

definition HandleGetDelayedStates :: "'c libs \<Rightarrow> json_codec \<Rightarrow> time \<Rightarrow> 'd Driver \<Rightarrow> 'd handler" where
  "HandleGetDelayedStates lb J now D req d =
    (if rq_Path req \<noteq> ''/flowstate.v1.Driver/GetDelayedStates'' then None
     else let proto = is_proto req; bad = (\<lambda>err. writeInvalidArgumentError lb J err proto) in Some
       (checked (readCmd lb J ''*flowstate.GetDelayedStatesCommand'' as_GetDelayedStates req) bad d (\<lambda>(cmd0, h).
        let cmd = GetDelayedStates_Prepare now cmd0 in
        checked (LogCommand h (GetDelayedStatesCmd cmd)) bad d (\<lambda>_.
          case drv_GetDelayedStates D cmd d of
            (Ok cmd1, d1) \<Rightarrow> (writeCmd lb J h (GetDelayedStatesCmd cmd1) proto, d1)
          | (Err err, d1) \<Rightarrow> (writeUnknownError lb J err proto, d1)
          | (Panic p, d1) \<Rightarrow> (Panic p, d1)))))"

definition HandleDelay :: "'c libs \<Rightarrow> json_codec \<Rightarrow> 'd Driver \<Rightarrow> 'd handler" where
  "HandleDelay lb J D req d =
    (if rq_Path req \<noteq> ''/flowstate.v1.Driver/Delay'' then None
     else let proto = is_proto req; bad = (\<lambda>err. writeInvalidArgumentError lb J err proto) in Some
       (checked (readCmd lb J ''*flowstate.DelayCommand'' as_Delay req) bad d (\<lambda>(cmd0, h).
        checked (Delay_Prepare lb cmd0 h) bad d (\<lambda>cmd.
        checked (LogCommand h (DelayCmd cmd)) bad d (\<lambda>_.
          case drv_Delay D cmd d of
            (Ok _, d1) \<Rightarrow> (writeCmd lb J h (DelayCmd cmd) proto, d1)
          | (Err err, d1) \<Rightarrow> (writeUnknownError lb J err proto, d1)
          | (Panic p, d1) \<Rightarrow> (Panic p, d1))))))"

definition HandleCommit :: "'c libs \<Rightarrow> json_codec \<Rightarrow> 'd Driver \<Rightarrow> 'd handler" where
  "HandleCommit lb J D req d =
    (if rq_Path req \<noteq> ''/flowstate.v1.Driver/Commit'' then None
     else let proto = is_proto req; bad = (\<lambda>err. writeInvalidArgumentError lb J err proto) in Some
       (checked (readCmd lb J ''*flowstate.CommitCommand'' as_Commit req) bad d (\<lambda>(cmds, h).
        checked (LogCommand h (CommitCmd cmds)) bad d (\<lambda>_.
          case drv_Commit D cmds h d of
            (Ok _, cmds1, h1, d1) \<Rightarrow> (writeCmd lb J h1 (CommitCmd cmds1) proto, d1)
          | (Err err, cmds1, h1, d1) \<Rightarrow>
              ((if IsErrRevMismatch err then writeAbortedError lb J err proto
                else if Is_ErrNotFound err then writeNotFoundError lb J err proto
                else writeUnknownError lb J err proto), d1)
          | (Panic p, cmds1, h1, d1) \<Rightarrow> (Panic p, d1)))))"

text \<open>What \<open>Prepare\<close> of the two data commands answers is ignored: the server always calls the driver.\<close>

definition HandleGetData :: "'c libs \<Rightarrow> json_codec \<Rightarrow> 'd Driver \<Rightarrow> 'd handler" where
  "HandleGetData lb J D req d =
    (if rq_Path req \<noteq> ''/flowstate.v1.Driver/GetData'' then None
     else let proto = is_proto req; bad = (\<lambda>err. writeInvalidArgumentError lb J err proto) in Some
       (checked (readCmd lb J ''*flowstate.GetDataCommand'' as_GetData req) bad d (\<lambda>(cmd, h0).
        case GetData_Prepare cmd h0 of (prepared, h) \<Rightarrow> checked prepared bad d (\<lambda>_.
          case drv_GetData D cmd h d of
            (Ok _, h1, d1) \<Rightarrow> (writeCmd lb J h1 (GetDataCmd cmd) proto, d1)
          | (Err err, h1, d1) \<Rightarrow> (writeUnknownError lb J err proto, d1)
          | (Panic p, h1, d1) \<Rightarrow> (Panic p, d1)))))"

definition HandleStoreData :: "'c libs \<Rightarrow> json_codec \<Rightarrow> 'd Driver \<Rightarrow> 'd handler" where
  "HandleStoreData lb J D req d =
    (if rq_Path req \<noteq> ''/flowstate.v1.Driver/StoreData'' then None
     else let proto = is_proto req; bad = (\<lambda>err. writeInvalidArgumentError lb J err proto) in Some
       (checked (readCmd lb J ''*flowstate.StoreDataCommand'' as_StoreData req) bad d (\<lambda>(cmd, h0).
        case StoreData_Prepare lb cmd h0 of (prepared, h) \<Rightarrow> checked prepared bad d (\<lambda>_.
        checked (LogCommand h (StoreDataCmd cmd)) bad d (\<lambda>_.
          case drv_StoreData D cmd h d of
            (Ok _, h1, d1) \<Rightarrow> (writeCmd lb J h1 (StoreDataCmd cmd) proto, d1)
          | (Err err, h1, d1) \<Rightarrow> (writeUnknownError lb J err proto, d1)
          | (Panic p, h1, d1) \<Rightarrow> (Panic p, d1))))))"

text \<open>The handlers in turn, until one takes the request.\<close>

definition or_else :: "'d handler \<Rightarrow> 'd handler \<Rightarrow> 'd handler" where
  "or_else H H' req d = (case H req d of None \<Rightarrow> H' req d | r \<Rightarrow> r)"

definition HandleAll :: "'c libs \<Rightarrow> json_codec \<Rightarrow> time \<Rightarrow> 'd Driver \<Rightarrow> 'd handler" where
  "HandleAll lb J now D =
    or_else (HandleGetStateByID lb J D) (or_else (HandleGetStateByLabels lb J D) (or_else (HandleCommit lb J D)
    (or_else (HandleGetStates lb J D) (or_else (HandleGetDelayedStates lb J now D) (or_else (HandleDelay lb J D)
    (or_else (HandleGetData lb J D) (HandleStoreData lb J D)))))))"

section \<open>The client\<close>

text \<open>\<open>resCmd.StateCtx.CopyTo(inCmd.StateCtx)\<close>: from the contexts of the response to the caller's heap.\<close>

definition copy_back :: "StateCtx list \<Rightarrow> ctx_ref \<Rightarrow> ctx_ref \<Rightarrow> heap \<Rightarrow> unit outcome \<times> heap" where
  "copy_back ctxs res p h =
    (case deref (ctxs_heap ctxs) res of
       None \<Rightarrow> (nil_deref, h)
     | Some c \<Rightarrow> with_ctx h p (\<lambda>to. (Ok (), StateCtx_CopyTo c to)))"

text \<open>\<open>for n, resD := range resCmd.StateCtx.Datas { inD := inCmd.StateCtx.MustData(n); resD.CopyTo(inD) }\<close>.\<close>

fun copy_back_Datas :: "(string \<times> Data option) list \<Rightarrow> StateCtx \<Rightarrow> unit outcome \<times> StateCtx" where
  "copy_back_Datas [] c = (Ok (), c)"
| "copy_back_Datas ((n, resD) # ds) c =
    (case MustData c n of
       Ok (Some inD) \<Rightarrow>
         (case resD of
            None \<Rightarrow> (nil_deref, c)
          | Some d \<Rightarrow> copy_back_Datas ds (SetData c n (Some (Data_CopyTo d inD))))
     | Ok None \<Rightarrow> (nil_deref, c)
     | Err err \<Rightarrow> (Err err, c)
     | Panic p \<Rightarrow> (Panic p, c))"

definition copy_back_data :: "StateCtx list \<Rightarrow> ctx_ref \<Rightarrow> ctx_ref \<Rightarrow> heap \<Rightarrow> unit outcome \<times> heap" where
  "copy_back_data ctxs res p h =
    (case copy_back ctxs res p h of
       (Ok _, h1) \<Rightarrow> with_ctx h1 p (copy_back_Datas
         (case deref (ctxs_heap ctxs) res of None \<Rightarrow> [] | Some c \<Rightarrow> gm_entries (sc_Datas c)))
     | r \<Rightarrow> r)"

definition copy_back_two ::
  "StateCtx list \<Rightarrow> ctx_ref \<Rightarrow> ctx_ref \<Rightarrow> ctx_ref \<Rightarrow> ctx_ref \<Rightarrow> heap \<Rightarrow> unit outcome \<times> heap" where
  "copy_back_two ctxs res1 p1 res2 p2 h =
    (case copy_back ctxs res1 p1 h of (Ok _, h1) \<Rightarrow> copy_back ctxs res2 p2 h1 | r \<Rightarrow> r)"

definition not_a :: "string \<Rightarrow> error" where
  "not_a name = Errorf (''resCmd is not a '' @ name)"

text \<open>
  The command comes back because the reads of many states store their result in it. The result of a
  delay is assigned from the caller's command to the response, so it does not arrive.
\<close>

fun syncResult :: "StateCtx list \<Rightarrow> Command \<Rightarrow> Command \<Rightarrow> heap \<Rightarrow> unit outcome \<times> Command \<times> heap"
  and syncResults :: "StateCtx list \<Rightarrow> nat \<Rightarrow> Command list \<Rightarrow> Command list \<Rightarrow> heap \<Rightarrow> unit outcome \<times> Command list \<times> heap" where
  "syncResult ctxs (TransitCmd cmd) res h =
    (case res of
       TransitCmd resCmd \<Rightarrow> (case copy_back ctxs (tr_StateCtx resCmd) (tr_StateCtx cmd) h of (r, h1) \<Rightarrow> (r, TransitCmd cmd, h1))
     | _ \<Rightarrow> (Err (not_a ''TransitCommand''), TransitCmd cmd, h))"
| "syncResult ctxs (ParkCmd cmd) res h =
    (case res of
       ParkCmd resCmd \<Rightarrow> (case copy_back ctxs (pk_StateCtx resCmd) (pk_StateCtx cmd) h of (r, h1) \<Rightarrow> (r, ParkCmd cmd, h1))
     | _ \<Rightarrow> (Err (not_a ''ParkCommand''), ParkCmd cmd, h))"
| "syncResult ctxs (ExecuteCmd cmd) res h =
    (case res of
       ExecuteCmd resCmd \<Rightarrow> (case copy_back ctxs (ex_StateCtx resCmd) (ex_StateCtx cmd) h of (r, h1) \<Rightarrow> (r, ExecuteCmd cmd, h1))
     | _ \<Rightarrow> (Err (not_a ''ExecuteCommand''), ExecuteCmd cmd, h))"
| "syncResult ctxs (DelayCmd cmd) res h =
    (case res of
       DelayCmd resCmd \<Rightarrow> (case copy_back ctxs (dl_StateCtx resCmd) (dl_StateCtx cmd) h of (r, h1) \<Rightarrow> (r, DelayCmd cmd, h1))
     | _ \<Rightarrow> (Err (not_a ''DelayCommand''), DelayCmd cmd, h))"
| "syncResult ctxs (CommitCmd cmds) res h =
    (case res of
       CommitCmd resCmds \<Rightarrow>
         (if length resCmds \<noteq> length cmds then
            (Err (Errorf (''resCmd.Commands length mismatch: got '' @ FormatInt (int (length resCmds))
               @ '', want '' @ FormatInt (int (length cmds)))), CommitCmd cmds, h)
          else case syncResults ctxs 0 cmds resCmds h of (r, cs, h1) \<Rightarrow> (r, CommitCmd cs, h1))
     | _ \<Rightarrow> (Err (not_a ''CommitCommand''), CommitCmd cmds, h))"
| "syncResult ctxs NoopCmd res h =
    (case res of NoopCmd \<Rightarrow> (Ok (), NoopCmd, h) | _ \<Rightarrow> (Err (not_a ''NoopCommand''), NoopCmd, h))"
| "syncResult ctxs (StackCmd cmd) res h =
    (case res of
       StackCmd resCmd \<Rightarrow>
         (case copy_back_two ctxs (st_CarrierStateCtx resCmd) (st_CarrierStateCtx cmd)
            (st_StackedStateCtx resCmd) (st_StackedStateCtx cmd) h of (r, h1) \<Rightarrow> (r, StackCmd cmd, h1))
     | _ \<Rightarrow> (Err (not_a ''StackCommand''), StackCmd cmd, h))"
| "syncResult ctxs (UnstackCmd cmd) res h =
    (case res of
       UnstackCmd resCmd \<Rightarrow>
         (case copy_back_two ctxs (un_CarrierStateCtx resCmd) (un_CarrierStateCtx cmd)
            (un_UnstackStateCtx resCmd) (un_UnstackStateCtx cmd) h of (r, h1) \<Rightarrow> (r, UnstackCmd cmd, h1))
     | _ \<Rightarrow> (Err (not_a ''UnstackCommand''), UnstackCmd cmd, h))"
| "syncResult ctxs (GetDataCmd cmd) res h =
    (case res of
       GetDataCmd resCmd \<Rightarrow> (case copy_back_data ctxs (gd_StateCtx resCmd) (gd_StateCtx cmd) h of (r, h1) \<Rightarrow> (r, GetDataCmd cmd, h1))
     | _ \<Rightarrow> (Err (not_a ''GetDataCommand''), GetDataCmd cmd, h))"
| "syncResult ctxs (StoreDataCmd cmd) res h =
    (case res of
       StoreDataCmd resCmd \<Rightarrow> (case copy_back_data ctxs (sd_StateCtx resCmd) (sd_StateCtx cmd) h of (r, h1) \<Rightarrow> (r, StoreDataCmd cmd, h1))
     | _ \<Rightarrow> (Err (not_a ''StoreDataCommand''), StoreDataCmd cmd, h))"
| "syncResult ctxs (GetStateByIDCmd cmd) res h =
    (case res of
       GetStateByIDCmd resCmd \<Rightarrow> (case copy_back ctxs (gi_StateCtx resCmd) (gi_StateCtx cmd) h of (r, h1) \<Rightarrow> (r, GetStateByIDCmd cmd, h1))
     | _ \<Rightarrow> (Err (not_a ''GetStateByIDCommand''), GetStateByIDCmd cmd, h))"
| "syncResult ctxs (GetStateByLabelsCmd cmd) res h =
    (case res of
       GetStateByLabelsCmd resCmd \<Rightarrow> (case copy_back ctxs (gl_StateCtx resCmd) (gl_StateCtx cmd) h of (r, h1) \<Rightarrow> (r, GetStateByLabelsCmd cmd, h1))
     | _ \<Rightarrow> (Err (not_a ''GetStateByLabelsCommand''), GetStateByLabelsCmd cmd, h))"
| "syncResult ctxs (GetStatesCmd cmd) res h =
    (case res of
       GetStatesCmd resCmd \<Rightarrow> (Ok (), GetStatesCmd (cmd\<lparr>gs_Result := gs_Result resCmd\<rparr>), h)
     | _ \<Rightarrow> (Err (not_a ''GetStatesCommand''), GetStatesCmd cmd, h))"
| "syncResult ctxs (GetDelayedStatesCmd cmd) res h =
    (case res of
       GetDelayedStatesCmd resCmd \<Rightarrow> (Ok (), GetDelayedStatesCmd (cmd\<lparr>gt_Result := gt_Result resCmd\<rparr>), h)
     | _ \<Rightarrow> (Err (not_a ''GetDelayedStatesCommand''), GetDelayedStatesCmd cmd, h))"
| "syncResult ctxs NilCmd res h = (Err (Errorf ''unknown inCmd: <nil>''), NilCmd, h)"
| "syncResults ctxs i (cmd # cmds) (res # ress) h =
    (case syncResult ctxs cmd res h of
       (Ok _, cmd1, h1) \<Rightarrow> (case syncResults ctxs (Suc i) cmds ress h1 of (r, cs, h2) \<Rightarrow> (r, cmd1 # cs, h2))
     | (Err err, cmd1, h1) \<Rightarrow>
         (Err (Errorw (FormatInt (int i) @ ''# command '' @ cmd_type cmd @ '': '') err []), cmd1 # cmds, h1)
     | (Panic p, cmd1, h1) \<Rightarrow> (Panic p, cmd1 # cmds, h1))"
| "syncResults ctxs i cmds ress h = (Ok (), cmds, h)"

text \<open>The error that a status other than 200 stands for.\<close>

definition rev_mismatch_ids :: "string \<Rightarrow> string list" where
  "rev_mismatch_ids idsStr = filter (\<lambda>i. i \<noteq> []) (map TrimSpace (Split idsStr (CHR 0x2C)))"

definition net_error :: "string \<Rightarrow> string \<Rightarrow> error" where
  "net_error code message =
    (if code = ''not_found'' \<and> Contains message (error_text ErrNotFound) then ErrNotFound
     else if code = ''aborted'' \<and> HasPrefix message ''rev mismatch: '' then
       ErrRevMismatch (rev_mismatch_ids (Cut_after message ''rev mismatch: ''))
     else Errorf (code @ '': '' @ message))"

definition net_response ::
  "'c easyproto \<Rightarrow> nat \<Rightarrow> string \<Rightarrow> Command \<Rightarrow> heap \<Rightarrow> unit outcome \<times> Command \<times> heap" where
  "net_response E status b cmd h =
    (if status \<noteq> 200 then
       ((case unmarshalError E b of
           Ok (code, message) \<Rightarrow> Err (net_error code message)
         | Err err \<Rightarrow> Err (Errorf (''response status code: '' @ FormatInt (int status)
             @ ''; unmarshal error: '' @ error_text err))
         | Panic p \<Rightarrow> Panic p), cmd, h)
     else case wrap_err ''unmarshal response: '' (UnmarshalCommand E b) of
       Ok (resCmd, ctxs) \<Rightarrow> (case syncResult ctxs cmd resCmd h of (r, cmd1, h1) \<Rightarrow> (wrap_err ''sync result: '' r, cmd1, h1))
     | Err err \<Rightarrow> (Err err, cmd, h)
     | Panic p \<Rightarrow> (Panic p, cmd, h))"

definition net_do ::
  "'c easyproto \<Rightarrow> 'n transport \<Rightarrow> string \<Rightarrow> Command \<Rightarrow> string \<Rightarrow> heap \<Rightarrow> 'n
    \<Rightarrow> unit outcome \<times> Command \<times> heap \<times> 'n" where
  "net_do E T httpHost cmd path h n =
    (let url = TrimRight httpHost (CHR 0x2F) @ path
     in case MarshalCommand E h cmd [] of
       Err err \<Rightarrow> (Err err, cmd, h, n)
     | Panic p \<Rightarrow> (Panic p, cmd, h, n)
     | Ok b \<Rightarrow>
         (case nt_NewRequest T url of
            Some err \<Rightarrow> (Err (Errorw ''new request: '' err []), cmd, h, n)
          | None \<Rightarrow>
              (case nt_Do T url b n of
                 (Ok (status, Ok body), n1) \<Rightarrow> (case net_response E status body cmd h of (r, cmd1, h1) \<Rightarrow> (r, cmd1, h1, n1))
               | (Ok (status, Err err), n1) \<Rightarrow> (Err (Errorw ''read response body: '' err []), cmd, h, n1)
               | (Ok (status, Panic p), n1) \<Rightarrow> (Panic p, cmd, h, n1)
               | (Err err, n1) \<Rightarrow> (Err (Errorw ''do request: '' err []), cmd, h, n1)
               | (Panic p, n1) \<Rightarrow> (Panic p, cmd, h, n1))))"

definition net_Init :: "unit outcome" where
  "net_Init = Ok ()"

definition net_GetStateByID ::
  "'c easyproto \<Rightarrow> 'n transport \<Rightarrow> string \<Rightarrow> GetStateByIDCommand \<Rightarrow> heap \<Rightarrow> 'n \<Rightarrow> unit outcome \<times> heap \<times> 'n" where
  "net_GetStateByID E T host cmd h n =
    (case net_do E T host (GetStateByIDCmd cmd) ''/flowstate.v1.Driver/GetStateByID'' h n of (r, c, z) \<Rightarrow> (r, z))"

definition net_GetStateByLabels ::
  "'c easyproto \<Rightarrow> 'n transport \<Rightarrow> string \<Rightarrow> GetStateByLabelsCommand \<Rightarrow> heap \<Rightarrow> 'n \<Rightarrow> unit outcome \<times> heap \<times> 'n" where
  "net_GetStateByLabels E T host cmd h n =
    (case net_do E T host (GetStateByLabelsCmd cmd) ''/flowstate.v1.Driver/GetStateByLabels'' h n of (r, c, z) \<Rightarrow> (r, z))"

definition net_GetStates ::
  "'c easyproto \<Rightarrow> 'n transport \<Rightarrow> string \<Rightarrow> GetStatesCommand \<Rightarrow> 'n \<Rightarrow> GetStatesCommand outcome \<times> 'n" where
  "net_GetStates E T host cmd n =
    (case net_do E T host (GetStatesCmd cmd) ''/flowstate.v1.Driver/GetStates'' Map.empty n of
       (r, c, h, n1) \<Rightarrow> (obind r (\<lambda>_. Ok (case as_GetStates c of None \<Rightarrow> cmd | Some cmd1 \<Rightarrow> cmd1)), n1))"

definition net_GetDelayedStates ::
  "'c easyproto \<Rightarrow> 'n transport \<Rightarrow> string \<Rightarrow> GetDelayedStatesCommand \<Rightarrow> 'n \<Rightarrow> GetDelayedStatesCommand outcome \<times> 'n" where
  "net_GetDelayedStates E T host cmd n =
    (case net_do E T host (GetDelayedStatesCmd cmd) ''/flowstate.v1.Driver/GetDelayedStates'' Map.empty n of
       (r, c, h, n1) \<Rightarrow> (obind r (\<lambda>_. Ok (case as_GetDelayedStates c of None \<Rightarrow> cmd | Some cmd1 \<Rightarrow> cmd1)), n1))"

definition net_Delay ::
  "'c easyproto \<Rightarrow> 'n transport \<Rightarrow> string \<Rightarrow> DelayCommand \<Rightarrow> heap \<Rightarrow> 'n \<Rightarrow> unit outcome \<times> heap \<times> 'n" where
  "net_Delay E T host cmd h n =
    (case net_do E T host (DelayCmd cmd) ''/flowstate.v1.Driver/Delay'' h n of (r, c, z) \<Rightarrow> (r, z))"

definition net_Commit ::
  "'c easyproto \<Rightarrow> 'n transport \<Rightarrow> string \<Rightarrow> Command list \<Rightarrow> heap \<Rightarrow> 'n
    \<Rightarrow> unit outcome \<times> Command list \<times> heap \<times> 'n" where
  "net_Commit E T host cmds h n =
    (case net_do E T host (CommitCmd cmds) ''/flowstate.v1.Driver/Commit'' h n of
       (r, c, z) \<Rightarrow> (r, case as_Commit c of None \<Rightarrow> cmds | Some cs \<Rightarrow> cs, z))"

definition net_GetData ::
  "'c easyproto \<Rightarrow> 'n transport \<Rightarrow> string \<Rightarrow> GetDataCommand \<Rightarrow> heap \<Rightarrow> 'n \<Rightarrow> unit outcome \<times> heap \<times> 'n" where
  "net_GetData E T host cmd h n =
    (case net_do E T host (GetDataCmd cmd) ''/flowstate.v1.Driver/GetData'' h n of (r, c, z) \<Rightarrow> (r, z))"

definition net_StoreData ::
  "'c easyproto \<Rightarrow> 'n transport \<Rightarrow> string \<Rightarrow> StoreDataCommand \<Rightarrow> heap \<Rightarrow> 'n \<Rightarrow> unit outcome \<times> heap \<times> 'n" where
  "net_StoreData E T host cmd h n =
    (case net_do E T host (StoreDataCmd cmd) ''/flowstate.v1.Driver/StoreData'' h n of (r, c, z) \<Rightarrow> (r, z))"

end
