(* ===== verification/Netflow.thy ===== *)
theory Netflow
  imports Netdriver
begin

text \<open>
  \<open>netflow\<close>: a flow that runs on another host (\<open>flow.go\<close>), the handler that starts it there
  (\<open>server.go\<close>), and the registry that announces its flows as states of the driver and learns the
  flows of the other hosts from them (\<open>registry.go\<close>).
\<close>

section \<open>A flow on another host\<close>

definition flow_unmarshalError :: "'c easyproto \<Rightarrow> string \<Rightarrow> (string \<times> string) outcome" where
  "flow_unmarshalError E src = (case fieldLoop E (unmarshalError_field E) src ([], []) of (s, r) \<Rightarrow> obind r (\<lambda>_. Ok s))"

definition flow_response :: "'c easyproto \<Rightarrow> nat \<Rightarrow> string \<Rightarrow> (Command \<times> StateCtx list) outcome" where
  "flow_response E status b =
    (if status \<noteq> 200 then
       (case flow_unmarshalError E b of
          Ok (code, message) \<Rightarrow> Err (Errorf (code @ '': '' @ message))
        | Err err \<Rightarrow> Err (Errorf (''response status code: '' @ FormatInt (int status) @ ''; unmarshal error: '' @ error_text err))
        | Panic p \<Rightarrow> Panic p)
     else wrap_err ''unmarshal response: '' (UnmarshalCommand E b))"

definition flow_Execute ::
  "'c easyproto \<Rightarrow> 'n transport \<Rightarrow> string \<Rightarrow> StateCtx \<Rightarrow> 'n \<Rightarrow> (Command \<times> StateCtx list) outcome \<times> 'n" where
  "flow_Execute E T httpHost stateCtx n =
    (let url = TrimRight httpHost (CHR 0x2F) @ ''/flowstate.v1.Flow/Execute''
     in case MarshalStateCtx E stateCtx [] of
       Err err \<Rightarrow> (Err err, n)
     | Panic p \<Rightarrow> (Panic p, n)
     | Ok b \<Rightarrow>
         (case nt_NewRequest T url of
            Some err \<Rightarrow> (Err (Errorw ''new request: '' err []), n)
          | None \<Rightarrow>
              (case nt_Do T url b n of
                 (Ok (status, Ok body), n1) \<Rightarrow> (flow_response E status body, n1)
               | (Ok (status, Err err), n1) \<Rightarrow> (Err (Errorw ''read response body: '' err []), n1)
               | (Ok (status, Panic p), n1) \<Rightarrow> (Panic p, n1)
               | (Err err, n1) \<Rightarrow> (Err (Errorw ''do request: '' err []), n1)
               | (Panic p, n1) \<Rightarrow> (Panic p, n1))))"

section \<open>The handler\<close>

definition flow_writeCmd :: "'c libs \<Rightarrow> json_codec \<Rightarrow> Command \<Rightarrow> bool \<Rightarrow> HttpResponse outcome" where
  "flow_writeCmd lb J cmd proto =
    obind (if proto then MarshalCommand (lib_easyproto lb) Map.empty cmd []
           else case js_MarshalCommand J Map.empty cmd of Err _ \<Rightarrow> Ok [] | r \<Rightarrow> r)
      (\<lambda>b. Ok \<lparr>rs_Status = 200, rs_ContentType = content_type proto, rs_Body = b\<rparr>)"

definition flow_writeInvalidArgumentError :: "'c libs \<Rightarrow> json_codec \<Rightarrow> string \<Rightarrow> bool \<Rightarrow> HttpResponse outcome" where
  "flow_writeInvalidArgumentError lb J message = write_error lb J 400 ''invalid_argument'' message"

definition flow_writeUnknownError :: "'c libs \<Rightarrow> json_codec \<Rightarrow> string \<Rightarrow> bool \<Rightarrow> HttpResponse outcome" where
  "flow_writeUnknownError lb J message = write_error lb J 500 ''unknown'' message"

text \<open>\<open>stateCtx := &flowstate.StateCtx{}\<close> is filled from the body; the engine gets a pointer to it.\<close>

definition read_StateCtx :: "'c libs \<Rightarrow> json_codec \<Rightarrow> bool \<Rightarrow> string \<Rightarrow> StateCtx outcome" where
  "read_StateCtx lb J proto reqBody =
    (if proto then (case UnmarshalStateCtx (lib_easyproto lb) reqBody StateCtx0 of (c, r) \<Rightarrow> obind r (\<lambda>_. Ok c))
     else js_UnmarshalStateCtx J reqBody)"

definition HandleExecute :: "'c libs \<Rightarrow> json_codec \<Rightarrow> time \<Rightarrow> 'd Driver \<Rightarrow> 'd world handler" where
  "HandleExecute lb J now D req w =
    (if rq_Path req \<noteq> ''/flowstate.v1.Flow/Execute'' then None
     else let proto = is_proto req in Some
       (checked (rq_Body req)
          (\<lambda>err. flow_writeInvalidArgumentError lb J (''failed to read request body: '' @ error_text err) proto) w (\<lambda>reqBody.
        checked (read_StateCtx lb J proto reqBody)
          (\<lambda>err. flow_writeInvalidArgumentError lb J
            ((if proto then ''failed to unmarshal command: '' else ''failed to unmarshal JSON command: '') @ error_text err) proto) w (\<lambda>c.
          case new_context c w of (a, w1) \<Rightarrow>
            (case engine_do D lb now [ExecuteCmd (Execute (Some a))] w1 of
               (Ok _, cmds, w2) \<Rightarrow> (flow_writeCmd lb J Noop proto, w2)
             | (Err err, cmds, w2) \<Rightarrow> (flow_writeUnknownError lb J (''failed to execute command: '' @ error_text err) proto, w2)
             | (Panic p, cmds, w2) \<Rightarrow> (Panic p, w2))))))"

section \<open>The registry\<close>

text \<open>
  A flow is one of the program's own, or a \<open>*netflow.Flow\<close>, which is known by its host. \<open>nr_hostFlows\<close>
  caches one such flow per host.
\<close>

datatype 'f net_flow = Local 'f | Remote string

record 'f Registry =
  nr_httpHost :: string
  nr_fr :: "'f net_flow DefaultFlowRegistry"
  nr_hostFlows :: "(string \<Rightarrow> string option) option"
  nr_sinceRev :: int

definition NewRegistry :: "string \<Rightarrow> 'f Registry" where
  "NewRegistry httpHost = \<lparr>nr_httpHost = httpHost, nr_fr = DefaultFlowRegistry0, nr_hostFlows = None, nr_sinceRev = 0\<rparr>"

definition flowStateID :: "string \<Rightarrow> string" where
  "flowStateID tsID = ''flowstate.flow.'' @ tsID"

definition hostAnnotation :: string where
  "hostAnnotation = ''flowstate.flow.http_host''"

definition transitionAnnotation :: string where
  "transitionAnnotation = ''flowstate.flow.transition_id''"

definition actionAnnotation :: string where
  "actionAnnotation = ''flowstate.flow.action''"

text \<open>A state without a host is warned about, but not skipped.\<close>

definition setFlow :: "State \<Rightarrow> 'f Registry \<Rightarrow> 'f Registry" where
  "setFlow state fr =
    (let httpHost = gm_str (s_Annotations state) hostAnnotation;
         tsID = gm_str (s_Annotations state) transitionAnnotation
     in if httpHost = nr_httpHost fr then fr
        else if tsID = [] then fr
        else if Annotation state actionAnnotation = ''unset'' then fr\<lparr>nr_fr := snd (UnsetFlow (nr_fr fr) tsID)\<rparr>
        else let hostFlows = (case nr_hostFlows fr of None \<Rightarrow> Map.empty | Some m \<Rightarrow> m);
                 hostFlows1 = (case hostFlows httpHost of None \<Rightarrow> hostFlows(httpHost \<mapsto> httpHost) | Some _ \<Rightarrow> hostFlows);
                 f = the (hostFlows1 httpHost)
             in fr\<lparr>nr_hostFlows := Some hostFlows1, nr_fr := snd (SetFlow (nr_fr fr) tsID (Remote f))\<rparr>)"

text \<open>\<open>stateCtx := &flowstate.StateCtx{...}\<close>, read from the driver by the id of its state.\<close>

definition get_flow_state ::
  "'d Driver \<Rightarrow> StateCtx \<Rightarrow> string \<Rightarrow> 'd \<Rightarrow> unit outcome \<times> StateCtx \<times> 'd" where
  "get_flow_state D c tsID d =
    (case drv_GetStateByID D (GetStateByID (Some 0) (flowStateID tsID) 0) [0 \<mapsto> c] d of
       (r, h, d1) \<Rightarrow> (r, (case h 0 of None \<Rightarrow> c | Some c1 \<Rightarrow> c1), d1))"

text \<open>
  An error other than a missing flow is dropped: \<open>Flow\<close> then returns a nil flow (\<open>Ok None\<close>).
\<close>

definition reg_Flow :: "'d Driver \<Rightarrow> string \<Rightarrow> 'f Registry \<Rightarrow> 'd \<Rightarrow> 'f net_flow option outcome \<times> 'f Registry \<times> 'd" where
  "reg_Flow D tsID fr d =
    (case Flow (nr_fr fr) tsID of
       Ok f \<Rightarrow> (Ok (Some f), fr, d)
     | Panic p \<Rightarrow> (Panic p, fr, d)
     | Err err \<Rightarrow>
         (if \<not> Is_ErrFlowNotFound err then (Ok None, fr, d)
          else case get_flow_state D StateCtx0 tsID d of
            (Ok _, c, d1) \<Rightarrow>
              (let fr1 = setFlow (sc_Current c) fr in (obind (Flow (nr_fr fr1) tsID) (\<lambda>f. Ok (Some f)), fr1, d1))
          | (Err err, c, d1) \<Rightarrow> (Err err, fr, d1)
          | (Panic p, c, d1) \<Rightarrow> (Panic p, fr, d1)))"

text \<open>The commit of a state of a flow; a rev mismatch counts as done.\<close>

definition commit_flow_state :: "'d Driver \<Rightarrow> StateCtx \<Rightarrow> 'd \<Rightarrow> unit outcome \<times> 'd" where
  "commit_flow_state D c d =
    (case drv_Commit D [ParkCmd (Park (Some 0))] [0 \<mapsto> c] d of
       (Ok _, cmds, h, d1) \<Rightarrow> (Ok (), d1)
     | (Err err, cmds, h, d1) \<Rightarrow> (if IsErrRevMismatch err then Ok () else Err (Errorw ''commit flow state: '' err []), d1)
     | (Panic p, cmds, h, d1) \<Rightarrow> (Panic p, d1))"

definition new_flow_state :: "string \<Rightarrow> StateCtx" where
  "new_flow_state tsID = StateCtx0\<lparr>sc_Current := State0\<lparr>s_ID := flowStateID tsID\<rparr>\<rparr>"

definition set_ann :: "string \<Rightarrow> string \<Rightarrow> StateCtx \<Rightarrow> StateCtx" where
  "set_ann k v c = c\<lparr>sc_Current := SetAnnotation (sc_Current c) k v\<rparr>"

definition announced :: "string \<Rightarrow> string \<Rightarrow> StateCtx \<Rightarrow> StateCtx" where
  "announced tsID httpHost c =
    (let c1 = c\<lparr>sc_Current := SetLabel (sc_Current c) ''flow.type'' ''remote''\<rparr>
     in set_ann actionAnnotation ''set'' (set_ann hostAnnotation httpHost (set_ann transitionAnnotation tsID c1)))"

text \<open>\<open>others\<close> is what other clients do to the driver between the read and the commit.\<close>

definition reg_SetFlow ::
  "'d Driver \<Rightarrow> ('d \<Rightarrow> 'd) \<Rightarrow> string \<Rightarrow> 'f net_flow \<Rightarrow> 'f Registry \<Rightarrow> 'd \<Rightarrow> unit outcome \<times> 'f Registry \<times> 'd" where
  "reg_SetFlow D others tsID flow fr d =
    (case SetFlow (nr_fr fr) tsID flow of
       (Err err, r) \<Rightarrow> (Err err, fr\<lparr>nr_fr := r\<rparr>, d)
     | (Panic p, r) \<Rightarrow> (Panic p, fr\<lparr>nr_fr := r\<rparr>, d)
     | (Ok _, r) \<Rightarrow>
         (let fr1 = fr\<lparr>nr_fr := r\<rparr>;
              announce = (\<lambda>c d1. if gm_str (s_Annotations (sc_Current c)) hostAnnotation = nr_httpHost fr then (Ok (), fr1, d1)
                else case commit_flow_state D (announced tsID (nr_httpHost fr) c) (others d1) of (r1, d2) \<Rightarrow> (r1, fr1, d2))
          in case get_flow_state D (new_flow_state tsID) tsID d of
               (Ok _, c, d1) \<Rightarrow> announce c d1
             | (Err err, c, d1) \<Rightarrow>
                 (if Is_ErrNotFound err then announce c d1 else (Err (Errorw ''get state by id: '' err []), fr1, d1))
             | (Panic p, c, d1) \<Rightarrow> (Panic p, fr1, d1)))"

definition reg_UnsetFlow ::
  "'d Driver \<Rightarrow> ('d \<Rightarrow> 'd) \<Rightarrow> string \<Rightarrow> 'f Registry \<Rightarrow> 'd \<Rightarrow> unit outcome \<times> 'f Registry \<times> 'd" where
  "reg_UnsetFlow D others tsID fr d =
    (case Flow (nr_fr fr) tsID of
       Err err \<Rightarrow> (if Is_ErrNotFound err then Ok () else Err (Errorw ''get flow: '' err []), fr, d)
     | Panic p \<Rightarrow> (Panic p, fr, d)
     | Ok f0 \<Rightarrow>
         (case UnsetFlow (nr_fr fr) tsID of
            (Err err, r) \<Rightarrow> (Err err, fr\<lparr>nr_fr := r\<rparr>, d)
          | (Panic p, r) \<Rightarrow> (Panic p, fr\<lparr>nr_fr := r\<rparr>, d)
          | (Ok _, r) \<Rightarrow>
              (let fr1 = fr\<lparr>nr_fr := r\<rparr>
               in case f0 of
                    Remote _ \<Rightarrow> (Ok (), fr1, d)
                  | Local _ \<Rightarrow>
                      (case get_flow_state D (new_flow_state tsID) tsID d of
                         (Ok _, c, d1) \<Rightarrow>
                           (case commit_flow_state D (set_ann actionAnnotation ''unset'' c) (others d1) of
                              (r1, d2) \<Rightarrow> (r1, fr1, d2))
                       | (Err err, c, d1) \<Rightarrow> (Err (Errorw ''get state by id: '' err []), fr1, d1)
                       | (Panic p, c, d1) \<Rightarrow> (Panic p, fr1, d1)))))"

section \<open>Following the other hosts\<close>

definition flows_cmd :: "int \<Rightarrow> GetStatesCommand" where
  "flows_cmd sinceRev = WithSinceRev (WithLatestOnly (GetStatesByLabels (Some [(''flow.type'', ''remote'')]))) sinceRev"

definition sync_state :: "State \<Rightarrow> 'f Registry \<Rightarrow> 'f Registry" where
  "sync_state state fr = setFlow state (fr\<lparr>nr_sinceRev := s_Rev state\<rparr>)"

text \<open>\<open>sync\<close> reads one page and tells whether there are more.\<close>

definition reg_sync :: "'d Driver \<Rightarrow> 'f Registry \<Rightarrow> 'd \<Rightarrow> bool outcome \<times> 'f Registry \<times> 'd" where
  "reg_sync D fr d =
    (case drv_GetStates D (flows_cmd (nr_sinceRev fr)) d of
       (Ok cmd, d1) \<Rightarrow>
         (case GetStates_MustResult cmd of
            Ok res \<Rightarrow> (Ok (gsr_More res), fold sync_state (gsr_States res) fr, d1)
          | Err err \<Rightarrow> (Err err, fr, d1)
          | Panic p \<Rightarrow> (Panic p, fr, d1))
     | (Err err, d1) \<Rightarrow> (Ok False, fr, d1)
     | (Panic p, d1) \<Rightarrow> (Panic p, fr, d1))"

text \<open>
  One turn of \<open>watchFlows\<close>: \<open>sync\<close> until there is no more, then it waits for its timer. Each page takes
  one unit of fuel.
\<close>

fun watch_turn :: "nat \<Rightarrow> 'd Driver \<Rightarrow> 'f Registry \<Rightarrow> 'd \<Rightarrow> (unit outcome \<times> 'f Registry \<times> 'd) option" where
  "watch_turn 0 D fr d = None"
| "watch_turn (Suc n) D fr d =
    (case reg_sync D fr d of
       (Ok True, fr1, d1) \<Rightarrow> watch_turn n D fr1 d1
     | (Ok False, fr1, d1) \<Rightarrow> Some (Ok (), fr1, d1)
     | (Err err, fr1, d1) \<Rightarrow> Some (Err err, fr1, d1)
     | (Panic p, fr1, d1) \<Rightarrow> Some (Panic p, fr1, d1))"

end
