(* ===== verification/NetdriverProps.thy ===== *)
theory NetdriverProps
  imports Netdriver ProtobufCmdProps CacheOnMemdriver
begin

text \<open>
  The driver behind the network: which handler takes a request, what reaches the driver, what comes
  back, and which errors survive the way.
\<close>

section \<open>What is sent\<close>

text \<open>A command and the contexts it points to, fit for protobuf; and what the other side decodes.\<close>

definition sendable :: "heap \<Rightarrow> Command \<Rightarrow> bool" where
  "sendable h cmd \<longleftrightarrow> pb_ok_cmd cmd \<and> int (length (commandStateCtxs cmd)) < 2 ^ 63
    \<and> list_all (\<lambda>a. case h a of None \<Rightarrow> False | Some c \<Rightarrow> pb_ok_StateCtx c) (commandStateCtxs cmd)"

definition sent_cmd :: "Command \<Rightarrow> Command" where
  "sent_cmd cmd = pb_Command (commandStateCtxs cmd) cmd"

definition sent_ctxs :: "heap \<Rightarrow> Command \<Rightarrow> StateCtx list" where
  "sent_ctxs h cmd = map (\<lambda>a. pb_StateCtx (the (h a))) (commandStateCtxs cmd)"

definition sent_heap :: "heap \<Rightarrow> Command \<Rightarrow> heap" where
  "sent_heap h cmd = ctxs_heap (sent_ctxs h cmd)"

lemma sendable_arrives:
  assumes "easyproto_laws E" "sendable h cmd"
  obtains b where "MarshalCommand E h cmd [] = Ok b" "UnmarshalCommand E b = Ok (sent_cmd cmd, sent_ctxs h cmd)"
proof -
  have "list_all (\<lambda>a. \<exists>c. h a = Some c \<and> pb_ok_StateCtx c) (commandStateCtxs cmd)"
    using assms(2) by (auto simp: sendable_def list_all_iff split: option.splits)
  moreover have "pb_ok_Command (commandStateCtxs cmd) cmd"
    using assms(2) by (intro pb_ok_Command_refs) (auto simp: sendable_def)
  ultimately show thesis
    using easyproto_laws.Command_roundtrip [OF assms(1), of h cmd "[]"] that
    by (auto simp: sent_cmd_def sent_ctxs_def)
qed

lemma readCmd_sent:
  assumes "UnmarshalCommand (lib_easyproto lb) b = Ok (cmd, ctxs)" "as cmd = Some k"
  shows "readCmd lb J want as \<lparr>rq_Path = p, rq_ContentType = [], rq_Body = Ok b\<rparr> = Ok (k, ctxs_heap ctxs)"
  using assms by (simp add: readCmd_def)

lemma checked_simps [simp]:
  "checked (Ok x) bad d good = good x"
  "checked (Err err) bad d good = (bad err, d)"
  "checked (Panic p) bad d good = (Panic p, d)"
  by (simp_all add: checked_def)

section \<open>Which handler takes a request\<close>

lemmas handler_defs = HandleGetStateByID_def HandleGetStateByLabels_def HandleGetStates_def
  HandleGetDelayedStates_def HandleDelay_def HandleCommit_def HandleGetData_def HandleStoreData_def

definition driver_paths :: "string list" where
  "driver_paths = map (\<lambda>m. ''/flowstate.v1.Driver/'' @ m) [''GetStateByID'', ''GetStateByLabels'', ''Commit'',
    ''GetStates'', ''GetDelayedStates'', ''Delay'', ''GetData'', ''StoreData'']"

lemma HandleAll_at:
  "rq_Path req = ''/flowstate.v1.Driver/GetStateByID'' \<Longrightarrow> HandleAll lb J now D req d = HandleGetStateByID lb J D req d"
  "rq_Path req = ''/flowstate.v1.Driver/GetStates'' \<Longrightarrow> HandleAll lb J now D req d = HandleGetStates lb J D req d"
  "rq_Path req = ''/flowstate.v1.Driver/Commit'' \<Longrightarrow> HandleAll lb J now D req d = HandleCommit lb J D req d"
  by (simp_all add: HandleAll_def or_else_def HandleGetStateByID_def HandleGetStateByLabels_def
      HandleGetStates_def HandleCommit_def Let_def)

text \<open>A response with the status 400 is written before the driver is called.\<close>

lemma checked_400:
  assumes "checked r bad d good = (Ok rs, d')" "rs_Status rs = 400"
    and "\<And>x. r = Ok x \<Longrightarrow> good x = (Ok rs, d') \<Longrightarrow> d' = d"
  shows "d' = d"
  using assms by (cases r) auto

lemma writeCmd_status: "writeCmd lb J h cmd proto = Ok rs \<Longrightarrow> rs_Status rs = 200"
  by (auto simp: writeCmd_def obind_Ok_iff)

lemma write_error_status:
  "writeUnknownError lb J err proto = Ok rs \<Longrightarrow> rs_Status rs = 500"
  "writeNotFoundError lb J err proto = Ok rs \<Longrightarrow> rs_Status rs = 404"
  "writeAbortedError lb J err proto = Ok rs \<Longrightarrow> rs_Status rs = 409"
  by (auto simp: write_error_defs)

lemma answered_400:
  assumes "HandleAll lb J now D req d = Some (Ok rs, d')" "rs_Status rs = 400"
  shows "d' = d"
  using assms
  unfolding HandleAll_def or_else_def handler_defs Let_def
  by (auto split: if_splits prod.splits outcome.splits
      elim!: checked_400 dest!: writeCmd_status write_error_status)

section \<open>Errors\<close>

text \<open>Ids that a list with commas carries: ASCII text without commas, no white space around it.\<close>

definition plain_id :: "string \<Rightarrow> bool" where
  "plain_id i \<longleftrightarrow> i \<noteq> [] \<and> CHR 0x2C \<notin> set i \<and> \<not> is_space (hd i) \<and> \<not> is_space (last i)
    \<and> list_all (\<lambda>c. (of_char c :: nat) < 128) i"

lemma TrimSpace_plain: "plain_id i \<Longrightarrow> TrimSpace i = i"
  by (simp add: TrimSpace_def plain_id_def dropWhile_eq_self_iff [THEN iffD2] hd_rev)

lemma TrimSpace_blank: "TrimSpace (CHR '' '' # i) = TrimSpace i"
  by (simp add: TrimSpace_def is_space_def)

lemma Split_nonempty: "Split t sep \<noteq> []"
  by (induction t) (auto split: list.split)

lemma rev_mismatch_ids_join:
  "list_all plain_id ids \<Longrightarrow> rev_mismatch_ids (join '', '' ids) = ids"
proof (induction ids rule: induct_list012)
  case 1
  then show ?case by (simp add: rev_mismatch_ids_def TrimSpace_def)
next
  case (2 i)
  then show ?case by (simp add: rev_mismatch_ids_def Split_plain plain_id_def TrimSpace_plain)
next
  case (3 i j ids)
  have sp: "map TrimSpace (Split (CHR '' '' # t) (CHR 0x2C)) = map TrimSpace (Split t (CHR 0x2C))" for t
    using Split_nonempty [of t "CHR 0x2C"] by (auto simp: TrimSpace_blank split: list.split)
  have "Split (join '', '' (i # j # ids)) (CHR 0x2C) = i # Split (CHR '' '' # join '', '' (j # ids)) (CHR 0x2C)"
    using 3 by (simp add: Split_append plain_id_def)
  moreover have "TrimSpace i = i" "i \<noteq> []" using 3 by (simp_all add: TrimSpace_plain) (simp add: plain_id_def)
  ultimately show ?case using 3 by (simp add: rev_mismatch_ids_def sp del: Split.simps join.simps)
qed

lemma net_error_aborted:
  assumes "list_all plain_id ids"
  shows "net_error ''aborted'' (error_text (ErrRevMismatch ids)) = ErrRevMismatch ids"
  using rev_mismatch_ids_join [OF assms] Cut_after_prefix [of "''rev mismatch: ''" "join '', '' ids"]
  by (simp add: net_error_def ErrRevMismatch_Error_join HasPrefix_def)

lemma net_error_not_found: "Is_ErrNotFound err \<Longrightarrow> net_error ''not_found'' (error_text err) = ErrNotFound"
proof -
  have "Is_ErrNotFound err \<Longrightarrow> Contains (error_text err) ''state not found''"
  proof (induction err)
    case ErrNotFound
    then show ?case by (simp add: HasPrefix_def)
  next
    case (Errorw a e b)
    then show ?case using Contains_wrap by simp
  qed auto
  then show "Is_ErrNotFound err \<Longrightarrow> ?thesis" by (simp add: net_error_def)
qed

section \<open>There and back\<close>

lemma net_do_answered:
  assumes "http_server T (TrimRight host (CHR 0x2F)) H" "MarshalCommand E h cmd [] = Ok b"
    and "H \<lparr>rq_Path = path, rq_ContentType = [], rq_Body = Ok b\<rparr> n = Some (Ok rs, n1)"
  shows "net_do E T host cmd path h n =
    (case net_response E (rs_Status rs) (rs_Body rs) cmd h of (r, cmd1, h1) \<Rightarrow> (r, cmd1, h1, n1))"
  using http_server.new_request [OF assms(1)] http_server.answered [OF assms(1,3)] assms(2)
  by (simp add: net_do_def Let_def)

lemma net_do_aborted:
  assumes "http_server T (TrimRight host (CHR 0x2F)) H" "MarshalCommand E h cmd [] = Ok b"
    and "H \<lparr>rq_Path = path, rq_ContentType = [], rq_Body = Ok b\<rparr> n = Some (Panic p, n1)"
  shows "\<exists>err. net_do E T host cmd path h n = (Err err, cmd, h, n1)"
proof -
  from http_server.aborted [OF assms(1,3)] obtain err where
    "nt_Do T (TrimRight host (CHR 0x2F) @ path) b n = (Err err, n1)" by auto
  with http_server.new_request [OF assms(1)] assms(2) show ?thesis by (simp add: net_do_def Let_def)
qed

lemma net_response_error:
  assumes "easyproto_laws E" "status \<noteq> 200"
  shows "net_response E status (marshalError E code message) cmd h = (Err (net_error code message), cmd, h)"
  using assms(2) easyproto_laws.Error_roundtrip [OF assms(1)] by (simp add: net_response_def)

section \<open>Reads of many states\<close>

lemma HandleGetStates_sent:
  assumes "UnmarshalCommand (lib_easyproto lb) b = Ok (GetStatesCmd cmd, [])"
  shows "HandleAll lb J now D \<lparr>rq_Path = ''/flowstate.v1.Driver/GetStates'', rq_ContentType = [], rq_Body = Ok b\<rparr> d
    = Some (case drv_GetStates D cmd d of
        (Ok cmd1, d1) \<Rightarrow> (writeCmd lb J (ctxs_heap []) (GetStatesCmd cmd1) True, d1)
      | (Err err, d1) \<Rightarrow> (writeUnknownError lb J err True, d1)
      | (Panic p, d1) \<Rightarrow> (Panic p, d1))"
  by (simp add: HandleAll_at HandleGetStates_def Let_def readCmd_sent [OF assms] LogCommand_def is_proto_def)

lemma sendable_GetStates: "sendable h (GetStatesCmd cmd) \<longleftrightarrow> pb_ok_cmd (GetStatesCmd cmd)"
  by (simp add: sendable_def)

lemma net_GetStates_via:
  assumes "easyproto_laws (lib_easyproto lb)" "http_server T (TrimRight host (CHR 0x2F)) (HandleAll lb J now D)"
    and "pb_ok_cmd (GetStatesCmd cmd)" "drv_GetStates D (pb_GetStates cmd) d = (Ok cmd1, d1)" "pb_ok_cmd (GetStatesCmd cmd1)"
  shows "net_GetStates (lib_easyproto lb) T host cmd d = (Ok (cmd\<lparr>gs_Result := gs_Result (pb_GetStates cmd1)\<rparr>), d1)"
proof -
  let ?E = "lib_easyproto lb"
  obtain b where b: "MarshalCommand ?E Map.empty (GetStatesCmd cmd) [] = Ok b"
    "UnmarshalCommand ?E b = Ok (GetStatesCmd (pb_GetStates cmd), [])"
    using sendable_arrives [OF assms(1), of Map.empty "GetStatesCmd cmd"] assms(3)
    by (auto simp: sendable_GetStates sent_cmd_def sent_ctxs_def simp del: pb_ok_cmd.simps)
  obtain b1 where b1: "MarshalCommand ?E (ctxs_heap []) (GetStatesCmd cmd1) [] = Ok b1"
    "UnmarshalCommand ?E b1 = Ok (GetStatesCmd (pb_GetStates cmd1), [])"
    using sendable_arrives [OF assms(1), of "ctxs_heap []" "GetStatesCmd cmd1"] assms(5)
    by (auto simp: sendable_GetStates sent_cmd_def sent_ctxs_def simp del: pb_ok_cmd.simps)
  have H: "HandleAll lb J now D \<lparr>rq_Path = ''/flowstate.v1.Driver/GetStates'', rq_ContentType = [], rq_Body = Ok b\<rparr> d
      = Some (Ok \<lparr>rs_Status = 200, rs_ContentType = content_type True, rs_Body = b1\<rparr>, d1)"
    unfolding HandleGetStates_sent [OF b(2)] by (simp add: assms(4) writeCmd_def b1(1))
  show ?thesis
    unfolding net_GetStates_def net_do_answered [OF assms(2) b(1) H]
    by (simp add: net_response_def b1(2))
qed

text \<open>The states in a log, and the commands, that protobuf carries as they are.\<close>

definition carried_State :: "State \<Rightarrow> bool" where
  "carried_State s \<longleftrightarrow> pb_ok_State s \<and> pb_State s = s"

definition carried_log :: "memdriver \<Rightarrow> bool" where
  "carried_log d \<longleftrightarrow> list_all (\<lambda>e. carried_State (sc_Committed e)) (sl_entries (md_stateLog d))"

lemma carried_copy:
  assumes "carried_State (sc_Committed e)"
  shows "sc_Committed (StateCtx_CopyTo e StateCtx0) = sc_Committed e"
proof -
  let ?s = "sc_Committed e"
  have "wf_State ?s"
    using assms by (simp add: carried_State_def pb_ok_State_def pb_ok_Transition_def pb_ok_map_def wf_defs)
  moreover have "norm_State ?s = ?s"
  proof -
    have "norm_State (pb_State ?s) = pb_State ?s"
      by (simp add: pb_State_def norm_State_def norm_Transition_def)
    with assms show ?thesis by (simp add: carried_State_def)
  qed
  ultimately show ?thesis by (simp add: State_CopyTo_fresh)
qed

lemma Entries_loop_copies:
  "Entries_loop es since n limit = (xs, r) \<Longrightarrow> set xs \<subseteq> (\<lambda>e. StateCtx_CopyTo e StateCtx0) ` set es"
  by (induction es since n limit arbitrary: xs r rule: Entries_loop.induct)
    (auto simp: Let_def split: if_splits prod.splits, blast+)

lemma add_state_carried:
  "list_all carried_State acc \<Longrightarrow> \<forall>x \<in> set xs. carried_State (sc_Committed x) \<Longrightarrow>
    list_all carried_State (fold (add_state cmd) xs acc)"
proof (induction xs arbitrary: acc)
  case (Cons x xs)
  then have "list_all carried_State (add_state cmd x acc)"
    by (auto simp: add_state_def filterStatesWithID_def list_all_iff)
  with Cons show ?case by simp
qed simp

lemma GetStates_loop_carried:
  assumes "list_all (\<lambda>e. carried_State (sc_Committed e)) (sl_entries l)"
  shows "list_all carried_State acc \<Longrightarrow> list_all carried_State (gsr_States (GetStates_loop l cmd u acc since))"
  using assms
proof (induction l cmd u acc since rule: GetStates_loop.induct)
  case (1 l cmd u acc since)
  obtain xs r where E: "Entries l since (gs_Limit cmd + 1) = (xs, r)" by fastforce
  have "set xs \<subseteq> (\<lambda>e. StateCtx_CopyTo e StateCtx0) ` set (sl_entries l)"
    using E by (auto simp: Entries_def split: if_splits dest!: Entries_loop_copies)
  then have "\<forall>x \<in> set xs. carried_State (sc_Committed x)"
    using "1.prems"(2) carried_copy by (force simp: list_all_iff)
  note acc = add_state_carried [OF "1.prems"(1) this]
  moreover have "list_all carried_State (take n (fold (add_state cmd) xs acc))" for n
    using acc by (auto simp: list_all_iff dest: in_set_takeD)
  ultimately show ?case
    using 1(1) [OF E [symmetric] _ refl _ _ acc "1.prems"(2)] "1.prems"(1)
    by (subst GetStates_loop.simps) (simp add: E Let_def)
qed

lemma mem_GetStates_carried:
  assumes "carried_log d" "mem_GetStates cmd d = Ok cmd1"
  shows "\<exists>res. cmd1 = cmd\<lparr>gs_Result := Some res\<rparr> \<and> list_all carried_State (gsr_States res)"
proof -
  let ?l = "md_stateLog d"
  note loop = GetStates_loop_carried [OF assms(1) [unfolded carried_log_def]]
  have "list_all carried_State [sc_Committed (StateCtx_CopyTo e StateCtx0)]"
    if "latest_by P (rev (sl_entries ?l)) = Some e" for P e
    using assms(1) carried_copy latest_by_Some [OF that] by (auto simp: carried_log_def list_all_iff)
  then show ?thesis
    using assms(2) loop
    by (fastforce simp: mem_GetStates_def GetLatestByLabels_def Let_def split: if_splits option.splits prod.splits)
qed

section \<open>Properties of reads\<close>

text \<open>
  C14: a page of states read over the network from a server of the in-memory driver is the page that
  the driver itself returns, and reading changes nothing: with any filter and limit, over any number
  of pages of the log. The command has a time cut to milliseconds and no empty set of labels, as
  protobuf carries them, and so have the states of the log, which is how commits write them.
\<close>

theorem net_GetStates_as_driver:
  assumes "easyproto_laws (lib_easyproto lb)"
    and "http_server T (TrimRight host (CHR 0x2F)) (HandleAll lb J now (memdriver_Driver lb pick))"
    and "pb_ok_cmd (GetStatesCmd cmd)" "pb_GetStates cmd = cmd" "0 \<le> gs_Limit cmd" "carried_log d"
  shows "net_GetStates (lib_easyproto lb) T host cmd d = (mem_GetStates cmd d, d)"
proof -
  have "is_ok (mem_GetStates cmd d)" using assms(5) by (simp add: mem_GetStates_def Let_def split: prod.split)
  then obtain cmd1 where ok: "mem_GetStates cmd d = Ok cmd1" by (auto simp: is_ok_iff)
  with mem_GetStates_carried [OF assms(6)] obtain res where
    res: "cmd1 = cmd\<lparr>gs_Result := Some res\<rparr>" "list_all carried_State (gsr_States res)" by blast
  then have "list_all pb_ok_State (gsr_States res)" "map pb_State (gsr_States res) = gsr_States res"
    by (auto simp: carried_State_def list_all_iff map_idI)
  then have pb: "pb_ok_cmd (GetStatesCmd cmd1)" "gs_Result (pb_GetStates cmd1) = gs_Result cmd1"
    using assms(3) res(1) by (simp_all add: pb_GetStates_def)
  have "drv_GetStates (memdriver_Driver lb pick) (pb_GetStates cmd) d = (Ok cmd1, d)"
    by (simp add: memdriver_Driver_def assms(4) ok)
  from net_GetStates_via [OF assms(1-3) this pb(1)] pb(2) show ?thesis by (simp add: ok res(1))
qed

definition demo_json :: json_codec where
  "demo_json = \<lparr>js_UnmarshalCommand = \<lambda>_. Err (Errorf ''json''), js_MarshalCommand = \<lambda>_ _. Err (Errorf ''json''),
    js_UnmarshalStateCtx = \<lambda>_. Err (Errorf ''json''), js_Error = \<lambda>_ _. []\<rparr>"

definition demo_net :: "memdriver transport" where
  "demo_net = direct_net ''http://h:1'' (HandleAll wire_libs demo_json 0 (memdriver_Driver wire_libs (\<lambda>_. True)))"

lemma demo_net_server:
  "http_server demo_net (TrimRight ''http://h:1/'' (CHR 0x2F)) (HandleAll wire_libs demo_json 0 (memdriver_Driver wire_libs (\<lambda>_. True)))"
  unfolding demo_net_def by (simp add: TrimRight_def direct.http_server_axioms)

theorem net_GetStates_as_driver_witness:
  "net_GetStates wire demo_net ''http://h:1/'' all_states first_driver = (mem_GetStates all_states first_driver, first_driver)"
proof -
  have "carried_log first_driver" by code_simp
  moreover have "pb_ok_cmd (GetStatesCmd all_states)" "pb_GetStates all_states = all_states"
    by (code_simp, simp add: pb_GetStates_def all_states_def pb_milli_def IsZero_def)
  ultimately show ?thesis
    using net_GetStates_as_driver [OF wire_libs_laws demo_net_server, of all_states first_driver]
    by (simp add: wire_libs_def all_states_def)
qed

section \<open>Commits\<close>

text \<open>The contexts of a commit of transits and parks, one each, none of them nil.\<close>

definition ptr :: "Command \<Rightarrow> nat" where
  "ptr cmd = (case committable cmd of Some (Some a) \<Rightarrow> a | _ \<Rightarrow> 0)"

definition plain_commit :: "Command list \<Rightarrow> bool" where
  "plain_commit cmds \<longleftrightarrow> list_all (\<lambda>cmd. committable cmd = Some (Some (ptr cmd))) cmds \<and> distinct (map ptr cmds)"

lemma committable_cases:
  assumes "committable cmd = Some (Some a)"
  obtains t where "cmd = TransitCmd t" "tr_StateCtx t = Some a" | t where "cmd = ParkCmd t" "pk_StateCtx t = Some a"
  using assms by (cases cmd) auto

lemma plain_commit_ctxs: "plain_commit cmds \<Longrightarrow> commandStateCtxs (CommitCmd cmds) = map ptr cmds"
proof -
  assume p: "plain_commit cmds"
  then have "commandStateCtxs cmd = [ptr cmd]" if "cmd \<in> set cmds" for cmd
    using that by (auto simp: plain_commit_def list_all_iff elim!: committable_cases)
  then have "concat (map commandStateCtxs cmds) = map ptr cmds"
    by (induction cmds) auto
  with p show ?thesis by (simp add: plain_commit_def remdups_adj_distinct)
qed

lemma committable_pb:
  "committable cmd = Some (Some a) \<Longrightarrow> committable (pb_Command s cmd) = Some (Some (idx_of s a))"
  by (auto simp: pb_ref_def elim!: committable_cases)

lemma idx_of_map_inj: "distinct s \<Longrightarrow> map (idx_of s) s = [0..<length s]"
proof (rule nth_equalityI)
  fix i assume d: "distinct s" and i: "i < length (map (idx_of s) s)"
  then have "idx_of s (s ! i) = i"
    using idx_of_less [of "s ! i" s] nth_idx_of [of "s ! i" s] by (simp add: nth_eq_iff_index_eq)
  with i show "map (idx_of s) s ! i = [0..<length s] ! i" by simp
qed simp

lemma idx_of_upt: "i < n \<Longrightarrow> idx_of [0..<n] i = i"
  using nth_idx_of [of i "[0..<n]"] idx_of_less [of i "[0..<n]"] by simp

lemma sent_commit:
  assumes "plain_commit cmds"
  defines "s \<equiv> map ptr cmds"
  shows "plain_commit (map (pb_Command s) cmds)" "map ptr (map (pb_Command s) cmds) = [0..<length cmds]"
proof -
  have p: "committable (pb_Command s cmd) = Some (Some (idx_of s (ptr cmd)))" if "cmd \<in> set cmds" for cmd
    using assms that by (simp add: plain_commit_def list_all_iff committable_pb)
  then have "map ptr (map (pb_Command s) cmds) = map (idx_of s) s"
    by (simp add: s_def ptr_def)
  also have "\<dots> = [0..<length s]"
    using assms by (intro idx_of_map_inj) (simp add: plain_commit_def)
  also have "length s = length cmds" by (simp add: s_def)
  finally show *: "map ptr (map (pb_Command s) cmds) = [0..<length cmds]" .
  show "plain_commit (map (pb_Command s) cmds)"
    using p * by (simp add: plain_commit_def list_all_iff ptr_def)
qed

lemma LogCommand_plain:
  assumes "plain_commit cmds" "\<forall>cmd \<in> set cmds. h (ptr cmd) \<noteq> None"
  shows "LogCommand h (CommitCmd cmds) = Ok ()"
proof -
  have one: "\<exists>i. cmd_sess h cmd = Ok i" "logCommand h cmd = Ok ()"
    if "committable cmd = Some (Some (ptr cmd))" "h (ptr cmd) \<noteq> None" for cmd
    using that by (auto simp: sess_of_def deref_def elim!: committable_cases)
  have "list_all (\<lambda>cmd. committable cmd = Some (Some (ptr cmd)) \<and> h (ptr cmd) \<noteq> None) cmds
    \<Longrightarrow> (\<exists>i. cmdsSessID h cmds = Ok i) \<and> logCommands h cmds = Ok ()"
    by (induction cmds) (use one in fastforce)+
  with assms show ?thesis by (auto simp: plain_commit_def list_all_iff LogCommand_def)
qed

text \<open>What the client copies back into the context of each command.\<close>

lemma syncResult_write:
  assumes "committable cmd = Some (Some a)" "h a = Some c" "idx_of s2 (idx_of s a) < length ctxs"
  shows "syncResult ctxs cmd (pb_Command s2 (pb_Command s cmd)) h
    = (Ok (), cmd, h(a \<mapsto> StateCtx_CopyTo (ctxs ! idx_of s2 (idx_of s a)) c))"
  using assms
  by (auto simp: copy_back_def with_ctx_def deref_def ctxs_heap_def pb_ref_def store_def elim!: committable_cases)

lemma syncResults_write:
  assumes "plain_commit cmds" "\<forall>cmd \<in> set cmds. h (ptr cmd) \<noteq> None \<and> idx_of s2 (idx_of s (ptr cmd)) < length ctxs"
  shows "syncResults ctxs i cmds (map (\<lambda>cmd. pb_Command s2 (pb_Command s cmd)) cmds) h
    = (Ok (), cmds, \<lambda>a. if a \<in> ptr ` set cmds
        then Some (StateCtx_CopyTo (ctxs ! idx_of s2 (idx_of s a)) (the (h a))) else h a)"
  using assms
proof (induction cmds arbitrary: i h)
  case (Cons cmd cmds)
  let ?a = "ptr cmd"
  from Cons.prems(2) obtain c where c: "h ?a = Some c" by auto
  let ?h = "h(?a \<mapsto> StateCtx_CopyTo (ctxs ! idx_of s2 (idx_of s ?a)) c)"
  have one: "syncResult ctxs cmd (pb_Command s2 (pb_Command s cmd)) h = (Ok (), cmd, ?h)"
    using Cons.prems by (intro syncResult_write [where h = h and c = c]) (auto simp: plain_commit_def c)
  have fresh: "?a \<notin> ptr ` set cmds" and p: "plain_commit cmds"
    using Cons.prems(1) by (auto simp: plain_commit_def)
  have "\<forall>cmd \<in> set cmds. ?h (ptr cmd) \<noteq> None \<and> idx_of s2 (idx_of s (ptr cmd)) < length ctxs"
    using Cons.prems(2) by auto
  note IH = Cons.IH [OF p this, of "Suc i"]
  show ?case
    by (simp add: one IH del: fun_upd_apply, rule ext) (use fresh c in auto)
qed simp

text \<open>
  The heap after a commit over the network: the contexts of the commands have the contexts of the
  server, as protobuf carries them, copied over them.
\<close>

definition net_written :: "nat list \<Rightarrow> heap \<Rightarrow> heap \<Rightarrow> heap" where
  "net_written s h1 h = (\<lambda>a. if a \<in> set s then Some (StateCtx_CopyTo (pb_StateCtx (the (h1 (idx_of s a)))) (the (h a))) else h a)"

definition commit_error :: "'c libs \<Rightarrow> json_codec \<Rightarrow> error \<Rightarrow> bool \<Rightarrow> HttpResponse outcome" where
  "commit_error lb J err proto =
    (if IsErrRevMismatch err then writeAbortedError lb J err proto
     else if Is_ErrNotFound err then writeNotFoundError lb J err proto
     else writeUnknownError lb J err proto)"

lemma sendable_commit:
  assumes "plain_commit cmds" "sendable h (CommitCmd cmds)"
  shows "\<forall>cmd \<in> set cmds. h (ptr cmd) \<noteq> None"
  using assms by (auto simp: sendable_def list_all_iff plain_commit_ctxs simp del: commandStateCtxs.simps split: option.splits)

lemma HandleCommit_sent:
  assumes "UnmarshalCommand (lib_easyproto lb) b = Ok (sent_cmd (CommitCmd cmds), sent_ctxs h (CommitCmd cmds))"
    and "plain_commit cmds" "sendable h (CommitCmd cmds)"
  shows "HandleAll lb J now D \<lparr>rq_Path = ''/flowstate.v1.Driver/Commit'', rq_ContentType = [], rq_Body = Ok b\<rparr> d
    = Some (case drv_Commit D (map (pb_Command (map ptr cmds)) cmds) (sent_heap h (CommitCmd cmds)) d of
        (Ok _, cmds1, h1, d1) \<Rightarrow> (writeCmd lb J h1 (CommitCmd cmds1) True, d1)
      | (Err err, cmds1, h1, d1) \<Rightarrow> (commit_error lb J err True, d1)
      | (Panic p, cmds1, h1, d1) \<Rightarrow> (Panic p, d1))"
proof -
  let ?s = "map ptr cmds" and ?cmds = "map (pb_Command (map ptr cmds)) cmds"
  have cmd: "sent_cmd (CommitCmd cmds) = CommitCmd ?cmds"
    by (simp add: sent_cmd_def plain_commit_ctxs [OF assms(2)] del: commandStateCtxs.simps)
  note sent = sent_commit [OF assms(2)]
  have "LogCommand (sent_heap h (CommitCmd cmds)) (CommitCmd ?cmds) = Ok ()"
  proof (rule LogCommand_plain [OF sent(1)], rule ballI)
    fix cmd assume "cmd \<in> set ?cmds"
    from imageI [OF this, of ptr] have "ptr cmd \<in> set (map ptr ?cmds)" by (simp only: set_map)
    then have "ptr cmd < length cmds" unfolding sent(2) by simp
    then show "sent_heap h (CommitCmd cmds) (ptr cmd) \<noteq> None"
      by (simp add: sent_heap_def sent_ctxs_def ctxs_heap_def plain_commit_ctxs [OF assms(2)] del: commandStateCtxs.simps)
  qed
  with readCmd_sent [OF assms(1), of as_Commit ?cmds] show ?thesis
    unfolding commit_error_def
    by (simp add: HandleAll_at HandleCommit_def Let_def is_proto_def cmd sent_heap_def)
qed

lemma net_response_commit:
  assumes "easyproto_laws E" "plain_commit cmds" "sendable h (CommitCmd cmds)"
    and "sendable h1 (CommitCmd (map (pb_Command (map ptr cmds)) cmds))"
    and "MarshalCommand E h1 (CommitCmd (map (pb_Command (map ptr cmds)) cmds)) [] = Ok b"
  shows "net_response E 200 b (CommitCmd cmds) h = (Ok (), CommitCmd cmds, net_written (map ptr cmds) h1 h)"
proof -
  let ?s = "map ptr cmds" and ?n = "length cmds"
  let ?cmds = "map (pb_Command ?s) cmds" and ?s2 = "[0..<length cmds]"
  note sent = sent_commit [OF assms(2)]
  have s2: "commandStateCtxs (CommitCmd ?cmds) = ?s2" using plain_commit_ctxs [OF sent(1)] sent(2) by simp
  let ?ctxs = "map (\<lambda>i. pb_StateCtx (the (h1 i))) ?s2"
  have un: "UnmarshalCommand E b = Ok (CommitCmd (map (\<lambda>cmd. pb_Command ?s2 (pb_Command ?s cmd)) cmds), ?ctxs)"
  proof -
    obtain b' where "MarshalCommand E h1 (CommitCmd ?cmds) [] = Ok b'"
      "UnmarshalCommand E b' = Ok (sent_cmd (CommitCmd ?cmds), sent_ctxs h1 (CommitCmd ?cmds))"
      using sendable_arrives [OF assms(1,4)] .
    with assms(5) show ?thesis
      by (simp add: sent_cmd_def sent_ctxs_def s2 comp_def del: commandStateCtxs.simps)
  qed
  have lt: "idx_of ?s (ptr cmd) < ?n" if "cmd \<in> set cmds" for cmd
    using idx_of_less [of "ptr cmd" ?s] that by simp
  have "\<forall>cmd \<in> set cmds. h (ptr cmd) \<noteq> None \<and> idx_of ?s2 (idx_of ?s (ptr cmd)) < length ?ctxs"
    using sendable_commit [OF assms(2,3)] lt by (auto simp: idx_of_upt)
  from syncResults_write [OF assms(2) this, of 0] show ?thesis
    using lt by (simp add: net_response_def un net_written_def) (auto simp: idx_of_upt fun_eq_iff)
qed

section \<open>Properties of commits\<close>

text \<open>
  C13: a commit of transits and parks over the network runs once at the driver of the server, on the
  commands and contexts as protobuf carries them. When the driver commits, the client's contexts
  become copies of the driver's; when it refuses, the client's contexts stay as they were, a missing
  state and a rev mismatch come back as the same errors, and any other error comes back as its text;
  when it panics, the client gets an error.
\<close>

theorem net_Commit_as_driver:
  assumes "easyproto_laws (lib_easyproto lb)" "http_server T (TrimRight host (CHR 0x2F)) (HandleAll lb J now D)"
    and "plain_commit cmds" "sendable h (CommitCmd cmds)"
    and "drv_Commit D (map (pb_Command (map ptr cmds)) cmds) (sent_heap h (CommitCmd cmds)) d = (r, cmds1, h1, d1)"
    and "r = Ok () \<Longrightarrow> cmds1 = map (pb_Command (map ptr cmds)) cmds \<and> sendable h1 (CommitCmd cmds1)"
  shows "case r of
      Ok _ \<Rightarrow> net_Commit (lib_easyproto lb) T host cmds h d = (Ok (), cmds, net_written (map ptr cmds) h1 h, d1)
    | Err err \<Rightarrow> (\<exists>err'. net_Commit (lib_easyproto lb) T host cmds h d = (Err err', cmds, h, d1)
        \<and> (IsErrRevMismatch err \<longrightarrow> (\<forall>ids. err = ErrRevMismatch ids \<longrightarrow> list_all plain_id ids \<longrightarrow> err' = err))
        \<and> (\<not> IsErrRevMismatch err \<longrightarrow> err' = (if Is_ErrNotFound err then ErrNotFound else Errorf (''unknown: '' @ error_text err))))
    | Panic p \<Rightarrow> \<exists>err. net_Commit (lib_easyproto lb) T host cmds h d = (Err err, cmds, h, d1)"
proof -
  let ?E = "lib_easyproto lb" and ?cmd = "CommitCmd cmds"
  obtain b where b: "MarshalCommand ?E h ?cmd [] = Ok b" "UnmarshalCommand ?E b = Ok (sent_cmd ?cmd, sent_ctxs h ?cmd)"
    using sendable_arrives [OF assms(1,4)] .
  note H = HandleCommit_sent [OF b(2) assms(3,4), of J now D d, unfolded assms(5)]
  show ?thesis
  proof (cases r)
    case (Ok u)
    then have c1: "cmds1 = map (pb_Command (map ptr cmds)) cmds" "sendable h1 (CommitCmd cmds1)" using assms(6) by auto
    obtain b1 where b1: "MarshalCommand ?E h1 (CommitCmd cmds1) [] = Ok b1" using sendable_arrives [OF assms(1) c1(2)] .
    have "HandleAll lb J now D \<lparr>rq_Path = ''/flowstate.v1.Driver/Commit'', rq_ContentType = [], rq_Body = Ok b\<rparr> d
      = Some (Ok \<lparr>rs_Status = 200, rs_ContentType = content_type True, rs_Body = b1\<rparr>, d1)"
      unfolding H Ok by (simp add: writeCmd_def b1)
    from net_do_answered [OF assms(2) b(1) this] net_response_commit [OF assms(1,3,4) c1(2) [unfolded c1(1)] b1 [unfolded c1(1)]]
    show ?thesis by (simp add: Ok net_Commit_def)
  next
    case (Err err)
    define code where "code = (if IsErrRevMismatch err then ''aborted'' else if Is_ErrNotFound err then ''not_found'' else ''unknown'')"
    have "\<exists>rs. commit_error lb J err True = Ok rs \<and> rs_Status rs \<noteq> 200 \<and> rs_Body rs = marshalError ?E code (error_text err)"
      by (simp add: commit_error_def write_error_defs code_def)
    then obtain rs where rs: "commit_error lb J err True = Ok rs" "rs_Status rs \<noteq> 200"
      "rs_Body rs = marshalError ?E code (error_text err)" by blast
    with H Err have "HandleAll lb J now D \<lparr>rq_Path = ''/flowstate.v1.Driver/Commit'', rq_ContentType = [], rq_Body = Ok b\<rparr> d
      = Some (Ok rs, d1)" by simp
    from net_do_answered [OF assms(2) b(1) this]
    have "net_Commit ?E T host cmds h d = (Err (net_error code (error_text err)), cmds, h, d1)"
      by (simp add: net_Commit_def net_response_error [OF assms(1) rs(2)] rs(3))
    moreover have "net_error code (error_text err) = err"
      if "IsErrRevMismatch err" "err = ErrRevMismatch ids" "list_all plain_id ids" for ids
      using net_error_aborted [OF that(3)] that(1,2) by (simp add: code_def)
    moreover have "net_error code (error_text err) = (if Is_ErrNotFound err then ErrNotFound else Errorf (''unknown: '' @ error_text err))"
      if "\<not> IsErrRevMismatch err"
      using that net_error_not_found by (simp add: code_def) (simp add: net_error_def)
    ultimately show ?thesis by (simp add: Err)
  next
    case (Panic p)
    with H have "HandleAll lb J now D \<lparr>rq_Path = ''/flowstate.v1.Driver/Commit'', rq_ContentType = [], rq_Body = Ok b\<rparr> d
      = Some (Panic p, d1)" by simp
    from net_do_aborted [OF assms(2) b(1) this] obtain err where
      "net_do ?E T host ?cmd ''/flowstate.v1.Driver/Commit'' h d = (Err err, ?cmd, h, d1)" ..
    then show ?thesis by (simp add: Panic net_Commit_def)
  qed
qed

definition demo_cmds :: "Command list" where
  "demo_cmds = [TransitCmd (Transit (Some 5) ''f'')]"

definition demo_ran :: "unit outcome \<times> Command list \<times> heap \<times> memdriver" where
  "demo_ran = drv_Commit (memdriver_Driver wire_libs (\<lambda>_. True)) (map (pb_Command (map ptr demo_cmds)) demo_cmds)
    (sent_heap [5 \<mapsto> new_ctx ''a''] (CommitCmd demo_cmds)) New"

theorem net_Commit_as_driver_witness:
  "\<exists>h d. net_Commit wire demo_net ''http://h:1/'' demo_cmds [5 \<mapsto> new_ctx ''a''] New = (Ok (), demo_cmds, h, d)
    \<and> map entry_ID (sl_entries (md_stateLog d)) = [''a'']"
proof -
  obtain r cs h d where ran: "demo_ran = (r, cs, h, d)" by (cases demo_ran)
  have "fst demo_ran = Ok ()" "fst (snd demo_ran) = map (pb_Command (map ptr demo_cmds)) demo_cmds"
    "sendable (fst (snd (snd demo_ran))) (CommitCmd (fst (snd demo_ran)))"
    "map entry_ID (sl_entries (md_stateLog (snd (snd (snd demo_ran))))) = [''a'']"
    by code_simp+
  then have r: "r = Ok ()" "cs = map (pb_Command (map ptr demo_cmds)) demo_cmds" "sendable h (CommitCmd cs)"
    "map entry_ID (sl_entries (md_stateLog d)) = [''a'']" by (simp_all add: ran)
  have "plain_commit demo_cmds" "sendable [5 \<mapsto> new_ctx ''a''] (CommitCmd demo_cmds)" by code_simp+
  from net_Commit_as_driver [OF wire_libs_laws demo_net_server this ran [unfolded demo_ran_def]] r
  show ?thesis by (simp add: wire_libs_def)
qed

text \<open>
  C40: the server takes the eight paths of the driver and no other request; it answers with one of
  five statuses, and a request that it answers with the status 400, because its body is no command of
  the kind the path asks for or the command is not well-formed, has not reached the driver.
\<close>

theorem HandleAll_safe:
  "(HandleAll lb J now D req d = None \<longleftrightarrow> rq_Path req \<notin> set driver_paths)
    \<and> (HandleAll lb J now D req d = Some (Ok rs, d') \<longrightarrow>
        rs_Status rs \<in> {200, 400, 404, 409, 500} \<and> (rs_Status rs = 400 \<longrightarrow> d' = d))"
proof (intro conjI impI)
  show "HandleAll lb J now D req d = None \<longleftrightarrow> rq_Path req \<notin> set driver_paths"
    by (auto simp: HandleAll_def or_else_def handler_defs Let_def driver_paths_def)
next
  assume "HandleAll lb J now D req d = Some (Ok rs, d')"
  then show "rs_Status rs \<in> {200, 400, 404, 409, 500}"
    unfolding HandleAll_def or_else_def handler_defs Let_def checked_def
    by (auto simp: write_error_defs split: if_splits prod.splits outcome.splits dest!: writeCmd_status)
next
  assume "HandleAll lb J now D req d = Some (Ok rs, d')" "rs_Status rs = 400"
  then show "d' = d" by (rule answered_400)
qed

definition bad_request :: HttpRequest where
  "bad_request = \<lparr>rq_Path = ''/flowstate.v1.Driver/Commit'', rq_ContentType = [], rq_Body = Ok (CHR 0x0A # ''?'')\<rparr>"

theorem HandleAll_safe_witness:
  "\<exists>rs d'. HandleAll wire_libs demo_json 0 (memdriver_Driver wire_libs (\<lambda>_. True)) bad_request first_driver = Some (Ok rs, d')
    \<and> rs_Status rs = 400 \<and> d' = first_driver"
proof -
  let ?r = "HandleAll wire_libs demo_json 0 (memdriver_Driver wire_libs (\<lambda>_. True)) bad_request first_driver"
  have "map_option (\<lambda>(r, d). case r of Ok rs \<Rightarrow> rs_Status rs | _ \<Rightarrow> 0) ?r = Some 400" by code_simp
  then obtain x d' where "?r = Some (x, d')" "(case x of Ok rs \<Rightarrow> rs_Status rs | _ \<Rightarrow> 0) = 400" by auto
  then obtain rs where r: "?r = Some (Ok rs, d')" "rs_Status rs = 400" by (cases x) auto
  with HandleAll_safe [of wire_libs demo_json 0 "memdriver_Driver wire_libs (\<lambda>_. True)" bad_request first_driver rs d']
  show ?thesis by blast
qed

text \<open>
  An id with a comma in it comes back as two ids, so \<open>IsErrRevMismatchContains\<close> does not find the
  state that the commit was refused for.
\<close>

lemma comma_id_splits:
  "net_error ''aborted'' (error_text (ErrRevMismatch [''a,b''])) = ErrRevMismatch [''a'', ''b'']"
  "\<not> IsErrRevMismatchContains (net_error ''aborted'' (error_text (ErrRevMismatch [''a,b'']))) ''a,b''"
  by code_simp+

end
