(* ===== verification/NetflowProps.thy ===== *)
theory NetflowProps
  imports Netflow NetdriverProps EngineProps
begin

text \<open>
  A remote flow runs on its host; what a registry learns from the states of the driver; and what an
  announced flow becomes for the other hosts when it is set, unset and set again.
\<close>

section \<open>A remote flow\<close>

lemma wf_pb_StateCtx:
  assumes "easyproto_laws E" "pb_ok_StateCtx c"
  shows "wf_StateCtx (pb_StateCtx c)"
proof -
  from pb_ok_marshals [OF assms(2)] obtain m where m: "marshalStateCtx c = Some m" ..
  have "wf_StateCtx (fst (UnmarshalStateCtx E (ep_Marshal E m) StateCtx0))"
    by (rule UnmarshalStateCtx_wf) simp
  then show ?thesis by (simp add: easyproto_laws.StateCtx_roundtrip [OF assms m])
qed

lemma pb_Datas_present:
  "pb_ok_StateCtx c \<Longrightarrow> \<forall>(n, d) \<in> set (gm_entries (sc_Datas (pb_StateCtx c))). d \<noteq> None"
  by (auto simp: pb_ok_StateCtx_def pb_StateCtx_def pb_Datas_def norm_map_def list_all_iff split: if_splits option.splits)

lemma norm_pb_State [simp]: "norm_State (pb_State s) = pb_State s"
  by (simp add: pb_State_def norm_State_def norm_Transition_def)

lemma flow_response_Noop:
  assumes "easyproto_laws (lib_easyproto lb)" "flow_writeCmd lb J Noop True = Ok rs"
  shows "flow_response (lib_easyproto lb) (rs_Status rs) (rs_Body rs) = Ok (NoopCmd, [])"
proof -
  obtain b where "MarshalCommand (lib_easyproto lb) Map.empty NoopCmd [] = Ok b"
    "UnmarshalCommand (lib_easyproto lb) b = Ok (NoopCmd, [])"
    using sendable_arrives [OF assms(1), of Map.empty NoopCmd] by (auto simp: sendable_def sent_cmd_def sent_ctxs_def)
  with assms(2) show ?thesis by (auto simp: flow_writeCmd_def Noop_def flow_response_def)
qed

text \<open>
  Executing a flow of another host returns \<open>Noop\<close>, which ends the execution here, and starts one
  execution there, on a context of its own with the states and the blobs of the caller's context as
  protobuf carries them; the driver of that host is not touched by the call.
\<close>

lemma remote_flow_starts:
  assumes "easyproto_laws (lib_easyproto lb)" "http_server T (TrimRight host (CHR 0x2F)) (HandleExecute lb J now D)"
    and "pb_ok_StateCtx c"
  shows "\<exists>w' c' a. flow_Execute (lib_easyproto lb) T host c w = (Ok (NoopCmd, []), w')
    \<and> w_spawned w' = w_spawned w @ [a] \<and> w_heap w' a = Some c' \<and> w_cache w' = w_cache w
    \<and> sc_Current c' = pb_State (sc_Current c) \<and> sc_Committed c' = pb_State (sc_Committed c)
    \<and> (\<forall>n. gm_lookup (sc_Datas c') n = map_option copied_Data (gm_lookup (pb_Datas (sc_Datas c)) n))"
proof -
  let ?E = "lib_easyproto lb" and ?c = "pb_StateCtx c"
  obtain a w1 where new: "new_context ?c w = (a, w1)" by fastforce
  then have w1: "w_heap w1 a = Some ?c" "w_next w1 = Suc a" "w_spawned w1 = w_spawned w" "w_cache w1 = w_cache w"
    by (auto simp: new_context_def)
  from doCmd_execute_spec [OF w1(1) wf_pb_StateCtx [OF assms(1,3)] pb_Datas_present [OF assms(3)], of D lb now]
  obtain w' c' where run: "doCmd D lb now (ExecuteCmd (Execute (Some a))) w1 = (Ok (), ExecuteCmd (Execute (Some a)), w')"
    "w_spawned w' = w_spawned w1 @ [w_next w1]" "w_cache w' = w_cache w1" "w_heap w' (w_next w1) = Some c'"
    "sc_Current c' = norm_State (sc_Current ?c)" "sc_Committed c' = norm_State (sc_Committed ?c)"
    "\<forall>n. gm_lookup (sc_Datas c') n = map_option copied_Data (gm_lookup (sc_Datas ?c) n)"
    by blast
  from pb_ok_marshals [OF assms(3)] obtain m where m: "marshalStateCtx c = Some m" ..
  let ?b = "ep_Marshal ?E m"
  have b: "MarshalStateCtx ?E c [] = Ok ?b" "UnmarshalStateCtx ?E ?b StateCtx0 = (?c, Ok ())"
    using easyproto_laws.StateCtx_roundtrip [OF assms(1,3) m] by (simp_all add: MarshalStateCtx_def m)
  obtain bn where "MarshalCommand ?E Map.empty NoopCmd [] = Ok bn"
    using sendable_arrives [OF assms(1), of Map.empty NoopCmd] by (auto simp: sendable_def)
  then obtain rs where rs: "flow_writeCmd lb J Noop True = Ok rs" by (simp add: flow_writeCmd_def Noop_def)
  have "HandleExecute lb J now D \<lparr>rq_Path = ''/flowstate.v1.Flow/Execute'', rq_ContentType = [], rq_Body = Ok ?b\<rparr> w = Some (Ok rs, w')"
    by (simp add: HandleExecute_def Let_def is_proto_def read_StateCtx_def b(2) new engine_do_def run(1) rs)
  from http_server.answered [OF assms(2) this] http_server.new_request [OF assms(2)]
  have "flow_Execute ?E T host c w = (Ok (NoopCmd, []), w')"
    by (simp add: flow_Execute_def Let_def b(1) flow_response_Noop [OF assms(1) rs])
  with run w1 show ?thesis
    by (intro exI [of _ w'] exI [of _ c'] exI [of _ "w_next w1"]) (simp add: pb_StateCtx_def)
qed

definition flow_net :: "memdriver world transport" where
  "flow_net = direct_net ''http://f:2'' (HandleExecute wire_libs demo_json 0 (memdriver_Driver wire_libs (\<lambda>_. True)))"

lemma flow_net_server:
  "http_server flow_net (TrimRight ''http://f:2'' (CHR 0x2F)) (HandleExecute wire_libs demo_json 0 (memdriver_Driver wire_libs (\<lambda>_. True)))"
  unfolding flow_net_def by (simp add: TrimRight_def direct.http_server_axioms)

lemma remote_flow_starts_instance:
  "\<exists>w' c'. flow_Execute wire flow_net ''http://f:2'' demo_ctx (demo_world demo_ctx) = (Ok (NoopCmd, []), w')
    \<and> w_spawned w' = [c'] \<and> w_cache w' = w_cache (demo_world demo_ctx)"
proof -
  have "pb_ok_StateCtx demo_ctx" by code_simp
  from remote_flow_starts [OF wire_libs_laws flow_net_server this, of "demo_world demo_ctx"]
  show ?thesis by (auto simp: wire_libs_def demo_world_def)
qed

section \<open>The flows that are announced\<close>

text \<open>
  The latest state of a flow, which names its host and says whether the flow is set or unset there. A
  transition of it that carries the annotation itself would hide that of the state.
\<close>

definition flow_state :: "memdriver \<Rightarrow> string \<Rightarrow> StateCtx option" where
  "flow_state d tsID = fst (GetLatestByID (md_stateLog d) (flowStateID tsID))"

definition plain_action :: "StateCtx \<Rightarrow> bool" where
  "plain_action e \<longleftrightarrow> gm_lookup (ts_Annotations (s_Transition (sc_Current e))) actionAnnotation = None"

definition says :: "StateCtx \<Rightarrow> string \<Rightarrow> string \<Rightarrow> string \<Rightarrow> bool" where
  "says e tsID host action \<longleftrightarrow> gm_lookup (s_Annotations (sc_Current e)) transitionAnnotation = Some tsID
    \<and> gm_lookup (s_Annotations (sc_Current e)) hostAnnotation = Some host
    \<and> gm_lookup (s_Annotations (sc_Current e)) actionAnnotation = Some action"

definition published :: "memdriver \<Rightarrow> string \<Rightarrow> string \<Rightarrow> string \<Rightarrow> bool" where
  "published d tsID host action \<longleftrightarrow> (case flow_state d tsID of None \<Rightarrow> False | Some e \<Rightarrow> says e tsID host action \<and> plain_action e)"

text \<open>No flow of the id is announced, or one of another host than \<open>host\<close>.\<close>

definition unclaimed :: "memdriver \<Rightarrow> string \<Rightarrow> string \<Rightarrow> bool" where
  "unclaimed d tsID host \<longleftrightarrow> (case flow_state d tsID of None \<Rightarrow> True
    | Some e \<Rightarrow> gm_str (s_Annotations (sc_Current e)) hostAnnotation \<noteq> host \<and> plain_action e)"

lemma annotation_names [simp]:
  "transitionAnnotation \<noteq> hostAnnotation" "hostAnnotation \<noteq> transitionAnnotation"
  "transitionAnnotation \<noteq> actionAnnotation" "actionAnnotation \<noteq> transitionAnnotation"
  "hostAnnotation \<noteq> actionAnnotation" "actionAnnotation \<noteq> hostAnnotation"
  by (simp_all add: hostAnnotation_def transitionAnnotation_def actionAnnotation_def)

lemma flowStateID_nonempty [simp]: "flowStateID tsID \<noteq> []"
  by (simp add: flowStateID_def)

lemma flow_state_wf:
  assumes "flow_state d tsID = Some e"
  shows "gm_wf (s_Annotations (sc_Current e))" "gm_wf (ts_Annotations (s_Transition (sc_Current e)))"
proof -
  have "wf_StateCtx e"
    using assms by (auto simp: flow_state_def GetLatestByID_def split: option.splits)
  then show "gm_wf (s_Annotations (sc_Current e))" "gm_wf (ts_Annotations (s_Transition (sc_Current e)))"
    by (simp_all add: wf_defs)
qed

text \<open>What \<open>GetStateByID\<close> reads is the latest state, on top of the context it is read into.\<close>

lemma get_flow_state_mem:
  "get_flow_state (memdriver_Driver lb pick) c tsID d =
    (case flow_state d tsID of
       None \<Rightarrow> (Err (Errorw [] ErrNotFound (''; id='' @ flowStateID tsID)), c, d)
     | Some e \<Rightarrow> (Ok (), StateCtx_CopyTo e c, d))"
  by (auto simp: get_flow_state_def memdriver_Driver_def mem_GetStateByID_def GetStateByID_def copy_out_def
      flow_state_def with_ctx_def deref_def store_def split: option.splits)

lemma says_copy: "wf_StateCtx e \<Longrightarrow> says e tsID host action \<Longrightarrow> says (StateCtx_CopyTo e c) tsID host action"
  by (simp add: says_def State_CopyTo_def gm_lookup_merge wf_defs)

lemma plain_action_fresh [simp]: "plain_action StateCtx0" "plain_action (new_flow_state tsID)"
  by (simp_all add: plain_action_def new_flow_state_def StateCtx0_def State0_def Transition0_def)

lemma plain_action_copy:
  "wf_StateCtx e \<Longrightarrow> plain_action e \<Longrightarrow> plain_action c \<Longrightarrow> plain_action (StateCtx_CopyTo e c)"
  by (simp add: plain_action_def State_CopyTo_def Transition_CopyTo_def gm_lookup_merge wf_defs Let_def)

text \<open>A commit of the state of a flow, and what the others then read.\<close>

lemma commit_flow_state_mem:
  assumes "mem_idle d" "room (md_stateLog d) (Suc n)" "wf_StateCtx c"
    and "s_ID (sc_Current c) = flowStateID tsID" "s_Rev (sc_Committed c) = snd (GetLatestByID (md_stateLog d) (flowStateID tsID))"
    and "s_Rev (sc_Current c) = s_Rev (sc_Committed c)"
    and "says c tsID host action" "case flow_state d tsID of None \<Rightarrow> True | Some e \<Rightarrow> plain_action e"
  shows "\<exists>d'. commit_flow_state (memdriver_Driver lb pick) c d = (Ok (), d')
    \<and> mem_idle d' \<and> room (md_stateLog d') n \<and> published d' tsID host action"
proof -
  let ?cmd = "ParkCmd (Park (Some 0))" and ?h = "[0 \<mapsto> c] :: heap" and ?sid = "flowStateID tsID"
  let ?l = "md_stateLog d" and ?c = "next_ctx c (ParkCmd (Park (Some 0)))"
  have h: "wf_heap ?h" using assms(3) by (auto simp: wf_heap_def)
  have "latest_ctx ?l c ?sid" using assms(4-6) by (simp add: latest_ctx_def)
  from mem_Commit_write [where lb = lb and pick = pick, OF _ _ this assms(1) h assms(2), of 0 ?cmd]
  obtain c' d' e where com: "mem_Commit lb pick [?cmd] ?h d = (Ok (), [?cmd], store ?h (Some 0) c', d')"
    "sl_entries (md_stateLog d') = sl_entries ?l @ [e]" "sl_rev (md_stateLog d') = sl_rev ?l + 1"
    "entry_ID e = ?sid" "e = committedT lb ?l ?c"
    by (auto simp: Park_def)
  have idle: "mem_idle d'" using mem_Commit_idle [OF assms(1) h _ com(1)] assms(2) by (simp add: room_def)
  have state: "flow_state d' tsID = Some (StateCtx_CopyTo e StateCtx0)"
    using com(2,4) by (simp add: flow_state_def GetLatestByID_def)
  let ?t0 = "case flow_state d tsID of None \<Rightarrow> StateCtx0 | Some e \<Rightarrow> e"
  have wf: "wf_StateCtx ?t0" "wf_StateCtx ?c" "wf_StateCtx e"
  proof -
    show "wf_StateCtx ?t0" by (auto simp: flow_state_def GetLatestByID_def split: option.splits)
    show "wf_StateCtx ?c" using assms(3) by simp
    have "e \<in> set (sl_entries (md_stateLog d'))" by (simp add: com(2))
    then show "wf_StateCtx e" using idle by (auto simp: mem_idle_def mem_ok_def log_ok_def list_all_iff entry_ok_def)
  qed
  have cur: "s_Annotations (sc_Current e) = gm_merge (s_Annotations (sc_Current c)) (s_Annotations (sc_Current ?t0))"
    "ts_Annotations (s_Transition (sc_Current e)) = ts_Annotations (s_Transition (sc_Current ?t0))"
    unfolding com(5) using assms(4)
    by (simp_all add: committedT_def Let_def flow_state_def State_CopyTo_def Transition_CopyTo_def next_ctx_def
        set_Transition_def append_Transition_def Park_def set_annotations_def Transition0_def gm_len_def reset_Transitions_def)
  have "says e tsID host action" "plain_action e"
    using assms(3,7,8) cur by (auto simp: says_def plain_action_def gm_lookup_merge wf_defs StateCtx0_def State0_def
        Transition0_def split: option.splits)
  then have "published d' tsID host action"
    using says_copy [OF wf(3), of tsID host action StateCtx0] plain_action_copy [OF wf(3), of StateCtx0] state
    by (simp add: published_def)
  then show ?thesis
    using com(1,3) idle assms(2) by (auto simp: commit_flow_state_def memdriver_Driver_def room_def)
qed

text \<open>The flows of a registry, and one flow per host.\<close>

definition hosts_ok :: "'f Registry \<Rightarrow> bool" where
  "hosts_ok fr \<longleftrightarrow> (case nr_hostFlows fr of None \<Rightarrow> True | Some m \<Rightarrow> \<forall>h g. m h = Some g \<longrightarrow> g = h)"

lemma setFlow_keeps:
  "nr_httpHost (setFlow s fr) = nr_httpHost fr" "nr_sinceRev (setFlow s fr) = nr_sinceRev fr"
  "hosts_ok fr \<Longrightarrow> hosts_ok (setFlow s fr)"
  by (auto simp: setFlow_def Let_def hosts_ok_def split: option.splits)

lemma Flow_setFlow:
  assumes "hosts_ok fr" "tsID \<noteq> []"
  shows "Flow (nr_fr (setFlow s fr)) tsID =
    (if gm_str (s_Annotations s) hostAnnotation = nr_httpHost fr \<or> gm_str (s_Annotations s) transitionAnnotation \<noteq> tsID
     then Flow (nr_fr fr) tsID
     else if Annotation s actionAnnotation = ''unset'' then Err ErrFlowNotFound
     else Ok (Remote (gm_str (s_Annotations s) hostAnnotation)))"
proof -
  let ?ts = "gm_str (s_Annotations s) transitionAnnotation"
  note laws = default_registry.put_get [where r = "nr_fr fr"] default_registry.put_other [where r = "nr_fr fr"]
    default_registry.del_get [where r = "nr_fr fr"] default_registry.del_other [where r = "nr_fr fr"]
  show ?thesis
    using assms laws by (cases "?ts = tsID") (auto simp: setFlow_def Let_def hosts_ok_def split: option.splits)
qed

lemma reg_Flow_published:
  assumes "published d tsID host action" "host \<noteq> nr_httpHost fr" "tsID \<noteq> []"
    and "Flow (nr_fr fr) tsID = Err ErrFlowNotFound" "hosts_ok fr"
  shows "\<exists>fr'. reg_Flow (memdriver_Driver lb pick) tsID fr d
    = ((if action = ''unset'' then Err ErrFlowNotFound else Ok (Some (Remote host))), fr', d)"
proof -
  obtain e where e: "flow_state d tsID = Some e" "says e tsID host action" "plain_action e"
    using assms(1) by (auto simp: published_def split: option.splits)
  have wf: "wf_StateCtx e"
    using e(1) by (auto simp: flow_state_def GetLatestByID_def split: option.splits)
  let ?s = "sc_Current (StateCtx_CopyTo e StateCtx0)"
  have "gm_str (s_Annotations ?s) transitionAnnotation = tsID" "gm_str (s_Annotations ?s) hostAnnotation = host"
    "Annotation ?s actionAnnotation = action"
    using says_copy [OF wf e(2), of StateCtx0] plain_action_copy [OF wf e(3), of StateCtx0]
    by (simp_all add: says_def plain_action_def gm_str_def Annotation_def)
  then show ?thesis
    using assms(2-5) Flow_setFlow [OF assms(5,3), of ?s]
    by (simp add: reg_Flow_def get_flow_state_mem e(1) Let_def)
qed

text \<open>The context that \<open>SetFlow\<close> and \<open>UnsetFlow\<close> work on is at the latest revision of its state.\<close>

definition flow_ctx :: "memdriver \<Rightarrow> string \<Rightarrow> StateCtx" where
  "flow_ctx d tsID = (case flow_state d tsID of None \<Rightarrow> new_flow_state tsID | Some e \<Rightarrow> StateCtx_CopyTo e (new_flow_state tsID))"

lemma wf_new_flow_state [simp]: "wf_StateCtx (new_flow_state tsID)"
  by (simp add: new_flow_state_def wf_defs StateCtx0_def State0_def Transition0_def)

lemma flow_ctx_latest:
  assumes "mem_idle d"
  shows "wf_StateCtx (flow_ctx d tsID)" "s_ID (sc_Current (flow_ctx d tsID)) = flowStateID tsID"
    "s_Rev (sc_Committed (flow_ctx d tsID)) = snd (GetLatestByID (md_stateLog d) (flowStateID tsID))"
    "s_Rev (sc_Current (flow_ctx d tsID)) = s_Rev (sc_Committed (flow_ctx d tsID))"
proof -
  show "wf_StateCtx (flow_ctx d tsID)" by (simp add: flow_ctx_def split: option.split)
  obtain found r where g: "GetLatestByID (md_stateLog d) (flowStateID tsID) = (found, r)" by fastforce
  from g have "s_ID (sc_Current (flow_ctx d tsID)) = flowStateID tsID \<and> s_Rev (sc_Committed (flow_ctx d tsID)) = r
      \<and> s_Rev (sc_Current (flow_ctx d tsID)) = s_Rev (sc_Committed (flow_ctx d tsID))"
  proof (cases rule: GetLatestByID_cases)
    case 1
    then show ?thesis
      using g by (simp add: flow_ctx_def flow_state_def new_flow_state_def StateCtx0_def State0_def)
  next
    case (2 e)
    then have "entry_ok (sl_rev (md_stateLog d)) e"
      using assms by (auto simp: mem_idle_def mem_ok_def log_ok_def list_all_iff)
    with 2 show ?thesis
      using g by (simp add: flow_ctx_def flow_state_def entry_ok_def entry_ID_def entry_Rev_def State_CopyTo_def)
  qed
  then show "s_ID (sc_Current (flow_ctx d tsID)) = flowStateID tsID"
    "s_Rev (sc_Committed (flow_ctx d tsID)) = snd (GetLatestByID (md_stateLog d) (flowStateID tsID))"
    "s_Rev (sc_Current (flow_ctx d tsID)) = s_Rev (sc_Committed (flow_ctx d tsID))"
    using g by simp_all
qed

lemma commit_flow_ctx:
  assumes "mem_idle d" "room (md_stateLog d) (Suc n)" "case flow_state d tsID of None \<Rightarrow> True | Some e \<Rightarrow> plain_action e"
    and "wf_StateCtx c" "says c tsID host action"
    and "s_ID (sc_Current c) = s_ID (sc_Current (flow_ctx d tsID))" "s_Rev (sc_Current c) = s_Rev (sc_Current (flow_ctx d tsID))"
    and "sc_Committed c = sc_Committed (flow_ctx d tsID)"
  obtains d' where "commit_flow_state (memdriver_Driver lb pick) c d = (Ok (), d')"
    "mem_idle d'" "room (md_stateLog d') n" "published d' tsID host action"
  using commit_flow_state_mem [OF assms(1,2,4) _ _ _ assms(5,3), of lb pick] flow_ctx_latest [OF assms(1), of tsID] assms(6-8)
  by auto

lemma announced_simps:
  "s_ID (sc_Current (announced tsID host c)) = s_ID (sc_Current c)"
  "s_Rev (sc_Current (announced tsID host c)) = s_Rev (sc_Current c)"
  "sc_Committed (announced tsID host c) = sc_Committed c"
  "says (announced tsID host c) tsID host ''set''"
  "wf_StateCtx c \<Longrightarrow> wf_StateCtx (announced tsID host c)"
  by (simp_all add: announced_def set_ann_def SetAnnotation_def SetLabel_def Let_def says_def)
    (simp add: wf_defs)

lemma reg_SetFlow_publishes:
  assumes "mem_idle d" "room (md_stateLog d) (Suc n)" "tsID \<noteq> []" "nr_httpHost fr \<noteq> []" "unclaimed d tsID (nr_httpHost fr)"
  obtains d' where "reg_SetFlow (memdriver_Driver lb pick) (\<lambda>d. d) tsID f fr d
      = (Ok (), fr\<lparr>nr_fr := snd (SetFlow (nr_fr fr) tsID f)\<rparr>, d')"
    "mem_idle d'" "room (md_stateLog d') n" "published d' tsID (nr_httpHost fr) ''set''"
proof -
  let ?c = "flow_ctx d tsID" and ?host = "nr_httpHost fr"
  have "case flow_state d tsID of None \<Rightarrow> True | Some e \<Rightarrow> plain_action e"
    using assms(5) by (auto simp: unclaimed_def split: option.splits)
  note commit = commit_flow_ctx [OF assms(1,2) this, of "announced tsID ?host ?c" ?host "''set''" lb pick]
  obtain d' where d': "commit_flow_state (memdriver_Driver lb pick) (announced tsID ?host ?c) d = (Ok (), d')"
    "mem_idle d'" "room (md_stateLog d') n" "published d' tsID ?host ''set''"
    by (rule commit) (simp_all add: announced_simps flow_ctx_latest [OF assms(1)])
  have "gm_str (s_Annotations (sc_Current ?c)) hostAnnotation \<noteq> ?host"
  proof (cases "flow_state d tsID")
    case None
    then show ?thesis
      using assms(4) by (simp add: flow_ctx_def new_flow_state_def StateCtx0_def State0_def gm_str_def)
  next
    case (Some e)
    then show ?thesis
      using assms(4,5) flow_state_wf [OF Some]
      by (simp add: flow_ctx_def unclaimed_def State_CopyTo_def gm_str_def gm_lookup_merge new_flow_state_def
          StateCtx0_def State0_def split: option.splits)
  qed
  moreover obtain r where "SetFlow (nr_fr fr) tsID f = (Ok (), r)"
    using assms(3) by (simp add: SetFlow_def Let_def)
  ultimately have "reg_SetFlow (memdriver_Driver lb pick) (\<lambda>d. d) tsID f fr d = (Ok (), fr\<lparr>nr_fr := r\<rparr>, d')"
    "snd (SetFlow (nr_fr fr) tsID f) = r"
    using d'(1) by (cases "flow_state d tsID"; simp add: reg_SetFlow_def get_flow_state_mem flow_ctx_def Let_def)+
  with that d'(2-4) show thesis by simp
qed

lemma reg_UnsetFlow_publishes:
  assumes "mem_idle d" "room (md_stateLog d) (Suc n)" "published d tsID host action" "Flow (nr_fr fr) tsID = Ok (Local f)"
  obtains d' where "reg_UnsetFlow (memdriver_Driver lb pick) (\<lambda>d. d) tsID fr d
      = (Ok (), fr\<lparr>nr_fr := snd (UnsetFlow (nr_fr fr) tsID)\<rparr>, d')"
    "mem_idle d'" "room (md_stateLog d') n" "published d' tsID host ''unset''"
proof -
  let ?c = "flow_ctx d tsID"
  obtain e where e: "flow_state d tsID = Some e" "says e tsID host action" "plain_action e"
    using assms(3) by (auto simp: published_def split: option.splits)
  have wf: "wf_StateCtx e" using e(1) by (auto simp: flow_state_def GetLatestByID_def split: option.splits)
  have c: "?c = StateCtx_CopyTo e (new_flow_state tsID)" by (simp add: flow_ctx_def e(1))
  have "says ?c tsID host action" unfolding c by (rule says_copy [OF wf e(2)])
  then have says: "says (set_ann actionAnnotation ''unset'' ?c) tsID host ''unset''"
    by (simp add: says_def set_ann_def SetAnnotation_def)
  have plain: "case flow_state d tsID of None \<Rightarrow> True | Some e \<Rightarrow> plain_action e" by (simp add: e)
  have wf': "wf_StateCtx (set_ann actionAnnotation ''unset'' ?c)"
    using flow_ctx_latest(1) [OF assms(1), of tsID] by (simp add: set_ann_def SetAnnotation_def wf_defs)
  obtain d' where d': "commit_flow_state (memdriver_Driver lb pick) (set_ann actionAnnotation ''unset'' ?c) d = (Ok (), d')"
    "mem_idle d'" "room (md_stateLog d') n" "published d' tsID host ''unset''"
    by (rule commit_flow_ctx [OF assms(1,2) plain wf' says]) (simp_all add: set_ann_def SetAnnotation_def)
  obtain r where "UnsetFlow (nr_fr fr) tsID = (Ok (), r)"
    using assms(4) by (auto simp: UnsetFlow_def Flow_def split: if_splits option.splits)
  then have "reg_UnsetFlow (memdriver_Driver lb pick) (\<lambda>d. d) tsID fr d = (Ok (), fr\<lparr>nr_fr := r\<rparr>, d')"
    "snd (UnsetFlow (nr_fr fr) tsID) = r"
    using d'(1) assms(4) by (simp_all add: reg_UnsetFlow_def get_flow_state_mem c e(1) Let_def)
  with that d'(2-4) show thesis by simp
qed

section \<open>Properties\<close>

text \<open>
  C39: a flow that one host sets is found by every other host, at once and before it has synced: over
  an in-memory driver that holds no state of the flow, or the state of another host, the first host
  keeps its own flow and announces it, and the registry of any other host that does not know the flow
  answers with a flow that runs on the first one.
\<close>

theorem announced_flow_found:
  assumes "mem_idle d" "room (md_stateLog d) 1" "tsID \<noteq> []" "nr_httpHost A \<noteq> []" "unclaimed d tsID (nr_httpHost A)"
    and "nr_httpHost B \<noteq> nr_httpHost A" "Flow (nr_fr B) tsID = Err ErrFlowNotFound" "hosts_ok B"
  shows "\<exists>A' B' d'. reg_SetFlow (memdriver_Driver lb pick) (\<lambda>d. d) tsID f A d = (Ok (), A', d')
    \<and> Flow (nr_fr A') tsID = Ok f
    \<and> reg_Flow (memdriver_Driver lb pick) tsID B d' = (Ok (Some (Remote (nr_httpHost A))), B', d')"
proof -
  have "room (md_stateLog d) (Suc 0)" using assms(2) by simp
  then obtain d' where d': "reg_SetFlow (memdriver_Driver lb pick) (\<lambda>d. d) tsID f A d
      = (Ok (), A\<lparr>nr_fr := snd (SetFlow (nr_fr A) tsID f)\<rparr>, d')" "published d' tsID (nr_httpHost A) ''set''"
    by (rule reg_SetFlow_publishes [OF assms(1) _ assms(3-5)])
  from reg_Flow_published [OF this(2) _ assms(3,7,8)] assms(6)
  obtain B' where "reg_Flow (memdriver_Driver lb pick) tsID B d' = (Ok (Some (Remote (nr_httpHost A))), B', d')"
    by auto
  with d'(1) show ?thesis
    using default_registry.put_get [OF assms(3), of "nr_fr A" f] by simp
qed

definition host_a :: "nat Registry" where
  "host_a = NewRegistry ''http://a:1''"

definition host_b :: "nat Registry" where
  "host_b = NewRegistry ''http://b:1''"

lemma host_simps [simp]:
  "nr_httpHost host_a = ''http://a:1''" "nr_httpHost host_b = ''http://b:1''" "hosts_ok host_b"
  "Flow (nr_fr host_b) ''pay'' = Err ErrFlowNotFound"
  by (simp_all add: host_a_def host_b_def NewRegistry_def hosts_ok_def Flow_def DefaultFlowRegistry0_def)

lemma unclaimed_New [simp]: "unclaimed New tsID host"
  by (simp add: unclaimed_def flow_state_def GetLatestByID_def New_def)

lemma rooms_New: "room (md_stateLog New) 1" "room (md_stateLog New) 2"
  by (simp_all add: New_def room_def)

theorem announced_flow_found_witness:
  "\<exists>A' B' d'. reg_SetFlow (memdriver_Driver wire_libs (\<lambda>_. True)) (\<lambda>d. d) ''pay'' (Local 7) host_a New = (Ok (), A', d')
    \<and> reg_Flow (memdriver_Driver wire_libs (\<lambda>_. True)) ''pay'' host_b d' = (Ok (Some (Remote ''http://a:1'')), B', d')"
  using announced_flow_found [OF mem_idle_New rooms_New(1), of "''pay''" host_a host_b wire_libs "\<lambda>_. True" "Local 7"] by auto

text \<open>
  A flow that a host has set, unset and set again stays unset for all the others: all three calls
  succeed, but the last one finds its own host in the state of the flow and announces nothing.
\<close>

lemma reset_flow_not_announced:
  assumes "mem_idle d" "room (md_stateLog d) 2" "tsID \<noteq> []" "nr_httpHost A \<noteq> []" "unclaimed d tsID (nr_httpHost A)"
    and "nr_httpHost B \<noteq> nr_httpHost A" "Flow (nr_fr B) tsID = Err ErrFlowNotFound" "hosts_ok B"
  shows "\<exists>A1 A2 A3 d1 d2 B'. reg_SetFlow (memdriver_Driver lb pick) (\<lambda>d. d) tsID (Local f) A d = (Ok (), A1, d1)
    \<and> reg_UnsetFlow (memdriver_Driver lb pick) (\<lambda>d. d) tsID A1 d1 = (Ok (), A2, d2)
    \<and> reg_SetFlow (memdriver_Driver lb pick) (\<lambda>d. d) tsID (Local g) A2 d2 = (Ok (), A3, d2)
    \<and> Flow (nr_fr A3) tsID = Ok (Local g)
    \<and> reg_Flow (memdriver_Driver lb pick) tsID B d2 = (Err ErrFlowNotFound, B', d2)"
proof -
  let ?D = "memdriver_Driver lb pick" and ?host = "nr_httpHost A"
  let ?A1 = "A\<lparr>nr_fr := snd (SetFlow (nr_fr A) tsID (Local f))\<rparr>"
  have "room (md_stateLog d) (Suc (Suc 0))" using assms(2) by (simp add: numeral_2_eq_2)
  then obtain d1 where d1: "reg_SetFlow ?D (\<lambda>d. d) tsID (Local f) A d = (Ok (), ?A1, d1)"
    "mem_idle d1" "room (md_stateLog d1) (Suc 0)" "published d1 tsID ?host ''set''"
    by (rule reg_SetFlow_publishes [OF assms(1) _ assms(3-5)])
  have "Flow (nr_fr ?A1) tsID = Ok (Local f)" using default_registry.put_get [OF assms(3)] by simp
  define A2 where "A2 = ?A1\<lparr>nr_fr := snd (UnsetFlow (nr_fr ?A1) tsID)\<rparr>"
  obtain d2 where d2: "reg_UnsetFlow ?D (\<lambda>d. d) tsID ?A1 d1 = (Ok (), A2, d2)" "published d2 tsID ?host ''unset''"
    unfolding A2_def by (rule reg_UnsetFlow_publishes [OF d1(2-4) \<open>Flow (nr_fr ?A1) tsID = Ok (Local f)\<close>])
  have host: "nr_httpHost A2 = ?host" by (simp add: A2_def)
  obtain r where set: "SetFlow (nr_fr A2) tsID (Local g) = (Ok (), r)"
    using assms(3) by (simp add: SetFlow_def Let_def)
  obtain e where e: "flow_state d2 tsID = Some e" "says e tsID ?host ''unset''"
    using d2(2) by (auto simp: published_def split: option.splits)
  have "wf_StateCtx e" using e(1) by (auto simp: flow_state_def GetLatestByID_def split: option.splits)
  from says_copy [OF this e(2)] have "gm_str (s_Annotations (sc_Current (StateCtx_CopyTo e c))) hostAnnotation = ?host" for c
    by (simp add: says_def gm_str_def)
  then have "reg_SetFlow ?D (\<lambda>d. d) tsID (Local g) A2 d2 = (Ok (), A2\<lparr>nr_fr := r\<rparr>, d2)"
    by (simp add: reg_SetFlow_def set get_flow_state_mem e(1) host Let_def)
  moreover have "Flow r tsID = Ok (Local g)"
    using default_registry.put_get [OF assms(3), of "nr_fr A2" "Local g"] by (simp add: set)
  moreover obtain B' where "reg_Flow ?D tsID B d2 = (Err ErrFlowNotFound, B', d2)"
    using reg_Flow_published [OF d2(2) _ assms(3,7,8)] assms(6) by auto
  ultimately show ?thesis using d1(1) d2(1) by (intro exI conjI) (assumption | simp)+
qed

lemma reset_flow_not_announced_instance:
  "\<exists>A1 A2 A3 d1 d2 B'. reg_SetFlow (memdriver_Driver wire_libs (\<lambda>_. True)) (\<lambda>d. d) ''pay'' (Local 7) host_a New = (Ok (), A1, d1)
    \<and> reg_UnsetFlow (memdriver_Driver wire_libs (\<lambda>_. True)) (\<lambda>d. d) ''pay'' A1 d1 = (Ok (), A2, d2)
    \<and> reg_SetFlow (memdriver_Driver wire_libs (\<lambda>_. True)) (\<lambda>d. d) ''pay'' (Local 8) A2 d2 = (Ok (), A3, d2)
    \<and> reg_Flow (memdriver_Driver wire_libs (\<lambda>_. True)) ''pay'' host_b d2 = (Err ErrFlowNotFound, B', d2)"
  using reset_flow_not_announced [OF mem_idle_New rooms_New(2), of "''pay''" host_a host_b wire_libs "\<lambda>_. True" 7 8] by auto

end
