(* ===== verification/Json.thy ===== *)
theory Json
  imports Errors
begin

text \<open>
  What the source uses of the standard package \<open>encoding/json\<close>: the text of a JSON value (printed
  without spaces, with the escapes of Go, and read back), and the rules by which a JSON object fills the
  fields of a struct.
\<close>

section \<open>Values\<close>

text \<open>Numbers, which the source never writes, keep their text.\<close>

datatype json =
    JNull
  | JBool bool
  | JNum string
  | JStr string
  | JArr "json list"
  | JObj "(string \<times> json) list"

section \<open>Strings\<close>

definition byte :: "char \<Rightarrow> nat" where
  "byte c = of_char c"

definition within :: "nat \<Rightarrow> nat \<Rightarrow> char \<Rightarrow> bool" where
  "within lo hi c \<longleftrightarrow> lo \<le> byte c \<and> byte c \<le> hi"

text \<open>The length of the UTF-8 sequence that \<open>s\<close> starts with, 0 when it starts with none.\<close>

fun rune_len :: "string \<Rightarrow> nat" where
  "rune_len [] = 0"
| "rune_len (a # s) =
    (if byte a < 0x80 then 1
     else case s of
       [] \<Rightarrow> 0
     | b # s1 \<Rightarrow>
         (if within 0xC2 0xDF a then (if within 0x80 0xBF b then 2 else 0)
          else case s1 of
            [] \<Rightarrow> 0
          | c # s2 \<Rightarrow>
              (if within 0xE0 0xEF a then
                 (if within (if byte a = 0xE0 then 0xA0 else 0x80) (if byte a = 0xED then 0x9F else 0xBF) b
                     \<and> within 0x80 0xBF c then 3 else 0)
               else case s2 of
                 [] \<Rightarrow> 0
               | d # s3 \<Rightarrow>
                   (if within 0xF0 0xF4 a
                       \<and> within (if byte a = 0xF0 then 0x90 else 0x80) (if byte a = 0xF4 then 0x8F else 0xBF) b
                       \<and> within 0x80 0xBF c \<and> within 0x80 0xBF d then 4 else 0))))"

definition hex_char :: "nat \<Rightarrow> char" where
  "hex_char n = char_of (if n < 10 then 48 + n else 87 + n)"

definition hex_val :: "char \<Rightarrow> nat option" where
  "hex_val c =
    (let n = byte c in
     if 48 \<le> n \<and> n \<le> 57 then Some (n - 48)
     else if 97 \<le> n \<and> n \<le> 102 then Some (n - 87)
     else if 65 \<le> n \<and> n \<le> 70 then Some (n - 55)
     else None)"

text \<open>The escapes of an ASCII character; \<open><\<close>, \<open>>\<close> and \<open>&\<close> are escaped too.\<close>

definition backslash :: char where
  "backslash = CHR 0x5C"

definition dquote :: char where
  "dquote = CHR 0x22"

definition esc_char :: "char \<Rightarrow> string" where
  "esc_char c =
    (if c = dquote \<or> c = backslash then [backslash, c]
     else if c = CHR 0x08 then [backslash, CHR ''b'']
     else if c = CHR 0x0C then [backslash, CHR ''f'']
     else if c = CHR 0x0A then [backslash, CHR ''n'']
     else if c = CHR 0x0D then [backslash, CHR ''r'']
     else if c = CHR 0x09 then [backslash, CHR ''t'']
     else if byte c < 32 \<or> c = CHR ''<'' \<or> c = CHR ''>'' \<or> c = CHR ''&'' then
       [backslash, CHR ''u'', CHR ''0'', CHR ''0'', hex_char (byte c div 16), hex_char (byte c mod 16)]
     else [c])"

text \<open>The separators U+2028 and U+2029, three bytes each.\<close>

definition line_sep :: "string \<Rightarrow> bool" where
  "line_sep s \<longleftrightarrow> take 3 s = [CHR 0xE2, CHR 0x80, CHR 0xA8] \<or> take 3 s = [CHR 0xE2, CHR 0x80, CHR 0xA9]"

text \<open>A byte that starts no UTF-8 sequence is written as U+FFFD.\<close>

fun esc :: "string \<Rightarrow> string" where
  "esc [] = []"
| "esc (c # s) =
    (if byte c < 0x80 then esc_char c @ esc s
     else if rune_len (c # s) = 0 then backslash # ''ufffd'' @ esc s
     else if line_sep (c # s) then backslash # ''u202'' @ [hex_char (byte (s ! 1) mod 16)] @ esc (drop 2 s)
     else c # take (rune_len (c # s) - 1) s @ esc (drop (rune_len (c # s) - 1) s))"

definition json_string :: "string \<Rightarrow> string" where
  "json_string s = dquote # esc s @ [dquote]"

text \<open>Reading a string, behind its opening quote: the string and what follows its closing quote.\<close>

definition utf8_enc :: "nat \<Rightarrow> string" where
  "utf8_enc r =
    (if r < 0x80 then [char_of r]
     else if r < 0x800 then [char_of (0xC0 + r div 64), char_of (0x80 + r mod 64)]
     else if r < 0x10000 then
       [char_of (0xE0 + r div 4096), char_of (0x80 + r div 64 mod 64), char_of (0x80 + r mod 64)]
     else [char_of (0xF0 + r div 262144), char_of (0x80 + r div 4096 mod 64),
       char_of (0x80 + r div 64 mod 64), char_of (0x80 + r mod 64)])"

definition replacement :: nat where
  "replacement = 0xFFFD"

fun hex4 :: "string \<Rightarrow> nat option" where
  "hex4 (a # b # c # d # s) =
    (case (hex_val a, hex_val b, hex_val c, hex_val d) of
       (Some w, Some x, Some y, Some z) \<Rightarrow> Some (((w * 16 + x) * 16 + y) * 16 + z)
     | _ \<Rightarrow> None)"
| "hex4 _ = None"

text \<open>The low half of a surrogate pair, when \<open>s\<close> goes on with one.\<close>

definition low_half :: "string \<Rightarrow> nat option" where
  "low_half s =
    (if take 2 s = [backslash, CHR ''u''] then
       (case hex4 (drop 2 s) of
          Some v \<Rightarrow> (if 0xDC00 \<le> v \<and> v < 0xE000 then Some (v - 0xDC00) else None)
        | None \<Rightarrow> None)
     else None)"

definition simple_escape :: "char \<Rightarrow> char option" where
  "simple_escape c =
    (if c = dquote \<or> c = backslash \<or> c = CHR ''/'' then Some c
     else if c = CHR ''b'' then Some (CHR 0x08)
     else if c = CHR ''f'' then Some (CHR 0x0C)
     else if c = CHR ''n'' then Some (CHR 0x0A)
     else if c = CHR ''r'' then Some (CHR 0x0D)
     else if c = CHR ''t'' then Some (CHR 0x09)
     else None)"

function parse_str :: "string \<Rightarrow> (string \<times> string) option" where
  "parse_str [] = None"
| "parse_str (c # s) =
    (let put = (\<lambda>out. map_option (\<lambda>(t, rest). (out @ t, rest))) in
     if c = dquote then Some ([], s)
     else if byte c < 32 then None
     else if c = backslash then
       (case s of
          [] \<Rightarrow> None
        | e # s1 \<Rightarrow>
            (if e = CHR ''u'' then
               (case hex4 s1 of
                  None \<Rightarrow> None
                | Some r \<Rightarrow>
                    (if 0xD800 \<le> r \<and> r < 0xE000 then
                       (case low_half (drop 4 s1) of
                          Some l \<Rightarrow>
                            (if r < 0xDC00 then put (utf8_enc (0x10000 + (r - 0xD800) * 1024 + l)) (parse_str (drop 10 s1))
                             else put (utf8_enc replacement) (parse_str (drop 4 s1)))
                        | None \<Rightarrow> put (utf8_enc replacement) (parse_str (drop 4 s1)))
                     else put (utf8_enc r) (parse_str (drop 4 s1))))
             else case simple_escape e of
               None \<Rightarrow> None
             | Some d \<Rightarrow> put [d] (parse_str s1)))
     else if byte c < 0x80 then put [c] (parse_str s)
     else if rune_len (c # s) = 0 then put (utf8_enc replacement) (parse_str s)
     else put (c # take (rune_len (c # s) - 1) s) (parse_str (drop (rune_len (c # s) - 1) s)))"
  by pat_completeness auto
termination
  by (relation "measure length") auto

declare parse_str.simps [simp del] rune_len.simps [simp del]

section \<open>Texts\<close>

fun json_print :: "json \<Rightarrow> string" where
  "json_print JNull = ''null''"
| "json_print (JBool b) = (if b then ''true'' else ''false'')"
| "json_print (JNum s) = s"
| "json_print (JStr s) = json_string s"
| "json_print (JArr js) = ''['' @ join '','' (map json_print js) @ '']''"
| "json_print (JObj fs) = ''{'' @ join '','' (map (\<lambda>(k, v). json_string k @ '':'' @ json_print v) fs) @ ''}''"

definition is_blank :: "char \<Rightarrow> bool" where
  "is_blank c \<longleftrightarrow> byte c \<in> {9, 10, 13, 32}"

definition skip_blanks :: "string \<Rightarrow> string" where
  "skip_blanks s = dropWhile is_blank s"

definition is_digit :: "char \<Rightarrow> bool" where
  "is_digit c \<longleftrightarrow> char_digit c \<noteq> None"

definition digits :: "string \<Rightarrow> bool" where
  "digits s \<longleftrightarrow> s \<noteq> [] \<and> list_all is_digit s"

text \<open>\<open>-? (0 | [1-9][0-9]* ) (. [0-9]+)? ([eE] [+-]? [0-9]+)?\<close>\<close>

definition num_ok :: "string \<Rightarrow> bool" where
  "num_ok s =
    (let s1 = (if s \<noteq> [] \<and> hd s = CHR ''-'' then tl s else s);
         i = takeWhile is_digit s1; s2 = dropWhile is_digit s1;
         (frac, s3) = (if s2 \<noteq> [] \<and> hd s2 = CHR ''.'' then (digits (takeWhile is_digit (tl s2)), dropWhile is_digit (tl s2))
                       else (True, s2));
         ex = (if s3 = [] then True
               else if hd s3 \<in> {CHR ''e'', CHR ''E''} then
                 (let t = tl s3 in digits (if t \<noteq> [] \<and> hd t \<in> {CHR ''+'', CHR ''-''} then tl t else t))
               else False)
     in digits i \<and> (hd i = CHR ''0'' \<longrightarrow> length i = 1) \<and> frac \<and> ex)"

definition num_char :: "char \<Rightarrow> bool" where
  "num_char c \<longleftrightarrow> is_digit c \<or> c \<in> set ''+-.eE''"

definition starts :: "string \<Rightarrow> string \<Rightarrow> bool" where
  "starts p s \<longleftrightarrow> take (length p) s = p"

text \<open>
  Reading a value: the value and what follows it. Each value, element and member takes one unit of fuel;
  the length of the text is enough.
\<close>

fun parse_value :: "nat \<Rightarrow> string \<Rightarrow> (json \<times> string) option"
  and parse_elems :: "nat \<Rightarrow> string \<Rightarrow> (json list \<times> string) option"
  and parse_members :: "nat \<Rightarrow> string \<Rightarrow> ((string \<times> json) list \<times> string) option" where
  "parse_value 0 s0 = None"
| "parse_value (Suc n) s0 =
    (case skip_blanks s0 of
       [] \<Rightarrow> None
     | c # s \<Rightarrow>
         (if c = dquote then map_option (\<lambda>(t, rest). (JStr t, rest)) (parse_str s)
          else if c = CHR ''['' then
            (if skip_blanks s \<noteq> [] \<and> hd (skip_blanks s) = CHR '']'' then Some (JArr [], tl (skip_blanks s))
             else map_option (\<lambda>(js, rest). (JArr js, rest)) (parse_elems n s))
          else if c = CHR ''{'' then
            (if skip_blanks s \<noteq> [] \<and> hd (skip_blanks s) = CHR ''}'' then Some (JObj [], tl (skip_blanks s))
             else map_option (\<lambda>(fs, rest). (JObj fs, rest)) (parse_members n s))
          else if starts ''null'' (c # s) then Some (JNull, drop 4 (c # s))
          else if starts ''true'' (c # s) then Some (JBool True, drop 4 (c # s))
          else if starts ''false'' (c # s) then Some (JBool False, drop 5 (c # s))
          else let t = takeWhile num_char (c # s)
               in if num_ok t then Some (JNum t, dropWhile num_char (c # s)) else None))"
| "parse_elems 0 s = None"
| "parse_elems (Suc n) s =
    (case parse_value n s of
       None \<Rightarrow> None
     | Some (j, s1) \<Rightarrow>
         (case skip_blanks s1 of
            [] \<Rightarrow> None
          | c # rest \<Rightarrow>
              (if c = CHR '','' then map_option (\<lambda>(js, rest). (j # js, rest)) (parse_elems n rest)
               else if c = CHR '']'' then Some ([j], rest)
               else None)))"
| "parse_members 0 s = None"
| "parse_members (Suc n) s =
    (case skip_blanks s of
       [] \<Rightarrow> None
     | q # s1 \<Rightarrow>
         (if q \<noteq> dquote then None
          else case parse_str s1 of
            None \<Rightarrow> None
          | Some (k, s2) \<Rightarrow>
              (case skip_blanks s2 of
                 [] \<Rightarrow> None
               | co # s3 \<Rightarrow>
                   (if co \<noteq> CHR '':'' then None
                    else case parse_value n s3 of
                      None \<Rightarrow> None
                    | Some (v, s4) \<Rightarrow>
                        (case skip_blanks s4 of
                           [] \<Rightarrow> None
                         | c # rest \<Rightarrow>
                             (if c = CHR '','' then map_option (\<lambda>(fs, rest). ((k, v) # fs, rest)) (parse_members n rest)
                              else if c = CHR ''}'' then Some ([(k, v)], rest)
                              else None))))))"

definition json_error :: error where
  "json_error = Errorf ''json''"

definition json_parse :: "string \<Rightarrow> json outcome" where
  "json_parse s =
    (case parse_value (Suc (length s)) s of
       Some (j, rest) \<Rightarrow> (if skip_blanks rest = [] then Ok j else Err json_error)
     | None \<Rightarrow> Err json_error)"

section \<open>What is printed is read back\<close>

text \<open>Strings that are valid UTF-8.\<close>

function utf8 :: "string \<Rightarrow> bool" where
  "utf8 [] = True"
| "utf8 (c # s) = (rune_len (c # s) \<noteq> 0 \<and> utf8 (drop (rune_len (c # s) - 1) s))"
  by pat_completeness auto
termination
  by (relation "measure length") auto

declare utf8.simps(2) [simp del]

fun json_utf8 :: "json \<Rightarrow> bool" where
  "json_utf8 JNull = True"
| "json_utf8 (JBool b) = True"
| "json_utf8 (JNum s) = False"
| "json_utf8 (JStr s) = utf8 s"
| "json_utf8 (JArr js) = list_all json_utf8 js"
| "json_utf8 (JObj fs) = list_all (\<lambda>(k, v). utf8 k \<and> json_utf8 v) fs"

lemma rune_len_ascii: "byte c < 0x80 \<Longrightarrow> rune_len (c # s) = 1"
  by (simp add: rune_len.simps)

lemma rune_len_bound: "rune_len s \<le> length s"
  by (cases s; cases "tl s"; cases "tl (tl s)"; cases "tl (tl (tl s))") (simp_all add: rune_len.simps)

lemma rune_len_local:
  "rune_len s \<noteq> 0 \<Longrightarrow> rune_len (take (rune_len s) s @ t) = rune_len s"
  by (cases s; cases "tl s"; cases "tl (tl s)"; cases "tl (tl (tl s))")
    (auto simp: rune_len.simps split: if_splits)

lemma rune_len_two: "\<not> byte c < 0x80 \<Longrightarrow> rune_len (c # s) \<noteq> 0 \<Longrightarrow> 2 \<le> rune_len (c # s)"
  by (cases s; cases "tl s"; cases "tl (tl s)") (auto simp: rune_len.simps split: if_splits)

lemma hex_val_char: "n < 16 \<Longrightarrow> hex_val (hex_char n) = Some n"
  by (auto simp: hex_val_def hex_char_def byte_def)

lemma byte_eq_iff: "c = d \<longleftrightarrow> byte c = byte d"
  by (simp add: byte_def)

lemma byte_char [simp]: "char_of (byte c) = c"
  by (simp add: byte_def)

lemma parse_esc_char:
  assumes "byte c < 0x80"
  shows "parse_str (esc_char c @ t) = map_option (\<lambda>(u, r). (c # u, r)) (parse_str t)"
proof -
  have hex: "hex_val (CHR ''0'') = Some 0" "byte c div 16 < 16" "byte c mod 16 < 16"
    "hex_val (hex_char (byte c div 16)) = Some (byte c div 16)"
    "hex_val (hex_char (byte c mod 16)) = Some (byte c mod 16)"
    using assms by (auto simp: hex_val_char) (simp add: hex_val_def byte_def)
  consider (q) "c = dquote \<or> c = backslash" | (s) "c \<in> {CHR 0x08, CHR 0x09, CHR 0x0A, CHR 0x0C, CHR 0x0D}"
    | (u) "c \<notin> {CHR 0x08, CHR 0x09, CHR 0x0A, CHR 0x0C, CHR 0x0D}" "c \<noteq> dquote" "c \<noteq> backslash"
        "byte c < 32 \<or> c = CHR ''<'' \<or> c = CHR ''>'' \<or> c = CHR ''&''"
    | (p) "c \<notin> {CHR 0x08, CHR 0x09, CHR 0x0A, CHR 0x0C, CHR 0x0D}" "c \<noteq> dquote" "c \<noteq> backslash"
        "\<not> (byte c < 32 \<or> c = CHR ''<'' \<or> c = CHR ''>'' \<or> c = CHR ''&'')"
    by blast
  then show ?thesis
  proof cases
    case q
    then show ?thesis
      by (auto simp: esc_char_def parse_str.simps(2) simple_escape_def backslash_def dquote_def byte_def)
  next
    case s
    then show ?thesis
      by (auto simp: esc_char_def parse_str.simps(2) simple_escape_def backslash_def dquote_def byte_def)
  next
    case u
    then have e: "esc_char c = [backslash, CHR ''u'', CHR ''0'', CHR ''0'', hex_char (byte c div 16), hex_char (byte c mod 16)]"
      by (simp add: esc_char_def)
    show ?thesis
      unfolding e using assms hex
      by (simp add: parse_str.simps(2) [of "CHR 0x5C"] backslash_def dquote_def byte_def utf8_enc_def)
  next
    case p
    then have "esc_char c = [c]" by (simp add: esc_char_def)
    with p show ?thesis using assms by (simp add: parse_str.simps(2) Let_def)
  qed
qed

lemma char_ofI: "byte c = n \<Longrightarrow> char_of n = c"
  by (auto simp: byte_def)

lemma parse_line_sep:
  "parse_str (CHR 0x5C # CHR ''u'' # CHR ''2'' # CHR ''0'' # CHR ''2'' # CHR ''8'' # t)
    = map_option (\<lambda>(u, r). (CHR 0xE2 # CHR 0x80 # CHR 0xA8 # u, r)) (parse_str t)"
  "parse_str (CHR 0x5C # CHR ''u'' # CHR ''2'' # CHR ''0'' # CHR ''2'' # CHR ''9'' # t)
    = map_option (\<lambda>(u, r). (CHR 0xE2 # CHR 0x80 # CHR 0xA9 # u, r)) (parse_str t)"
proof -
  have "hex_val (CHR ''0'') = Some 0" "hex_val (CHR ''2'') = Some 2" "hex_val (CHR ''8'') = Some 8" "hex_val (CHR ''9'') = Some 9"
    by code_simp+
  moreover have "utf8_enc 8232 = [CHR 0xE2, CHR 0x80, CHR 0xA8]" "utf8_enc 8233 = [CHR 0xE2, CHR 0x80, CHR 0xA9]"
    by (auto simp: utf8_enc_def byte_def intro!: char_ofI)
  ultimately show "parse_str (CHR 0x5C # CHR ''u'' # CHR ''2'' # CHR ''0'' # CHR ''2'' # CHR ''8'' # t)
      = map_option (\<lambda>(u, r). (CHR 0xE2 # CHR 0x80 # CHR 0xA8 # u, r)) (parse_str t)"
    "parse_str (CHR 0x5C # CHR ''u'' # CHR ''2'' # CHR ''0'' # CHR ''2'' # CHR ''9'' # t)
      = map_option (\<lambda>(u, r). (CHR 0xE2 # CHR 0x80 # CHR 0xA9 # u, r)) (parse_str t)"
    by (simp_all add: parse_str.simps(2) [of "CHR 0x5C"] dquote_def backslash_def byte_def)
qed

lemma parse_str_esc: "utf8 s \<Longrightarrow> parse_str (esc s @ dquote # rest) = Some (s, rest)"
proof (induction s rule: utf8.induct)
  case 1
  then show ?case by (simp add: parse_str.simps)
next
  case (2 c s)
  define n where "n = rune_len (c # s) - 1"
  have n: "rune_len (c # s) = Suc n" "utf8 (drop n s)"
    using 2(2) by (simp_all add: utf8.simps(2) n_def)
  then have IH: "parse_str (esc (drop n s) @ dquote # rest) = Some (drop n s, rest)"
    using 2(1) by (simp add: n_def)
  have len: "n \<le> length s" using rune_len_bound [of "c # s"] n(1) by simp
  consider (ascii) "byte c < 0x80" | (sep) "\<not> byte c < 0x80" "line_sep (c # s)" | (other) "\<not> byte c < 0x80" "\<not> line_sep (c # s)"
    by blast
  then show ?case
  proof cases
    case ascii
    then have "n = 0" using n(1) by (simp add: rune_len_ascii)
    then show ?thesis using ascii IH by (simp add: parse_esc_char)
  next
    case sep
    then obtain x s' where s: "c = CHR 0xE2" "s = CHR 0x80 # x # s'" "x = CHR 0xA8 \<or> x = CHR 0xA9"
      by (cases s; cases "tl s") (auto simp: line_sep_def)
    then have n2: "n = 2" using n(1) by (auto simp: rune_len.simps within_def byte_def)
    have e: "esc (c # s) = [CHR 0x5C, CHR ''u'', CHR ''2'', CHR ''0'', CHR ''2'', hex_char (byte x mod 16)] @ esc s'"
      using sep n(1) by (simp add: s(2) backslash_def)
    have hex: "hex_char 8 = CHR ''8''" "hex_char 9 = CHR ''9''" by code_simp+
    have "parse_str (esc s' @ dquote # rest) = Some (s', rest)" using IH by (simp add: s(2) n2)
    moreover have "hex_char (byte x mod 16) = (if x = CHR 0xA8 then CHR ''8'' else CHR ''9'')"
      using s(3) hex by (auto simp: byte_def)
    ultimately show ?thesis
      using s(3) unfolding e by (elim disjE) (simp_all add: s(1,2) parse_line_sep)
  next
    case other
    let ?X = "esc (drop n s) @ dquote # rest"
    have "rune_len (c # take n s @ ?X) = Suc n"
      using rune_len_local [of "c # s" ?X] n(1) by simp
    moreover have "c \<noteq> dquote" "c \<noteq> backslash" "\<not> byte c < 32"
      using other(1) by (auto simp: dquote_def backslash_def byte_def)
    ultimately have "parse_str (c # take n s @ ?X) = Some (c # s, rest)"
      using other(1) IH len by (simp add: parse_str.simps(2) Let_def)
    then show ?thesis using other n(1) by simp
  qed
qed

section \<open>Values\<close>

text \<open>The fuel that reading a value takes.\<close>

fun elems_depth :: "nat list \<Rightarrow> nat" where
  "elems_depth [] = 0"
| "elems_depth (d # ds) = Suc (max d (elems_depth ds))"

fun depth :: "json \<Rightarrow> nat" where
  "depth (JArr js) = Suc (elems_depth (map depth js))"
| "depth (JObj fs) = Suc (elems_depth (map (\<lambda>(k, v). depth v) fs))"
| "depth _ = 1"

lemma depth_pos: "0 < depth j"
  by (cases j) auto

lemma esc_char_nonempty [simp]: "esc_char c \<noteq> []"
  by (simp add: esc_char_def)

lemma skip_blanks_simps [simp]:
  "skip_blanks [] = []" "\<not> is_blank c \<Longrightarrow> skip_blanks (c # s) = c # s"
  by (simp_all add: skip_blanks_def)

lemma json_print_hd:
  assumes "json_utf8 j"
  shows "\<exists>c t. json_print j = c # t \<and> \<not> is_blank c \<and> c \<noteq> CHR '']'' \<and> c \<noteq> CHR ''}''"
  using assms by (cases j) (auto simp: json_string_def dquote_def is_blank_def byte_def)

lemma blank_marks [simp]: "\<not> is_blank (CHR '','')" "\<not> is_blank (CHR '']'')" "\<not> is_blank (CHR ''}'')"
  "\<not> is_blank (CHR '':'')" "\<not> is_blank dquote"
  by (simp_all add: is_blank_def byte_def dquote_def)

lemma parse_elems_print:
  assumes "\<And>j n rest. j \<in> set js \<Longrightarrow> json_utf8 j \<Longrightarrow> depth j \<le> n \<Longrightarrow> parse_value n (json_print j @ rest) = Some (j, rest)"
    and "list_all json_utf8 js" "js \<noteq> []" "elems_depth (map depth js) \<le> n"
  shows "parse_elems n (join '','' (map json_print js) @ CHR '']'' # rest) = Some (js, rest)"
  using assms
proof (induction js arbitrary: n rule: induct_list012)
  case (2 j)
  then obtain n' where n: "n = Suc n'" "depth j \<le> n'" by (cases n) auto
  then have "parse_value n' (json_print j @ CHR '']'' # rest) = Some (j, CHR '']'' # rest)"
    using 2 by simp
  then show ?case by (simp add: n(1))
next
  case (3 j k js)
  then obtain n' where n: "n = Suc n'" "depth j \<le> n'" "elems_depth (map depth (k # js)) \<le> n'"
    by (cases n) auto
  have "parse_value n' (json_print j @ CHR '','' # join '','' (map json_print (k # js)) @ CHR '']'' # rest)
      = Some (j, CHR '','' # join '','' (map json_print (k # js)) @ CHR '']'' # rest)"
    using 3(3,4) n(2) by simp
  moreover have "parse_elems n' (join '','' (map json_print (k # js)) @ CHR '']'' # rest) = Some (k # js, rest)"
    using 3(3,4) n(3) by (intro 3(2)) auto
  ultimately show ?case by (simp add: n(1))
qed simp

lemma parse_members_print:
  assumes "\<And>k v n rest. (k, v) \<in> set fs \<Longrightarrow> json_utf8 v \<Longrightarrow> depth v \<le> n \<Longrightarrow> parse_value n (json_print v @ rest) = Some (v, rest)"
    and "list_all (\<lambda>(k, v). utf8 k \<and> json_utf8 v) fs" "fs \<noteq> []" "elems_depth (map (\<lambda>(k, v). depth v) fs) \<le> n"
  shows "parse_members n (join '','' (map (\<lambda>(k, v). json_string k @ '':'' @ json_print v) fs) @ CHR ''}'' # rest) = Some (fs, rest)"
  using assms
proof (induction fs arbitrary: n rule: induct_list012)
  case (2 f)
  obtain k v where f: "f = (k, v)" by (cases f)
  with 2 obtain n' where n: "n = Suc n'" "depth v \<le> n'" by (cases n) auto
  then have "parse_value n' (json_print v @ CHR ''}'' # rest) = Some (v, CHR ''}'' # rest)"
    using 2 f by simp
  then show ?case using 2(2) f by (simp add: n(1) json_string_def parse_str_esc)
next
  case (3 f g fs)
  obtain k v where f: "f = (k, v)" by (cases f)
  let ?tl = "join '','' (map (\<lambda>(k, v). json_string k @ '':'' @ json_print v) (g # fs)) @ CHR ''}'' # rest"
  from 3 f obtain n' where n: "n = Suc n'" "depth v \<le> n'" "elems_depth (map (\<lambda>(k, v). depth v) (g # fs)) \<le> n'"
    by (cases n) auto
  have "parse_value n' (json_print v @ CHR '','' # ?tl) = Some (v, CHR '','' # ?tl)"
    using 3(4) n(2) by (intro 3(3) [of k]) (simp_all add: f)
  moreover have "parse_members n' ?tl = Some (g # fs, rest)"
  proof (rule 3(2))
    show "parse_value n (json_print v @ rest) = Some (v, rest)"
      if "(k, v) \<in> set (g # fs)" "json_utf8 v" "depth v \<le> n" for k v n rest
      using that 3(3) [of k v n rest] by simp
  qed (use 3(4) n(3) in auto)
  ultimately show ?case using 3(4) f by (simp add: n(1) json_string_def parse_str_esc del: join.simps(3)) (simp add: json_string_def parse_str_esc)
qed simp

lemma join_print_hd:
  assumes "list_all json_utf8 js" "js \<noteq> []"
  shows "\<exists>c t. join '','' (map json_print js) = c # t \<and> \<not> is_blank c \<and> c \<noteq> CHR '']''"
proof -
  obtain j js' where js: "js = j # js'" using assms(2) by (cases js) auto
  with assms(1) json_print_hd [of j] show ?thesis by (cases js') auto
qed

lemma join_members_hd:
  "fs \<noteq> [] \<Longrightarrow> \<exists>t. join '','' (map (\<lambda>(k, v). json_string k @ '':'' @ json_print v) fs) = dquote # t"
  by (cases fs; cases "tl fs") (auto simp: json_string_def)

lemma parse_value_print:
  "json_utf8 j \<Longrightarrow> depth j \<le> n \<Longrightarrow> parse_value n (json_print j @ rest) = Some (j, rest)"
proof (induction j arbitrary: n rest)
  case JNull
  then show ?case by (cases n) (auto simp: is_blank_def byte_def dquote_def starts_def)
next
  case (JBool b)
  then show ?case by (cases n) (auto simp: is_blank_def byte_def dquote_def starts_def)
next
  case (JNum s)
  then show ?case by simp
next
  case (JStr s)
  then show ?case by (cases n) (auto simp: json_string_def parse_str_esc)
next
  case (JArr js)
  then obtain n' where n: "n = Suc n'" "elems_depth (map depth js) \<le> n'"
    by (cases n) auto
  show ?case
  proof (cases "js = []")
    case True
    then show ?thesis by (simp add: n(1) is_blank_def byte_def dquote_def)
  next
    case False
    obtain c t where hd: "join '','' (map json_print js) = c # t" "\<not> is_blank c" "c \<noteq> CHR '']''"
      using join_print_hd [OF _ False] JArr.prems(1) by auto
    have "parse_elems n' (join '','' (map json_print js) @ CHR '']'' # rest) = Some (js, rest)"
      using JArr.prems(1) n(2) False by (intro parse_elems_print JArr.IH) auto
    with hd show ?thesis by (simp add: n(1)) (simp add: is_blank_def byte_def dquote_def)
  qed
next
  case (JObj fs)
  then obtain n' where n: "n = Suc n'" "elems_depth (map (\<lambda>(k, v). depth v) fs) \<le> n'"
    by (cases n) auto
  show ?case
  proof (cases "fs = []")
    case True
    then show ?thesis by (simp add: n(1) is_blank_def byte_def dquote_def)
  next
    case False
    then obtain t where hd: "join '','' (map (\<lambda>(k, v). json_string k @ '':'' @ json_print v) fs) = dquote # t"
      using join_members_hd by blast
    have "parse_members n' (join '','' (map (\<lambda>(k, v). json_string k @ '':'' @ json_print v) fs) @ CHR ''}'' # rest)
        = Some (fs, rest)"
      using JObj.prems(1) n(2) False by (intro parse_members_print JObj.IH) (auto intro: snds.intros)
    with hd show ?thesis by (simp add: n(1)) (simp add: is_blank_def byte_def dquote_def)
  qed
qed

lemma elems_depth_print:
  assumes "\<And>x. x \<in> set xs \<Longrightarrow> d x \<le> length (p x)"
  shows "elems_depth (map d xs) \<le> Suc (length (join '','' (map p xs)))"
  using assms by (induction xs rule: induct_list012) fastforce+

lemma depth_print: "json_utf8 j \<Longrightarrow> depth j \<le> length (json_print j)"
proof (induction j)
  case (JArr js)
  then have "elems_depth (map depth js) \<le> Suc (length (join '','' (map json_print js)))"
    by (intro elems_depth_print) (auto simp: list_all_iff)
  then show ?case by simp
next
  case (JObj fs)
  have "depth v \<le> length (json_string k @ '':'' @ json_print v)" if "(k, v) \<in> set fs" for k v
  proof -
    have "json_utf8 v" using JObj.prems that by (auto simp: list_all_iff)
    with JObj.IH [OF that] show ?thesis by fastforce
  qed
  then have "elems_depth (map (\<lambda>(k, v). depth v) fs)
      \<le> Suc (length (join '','' (map (\<lambda>(k, v). json_string k @ '':'' @ json_print v) fs)))"
    by (intro elems_depth_print) auto
  then show ?case by simp
qed (auto simp: json_string_def)

text \<open>What is printed is read back, whatever is in it, as long as its strings are UTF-8.\<close>

lemma json_parse_print: "json_utf8 j \<Longrightarrow> json_parse (json_print j) = Ok j"
  using parse_value_print [of j "Suc (length (json_print j))" "[]"] depth_print [of j]
  by (simp add: json_parse_def)

text \<open>A string that is not UTF-8 is not.\<close>

lemma json_parse_print_binary:
  "json_parse (json_print (JStr [CHR 0xFF])) = Ok (JStr [CHR 0xEF, CHR 0xBF, CHR 0xBD])"
proof -
  have hex: "hex_val (CHR ''f'') = Some 15" "hex_val (CHR ''d'') = Some 13" by code_simp+
  have enc: "utf8_enc 65533 = [CHR 0xEF, CHR 0xBF, CHR 0xBD]"
    by (auto simp: utf8_enc_def byte_def intro!: char_ofI)
  have "parse_str (CHR 0x5C # ''ufffd'' @ [CHR 0x22]) = Some ([CHR 0xEF, CHR 0xBF, CHR 0xBD], [])"
    by (simp add: parse_str.simps(2) [of "CHR 0x5C"] parse_str.simps(2) [of "CHR 0x22"] dquote_def backslash_def byte_def hex enc)
  moreover have "json_print (JStr [CHR 0xFF]) = CHR 0x22 # (CHR 0x5C # ''ufffd'' @ [CHR 0x22])"
    by (simp add: json_string_def rune_len.simps byte_def backslash_def dquote_def)
  ultimately show ?thesis
    by (simp add: json_parse_def is_blank_def byte_def dquote_def)
qed

section \<open>Structs\<close>

text \<open>
  A key fills the field whose name it is up to case (as far as ASCII goes). A key that occurs again
  fills the field again: objects are merged, and anything else, \<open>null\<close> included, replaces what was there.
\<close>

definition fold_char :: "char \<Rightarrow> char" where
  "fold_char c = (if within 97 122 c then char_of (byte c - 32) else c)"

definition same_name :: "string \<Rightarrow> string \<Rightarrow> bool" where
  "same_name k name \<longleftrightarrow> map fold_char k = map fold_char name"

fun jmerge :: "json \<Rightarrow> json \<Rightarrow> json" where
  "jmerge (JObj a) (JObj b) = JObj (a @ b)"
| "jmerge x y = y"

definition jget :: "(string \<times> json) list \<Rightarrow> string \<Rightarrow> json option" where
  "jget fs name =
    fold (\<lambda>(k, v) acc. if same_name k name then Some (case acc of None \<Rightarrow> v | Some x \<Rightarrow> jmerge x v) else acc) fs None"

text \<open>A field that is a pointer or a slice: \<open>None\<close> when it is absent or \<open>null\<close>.\<close>

fun jfield :: "json \<Rightarrow> string \<Rightarrow> json option" where
  "jfield (JObj fs) name = (case jget fs name of Some JNull \<Rightarrow> None | r \<Rightarrow> r)"
| "jfield _ name = None"

definition jstr :: "json \<Rightarrow> string \<Rightarrow> string option" where
  "jstr j name = (case jfield j name of Some (JStr s) \<Rightarrow> Some s | _ \<Rightarrow> None)"

definition jbool :: "json \<Rightarrow> string \<Rightarrow> bool option" where
  "jbool j name = (case jfield j name of Some (JBool b) \<Rightarrow> Some b | _ \<Rightarrow> None)"

definition jlist :: "json \<Rightarrow> string \<Rightarrow> json list" where
  "jlist j name = (case jfield j name of Some (JArr js) \<Rightarrow> js | _ \<Rightarrow> [])"

text \<open>A \<open>map[string]string\<close>; \<open>null\<close> leaves the zero value of an entry.\<close>

fun map_value :: "json \<Rightarrow> strmap" where
  "map_value (JObj fs) = fold (\<lambda>(k, v) m. gm_set m k (case v of JStr s \<Rightarrow> s | _ \<Rightarrow> [])) fs (Some [])"
| "map_value _ = None"

definition jmap :: "json \<Rightarrow> string \<Rightarrow> strmap option" where
  "jmap j name = map_option map_value (jfield j name)"

text \<open>Writing a struct: the fields that \<open>omitempty\<close> leaves, in the order of the struct. Maps are written by key.\<close>

definition jobj :: "(string \<times> json option) list \<Rightarrow> json" where
  "jobj fs = JObj (List.map_filter (\<lambda>(k, v). map_option (Pair k) v) fs)"

definition opt_str :: "string \<Rightarrow> json option" where
  "opt_str s = (if s = [] then None else Some (JStr s))"

definition opt_int :: "int \<Rightarrow> json option" where
  "opt_int i = (if i = 0 then None else Some (JStr (FormatInt i)))"

definition opt_bool :: "bool \<Rightarrow> json option" where
  "opt_bool b = (if b then Some (JBool b) else None)"

definition map_json :: "strmap \<Rightarrow> json" where
  "map_json m = (case m of None \<Rightarrow> JNull | Some es \<Rightarrow> JObj (map (\<lambda>(k, v). (k, JStr v)) (sort_key fst es)))"

definition opt_map :: "strmap \<Rightarrow> json option" where
  "opt_map m = (if m = None then None else Some (map_json m))"

text \<open>What has been written is what is read.\<close>

fun lookup_field :: "(string \<times> json option) list \<Rightarrow> string \<Rightarrow> json option" where
  "lookup_field [] name = None"
| "lookup_field ((k, v) # fs) name = (if k = name then v else lookup_field fs name)"

definition field_names :: "(string \<times> json option) list \<Rightarrow> string list" where
  "field_names fs = map (map fold_char \<circ> fst) fs"

lemma same_name_refl [simp]: "same_name k k"
  by (simp add: same_name_def)

lemma jget_other:
  assumes "map fold_char name \<notin> set (map (map fold_char \<circ> fst) fs)"
  shows "fold (\<lambda>(k, v) acc. if same_name k name then Some (case acc of None \<Rightarrow> v | Some x \<Rightarrow> jmerge x v) else acc) fs acc = acc"
  using assms by (induction fs arbitrary: acc) (auto simp: same_name_def)

lemma map_filter_names:
  "set (map (map fold_char \<circ> fst) (List.map_filter (\<lambda>(k, v). map_option (Pair k) v) fs)) \<subseteq> set (field_names fs)"
  by (induction fs) (auto simp: field_names_def List.map_filter_simps split: option.splits)

lemma jfield_jobj:
  assumes "distinct (field_names fs)" "name \<in> set (map fst fs)"
  shows "jfield (jobj fs) name = (case lookup_field fs name of Some JNull \<Rightarrow> None | r \<Rightarrow> r)"
proof -
  let ?es = "\<lambda>fs. List.map_filter (\<lambda>(k, v). map_option (Pair k) v) fs"
  have "jget (?es fs) name = lookup_field fs name"
    using assms
  proof (induction fs)
    case (Cons f fs)
    obtain k v where f: "f = (k, v)" by (cases f)
    have fresh: "map fold_char k \<notin> set (field_names fs)" "distinct (field_names fs)"
      using Cons.prems(1) f by (simp_all add: field_names_def)
    show ?case
    proof (cases "k = name")
      case True
      then have "map fold_char name \<notin> set (map (map fold_char \<circ> fst) (?es fs))"
        using fresh(1) map_filter_names [of fs] by blast
      then show ?thesis
        using True f by (cases v) (simp_all add: jget_def List.map_filter_simps jget_other)
    next
      case False
      then have name: "name \<in> set (map fst fs)" using Cons.prems(2) f by auto
      then have "map fold_char name \<in> set (field_names fs)" by (auto simp: field_names_def)
      then have "\<not> same_name k name" using fresh(1) by (auto simp: same_name_def)
      then show ?thesis
        using False f Cons.IH [OF fresh(2) name] by (cases v) (simp_all add: jget_def List.map_filter_simps)
    qed
  qed simp
  then show ?thesis by (simp add: jobj_def)
qed

lemma jfield_jobj_absent:
  "map fold_char name \<notin> set (field_names fs) \<Longrightarrow> jfield (jobj fs) name = None"
proof -
  let ?es = "List.map_filter (\<lambda>(k, v). map_option (Pair k) v) fs"
  assume "map fold_char name \<notin> set (field_names fs)"
  then have "map fold_char name \<notin> set (map (map fold_char \<circ> fst) ?es)"
    using map_filter_names [of fs] by blast
  then show ?thesis by (simp add: jobj_def jget_def jget_other)
qed

text \<open>A map comes back with its entries sorted.\<close>

definition js_map :: "strmap \<Rightarrow> strmap" where
  "js_map m = map_option (sort_key fst) m"

lemma map_value_json:
  assumes "gm_wf m" "m \<noteq> None"
  shows "map_value (map_json m) = js_map m"
proof -
  obtain es where m: "m = Some es" using assms(2) by auto
  let ?es = "sort_key fst es"
  have "distinct (map fst ?es)"
    using assms(1) m by (simp add: gm_wf_def distinct_map inj_on_def)
  then have "fold (\<lambda>(k, v) m. gm_set m k v) ?es (Some []) = Some ?es"
    using fold_set_fresh [of "[]" ?es] by simp
  moreover have "fold (\<lambda>(k, v) m. gm_set m k (case v of JStr s \<Rightarrow> s | _ \<Rightarrow> [])) (map (\<lambda>(k, v). (k, JStr v)) ?es) acc
      = fold (\<lambda>(k, v) m. gm_set m k v) ?es acc" for acc
    by (simp add: fold_map comp_def split_def)
  ultimately show ?thesis by (simp add: m map_json_def js_map_def)
qed

lemma map_json_not_null [simp]: "map_json (Some es) \<noteq> JNull"
  by (simp add: map_json_def)

text \<open>Fields are lower than the object they are in, merged ones too.\<close>

fun height :: "json \<Rightarrow> nat" where
  "height (JArr js) = Suc (fold max (map height js) 0)"
| "height (JObj fs) = Suc (fold max (map (\<lambda>(k, v). height v) fs) 0)"
| "height _ = 0"

lemma fold_max_le_iff: "fold max ns a \<le> (m :: nat) \<longleftrightarrow> a \<le> m \<and> (\<forall>n \<in> set ns. n \<le> m)"
  by (induction ns arbitrary: a) auto

lemma fold_max_less_iff: "fold max ns a < (m :: nat) \<longleftrightarrow> a < m \<and> (\<forall>n \<in> set ns. n < m)"
  by (induction ns arbitrary: a) auto

lemma height_elem: "j \<in> set js \<Longrightarrow> height j < height (JArr js)"
  using fold_max_le_iff [of "map height js" 0 "fold max (map height js) 0"] by (auto simp: less_Suc_eq_le)

lemma height_jmerge: "height x \<le> m \<Longrightarrow> height y \<le> m \<Longrightarrow> height (jmerge x y) \<le> m"
  by (cases "(x, y)" rule: jmerge.cases) (auto simp: Suc_le_eq fold_max_less_iff)

lemma height_jfield: "jfield j name = Some v \<Longrightarrow> height v < height j"
proof (cases j)
  case (JObj fs)
  let ?f = "\<lambda>(k, v) acc. if same_name k name then Some (case acc of None \<Rightarrow> v | Some x \<Rightarrow> jmerge x v) else acc"
  have "fold ?f fs acc = Some v \<Longrightarrow> (\<forall>x. acc = Some x \<longrightarrow> height x \<le> m) \<Longrightarrow> \<forall>(k, v) \<in> set fs. height v \<le> m
      \<Longrightarrow> height v \<le> m" for acc m v
  proof (induction fs arbitrary: acc)
    case (Cons f fs)
    obtain k u where f: "f = (k, u)" by (cases f)
    show ?case
      by (rule Cons.IH [of "?f f acc"])
        (use Cons.prems f in \<open>auto split: option.splits if_splits intro: height_jmerge\<close>)
  qed simp
  moreover assume "jfield j name = Some v"
  ultimately have "height v \<le> m" if "\<forall>(k, v) \<in> set fs. height v \<le> m" for m
    using that JObj by (auto simp: jget_def split: option.splits json.splits)
  moreover have "\<forall>(k, v) \<in> set fs. height v \<le> fold max (map (\<lambda>(k, v). height v) fs) 0"
    using fold_max_le_iff [of "map (\<lambda>(k, v). height v) fs" 0 "fold max (map (\<lambda>(k, v). height v) fs) 0"] by auto
  ultimately show ?thesis using JObj by (simp add: less_Suc_eq_le)
qed auto

lemma height_jlist: "v \<in> set (jlist j name) \<Longrightarrow> height v < height j"
  using height_jfield [of j name] height_elem [of v]
  by (fastforce simp: jlist_def split: option.splits json.splits)

end
