(* ===== verification/Protojson.thy ===== *)
theory Protojson
  imports Json Commands
begin

text \<open>
  \<open>protojson.go\<close>: the JSON form of transitions, states, blobs, contexts and delayed states, with the
  \<open>MarshalJSON\<close> and \<open>UnmarshalJSON\<close> methods of \<open>state.go\<close>, \<open>data.go\<close> and \<open>delay.go\<close>.
\<close>

section \<open>The types\<close>

text \<open>
  What a struct type demands of the value of a field: \<open>SMap\<close> and \<open>SArr\<close> are maps and slices, the last
  ones the structs of the source. Every type also takes \<open>null\<close>.
\<close>

datatype schema =
    SStr
  | SBool
  | SMap schema
  | SArr schema
  | SjsonTransition
  | SjsonState
  | SjsonData
  | SjsonStateCtx
  | SjsonDelayedState
  | SState
  | SDelayedState
  | SjsonStateCtxRef
  | SjsonRootCommand
  | SjsonGenericCommand
  | SjsonDelayCommand
  | SjsonGetStatesCommand
  | SjsonGetStatesResult
  | SjsonGetDelayedStatesCommand
  | SjsonGetDelayedStatesResult

definition jsonTransition :: "(string \<times> schema) list" where
  "jsonTransition = [(''to'', SStr), (''annotations'', SMap SStr)]"

definition jsonState :: "(string \<times> schema) list" where
  "jsonState = [(''id'', SStr), (''rev'', SStr), (''annotations'', SMap SStr), (''labels'', SMap SStr),
    (''committedAtUnixMilli'', SStr), (''transition'', SjsonTransition)]"

definition jsonData :: "(string \<times> schema) list" where
  "jsonData = [(''rev'', SStr), (''blob'', SStr), (''annotations'', SMap SStr)]"

definition jsonStateCtx :: "(string \<times> schema) list" where
  "jsonStateCtx = [(''current'', SjsonState), (''committed'', SjsonState), (''transitions'', SArr SjsonTransition),
    (''datas'', SMap SjsonData)]"

definition jsonDelayedState :: "(string \<times> schema) list" where
  "jsonDelayedState = [(''state'', SjsonState), (''offset'', SStr), (''executeAtSec'', SStr)]"

definition jsonStateCtxRef :: "(string \<times> schema) list" where
  "jsonStateCtxRef = [(''idx'', SStr)]"

definition jsonRootCommand :: "(string \<times> schema) list" where
  "jsonRootCommand = [(''stateCtxs'', SArr SjsonStateCtx), (''transit'', SjsonGenericCommand),
    (''park'', SjsonGenericCommand), (''execute'', SjsonGenericCommand), (''delay'', SjsonDelayCommand),
    (''commit'', SjsonGenericCommand), (''noop'', SjsonGenericCommand), (''stack'', SjsonGenericCommand),
    (''unstack'', SjsonGenericCommand), (''storeData'', SjsonGenericCommand), (''getData'', SjsonGenericCommand),
    (''getStateByID'', SjsonGenericCommand), (''getStateByLabels'', SjsonGenericCommand),
    (''getStates'', SjsonGetStatesCommand), (''getDelayedStates'', SjsonGetDelayedStatesCommand)]"

definition jsonGenericCommand :: "(string \<times> schema) list" where
  "jsonGenericCommand = [(''stateRef'', SjsonStateCtxRef), (''flowId'', SStr), (''transition'', SjsonTransition),
    (''delayingState'', SState), (''executeAtSec'', SStr), (''commit'', SBool), (''commands'', SArr SjsonRootCommand),
    (''stackedStateRef'', SjsonStateCtxRef), (''carrierStateRef'', SjsonStateCtxRef), (''annotation'', SStr),
    (''unstackStateRef'', SjsonStateCtxRef), (''alias'', SStr), (''id'', SStr), (''rev'', SStr),
    (''labels'', SMap SStr), (''annotations'', SMap SStr)]"

definition jsonDelayCommand :: "(string \<times> schema) list" where
  "jsonDelayCommand = [(''stateRef'', SjsonStateCtxRef), (''executeAtSec'', SStr), (''commit'', SBool), (''to'', SStr),
    (''annotations'', SMap SStr), (''result'', SjsonDelayedState)]"

definition jsonGetStatesCommand :: "(string \<times> schema) list" where
  "jsonGetStatesCommand = [(''sinceRev'', SStr), (''sinceTime_usec'', SStr), (''labels'', SArr (SMap SStr)),
    (''latestOnly'', SBool), (''limit'', SStr), (''result'', SjsonGetStatesResult)]"

definition jsonGetStatesResult :: "(string \<times> schema) list" where
  "jsonGetStatesResult = [(''states'', SArr SState), (''more'', SBool)]"

definition jsonGetDelayedStatesCommand :: "(string \<times> schema) list" where
  "jsonGetDelayedStatesCommand = [(''sinceTimeSec'', SStr), (''untilTimeSec'', SStr), (''offset'', SStr),
    (''limit'', SStr), (''Result'', SjsonGetDelayedStatesResult)]"

definition jsonGetDelayedStatesResult :: "(string \<times> schema) list" where
  "jsonGetDelayedStatesResult = [(''delayedStates'', SArr SDelayedState), (''more'', SBool)]"

fun schema_fields :: "schema \<Rightarrow> (string \<times> schema) list option" where
  "schema_fields SjsonTransition = Some jsonTransition"
| "schema_fields SjsonState = Some jsonState"
| "schema_fields SjsonData = Some jsonData"
| "schema_fields SjsonStateCtx = Some jsonStateCtx"
| "schema_fields SjsonDelayedState = Some jsonDelayedState"
| "schema_fields SState = Some jsonState"
| "schema_fields SDelayedState = Some jsonDelayedState"
| "schema_fields SjsonStateCtxRef = Some jsonStateCtxRef"
| "schema_fields SjsonRootCommand = Some jsonRootCommand"
| "schema_fields SjsonGenericCommand = Some jsonGenericCommand"
| "schema_fields SjsonDelayCommand = Some jsonDelayCommand"
| "schema_fields SjsonGetStatesCommand = Some jsonGetStatesCommand"
| "schema_fields SjsonGetStatesResult = Some jsonGetStatesResult"
| "schema_fields SjsonGetDelayedStatesCommand = Some jsonGetDelayedStatesCommand"
| "schema_fields SjsonGetDelayedStatesResult = Some jsonGetDelayedStatesResult"
| "schema_fields _ = None"

section \<open>Transitions and states\<close>

definition fromTransition :: "Transition \<Rightarrow> json" where
  "fromTransition ts = jobj [(''to'', opt_str (ts_To ts)), (''annotations'', opt_map (ts_Annotations ts))]"

definition toTransition :: "json \<Rightarrow> Transition \<Rightarrow> Transition" where
  "toTransition j ts =
    (let ts1 = (case jstr j ''to'' of None \<Rightarrow> ts | Some to \<Rightarrow> ts\<lparr>ts_To := to\<rparr>)
     in case jmap j ''annotations'' of None \<Rightarrow> ts1 | Some m \<Rightarrow> ts1\<lparr>ts_Annotations := m\<rparr>)"

definition fromState :: "State \<Rightarrow> json" where
  "fromState s = jobj [
    (''id'', opt_str (s_ID s)),
    (''rev'', opt_int (s_Rev s)),
    (''annotations'', opt_map (s_Annotations s)),
    (''labels'', opt_map (s_Labels s)),
    (''committedAtUnixMilli'', if IsZero (s_CommittedAt s) then None
       else Some (JStr (FormatInt (UnixMilli (s_CommittedAt s))))),
    (''transition'', Some (fromTransition (s_Transition s)))]"

text \<open>\<open>if p != nil { v, err := strconv.ParseInt(*p, 10, 64); ... }\<close>, with and without the test for an empty text.\<close>

definition parse_int :: "string \<Rightarrow> string \<Rightarrow> int outcome" where
  "parse_int what s = (case ParseInt s of (v, None) \<Rightarrow> Ok v | (_, Some err) \<Rightarrow> Err (Errorw what err []))"

definition int_field :: "json \<Rightarrow> string \<Rightarrow> string \<Rightarrow> int \<Rightarrow> int outcome" where
  "int_field j name what old = (case jstr j name of None \<Rightarrow> Ok old | Some s \<Rightarrow> parse_int what s)"

definition opt_int_field :: "json \<Rightarrow> string \<Rightarrow> string \<Rightarrow> int \<Rightarrow> int outcome" where
  "opt_int_field j name what old =
    (case jstr j name of None \<Rightarrow> Ok old | Some s \<Rightarrow> if s = [] then Ok old else parse_int what s)"

definition opt_time_field :: "json \<Rightarrow> string \<Rightarrow> string \<Rightarrow> (int \<Rightarrow> time) \<Rightarrow> time \<Rightarrow> time outcome" where
  "opt_time_field j name what mk old =
    (case jstr j name of None \<Rightarrow> Ok old | Some s \<Rightarrow> if s = [] then Ok old else obind (parse_int what s) (\<lambda>v. Ok (mk v)))"

definition toState :: "json \<Rightarrow> State \<Rightarrow> State outcome" where
  "toState j s =
    (let s1 = (case jstr j ''id'' of None \<Rightarrow> s | Some i \<Rightarrow> s\<lparr>s_ID := i\<rparr>) in
     obind (opt_int_field j ''rev'' ''cannot parse 'Rev rev = 1;' field: '' (s_Rev s1)) (\<lambda>rev.
     let s2 = s1\<lparr>s_Rev := rev\<rparr>;
         s3 = (case jmap j ''annotations'' of None \<Rightarrow> s2 | Some m \<Rightarrow> s2\<lparr>s_Annotations := m\<rparr>);
         s4 = (case jmap j ''labels'' of None \<Rightarrow> s3 | Some m \<Rightarrow> s3\<lparr>s_Labels := m\<rparr>) in
     obind (opt_time_field j ''committedAtUnixMilli''
         ''cannot parse 'CommittedAtUnixMilli committed_at_unix_milli = 1;' field: '' time_UnixMilli (s_CommittedAt s4)) (\<lambda>at.
     let s5 = s4\<lparr>s_CommittedAt := at\<rparr>
     in Ok (case jfield j ''transition'' of None \<Rightarrow> s5 | Some t \<Rightarrow> s5\<lparr>s_Transition := toTransition t (s_Transition s5)\<rparr>))))"

section \<open>Delayed states\<close>

definition fromDelayedState :: "DelayedState \<Rightarrow> json" where
  "fromDelayedState ds = jobj [
    (''state'', Some (fromState (ds_State ds))),
    (''offset'', opt_int (ds_Offset ds)),
    (''executeAtSec'', if IsZero (ds_ExecuteAt ds) then None else Some (JStr (FormatInt (Unix (ds_ExecuteAt ds)))))]"

definition toDelayedState :: "json \<Rightarrow> DelayedState \<Rightarrow> DelayedState outcome" where
  "toDelayedState j ds =
    obind (case jfield j ''state'' of
        None \<Rightarrow> Ok ds
      | Some st \<Rightarrow> obind (wrap_err ''cannot convert delayed state: '' (toState st (ds_State ds))) (\<lambda>s. Ok (ds\<lparr>ds_State := s\<rparr>))) (\<lambda>ds1.
    obind (int_field j ''offset'' ''cannot parse 'Offset offset = 1;' field: '' (ds_Offset ds1)) (\<lambda>off.
    obind (opt_time_field j ''executeAtSec'' ''cannot parse 'ExecuteAtSec execute_at_sec = 2;' field: ''
        (\<lambda>v. time_Unix v 0) (ds_ExecuteAt ds1)) (\<lambda>at.
    Ok (ds1\<lparr>ds_Offset := off, ds_ExecuteAt := at\<rparr>))))"

section \<open>The types of values\<close>

text \<open>
  What \<open>json.Unmarshal\<close> checks. \<open>State\<close> and \<open>DelayedState\<close> are converted on the way, by their own
  \<open>UnmarshalJSON\<close>. Keys that no field has are skipped.
\<close>

fun find_schema :: "(string \<times> schema) list \<Rightarrow> string \<Rightarrow> schema option" where
  "find_schema [] k = None"
| "find_schema ((name, t) # fs) k = (if same_name k name then Some t else find_schema fs k)"

fun converts :: "schema \<Rightarrow> json \<Rightarrow> bool" where
  "converts SState j = is_ok (toState j State0)"
| "converts SDelayedState j = is_ok (toDelayedState j DelayedState0)"
| "converts _ j = True"

fun json_typed :: "json \<Rightarrow> schema \<Rightarrow> bool" where
  "json_typed JNull t = True"
| "json_typed (JBool b) t = (t = SBool)"
| "json_typed (JNum s) t = False"
| "json_typed (JStr s) t = (t = SStr)"
| "json_typed (JArr js) t = (case t of SArr e \<Rightarrow> list_all (\<lambda>j. json_typed j e) js | _ \<Rightarrow> False)"
| "json_typed (JObj fs) t =
    (case t of
       SMap e \<Rightarrow> list_all (\<lambda>(k, v). json_typed v e) fs
     | _ \<Rightarrow> (case schema_fields t of
         None \<Rightarrow> False
       | Some tags \<Rightarrow> list_all (\<lambda>(k, v). case find_schema tags k of None \<Rightarrow> True | Some t' \<Rightarrow> json_typed v t') fs
           \<and> converts t (JObj fs)))"

text \<open>\<open>json.Unmarshal(data, x)\<close> into a value of the type \<open>t\<close>.\<close>

definition json_Unmarshal :: "schema \<Rightarrow> string \<Rightarrow> json outcome" where
  "json_Unmarshal t data = obind (json_parse data) (\<lambda>j. if json_typed j t then Ok j else Err json_error)"

section \<open>Blobs\<close>

definition fromData :: "Data \<Rightarrow> json" where
  "fromData d = jobj [
    (''rev'', opt_int (d_Rev d)),
    (''blob'', map_option (\<lambda>b. JStr (if IsBinary d then b64_encode b else b)) (d_Blob d)),
    (''annotations'', opt_map (d_Annotations d))]"

text \<open>The annotations come first: they tell whether the blob is base64.\<close>

definition toData :: "json \<Rightarrow> Data \<Rightarrow> Data outcome" where
  "toData j d =
    obind (opt_int_field j ''rev'' ''cannot parse 'Rev rev = 1;' field: '' (d_Rev d)) (\<lambda>rev.
    let d1 = d\<lparr>d_Rev := rev\<rparr>;
        d2 = (case jmap j ''annotations'' of None \<Rightarrow> d1 | Some m \<Rightarrow> d1\<lparr>d_Annotations := m\<rparr>)
    in case jstr j ''blob'' of
         None \<Rightarrow> Ok d2
       | Some blob \<Rightarrow>
           (if IsBinary d2 then
              (case b64_decode blob of
                 None \<Rightarrow> Err (Errorf ''illegal base64 data'')
               | Some b \<Rightarrow> Ok (d2\<lparr>d_Blob := Some b\<rparr>))
            else Ok (d2\<lparr>d_Blob := Some blob\<rparr>)))"

section \<open>Contexts\<close>

fun data_fields :: "(string \<times> Data option) list \<Rightarrow> (string \<times> json) list outcome" where
  "data_fields [] = Ok []"
| "data_fields ((k, d) # ds) =
    (case d of
       None \<Rightarrow> nil_deref
     | Some x \<Rightarrow> obind (data_fields ds) (\<lambda>fs. Ok ((k, fromData x) # fs)))"

text \<open>The committed state is written when it has a revision. An empty map and an empty slice are left out.\<close>

definition fromStateCtx :: "StateCtx \<Rightarrow> json outcome" where
  "fromStateCtx c =
    obind (data_fields (gm_entries (sc_Datas c))) (\<lambda>ds. Ok (jobj [
      (''current'', Some (fromState (sc_Current c))),
      (''committed'', if s_Rev (sc_Committed c) > 0 then Some (fromState (sc_Committed c)) else None),
      (''transitions'', if sc_Transitions c = [] then None else Some (JArr (map fromTransition (sc_Transitions c)))),
      (''datas'', if ds = [] then None else Some (JObj (sort_key fst ds)))]))"

text \<open>A nil transition, which \<open>null\<close> stands for, panics; so does a nil blob.\<close>

fun add_transitions :: "json list \<Rightarrow> StateCtx \<Rightarrow> StateCtx outcome" where
  "add_transitions [] c = Ok c"
| "add_transitions (j # js) c =
    (if j = JNull then nil_deref else add_transitions js (append_Transition c (toTransition j Transition0)))"

fun add_datas :: "(string \<times> json) list \<Rightarrow> StateCtx \<Rightarrow> StateCtx outcome" where
  "add_datas [] c = Ok c"
| "add_datas ((k, j) # fs) c =
    (if j = JNull then nil_deref
     else obind (wrap_err (''cannot convert data with id '' @ quote k @ '': '') (toData j Data0)) (\<lambda>d.
       add_datas fs (SetData c k (Some d))))"

text \<open>The entries of a map that has been read, the last one of a key that occurs twice.\<close>

definition map_entries :: "json \<Rightarrow> (string \<times> json) list" where
  "map_entries j = (case j of JObj fs \<Rightarrow> fold (\<lambda>(k, v). AList.update k v) fs [] | _ \<Rightarrow> [])"

definition toStateCtx :: "json \<Rightarrow> StateCtx \<Rightarrow> StateCtx outcome" where
  "toStateCtx j c =
    obind (case jfield j ''current'' of
        None \<Rightarrow> Ok c
      | Some st \<Rightarrow> obind (wrap_err ''cannot convert current state: '' (toState st (sc_Current c))) (\<lambda>s. Ok (c\<lparr>sc_Current := s\<rparr>))) (\<lambda>c1.
    obind (case jfield j ''committed'' of
        None \<Rightarrow> Ok c1
      | Some st \<Rightarrow> obind (wrap_err ''cannot convert committed state: '' (toState st (sc_Committed c1))) (\<lambda>s. Ok (c1\<lparr>sc_Committed := s\<rparr>))) (\<lambda>c2.
    obind (add_transitions (jlist j ''transitions'') c2) (\<lambda>c3.
      case jfield j ''datas'' of None \<Rightarrow> Ok c3 | Some ds \<Rightarrow> add_datas (map_entries ds) c3)))"

section \<open>Methods\<close>

text \<open>What \<open>json.Marshal\<close> and \<open>json.Unmarshal\<close> call.\<close>

definition State_MarshalJSON :: "State \<Rightarrow> string" where
  "State_MarshalJSON s = json_print (fromState s)"

definition State_UnmarshalJSON :: "string \<Rightarrow> State \<Rightarrow> State outcome" where
  "State_UnmarshalJSON data s = obind (json_Unmarshal SjsonState data) (\<lambda>j. toState j s)"

definition StateCtx_MarshalJSON :: "StateCtx \<Rightarrow> string outcome" where
  "StateCtx_MarshalJSON c = obind (fromStateCtx c) (\<lambda>j. Ok (json_print j))"

definition StateCtx_UnmarshalJSON :: "string \<Rightarrow> StateCtx \<Rightarrow> StateCtx outcome" where
  "StateCtx_UnmarshalJSON data c = obind (json_Unmarshal SjsonStateCtx data) (\<lambda>j. toStateCtx j c)"

definition Transition_MarshalJSON :: "Transition \<Rightarrow> string" where
  "Transition_MarshalJSON ts = json_print (fromTransition ts)"

definition Transition_UnmarshalJSON :: "string \<Rightarrow> Transition \<Rightarrow> Transition outcome" where
  "Transition_UnmarshalJSON data ts = obind (json_Unmarshal SjsonTransition data) (\<lambda>j. Ok (toTransition j ts))"

definition Data_MarshalJSON :: "Data \<Rightarrow> string" where
  "Data_MarshalJSON d = json_print (fromData d)"

definition Data_UnmarshalJSON :: "string \<Rightarrow> Data \<Rightarrow> Data outcome" where
  "Data_UnmarshalJSON data d = obind (json_Unmarshal SjsonData data) (\<lambda>j. toData j d)"

definition DelayedState_MarshalJSON :: "DelayedState \<Rightarrow> string" where
  "DelayedState_MarshalJSON ds = json_print (fromDelayedState ds)"

definition DelayedState_UnmarshalJSON :: "string \<Rightarrow> DelayedState \<Rightarrow> DelayedState outcome" where
  "DelayedState_UnmarshalJSON data ds = obind (json_Unmarshal SjsonDelayedState data) (\<lambda>j. toDelayedState j ds)"

lemmas json_method_defs = State_MarshalJSON_def State_UnmarshalJSON_def StateCtx_MarshalJSON_def
  StateCtx_UnmarshalJSON_def Transition_UnmarshalJSON_def Data_MarshalJSON_def Data_UnmarshalJSON_def
  DelayedState_MarshalJSON_def DelayedState_UnmarshalJSON_def

section \<open>Texts\<close>

definition MarshalJSONState :: "State \<Rightarrow> string" where
  "MarshalJSONState s = State_MarshalJSON s"

definition UnmarshalJSONState :: "string \<Rightarrow> State \<Rightarrow> State outcome" where
  "UnmarshalJSONState data s = State_UnmarshalJSON data s"

definition UnmarshalJSONTransition :: "string \<Rightarrow> Transition \<Rightarrow> Transition outcome" where
  "UnmarshalJSONTransition data ts = Transition_UnmarshalJSON data ts"

definition MarshalJSONStateCtx :: "StateCtx \<Rightarrow> string outcome" where
  "MarshalJSONStateCtx c = StateCtx_MarshalJSON c"

definition UnmarshalJSONStateCtx :: "string \<Rightarrow> StateCtx \<Rightarrow> StateCtx outcome" where
  "UnmarshalJSONStateCtx data c = StateCtx_UnmarshalJSON data c"

definition MarshalJSONDelayedState :: "DelayedState \<Rightarrow> string" where
  "MarshalJSONDelayedState ds = DelayedState_MarshalJSON ds"

definition UnmarshalJSONDelayedState :: "string \<Rightarrow> DelayedState \<Rightarrow> DelayedState outcome" where
  "UnmarshalJSONDelayedState data ds = DelayedState_UnmarshalJSON data ds"

definition MarshalJSONData :: "Data \<Rightarrow> string" where
  "MarshalJSONData d = Data_MarshalJSON d"

definition UnmarshalJSONData :: "string \<Rightarrow> Data \<Rightarrow> Data outcome" where
  "UnmarshalJSONData data d = Data_UnmarshalJSON data d"

text \<open>
  The method of a transition has a pointer receiver and \<open>json.Marshal\<close> gets a value, so the method is not
  called: a transition is written with the names of its own fields. Reading folds the case of the names.
\<close>

definition MarshalJSONTransition :: "Transition \<Rightarrow> string" where
  "MarshalJSONTransition ts =
    json_print (JObj [(''To'', JStr (ts_To ts)), (''Annotations'', map_json (ts_Annotations ts))])"

end
