(* ===== verification/ProtojsonProps.thy ===== *)
theory ProtojsonProps
  imports Protojson ProtobufCmdProps
begin

text \<open>
  What is written in JSON is read back: transitions, states, blobs and contexts. The types that the
  decoder asks for and UTF-8 are carried along as invariants of the written tree.
\<close>

section \<open>Fields\<close>

lemma jstr_jobj:
  "distinct (field_names fs) \<Longrightarrow> name \<in> set (map fst fs) \<Longrightarrow>
    jstr (jobj fs) name = (case lookup_field fs name of Some (JStr s) \<Rightarrow> Some s | _ \<Rightarrow> None)"
  by (simp add: jstr_def jfield_jobj split: option.splits json.splits)

lemma jbool_jobj:
  "distinct (field_names fs) \<Longrightarrow> name \<in> set (map fst fs) \<Longrightarrow>
    jbool (jobj fs) name = (case lookup_field fs name of Some (JBool b) \<Rightarrow> Some b | _ \<Rightarrow> None)"
  by (simp add: jbool_def jfield_jobj split: option.splits json.splits)

lemma jlist_jobj:
  "distinct (field_names fs) \<Longrightarrow> name \<in> set (map fst fs) \<Longrightarrow>
    jlist (jobj fs) name = (case lookup_field fs name of Some (JArr js) \<Rightarrow> js | _ \<Rightarrow> [])"
  by (simp add: jlist_def jfield_jobj split: option.splits json.splits)

lemma jmap_jobj:
  "distinct (field_names fs) \<Longrightarrow> name \<in> set (map fst fs) \<Longrightarrow>
    jmap (jobj fs) name = (case lookup_field fs name of None \<Rightarrow> None | Some JNull \<Rightarrow> None | Some v \<Rightarrow> Some (map_value v))"
  by (simp add: jmap_def jfield_jobj split: option.splits json.splits)

lemmas jobj_simps = jstr_jobj jbool_jobj jlist_jobj jmap_jobj jfield_jobj

lemma opt_cases:
  "(case opt_str t of Some (JStr s) \<Rightarrow> Some s | _ \<Rightarrow> None) = (if t = [] then None else Some t)"
  "(case opt_int i of Some (JStr s) \<Rightarrow> Some s | _ \<Rightarrow> None) = (if i = 0 then None else Some (FormatInt i))"
  "(case opt_bool b of Some (JBool b) \<Rightarrow> Some b | _ \<Rightarrow> None) = (if b then Some True else None)"
  by (simp_all add: opt_str_def opt_int_def opt_bool_def)

lemma opt_map_cases:
  "gm_wf m \<Longrightarrow> (case opt_map m of None \<Rightarrow> None | Some JNull \<Rightarrow> None | Some v \<Rightarrow> Some (map_value v))
    = (if m = None then None else Some (js_map m))"
  using map_value_json [of m] by (cases m) (auto simp: opt_map_def map_json_def)

lemma jobj_not_null [simp]: "jobj fs \<noteq> JNull" "JNull \<noteq> jobj fs"
  by (simp_all add: jobj_def)

lemma obj_case [simp]:
  "(case jobj fs of JNull \<Rightarrow> None | JBool b \<Rightarrow> Some (JBool b) | JNum n \<Rightarrow> Some (JNum n) | JStr t \<Rightarrow> Some (JStr t)
    | JArr js \<Rightarrow> Some (JArr js) | JObj es \<Rightarrow> Some (JObj es)) = Some (jobj fs)"
  by (simp add: jobj_def)

lemma parse_int_FormatInt [simp]: "in_i64 i \<Longrightarrow> parse_int what (FormatInt i) = Ok i"
  by (simp add: parse_int_def)

text \<open>Names that differ in more than case.\<close>

lemma names_distinct [simp]:
  "distinct (field_names [(''to'', v1), (''annotations'', v2)])"
  "distinct (field_names [(''id'', v1), (''rev'', v2), (''annotations'', v3), (''labels'', v4),
    (''committedAtUnixMilli'', v5), (''transition'', v6)])"
  "distinct (field_names [(''rev'', v1), (''blob'', v2), (''annotations'', v3)])"
  "distinct (field_names [(''current'', v1), (''committed'', v2), (''transitions'', v3), (''datas'', v4)])"
  "distinct (field_names [(''state'', v1), (''offset'', v2), (''executeAtSec'', v3)])"
  by code_simp+

section \<open>Transitions and states\<close>

definition js_Transition :: "Transition \<Rightarrow> Transition" where
  "js_Transition ts = ts\<lparr>ts_Annotations := js_map (ts_Annotations ts)\<rparr>"

definition js_State :: "State \<Rightarrow> State" where
  "js_State s = s\<lparr>s_Annotations := js_map (s_Annotations s), s_Labels := js_map (s_Labels s),
    s_CommittedAt := pb_milli (s_CommittedAt s), s_Transition := js_Transition (s_Transition s)\<rparr>"

lemma toTransition_from: "wf_Transition ts \<Longrightarrow> toTransition (fromTransition ts) Transition0 = js_Transition ts"
  by (auto simp: toTransition_def fromTransition_def jobj_simps opt_cases opt_map_cases wf_Transition_def
      js_Transition_def js_map_def Transition0_def Let_def)

lemma fromTransition_not_null [simp]: "fromTransition ts \<noteq> JNull"
  by (simp add: fromTransition_def)

lemma toState_from:
  assumes "wf_State s" "in_i64 (s_Rev s)"
  shows "toState (fromState s) State0 = Ok (js_State s)"
proof -
  let ?j = "fromState s"
  have "jstr ?j ''id'' = (if s_ID s = [] then None else Some (s_ID s))"
    "jstr ?j ''rev'' = (if s_Rev s = 0 then None else Some (FormatInt (s_Rev s)))"
    "jmap ?j ''annotations'' = (if s_Annotations s = None then None else Some (js_map (s_Annotations s)))"
    "jmap ?j ''labels'' = (if s_Labels s = None then None else Some (js_map (s_Labels s)))"
    "jstr ?j ''committedAtUnixMilli'' = (if IsZero (s_CommittedAt s) then None else Some (FormatInt (UnixMilli (s_CommittedAt s))))"
    "jfield ?j ''transition'' = Some (fromTransition (s_Transition s))"
    using assms(1)
    by (simp_all add: fromState_def jobj_simps opt_cases opt_map_cases wf_State_def) (simp add: fromTransition_def)
  then show ?thesis
    using assms toTransition_from [of "s_Transition s"]
    by (simp add: toState_def Let_def opt_int_field_def opt_time_field_def js_State_def State0_def wf_State_def js_map_def
        pb_milli_def IsZero_def)
qed

section \<open>Blobs\<close>

definition js_Data :: "Data \<Rightarrow> Data" where
  "js_Data d = d\<lparr>d_Annotations := js_map (d_Annotations d)\<rparr>"

lemma gm_lookup_js_map: "gm_wf m \<Longrightarrow> gm_lookup (js_map m) k = gm_lookup m k"
proof (cases m)
  case (Some es)
  assume "gm_wf m"
  then have d: "distinct (map fst es)" by (simp add: gm_wf_def Some)
  then have "distinct (map fst (sort_key fst es))" by (simp add: distinct_map inj_on_def)
  with d have "map_of (sort_key fst es) = map_of es" by (intro map_of_eqI) (auto simp: map_of_eq_Some_iff)
  then show ?thesis by (simp add: Some js_map_def gm_lookup_def)
qed (simp add: js_map_def)

lemma IsBinary_js_map: "gm_wf (d_Annotations d) \<Longrightarrow> IsBinary (d'\<lparr>d_Annotations := js_map (d_Annotations d)\<rparr>) = IsBinary d"
  by (simp add: IsBinary_def gm_str_def gm_lookup_js_map)

lemma toData_from:
  assumes "wf_Data d" "in_i64 (d_Rev d)"
  shows "toData (fromData d) Data0 = Ok (js_Data d)"
proof -
  let ?j = "fromData d"
  have f: "jstr ?j ''rev'' = (if d_Rev d = 0 then None else Some (FormatInt (d_Rev d)))"
    "jmap ?j ''annotations'' = (if d_Annotations d = None then None else Some (js_map (d_Annotations d)))"
    "jstr ?j ''blob'' = map_option (\<lambda>b. if IsBinary d then b64_encode b else b) (d_Blob d)"
    using assms(1) by (cases "d_Blob d"; simp add: fromData_def jobj_simps opt_cases opt_map_cases wf_Data_def)+
  have bin: "IsBinary \<lparr>d_Rev = r, d_Annotations = js_map (d_Annotations d), d_Blob = b\<rparr> = IsBinary d" for r b
    using IsBinary_js_map [of d "\<lparr>d_Rev = r, d_Annotations = None, d_Blob = b\<rparr>"] assms(1) by (simp add: wf_Data_def)
  have rev: "opt_int_field ?j ''rev'' what 0 = Ok (d_Rev d)" for what
    using assms(2) by (simp add: opt_int_field_def f(1))
  have ann: "(case jmap ?j ''annotations'' of None \<Rightarrow> Data0\<lparr>d_Rev := r\<rparr> | Some m \<Rightarrow> Data0\<lparr>d_Rev := r\<rparr>\<lparr>d_Annotations := m\<rparr>)
      = \<lparr>d_Rev = r, d_Annotations = js_map (d_Annotations d), d_Blob = None\<rparr>" for r
    by (simp add: f(2) Data0_def js_map_def)
  have js: "js_Data d = \<lparr>d_Rev = d_Rev d, d_Annotations = js_map (d_Annotations d), d_Blob = d_Blob d\<rparr>"
    by (simp add: js_Data_def)
  show ?thesis
    unfolding js by (cases "d_Blob d") (simp_all add: toData_def rev ann f(3) Let_def bin)
qed

section \<open>Contexts\<close>

definition js_Datas :: "Data option gomap \<Rightarrow> Data option gomap" where
  "js_Datas m = norm_map (Some (map (\<lambda>(k, d). (k, map_option js_Data d)) (sort_key fst (gm_entries m))))"

definition js_StateCtx :: "StateCtx \<Rightarrow> StateCtx" where
  "js_StateCtx c = StateCtx0\<lparr>sc_Current := js_State (sc_Current c),
    sc_Committed := (if s_Rev (sc_Committed c) > 0 then js_State (sc_Committed c) else State0),
    sc_Transitions := map js_Transition (sc_Transitions c), sc_Datas := js_Datas (sc_Datas c)\<rparr>"

definition js_wf_StateCtx :: "StateCtx \<Rightarrow> bool" where
  "js_wf_StateCtx c \<longleftrightarrow> wf_State (sc_Current c) \<and> wf_State (sc_Committed c) \<and> in_i64 (s_Rev (sc_Current c))
    \<and> in_i64 (s_Rev (sc_Committed c)) \<and> list_all wf_Transition (sc_Transitions c) \<and> gm_wf (sc_Datas c)
    \<and> list_all (\<lambda>(k, d). case d of None \<Rightarrow> False | Some x \<Rightarrow> wf_Data x \<and> in_i64 (d_Rev x)) (gm_entries (sc_Datas c))"

lemma data_fields_Ok:
  assumes "list_all (\<lambda>(k, d). d \<noteq> None) ds"
  shows "data_fields ds = Ok (map (\<lambda>(k, d). (k, fromData (the d))) ds)"
  using assms by (induction ds rule: data_fields.induct) auto

lemma sort_key_map_snd:
  "sort_key fst (map (\<lambda>(k, d). (k, f d)) ds) = map (\<lambda>(k, d). (k, f d)) (sort_key fst ds)"
proof -
  have ins: "insort_key fst (k, f d) (map (\<lambda>(k, d). (k, f d)) xs) = map (\<lambda>(k, d). (k, f d)) (insort_key fst (k, d) xs)" for k d xs
    by (induction xs) auto
  show ?thesis by (induction ds) (auto simp: ins)
qed

lemma add_transitions_from:
  assumes "list_all wf_Transition ts"
  shows "\<exists>c'. add_transitions (map fromTransition ts) c = Ok c' \<and> c' = c\<lparr>sc_Transitions := sc_Transitions c @ map js_Transition ts,
    sc_Spare := drop (length ts) (sc_Spare c)\<rparr>"
  using assms
proof (induction ts arbitrary: c)
  case (Cons t ts)
  then show ?case by (simp add: toTransition_from append_Transition_def drop_Suc)
qed simp

lemma update_distinct:
  fixes es :: "(string \<times> 'a) list"
  assumes "distinct (map fst (es @ fs))"
  shows "fold (\<lambda>(k, v). AList.update k v) fs es = es @ fs"
proof -
  have "fold (\<lambda>(k, v) m. gm_set m k v) fs (Some es) = Some (fold (\<lambda>(k, v). AList.update k v) fs es)" for es :: "(string \<times> 'a) list"
    by (induction fs arbitrary: es) (auto simp: gm_set_def)
  with fold_set_fresh [OF assms] show ?thesis by simp
qed

lemma add_datas_from:
  assumes "list_all (\<lambda>(k, d). case d of None \<Rightarrow> False | Some x \<Rightarrow> wf_Data x \<and> in_i64 (d_Rev x)) ds"
    and "distinct (map fst (gm_entries (sc_Datas c) @ map (\<lambda>(k, d). (k, map_option js_Data d)) ds))"
  shows "add_datas (map (\<lambda>(k, d). (k, fromData (the d))) ds) c
    = Ok (if ds = [] then c else c\<lparr>sc_Datas := Some (gm_entries (sc_Datas c) @ map (\<lambda>(k, d). (k, map_option js_Data d)) ds)\<rparr>)"
  using assms
proof (induction ds arbitrary: c)
  case (Cons e ds)
  obtain k x where e: "e = (k, Some x)" "wf_Data x" "in_i64 (d_Rev x)"
    using Cons.prems(1) by (cases e) (auto split: option.splits)
  have upd: "AList.update k (Some (js_Data x)) (gm_entries (sc_Datas c)) = gm_entries (sc_Datas c) @ [(k, Some (js_Data x))]"
    using update_distinct [of "gm_entries (sc_Datas c)" "[(k, Some (js_Data x))]"] Cons.prems(2) e(1) by simp
  let ?c = "SetData c k (Some (js_Data x))"
  have c: "gm_entries (sc_Datas ?c) = gm_entries (sc_Datas c) @ [(k, Some (js_Data x))]"
    by (simp add: SetData_def gm_set_def upd)
  have "fromData x \<noteq> JNull" by (simp add: fromData_def)
  then show ?case
    using Cons.IH [of ?c] Cons.prems e c toData_from [OF e(2,3)]
    by (auto simp: SetData_def gm_set_def upd)
qed simp

lemma lower_not_null [simp]: "fromState s \<noteq> JNull" "fromDelayedState ds \<noteq> JNull" "fromData d \<noteq> JNull"
  by (simp_all add: fromState_def fromDelayedState_def fromData_def)

lemma nonnull_case:
  "j \<noteq> JNull \<Longrightarrow> (case j of JNull \<Rightarrow> None | JBool b \<Rightarrow> Some (JBool b) | JNum n \<Rightarrow> Some (JNum n) | JStr t \<Rightarrow> Some (JStr t)
    | JArr js \<Rightarrow> Some (JArr js) | JObj es \<Rightarrow> Some (JObj es)) = Some j"
  by (cases j) auto

definition StateCtx_json :: "StateCtx \<Rightarrow> json" where
  "StateCtx_json c = (case fromStateCtx c of Ok j \<Rightarrow> j | _ \<Rightarrow> JNull)"

lemma fromStateCtx_Ok:
  assumes "js_wf_StateCtx c"
  shows "fromStateCtx c = Ok (StateCtx_json c)"
    "jfield (StateCtx_json c) ''current'' = Some (fromState (sc_Current c))"
    "jfield (StateCtx_json c) ''committed'' = (if s_Rev (sc_Committed c) > 0 then Some (fromState (sc_Committed c)) else None)"
    "jlist (StateCtx_json c) ''transitions'' = map fromTransition (sc_Transitions c)"
    "jfield (StateCtx_json c) ''datas'' = (if gm_entries (sc_Datas c) = [] then None
       else Some (JObj (map (\<lambda>(k, d). (k, fromData (the d))) (sort_key fst (gm_entries (sc_Datas c))))))"
    "StateCtx_json c \<noteq> JNull"
proof -
  have "list_all (\<lambda>(k, d). d \<noteq> None) (gm_entries (sc_Datas c))"
    using assms by (auto simp: js_wf_StateCtx_def list_all_iff split: option.splits)
  note ds = data_fields_Ok [OF this]
  show 1: "fromStateCtx c = Ok (StateCtx_json c)"
    by (simp add: StateCtx_json_def fromStateCtx_def ds)
  note j = StateCtx_json_def [of c, unfolded fromStateCtx_def ds, simplified sort_key_map_snd, simplified]
  show "jfield (StateCtx_json c) ''current'' = Some (fromState (sc_Current c))"
    "jfield (StateCtx_json c) ''committed'' = (if s_Rev (sc_Committed c) > 0 then Some (fromState (sc_Committed c)) else None)"
    "jlist (StateCtx_json c) ''transitions'' = map fromTransition (sc_Transitions c)"
    "jfield (StateCtx_json c) ''datas'' = (if gm_entries (sc_Datas c) = [] then None
       else Some (JObj (map (\<lambda>(k, d). (k, fromData (the d))) (sort_key fst (gm_entries (sc_Datas c))))))"
    "StateCtx_json c \<noteq> JNull"
    unfolding j using sort_key_map_snd [of "\<lambda>d. fromData (the d)" "gm_entries (sc_Datas c)"]
    by (simp_all add: jobj_simps nonnull_case)
qed

lemma toStateCtx_from:
  assumes "js_wf_StateCtx c"
  shows "toStateCtx (StateCtx_json c) StateCtx0 = Ok (js_StateCtx c)"
proof -
  note f = fromStateCtx_Ok [OF assms]
  let ?ds = "sort_key fst (gm_entries (sc_Datas c))"
  have st: "toState (fromState (sc_Current c)) State0 = Ok (js_State (sc_Current c))"
    "toState (fromState (sc_Committed c)) State0 = Ok (js_State (sc_Committed c))"
    using assms by (simp_all add: js_wf_StateCtx_def toState_from)
  have ts: "list_all wf_Transition (sc_Transitions c)" using assms by (simp add: js_wf_StateCtx_def)
  have dist: "distinct (map fst ?ds)"
    using assms by (simp add: js_wf_StateCtx_def gm_wf_def distinct_map inj_on_def)
  have ok: "list_all (\<lambda>(k, d). case d of None \<Rightarrow> False | Some x \<Rightarrow> wf_Data x \<and> in_i64 (d_Rev x)) ?ds"
    using assms by (simp add: js_wf_StateCtx_def list_all_iff)
  have ent: "map_entries (JObj (map (\<lambda>(k, d). (k, fromData (the d))) ?ds)) = map (\<lambda>(k, d). (k, fromData (the d))) ?ds"
    using update_distinct [of "[]" "map (\<lambda>(k, d). (k, fromData (the d))) ?ds"] dist
    by (simp add: map_entries_def comp_def case_prod_beta)
  have datas: "add_datas (map (\<lambda>(k, d). (k, fromData (the d))) ?ds) c'
      = Ok (if ?ds = [] then c' else c'\<lparr>sc_Datas := Some (map (\<lambda>(k, d). (k, map_option js_Data d)) ?ds)\<rparr>)"
    if "sc_Datas c' = None" for c'
    using add_datas_from [OF ok, of c'] dist that by (simp add: comp_def case_prod_beta)
  have empty: "?ds = [] \<longleftrightarrow> gm_entries (sc_Datas c) = []"
    by (metis length_0_conv length_sort)
  have c0: "sc_Current StateCtx0 = State0" "sc_Committed StateCtx0 = State0" "sc_Transitions StateCtx0 = []"
    "sc_Spare StateCtx0 = []" "sc_Datas StateCtx0 = None" by (simp_all add: StateCtx0_def)
  show ?thesis
    using add_transitions_from [OF ts]
    by (simp add: toStateCtx_def f(2-5) st c0 ent datas empty js_StateCtx_def js_Datas_def norm_map_def)
qed

section \<open>Types and UTF-8\<close>

definition ascii :: "string \<Rightarrow> bool" where
  "ascii s \<longleftrightarrow> list_all (\<lambda>c. byte c < 0x80) s"

lemma utf8_ascii: "ascii s \<Longrightarrow> utf8 s"
  unfolding ascii_def
proof (induction s)
  case (Cons c s)
  then show ?case using rune_len_ascii [of c s] by (simp add: utf8.simps(2))
qed simp

lemma utf8_FormatInt [simp]: "utf8 (FormatInt i)"
proof (rule utf8_ascii)
  have digit: "char_digit c \<noteq> None \<Longrightarrow> byte c < 0x80" for c
    by (auto simp: char_digit_def byte_def Let_def split: if_splits)
  have "list_all (\<lambda>c. byte c < 0x80) (dec_nat n)" for n
    using dec_nat_digits digit by (simp add: list_all_iff)
  then show "ascii (FormatInt i)" by (simp add: ascii_def FormatInt_def byte_def)
qed

lemma utf8_b64 [simp]: "utf8 (b64_encode s)"
proof (rule utf8_ascii)
  have b: "n < 64 \<Longrightarrow> byte (b64_char n) < 0x80" for n
    by (auto simp: b64_char_def byte_def)
  have "list_all (\<lambda>c. byte c < 0x80) (b64_encode s)"
  proof (induction s rule: b64_encode.induct)
    case (2 x)
    note p = b64_parts [OF of_char_256 [of x] of_char_256 of_char_256]
    show ?case by (simp add: Let_def b p) (simp add: byte_def)
  next
    case (3 x y)
    note p = b64_parts [OF of_char_256 [of x] of_char_256 [of y] of_char_256]
    show ?case by (simp add: Let_def b p) (simp add: byte_def)
  next
    case (4 x y z s)
    note p = b64_parts [OF of_char_256 [of x] of_char_256 [of y] of_char_256 [of z]]
    show ?case using 4 by (simp add: Let_def b p)
  qed simp
  then show "ascii (b64_encode s)" by (simp add: ascii_def)
qed

definition utf8_map :: "strmap \<Rightarrow> bool" where
  "utf8_map m \<longleftrightarrow> list_all (\<lambda>(k, v). utf8 k \<and> utf8 v) (gm_entries m)"

definition utf8_Transition :: "Transition \<Rightarrow> bool" where
  "utf8_Transition ts \<longleftrightarrow> utf8 (ts_To ts) \<and> utf8_map (ts_Annotations ts)"

definition utf8_State :: "State \<Rightarrow> bool" where
  "utf8_State s \<longleftrightarrow> utf8 (s_ID s) \<and> utf8_map (s_Annotations s) \<and> utf8_map (s_Labels s) \<and> utf8_Transition (s_Transition s)"

text \<open>A blob that is marked binary travels in base64.\<close>

definition utf8_Data :: "Data \<Rightarrow> bool" where
  "utf8_Data d \<longleftrightarrow> utf8_map (d_Annotations d) \<and> (IsBinary d \<or> (case d_Blob d of None \<Rightarrow> True | Some b \<Rightarrow> utf8 b))"

definition utf8_StateCtx :: "StateCtx \<Rightarrow> bool" where
  "utf8_StateCtx c \<longleftrightarrow> utf8_State (sc_Current c) \<and> utf8_State (sc_Committed c) \<and> list_all utf8_Transition (sc_Transitions c)
    \<and> list_all (\<lambda>(k, d). utf8 k \<and> (case d of None \<Rightarrow> True | Some x \<Rightarrow> utf8_Data x)) (gm_entries (sc_Datas c))"

definition opt_utf8 :: "json option \<Rightarrow> bool" where
  "opt_utf8 v \<longleftrightarrow> (case v of None \<Rightarrow> True | Some x \<Rightarrow> json_utf8 x)"

lemma opt_utf8_simps [simp]: "opt_utf8 None" "opt_utf8 (Some x) = json_utf8 x"
  by (simp_all add: opt_utf8_def)

lemma json_utf8_jobj:
  "list_all (\<lambda>(k, v). utf8 k \<and> opt_utf8 v) fs \<Longrightarrow> json_utf8 (jobj fs)"
  unfolding jobj_def
proof (induction fs)
  case (Cons f fs)
  obtain k v where "f = (k, v)" by (cases f)
  with Cons show ?case by (cases v) (simp_all add: List.map_filter_simps)
qed (simp add: List.map_filter_simps)

lemma utf8_name: "ascii ''to''" "ascii ''annotations''" "ascii ''id''" "ascii ''rev''" "ascii ''labels''"
  "ascii ''committedAtUnixMilli''" "ascii ''transition''" "ascii ''blob''" "ascii ''current''" "ascii ''committed''"
  "ascii ''transitions''" "ascii ''datas''" "ascii ''state''" "ascii ''offset''" "ascii ''executeAtSec''"
  by (simp_all add: ascii_def byte_def)

lemmas utf8_names [simp] = utf8_name [THEN utf8_ascii]

lemma opt_utf8_opts [simp]:
  "opt_utf8 (opt_str t) \<longleftrightarrow> utf8 t" "opt_utf8 (opt_int i)" "opt_utf8 (opt_bool b)"
  by (auto simp: opt_str_def opt_int_def opt_bool_def)

lemma opt_utf8_map [simp]: "utf8_map m \<Longrightarrow> opt_utf8 (opt_map m)"
  by (cases m) (auto simp: opt_map_def map_json_def utf8_map_def list_all_iff)

lemma json_utf8_Transition: "utf8_Transition ts \<Longrightarrow> json_utf8 (fromTransition ts)"
  by (simp add: fromTransition_def json_utf8_jobj utf8_Transition_def)

lemma json_utf8_State: "utf8_State s \<Longrightarrow> json_utf8 (fromState s)"
  by (simp add: fromState_def json_utf8_jobj json_utf8_Transition utf8_State_def)

lemma json_utf8_Data: "utf8_Data d \<Longrightarrow> json_utf8 (fromData d)"
  by (cases "d_Blob d") (auto simp: fromData_def json_utf8_jobj utf8_Data_def)

lemma json_utf8_StateCtx:
  assumes "js_wf_StateCtx c" "utf8_StateCtx c"
  shows "json_utf8 (StateCtx_json c)"
proof -
  have "list_all (\<lambda>(k, d). d \<noteq> None) (gm_entries (sc_Datas c))"
    using assms(1) by (auto simp: js_wf_StateCtx_def list_all_iff split: option.splits)
  note ds = data_fields_Ok [OF this]
  have "json_utf8 (JObj (map (\<lambda>(k, d). (k, fromData (the d))) (sort_key fst (gm_entries (sc_Datas c)))))"
  proof -
    have "utf8 k \<and> (\<exists>x. d = Some x \<and> utf8_Data x)" if "(k, d) \<in> set (gm_entries (sc_Datas c))" for k d
      using assms that by (cases d) (auto simp: js_wf_StateCtx_def utf8_StateCtx_def list_all_iff)
    then show ?thesis by (fastforce simp: list_all_iff json_utf8_Data)
  qed
  moreover have "json_utf8 (JArr (map fromTransition (sc_Transitions c)))"
    using assms(2) by (auto simp: utf8_StateCtx_def list_all_iff json_utf8_Transition)
  ultimately show ?thesis
    using assms(2) sort_key_map_snd [of "\<lambda>d. fromData (the d)" "gm_entries (sc_Datas c)"]
    unfolding StateCtx_json_def fromStateCtx_def ds
    by (auto intro!: json_utf8_jobj simp: utf8_StateCtx_def json_utf8_State)
qed

lemma find_schema_map_of:
  assumes "distinct (map (map fold_char \<circ> fst) tags)" "k \<in> set (map fst tags)"
  shows "find_schema tags k = map_of tags k"
  using assms
proof (induction tags)
  case (Cons f tags)
  obtain n t where f: "f = (n, t)" by (cases f)
  show ?case
  proof (cases "n = k")
    case False
    then have k: "k \<in> set (map fst tags)" using Cons.prems(2) f by auto
    then have "map fold_char k \<in> set (map (map fold_char \<circ> fst) tags)" by force
    then have "\<not> same_name k n" using Cons.prems(1) f unfolding same_name_def by force
    then show ?thesis using Cons f k False by simp
  qed (simp add: f)
qed simp

lemma tags_distinct:
  "distinct (map (map fold_char \<circ> fst) jsonTransition)" "distinct (map (map fold_char \<circ> fst) jsonState)"
  "distinct (map (map fold_char \<circ> fst) jsonData)" "distinct (map (map fold_char \<circ> fst) jsonStateCtx)"
  "distinct (map (map fold_char \<circ> fst) jsonDelayedState)" "distinct (map (map fold_char \<circ> fst) jsonStateCtxRef)"
  "distinct (map (map fold_char \<circ> fst) jsonRootCommand)" "distinct (map (map fold_char \<circ> fst) jsonGenericCommand)"
  "distinct (map (map fold_char \<circ> fst) jsonDelayCommand)" "distinct (map (map fold_char \<circ> fst) jsonGetStatesCommand)"
  "distinct (map (map fold_char \<circ> fst) jsonGetStatesResult)" "distinct (map (map fold_char \<circ> fst) jsonGetDelayedStatesCommand)"
  "distinct (map (map fold_char \<circ> fst) jsonGetDelayedStatesResult)"
  by code_simp+

lemma schema_tags:
  "schema_fields t = Some tags \<Longrightarrow> distinct (map (map fold_char \<circ> fst) tags)"
  by (cases t) (auto intro: tags_distinct)

text \<open>A struct that has been written has the types of its fields.\<close>

definition fits :: "(string \<times> schema) list \<Rightarrow> string \<Rightarrow> json option \<Rightarrow> bool" where
  "fits tags k v \<longleftrightarrow> v = None \<or> (k \<in> set (map fst tags) \<and> json_typed (the v) (the (map_of tags k)))"

lemma typed_jobj:
  assumes "schema_fields t = Some tags" "list_all (\<lambda>(k, v). fits tags k v) fs" "converts t (jobj fs)"
  shows "json_typed (jobj fs) t"
proof -
  let ?es = "List.map_filter (\<lambda>(k, v). map_option (Pair k) v) fs"
  have "list_all (\<lambda>(k, v). case find_schema tags k of None \<Rightarrow> True | Some t' \<Rightarrow> json_typed v t') ?es"
    using assms(2)
  proof (induction fs)
    case (Cons f fs)
    obtain k v where f: "f = (k, v)" by (cases f)
    show ?case
    proof (cases v)
      case (Some x)
      then have k: "k \<in> set (map fst tags)" "json_typed x (the (map_of tags k))"
        using Cons.prems f by (simp_all add: fits_def)
      then obtain t' where "map_of tags k = Some t'" by (metis map_of_eq_None_iff not_None_eq set_map)
      then show ?thesis
        using Cons f Some k find_schema_map_of [OF schema_tags [OF assms(1)] k(1)] by (simp add: List.map_filter_simps)
    qed (use Cons f in \<open>simp add: List.map_filter_simps\<close>)
  qed (simp add: List.map_filter_simps)
  then show ?thesis
    using assms(1,3) by (cases t) (simp_all add: jobj_def)
qed

lemma fits_simps [simp]:
  "fits tags k None" "fits tags k (Some x) \<longleftrightarrow> k \<in> set (map fst tags) \<and> json_typed x (the (map_of tags k))"
  by (simp_all add: fits_def)

lemma fits_opts:
  "k \<in> set (map fst tags) \<Longrightarrow> map_of tags k = Some SStr \<Longrightarrow> fits tags k (opt_str s)"
  "k \<in> set (map fst tags) \<Longrightarrow> map_of tags k = Some SStr \<Longrightarrow> fits tags k (opt_int i)"
  "k \<in> set (map fst tags) \<Longrightarrow> map_of tags k = Some SBool \<Longrightarrow> fits tags k (opt_bool b)"
  "k \<in> set (map fst tags) \<Longrightarrow> map_of tags k = Some (SMap SStr) \<Longrightarrow> fits tags k (opt_map m)"
  by (auto simp: opt_str_def opt_int_def opt_bool_def opt_map_def map_json_def list_all_iff split: option.splits)

lemma typed_Transition [simp]: "json_typed (fromTransition ts) SjsonTransition"
  unfolding fromTransition_def
  by (rule typed_jobj [where tags = jsonTransition]) (simp_all add: fits_opts jsonTransition_def)

lemma typed_State:
  "json_typed (fromState s) SjsonState" "wf_State s \<Longrightarrow> in_i64 (s_Rev s) \<Longrightarrow> json_typed (fromState s) SState"
proof -
  have fs: "list_all (\<lambda>(k, v). fits jsonState k v) [
    (''id'', opt_str (s_ID s)), (''rev'', opt_int (s_Rev s)), (''annotations'', opt_map (s_Annotations s)),
    (''labels'', opt_map (s_Labels s)), (''committedAtUnixMilli'', if IsZero (s_CommittedAt s) then None
       else Some (JStr (FormatInt (UnixMilli (s_CommittedAt s))))), (''transition'', Some (fromTransition (s_Transition s)))]"
    by (simp add: fits_opts jsonState_def)
  show "json_typed (fromState s) SjsonState"
    unfolding fromState_def by (rule typed_jobj [OF _ fs]) simp_all
  show "json_typed (fromState s) SState" if "wf_State s" "in_i64 (s_Rev s)"
    using toState_from [OF that] unfolding fromState_def by (intro typed_jobj [OF _ fs]) simp_all
qed

lemma typed_Data [simp]: "json_typed (fromData d) SjsonData"
  unfolding fromData_def
  by (rule typed_jobj [where tags = jsonData])
    (simp_all add: fits_opts jsonData_def split: option.split, cases "d_Blob d", simp_all add: fits_def)

lemma typed_StateCtx:
  assumes "js_wf_StateCtx c"
  shows "json_typed (StateCtx_json c) SjsonStateCtx"
proof -
  have "list_all (\<lambda>(k, d). d \<noteq> None) (gm_entries (sc_Datas c))"
    using assms by (auto simp: js_wf_StateCtx_def list_all_iff split: option.splits)
  note ds = data_fields_Ok [OF this]
  have "list_all (\<lambda>(k, v). json_typed v SjsonData) (map (\<lambda>(k, d). (k, fromData (the d))) xs)" for xs
    by (auto simp: list_all_iff)
  moreover have "list_all (\<lambda>j. json_typed j SjsonTransition) (map fromTransition ts)" for ts
    by (simp add: list_all_iff)
  ultimately show ?thesis
    using sort_key_map_snd [of "\<lambda>d. fromData (the d)" "gm_entries (sc_Datas c)"]
    unfolding StateCtx_json_def fromStateCtx_def ds
    by (auto intro!: typed_jobj [where tags = jsonStateCtx] simp: fits_def jsonStateCtx_def typed_State(1))
qed

text \<open>The checksum is an annotation like any other.\<close>

lemma utf8_map_set:
  assumes "utf8_map m" "utf8 k" "utf8 v"
  shows "utf8_map (gm_set m k v)"
proof -
  have "list_all (\<lambda>(k, v). utf8 k \<and> utf8 v) es \<Longrightarrow> list_all (\<lambda>(k, v). utf8 k \<and> utf8 v) (AList.update k v es)" for es
    using assms(2,3) by (induction es) auto
  then show ?thesis using assms by (cases m) (auto simp: utf8_map_def gm_set_def)
qed

lemma checksum_annotations:
  assumes "wf_Data x" "utf8_map (d_Annotations x)"
  shows "gm_wf (d_Annotations (checksum xxh x))" "utf8_map (d_Annotations (checksum xxh x))"
    "d_Annotations (checksum xxh x) \<noteq> None" "gm_len (d_Annotations (checksum xxh x)) > 0"
    "d_Blob (checksum xxh x) = d_Blob x"
proof -
  have "utf8 (FormatUint n)" for n
  proof (rule utf8_ascii)
    have "char_digit c \<noteq> None \<Longrightarrow> byte c < 0x80" for c
      by (auto simp: char_digit_def byte_def Let_def split: if_splits)
    then show "ascii (FormatUint n)" using dec_nat_digits by (simp add: ascii_def FormatUint_def list_all_iff)
  qed
  moreover have "utf8 ''checksum/xxhash64''" by (rule utf8_ascii) (simp add: ascii_def byte_def)
  ultimately show "utf8_map (d_Annotations (checksum xxh x))"
    using assms(2) by (simp add: checksum_def Data_SetAnnotation_def utf8_map_set)
  show "gm_wf (d_Annotations (checksum xxh x))" "d_Annotations (checksum xxh x) \<noteq> None"
    "gm_len (d_Annotations (checksum xxh x)) > 0" "d_Blob (checksum xxh x) = d_Blob x"
    using assms(1)
    by (simp_all add: checksum_def Data_SetAnnotation_def wf_Data_def gm_len_def)
      (simp_all add: gm_set_def length_pos_if_in_set update_nonempty)
qed

section \<open>Texts\<close>

text \<open>
  C19: a context survives JSON. Its states, its history and its blobs come back, the maps with their
  entries sorted and the times cut to milliseconds, whatever the order in which the maps are visited;
  the committed state is left out when it has no revision. The strings have to be UTF-8, the blobs
  that are not marked binary too: binary ones are written in base64 and may hold any bytes.
\<close>

theorem UnmarshalJSONStateCtx_MarshalJSONStateCtx:
  assumes "js_wf_StateCtx c" "utf8_StateCtx c"
  shows "\<exists>b. MarshalJSONStateCtx c = Ok b \<and> UnmarshalJSONStateCtx b StateCtx0 = Ok (js_StateCtx c)"
  using fromStateCtx_Ok(1) [OF assms(1)] json_parse_print [OF json_utf8_StateCtx [OF assms]]
    typed_StateCtx [OF assms(1)] toStateCtx_from [OF assms(1)]
  by (simp add: MarshalJSONStateCtx_def UnmarshalJSONStateCtx_def json_method_defs json_Unmarshal_def)

definition binary_ctx :: StateCtx where
  "binary_ctx = StateCtx0\<lparr>
    sc_Current := State0\<lparr>s_ID := ''id'', s_Rev := 7, s_Labels := Some [(''k'', ''v''), ([], ''a b'')]\<rparr>,
    sc_Datas := Some [(''d'', Some \<lparr>d_Rev = 3, d_Annotations = Some [(''binary'', ''true'')], d_Blob = Some [CHR 0xFF, CHR 0x00]\<rparr>)]\<rparr>"

theorem UnmarshalJSONStateCtx_MarshalJSONStateCtx_witness:
  "\<exists>b. MarshalJSONStateCtx binary_ctx = Ok b \<and> UnmarshalJSONStateCtx b StateCtx0 = Ok (js_StateCtx binary_ctx)"
proof -
  have "js_wf_StateCtx binary_ctx" "utf8_StateCtx binary_ctx" by code_simp+
  then show ?thesis by (rule UnmarshalJSONStateCtx_MarshalJSONStateCtx)
qed

end
