(* ===== verification/ProtojsonCmd.thy ===== *)
theory ProtojsonCmd
  imports Protojson ProtobufCmd
begin

text \<open>
  \<open>protojson.go\<close>, commands: one object with the contexts and one field for the kind of command, which
  refers to the contexts by their index, written as a text.
\<close>

section \<open>Writing\<close>

definition ref_json :: "nat list \<Rightarrow> ctx_ref \<Rightarrow> json option outcome" where
  "ref_json s p =
    (case p of
       None \<Rightarrow> Ok None
     | Some a \<Rightarrow> obind (stateCtxs_strIdx s a) (\<lambda>i. Ok (Some (jobj [(''idx'', opt_str i)]))))"

definition opt_time :: "(time \<Rightarrow> int) \<Rightarrow> time \<Rightarrow> json option" where
  "opt_time unit t = (if IsZero t then None else Some (JStr (FormatInt (unit t))))"

definition opt_list :: "('a \<Rightarrow> json) \<Rightarrow> 'a list \<Rightarrow> json option" where
  "opt_list f xs = (if xs = [] then None else Some (JArr (map f xs)))"

definition GetStates_json :: "GetStatesCommand \<Rightarrow> json" where
  "GetStates_json cmd = jobj [
    (''sinceRev'', opt_int (gs_SinceRev cmd)),
    (''sinceTime_usec'', opt_time UnixMilli (gs_SinceTime cmd)),
    (''labels'', opt_list map_json (gs_Labels cmd)),
    (''latestOnly'', opt_bool (gs_LatestOnly cmd)),
    (''limit'', opt_int (gs_Limit cmd)),
    (''result'', map_option (\<lambda>r. jobj [(''states'', opt_list fromState (gsr_States r)), (''more'', opt_bool (gsr_More r))])
       (gs_Result cmd))]"

text \<open>The result has no tag: its field is written under its Go name, as \<open>null\<close> when there is none.\<close>

definition GetDelayedStates_json :: "GetDelayedStatesCommand \<Rightarrow> json" where
  "GetDelayedStates_json cmd = jobj [
    (''sinceTimeSec'', opt_time Unix (gt_Since cmd)),
    (''untilTimeSec'', opt_time Unix (gt_Until cmd)),
    (''offset'', opt_int (gt_Offset cmd)),
    (''limit'', opt_int (gt_Limit cmd)),
    (''Result'', Some (case gt_Result cmd of
       None \<Rightarrow> JNull
     | Some r \<Rightarrow> jobj [(''delayedStates'', opt_list fromDelayedState (gdr_States r)), (''more'', opt_bool (gdr_More r))]))]"

fun toJSONCommand :: "nat list \<Rightarrow> Command \<Rightarrow> (string \<times> json) list outcome"
  and toJSONCommands :: "nat list \<Rightarrow> Command list \<Rightarrow> json list outcome" where
  "toJSONCommand s (TransitCmd cmd) =
    obind (ref_json s (tr_StateCtx cmd)) (\<lambda>r. Ok [(''transit'', jobj [
      (''stateRef'', r), (''flowId'', opt_str (tr_To cmd)), (''annotations'', opt_map (tr_Annotations cmd))])])"
| "toJSONCommand s (ParkCmd cmd) =
    obind (ref_json s (pk_StateCtx cmd)) (\<lambda>r. Ok [(''park'', jobj [
      (''stateRef'', r), (''annotations'', opt_map (pk_Annotations cmd))])])"
| "toJSONCommand s (ExecuteCmd cmd) =
    obind (ref_json s (ex_StateCtx cmd)) (\<lambda>r. Ok [(''execute'', jobj [(''stateRef'', r)])])"
| "toJSONCommand s (DelayCmd cmd) =
    obind (ref_json s (dl_StateCtx cmd)) (\<lambda>r. Ok [(''delay'', jobj [
      (''stateRef'', r),
      (''executeAtSec'', opt_time Unix (dl_ExecuteAt cmd)),
      (''commit'', opt_bool (dl_Commit cmd)),
      (''to'', opt_str (dl_To cmd)),
      (''annotations'', opt_map (dl_Annotations cmd)),
      (''result'', map_option fromDelayedState (dl_Result cmd))])])"
| "toJSONCommand s (CommitCmd cmds) =
    obind (wrap_err ''marshal commit command: '' (toJSONCommands s cmds)) (\<lambda>js. Ok [(''commit'', jobj [
      (''commands'', if js = [] then None else Some (JArr js))])])"
| "toJSONCommand s NoopCmd = Ok [(''noop'', jobj [])]"
| "toJSONCommand s (StackCmd cmd) =
    obind (ref_json s (st_CarrierStateCtx cmd)) (\<lambda>c. obind (ref_json s (st_StackedStateCtx cmd)) (\<lambda>r. Ok [(''stack'', jobj [
      (''stackedStateRef'', r), (''carrierStateRef'', c), (''annotation'', opt_str (st_Annotation cmd))])]))"
| "toJSONCommand s (UnstackCmd cmd) =
    obind (ref_json s (un_CarrierStateCtx cmd)) (\<lambda>c. obind (ref_json s (un_UnstackStateCtx cmd)) (\<lambda>r. Ok [(''unstack'', jobj [
      (''carrierStateRef'', c), (''annotation'', opt_str (un_Annotation cmd)), (''unstackStateRef'', r)])]))"
| "toJSONCommand s (StoreDataCmd cmd) =
    obind (ref_json s (sd_StateCtx cmd)) (\<lambda>r. Ok [(''storeData'', jobj [
      (''stateRef'', r), (''alias'', opt_str (sd_Alias cmd))])])"
| "toJSONCommand s (GetDataCmd cmd) =
    obind (ref_json s (gd_StateCtx cmd)) (\<lambda>r. Ok [(''getData'', jobj [
      (''stateRef'', r), (''alias'', opt_str (gd_Alias cmd))])])"
| "toJSONCommand s (GetStateByIDCmd cmd) =
    obind (ref_json s (gi_StateCtx cmd)) (\<lambda>r. Ok [(''getStateByID'', jobj [
      (''stateRef'', r), (''id'', opt_str (gi_ID cmd)), (''rev'', opt_int (gi_Rev cmd))])])"
| "toJSONCommand s (GetStateByLabelsCmd cmd) =
    obind (ref_json s (gl_StateCtx cmd)) (\<lambda>r. Ok [(''getStateByLabels'', jobj [
      (''stateRef'', r), (''labels'', opt_map (gl_Labels cmd))])])"
| "toJSONCommand s (GetStatesCmd cmd) = Ok [(''getStates'', GetStates_json cmd)]"
| "toJSONCommand s (GetDelayedStatesCmd cmd) = Ok [(''getDelayedStates'', GetDelayedStates_json cmd)]"
| "toJSONCommand s NilCmd = Err (Errorf ''unsupported command <nil>'')"
| "toJSONCommands s [] = Ok []"
| "toJSONCommands s (cmd # cmds) =
    obind (toJSONCommand s cmd) (\<lambda>fs. obind (toJSONCommands s cmds) (\<lambda>js. Ok (JObj fs # js)))"

text \<open>The contexts are the first field; \<open>json.Marshal\<close> writes them.\<close>

fun ctxs_json :: "heap \<Rightarrow> nat list \<Rightarrow> json list outcome" where
  "ctxs_json h [] = Ok []"
| "ctxs_json h (a # s) =
    (case h a of
       None \<Rightarrow> nil_deref
     | Some c \<Rightarrow> obind (fromStateCtx c) (\<lambda>j. obind (ctxs_json h s) (\<lambda>js. Ok (j # js))))"

definition MarshalJSONCommand :: "heap \<Rightarrow> Command \<Rightarrow> string outcome" where
  "MarshalJSONCommand h cmd0 =
    (let s = commandStateCtxs cmd0 in
     obind (toJSONCommand s cmd0) (\<lambda>fs.
     obind (ctxs_json h s) (\<lambda>js.
     Ok (json_print (JObj ((if js = [] then [] else [(''stateCtxs'', JArr js)]) @ fs))))))"

section \<open>Reading\<close>

text \<open>The contexts, of which \<open>null\<close> is a nil pointer.\<close>

fun read_ctxs :: "json list \<Rightarrow> StateCtx option list outcome" where
  "read_ctxs [] = Ok []"
| "read_ctxs (j # js) =
    obind (if j = JNull then Ok None else obind (toStateCtx j StateCtx0) (\<lambda>c. Ok (Some c))) (\<lambda>c.
    obind (read_ctxs js) (\<lambda>cs. Ok (c # cs)))"

definition find_ref :: "StateCtx option list \<Rightarrow> json \<Rightarrow> string \<Rightarrow> ctx_ref outcome" where
  "find_ref ctxs j name =
    (case jfield j name of
       None \<Rightarrow> Ok None
     | Some r \<Rightarrow> obind (stateCtxs_findStrIdx (length ctxs) (case jstr r ''idx'' of None \<Rightarrow> [] | Some i \<Rightarrow> i)) (\<lambda>i.
         Ok (if ctxs ! i = None then None else Some i)))"

definition str_field :: "json \<Rightarrow> string \<Rightarrow> string" where
  "str_field j name = (case jstr j name of None \<Rightarrow> [] | Some s \<Rightarrow> s)"

definition bool_field :: "json \<Rightarrow> string \<Rightarrow> bool" where
  "bool_field j name = (case jbool j name of None \<Rightarrow> False | Some b \<Rightarrow> b)"

definition map_field :: "json \<Rightarrow> string \<Rightarrow> strmap" where
  "map_field j name = (case jmap j name of None \<Rightarrow> None | Some m \<Rightarrow> m)"

definition time_field :: "json \<Rightarrow> string \<Rightarrow> string \<Rightarrow> (int \<Rightarrow> time) \<Rightarrow> time outcome" where
  "time_field j name what mk =
    (case jstr j name of None \<Rightarrow> Ok zero_time | Some s \<Rightarrow> obind (parse_int what s) (\<lambda>v. Ok (mk v)))"

definition limit_field :: "json \<Rightarrow> int outcome" where
  "limit_field j =
    (case jstr j ''limit'' of
       None \<Rightarrow> Ok 0
     | Some s \<Rightarrow> (case Atoi s of
         (v, None) \<Rightarrow> Ok v
       | (_, Some err) \<Rightarrow> Err (Errorw ''cannot parse 'Limit limit = 4;' field: '' err [])))"

fun traverse :: "('a \<Rightarrow> 'b outcome) \<Rightarrow> 'a list \<Rightarrow> 'b list outcome" where
  "traverse f [] = Ok []"
| "traverse f (x # xs) = obind (f x) (\<lambda>y. obind (traverse f xs) (\<lambda>ys. Ok (y # ys)))"

lemma traverse_cong [fundef_cong]:
  "xs = ys \<Longrightarrow> (\<And>x. x \<in> set ys \<Longrightarrow> f x = g x) \<Longrightarrow> traverse f xs = traverse g ys"
  by (induction xs arbitrary: ys) auto

definition read_GetStates :: "json \<Rightarrow> GetStatesCommand outcome" where
  "read_GetStates j =
    obind (int_field j ''sinceRev'' ''cannot parse 'SinceRev since_rev = 1;' field: '' 0) (\<lambda>rev.
    obind (time_field j ''sinceTime_usec'' ''cannot parse 'SinceTimeUsec since_time_usec = 1;' field: '' time_UnixMilli) (\<lambda>since.
    obind (limit_field j) (\<lambda>limit.
    obind (case jfield j ''result'' of
        None \<Rightarrow> Ok None
      | Some r \<Rightarrow> obind (traverse (\<lambda>st. toState st State0) (jlist r ''states'')) (\<lambda>sts.
          Ok (Some \<lparr>gsr_States = sts, gsr_More = bool_field r ''more''\<rparr>))) (\<lambda>res.
    Ok \<lparr>gs_SinceRev = rev, gs_SinceTime = since, gs_Labels = map map_value (jlist j ''labels''),
      gs_LatestOnly = bool_field j ''latestOnly'', gs_Limit = limit, gs_Result = res\<rparr>))))"

definition read_GetDelayedStates :: "json \<Rightarrow> GetDelayedStatesCommand outcome" where
  "read_GetDelayedStates j =
    obind (time_field j ''sinceTimeSec'' ''cannot parse 'SinceTimeSec since_time_sec = 1;' field: '' (\<lambda>v. time_Unix v 0)) (\<lambda>since.
    obind (time_field j ''untilTimeSec'' ''cannot parse 'UntilTimeSec until_time_sec = 2;' field: '' (\<lambda>v. time_Unix v 0)) (\<lambda>until.
    obind (int_field j ''offset'' ''cannot parse 'Offset offset = 3;' field: '' 0) (\<lambda>offset.
    obind (limit_field j) (\<lambda>limit.
    obind (case jfield j ''Result'' of
        None \<Rightarrow> Ok None
      | Some r \<Rightarrow> obind (traverse (\<lambda>ds. toDelayedState ds DelayedState0) (jlist r ''delayedStates'')) (\<lambda>dss.
          Ok (Some \<lparr>gdr_States = dss, gdr_More = bool_field r ''more''\<rparr>))) (\<lambda>res.
    Ok \<lparr>gt_Since = since, gt_Until = until, gt_Offset = offset, gt_Limit = limit, gt_Result = res\<rparr>)))))"

text \<open>
  The switch over the fields of the root: the first kind of command that is there. A nil element of the
  commands of a commit panics.
\<close>

function unmarshalJSONCommand :: "StateCtx option list \<Rightarrow> json \<Rightarrow> Command outcome" where
  "unmarshalJSONCommand ctxs root =
    (case jfield root ''transit'' of Some j \<Rightarrow>
       obind (find_ref ctxs j ''stateRef'') (\<lambda>p. Ok (TransitCmd \<lparr>tr_StateCtx = p,
         tr_Annotations = map_field j ''annotations'', tr_To = str_field j ''flowId''\<rparr>))
   | None \<Rightarrow> (case jfield root ''park'' of Some j \<Rightarrow>
       obind (find_ref ctxs j ''stateRef'') (\<lambda>p. Ok (ParkCmd \<lparr>pk_StateCtx = p, pk_Annotations = map_field j ''annotations''\<rparr>))
   | None \<Rightarrow> (case jfield root ''execute'' of Some j \<Rightarrow>
       obind (find_ref ctxs j ''stateRef'') (\<lambda>p. Ok (ExecuteCmd \<lparr>ex_StateCtx = p, ex_sync = False\<rparr>))
   | None \<Rightarrow> (case jfield root ''delay'' of Some j \<Rightarrow>
       obind (find_ref ctxs j ''stateRef'') (\<lambda>p.
       obind (case jfield j ''result'' of
           None \<Rightarrow> Ok None
         | Some r \<Rightarrow> obind (wrap_err ''unmarshal delayed state result: '' (toDelayedState r DelayedState0)) (\<lambda>ds. Ok (Some ds))) (\<lambda>res.
       obind (time_field j ''executeAtSec'' ''cannot parse 'ExecuteAtSec execute_at_sec = 3;' field: '' (\<lambda>v. time_Unix v 0)) (\<lambda>at.
       Ok (DelayCmd \<lparr>dl_StateCtx = p, dl_ExecuteAt = at, dl_Commit = bool_field j ''commit'', dl_To = str_field j ''to'',
         dl_Annotations = map_field j ''annotations'', dl_Result = res\<rparr>))))
   | None \<Rightarrow> (case jfield root ''commit'' of Some j \<Rightarrow>
       obind (wrap_err ''unmarshal commit command: ''
         (traverse (\<lambda>sub. if sub = JNull then nil_deref else unmarshalJSONCommand ctxs sub) (jlist j ''commands''))) (\<lambda>cmds.
       Ok (CommitCmd cmds))
   | None \<Rightarrow> (case jfield root ''noop'' of Some j \<Rightarrow> Ok NoopCmd
   | None \<Rightarrow> (case jfield root ''stack'' of Some j \<Rightarrow>
       obind (find_ref ctxs j ''carrierStateRef'') (\<lambda>c. obind (find_ref ctxs j ''stackedStateRef'') (\<lambda>p.
       Ok (StackCmd \<lparr>st_StackedStateCtx = p, st_CarrierStateCtx = c, st_Annotation = str_field j ''annotation''\<rparr>)))
   | None \<Rightarrow> (case jfield root ''unstack'' of Some j \<Rightarrow>
       obind (find_ref ctxs j ''carrierStateRef'') (\<lambda>c. obind (find_ref ctxs j ''unstackStateRef'') (\<lambda>p.
       Ok (UnstackCmd \<lparr>un_CarrierStateCtx = c, un_UnstackStateCtx = p, un_Annotation = str_field j ''annotation''\<rparr>)))
   | None \<Rightarrow> (case jfield root ''storeData'' of Some j \<Rightarrow>
       obind (find_ref ctxs j ''stateRef'') (\<lambda>p. Ok (StoreDataCmd \<lparr>sd_StateCtx = p, sd_Alias = str_field j ''alias''\<rparr>))
   | None \<Rightarrow> (case jfield root ''getData'' of Some j \<Rightarrow>
       obind (find_ref ctxs j ''stateRef'') (\<lambda>p. Ok (GetDataCmd \<lparr>gd_StateCtx = p, gd_Alias = str_field j ''alias''\<rparr>))
   | None \<Rightarrow> (case jfield root ''getStateByID'' of Some j \<Rightarrow>
       obind (find_ref ctxs j ''stateRef'') (\<lambda>p.
       obind (case jstr j ''rev'' of
           None \<Rightarrow> Ok 0
         | Some s \<Rightarrow> (case ParseInt s of
             (v, None) \<Rightarrow> Ok v | _ \<Rightarrow> Err (Errorf (''cannot parse rev '' @ quote s @ '' into integer'')))) (\<lambda>rev.
       Ok (GetStateByIDCmd \<lparr>gi_ID = str_field j ''id'', gi_Rev = rev, gi_StateCtx = p\<rparr>)))
   | None \<Rightarrow> (case jfield root ''getStateByLabels'' of Some j \<Rightarrow>
       obind (find_ref ctxs j ''stateRef'') (\<lambda>p. Ok (GetStateByLabelsCmd \<lparr>gl_Labels = map_field j ''labels'', gl_StateCtx = p\<rparr>))
   | None \<Rightarrow> (case jfield root ''getStates'' of Some j \<Rightarrow>
       obind (read_GetStates j) (\<lambda>cmd. Ok (GetStatesCmd cmd))
   | None \<Rightarrow> (case jfield root ''getDelayedStates'' of Some j \<Rightarrow>
       obind (read_GetDelayedStates j) (\<lambda>cmd. Ok (GetDelayedStatesCmd cmd))
   | None \<Rightarrow> Err (Errorf ''unsupported command given'')))))))))))))))"
  by pat_completeness auto
termination
  by (relation "measure (\<lambda>(ctxs, root). height root)") (auto dest!: height_jfield height_jlist)

declare unmarshalJSONCommand.simps [simp del]

text \<open>The contexts are the heap the command points into; a nil context is not pointed to.\<close>

definition UnmarshalJSONCommand :: "string \<Rightarrow> (Command \<times> StateCtx list) outcome" where
  "UnmarshalJSONCommand data =
    obind (json_Unmarshal SjsonRootCommand data) (\<lambda>root.
    obind (read_ctxs (jlist root ''stateCtxs'')) (\<lambda>ctxs.
    obind (unmarshalJSONCommand ctxs root) (\<lambda>cmd.
    Ok (cmd, map (\<lambda>c. case c of None \<Rightarrow> StateCtx0 | Some x \<Rightarrow> x) ctxs))))"

end
