(* ===== verification/ProtojsonCmdProps.thy ===== *)
theory ProtojsonCmdProps
  imports ProtojsonProps ProtojsonCmd
begin

text \<open>
  What is written in JSON is read back: delayed states and commands; and which texts the decoder does
  not survive.
\<close>

section \<open>Delayed states\<close>

definition js_DelayedState :: "DelayedState \<Rightarrow> DelayedState" where
  "js_DelayedState ds = ds\<lparr>ds_State := js_State (ds_State ds), ds_ExecuteAt := pb_time_sec (ds_ExecuteAt ds)\<rparr>"

definition js_wf_DelayedState :: "DelayedState \<Rightarrow> bool" where
  "js_wf_DelayedState ds \<longleftrightarrow> wf_State (ds_State ds) \<and> in_i64 (s_Rev (ds_State ds)) \<and> in_i64 (ds_Offset ds)"

lemma opt_time_case [simp]:
  "(case (if IsZero t then None else Some (JStr u)) of Some (JStr s) \<Rightarrow> Some s | _ \<Rightarrow> None) = (if IsZero t then None else Some u)"
  by simp

lemma toDelayedState_from:
  assumes "js_wf_DelayedState ds"
  shows "toDelayedState (fromDelayedState ds) DelayedState0 = Ok (js_DelayedState ds)"
proof -
  let ?j = "fromDelayedState ds"
  have "jfield ?j ''state'' = Some (fromState (ds_State ds))"
    "jstr ?j ''offset'' = (if ds_Offset ds = 0 then None else Some (FormatInt (ds_Offset ds)))"
    "jstr ?j ''executeAtSec'' = (if IsZero (ds_ExecuteAt ds) then None else Some (FormatInt (Unix (ds_ExecuteAt ds))))"
    by (simp_all add: fromDelayedState_def jobj_simps opt_cases nonnull_case)
  moreover have "toState (fromState (ds_State ds)) State0 = Ok (js_State (ds_State ds))"
    using assms by (simp add: js_wf_DelayedState_def toState_from)
  ultimately show ?thesis
    using assms by (simp add: toDelayedState_def DelayedState0_def int_field_def opt_time_field_def js_DelayedState_def
        js_wf_DelayedState_def pb_time_sec_def)
qed

lemma typed_DelayedState:
  "json_typed (fromDelayedState ds) SjsonDelayedState"
  "js_wf_DelayedState ds \<Longrightarrow> json_typed (fromDelayedState ds) SDelayedState"
proof -
  have fs: "list_all (\<lambda>(k, v). fits jsonDelayedState k v) [
    (''state'', Some (fromState (ds_State ds))), (''offset'', opt_int (ds_Offset ds)),
    (''executeAtSec'', if IsZero (ds_ExecuteAt ds) then None else Some (JStr (FormatInt (Unix (ds_ExecuteAt ds)))))]"
    by (simp add: fits_opts jsonDelayedState_def typed_State(1))
  show "json_typed (fromDelayedState ds) SjsonDelayedState"
    unfolding fromDelayedState_def by (rule typed_jobj [OF _ fs]) simp_all
  show "json_typed (fromDelayedState ds) SDelayedState" if "js_wf_DelayedState ds"
    using toDelayedState_from [OF that] unfolding fromDelayedState_def by (intro typed_jobj [OF _ fs]) simp_all
qed

section \<open>Commands\<close>

definition js_GetStates :: "GetStatesCommand \<Rightarrow> GetStatesCommand" where
  "js_GetStates cmd = cmd\<lparr>gs_SinceTime := pb_milli (gs_SinceTime cmd), gs_Labels := map js_map (gs_Labels cmd),
    gs_Result := map_option (\<lambda>r. r\<lparr>gsr_States := map js_State (gsr_States r)\<rparr>) (gs_Result cmd)\<rparr>"

definition js_GetDelayedStates :: "GetDelayedStatesCommand \<Rightarrow> GetDelayedStatesCommand" where
  "js_GetDelayedStates cmd = cmd\<lparr>gt_Since := pb_time_sec (gt_Since cmd), gt_Until := pb_time_sec (gt_Until cmd),
    gt_Result := map_option (\<lambda>r. r\<lparr>gdr_States := map js_DelayedState (gdr_States r)\<rparr>) (gt_Result cmd)\<rparr>"

text \<open>What comes back: the pointers as indices, the maps sorted, the times cut, and no \<open>sync\<close>.\<close>

fun js_Command :: "nat list \<Rightarrow> Command \<Rightarrow> Command" where
  "js_Command s (TransitCmd cmd) = TransitCmd (cmd\<lparr>tr_StateCtx := pb_ref s (tr_StateCtx cmd),
    tr_Annotations := js_map (tr_Annotations cmd)\<rparr>)"
| "js_Command s (ParkCmd cmd) = ParkCmd (cmd\<lparr>pk_StateCtx := pb_ref s (pk_StateCtx cmd),
    pk_Annotations := js_map (pk_Annotations cmd)\<rparr>)"
| "js_Command s (ExecuteCmd cmd) = ExecuteCmd \<lparr>ex_StateCtx = pb_ref s (ex_StateCtx cmd), ex_sync = False\<rparr>"
| "js_Command s (DelayCmd cmd) = DelayCmd (cmd\<lparr>dl_StateCtx := pb_ref s (dl_StateCtx cmd),
    dl_ExecuteAt := pb_time_sec (dl_ExecuteAt cmd), dl_Annotations := js_map (dl_Annotations cmd),
    dl_Result := map_option js_DelayedState (dl_Result cmd)\<rparr>)"
| "js_Command s (CommitCmd cmds) = CommitCmd (map (js_Command s) cmds)"
| "js_Command s (StackCmd cmd) = StackCmd (cmd\<lparr>st_CarrierStateCtx := pb_ref s (st_CarrierStateCtx cmd),
    st_StackedStateCtx := pb_ref s (st_StackedStateCtx cmd)\<rparr>)"
| "js_Command s (UnstackCmd cmd) = UnstackCmd (cmd\<lparr>un_CarrierStateCtx := pb_ref s (un_CarrierStateCtx cmd),
    un_UnstackStateCtx := pb_ref s (un_UnstackStateCtx cmd)\<rparr>)"
| "js_Command s (StoreDataCmd cmd) = StoreDataCmd (cmd\<lparr>sd_StateCtx := pb_ref s (sd_StateCtx cmd)\<rparr>)"
| "js_Command s (GetDataCmd cmd) = GetDataCmd (cmd\<lparr>gd_StateCtx := pb_ref s (gd_StateCtx cmd)\<rparr>)"
| "js_Command s (GetStateByIDCmd cmd) = GetStateByIDCmd (cmd\<lparr>gi_StateCtx := pb_ref s (gi_StateCtx cmd)\<rparr>)"
| "js_Command s (GetStateByLabelsCmd cmd) = GetStateByLabelsCmd (cmd\<lparr>gl_StateCtx := pb_ref s (gl_StateCtx cmd),
    gl_Labels := js_map (gl_Labels cmd)\<rparr>)"
| "js_Command s (GetStatesCmd cmd) = GetStatesCmd (js_GetStates cmd)"
| "js_Command s (GetDelayedStatesCmd cmd) = GetDelayedStatesCmd (js_GetDelayedStates cmd)"
| "js_Command s c = c"

definition js_wf_GetStates :: "GetStatesCommand \<Rightarrow> bool" where
  "js_wf_GetStates cmd \<longleftrightarrow> in_i64 (gs_SinceRev cmd) \<and> in_i64 (gs_Limit cmd) \<and> list_all gm_wf (gs_Labels cmd)
    \<and> (case gs_Result cmd of None \<Rightarrow> True
       | Some r \<Rightarrow> list_all (\<lambda>s. wf_State s \<and> in_i64 (s_Rev s)) (gsr_States r))"

definition js_wf_GetDelayedStates :: "GetDelayedStatesCommand \<Rightarrow> bool" where
  "js_wf_GetDelayedStates cmd \<longleftrightarrow> in_i64 (gt_Offset cmd) \<and> in_i64 (gt_Limit cmd)
    \<and> (case gt_Result cmd of None \<Rightarrow> True | Some r \<Rightarrow> list_all js_wf_DelayedState (gdr_States r))"

fun js_wf_Command :: "Command \<Rightarrow> bool" where
  "js_wf_Command (TransitCmd cmd) = gm_wf (tr_Annotations cmd)"
| "js_wf_Command (ParkCmd cmd) = gm_wf (pk_Annotations cmd)"
| "js_wf_Command (DelayCmd cmd) = (gm_wf (dl_Annotations cmd)
    \<and> (case dl_Result cmd of None \<Rightarrow> True | Some ds \<Rightarrow> js_wf_DelayedState ds))"
| "js_wf_Command (CommitCmd cmds) = list_all js_wf_Command cmds"
| "js_wf_Command (GetStateByIDCmd cmd) = in_i64 (gi_Rev cmd)"
| "js_wf_Command (GetStateByLabelsCmd cmd) = gm_wf (gl_Labels cmd)"
| "js_wf_Command (GetStatesCmd cmd) = js_wf_GetStates cmd"
| "js_wf_Command (GetDelayedStatesCmd cmd) = js_wf_GetDelayedStates cmd"
| "js_wf_Command NilCmd = False"
| "js_wf_Command _ = True"

text \<open>References.\<close>

definition ref_obj :: "nat list \<Rightarrow> ctx_ref \<Rightarrow> json option" where
  "ref_obj s p = map_option (\<lambda>a. jobj [(''idx'', Some (JStr (FormatInt (int (idx_of s a)))))]) p"

lemma ref_json_Ok: "ref_ok s p \<Longrightarrow> ref_json s p = Ok (ref_obj s p)"
  by (auto simp: ref_json_def ref_obj_def ref_ok_def nonnil_def stateCtxs_strIdx_def stateCtxs_idx_Ok opt_str_def
      split: option.splits)

lemma find_ref_obj:
  assumes "ref_ok s p" "length ctxs = length s" "\<forall>c \<in> set ctxs. c \<noteq> None" "jfield j name = ref_obj s p"
  shows "find_ref ctxs j name = Ok (pb_ref s p)"
proof (cases p)
  case (Some a)
  let ?i = "int (idx_of s a)"
  have a: "idx_of s a < length s" using assms(1) Some idx_of_less by (simp add: ref_ok_def)
  then have "in_i64 ?i" using assms(1) by (simp add: in_i64_def ref_ok_def)
  moreover have "distinct (field_names [(''idx'', v)])" for v by (simp add: field_names_def)
  ultimately have "stateCtxs_findStrIdx (length ctxs) (FormatInt ?i) = Ok (idx_of s a)"
    using a assms(2) by (simp add: stateCtxs_findStrIdx_def stateCtxs_find_def)
  moreover have "ctxs ! idx_of s a \<noteq> None" using a assms(2,3) by (simp add: nth_mem)
  ultimately show ?thesis
    using assms(4) Some \<open>\<And>v. distinct (field_names [(''idx'', v)])\<close> by (simp add: find_ref_def ref_obj_def pb_ref_def jobj_simps)
qed (use assms in \<open>simp add: find_ref_def ref_obj_def pb_ref_def\<close>)

lemma ref_obj_case [simp]: "(case ref_obj s p of Some JNull \<Rightarrow> None | r \<Rightarrow> r) = ref_obj s p"
  by (cases p) (simp_all add: ref_obj_def)

lemma traverse_map: "(\<And>x. x \<in> set xs \<Longrightarrow> f (g x) = Ok (h x)) \<Longrightarrow> traverse f (map g xs) = Ok (map h xs)"
  by (induction xs) auto


text \<open>The fields of a root: its contexts and one command.\<close>

definition cmd_names :: "string list" where
  "cmd_names = [''transit'', ''park'', ''execute'', ''delay'', ''commit'', ''noop'', ''stack'', ''unstack'', ''storeData'',
    ''getData'', ''getStateByID'', ''getStateByLabels'', ''getStates'', ''getDelayedStates'']"

definition cmd_root :: "json \<Rightarrow> string \<Rightarrow> json \<Rightarrow> bool" where
  "cmd_root root k j \<longleftrightarrow> list_all (\<lambda>name. jfield root name = (if name = k then Some j else None)) cmd_names"

lemma cmd_names_distinct: "distinct (map (map fold_char) (''stateCtxs'' # cmd_names))"
  by code_simp

lemma two_fields:
  assumes "\<And>x y. x \<in> set (s # ns) \<Longrightarrow> y \<in> set (s # ns) \<Longrightarrow> map fold_char x = map fold_char y \<Longrightarrow> x = y"
    and "s \<notin> set ns" "k \<in> set ns" "name \<in> set ns" "j \<noteq> JNull"
  shows "jfield (jobj [(s, p), (k, Some j)]) name = (if name = k then Some j else None)"
proof (cases "name = k")
  case True
  have "map fold_char s \<noteq> map fold_char k" using assms(1) [of s k] assms(2,3) by auto
  then have d: "distinct (field_names [(s, p), (k, Some j)])" by (simp add: field_names_def)
  have "name \<in> set (map fst [(s, p), (k, Some j)])" "s \<noteq> k" using True assms(2,3) by auto
  then show ?thesis using jfield_jobj [OF d, of name] True assms(5) by (simp add: nonnull_case)
next
  case False
  have "map fold_char name \<noteq> map fold_char k" "map fold_char name \<noteq> map fold_char s"
    using assms(1) [of name k] assms(1) [of name s] assms(2-4) False by auto
  then have "map fold_char name \<notin> set (field_names [(s, p), (k, Some j)])" by (simp add: field_names_def)
  then show ?thesis using False by (simp add: jfield_jobj_absent)
qed

lemma cmd_root_jobj:
  assumes "k \<in> set cmd_names" "j \<noteq> JNull"
  shows "cmd_root (jobj [(''stateCtxs'', p), (k, Some j)]) k j"
proof -
  have inj: "inj_on (map fold_char) (set (''stateCtxs'' # cmd_names))" "''stateCtxs'' \<notin> set cmd_names"
    using cmd_names_distinct unfolding distinct_map distinct.simps by blast+
  then show ?thesis
    unfolding cmd_root_def list_all_iff by (intro ballI two_fields [OF inj_onD [OF inj(1)] inj(2)]) (use assms in auto)
qed

lemma cmd_fields_distinct [simp]:
  "distinct (field_names [(''stateRef'', v1), (''flowId'', v2), (''annotations'', v3)])"
  "distinct (field_names [(''stateRef'', v1), (''annotations'', v2)])"
  "distinct (field_names [(''stateRef'', v1)])"
  "distinct (field_names [(''stateRef'', v1), (''executeAtSec'', v2), (''commit'', v3), (''to'', v4),
    (''annotations'', v5), (''result'', v6)])"
  "distinct (field_names [(''commands'', v1)])"
  "distinct (field_names [(''stackedStateRef'', v1), (''carrierStateRef'', v2), (''annotation'', v3)])"
  "distinct (field_names [(''carrierStateRef'', v1), (''annotation'', v2), (''unstackStateRef'', v3)])"
  "distinct (field_names [(''stateRef'', v1), (''alias'', v2)])"
  "distinct (field_names [(''stateRef'', v1), (''id'', v2), (''rev'', v3)])"
  "distinct (field_names [(''stateRef'', v1), (''labels'', v2)])"
  "distinct (field_names [(''sinceRev'', v1), (''sinceTime_usec'', v2), (''labels'', v3), (''latestOnly'', v4),
    (''limit'', v5), (''result'', v6)])"
  "distinct (field_names [(''states'', v1), (''more'', v2)])"
  "distinct (field_names [(''sinceTimeSec'', v1), (''untilTimeSec'', v2), (''offset'', v3), (''limit'', v4), (''Result'', v5)])"
  "distinct (field_names [(''delayedStates'', v1), (''more'', v2)])"
  by code_simp+

text \<open>The two commands that read.\<close>

lemma opt_list_case: "(case opt_list f xs of Some (JArr js) \<Rightarrow> js | _ \<Rightarrow> []) = map f xs"
  by (simp add: opt_list_def)

lemma opt_time_jstr [simp]:
  "(case opt_time u t of Some (JStr s) \<Rightarrow> Some s | _ \<Rightarrow> None) = (if IsZero t then None else Some (FormatInt (u t)))"
  by (simp add: opt_time_def)


lemma limit_field_from: "jstr j ''limit'' = (if i = 0 then None else Some (FormatInt i)) \<Longrightarrow> in_i64 i \<Longrightarrow> limit_field j = Ok i"
  by (simp add: limit_field_def)

lemma int_field_from:
  "jstr j name = (if i = 0 then None else Some (FormatInt i)) \<Longrightarrow> in_i64 i \<Longrightarrow> int_field j name what 0 = Ok i"
  by (simp add: int_field_def)

lemma time_field_from:
  "jstr j name = (if IsZero t then None else Some (FormatInt (u t))) \<Longrightarrow> in_i64 (u t) \<Longrightarrow>
    time_field j name what mk = Ok (if IsZero t then zero_time else mk (u t))"
  by (simp add: time_field_def)

lemma bool_field_from: "jbool j name = (if b then Some True else None) \<Longrightarrow> bool_field j name = b"
  by (simp add: bool_field_def)

lemma str_field_from: "jstr j name = (if s = [] then None else Some s) \<Longrightarrow> str_field j name = s"
  by (simp add: str_field_def)

lemma map_field_from: "jmap j name = (if m = None then None else Some (js_map m)) \<Longrightarrow> map_field j name = js_map m"
  by (auto simp: map_field_def js_map_def)

lemmas field_froms = limit_field_from int_field_from time_field_from bool_field_from str_field_from map_field_from

lemma map_value_json': "gm_wf m \<Longrightarrow> map_value (map_json m) = js_map m"
  by (cases m) (auto simp: map_json_def js_map_def dest: map_value_json)

lemma states_result:
  fixes m :: bool
  assumes "list_all (\<lambda>s. wf_State s \<and> in_i64 (s_Rev s)) ss"
  defines "r \<equiv> jobj [(''states'', opt_list fromState ss), (''more'', opt_bool m)]"
  shows "traverse (\<lambda>st. toState st State0) (jlist r ''states'') = Ok (map js_State ss)" "bool_field r ''more'' = m"
proof -
  have "jlist r ''states'' = map fromState ss" "jbool r ''more'' = (if m then Some True else None)"
    unfolding r_def by (simp_all add: jobj_simps opt_list_case opt_cases)
  then show "traverse (\<lambda>st. toState st State0) (jlist r ''states'') = Ok (map js_State ss)" "bool_field r ''more'' = m"
    using assms(1) by (simp_all add: field_froms traverse_map toState_from list_all_iff)
qed

lemma js_GetStates_eq:
  "js_GetStates cmd = \<lparr>gs_SinceRev = gs_SinceRev cmd, gs_SinceTime = pb_milli (gs_SinceTime cmd),
    gs_Labels = map js_map (gs_Labels cmd), gs_LatestOnly = gs_LatestOnly cmd, gs_Limit = gs_Limit cmd,
    gs_Result = map_option (\<lambda>r. \<lparr>gsr_States = map js_State (gsr_States r), gsr_More = gsr_More r\<rparr>) (gs_Result cmd)\<rparr>"
  by (cases cmd, cases "gs_Result cmd") (simp_all add: js_GetStates_def)

lemma js_GetDelayedStates_eq:
  "js_GetDelayedStates cmd = \<lparr>gt_Since = pb_time_sec (gt_Since cmd), gt_Until = pb_time_sec (gt_Until cmd),
    gt_Offset = gt_Offset cmd, gt_Limit = gt_Limit cmd,
    gt_Result = map_option (\<lambda>r. \<lparr>gdr_States = map js_DelayedState (gdr_States r), gdr_More = gdr_More r\<rparr>) (gt_Result cmd)\<rparr>"
  by (cases cmd, cases "gt_Result cmd") (simp_all add: js_GetDelayedStates_def)

lemma read_GetStates_from:
  assumes "js_wf_GetStates cmd"
  shows "read_GetStates (GetStates_json cmd) = Ok (js_GetStates cmd)"
proof -
  let ?j = "GetStates_json cmd"
  have "jstr ?j ''sinceRev'' = (if gs_SinceRev cmd = 0 then None else Some (FormatInt (gs_SinceRev cmd)))"
    "jstr ?j ''sinceTime_usec'' = (if IsZero (gs_SinceTime cmd) then None else Some (FormatInt (UnixMilli (gs_SinceTime cmd))))"
    "jlist ?j ''labels'' = map map_json (gs_Labels cmd)"
    "jbool ?j ''latestOnly'' = (if gs_LatestOnly cmd then Some True else None)"
    "jstr ?j ''limit'' = (if gs_Limit cmd = 0 then None else Some (FormatInt (gs_Limit cmd)))"
    "jfield ?j ''result'' = map_option (\<lambda>r. jobj [(''states'', opt_list fromState (gsr_States r)),
      (''more'', opt_bool (gsr_More r))]) (gs_Result cmd)"
    by (simp_all add: GetStates_json_def jobj_simps opt_cases opt_list_case) (cases "gs_Result cmd"; simp)
  note f = this
  have ls: "map (map_value \<circ> map_json) (gs_Labels cmd) = map js_map (gs_Labels cmd)"
    using assms map_value_json' by (auto simp: js_wf_GetStates_def list_all_iff)
  show ?thesis
  proof (cases "gs_Result cmd")
    case (Some r)
    with assms have "list_all (\<lambda>s. wf_State s \<and> in_i64 (s_Rev s)) (gsr_States r)" by (simp add: js_wf_GetStates_def)
    from states_result [OF this, of "gsr_More r"] show ?thesis
      using assms Some by (simp add: read_GetStates_def field_froms f ls js_wf_GetStates_def js_GetStates_eq pb_milli_def IsZero_def)
  qed (use assms in \<open>simp add: read_GetStates_def field_froms f ls js_wf_GetStates_def js_GetStates_eq pb_milli_def IsZero_def\<close>)
qed

lemma delayed_result:
  fixes m :: bool
  assumes "list_all js_wf_DelayedState ds"
  defines "r \<equiv> jobj [(''delayedStates'', opt_list fromDelayedState ds), (''more'', opt_bool m)]"
  shows "traverse (\<lambda>d. toDelayedState d DelayedState0) (jlist r ''delayedStates'') = Ok (map js_DelayedState ds)"
    "bool_field r ''more'' = m"
proof -
  have "jlist r ''delayedStates'' = map fromDelayedState ds" "jbool r ''more'' = (if m then Some True else None)"
    unfolding r_def by (simp_all add: jobj_simps opt_list_case opt_cases)
  then show "traverse (\<lambda>d. toDelayedState d DelayedState0) (jlist r ''delayedStates'') = Ok (map js_DelayedState ds)"
    "bool_field r ''more'' = m"
    using assms(1) by (simp_all add: field_froms traverse_map toDelayedState_from list_all_iff)
qed

lemma read_GetDelayedStates_from:
  assumes "js_wf_GetDelayedStates cmd"
  shows "read_GetDelayedStates (GetDelayedStates_json cmd) = Ok (js_GetDelayedStates cmd)"
proof -
  let ?j = "GetDelayedStates_json cmd"
  have f: "jstr ?j ''sinceTimeSec'' = (if IsZero (gt_Since cmd) then None else Some (FormatInt (Unix (gt_Since cmd))))"
    "jstr ?j ''untilTimeSec'' = (if IsZero (gt_Until cmd) then None else Some (FormatInt (Unix (gt_Until cmd))))"
    "jstr ?j ''offset'' = (if gt_Offset cmd = 0 then None else Some (FormatInt (gt_Offset cmd)))"
    "jstr ?j ''limit'' = (if gt_Limit cmd = 0 then None else Some (FormatInt (gt_Limit cmd)))"
    "jfield ?j ''Result'' = map_option (\<lambda>r. jobj [(''delayedStates'', opt_list fromDelayedState (gdr_States r)),
      (''more'', opt_bool (gdr_More r))]) (gt_Result cmd)"
    by (simp_all add: GetDelayedStates_json_def jobj_simps opt_cases split: option.splits)
  show ?thesis
  proof (cases "gt_Result cmd")
    case (Some r)
    with assms have "list_all js_wf_DelayedState (gdr_States r)" by (simp add: js_wf_GetDelayedStates_def)
    from delayed_result [OF this, of "gdr_More r"] show ?thesis
      using assms Some
      by (simp add: read_GetDelayedStates_def field_froms f js_wf_GetDelayedStates_def js_GetDelayedStates_eq pb_time_sec_def)
  qed (use assms in \<open>simp add: read_GetDelayedStates_def field_froms f js_wf_GetDelayedStates_def js_GetDelayedStates_eq
      pb_time_sec_def\<close>)
qed


text \<open>One command and its root.\<close>

definition cmd_rt :: "nat list \<Rightarrow> StateCtx option list \<Rightarrow> Command \<Rightarrow> bool" where
  "cmd_rt s ctxs cmd \<longleftrightarrow> (\<exists>k fs. toJSONCommand s cmd = Ok [(k, jobj fs)] \<and> k \<in> set cmd_names
    \<and> json_typed (jobj fs) (the (map_of jsonRootCommand k))
    \<and> (\<forall>root. cmd_root root k (jobj fs) \<longrightarrow> unmarshalJSONCommand ctxs root = Ok (js_Command s cmd)))"

lemma cmd_rtI:
  assumes "toJSONCommand s cmd = Ok [(k, jobj fs)]" "k \<in> set cmd_names"
    and "schema_fields (the (map_of jsonRootCommand k)) = Some tags" "list_all (\<lambda>(k, v). fits tags k v) fs"
    and "\<And>j. converts (the (map_of jsonRootCommand k)) j"
    and "\<And>root. cmd_root root k (jobj fs) \<Longrightarrow> unmarshalJSONCommand ctxs root = Ok (js_Command s cmd)"
  shows "cmd_rt s ctxs cmd"
  unfolding cmd_rt_def using assms typed_jobj [OF assms(3,4,5)] by blast

lemma fits_ref [simp]:
  "k \<in> set (map fst tags) \<Longrightarrow> map_of tags k = Some SjsonStateCtxRef \<Longrightarrow> fits tags k (ref_obj s p)"
proof -
  assume k: "k \<in> set (map fst tags)" "map_of tags k = Some SjsonStateCtxRef"
  have "json_typed (jobj [(''idx'', Some (JStr i))]) SjsonStateCtxRef" for i
    by (rule typed_jobj [where tags = jsonStateCtxRef]) (simp_all add: jsonStateCtxRef_def)
  then show ?thesis using k by (cases p) (simp_all add: ref_obj_def)
qed

lemma fits_time [simp]: "k \<in> set (map fst tags) \<Longrightarrow> map_of tags k = Some SStr \<Longrightarrow> fits tags k (opt_time u t)"
  by (simp add: opt_time_def)

lemma fits_list:
  "k \<in> set (map fst tags) \<Longrightarrow> map_of tags k = Some (SArr t) \<Longrightarrow> (\<And>x. x \<in> set xs \<Longrightarrow> json_typed (f x) t) \<Longrightarrow>
    fits tags k (opt_list f xs)"
  by (simp add: opt_list_def list_all_iff)

text \<open>What the pointers and the number of contexts have to satisfy.\<close>

definition ctxs_ok :: "nat list \<Rightarrow> StateCtx option list \<Rightarrow> bool" where
  "ctxs_ok s ctxs \<longleftrightarrow> length ctxs = length s \<and> (\<forall>c \<in> set ctxs. c \<noteq> None)"

lemma find_ref_from: "ctxs_ok s ctxs \<Longrightarrow> ref_ok s p \<Longrightarrow> jfield j name = ref_obj s p \<Longrightarrow> find_ref ctxs j name = Ok (pb_ref s p)"
  by (simp add: ctxs_ok_def find_ref_obj)

lemmas cmd_rt_simps = cmd_names_def jsonRootCommand_def jsonGenericCommand_def jsonDelayCommand_def fits_opts
  unmarshalJSONCommand.simps cmd_root_def jobj_simps field_froms opt_cases opt_map_cases

lemma ref_commands_rt:
  assumes "ctxs_ok s ctxs"
  shows "ref_ok s (tr_StateCtx c1) \<Longrightarrow> gm_wf (tr_Annotations c1) \<Longrightarrow> cmd_rt s ctxs (TransitCmd c1)"
    "ref_ok s (pk_StateCtx c2) \<Longrightarrow> gm_wf (pk_Annotations c2) \<Longrightarrow> cmd_rt s ctxs (ParkCmd c2)"
    "ref_ok s (ex_StateCtx c3) \<Longrightarrow> cmd_rt s ctxs (ExecuteCmd c3)"
    "cmd_rt s ctxs NoopCmd"
    "ref_ok s (st_CarrierStateCtx c4) \<Longrightarrow> ref_ok s (st_StackedStateCtx c4) \<Longrightarrow> cmd_rt s ctxs (StackCmd c4)"
    "ref_ok s (un_CarrierStateCtx c5) \<Longrightarrow> ref_ok s (un_UnstackStateCtx c5) \<Longrightarrow> cmd_rt s ctxs (UnstackCmd c5)"
    "ref_ok s (sd_StateCtx c6) \<Longrightarrow> cmd_rt s ctxs (StoreDataCmd c6)"
    "ref_ok s (gd_StateCtx c7) \<Longrightarrow> cmd_rt s ctxs (GetDataCmd c7)"
    "ref_ok s (gi_StateCtx c8) \<Longrightarrow> in_i64 (gi_Rev c8) \<Longrightarrow> cmd_rt s ctxs (GetStateByIDCmd c8)"
    "ref_ok s (gl_StateCtx c9) \<Longrightarrow> gm_wf (gl_Labels c9) \<Longrightarrow> cmd_rt s ctxs (GetStateByLabelsCmd c9)"
  by ((rule cmd_rtI [where tags = jsonGenericCommand], simp add: ref_json_Ok, simp_all add: cmd_rt_simps find_ref_from [OF assms])[1])+

lemma delay_rt:
  assumes "ctxs_ok s ctxs" "ref_ok s (dl_StateCtx c)" "gm_wf (dl_Annotations c)"
    and "case dl_Result c of None \<Rightarrow> True | Some ds \<Rightarrow> js_wf_DelayedState ds"
  shows "cmd_rt s ctxs (DelayCmd c)"
proof (cases "dl_Result c")
  case None
  show ?thesis
    by (rule cmd_rtI [where tags = jsonDelayCommand], simp add: assms(2) ref_json_Ok)
      (simp_all add: cmd_rt_simps assms(3) find_ref_from [OF assms(1,2)] None pb_time_sec_def)
next
  case (Some ds)
  show ?thesis
    by (rule cmd_rtI [where tags = jsonDelayCommand], simp add: assms(2) ref_json_Ok)
      (use assms Some in \<open>simp_all add: cmd_rt_simps find_ref_from [OF assms(1,2)] pb_time_sec_def typed_DelayedState toDelayedState_from nonnull_case\<close>)
qed


lemma read_rtI:
  assumes "toJSONCommand s cmd = Ok [(k, j)]" "\<exists>fs. j = jobj fs" "k \<in> set cmd_names"
    and "json_typed j (the (map_of jsonRootCommand k))"
    and "\<And>root. cmd_root root k j \<Longrightarrow> unmarshalJSONCommand ctxs root = Ok (js_Command s cmd)"
  shows "cmd_rt s ctxs cmd"
  using assms unfolding cmd_rt_def by auto

lemma typed_GetStates:
  assumes "js_wf_GetStates cmd"
  shows "json_typed (GetStates_json cmd) SjsonGetStatesCommand"
  unfolding GetStates_json_def
proof (rule typed_jobj [where tags = jsonGetStatesCommand])
  have "json_typed (map_json m) (SMap SStr)" for m
    by (cases m) (auto simp: map_json_def list_all_iff)
  then have ls: "fits jsonGetStatesCommand ''labels'' (opt_list map_json (gs_Labels cmd))"
    by (intro fits_list) (simp_all add: jsonGetStatesCommand_def)
  have "json_typed (jobj [(''states'', opt_list fromState (gsr_States r)), (''more'', opt_bool (gsr_More r))]) SjsonGetStatesResult"
    if "gs_Result cmd = Some r" for r
  proof (rule typed_jobj [where tags = jsonGetStatesResult])
    have "fits jsonGetStatesResult ''states'' (opt_list fromState (gsr_States r))"
      using assms that by (intro fits_list [where t = SState])
        (auto simp: jsonGetStatesResult_def js_wf_GetStates_def list_all_iff typed_State(2))
    moreover have "fits jsonGetStatesResult ''more'' (opt_bool (gsr_More r))"
      by (simp add: jsonGetStatesResult_def fits_opts)
    ultimately show "list_all (\<lambda>(k, v). fits jsonGetStatesResult k v)
        [(''states'', opt_list fromState (gsr_States r)), (''more'', opt_bool (gsr_More r))]" by simp
  qed simp_all
  then have "fits jsonGetStatesCommand ''result'' (map_option (\<lambda>r. jobj [(''states'', opt_list fromState (gsr_States r)),
      (''more'', opt_bool (gsr_More r))]) (gs_Result cmd))"
    by (cases "gs_Result cmd") (simp_all add: jsonGetStatesCommand_def)
  then show "list_all (\<lambda>(k, v). fits jsonGetStatesCommand k v) [
    (''sinceRev'', opt_int (gs_SinceRev cmd)), (''sinceTime_usec'', opt_time UnixMilli (gs_SinceTime cmd)),
    (''labels'', opt_list map_json (gs_Labels cmd)), (''latestOnly'', opt_bool (gs_LatestOnly cmd)),
    (''limit'', opt_int (gs_Limit cmd)),
    (''result'', map_option (\<lambda>r. jobj [(''states'', opt_list fromState (gsr_States r)), (''more'', opt_bool (gsr_More r))])
       (gs_Result cmd))]"
    using ls by (simp add: fits_opts jsonGetStatesCommand_def)
qed simp_all

lemma typed_GetDelayedStates:
  assumes "js_wf_GetDelayedStates cmd"
  shows "json_typed (GetDelayedStates_json cmd) SjsonGetDelayedStatesCommand"
  unfolding GetDelayedStates_json_def
proof (rule typed_jobj [where tags = jsonGetDelayedStatesCommand])
  let ?r = "\<lambda>r. jobj [(''delayedStates'', opt_list fromDelayedState (gdr_States r)), (''more'', opt_bool (gdr_More r))]"
  have "json_typed (?r r) SjsonGetDelayedStatesResult" if "gt_Result cmd = Some r" for r
  proof (rule typed_jobj [where tags = jsonGetDelayedStatesResult])
    have "fits jsonGetDelayedStatesResult ''delayedStates'' (opt_list fromDelayedState (gdr_States r))"
      using assms that by (intro fits_list [where t = SDelayedState])
        (auto simp: jsonGetDelayedStatesResult_def js_wf_GetDelayedStates_def list_all_iff typed_DelayedState(2))
    moreover have "fits jsonGetDelayedStatesResult ''more'' (opt_bool (gdr_More r))"
      by (simp add: jsonGetDelayedStatesResult_def fits_opts)
    ultimately show "list_all (\<lambda>(k, v). fits jsonGetDelayedStatesResult k v)
        [(''delayedStates'', opt_list fromDelayedState (gdr_States r)), (''more'', opt_bool (gdr_More r))]" by simp
  qed simp_all
  then have "fits jsonGetDelayedStatesCommand ''Result'' (Some (case gt_Result cmd of None \<Rightarrow> JNull | Some r \<Rightarrow> ?r r))"
    by (cases "gt_Result cmd") (simp_all add: jsonGetDelayedStatesCommand_def)
  then show "list_all (\<lambda>(k, v). fits jsonGetDelayedStatesCommand k v) [
    (''sinceTimeSec'', opt_time Unix (gt_Since cmd)), (''untilTimeSec'', opt_time Unix (gt_Until cmd)),
    (''offset'', opt_int (gt_Offset cmd)), (''limit'', opt_int (gt_Limit cmd)),
    (''Result'', Some (case gt_Result cmd of None \<Rightarrow> JNull | Some r \<Rightarrow> ?r r))]"
    by (simp add: fits_opts jsonGetDelayedStatesCommand_def)
qed simp_all

lemma read_commands_rt:
  shows "js_wf_GetStates c \<Longrightarrow> cmd_rt s ctxs (GetStatesCmd c)"
    and "js_wf_GetDelayedStates d \<Longrightarrow> cmd_rt s ctxs (GetDelayedStatesCmd d)"
  by ((rule read_rtI, simp, blast intro: GetStates_json_def GetDelayedStates_json_def,
      simp_all add: cmd_names_def jsonRootCommand_def typed_GetStates typed_GetDelayedStates unmarshalJSONCommand.simps
        cmd_root_def read_GetStates_from read_GetDelayedStates_from)[1])+


text \<open>A root holds one command, after the contexts at the top.\<close>

definition root_json :: "json option \<Rightarrow> (string \<times> json) list \<Rightarrow> json" where
  "root_json p fs = JObj ((case p of None \<Rightarrow> [] | Some j \<Rightarrow> [(''stateCtxs'', j)]) @ fs)"

lemma root_json_jobj: "root_json p [(k, j)] = jobj [(''stateCtxs'', p), (k, Some j)]"
  by (cases p) (simp_all add: root_json_def jobj_def List.map_filter_simps)

lemma root_rt:
  assumes "cmd_rt s ctxs cmd" "fits jsonRootCommand ''stateCtxs'' p"
  obtains fs where "toJSONCommand s cmd = Ok fs" "json_typed (root_json p fs) SjsonRootCommand"
    "unmarshalJSONCommand ctxs (root_json p fs) = Ok (js_Command s cmd)"
    "jlist (root_json p fs) ''stateCtxs'' = (case p of Some (JArr js) \<Rightarrow> js | _ \<Rightarrow> [])"
proof -
  obtain k x where k: "toJSONCommand s cmd = Ok [(k, jobj x)]" "k \<in> set cmd_names"
      "json_typed (jobj x) (the (map_of jsonRootCommand k))"
    and read: "\<And>root. cmd_root root k (jobj x) \<Longrightarrow> unmarshalJSONCommand ctxs root = Ok (js_Command s cmd)"
    using assms(1) unfolding cmd_rt_def by blast
  have "set cmd_names \<subseteq> set (map fst jsonRootCommand)"
    by (simp add: cmd_names_def jsonRootCommand_def)
  with k have "fits jsonRootCommand k (Some (jobj x))" by auto
  then have typed: "json_typed (root_json p [(k, jobj x)]) SjsonRootCommand"
    unfolding root_json_jobj by (intro typed_jobj [where tags = jsonRootCommand]) (use assms(2) in simp_all)
  have "map fold_char ''stateCtxs'' \<notin> set (map (map fold_char) cmd_names)" by code_simp
  then have "map fold_char ''stateCtxs'' \<noteq> map fold_char k" using k(2) by (metis image_eqI set_map)
  then have "distinct (field_names [(''stateCtxs'', p), (k, Some (jobj x))])"
    unfolding field_names_def by (simp only: list.map comp_apply fst_conv distinct.simps set_simps) blast
  then have "jlist (root_json p [(k, jobj x)]) ''stateCtxs'' = (case p of Some (JArr js) \<Rightarrow> js | _ \<Rightarrow> [])"
    unfolding root_json_jobj by (simp add: jlist_jobj)
  then show ?thesis
    using that [OF k(1) typed] read [OF cmd_root_jobj [OF k(2), of "jobj x" p, folded root_json_jobj]] by simp
qed

lemma sub_commands_rt:
  assumes "\<And>cmd. cmd \<in> set cmds \<Longrightarrow> cmd_rt s ctxs cmd"
  shows "\<exists>js. toJSONCommands s cmds = Ok js \<and> (js = [] \<longleftrightarrow> cmds = []) \<and> list_all (\<lambda>j. json_typed j SjsonRootCommand) js
    \<and> traverse (\<lambda>sub. if sub = JNull then nil_deref else unmarshalJSONCommand ctxs sub) js = Ok (map (js_Command s) cmds)"
  using assms
proof (induction cmds)
  case (Cons cmd cmds)
  from Cons obtain js where js: "toJSONCommands s cmds = Ok js" "list_all (\<lambda>j. json_typed j SjsonRootCommand) js"
    "traverse (\<lambda>sub. if sub = JNull then nil_deref else unmarshalJSONCommand ctxs sub) js = Ok (map (js_Command s) cmds)"
    by auto
  have rt: "cmd_rt s ctxs cmd" using Cons.prems by simp
  obtain fs where fs: "toJSONCommand s cmd = Ok fs" "json_typed (root_json None fs) SjsonRootCommand"
    "unmarshalJSONCommand ctxs (root_json None fs) = Ok (js_Command s cmd)"
    by (rule root_rt [OF rt fits_simps(1)]) blast
  from fs js show ?case by (intro exI [of _ "root_json None fs # js"]) (simp add: root_json_def)
qed simp

lemma json_commit_rt:
  assumes "\<And>cmd. cmd \<in> set cmds \<Longrightarrow> cmd_rt s ctxs cmd"
  shows "cmd_rt s ctxs (CommitCmd cmds)"
proof -
  obtain js where js: "toJSONCommands s cmds = Ok js" "js = [] \<longleftrightarrow> cmds = []"
    "list_all (\<lambda>j. json_typed j SjsonRootCommand) js"
    "traverse (\<lambda>sub. if sub = JNull then nil_deref else unmarshalJSONCommand ctxs sub) js = Ok (map (js_Command s) cmds)"
    using sub_commands_rt [OF assms] by blast
  show ?thesis
  proof (rule cmd_rtI [where tags = jsonGenericCommand])
    show "toJSONCommand s (CommitCmd cmds) = Ok [(''commit'', jobj [(''commands'', if js = [] then None else Some (JArr js))])]"
      using js(1) by simp
    show "list_all (\<lambda>(k, v). fits jsonGenericCommand k v) [(''commands'', if js = [] then None else Some (JArr js))]"
      using js(3) by (simp add: jsonGenericCommand_def)
    show "unmarshalJSONCommand ctxs root = Ok (js_Command s (CommitCmd cmds))"
      if "cmd_root root ''commit'' (jobj [(''commands'', if js = [] then None else Some (JArr js))])" for root
    proof -
      have "jlist (jobj [(''commands'', if js = [] then None else Some (JArr js))]) ''commands'' = js"
        by (simp add: jlist_jobj)
      then show ?thesis
        using that js(4) by (subst unmarshalJSONCommand.simps) (simp add: cmd_root_def cmd_names_def)
    qed
  qed (simp_all add: cmd_names_def jsonRootCommand_def)
qed

lemma json_command_rt:
  "js_wf_Command cmd \<Longrightarrow> set (commandStateCtxs cmd) \<subseteq> set s \<Longrightarrow> int (length s) < 2 ^ 63 \<Longrightarrow> ctxs_ok s ctxs \<Longrightarrow> cmd_rt s ctxs cmd"
proof (induction cmd)
  case (CommitCmd cmds)
  then show ?case by (intro json_commit_rt) (auto simp: list_all_iff)
qed (simp_all add: ref_commands_rt read_commands_rt delay_rt ref_ok_def)


section \<open>UTF-8\<close>

definition utf8_DelayedState :: "DelayedState \<Rightarrow> bool" where
  "utf8_DelayedState ds \<longleftrightarrow> utf8_State (ds_State ds)"

fun utf8_Command :: "Command \<Rightarrow> bool" where
  "utf8_Command (TransitCmd cmd) = (utf8 (tr_To cmd) \<and> utf8_map (tr_Annotations cmd))"
| "utf8_Command (ParkCmd cmd) = utf8_map (pk_Annotations cmd)"
| "utf8_Command (DelayCmd cmd) = (utf8 (dl_To cmd) \<and> utf8_map (dl_Annotations cmd)
    \<and> (case dl_Result cmd of None \<Rightarrow> True | Some ds \<Rightarrow> utf8_DelayedState ds))"
| "utf8_Command (CommitCmd cmds) = list_all utf8_Command cmds"
| "utf8_Command (StackCmd cmd) = utf8 (st_Annotation cmd)"
| "utf8_Command (UnstackCmd cmd) = utf8 (un_Annotation cmd)"
| "utf8_Command (StoreDataCmd cmd) = utf8 (sd_Alias cmd)"
| "utf8_Command (GetDataCmd cmd) = utf8 (gd_Alias cmd)"
| "utf8_Command (GetStateByIDCmd cmd) = utf8 (gi_ID cmd)"
| "utf8_Command (GetStateByLabelsCmd cmd) = utf8_map (gl_Labels cmd)"
| "utf8_Command (GetStatesCmd cmd) = (list_all utf8_map (gs_Labels cmd)
    \<and> (case gs_Result cmd of None \<Rightarrow> True | Some r \<Rightarrow> list_all utf8_State (gsr_States r)))"
| "utf8_Command (GetDelayedStatesCmd cmd) =
    (case gt_Result cmd of None \<Rightarrow> True | Some r \<Rightarrow> list_all utf8_DelayedState (gdr_States r))"
| "utf8_Command _ = True"

lemma utf8_cmd_name: "ascii ''transit''" "ascii ''park''" "ascii ''execute''" "ascii ''delay''" "ascii ''commit''"
  "ascii ''noop''" "ascii ''stack''" "ascii ''unstack''" "ascii ''storeData''" "ascii ''getData''" "ascii ''getStateByID''"
  "ascii ''getStateByLabels''" "ascii ''getStates''" "ascii ''getDelayedStates''" "ascii ''stateRef''" "ascii ''flowId''"
  "ascii ''idx''" "ascii ''result''" "ascii ''commands''" "ascii ''stackedStateRef''" "ascii ''carrierStateRef''"
  "ascii ''annotation''" "ascii ''unstackStateRef''" "ascii ''alias''" "ascii ''sinceRev''" "ascii ''sinceTime_usec''"
  "ascii ''latestOnly''" "ascii ''limit''" "ascii ''states''" "ascii ''more''" "ascii ''sinceTimeSec''"
  "ascii ''untilTimeSec''" "ascii ''Result''" "ascii ''delayedStates''" "ascii ''stateCtxs''"
  by (simp_all add: ascii_def byte_def)

lemmas utf8_cmd_names [simp] = utf8_cmd_name [THEN utf8_ascii]

lemma json_utf8_DelayedState: "utf8_DelayedState ds \<Longrightarrow> json_utf8 (fromDelayedState ds)"
  by (simp add: fromDelayedState_def json_utf8_jobj json_utf8_State utf8_DelayedState_def)

lemma opt_utf8_more [simp]:
  "opt_utf8 (opt_time u t)" "(\<And>x. x \<in> set xs \<Longrightarrow> json_utf8 (f x)) \<Longrightarrow> opt_utf8 (opt_list f xs)"
  by (simp_all add: opt_time_def opt_list_def list_all_iff)

lemma opt_utf8_ref: "ref_json s p = Ok r \<Longrightarrow> opt_utf8 r"
  by (auto simp: ref_json_def obind_Ok_iff stateCtxs_strIdx_def opt_str_def json_utf8_jobj split: option.splits)

lemma json_utf8_map: "utf8_map m \<Longrightarrow> json_utf8 (map_json m)"
  by (cases m) (auto simp: map_json_def utf8_map_def list_all_iff)

lemma json_utf8_GetStates: "utf8_Command (GetStatesCmd cmd) \<Longrightarrow> json_utf8 (GetStates_json cmd)"
  by (cases "gs_Result cmd")
    (simp_all add: GetStates_json_def json_utf8_jobj json_utf8_State json_utf8_map list_all_iff)

lemma json_utf8_GetDelayedStates: "utf8_Command (GetDelayedStatesCmd cmd) \<Longrightarrow> json_utf8 (GetDelayedStates_json cmd)"
  by (cases "gt_Result cmd")
    (simp_all add: GetDelayedStates_json_def json_utf8_jobj json_utf8_DelayedState list_all_iff)

lemma wrap_err_is_Ok: "wrap_err m r = Ok x \<longleftrightarrow> r = Ok x"
  by (cases r) simp_all

lemma json_utf8_Command:
  "utf8_Command cmd \<Longrightarrow> toJSONCommand s cmd = Ok fs \<Longrightarrow> json_utf8 (JObj fs)"
  "list_all utf8_Command cmds \<Longrightarrow> toJSONCommands s cmds = Ok js \<Longrightarrow> list_all json_utf8 js"
proof (induction s cmd and s cmds arbitrary: fs and js rule: toJSONCommand_toJSONCommands.induct)
  case (4 s cmd)
  then show ?case
    by (cases "dl_Result cmd") (auto simp: obind_Ok_iff opt_utf8_ref json_utf8_jobj json_utf8_DelayedState)
qed (auto simp: obind_Ok_iff wrap_err_is_Ok opt_utf8_ref json_utf8_jobj json_utf8_GetStates json_utf8_GetDelayedStates
    simp del: utf8_Command.simps(11,12))

section \<open>The round trip\<close>

lemma ctxs_json_Ok:
  "list_all (\<lambda>a. \<exists>c. h a = Some c \<and> js_wf_StateCtx c) s \<Longrightarrow> ctxs_json h s = Ok (map (\<lambda>a. StateCtx_json (the (h a))) s)"
  by (induction s) (auto simp: fromStateCtx_Ok(1))

lemma read_ctxs_from:
  "list_all js_wf_StateCtx cs \<Longrightarrow> read_ctxs (map StateCtx_json cs) = Ok (map (\<lambda>c. Some (js_StateCtx c)) cs)"
  by (induction cs) (auto simp: toStateCtx_from fromStateCtx_Ok(6))

lemma json_Command_rt:
  assumes "js_wf_Command cmd" "utf8_Command cmd" "int (length (commandStateCtxs cmd)) < 2 ^ 63"
    and "list_all (\<lambda>a. \<exists>c. h a = Some c \<and> js_wf_StateCtx c \<and> utf8_StateCtx c) (commandStateCtxs cmd)"
  shows "\<exists>b. MarshalJSONCommand h cmd = Ok b
    \<and> UnmarshalJSONCommand b = Ok (js_Command (commandStateCtxs cmd) cmd,
        map (\<lambda>a. js_StateCtx (the (h a))) (commandStateCtxs cmd))"
proof -
  let ?s = "commandStateCtxs cmd" and ?cs = "map (\<lambda>a. the (h a)) (commandStateCtxs cmd)"
  let ?ctxs = "map (\<lambda>c. Some (js_StateCtx c)) ?cs" and ?js = "map StateCtx_json ?cs"
  let ?p = "if ?js = [] then None else Some (JArr ?js)"
  have cs: "list_all js_wf_StateCtx ?cs" "list_all utf8_StateCtx ?cs"
    using assms(4) by (auto simp: list_all_iff)
  have ctxs: "ctxs_json h ?s = Ok ?js"
    using assms(4) ctxs_json_Ok [of h ?s] by (auto simp: list_all_iff comp_def)
  have "fits jsonRootCommand ''stateCtxs'' ?p"
    using cs(1) by (auto simp: jsonRootCommand_def list_all_iff typed_StateCtx)
  moreover have "cmd_rt ?s ?ctxs cmd"
    by (rule json_command_rt [OF assms(1) subset_refl assms(3)]) (auto simp: ctxs_ok_def)
  ultimately obtain fs where fs: "toJSONCommand ?s cmd = Ok fs" "json_typed (root_json ?p fs) SjsonRootCommand"
    "unmarshalJSONCommand ?ctxs (root_json ?p fs) = Ok (js_Command ?s cmd)"
    "jlist (root_json ?p fs) ''stateCtxs'' = (case ?p of Some (JArr js) \<Rightarrow> js | _ \<Rightarrow> [])"
    using root_rt by blast
  define root where "root = root_json ?p fs"
  have ctxs_root: "jlist root ''stateCtxs'' = ?js"
    using fs(4) by (cases "?js = []") (simp_all add: root_def)
  have "json_utf8 (JArr ?js)"
    using cs by (auto simp: list_all_iff json_utf8_StateCtx)
  then have "json_utf8 root"
    using json_utf8_Command(1) [OF assms(2) fs(1)] by (simp add: root_def root_json_def)
  then have parse: "json_Unmarshal SjsonRootCommand (json_print root) = Ok root"
    using fs(2) by (simp add: json_Unmarshal_def json_parse_print root_def)
  have "MarshalJSONCommand h cmd = Ok (json_print root)"
    by (simp add: MarshalJSONCommand_def Let_def fs(1) ctxs root_def root_json_def)
  moreover have "UnmarshalJSONCommand (json_print root) = Ok (js_Command ?s cmd, map (\<lambda>a. js_StateCtx (the (h a))) ?s)"
    unfolding UnmarshalJSONCommand_def parse obind.simps ctxs_root read_ctxs_from [OF cs(1)] fs(3) [folded root_def]
    by simp
  ultimately show ?thesis by blast
qed

text \<open>
  C18: any command survives the trip through JSON, a commit with all its sub commands too. The contexts
  it points to arrive as JSON carries them, each pointer as the index of its context in the list; the
  maps come back with their entries sorted and the times cut to what the format keeps.
\<close>

theorem UnmarshalJSONCommand_MarshalJSONCommand:
  assumes "js_wf_Command cmd" "utf8_Command cmd" "int (length (commandStateCtxs cmd)) < 2 ^ 63"
    and "list_all (\<lambda>a. \<exists>c. h a = Some c \<and> js_wf_StateCtx c \<and> utf8_StateCtx c) (commandStateCtxs cmd)"
  shows "\<exists>b. MarshalJSONCommand h cmd = Ok b
    \<and> UnmarshalJSONCommand b = Ok (js_Command (commandStateCtxs cmd) cmd,
        map (\<lambda>a. js_StateCtx (the (h a))) (commandStateCtxs cmd))"
  by (rule json_Command_rt [OF assms])

theorem UnmarshalJSONCommand_MarshalJSONCommand_witness:
  "\<exists>b. MarshalJSONCommand [0 \<mapsto> binary_ctx] (CommitCmd [TransitCmd (Transit (Some 0) ''f''), NoopCmd]) = Ok b
    \<and> UnmarshalJSONCommand b = Ok (CommitCmd [TransitCmd (Transit (Some 0) ''f''), NoopCmd], [js_StateCtx binary_ctx])"
proof -
  let ?cmd = "CommitCmd [TransitCmd (Transit (Some 0) ''f''), NoopCmd]"
  define h where "h = [0 :: nat \<mapsto> binary_ctx]"
  have s: "commandStateCtxs ?cmd = [0]" by code_simp
  have h0: "h 0 = Some binary_ctx" by (simp add: h_def)
  have ok: "js_wf_Command ?cmd" "utf8_Command ?cmd" "js_wf_StateCtx binary_ctx" "utf8_StateCtx binary_ctx"
    by code_simp+
  have "int (length (commandStateCtxs ?cmd)) < 2 ^ 63"
    "list_all (\<lambda>a. \<exists>c. h a = Some c \<and> js_wf_StateCtx c \<and> utf8_StateCtx c) (commandStateCtxs ?cmd)"
    unfolding s using ok(3,4) h0 by simp_all
  from UnmarshalJSONCommand_MarshalJSONCommand [OF ok(1,2) this]
  have "\<exists>b. MarshalJSONCommand h ?cmd = Ok b \<and> UnmarshalJSONCommand b = Ok (?cmd, [js_StateCtx binary_ctx])"
    unfolding s by (simp add: h0 Transit_def pb_ref_def idx_of_def js_map_def)
  then show ?thesis by (simp only: h_def)
qed


section \<open>What panics\<close>

lemma transit_root_typed: "json_typed (JObj [(''transit'', JObj [(''stateRef'', JObj [(''idx'', JStr i)])])]) SjsonRootCommand"
  by (simp add: jsonRootCommand_def jsonGenericCommand_def jsonStateCtxRef_def same_name_def)

text \<open>
  A reference to a context that was not sent makes the decoder panic instead of returning an error,
  whatever its text: a number is used as an index without a bound check, and a text that is no number as
  the index -1.
\<close>

lemma UnmarshalJSONCommand_dangling_ref_panics:
  assumes "utf8 i"
  shows "UnmarshalJSONCommand (json_print (JObj [(''transit'', JObj [(''stateRef'', JObj [(''idx'', JStr i)])])]))
    = Panic ''runtime error: index out of range''"
proof -
  let ?ref = "JObj [(''idx'', JStr i)]" and ?j = "JObj [(''stateRef'', JObj [(''idx'', JStr i)])]"
  define root where "root = JObj [(''transit'', ?j)]"
  have "json_utf8 root" using assms by (simp add: root_def)
  then have parse: "json_Unmarshal SjsonRootCommand (json_print root) = Ok root"
    using transit_root_typed [of i, folded root_def] by (simp only: json_Unmarshal_def json_parse_print obind.simps if_True)
  have no_ctxs: "jlist root ''stateCtxs'' = []"
    by (simp add: root_def jlist_def jget_def same_name_def fold_char_def)
  have find: "stateCtxs_findStrIdx 0 i = Panic ''runtime error: index out of range''"
    by (auto simp: stateCtxs_findStrIdx_def stateCtxs_find_def split: option.splits prod.splits)
  have "jfield root ''transit'' = Some ?j" "jfield ?j ''stateRef'' = Some ?ref" "jstr ?ref ''idx'' = Some i"
    by (simp_all add: root_def jstr_def jget_def)
  then have "unmarshalJSONCommand [] root = Panic ''runtime error: index out of range''"
    by (subst unmarshalJSONCommand.simps) (simp add: find_ref_def find)
  then show ?thesis
    unfolding root_def [symmetric] UnmarshalJSONCommand_def parse obind.simps no_ctxs read_ctxs.simps by simp
qed

lemma UnmarshalJSONCommand_dangling_ref_panics_instance:
  "UnmarshalJSONCommand (json_print (JObj [(''transit'', JObj [(''stateRef'', JObj [(''idx'', JStr ''x'')])])]))
    = Panic ''runtime error: index out of range''"
  by (rule UnmarshalJSONCommand_dangling_ref_panics) code_simp

text \<open>A null command in a commit panics too, and so does a null transition or blob of a context.\<close>

lemma read_null_panics:
  "unmarshalJSONCommand ctxs (JObj [(''commit'', JObj [(''commands'', JArr [JNull])])]) = nil_deref"
  "toStateCtx (JObj [(''transitions'', JArr [JNull])]) c = nil_deref"
  "toStateCtx (JObj [(''datas'', JObj [(k, JNull)])]) c = nil_deref"
  by (subst unmarshalJSONCommand.simps,
      simp_all add: toStateCtx_def jlist_def jget_def same_name_def fold_char_def map_entries_def nil_deref_def)

end
