(* ===== verification/NetdriverJson.thy ===== *)
theory NetdriverJson
  imports NetdriverProps ProtojsonCmdProps
begin

text \<open>
  \<open>netdriver/server.go\<close> in JSON: the codec of the server is \<open>protojson.go\<close>; a request in JSON is answered in JSON.
\<close>

section \<open>The codec\<close>

definition marshalJSONError :: "string \<Rightarrow> string \<Rightarrow> string" where
  "marshalJSONError code message = json_print (JObj [(''code'', JStr code), (''message'', JStr message)])"

definition go_json :: json_codec where
  "go_json = \<lparr>js_UnmarshalCommand = UnmarshalJSONCommand, js_MarshalCommand = MarshalJSONCommand,
    js_UnmarshalStateCtx = (\<lambda>b. UnmarshalJSONStateCtx b StateCtx0), js_Error = marshalJSONError\<rparr>"

definition json_request :: "string \<Rightarrow> string \<Rightarrow> HttpRequest" where
  "json_request path b = \<lparr>rq_Path = path, rq_ContentType = ''application/json'', rq_Body = Ok b\<rparr>"

lemma json_request_simps [simp]:
  "rq_Path (json_request path b) = path" "\<not> is_proto (json_request path b)"
  by (simp_all add: json_request_def is_proto_def)

lemma readCmd_json:
  assumes "UnmarshalJSONCommand b = Ok (cmd, ctxs)" "as cmd = Some k"
  shows "readCmd lb go_json want as (json_request path b) = Ok (k, ctxs_heap ctxs)"
  using assms by (simp add: readCmd_def json_request_def go_json_def)

lemma writeCmd_json:
  assumes "MarshalJSONCommand h cmd = Ok b"
  shows "writeCmd lb go_json h cmd False = Ok \<lparr>rs_Status = 200, rs_ContentType = ''application/json'', rs_Body = b\<rparr>"
  using assms by (simp add: writeCmd_def go_json_def content_type_def)

lemma write_error_json:
  "write_error lb go_json status code message False
    = Ok \<lparr>rs_Status = status, rs_ContentType = ''application/json'', rs_Body = marshalJSONError code message\<rparr>"
  by (simp add: write_error_def go_json_def content_type_def)

lemma GetStates_json_arrives:
  assumes "js_wf_GetStates cmd" "utf8_Command (GetStatesCmd cmd)"
  obtains b where "MarshalJSONCommand h (GetStatesCmd cmd) = Ok b"
    "UnmarshalJSONCommand b = Ok (GetStatesCmd (js_GetStates cmd), [])"
  using json_Command_rt [of "GetStatesCmd cmd" h] assms by (auto simp del: utf8_Command.simps)

lemma HandleGetStates_json:
  assumes "UnmarshalJSONCommand b = Ok (GetStatesCmd cmd, [])"
  shows "HandleAll lb go_json now D (json_request ''/flowstate.v1.Driver/GetStates'' b) d
    = Some (case drv_GetStates D cmd d of
        (Ok cmd1, d1) \<Rightarrow> (writeCmd lb go_json (ctxs_heap []) (GetStatesCmd cmd1) False, d1)
      | (Err err, d1) \<Rightarrow> (Ok \<lparr>rs_Status = 500, rs_ContentType = ''application/json'',
          rs_Body = marshalJSONError ''unknown'' (error_text err)\<rparr>, d1)
      | (Panic p, d1) \<Rightarrow> (Panic p, d1))"
  by (simp add: HandleAll_at HandleGetStates_def Let_def readCmd_json [OF assms] LogCommand_def writeUnknownError_def
      write_error_json split: prod.split outcome.split)

section \<open>Properties\<close>

text \<open>
  A request for states that is posted in JSON reaches the driver as the command that was written, its
  maps sorted and its time cut to milliseconds; the page that the driver answers comes back in JSON with the
  status 200, and an error of the driver as a JSON object with the status 500.
\<close>

lemma HandleAll_json_GetStates:
  assumes "js_wf_GetStates cmd" "utf8_Command (GetStatesCmd cmd)"
  shows "\<exists>b. MarshalJSONCommand Map.empty (GetStatesCmd cmd) = Ok b
    \<and> (\<forall>cmd1 d1. drv_GetStates D (js_GetStates cmd) d = (Ok cmd1, d1) \<longrightarrow> js_wf_GetStates cmd1 \<longrightarrow>
        utf8_Command (GetStatesCmd cmd1) \<longrightarrow>
        (\<exists>b1. HandleAll lb go_json now D (json_request ''/flowstate.v1.Driver/GetStates'' b) d
            = Some (Ok \<lparr>rs_Status = 200, rs_ContentType = ''application/json'', rs_Body = b1\<rparr>, d1)
          \<and> UnmarshalJSONCommand b1 = Ok (GetStatesCmd (js_GetStates cmd1), [])))
    \<and> (\<forall>err d1. drv_GetStates D (js_GetStates cmd) d = (Err err, d1) \<longrightarrow>
        HandleAll lb go_json now D (json_request ''/flowstate.v1.Driver/GetStates'' b) d
          = Some (Ok \<lparr>rs_Status = 500, rs_ContentType = ''application/json'',
              rs_Body = marshalJSONError ''unknown'' (error_text err)\<rparr>, d1))"
proof -
  obtain b where b: "MarshalJSONCommand Map.empty (GetStatesCmd cmd) = Ok b"
    "UnmarshalJSONCommand b = Ok (GetStatesCmd (js_GetStates cmd), [])"
    using GetStates_json_arrives [OF assms] .
  have "\<exists>b1. HandleAll lb go_json now D (json_request ''/flowstate.v1.Driver/GetStates'' b) d
      = Some (Ok \<lparr>rs_Status = 200, rs_ContentType = ''application/json'', rs_Body = b1\<rparr>, d1)
    \<and> UnmarshalJSONCommand b1 = Ok (GetStatesCmd (js_GetStates cmd1), [])"
    if "drv_GetStates D (js_GetStates cmd) d = (Ok cmd1, d1)" "js_wf_GetStates cmd1" "utf8_Command (GetStatesCmd cmd1)" for cmd1 d1
  proof -
    note drv = that
    obtain b1 where "MarshalJSONCommand (ctxs_heap []) (GetStatesCmd cmd1) = Ok b1"
      "UnmarshalJSONCommand b1 = Ok (GetStatesCmd (js_GetStates cmd1), [])"
      using GetStates_json_arrives [OF drv(2,3)] .
    then show ?thesis unfolding HandleGetStates_json [OF b(2)] by (simp add: drv(1) writeCmd_json)
  qed
  then show ?thesis
    using b(1) by (intro exI [of _ b]) (auto simp: HandleGetStates_json [OF b(2)])
qed

lemma HandleAll_json_GetStates_instance:
  "\<exists>b cmd1 b1. MarshalJSONCommand Map.empty (GetStatesCmd all_states) = Ok b
    \<and> mem_GetStates (js_GetStates all_states) first_driver = Ok cmd1
    \<and> HandleAll wire_libs go_json 0 (memdriver_Driver wire_libs (\<lambda>_. True))
        (json_request ''/flowstate.v1.Driver/GetStates'' b) first_driver
      = Some (Ok \<lparr>rs_Status = 200, rs_ContentType = ''application/json'', rs_Body = b1\<rparr>, first_driver)
    \<and> UnmarshalJSONCommand b1 = Ok (GetStatesCmd (js_GetStates cmd1), [])"
proof -
  let ?D = "memdriver_Driver wire_libs (\<lambda>_. True)"
  have ok: "js_wf_GetStates all_states" "utf8_Command (GetStatesCmd all_states)" by code_simp+
  have "case mem_GetStates (js_GetStates all_states) first_driver of
      Ok cmd1 \<Rightarrow> js_wf_GetStates cmd1 \<and> utf8_Command (GetStatesCmd cmd1) | _ \<Rightarrow> False" by code_simp
  then obtain cmd1 where cmd1: "mem_GetStates (js_GetStates all_states) first_driver = Ok cmd1"
    "js_wf_GetStates cmd1" "utf8_Command (GetStatesCmd cmd1)" by (auto split: outcome.splits)
  then have "drv_GetStates ?D (js_GetStates all_states) first_driver = (Ok cmd1, first_driver)"
    by (simp add: memdriver_Driver_def)
  with HandleAll_json_GetStates [OF ok, of ?D first_driver wire_libs 0] cmd1 show ?thesis by blast
qed

end
