(* ===== verification/BadgerData.thy ===== *)
theory BadgerData
  imports BadgerDelayed ProtojsonProps
begin

text \<open>
  The blobs of the badger driver (\<open>badgerdriver/op.go\<close>, \<open>badgerdriver/driver.go\<close>): bytes under one key,
  annotations in JSON under another, both under a number of the sequence of the data revisions; and what a
  context that refers to a blob gets back.
\<close>

section \<open>Blobs in the store\<close>

definition setData :: "('db, 'txn, 'q) badger \<Rightarrow> 'txn \<Rightarrow> Data \<Rightarrow> 'txn outcome" where
  "setData B txn data =
    obind (wrap_err ''set data.Blob: '' (bd_Set B txn (dataBlobKey data) (blob_bytes (d_Blob data)))) (\<lambda>txn1.
    if gm_len (d_Annotations data) > 0
    then wrap_err ''set data.Annotations: '' (bd_Set B txn1 (dataAnnotationsKey data) (json_print (map_json (d_Annotations data))))
    else Ok txn1)"

definition ErrKeyNotFound :: error where
  "ErrKeyNotFound = Errorf ''Key not found''"

text \<open>\<open>item.ValueCopy(dst)\<close> appends to \<open>dst[:0]\<close>: nothing appended to nil is nil.\<close>

definition ValueCopy :: "string \<Rightarrow> string option \<Rightarrow> string option" where
  "ValueCopy val dst = (if val = [] \<and> dst = None then None else Some val)"

text \<open>The annotations are replaced when there are some, and stay as they are when there are none.\<close>

definition getData :: "('db, 'txn, 'q) badger \<Rightarrow> 'txn \<Rightarrow> Data \<Rightarrow> unit outcome \<times> Data" where
  "getData B txn data =
    (case bd_Get B txn (dataBlobKey data) of
       Err err \<Rightarrow> (Err (Errorw ''get data.Blob: '' err []), data)
     | Panic p \<Rightarrow> (Panic p, data)
     | Ok None \<Rightarrow> (Err (Errorw ''get data.Blob: '' ErrKeyNotFound []), data)
     | Ok (Some val) \<Rightarrow>
         (let data1 = data\<lparr>d_Blob := ValueCopy val (d_Blob data)\<rparr>
          in case bd_Get B txn (dataAnnotationsKey data1) of
               Err err \<Rightarrow> (Err (Errorw ''get data.Annotations: '' err []), data1)
             | Panic p \<Rightarrow> (Panic p, data1)
             | Ok None \<Rightarrow> (Ok (), data1)
             | Ok (Some val) \<Rightarrow>
                 (if val = [] then (Ok (), data1)
                  else case json_Unmarshal (SMap SStr) val of
                    Err err \<Rightarrow> (Err (Errorw ''copy data.Annotations: '' (Errorw ''unmarshal annotations: '' err []) []), data1)
                  | Panic p \<Rightarrow> (Panic p, data1)
                  | Ok j \<Rightarrow> (Ok (), data1\<lparr>d_Annotations := map_value j\<rparr>))))"

section \<open>The driver\<close>

definition bg_GetData ::
  "('db, 'txn, 'q) badger \<Rightarrow> GetDataCommand \<Rightarrow> heap \<Rightarrow> ('db, 'q) badgerdriver \<Rightarrow> unit outcome \<times> heap \<times> ('db, 'q) badgerdriver" where
  "bg_GetData B cmd h d =
    (case with_ctx h (gd_StateCtx cmd) (\<lambda>c.
       case MustData c (gd_Alias cmd) of
         Ok None \<Rightarrow> (nil_deref, c)
       | Ok (Some data) \<Rightarrow> (case getData B (bd_NewTransaction B (bg_db d)) data of
           (r, data1) \<Rightarrow> (r, SetData c (gd_Alias cmd) (Some data1)))
       | Err err \<Rightarrow> (Err err, c)
       | Panic p \<Rightarrow> (Panic p, c)) of (r, h1) \<Rightarrow> (r, h1, d))"

text \<open>The number is taken, and the revision of the blob set, also when the transaction fails.\<close>

definition bg_StoreData ::
  "('db, 'txn, 'q) badger \<Rightarrow> StoreDataCommand \<Rightarrow> heap \<Rightarrow> ('db, 'q) badgerdriver \<Rightarrow> unit outcome \<times> heap \<times> ('db, 'q) badgerdriver" where
  "bg_StoreData B cmd h d =
    (case deref h (sd_StateCtx cmd) of
       None \<Rightarrow> (nil_deref, h, d)
     | Some c \<Rightarrow>
         (case MustData c (sd_Alias cmd) of
            Err err \<Rightarrow> (Err err, h, d)
          | Panic p \<Rightarrow> (Panic p, h, d)
          | Ok None \<Rightarrow>
              (case bd_SeqNext B (bg_dataRevSeq d) of
                 (Err err, q) \<Rightarrow> (Err (Errorw ''get next sequence: '' err []), h, d\<lparr>bg_dataRevSeq := q\<rparr>)
               | (Panic p, q) \<Rightarrow> (Panic p, h, d\<lparr>bg_dataRevSeq := q\<rparr>)
               | (Ok nextRev, q) \<Rightarrow> (nil_deref, h, d\<lparr>bg_dataRevSeq := q\<rparr>))
          | Ok (Some data) \<Rightarrow>
              (case bd_SeqNext B (bg_dataRevSeq d) of
                 (Err err, q) \<Rightarrow> (Err (Errorw ''get next sequence: '' err []), h, d\<lparr>bg_dataRevSeq := q\<rparr>)
               | (Panic p, q) \<Rightarrow> (Panic p, h, d\<lparr>bg_dataRevSeq := q\<rparr>)
               | (Ok nextRev, q) \<Rightarrow>
                   (let data1 = data\<lparr>d_Rev := i64 (int nextRev)\<rparr>;
                        h1 = store h (sd_StateCtx cmd) (SetData c (sd_Alias cmd) (Some data1))
                    in case db_Update B (setData B (bd_NewTransaction B (bg_db d)) data1) (bg_db d) of
                         (r, db) \<Rightarrow> (r, h1, d\<lparr>bg_dataRevSeq := q, bg_db := db\<rparr>)))))"

text \<open>The driver with its own blobs, as the sub commands of its commits call it.\<close>

definition badger_driver_ops :: "('db, 'txn, 'q) badger \<Rightarrow> 'c libs \<Rightarrow> ('db, 'q) badgerdriver CommitDriver" where
  "badger_driver_ops B lb = badger_ops B lb (bg_GetData B) (bg_StoreData B)"


section \<open>What is read back\<close>

lemma data_keys [simp]:
  "dataBlobKey x \<noteq> dataAnnotationsKey y" "dataAnnotationsKey y \<noteq> dataBlobKey x"
  "dataBlobKey (x\<lparr>d_Blob := b\<rparr>) = dataBlobKey x" "dataAnnotationsKey (x\<lparr>d_Blob := b\<rparr>) = dataAnnotationsKey x"
  by (simp_all add: dataBlobKey_def dataAnnotationsKey_def)

lemma key_of_rev:
  "dataBlobKey x = dataBlobKey (Data0\<lparr>d_Rev := d_Rev x\<rparr>)" "dataAnnotationsKey x = dataAnnotationsKey (Data0\<lparr>d_Rev := d_Rev x\<rparr>)"
  by (simp_all add: dataBlobKey_def dataAnnotationsKey_def)

lemma annotations_read:
  assumes "gm_wf m" "utf8_map m" "m \<noteq> None"
  shows "json_Unmarshal (SMap SStr) (json_print (map_json m)) = Ok (map_json m)" "map_value (map_json m) = js_map m"
    "json_print (map_json m) \<noteq> []"
proof -
  obtain es where m: "m = Some es" using assms(3) by auto
  have "json_utf8 (map_json m)" using assms(2) by (auto simp: m map_json_def utf8_map_def list_all_iff)
  moreover have "json_typed (map_json m) (SMap SStr)" by (auto simp: m map_json_def list_all_iff)
  ultimately show "json_Unmarshal (SMap SStr) (json_print (map_json m)) = Ok (map_json m)"
    by (simp add: json_Unmarshal_def json_parse_print)
  show "map_value (map_json m) = js_map m" using assms(1,3) by (rule map_value_json)
  show "json_print (map_json m) \<noteq> []" by (simp add: m map_json_def)
qed

context badger_laws
begin

lemma setData_stored:
  assumes "db_Update B (setData B (bd_NewTransaction B db) x) db = (Ok (), db')" "gm_len (d_Annotations x) > 0"
  shows "map_of (stored db') = (map_of (stored db))(dataBlobKey x \<mapsto> blob_bytes (d_Blob x),
    dataAnnotationsKey x \<mapsto> json_print (map_json (d_Annotations x)))"
proof -
  obtain t where t: "setData B (bd_NewTransaction B db) x = Ok t" "bd_Commit B t db = Some db'"
    using assms(1) by (auto simp: db_Update_def split: outcome.splits option.splits)
  then obtain t1 where "bd_Set B (bd_NewTransaction B db) (dataBlobKey x) (blob_bytes (d_Blob x)) = Ok t1"
    "bd_Set B t1 (dataAnnotationsKey x) (json_print (map_json (d_Annotations x))) = Ok t"
    using assms(2) by (auto simp: setData_def obind_Ok_iff split: if_splits)
  from Set [OF this(1)] Set [OF this(2)] Commit [OF t(2)] show ?thesis
    by (simp add: NewTransaction(2))
qed

lemma getData_stored:
  assumes "map_of (stored db) (dataBlobKey y) = Some val" "gm_wf m" "utf8_map m" "m \<noteq> None"
    and "map_of (stored db) (dataAnnotationsKey y) = Some (json_print (map_json m))"
  shows "getData B (bd_NewTransaction B db) y
    = (Ok (), y\<lparr>d_Blob := ValueCopy val (d_Blob y), d_Annotations := js_map m\<rparr>)"
  using assms(1,5) annotations_read [OF assms(2-4)] by (simp add: getData_def Get NewTransaction(1))

end


section \<open>Properties\<close>

text \<open>
  C5: a blob stored in a commit gets its checksum and a number that no other blob has or will get, under
  which the context then refers to it, and nothing else in the store changes; any context that carries
  this reference and has nothing under the alias gets the same bytes and the same annotations back.
\<close>

theorem badger_store_get_data:
  assumes laws: "badger_laws B view stored writes start low"
    and "alias \<noteq> []" "deref h (Some a) = Some c" "wf_Data x" "utf8_map (d_Annotations x)"
    and "gm_lookup (sc_Datas c) alias = Some (Some x)" "0 \<le> d_Rev x" "isDirty (lib_Sum64 lb) x"
    and seq: "bd_SeqNext B (bg_dataRevSeq d) = (Ok n, q)" "n < 2 ^ 63"
    and ok: "DoCommitSubCommand lb (badger_driver_ops B lb) (StoreDataCmd (StoreData (Some a) alias)) h d = (Ok (), cmd, h1, d1)"
  shows "\<exists>rv c'. h1 = store h (Some a) c' \<and> dereferenceData c' alias = Ok rv
    \<and> int (low (bg_dataRevSeq d)) \<le> rv \<and> rv < int (low (bg_dataRevSeq d1))
    \<and> (\<forall>k. k \<noteq> dataBlobKey (Data0\<lparr>d_Rev := rv\<rparr>) \<longrightarrow> k \<noteq> dataAnnotationsKey (Data0\<lparr>d_Rev := rv\<rparr>) \<longrightarrow>
        map_of (stored (bg_db d1)) k = map_of (stored (bg_db d)) k)
    \<and> (\<forall>h2 b c2. deref h2 (Some b) = Some c2 \<longrightarrow> dereferenceData c2 alias = Ok rv
        \<longrightarrow> gm_lookup (sc_Datas c2) alias = None
        \<longrightarrow> (\<exists>y. DoCommitSubCommand lb (badger_driver_ops B lb) (GetDataCmd (GetData (Some b) alias)) h2 d1
              = (Ok (), GetDataCmd (GetData (Some b) alias), store h2 (Some b) (SetData c2 alias (Some y)), d1)
            \<and> d_Rev y = rv \<and> blob_bytes (d_Blob y) = blob_bytes (d_Blob x)
            \<and> (\<forall>k. gm_lookup (d_Annotations y) k = gm_lookup (d_Annotations (checksum (lib_Sum64 lb) x)) k)))"
proof -
  let ?rv = "int n" and ?x = "checksum (lib_Sum64 lb) x" and ?cmd = "StoreData (Some a) alias"
  let ?y = "?x\<lparr>d_Rev := ?rv\<rparr>" and ?c1 = "SetData c alias (Some ?x)"
  let ?c2 = "SetData ?c1 alias (Some ?y)"
  note x = checksum_annotations [OF assms(4,5), of "lib_Sum64 lb"]
  have rv: "i64 (int n) = int n" "in_i64 ?rv" using seq(2) by (simp_all add: in_i64_small)
  have prep: "StoreData_Prepare lb ?cmd h = (Ok True, store h (Some a) ?c1)"
    using assms(2-8) by (simp add: StoreData_Prepare_def StoreData_def with_ctx_def StateCtx_Data_def)
  obtain r db where up: "db_Update B (setData B (bd_NewTransaction B (bg_db d)) ?y) (bg_db d) = (r, db)" by fastforce
  have drv: "drv_StoreData (badger_driver_ops B lb) ?cmd (store h (Some a) ?c1) d
      = (r, store (store h (Some a) ?c1) (Some a) ?c2, d\<lparr>bg_dataRevSeq := q, bg_db := db\<rparr>)"
    using assms(2) seq(1) up
    by (simp add: badger_driver_ops_def badger_ops_def bg_StoreData_def StoreData_def MustData_def StateCtx_Data_def
        SetData_def rv)
  have post: "StoreData_post ?cmd (store h (Some a) ?c2)
      = (Ok (), store h (Some a) (referenceData ?c2 alias ?rv))"
    using assms(2) by (simp add: StoreData_post_def StoreData_def with_ctx_def MustData_def StateCtx_Data_def SetData_def)
  have r: "r = Ok ()" "h1 = store h (Some a) (referenceData ?c2 alias ?rv)" "d1 = d\<lparr>bg_dataRevSeq := q, bg_db := db\<rparr>"
    using ok by (auto simp: prep drv post split: outcome.splits)
  define z where "z = Data0\<lparr>d_Rev := ?rv\<rparr>"
  have keys: "dataBlobKey ?y = dataBlobKey z" "dataAnnotationsKey ?y = dataAnnotationsKey z"
    by (simp_all add: z_def dataBlobKey_def dataAnnotationsKey_def)
  have st: "map_of (stored db) = (map_of (stored (bg_db d)))(dataBlobKey z \<mapsto> blob_bytes (d_Blob x),
      dataAnnotationsKey z \<mapsto> json_print (map_json (d_Annotations ?x)))"
    using badger_laws.setData_stored [OF laws up [unfolded r(1)]] x(4,5) unfolding keys by simp
  define y where "y = z\<lparr>d_Blob := ValueCopy (blob_bytes (d_Blob x)) (d_Blob z), d_Annotations := js_map (d_Annotations ?x)\<rparr>"
  have get: "getData B (bd_NewTransaction B db) z = (Ok (), y)"
    unfolding y_def by (rule badger_laws.getData_stored [OF laws _ x(1-3)]) (simp_all add: st)
  have read: "DoCommitSubCommand lb (badger_driver_ops B lb) (GetDataCmd (GetData (Some b) alias)) h2 d1
      = (Ok (), GetDataCmd (GetData (Some b) alias), store h2 (Some b) (SetData c2 alias (Some y)), d1)"
    if "deref h2 (Some b) = Some c2" "dereferenceData c2 alias = Ok ?rv" "gm_lookup (sc_Datas c2) alias = None" for h2 b c2
  proof -
    have "GetData_Prepare (GetData (Some b) alias) h2 = (Ok True, store h2 (Some b) (SetData c2 alias (Some z)))"
      using that assms(2) by (simp add: GetData_Prepare_def GetData_def with_ctx_def StateCtx_Data_def z_def)
    moreover have "MustData (SetData c2 alias (Some z)) alias = Ok (Some z)"
      "SetData (SetData c2 alias (Some z)) alias (Some y) = SetData c2 alias (Some y)"
      using assms(2) by (simp add: MustData_def StateCtx_Data_def SetData_def, simp add: SetData_def gm_set_def)
    then have "drv_GetData (badger_driver_ops B lb) (GetData (Some b) alias) (store h2 (Some b) (SetData c2 alias (Some z))) d1
        = (Ok (), store h2 (Some b) (SetData c2 alias (Some y)), d1)"
      by (simp add: badger_driver_ops_def badger_ops_def bg_GetData_def GetData_def with_ctx_def r(3) get)
    ultimately show ?thesis by simp
  qed
  have y: "d_Rev y = ?rv" "blob_bytes (d_Blob y) = blob_bytes (d_Blob x)"
    "gm_lookup (d_Annotations y) k = gm_lookup (d_Annotations ?x) k" for k
    using gm_lookup_js_map [OF x(1)] by (simp_all add: y_def z_def ValueCopy_def blob_bytes_def)
  have low: "low (bg_dataRevSeq d) \<le> n \<and> n < low q" using badger_laws.SeqNext [OF laws seq(1)] by simp
  have ref: "dereferenceData (referenceData ?c2 alias ?rv) alias = Ok ?rv"
    using assms(2) rv(2) by (rule dereference_reference)
  show ?thesis
  proof (intro exI [of _ ?rv] exI [of _ "referenceData ?c2 alias ?rv"] conjI allI impI)
    show "\<exists>y. DoCommitSubCommand lb (badger_driver_ops B lb) (GetDataCmd (GetData (Some b) alias)) h2 d1
          = (Ok (), GetDataCmd (GetData (Some b) alias), store h2 (Some b) (SetData c2 alias (Some y)), d1)
        \<and> d_Rev y = ?rv \<and> blob_bytes (d_Blob y) = blob_bytes (d_Blob x)
        \<and> (\<forall>k. gm_lookup (d_Annotations y) k = gm_lookup (d_Annotations ?x) k)"
      if "deref h2 (Some b) = Some c2" "dereferenceData c2 alias = Ok ?rv" "gm_lookup (sc_Datas c2) alias = None" for h2 b c2
      using read [OF that] y by blast
  qed (use r(2,3) ref low st in \<open>simp_all add: z_def [symmetric]\<close>)
qed

definition blob_ctx :: StateCtx where
  "blob_ctx = (new_ctx ''a'')\<lparr>sc_Datas := Some [(''x'', Some (Data0\<lparr>d_Blob := Some [CHR 0xFF], d_Annotations := Some [(''k'', ''v'')]\<rparr>))]\<rparr>"

theorem badger_store_get_data_witness:
  "\<exists>cmd c' d1 rv. DoCommitSubCommand wire_libs (badger_driver_ops tree_badger wire_libs) (StoreDataCmd (StoreData (Some 0) ''x''))
      [0 \<mapsto> blob_ctx] empty_driver = (Ok (), cmd, store [0 \<mapsto> blob_ctx] (Some 0) c', d1)
    \<and> dereferenceData c' ''x'' = Ok rv
    \<and> (\<exists>y. DoCommitSubCommand wire_libs (badger_driver_ops tree_badger wire_libs) (GetDataCmd (GetData (Some 0) ''x''))
          [0 \<mapsto> c'\<lparr>sc_Datas := None\<rparr>] d1 = (Ok (), GetDataCmd (GetData (Some 0) ''x''),
            store [0 \<mapsto> c'\<lparr>sc_Datas := None\<rparr>] (Some 0) (SetData (c'\<lparr>sc_Datas := None\<rparr>) ''x'' (Some y)), d1)
        \<and> d_Rev y = rv \<and> blob_bytes (d_Blob y) = [CHR 0xFF] \<and> gm_lookup (d_Annotations y) ''k'' = Some ''v'')"
proof -
  let ?x = "Data0\<lparr>d_Blob := Some [CHR 0xFF], d_Annotations := Some [(''k'', ''v'')]\<rparr>"
  let ?r = "DoCommitSubCommand wire_libs (badger_driver_ops tree_badger wire_libs) (StoreDataCmd (StoreData (Some 0) ''x''))
      [0 \<mapsto> blob_ctx] empty_driver"
  obtain r cmd h1 d1 where run: "?r = (r, cmd, h1, d1)" by (cases ?r)
  have "fst ?r = Ok ()" by code_simp
  then have "r = Ok ()" unfolding run by simp
  with run have ok: "?r = (Ok (), cmd, h1, d1)" by (simp only:)
  have pre: "''x'' \<noteq> []" "deref [0 \<mapsto> blob_ctx] (Some 0) = Some blob_ctx" "wf_Data ?x" "utf8_map (d_Annotations ?x)"
    "gm_lookup (sc_Datas blob_ctx) ''x'' = Some (Some ?x)" "0 \<le> d_Rev ?x" "isDirty (lib_Sum64 wire_libs) ?x"
    "bd_SeqNext tree_badger (bg_dataRevSeq empty_driver) = (Ok 1, 2)" "(1 :: nat) < 2 ^ 63"
    by (simp add: deref_def | code_simp)+
  have x: "blob_bytes (d_Blob ?x) = [CHR 0xFF]" "gm_lookup (d_Annotations (checksum (lib_Sum64 wire_libs) ?x)) ''k'' = Some ''v''"
    by code_simp+
  from badger_store_get_data [OF tree.badger_laws_axioms pre ok] obtain rv c' where
    st: "h1 = store [0 \<mapsto> blob_ctx] (Some 0) c'" "dereferenceData c' ''x'' = Ok rv"
    and get: "\<And>h2 b c2. deref h2 (Some b) = Some c2 \<Longrightarrow> dereferenceData c2 ''x'' = Ok rv \<Longrightarrow> gm_lookup (sc_Datas c2) ''x'' = None \<Longrightarrow>
      \<exists>y. DoCommitSubCommand wire_libs (badger_driver_ops tree_badger wire_libs) (GetDataCmd (GetData (Some b) ''x'')) h2 d1
          = (Ok (), GetDataCmd (GetData (Some b) ''x''), store h2 (Some b) (SetData c2 ''x'' (Some y)), d1)
        \<and> d_Rev y = rv \<and> blob_bytes (d_Blob y) = blob_bytes (d_Blob ?x)
        \<and> (\<forall>k. gm_lookup (d_Annotations y) k = gm_lookup (d_Annotations (checksum (lib_Sum64 wire_libs) ?x)) k)"
    by (elim exE conjE) (rule that, assumption, assumption, iprover)
  let ?c = "c'\<lparr>sc_Datas := None\<rparr>"
  have "deref [0 \<mapsto> ?c] (Some 0) = Some ?c" "dereferenceData ?c ''x'' = Ok rv" "gm_lookup (sc_Datas ?c) ''x'' = None"
    using st(2) by (simp_all add: deref_def dereferenceData_def)
  from get [OF this] obtain y where y: "DoCommitSubCommand wire_libs (badger_driver_ops tree_badger wire_libs)
        (GetDataCmd (GetData (Some 0) ''x'')) [0 \<mapsto> ?c] d1
      = (Ok (), GetDataCmd (GetData (Some 0) ''x''), store [0 \<mapsto> ?c] (Some 0) (SetData ?c ''x'' (Some y)), d1)"
    "d_Rev y = rv" "blob_bytes (d_Blob y) = blob_bytes (d_Blob ?x)"
    "gm_lookup (d_Annotations y) ''k'' = gm_lookup (d_Annotations (checksum (lib_Sum64 wire_libs) ?x)) ''k''" by blast
  show ?thesis
    by (intro exI conjI, rule ok [unfolded st(1)], rule st(2), rule y(1), rule y(2), rule y(3) [unfolded x(1)],
      rule y(4) [unfolded x(2)])
qed

end
