(* ===== verification/Pgdriver.thy ===== *)
theory Pgdriver
  imports Cachedriver ProtojsonCmd Http
begin

text \<open>
  \<open>pgdriver\<close>: the driver that keeps its log in PostgreSQL. The tables of \<open>migrations.go\<close> are lists of rows;
  a statement of the source is the function on the tables that it stands for.
\<close>

section \<open>The tables\<close>

text \<open>
  \<open>pr_xid\<close> is the \<open>xmin\<close> of a row: the transaction that wrote it. \<open>pg_states\<close> and \<open>pg_latest\<close> hold what has
  been committed, \<open>pg_active\<close> the transactions that run, \<open>pg_xid\<close> is the next transaction. \<open>pg_faults\<close> is
  what goes wrong on the way, an entry per statement: it is not run, or it is run and its answer is lost.
\<close>

datatype pg_fault = Refused error | Lost error

record pg_row =
  pr_xid :: nat
  pr_rev :: int
  pr_id :: string
  pr_state :: json
  pr_labels :: strmap

record pg_delayed_row =
  pd_xid :: nat
  pd_execute_at :: int
  pd_state :: json
  pd_pos :: int

record pg_data_row =
  pa_rev :: int
  pa_annotations :: strmap
  pa_b :: "string option"

record pg_db =
  pg_states :: "pg_row list"
  pg_latest :: "string \<rightharpoonup> int"
  pg_delayed :: "pg_delayed_row list"
  pg_data :: "pg_data_row list"
  pg_revSeq :: int
  pg_posSeq :: int
  pg_dataSeq :: int
  pg_xid :: nat
  pg_active :: "nat list"
  pg_faults :: "pg_fault option list"

definition Migrations :: pg_db where
  "Migrations = \<lparr>pg_states = [], pg_latest = Map.empty, pg_delayed = [], pg_data = [],
    pg_revSeq = 1, pg_posSeq = 1, pg_dataSeq = 1, pg_xid = 1, pg_active = [], pg_faults = []\<rparr>"

section \<open>What the statements use of PostgreSQL\<close>

definition ErrNoRows :: error where
  "ErrNoRows = Errorf ''no rows in result set''"

definition ErrUniqueLatest :: error where
  "ErrUniqueLatest = Errorf
    ''ERROR: duplicate key value violates unique constraint flowstate_latest_states_pkey (SQLSTATE 23505)''"

text \<open>\<open>keep\<close> is what is left when the statement is not run.\<close>

definition pg_exec :: "(pg_db \<Rightarrow> 'r) \<Rightarrow> (pg_db \<Rightarrow> 'a outcome \<times> 'r) \<Rightarrow> pg_db \<Rightarrow> 'a outcome \<times> 'r" where
  "pg_exec keep stmt d =
    (case pg_faults d of
       [] \<Rightarrow> stmt d
     | f # fs \<Rightarrow>
         (let d1 = d\<lparr>pg_faults := fs\<rparr>
          in case f of
               None \<Rightarrow> stmt d1
             | Some (Refused err) \<Rightarrow> (Err err, keep d1)
             | Some (Lost err) \<Rightarrow> (Err err, snd (stmt d1))))"

definition nextval :: "int \<Rightarrow> int outcome" where
  "nextval n = (if n < 2 ^ 63 then Ok n else Err (Errorf ''nextval: reached maximum value of sequence''))"

text \<open>A value of type \<open>text\<close> is UTF-8 without NUL, and so are the strings of a value of type \<open>jsonb\<close>.\<close>

definition pg_text :: "string \<Rightarrow> unit outcome" where
  "pg_text s = (if utf8 s \<and> CHR 0x00 \<notin> set s then Ok () else Err (Errorf ''invalid byte sequence for encoding UTF8''))"

fun json_nul :: "json \<Rightarrow> bool" where
  "json_nul (JStr s) = (CHR 0x00 \<in> set s)"
| "json_nul (JArr js) = list_ex json_nul js"
| "json_nul (JObj fs) = list_ex (\<lambda>(k, v). CHR 0x00 \<in> set k \<or> json_nul v) fs"
| "json_nul _ = False"

definition jsonb :: "string \<Rightarrow> json outcome" where
  "jsonb t = obind (json_parse t) (\<lambda>j.
    if json_nul j then Err (Errorf ''unsupported Unicode escape sequence'') else Ok j)"

text \<open>A Go map, of which nil is \<open>NULL\<close>.\<close>

definition jsonb_map :: "strmap \<Rightarrow> strmap outcome" where
  "jsonb_map m = (if m = None then Ok None else obind (jsonb (json_print (map_json m))) (\<lambda>j. Ok (map_value j)))"

text \<open>\<open>labels @> arg\<close>, which is not true when one of the two is \<open>NULL\<close>.\<close>

definition labels_contain :: "strmap \<Rightarrow> strmap \<Rightarrow> bool" where
  "labels_contain labels arg =
    (case (labels, arg) of
       (Some ls, Some as) \<Rightarrow> list_all (\<lambda>(k, v). map_of ls k = Some v) as
     | _ \<Rightarrow> False)"

text \<open>\<open>t::boolean\<close>: the words, in any case, and their prefixes.\<close>

definition pg_bool :: "string \<Rightarrow> bool outcome" where
  "pg_bool t =
    (let w = map fold_char (TrimSpace t); starts = (\<lambda>x. w \<noteq> [] \<and> HasPrefix (map fold_char x) w)
     in if starts ''true'' \<or> starts ''yes'' \<or> w = map fold_char ''on'' \<or> w = ''1'' then Ok True
        else if starts ''false'' \<or> starts ''no'' \<or> (starts ''off'' \<and> length w > 1) \<or> w = ''0'' then Ok False
        else Err (Errorf ''invalid input syntax for type boolean''))"

text \<open>\<open>bytea\<close> as text, in the format \<open>hex\<close>.\<close>

definition hex_text :: "string \<Rightarrow> string" where
  "hex_text b = CHR 0x5C # CHR ''x'' # concat (map (\<lambda>c. [hex_char (byte c div 16), hex_char (byte c mod 16)]) b)"

fun unhex :: "string \<Rightarrow> string option" where
  "unhex [] = Some []"
| "unhex (x # y # s) =
    (case (hex_val x, hex_val y, unhex s) of
       (Some a, Some b, Some bs) \<Rightarrow> Some (char_of (16 * a + b) # bs)
     | _ \<Rightarrow> None)"
| "unhex _ = None"

definition pg_bytea :: "string \<Rightarrow> string outcome" where
  "pg_bytea t =
    (case (if take 2 t = [CHR 0x5C, CHR ''x''] then unhex (drop 2 t) else None) of
       Some b \<Rightarrow> Ok b
     | None \<Rightarrow> Err (Errorf ''invalid input syntax for type bytea''))"

text \<open>
  \<open>pg_current_snapshot()\<close> yields the oldest transaction that still runs and the first one that has not been
  taken; the filter of the reads lets through the rows of transactions before the one or behind the other.
\<close>

definition snapshot_xmin :: "pg_db \<Rightarrow> nat" where
  "snapshot_xmin d = fold min (pg_active d) (pg_xid d)"

definition settled :: "pg_db \<Rightarrow> nat \<Rightarrow> bool" where
  "settled d xid \<longleftrightarrow> xid < snapshot_xmin d \<or> xid > pg_xid d"

text \<open>A transaction gets its number with its first write; it sees its own writes.\<close>

record pg_tx =
  tx_xid :: "nat option"
  tx_rows :: "pg_row list"
  tx_latest :: "string \<rightharpoonup> int"

definition BeginTx :: pg_tx where
  "BeginTx = \<lparr>tx_xid = None, tx_rows = [], tx_latest = Map.empty\<rparr>"

definition tx_assign :: "pg_tx \<Rightarrow> pg_db \<Rightarrow> nat \<times> pg_tx \<times> pg_db" where
  "tx_assign tx d =
    (case tx_xid tx of
       Some x \<Rightarrow> (x, tx, d)
     | None \<Rightarrow> (pg_xid d, tx\<lparr>tx_xid := Some (pg_xid d)\<rparr>, d\<lparr>pg_xid := Suc (pg_xid d), pg_active := pg_xid d # pg_active d\<rparr>))"

definition tx_end :: "pg_tx \<Rightarrow> pg_db \<Rightarrow> pg_db" where
  "tx_end tx d = (case tx_xid tx of None \<Rightarrow> d | Some x \<Rightarrow> d\<lparr>pg_active := remove1 x (pg_active d)\<rparr>)"

definition tx_Rollback :: "pg_tx \<Rightarrow> pg_db \<Rightarrow> pg_db" where
  "tx_Rollback tx d = tx_end tx d"

definition tx_Commit :: "pg_tx \<Rightarrow> pg_db \<Rightarrow> unit outcome \<times> pg_db" where
  "tx_Commit tx d = pg_exec (tx_end tx) (\<lambda>d1. (Ok (),
     tx_end tx (d1\<lparr>pg_states := pg_states d1 @ tx_rows tx, pg_latest := pg_latest d1 ++ tx_latest tx\<rparr>))) d"

text \<open>A statement outside a transaction is a transaction of its own.\<close>

definition auto_xid :: "pg_db \<Rightarrow> nat \<times> pg_db" where
  "auto_xid d = (pg_xid d, d\<lparr>pg_xid := Suc (pg_xid d)\<rparr>)"

section \<open>Statements that write\<close>

text \<open>The latest revision of an id as a transaction sees it.\<close>

definition latest_in :: "pg_tx \<Rightarrow> pg_db \<Rightarrow> string \<rightharpoonup> int" where
  "latest_in tx d = pg_latest d ++ tx_latest tx"

text \<open>\<open>INSERT INTO flowstate_states ... RETURNING rev\<close>, after the latest revision has been written.\<close>

definition put_row :: "pg_tx \<Rightarrow> State \<Rightarrow> json \<Rightarrow> strmap \<Rightarrow> pg_db \<Rightarrow> State outcome \<times> pg_tx \<times> pg_db" where
  "put_row tx s state labels d =
    (case tx_assign tx d of
       (xid, tx1, d1) \<Rightarrow>
         (case nextval (pg_revSeq d1) of
            Ok nextRev \<Rightarrow>
              (Ok (s\<lparr>s_Rev := nextRev\<rparr>),
               tx1\<lparr>tx_rows := tx_rows tx1 @ [\<lparr>pr_xid = xid, pr_rev = nextRev, pr_id = s_ID s, pr_state = state, pr_labels = labels\<rparr>],
                 tx_latest := (tx_latest tx1)(s_ID s \<mapsto> nextRev)\<rparr>,
               d1\<lparr>pg_revSeq := pg_revSeq d1 + 1\<rparr>)
          | Err err \<Rightarrow> (Err err, tx1, d1)
          | Panic p \<Rightarrow> (Panic p, tx1, d1)))"

text \<open>The arguments of a statement on states: the id, the state and its labels.\<close>

definition state_args :: "State \<Rightarrow> (json \<times> strmap) outcome" where
  "state_args s =
    obind (pg_text (s_ID s)) (\<lambda>_. obind (jsonb (State_MarshalJSON s)) (\<lambda>j. obind (jsonb_map (s_Labels s)) (\<lambda>m. Ok (j, m))))"

text \<open>
  The number of the sequence is gone also when the id is a duplicate. In PostgreSQL a statement waits while
  another transaction has written the latest revision of its id; the interleavings of the model are those in which
  none waits.
\<close>

definition InsertState :: "pg_tx \<Rightarrow> State \<Rightarrow> pg_db \<Rightarrow> State outcome \<times> pg_tx \<times> pg_db" where
  "InsertState tx s d =
    (if s_ID s = [] then (Err (Errorf ''id is empty''), tx, d)
     else if s_Rev s \<noteq> 0 then (Err (Errorf ''rev is not empty''), tx, d)
     else pg_exec (Pair tx) (\<lambda>d1.
       case state_args s of
         Err err \<Rightarrow> (Err err, tx, d1)
       | Panic p \<Rightarrow> (Panic p, tx, d1)
       | Ok (state, labels) \<Rightarrow>
           (case put_row tx s state labels d1 of
              (r, tx1, d2) \<Rightarrow>
                if latest_in tx d1 (s_ID s) \<noteq> None then (obind r (\<lambda>_. Err ErrUniqueLatest), tx\<lparr>tx_xid := tx_xid tx1\<rparr>, d2) else (r, tx1, d2))) d)"

definition UpdateState :: "pg_tx \<Rightarrow> State \<Rightarrow> pg_db \<Rightarrow> State outcome \<times> pg_tx \<times> pg_db" where
  "UpdateState tx s d =
    (if s_ID s = [] then (Err (Errorf ''id is empty''), tx, d)
     else if s_Rev s = 0 then (Err (Errorf ''rev is empty''), tx, d)
     else pg_exec (Pair tx) (\<lambda>d1.
       case state_args s of
         Err err \<Rightarrow> (Err err, tx, d1)
       | Panic p \<Rightarrow> (Panic p, tx, d1)
       | Ok (state, labels) \<Rightarrow>
           if latest_in tx d1 (s_ID s) \<noteq> Some (s_Rev s) then (Err ErrNoRows, tx, d1)
           else put_row tx s state labels d1) d)"

definition InsertDelayedState :: "State \<Rightarrow> time \<Rightarrow> pg_db \<Rightarrow> unit outcome \<times> pg_db" where
  "InsertDelayedState s executeAt d =
    (if s_ID s = [] then (Err (Errorf ''id is empty''), d)
     else if IsZero executeAt then (Err (Errorf ''execute at is zero''), d)
     else case pg_exec id (\<lambda>d1.
         case obind (jsonb (State_MarshalJSON s)) (\<lambda>state. obind (nextval (pg_posSeq d1)) (\<lambda>pos. Ok (state, pos))) of
           Err err \<Rightarrow> (Err err, d1)
         | Panic p \<Rightarrow> (Panic p, d1)
         | Ok (state, pos) \<Rightarrow>
             (case auto_xid d1 of (xid, d2) \<Rightarrow>
               (Ok (), d2\<lparr>pg_posSeq := pg_posSeq d2 + 1, pg_delayed := pg_delayed d2 @
                 [\<lparr>pd_xid = xid, pd_execute_at = Unix executeAt, pd_state = state, pd_pos = pos\<rparr>]\<rparr>))) d of
       (r, d1) \<Rightarrow> (wrap_err ''db: insert delay log: '' r, d1))"

text \<open>
  Bytes that are marked binary are kept in base64, others in hex. The lines into which \<open>encode\<close> breaks its
  text are left out, as \<open>decode\<close> skips their ends.
\<close>

definition InsertData :: "Data \<Rightarrow> pg_db \<Rightarrow> Data outcome \<times> pg_db" where
  "InsertData data d = pg_exec id (\<lambda>d1.
     case obind (jsonb_map (d_Annotations data)) (\<lambda>m. obind (nextval (pg_dataSeq d1)) (\<lambda>rev. Ok (m, rev))) of
       Err err \<Rightarrow> (Err err, d1)
     | Panic p \<Rightarrow> (Panic p, d1)
     | Ok (annotations, nextRev) \<Rightarrow>
         (Ok (data\<lparr>d_Rev := nextRev\<rparr>), d1\<lparr>pg_dataSeq := pg_dataSeq d1 + 1, pg_data := pg_data d1 @
           [\<lparr>pa_rev = nextRev, pa_annotations = annotations,
             pa_b = map_option (if IsBinary data then b64_encode else hex_text) (d_Blob data)\<rparr>]\<rparr>)) d"

section \<open>Statements that read\<close>

text \<open>\<open>Scan\<close> of a state and of its revision.\<close>

definition scan_state :: "json \<Rightarrow> int \<Rightarrow> State outcome" where
  "scan_state j rv = obind (toState j State0) (\<lambda>s. Ok (s\<lparr>s_Rev := rv\<rparr>))"

definition q_GetStateByID :: "string \<Rightarrow> int \<Rightarrow> pg_db \<Rightarrow> State outcome \<times> pg_db" where
  "q_GetStateByID stateID rv d =
    (if stateID = [] then (Err (Errorf ''id is empty''), d)
     else pg_exec id (\<lambda>d1. (obind (pg_text stateID) (\<lambda>_.
       case find (\<lambda>row. pr_id row = stateID
           \<and> (if rv \<le> 0 then pg_latest d1 stateID = Some (pr_rev row) else pr_rev row = rv)) (pg_states d1) of
         None \<Rightarrow> Err ErrNoRows
       | Some row \<Rightarrow> scan_state (pr_state row) (pr_rev row)), d1)) d)"

text \<open>
  The statement that \<open>getStatesByLabelsWithFromStatement\<close> puts together: \<open>latest\<close> is the statement with the
  join, \<open>n\<close> the length of \<open>ss\<close>. The page is cut first and filtered by the snapshot then.
\<close>

definition row_labels :: "strmap list \<Rightarrow> pg_row \<Rightarrow> bool" where
  "row_labels orLabels row \<longleftrightarrow> orLabels = [] \<or> list_ex (labels_contain (pr_labels row)) orLabels"

definition row_since :: "strmap list \<Rightarrow> int \<Rightarrow> pg_db \<Rightarrow> pg_row \<Rightarrow> bool" where
  "row_since orLabels sinceRev d row \<longleftrightarrow>
    (if sinceRev \<ge> 0 then pr_rev row > sinceRev
     else list_all (\<lambda>r. pr_rev row \<ge> pr_rev r) (filter (row_labels orLabels) (pg_states d))
       \<and> filter (row_labels orLabels) (pg_states d) \<noteq> [])"

definition row_time :: "time \<Rightarrow> pg_row \<Rightarrow> bool" where
  "row_time sinceTime row \<longleftrightarrow>
    IsZero sinceTime
    \<or> (case jstr (pr_state row) ''committedAtUnixMilli'' of
         None \<Rightarrow> False | Some t \<Rightarrow> fst (ParseInt t) \<ge> UnixMilli sinceTime)"

definition page_rows :: "bool \<Rightarrow> strmap list \<Rightarrow> int \<Rightarrow> time \<Rightarrow> nat \<Rightarrow> pg_db \<Rightarrow> pg_row list" where
  "page_rows latest orLabels sinceRev sinceTime n d =
    filter (settled d \<circ> pr_xid) (take n (sort_key pr_rev (filter (\<lambda>row.
      (latest \<longrightarrow> pg_latest d (pr_id row) = Some (pr_rev row))
      \<and> row_labels orLabels row \<and> row_since orLabels sinceRev d row \<and> row_time sinceTime row) (pg_states d))))"

definition getStatesByLabels ::
  "bool \<Rightarrow> strmap list \<Rightarrow> int \<Rightarrow> time \<Rightarrow> nat \<Rightarrow> pg_db \<Rightarrow> State list outcome \<times> pg_db" where
  "getStatesByLabels latest orLabels sinceRev sinceTime n d =
    (if n = 0 then (Err (Errorf ''states slice len must be greater than 0''), d)
     else case pg_exec id (\<lambda>d1. (obind (traverse jsonb_map orLabels)
         (\<lambda>orLabels1. Ok (page_rows latest orLabels1 sinceRev sinceTime n d1)), d1)) d of
       (r, d1) \<Rightarrow> (obind (wrap_err ''query: '' r) (\<lambda>rows.
         wrap_err ''scan: '' (traverse (\<lambda>row. scan_state (pr_state row) (pr_rev row)) rows)), d1))"

definition q_GetDelayedStates :: "int \<Rightarrow> int \<Rightarrow> int \<Rightarrow> int \<Rightarrow> pg_db \<Rightarrow> DelayedState list outcome \<times> pg_db" where
  "q_GetDelayedStates since until offset limit d =
    (if since = 0 then (Err (Errorf ''since is empty''), d)
     else if until = 0 then (Err (Errorf ''until is empty''), d)
     else if limit = 0 then (Err (Errorf ''limit is empty''), d)
     else case pg_exec id (\<lambda>d1. (if limit < 0 then Err (Errorf ''LIMIT must not be negative'')
         else Ok (filter (settled d1 \<circ> pd_xid) (take (nat limit) (sort_key pd_execute_at (sort_key pd_pos (filter (\<lambda>row.
           since < pd_execute_at row \<and> pd_execute_at row \<le> until \<and> offset < pd_pos row) (pg_delayed d1)))))), d1)) d of
       (r, d1) \<Rightarrow> (obind r (traverse (\<lambda>row. obind (toState (pd_state row) State0) (\<lambda>s.
         Ok \<lparr>ds_State = s, ds_Offset = pd_pos row, ds_ExecuteAt = time_Unix (pd_execute_at row) 0\<rparr>))), d1))"

text \<open>Whether the bytes are base64 is told by the cast of an annotation, not by \<open>IsBinary\<close>.\<close>

definition row_bytes :: "pg_data_row \<Rightarrow> string option outcome" where
  "row_bytes row =
    obind (case map_option (\<lambda>m. map_of m ''binary'') (pa_annotations row) of
        Some (Some t) \<Rightarrow> pg_bool t | _ \<Rightarrow> Ok False) (\<lambda>binary.
      case pa_b row of
        None \<Rightarrow> Ok None
      | Some b \<Rightarrow>
          (if binary then
             (case b64_decode b of None \<Rightarrow> Err (Errorf ''invalid base64 sequence'') | Some bs \<Rightarrow> Ok (Some bs))
           else obind (pg_bytea b) (\<lambda>bs. Ok (Some bs))))"

definition q_GetData :: "int \<Rightarrow> Data \<Rightarrow> pg_db \<Rightarrow> unit outcome \<times> Data \<times> pg_db" where
  "q_GetData rv data d =
    (if rv = 0 then (Err (Errorf ''rev is empty''), data, d)
     else let data1 = data\<lparr>d_Blob := map_option (\<lambda>_. []) (d_Blob data)\<rparr>
       in case pg_exec id (\<lambda>d1. (case find (\<lambda>row. pa_rev row = rv) (pg_data d1) of
              None \<Rightarrow> Err ErrNoRows
            | Some row \<Rightarrow> obind (row_bytes row) (\<lambda>b. Ok (row, b)), d1)) d of
         (Err err, d1) \<Rightarrow> (Err err, data1, d1)
       | (Panic p, d1) \<Rightarrow> (Panic p, data1, d1)
       | (Ok (row, b), d1) \<Rightarrow> (Ok (), \<lparr>d_Rev = pa_rev row, d_Annotations = pa_annotations row, d_Blob = b\<rparr>, d1))"

section \<open>The driver\<close>

definition pg_GetData :: "GetDataCommand \<Rightarrow> heap \<Rightarrow> pg_db \<Rightarrow> unit outcome \<times> heap \<times> pg_db" where
  "pg_GetData cmd h d =
    (case deref h (gd_StateCtx cmd) of
       None \<Rightarrow> (nil_deref, h, d)
     | Some c \<Rightarrow>
         (case MustData c (gd_Alias cmd) of
            Err err \<Rightarrow> (Err err, h, d)
          | Panic p \<Rightarrow> (Panic p, h, d)
          | Ok None \<Rightarrow> (nil_deref, h, d)
          | Ok (Some data) \<Rightarrow>
              (case q_GetData (d_Rev data) data d of
                 (r, data1, d1) \<Rightarrow>
                   (wrap_err ''get data query: '' r, store h (gd_StateCtx cmd) (SetData c (gd_Alias cmd) (Some data1)), d1))))"

definition pg_StoreData :: "StoreDataCommand \<Rightarrow> heap \<Rightarrow> pg_db \<Rightarrow> unit outcome \<times> heap \<times> pg_db" where
  "pg_StoreData cmd h d =
    (case deref h (sd_StateCtx cmd) of
       None \<Rightarrow> (nil_deref, h, d)
     | Some c \<Rightarrow>
         (case MustData c (sd_Alias cmd) of
            Err err \<Rightarrow> (Err err, h, d)
          | Panic p \<Rightarrow> (Panic p, h, d)
          | Ok None \<Rightarrow> (nil_deref, h, d)
          | Ok (Some data) \<Rightarrow>
              (case InsertData data d of
                 (Ok data1, d1) \<Rightarrow> (Ok (), store h (sd_StateCtx cmd) (SetData c (sd_Alias cmd) (Some data1)), d1)
               | (Err err, d1) \<Rightarrow> (Err (Errorw ''insert data queue: '' err []), h, d1)
               | (Panic p, d1) \<Rightarrow> (Panic p, h, d1))))"

definition pg_GetStateByID :: "GetStateByIDCommand \<Rightarrow> heap \<Rightarrow> pg_db \<Rightarrow> unit outcome \<times> heap \<times> pg_db" where
  "pg_GetStateByID cmd h d =
    (case q_GetStateByID (gi_ID cmd) (gi_Rev cmd) d of
       (Err err, d1) \<Rightarrow>
         (Err (if err = ErrNoRows then Errorw [] ErrNotFound (''; id='' @ gi_ID cmd @ '' rev='' @ FormatInt (gi_Rev cmd))
               else Errorw ''get state by id: query: '' err []), h, d1)
     | (Panic p, d1) \<Rightarrow> (Panic p, h, d1)
     | (Ok s, d1) \<Rightarrow> (case with_ctx h (gi_StateCtx cmd) (\<lambda>c. (Ok (), CopyToCtx s c)) of (r, h1) \<Rightarrow> (r, h1, d1)))"

definition pg_GetStateByLabels :: "GetStateByLabelsCommand \<Rightarrow> heap \<Rightarrow> pg_db \<Rightarrow> unit outcome \<times> heap \<times> pg_db" where
  "pg_GetStateByLabels cmd h d =
    (case getStatesByLabels False [gl_Labels cmd] (- 1) zero_time 1 d of
       (Err err, d1) \<Rightarrow> (Err (Errorw ''get states by labels query: '' err []), h, d1)
     | (Panic p, d1) \<Rightarrow> (Panic p, h, d1)
     | (Ok [], d1) \<Rightarrow> (Err (Errorw [] ErrNotFound (''; labels='' @ fmt_map (gl_Labels cmd))), h, d1)
     | (Ok (s # _), d1) \<Rightarrow> (case with_ctx h (gl_StateCtx cmd) (\<lambda>c. (Ok (), CopyToCtx s c)) of (r, h1) \<Rightarrow> (r, h1, d1)))"

text \<open>A slice has room for one state more than the limit; \<open>make\<close> panics when that is negative.\<close>

definition pg_GetStates :: "GetStatesCommand \<Rightarrow> pg_db \<Rightarrow> GetStatesCommand outcome \<times> pg_db" where
  "pg_GetStates cmd d =
    (let n = i64 (gs_Limit cmd + 1)
     in if n < 0 then (Panic ''runtime error: makeslice: len out of range'', d)
        else case getStatesByLabels (gs_LatestOnly cmd) (gs_Labels cmd) (gs_SinceRev cmd) (gs_SinceTime cmd) (nat n) d of
          (r, d1) \<Rightarrow>
            (obind (wrap_err (if gs_LatestOnly cmd then ''get latest states by labels query: '' else ''get states by labels query: '') r)
               (\<lambda>ss. Ok (cmd\<lparr>gs_Result := Some \<lparr>gsr_States = take (nat (gs_Limit cmd)) ss,
                 gsr_More = int (length ss) > gs_Limit cmd\<rparr>\<rparr>)), d1))"

definition pg_Delay :: "DelayCommand \<Rightarrow> pg_db \<Rightarrow> unit outcome \<times> pg_db" where
  "pg_Delay cmd d =
    (case dl_Result cmd of
       None \<Rightarrow> (nil_deref, d)
     | Some res \<Rightarrow>
         (case InsertDelayedState (ds_State res) (dl_ExecuteAt cmd) d of
            (r, d1) \<Rightarrow> (wrap_err ''insert delayed state query: '' r, d1)))"

definition pg_GetDelayedStates :: "GetDelayedStatesCommand \<Rightarrow> pg_db \<Rightarrow> GetDelayedStatesCommand outcome \<times> pg_db" where
  "pg_GetDelayedStates cmd d =
    (case q_GetDelayedStates (Unix (gt_Since cmd)) (Unix (gt_Until cmd)) (gt_Offset cmd) (i64 (gt_Limit cmd + 1)) d of
       (r, d1) \<Rightarrow>
         (obind (wrap_err ''get delayed states query: '' r) (\<lambda>ds.
            Ok (cmd\<lparr>gt_Result := Some \<lparr>gdr_States = take (nat (gt_Limit cmd)) ds,
              gdr_More = int (length ds) > gt_Limit cmd\<rparr>\<rparr>)), d1))"

definition pg_ops :: "pg_db CommitDriver" where
  "pg_ops = \<lparr>drv_GetStateByID = pg_GetStateByID, drv_GetStateByLabels = pg_GetStateByLabels,
    drv_GetData = pg_GetData, drv_StoreData = pg_StoreData, drv_Delay = pg_Delay\<rparr>"

section \<open>Commit\<close>

fun isRevMismatchErr :: "error \<Rightarrow> bool" where
  "isRevMismatchErr (Errorw _ e _) = isRevMismatchErr e"
| "isRevMismatchErr e \<longleftrightarrow> e = ErrNoRows \<or> e = ErrUniqueLatest"

text \<open>One context of a commit. The clock is read before the row gets its revision.\<close>

definition pg_commit_ctx :: "'c libs \<Rightarrow> pg_tx \<Rightarrow> StateCtx \<Rightarrow> pg_db \<Rightarrow> StateCtx outcome \<times> pg_tx \<times> pg_db" where
  "pg_commit_ctx lb tx c d =
    (let nextState = (State_CopyTo (sc_Current c) State0)
           \<lparr>s_CommittedAt := time_UnixMilli (UnixMilli (lib_Now lb (pg_revSeq d)))\<rparr>;
         update = s_Rev (sc_Committed c) > 0
     in case (if update then UpdateState tx nextState d else InsertState tx nextState d) of
          (Err err, tx1, d1) \<Rightarrow>
            (Err (if isRevMismatchErr err then ErrRevMismatch [s_ID (sc_Current c)]
                  else Errorw (if update then ''update state: '' else ''insert state: '') err []), tx1, d1)
        | (Panic p, tx1, d1) \<Rightarrow> (Panic p, tx1, d1)
        | (Ok s, tx1, d1) \<Rightarrow>
            (Ok (reset_Transitions (c\<lparr>sc_Committed := State_CopyTo s (sc_Committed c),
               sc_Current := State_CopyTo s (sc_Current c)\<rparr>)), tx1, d1))"

text \<open>The sub commands run on connections of their own, outside the transaction \<open>tx\<close>.\<close>

fun pg_Commit_loop ::
  "'c libs \<Rightarrow> Command list \<Rightarrow> heap \<Rightarrow> pg_tx \<Rightarrow> pg_db \<Rightarrow> unit outcome \<times> Command list \<times> heap \<times> pg_tx \<times> pg_db" where
  "pg_Commit_loop lb [] h tx d = (Ok (), [], h, tx, d)"
| "pg_Commit_loop lb (subCmd0 # cmds) h tx d =
    (case DoCommitSubCommand lb pg_ops subCmd0 h d of
       (Err err, subCmd, h1, d1) \<Rightarrow> (Err (Errorw (cmd_type subCmd0 @ '': do: '') err []), subCmd # cmds, h1, tx, d1)
     | (Panic p, subCmd, h1, d1) \<Rightarrow> (Panic p, subCmd # cmds, h1, tx, d1)
     | (Ok _, subCmd, h1, d1) \<Rightarrow>
         (case committable subCmd of
            None \<Rightarrow> (case pg_Commit_loop lb cmds h1 tx d1 of (r, cs, z) \<Rightarrow> (r, subCmd # cs, z))
          | Some p \<Rightarrow>
              (case deref h1 p of
                 None \<Rightarrow> (nil_deref, subCmd # cmds, h1, tx, d1)
               | Some c \<Rightarrow>
                   (case pg_commit_ctx lb tx c d1 of
                      (Err err, tx1, d2) \<Rightarrow> (Err err, subCmd # cmds, h1, tx1, d2)
                    | (Panic q, tx1, d2) \<Rightarrow> (Panic q, subCmd # cmds, h1, tx1, d2)
                    | (Ok c1, tx1, d2) \<Rightarrow>
                        (case pg_Commit_loop lb cmds (store h1 p c1) tx1 d2 of (r, cs, z) \<Rightarrow> (r, subCmd # cs, z))))))"

definition pg_BeginTx :: "pg_db \<Rightarrow> pg_tx outcome \<times> pg_db" where
  "pg_BeginTx d = pg_exec id (Pair (Ok BeginTx)) d"

definition pg_Commit :: "'c libs \<Rightarrow> Command list \<Rightarrow> heap \<Rightarrow> pg_db \<Rightarrow> unit outcome \<times> Command list \<times> heap \<times> pg_db" where
  "pg_Commit lb cmds h d =
    (case pg_BeginTx d of
       (Err err, d1) \<Rightarrow> (Err (Errorw ''conn: begin: '' err []), cmds, h, d1)
     | (Panic p, d1) \<Rightarrow> (Panic p, cmds, h, d1)
     | (Ok tx, d1) \<Rightarrow>
         (case pg_Commit_loop lb cmds h tx d1 of
            (Ok _, cs, h1, tx1, d2) \<Rightarrow> (case tx_Commit tx1 d2 of (r, d3) \<Rightarrow> (r, cs, h1, d3))
          | (r, cs, h1, tx1, d2) \<Rightarrow> (r, cs, h1, tx_Rollback tx1 d2)))"

definition pg_Driver :: "'c libs \<Rightarrow> pg_db Driver" where
  "pg_Driver lb = \<lparr>drv_GetStateByID = pg_GetStateByID, drv_GetStateByLabels = pg_GetStateByLabels,
    drv_GetData = pg_GetData, drv_StoreData = pg_StoreData, drv_Delay = pg_Delay,
    drv_GetStates = pg_GetStates, drv_GetDelayedStates = pg_GetDelayedStates, drv_Commit = pg_Commit lb\<rparr>"

end
