(* ===== verification/PgdriverProps.thy ===== *)
theory PgdriverProps
  imports Pgdriver MemdriverProps ProtojsonProps
begin

text \<open>
  What the driver on PostgreSQL promises: its commits are atomic and keep the tables consistent, whatever
  statement fails and whatever answer is lost; a stale context is refused.
\<close>

section \<open>Statements\<close>

definition no_lost :: "pg_db \<Rightarrow> bool" where
  "no_lost d \<longleftrightarrow> (\<forall>err. Some (Lost err) \<notin> set (pg_faults d))"

lemma pg_exec_cases:
  assumes "pg_exec keep stmt d = (r, z)"
  obtains (run) fs where "set fs \<subseteq> set (pg_faults d)" "stmt (d\<lparr>pg_faults := fs\<rparr>) = (r, z)"
  | (refused) fs err where "set fs \<subseteq> set (pg_faults d)" "r = Err err" "z = keep (d\<lparr>pg_faults := fs\<rparr>)"
  | (lost) fs err r' where "set fs \<subseteq> set (pg_faults d)" "\<not> no_lost d" "r = Err err" "stmt (d\<lparr>pg_faults := fs\<rparr>) = (r', z)"
proof (cases "pg_faults d")
  case Nil
  then have "d\<lparr>pg_faults := []\<rparr> = d" by simp
  with run [of "[]"] assms show ?thesis by (simp add: pg_exec_def Nil)
next
  case (Cons f fs)
  then have sub: "set fs \<subseteq> set (pg_faults d)" by auto
  show ?thesis
  proof (cases f)
    case None
    with assms Cons have "stmt (d\<lparr>pg_faults := fs\<rparr>) = (r, z)" by (simp add: pg_exec_def)
    with sub show ?thesis by (rule run)
  next
    case (Some f')
    show ?thesis
    proof (cases f')
      case (Refused err)
      with assms Cons Some have "r = Err err" "z = keep (d\<lparr>pg_faults := fs\<rparr>)" by (simp_all add: pg_exec_def Let_def)
      with sub show ?thesis by (rule refused)
    next
      case (Lost err)
      then have "\<not> no_lost d" using Cons Some by (auto simp: no_lost_def)
      moreover obtain r' where "stmt (d\<lparr>pg_faults := fs\<rparr>) = (r', z)"
        using assms Cons Some Lost by (cases "stmt (d\<lparr>pg_faults := fs\<rparr>)") (auto simp: pg_exec_def Let_def)
      moreover have "r = Err err" using assms Cons Some Lost by (simp add: pg_exec_def Let_def)
      ultimately show ?thesis using sub lost by blast
    qed
  qed
qed

text \<open>What a statement outside the transaction of a commit leaves alone.\<close>

definition pg_view :: "pg_db \<Rightarrow> pg_row list \<times> (string \<rightharpoonup> int) \<times> int \<times> nat list" where
  "pg_view d = (pg_states d, pg_latest d, pg_revSeq d, pg_active d)"

definition pg_above :: "nat \<Rightarrow> bool \<Rightarrow> pg_db \<Rightarrow> bool" where
  "pg_above x b d \<longleftrightarrow> x \<le> pg_xid d \<and> (b \<longrightarrow> no_lost d)"

lemma pg_view_simps [simp]:
  "pg_view (d\<lparr>pg_faults := fs\<rparr>) = pg_view d" "pg_view (d\<lparr>pg_xid := x\<rparr>) = pg_view d"
  "pg_view (d\<lparr>pg_posSeq := p, pg_delayed := ds\<rparr>) = pg_view d" "pg_view (d\<lparr>pg_dataSeq := p, pg_data := as\<rparr>) = pg_view d"
  by (simp_all add: pg_view_def)

lemma pg_above_faults [simp]:
  "pg_above x b d \<Longrightarrow> set fs \<subseteq> set (pg_faults d) \<Longrightarrow> pg_above x b (d\<lparr>pg_faults := fs\<rparr>)"
  by (auto simp: pg_above_def no_lost_def)

lemma pg_exec_keeps:
  assumes "pg_exec id stmt d = (r, d1)" "pg_above x b d"
    and "\<And>d0 q d2. pg_above x b d0 \<Longrightarrow> stmt d0 = (q, d2) \<Longrightarrow> pg_above x b d2 \<and> pg_view d2 = pg_view d0"
  shows "pg_above x b d1 \<and> pg_view d1 = pg_view d"
  using assms(1)
proof (cases rule: pg_exec_cases)
  case (run fs)
  from assms(3) [OF pg_above_faults [OF assms(2) run(1)] run(2)] show ?thesis by simp
next
  case (refused fs err)
  then show ?thesis using assms(2) by simp
next
  case (lost fs err r')
  from assms(3) [OF pg_above_faults [OF assms(2) lost(1)] lost(4)] show ?thesis by simp
qed

lemma pg_exec_read:
  assumes "pg_exec id (\<lambda>d1. (f d1, d1)) d = (r, d1)" "pg_above x b d"
  shows "pg_above x b d1 \<and> pg_view d1 = pg_view d"
  by (rule pg_exec_keeps [OF assms]) auto

lemma q_keeps:
  assumes "pg_above x b d"
  shows "q_GetStateByID sid rv d = (r1, d1) \<Longrightarrow> pg_above x b d1 \<and> pg_view d1 = pg_view d"
    and "getStatesByLabels latest labels since time n d = (r2, d2) \<Longrightarrow> pg_above x b d2 \<and> pg_view d2 = pg_view d"
    and "q_GetData rv data d = (r3, data3, d3) \<Longrightarrow> pg_above x b d3 \<and> pg_view d3 = pg_view d"
  using assms
  by (auto simp: q_GetStateByID_def getStatesByLabels_def q_GetData_def Let_def split: if_splits prod.splits outcome.splits
      dest: pg_exec_read [OF _ assms])

lemma pg_above_writes [simp]:
  "pg_above x b (d\<lparr>pg_posSeq := p, pg_delayed := ds\<rparr>) = pg_above x b d"
  "pg_above x b (d\<lparr>pg_dataSeq := p, pg_data := as\<rparr>) = pg_above x b d"
  "pg_above x b d \<Longrightarrow> pg_above x b (d\<lparr>pg_xid := Suc (pg_xid d)\<rparr>)"
  by (simp_all add: pg_above_def no_lost_def)

lemma InsertData_keeps:
  assumes "InsertData data d = (r, d1)" "pg_above x b d"
  shows "pg_above x b d1 \<and> pg_view d1 = pg_view d"
  by (rule pg_exec_keeps [OF assms(1) [unfolded InsertData_def] assms(2)]) (auto split: outcome.splits prod.splits)

lemma InsertDelayedState_keeps:
  assumes "InsertDelayedState s at d = (r, d1)" "pg_above x b d"
  shows "pg_above x b d1 \<and> pg_view d1 = pg_view d"
proof (cases "s_ID s = [] \<or> IsZero at")
  case True
  with assms show ?thesis by (auto simp: InsertDelayedState_def split: if_splits)
next
  case False
  with assms(1) obtain r' where "pg_exec id (\<lambda>d1.
         case obind (jsonb (State_MarshalJSON s)) (\<lambda>state. obind (nextval (pg_posSeq d1)) (\<lambda>pos. Ok (state, pos))) of
           Err err \<Rightarrow> (Err err, d1)
         | Panic p \<Rightarrow> (Panic p, d1)
         | Ok (state, pos) \<Rightarrow>
             (case auto_xid d1 of (xid, d2) \<Rightarrow>
               (Ok (), d2\<lparr>pg_posSeq := pg_posSeq d2 + 1, pg_delayed := pg_delayed d2 @
                 [\<lparr>pd_xid = xid, pd_execute_at = Unix at, pd_state = state, pd_pos = pos\<rparr>]\<rparr>))) d = (r', d1)"
    by (auto simp: InsertDelayedState_def split: prod.splits)
  then show ?thesis using assms(2)
    by (rule pg_exec_keeps) (auto simp: auto_xid_def split: outcome.splits prod.splits)
qed

lemma with_ctx_copy: "wf_heap h \<Longrightarrow> with_ctx h p (\<lambda>c. (Ok (), CopyToCtx s c)) = (r, h') \<Longrightarrow> wf_heap h'"
  by (metis with_ctx_wf snd_conv wf_CopyToCtx)

text \<open>The methods that the sub commands of a commit call leave the log alone.\<close>

interpretation pg_sub: commit_driver pg_ops "pg_above x b" pg_view for x b
proof (unfold_locales, goal_cases)
  case (1 s h gi r h' s')
  then show ?case
    by (auto simp: pg_ops_def pg_GetStateByID_def split: prod.splits outcome.splits dest: q_keeps(1) [OF 1(1)]
        with_ctx_copy)
next
  case (2 s h gl r h' s')
  then show ?case
    by (auto simp: pg_ops_def pg_GetStateByLabels_def split: prod.splits outcome.splits list.splits dest: q_keeps(2) [OF 2(1)]
        with_ctx_copy)
next
  case (3 s h gd r h' s')
  then show ?case using wf_heap_deref [OF 3(2)]
    by (auto simp: pg_ops_def pg_GetData_def split: prod.splits outcome.splits option.splits dest: q_keeps(3) [OF 3(1)])
next
  case (4 s h sd r h' s')
  then show ?case using wf_heap_deref [OF 4(2)]
    by (auto simp: pg_ops_def pg_StoreData_def split: prod.splits outcome.splits option.splits dest: InsertData_keeps [OF _ 4(1)])
next
  case (5 s dl ds r s')
  then show ?case by (auto simp: pg_ops_def pg_Delay_def split: prod.splits dest: InsertDelayedState_keeps [OF _ 5(1)])
qed

section \<open>The tables and a transaction\<close>

text \<open>The last row of an id is the latest; it is what \<open>flowstate_latest_states\<close> holds.\<close>

definition rows_latest :: "pg_row list \<Rightarrow> string \<rightharpoonup> int" where
  "rows_latest rows = map_of (rev (map (\<lambda>row. (pr_id row, pr_rev row)) rows))"

lemma rows_latest_append [simp]: "rows_latest (xs @ ys) = rows_latest xs ++ rows_latest ys"
  by (simp add: rows_latest_def map_add_def fun_eq_iff split: option.split)

lemma rows_latest_simps [simp]:
  "rows_latest [] = Map.empty" "rows_latest [row] = [pr_id row \<mapsto> pr_rev row]"
  by (simp_all add: rows_latest_def)

lemma rows_latest_Some: "rows_latest rows sid = Some rv \<Longrightarrow> \<exists>row\<in>set rows. pr_id row = sid \<and> pr_rev row = rv"
  by (auto simp: rows_latest_def dest!: map_of_SomeD)

definition pg_ok :: "pg_db \<Rightarrow> bool" where
  "pg_ok d \<longleftrightarrow> 0 < pg_revSeq d \<and> pg_latest d = rows_latest (pg_states d) \<and> distinct (map pr_rev (pg_states d))
    \<and> (\<forall>row\<in>set (pg_states d). 0 < pr_rev row \<and> pr_rev row < pg_revSeq d \<and> pr_xid row < pg_xid d)
    \<and> sorted_wrt (\<lambda>a b. pr_id a = pr_id b \<longrightarrow> pr_rev a < pr_rev b) (pg_states d)"

definition tx_since :: "pg_db \<Rightarrow> pg_tx \<Rightarrow> pg_db \<Rightarrow> bool" where
  "tx_since d0 tx d \<longleftrightarrow> pg_states d = pg_states d0 \<and> pg_latest d = pg_latest d0 \<and> pg_revSeq d0 \<le> pg_revSeq d \<and> pg_xid d0 \<le> pg_xid d
    \<and> (case tx_xid tx of
         None \<Rightarrow> pg_active d = pg_active d0 \<and> tx_rows tx = []
       | Some x \<Rightarrow> pg_active d = x # pg_active d0 \<and> x < pg_xid d \<and> (\<forall>row\<in>set (tx_rows tx). pr_xid row = x))
    \<and> sorted_wrt (<) (map pr_rev (tx_rows tx)) \<and> tx_latest tx = rows_latest (tx_rows tx)
    \<and> (\<forall>row\<in>set (tx_rows tx). pg_revSeq d0 \<le> pr_rev row \<and> pr_rev row < pg_revSeq d)"

lemma tx_since_begin: "pg_view d = pg_view d0 \<Longrightarrow> pg_xid d0 \<le> pg_xid d \<Longrightarrow> tx_since d0 BeginTx d"
  by (simp add: tx_since_def BeginTx_def pg_view_def)

lemma tx_since_view:
  assumes "tx_since d0 tx d" "pg_view d1 = pg_view d" "pg_xid d \<le> pg_xid d1"
  shows "tx_since d0 tx d1"
  using assms by (auto simp: tx_since_def pg_view_def split: option.splits)

lemma put_row_since:
  assumes "tx_since d0 tx d" "put_row tx s state labels d = (r, tx1, d1)"
  shows "tx_since d0 tx1 d1 \<and> tx_since d0 (tx\<lparr>tx_xid := tx_xid tx1\<rparr>) d1 \<and> pg_faults d1 = pg_faults d
    \<and> (case r of Ok s1 \<Rightarrow> length (tx_rows tx1) = Suc (length (tx_rows tx)) \<and> s1 = s\<lparr>s_Rev := pg_revSeq d\<rparr> \<and> pg_revSeq d1 = pg_revSeq d + 1
        | _ \<Rightarrow> tx_rows tx1 = tx_rows tx)"
  using assms
  by (auto simp: put_row_def tx_assign_def nextval_def tx_since_def sorted_wrt_append less_imp_le
      split: option.splits outcome.splits if_splits)

lemma stmt_since:
  assumes "pg_exec (Pair tx) stmt d = (r, tx1, d1)" "tx_since d0 tx d"
    and "\<And>fs q tx2 d2. set fs \<subseteq> set (pg_faults d) \<Longrightarrow> tx_since d0 tx (d\<lparr>pg_faults := fs\<rparr>)
      \<Longrightarrow> stmt (d\<lparr>pg_faults := fs\<rparr>) = (q, tx2, d2) \<Longrightarrow> tx_since d0 tx2 d2 \<and> pg_faults d2 = fs
        \<and> ((\<exists>s1. q = Ok s1) \<longrightarrow> length (tx_rows tx2) = Suc (length (tx_rows tx)))"
  shows "tx_since d0 tx1 d1 \<and> set (pg_faults d1) \<subseteq> set (pg_faults d)
    \<and> ((\<exists>s1. r = Ok s1) \<longrightarrow> length (tx_rows tx1) = Suc (length (tx_rows tx)))"
  using assms(1)
proof (cases rule: pg_exec_cases)
  have same: "tx_since d0 tx (d\<lparr>pg_faults := fs\<rparr>)" for fs by (rule tx_since_view [OF assms(2)]) simp_all
  {
    case (run fs)
    from assms(3) [OF run(1) same run(2)] run(1) show ?thesis by simp
  next
    case (refused fs err)
    with same show ?thesis by simp
  next
    case (lost fs err r')
    from assms(3) [OF lost(1) same lost(4)] lost(1,3) show ?thesis by simp
  }
qed

lemma writes_since:
  assumes "tx_since d0 tx d"
  shows "InsertState tx s d = (r1, tx1, d1) \<Longrightarrow> tx_since d0 tx1 d1 \<and> set (pg_faults d1) \<subseteq> set (pg_faults d)
      \<and> ((\<exists>s1. r1 = Ok s1) \<longrightarrow> length (tx_rows tx1) = Suc (length (tx_rows tx)))"
    and "UpdateState tx s d = (r2, tx2, d2) \<Longrightarrow> tx_since d0 tx2 d2 \<and> set (pg_faults d2) \<subseteq> set (pg_faults d)
      \<and> ((\<exists>s1. r2 = Ok s1) \<longrightarrow> length (tx_rows tx2) = Suc (length (tx_rows tx)))"
proof -
  assume a: "InsertState tx s d = (r1, tx1, d1)"
  show "tx_since d0 tx1 d1 \<and> set (pg_faults d1) \<subseteq> set (pg_faults d)
      \<and> ((\<exists>s1. r1 = Ok s1) \<longrightarrow> length (tx_rows tx1) = Suc (length (tx_rows tx)))"
  proof (cases "s_ID s = [] \<or> s_Rev s \<noteq> 0")
    case True
    with a assms show ?thesis by (auto simp: InsertState_def split: if_splits)
  next
    case False
    with a have e: "pg_exec (Pair tx) (\<lambda>d1.
       case state_args s of
         Err err \<Rightarrow> (Err err, tx, d1)
       | Panic p \<Rightarrow> (Panic p, tx, d1)
       | Ok (state, labels) \<Rightarrow>
           (case put_row tx s state labels d1 of
              (r, tx1, d2) \<Rightarrow>
                if latest_in tx d1 (s_ID s) \<noteq> None then (obind r (\<lambda>_. Err ErrUniqueLatest), tx\<lparr>tx_xid := tx_xid tx1\<rparr>, d2)
                else (r, tx1, d2))) d = (r1, tx1, d1)" by (simp add: InsertState_def)
    show ?thesis
    proof (rule stmt_since [OF e assms], goal_cases)
      case (1 fs q tx2 d2)
      show ?case
      proof (cases "state_args s")
        case (Ok x)
        obtain r' t' e where p: "put_row tx s (fst x) (snd x) (d\<lparr>pg_faults := fs\<rparr>) = (r', t', e)" by (metis surj_pair)
        from put_row_since [OF 1(2) p] 1(3) Ok p show ?thesis
          by (cases r') (auto simp: case_prod_beta split: if_splits)
      qed (use 1 in auto)
    qed
  qed
next
  assume a: "UpdateState tx s d = (r2, tx2, d2)"
  show "tx_since d0 tx2 d2 \<and> set (pg_faults d2) \<subseteq> set (pg_faults d)
      \<and> ((\<exists>s1. r2 = Ok s1) \<longrightarrow> length (tx_rows tx2) = Suc (length (tx_rows tx)))"
  proof (cases "s_ID s = [] \<or> s_Rev s = 0")
    case True
    with a assms show ?thesis by (auto simp: UpdateState_def split: if_splits)
  next
    case False
    with a have e: "pg_exec (Pair tx) (\<lambda>d1.
       case state_args s of
         Err err \<Rightarrow> (Err err, tx, d1)
       | Panic p \<Rightarrow> (Panic p, tx, d1)
       | Ok (state, labels) \<Rightarrow>
           if latest_in tx d1 (s_ID s) \<noteq> Some (s_Rev s) then (Err ErrNoRows, tx, d1)
           else put_row tx s state labels d1) d = (r2, tx2, d2)" by (simp add: UpdateState_def)
    show ?thesis
    proof (rule stmt_since [OF e assms], goal_cases)
      case (1 fs q tx2 d2)
      show ?case
      proof (cases "state_args s")
        case (Ok x)
        show ?thesis
        proof (cases "latest_in tx (d\<lparr>pg_faults := fs\<rparr>) (s_ID s) = Some (s_Rev s)")
          case True
          with 1(3) Ok have "put_row tx s (fst x) (snd x) (d\<lparr>pg_faults := fs\<rparr>) = (q, tx2, d2)" by (simp add: case_prod_beta)
          from put_row_since [OF 1(2) this] show ?thesis by (cases q) auto
        next
          case False
          with 1(3) Ok have "q = Err ErrNoRows" "tx2 = tx" "d2 = d\<lparr>pg_faults := fs\<rparr>" by (simp_all add: case_prod_beta)
          with 1(2) show ?thesis by simp
        qed
      qed (use 1 in auto)
    qed
  qed
qed

section \<open>Commit\<close>

lemma pg_commit_ctx_since:
  assumes "pg_commit_ctx lb tx c d = (r, tx1, d1)" "tx_since d0 tx d"
  shows "tx_since d0 tx1 d1 \<and> set (pg_faults d1) \<subseteq> set (pg_faults d)
    \<and> (\<forall>c1. r = Ok c1 \<longrightarrow> length (tx_rows tx1) = Suc (length (tx_rows tx)) \<and> (wf_StateCtx c \<longrightarrow> wf_StateCtx c1))"
proof -
  define nextState where "nextState = (State_CopyTo (sc_Current c) State0)
    \<lparr>s_CommittedAt := time_UnixMilli (UnixMilli (lib_Now lb (pg_revSeq d)))\<rparr>"
  obtain q t e where st: "(if s_Rev (sc_Committed c) > 0 then UpdateState tx nextState d else InsertState tx nextState d) = (q, t, e)"
    by (metis surj_pair)
  have w: "tx_since d0 t e \<and> set (pg_faults e) \<subseteq> set (pg_faults d) \<and> ((\<exists>s1. q = Ok s1) \<longrightarrow> length (tx_rows t) = Suc (length (tx_rows tx)))"
    using st writes_since [OF assms(2)] by (metis (full_types))
  show ?thesis
    using assms(1) st w
    by (cases q) (auto simp: pg_commit_ctx_def nextState_def [symmetric] Let_def wf_StateCtx_def reset_Transitions_def split: if_splits)
qed

lemma pg_Commit_loop_since:
  assumes "pg_Commit_loop lb cmds h tx d = (r, cs, h1, tx1, d1)" "tx_since d0 tx d" "wf_heap h"
  shows "tx_since d0 tx1 d1 \<and> wf_heap h1 \<and> (no_lost d \<longrightarrow> no_lost d1)
    \<and> (r = Ok () \<longrightarrow> length (tx_rows tx1) = length (tx_rows tx) + committables cmds)"
  using assms
proof (induction cmds arbitrary: h tx d r cs h1 tx1 d1)
  case (Cons cmd cmds)
  obtain q cmd' h' d' where sub: "DoCommitSubCommand lb pg_ops cmd h d = (q, cmd', h', d')" by (metis surj_pair)
  have "pg_above (pg_xid d) (no_lost d) d" by (simp add: pg_above_def)
  from pg_sub.DoCommitSubCommand_keeps [OF this Cons.prems(3) sub]
  have k: "pg_above (pg_xid d) (no_lost d) d'" "pg_view d' = pg_view d" "wf_heap h'" by auto
  from k(1) have nl: "no_lost d \<Longrightarrow> no_lost d'" and x: "pg_xid d \<le> pg_xid d'" by (auto simp: pg_above_def)
  have s: "tx_since d0 tx d'" by (rule tx_since_view [OF Cons.prems(2) k(2) x])
  note same = committable_same [OF sub]
  show ?case
  proof (cases q)
    case (Ok u)
    show ?thesis
    proof (cases "committable cmd'")
      case None
      obtain cs' where "pg_Commit_loop lb cmds h' tx d' = (r, cs', h1, tx1, d1)"
        using Cons.prems(1) sub Ok None by (auto split: prod.splits)
      from Cons.IH [OF this s k(3)] None same nl show ?thesis by simp
    next
      case (Some p)
      show ?thesis
      proof (cases "deref h' p")
        case None
        with Cons.prems(1) sub Ok Some s k(3) nl show ?thesis by (auto simp: nil_deref_def)
      next
        case (Some c)
        obtain q1 tx2 d2 where one: "pg_commit_ctx lb tx c d' = (q1, tx2, d2)" by (metis surj_pair)
        note w = pg_commit_ctx_since [OF one s]
        have nl2: "no_lost d' \<Longrightarrow> no_lost d2" using w by (auto simp: no_lost_def)
        show ?thesis
        proof (cases q1)
          case (Ok c1)
          from w Ok wf_heap_deref [OF k(3) Some] have "wf_heap (store h' p c1)" using k(3) by simp
          moreover obtain cs' where "pg_Commit_loop lb cmds (store h' p c1) tx2 d2 = (r, cs', h1, tx1, d1)"
            using Cons.prems(1) sub \<open>q = Ok u\<close> \<open>committable cmd' = Some p\<close> Some one Ok by (auto split: prod.splits)
          ultimately show ?thesis
            using Cons.IH [of "store h' p c1" tx2 d2 r cs' h1 tx1 d1] w Ok \<open>committable cmd' = Some p\<close> same nl nl2 by auto
        qed (use Cons.prems(1) sub \<open>q = Ok u\<close> \<open>committable cmd' = Some p\<close> Some one w k(3) nl nl2 in auto)
      qed
    qed
  qed (use Cons.prems(1) sub s k(3) nl in auto)
qed simp

lemma tx_end_active: "tx_since d0 tx d \<Longrightarrow> pg_active (tx_end tx d) = pg_active d0"
  by (auto simp: tx_since_def tx_end_def split: option.splits)

lemma tx_end_simps [simp]:
  "pg_states (tx_end tx d) = pg_states d" "pg_latest (tx_end tx d) = pg_latest d" "pg_revSeq (tx_end tx d) = pg_revSeq d"
  "pg_xid (tx_end tx d) = pg_xid d" "pg_faults (tx_end tx d) = pg_faults d"
  by (simp_all add: tx_end_def split: option.split)

text \<open>What a transaction appends keeps the tables consistent.\<close>

lemma pg_ok_append:
  assumes "pg_ok d0" "tx_since d0 tx d" "pg_states d1 = pg_states d0 @ tx_rows tx"
    and "pg_latest d1 = pg_latest d0 ++ tx_latest tx" "pg_revSeq d1 = pg_revSeq d" "pg_xid d1 = pg_xid d"
  shows "pg_ok d1"
proof -
  have sep: "pr_rev a < pr_rev b" if "a \<in> set (pg_states d0)" "b \<in> set (tx_rows tx)" for a b
    using that assms(1,2) by (fastforce simp: pg_ok_def tx_since_def)
  have x: "pr_xid b < pg_xid d" if "b \<in> set (tx_rows tx)" for b
    using that assms(2) by (auto simp: tx_since_def split: option.splits)
  have s: "sorted_wrt (<) (map pr_rev (tx_rows tx))" using assms(2) by (simp add: tx_since_def)
  then have "distinct (map pr_rev (tx_rows tx))" by (simp only: strict_sorted_iff)
  moreover from s have "sorted_wrt (\<lambda>a b. pr_id a = pr_id b \<longrightarrow> pr_rev a < pr_rev b) (tx_rows tx)"
    by (auto simp: sorted_wrt_map elim: sorted_wrt_mono_rel [rotated])
  moreover have "pr_rev ` set (pg_states d0) \<inter> pr_rev ` set (tx_rows tx) = {}" using sep by fastforce
  moreover have "\<forall>row\<in>set (pg_states d0). 0 < pr_rev row \<and> pr_rev row < pg_revSeq d \<and> pr_xid row < pg_xid d" "0 < pg_revSeq d"
    using assms(1,2) by (auto simp: pg_ok_def tx_since_def less_le_trans)
  moreover have "\<forall>row\<in>set (tx_rows tx). 0 < pr_rev row \<and> pr_rev row < pg_revSeq d \<and> pr_xid row < pg_xid d"
    using assms(1,2) x by (auto simp: pg_ok_def tx_since_def less_le_trans)
  ultimately show ?thesis using assms sep
    by (auto simp: pg_ok_def tx_since_def sorted_wrt_append)
qed

lemma pg_ok_idle:
  assumes "pg_ok d0" "tx_since d0 tx d" "pg_states d1 = pg_states d0" "pg_latest d1 = pg_latest d0"
    and "pg_revSeq d1 = pg_revSeq d" "pg_xid d1 = pg_xid d"
  shows "pg_ok d1"
proof -
  let ?tx = "tx\<lparr>tx_rows := [], tx_latest := Map.empty\<rparr>"
  have "tx_since d0 ?tx d" using assms(2) by (auto simp: tx_since_def split: option.splits)
  then show ?thesis by (rule pg_ok_append [OF assms(1)]) (simp_all add: assms(3-6))
qed

lemma tx_Rollback_since:
  assumes "pg_ok d0" "tx_since d0 tx d"
  shows "pg_ok (tx_Rollback tx d) \<and> pg_active (tx_Rollback tx d) = pg_active d0 \<and> pg_states (tx_Rollback tx d) = pg_states d0"
proof -
  have st: "pg_states (tx_Rollback tx d) = pg_states d0" "pg_latest (tx_Rollback tx d) = pg_latest d0"
    using assms(2) by (simp_all add: tx_Rollback_def tx_since_def)
  moreover have "pg_ok (tx_Rollback tx d)" by (rule pg_ok_idle [OF assms st]) (simp_all add: tx_Rollback_def)
  ultimately show ?thesis using tx_end_active [OF assms(2)] by (simp add: tx_Rollback_def)
qed

lemma tx_Commit_since:
  assumes "pg_ok d0" "tx_since d0 tx d" "tx_Commit tx d = (r, d1)"
  shows "pg_ok d1 \<and> pg_active d1 = pg_active d0
    \<and> (r \<noteq> Ok () \<and> pg_states d1 = pg_states d0 \<or> pg_states d1 = pg_states d0 @ tx_rows tx \<and> (r = Ok () \<or> \<not> no_lost d))"
proof -
  have kept: "pg_ok d1 \<and> pg_active d1 = pg_active d0 \<and> pg_states d1 = pg_states d0 @ tx_rows tx"
    if f: "d1 = tx_end tx (d\<lparr>pg_faults := fs, pg_states := pg_states d @ tx_rows tx, pg_latest := pg_latest d ++ tx_latest tx\<rparr>)" for fs
  proof -
    have st: "pg_states d1 = pg_states d0 @ tx_rows tx" "pg_latest d1 = pg_latest d0 ++ tx_latest tx"
      using assms(2) by (simp_all add: f tx_since_def)
    moreover have "pg_ok d1" by (rule pg_ok_append [OF assms(1,2) st]) (simp_all add: f)
    moreover have "pg_active d1 = pg_active d0"
      using assms(2) by (auto simp: f tx_since_def tx_end_def split: option.splits)
    ultimately show ?thesis by simp
  qed
  from assms(3) show ?thesis unfolding tx_Commit_def
  proof (cases rule: pg_exec_cases)
    case (run fs)
    then show ?thesis using kept [of fs] by auto
  next
    case (refused fs err)
    have "tx_since d0 tx (d\<lparr>pg_faults := fs\<rparr>)" by (rule tx_since_view [OF assms(2)]) simp_all
    from tx_Rollback_since [OF assms(1) this] refused(2,3) show ?thesis by (simp add: tx_Rollback_def)
  next
    case (lost fs err r')
    then show ?thesis using kept [of fs] by auto
  qed
qed

lemma pg_commit_outcome:
  assumes "pg_ok d" "wf_heap h" "pg_Commit lb cmds h d = (r, cs, h1, d1)"
  shows "pg_ok d1 \<and> pg_active d1 = pg_active d \<and> (\<exists>new. pg_states d1 = pg_states d @ new
    \<and> (new = [] \<or> length new = committables cmds) \<and> (r = Ok () \<longrightarrow> length new = committables cmds)
    \<and> (r \<noteq> Ok () \<and> no_lost d \<longrightarrow> new = [])
    \<and> sorted_wrt (<) (map pr_rev new) \<and> (\<forall>row\<in>set new. pg_revSeq d \<le> pr_rev row))"
proof -
  obtain b d2 where bt: "pg_BeginTx d = (b, d2)" by (metis surj_pair)
  have "pg_above (pg_xid d) (no_lost d) d" by (simp add: pg_above_def)
  with bt have v: "pg_above (pg_xid d) (no_lost d) d2" "pg_view d2 = pg_view d"
    unfolding pg_BeginTx_def using pg_exec_read [where f = "\<lambda>_. Ok BeginTx"] by blast+
  then have s: "tx_since d BeginTx d2" and nl: "no_lost d \<Longrightarrow> no_lost d2" by (auto simp: pg_above_def intro: tx_since_begin)
  from bt consider "b = Ok BeginTx" | err where "b = Err err" by (auto simp: pg_BeginTx_def elim!: pg_exec_cases)
  then show ?thesis
  proof cases
    case 1
    obtain q cs' h' tx d3 where loop: "pg_Commit_loop lb cmds h BeginTx d2 = (q, cs', h', tx, d3)" by (metis surj_pair)
    from pg_Commit_loop_since [OF loop s assms(2)]
    have w: "tx_since d tx d3" "no_lost d \<Longrightarrow> no_lost d3" "q = Ok () \<Longrightarrow> length (tx_rows tx) = committables cmds"
      using nl by (auto simp: BeginTx_def)
    have rows: "sorted_wrt (<) (map pr_rev (tx_rows tx))" "\<forall>row\<in>set (tx_rows tx). pg_revSeq d \<le> pr_rev row"
      using w(1) by (auto simp: tx_since_def)
    show ?thesis
    proof (cases "q = Ok ()")
      case True
      with assms(3) bt 1 loop have "tx_Commit tx d3 = (r, d1)" by (auto simp: pg_Commit_def split: prod.splits)
      from tx_Commit_since [OF assms(1) w(1) this] w(2,3) True rows show ?thesis by auto
    next
      case False
      with assms(3) bt 1 loop have "r = q" "d1 = tx_Rollback tx d3" by (auto simp: pg_Commit_def split: outcome.splits)
      with tx_Rollback_since [OF assms(1) w(1)] False show ?thesis by auto
    qed
  next
    case 2
    with assms(3) bt have "r \<noteq> Ok ()" "d1 = d2" by (auto simp: pg_Commit_def)
    with v pg_ok_idle [OF assms(1) s] show ?thesis by (auto simp: pg_view_def)
  qed
qed

definition pg_first :: "unit outcome \<times> Command list \<times> heap \<times> pg_db" where
  "pg_first = pg_Commit wire_libs [TransitCmd (Transit (Some 0) ''f'')] [0 \<mapsto> new_ctx ''a''] Migrations"

lemma pg_first_commit: "pg_Commit wire_libs [TransitCmd (Transit (Some 0) ''f'')] [0 \<mapsto> new_ctx ''a''] Migrations
    = (Ok (), fst (snd pg_first), fst (snd (snd pg_first)), snd (snd (snd pg_first)))"
proof -
  have "fst pg_first = Ok ()" by code_simp
  then show ?thesis by (simp add: pg_first_def prod_eq_iff)
qed

lemma Migrations_ok [simp]: "pg_ok Migrations"
  by (simp add: pg_ok_def Migrations_def)

text \<open>
  C6: a commit is atomic, whatever goes wrong. When it succeeds there is one new row for each transit and park,
  in their order, under increasing revisions that nobody had before. When it fails, at any statement or in
  a sub command, there is none, except that a failure to hear the answer of the last step may leave them
  all. In every case the tables stay consistent, so that the latest revision of an id is that of its last
  row, and no transaction is left open.
\<close>

theorem pg_commit_atomic:
  assumes "pg_ok d" "wf_heap h" "pg_Commit lb cmds h d = (r, cs, h1, d1)"
  shows "pg_ok d1 \<and> pg_active d1 = pg_active d \<and> (\<exists>new. pg_states d1 = pg_states d @ new
    \<and> (new = [] \<or> length new = committables cmds) \<and> (r = Ok () \<longrightarrow> length new = committables cmds)
    \<and> (r \<noteq> Ok () \<and> no_lost d \<longrightarrow> new = [])
    \<and> sorted_wrt (<) (map pr_rev new) \<and> (\<forall>row\<in>set new. pg_revSeq d \<le> pr_rev row))"
  using assms by (rule pg_commit_outcome)

theorem pg_commit_atomic_witness:
  "pg_ok (snd (snd (snd pg_first))) \<and> pg_active (snd (snd (snd pg_first))) = []
    \<and> (\<exists>row. pg_states (snd (snd (snd pg_first))) = [row] \<and> 1 \<le> pr_rev row)"
  using pg_commit_atomic [OF Migrations_ok wf_heap_new(1) pg_first_commit]
  by (auto simp: Migrations_def committables_def Transit_def length_Suc_conv)

section \<open>States that PostgreSQL takes\<close>

definition pg_storable :: "State \<Rightarrow> bool" where
  "pg_storable s \<longleftrightarrow> wf_State s \<and> in_i64 (s_Rev s) \<and> utf8_State s \<and> \<not> json_nul (fromState s)"

lemma json_nul_jobj: "json_nul (jobj fs) \<longleftrightarrow> (\<exists>(k, v)\<in>set fs. \<exists>j. v = Some j \<and> (CHR 0x00 \<in> set k \<or> json_nul j))"
  by (force simp: jobj_def list_ex_iff List.map_filter_def)

lemma jsonb_print: "json_utf8 j \<Longrightarrow> \<not> json_nul j \<Longrightarrow> jsonb (json_print j) = Ok j"
  by (simp add: jsonb_def json_parse_print)

lemma jsonb_map_js:
  assumes "gm_wf m" "utf8_map m" "m = None \<or> \<not> json_nul (map_json m)"
  shows "jsonb_map m = Ok (js_map m)"
proof (cases m)
  case None
  then show ?thesis by (simp add: jsonb_map_def js_map_def)
next
  case (Some es)
  have "json_utf8 (map_json m)" using assms(2) by (auto simp: Some map_json_def utf8_map_def list_all_iff)
  with assms Some map_value_json [OF assms(1)] show ?thesis by (simp add: jsonb_map_def jsonb_print)
qed

lemma storable_args: "pg_storable s \<Longrightarrow> state_args s = Ok (fromState s, js_map (s_Labels s))"
proof -
  assume s: "pg_storable s"
  then have "jsonb (State_MarshalJSON s) = Ok (fromState s)"
    by (simp add: pg_storable_def State_MarshalJSON_def jsonb_print json_utf8_State)
  moreover have "pg_text (s_ID s) = Ok ()" "s_Labels s = None \<or> \<not> json_nul (map_json (s_Labels s))"
    using s by (cases "s_ID s = []", auto simp: pg_storable_def pg_text_def utf8_State_def fromState_def json_nul_jobj
        opt_str_def opt_map_def split: if_splits)
  moreover have "gm_wf (s_Labels s)" "utf8_map (s_Labels s)" using s by (simp_all add: pg_storable_def wf_State_def utf8_State_def)
  ultimately show ?thesis by (simp add: state_args_def jsonb_map_js)
qed

text \<open>A storable state is written as it is, and comes back under its new revision.\<close>

definition row_of :: "nat \<Rightarrow> int \<Rightarrow> State \<Rightarrow> pg_row" where
  "row_of xid rv s = \<lparr>pr_xid = xid, pr_rev = rv, pr_id = s_ID s, pr_state = fromState s, pr_labels = js_map (s_Labels s)\<rparr>"

lemma row_of_simps [simp]:
  "pr_xid (row_of xid rv s) = xid" "pr_rev (row_of xid rv s) = rv" "pr_id (row_of xid rv s) = s_ID s"
  "pr_labels (row_of xid rv s) = js_map (s_Labels s)"
  by (simp_all add: row_of_def)

lemma scan_row [simp]:
  "pg_storable s \<Longrightarrow> scan_state (pr_state (row_of xid rv s)) rv' = Ok ((js_State s)\<lparr>s_Rev := rv'\<rparr>)"
  by (simp add: scan_state_def row_of_def pg_storable_def toState_from)

lemma InsertState_run:
  assumes "pg_storable s" "s_ID s \<noteq> []" "s_Rev s = 0" "pg_faults d = []" "latest_in tx d (s_ID s) = None" "pg_revSeq d < 2 ^ 63"
    and "tx_assign tx d = (xid, tx1, d1)"
  shows "InsertState tx s d = (Ok (s\<lparr>s_Rev := pg_revSeq d\<rparr>),
    tx1\<lparr>tx_rows := tx_rows tx1 @ [row_of xid (pg_revSeq d) s], tx_latest := (tx_latest tx1)(s_ID s \<mapsto> pg_revSeq d)\<rparr>,
    d1\<lparr>pg_revSeq := pg_revSeq d + 1\<rparr>)"
proof -
  have "pg_revSeq d1 = pg_revSeq d" using assms(7) by (auto simp: tx_assign_def split: option.splits)
  with assms show ?thesis
    by (simp add: InsertState_def pg_exec_def storable_args put_row_def nextval_def row_of_def)
qed

lemma UpdateState_run:
  assumes "pg_storable s" "s_ID s \<noteq> []" "s_Rev s \<noteq> 0" "pg_faults d = []" "latest_in tx d (s_ID s) = Some (s_Rev s)" "pg_revSeq d < 2 ^ 63"
    and "tx_assign tx d = (xid, tx1, d1)"
  shows "UpdateState tx s d = (Ok (s\<lparr>s_Rev := pg_revSeq d\<rparr>),
    tx1\<lparr>tx_rows := tx_rows tx1 @ [row_of xid (pg_revSeq d) s], tx_latest := (tx_latest tx1)(s_ID s \<mapsto> pg_revSeq d)\<rparr>,
    d1\<lparr>pg_revSeq := pg_revSeq d + 1\<rparr>)"
proof -
  have "pg_revSeq d1 = pg_revSeq d" using assms(7) by (auto simp: tx_assign_def split: option.splits)
  with assms show ?thesis
    by (simp add: UpdateState_def pg_exec_def storable_args put_row_def nextval_def row_of_def)
qed

section \<open>A context that is behind\<close>

text \<open>The state that a commit writes for a context after a transit to \<open>to\<close>.\<close>

definition transit_state :: "'c libs \<Rightarrow> string \<Rightarrow> StateCtx \<Rightarrow> pg_db \<Rightarrow> State" where
  "transit_state lb to c d = (norm_State (sc_Current c))\<lparr>
     s_Transition := Transition0\<lparr>ts_To := to\<rparr>, s_CommittedAt := time_UnixMilli (UnixMilli (lib_Now lb (pg_revSeq d)))\<rparr>"

lemma Transit_Do_plain:
  assumes "deref h (Some a) = Some c" "to \<noteq> []"
  shows "Transit_Do (Transit (Some a) to) h = (Ok (), store h (Some a)
    (set_Transition (append_Transition c (s_Transition (sc_Current c))) (Transition0\<lparr>ts_To := to\<rparr>)))"
  using assms by (simp add: Transit_Do_def Transit_def with_ctx_def Let_def nextTransitionOrCurrent_def Transition0_def)

lemma pg_Commit_transit:
  assumes "deref h (Some a) = Some c" "to \<noteq> []" "wf_StateCtx c"
  shows "\<exists>c1. sc_Committed c1 = sc_Committed c \<and> s_ID (sc_Current c1) = s_ID (sc_Current c)
    \<and> pg_Commit_loop lb (TransitCmd (Transit (Some a) to) # cmds) h BeginTx d1 =
      (case (if s_Rev (sc_Committed c) > 0 then UpdateState BeginTx (transit_state lb to c d1) d1
             else InsertState BeginTx (transit_state lb to c d1) d1) of
         (Err err, tx, d2) \<Rightarrow> (Err (if isRevMismatchErr err then ErrRevMismatch [s_ID (sc_Current c)]
             else Errorw (if s_Rev (sc_Committed c) > 0 then ''update state: '' else ''insert state: '') err []),
           TransitCmd (Transit (Some a) to) # cmds, store h (Some a) c1, tx, d2)
       | (Panic p, tx, d2) \<Rightarrow> (Panic p, TransitCmd (Transit (Some a) to) # cmds, store h (Some a) c1, tx, d2)
       | (Ok s, tx, d2) \<Rightarrow>
           (case pg_Commit_loop lb cmds (store h (Some a) (reset_Transitions (c1\<lparr>sc_Committed := State_CopyTo s (sc_Committed c1),
               sc_Current := State_CopyTo s (sc_Current c1)\<rparr>))) tx d2 of
              (r, cs, z) \<Rightarrow> (r, TransitCmd (Transit (Some a) to) # cs, z)))"
proof -
  let ?c1 = "set_Transition (append_Transition c (s_Transition (sc_Current c))) (Transition0\<lparr>ts_To := to\<rparr>)"
  let ?up = "s_Rev (sc_Committed c) > 0"
  have wf: "wf_State (sc_Current ?c1)" using assms(3) by (simp add: wf_StateCtx_def wf_State_def set_Transition_def append_Transition_def
      wf_Transition_def Transition0_def)
  have "norm_Transition (Transition0\<lparr>ts_To := to\<rparr>) = Transition0\<lparr>ts_To := to\<rparr>"
    by (simp add: norm_Transition_def Transition0_def norm_map_def)
  then have copied: "(State_CopyTo (sc_Current ?c1) State0)\<lparr>s_CommittedAt := time_UnixMilli (UnixMilli (lib_Now lb (pg_revSeq d1)))\<rparr>
      = transit_state lb to c d1"
    unfolding State_CopyTo_fresh [OF wf] by (simp add: transit_state_def norm_State_def set_Transition_def append_Transition_def)
  obtain q tx d2 where st: "(if ?up then UpdateState BeginTx (transit_state lb to c d1) d1
      else InsertState BeginTx (transit_state lb to c d1) d1) = (q, tx, d2)" by (metis surj_pair)
  have ids: "sc_Committed ?c1 = sc_Committed c" "s_ID (sc_Current ?c1) = s_ID (sc_Current c)"
    by (simp_all add: append_Transition_def)
  have one: "pg_commit_ctx lb BeginTx ?c1 d1 = (case q of
      Err err \<Rightarrow> (Err (if isRevMismatchErr err then ErrRevMismatch [s_ID (sc_Current c)]
        else Errorw (if ?up then ''update state: '' else ''insert state: '') err []), tx, d2)
    | Panic p \<Rightarrow> (Panic p, tx, d2)
    | Ok s \<Rightarrow> (Ok (reset_Transitions (?c1\<lparr>sc_Committed := State_CopyTo s (sc_Committed ?c1),
        sc_Current := State_CopyTo s (sc_Current ?c1)\<rparr>)), tx, d2))"
    unfolding pg_commit_ctx_def copied ids Let_def st by (simp split: outcome.split)
  have com: "committable (TransitCmd (Transit (Some a) to)) = Some (Some a)" by (simp add: Transit_def)
  show ?thesis
    by (rule exI [of _ ?c1], intro conjI, rule ids(1), rule ids(2))
      (simp add: Transit_Do_plain [OF assms(1,2)] com one st split: outcome.split)
qed

lemma latest_in_faults [simp]: "latest_in tx (d\<lparr>pg_faults := fs\<rparr>) = latest_in tx d"
  by (simp add: latest_in_def)

lemma obind_Err_Ok [simp]: "obind x (\<lambda>_. Err e) \<noteq> Ok y"
  by (cases x) simp_all

lemma stale_writes:
  shows "latest_in tx d (s_ID s) \<noteq> Some (s_Rev s) \<Longrightarrow> UpdateState tx s d = (r, tx1, d1) \<Longrightarrow> r \<noteq> Ok s'"
    and "latest_in tx d (s_ID s) \<noteq> None \<Longrightarrow> InsertState tx s d = (q, tx2, d2) \<Longrightarrow> q \<noteq> Ok s'"
proof -
  assume "latest_in tx d (s_ID s) \<noteq> Some (s_Rev s)" "UpdateState tx s d = (r, tx1, d1)"
  then show "r \<noteq> Ok s'"
    by (auto simp: UpdateState_def split: if_splits outcome.splits elim!: pg_exec_cases)
next
  assume "latest_in tx d (s_ID s) \<noteq> None" "InsertState tx s d = (q, tx2, d2)"
  then show "q \<noteq> Ok s'"
    by (auto simp: InsertState_def split: if_splits outcome.splits prod.splits elim!: pg_exec_cases)
qed

lemma stale_errors:
  assumes "pg_storable s" "s_ID s \<noteq> []" "pg_faults d = []"
  shows "s_Rev s \<noteq> 0 \<Longrightarrow> latest_in tx d (s_ID s) \<noteq> Some (s_Rev s) \<Longrightarrow> fst (UpdateState tx s d) = Err ErrNoRows"
    and "s_Rev s = 0 \<Longrightarrow> latest_in tx d (s_ID s) \<noteq> None \<Longrightarrow> pg_revSeq d < 2 ^ 63 \<Longrightarrow> fst (InsertState tx s d) = Err ErrUniqueLatest"
  using assms
  by (auto simp: UpdateState_def InsertState_def pg_exec_def storable_args put_row_def nextval_def tx_assign_def
      split: option.split)

text \<open>The latest revision after a commit that wrote the id.\<close>

lemma latest_after:
  assumes "pg_ok d" "wf_heap h" "pg_Commit lb cmds h d = (r, cs, h1, d1)" "pg_latest d1 sid \<noteq> pg_latest d sid"
  shows "\<exists>rv. pg_latest d1 sid = Some rv \<and> pg_revSeq d \<le> rv"
proof -
  obtain new where new: "pg_ok d1" "pg_states d1 = pg_states d @ new" "\<forall>row\<in>set new. pg_revSeq d \<le> pr_rev row"
    using pg_commit_outcome [OF assms(1-3)] by blast
  then have l: "pg_latest d1 = pg_latest d ++ rows_latest new" using assms(1) by (simp add: pg_ok_def)
  with assms(4) obtain rv where rv: "rows_latest new sid = Some rv" by (auto simp: map_add_def split: option.splits)
  with rows_latest_Some [OF this] new(3) l show ?thesis by auto
qed

text \<open>
  C7: no lost updates. Once a commit has written a new revision of an id, a transit of a context that holds
  the revision of before, or any older one, or that takes the id for new, is refused, whatever follows it in
  its commit and whatever else goes wrong, and the log stays as it was. If nothing else goes wrong the error
  is a revision mismatch that names the id.
\<close>

theorem pg_no_lost_update:
  assumes "pg_ok d" "wf_heap h" "pg_Commit lb cmds h d = (Ok (), cs, h1, d1)" "pg_latest d1 sid \<noteq> pg_latest d sid"
    and "wf_heap h2" "deref h2 (Some b) = Some x" "s_ID (sc_Current x) = sid" "s_Rev (sc_Current x) < pg_revSeq d"
    and "to \<noteq> []" "pg_Commit lb (TransitCmd (Transit (Some b) to) # cmds') h2 d1 = (r, cs', h', d')"
  shows "r \<noteq> Ok () \<and> pg_states d' = pg_states d1 \<and> pg_latest d' = pg_latest d1
    \<and> (pg_faults d1 = [] \<and> pg_revSeq d1 < 2 ^ 63 \<and> sid \<noteq> [] \<and> pg_storable (transit_state lb to x d1)
        \<and> s_Rev (sc_Current x) = s_Rev (sc_Committed x) \<and> 0 \<le> s_Rev (sc_Current x) \<longrightarrow> r = Err (ErrRevMismatch [sid]))"
proof -
  let ?up = "s_Rev (sc_Committed x) > 0"
  obtain rv where rv: "pg_latest d1 sid = Some rv" "pg_revSeq d \<le> rv" using latest_after [OF assms(1-4)] by blast
  have ok1: "pg_ok d1" using pg_commit_outcome [OF assms(1-3)] by blast
  have wx: "wf_StateCtx x" by (rule wf_heap_deref [OF assms(5,6)])
  obtain q d2 where bt: "pg_BeginTx d1 = (q, d2)" by (metis surj_pair)
  have "pg_above (pg_xid d1) (no_lost d1) d1" by (simp add: pg_above_def)
  with bt have v: "pg_above (pg_xid d1) (no_lost d1) d2" "pg_view d2 = pg_view d1"
    unfolding pg_BeginTx_def using pg_exec_read [where f = "\<lambda>_. Ok BeginTx"] by blast+
  then have s: "tx_since d1 BeginTx d2" by (auto simp: pg_above_def intro: tx_since_begin)
  show ?thesis
  proof (cases q)
    case (Ok tx0)
    then have b: "pg_BeginTx d1 = (Ok BeginTx, d2)" using bt by (auto simp: pg_BeginTx_def elim!: pg_exec_cases)
    define t where "t = transit_state lb to x d2"
    have t: "s_ID t = sid" "s_Rev t = s_Rev (sc_Current x)" "t = transit_state lb to x d1"
      using assms(7) v(2) by (simp_all add: t_def transit_state_def pg_view_def)
    have l: "latest_in BeginTx d2 (s_ID t) = Some rv" using rv(1) v(2) t(1) by (simp add: latest_in_def BeginTx_def pg_view_def)
    obtain w tx3 d3 where st: "(if ?up then UpdateState BeginTx t d2 else InsertState BeginTx t d2) = (w, tx3, d3)" by (metis surj_pair)
    have "w \<noteq> Ok s'" for s'
      using st stale_writes(1) [of BeginTx d2 t] stale_writes(2) [of BeginTx d2 t] l t(2) assms(8) rv(2)
      by (cases ?up) (fastforce, force)
    then obtain q1 cs1 h3 where loop: "pg_Commit_loop lb (TransitCmd (Transit (Some b) to) # cmds') h2 BeginTx d2 = (q1, cs1, h3, tx3, d3)"
      and q1: "q1 \<noteq> Ok ()" "\<And>err. w = Err err \<Longrightarrow> isRevMismatchErr err \<Longrightarrow> q1 = Err (ErrRevMismatch [sid])"
      using pg_Commit_transit [OF assms(6,9) wx, of lb cmds' d2, folded t_def] st assms(7) by (cases w) auto
    have "tx_since d1 tx3 d3" using pg_Commit_loop_since [OF loop s assms(5)] by blast
    moreover have r: "r = q1" "d' = tx_Rollback tx3 d3" using assms(10) b loop q1(1) by (auto simp: pg_Commit_def split: outcome.splits)
    ultimately have st': "pg_states d' = pg_states d1" "pg_latest d' = pg_latest d1" by (simp_all add: tx_Rollback_def tx_since_def)
    have "r = Err (ErrRevMismatch [sid])"
      if c: "pg_faults d1 = []" "pg_revSeq d1 < 2 ^ 63" "sid \<noteq> []" "pg_storable (transit_state lb to x d1)"
        "s_Rev (sc_Current x) = s_Rev (sc_Committed x)" "0 \<le> s_Rev (sc_Current x)"
    proof -
      have "d2 = d1" using b c(1) by (simp add: pg_BeginTx_def pg_exec_def)
      with c st stale_errors [of t d2 BeginTx] l t assms(8) rv(2)
      have "w = Err ErrNoRows \<or> w = Err ErrUniqueLatest" by (cases ?up) auto
      with q1(2) r(1) show ?thesis by (auto simp: ErrNoRows_def ErrUniqueLatest_def)
    qed
    with r q1(1) st' show ?thesis by auto
  next
    case (Err err)
    with assms(10) bt have "r \<noteq> Ok ()" "d' = d2" "pg_faults d1 \<noteq> []" by (auto simp: pg_Commit_def pg_BeginTx_def pg_exec_def)
    with v(2) show ?thesis by (auto simp: pg_view_def)
  next
    case (Panic p)
    with bt show ?thesis by (auto simp: pg_BeginTx_def elim!: pg_exec_cases)
  qed
qed

theorem pg_no_lost_update_witness:
  "fst (pg_Commit wire_libs [TransitCmd (Transit (Some 0) ''f'')] [0 \<mapsto> new_ctx ''a''] (snd (snd (snd pg_first)))) \<noteq> Ok ()"
proof -
  let ?d = "snd (snd (snd pg_first))"
  obtain r cs h d where c: "pg_Commit wire_libs [TransitCmd (Transit (Some 0) ''f'')] [0 \<mapsto> new_ctx ''a''] ?d = (r, cs, h, d)"
    by (metis surj_pair)
  have "pg_latest ?d ''a'' \<noteq> pg_latest Migrations ''a''" by code_simp
  moreover have "deref [0 \<mapsto> new_ctx ''a''] (Some 0) = Some (new_ctx ''a'')" "s_ID (sc_Current (new_ctx ''a'')) = ''a''"
    "s_Rev (sc_Current (new_ctx ''a'')) < pg_revSeq Migrations" "''f'' \<noteq> []"
    by (simp_all add: deref_def new_ctx_def Migrations_def State0_def)
  ultimately have "r \<noteq> Ok ()"
    using pg_no_lost_update [OF Migrations_ok wf_heap_new(1) pg_first_commit _ wf_heap_new(1) _ _ _ _ c] by blast
  with c show ?thesis by simp
qed

end
