(* ===== verification/PgdriverReads.thy ===== *)
theory PgdriverReads
  imports PgdriverProps
begin

text \<open>
  Reads of the driver on PostgreSQL: what a commit wrote is read back, by its id and in pages; and how a
  reader that follows the log can pass a state by.
\<close>

section \<open>When nothing goes wrong\<close>

lemma pg_exec_run: "pg_faults d = [] \<Longrightarrow> pg_exec keep stmt d = stmt d"
  by (simp add: pg_exec_def)

lemma tx_Commit_run:
  "pg_faults d = [] \<Longrightarrow> tx_Commit tx d
    = (Ok (), tx_end tx (d\<lparr>pg_states := pg_states d @ tx_rows tx, pg_latest := pg_latest d ++ tx_latest tx\<rparr>))"
  by (simp add: tx_Commit_def pg_exec_run)

lemma tx_assign_begin:
  "tx_assign BeginTx d = (pg_xid d, BeginTx\<lparr>tx_xid := Some (pg_xid d)\<rparr>, d\<lparr>pg_xid := Suc (pg_xid d), pg_active := pg_xid d # pg_active d\<rparr>)"
  by (simp add: tx_assign_def BeginTx_def)

lemma row_of_Rev [simp]: "row_of x rv (s\<lparr>s_Rev := r\<rparr>) = (row_of x rv s)\<lparr>pr_state := fromState (s\<lparr>s_Rev := r\<rparr>)\<rparr>"
  by (simp add: row_of_def)

lemma find_append: "find P (xs @ ys) = (case find P xs of None \<Rightarrow> find P ys | Some x \<Rightarrow> Some x)"
  by (induction xs) auto

section \<open>What has been committed is read\<close>

text \<open>
  C8: what is committed is what is read. A transit of a context that holds the latest revision of its id, or
  whose id is new, is committed, and a read by the id then gives the state that was written, under the next
  revision, its maps with their entries and its time in milliseconds.
\<close>

theorem pg_commit_read_back:
  assumes "pg_ok d" "pg_faults d = []" "pg_revSeq d < 2 ^ 63"
    and "deref h (Some a) = Some c" "wf_StateCtx c" "to \<noteq> []" "s_ID (sc_Current c) \<noteq> []" "pg_storable (transit_state lb to c d)"
    and "s_Rev (sc_Current c) = s_Rev (sc_Committed c)" "0 \<le> s_Rev (sc_Current c)"
    and "pg_latest d (s_ID (sc_Current c)) = (if s_Rev (sc_Current c) > 0 then Some (s_Rev (sc_Current c)) else None)"
  shows "\<exists>h1 d1. pg_Commit lb [TransitCmd (Transit (Some a) to)] h d = (Ok (), [TransitCmd (Transit (Some a) to)], h1, d1)
    \<and> (\<forall>h2 b c2. h2 b = Some c2 \<longrightarrow>
        pg_GetStateByID \<lparr>gi_ID = s_ID (sc_Current c), gi_Rev = 0, gi_StateCtx = Some b\<rparr> h2 d1
          = (Ok (), h2(b \<mapsto> CopyToCtx ((js_State (transit_state lb to c d))\<lparr>s_Rev := pg_revSeq d\<rparr>) c2), d1))"
proof -
  define s where "s = transit_state lb to c d"
  let ?n = "pg_revSeq d" and ?d0 = "d\<lparr>pg_xid := Suc (pg_xid d), pg_active := pg_xid d # pg_active d\<rparr>"
  let ?row = "row_of (pg_xid d) ?n s" and ?tx0 = "BeginTx\<lparr>tx_xid := Some (pg_xid d)\<rparr>"
  have s: "s_ID s = s_ID (sc_Current c)" "s_Rev s = s_Rev (sc_Current c)" by (simp_all add: s_def transit_state_def)
  have l: "latest_in BeginTx d = pg_latest d" by (simp add: latest_in_def BeginTx_def)
  define tx where "tx = ?tx0\<lparr>tx_rows := tx_rows ?tx0 @ [?row], tx_latest := (tx_latest ?tx0)(s_ID s \<mapsto> ?n)\<rparr>"
  define d1 where "d1 = snd (tx_Commit tx (?d0\<lparr>pg_revSeq := ?n + 1\<rparr>))"
  have w: "(if s_Rev (sc_Committed c) > 0 then UpdateState BeginTx s d else InsertState BeginTx s d)
      = (Ok (s\<lparr>s_Rev := ?n\<rparr>), tx, ?d0\<lparr>pg_revSeq := ?n + 1\<rparr>)"
    using InsertState_run [of s d BeginTx, OF _ _ _ assms(2) _ assms(3) tx_assign_begin]
      UpdateState_run [of s d BeginTx, OF _ _ _ assms(2) _ assms(3) tx_assign_begin] assms(7-11) s l
    unfolding tx_def s_def [symmetric] by auto
  have b: "pg_BeginTx d = (Ok BeginTx, d)" by (simp add: pg_BeginTx_def pg_exec_run assms(2))
  have com: "tx_Commit tx (?d0\<lparr>pg_revSeq := ?n + 1\<rparr>) = (Ok (), d1)" by (simp add: d1_def tx_Commit_run assms(2))
  obtain h1 where c: "pg_Commit lb [TransitCmd (Transit (Some a) to)] h d = (Ok (), [TransitCmd (Transit (Some a) to)], h1, d1)"
    using pg_Commit_transit [OF assms(4,6,5), of lb "[]" d, folded s_def] w com by (auto simp: pg_Commit_def b)
  have d1: "pg_states d1 = pg_states d @ [?row]" "pg_latest d1 (s_ID s) = Some ?n" "pg_faults d1 = []"
    using assms(2) by (simp_all add: d1_def tx_Commit_run tx_def BeginTx_def)
  have "find (\<lambda>row. pr_id row = s_ID s \<and> Some ?n = Some (pr_rev row)) (pg_states d) = None"
    using assms(1) by (auto simp: find_None_iff pg_ok_def)
  then have f: "find (\<lambda>row. pr_id row = s_ID s \<and> pg_latest d1 (s_ID s) = Some (pr_rev row)) (pg_states d1) = Some ?row"
    by (simp add: d1(1,2) find_append)
  have "pg_text (s_ID s) = Ok ()"
    using storable_args [OF assms(8), folded s_def] by (auto simp: state_args_def obind_Ok_iff)
  then have q: "q_GetStateByID (s_ID s) 0 d1 = (Ok ((js_State s)\<lparr>s_Rev := ?n\<rparr>), d1)"
    using assms(7) s(1) d1(3) f assms(8) by (simp add: q_GetStateByID_def pg_exec_run s_def [symmetric])
  show ?thesis
    by (intro exI conjI allI impI, rule c)
      (use q in \<open>simp add: pg_GetStateByID_def s(1) s_def [symmetric] with_ctx_def deref_def store_def\<close>)
qed

theorem pg_commit_read_back_witness:
  "\<exists>h1 d1. pg_Commit wire_libs [TransitCmd (Transit (Some 0) ''f'')] [0 \<mapsto> new_ctx ''a''] Migrations
      = (Ok (), [TransitCmd (Transit (Some 0) ''f'')], h1, d1)
    \<and> pg_GetStateByID \<lparr>gi_ID = ''a'', gi_Rev = 0, gi_StateCtx = Some 1\<rparr> [1 \<mapsto> StateCtx0] d1
      = (Ok (), [1 \<mapsto> CopyToCtx ((js_State (transit_state wire_libs ''f'' (new_ctx ''a'') Migrations))\<lparr>s_Rev := 1\<rparr>) StateCtx0], d1)"
proof -
  have "pg_storable (transit_state wire_libs ''f'' (new_ctx ''a'') Migrations)" by code_simp
  moreover have "deref [0 \<mapsto> new_ctx ''a''] (Some 0) = Some (new_ctx ''a'')" "s_ID (sc_Current (new_ctx ''a'')) = ''a''"
    "s_Rev (sc_Current (new_ctx ''a'')) = 0" "s_Rev (sc_Committed (new_ctx ''a'')) = 0" "''f'' \<noteq> []"
    "pg_faults Migrations = []" "pg_revSeq Migrations = 1" "pg_latest Migrations ''a'' = None"
    by (simp_all add: deref_def new_ctx_def Migrations_def State0_def StateCtx0_def)
  ultimately show ?thesis
    using pg_commit_read_back [OF Migrations_ok, where h = "[0 \<mapsto> new_ctx ''a'']" and a = 0 and c = "new_ctx ''a''" and to = "''f''" and lb = wire_libs]
    by (fastforce simp: fun_upd_def)
qed

section \<open>A reader that follows the log\<close>

definition since_cmd :: "int \<Rightarrow> GetStatesCommand" where
  "since_cmd r = WithSinceRev (GetStatesByLabels None) r"

lemma page_since:
  assumes "pg_faults d = []" "pg_states d = old @ new" "\<forall>row\<in>set old. pr_rev row \<le> r" "\<forall>row\<in>set new. r < pr_rev row"
    and "length new \<le> 50" "0 \<le> r"
    and "traverse (\<lambda>row. scan_state (pr_state row) (pr_rev row)) (filter (settled d \<circ> pr_xid) (sort_key pr_rev new)) = Ok ss"
    and "length ss \<le> 50"
  shows "pg_GetStates (since_cmd r) d = (Ok ((since_cmd r)\<lparr>gs_Result := Some \<lparr>gsr_States = ss, gsr_More = False\<rparr>\<rparr>), d)"
proof -
  have "filter (\<lambda>row. r < pr_rev row) (old @ new) = new"
    using assms(3,4) by (auto simp: filter_empty_conv filter_id_conv)
  then have "page_rows False [] r zero_time 51 d = filter (settled d \<circ> pr_xid) (sort_key pr_rev new)"
    using assms(2,5,6) by (simp add: page_rows_def row_labels_def row_since_def row_time_def IsZero_def)
  moreover have "i64 51 = 51" by (simp add: in_i64_small)
  ultimately show ?thesis
    using assms(1,7,8)
    by (simp add: pg_GetStates_def since_cmd_def WithSinceRev_def GetStatesByLabels_def WithORLabels_def gm_len_def
        GetStatesDefaultLimit_def getStatesByLabels_def pg_exec_run)
qed

definition fresh_state :: "pg_db \<Rightarrow> State \<Rightarrow> bool" where
  "fresh_state d s \<longleftrightarrow> pg_storable s \<and> s_ID s \<noteq> [] \<and> s_Rev s = 0 \<and> pg_latest d (s_ID s) = None"

lemma Insert_fresh:
  assumes "fresh_state d s" "pg_faults e = []" "pg_revSeq e < 2 ^ 63" "pg_latest e = pg_latest d" "tx_latest tx (s_ID s) = None"
    and "tx_assign tx e = (xid, tx1, e1)"
  shows "InsertState tx s e = (Ok (s\<lparr>s_Rev := pg_revSeq e\<rparr>),
    tx1\<lparr>tx_rows := tx_rows tx1 @ [row_of xid (pg_revSeq e) s], tx_latest := (tx_latest tx1)(s_ID s \<mapsto> pg_revSeq e)\<rparr>,
    e1\<lparr>pg_revSeq := pg_revSeq e + 1\<rparr>)"
  using assms by (intro InsertState_run) (simp_all add: fresh_state_def latest_in_def map_add_def)

text \<open>The state of a row as it is read.\<close>

definition read_as :: "State \<Rightarrow> int \<Rightarrow> State" where
  "read_as s rv = (js_State s)\<lparr>s_Rev := rv\<rparr>"

text \<open>
  C24: a reader that follows the log can miss a state. A transaction that commits two states writes the first;
  another transaction writes its state, and takes the revision between the two; the first one writes its
  second state and commits. A reader now sees both states of the first transaction, though the other
  one still runs, and goes on behind them; the state of the other transaction, once that has
  committed, lies before that point, and no later read of the reader has it.
\<close>

theorem pg_reader_misses_state:
  assumes "pg_ok d" "pg_active d = []" "pg_faults d = []" "pg_revSeq d + 2 < 2 ^ 63"
    and "fresh_state d s1" "fresh_state d s2" "fresh_state d s3" "s_ID s1 \<noteq> s_ID s3"
  shows "\<exists>tx1 tx1' tx2 d1 d2 d3 d4 d5.
      InsertState BeginTx s1 d = (Ok (s1\<lparr>s_Rev := pg_revSeq d\<rparr>), tx1, d1)
    \<and> InsertState BeginTx s2 d1 = (Ok (s2\<lparr>s_Rev := pg_revSeq d + 1\<rparr>), tx2, d2)
    \<and> InsertState tx1 s3 d2 = (Ok (s3\<lparr>s_Rev := pg_revSeq d + 2\<rparr>), tx1', d3)
    \<and> tx_Commit tx1' d3 = (Ok (), d4) \<and> tx_Commit tx2 d4 = (Ok (), d5)
    \<and> pg_GetStates (since_cmd (pg_revSeq d - 1)) d4 = (Ok ((since_cmd (pg_revSeq d - 1))\<lparr>gs_Result :=
        Some \<lparr>gsr_States = [read_as s1 (pg_revSeq d), read_as s3 (pg_revSeq d + 2)], gsr_More = False\<rparr>\<rparr>), d4)
    \<and> pg_GetStates (since_cmd (pg_revSeq d + 2)) d5 = (Ok ((since_cmd (pg_revSeq d + 2))\<lparr>gs_Result :=
        Some \<lparr>gsr_States = [], gsr_More = False\<rparr>\<rparr>), d5)
    \<and> pg_GetStates (since_cmd (pg_revSeq d - 1)) d5 = (Ok ((since_cmd (pg_revSeq d - 1))\<lparr>gs_Result :=
        Some \<lparr>gsr_States = [read_as s1 (pg_revSeq d), read_as s2 (pg_revSeq d + 1), read_as s3 (pg_revSeq d + 2)],
          gsr_More = False\<rparr>\<rparr>), d5)"
proof -
  let ?n = "pg_revSeq d" and ?x = "pg_xid d"
  let ?r1 = "row_of ?x ?n s1" and ?r2 = "row_of (Suc ?x) (?n + 1) s2" and ?r3 = "row_of ?x (?n + 2) s3"
  define tx1 where "tx1 = \<lparr>tx_xid = Some ?x, tx_rows = [?r1], tx_latest = [s_ID s1 \<mapsto> ?n]\<rparr>"
  define tx2 where "tx2 = \<lparr>tx_xid = Some (Suc ?x), tx_rows = [?r2], tx_latest = [s_ID s2 \<mapsto> ?n + 1]\<rparr>"
  define tx1' where "tx1' = \<lparr>tx_xid = Some ?x, tx_rows = [?r1, ?r3], tx_latest = [s_ID s1 \<mapsto> ?n, s_ID s3 \<mapsto> ?n + 2]\<rparr>"
  define d1 where "d1 = d\<lparr>pg_xid := Suc ?x, pg_active := [?x], pg_revSeq := ?n + 1\<rparr>"
  define d2 where "d2 = d\<lparr>pg_xid := Suc (Suc ?x), pg_active := [Suc ?x, ?x], pg_revSeq := ?n + 2\<rparr>"
  define d3 where "d3 = d2\<lparr>pg_revSeq := ?n + 3\<rparr>"
  define d4 where "d4 = snd (tx_Commit tx1' d3)"
  define d5 where "d5 = snd (tx_Commit tx2 d4)"
  have f: "pg_faults d3 = []" "pg_faults d4 = []" by (simp_all add: d2_def d3_def d4_def tx_Commit_run assms(3))
  have ins: "InsertState BeginTx s1 d = (Ok (s1\<lparr>s_Rev := ?n\<rparr>), tx1, d1)"
    "InsertState BeginTx s2 d1 = (Ok (s2\<lparr>s_Rev := ?n + 1\<rparr>), tx2, d2)"
    "InsertState tx1 s3 d2 = (Ok (s3\<lparr>s_Rev := ?n + 2\<rparr>), tx1', d3)"
    using assms(2-4,8) Insert_fresh [OF assms(5), of d BeginTx, OF _ _ _ _ tx_assign_begin]
      Insert_fresh [OF assms(6), of d1 BeginTx, OF _ _ _ _ tx_assign_begin] Insert_fresh [OF assms(7), of d2 tx1 ?x tx1 d2]
    by (simp_all add: BeginTx_def tx1_def d1_def tx2_def d2_def tx1'_def d3_def tx_assign_def)
  have com: "tx_Commit tx1' d3 = (Ok (), d4)" "tx_Commit tx2 d4 = (Ok (), d5)"
    by (simp_all add: d4_def d5_def tx_Commit_run f)
  have d4: "pg_faults d4 = []" "pg_states d4 = pg_states d @ [?r1, ?r3]" "pg_active d4 = [Suc ?x]" "pg_xid d4 = Suc (Suc ?x)"
    by (simp_all add: d2_def d3_def d4_def tx_Commit_run tx1'_def assms(3) tx_end_def)
  have d5: "pg_faults d5 = []" "pg_states d5 = pg_states d @ [?r1, ?r3] @ [?r2]" "pg_active d5 = []" "pg_xid d5 = Suc (Suc ?x)"
    using d4 by (simp_all add: d5_def tx_Commit_run tx2_def tx_end_def)
  have old: "\<forall>row\<in>set (pg_states d). pr_rev row \<le> ?n - 1" "0 \<le> ?n - 1" using assms(1) by (auto simp: pg_ok_def)
  have st: "pg_storable s1" "pg_storable s2" "pg_storable s3" using assms(5-7) by (simp_all add: fresh_state_def)
  note vis = settled_def snapshot_xmin_def read_as_def
  have "pg_GetStates (since_cmd (?n - 1)) d4 = (Ok ((since_cmd (?n - 1))\<lparr>gs_Result :=
      Some \<lparr>gsr_States = [read_as s1 ?n, read_as s3 (?n + 2)], gsr_More = False\<rparr>\<rparr>), d4)"
    by (rule page_since [OF d4(1,2) old(1)]) (use old(2) d4(3,4) st in \<open>simp_all add: vis\<close>)
  moreover have "pg_GetStates (since_cmd (?n + 2)) d5 = (Ok ((since_cmd (?n + 2))\<lparr>gs_Result :=
      Some \<lparr>gsr_States = [], gsr_More = False\<rparr>\<rparr>), d5)"
    by (rule page_since [where old = "pg_states d5" and new = "[]"]) (use d5 old in \<open>auto\<close>)
  moreover have "pg_GetStates (since_cmd (?n - 1)) d5 = (Ok ((since_cmd (?n - 1))\<lparr>gs_Result :=
      Some \<lparr>gsr_States = [read_as s1 ?n, read_as s2 (?n + 1), read_as s3 (?n + 2)], gsr_More = False\<rparr>\<rparr>), d5)"
    by (rule page_since [OF d5(1,2) old(1)]) (use old(2) d5(3,4) st in \<open>simp_all add: vis\<close>)
  ultimately show ?thesis using ins com by blast
qed

theorem pg_reader_misses_state_witness:
  "\<exists>d4 d5. pg_GetStates (since_cmd 0) d4 = (Ok ((since_cmd 0)\<lparr>gs_Result := Some \<lparr>gsr_States =
        [read_as (State0\<lparr>s_ID := ''a''\<rparr>) 1, read_as (State0\<lparr>s_ID := ''c''\<rparr>) 3], gsr_More = False\<rparr>\<rparr>), d4)
    \<and> pg_GetStates (since_cmd 3) d5 = (Ok ((since_cmd 3)\<lparr>gs_Result := Some \<lparr>gsr_States = [], gsr_More = False\<rparr>\<rparr>), d5)"
proof -
  have "list_all (\<lambda>i. fresh_state Migrations (State0\<lparr>s_ID := i\<rparr>)) [''a'', ''b'', ''c'']" by code_simp
  then have f: "fresh_state Migrations (State0\<lparr>s_ID := ''a''\<rparr>)" "fresh_state Migrations (State0\<lparr>s_ID := ''b''\<rparr>)"
    "fresh_state Migrations (State0\<lparr>s_ID := ''c''\<rparr>)" by simp_all
  have m: "pg_active Migrations = []" "pg_faults Migrations = []" "pg_revSeq Migrations + 2 < 2 ^ 63"
    "s_ID (State0\<lparr>s_ID := ''a''\<rparr>) \<noteq> s_ID (State0\<lparr>s_ID := ''c''\<rparr>)" "pg_revSeq Migrations = 1"
    by (simp_all add: Migrations_def)
  show ?thesis using pg_reader_misses_state [OF Migrations_ok m(1-3) f m(4)] unfolding m(5) by (simp, blast)
qed

end
