(* ===== verification/PgdriverIter.thy ===== *)
theory PgdriverIter
  imports PgdriverReads IterProps "HOL-Library.Multiset"
begin

text \<open>
  Iterators over the driver on PostgreSQL: while no transaction runs, its reads are those of a source whose
  pages tell truly whether there is more.
\<close>

section \<open>The matching states\<close>

definition stored_labels :: "GetStatesCommand \<Rightarrow> strmap list" where
  "stored_labels c = (case traverse jsonb_map (gs_Labels c) of Ok ls \<Rightarrow> ls | _ \<Rightarrow> [])"

definition pg_wanted :: "pg_db \<Rightarrow> GetStatesCommand \<Rightarrow> pg_row \<Rightarrow> bool" where
  "pg_wanted d c row \<longleftrightarrow> (gs_LatestOnly c \<longrightarrow> pg_latest d (pr_id row) = Some (pr_rev row))
    \<and> row_labels (stored_labels c) row \<and> row_time (gs_SinceTime c) row"

definition read_row :: "pg_row \<Rightarrow> State" where
  "read_row row = (case scan_state (pr_state row) (pr_rev row) of Ok s \<Rightarrow> s | _ \<Rightarrow> State0)"

text \<open>The states of the rows that pass the filters of \<open>c\<close>, behind \<open>r\<close>, by their revisions.\<close>

definition pg_matches :: "pg_db \<Rightarrow> GetStatesCommand \<Rightarrow> int \<Rightarrow> State list" where
  "pg_matches d c r = map read_row (sort_key pr_rev (filter (\<lambda>row. pg_wanted d c row \<and> r < pr_rev row) (pg_states d)))"

definition pg_readable :: "pg_row \<Rightarrow> bool" where
  "pg_readable row \<longleftrightarrow> scan_state (pr_state row) (pr_rev row) = Ok (read_row row)"

definition pg_source_ready :: "pg_db \<Rightarrow> GetStatesCommand \<Rightarrow> bool" where
  "pg_source_ready d c \<longleftrightarrow> pg_ok d \<and> pg_active d = [] \<and> pg_faults d = [] \<and> list_all pg_readable (pg_states d)
    \<and> traverse jsonb_map (gs_Labels c) = Ok (stored_labels c) \<and> 0 < gs_Limit c \<and> gs_Limit c + 1 < 2 ^ 63"

lemma readable_rev: "pg_readable row \<Longrightarrow> s_Rev (read_row row) = pr_rev row"
  by (auto simp: pg_readable_def scan_state_def obind_Ok_iff dest: sym)

lemma traverse_readable: "list_all (\<lambda>x. f x = Ok (g x)) xs \<Longrightarrow> traverse f xs = Ok (map g xs)"
  by (induction xs) simp_all

lemma all_settled: "pg_ok d \<Longrightarrow> pg_active d = [] \<Longrightarrow> row \<in> set (pg_states d) \<Longrightarrow> settled d (pr_xid row)"
  by (simp add: pg_ok_def settled_def snapshot_xmin_def)

lemma pg_matches_revs:
  assumes "pg_source_ready d c0"
  shows "sorted_wrt (<) (map s_Rev (pg_matches d c r))" "x \<in> set (pg_matches d c r) \<Longrightarrow> r < s_Rev x \<and> 0 < s_Rev x"
    and "r \<le> r' \<Longrightarrow> pg_matches d c r' = filter (\<lambda>s. r' < s_Rev s) (pg_matches d c r)"
proof -
  let ?rows = "\<lambda>r. filter (\<lambda>row. pg_wanted d c row \<and> r < pr_rev row) (pg_states d)"
  have rd: "row \<in> set (pg_states d) \<Longrightarrow> s_Rev (read_row row) = pr_rev row" for row
    using assms by (auto simp: pg_source_ready_def list_all_iff intro: readable_rev)
  have dist: "distinct (map pr_rev (pg_states d))" using assms by (simp add: pg_source_ready_def pg_ok_def)
  have revs: "map s_Rev (pg_matches d c r) = map pr_rev (sort_key pr_rev (?rows r))" for r
    by (auto simp: pg_matches_def rd)
  have "distinct (map pr_rev (?rows r))" using dist by (simp add: distinct_map inj_on_def)
  then have "distinct (map pr_rev (sort_key pr_rev (?rows r)))" by (simp add: distinct_map)
  then show "sorted_wrt (<) (map s_Rev (pg_matches d c r))" unfolding revs strict_sorted_iff by simp
  show "r < s_Rev x \<and> 0 < s_Rev x" if "x \<in> set (pg_matches d c r)"
    using that assms by (auto simp: pg_matches_def rd pg_source_ready_def pg_ok_def)
  show "pg_matches d c r' = filter (\<lambda>s. r' < s_Rev s) (pg_matches d c r)" if "r \<le> r'"
  proof -
    have "filter (\<lambda>s. r' < s_Rev s) (pg_matches d c r) = map read_row (filter (\<lambda>row. r' < pr_rev row) (sort_key pr_rev (?rows r)))"
      by (auto simp: pg_matches_def filter_map comp_def rd intro!: arg_cong [of _ _ "map _"] filter_cong)
    also have "\<dots> = pg_matches d c r'"
      using that by (auto simp: pg_matches_def filter_sort intro!: arg_cong [of _ _ "map _"] arg_cong [of _ _ "sort_key _"] filter_cong)
    finally show ?thesis by simp
  qed
qed

lemma pg_matches_rest:
  assumes "pg_source_ready d c0" "pg_matches d c r = xs @ ys" "xs \<noteq> []"
  shows "pg_matches d c (s_Rev (last xs)) = ys"
proof -
  note m = pg_matches_revs [OF assms(1), where c = c and r = r]
  have sorted: "sorted_wrt (\<lambda>x y. s_Rev x < s_Rev y) (xs @ ys)" using m(1) unfolding assms(2) sorted_wrt_map .
  then have "\<forall>y \<in> set ys. s_Rev (last xs) < s_Rev y" using assms(3) by (simp add: sorted_wrt_append)
  moreover have "\<forall>x \<in> set xs. s_Rev x \<le> s_Rev (last xs)"
    using sorted sorted_last [of s_Rev xs] by (simp add: sorted_wrt_append)
  moreover have "r \<le> s_Rev (last xs)" using m(2) [of "last xs"] assms(2,3) by simp
  ultimately show ?thesis
    using m(3) assms(2) by (simp add: filter_id_conv filter_empty_conv not_less)
qed

lemma pg_page:
  assumes "pg_source_ready d c0" "same_filters c c0" "0 \<le> gs_SinceRev c"
  shows "\<exists>res. pg_GetStates c d = (Ok (c\<lparr>gs_Result := Some res\<rparr>), d) \<and> page_of True (psize c0) (pg_matches d c0 (gs_SinceRev c)) res"
proof -
  let ?n = "Suc (nat (gs_Limit c0))" and ?r = "gs_SinceRev c"
  let ?rows = "sort_key pr_rev (filter (\<lambda>row. pg_wanted d c0 row \<and> ?r < pr_rev row) (pg_states d))"
  define ss where "ss = take ?n (pg_matches d c0 ?r)"
  have r: "pg_ok d" "pg_active d = []" "pg_faults d = []" "list_all pg_readable (pg_states d)"
    "traverse jsonb_map (gs_Labels c0) = Ok (stored_labels c0)" "0 < gs_Limit c0" "gs_Limit c0 + 1 < 2 ^ 63"
    using assms(1) by (simp_all add: pg_source_ready_def)
  have c: "gs_SinceTime c = gs_SinceTime c0" "gs_Labels c = gs_Labels c0" "gs_LatestOnly c = gs_LatestOnly c0" "gs_Limit c = gs_Limit c0"
    using assms(2) by (simp_all add: same_filters_def)
  have lim: "i64 (gs_Limit c0 + 1) = gs_Limit c0 + 1" "nat (gs_Limit c0 + 1) = ?n" "int (nat (gs_Limit c0)) = gs_Limit c0"
    using r(6,7) by (simp_all add: in_i64_small)
  have sub: "set (take ?n ?rows) \<subseteq> set (pg_states d)" by (auto dest: in_set_takeD)
  then have "filter (settled d \<circ> pr_xid) (take ?n ?rows) = take ?n ?rows"
    using all_settled [OF r(1,2)] by (auto simp: filter_id_conv)
  then have "page_rows (gs_LatestOnly c0) (stored_labels c0) ?r (gs_SinceTime c0) ?n d = take ?n ?rows"
    using assms(3) by (simp add: page_rows_def row_since_def pg_wanted_def conj_ac)
  moreover have "traverse (\<lambda>row. scan_state (pr_state row) (pr_rev row)) (take ?n ?rows) = Ok ss"
    unfolding ss_def pg_matches_def take_map using sub r(4) by (intro traverse_readable) (auto simp: list_all_iff pg_readable_def)
  ultimately have g: "getStatesByLabels (gs_LatestOnly c0) (gs_Labels c0) ?r (gs_SinceTime c0) ?n d = (Ok ss, d)"
    by (simp add: getStatesByLabels_def pg_exec_run r(3,5))
  let ?res = "\<lparr>gsr_States = take (nat (gs_Limit c0)) ss, gsr_More = int (length ss) > gs_Limit c0\<rparr>"
  have "pg_GetStates c d = (Ok (c\<lparr>gs_Result := Some ?res\<rparr>), d)"
    using r(6) by (simp add: pg_GetStates_def c lim g)
  moreover have "page_of True (psize c0) (pg_matches d c0 ?r) ?res"
    using lim(3) r(6) by (auto simp: page_of_def psize_def ss_def min_def)
  ultimately show ?thesis by blast
qed

interpretation pg_source: states_source "pg_Driver lb" pg_source_ready pg_matches True
proof (unfold_locales, goal_cases)
  case (1 d c0)
  then show ?case by (simp add: pg_source_ready_def psize_def)
next
  case (2 d c0 c)
  from pg_page [OF this] show ?case by (simp add: pg_Driver_def)
next
  case (3 d c0 r xs ys)
  then show ?case by (rule pg_matches_rest)
next
  case (4 d c0 x r)
  with pg_matches_revs(2) [OF this(1)] show ?case by blast
qed

section \<open>An iterator over the log\<close>

text \<open>Later commits add to what there is to visit.\<close>

lemma pg_matches_grow:
  assumes "pg_source_ready d1 c" "pg_source_ready d2 c" "\<not> gs_LatestOnly c"
    and "pg_states d2 = pg_states d1 @ new" "\<forall>row\<in>set new. pg_revSeq d1 \<le> pr_rev row"
  shows "\<exists>ys. pg_matches d2 c r = pg_matches d1 c r @ ys"
proof -
  let ?P = "\<lambda>row. pg_wanted d2 c row \<and> r < pr_rev row"
  have w: "pg_wanted d1 c = pg_wanted d2 c" using assms(3) by (simp add: pg_wanted_def fun_eq_iff)
  have "pr_rev a \<le> pr_rev b" if "a \<in> set (pg_states d1)" "b \<in> set new" for a b
    using that assms(1,5) by (fastforce simp: pg_source_ready_def pg_ok_def)
  then have "sorted (map pr_rev (sort_key pr_rev (filter ?P (pg_states d1)) @ sort_key pr_rev (filter ?P new)))"
    by (auto simp: sorted_append)
  moreover have "inj_on pr_rev (set (filter ?P (pg_states d2)))"
    using assms(2) by (auto simp: pg_source_ready_def pg_ok_def distinct_map intro: inj_on_subset)
  ultimately have "sort_key pr_rev (filter ?P (pg_states d2))
      = sort_key pr_rev (filter ?P (pg_states d1)) @ sort_key pr_rev (filter ?P new)"
    by (intro sort_key_inj_key_eq) (simp_all add: assms(4))
  then show ?thesis by (simp add: pg_matches_def w)
qed

text \<open>
  C9: an iterator over PostgreSQL misses nothing as long as no transaction runs when it reads. Run \<open>Next\<close>
  until it says no: it has visited all matching states behind \<open>SinceRev\<close>, each once, in order. Then commits
  add rows, \<open>Wait\<close> is called and \<open>Next\<close> is run again: it has visited all of the old and the new ones.
\<close>

theorem pg_iter_visits_all:
  assumes "pg_source_ready d1 (copyGetStatesCmd cmd)" "pg_source_ready d2 (copyGetStatesCmd cmd)"
    and "pg_states d2 = pg_states d1 @ new" "\<forall>row\<in>set new. pg_revSeq d1 \<le> pr_rev row"
    and "\<not> gs_LatestOnly cmd" "0 \<le> gs_SinceRev cmd"
    and "length (pg_matches d2 (copyGetStatesCmd cmd) (gs_SinceRev cmd)) < n"
    and "drain (pg_Driver lb) (Plain d1) n (NewIter cmd) = (v1, it1)"
    and "Wait (pg_Driver lb) [Plain d2] it1 = (r, it2)"
    and "drain (pg_Driver lb) (Plain d2) n it2 = (v2, it3)"
  shows "v1 = pg_matches d1 (copyGetStatesCmd cmd) (gs_SinceRev cmd) \<and> r = Ok ()
    \<and> v1 @ v2 = pg_matches d2 (copyGetStatesCmd cmd) (gs_SinceRev cmd)"
proof -
  let ?c = "copyGetStatesCmd cmd" and ?r = "gs_SinceRev cmd"
  let ?M1 = "pg_matches d1 ?c ?r" and ?M2 = "pg_matches d2 ?c ?r"
  obtain ys where M2: "?M2 = ?M1 @ ys"
    using pg_matches_grow [OF assms(1,2) _ assms(3,4)] assms(5) by auto
  have it0: "it_err (NewIter cmd) = None" "it_res (NewIter cmd) = None" "it_Cmd (NewIter cmd) = ?c"
    "same_filters (it_Cmd (NewIter cmd)) ?c" "0 \<le> gs_SinceRev (it_Cmd (NewIter cmd))"
    using assms(6) by (simp_all add: NewIter_def same_filters_def)
  have "length (pg_matches d1 ?c (gs_SinceRev (it_Cmd (NewIter cmd)))) < n"
    using assms(7) M2 by (simp add: it0(3))
  from pg_source.drain_new [OF assms(1) it0(1,2,4,5) this, of lb] have v1: "v1 = ?M1"
    and e1: "at_end ?c it1 (if ?M1 = [] then ?r else s_Rev (last ?M1))"
    by (auto simp: pg_source.visits_def it0(3) assms(8) last_conv_nth split: if_splits)
  let ?since = "if ?M1 = [] then ?r else s_Rev (last ?M1)"
  have rest: "pg_matches d2 ?c ?since = ys"
    using pg_matches_rest [OF assms(2) M2] M2 by auto
  have "0 \<le> ?since" using assms(6) pg_matches_revs(2) [OF assms(1), of "last ?M1" ?c ?r] by auto
  from pg_source.wait_then_drain [OF assms(2) e1 this _ assms(9), of n] rest M2 assms(7)
  have "r = Ok ()" "v2 = ys" by (auto simp: pg_source.visits_def assms(10))
  with v1 M2 show ?thesis by simp
qed

definition pg_one_row :: pg_db where
  "pg_one_row = Migrations\<lparr>pg_states := [row_of 1 1 (State0\<lparr>s_ID := ''a''\<rparr>)], pg_latest := [''a'' \<mapsto> 1], pg_revSeq := 2, pg_xid := 2\<rparr>"

lemma pg_one_row_ready:
  "pg_source_ready pg_one_row (copyGetStatesCmd all_states)" "pg_source_ready Migrations (copyGetStatesCmd all_states)"
  "map s_ID (pg_matches pg_one_row (copyGetStatesCmd all_states) 0) = [''a'']"
proof -
  let ?s = "State0\<lparr>s_ID := ''a''\<rparr>" and ?c = "copyGetStatesCmd all_states"
  have st: "pg_storable ?s" by code_simp
  have "pg_ok pg_one_row" by (simp add: pg_ok_def pg_one_row_def Migrations_def)
  moreover have c: "traverse jsonb_map (gs_Labels ?c) = Ok (stored_labels ?c)" "stored_labels ?c = []" "gs_Limit ?c = 50"
    "gs_SinceTime ?c = zero_time" "\<not> gs_LatestOnly ?c"
    by (simp_all add: copyGetStatesCmd_def copyORLabels_def all_states_def stored_labels_def)
  moreover have r: "read_row (row_of 1 1 ?s) = (js_State ?s)\<lparr>s_Rev := 1\<rparr>" "pg_readable (row_of 1 1 ?s)"
    by (simp_all add: read_row_def pg_readable_def scan_row [OF st])
  ultimately show "pg_source_ready pg_one_row ?c" "pg_source_ready Migrations ?c"
    by (simp_all add: pg_source_ready_def pg_one_row_def) (simp_all add: Migrations_def)
  show "map s_ID (pg_matches pg_one_row ?c 0) = [''a'']"
    using c by (simp add: pg_matches_def pg_one_row_def pg_wanted_def row_labels_def row_time_def IsZero_def r(1) [simplified])
      (simp add: js_State_def)
qed

theorem pg_iter_visits_all_witness:
  "\<exists>v1 it1 r it2 v2 it3. drain (pg_Driver wire_libs) (Plain Migrations) 5 (NewIter all_states) = (v1, it1)
    \<and> Wait (pg_Driver wire_libs) [Plain pg_one_row] it1 = (r, it2)
    \<and> drain (pg_Driver wire_libs) (Plain pg_one_row) 5 it2 = (v2, it3)
    \<and> map s_ID (v1 @ v2) = [''a''] \<and> r = Ok ()"
proof -
  let ?D = "pg_Driver wire_libs"
  obtain v1 it1 where 1: "drain ?D (Plain Migrations) 5 (NewIter all_states) = (v1, it1)" by fastforce
  obtain r it2 where 2: "Wait ?D [Plain pg_one_row] it1 = (r, it2)" by fastforce
  obtain v2 it3 where 3: "drain ?D (Plain pg_one_row) 5 it2 = (v2, it3)" by fastforce
  have c: "\<not> gs_LatestOnly all_states" "gs_SinceRev all_states = 0" by (simp_all add: all_states_def)
  have "length (pg_matches pg_one_row (copyGetStatesCmd all_states) 0) < 5"
    using arg_cong [OF pg_one_row_ready(3), of length] by simp
  moreover have "pg_states pg_one_row = pg_states Migrations @ pg_states pg_one_row"
    "\<forall>row\<in>set (pg_states pg_one_row). pg_revSeq Migrations \<le> pr_rev row" by (simp_all add: Migrations_def pg_one_row_def)
  ultimately have "v1 @ v2 = pg_matches pg_one_row (copyGetStatesCmd all_states) 0" "r = Ok ()"
    using pg_iter_visits_all [OF pg_one_row_ready(2,1) _ _ c(1) _ _ 1 2 3] unfolding c(2) by blast+
  then have "map s_ID (v1 @ v2) = [''a''] \<and> r = Ok ()" using pg_one_row_ready(3) by metis
  with 1 2 3 show ?thesis
    by (intro exI [of _ v1] exI [of _ it1] exI [of _ r] exI [of _ it2] exI [of _ v2] exI [of _ it3] conjI) simp_all
qed

end
