(* ===== verification/PgdriverData.thy ===== *)
theory PgdriverData
  imports PgdriverReads
begin

text \<open>
  The blobs and the delayed states of the driver on PostgreSQL: what is stored is read back, and where it
  is not.
\<close>

section \<open>Bytes as text\<close>

lemma unhex_hex: "unhex (concat (map (\<lambda>c. [hex_char (byte c div 16), hex_char (byte c mod 16)]) b)) = Some b"
proof (induction b)
  case (Cons c b)
  have "byte c < 256" by (simp add: byte_def)
  then have "byte c div 16 < 16" "byte c mod 16 < 16" by auto
  moreover have "char_of (16 * (byte c div 16) + byte c mod 16) = c" by (simp add: byte_def)
  ultimately show ?case using Cons by (simp add: hex_val_char)
qed simp

lemma pg_bytea_hex [simp]: "pg_bytea (hex_text b) = Ok b"
  by (simp add: pg_bytea_def hex_text_def unhex_hex)

lemma b64_decode_hex [simp]: "b64_decode (hex_text b) = None"
proof -
  have "b64_val (CHR 0x5C) = None" by code_simp
  then have g: "b64_groups (CHR 0x5C # s) = None" for s
    by (cases s rule: b64_groups.cases) (auto split: option.splits)
  then show ?thesis by (simp add: b64_decode_def hex_text_def)
qed

text \<open>Whether the cast of the annotation and \<open>IsBinary\<close> agree.\<close>

definition binary_agrees :: "strmap \<Rightarrow> bool" where
  "binary_agrees m \<longleftrightarrow> (case gm_lookup m ''binary'' of None \<Rightarrow> True | Some t \<Rightarrow> t = ''true'' \<or> pg_bool t = Ok False)"

lemma pg_bool_true: "pg_bool ''true'' = Ok True"
  by code_simp

lemma row_bytes_agree:
  assumes "gm_wf (d_Annotations x)" "binary_agrees (d_Annotations x)"
  shows "row_bytes \<lparr>pa_rev = n, pa_annotations = js_map (d_Annotations x),
    pa_b = map_option (if IsBinary x then b64_encode else hex_text) (d_Blob x)\<rparr> = Ok (d_Blob x)"
proof -
  have l: "gm_lookup (js_map (d_Annotations x)) ''binary'' = gm_lookup (d_Annotations x) ''binary''"
    by (rule gm_lookup_js_map [OF assms(1)])
  then have m: "map_option (\<lambda>m. map_of m ''binary'') (js_map (d_Annotations x))
      = (if d_Annotations x = None then None else Some (gm_lookup (d_Annotations x) ''binary''))"
    by (cases "d_Annotations x") (auto simp: js_map_def gm_lookup_def)
  have b: "IsBinary x \<longleftrightarrow> gm_lookup (d_Annotations x) ''binary'' = Some ''true''"
    by (auto simp: IsBinary_def gm_str_def split: option.splits)
  show ?thesis
    using assms(2)
    by (cases "d_Blob x"; cases "gm_lookup (d_Annotations x) ''binary''")
      (auto simp: row_bytes_def m b binary_agrees_def pg_bool_true)
qed

text \<open>A blob marked with another word for true is stored in hex and read as base64.\<close>

lemma row_bytes_other_word:
  assumes "gm_wf (d_Annotations x)" "gm_lookup (d_Annotations x) ''binary'' = Some t" "t \<noteq> ''true''" "pg_bool t = Ok True" "d_Blob x = Some b"
  shows "row_bytes \<lparr>pa_rev = n, pa_annotations = js_map (d_Annotations x),
    pa_b = map_option (if IsBinary x then b64_encode else hex_text) (d_Blob x)\<rparr> = Err (Errorf ''invalid base64 sequence'')"
proof -
  have "gm_lookup (js_map (d_Annotations x)) ''binary'' = Some t"
    by (simp add: gm_lookup_js_map [OF assms(1)] assms(2))
  then obtain es where es: "js_map (d_Annotations x) = Some es" "map_of es ''binary'' = Some t"
    by (cases "js_map (d_Annotations x)") (auto simp: gm_lookup_def)
  have "\<not> IsBinary x" using assms(2,3) by (simp add: IsBinary_def gm_str_def)
  with es assms(4,5) show ?thesis by (simp add: row_bytes_def)
qed

section \<open>Blobs in a commit\<close>

lemma InsertData_run:
  assumes "pg_faults d = []" "pg_dataSeq d < 2 ^ 63" "jsonb_map (d_Annotations x) = Ok m"
  shows "InsertData x d = (Ok (x\<lparr>d_Rev := pg_dataSeq d\<rparr>), d\<lparr>pg_dataSeq := pg_dataSeq d + 1, pg_data := pg_data d @
    [\<lparr>pa_rev = pg_dataSeq d, pa_annotations = m, pa_b = map_option (if IsBinary x then b64_encode else hex_text) (d_Blob x)\<rparr>]\<rparr>)"
  using assms by (simp add: InsertData_def pg_exec_run nextval_def)

definition pg_data_ok :: "pg_db \<Rightarrow> bool" where
  "pg_data_ok d \<longleftrightarrow> 0 < pg_dataSeq d \<and> pg_dataSeq d < 2 ^ 63 \<and> (\<forall>row\<in>set (pg_data d). pa_rev row < pg_dataSeq d)"

lemma q_GetData_new:
  assumes "pg_faults d1 = []" "pg_data d1 = rows @ [row]" "\<forall>r\<in>set rows. pa_rev r < n" "pa_rev row = n" "n \<noteq> 0"
  shows "q_GetData n y d1 = (case row_bytes row of
      Err err \<Rightarrow> (Err err, y\<lparr>d_Blob := map_option (\<lambda>_. []) (d_Blob y)\<rparr>, d1)
    | Panic p \<Rightarrow> (Panic p, y\<lparr>d_Blob := map_option (\<lambda>_. []) (d_Blob y)\<rparr>, d1)
    | Ok b \<Rightarrow> (Ok (), \<lparr>d_Rev = n, d_Annotations = pa_annotations row, d_Blob = b\<rparr>, d1))"
proof -
  have "find (\<lambda>r. pa_rev r = n) rows = None" using assms(3) by (auto simp: find_None_iff)
  then have "find (\<lambda>r. pa_rev r = n) (pg_data d1) = Some row" using assms(2,4) by (simp add: find_append)
  with assms(1,4,5) show ?thesis by (simp add: q_GetData_def pg_exec_run Let_def split: outcome.split)
qed

lemma pg_GetData_fresh:
  assumes "alias \<noteq> []" "deref h (Some b) = Some c" "dereferenceData c alias = Ok n" "gm_lookup (sc_Datas c) alias = None"
    and "q_GetData n (Data0\<lparr>d_Rev := n\<rparr>) d = (Ok (), y, d)"
  shows "DoCommitSubCommand lb pg_ops (GetDataCmd (GetData (Some b) alias)) h d
    = (Ok (), GetDataCmd (GetData (Some b) alias), store h (Some b) (SetData c alias (Some y)), d)"
proof -
  let ?z = "Data0\<lparr>d_Rev := n\<rparr>"
  have "GetData_Prepare (GetData (Some b) alias) h = (Ok True, store h (Some b) (SetData c alias (Some ?z)))"
    using assms(1-4) by (simp add: GetData_Prepare_def GetData_def with_ctx_def StateCtx_Data_def)
  moreover have "MustData (SetData c alias (Some ?z)) alias = Ok (Some ?z)"
    "SetData (SetData c alias (Some ?z)) alias (Some y) = SetData c alias (Some y)"
    using assms(1) by (simp add: MustData_def StateCtx_Data_def SetData_def, simp add: SetData_def gm_set_def)
  ultimately show ?thesis by (simp add: pg_ops_def pg_GetData_def GetData_def assms(5))
qed

text \<open>
  C10: a blob stored in a commit gets its checksum and the next number of its sequence, under which the context
  refers to it; a context with that reference gets the same bytes back, binary or not, with the same
  annotations. This needs that the annotation \<open>binary\<close>, if there is one, is ``true'' or a word for false.
\<close>

theorem pg_store_get_data:
  assumes "pg_faults d = []" "pg_data_ok d" "alias \<noteq> []" "deref h (Some a) = Some c" "wf_Data x" "utf8_map (d_Annotations x)"
    and "gm_lookup (sc_Datas c) alias = Some (Some x)" "0 \<le> d_Rev x" "isDirty (lib_Sum64 lb) x"
    and "\<not> json_nul (map_json (d_Annotations (checksum (lib_Sum64 lb) x)))" "binary_agrees (d_Annotations x)"
  shows "\<exists>c' d1. DoCommitSubCommand lb pg_ops (StoreDataCmd (StoreData (Some a) alias)) h d
      = (Ok (), StoreDataCmd (StoreData (Some a) alias), store h (Some a) c', d1)
    \<and> dereferenceData c' alias = Ok (pg_dataSeq d)
    \<and> (\<forall>h2 b c2. deref h2 (Some b) = Some c2 \<longrightarrow> dereferenceData c2 alias = Ok (pg_dataSeq d)
        \<longrightarrow> gm_lookup (sc_Datas c2) alias = None
        \<longrightarrow> DoCommitSubCommand lb pg_ops (GetDataCmd (GetData (Some b) alias)) h2 d1
          = (Ok (), GetDataCmd (GetData (Some b) alias), store h2 (Some b) (SetData c2 alias (Some
              \<lparr>d_Rev = pg_dataSeq d, d_Annotations = js_map (d_Annotations (checksum (lib_Sum64 lb) x)), d_Blob = d_Blob x\<rparr>)), d1))"
proof -
  let ?n = "pg_dataSeq d" and ?x = "checksum (lib_Sum64 lb) x" and ?cmd = "StoreData (Some a) alias"
  let ?c1 = "SetData c alias (Some ?x)"
  let ?c2 = "SetData ?c1 alias (Some (?x\<lparr>d_Rev := ?n\<rparr>))"
  note x = checksum_annotations [OF assms(5,6), of "lib_Sum64 lb"]
  define row where "row = \<lparr>pa_rev = ?n, pa_annotations = js_map (d_Annotations ?x),
    pa_b = map_option (if IsBinary ?x then b64_encode else hex_text) (d_Blob ?x)\<rparr>"
  define d1 where "d1 = d\<lparr>pg_dataSeq := ?n + 1, pg_data := pg_data d @ [row]\<rparr>"
  have n: "0 < ?n" "?n < 2 ^ 63" "\<forall>r\<in>set (pg_data d). pa_rev r < ?n" "in_i64 ?n"
    using assms(2) by (simp_all add: pg_data_ok_def in_i64_small)
  have "jsonb_map (d_Annotations ?x) = Ok (js_map (d_Annotations ?x))" using x(1,2) assms(10) by (intro jsonb_map_js) simp_all
  from InsertData_run [OF assms(1) n(2) this] have ins: "InsertData ?x d = (Ok (?x\<lparr>d_Rev := ?n\<rparr>), d1)"
    by (simp add: d1_def row_def)
  have prep: "StoreData_Prepare lb ?cmd h = (Ok True, store h (Some a) ?c1)"
    using assms(3-9) by (simp add: StoreData_Prepare_def StoreData_def with_ctx_def StateCtx_Data_def)
  have drv: "drv_StoreData pg_ops ?cmd (store h (Some a) ?c1) d = (Ok (), store (store h (Some a) ?c1) (Some a) ?c2, d1)"
    using assms(3) ins by (simp add: pg_ops_def pg_StoreData_def StoreData_def MustData_def StateCtx_Data_def SetData_def)
  have post: "StoreData_post ?cmd (store h (Some a) ?c2) = (Ok (), store h (Some a) (referenceData ?c2 alias ?n))"
    using assms(3) by (simp add: StoreData_post_def StoreData_def with_ctx_def MustData_def StateCtx_Data_def SetData_def)
  have "gm_lookup (d_Annotations ?x) ''binary'' = gm_lookup (d_Annotations x) ''binary''"
    by (simp add: checksum_def Data_SetAnnotation_def)
  then have rb: "row_bytes row = Ok (d_Blob x)"
    using row_bytes_agree [OF x(1)] assms(11) x(5) by (simp add: row_def binary_agrees_def)
  define y where "y = \<lparr>d_Rev = ?n, d_Annotations = js_map (d_Annotations ?x), d_Blob = d_Blob x\<rparr>"
  have q: "q_GetData ?n z d1 = (Ok (), y, d1)" for z
    using q_GetData_new [of d1 "pg_data d" row ?n z] assms(1) n(1,3) rb by (simp add: d1_def row_def y_def)
  have "dereferenceData (referenceData ?c2 alias ?n) alias = Ok ?n" using assms(3) n(4) by (rule dereference_reference)
  with pg_GetData_fresh [OF assms(3) _ _ _ q, of _ _ _ lb] prep drv post show ?thesis unfolding y_def by (intro exI [of _ "referenceData ?c2 alias ?n"] exI [of _ d1]) simp
qed

definition pg_blob_ctx :: StateCtx where
  "pg_blob_ctx = (new_ctx ''a'')\<lparr>sc_Datas := Some [(''x'', Some (Data0\<lparr>d_Blob := Some [CHR 0xFF], d_Annotations := Some [(''binary'', ''true'')]\<rparr>))]\<rparr>"

theorem pg_store_get_data_witness:
  "\<exists>c' d1. DoCommitSubCommand wire_libs pg_ops (StoreDataCmd (StoreData (Some 0) ''x'')) [0 \<mapsto> pg_blob_ctx] Migrations
      = (Ok (), StoreDataCmd (StoreData (Some 0) ''x''), store [0 \<mapsto> pg_blob_ctx] (Some 0) c', d1)
    \<and> dereferenceData c' ''x'' = Ok 1"
proof -
  let ?x = "Data0\<lparr>d_Blob := Some [CHR 0xFF], d_Annotations := Some [(''binary'', ''true'')]\<rparr>"
  have pre: "pg_faults Migrations = []" "pg_data_ok Migrations" "''x'' \<noteq> []" "deref [0 \<mapsto> pg_blob_ctx] (Some 0) = Some pg_blob_ctx"
    "wf_Data ?x" "utf8_map (d_Annotations ?x)" "gm_lookup (sc_Datas pg_blob_ctx) ''x'' = Some (Some ?x)" "0 \<le> d_Rev ?x"
    "isDirty (lib_Sum64 wire_libs) ?x" "\<not> json_nul (map_json (d_Annotations (checksum (lib_Sum64 wire_libs) ?x)))"
    "binary_agrees (d_Annotations ?x)" "pg_dataSeq Migrations = 1"
    by (simp add: deref_def | code_simp)+
  from pg_store_get_data [OF pre(1-11)] show ?thesis unfolding pre(12) by blast
qed

section \<open>A refused commit\<close>

text \<open>
  A commit copies the new revisions into its contexts before its transaction ends: when a later context is
  refused, an earlier one is left with a revision that does not exist.
\<close>

lemma pg_refused_commit_leaves_revision:
  "case pg_Commit wire_libs [TransitCmd (Transit (Some 0) ''f''), TransitCmd (Transit (Some 1) ''f'')]
      [0 \<mapsto> new_ctx ''a'', 1 \<mapsto> new_ctx ''a''] Migrations of
    (r, cs, h, d) \<Rightarrow> r = Err (ErrRevMismatch [''a'']) \<and> pg_states d = []
      \<and> map_option (s_Rev \<circ> sc_Committed) (h 0) = Some 1"
  by code_simp

section \<open>Delayed states\<close>

definition delayed_page :: "int \<Rightarrow> int \<Rightarrow> int \<Rightarrow> int \<Rightarrow> GetDelayedStatesCommand" where
  "delayed_page since until offset limit = \<lparr>gt_Since = time_Unix since 0, gt_Until = time_Unix until 0, gt_Offset = offset,
    gt_Limit = limit, gt_Result = None\<rparr>"

text \<open>
  A page of delayed states is cut in the order of their times, and the next one starts behind an offset, the
  order in which they were stored: a state that is due later than one stored after it is on neither page.
\<close>

lemma pg_delayed_page_skips:
  assumes "pg_faults d = []" "pg_active d = []" "pg_delayed d = []" "0 < pg_posSeq d" "pg_posSeq d + 1 < 2 ^ 63"
    and "pg_storable s1" "pg_storable s2" "s_ID s1 \<noteq> []" "s_ID s2 \<noteq> []" "0 < since" "since < u2" "u2 < u1" "u1 \<le> until" "until < 2 ^ 63"
  shows "\<exists>d1 d2. InsertDelayedState s1 (time_Unix u1 0) d = (Ok (), d1) \<and> InsertDelayedState s2 (time_Unix u2 0) d1 = (Ok (), d2)
    \<and> (\<exists>ds. pg_GetDelayedStates (delayed_page since until 0 1) d2
          = (Ok ((delayed_page since until 0 1)\<lparr>gt_Result := Some \<lparr>gdr_States = [ds], gdr_More = True\<rparr>\<rparr>), d2)
        \<and> ds_State ds = js_State s2
        \<and> pg_GetDelayedStates (delayed_page since until (ds_Offset ds) 1) d2
          = (Ok ((delayed_page since until (ds_Offset ds) 1)\<lparr>gt_Result := Some \<lparr>gdr_States = [], gdr_More = False\<rparr>\<rparr>), d2))"
proof -
  let ?p = "pg_posSeq d"
  let ?r1 = "\<lparr>pd_xid = pg_xid d, pd_execute_at = u1, pd_state = fromState s1, pd_pos = ?p\<rparr>"
  let ?r2 = "\<lparr>pd_xid = Suc (pg_xid d), pd_execute_at = u2, pd_state = fromState s2, pd_pos = ?p + 1\<rparr>"
  define d1 where "d1 = d\<lparr>pg_xid := Suc (pg_xid d), pg_posSeq := ?p + 1, pg_delayed := [?r1]\<rparr>"
  define d2 where "d2 = d\<lparr>pg_xid := Suc (Suc (pg_xid d)), pg_posSeq := ?p + 2, pg_delayed := [?r1, ?r2]\<rparr>"
  have j: "jsonb (State_MarshalJSON s1) = Ok (fromState s1)" "jsonb (State_MarshalJSON s2) = Ok (fromState s2)"
    using storable_args [OF assms(6)] storable_args [OF assms(7)] by (auto simp: state_args_def obind_Ok_iff)
  have rd: "toState (fromState s1) State0 = Ok (js_State s1)" "toState (fromState s2) State0 = Ok (js_State s2)"
    using assms(6,7) by (simp_all add: pg_storable_def toState_from)
  have z: "\<not> IsZero (time_Unix u1 0)" "\<not> IsZero (time_Unix u2 0)" using assms(10-12) by (simp_all add: IsZero_def zero_time_def time_Unix_def)
  have u: "in_i64 since" "in_i64 u1" "in_i64 u2" "in_i64 until" using assms(10-14) by (simp_all add: in_i64_small)
  have "InsertDelayedState s1 (time_Unix u1 0) d = (Ok (), d1)" "InsertDelayedState s2 (time_Unix u2 0) d1 = (Ok (), d2)"
    using assms z j u by (simp_all add: InsertDelayedState_def pg_exec_run nextval_def auto_xid_def d1_def d2_def)
  moreover have "settled d2 (pg_xid d)" "settled d2 (Suc (pg_xid d))" "pg_faults d2 = []"
    using assms(1,2) by (simp_all add: d2_def settled_def snapshot_xmin_def)
  moreover from this have
    "pg_GetDelayedStates (delayed_page since until 0 1) d2 = (Ok ((delayed_page since until 0 1)\<lparr>gt_Result := Some \<lparr>gdr_States =
        [\<lparr>ds_State = js_State s2, ds_Offset = ?p + 1, ds_ExecuteAt = time_Unix u2 0\<rparr>], gdr_More = True\<rparr>\<rparr>), d2)"
    "pg_GetDelayedStates (delayed_page since until (?p + 1) 1) d2
      = (Ok ((delayed_page since until (?p + 1) 1)\<lparr>gt_Result := Some \<lparr>gdr_States = [], gdr_More = False\<rparr>\<rparr>), d2)"
    using assms(4,10-13) u rd
    by (simp_all add: pg_GetDelayedStates_def delayed_page_def q_GetDelayedStates_def pg_exec_run in_i64_small)
      (simp_all add: d2_def settled_def snapshot_xmin_def)
  ultimately show ?thesis by (intro exI [of _ d1] exI [of _ d2]) fastforce
qed

end
