(* ===== verification/Spec2Isabelle.thy ===== *)
theory Spec2Isabelle
  imports ProtobufCmdProps IterProps Lifecycle DelayerProps RecoveryProps BadgerSeq BadgerDelayed NetflowProps
    NetdriverJson BadgerData PgdriverIter PgdriverData
begin

text \<open>
  flowstate is a state machine engine. A client builds commands (transit, park, commit, execute,
  delay, read, ...) on state contexts; the engine runs them against a driver, which keeps an
  append only log of committed states, each under its own revision, and refuses a commit that
  starts from a revision that is not the latest of its state. A cache driver sits between the
  engine and the driver and answers from a ring of the last committed states. Flows are executed
  until they park or fail; a delayer delivers delayed states, a recoverer retries states that
  stopped half way, and iterators and watchers follow the log.

  Parts and theories (all paths under \<open>src/\<close>).
  \<^item> \<open>Prelude\<close>, \<open>Strconv\<close>: what the source uses of the language and its standard library: results,
    errors and panics, 64 bit integers, times, Go maps, decimal numbers, base64.
  \<^item> \<open>Errors\<close> (\<open>errors.go\<close>), \<open>States\<close> (\<open>state.go\<close>, \<open>data.go\<close>): states, transitions, contexts,
    blobs and their copies.
  \<^item> \<open>Easyproto\<close> (the wire library, a parameter), \<open>Protobuf\<close>, \<open>ProtobufCmd\<close>, \<open>ProtobufCmdProps\<close>
    (\<open>protobuf.go\<close>): the codecs of states, contexts and commands and their round trips.
  \<^item> \<open>Json\<close>: JSON values, their text and the rules by which encoding/json fills a struct; \<open>Protojson\<close>,
    \<open>ProtojsonProps\<close> (\<open>protojson.go\<close> and the JSON methods of \<open>state.go\<close>, \<open>data.go\<close>, \<open>delay.go\<close>): the same
    data in JSON; \<open>ProtojsonCmd\<close>, \<open>ProtojsonCmdProps\<close> (\<open>protojson.go\<close>): the commands.
  \<^item> \<open>Commands\<close>, \<open>SubCommands\<close> (\<open>cmd.go\<close>, \<open>delay.go\<close>, \<open>driver.go\<close>): the commands, their builders
    and what they do to contexts on a heap; the commands of a commit against a driver.
  \<^item> \<open>Memdriver\<close>, \<open>MemdriverProps\<close>, \<open>MemdriverReads\<close> (\<open>memdriver/driver.go\<close>): the logs of the in-memory
    driver, its commit and its reads.
  \<^item> \<open>Flow\<close> (\<open>flow.go\<close>): the registry of flows.
  \<^item> \<open>Cachedriver\<close>, \<open>CachedriverProps\<close>, \<open>CacheCoherence\<close>, \<open>CacheOnMemdriver\<close> (\<open>cachedriver.go\<close>): the ring,
    its reads, the refresh of its head, and the ring against the log of the driver it wraps.
  \<^item> \<open>Iter\<close>, \<open>IterProps\<close> (\<open>iter.go\<close>, \<open>watcher.go\<close>): iterators over the log.
  \<^item> \<open>Engine\<close>, \<open>EngineProps\<close> (\<open>engine.go\<close>, \<open>log.go\<close>): commands, the execution of flows; \<open>Lifecycle\<close>
    (\<open>engine.go\<close>): executions and shutdowns as interleaved steps.
  \<^item> \<open>Delayer\<close>, \<open>DelayerProps\<close> (\<open>delay.go\<close>); \<open>Recovery\<close>, \<open>RecoveryProps\<close> (\<open>recovery.go\<close>).
  \<^item> The badger driver, which keeps the log in a key value store. \<open>BadgerKeys\<close> (\<open>badgerdriver/op.go\<close>): its
    keys; \<open>Badger\<close> (\<open>op.go\<close>): the store and the entries written and read; \<open>BadgerIter\<close>, \<open>BadgerIterProps\<close>
    (\<open>labelsiterator.go\<close>, \<open>orlabelsiterator.go\<close>): the iterators that meet in the indexes of labels;
    \<open>BadgerDriver\<close> (\<open>badgerdriver/driver.go\<close>): sequences, commit and reads; \<open>BadgerStore\<close>,
    \<open>BadgerProps\<close>: a store that holds a log, and what the operations do on it; \<open>BadgerReads\<close>,
    \<open>BadgerCommit\<close>, \<open>BadgerDelayed\<close>: the properties of its reads, commits and delayed states;
    \<open>BadgerData\<close>: the blobs; \<open>BadgerSeq\<close>: transactions and readers interleaved on a sequence.
  \<^item> The driver on PostgreSQL. \<open>Pgdriver\<close> (\<open>pgdriver/\<close>): the tables, the statements, the driver;
    \<open>PgdriverProps\<close>: its commits; \<open>PgdriverReads\<close>, \<open>PgdriverIter\<close>: what is read, by an id, by a reader that
    follows the log and by an iterator; \<open>PgdriverData\<close>: blobs and delayed states.
  \<^item> The driver behind the network. \<open>Http\<close>: requests, responses, the client's side of a connection and
    the message that carries an error; \<open>Netdriver\<close>, \<open>NetdriverProps\<close> (\<open>netdriver/server.go\<close>,
    \<open>netdriver/driver.go\<close>): the handlers of the server and the driver that sends its commands to them;
    \<open>NetdriverJson\<close>: the server with the JSON codec of the repository.
  \<^item> \<open>Netflow\<close>, \<open>NetflowProps\<close> (\<open>netflow/flow.go\<close>, \<open>netflow/server.go\<close>, \<open>netflow/registry.go\<close>): flows that run
    on another host, and the registry that announces flows as states of the driver.

  How code becomes definitions. A struct is a record, a method a function from the receiver (and
  the heap or the world) to the result and the changed receiver. A result is \<open>Ok\<close>, \<open>Err\<close> or
  \<open>Panic\<close>; every early return and every run time panic that the source can meet is a branch.
  Pointers to state contexts are addresses of a heap, because commands share them. A Go map is its
  list of entries in the order in which \<open>range\<close> visits them, so a theorem over all entry lists
  holds for every order. Methods that hold a mutex run to their end; where goroutines interleave
  (\<open>Lifecycle\<close>, the refresh of the cache in \<open>CacheCoherence\<close>, the readers of \<open>BadgerSeq\<close>) the steps
  between the locks are the steps of a relation or of a sequence, and what others do while a transaction of
  badger is open is an argument of its commit.

  Parameters: the wire library easyproto (\<open>easyproto_laws\<close>: what is written is read back, and every
  field shortens the input), the hash of the blobs, the text of \<open>time.Time\<close> and
  \<open>time.Duration\<close>, the clock, the choice of Go's \<open>select\<close> (\<open>pick\<close>), and the badger
  store (\<open>badger_laws\<close>: a transaction reads its snapshot and its own writes, an iterator visits the
  keys in order, a commit adds the writes of the transaction to the store and goes through when the store
  has not changed since, a sequence counts up; \<open>badger_conflict_laws\<close>, for what concerns commits among
  others, adds that no transaction commits when a key that it has read has changed), the network
  (\<open>http_server\<close>: a response arrives as it was written, a handler that panics closes the connection) and
  the JSON codec of the server (\<open>json_codec\<close>, which \<open>go_json\<close> instantiates with \<open>protojson.go\<close>). They are arguments of the
  definitions; the witnesses instantiate them with concrete functions.

  Loops and fuel. Loops over lists and over the pages of the log are total (\<open>GetStates_loop\<close> has a
  measure). Loops that may run for ever take fuel and yield \<open>None\<close> when it is used up:
  \<open>Execute_loop\<close> (one unit per flow; \<open>Execute_runs_chain\<close> shows how much a chain needs),
  \<open>queryDelayedStates_loop\<close> and \<open>doUpdateHead_loop\<close> (one unit per page;
  \<open>queryDelayedStates_spins\<close> shows that no fuel is enough for the first),
  \<open>unmarshalCommand\<close> (one unit per level of nesting; \<open>UnmarshalCommand_fuel_enough\<close> shows that the
  length of the input is enough). The JSON parser has the length of its text as fuel, and
  \<open>json_parse_print\<close> shows that it is enough for every text that has been written. The seeks of the badger iterators (\<open>li_seekState\<close>) and the reads that
  use them are partial functions to \<open>option\<close>, where \<open>None\<close> is a call that does not come back; the theorems
  show that a call comes back, and \<open>badger_or_stands_still\<close> shows a call that does not. \<open>drain\<close> runs the loop of a client for a number of rounds.

  What the lemmas show. Of the in-memory driver, whose methods run one at a time: a commit is atomic on the
  log of states, its revisions are consecutive, a stale commit is refused and no update is lost; a page of
  \<open>GetStates\<close> holds the first matching states, in order (its \<open>More\<close> can be false although more match:
  \<open>mem_GetStates_More_misses\<close>). Of the codecs, protobuf and JSON: round trips of contexts and commands, up
  to the form in which the codec carries them, for text that it can carry; a context read from any bytes
  as protobuf is well-formed and no nil map is assigned to; commands need no more fuel than their length. A
  command with a reference to a context that it does not bring makes both decoders panic.

  Of the cache: its slots carry the last states appended, by id, revision, time, target and all of their
  labels, but can have labels of states they held before (\<open>ring_leaks_labels\<close>); over a driver with an
  increasing log, which the in-memory driver is, the ring covers the log between its bounds, and a read
  without label filter is complete up to \<open>maxRev\<close>. Of the iterator: over the in-memory driver it visits
  matching states in order, once each, and goes on after \<open>Wait\<close>, but may say no at the end of a page though more match. Of the engine: over the in-memory driver chains of flows run to their
  end, conflicts end an execution quietly, refused commits change nothing, goroutines get copies. A call of
  \<open>Shutdown\<close> that returns because its wait is over leaves no flow running, and none will run; a call whose
  context ends and a call that finds the engine stopped return while flows run, and calls that race can panic
  (\<open>Shutdown_races\<close>). Of the delayer: what a query loads, that in one tick nothing runs too early or
  twice, each state in its own context, that a second page is never reached, that states whose commit is
  refused stay for good; a state that needs no commit can run again after another load. Of the recoverer:
  what it remembers and what it retries.

  Of the badger driver. Index keys sort as their numbers, unless these are negative. A commit of transits and
  parks on states with plain labels (no colon in a key, no dot in a value) is atomic on the states, their
  latest revisions and the indexes of revisions, labels and commit times, whatever other goroutines commit
  while its transactions run, as long as they use other numbers (\<open>badger_Commit_atomic\<close>), and when it
  succeeds it has found its contexts current among all that the others have committed
  (\<open>badger_Commit_serial\<close>); that a stale context is refused, and that nothing is left pending, is shown for
  a commit with no other writer (\<open>badger_Commit_no_lost_update\<close>, \<open>badger_Commit_at_rest\<close>). A commit
  of one transit that has met a conflict does not recover: its retry is refused (\<open>badger_conflict_is_final\<close>). A query for one
  plain label set, with no time and not for latest states only, reads the states that the in-memory driver reads, in
  pages longer by one (\<open>badger_reads_as_memdriver\<close>); a query without labels skips the
  revision that follows \<open>SinceRev\<close> (\<open>badger_since_skips\<close>), one for two label sets can stand still
  (\<open>badger_or_stands_still\<close>), and one for a label that another one continues with a dot can panic
  (\<open>badger_dotted_label_panics\<close>). A reader that follows the log
  can miss states: it misses none if no commit ends between its snapshot and its limit and every number is
  registered as it is taken (\<open>badger_view_complete\<close>), but the code ensures neither, and either race is enough
  (\<open>badger_view_races\<close>).

  Of PostgreSQL: a commit is atomic on the tables of states whatever statement fails, though an answer lost at the
  end may hide a commit that went through; it loses no update; a state and a blob that were written are read
  back (binary text under the one spelling \<open>true\<close> of its annotation); an iterator misses nothing while no
  transaction runs when it reads, and \<open>pg_reader_misses_state\<close> is how it misses a state when one does. Of the
  network: commits of transits and parks, and reads of states from a server of the in-memory driver, give
  what the driver itself gives, up to the form of protobuf; a missing state and a revision mismatch come back as
  such (unless an id has a comma: \<open>comma_id_splits\<close>), other errors as their text; a request refused with 400
  has no effect; a flow that another host announces is found there. The findings of the manifest name the
  lemmas that show where the code does not do what it means to.

  Simplifications. A slice grows by as little as it must (\<open>sc_Spare\<close> keeps the slots behind its
  length, whose maps \<open>CopyTo\<close> reuses); blobs are owned by the context that holds them; the text of
  errors that easyproto makes and what is logged are left out; the index of the ring is a natural
  number; states of one revision keep their order under \<open>sort.Slice\<close>; the reads of a driver do not
  change it; \<open>Wait\<close> is given the states of the driver at its attempts, one at least. Of encoding/json: the
  text of its errors and its limit on nesting (10000) are left out; the case of field names is folded for
  ASCII only; an array that occurs twice under one key is read into fresh elements; a text with a value of
  the wrong type is refused before any conversion; a nil slice of states, delayed states or label sets and
  an empty one are the same.

  Not modelled.
  \<^item> Of \<open>badgerdriver\<close>: \<open>Init\<close> and \<open>Shutdown\<close>, which open nothing and release the sequences. The theorems
    on commits are on transits and parks, whatever is done with blobs; other goroutines are the functions
    \<open>others\<close> on the driver, one per attempt, that run between the transaction of the attempt and its commit,
    and the events of \<open>BadgerSeq\<close>.
  \<^item> Of \<open>engine.go\<close> in \<open>Lifecycle\<close>: what an execution does in the body of its loop, and the panic of a
    wait group that is misused.
  \<^item> Of \<open>pgdriver\<close>: a statement of SQL is the function on the tables that its text stands for, with what it
    uses of PostgreSQL (sequences, transaction numbers, \<open>pg_current_snapshot\<close>, \<open>jsonb\<close>, casts). Statements
    that fail and answers that are lost are a list of faults, over which the theorems quantify. A statement
    that waits for a lock, the order of the keys of a \<open>jsonb\<close>, and rounding in it are not modelled; a
    commit is interleaved with others only where the theorem says so.
  \<^item> Of \<open>netdriver\<close> and \<open>netflow\<close>: the ticker of \<open>watchFlows\<close>, \<open>Close\<close>, the
    warnings. \<open>strings.TrimSpace\<close> is that of text whose white space is ASCII.
  \<^item> \<open>testcases\<close>, \<open>examples\<close>, \<open>app\<close>, \<open>ui\<close>, \<open>proto\<close>: tests, programs, assets and generated code.
\<close>

end
